(* ===== verification/AR_Prelude.thy ===== *)
theory AR_Prelude
  imports Complex_Main "HOL-Library.Word"
begin

text \<open>
  Shared vocabulary of the development: names for the machine integers of the sources,
  COM result codes, C++ integer conversions and shifts, division that truncates towards
  zero, and the lemmas on words that the component theories use through the collections
  \<open>shift_simps\<close> (reading shifts and casts as integer arithmetic) and \<open>hr_defs\<close>
  (unfolding result codes).
\<close>

unbundle bit_operations_syntax

named_theorems shift_simps "shifts and casts of words read as integer arithmetic"
named_theorems hr_defs "definitions of the COM result codes"

section \<open>Machine integers\<close>

type_synonym u8 = "8 word"
type_synonym u16 = "16 word"
type_synonym u32 = "32 word"
type_synonym u64 = "64 word"

text \<open>
  A signed integer is kept as the word of its width and read with \<^const>\<open>sint\<close>; the
  synonyms only record how the source declares the value. The left shift of a signed value
  is the shift of its two's complement pattern and the right shift is arithmetic, as the
  compiler the project builds with defines them.
\<close>

type_synonym i8 = "8 word"
type_synonym i16 = "16 word"
type_synonym i32 = "32 word"
type_synonym i64 = "64 word"

definition INT32_MAX :: i32 where "INT32_MAX = 0x7FFFFFFF"
definition INT32_MIN :: i32 where "INT32_MIN = 0x80000000"

lemma signed_take_bit_push_bit_int:
  "n \<le> m \<Longrightarrow> signed_take_bit m (push_bit n k) = push_bit n (signed_take_bit (m - n) k)"
  for k :: int
  by (rule bit_eqI) (auto simp: bit_simps min_def)

lemma sint_shl32 [shift_simps]:
  "n \<le> 31 \<Longrightarrow> sint (push_bit n w) = signed_take_bit (31 - n) (sint w) * 2 ^ n"
  for w :: i32
proof -
  assume "n \<le> 31"
  then have "sint (push_bit n w) = push_bit n (signed_take_bit (31 - n) (sint w))"
    by (simp add: signed_push_bit_eq signed_take_bit_push_bit_int)
  then show ?thesis by (simp add: push_bit_eq_mult)
qed

lemma sint_sar [shift_simps]:
  "sint (signed_drop_bit n w) = sint w div 2 ^ n"
  by (simp add: sint_signed_drop_bit_eq drop_bit_eq_div)

lemma sint_up32_16 [shift_simps]: "sint (scast w :: i32) = sint w" for w :: i16
  by (rule sint_up_scast) (simp add: is_up)

lemma sint_up32_8 [shift_simps]: "sint (scast w :: i32) = sint w" for w :: i8
  by (rule sint_up_scast) (simp add: is_up)

lemma sint_eq_signed_take_bit:
  "sint (word_of_int k :: 'a::len word) = signed_take_bit (LENGTH('a) - 1) k"
  by (simp add: sint_sbintrunc')

lemma signed_take_bit_idem_range:
  "- (2 ^ n) \<le> k \<Longrightarrow> k < 2 ^ n \<Longrightarrow> signed_take_bit n k = k" for k :: int
  by (rule signed_take_bit_int_eq_self)

lemma sint_range32: "- (2 ^ 31) \<le> sint (w :: i32) \<and> sint w < 2 ^ 31"
  using sint_greater_eq [of w] sint_less [of w] by simp

lemma sint_range16: "- (2 ^ 15) \<le> sint (w :: i16) \<and> sint w < 2 ^ 15"
  using sint_greater_eq [of w] sint_less [of w] by simp

lemma sint_range64: "- (2 ^ 63) \<le> sint (w :: i64) \<and> sint w < 2 ^ 63"
  using sint_greater_eq [of w] sint_less [of w] by simp

lemma signed_take_bit_range:
  "- (2 ^ n) \<le> signed_take_bit n k \<and> signed_take_bit n k < 2 ^ n" for k :: int
  by (simp add: signed_take_bit_int_greater_eq_minus_exp signed_take_bit_int_less_exp)

lemma le_zdiv_iff: "0 < q \<Longrightarrow> n \<le> m div q \<longleftrightarrow> n * q \<le> m" for m n q :: int
proof
  assume "0 < q" and "n \<le> m div q"
  then have "n * q \<le> m div q * q" by simp
  also have "\<dots> \<le> m" using \<open>0 < q\<close> by (simp add: minus_mod_eq_div_mult [symmetric])
  finally show "n * q \<le> m" .
next
  assume "0 < q" and "n * q \<le> m"
  then show "n \<le> m div q" using zdiv_mono1 [of "n * q" m q] by simp
qed

lemma zdiv_less_iff: "0 < q \<Longrightarrow> m div q < n \<longleftrightarrow> m < n * q" for m n q :: int
  using le_zdiv_iff [of q n m] by linarith

section \<open>Division that truncates towards zero\<close>

definition tdiv :: "int \<Rightarrow> int \<Rightarrow> int" where
  "tdiv a b = sgn a * sgn b * (\<bar>a\<bar> div \<bar>b\<bar>)"

lemma abs_tdiv: "b \<noteq> 0 \<Longrightarrow> \<bar>tdiv a b\<bar> = \<bar>a\<bar> div \<bar>b\<bar>"
  by (cases "a = 0") (auto simp: tdiv_def abs_mult abs_sgn_eq pos_imp_zdiv_nonneg_iff)

section \<open>Reference times\<close>

text \<open>Units of 100 ns (\<open>reftime.h\<close>).\<close>

type_synonym REFERENCE_TIME = i64

section \<open>COM result codes\<close>

type_synonym HRESULT = "32 word"

definition S_OK :: HRESULT where [hr_defs]: "S_OK = 0"
definition S_FALSE :: HRESULT where [hr_defs]: "S_FALSE = 1"
definition E_UNEXPECTED :: HRESULT where [hr_defs]: "E_UNEXPECTED = 0x8000FFFF"
definition E_FAIL :: HRESULT where [hr_defs]: "E_FAIL = 0x80004005"
definition E_POINTER :: HRESULT where [hr_defs]: "E_POINTER = 0x80004003"
definition E_OUTOFMEMORY :: HRESULT where [hr_defs]: "E_OUTOFMEMORY = 0x8007000E"
definition E_INVALIDARG :: HRESULT where [hr_defs]: "E_INVALIDARG = 0x80070057"
definition E_NOTIMPL :: HRESULT where [hr_defs]: "E_NOTIMPL = 0x80004001"
definition VFW_E_ALREADY_CONNECTED :: HRESULT where [hr_defs]: "VFW_E_ALREADY_CONNECTED = 0x80040204"
definition VFW_E_INVALID_DIRECTION :: HRESULT where [hr_defs]: "VFW_E_INVALID_DIRECTION = 0x80040208"
definition VFW_E_STATE_CHANGED :: HRESULT where [hr_defs]: "VFW_E_STATE_CHANGED = 0x80040223"
definition VFW_E_NOT_STOPPED :: HRESULT where [hr_defs]: "VFW_E_NOT_STOPPED = 0x80040224"
definition VFW_E_TYPE_NOT_ACCEPTED :: HRESULT where [hr_defs]: "VFW_E_TYPE_NOT_ACCEPTED = 0x8004022A"

abbreviation NOERROR :: HRESULT where "NOERROR \<equiv> S_OK"

text \<open>The macros \<open>SUCCEEDED\<close> and \<open>FAILED\<close> test the sign bit.\<close>

definition SUCCEEDED :: "HRESULT \<Rightarrow> bool" where
  "SUCCEEDED hr \<longleftrightarrow> \<not> bit hr 31"

definition FAILED :: "HRESULT \<Rightarrow> bool" where
  "FAILED hr \<longleftrightarrow> bit hr 31"

lemma FAILED_not_SUCCEEDED [simp]: "FAILED hr \<longleftrightarrow> \<not> SUCCEEDED hr"
  by (simp add: FAILED_def SUCCEEDED_def)

lemma SUCCEEDED_success [simp]: "SUCCEEDED S_OK" "SUCCEEDED S_FALSE"
  by (simp_all add: SUCCEEDED_def hr_defs)

lemma SUCCEEDED_error [simp]:
  "\<not> SUCCEEDED E_UNEXPECTED" "\<not> SUCCEEDED E_FAIL" "\<not> SUCCEEDED E_POINTER"
  "\<not> SUCCEEDED E_OUTOFMEMORY" "\<not> SUCCEEDED E_INVALIDARG"
  by (simp_all add: SUCCEEDED_def hr_defs)

end
