(* ===== verification/Arith_Util.thy ===== *)
theory Arith_Util
  imports AR_Prelude
begin

text \<open>
  Model of \<open>src/baseclasses/arithutil.cpp\<close>: the 64 by 64 bit multiply-divide
  \<open>llMulDiv\<close> and its 64 by 32 bit variant \<open>Int64x32Div32\<close>, which build a product of 128 (96)
  bits from 32 bit halves, add a signed addend to it and divide. Everything is kept on words of
  the source's widths; negation and casts wrap. \<open>ULARGE_INTEGER\<close> is the 64 bit word with its
  two halves.
\<close>

section \<open>Halves of a ULARGE\_INTEGER\<close>

definition LowPart :: "u64 \<Rightarrow> u32" where
  "LowPart w = ucast w"

definition HighPart :: "u64 \<Rightarrow> u32" where
  "HighPart w = ucast (drop_bit 32 w)"

definition large :: "u32 \<Rightarrow> u32 \<Rightarrow> u64" where
  "large h l = push_bit 32 (ucast h) OR ucast l"

definition set_LowPart :: "u32 \<Rightarrow> u64 \<Rightarrow> u64" where
  "set_LowPart l w = large (HighPart w) l"

definition set_HighPart :: "u32 \<Rightarrow> u64 \<Rightarrow> u64" where
  "set_HighPart h w = large h (LowPart w)"

definition UInt32x32To64 :: "u32 \<Rightarrow> u32 \<Rightarrow> u64" where
  "UInt32x32To64 a b = ucast a * ucast b"

text \<open>The quotient and the remainder. A zero divisor faults; so does, in the x86 assembler
  variant, a quotient that does not fit 32 bits, which the portable variant truncates.\<close>

definition EnlargedUnsignedDivide :: "bool \<Rightarrow> u64 \<Rightarrow> u32 \<Rightarrow> (u32 \<times> u32) option" where
  "EnlargedUnsignedDivide x86 Dividend Divisor =
     (if Divisor = 0 \<or> x86 \<and> HighPart (Dividend div ucast Divisor) \<noteq> 0 then None
      else Some (ucast (Dividend div ucast Divisor), ucast (Dividend mod ucast Divisor)))"

section \<open>llMulDiv\<close>

definition abs64 :: "i64 \<Rightarrow> u64" where
  "abs64 a = (if 0 \<le> sint a then a else - a)"

text \<open>The long multiplication; the result is \<open>(p[0], p[1])\<close>.\<close>

definition mul_long :: "u64 \<Rightarrow> u64 \<Rightarrow> u64 \<times> u64" where
  "mul_long ua ub =
     (let p0 = UInt32x32To64 (LowPart ua) (LowPart ub);
          x = UInt32x32To64 (LowPart ua) (HighPart ub) + UInt32x32To64 (HighPart ua) (LowPart ub)
              + ucast (HighPart p0);
          p0 = set_HighPart (LowPart x) p0;
          p1 = UInt32x32To64 (HighPart ua) (HighPart ub) + ucast (HighPart x)
      in (p0, p1))"

text \<open>The addition of the least significant two halves with carry, which both routines do in
  the same way: the new \<open>p[0]\<close> and the last \<open>uliTotal\<close>, whose upper half is the carry.\<close>

definition add_low :: "u64 \<Rightarrow> u64 \<Rightarrow> u64 \<times> u64" where
  "add_low ud0 p0 =
     (let uliTotal = (ucast (LowPart ud0) :: u64) + ucast (LowPart p0);
          p0 = set_LowPart (LowPart uliTotal) p0;
          uliTotal = large 0 (HighPart uliTotal);
          uliTotal = uliTotal + (ucast (HighPart ud0) + ucast (HighPart p0));
          p0 = set_HighPart (LowPart uliTotal) p0
      in (p0, uliTotal))"

text \<open>The addition of \<open>d\<close> (negated when the product is) and the return to sign and
  magnitude.\<close>

definition add_signed :: "bool \<Rightarrow> i64 \<Rightarrow> u64 \<times> u64 \<Rightarrow> bool \<times> u64 \<times> u64" where
  "add_signed bSign d p =
     (let (p0, p1) = p
      in if d \<noteq> 0 then
           (let (ud0, ud1) =
                  (if bSign then (- d, if 0 < sint d then - 1 else 0)
                   else (d, if sint d < 0 then - 1 else 0));
                (p0, uliTotal) = add_low ud0 p0;
                uliTotal = large 0 (HighPart uliTotal);
                p1 = p1 + (ud1 + uliTotal)
            in if sint (HighPart p1) < 0
               then (let p0 = NOT p0; p1 = NOT p1; p0 = p0 + 1;
                         p1 = p1 + (if p0 = 0 then 1 else 0)
                     in (\<not> bSign, p0, p1))
               else (bSign, p0, p1))
         else (bSign, p0, p1))"

text \<open>The bitwise long division: 64 iterations on \<open>(ullResult, p[0], p[1])\<close>.\<close>

fun long_division :: "nat \<Rightarrow> u64 \<Rightarrow> u64 \<Rightarrow> u64 \<Rightarrow> u64 \<Rightarrow> u64" where
  "long_division 0 uc ullResult p0 p1 = ullResult"
| "long_division (Suc n) uc ullResult p0 p1 =
     (let ullResult = push_bit 1 ullResult;
          p1 = push_bit 1 p1;
          p1 = (if HighPart p0 AND 0x80000000 \<noteq> 0 then set_LowPart (LowPart p1 + 1) p1 else p1);
          p0 = push_bit 1 p0
      in if uc \<le> p1 then long_division n uc (ullResult + 1) p0 (p1 - uc)
         else long_division n uc ullResult p0 p1)"

definition div_long :: "u64 \<Rightarrow> u64 \<Rightarrow> u64 \<Rightarrow> u64" where
  "div_long uc p0 p1 =
     (if p1 = 0 then p0 div uc
      else if HighPart uc = 0 then
        (let dwDivisor = LowPart uc;
             uliDividend = large (LowPart p1) (HighPart p0);
             uliResult = set_HighPart (LowPart (uliDividend div ucast dwDivisor)) 0;
             p0 = set_HighPart (LowPart (uliDividend mod ucast dwDivisor)) p0
         in p0 div ucast dwDivisor + uliResult)
      else long_division 64 uc 0 p0 p1)"

definition llMulDiv :: "i64 \<Rightarrow> i64 \<Rightarrow> i64 \<Rightarrow> i64 \<Rightarrow> i64" where
  "llMulDiv a b c d =
     (let ua = abs64 a; ub = abs64 b; uc = abs64 c;
          bSign = ((sint a < 0) \<noteq> (sint b < 0));
          (bSign, p0, p1) = add_signed bSign d (mul_long ua ub);
          bSign = (if sint c < 0 then \<not> bSign else bSign)
      in if uc \<le> p1 then (if bSign then 0x8000000000000000 else 0x7FFFFFFFFFFFFFFF)
         else (let r = div_long uc p0 p1 in if bSign then - r else r))"

section \<open>Int64x32Div32\<close>

definition abs32 :: "i32 \<Rightarrow> u32" where
  "abs32 a = (if 0 \<le> sint a then a else - a)"

definition mul_96 :: "u64 \<Rightarrow> u32 \<Rightarrow> u64 \<times> u32" where
  "mul_96 ua ub =
     (let p0 = UInt32x32To64 (LowPart ua) ub
      in if HighPart ua \<noteq> 0
         then (let x = UInt32x32To64 (HighPart ua) ub + ucast (HighPart p0)
               in (set_HighPart (LowPart x) p0, HighPart x))
         else (p0, 0))"

definition add_signed_96 :: "bool \<Rightarrow> i32 \<Rightarrow> u64 \<times> u32 \<Rightarrow> bool \<times> u64 \<times> u32" where
  "add_signed_96 bSign d p =
     (let (p0, p1) = p
      in if d \<noteq> 0 then
           (let (ud0, ud1) =
                  (if bSign then (- (scast d :: i64), if 0 < sint d then - 1 else 0)
                   else (scast d, if sint d < 0 then - 1 else 0));
                (p0, uliTotal) = add_low ud0 p0;
                p1 = p1 + (ud1 + HighPart uliTotal)
            in if sint p1 < 0
               then (let p0 = NOT p0; p1 = NOT p1; p0 = p0 + 1;
                         p1 = p1 + (if p0 = 0 then 1 else 0)
                     in (\<not> bSign, p0, p1))
               else (bSign, p0, p1))
         else (bSign, p0, p1))"

definition div_96 :: "bool \<Rightarrow> u32 \<Rightarrow> u64 \<Rightarrow> u32 \<Rightarrow> u64 option" where
  "div_96 x86 dwDivisor p0 p1 =
     (let uliDividend = large p1 (HighPart p0)
      in case (if ucast dwDivisor \<le> uliDividend
               then map_option (\<lambda>(q, r). (q, set_HighPart r p0))
                      (EnlargedUnsignedDivide x86 uliDividend dwDivisor)
               else Some (0, p0)) of
           None \<Rightarrow> None
         | Some (h, p0) \<Rightarrow>
             map_option (\<lambda>(l, r). large h l) (EnlargedUnsignedDivide x86 p0 dwDivisor))"

definition Int64x32Div32 :: "bool \<Rightarrow> i64 \<Rightarrow> i32 \<Rightarrow> i32 \<Rightarrow> i32 \<Rightarrow> i64 option" where
  "Int64x32Div32 x86 a b c d =
     (let ua = abs64 a; ub = abs32 b; uc = abs32 c;
          bSign = ((sint a < 0) \<noteq> (sint b < 0));
          (bSign, p0, p1) = add_signed_96 bSign d (mul_96 ua ub);
          bSign = (if sint c < 0 then \<not> bSign else bSign)
      in if uc \<le> p1 then Some (if bSign then 0x8000000000000000 else 0x7FFFFFFFFFFFFFFF)
         else map_option (\<lambda>r. if bSign then - r else r) (div_96 x86 uc p0 p1))"

end
