(* ===== verification/Video_Quality.thy ===== *)
theory Video_Quality
  imports Arith_Util "HOL-Library.Monad_Syntax"
begin

text \<open>
  Model of the quality management of \<open>CBaseVideoRenderer\<close> (\<open>src/baseclasses/renbase.cpp\<close>, \<open>renbase.h\<close>): when a frame is drawn,
  delayed or dropped, what is said to the supplier, and the statistics. Integers have the width of the source
  (\<open>int\<close> 32 bits, \<open>LONGLONG\<close> 64) and wrap as the compiler's do; a division by zero is \<open>None\<close>. The clocks and the answers of others are
  arguments. This is the build without \<open>PERF\<close>.
\<close>

definition cdiv :: "'a::len word \<Rightarrow> 'a word \<Rightarrow> 'a word" where
  "cdiv a b = word_of_int (tdiv (sint a) (sint b))"

definition AVGPERIOD :: i32 where "AVGPERIOD = 4"
definition UNITS :: i64 where "UNITS = 10000000"

definition TimeDiff :: "REFERENCE_TIME \<Rightarrow> i32" where
  "TimeDiff rt = (if rt <s - (50 * UNITS) then scast (- (50 * UNITS)) else if 50 * UNITS <s rt then scast (50 * UNITS) else scast rt)"

section \<open>State\<close>

text \<open>\<open>m_pQSink\<close> is whether the sink is set.\<close>

record CBaseVideoRenderer =
  m_nNormal :: i32
  m_bSupplierHandlingQuality :: bool
  m_trThrottle :: i32
  m_trRenderAvg :: i32
  m_trRenderLast :: i32
  m_tRenderStart :: i32
  m_trEarliness :: i32
  m_trTarget :: i32
  m_trWaitAvg :: i32
  m_trFrameAvg :: i32
  m_trDuration :: i32
  m_trRememberStampForPerf :: REFERENCE_TIME
  m_cFramesDropped :: i32
  m_cFramesDrawn :: i32
  m_iTotAcc :: i64
  m_iSumSqAcc :: i64
  m_trLastDraw :: REFERENCE_TIME
  m_iSumSqFrameTime :: i64
  m_iSumFrameTime :: i64
  m_trLate :: i32
  m_trFrame :: i32
  m_tStreamingStart :: i32
  m_pQSink :: bool

definition ResetStreamingTimes :: "u32 \<Rightarrow> CBaseVideoRenderer \<Rightarrow> CBaseVideoRenderer" where
  "ResetStreamingTimes now v = v\<lparr>m_trLastDraw := - 1000, m_tStreamingStart := now, m_trRenderAvg := 0, m_trFrameAvg := - 1, m_trDuration := 0,
     m_trRenderLast := 0, m_trWaitAvg := 0, m_tRenderStart := 0, m_cFramesDrawn := 0, m_cFramesDropped := 0, m_iTotAcc := 0, m_iSumSqAcc := 0,
     m_iSumSqFrameTime := 0, m_trFrame := 0, m_trLate := 0, m_iSumFrameTime := 0, m_nNormal := 0, m_trEarliness := 0, m_trTarget := - 300000,
     m_trThrottle := 0, m_trRememberStampForPerf := 0\<rparr>"

text \<open>\<open>v\<close> is what the memory held.\<close>

definition new_CBaseVideoRenderer :: "u32 \<Rightarrow> CBaseVideoRenderer \<Rightarrow> CBaseVideoRenderer" where
  "new_CBaseVideoRenderer now v = ResetStreamingTimes now (v\<lparr>m_cFramesDropped := 0, m_cFramesDrawn := 0, m_bSupplierHandlingQuality := False, m_pQSink := False\<rparr>)"

definition OnStartStreaming :: "u32 \<Rightarrow> CBaseVideoRenderer \<Rightarrow> HRESULT \<times> CBaseVideoRenderer" where
  "OnStartStreaming now v = (NOERROR, ResetStreamingTimes now v)"

definition OnStopStreaming :: "u32 \<Rightarrow> CBaseVideoRenderer \<Rightarrow> HRESULT \<times> CBaseVideoRenderer" where
  "OnStopStreaming now v = (NOERROR, v\<lparr>m_tStreamingStart := now - m_tStreamingStart v\<rparr>)"

section \<open>Drawing\<close>

definition PreparePerformanceData :: "i32 \<Rightarrow> i32 \<Rightarrow> CBaseVideoRenderer \<Rightarrow> CBaseVideoRenderer" where
  "PreparePerformanceData trLate trFrame v = v\<lparr>m_trLate := trLate, m_trFrame := trFrame\<rparr>"

definition RecordFrameLateness :: "i32 \<Rightarrow> i32 \<Rightarrow> CBaseVideoRenderer \<Rightarrow> CBaseVideoRenderer" where
  "RecordFrameLateness trLate trFrame v =
     (let tLate = cdiv trLate 10000;
          tLate = (if 1000 <s tLate \<or> tLate <s - 1000 then if m_cFramesDrawn v \<le>s 1 then 0 else if 0 <s tLate then 1000 else - 1000 else tLate);
          v = (if 1 <s m_cFramesDrawn v then v\<lparr>m_iTotAcc := m_iTotAcc v + scast tLate, m_iSumSqAcc := m_iSumSqAcc v + scast (tLate * tLate)\<rparr> else v);
          v = (if 2 <s m_cFramesDrawn v then
                 (let tFrame = cdiv trFrame 10000;
                      tFrame = (if 1000 <s tFrame \<or> tFrame <s 0 then 1000 else tFrame)
                  in v\<lparr>m_iSumSqFrameTime := m_iSumSqFrameTime v + scast (tFrame * tFrame), m_iSumFrameTime := m_iSumFrameTime v + scast tFrame\<rparr>)
               else v)
      in v\<lparr>m_cFramesDrawn := m_cFramesDrawn v + 1\<rparr>)"

text \<open>The argument of \<open>Sleep\<close>.\<close>

definition ThrottleWait :: "CBaseVideoRenderer \<Rightarrow> u32" where
  "ThrottleWait v = (if 0 <s m_trThrottle v then cdiv (m_trThrottle v) 10000 else 0)"

definition OnDirectRender :: "CBaseVideoRenderer \<Rightarrow> u32 \<times> CBaseVideoRenderer" where
  "OnDirectRender v =
     (let v = RecordFrameLateness (m_trLate v) (m_trFrame v) (v\<lparr>m_trRenderAvg := 0, m_trRenderLast := 5000000\<rparr>) in (ThrottleWait v, v))"

definition OnRenderStart :: "u32 \<Rightarrow> CBaseVideoRenderer \<Rightarrow> CBaseVideoRenderer" where
  "OnRenderStart now v = (RecordFrameLateness (m_trLate v) (m_trFrame v) v)\<lparr>m_tRenderStart := now\<rparr>"

definition OnRenderEnd :: "u32 \<Rightarrow> CBaseVideoRenderer \<Rightarrow> u32 \<times> CBaseVideoRenderer" where
  "OnRenderEnd now v =
     (let tr = (now - m_tRenderStart v) * 10000;
          v = (if tr <s m_trRenderAvg v * 2 \<or> tr <s 2 * m_trRenderLast v
               then v\<lparr>m_trRenderAvg := cdiv (tr + (AVGPERIOD - 1) * m_trRenderAvg v) AVGPERIOD\<rparr> else v);
          v = v\<lparr>m_trRenderLast := tr\<rparr>
      in (ThrottleWait v, v))"

section \<open>Quality messages\<close>

datatype QualityMessageType = Famine | Flood

record Quality =
  Type :: QualityMessageType
  Proportion :: i32
  Late :: REFERENCE_TIME
  TimeStamp :: REFERENCE_TIME

definition Video_SetSink :: "bool \<Rightarrow> CBaseVideoRenderer \<Rightarrow> HRESULT \<times> CBaseVideoRenderer" where
  "Video_SetSink piqc v = (NOERROR, v\<lparr>m_pQSink := piqc\<rparr>)"

definition Video_Notify :: "Quality \<Rightarrow> CBaseVideoRenderer \<Rightarrow> (HRESULT \<times> CBaseVideoRenderer) option" where
  "Video_Notify q v =
     (if 1000 \<le>s Proportion q then Some (NOERROR, v\<lparr>m_trThrottle := 0\<rparr>)
      else if Proportion q + 167 = 0 then None
      else Some (NOERROR, v\<lparr>m_trThrottle := - 330000 + cdiv 388880000 (Proportion q + 167)\<rparr>))"

definition quality_proportion :: "REFERENCE_TIME \<Rightarrow> CBaseVideoRenderer \<Rightarrow> i32" where
  "quality_proportion trLate v =
     (if m_trFrameAvg v <s 0 then 1000
      else if 0 <s trLate then
        (let p = 1000 - scast (cdiv trLate (cdiv UNITS 1000)) in if p <s 500 then 500 else p)
      else if 20000 <s m_trWaitAvg v \<and> trLate <s - 20000 then
        (let p = (if m_trFrameAvg v \<le>s m_trWaitAvg v then 2000
                  else if m_trWaitAvg v <s m_trFrameAvg v + 20000
                  then 1000 * cdiv (m_trFrameAvg v) (m_trFrameAvg v + 20000 - m_trWaitAvg v)
                  else 2000)
         in if 2000 <s p then 2000 else p)
      else 1000)"

definition quality_message :: "REFERENCE_TIME \<Rightarrow> REFERENCE_TIME \<Rightarrow> CBaseVideoRenderer \<Rightarrow> Quality" where
  "quality_message trLate trRealStream v =
     \<lparr>Type = (if m_trFrameAvg v <s 0 then Famine else if 2 * m_trRenderAvg v <s m_trFrameAvg v then Famine else Flood),
      Proportion = quality_proportion trLate v, Late = trLate + scast (cdiv (m_trRenderAvg v) 2), TimeStamp = trRealStream\<rparr>"

text \<open>Answers of others: whether the connected pin has \<open>IQualityControl\<close>, and what the sink returns. The message is \<open>None\<close> when
  there is no sink.\<close>

record video_env =
  peer_has_sink :: bool
  sink_answer :: "Quality \<Rightarrow> HRESULT"

definition SendQuality :: "video_env \<Rightarrow> REFERENCE_TIME \<Rightarrow> REFERENCE_TIME \<Rightarrow> CBaseVideoRenderer \<Rightarrow> HRESULT \<times> Quality option \<times> CBaseVideoRenderer" where
  "SendQuality e trLate trRealStream v =
     (let q = quality_message trLate trRealStream v;
          v = (if \<not> m_pQSink v \<and> peer_has_sink e then v\<lparr>m_pQSink := True\<rparr> else v)
      in if m_pQSink v then (sink_answer e q, Some q, v) else (S_FALSE, None, v))"

section \<open>The decision\<close>

text \<open>The allowance for the monitor.\<close>

definition monitor_bias :: "REFERENCE_TIME \<times> REFERENCE_TIME \<Rightarrow> REFERENCE_TIME \<times> REFERENCE_TIME" where
  "monitor_bias = (\<lambda>(trStart, trEnd). if 80000 \<le>s trStart then (trStart - 80000, trEnd - 80000) else (trStart, trEnd))"

definition frame_rate_change :: "i32 \<Rightarrow> CBaseVideoRenderer \<Rightarrow> CBaseVideoRenderer" where
  "frame_rate_change trDuration v =
     (let t = cdiv (m_trDuration v) 32
      in if m_trDuration v + t <s trDuration \<or> trDuration <s m_trDuration v - t then v\<lparr>m_trFrameAvg := trDuration, m_trDuration := trDuration\<rparr> else v)"

definition slide_earliness :: "i32 \<Rightarrow> bool \<Rightarrow> CBaseVideoRenderer \<Rightarrow> CBaseVideoRenderer" where
  "slide_earliness trLate bJustDroppedFrame v =
     v\<lparr>m_trEarliness := (if 0 <s trLate then 0
        else if m_trEarliness v \<le>s trLate \<or> bJustDroppedFrame then trLate
        else m_trEarliness v - cdiv (m_trEarliness v) 8)\<rparr>"

definition draws :: "i32 \<Rightarrow> i32 \<Rightarrow> REFERENCE_TIME \<Rightarrow> CBaseVideoRenderer \<Rightarrow> bool" where
  "draws trLate trDuration trRealStream v \<longleftrightarrow>
     3 * m_trRenderAvg v \<le>s m_trFrameAvg v \<or>
     (if m_bSupplierHandlingQuality v then trLate \<le>s trDuration * 4 else trLate + trLate <s trDuration) \<or>
     80000 <s m_trWaitAvg v \<or> UNITS <s trRealStream - m_trLastDraw v"

definition plays_asap :: "i32 \<Rightarrow> i32 \<Rightarrow> bool \<Rightarrow> CBaseVideoRenderer \<Rightarrow> bool" where
  "plays_asap trLate trDuration bJustDroppedFrame v \<longleftrightarrow>
     (bJustDroppedFrame \<or> trDuration + cdiv trDuration 16 <s m_trFrameAvg v \<and> - trDuration * 10 <s trLate) \<and> \<not> trLate <s - 9000000"

definition draw_asap :: "i32 \<Rightarrow> i32 \<Rightarrow> REFERENCE_TIME \<Rightarrow> CBaseVideoRenderer \<Rightarrow> CBaseVideoRenderer" where
  "draw_asap trLate trFrame trRealStream v =
     (let v = v\<lparr>m_nNormal := 0, m_trWaitAvg := cdiv (m_trWaitAvg v * (AVGPERIOD - 1)) AVGPERIOD,
              m_trFrameAvg := cdiv (trFrame + m_trFrameAvg v * (AVGPERIOD - 1)) AVGPERIOD\<rparr>;
          v = (PreparePerformanceData trLate trFrame v)\<lparr>m_trLastDraw := trRealStream\<rparr>
      in if trLate <s m_trEarliness v then v\<lparr>m_trEarliness := trLate\<rparr> else v)"

definition draw_normal :: "i32 \<Rightarrow> i32 \<Rightarrow> i32 \<Rightarrow> i32 \<Rightarrow> REFERENCE_TIME \<Rightarrow> REFERENCE_TIME \<Rightarrow> CBaseVideoRenderer \<Rightarrow> HRESULT \<times> REFERENCE_TIME \<times> CBaseVideoRenderer" where
  "draw_normal trTrueLate trDuration trFrame trWaitAvg trRealStream trStart v =
     (let v = v\<lparr>m_nNormal := m_nNormal v + 1, m_trFrameAvg := trDuration\<rparr>;
          trE = (if m_trEarliness v <s - m_trFrameAvg v then - m_trFrameAvg v else m_trEarliness v);
          trStart = trStart + scast trE;
          Delay = - trTrueLate;
          Result = (if Delay \<le>s 0 then S_OK else S_FALSE);
          v = v\<lparr>m_trWaitAvg := trWaitAvg\<rparr>;
          (trFrame, v) = (if Result = S_FALSE then (TimeDiff (trStart - m_trLastDraw v), v\<lparr>m_trLastDraw := trStart\<rparr>)
                          else (trFrame, v\<lparr>m_trLastDraw := trRealStream\<rparr>));
          iAccuracy = (if 0 <s Delay then TimeDiff (trStart - m_trRememberStampForPerf v) else trTrueLate)
      in (Result, trStart, PreparePerformanceData iAccuracy trFrame v))"

text \<open>\<open>clock\<close> is the answer of the reference clock, \<open>start\<close> the start of the stream. The result has the times as changed and the message sent.\<close>

definition ShouldDrawSampleNow :: "video_env \<Rightarrow> REFERENCE_TIME \<Rightarrow> REFERENCE_TIME \<Rightarrow> bool \<Rightarrow> REFERENCE_TIME \<times> REFERENCE_TIME \<Rightarrow> CBaseVideoRenderer \<Rightarrow>
    HRESULT \<times> (REFERENCE_TIME \<times> REFERENCE_TIME) \<times> Quality option \<times> CBaseVideoRenderer" where
  "ShouldDrawSampleNow e clock start discontinuity stamps v =
     (let (trStart, trEnd) = monitor_bias stamps;
          v = v\<lparr>m_trRememberStampForPerf := trStart\<rparr>;
          trRealStream = clock - start;
          trTrueLate = TimeDiff (trRealStream - trStart);
          trLate = trTrueLate;
          (hr, q, v) = SendQuality e (scast trLate) trRealStream v;
          v = v\<lparr>m_bSupplierHandlingQuality := hr = S_OK\<rparr>;
          trDuration = scast (trEnd - trStart);
          v = frame_rate_change trDuration v;
          bJustDroppedFrame = (m_bSupplierHandlingQuality v \<and> discontinuity \<or> m_nNormal v = - 1);
          v = slide_earliness trLate bJustDroppedFrame v;
          trL = (if trLate <s 0 then - trLate else 0);
          trWaitAvg = cdiv (trL + m_trWaitAvg v * (AVGPERIOD - 1)) AVGPERIOD;
          tr = trRealStream - m_trLastDraw v;
          trFrame = scast (if 10000000 <s tr then 10000000 else tr)
      in if draws trLate trDuration trRealStream v then
           if plays_asap trLate trDuration bJustDroppedFrame v then (S_OK, (trStart, trEnd), q, draw_asap trLate trFrame trRealStream v)
           else (let (hr, trStart, v) = draw_normal trTrueLate trDuration trFrame trWaitAvg trRealStream trStart v in (hr, (trStart, trEnd), q, v))
         else (E_FAIL, (trStart, trEnd), q, v\<lparr>m_trWaitAvg := trWaitAvg, m_nNormal := - 1\<rparr>))"

text \<open>\<open>scheduled\<close> is the result of \<open>CBaseRenderer::ScheduleSample\<close>, which calls \<open>ShouldDrawSampleNow\<close>.\<close>

definition Video_ScheduleSample :: "bool \<Rightarrow> CBaseVideoRenderer \<Rightarrow> bool \<times> CBaseVideoRenderer" where
  "Video_ScheduleSample scheduled v = (if \<not> scheduled then (False, v\<lparr>m_cFramesDropped := m_cFramesDropped v + 1\<rparr>) else (True, v))"

section \<open>Statistics\<close>

definition get_FramesDroppedInRenderer :: "CBaseVideoRenderer \<Rightarrow> HRESULT \<times> i32" where
  "get_FramesDroppedInRenderer v = (NOERROR, m_cFramesDropped v)"

definition get_FramesDrawn :: "CBaseVideoRenderer \<Rightarrow> HRESULT \<times> i32" where
  "get_FramesDrawn v = (NOERROR, m_cFramesDrawn v)"

text \<open>\<open>MulDiv\<close> is the function of the system.\<close>

definition get_AvgFrameRate :: "(i32 \<Rightarrow> i32 \<Rightarrow> i32 \<Rightarrow> i32) \<Rightarrow> bool \<Rightarrow> u32 \<Rightarrow> CBaseVideoRenderer \<Rightarrow> HRESULT \<times> i32" where
  "get_AvgFrameRate MulDiv streaming now v =
     (let t = (if streaming then now - m_tStreamingStart v else m_tStreamingStart v)
      in (NOERROR, if t \<le>s 0 then 0 else MulDiv 100000 (m_cFramesDrawn v) t))"

definition get_AvgSyncOffset :: "bool \<Rightarrow> CBaseVideoRenderer \<Rightarrow> HRESULT \<times> i32" where
  "get_AvgSyncOffset has_clock v =
     (NOERROR, if \<not> has_clock then 0 else if m_cFramesDrawn v \<le>s 1 then 0 else scast (cdiv (m_iTotAcc v) (scast (m_cFramesDrawn v - 1))))"

text \<open>The initial guess, for \<open>x\<close> at most \<open>0x40000000\<close>: \<open>s\<close> is doubled while its square is below \<open>x\<close>.\<close>

partial_function (option) isqrt_guess :: "i32 \<Rightarrow> i32 \<Rightarrow> i32 option" where
  "isqrt_guess x s = (if s * s <s x then isqrt_guess x (2 * s) else Some s)"

definition newton :: "i32 \<Rightarrow> i32 \<Rightarrow> i32 option" where
  "newton x s = (if 2 * s = 0 then None else Some (cdiv (s * s + x) (2 * s)))"

definition isqrt :: "i32 \<Rightarrow> i32 option" where
  "isqrt x =
     (if 0x40000000 <s x then Some 0x8000
      else do {
        s \<leftarrow> isqrt_guess x 1;
        if x = 0 then Some 0
        else do {
          s \<leftarrow> newton x s;
          s \<leftarrow> (if 0 \<le>s s then newton x s else Some s);
          if 0 \<le>s s then newton x s else Some s } })"

definition GetStdDev :: "bool \<Rightarrow> i32 \<Rightarrow> i64 \<Rightarrow> i64 \<Rightarrow> (HRESULT \<times> i32) option" where
  "GetStdDev has_clock nSamples llSumSq iTot =
     (if \<not> has_clock then Some (NOERROR, 0)
      else if nSamples \<le>s 1 then Some (NOERROR, 0)
      else (let x = llSumSq - llMulDiv iTot iTot (scast nSamples) 0;
                x = cdiv x (scast (nSamples - 1))
            in do { r \<leftarrow> isqrt (scast x); Some (NOERROR, r) }))"

definition get_DevSyncOffset :: "bool \<Rightarrow> CBaseVideoRenderer \<Rightarrow> (HRESULT \<times> i32) option" where
  "get_DevSyncOffset has_clock v = GetStdDev has_clock (m_cFramesDrawn v - 1) (m_iSumSqAcc v) (m_iTotAcc v)"

definition get_Jitter :: "bool \<Rightarrow> CBaseVideoRenderer \<Rightarrow> (HRESULT \<times> i32) option" where
  "get_Jitter has_clock v = GetStdDev has_clock (m_cFramesDrawn v - 2) (m_iSumSqFrameTime v) (m_iSumFrameTime v)"

end
