(* ===== verification/Arith_Util_Props.thy ===== *)
theory Arith_Util_Props
  imports Arith_Util
begin

text \<open>
  Correctness of the multiply-divide routines: the halves arithmetic computes the exact
  product, the extended addition the exact sum in sign and magnitude, the three division paths
  the exact quotient, and together the truncated quotient of \<open>a * b + d\<close> by \<open>c\<close>.
\<close>

section \<open>Halves\<close>

lemma u32_bound: "unat (w :: u32) < 2 ^ 32"
  using unsigned_less [of w, where 'a = nat] by simp

lemma u64_bound: "unat (w :: u64) < 2 ^ 64"
  using unsigned_less [of w, where 'a = nat] by simp

lemma unat_LowPart [simp]: "unat (LowPart w) = unat w mod 2 ^ 32"
  by (simp add: LowPart_def unsigned_ucast_eq take_bit_eq_mod)

lemma unat_HighPart [simp]: "unat (HighPart w) = unat w div 2 ^ 32"
proof -
  have "unat w div 2 ^ 32 < 2 ^ 32"
    using u64_bound [of w] by (simp add: less_mult_imp_div_less)
  then show ?thesis
    by (simp add: HighPart_def unsigned_ucast_eq take_bit_eq_mod drop_bit_eq_div unat_div)
qed

lemma unat_up [simp]: "unat (ucast w :: u64) = unat (w :: u32)"
  using u32_bound [of w] by (simp add: unsigned_ucast_eq take_bit_eq_mod)

lemma unat_large [simp]: "unat (large h l) = unat h * 2 ^ 32 + unat l"
proof -
  have "push_bit 32 (ucast h :: u64) OR ucast l = push_bit 32 (ucast h) + ucast l"
    by (rule disjunctive_add [symmetric]) (auto simp: bit_simps dest: bit_imp_le_length)
  then have "unat (large h l) = unat ((ucast h :: u64) * 2 ^ 32 + ucast l)"
    by (simp add: large_def push_bit_eq_mult)
  also have "\<dots> = unat h * 2 ^ 32 + unat l"
    using u32_bound [of h] u32_bound [of l] by (simp add: unat_word_ariths)
  finally show ?thesis .
qed

lemma unat_set_parts [simp]:
  "unat (set_LowPart l w) = unat w div 2 ^ 32 * 2 ^ 32 + unat l"
  "unat (set_HighPart h w) = unat h * 2 ^ 32 + unat w mod 2 ^ 32"
  by (simp_all add: set_LowPart_def set_HighPart_def)

lemma unat_UInt32x32To64 [simp]: "unat (UInt32x32To64 a b) = unat a * unat b"
proof -
  have "unat a * unat b < 2 ^ 32 * 2 ^ 32"
    using u32_bound [of a] u32_bound [of b] by (intro mult_strict_mono) simp_all
  then show ?thesis by (simp add: UInt32x32To64_def unat_word_ariths)
qed

lemma uint_word_of_int_small: "0 \<le> k \<Longrightarrow> k < 2 ^ LENGTH('a) \<Longrightarrow> uint (word_of_int k :: 'a::len word) = k"
  by (simp add: uint_word_of_int_eq take_bit_int_eq_self)

lemma abs64_eq: "int (unat (abs64 a)) = \<bar>sint a\<bar>"
proof -
  have "abs64 a = word_of_int \<bar>sint a\<bar>"
    by (cases "0 \<le> sint a") (simp_all add: abs64_def)
  moreover have "uint (word_of_int \<bar>sint a\<bar> :: u64) = \<bar>sint a\<bar>"
    by (rule uint_word_of_int_small) (use sint_range64 [of a] in auto)
  ultimately show ?thesis by simp
qed

lemma abs64_le: "unat (abs64 a) \<le> 2 ^ 63"
proof -
  have "int (unat (abs64 a)) \<le> int (2 ^ 63)"
    using abs64_eq [of a] sint_range64 [of a] by auto
  then show ?thesis by (simp only: of_nat_le_iff)
qed

section \<open>The long multiplication\<close>

definition val128 :: "u64 \<times> u64 \<Rightarrow> nat" where
  "val128 p = unat (snd p) * 2 ^ 64 + unat (fst p)"

lemma half_le: "unat w \<le> 2 ^ 63 \<Longrightarrow> unat (HighPart w) \<le> 2 ^ 31"
  by (simp add: div_le_mono [of _ "2 ^ 63", simplified])

lemma limb_product:
  fixes B :: nat
  assumes "xq * B + xr = al * bh + ah * bl + pq" and "pq * B + pr = al * bl"
  shows "(ah * bh + xq) * (B * B) + (xr * B + pr) = (ah * B + al) * (bh * B + bl)"
proof -
  have "(xq * B + xr) * B + (pq * B + pr) = (al * bh + ah * bl + pq) * B + al * bl"
    by (simp only: assms)
  then have "xq * B * B + xr * B + pr = (al * bh + ah * bl) * B + al * bl"
    by (simp add: algebra_simps)
  then show ?thesis by (simp add: algebra_simps)
qed

lemma mul_long_val:
  assumes "unat ua \<le> 2 ^ 63" and "unat ub \<le> 2 ^ 63"
  shows "val128 (mul_long ua ub) = unat ua * unat ub"
proof -
  let ?B = "2 ^ 32 :: nat"
  define al ah bl bh where "al = unat (LowPart ua)" "ah = unat (HighPart ua)"
    "bl = unat (LowPart ub)" "bh = unat (HighPart ub)"
  note ab = al_ah_bl_bh_def
  have ua: "unat ua = ah * ?B + al" and ub: "unat ub = bh * ?B + bl" by (simp_all add: ab)
  have bnd: "al < ?B" "bl < ?B" "ah \<le> 2 ^ 31" "bh \<le> 2 ^ 31"
    using half_le [OF assms(1)] half_le [OF assms(2)] by (simp_all add: ab u32_bound)
  have x1: "al * bh \<le> (?B - 1) * 2 ^ 31" and x2: "ah * bl \<le> 2 ^ 31 * (?B - 1)"
    and p: "al * bl \<le> (?B - 1) * (?B - 1)" and q: "ah * bh \<le> 2 ^ 31 * 2 ^ 31"
    using bnd by (intro mult_le_mono; simp)+
  define P0 where "P0 = al * bl"
  define X where "X = al * bh + ah * bl + P0 div ?B"
  have "P0 div ?B \<le> ?B - 1" using p unfolding P0_def [symmetric] by (simp add: div_le_mono order_trans)
  then have X: "X < 2 ^ 64" using x1 x2 unfolding X_def by simp
  define w where "w = UInt32x32To64 (LowPart ua) (HighPart ub) + UInt32x32To64 (HighPart ua) (LowPart ub)
      + ucast (HighPart (UInt32x32To64 (LowPart ua) (LowPart ub)))"
  have "al * bh + ah * bl < 2 ^ 64" using X by (simp add: X_def)
  then have w: "unat w = X" using X by (simp add: w_def unat_word_ariths ab X_def P0_def)
  have mul: "mul_long ua ub = (set_HighPart (LowPart w) (UInt32x32To64 (LowPart ua) (LowPart ub)),
      UInt32x32To64 (HighPart ua) (HighPart ub) + ucast (HighPart w))"
    by (simp add: mul_long_def Let_def w_def)
  have "X div ?B < ?B" using X by (simp add: less_mult_imp_div_less)
  then have "ah * bh + X div ?B < 2 ^ 64" using q by simp
  then have hi: "unat (snd (mul_long ua ub)) = ah * bh + X div ?B"
    by (simp add: mul unat_word_ariths w ab)
  have lo: "unat (fst (mul_long ua ub)) = X mod ?B * ?B + P0 mod ?B"
    by (simp add: mul w P0_def ab)
  have "(ah * bh + X div ?B) * (?B * ?B) + (X mod ?B * ?B + P0 mod ?B) = (ah * ?B + al) * (bh * ?B + bl)"
    by (rule limb_product [of _ _ _ _ _ _ _ "P0 div ?B"]) (simp_all only: div_mult_mod_eq X_def P0_def)
  then show ?thesis unfolding val128_def hi lo ua ub by simp
qed

section \<open>The extended addition\<close>

lemma limb_sum:
  fixes B :: nat
  assumes "0 < B" "t = ul + pl" "t1 = t div B + (uh + ph)"
  shows "(uh * B + ul + (ph * B + pl)) mod (B * B) = t1 mod B * B + t mod B"
    and "(uh * B + ul + (ph * B + pl)) div (B * B) = t1 div B"
proof -
  have "uh * B + ul + (ph * B + pl) = (uh + ph) * B + (t div B * B + t mod B)"
    using assms(2) by (simp add: algebra_simps)
  also have "\<dots> = t1 * B + t mod B" by (simp add: assms(3) algebra_simps)
  finally have e: "uh * B + ul + (ph * B + pl) = t1 * B + t mod B" .
  have d: "(t1 * B + t mod B) div B = t1" using assms(1) by simp
  show "(uh * B + ul + (ph * B + pl)) div (B * B) = t1 div B"
    unfolding e div_mult2_eq d ..
  show "(uh * B + ul + (ph * B + pl)) mod (B * B) = t1 mod B * B + t mod B"
    unfolding e mod_mult2_eq d using assms(1) by simp
qed

lemma add_low_val:
  "unat (fst (add_low u p)) = (unat u + unat p) mod 2 ^ 64"
  "unat (HighPart (snd (add_low u p))) = (unat u + unat p) div 2 ^ 64"
proof -
  let ?B = "2 ^ 32 :: nat"
  define ul uh pl ph where "ul = unat (LowPart u)" "uh = unat (HighPart u)"
    "pl = unat (LowPart p)" "ph = unat (HighPart p)"
  note d = ul_uh_pl_ph_def
  define t where "t = ul + pl"
  define t1 where "t1 = t div ?B + (uh + ph)"
  have bnd: "ul < ?B" "pl < ?B" "uh < ?B" "ph < ?B" by (simp_all only: d u32_bound)
  then have t: "t < 2 * ?B" "t div ?B < 2" by (simp_all add: t_def less_mult_imp_div_less)
  then have t1: "t1 < 2 ^ 64" using bnd by (simp add: t1_def)
  define w where "w = (ucast (LowPart u) :: u64) + ucast (LowPart p)"
  have w: "unat w = t" using t by (simp add: w_def unat_word_ariths t_def d)
  define w1 where "w1 = large 0 (HighPart w) +
      (ucast (HighPart u) + ucast (HighPart (set_LowPart (LowPart w) p)))"
  have "unat (HighPart (set_LowPart (LowPart w) p)) = ph" by (simp add: d)
  then have w1: "unat w1 = t1"
    using t1 bnd w by (simp add: w1_def unat_word_ariths t1_def d)
  have eq: "add_low u p = (set_HighPart (LowPart w1) (set_LowPart (LowPart w) p), w1)"
    by (simp add: add_low_def Let_def w_def w1_def)
  have up: "unat u = uh * ?B + ul" "unat p = ph * ?B + pl" by (simp_all add: d)
  note sum = limb_sum [of ?B t ul pl t1 uh ph, OF _ t_def t1_def]
  show "unat (fst (add_low u p)) = (unat u + unat p) mod 2 ^ 64"
    using sum(1) unfolding up eq by (simp add: w w1)
  show "unat (HighPart (snd (add_low u p))) = (unat u + unat p) div 2 ^ 64"
    using sum(2) unfolding up eq by (simp add: w1)
qed

text \<open>The value of the sum of a product \<open>P\<close> and a signed addend \<open>e\<close> in two's complement,
  and its return to sign and magnitude.\<close>

lemma complement_sign:
  fixes V :: int
  assumes "- (2 ^ n) \<le> V" "V < 2 ^ n"
  shows "2 ^ n \<le> V mod (2 * 2 ^ n) \<longleftrightarrow> V < 0"
    and "V < 0 \<Longrightarrow> 2 * 2 ^ n - V mod (2 * 2 ^ n) = - V"
    and "0 \<le> V \<Longrightarrow> V mod (2 * 2 ^ n) = V"
proof -
  have neg: "V mod (2 * 2 ^ n) = V + 2 * 2 ^ n" if "V < 0"
    using that assms mod_pos_pos_trivial [of "V + 2 * 2 ^ n" "2 * 2 ^ n"] by simp
  have pos: "V mod (2 * 2 ^ n) = V" if "0 \<le> V"
    using that assms by (intro mod_pos_pos_trivial) simp_all
  show "2 ^ n \<le> V mod (2 * 2 ^ n) \<longleftrightarrow> V < 0"
    using neg pos assms by (cases "V < 0") auto
  show "V < 0 \<Longrightarrow> 2 * 2 ^ n - V mod (2 * 2 ^ n) = - V" using neg by simp
  show "0 \<le> V \<Longrightarrow> V mod (2 * 2 ^ n) = V" using pos by simp
qed

lemma sint_neg32: "sint w < 0 \<longleftrightarrow> 2 ^ 31 \<le> unat w" for w :: u32
proof -
  have "sint w = (uint w + 2 ^ 31) mod 2 ^ 32 - 2 ^ 31"
    using int_word_sint [of "uint w", where 'a = 32] by simp
  moreover have "uint w < 2 ^ 32" "0 \<le> uint w" using uint_lt2p [of w] by simp_all
  moreover have "2 ^ 31 \<le> unat w \<longleftrightarrow> 2 ^ 31 \<le> uint w"
    using of_nat_le_iff [of "2 ^ 31" "unat w", where 'a = int] by simp
  moreover have "(uint w + 2 ^ 31) mod 2 ^ 32 = uint w + 2 ^ 31 - 2 ^ 32" if "2 ^ 31 \<le> uint w"
    using that calculation(2) mod_pos_pos_trivial [of "uint w - 2 ^ 31" "2 ^ 32"]
      mod_add_self2 [of "uint w - 2 ^ 31" "2 ^ 32"] by (simp add: add.commute)
  moreover have "(uint w + 2 ^ 31) mod 2 ^ 32 = uint w + 2 ^ 31" if "\<not> 2 ^ 31 \<le> uint w"
    using that calculation(3) by simp
  ultimately show ?thesis by auto
qed

lemma unat_not64: "unat (NOT w) = 2 ^ 64 - 1 - unat w" for w :: u64
proof -
  have "NOT w = - 1 - w" by (simp add: not_eq_complement)
  moreover have "unat (- 1 :: u64) = 2 ^ 64 - 1" by (simp add: unsigned_minus_1_eq_mask mask_eq_exp_minus_1)
  ultimately show ?thesis using u64_bound [of w] by (simp add: unat_sub_if')
qed

lemma negate128:
  assumes "0 < val128 (p0, p1)"
  shows "val128 (NOT p0 + 1, NOT p1 + (if NOT p0 + 1 = 0 then 1 else 0)) = 2 ^ 128 - val128 (p0, p1)"
proof -
  have b: "unat p0 < 2 ^ 64" "unat p1 < 2 ^ 64" by (rule u64_bound)+
  have lo: "unat (NOT p0 + 1) = (if unat p0 = 0 then 0 else 2 ^ 64 - unat p0)"
    using b by (simp add: unat_word_ariths unat_not64) auto
  have z: "NOT p0 + 1 = 0 \<longleftrightarrow> unat p0 = 0"
    using lo b by (metis diff_is_0_eq not_le unat_eq_zero)
  have hi: "unat (NOT p1 + (if NOT p0 + 1 = 0 then 1 else 0)) =
      (if unat p0 = 0 then 2 ^ 64 - unat p1 else 2 ^ 64 - 1 - unat p1)"
    using assms b unfolding z by (auto simp: unat_word_ariths unat_not64 val128_def)
  show ?thesis using b assms unfolding val128_def fst_conv snd_conv hi lo by auto
qed

text \<open>The addend as a 128 bit two's complement number.\<close>

lemma addend_val:
  fixes e :: int
  assumes "- (2 ^ 63) \<le> e" "e \<le> 2 ^ 63"
  shows "int (val128 (word_of_int e, if e < 0 then - 1 else 0)) = e mod 2 ^ 128"
proof (cases "e < 0")
  case True
  have "uint (word_of_int e :: u64) = e mod 2 ^ 64" by (simp add: uint_word_of_int)
  also have "\<dots> = e + 2 ^ 64"
    using True assms mod_pos_pos_trivial [of "e + 2 ^ 64" "2 ^ 64"] by simp
  finally have "int (unat (word_of_int e :: u64)) = e + 2 ^ 64" by simp
  moreover have "e mod 2 ^ 128 = e + 2 ^ 128"
    using True assms mod_pos_pos_trivial [of "e + 2 ^ 128" "2 ^ 128"] by simp
  ultimately show ?thesis using True
    by (simp add: val128_def unsigned_minus_1_eq_mask mask_eq_exp_minus_1)
next
  case False
  have "uint (word_of_int e :: u64) = e"
    by (rule uint_word_of_int_small) (use False assms in simp_all)
  then show ?thesis using False assms by (simp add: val128_def)
qed

definition signed_mag :: "bool \<Rightarrow> nat \<Rightarrow> int" where
  "signed_mag s n = (if s then - int n else int n)"

lemma addend_words:
  "(if s then (- d, if 0 < sint d then - 1 else 0) else (d, if sint d < 0 then - 1 else 0)) =
   (word_of_int (if s then - sint d else sint d), if (if s then - sint d else sint d) < 0 then - 1 else 0)"
  for d :: i64
  by simp

lemma ext_sum_val:
  fixes e :: int
  assumes "- (2 ^ 63) \<le> e" "e \<le> 2 ^ 63"
    and "add_low (word_of_int e) p0 = (q0, t)"
    and "q1 = p1 + ((if e < 0 then - 1 else 0) + large 0 (HighPart t))"
  shows "int (val128 (q0, q1)) = (int (val128 (p0, p1)) + e) mod 2 ^ 128"
proof -
  let ?M = "2 ^ 64 :: nat" and ?u0 = "word_of_int e :: u64"
  define u1 where "u1 = (if e < 0 then - 1 else 0 :: u64)"
  define c where "c = (unat ?u0 + unat p0) div ?M"
  have c: "unat (HighPart t) = c" and q0: "unat q0 = (unat ?u0 + unat p0) mod ?M"
    using add_low_val [of ?u0 p0] assms(3) by (simp_all add: c_def)
  have "unat q1 = (unat p1 + (unat u1 + c)) mod ?M"
    unfolding assms(4) u1_def [symmetric] by (simp add: unat_word_ariths c [simplified] mod_add_right_eq)
  then have q1: "unat q1 = (c + (unat u1 + unat p1)) mod ?M" by (simp only: ac_simps)
  have "val128 (q0, q1) = (val128 (?u0, u1) + val128 (p0, p1)) mod (?M * ?M)"
    using limb_sum(1) [of ?M "unat ?u0 + unat p0" "unat ?u0" "unat p0" _ "unat u1" "unat p1"]
    by (simp add: val128_def q0 q1 c_def)
  then have "int (val128 (q0, q1)) = (int (val128 (?u0, u1)) + int (val128 (p0, p1))) mod 2 ^ 128"
    by (simp add: of_nat_mod)
  then show ?thesis unfolding u1_def addend_val [OF assms(1,2)] by (simp add: mod_simps add.commute)
qed

lemma sign_bit128: "sint (HighPart p1) < 0 \<longleftrightarrow> 2 ^ 127 \<le> val128 (p0, p1)"
proof -
  have "2 ^ 127 \<le> unat p1 * 2 ^ 64 + unat p0 \<longleftrightarrow> 2 ^ 63 \<le> unat p1"
    using u64_bound [of p0] by simp arith
  moreover have "2 ^ 31 \<le> unat p1 div 2 ^ 32 \<longleftrightarrow> 2 ^ 63 \<le> unat p1"
    by (simp add: less_eq_div_iff_mult_less_eq)
  ultimately show ?thesis unfolding sint_neg32 val128_def by simp
qed

lemma add_signed_val:
  assumes "val128 p \<le> 2 ^ 126" and "add_signed s d p = (s', q)"
  shows "signed_mag s' (val128 q) = signed_mag s (val128 p) + sint d \<and> val128 q \<le> 2 ^ 127"
proof (cases "d = 0")
  case True
  then show ?thesis using assms by (cases p) (auto simp: add_signed_def)
next
  case False
  obtain p0 p1 where p: "p = (p0, p1)" by (cases p)
  define e where "e = (if s then - sint d else sint d)"
  define V where "V = int (val128 p) + e"
  have e: "- (2 ^ 63) \<le> e" "e \<le> 2 ^ 63" using sint_range64 [of d] by (auto simp: e_def)
  have "int (val128 p) \<le> int (2 ^ 126)" using assms(1) by (simp only: of_nat_le_iff)
  then have V: "- (2 ^ 127) \<le> V" "V < 2 ^ 127" using e by (auto simp: V_def)
  obtain q0 t where qt: "add_low (word_of_int e) p0 = (q0, t)" by (cases "add_low (word_of_int e) p0")
  define q1 where "q1 = p1 + ((if e < 0 then - 1 else 0) + large 0 (HighPart t))"
  have S: "int (val128 (q0, q1)) = V mod (2 * 2 ^ 127)"
    using ext_sum_val [OF e qt q1_def] by (simp add: V_def p)
  have eq: "add_signed s d p = (if sint (HighPart q1) < 0
      then (\<not> s, NOT q0 + 1, NOT q1 + (if NOT q0 + 1 = 0 then 1 else 0)) else (s, q0, q1))"
    using False qt unfolding add_signed_def p addend_words e_def [symmetric]
    by (simp add: Let_def q1_def)
  have sgn: "sint (HighPart q1) < 0 \<longleftrightarrow> V < 0"
  proof -
    have "2 ^ 127 \<le> val128 (q0, q1) \<longleftrightarrow> int (2 ^ 127) \<le> int (val128 (q0, q1))"
      by (simp only: of_nat_le_iff)
    then show ?thesis using complement_sign(1) [OF V] unfolding sign_bit128 [of _ q0] S by simp
  qed
  have goal: "signed_mag s (val128 p) + sint d = (if s then - V else V)"
    by (simp add: signed_mag_def V_def e_def)
  show ?thesis
  proof (cases "V < 0")
    case True
    have pos: "2 ^ 127 \<le> val128 (q0, q1)" using sgn True by (simp add: sign_bit128 [of _ q0])
    then have n: "val128 q = 2 ^ 128 - val128 (q0, q1)" and s': "s' = (\<not> s)"
      using assms(2) True negate128 [of q0 q1] unfolding eq by (auto simp: sgn)
    have "val128 (q0, q1) \<le> 2 ^ 128"
      using u64_bound [of q0] u64_bound [of q1] by (simp add: val128_def)
    then have "int (val128 q) = - V"
      using complement_sign(2) [OF V True] unfolding S [symmetric] n by (simp add: of_nat_diff)
    then show ?thesis using goal s' pos n by (simp add: signed_mag_def)
  next
    case nonneg: False
    then have "q = (q0, q1)" "s' = s" using assms(2) unfolding eq by (auto simp: sgn)
    moreover have "int (val128 (q0, q1)) = V" using complement_sign(3) [OF V] nonneg S by simp
    ultimately show ?thesis using goal V by (simp add: signed_mag_def)
  qed
qed

section \<open>The division\<close>

lemma top_bit: "HighPart p0 AND 0x80000000 \<noteq> 0 \<longleftrightarrow> 2 ^ 63 \<le> unat p0"
proof -
  have "HighPart p0 AND 0x80000000 \<noteq> 0 \<longleftrightarrow> bit (HighPart p0) 31"
    using and_exp_eq_0_iff_not_bit [of "HighPart p0" 31] by simp
  also have "\<dots> \<longleftrightarrow> sint (HighPart p0) < 0"
    using bit_last_iff [of "HighPart p0"] by simp
  also have "\<dots> \<longleftrightarrow> 2 ^ 63 \<le> unat p0"
    unfolding sint_neg32 by (simp add: less_eq_div_iff_mult_less_eq)
  finally show ?thesis .
qed

lemma unat_shl1: "unat (push_bit 1 w) = 2 * unat w mod 2 ^ 64" for w :: u64
  by (simp add: push_bit_eq_mult unat_word_ariths mult.commute)

lemma even_less: "even a \<Longrightarrow> even (m :: nat) \<Longrightarrow> 0 < m \<Longrightarrow> a mod m + 1 < m"
proof -
  assume e: "even a" "even m" and m: "0 < m"
  then have "even (a mod m)" by (simp add: dvd_mod)
  moreover have "a mod m < m" using m by simp
  ultimately show ?thesis using e by (auto elim!: evenE)
qed

lemma div_minus_multiple: "0 < (k :: nat) \<Longrightarrow> m * k \<le> t \<Longrightarrow> (t - m * k) div k + m = t div k"
proof -
  assume k: "0 < k" and "m * k \<le> t"
  then obtain u where "t = u + m * k" using le_Suc_ex by (metis add.commute)
  then show ?thesis using k by simp
qed

lemma shift_in:
  assumes "unat p1 < 2 ^ 63"
  shows "unat (if HighPart p0 AND 0x80000000 \<noteq> 0
      then set_LowPart (LowPart (push_bit 1 p1) + 1) (push_bit 1 p1) else push_bit 1 p1) =
    2 * unat p1 + (if 2 ^ 63 \<le> unat p0 then 1 else 0)"
proof -
  have s: "unat (push_bit 1 p1) = 2 * unat p1" using assms unfolding unat_shl1 by simp
  have "2 * unat p1 mod 2 ^ 32 + 1 < 2 ^ 32" by (rule even_less) simp_all
  then have "unat (LowPart (push_bit 1 p1) + 1) = 2 * unat p1 mod 2 ^ 32 + 1"
    using s by (simp add: unat_word_ariths)
  then have "unat (set_LowPart (LowPart (push_bit 1 p1) + 1) (push_bit 1 p1)) =
      2 * unat p1 div 2 ^ 32 * 2 ^ 32 + (2 * unat p1 mod 2 ^ 32 + 1)"
    by (simp only: unat_set_parts s)
  then have "unat (set_LowPart (LowPart (push_bit 1 p1) + 1) (push_bit 1 p1)) = 2 * unat p1 + 1"
    by (simp only: add.assoc [symmetric] div_mult_mod_eq)
  then show ?thesis using s unfolding top_bit by simp
qed

lemma long_division_val:
  assumes "unat uc \<le> 2 ^ 63"
  shows "unat p1 < unat uc \<Longrightarrow> n \<le> 64 \<Longrightarrow> unat r < 2 ^ (64 - n) \<Longrightarrow>
    unat (long_division n uc r p0 p1) = unat r * 2 ^ n + val128 (p0, p1) div (unat uc * 2 ^ (64 - n))"
proof (induction n arbitrary: r p0 p1)
  case 0
  have "val128 (p0, p1) < unat uc * 2 ^ 64"
  proof -
    have "val128 (p0, p1) < (unat p1 + 1) * 2 ^ 64" using u64_bound [of p0] by (simp add: val128_def)
    also have "\<dots> \<le> unat uc * 2 ^ 64" using "0.prems"(1) by (intro mult_le_mono1) simp
    finally show ?thesis .
  qed
  then show ?case by simp
next
  case (Suc n)
  define b where "b = (if 2 ^ 63 \<le> unat p0 then 1 else 0 :: nat)"
  define q1 where "q1 = (if HighPart p0 AND 0x80000000 \<noteq> 0
      then set_LowPart (LowPart (push_bit 1 p1) + 1) (push_bit 1 p1) else push_bit 1 p1)"
  let ?q0 = "push_bit 1 p0" and ?T = "val128 (p0, p1)" and ?K = "unat uc * 2 ^ (64 - n)"
  have step: "long_division (Suc n) uc r p0 p1 =
      (if uc \<le> q1 then long_division n uc (push_bit 1 r + 1) ?q0 (q1 - uc)
       else long_division n uc (push_bit 1 r) ?q0 q1)"
    by (simp only: long_division.simps Let_def q1_def)
  have q1: "unat q1 = 2 * unat p1 + b"
    unfolding q1_def b_def by (rule shift_in) (use Suc.prems assms in simp)
  have q0: "unat ?q0 = 2 * unat p0 - b * 2 ^ 64"
    unfolding unat_shl1 b_def using u64_bound [of p0] by (auto simp: mod_if)
  have T: "val128 (?q0, q1) = 2 * ?T"
    using q0 unfolding val128_def fst_conv snd_conv q1 b_def by (auto split: if_splits)
  have pw: "(2::nat) ^ (64 - n) = 2 * 2 ^ (64 - Suc n)" using Suc.prems(2)
    by (simp add: Suc_diff_Suc [symmetric])
  have r: "unat (push_bit 1 r) = 2 * unat r" "2 * unat r + 1 < 2 ^ (64 - n)" "2 * unat r + 1 < 2 ^ 64"
  proof -
    show l: "2 * unat r + 1 < 2 ^ (64 - n)" using Suc.prems(3) unfolding pw by simp
    also have "(2::nat) ^ (64 - n) \<le> 2 ^ 64" by (rule power_increasing) simp_all
    finally show l': "2 * unat r + 1 < 2 ^ 64" .
    then show "unat (push_bit 1 r) = 2 * unat r" unfolding unat_shl1 by simp
  qed
  have fin: "unat r * 2 ^ Suc n + ?T div (unat uc * 2 ^ (64 - Suc n)) = unat r * 2 ^ Suc n + 2 * ?T div ?K"
    unfolding pw by (simp add: mult.left_commute)
  show ?case
  proof (cases "uc \<le> q1")
    case True
    then have le: "unat uc \<le> unat q1" by (simp add: word_le_nat_alt)
    have d: "unat (q1 - uc) = unat q1 - unat uc" using True by (rule unat_sub)
    have lt: "unat (q1 - uc) < unat uc" using Suc.prems(1) unfolding d q1 b_def by auto
    have rr: "unat (push_bit 1 r + 1) = 2 * unat r + 1" using r by (simp add: unat_word_ariths)
    have v: "val128 (?q0, q1 - uc) = 2 * ?T - 2 ^ n * ?K"
      using Suc.prems(2) le unfolding T [symmetric] unfolding val128_def fst_conv snd_conv d
      by (simp add: diff_mult_distrib power_add [symmetric] mult.left_commute)
    have "2 ^ n * ?K \<le> 2 * ?T"
      using Suc.prems(2) mult_le_mono1 [OF le, of "2 ^ 64"] unfolding T [symmetric] unfolding val128_def
      by (simp add: power_add [symmetric] mult.left_commute)
    then have "(2 * ?T - 2 ^ n * ?K) div ?K + 2 ^ n = 2 * ?T div ?K"
      using Suc.prems(1) by (intro div_minus_multiple) simp_all
    moreover have "unat (long_division (Suc n) uc r p0 p1) =
        (2 * unat r + 1) * 2 ^ n + (2 * ?T - 2 ^ n * ?K) div ?K"
      using Suc.IH [OF lt, of "push_bit 1 r + 1" ?q0] Suc.prems(2) r(2) True
      unfolding rr v step by simp
    ultimately show ?thesis unfolding fin by (simp add: algebra_simps)
  next
    case False
    then have lt: "unat q1 < unat uc" by (simp add: word_le_nat_alt)
    have "unat (long_division (Suc n) uc r p0 p1) = 2 * unat r * 2 ^ n + 2 * ?T div ?K"
      using Suc.IH [OF lt, of "push_bit 1 r" ?q0] Suc.prems(2) r(2) False
      unfolding T r(1) step by simp
    then show ?thesis unfolding fin by simp
  qed
qed

lemma two_step_division:
  fixes B c :: nat
  assumes "0 < c"
  shows "((h mod c) * B + l) div c + h div c * B = (h * B + l) div c"
proof -
  have "h * B + l = (h div c * c + h mod c) * B + l" by simp
  also have "\<dots> = (h mod c * B + l) + h div c * B * c" by (simp only: algebra_simps)
  finally have e: "h * B + l = (h mod c * B + l) + h div c * B * c" .
  show ?thesis unfolding e using assms by simp
qed

lemma div_long_val:
  assumes "unat uc \<le> 2 ^ 63" and lt: "unat p1 < unat uc"
  shows "unat (div_long uc p0 p1) = val128 (p0, p1) div unat uc"
proof (cases "p1 = 0 \<or> HighPart uc \<noteq> 0")
  case True
  then show ?thesis using long_division_val [OF assms(1) lt, of 64 0 p0]
    by (auto simp: div_long_def val128_def unat_div)
next
  case False
  let ?B = "2 ^ 32 :: nat"
  have "unat (HighPart uc) = 0" using False by simp
  then have uc: "unat uc < ?B" by simp
  define c where "c = unat uc"
  define h where "h = unat p1 * ?B + unat p0 div ?B"
  have c: "0 < c" "c < ?B" "unat p1 < c" using uc lt by (simp_all add: c_def)
  have dv: "unat (ucast (LowPart uc) :: u64) = c" using uc by (simp add: c_def)
  have "h < c * ?B"
  proof -
    have "unat p0 div ?B < ?B" using u64_bound [of p0] by (simp add: less_mult_imp_div_less)
    then have "h < (unat p1 + 1) * ?B" by (simp add: h_def)
    also have "\<dots> \<le> c * ?B" using c by (intro mult_le_mono1) simp
    finally show ?thesis .
  qed
  then have hq: "h div c < ?B" using c by (simp add: less_mult_imp_div_less mult.commute)
  have hr: "h mod c < ?B" using c by (metis less_trans mod_less_divisor)
  have lo: "unat (large (LowPart p1) (HighPart p0)) = h"
    using c by (simp add: h_def)
  define s where "s = set_HighPart (LowPart (large (LowPart p1) (HighPart p0) mod ucast (LowPart uc))) p0"
  have s: "unat s = h mod c * ?B + unat p0 mod ?B"
    using hr by (simp add: s_def unat_mod dv [simplified] lo [simplified])
  have q: "unat (set_HighPart (LowPart (large (LowPart p1) (HighPart p0) div ucast (LowPart uc))) 0) = h div c * ?B"
    using hq by (simp add: unat_div dv [simplified] lo [simplified])
  have full: "unat s div c + h div c * ?B = val128 (p0, p1) div c"
  proof -
    have "h * ?B + unat p0 mod ?B = val128 (p0, p1)"
      by (simp add: h_def val128_def algebra_simps)
    then show ?thesis using two_step_division [OF c(1), of h ?B "unat p0 mod ?B"] by (simp only: s)
  qed
  have "val128 (p0, p1) < c * 2 ^ 64"
  proof -
    have "val128 (p0, p1) < (unat p1 + 1) * 2 ^ 64" using u64_bound [of p0] by (simp add: val128_def)
    also have "\<dots> \<le> c * 2 ^ 64" using c by (intro mult_le_mono1) simp
    finally show ?thesis .
  qed
  then have "val128 (p0, p1) div c < 2 ^ 64" using c by (simp add: less_mult_imp_div_less mult.commute)
  then have "unat (s div ucast (LowPart uc) +
      set_HighPart (LowPart (large (LowPart p1) (HighPart p0) div ucast (LowPart uc))) 0) = val128 (p0, p1) div c"
    using full by (simp only: unat_word_ariths(1) unat_div dv q) simp
  then show ?thesis using False unfolding div_long_def c_def s_def Let_def by simp
qed

section \<open>The whole routine\<close>

lemma signed_mag_unique:
  "signed_mag s n = V \<Longrightarrow> int n = \<bar>V\<bar> \<and> (V \<noteq> 0 \<longrightarrow> s = (V < 0))"
  by (auto simp: signed_mag_def split: if_splits)

lemma uint_abs64: "uint (abs64 a) = \<bar>sint a\<bar>"
  using abs64_eq [of a] by simp

lemma signed_product:
  "signed_mag ((sint a < 0) \<noteq> (sint b < 0)) (unat (abs64 a) * unat (abs64 b)) = sint a * sint b"
  by (auto simp: signed_mag_def uint_abs64 abs_if)

lemma tdiv_sign_mag: "tdiv V c = (if (V < 0) \<noteq> (c < 0) then - (\<bar>V\<bar> div \<bar>c\<bar>) else \<bar>V\<bar> div \<bar>c\<bar>)"
  by (cases V "0 :: int" rule: linorder_cases; cases c "0 :: int" rule: linorder_cases)
    (simp_all add: tdiv_def)

lemma high_word_ge: "unat uc \<le> unat p1 \<longleftrightarrow> unat uc * 2 ^ 64 \<le> val128 (p0, p1)"
proof -
  have "unat uc * 2 ^ 64 \<le> unat p1 * 2 ^ 64 + unat p0 \<longleftrightarrow> unat uc \<le> unat p1"
    using u64_bound [of p0] by (simp; arith)
  then show ?thesis by (simp add: val128_def)
qed

text \<open>What the routine computes, in terms of the exact value \<open>V\<close> of \<open>a * b + d\<close>.\<close>

lemma llMulDiv_cases:
  fixes a b c d :: i64
  assumes V: "V = sint a * sint b + sint d"
  shows "\<exists>s. (V \<noteq> 0 \<longrightarrow> s = ((V < 0) \<noteq> (sint c < 0))) \<and>
    llMulDiv a b c d = (if \<bar>sint c\<bar> * 2 ^ 64 \<le> \<bar>V\<bar> then (if s then 0x8000000000000000 else 0x7FFFFFFFFFFFFFFF)
      else word_of_int (if s then - (\<bar>V\<bar> div \<bar>sint c\<bar>) else \<bar>V\<bar> div \<bar>sint c\<bar>))"
proof -
  let ?s0 = "(sint a < 0) \<noteq> (sint b < 0)" and ?p = "mul_long (abs64 a) (abs64 b)"
  obtain s q0 q1 where q: "add_signed ?s0 d ?p = (s, q0, q1)" by (metis prod_cases3)
  have p: "val128 ?p = unat (abs64 a) * unat (abs64 b)" by (rule mul_long_val) (rule abs64_le)+
  also have "\<dots> \<le> 2 ^ 63 * 2 ^ 63" by (intro mult_le_mono abs64_le)
  finally have "val128 ?p \<le> 2 ^ 126" by simp
  from add_signed_val [OF this q] have "signed_mag s (val128 (q0, q1)) = V"
    unfolding p signed_product V by simp
  then have m: "int (val128 (q0, q1)) = \<bar>V\<bar>" "V \<noteq> 0 \<longrightarrow> s = (V < 0)"
    using signed_mag_unique by blast+
  have ge: "abs64 c \<le> q1 \<longleftrightarrow> \<bar>sint c\<bar> * 2 ^ 64 \<le> \<bar>V\<bar>"
  proof -
    have "abs64 c \<le> q1 \<longleftrightarrow> int (unat (abs64 c) * 2 ^ 64) \<le> int (val128 (q0, q1))"
      unfolding of_nat_le_iff word_le_nat_alt by (rule high_word_ge)
    then show ?thesis unfolding m(1) by (simp add: uint_abs64)
  qed
  have quot: "div_long (abs64 c) q0 q1 = word_of_int (\<bar>V\<bar> div \<bar>sint c\<bar>)" if "\<not> abs64 c \<le> q1"
  proof -
    have "unat (div_long (abs64 c) q0 q1) = val128 (q0, q1) div unat (abs64 c)"
      by (rule div_long_val [OF abs64_le]) (use that in \<open>simp add: word_le_nat_alt\<close>)
    then have "int (unat (div_long (abs64 c) q0 q1)) = \<bar>V\<bar> div \<bar>sint c\<bar>"
      by (simp only: of_nat_div [where 'a = int] m(1) abs64_eq zdiv_int)
    then show ?thesis by (metis word_of_int_uint uint_nat)
  qed
  let ?s = "if sint c < 0 then \<not> s else s"
  have "llMulDiv a b c d = (if \<bar>sint c\<bar> * 2 ^ 64 \<le> \<bar>V\<bar> then (if ?s then 0x8000000000000000 else 0x7FFFFFFFFFFFFFFF)
      else word_of_int (if ?s then - (\<bar>V\<bar> div \<bar>sint c\<bar>) else \<bar>V\<bar> div \<bar>sint c\<bar>))"
    using q quot unfolding llMulDiv_def Let_def ge [symmetric] by auto
  moreover have "V \<noteq> 0 \<longrightarrow> ?s = ((V < 0) \<noteq> (sint c < 0))" using m(2) by auto
  ultimately show ?thesis by blast
qed

lemma sint_small64: "- (2 ^ 63) \<le> k \<Longrightarrow> k < 2 ^ 63 \<Longrightarrow> sint (word_of_int k :: i64) = k"
  by (simp add: int_word_sint)

text \<open>C15. \<open>llMulDiv\<close> returns \<open>(a * b + d) / c\<close>, truncated towards zero, computed without losing
  a bit of the 128 bit intermediate value, whenever that quotient fits the 63 bits of a
  magnitude; it saturates, in the direction of the sign, when the divisor is zero or the
  quotient needs more than 64 bits; in between, where the quotient fits 64 bits but not a signed
  64 bit integer, the result is the quotient reduced modulo \<open>2 ^ 64\<close>.\<close>

theorem llMulDiv_correct:
  fixes a b c d :: i64
  assumes "V = sint a * sint b + sint d"
  shows "(c \<noteq> 0 \<longrightarrow> \<bar>V\<bar> div \<bar>sint c\<bar> < 2 ^ 63 \<longrightarrow> sint (llMulDiv a b c d) = tdiv V (sint c)) \<and>
    (c \<noteq> 0 \<longrightarrow> \<bar>V\<bar> div \<bar>sint c\<bar> < 2 ^ 64 \<longrightarrow> llMulDiv a b c d = word_of_int (tdiv V (sint c))) \<and>
    (V \<noteq> 0 \<longrightarrow> c = 0 \<or> 2 ^ 64 \<le> \<bar>V\<bar> div \<bar>sint c\<bar> \<longrightarrow>
       sint (llMulDiv a b c d) = (if (V < 0) \<noteq> (sint c < 0) then - (2 ^ 63) else 2 ^ 63 - 1))"
proof -
  obtain s where s: "V \<noteq> 0 \<longrightarrow> s = ((V < 0) \<noteq> (sint c < 0))"
    and eq: "llMulDiv a b c d = (if \<bar>sint c\<bar> * 2 ^ 64 \<le> \<bar>V\<bar> then (if s then 0x8000000000000000 else 0x7FFFFFFFFFFFFFFF)
      else word_of_int (if s then - (\<bar>V\<bar> div \<bar>sint c\<bar>) else \<bar>V\<bar> div \<bar>sint c\<bar>))"
    using llMulDiv_cases [OF assms] by blast
  have sgn: "(if s then - (\<bar>V\<bar> div \<bar>sint c\<bar>) else \<bar>V\<bar> div \<bar>sint c\<bar>) = tdiv V (sint c)"
    using s by (cases "V = 0") (auto simp: tdiv_sign_mag)
  have c: "sint c = 0 \<longleftrightarrow> c = 0" by (simp add: signed_eq_0_iff)
  have ov: "\<bar>sint c\<bar> * 2 ^ 64 \<le> \<bar>V\<bar> \<longleftrightarrow> 2 ^ 64 \<le> \<bar>V\<bar> div \<bar>sint c\<bar>" if "c \<noteq> 0"
    using that c by (simp add: le_zdiv_iff mult.commute)
  have wrap: "llMulDiv a b c d = word_of_int (tdiv V (sint c))" if "c \<noteq> 0" "\<bar>V\<bar> div \<bar>sint c\<bar> < 2 ^ 64"
    using that ov unfolding eq sgn by auto
  moreover have "sint (llMulDiv a b c d) = tdiv V (sint c)" if "c \<noteq> 0" "\<bar>V\<bar> div \<bar>sint c\<bar> < 2 ^ 63"
  proof -
    have "\<bar>tdiv V (sint c)\<bar> < 2 ^ 63" using that c by (simp add: abs_tdiv)
    then show ?thesis using that by (subst wrap) (simp_all add: sint_small64)
  qed
  moreover have "sint (llMulDiv a b c d) = (if (V < 0) \<noteq> (sint c < 0) then - (2 ^ 63) else 2 ^ 63 - 1)"
    if "V \<noteq> 0" "c = 0 \<or> 2 ^ 64 \<le> \<bar>V\<bar> div \<bar>sint c\<bar>"
  proof (cases "c = 0")
    case True
    then show ?thesis using that s unfolding eq by simp
  next
    case False
    then show ?thesis using that s ov unfolding eq by simp
  qed
  ultimately show ?thesis by blast
qed

theorem llMulDiv_correct_witness:
  "sint (llMulDiv (- 7000000000000000000) 3000000000000000000 8000000000000000000 5) = - 2624999999999999999 \<and>
   sint (llMulDiv 5 7 0 (- 100)) = - (2 ^ 63) \<and> sint (llMulDiv (2 ^ 62) 2 1 0) = - (2 ^ 63)"
  using llMulDiv_correct [OF refl, where a = "- 7000000000000000000" and b = 3000000000000000000
      and c = 8000000000000000000 and d = 5]
    llMulDiv_correct [OF refl, where a = 5 and b = 7 and c = 0 and d = "- 100"]
    llMulDiv_correct [OF refl, where a = "2 ^ 62" and b = 2 and c = 1 and d = 0]
  by (simp add: tdiv_def)

section \<open>The 96 bit variant\<close>

definition val96 :: "u64 \<times> u32 \<Rightarrow> nat" where
  "val96 p = unat (snd p) * 2 ^ 64 + unat (fst p)"

lemma abs32_eq: "int (unat (abs32 a)) = \<bar>sint a\<bar>"
proof -
  have "abs32 a = word_of_int \<bar>sint a\<bar>"
    by (cases "0 \<le> sint a") (simp_all add: abs32_def)
  moreover have "uint (word_of_int \<bar>sint a\<bar> :: u32) = \<bar>sint a\<bar>"
    by (rule uint_word_of_int_small) (use sint_range32 [of a] in auto)
  ultimately show ?thesis by simp
qed

lemma uint_abs32: "uint (abs32 a) = \<bar>sint a\<bar>"
  using abs32_eq [of a] by simp

lemma abs32_le: "unat (abs32 a) \<le> 2 ^ 31"
proof -
  have "int (unat (abs32 a)) \<le> int (2 ^ 31)"
    using abs32_eq [of a] sint_range32 [of a] by auto
  then show ?thesis by (simp only: of_nat_le_iff)
qed

lemma mul_96_val: "val96 (mul_96 ua ub) = unat ua * unat ub"
proof -
  let ?B = "2 ^ 32 :: nat"
  define al ah b where "al = unat (LowPart ua)" "ah = unat (HighPart ua)" "b = unat ub"
  note ab = al_ah_b_def
  define P where "P = al * b"
  define X where "X = ah * b + P div ?B"
  have ua: "unat ua = ah * ?B + al" by (simp add: ab)
  have bnd: "al < ?B" "ah < ?B" "b < ?B" by (simp_all only: ab u32_bound)
  then have "al * b \<le> (?B - 1) * (?B - 1)" "ah * b \<le> (?B - 1) * (?B - 1)"
    by (intro mult_le_mono; simp)+
  moreover from this have "P div ?B < ?B" by (simp add: P_def less_mult_imp_div_less)
  ultimately have X: "X < 2 ^ 64" by (simp add: X_def)
  define w where "w = UInt32x32To64 (HighPart ua) ub + ucast (HighPart (UInt32x32To64 (LowPart ua) ub))"
  have w: "unat w = X" using X by (simp add: w_def unat_word_ariths ab X_def P_def)
  have "unat ua * b = X * ?B + P mod ?B"
    unfolding ua X_def P_def by (simp add: algebra_simps)
  moreover have "val96 (mul_96 ua ub) = X * ?B + P mod ?B"
  proof (cases "HighPart ua = 0")
    case True
    then have "ah = 0" by (simp only: ab) simp
    then show ?thesis using True by (simp add: mul_96_def val96_def X_def P_def ab)
  next
    case False
    then have "mul_96 ua ub = (set_HighPart (LowPart w) (UInt32x32To64 (LowPart ua) ub), HighPart w)"
      by (simp add: mul_96_def Let_def w_def)
    then have "val96 (mul_96 ua ub) = X div ?B * 2 ^ 64 + (X mod ?B * ?B + P mod ?B)"
      by (simp add: val96_def w P_def ab)
    also have "\<dots> = (X div ?B * ?B + X mod ?B) * ?B + P mod ?B"
      unfolding add_mult_distrib by (simp del: div_mult_mod_eq)
    finally show ?thesis by (simp only: div_mult_mod_eq)
  qed
  ultimately show ?thesis by (simp add: ab)
qed

lemma addend_val96:
  fixes e :: int
  assumes "- (2 ^ 63) \<le> e" "e \<le> 2 ^ 63"
  shows "int (val96 (word_of_int e, if e < 0 then - 1 else 0)) = e mod 2 ^ 96"
proof (cases "e < 0")
  case True
  have "uint (word_of_int e :: u64) = e mod 2 ^ 64" by (simp add: uint_word_of_int)
  also have "\<dots> = e + 2 ^ 64"
    using True assms mod_pos_pos_trivial [of "e + 2 ^ 64" "2 ^ 64"] by simp
  finally have "int (unat (word_of_int e :: u64)) = e + 2 ^ 64" by simp
  moreover have "e mod 2 ^ 96 = e + 2 ^ 96"
    using True assms mod_pos_pos_trivial [of "e + 2 ^ 96" "2 ^ 96"] by simp
  ultimately show ?thesis using True
    by (simp add: val96_def unsigned_minus_1_eq_mask mask_eq_exp_minus_1)
next
  case False
  have "uint (word_of_int e :: u64) = e"
    by (rule uint_word_of_int_small) (use False assms in simp_all)
  then show ?thesis using False assms by (simp add: val96_def)
qed

lemma limb_sum_uneven:
  fixes M K :: nat
  assumes "0 < M"
  shows "(u1 * M + u0 + (p1 * M + p0)) mod (M * K) =
    ((u0 + p0) div M + (u1 + p1)) mod K * M + (u0 + p0) mod M"
proof -
  have "u1 * M + u0 + (p1 * M + p0) = (u1 + p1) * M + ((u0 + p0) div M * M + (u0 + p0) mod M)"
    by (simp add: algebra_simps)
  also have "\<dots> = ((u0 + p0) div M + (u1 + p1)) * M + (u0 + p0) mod M" by (simp only: algebra_simps)
  finally show ?thesis using assms by (simp add: mod_mult2_eq)
qed

lemma ext_sum_val96:
  fixes e :: int
  assumes "- (2 ^ 63) \<le> e" "e \<le> 2 ^ 63"
    and "add_low (word_of_int e) p0 = (q0, t)"
    and "q1 = p1 + ((if e < 0 then - 1 else 0) + HighPart t)"
  shows "int (val96 (q0, q1)) = (int (val96 (p0, p1)) + e) mod 2 ^ 96"
proof -
  let ?M = "2 ^ 64 :: nat" and ?K = "2 ^ 32 :: nat" and ?u0 = "word_of_int e :: u64"
  define u1 where "u1 = (if e < 0 then - 1 else 0 :: u32)"
  define c where "c = (unat ?u0 + unat p0) div ?M"
  have c: "unat (HighPart t) = c" and q0: "unat q0 = (unat ?u0 + unat p0) mod ?M"
    using add_low_val [of ?u0 p0] assms(3) by (simp_all add: c_def)
  have "unat q1 = (unat p1 + (unat u1 + c)) mod ?K"
    unfolding assms(4) u1_def [symmetric] by (simp add: unat_word_ariths c [simplified] mod_add_right_eq)
  then have q1: "unat q1 = (c + (unat u1 + unat p1)) mod ?K" by (simp only: ac_simps)
  have "val96 (q0, q1) = (val96 (?u0, u1) + val96 (p0, p1)) mod (?M * ?K)"
    unfolding val96_def fst_conv snd_conv q0 q1 c_def by (subst limb_sum_uneven) simp_all
  then have "int (val96 (q0, q1)) = (int (val96 (?u0, u1)) + int (val96 (p0, p1))) mod 2 ^ 96"
    by (simp add: of_nat_mod)
  then show ?thesis unfolding u1_def addend_val96 [OF assms(1,2)] by (simp add: mod_simps add.commute)
qed

lemma sign_bit96: "sint p1 < 0 \<longleftrightarrow> 2 ^ 95 \<le> val96 (p0, p1)"
  using u64_bound [of p0] unfolding sint_neg32 val96_def by (simp; arith)

lemma unat_not32: "unat (NOT w) = 2 ^ 32 - 1 - unat w" for w :: u32
proof -
  have "NOT w = - 1 - w" by (simp add: not_eq_complement)
  moreover have "unat (- 1 :: u32) = 2 ^ 32 - 1" by (simp add: unsigned_minus_1_eq_mask mask_eq_exp_minus_1)
  ultimately show ?thesis using u32_bound [of w] by (simp add: unat_sub_if')
qed

lemma negate96:
  assumes "0 < val96 (p0, p1)"
  shows "val96 (NOT p0 + 1, NOT p1 + (if NOT p0 + 1 = 0 then 1 else 0)) = 2 ^ 96 - val96 (p0, p1)"
proof -
  have b: "unat p0 < 2 ^ 64" "unat p1 < 2 ^ 32" by (rule u64_bound u32_bound)+
  have lo: "unat (NOT p0 + 1) = (if unat p0 = 0 then 0 else 2 ^ 64 - unat p0)"
    using b by (simp add: unat_word_ariths unat_not64) auto
  have z: "NOT p0 + 1 = 0 \<longleftrightarrow> unat p0 = 0"
    using lo b by (metis diff_is_0_eq not_le unat_eq_zero)
  have hi: "unat (NOT p1 + (if NOT p0 + 1 = 0 then 1 else 0)) =
      (if unat p0 = 0 then 2 ^ 32 - unat p1 else 2 ^ 32 - 1 - unat p1)"
    using assms b unfolding z by (auto simp: unat_word_ariths unat_not32 val96_def)
  show ?thesis using b assms unfolding val96_def fst_conv snd_conv hi lo by auto
qed

lemma addend_words96:
  "(if s then (- (scast d :: i64), if 0 < sint d then - 1 else 0) else (scast d, if sint d < 0 then - 1 else 0)) =
   (word_of_int (if s then - sint d else sint d) :: i64,
    if (if s then - sint d else sint d) < 0 then - 1 else 0 :: u32)"
  for d :: i32
  by simp

lemma add_signed_96_val:
  assumes "val96 p \<le> 2 ^ 94" and "add_signed_96 s d p = (s', q)"
  shows "signed_mag s' (val96 q) = signed_mag s (val96 p) + sint d"
proof (cases "d = 0")
  case True
  then show ?thesis using assms by (cases p) (auto simp: add_signed_96_def)
next
  case False
  obtain p0 p1 where p: "p = (p0, p1)" by (cases p)
  define e where "e = (if s then - sint d else sint d)"
  define V where "V = int (val96 p) + e"
  have e: "- (2 ^ 63) \<le> e" "e \<le> 2 ^ 63" using sint_range32 [of d] by (auto simp: e_def)
  have "int (val96 p) \<le> int (2 ^ 94)" using assms(1) by (simp only: of_nat_le_iff)
  then have V: "- (2 ^ 95) \<le> V" "V < 2 ^ 95" using e by (auto simp: V_def)
  obtain q0 t where qt: "add_low (word_of_int e) p0 = (q0, t)" by (cases "add_low (word_of_int e) p0")
  define q1 where "q1 = p1 + ((if e < 0 then - 1 else 0) + HighPart t)"
  have S: "int (val96 (q0, q1)) = V mod (2 * 2 ^ 95)"
    using ext_sum_val96 [OF e qt q1_def] by (simp add: V_def p)
  have eq: "add_signed_96 s d p = (if sint q1 < 0
      then (\<not> s, NOT q0 + 1, NOT q1 + (if NOT q0 + 1 = 0 then 1 else 0)) else (s, q0, q1))"
    using False qt unfolding add_signed_96_def p addend_words96 e_def [symmetric]
    by (simp add: Let_def q1_def)
  have sgn: "sint q1 < 0 \<longleftrightarrow> V < 0"
  proof -
    have "2 ^ 95 \<le> val96 (q0, q1) \<longleftrightarrow> int (2 ^ 95) \<le> int (val96 (q0, q1))"
      by (simp only: of_nat_le_iff)
    then show ?thesis using complement_sign(1) [OF V] unfolding sign_bit96 [of _ q0] S by simp
  qed
  have goal: "signed_mag s (val96 p) + sint d = (if s then - V else V)"
    by (simp add: signed_mag_def V_def e_def)
  show ?thesis
  proof (cases "V < 0")
    case True
    have pos: "2 ^ 95 \<le> val96 (q0, q1)" using sgn True by (simp add: sign_bit96 [of _ q0])
    then have n: "val96 q = 2 ^ 96 - val96 (q0, q1)" and s': "s' = (\<not> s)"
      using assms(2) True negate96 [of q0 q1] unfolding eq by (auto simp: sgn)
    have "val96 (q0, q1) \<le> 2 ^ 96"
      using u64_bound [of q0] u32_bound [of q1] by (simp add: val96_def)
    then have "int (val96 q) = - V"
      using complement_sign(2) [OF V True] unfolding S [symmetric] n by (simp add: of_nat_diff)
    then show ?thesis using goal s' by (simp add: signed_mag_def)
  next
    case nonneg: False
    then have "q = (q0, q1)" "s' = s" using assms(2) unfolding eq by (auto simp: sgn)
    moreover have "int (val96 (q0, q1)) = V" using complement_sign(3) [OF V] nonneg S by simp
    ultimately show ?thesis using goal by (simp add: signed_mag_def)
  qed
qed

lemma divide_ok:
  assumes "0 < unat v" and "unat w < unat v * 2 ^ 32"
  shows "\<exists>q r. EnlargedUnsignedDivide x86 w v = Some (q, r) \<and> unat q = unat w div unat v \<and> unat r = unat w mod unat v"
proof -
  have q: "unat w div unat v < 2 ^ 32" using assms by (simp add: less_mult_imp_div_less mult.commute)
  have r: "unat w mod unat v < 2 ^ 32" using assms(1) u32_bound [of v] by (meson less_trans mod_less_divisor)
  have "unat (HighPart (w div ucast v)) = 0" using q by (simp add: unat_div)
  then have "HighPart (w div ucast v) = 0" by (simp only: unat_eq_zero)
  then show ?thesis using q r assms(1)
    by (auto simp: EnlargedUnsignedDivide_def unsigned_ucast_eq take_bit_eq_mod unat_div unat_mod)
qed

lemma div_96_val:
  assumes lt: "unat p1 < unat c"
  shows "\<exists>r. div_96 x86 c p0 p1 = Some r \<and> unat r = val96 (p0, p1) div unat c"
proof -
  let ?B = "2 ^ 32 :: nat"
  define C where "C = unat c"
  define h where "h = unat p1 * ?B + unat p0 div ?B"
  have C: "0 < C" using lt by (simp add: C_def)
  have lo: "unat (large p1 (HighPart p0)) = h" by (simp add: h_def)
  have "h < C * ?B"
  proof -
    have "unat p0 div ?B < ?B" using u64_bound [of p0] by (simp add: less_mult_imp_div_less)
    then have "h < (unat p1 + 1) * ?B" by (simp add: h_def)
    also have "\<dots> \<le> C * ?B" using lt by (intro mult_le_mono1) (simp add: C_def)
    finally show ?thesis .
  qed
  then obtain q r where qr: "EnlargedUnsignedDivide x86 (large p1 (HighPart p0)) c = Some (q, r)"
      "unat q = h div C" "unat r = h mod C"
    using divide_ok [of c "large p1 (HighPart p0)" x86] C lo by (auto simp: C_def)
  define s where "s = (if ucast c \<le> large p1 (HighPart p0) then set_HighPart r p0 else p0)"
  define g where "g = (if ucast c \<le> large p1 (HighPart p0) then q else 0)"
  have cmp: "ucast c \<le> large p1 (HighPart p0) \<longleftrightarrow> C \<le> h"
    by (simp add: word_le_nat_alt lo [simplified] C_def)
  have g: "unat g = h div C" by (simp add: g_def cmp qr)
  have s: "unat s = h mod C * ?B + unat p0 mod ?B"
  proof (cases "C \<le> h")
    case False
    then have "p1 = 0"
    proof -
      have "unat p1 * ?B < ?B" using False u32_bound [of c] by (simp add: h_def C_def)
      then show ?thesis by (simp add: unat_eq_zero)
    qed
    then have "h = unat p0 div ?B" by (simp add: h_def)
    then show ?thesis using False by (simp add: s_def cmp)
  qed (simp add: s_def cmp qr)
  have "unat s < C * ?B"
  proof -
    have "unat s < (h mod C + 1) * ?B" unfolding s by simp
    also have "\<dots> \<le> C * ?B" using C by (intro mult_le_mono1) (simp add: Suc_leI)
    finally show ?thesis .
  qed
  then obtain l r' where l: "EnlargedUnsignedDivide x86 s c = Some (l, r')" "unat l = unat s div C"
    using divide_ok [of c s x86] C by (auto simp: C_def)
  have "div_96 x86 c p0 p1 = Some (large g l)"
    using qr l by (auto simp: div_96_def Let_def s_def g_def split: if_splits)
  moreover have "unat (large g l) = val96 (p0, p1) div C"
  proof -
    have "h * ?B + unat p0 mod ?B = val96 (p0, p1)" by (simp add: h_def val96_def algebra_simps)
    then show ?thesis using two_step_division [OF C, of h ?B "unat p0 mod ?B"]
      unfolding unat_large g l(2) s by (simp only: add.commute)
  qed
  ultimately show ?thesis by (simp add: C_def)
qed

text \<open>\<open>Int64x32Div32\<close>, in the portable and in the x86 variant of its divide step, always
  returns (the divide instruction never faults: a zero divisor and every quotient too large for
  it are caught before), and returns \<open>(a * b + d) / c\<close> truncated towards zero and reduced to 64
  bits when that quotient is below \<open>2 ^ 64\<close> in magnitude, and the saturated value of the
  right sign otherwise.\<close>

theorem Int64x32Div32_correct:
  fixes a :: i64 and b c d :: i32
  assumes "V = sint a * sint b + sint d"
  shows "(c \<noteq> 0 \<longrightarrow> \<bar>V\<bar> div \<bar>sint c\<bar> < 2 ^ 64 \<longrightarrow>
      Int64x32Div32 asm a b c d = Some (word_of_int (tdiv V (sint c)))) \<and>
    (V \<noteq> 0 \<longrightarrow> c = 0 \<or> 2 ^ 64 \<le> \<bar>V\<bar> div \<bar>sint c\<bar> \<longrightarrow>
      Int64x32Div32 asm a b c d =
        Some (if (V < 0) \<noteq> (sint c < 0) then 0x8000000000000000 else 0x7FFFFFFFFFFFFFFF)) \<and>
    Int64x32Div32 asm a b c d \<noteq> None"
proof -
  let ?s0 = "(sint a < 0) \<noteq> (sint b < 0)" and ?p = "mul_96 (abs64 a) (abs32 b)"
  obtain s q0 q1 where q: "add_signed_96 ?s0 d ?p = (s, q0, q1)" by (metis prod_cases3)
  have p: "val96 ?p = unat (abs64 a) * unat (abs32 b)" by (rule mul_96_val)
  also have "\<dots> \<le> 2 ^ 63 * 2 ^ 31" by (intro mult_le_mono abs64_le abs32_le)
  finally have "val96 ?p \<le> 2 ^ 94" by simp
  moreover have "signed_mag ?s0 (val96 ?p) = sint a * sint b"
    unfolding p by (auto simp: signed_mag_def uint_abs64 uint_abs32 abs_if)
  ultimately have "signed_mag s (val96 (q0, q1)) = V"
    using add_signed_96_val [OF _ q] assms by simp
  then have m: "int (val96 (q0, q1)) = \<bar>V\<bar>" "V \<noteq> 0 \<longrightarrow> s = (V < 0)"
    using signed_mag_unique by blast+
  let ?s = "if sint c < 0 then \<not> s else s"
  have c: "sint c = 0 \<longleftrightarrow> c = 0" by (simp add: signed_eq_0_iff)
  have ge: "abs32 c \<le> q1 \<longleftrightarrow> c = 0 \<or> 2 ^ 64 \<le> \<bar>V\<bar> div \<bar>sint c\<bar>"
  proof -
    have "abs32 c \<le> q1 \<longleftrightarrow> unat (abs32 c) * 2 ^ 64 \<le> val96 (q0, q1)"
      using u64_bound [of q0] unfolding word_le_nat_alt val96_def by (simp; arith)
    then have "abs32 c \<le> q1 \<longleftrightarrow> int (unat (abs32 c) * 2 ^ 64) \<le> \<bar>V\<bar>"
      unfolding m(1) [symmetric] of_nat_le_iff .
    then show ?thesis using c by (cases "c = 0") (simp_all add: uint_abs32 le_zdiv_iff mult.commute)
  qed
  have sat: "Int64x32Div32 asm a b c d = Some (if ?s then 0x8000000000000000 else 0x7FFFFFFFFFFFFFFF)" if "abs32 c \<le> q1"
    using that q by (simp add: Int64x32Div32_def Let_def)
  have div: "Int64x32Div32 asm a b c d = Some (word_of_int (tdiv V (sint c)))" if "\<not> abs32 c \<le> q1"
  proof -
    obtain r where r: "div_96 asm (abs32 c) q0 q1 = Some r" "unat r = val96 (q0, q1) div unat (abs32 c)"
      using div_96_val [of q1 "abs32 c" asm q0] \<open>\<not> abs32 c \<le> q1\<close> by (auto simp: word_le_nat_alt)
    have "int (unat r) = \<bar>V\<bar> div \<bar>sint c\<bar>" unfolding r(2) by (simp only: zdiv_int m(1) abs32_eq)
    then have "r = word_of_int (\<bar>V\<bar> div \<bar>sint c\<bar>)" by (metis word_of_int_uint uint_nat)
    moreover have "(if ?s then - (\<bar>V\<bar> div \<bar>sint c\<bar>) else \<bar>V\<bar> div \<bar>sint c\<bar>) = tdiv V (sint c)"
      using m(2) by (cases "V = 0") (auto simp: tdiv_sign_mag)
    ultimately have "(if ?s then - r else r) = word_of_int (tdiv V (sint c))"
      by (metis wi_hom_neg)
    then show ?thesis using q r(1) that by (auto simp: Int64x32Div32_def Let_def)
  qed
  show ?thesis using sat div ge m(2) by (cases "abs32 c \<le> q1") auto
qed

theorem Int64x32Div32_correct_witness:
  "Int64x32Div32 True (- 9000000000000000000) 90000 (- 100000) 77 = Some 8099999999999999999 \<and>
   Int64x32Div32 True 9000000000000000000 90000 1 77 = Some 0x7FFFFFFFFFFFFFFF"
  using Int64x32Div32_correct [OF refl, where asm = True and a = "- 9000000000000000000" and b = 90000
      and c = "- 100000" and d = 77]
    Int64x32Div32_correct [OF refl, where asm = True and a = "9000000000000000000" and b = 90000
      and c = 1 and d = 77]
  by (simp add: tdiv_def)

end
