(* ===== verification/Video_Quality_Props.thy ===== *)
theory Video_Quality_Props
  imports Video_Quality Arith_Util_Props Complex_Main
begin

text \<open>
  Facts about the quality management of the video renderer: the integer square root, the throttle, the messages to the supplier, the
  statistics of the frames drawn and the decision to draw, delay or drop a frame.
\<close>

section \<open>Arithmetic within range\<close>

lemma sint_add_fits:
  fixes a b :: "'a::len word"
  assumes "- (2 ^ (LENGTH('a) - 1)) \<le> sint a + sint b" and "sint a + sint b < 2 ^ (LENGTH('a) - 1)"
  shows "sint (a + b) = sint a + sint b"
  using assms by (simp add: sint_word_ariths(1) signed_take_bit_int_eq_self)

lemma sint_sub_fits:
  fixes a b :: "'a::len word"
  assumes "- (2 ^ (LENGTH('a) - 1)) \<le> sint a - sint b" and "sint a - sint b < 2 ^ (LENGTH('a) - 1)"
  shows "sint (a - b) = sint a - sint b"
  using assms by (simp add: sint_word_ariths(2) signed_take_bit_int_eq_self)

lemma sint_mult_fits:
  fixes a b :: "'a::len word"
  assumes "- (2 ^ (LENGTH('a) - 1)) \<le> sint a * sint b" and "sint a * sint b < 2 ^ (LENGTH('a) - 1)"
  shows "sint (a * b) = sint a * sint b"
  using assms by (simp add: sint_word_ariths(3) signed_take_bit_int_eq_self)

lemma sint_neg_fits:
  fixes a :: "'a::len word"
  assumes "sint a \<noteq> - (2 ^ (LENGTH('a) - 1))"
  shows "sint (- a) = - sint a"
proof -
  have "- (2 ^ (LENGTH('a) - 1)) \<le> sint a" "sint a < 2 ^ (LENGTH('a) - 1)" using sint_ge [of a] sint_lt [of a] by simp_all
  then show ?thesis using assms by (simp add: sint_word_ariths(4) signed_take_bit_int_eq_self)
qed

lemma tdiv_pos: "0 < b \<Longrightarrow> tdiv a b = (if 0 \<le> a then a div b else - ((- a) div b))"
  by (auto simp: tdiv_def sgn_if)

lemma tdiv_bounds: "0 < b \<Longrightarrow> 0 \<le> a \<Longrightarrow> 0 \<le> tdiv a b \<and> b * tdiv a b \<le> a \<and> a < b * tdiv a b + b" for a b :: int
  by (simp add: tdiv_pos pos_imp_zdiv_nonneg_iff) (metis add.commute mult.commute mult_div_mod_eq pos_mod_bound pos_mod_sign add_le_cancel_left add_0 add_less_cancel_left)

lemma cdiv_pos:
  fixes a b :: "'a::len word"
  assumes "0 < sint b"
  shows "sint (cdiv a b) = tdiv (sint a) (sint b)"
proof -
  have r: "- (2 ^ (LENGTH('a) - 1)) \<le> sint a" "sint a < 2 ^ (LENGTH('a) - 1)" using sint_ge [of a] sint_lt [of a] by simp_all
  have "\<bar>tdiv (sint a) (sint b)\<bar> \<le> \<bar>sint a\<bar>" using assms by (simp add: abs_tdiv) (smt (verit) zdiv_mono2 div_by_1)
  moreover have "0 \<le> sint a \<Longrightarrow> 0 \<le> tdiv (sint a) (sint b)" "sint a < 0 \<Longrightarrow> tdiv (sint a) (sint b) \<le> 0"
    using assms by (simp_all add: tdiv_pos pos_imp_zdiv_nonneg_iff)
  ultimately have "- (2 ^ (LENGTH('a) - 1)) \<le> tdiv (sint a) (sint b) \<and> tdiv (sint a) (sint b) < 2 ^ (LENGTH('a) - 1)" using r by linarith
  then show ?thesis by (simp add: cdiv_def sint_sbintrunc' signed_take_bit_int_eq_self)
qed

lemma sint_down: "- (2 ^ 31) \<le> sint x \<Longrightarrow> sint x < 2 ^ 31 \<Longrightarrow> sint (scast x :: i32) = sint x" for x :: i64
  by (simp only: scast_eq sint_eq_signed_take_bit) (simp add: signed_take_bit_int_eq_self)

lemma sint_up: "sint (scast x :: i64) = sint x" for x :: i32
  by (rule sint_up_scast) (simp add: is_up)

lemma sint_consts [simp]: "sint UNITS = 10000000" "sint AVGPERIOD = 4" "sint (AVGPERIOD - 1) = 3" "sint (- (50 * UNITS)) = - 500000000" "sint (50 * UNITS) = 500000000"
  by (simp_all add: UNITS_def AVGPERIOD_def)

lemma TimeDiff_eq: "sint (TimeDiff rt) = max (- 500000000) (min 500000000 (sint rt))"
  by (auto simp: TimeDiff_def word_sless_alt sint_down)


section \<open>The square root\<close>

lemma sint_power2: "k \<le> 15 \<Longrightarrow> sint (2 ^ k :: i32) = 2 ^ k"
proof -
  assume k: "k \<le> 15"
  then have "(2::int) ^ k \<le> 2 ^ 15" by (intro power_increasing) auto
  moreover have "0 \<le> (2::int) ^ k" by simp
  ultimately have "signed_take_bit 31 ((2::int) ^ k) = 2 ^ k" by (intro signed_take_bit_int_eq_self; simp; linarith)
  then have "sint (word_of_int (2 ^ k) :: i32) = 2 ^ k" by (simp only: sint_eq_signed_take_bit) simp
  then show ?thesis by simp
qed

lemma sint_square_power2: "k \<le> 15 \<Longrightarrow> sint ((2 ^ k :: i32) * 2 ^ k) = (2 ^ k)\<^sup>2"
proof -
  assume k: "k \<le> 15"
  then have "(2::int) ^ k \<le> 2 ^ 15" by (intro power_increasing) auto
  then have "(2::int) ^ k * 2 ^ k \<le> 2 ^ 15 * 2 ^ 15" by (intro mult_mono) auto
  moreover have "0 \<le> (2::int) ^ k * 2 ^ k" by simp
  ultimately have "- (2 ^ 31) \<le> (2::int) ^ k * 2 ^ k" and "(2::int) ^ k * 2 ^ k < 2 ^ 31" by (simp; linarith)+
  then show ?thesis using sint_power2 [OF k] by (subst sint_mult_fits) (auto simp: power2_eq_square)
qed

lemma isqrt_guess_ends:
  assumes "sint x \<le> 2 ^ 30" and "k \<le> 15" and "k = 0 \<or> (2 ^ (k - 1))\<^sup>2 < sint x"
  shows "\<exists>j\<le>15. isqrt_guess x (2 ^ k) = Some (2 ^ j) \<and> sint x \<le> (2 ^ j)\<^sup>2 \<and> (j = 0 \<or> (2 ^ (j - 1))\<^sup>2 < sint x)"
  using assms(2,3)
proof (induction "15 - k" arbitrary: k)
  case 0
  then have k: "k = 15" by simp
  have "\<not> (2 ^ k :: i32) * 2 ^ k <s x" using assms(1) sint_square_power2 [of k] k by (simp add: word_sless_alt)
  then have "isqrt_guess x (2 ^ k) = Some (2 ^ k)" by (subst isqrt_guess.simps) simp
  then show ?case using k 0 assms(1) by (intro exI [of _ 15]) auto
next
  case (Suc n)
  show ?case
  proof (cases "(2 ^ k)\<^sup>2 < sint x")
    case True
    then have "isqrt_guess x (2 ^ k) = isqrt_guess x (2 ^ Suc k)"
      using sint_square_power2 [OF Suc(3)] by (subst isqrt_guess.simps) (simp add: word_sless_alt)
    then show ?thesis using Suc(1) [of "Suc k"] Suc(2,3) True by auto
  next
    case False
    then have "isqrt_guess x (2 ^ k) = Some (2 ^ k)"
      using sint_square_power2 [OF Suc(3)] by (subst isqrt_guess.simps) (simp add: word_sless_alt)
    then show ?thesis using Suc(3,4) False by (intro exI [of _ k]) auto
  qed
qed

definition newton_int :: "int \<Rightarrow> int \<Rightarrow> int" where
  "newton_int x s = (s * s + x) div (2 * s)"

lemma newton_eq:
  assumes "1 \<le> sint s" and "sint s \<le> 2 ^ 15" and "0 \<le> sint x" and "sint s * sint s + sint x < 2 ^ 31"
  shows "\<exists>r. newton x s = Some r \<and> sint r = newton_int (sint x) (sint s)"
proof -
  have ss: "sint (s * s) = sint s * sint s"
    using assms by (subst sint_mult_fits) (auto intro: order_trans [OF _ mult_nonneg_nonneg] order_le_less_trans [OF _ assms(4)])
  then have n: "sint (s * s + x) = sint s * sint s + sint x" using assms(1,3,4) by (subst sint_add_fits) (auto intro: order_trans [OF _ add_nonneg_nonneg])
  have d: "sint (2 * s) = 2 * sint s" using assms(1,2) by (subst sint_mult_fits) auto
  then have "2 * s \<noteq> 0" using assms(1) by (metis sint_0 mult_eq_0_iff not_one_le_zero zero_neq_numeral)
  moreover have "sint (cdiv (s * s + x) (2 * s)) = (sint s * sint s + sint x) div (2 * sint s)"
    using assms(1,3) by (subst cdiv_pos) (auto simp: n d tdiv_pos)
  ultimately show ?thesis by (simp add: newton_def newton_int_def)
qed

lemma newton_below:
  assumes "1 \<le> s" and "0 \<le> x"
  shows "x < (newton_int x s + 1)\<^sup>2" and "2 * s * newton_int x s \<le> s * s + x"
proof -
  let ?n = "newton_int x s"
  have m: "2 * s * ?n + (s * s + x) mod (2 * s) = s * s + x" "0 \<le> (s * s + x) mod (2 * s)" "(s * s + x) mod (2 * s) < 2 * s"
    using assms(1) unfolding newton_int_def by simp_all
  have d: "2 * s * ?n \<le> s * s + x" "s * s + x < 2 * s * (?n + 1)" using m unfolding distrib_left mult_1_right by linarith+
  then show "2 * s * ?n \<le> s * s + x" by simp
  have "4 * (s * s) * x \<le> (s * s + x)\<^sup>2" using zero_le_power2 [of "s * s - x"] by (simp add: power2_eq_square algebra_simps)
  also have "\<dots> < (2 * s * (?n + 1))\<^sup>2" using d(2) assms by (intro power_strict_mono) auto
  also have "\<dots> = 4 * (s * s) * (?n + 1)\<^sup>2" by (simp add: power2_eq_square algebra_simps)
  finally show "x < (?n + 1)\<^sup>2" using assms(1) by (simp add: mult_less_cancel_left_pos)
qed

lemma newton_above:
  fixes r :: real
  assumes "1 \<le> s" and "0 \<le> x" and "r * r = x" and "0 < r"
  shows "newton_int x s \<le> r + (s - r)\<^sup>2 / (2 * real_of_int s)"
proof -
  have "2 * s * newton_int x s \<le> s * s + x" using newton_below(2) [OF assms(1,2)] .
  then have "real_of_int (2 * s * newton_int x s) \<le> real_of_int (s * s + x)" by (simp only: of_int_le_iff)
  then have "2 * real_of_int s * newton_int x s \<le> s * s + r * r" using assms(3) by simp
  then have "real_of_int (newton_int x s) \<le> (s * s + r * r) / (2 * real_of_int s)" using assms(1) by (simp add: pos_le_divide_eq mult.commute mult.left_commute)
  also have "\<dots> = r + (s - r)\<^sup>2 / (2 * real_of_int s)" using assms(1) by (simp add: field_simps power2_eq_square)
  finally show ?thesis .
qed


lemma newton_three:
  fixes r :: real
  assumes "1 \<le> x" and "x \<le> 10 ^ 6" and "r * r = x" and "0 < r" and "r \<le> s0" and "s0 \<le> 2 * r" and "1 \<le> s0"
    and "s1 = newton_int x s0" and "s2 = newton_int x s1" and "s3 = newton_int x s2"
  shows "1 \<le> s1 \<and> s1 \<le> 1250 \<and> 1 \<le> s2 \<and> s2 \<le> 1250 \<and> 1 \<le> s3 \<and> s3 \<le> r + 1 / 2"
proof -
  have r1: "1 \<le> r"
  proof (rule ccontr)
    assume "\<not> 1 \<le> r"
    then have "r * r < 1 * 1" using assms(4) by (intro mult_strict_mono) auto
    then show False using assms(1,3) by simp
  qed
  have r2: "r \<le> 1000"
  proof (rule ccontr)
    assume "\<not> r \<le> 1000"
    then have "1000 * 1000 < r * r" by (intro mult_strict_mono) auto
    then show False using assms(2,3) by simp
  qed
  have low: "1 \<le> newton_int x s" if "1 \<le> s" for s
  proof (rule ccontr)
    assume "\<not> 1 \<le> newton_int x s"
    moreover have "0 \<le> newton_int x s" using that assms(1) by (simp add: newton_int_def pos_imp_zdiv_nonneg_iff)
    ultimately have "newton_int x s = 0" by simp
    then show False using newton_below(1) [OF that, of x] assms(1) by simp
  qed
  have up: "newton_int x s \<le> r + (s - r)\<^sup>2 / (2 * real_of_int s)" if "1 \<le> s" for s
    using newton_above [OF that _ assms(3,4)] assms(1) by simp
  have high: "(s - r)\<^sup>2 / (2 * real_of_int s) \<le> (s - r)\<^sup>2 / (2 * r)" if "r \<le> s" for s :: int
    using that r1 by (intro divide_left_mono) auto
  have less: "(s - r)\<^sup>2 / (2 * real_of_int s) \<le> 1 / 2" if "1 \<le> s" "s < r" "x < (s + 1)\<^sup>2" for s :: int
  proof -
    have "r < s + 1"
    proof (rule ccontr)
      assume "\<not> r < s + 1"
      then have "(real_of_int s + 1) * (real_of_int s + 1) \<le> r * r" using that(1) by (intro mult_mono) auto
      then have "real_of_int ((s + 1)\<^sup>2) \<le> real_of_int x" using assms(3) by (simp add: power2_eq_square)
      then show False using that(3) by linarith
    qed
    then have "(r - s) * (r - s) \<le> 1 * 1" using that(2) by (intro mult_mono) auto
    then have "(s - r)\<^sup>2 \<le> 1" by (simp add: power2_eq_square algebra_simps)
    then have "(s - r)\<^sup>2 / (2 * real_of_int s) \<le> 1 / (2 * real_of_int s)" using that(1) by (intro divide_right_mono) auto
    also have "\<dots> \<le> 1 / 2" using that(1) by (simp add: field_simps)
    finally show ?thesis .
  qed
  have 1: "1 \<le> s1" "s1 \<le> r + r / 4" "x < (s1 + 1)\<^sup>2"
  proof -
    show "1 \<le> s1" "x < (s1 + 1)\<^sup>2" using low [OF assms(7)] newton_below(1) [OF assms(7)] assms(1,8) by simp_all
    have "0 \<le> (2 * real_of_int s0 - r) * (2 * r - s0)" using assms(5,6) r1 by (intro mult_nonneg_nonneg) auto
    then have "(s0 - r)\<^sup>2 * 4 \<le> r * (2 * real_of_int s0)" by (simp add: power2_eq_square algebra_simps)
    then have "(s0 - r)\<^sup>2 / (2 * real_of_int s0) \<le> r / 4" using assms(7) by (simp add: pos_divide_le_eq)
    then show "s1 \<le> r + r / 4" using up [OF assms(7)] assms(8) by simp
  qed
  have 2: "1 \<le> s2" "s2 \<le> r + max (r / 32) (1 / 2)" "x < (s2 + 1)\<^sup>2"
  proof -
    show "1 \<le> s2" "x < (s2 + 1)\<^sup>2" using low [OF 1(1)] newton_below(1) [OF 1(1)] assms(1,9) by simp_all
    have "(s1 - r)\<^sup>2 / (2 * real_of_int s1) \<le> max (r / 32) (1 / 2)"
    proof (cases "r \<le> s1")
      case True
      have "(s1 - r) * (s1 - r) \<le> (r / 4) * (r / 4)" using True 1(2) by (intro mult_mono) auto
      then have "(s1 - r)\<^sup>2 / (2 * r) \<le> r / 32" using r1 by (simp add: power2_eq_square pos_divide_le_eq)
      then show ?thesis using high [OF True] by simp
    next
      case False
      then show ?thesis using less [OF 1(1) _ 1(3)] by simp
    qed
    then show "s2 \<le> r + max (r / 32) (1 / 2)" using up [OF 1(1)] assms(9) by simp
  qed
  have "(s2 - r)\<^sup>2 / (2 * real_of_int s2) \<le> 1 / 2"
  proof (cases "r \<le> s2")
    case True
    have "(s2 - r) * (s2 - r) \<le> max (r / 32) (1 / 2) * max (r / 32) (1 / 2)" using True 2(2) by (intro mult_mono) auto
    also have "\<dots> \<le> r" using r1 r2 by (auto simp: max_def)
    finally have "(s2 - r)\<^sup>2 / (2 * r) \<le> 1 / 2" using r1 by (simp add: power2_eq_square pos_divide_le_eq)
    then show ?thesis using high [OF True] by simp
  next
    case False
    then show ?thesis using less [OF 2(1) _ 2(3)] by simp
  qed
  then have "s3 \<le> r + 1 / 2" using up [OF 2(1)] assms(10) by simp
  moreover have "1 \<le> s3" using low [OF 2(1)] assms(10) by simp
  ultimately show ?thesis using 1(1,2) 2(1,2) r1 r2 by auto
qed


lemma isqrt_close:
  assumes "0 \<le> sint x" and "sint x \<le> 10 ^ 6"
  shows "\<exists>s. isqrt x = Some s \<and> 0 \<le> sint s \<and> sint x < (sint s + 1)\<^sup>2 \<and> (sint s \<noteq> 0 \<longrightarrow> (2 * sint s - 1)\<^sup>2 \<le> 4 * sint x)"
proof (cases "x = 0")
  case True
  then show ?thesis by (simp add: isqrt_def isqrt_guess.simps word_sless_alt)
next
  case False
  then have "sint x \<noteq> 0" by (metis signed_eq_0_iff)
  moreover define X where "X = sint x"
  ultimately have x: "1 \<le> X" and X6: "X \<le> 10 ^ 6" using assms by (auto simp: X_def)
  have big: "\<not> 0x40000000 <s x" using assms(2) by (simp add: word_sless_alt)
  obtain j where j: "j \<le> 15" "isqrt_guess x 1 = Some (2 ^ j)" "X \<le> (2 ^ j)\<^sup>2" "j = 0 \<or> (2 ^ (j - 1))\<^sup>2 < X"
    using isqrt_guess_ends [of x 0] assms(2) unfolding X_def by auto
  define r where "r = sqrt (real_of_int X)"
  have r: "r * r = X" "0 < r" using x by (simp_all add: r_def)
  have up: "r \<le> real_of_int (2 ^ j)"
  proof -
    have "real_of_int X \<le> real_of_int ((2 ^ j)\<^sup>2)" using j(3) by (simp only: of_int_le_iff)
    then have "real_of_int X \<le> (real_of_int (2 ^ j))\<^sup>2" by (simp only: of_int_power)
    then show ?thesis unfolding r_def by (intro real_le_lsqrt) simp_all
  qed
  have dn: "real_of_int (2 ^ j) \<le> 2 * r"
  proof (cases j)
    case 0
    have "1 \<le> r" unfolding r_def using x by simp
    then show ?thesis using 0 by simp
  next
    case (Suc i)
    then have "real_of_int ((2 ^ i)\<^sup>2) \<le> real_of_int X" using j(4) by (simp only: of_int_le_iff) simp
    then have "real_of_int (2 ^ i) \<le> r" unfolding r_def by (intro real_le_rsqrt) simp
    then show ?thesis using Suc by simp
  qed
  let ?s1 = "newton_int X (2 ^ j)" let ?s2 = "newton_int X ?s1" let ?s3 = "newton_int X ?s2"
  have n: "1 \<le> ?s1" "?s1 \<le> 1250" "1 \<le> ?s2" "?s2 \<le> 1250" "1 \<le> ?s3" "?s3 \<le> r + 1 / 2"
    using newton_three [OF x X6 r up dn _ refl refl refl] by simp_all
  have "2 ^ j \<le> (2000 :: int)"
  proof -
    have "r \<le> 1000" unfolding r_def using X6 by (intro real_le_lsqrt) (use x in \<open>auto\<close>)
    then have "real_of_int (2 ^ j) \<le> real_of_int 2000" using dn by simp
    then show ?thesis by (simp only: of_int_le_iff)
  qed
  then have "2 ^ j * 2 ^ j \<le> (2000 * 2000 :: int)" by (intro mult_mono) auto
  then obtain w1 where w1: "newton x (2 ^ j) = Some w1" "sint w1 = ?s1"
    using newton_eq [of "2 ^ j" x] sint_power2 [OF j(1)] \<open>2 ^ j \<le> (2000 :: int)\<close> assms by (auto simp: X_def)
  have sq: "s * s \<le> 1250 * 1250" if "1 \<le> s" "s \<le> 1250" for s :: int using that by (intro mult_mono) auto
  obtain w2 where w2: "newton x w1 = Some w2" "sint w2 = ?s2" using newton_eq [of w1 x] w1(2) n(1,2) sq [OF n(1,2)] assms by (auto simp: X_def)
  obtain w3 where w3: "newton x w2 = Some w3" "sint w3 = ?s3" using newton_eq [of w2 x] w2(2) n(3,4) sq [OF n(3,4)] assms by (auto simp: X_def)
  have "isqrt x = Some w3" using big False j(2) w1 w2 w3 n(1,3) by (simp add: isqrt_def word_sle_eq)
  moreover have "X < (?s3 + 1)\<^sup>2" using newton_below(1) [OF n(3)] x by simp
  moreover have "(2 * ?s3 - 1)\<^sup>2 \<le> 4 * X"
  proof -
    have "(2 * real_of_int ?s3 - 1) * (2 * real_of_int ?s3 - 1) \<le> (2 * r) * (2 * r)" using n(5,6) r(2) by (intro mult_mono) auto
    then have "real_of_int ((2 * ?s3 - 1)\<^sup>2) \<le> real_of_int (4 * X)" using r(1) by (simp add: power2_eq_square)
    then show ?thesis by (simp only: of_int_le_iff)
  qed
  ultimately show ?thesis using w3(2) n(5) unfolding X_def by auto
qed

text \<open>C1. In the range of its use, up to \<open>10 ^ 6\<close>, the integer square root ends, divides by no zero, is at least the square root rounded down and at
  most the root and a half: it is accurate to the nearest unit.\<close>

theorem isqrt_accurate:
  assumes "0 \<le> sint x" and "sint x \<le> 10 ^ 6"
  shows "\<exists>s. isqrt x = Some s \<and> 0 \<le> sint s \<and> sint x < (sint s + 1)\<^sup>2 \<and> (sint s \<noteq> 0 \<longrightarrow> (2 * sint s - 1)\<^sup>2 \<le> 4 * sint x)"
  using isqrt_close [OF assms] .

theorem isqrt_accurate_witness: "\<exists>s. isqrt 1000 = Some s \<and> sint s \<ge> 31 \<and> sint s \<le> 32"
proof -
  obtain s where s: "isqrt 1000 = Some s" "0 \<le> sint s" "1000 < (sint s + 1)\<^sup>2" "sint s \<noteq> 0 \<longrightarrow> (2 * sint s - 1)\<^sup>2 \<le> 4000"
    using isqrt_accurate [of 1000] by auto
  have "31 \<le> sint s"
  proof (rule ccontr)
    assume "\<not> 31 \<le> sint s"
    then have "(sint s + 1) * (sint s + 1) \<le> 31 * 31" using s(2) by (intro mult_mono) auto
    then show False using s(3) by (simp add: power2_eq_square)
  qed
  moreover have "sint s \<le> 32"
  proof (rule ccontr)
    assume "\<not> sint s \<le> 32"
    then have "65 * 65 \<le> (2 * sint s - 1) * (2 * sint s - 1)" by (intro mult_mono) auto
    then show False using s(4) \<open>\<not> sint s \<le> 32\<close> by (simp add: power2_eq_square)
  qed
  ultimately show ?thesis using s(1) by blast
qed

text \<open>At the bound \<open>0x40000000\<close> itself the sum of the first step overflows and the root is negative; for \<open>- 1\<close> the second step divides by zero.\<close>

lemma isqrt_edge: "isqrt 0x40000000 = Some (- 32768)" "isqrt (- 1) = None"
proof -
  have "isqrt_guess 0x40000000 (2 ^ 0) = Some (2 ^ 15)"
  proof -
    obtain j where j: "j \<le> 15" "isqrt_guess 0x40000000 (2 ^ 0) = Some (2 ^ j)" "0x40000000 \<le> ((2::int) ^ j)\<^sup>2"
      using isqrt_guess_ends [of "0x40000000" 0] by auto
    have "j = 15"
    proof (rule ccontr)
      assume "j \<noteq> 15"
      then have "((2::int) ^ j)\<^sup>2 \<le> (2 ^ 14)\<^sup>2" using j(1) by (intro power_mono power_increasing) auto
      then show False using j(3) by simp
    qed
    then show ?thesis using j(2) by simp
  qed
  then show "isqrt 0x40000000 = Some (- 32768)" by (simp add: isqrt_def newton_def cdiv_def tdiv_def word_sless_alt word_sle_eq)
  have "isqrt_guess (- 1) 1 = Some 1" by (subst isqrt_guess.simps) (simp add: word_sless_alt)
  then show "isqrt (- 1) = None" by (simp add: isqrt_def newton_def cdiv_def tdiv_def word_sless_alt word_sle_eq)
qed


section \<open>Throttling\<close>

lemma sint_less_iff: "a <s b \<longleftrightarrow> sint a < sint b" "a \<le>s b \<longleftrightarrow> sint a \<le> sint b"
  by (simp_all add: word_sless_alt word_sle_eq)

lemma throttle_value:
  fixes p :: i32
  assumes "0 \<le> sint p" and "sint p < 1000"
  shows "sint (- 330000 + cdiv 388880000 (p + 167)) = 388880000 div (sint p + 167) - 330000"
    and "0 < sint (p + 167)" and "0 \<le> 388880000 div (sint p + 167) - 330000" and "388880000 div (sint p + 167) - 330000 \<le> 2000000"
proof -
  have s: "sint (p + 167) = sint p + 167" using assms by (subst sint_add_fits) auto
  then show "0 < sint (p + 167)" using assms by simp
  then have c: "sint (cdiv 388880000 (p + 167)) = 388880000 div (sint p + 167)" by (subst cdiv_pos) (simp_all add: s tdiv_pos)
  have "388880000 div (1167::int) \<le> 388880000 div (sint p + 167)" using assms by (intro zdiv_mono2) auto
  moreover have "388880000 div (sint p + 167) \<le> 388880000 div (167::int)" using assms by (intro zdiv_mono2) auto
  ultimately have b: "333230 \<le> 388880000 div (sint p + 167)" "388880000 div (sint p + 167) \<le> 2328622" by simp_all
  then show "sint (- 330000 + cdiv 388880000 (p + 167)) = 388880000 div (sint p + 167) - 330000" by (subst sint_add_fits) (simp_all add: c)
  show "0 \<le> 388880000 div (sint p + 167) - 330000" "388880000 div (sint p + 167) - 330000 \<le> 2000000" using b by simp_all
qed

lemma Notify_value:
  assumes "0 \<le> sint (Proportion q)"
  shows "\<exists>t. Video_Notify q v = Some (S_OK, v\<lparr>m_trThrottle := t\<rparr>) \<and>
    sint t = (if sint (Proportion q) < 1000 then 388880000 div (sint (Proportion q) + 167) - 330000 else 0)"
proof (cases "sint (Proportion q) < 1000")
  case True
  then have "Proportion q + 167 \<noteq> 0" using throttle_value(2) [OF assms] by auto
  then have "Video_Notify q v = Some (S_OK, v\<lparr>m_trThrottle := - 330000 + cdiv 388880000 (Proportion q + 167)\<rparr>)"
    using True by (simp add: Video_Notify_def sint_less_iff)
  then show ?thesis using True throttle_value(1) [OF assms True] by (metis (full_types))
qed (auto simp add: Video_Notify_def sint_less_iff)

text \<open>A request to throttle with a proportion that is not negative sets a wait between zero and 200 ms, which is no longer for
  a larger proportion and zero from 1000 on. The proportion \<open>- 167\<close> is a division by zero.\<close>

theorem vq_throttle:
  assumes "0 \<le> sint (Proportion q)" and "sint (Proportion q) \<le> sint (Proportion q')" and "Proportion q0 = - 167"
  shows "\<exists>t t'. Video_Notify q v = Some (S_OK, v\<lparr>m_trThrottle := t\<rparr>) \<and> Video_Notify q' v = Some (S_OK, v\<lparr>m_trThrottle := t'\<rparr>) \<and>
    0 \<le> sint t' \<and> sint t' \<le> sint t \<and> sint t \<le> 2000000 \<and> (1000 \<le> sint (Proportion q) \<longrightarrow> t = 0) \<and> Video_Notify q0 v = None"
proof -
  let ?p = "sint (Proportion q)" and ?p' = "sint (Proportion q')"
  obtain t where t: "Video_Notify q v = Some (S_OK, v\<lparr>m_trThrottle := t\<rparr>)" "sint t = (if ?p < 1000 then 388880000 div (?p + 167) - 330000 else 0)"
    using Notify_value [OF assms(1)] by blast
  have "0 \<le> ?p'" using assms(1,2) by simp
  then obtain t' where t': "Video_Notify q' v = Some (S_OK, v\<lparr>m_trThrottle := t'\<rparr>)" "sint t' = (if ?p' < 1000 then 388880000 div (?p' + 167) - 330000 else 0)"
    using Notify_value by blast
  have "388880000 div (?p' + 167) \<le> 388880000 div (?p + 167)" using assms(1,2) by (intro zdiv_mono2) auto
  moreover have "?p' < 1000 \<longrightarrow> 0 \<le> 388880000 div (?p' + 167) - 330000" using throttle_value(3) [of "Proportion q'"] assms(1,2) by auto
  moreover have "?p < 1000 \<longrightarrow> 0 \<le> 388880000 div (?p + 167) - 330000 \<and> 388880000 div (?p + 167) - 330000 \<le> 2000000"
    using throttle_value(3,4) [of "Proportion q"] assms(1) by auto
  moreover have "Video_Notify q0 v = None" using assms(3) by (simp add: Video_Notify_def sint_less_iff)
  moreover have "1000 \<le> ?p \<longrightarrow> t = 0" using t(2) by (metis linorder_not_le signed_eq_0_iff)
  ultimately show ?thesis using t t' assms(2) by (intro exI [of _ t] exI [of _ t']) auto
qed

theorem vq_throttle_witness:
  "Video_Notify \<lparr>Type = Flood, Proportion = - 167, Late = 0, TimeStamp = 0\<rparr> (new_CBaseVideoRenderer 0 undefined) = None"
proof -
  let ?q = "\<lambda>p. \<lparr>Type = Flood, Proportion = p, Late = 0, TimeStamp = 0\<rparr>"
  show ?thesis using vq_throttle [of "?q 500" "?q 900" "?q (- 167)" "new_CBaseVideoRenderer 0 undefined"] by auto
qed

section \<open>Messages\<close>

definition fair_averages :: "CBaseVideoRenderer \<Rightarrow> bool" where
  "fair_averages v \<longleftrightarrow> - 1 \<le> sint (m_trFrameAvg v) \<and> sint (m_trFrameAvg v) \<le> 10 ^ 8 \<and> 0 \<le> sint (m_trRenderAvg v) \<and> sint (m_trRenderAvg v) \<le> 10 ^ 8 \<and>
     0 \<le> sint (m_trWaitAvg v) \<and> sint (m_trWaitAvg v) \<le> 5 * 10 ^ 8"

lemma proportion_value:
  assumes "fair_averages v" and "- 500000000 \<le> sint l" and "sint l \<le> 500000000"
  shows "sint (quality_proportion l v) =
    (if sint (m_trFrameAvg v) < 0 then 1000
     else if 0 < sint l then max 500 (1000 - sint l div 10000)
     else if 20000 < sint (m_trWaitAvg v) \<and> sint l < - 20000 \<and>
        (sint (m_trFrameAvg v) \<le> sint (m_trWaitAvg v) \<or> 2 * (sint (m_trFrameAvg v) + 20000 - sint (m_trWaitAvg v)) \<le> sint (m_trFrameAvg v)) then 2000
     else 1000)"
proof -
  let ?f = "m_trFrameAvg v" and ?w = "m_trWaitAvg v"
  have f: "sint ?f \<le> 10 ^ 8" "- 1 \<le> sint ?f" and w: "0 \<le> sint ?w" "sint ?w \<le> 5 * 10 ^ 8" using assms(1) by (simp_all add: fair_averages_def)
  have u: "sint (cdiv UNITS 1000) = 10000" by (simp add: cdiv_pos tdiv_pos)
  consider (unknown) "sint ?f < 0" | (late) "0 \<le> sint ?f" "0 < sint l" | (early) "0 \<le> sint ?f" "sint l \<le> 0" by linarith
  then show ?thesis
  proof cases
    case unknown
    then show ?thesis by (simp add: quality_proportion_def sint_less_iff)
  next
    case late
    have d: "sint (cdiv l (cdiv UNITS 1000)) = sint l div 10000" using late u by (subst cdiv_pos) (simp_all add: tdiv_pos)
    have "0 \<le> sint l div 10000 \<and> sint l div 10000 \<le> 50000" using late assms(3) by auto
    then have "sint (1000 - scast (cdiv l (cdiv UNITS 1000)) :: i32) = 1000 - sint l div 10000"
      by (subst sint_sub_fits) (simp_all add: sint_down d)
    then show ?thesis using late by (simp add: quality_proportion_def sint_less_iff Let_def max_def)
  next
    case early
    show ?thesis
    proof (cases "20000 < sint ?w \<and> sint l < - 20000 \<and> sint ?w < sint ?f")
      case True
      have s: "sint (?f + 20000) = sint ?f + 20000" using f by (subst sint_add_fits) auto
      then have d: "sint (?f + 20000 - ?w) = sint ?f + 20000 - sint ?w" using f w by (subst sint_sub_fits) auto
      let ?d = "sint ?f + 20000 - sint ?w"
      have c: "sint (cdiv ?f (?f + 20000 - ?w)) = sint ?f div ?d" using True early by (subst cdiv_pos) (simp_all add: d tdiv_pos)
      have q: "sint ?f div ?d \<le> sint ?f div 20000" using True early by (intro zdiv_mono2) auto
      have "1 \<le> sint ?f div ?d" using True by (subst le_zdiv_iff) auto
      moreover have "sint ?f div 20000 \<le> 10 ^ 8 div 20000" using f by (intro zdiv_mono1) auto
      then have "sint ?f div ?d \<le> 5000" using q by simp
      ultimately have m: "sint (1000 * cdiv ?f (?f + 20000 - ?w)) = 1000 * (sint ?f div ?d)" by (subst sint_mult_fits) (simp_all add: c)
      have "2 \<le> sint ?f div ?d \<longleftrightarrow> 2 * ?d \<le> sint ?f" using True by (simp add: le_zdiv_iff)
      then show ?thesis using True early m s \<open>1 \<le> sint ?f div ?d\<close> by (auto simp: quality_proportion_def sint_less_iff Let_def)
    next
      case False
      then show ?thesis using early by (auto simp: quality_proportion_def sint_less_iff Let_def)
    qed
  qed
qed


text \<open>C35. The proportion sent to the supplier is between 500 and 2000. When late it is 1000 less one per millisecond; otherwise it is 1000 or 2000 and
  nothing between: the quotient of the averages is taken of integers before the multiplication.\<close>

theorem vq_message_bounds:
  assumes "fair_averages v" and "- 500000000 \<le> sint l" and "sint l \<le> 500000000" and "q = quality_message l now v"
  shows "500 \<le> sint (Proportion q) \<and> sint (Proportion q) \<le> 2000 \<and>
    (0 \<le> sint (m_trFrameAvg v) \<longrightarrow> 0 < sint l \<longrightarrow> sint (Proportion q) = max 500 (1000 - sint l div 10000)) \<and>
    (sint l \<le> 0 \<longrightarrow> Proportion q = 1000 \<or> Proportion q = 2000) \<and>
    (Proportion q = 2000 \<longrightarrow> 20000 < sint (m_trWaitAvg v) \<and> sint l < - 20000) \<and>
    sint (Late q) = sint l + sint (m_trRenderAvg v) div 2 \<and>
    (Type q = Flood \<longleftrightarrow> 0 \<le> sint (m_trFrameAvg v) \<and> sint (m_trFrameAvg v) \<le> 2 * sint (m_trRenderAvg v))"
proof -
  have r: "0 \<le> sint (m_trRenderAvg v)" "sint (m_trRenderAvg v) \<le> 10 ^ 8" using assms(1) by (simp_all add: fair_averages_def)
  define h where "h = sint (m_trRenderAvg v) div 2"
  have c: "sint (cdiv (m_trRenderAvg v) 2) = h" using r unfolding h_def by (subst cdiv_pos) (simp_all add: tdiv_pos)
  have "0 \<le> h" "h \<le> 10 ^ 8" using r by (auto simp: h_def)
  then have late: "sint (Late q) = sint l + h"
    using assms(2,3) by (simp add: assms(4) quality_message_def) (subst sint_add_fits, simp_all add: sint_up c)
  have m: "sint (2 * m_trRenderAvg v) = 2 * sint (m_trRenderAvg v)" using r by (subst sint_mult_fits) auto
  then have type: "Type q = Flood \<longleftrightarrow> 0 \<le> sint (m_trFrameAvg v) \<and> sint (m_trFrameAvg v) \<le> 2 * sint (m_trRenderAvg v)"
    by (auto simp: assms(4) quality_message_def sint_less_iff)
  have p: "Proportion q = quality_proportion l v" by (simp add: assms(4) quality_message_def)
  have eqs: "Proportion q = 1000 \<longleftrightarrow> sint (Proportion q) = 1000" "Proportion q = 2000 \<longleftrightarrow> sint (Proportion q) = 2000"
    by (auto intro: signed_word_eqI)
  have d: "0 < sint l \<longrightarrow> 0 \<le> sint l div 10000" by (simp add: pos_imp_zdiv_nonneg_iff)
  show ?thesis unfolding eqs h_def [symmetric] using late type d proportion_value [OF assms(1-3)] by (auto simp: p split: if_splits)
qed

theorem vq_message_bounds_witness:
  "sint (Proportion (quality_message 3000000 0 ((new_CBaseVideoRenderer 0 undefined)\<lparr>m_trFrameAvg := 400000, m_trRenderAvg := 100000\<rparr>))) = 700"
proof -
  let ?v = "(new_CBaseVideoRenderer 0 undefined)\<lparr>m_trFrameAvg := 400000, m_trRenderAvg := 100000\<rparr>"
  have "fair_averages ?v" by (simp add: fair_averages_def new_CBaseVideoRenderer_def ResetStreamingTimes_def)
  then show ?thesis using vq_message_bounds [of ?v 3000000 "quality_message 3000000 0 ?v" 0] by simp
qed

section \<open>Statistics\<close>

text \<open>The data of a frame in milliseconds, as far as they are counted.\<close>

definition clamp_late :: "int \<Rightarrow> int" where
  "clamp_late t = max (- 1000) (min 1000 (tdiv t 10000))"

definition clamp_frame :: "int \<Rightarrow> int" where
  "clamp_frame t = (let f = tdiv t 10000 in if 1000 < f \<or> f < 0 then 1000 else f)"

definition run_frames :: "(i32 \<times> i32) list \<Rightarrow> CBaseVideoRenderer \<Rightarrow> CBaseVideoRenderer" where
  "run_frames fs v = fold (\<lambda>(l, f). RecordFrameLateness l f) fs v"

lemma RecordFrameLateness_value:
  fixes l f :: i32
  assumes "0 \<le> sint (m_cFramesDrawn v)" and "sint (m_cFramesDrawn v) < 2 ^ 31 - 1"
    and "\<bar>sint (m_iTotAcc v)\<bar> \<le> 2 ^ 62" and "\<bar>sint (m_iSumSqAcc v)\<bar> \<le> 2 ^ 62" and "\<bar>sint (m_iSumFrameTime v)\<bar> \<le> 2 ^ 62" and "\<bar>sint (m_iSumSqFrameTime v)\<bar> \<le> 2 ^ 62"
  defines "v' \<equiv> RecordFrameLateness l f v"
  shows "sint (m_cFramesDrawn v') = sint (m_cFramesDrawn v) + 1"
    and "sint (m_iTotAcc v') = sint (m_iTotAcc v) + (if 1 < sint (m_cFramesDrawn v) then clamp_late (sint l) else 0)"
    and "sint (m_iSumSqAcc v') = sint (m_iSumSqAcc v) + (if 1 < sint (m_cFramesDrawn v) then (clamp_late (sint l))\<^sup>2 else 0)"
    and "sint (m_iSumFrameTime v') = sint (m_iSumFrameTime v) + (if 2 < sint (m_cFramesDrawn v) then clamp_frame (sint f) else 0)"
    and "sint (m_iSumSqFrameTime v') = sint (m_iSumSqFrameTime v) + (if 2 < sint (m_cFramesDrawn v) then (clamp_frame (sint f))\<^sup>2 else 0)"
proof -
  let ?n = "sint (m_cFramesDrawn v)"
  have r: "- (2 ^ 31) \<le> sint l" "sint l < 2 ^ 31" "- (2 ^ 31) \<le> sint f" "sint f < 2 ^ 31" using sint_range32 by auto
  define late where "late = cdiv l 10000"
  define t where "t = (if 1000 <s late \<or> late <s - 1000 then if m_cFramesDrawn v \<le>s 1 then 0 else if 0 <s late then 1000 else - 1000 else late)"
  define frame where "frame = cdiv f 10000"
  define g where "g = (if 1000 <s frame \<or> frame <s 0 then 1000 else frame)"
  have late: "sint late = tdiv (sint l) 10000" unfolding late_def by (subst cdiv_pos) simp_all
  have frame: "sint frame = tdiv (sint f) 10000" unfolding frame_def by (subst cdiv_pos) simp_all
  have t: "1 < ?n \<longrightarrow> sint t = clamp_late (sint l)" "\<bar>sint t\<bar> \<le> 1000"
    using late by (auto simp: t_def clamp_late_def sint_less_iff)
  have g: "sint g = clamp_frame (sint f)" "\<bar>sint g\<bar> \<le> 1000" using frame by (auto simp: g_def clamp_frame_def sint_less_iff Let_def)
  have sq: "sint (w * w) = (sint w)\<^sup>2 \<and> 0 \<le> (sint w)\<^sup>2 \<and> (sint w)\<^sup>2 \<le> 1000000" if "\<bar>sint w\<bar> \<le> 1000" for w :: i32
  proof -
    have "\<bar>sint w\<bar> * \<bar>sint w\<bar> \<le> 1000 * 1000" using that by (intro mult_mono) auto
    then have "sint w * sint w \<le> 1000000" "0 \<le> sint w * sint w" by (simp_all flip: abs_mult)
    then show ?thesis by (subst sint_mult_fits) (auto simp: power2_eq_square intro: order_trans [OF _ zero_le_square])
  qed
  have v': "v' = v\<lparr>m_cFramesDrawn := m_cFramesDrawn v + 1,
      m_iTotAcc := (if 1 < ?n then m_iTotAcc v + scast t else m_iTotAcc v), m_iSumSqAcc := (if 1 < ?n then m_iSumSqAcc v + scast (t * t) else m_iSumSqAcc v),
      m_iSumFrameTime := (if 2 < ?n then m_iSumFrameTime v + scast g else m_iSumFrameTime v),
      m_iSumSqFrameTime := (if 2 < ?n then m_iSumSqFrameTime v + scast (g * g) else m_iSumSqFrameTime v)\<rparr>"
    unfolding v'_def RecordFrameLateness_def Let_def late_def [symmetric] frame_def [symmetric] t_def [symmetric] g_def [symmetric]
    by (cases v) (simp add: sint_less_iff)
  have add: "sint (a + scast b) = sint a + sint b" if "\<bar>sint a\<bar> \<le> 2 ^ 62" "\<bar>sint b\<bar> \<le> 1000000" for a :: i64 and b :: i32
    using that by (subst sint_add_fits) (simp_all add: sint_up abs_le_iff)
  show "sint (m_cFramesDrawn v') = ?n + 1" using assms(1,2) by (simp add: v') (subst sint_add_fits, auto)
  show "sint (m_iTotAcc v') = sint (m_iTotAcc v) + (if 1 < ?n then clamp_late (sint l) else 0)" using t add [OF assms(3), of t] by (simp add: v')
  show "sint (m_iSumSqAcc v') = sint (m_iSumSqAcc v) + (if 1 < ?n then (clamp_late (sint l))\<^sup>2 else 0)"
    using t sq [OF t(2)] add [OF assms(4), of "t * t"] by (auto simp: v')
  show "sint (m_iSumFrameTime v') = sint (m_iSumFrameTime v) + (if 2 < ?n then clamp_frame (sint f) else 0)" using g add [OF assms(5), of g] by (simp add: v')
  show "sint (m_iSumSqFrameTime v') = sint (m_iSumSqFrameTime v) + (if 2 < ?n then (clamp_frame (sint f))\<^sup>2 else 0)"
    using g sq [OF g(2)] add [OF assms(6), of "g * g"] by (auto simp: v')
qed


lemma clamp_bounds: "\<bar>clamp_late t\<bar> \<le> 1000" "\<bar>clamp_frame t\<bar> \<le> 1000"
  by (auto simp: clamp_late_def clamp_frame_def Let_def)

lemma sum_bounds:
  assumes "\<forall>x\<in>set xs. \<bar>x\<bar> \<le> (1000 :: int)"
  shows "\<bar>sum_list xs\<bar> \<le> 1000 * int (length xs)" and "sum_list (map (\<lambda>x. x\<^sup>2) xs) \<le> 1000000 * int (length xs)" and "0 \<le> sum_list (map (\<lambda>x. x\<^sup>2) xs)"
  using assms
proof (induction xs)
  case (Cons x xs)
  {
    case 1
    then show ?case using Cons by (auto simp: abs_le_iff)
  next
    case 2
    then have "\<bar>x\<bar> * \<bar>x\<bar> \<le> 1000 * 1000" by (intro mult_mono) auto
    then have "x\<^sup>2 \<le> 1000000" by (simp add: power2_eq_square flip: abs_mult)
    then show ?case using Cons(2) 2 by simp
  next
    case 3
    then show ?case using Cons(3) by simp
  }
qed simp_all

text \<open>The square of a sum is at most the number of summands times the sum of the squares.\<close>

lemma sum_squares: "(sum_list xs)\<^sup>2 \<le> int (length xs) * sum_list (map (\<lambda>x. x\<^sup>2) xs)" for xs :: "int list"
proof (induction xs)
  case (Cons a xs)
  let ?T = "sum_list xs" and ?S = "sum_list (map (\<lambda>x. x\<^sup>2) xs)" and ?m = "int (length xs)"
  have S: "0 \<le> ?S" by (rule sum_list_nonneg) auto
  have "2 * a * ?T \<le> ?m * a\<^sup>2 + ?S"
  proof (cases "xs = []")
    case False
    then have m: "0 < ?m" by simp
    have "0 \<le> (?m * a - ?T)\<^sup>2" by simp
    then have "2 * (?m * a) * ?T \<le> (?m * a)\<^sup>2 + ?T\<^sup>2" by (simp add: power2_diff)
    also have "\<dots> \<le> (?m * a)\<^sup>2 + ?m * ?S" using Cons by simp
    finally have "?m * (2 * a * ?T) \<le> ?m * (?m * a\<^sup>2 + ?S)" by (simp add: power2_eq_square algebra_simps)
    then show ?thesis using m by (simp only: mult_le_cancel_left_pos)
  qed simp
  then show ?case using Cons by (simp add: power2_eq_square algebra_simps)
qed simp

definition fresh_statistics :: "CBaseVideoRenderer \<Rightarrow> bool" where
  "fresh_statistics v \<longleftrightarrow> m_cFramesDrawn v = 0 \<and> m_iTotAcc v = 0 \<and> m_iSumSqAcc v = 0 \<and> m_iSumFrameTime v = 0 \<and> m_iSumSqFrameTime v = 0"

abbreviation late_data :: "(i32 \<times> i32) list \<Rightarrow> int list" where
  "late_data fs \<equiv> map (\<lambda>(l, f). clamp_late (sint l)) (drop 2 fs)"

abbreviation frame_data :: "(i32 \<times> i32) list \<Rightarrow> int list" where
  "frame_data fs \<equiv> map (\<lambda>(l, f). clamp_frame (sint f)) (drop 3 fs)"

lemma data_bounds: "\<forall>x\<in>set (late_data fs). \<bar>x\<bar> \<le> 1000" "\<forall>x\<in>set (frame_data fs). \<bar>x\<bar> \<le> 1000"
  by (auto simp: clamp_bounds)

lemma run_frames_sums:
  assumes "fresh_statistics v" and "length fs < 2 ^ 31"
  shows "sint (m_cFramesDrawn (run_frames fs v)) = int (length fs) \<and>
    sint (m_iTotAcc (run_frames fs v)) = sum_list (late_data fs) \<and> sint (m_iSumSqAcc (run_frames fs v)) = sum_list (map (\<lambda>x. x\<^sup>2) (late_data fs)) \<and>
    sint (m_iSumFrameTime (run_frames fs v)) = sum_list (frame_data fs) \<and> sint (m_iSumSqFrameTime (run_frames fs v)) = sum_list (map (\<lambda>x. x\<^sup>2) (frame_data fs))"
  using assms(2)
proof (induction fs rule: rev_induct)
  case Nil
  then show ?case using assms(1) by (simp add: run_frames_def fresh_statistics_def)
next
  case (snoc lf fs)
  obtain l f where lf: "lf = (l, f)" by fastforce
  let ?v = "run_frames fs v"
  note IH = snoc(1)
  have n: "length fs < 2 ^ 31 - 1" using snoc(2) by simp
  note IH = snoc(1) [OF order_less_trans [OF n]]
  have r: "run_frames (fs @ [lf]) v = RecordFrameLateness l f ?v" by (simp add: run_frames_def lf)
  have b: "\<bar>sint (m_iTotAcc ?v)\<bar> \<le> 2 ^ 62" "\<bar>sint (m_iSumSqAcc ?v)\<bar> \<le> 2 ^ 62" "\<bar>sint (m_iSumFrameTime ?v)\<bar> \<le> 2 ^ 62" "\<bar>sint (m_iSumSqFrameTime ?v)\<bar> \<le> 2 ^ 62"
    using IH n sum_bounds [OF data_bounds(1) [of fs]] sum_bounds [OF data_bounds(2) [of fs]] by auto
  have d: "0 \<le> sint (m_cFramesDrawn ?v)" "sint (m_cFramesDrawn ?v) < 2 ^ 31 - 1" using IH n by auto
  show ?case unfolding r RecordFrameLateness_value [OF d b]
    using IH n by (auto simp: lf)
qed

lemma GetStdDev_value:
  assumes "sint S = sum_list (map (\<lambda>x. x\<^sup>2) xs)" and "sint T = sum_list xs" and "\<forall>x\<in>set xs. \<bar>x\<bar> \<le> 1000" and "sint N = int (length xs) + 1"
    and "xs \<noteq> []"
  shows "\<exists>s. GetStdDev True N S T = Some (S_OK, s) \<and> 0 \<le> sint s \<and> sint s \<le> 1000 \<and>
    (let x = (sum_list (map (\<lambda>x. x\<^sup>2) xs) - (sum_list xs)\<^sup>2 div (int (length xs) + 1)) div int (length xs)
     in 0 \<le> x \<and> x < (sint s + 1)\<^sup>2 \<and> (sint s \<noteq> 0 \<longrightarrow> (2 * sint s - 1)\<^sup>2 \<le> 4 * x))"
proof -
  define L where "L = int (length xs)"
  define Q where "Q = sum_list (map (\<lambda>x. x\<^sup>2) xs)"
  define t where "t = sum_list xs"
  have L: "1 \<le> L" using assms(5) by (cases xs) (auto simp: L_def)
  have N: "sint N = L + 1" using assms(4) by (simp add: L_def)
  then have L31: "L < 2 ^ 31" using sint_range32 [of N] by simp
  have Q: "0 \<le> Q" "Q \<le> 1000000 * L" and t: "\<bar>t\<bar> \<le> 1000 * L" using sum_bounds [OF assms(3)] by (simp_all add: Q_def t_def L_def)
  have tt: "t\<^sup>2 \<le> L * Q" using sum_squares [of xs] by (simp add: t_def L_def Q_def)
  define m where "m = t\<^sup>2 div (L + 1)"
  have "L * Q \<le> (L + 1) * Q" using Q by (intro mult_right_mono) auto
  then have "t\<^sup>2 \<le> (L + 1) * Q" using tt by simp
  then have "m \<le> (L + 1) * Q div (L + 1)" unfolding m_def using L by (intro zdiv_mono1) simp_all
  moreover have "(L + 1) * Q div (L + 1) = Q" using L by (subst nonzero_mult_div_cancel_left) simp_all
  ultimately have "m \<le> Q" by simp
  moreover have m0: "0 \<le> m" using L by (simp add: m_def pos_imp_zdiv_nonneg_iff)
  ultimately have m: "0 \<le> m" "m \<le> Q" by simp_all
  have m63: "m < 2 ^ 62" using m Q L31 by simp
  have tm: "t\<^sup>2 < (L + 1) * 2 ^ 64"
  proof -
    have "t\<^sup>2 \<le> (L + 1) * Q" using tt \<open>L * Q \<le> (L + 1) * Q\<close> by simp
    also have "\<dots> < (L + 1) * 2 ^ 64" using L L31 Q by (intro mult_strict_left_mono) auto
    finally show ?thesis .
  qed
  have ll: "sint (llMulDiv T T (scast N) 0) = m"
  proof -
    have c: "sint (scast N :: i64) = L + 1" by (simp add: sint_up N)
    have V: "t\<^sup>2 = sint T * sint T + sint (0 :: i64)" using assms(2) by (simp add: t_def power2_eq_square)
    obtain s where s: "t\<^sup>2 \<noteq> 0 \<longrightarrow> s = ((t\<^sup>2 < 0) \<noteq> (sint (scast N :: i64) < 0))"
      "llMulDiv T T (scast N) 0 = (if \<bar>sint (scast N :: i64)\<bar> * 2 ^ 64 \<le> \<bar>t\<^sup>2\<bar> then (if s then 0x8000000000000000 else 0x7FFFFFFFFFFFFFFF)
      else word_of_int (if s then - (\<bar>t\<^sup>2\<bar> div \<bar>sint (scast N :: i64)\<bar>) else \<bar>t\<^sup>2\<bar> div \<bar>sint (scast N :: i64)\<bar>))"
      using llMulDiv_cases [OF V] by blast
    have "llMulDiv T T (scast N) 0 = word_of_int m"
      using s L tm unfolding c by (cases "t = 0") (auto simp: m_def)
    then show ?thesis using m m63 by (simp add: sint_small64)
  qed
  have d: "sint (S - llMulDiv T T (scast N) 0) = Q - m" using assms(1) ll m Q L31 by (subst sint_sub_fits) (auto simp: Q_def)
  have n1: "sint (N - 1) = L" using N L L31 by (subst sint_sub_fits) auto
  define x where "x = (Q - m) div L"
  have x: "0 \<le> x" "x \<le> 10 ^ 6"
  proof -
    show "0 \<le> x" using m L by (simp add: x_def pos_imp_zdiv_nonneg_iff)
    have "(Q - m) div L \<le> 1000000 * L div L" using m(1) Q(2) L by (intro zdiv_mono1) auto
    then show "x \<le> 10 ^ 6" using L by (simp add: x_def)
  qed
  let ?c = "cdiv (S - llMulDiv T T (scast N) 0) (scast (N - 1))"
  have c: "sint ?c = x" using m L by (subst cdiv_pos) (simp_all add: sint_up n1 d tdiv_pos x_def)
  then have cs: "sint (scast ?c :: i32) = x" using x by (subst sint_down) auto
  obtain s where s: "isqrt (scast ?c) = Some s" "0 \<le> sint s" "x < (sint s + 1)\<^sup>2" "sint s \<noteq> 0 \<longrightarrow> (2 * sint s - 1)\<^sup>2 \<le> 4 * x"
    using isqrt_close [of "scast ?c"] x unfolding cs by auto
  have "sint s \<le> 1000"
  proof (rule ccontr)
    assume "\<not> sint s \<le> 1000"
    then have "2001 * 2001 \<le> (2 * sint s - 1) * (2 * sint s - 1)" by (intro mult_mono) auto
    then show False using s(4) x(2) \<open>\<not> sint s \<le> 1000\<close> by (simp add: power2_eq_square)
  qed
  moreover have "GetStdDev True N S T = Some (S_OK, s)" using N L s(1) by (simp add: GetStdDev_def sint_less_iff Let_def)
  ultimately show ?thesis using s x unfolding Let_def x_def m_def L_def [symmetric] Q_def [symmetric] t_def [symmetric] by blast
qed



section \<open>The decision\<close>

definition steady :: "CBaseVideoRenderer \<Rightarrow> bool" where
  "steady v \<longleftrightarrow> fair_averages v \<and> - 500000000 \<le> sint (m_trEarliness v) \<and> sint (m_trEarliness v) \<le> 0 \<and>
     0 \<le> sint (m_trDuration v) \<and> sint (m_trDuration v) \<le> 10 ^ 8 \<and> \<bar>sint (m_trLastDraw v)\<bar> \<le> 2 ^ 61"

lemma tdiv_le: "0 < b \<Longrightarrow> l \<le> 0 \<Longrightarrow> 0 \<le> u \<Longrightarrow> l \<le> a \<Longrightarrow> a \<le> u \<Longrightarrow> l \<le> tdiv a b \<and> tdiv a b \<le> u" for a b l u :: int
proof -
  assume b: "0 < b" "l \<le> 0" "0 \<le> u" "l \<le> a" "a \<le> u"
  have "0 \<le> c div b \<and> c div b \<le> c" if "0 \<le> c" for c using b(1) that by (simp add: pos_imp_zdiv_nonneg_iff) (metis div_by_1 int_one_le_iff_zero_less zdiv_mono2 zero_less_one)
  from this [of a] this [of "- a"] show ?thesis using b by (simp add: tdiv_pos) linarith
qed

lemma frame_rate_change_steady:
  assumes "steady v" and "0 \<le> sint d" and "sint d \<le> 10 ^ 8"
  shows "steady (frame_rate_change d v)"
  using assms by (simp add: frame_rate_change_def steady_def fair_averages_def Let_def)

lemma slide_steady:
  assumes "steady v" and "- 500000000 \<le> sint l"
  shows "steady (slide_earliness l j v)"
proof -
  let ?e = "m_trEarliness v"
  have e: "- 500000000 \<le> sint ?e" "sint ?e \<le> 0" using assms(1) by (simp_all add: steady_def)
  have c: "sint (cdiv ?e 8) = - ((- sint ?e) div 8)" using e by (subst cdiv_pos) (simp_all add: tdiv_pos)
  have "0 \<le> (- sint ?e) div 8" "(- sint ?e) div 8 \<le> - sint ?e" using e by auto
  then have "sint (?e - cdiv ?e 8) = sint ?e + (- sint ?e) div 8" using e c by (subst sint_sub_fits) auto
  then have "- 500000000 \<le> sint (?e - cdiv ?e 8)" "sint (?e - cdiv ?e 8) \<le> 0" using e \<open>0 \<le> (- sint ?e) div 8\<close> \<open>(- sint ?e) div 8 \<le> - sint ?e\<close> by auto
  then show ?thesis using assms by (auto simp: slide_earliness_def steady_def fair_averages_def sint_less_iff)
qed

lemma average_value:
  fixes x y :: i32
  assumes "0 \<le> sint x" and "sint x \<le> 5 * 10 ^ 8" and "- 1 \<le> sint y" and "sint y \<le> 5 * 10 ^ 8"
  shows "sint (cdiv (x + y * (AVGPERIOD - 1)) AVGPERIOD) = tdiv (sint x + 3 * sint y) 4"
    and "sint (cdiv (y * (AVGPERIOD - 1)) AVGPERIOD) = tdiv (3 * sint y) 4"
proof -
  have m: "sint (y * (AVGPERIOD - 1)) = 3 * sint y" using assms by (subst sint_mult_fits) auto
  then have "sint (x + y * (AVGPERIOD - 1)) = sint x + 3 * sint y" using assms by (subst sint_add_fits) auto
  then show "sint (cdiv (x + y * (AVGPERIOD - 1)) AVGPERIOD) = tdiv (sint x + 3 * sint y) 4" by (subst cdiv_pos) simp_all
  show "sint (cdiv (y * (AVGPERIOD - 1)) AVGPERIOD) = tdiv (3 * sint y) 4" using m by (subst cdiv_pos) simp_all
qed

lemma average_bounds:
  fixes x y u :: int
  assumes "0 \<le> x" and "x \<le> u" and "- 1 \<le> y" and "y \<le> u"
  shows "0 \<le> tdiv (x + 3 * y) 4 \<and> tdiv (x + 3 * y) 4 \<le> u"
  using assms by (auto simp: tdiv_pos)

lemma draw_asap_steady:
  assumes "steady v" and "- 500000000 \<le> sint l" and "sint l \<le> 500000000" and "0 \<le> sint fr" and "sint fr \<le> 10 ^ 7" and "\<bar>sint t\<bar> \<le> 2 ^ 61"
  shows "steady (draw_asap l fr t v) \<and> m_trLastDraw (draw_asap l fr t v) = t \<and> m_nNormal (draw_asap l fr t v) = 0"
proof -
  have v: "- 1 \<le> sint (m_trFrameAvg v)" "sint (m_trFrameAvg v) \<le> 10 ^ 8" "0 \<le> sint (m_trWaitAvg v)" "sint (m_trWaitAvg v) \<le> 5 * 10 ^ 8"
    using assms(1) by (simp_all add: steady_def fair_averages_def)
  have w: "sint (cdiv (m_trWaitAvg v * (AVGPERIOD - 1)) AVGPERIOD) = tdiv (3 * sint (m_trWaitAvg v)) 4"
    using average_value(2) [of 0 "m_trWaitAvg v"] v by simp
  have f: "sint (cdiv (fr + m_trFrameAvg v * (AVGPERIOD - 1)) AVGPERIOD) = tdiv (sint fr + 3 * sint (m_trFrameAvg v)) 4"
    using average_value(1) [of fr "m_trFrameAvg v"] v assms by simp
  show ?thesis
    using assms w f average_bounds [of "sint fr" "10 ^ 8" "sint (m_trFrameAvg v)"] average_bounds [of 0 "5 * 10 ^ 8" "sint (m_trWaitAvg v)"]
    by (auto simp: draw_asap_def steady_def fair_averages_def PreparePerformanceData_def Let_def sint_less_iff)
qed

lemma draw_normal_steady:
  assumes "steady v" and "- 500000000 \<le> sint l" and "0 \<le> sint d" and "sint d \<le> 10 ^ 8" and "0 \<le> sint w" and "sint w \<le> 5 * 10 ^ 8"
    and "\<bar>sint t\<bar> \<le> 2 ^ 61" and "\<bar>sint a\<bar> \<le> 2 ^ 60 + 80000"
  shows "\<exists>hr a' v'. draw_normal l d fr w t a v = (hr, a', v') \<and> steady v' \<and> m_nNormal v' = m_nNormal v + 1 \<and> m_trWaitAvg v' = w \<and> m_trFrameAvg v' = d \<and>
    sint a - sint d \<le> sint a' \<and> sint a' \<le> sint a \<and>
    (if sint l < 0 then hr = S_FALSE \<and> m_trLastDraw v' = a' else hr = S_OK \<and> m_trLastDraw v' = t)"
proof -
  let ?e = "m_trEarliness v"
  have e: "- 500000000 \<le> sint ?e" "sint ?e \<le> 0" using assms(1) by (simp_all add: steady_def)
  define trE where "trE = (if ?e <s - d then - d else ?e)"
  have nd: "sint (- d) = - sint d" using assms(3,4) by (intro sint_neg_fits) auto
  have trE: "- sint d \<le> sint trE" "sint trE \<le> 0" using e assms(3) by (auto simp: trE_def sint_less_iff nd)
  have a': "sint (a + scast trE) = sint a + sint trE" using assms(4,8) trE by (subst sint_add_fits) (auto simp: sint_up abs_le_iff)
  have nl: "- l \<le>s 0 \<longleftrightarrow> 0 \<le> sint l"
    using assms(2) by (subst sint_less_iff, subst sint_neg_fits) auto
  have b: "\<bar>sint (a + scast trE)\<bar> \<le> 2 ^ 61" using a' trE assms(4,8) by (auto simp: abs_le_iff)
  show ?thesis
  proof (cases "sint l < 0")
    case True
    then have "\<not> - l \<le>s 0" using nl by simp
    then show ?thesis using True assms a' b trE unfolding trE_def
      by (cases "?e <s - d") (simp_all add: draw_normal_def Let_def PreparePerformanceData_def steady_def fair_averages_def hr_defs)
  next
    case False
    then have "- l \<le>s 0" using nl by simp
    then show ?thesis using False assms a' b trE unfolding trE_def
      by (cases "?e <s - d") (simp_all add: draw_normal_def Let_def PreparePerformanceData_def steady_def fair_averages_def hr_defs)
  qed
qed

lemma draws_value:
  assumes "steady v" and "- 500000000 \<le> sint l" and "sint l \<le> 500000000" and "0 \<le> sint d" and "sint d \<le> 10 ^ 8" and "\<bar>sint t\<bar> \<le> 2 ^ 61"
  shows "draws l d t v \<longleftrightarrow> 3 * sint (m_trRenderAvg v) \<le> sint (m_trFrameAvg v) \<or>
    (if m_bSupplierHandlingQuality v then sint l \<le> 4 * sint d else 2 * sint l < sint d) \<or> 80000 < sint (m_trWaitAvg v) \<or> 10000000 < sint t - sint (m_trLastDraw v)"
proof -
  have r: "sint (3 * m_trRenderAvg v) = 3 * sint (m_trRenderAvg v)" using assms(1) by (subst sint_mult_fits) (auto simp: steady_def fair_averages_def)
  have l: "sint (l + l) = 2 * sint l" using assms by (subst sint_add_fits) auto
  have d: "sint (d * 4) = 4 * sint d" using assms by (subst sint_mult_fits) auto
  have t: "sint (t - m_trLastDraw v) = sint t - sint (m_trLastDraw v)" using assms by (subst sint_sub_fits) (auto simp: steady_def abs_le_iff)
  show ?thesis unfolding draws_def sint_less_iff r l d t by simp
qed

lemma plays_asap_value:
  assumes "0 \<le> sint d" and "sint d \<le> 10 ^ 8"
  shows "plays_asap l d j v \<longleftrightarrow>
    (j \<or> sint d + sint d div 16 < sint (m_trFrameAvg v) \<and> - (10 * sint d) < sint l) \<and> - 9000000 \<le> sint l"
proof -
  have c: "sint (cdiv d 16) = sint d div 16" using assms by (subst cdiv_pos) (simp_all add: tdiv_pos)
  then have s: "sint (d + cdiv d 16) = sint d + sint d div 16" using assms by (subst sint_add_fits) auto
  have n: "sint (- d) = - sint d" using assms by (intro sint_neg_fits) auto
  then have m: "sint (- d * 10) = - (10 * sint d)" using assms by (subst sint_mult_fits) auto
  show ?thesis unfolding plays_asap_def sint_less_iff s m by auto
qed


lemma SendQuality_state:
  "SendQuality e l t v = (hr, q, v') \<Longrightarrow> \<exists>s. v' = v\<lparr>m_pQSink := s\<rparr>"
  by (cases v) (auto simp: SendQuality_def Let_def split: if_splits)

lemma steady_updates [simp]:
  "steady (v\<lparr>m_pQSink := x\<rparr>) = steady v" "steady (v\<lparr>m_bSupplierHandlingQuality := x\<rparr>) = steady v"
  "steady (v\<lparr>m_trRememberStampForPerf := r\<rparr>) = steady v"
  by (simp_all add: steady_def fair_averages_def)

lemma steps_keep:
  "m_trRenderAvg (slide_earliness l j v) = m_trRenderAvg v" "m_trFrameAvg (slide_earliness l j v) = m_trFrameAvg v"
  "m_trWaitAvg (slide_earliness l j v) = m_trWaitAvg v" "m_trLastDraw (slide_earliness l j v) = m_trLastDraw v"
  "m_bSupplierHandlingQuality (slide_earliness l j v) = m_bSupplierHandlingQuality v" "m_nNormal (slide_earliness l j v) = m_nNormal v"
  "m_trWaitAvg (frame_rate_change d v) = m_trWaitAvg v" "m_trLastDraw (frame_rate_change d v) = m_trLastDraw v"
  "m_trRenderAvg (frame_rate_change d v) = m_trRenderAvg v"
  "m_bSupplierHandlingQuality (frame_rate_change d v) = m_bSupplierHandlingQuality v" "m_nNormal (frame_rate_change d v) = m_nNormal v"
  by (simp_all add: slide_earliness_def frame_rate_change_def Let_def)

text \<open>C20. The decision about a frame: it is dropped only when late by half its duration (four durations when the supplier handles quality), and only when there
  is hardly any waiting, drawing takes more than a third of the time between frames and a frame was drawn within the last second. It is delayed only
  when early, and then to a time at most its duration before it is due; early frames are drawn at once only within 0.9 s of their time, always so after a drop.
  The averages and the earliness stay in their ranges.\<close>

theorem vq_decision:
  assumes "steady v" and "t = clock - start" and "\<bar>sint clock - sint start\<bar> \<le> 2 ^ 60" and "\<bar>sint s\<bar> \<le> 2 ^ 60" and "0 \<le> sint p - sint s" and "sint p - sint s \<le> 10 ^ 8"
    and "sint (m_trLastDraw v) \<le> sint t" and "d = sint p - sint s" and "a0 = (if 80000 \<le> sint s then sint s - 80000 else sint s)"
    and "ShouldDrawSampleNow e clock start discontinuity (s, p) v = (hr, (a, b), q, v')"
  shows "steady v' \<and> sint b = a0 + d \<and>
    (hr = S_OK \<and> m_trLastDraw v' = t \<and> sint a \<le> a0 \<and> (sint t < a0 \<longrightarrow> a0 - 9000000 \<le> sint t \<and> m_nNormal v' = 0) \<or>
     hr = S_FALSE \<and> sint t < a0 \<and> a0 - d \<le> sint a \<and> sint a \<le> a0 \<and> m_trLastDraw v' = a \<or>
     hr = E_FAIL \<and> (if m_bSupplierHandlingQuality v' then 4 * d < sint t - a0 else d \<le> 2 * (sint t - a0)) \<and> sint (m_trWaitAvg v) \<le> 80000 \<and>
       sint (m_trFrameAvg v') < 3 * sint (m_trRenderAvg v') \<and> sint t - sint (m_trLastDraw v) \<le> 10000000 \<and> m_trLastDraw v' = m_trLastDraw v \<and> m_nNormal v' = - 1) \<and>
    (m_nNormal v = - 1 \<and> a0 - 9000000 \<le> sint t \<and> hr \<noteq> E_FAIL \<longrightarrow> hr = S_OK \<and> m_nNormal v' = 0)"
proof -
  have t: "sint t = sint clock - sint start" "\<bar>sint t\<bar> \<le> 2 ^ 60" 
    unfolding assms(2) using assms(3) by (subst sint_sub_fits; simp add: abs_le_iff)+
  define a1 where "a1 = (if 80000 \<le> sint s then s - 80000 else s)"
  define b1 where "b1 = (if 80000 \<le> sint s then p - 80000 else p)"
  have a1: "sint a1 = a0" "\<bar>a0\<bar> \<le> 2 ^ 60 + 80000" and b1: "sint b1 = a0 + d"
    using assms(4-6,8,9) by (auto simp: a1_def b1_def sint_sub_fits abs_le_iff)
  have mb: "monitor_bias (s, p) = (a1, b1)" by (simp add: monitor_bias_def a1_def b1_def sint_less_iff)
  define late where "late = TimeDiff (t - a1)"
  have "sint (t - a1) = sint t - a0" using t(2) a1 by (subst sint_sub_fits) (auto simp: abs_le_iff)
  then have late: "sint late = max (- 500000000) (min 500000000 (sint t - a0))" by (simp add: late_def TimeDiff_eq)
  then have lb: "- 500000000 \<le> sint late" "sint late \<le> 500000000" by auto
  define dur :: i32 where "dur = scast (b1 - a1)"
  have "sint (b1 - a1) = d" using a1 b1 assms(5,6,8) by (subst sint_sub_fits) (auto simp: abs_le_iff)
  then have dur: "sint dur = d" "0 \<le> d" "d \<le> 10 ^ 8" using assms(5,6,8) by (auto simp: dur_def sint_down)
  obtain h q1 v1 where sq: "SendQuality e (scast late) t (v\<lparr>m_trRememberStampForPerf := a1\<rparr>) = (h, q1, v1)" by (metis prod_cases3)
  then obtain x where x: "v1 = v\<lparr>m_trRememberStampForPerf := a1, m_pQSink := x\<rparr>" using SendQuality_state by blast
  define v2 where "v2 = frame_rate_change dur (v1\<lparr>m_bSupplierHandlingQuality := h = S_OK\<rparr>)"
  define j where "j \<longleftrightarrow> m_bSupplierHandlingQuality v2 \<and> discontinuity \<or> m_nNormal v2 = - 1"
  define v3 where "v3 = slide_earliness late j v2"
  define w where "w = cdiv ((if late <s 0 then - late else 0) + m_trWaitAvg v3 * (AVGPERIOD - 1)) AVGPERIOD"
  define fr :: i32 where "fr = scast (if 10000000 <s t - m_trLastDraw v3 then 10000000 else t - m_trLastDraw v3)"
  have "ShouldDrawSampleNow e clock start discontinuity (s, p) v =
    (if draws late dur t v3 then if plays_asap late dur j v3 then (S_OK, (a1, b1), q1, draw_asap late fr t v3)
       else (let (hr, a', v) = draw_normal late dur fr w t a1 v3 in (hr, (a', b1), q1, v))
     else (E_FAIL, (a1, b1), q1, v3\<lparr>m_trWaitAvg := w, m_nNormal := - 1\<rparr>))"
    unfolding ShouldDrawSampleNow_def mb Let_def prod.case assms(2) [symmetric] late_def [symmetric] dur_def [symmetric] sq
      v2_def [symmetric] j_def [symmetric] v3_def [symmetric] w_def [symmetric] fr_def [symmetric] ..
  note res = this [unfolded assms(10)]
  have st: "steady v3" using assms(1) dur lb by (simp add: v3_def v2_def x slide_steady frame_rate_change_steady)
  have keep: "m_trWaitAvg v3 = m_trWaitAvg v" "m_trLastDraw v3 = m_trLastDraw v" "m_nNormal v3 = m_nNormal v" "m_nNormal v2 = m_nNormal v"
    by (simp_all add: v3_def v2_def x steps_keep)
  have w: "0 \<le> sint w" "sint w \<le> 5 * 10 ^ 8"
  proof -
    let ?l = "if late <s 0 then - late else 0"
    have l: "0 \<le> sint ?l" "sint ?l \<le> 5 * 10 ^ 8" using lb by (auto simp: sint_less_iff sint_neg_fits)
    have m: "0 \<le> sint (m_trWaitAvg v)" "sint (m_trWaitAvg v) \<le> 5 * 10 ^ 8" using assms(1) by (simp_all add: steady_def fair_averages_def)
    have "sint w = tdiv (sint ?l + 3 * sint (m_trWaitAvg v)) 4" unfolding w_def keep using l m by (intro average_value(1)) auto
    then show "0 \<le> sint w" "sint w \<le> 5 * 10 ^ 8" using average_bounds [of "sint ?l" "5 * 10 ^ 8" "sint (m_trWaitAvg v)"] l m by auto
  qed
  have fr: "0 \<le> sint fr" "sint fr \<le> 10 ^ 7"
  proof -
    have "sint (t - m_trLastDraw v) = sint t - sint (m_trLastDraw v)" using t(2) assms(1) by (subst sint_sub_fits) (auto simp: steady_def abs_le_iff)
    then have "sint fr = min 10000000 (sint t - sint (m_trLastDraw v))"
      using assms(7) by (auto simp: fr_def keep Let_def sint_less_iff sint_down)
    then show "0 \<le> sint fr" "sint fr \<le> 10 ^ 7" using assms(7) by auto
  qed
  have t61: "\<bar>sint t\<bar> \<le> 2 ^ 61" using t(2) by simp
  note dv = draws_value [OF st lb, of dur t, unfolded dur(1), OF dur(2,3) t61, unfolded keep]
  note pv = plays_asap_value [of dur late j v3, unfolded dur(1), OF dur(2,3)]
  note na = draw_asap_steady [OF st lb fr t61]
  consider (asap) "draws late dur t v3" "plays_asap late dur j v3" | (normal) "draws late dur t v3" "\<not> plays_asap late dur j v3" | (drop) "\<not> draws late dur t v3" by blast
  then show ?thesis
  proof cases
    case asap
    then have r: "hr = S_OK" "a = a1" "b = b1" "v' = draw_asap late fr t v3" using res by simp_all
    have "- 9000000 \<le> sint late" using asap(2) pv by simp
    then have "a0 - 9000000 \<le> sint t" using late by auto
    then show ?thesis using r na a1 b1 by simp
  next
    case normal
    obtain hr' a' v'' where n: "draw_normal late dur fr w t a1 v3 = (hr', a', v'')" "steady v''" "a0 - d \<le> sint a'" "sint a' \<le> a0"
      "if sint late < 0 then hr' = S_FALSE \<and> m_trLastDraw v'' = a' else hr' = S_OK \<and> m_trLastDraw v'' = t"
      using draw_normal_steady [OF st lb(1), of dur w t a1 fr, unfolded dur(1) a1(1), OF dur(2,3) w t61 a1(2)] by blast
    then have r: "hr = hr'" "a = a'" "b = b1" "v' = v''" using res normal by simp_all
    have l0: "sint late < 0 \<longleftrightarrow> sint t < a0" "- 9000000 \<le> sint late \<longleftrightarrow> a0 - 9000000 \<le> sint t" using late by auto
    have "m_nNormal v \<noteq> - 1 \<or> sint t < a0 - 9000000" using normal(2) pv l0 keep by (auto simp: j_def)
    then show ?thesis using n r b1 l0 by (auto split: if_splits)
  next
    case drop
    then have r: "hr = E_FAIL" "a = a1" "b = b1" "v' = v3\<lparr>m_trWaitAvg := w, m_nNormal := - 1\<rparr>" using res by simp_all
    have "steady v'" using st w r by (simp add: steady_def fair_averages_def)
    moreover have "if m_bSupplierHandlingQuality v3 then 4 * d < sint late else d \<le> 2 * sint late" "sint (m_trWaitAvg v) \<le> 80000"
      "sint (m_trFrameAvg v3) < 3 * sint (m_trRenderAvg v3)" "sint t - sint (m_trLastDraw v) \<le> 10000000" using drop dv by (auto split: if_splits)
    moreover have "0 \<le> 2 * sint late \<longrightarrow> sint late \<le> sint t - a0" using late by auto
    ultimately show ?thesis using r b1 keep dur(2) by (auto split: if_splits)
  qed
qed

theorem vq_decision_witness:
  "\<exists>hr a b q v'. ShouldDrawSampleNow \<lparr>peer_has_sink = False, sink_answer = \<lambda>q. S_OK\<rparr> 0 0 False (400000, 800000) (new_CBaseVideoRenderer 0 undefined) = (hr, (a, b), q, v') \<and>
     steady v' \<and> sint b = 720000 \<and> hr \<noteq> E_FAIL"
proof -
  let ?v = "new_CBaseVideoRenderer 0 undefined" and ?e = "\<lparr>peer_has_sink = False, sink_answer = \<lambda>q. S_OK\<rparr>"
  obtain hr a b q v' where r: "ShouldDrawSampleNow ?e 0 0 False (400000, 800000) ?v = (hr, (a, b), q, v')" by (metis prod.collapse)
  have v: "steady ?v" "m_trLastDraw ?v = - 1000" by (simp_all add: steady_def fair_averages_def new_CBaseVideoRenderer_def ResetStreamingTimes_def)
  show ?thesis using vq_decision [OF v(1) refl _ _ _ _ _ refl refl r] v r by (auto simp: hr_defs split: if_splits)
qed

end
