(* ===== verification/Media_Type.thy ===== *)
theory Media_Type
  imports AR_Prelude "HOL-Library.Monad_Syntax"
begin

text \<open>
  Model of \<open>CMediaType\<close> and of the functions on \<open>AM_MEDIA_TYPE\<close> (\<open>src/baseclasses/mtype.h\<close>, \<open>mtype.cpp\<close>, and the class
  \<open>FOURCCMap\<close> of \<open>fourcc.h\<close>) on an explicit memory: the blocks given out by the task allocator and the
  reference counts of the COM objects a type may point to. A function is \<open>None\<close> when it frees a block that is not
  allocated, releases an object without references, or reads or writes outside a block.
\<close>

section \<open>Identifiers and memory\<close>

text \<open>\<open>Data4\<close> as a number with its first byte lowest.\<close>

datatype GUID = GUID (Data1: u32) (Data2: u16) (Data3: u16) (Data4: u64)

definition GUID_NULL :: GUID where
  "GUID_NULL = GUID 0 0 0 0"

definition InitGUID :: "GUID \<Rightarrow> GUID" where
  "InitGUID g = GUID (Data1 g) 0 0x10 (push_bit 32 0x719b3800 OR 0xaa000080)"

definition SetFOURCC :: "u32 \<Rightarrow> GUID \<Rightarrow> GUID" where
  "SetFOURCC fourcc g = GUID fourcc (Data2 g) (Data3 g) (Data4 g)"

text \<open>The constructor from a code; the one from a GUID takes its code, \<open>GetFOURCC\<close>.\<close>

definition FOURCCMap :: "u32 \<Rightarrow> GUID" where
  "FOURCCMap fourcc = SetFOURCC fourcc (InitGUID GUID_NULL)"

definition FOURCCMap_of_GUID :: "GUID \<Rightarrow> GUID" where
  "FOURCCMap_of_GUID g = SetFOURCC (Data1 g) (InitGUID GUID_NULL)"

record task_memory =
  blocks :: "nat \<Rightarrow> u8 list option"
  com_refs :: "nat \<Rightarrow> nat"

text \<open>The answer of the allocator to a request is an address and what the block happens to hold, or
  \<open>None\<close> when there is no memory.\<close>

type_synonym allocation = "(nat \<times> (nat \<Rightarrow> u8)) option"

definition CoTaskMemAlloc :: "allocation \<Rightarrow> nat \<Rightarrow> task_memory \<Rightarrow> nat option \<times> task_memory" where
  "CoTaskMemAlloc a n m = (case a of
     None \<Rightarrow> (None, m)
   | Some (p, junk) \<Rightarrow> (Some p, m\<lparr>blocks := (blocks m)(p \<mapsto> map junk [0..<n])\<rparr>))"

definition CoTaskMemFree :: "nat option \<Rightarrow> task_memory \<Rightarrow> task_memory option" where
  "CoTaskMemFree pv m = (case pv of
     None \<Rightarrow> Some m
   | Some p \<Rightarrow> (if blocks m p = None then None else Some (m\<lparr>blocks := (blocks m)(p := None)\<rparr>)))"

definition read_bytes :: "nat option \<Rightarrow> nat \<Rightarrow> task_memory \<Rightarrow> u8 list option" where
  "read_bytes pv n m = do { p \<leftarrow> pv; bs \<leftarrow> blocks m p; if n \<le> length bs then Some (take n bs) else None }"

definition CopyMemory :: "nat option \<Rightarrow> u8 list \<Rightarrow> task_memory \<Rightarrow> task_memory option" where
  "CopyMemory pv xs m = do {
     p \<leftarrow> pv; bs \<leftarrow> blocks m p;
     if length xs \<le> length bs then Some (m\<lparr>blocks := (blocks m)(p \<mapsto> xs @ drop (length xs) bs)\<rparr>) else None }"

definition IUnknown_AddRef :: "nat \<Rightarrow> task_memory \<Rightarrow> task_memory" where
  "IUnknown_AddRef u m = m\<lparr>com_refs := (com_refs m)(u := com_refs m u + 1)\<rparr>"

definition IUnknown_Release :: "nat \<Rightarrow> task_memory \<Rightarrow> task_memory option" where
  "IUnknown_Release u m = (if com_refs m u = 0 then None else Some (m\<lparr>com_refs := (com_refs m)(u := com_refs m u - 1)\<rparr>))"

section \<open>Media types\<close>

record AM_MEDIA_TYPE =
  majortype :: GUID
  subtype :: GUID
  bFixedSizeSamples :: bool
  bTemporalCompression :: bool
  lSampleSize :: u32
  formattype :: GUID
  pUnk :: "nat option"
  cbFormat :: u32
  pbFormat :: "nat option"

definition InitMediaType :: AM_MEDIA_TYPE where
  "InitMediaType = \<lparr>majortype = GUID_NULL, subtype = GUID_NULL, bFixedSizeSamples = True, bTemporalCompression = False,
     lSampleSize = 1, formattype = GUID_NULL, pUnk = None, cbFormat = 0, pbFormat = None\<rparr>"

definition FreeMediaType :: "AM_MEDIA_TYPE \<Rightarrow> task_memory \<Rightarrow> (AM_MEDIA_TYPE \<times> task_memory) option" where
  "FreeMediaType mt m = do {
     (mt, m) \<leftarrow> (if cbFormat mt \<noteq> 0 then do { m \<leftarrow> CoTaskMemFree (pbFormat mt) m; Some (mt\<lparr>cbFormat := 0, pbFormat := None\<rparr>, m) }
                else Some (mt, m));
     (case pUnk mt of
        None \<Rightarrow> Some (mt, m)
      | Some u \<Rightarrow> do { m \<leftarrow> IUnknown_Release u m; Some (mt\<lparr>pUnk := None\<rparr>, m) }) }"

definition CopyMediaType :: "allocation \<Rightarrow> AM_MEDIA_TYPE \<Rightarrow> task_memory \<Rightarrow> (HRESULT \<times> AM_MEDIA_TYPE \<times> task_memory) option" where
  "CopyMediaType a src m =
     (let add_ref = (\<lambda>mt m. (S_OK, mt, case pUnk mt of None \<Rightarrow> m | Some u \<Rightarrow> IUnknown_AddRef u m))
      in if cbFormat src \<noteq> 0 then
           (case CoTaskMemAlloc a (unat (cbFormat src)) m of
              (None, m) \<Rightarrow> Some (E_OUTOFMEMORY, src\<lparr>pbFormat := None, cbFormat := 0\<rparr>, m)
            | (p, m) \<Rightarrow> do {
                bs \<leftarrow> read_bytes (pbFormat src) (unat (cbFormat src)) m;
                m \<leftarrow> CopyMemory p bs m;
                Some (add_ref (src\<lparr>pbFormat := p\<rparr>) m) })
         else Some (add_ref src m))"

text \<open>\<open>phr\<close> is the error code the caller gave, which the constructor changes only to report a failure.\<close>

definition CMediaType_copy :: "allocation \<Rightarrow> AM_MEDIA_TYPE \<Rightarrow> HRESULT option \<Rightarrow> task_memory \<Rightarrow> (HRESULT option \<times> AM_MEDIA_TYPE \<times> task_memory) option" where
  "CMediaType_copy a rt phr m = do {
     (hr, mt, m) \<leftarrow> CopyMediaType a rt m;
     Some (if FAILED hr \<and> phr \<noteq> None then Some hr else phr, mt, m) }"

definition CMediaType_of_GUID :: "GUID \<Rightarrow> AM_MEDIA_TYPE" where
  "CMediaType_of_GUID type = InitMediaType\<lparr>majortype := type\<rparr>"

text \<open>\<open>rt\<close> is \<open>None\<close> when it is the object itself. The assignment operators are this without the result.\<close>

definition MediaType_Set :: "allocation \<Rightarrow> AM_MEDIA_TYPE option \<Rightarrow> AM_MEDIA_TYPE \<Rightarrow> task_memory \<Rightarrow> (HRESULT \<times> AM_MEDIA_TYPE \<times> task_memory) option" where
  "MediaType_Set a rt this m = (case rt of
     None \<Rightarrow> Some (S_OK, this, m)
   | Some rt \<Rightarrow> do {
       (this, m) \<leftarrow> FreeMediaType this m;
       (hr, this, m) \<leftarrow> CopyMediaType a rt m;
       Some (if FAILED hr then E_OUTOFMEMORY else S_OK, this, m) })"

definition MediaType_eq :: "AM_MEDIA_TYPE \<Rightarrow> AM_MEDIA_TYPE \<Rightarrow> task_memory \<Rightarrow> bool option" where
  "MediaType_eq mt rt m =
     (if majortype mt = majortype rt \<and> subtype mt = subtype rt \<and> formattype mt = formattype rt \<and> cbFormat mt = cbFormat rt then
        if cbFormat mt = 0 then Some True
        else if pbFormat mt \<noteq> None \<and> pbFormat rt \<noteq> None then do {
          xs \<leftarrow> read_bytes (pbFormat mt) (unat (cbFormat mt)) m;
          ys \<leftarrow> read_bytes (pbFormat rt) (unat (cbFormat mt)) m;
          Some (xs = ys) }
        else Some False
      else Some False)"

definition MediaType_neq :: "AM_MEDIA_TYPE \<Rightarrow> AM_MEDIA_TYPE \<Rightarrow> task_memory \<Rightarrow> bool option" where
  "MediaType_neq mt rt m = do { b \<leftarrow> MediaType_eq mt rt m; Some (if b then False else True) }"

definition MediaType_IsValid :: "AM_MEDIA_TYPE \<Rightarrow> bool" where
  "MediaType_IsValid mt \<longleftrightarrow> majortype mt \<noteq> GUID_NULL"

definition SetType :: "GUID \<Rightarrow> AM_MEDIA_TYPE \<Rightarrow> AM_MEDIA_TYPE" where
  "SetType g mt = mt\<lparr>majortype := g\<rparr>"

definition SetSubtype :: "GUID \<Rightarrow> AM_MEDIA_TYPE \<Rightarrow> AM_MEDIA_TYPE" where
  "SetSubtype g mt = mt\<lparr>subtype := g\<rparr>"

definition SetFormatType :: "GUID \<Rightarrow> AM_MEDIA_TYPE \<Rightarrow> AM_MEDIA_TYPE" where
  "SetFormatType g mt = mt\<lparr>formattype := g\<rparr>"

definition GetSampleSize :: "AM_MEDIA_TYPE \<Rightarrow> u32" where
  "GetSampleSize mt = (if bFixedSizeSamples mt then lSampleSize mt else 0)"

definition SetVariableSize :: "AM_MEDIA_TYPE \<Rightarrow> AM_MEDIA_TYPE" where
  "SetVariableSize mt = mt\<lparr>bFixedSizeSamples := False\<rparr>"

definition SetSampleSize :: "u32 \<Rightarrow> AM_MEDIA_TYPE \<Rightarrow> AM_MEDIA_TYPE" where
  "SetSampleSize sz mt = (if sz = 0 then SetVariableSize mt else mt\<lparr>bFixedSizeSamples := True, lSampleSize := sz\<rparr>)"

definition SetTemporalCompression :: "bool \<Rightarrow> AM_MEDIA_TYPE \<Rightarrow> AM_MEDIA_TYPE" where
  "SetTemporalCompression b mt = mt\<lparr>bTemporalCompression := b\<rparr>"

section \<open>The format block\<close>

definition ResetFormatBuffer :: "AM_MEDIA_TYPE \<Rightarrow> task_memory \<Rightarrow> (AM_MEDIA_TYPE \<times> task_memory) option" where
  "ResetFormatBuffer mt m = do {
     m \<leftarrow> (if cbFormat mt \<noteq> 0 then CoTaskMemFree (pbFormat mt) m else Some m);
     Some (mt\<lparr>cbFormat := 0, pbFormat := None\<rparr>, m) }"

text \<open>The pointer returned, with the object and the memory.\<close>

definition AllocFormatBuffer :: "allocation \<Rightarrow> u32 \<Rightarrow> AM_MEDIA_TYPE \<Rightarrow> task_memory \<Rightarrow> (nat option \<times> AM_MEDIA_TYPE \<times> task_memory) option" where
  "AllocFormatBuffer a cb mt m =
     (if cbFormat mt = cb then Some (pbFormat mt, mt, m)
      else case CoTaskMemAlloc a (unat cb) m of
        (None, m) \<Rightarrow> Some (if cb \<le> cbFormat mt then pbFormat mt else None, mt, m)
      | (p, m) \<Rightarrow> do {
          m \<leftarrow> (if cbFormat mt \<noteq> 0 then CoTaskMemFree (pbFormat mt) m else Some m);
          Some (p, mt\<lparr>cbFormat := cb, pbFormat := p\<rparr>, m) })"

definition ReallocFormatBuffer :: "allocation \<Rightarrow> u32 \<Rightarrow> AM_MEDIA_TYPE \<Rightarrow> task_memory \<Rightarrow> (nat option \<times> AM_MEDIA_TYPE \<times> task_memory) option" where
  "ReallocFormatBuffer a cb mt m =
     (if cbFormat mt = cb then Some (pbFormat mt, mt, m)
      else case CoTaskMemAlloc a (unat cb) m of
        (None, m) \<Rightarrow> Some (if cb \<le> cbFormat mt then pbFormat mt else None, mt, m)
      | (p, m) \<Rightarrow> do {
          m \<leftarrow> (if cbFormat mt \<noteq> 0 then do {
                  bs \<leftarrow> read_bytes (pbFormat mt) (unat (min cb (cbFormat mt))) m;
                  m \<leftarrow> CopyMemory p bs m;
                  CoTaskMemFree (pbFormat mt) m }
                else Some m);
          Some (p, mt\<lparr>cbFormat := cb, pbFormat := p\<rparr>, m) })"

definition SetFormat :: "allocation \<Rightarrow> u8 list \<Rightarrow> AM_MEDIA_TYPE \<Rightarrow> task_memory \<Rightarrow> (bool \<times> AM_MEDIA_TYPE \<times> task_memory) option" where
  "SetFormat a bs mt m = do {
     (p, mt, m) \<leftarrow> AllocFormatBuffer a (of_nat (length bs)) mt m;
     if p = None then Some (False, mt, m)
     else do { m \<leftarrow> CopyMemory (pbFormat mt) bs m; Some (True, mt, m) } }"

section \<open>Partial types\<close>

definition IsPartiallySpecified :: "AM_MEDIA_TYPE \<Rightarrow> bool" where
  "IsPartiallySpecified mt \<longleftrightarrow> majortype mt = GUID_NULL \<or> formattype mt = GUID_NULL"

definition MatchesPartial :: "AM_MEDIA_TYPE \<Rightarrow> AM_MEDIA_TYPE \<Rightarrow> task_memory \<Rightarrow> bool option" where
  "MatchesPartial mt partial m =
     (if majortype partial \<noteq> GUID_NULL \<and> majortype mt \<noteq> majortype partial then Some False
      else if subtype partial \<noteq> GUID_NULL \<and> subtype mt \<noteq> subtype partial then Some False
      else if formattype partial \<noteq> GUID_NULL then
        if formattype mt \<noteq> formattype partial then Some False
        else if cbFormat mt \<noteq> cbFormat partial then Some False
        else if cbFormat mt \<noteq> 0 then do {
          xs \<leftarrow> read_bytes (pbFormat mt) (unat (cbFormat mt)) m;
          ys \<leftarrow> read_bytes (pbFormat partial) (unat (cbFormat mt)) m;
          Some (xs = ys) }
        else Some True
      else Some True)"

section \<open>Types in allocated memory\<close>

text \<open>\<open>ok\<close> says whether memory for the structure itself is found; \<open>None\<close> in the result is the null pointer.\<close>

definition CreateMediaType :: "bool \<Rightarrow> allocation \<Rightarrow> AM_MEDIA_TYPE \<Rightarrow> task_memory \<Rightarrow> (AM_MEDIA_TYPE option \<times> task_memory) option" where
  "CreateMediaType ok a src m =
     (if \<not> ok then Some (None, m)
      else do { (hr, mt, m) \<leftarrow> CopyMediaType a src m; Some (if FAILED hr then None else Some mt, m) })"

definition DeleteMediaType :: "AM_MEDIA_TYPE option \<Rightarrow> task_memory \<Rightarrow> task_memory option" where
  "DeleteMediaType pmt m = (case pmt of None \<Rightarrow> Some m | Some mt \<Rightarrow> do { (mt, m) \<leftarrow> FreeMediaType mt m; Some m })"

section \<open>Audio types\<close>

text \<open>A \<open>WAVEFORMATEX\<close> as the bytes at its address, little endian.\<close>

fun le_bytes :: "u8 list \<Rightarrow> nat" where
  "le_bytes [] = 0"
| "le_bytes (b # bs) = unat b + 256 * le_bytes bs"

definition field :: "nat \<Rightarrow> nat \<Rightarrow> u8 list \<Rightarrow> nat option" where
  "field i n bs = (if i + n \<le> length bs then Some (le_bytes (take n (drop i bs))) else None)"

abbreviation wFormatTag :: "u8 list \<Rightarrow> nat option" where "wFormatTag w \<equiv> field 0 2 w"
abbreviation nBlockAlign :: "u8 list \<Rightarrow> nat option" where "nBlockAlign w \<equiv> field 12 2 w"
abbreviation cbSize :: "u8 list \<Rightarrow> nat option" where "cbSize w \<equiv> field 16 2 w"

definition SubFormat :: "u8 list \<Rightarrow> GUID option" where
  "SubFormat w = do {
     d1 \<leftarrow> field 24 4 w; d2 \<leftarrow> field 28 2 w; d3 \<leftarrow> field 30 2 w; d4 \<leftarrow> field 32 8 w;
     Some (GUID (of_nat d1) (of_nat d2) (of_nat d3) (of_nat d4)) }"

definition WAVE_FORMAT_PCM :: nat where "WAVE_FORMAT_PCM = 1"
definition WAVE_FORMAT_EXTENSIBLE :: nat where "WAVE_FORMAT_EXTENSIBLE = 0xFFFE"
definition sizeof_WAVEFORMATEX :: nat where "sizeof_WAVEFORMATEX = 18"
definition sizeof_PCMWAVEFORMAT :: nat where "sizeof_PCMWAVEFORMAT = 16"

definition MEDIATYPE_Audio :: GUID where
  "MEDIATYPE_Audio = FOURCCMap 0x73647561"

definition FORMAT_WaveFormatEx :: GUID where
  "FORMAT_WaveFormatEx = GUID 0x05589f81 0xc356 0x11ce 0x5a595500aa0001bf"

definition CreateAudioMediaType :: "allocation \<Rightarrow> u8 list \<Rightarrow> AM_MEDIA_TYPE \<Rightarrow> bool \<Rightarrow> task_memory \<Rightarrow>
    (HRESULT \<times> AM_MEDIA_TYPE \<times> task_memory) option" where
  "CreateAudioMediaType a pwfx mt bSetFormat m = do {
     tag \<leftarrow> wFormatTag pwfx;
     sub \<leftarrow> (if tag = WAVE_FORMAT_EXTENSIBLE then SubFormat pwfx else Some (FOURCCMap (of_nat tag)));
     align \<leftarrow> nBlockAlign pwfx;
     mt \<leftarrow> Some (mt\<lparr>majortype := MEDIATYPE_Audio, subtype := sub, formattype := FORMAT_WaveFormatEx, bFixedSizeSamples := True,
       bTemporalCompression := False, lSampleSize := of_nat align, pUnk := None\<rparr>);
     if bSetFormat then do {
       extra \<leftarrow> (if tag = WAVE_FORMAT_PCM then Some 0 else cbSize pwfx);
       let n = sizeof_WAVEFORMATEX + extra;
       let (p, m) = CoTaskMemAlloc a n m;
       let mt = mt\<lparr>cbFormat := of_nat n, pbFormat := p\<rparr>;
       if p = None then Some (E_OUTOFMEMORY, mt, m)
       else if tag = WAVE_FORMAT_PCM then do {
         m \<leftarrow> (if sizeof_PCMWAVEFORMAT \<le> length pwfx then CopyMemory p (take sizeof_PCMWAVEFORMAT pwfx) m else None);
         bs \<leftarrow> read_bytes p 16 m;
         m \<leftarrow> CopyMemory p (bs @ [0, 0]) m;
         Some (S_OK, mt, m) }
       else do {
         m \<leftarrow> (if n \<le> length pwfx then CopyMemory p (take n pwfx) m else None);
         Some (S_OK, mt, m) } }
     else Some (S_OK, mt, m) }"

end
