(* ===== verification/Media_Type_Props.thy ===== *)
theory Media_Type_Props
  imports Media_Type
begin

text \<open>
  Media types own what they point to: in every program that uses the operations of \<open>mtype.cpp\<close> no
  format block is lost or freed twice and the reference counts are right, with the exception of a copy that
  finds no memory. Comparison and copies in terms of the values of types, and the audio types.
\<close>

section \<open>The value of a type\<close>

definition bare :: "AM_MEDIA_TYPE \<Rightarrow> bool" where
  "bare mt \<longleftrightarrow> pUnk mt = None \<and> cbFormat mt = 0 \<and> pbFormat mt = None"

definition format_ok :: "task_memory \<Rightarrow> AM_MEDIA_TYPE \<Rightarrow> bool" where
  "format_ok m mt \<longleftrightarrow> (case pbFormat mt of
     None \<Rightarrow> cbFormat mt = 0
   | Some p \<Rightarrow> cbFormat mt \<noteq> 0 \<and> (case blocks m p of None \<Rightarrow> False | Some bs \<Rightarrow> length bs = unat (cbFormat mt)))"

text \<open>The bytes of the format block.\<close>

definition format :: "task_memory \<Rightarrow> AM_MEDIA_TYPE \<Rightarrow> u8 list" where
  "format m mt = (case pbFormat mt of None \<Rightarrow> [] | Some p \<Rightarrow> (case blocks m p of None \<Rightarrow> [] | Some bs \<Rightarrow> bs))"

definition type_value :: "task_memory \<Rightarrow> AM_MEDIA_TYPE \<Rightarrow> GUID \<times> GUID \<times> GUID \<times> u8 list" where
  "type_value m mt = (majortype mt, subtype mt, formattype mt, format m mt)"

text \<open>The fields that are copied as they are.\<close>

definition header :: "AM_MEDIA_TYPE \<Rightarrow> GUID \<times> GUID \<times> GUID \<times> bool \<times> bool \<times> u32" where
  "header mt = (majortype mt, subtype mt, formattype mt, bFixedSizeSamples mt, bTemporalCompression mt, lSampleSize mt)"

definition fresh :: "allocation \<Rightarrow> task_memory \<Rightarrow> bool" where
  "fresh a m \<longleftrightarrow> (case a of None \<Rightarrow> True | Some (p, junk) \<Rightarrow> blocks m p = None)"

lemma format_ok_length: "format_ok m mt \<Longrightarrow> length (format m mt) = unat (cbFormat mt)"
  by (auto simp: format_ok_def format_def split: option.splits)

lemma format_ok_read: "format_ok m mt \<Longrightarrow> cbFormat mt \<noteq> 0 \<Longrightarrow> n = unat (cbFormat mt) \<Longrightarrow> read_bytes (pbFormat mt) n m = Some (format m mt)"
  by (auto simp: format_ok_def format_def read_bytes_def split: option.splits)

lemma format_empty: "format_ok m mt \<Longrightarrow> format m mt = [] \<longleftrightarrow> cbFormat mt = 0"
  by (auto simp: format_ok_def format_def unat_eq_0 split: option.splits)

lemma format_ok_cases:
  assumes "format_ok m mt"
  obtains "cbFormat mt = 0" "pbFormat mt = None"
  | p bs where "cbFormat mt \<noteq> 0" "pbFormat mt = Some p" "blocks m p = Some bs" "length bs = unat (cbFormat mt)"
  using assms by (auto simp: format_ok_def split: option.splits)

lemma unat_of_nat32: "n < 2 ^ 32 \<Longrightarrow> unat (of_nat n :: u32) = n"
  by (simp add: unat_of_nat take_bit_nat_eq_self)

section \<open>Ownership\<close>

definition users :: "(nat \<Rightarrow> AM_MEDIA_TYPE option) \<Rightarrow> nat \<Rightarrow> nat set" where
  "users vs u = {v. \<exists>mt. vs v = Some mt \<and> pUnk mt = Some u}"

definition owns :: "(nat \<Rightarrow> AM_MEDIA_TYPE option) \<Rightarrow> nat \<Rightarrow> nat \<Rightarrow> bool" where
  "owns vs v p \<longleftrightarrow> (\<exists>mt. vs v = Some mt \<and> pbFormat mt = Some p)"

text \<open>\<open>vs\<close> are the type objects there are, \<open>ext u\<close> the references to \<open>u\<close> that others hold.\<close>

definition mt_inv :: "task_memory \<Rightarrow> (nat \<Rightarrow> AM_MEDIA_TYPE option) \<Rightarrow> (nat \<Rightarrow> nat) \<Rightarrow> bool" where
  "mt_inv m vs ext \<longleftrightarrow> finite (dom vs) \<and>
     (\<forall>v mt. vs v = Some mt \<longrightarrow> format_ok m mt) \<and>
     (\<forall>v v' p. owns vs v p \<longrightarrow> owns vs v' p \<longrightarrow> v = v') \<and>
     (\<forall>p. blocks m p \<noteq> None \<longrightarrow> (\<exists>v. owns vs v p)) \<and>
     (\<forall>u. com_refs m u = ext u + card (users vs u))"

lemma users_finite: "finite (dom vs) \<Longrightarrow> finite (users vs u)"
  by (erule rev_finite_subset) (auto simp: users_def)

lemma users_upd [simp]:
  "users (vs(v \<mapsto> mt)) u = (if pUnk mt = Some u then insert v (users vs u) else users vs u - {v})"
  by (auto simp: users_def)

lemma owns_upd [simp]: "owns (vs(v \<mapsto> mt)) w p \<longleftrightarrow> (if w = v then pbFormat mt = Some p else owns vs w p)"
  by (auto simp: owns_def)

lemma owns_del [simp]: "owns (vs(v := None)) w p \<longleftrightarrow> w \<noteq> v \<and> owns vs w p"
  by (auto simp: owns_def)

lemma users_del [simp]: "users (vs(v := None)) u = users vs u - {v}"
  by (auto simp: users_def)

lemma users_mem [simp]: "vs v = Some mt \<Longrightarrow> v \<in> users vs u \<longleftrightarrow> pUnk mt = Some u"
  by (simp add: users_def)

lemma owns_mem: "vs v = Some mt \<Longrightarrow> owns vs v p \<longleftrightarrow> pbFormat mt = Some p"
  by (simp add: owns_def)

lemma owned_block: "\<forall>v mt. vs v = Some mt \<longrightarrow> format_ok m mt \<Longrightarrow> owns vs v p \<Longrightarrow> blocks m p \<noteq> None"
  by (auto simp: owns_def format_ok_def split: option.splits)

lemma mt_inv_format: "mt_inv m vs ext \<Longrightarrow> vs v = Some mt \<Longrightarrow> format_ok m mt"
  by (simp add: mt_inv_def)

lemma format_ok_cong:
  assumes "pbFormat mt' = pbFormat mt" and "cbFormat mt' = cbFormat mt" and "\<And>p. pbFormat mt = Some p \<Longrightarrow> blocks m' p = blocks m p"
  shows "format_ok m' mt' \<longleftrightarrow> format_ok m mt"
  using assms by (cases "pbFormat mt") (auto simp: format_ok_def split: option.splits)

text \<open>The changes every operation is made of.\<close>

lemma inv_header:
  assumes "mt_inv m vs ext" and "vs v = Some mt"
    and "pUnk mt' = pUnk mt" and "cbFormat mt' = cbFormat mt" and "pbFormat mt' = pbFormat mt"
  shows "mt_inv m (vs(v \<mapsto> mt')) ext"
proof -
  have "owns (vs(v \<mapsto> mt')) = owns vs" using assms(2,5) by (auto simp: owns_mem fun_eq_iff)
  moreover have "users (vs(v \<mapsto> mt')) = users vs" using assms(2,3) by (auto simp: users_def fun_eq_iff split: if_splits)
  moreover have "format_ok m mt'" using mt_inv_format [OF assms(1,2)] format_ok_cong [OF assms(5,4)] by simp
  ultimately show ?thesis using assms(1) by (simp add: mt_inv_def)
qed

lemma inv_write:
  assumes "mt_inv m vs ext" and "blocks m p = Some bs" and "length bs' = length bs"
  shows "mt_inv (m\<lparr>blocks := (blocks m)(p \<mapsto> bs')\<rparr>) vs ext"
proof -
  have "format_ok (m\<lparr>blocks := (blocks m)(p \<mapsto> bs')\<rparr>) x" if "format_ok m x" for x
    using that assms(2,3) by (auto simp: format_ok_def split: option.splits)
  then show ?thesis using assms(1,2) by (simp add: mt_inv_def)
qed

lemma inv_drop:
  assumes "mt_inv m vs ext" and v: "vs v = Some mt" and p: "pbFormat mt = Some p"
  shows "mt_inv (m\<lparr>blocks := (blocks m)(p := None)\<rparr>) (vs(v \<mapsto> mt\<lparr>cbFormat := 0, pbFormat := None\<rparr>)) ext"
    (is "mt_inv ?m ?vs ext")
proof -
  have o: "owns vs v p" using v p by (simp add: owns_mem)
  have i: "owns vs w q \<Longrightarrow> owns vs w' q \<Longrightarrow> w = w'" for w w' q using assms(1) by (auto simp: mt_inv_def)
  have "format_ok ?m x" if "?vs w = Some x" for w x
  proof (cases "w = v")
    case False
    then have x: "vs w = Some x" "\<not> owns vs w p" using that i [OF o] by auto
    then have "format_ok ?m x = format_ok m x" by (intro format_ok_cong) (auto simp: owns_mem)
    then show ?thesis using mt_inv_format [OF assms(1) x(1)] by simp
  qed (use that in \<open>auto simp: format_ok_def\<close>)
  moreover have "users ?vs = users vs" using v by (auto simp: users_def fun_eq_iff)
  moreover have "\<exists>w. owns ?vs w q" if "blocks ?m q \<noteq> None" for q
  proof -
    have q: "q \<noteq> p" "blocks m q \<noteq> None" using that by (auto split: if_splits)
    then obtain w where "owns vs w q" using assms(1) unfolding mt_inv_def by blast
    then show ?thesis using q v p by (intro exI [of _ w]) (auto simp: owns_mem)
  qed
  moreover have "w = w'" if "owns ?vs w q" "owns ?vs w' q" for w w' q
    using that i [of w q w'] by (auto split: if_splits)
  ultimately show ?thesis using assms(1) unfolding mt_inv_def by (simp del: owns_upd users_upd)
qed

lemma inv_gain:
  assumes "mt_inv m vs ext" and v: "vs v = Some mt" and "pbFormat mt = None"
    and p: "blocks m p = None" and n: "length bs = unat n" "n \<noteq> 0"
  shows "mt_inv (m\<lparr>blocks := (blocks m)(p \<mapsto> bs)\<rparr>) (vs(v \<mapsto> mt\<lparr>cbFormat := n, pbFormat := Some p\<rparr>)) ext"
    (is "mt_inv ?m ?vs ext")
proof -
  have i: "owns vs w q \<Longrightarrow> owns vs w' q \<Longrightarrow> w = w'" for w w' q using assms(1) by (auto simp: mt_inv_def)
  have free: "\<not> owns vs w p" for w
    using owned_block [of vs m w p] assms(1) p by (auto simp: mt_inv_def)
  have "format_ok ?m x" if "?vs w = Some x" for w x
  proof (cases "w = v")
    case False
    then have x: "vs w = Some x" "pbFormat x \<noteq> Some p" using that free [of w] by (auto simp: owns_def)
    then have "format_ok ?m x = format_ok m x" by (intro format_ok_cong) auto
    then show ?thesis using mt_inv_format [OF assms(1) x(1)] by simp
  qed (use that n in \<open>auto simp: format_ok_def\<close>)
  moreover have "users ?vs = users vs" using v by (auto simp: users_def fun_eq_iff)
  moreover have "\<exists>w. owns ?vs w q" if "blocks ?m q \<noteq> None" for q
  proof (cases "q = p")
    case False
    then have "blocks m q \<noteq> None" using that by simp
    then obtain w where "owns vs w q" using assms(1) unfolding mt_inv_def by blast
    then show ?thesis using v assms(3) by (intro exI [of _ w]) (auto simp: owns_mem)
  qed (auto intro: exI [of _ v])
  moreover have "w = w'" if "owns ?vs w q" "owns ?vs w' q" for w w' q
    using that i [of w q w'] free by (auto split: if_splits)
  ultimately show ?thesis using assms(1) unfolding mt_inv_def by (simp del: owns_upd users_upd)
qed

lemma inv_refs:
  assumes "mt_inv m vs ext" and "vs v = Some mt" and "\<And>u. refs u = ext' u + card (users (vs(v \<mapsto> mt\<lparr>pUnk := x\<rparr>)) u)"
  shows "mt_inv (m\<lparr>com_refs := refs\<rparr>) (vs(v \<mapsto> mt\<lparr>pUnk := x\<rparr>)) ext'" (is "mt_inv ?m ?vs ext'")
proof -
  have "owns ?vs = owns vs" using assms(2) by (auto simp: owns_mem fun_eq_iff)
  moreover have "format_ok ?m y" if y: "?vs w = Some y" for w y
  proof -
    obtain z where z: "vs w = Some z" "pbFormat y = pbFormat z" "cbFormat y = cbFormat z" using y assms(2) by (cases "w = v") auto
    show ?thesis using mt_inv_format [OF assms(1) z(1)] format_ok_cong [OF z(2,3), of ?m m] by simp
  qed
  ultimately show ?thesis using assms(1,3) unfolding mt_inv_def by (simp del: owns_upd users_upd)
qed

lemma inv_unref:
  assumes "mt_inv m vs ext" and v: "vs v = Some mt" and u: "pUnk mt = Some u"
  shows "0 < com_refs m u" and "mt_inv (m\<lparr>com_refs := (com_refs m)(u := com_refs m u - 1)\<rparr>) (vs(v \<mapsto> mt\<lparr>pUnk := None\<rparr>)) ext"
proof -
  have m: "v \<in> users vs u" "finite (users vs u)" and r: "\<And>w. com_refs m w = ext w + card (users vs w)"
    using v u assms(1) by (auto simp: mt_inv_def users_finite)
  then have c: "card (users vs u - {v}) = card (users vs u) - 1" "0 < card (users vs u)" by (auto simp: card_gt_0_iff)
  show "0 < com_refs m u" using r c(2) by simp
  have "users vs u' - {v} = users vs u'" if "u' \<noteq> u" for u' using v u that by auto
  then have "((com_refs m)(u := com_refs m u - 1)) u' = ext u' + card (users (vs(v \<mapsto> mt\<lparr>pUnk := None\<rparr>)) u')" for u'
    using r c by simp
  then show "mt_inv (m\<lparr>com_refs := (com_refs m)(u := com_refs m u - 1)\<rparr>) (vs(v \<mapsto> mt\<lparr>pUnk := None\<rparr>)) ext"
    by (rule inv_refs [OF assms(1) v])
qed

lemma inv_ref:
  assumes "mt_inv m vs ext" and v: "vs v = Some mt" and u: "pUnk mt = None"
  shows "mt_inv (IUnknown_AddRef u m) (vs(v \<mapsto> mt\<lparr>pUnk := Some u\<rparr>)) ext"
  unfolding IUnknown_AddRef_def
proof (rule inv_refs [OF assms(1) v])
  have m: "v \<notin> users vs w" "finite (users vs w)" and r: "com_refs m w = ext w + card (users vs w)" for w
    using v u assms(1) by (auto simp: mt_inv_def users_finite)
  show "((com_refs m)(u := com_refs m u + 1)) u' = ext u' + card (users (vs(v \<mapsto> mt\<lparr>pUnk := Some u\<rparr>)) u')" for u'
    using r m by auto
qed

lemma inv_new:
  assumes "mt_inv m vs ext" and v: "vs v = None" and "bare mt"
  shows "mt_inv m (vs(v \<mapsto> mt)) ext"
proof -
  have "owns (vs(v \<mapsto> mt)) = owns vs" "users (vs(v \<mapsto> mt)) = users vs" "format_ok m mt"
    using v assms(3) by (auto simp: owns_def users_def bare_def fun_eq_iff format_ok_def)
  then show ?thesis using assms(1) unfolding mt_inv_def by (simp del: owns_upd users_upd)
qed

lemma inv_delete:
  assumes "mt_inv m vs ext" and v: "vs v = Some mt" and "bare mt"
  shows "mt_inv m (vs(v := None)) ext"
proof -
  have "owns (vs(v := None)) = owns vs" "users (vs(v := None)) = users vs"
    using v assms(3) by (auto simp: owns_def users_def bare_def fun_eq_iff)
  then show ?thesis using assms(1) unfolding mt_inv_def by (simp del: owns_del users_del)
qed

lemma inv_delete_upd: "mt_inv m (vs(v \<mapsto> mt)) ext \<Longrightarrow> bare mt \<Longrightarrow> mt_inv m (vs(v := None)) ext"
  using inv_delete [of m "vs(v \<mapsto> mt)" ext v mt] by (simp only: fun_upd_same fun_upd_upd simp_thms)

section \<open>The operations\<close>

lemma CopyMediaType_outcome:
  assumes "format_ok m src" and "fresh a m"
  obtains (copied) p junk where "a = Some (p, junk)" "cbFormat src \<noteq> 0" "blocks m p = None"
      "CopyMediaType a src m = Some (S_OK, src\<lparr>pbFormat := Some p\<rparr>,
         (case pUnk src of None \<Rightarrow> id | Some u \<Rightarrow> IUnknown_AddRef u) (m\<lparr>blocks := (blocks m)(p \<mapsto> format m src)\<rparr>))"
  | (empty) "cbFormat src = 0" "CopyMediaType a src m = Some (S_OK, src, (case pUnk src of None \<Rightarrow> id | Some u \<Rightarrow> IUnknown_AddRef u) m)"
  | (no_memory) "a = None" "cbFormat src \<noteq> 0" "CopyMediaType a src m = Some (E_OUTOFMEMORY, src\<lparr>pbFormat := None, cbFormat := 0\<rparr>, m)"
proof (cases "cbFormat src = 0")
  case True
  then show ?thesis using empty by (simp add: CopyMediaType_def split: option.splits)
next
  case cb: False
  show ?thesis
  proof (cases a)
    case None
    then show ?thesis using no_memory cb by (simp add: CopyMediaType_def CoTaskMemAlloc_def)
  next
    case (Some pj)
    obtain p junk where a: "a = Some (p, junk)" using Some by (cases pj) auto
    have p: "blocks m p = None" using assms(2) a by (simp add: fresh_def)
    obtain q bs where q: "pbFormat src = Some q" "blocks m q = Some bs" "length bs = unat (cbFormat src)"
      using assms(1) cb by (auto elim: format_ok_cases)
    then have "q \<noteq> p" "format m src = bs" using p by (auto simp: format_def)
    then have "CopyMediaType a src m = Some (S_OK, src\<lparr>pbFormat := Some p\<rparr>,
         (case pUnk src of None \<Rightarrow> id | Some u \<Rightarrow> IUnknown_AddRef u) (m\<lparr>blocks := (blocks m)(p \<mapsto> format m src)\<rparr>))"
      using a cb q by (simp add: CopyMediaType_def CoTaskMemAlloc_def read_bytes_def CopyMemory_def split: option.splits)
    then show ?thesis using copied a cb p by blast
  qed
qed

text \<open>A copy does not share in the reference of the original when it finds no memory for the format.\<close>

definition safe_copy :: "allocation \<Rightarrow> AM_MEDIA_TYPE \<Rightarrow> bool" where
  "safe_copy a src \<longleftrightarrow> a = None \<longrightarrow> cbFormat src = 0 \<or> pUnk src = None"

lemma inv_adopt:
  assumes "mt_inv m vs ext" and "vs v = Some t" and "pUnk t = None" and "cbFormat src = cbFormat t" and "pbFormat src = pbFormat t"
  shows "mt_inv ((case pUnk src of None \<Rightarrow> id | Some u \<Rightarrow> IUnknown_AddRef u) m) (vs(v \<mapsto> src)) ext"
proof -
  have i: "mt_inv m (vs(v \<mapsto> src\<lparr>pUnk := None\<rparr>)) ext" using inv_header [OF assms(1,2)] assms(3-5) by simp
  show ?thesis
  proof (cases "pUnk src")
    case None
    then have "src\<lparr>pUnk := None\<rparr> = src" by (cases src) simp
    with i have "mt_inv m (vs(v \<mapsto> src)) ext" by (simp only:)
    then show ?thesis using None by simp
  next
    case (Some u)
    then have s: "src\<lparr>pUnk := Some u\<rparr> = src" by (cases src) simp
    have "mt_inv (IUnknown_AddRef u m) (vs(v \<mapsto> src\<lparr>pUnk := Some u\<rparr>)) ext"
      using inv_ref [OF i, of v "src\<lparr>pUnk := None\<rparr>" u] by simp
    then have "mt_inv (IUnknown_AddRef u m) (vs(v \<mapsto> src)) ext" by (simp only: s)
    then show ?thesis using Some by simp
  qed
qed

lemma CopyMediaType_inv:
  assumes "mt_inv m vs ext" and "vs v = Some t" and "bare t" and "format_ok m src" and "fresh a m" and "safe_copy a src"
  obtains hr mt m' where "CopyMediaType a src m = Some (hr, mt, m')" "mt_inv m' (vs(v \<mapsto> mt)) ext" "header mt = header src"
    "hr = S_OK \<and> format m' mt = format m src \<and> pUnk mt = pUnk src \<or> hr = E_OUTOFMEMORY \<and> a = None \<and> bare mt"
  using assms(4,5)
proof (cases rule: CopyMediaType_outcome)
  case (copied p junk)
  have "length (format m src) = unat (cbFormat src)" using assms(4) by (rule format_ok_length)
  then have "mt_inv (m\<lparr>blocks := (blocks m)(p \<mapsto> format m src)\<rparr>) (vs(v \<mapsto> t\<lparr>cbFormat := cbFormat src, pbFormat := Some p\<rparr>)) ext"
    using inv_gain [OF assms(1,2) _ copied(3)] assms(3) copied(2) by (simp add: bare_def)
  then have "mt_inv ((case pUnk src of None \<Rightarrow> id | Some u \<Rightarrow> IUnknown_AddRef u) (m\<lparr>blocks := (blocks m)(p \<mapsto> format m src)\<rparr>))
      (vs(v \<mapsto> src\<lparr>pbFormat := Some p\<rparr>)) ext"
    using inv_adopt [of _ "vs(v \<mapsto> t\<lparr>cbFormat := cbFormat src, pbFormat := Some p\<rparr>)" ext v "t\<lparr>cbFormat := cbFormat src, pbFormat := Some p\<rparr>"
        "src\<lparr>pbFormat := Some p\<rparr>"] assms(3)
    by (simp add: bare_def)
  then show ?thesis using that copied(4) by (auto simp: header_def format_def IUnknown_AddRef_def split: option.splits)
next
  case empty
  have "pbFormat src = None" using assms(4) empty(1) by (auto elim: format_ok_cases)
  then have "mt_inv ((case pUnk src of None \<Rightarrow> id | Some u \<Rightarrow> IUnknown_AddRef u) m) (vs(v \<mapsto> src)) ext"
    using inv_adopt [OF assms(1,2)] assms(3) empty(1) by (simp add: bare_def)
  then show ?thesis using that empty(2) by (auto simp: format_def IUnknown_AddRef_def split: option.splits)
next
  case no_memory
  then have "bare (src\<lparr>pbFormat := None, cbFormat := 0\<rparr>)" using assms(6) by (simp add: bare_def safe_copy_def)
  then show ?thesis using that no_memory inv_header [OF assms(1,2)] assms(3) by (auto simp: bare_def header_def)
qed

lemma FreeMediaType_inv:
  assumes "mt_inv m vs ext" and "vs v = Some mt"
  obtains mt' m' where "FreeMediaType mt m = Some (mt', m')" "mt_inv m' (vs(v \<mapsto> mt')) ext" "bare mt'" "header mt' = header mt"
    "\<And>p. pbFormat mt \<noteq> Some p \<Longrightarrow> blocks m' p = blocks m p"
proof -
  obtain mt1 m1 where 1: "(if cbFormat mt \<noteq> 0 then do { m \<leftarrow> CoTaskMemFree (pbFormat mt) m; Some (mt\<lparr>cbFormat := 0, pbFormat := None\<rparr>, m) }
      else Some (mt, m)) = Some (mt1, m1)" "mt_inv m1 (vs(v \<mapsto> mt1)) ext" "cbFormat mt1 = 0" "pbFormat mt1 = None" "header mt1 = header mt"
      "\<And>p. pbFormat mt \<noteq> Some p \<Longrightarrow> blocks m1 p = blocks m p"
    using mt_inv_format [OF assms]
  proof (cases rule: format_ok_cases)
    case 1
    then show ?thesis using that assms by (simp add: fun_upd_idem)
  next
    case (2 p bs)
    then show ?thesis using that inv_drop [OF assms 2(2)] by (simp add: CoTaskMemFree_def header_def)
  qed
  show ?thesis
  proof (cases "pUnk mt1")
    case None
    then show ?thesis using that [of mt1 m1] 1 by (simp add: FreeMediaType_def bare_def)
  next
    case (Some u)
    note r = inv_unref [OF 1(2) fun_upd_same Some, simplified fun_upd_upd]
    have "FreeMediaType mt m = Some (mt1\<lparr>pUnk := None\<rparr>, m1\<lparr>com_refs := (com_refs m1)(u := com_refs m1 u - 1)\<rparr>)"
      unfolding FreeMediaType_def 1(1) using Some r(1) by (simp add: IUnknown_Release_def)
    then show ?thesis using that r(2) 1 by (simp add: bare_def header_def)
  qed
qed

lemma MediaType_Set_inv:
  assumes "mt_inv m vs ext" and "vs v = Some mt" and "case rt of None \<Rightarrow> True | Some src \<Rightarrow> \<exists>u. u \<noteq> v \<and> vs u = Some src \<and> safe_copy a src"
    and "fresh a m"
  obtains hr mt' m' where "MediaType_Set a rt mt m = Some (hr, mt', m')" "mt_inv m' (vs(v \<mapsto> mt')) ext"
    "hr = S_OK \<and> type_value m' mt' = type_value m (case rt of None \<Rightarrow> mt | Some src \<Rightarrow> src) \<or>
     hr = E_OUTOFMEMORY \<and> a = None \<and> bare mt'"
proof (cases rt)
  case None
  then show ?thesis using that [of S_OK mt m] assms(1,2) by (simp add: MediaType_Set_def fun_upd_idem)
next
  case (Some src)
  then obtain u where u: "u \<noteq> v" "vs u = Some src" "safe_copy a src" using assms(3) by auto
  obtain mt1 m1 where 1: "FreeMediaType mt m = Some (mt1, m1)" "mt_inv m1 (vs(v \<mapsto> mt1)) ext" "bare mt1" "header mt1 = header mt"
    "\<And>p. pbFormat mt \<noteq> Some p \<Longrightarrow> blocks m1 p = blocks m p" using FreeMediaType_inv [OF assms(1,2)] by metis
  have own: "pbFormat mt \<noteq> Some p" if "pbFormat src = Some p" for p
    using assms(1,2) u that unfolding mt_inv_def owns_def by metis
  have src: "format_ok m1 src" using mt_inv_format [OF 1(2), of u] u by simp
  have f: "format m1 src = format m src" using own 1(5) by (auto simp: format_def split: option.splits)
  have "fresh a m1"
  proof -
    have "blocks m1 p = None" if p: "blocks m p = None" for p
    proof -
      have "pbFormat mt \<noteq> Some p" using mt_inv_format [OF assms(1,2)] p by (auto simp: format_ok_def)
      then show ?thesis using 1(5) p by simp
    qed
    then show ?thesis using assms(4) by (auto simp: fresh_def split: option.splits)
  qed
  then obtain hr mt2 m2 where 2: "CopyMediaType a src m1 = Some (hr, mt2, m2)" "mt_inv m2 (vs(v \<mapsto> mt2)) ext" "header mt2 = header src"
    "hr = S_OK \<and> format m2 mt2 = format m1 src \<and> pUnk mt2 = pUnk src \<or> hr = E_OUTOFMEMORY \<and> a = None \<and> bare mt2"
    using CopyMediaType_inv [OF 1(2) _ 1(3) src _ u(3)] by (metis fun_upd_same fun_upd_upd)
  then show ?thesis using that [of "if FAILED hr then E_OUTOFMEMORY else S_OK" mt2 m2] 1(1) Some f
    by (auto simp: MediaType_Set_def type_value_def header_def)
qed

lemma inv_replace:
  assumes "mt_inv m vs ext" and "vs v = Some mt" and p: "blocks m p = None" and n: "length bs = unat n" "n \<noteq> 0"
  obtains m' where "(if cbFormat mt \<noteq> 0 then CoTaskMemFree (pbFormat mt) (m\<lparr>blocks := (blocks m)(p \<mapsto> bs)\<rparr>) else Some (m\<lparr>blocks := (blocks m)(p \<mapsto> bs)\<rparr>)) = Some m'"
    "mt_inv m' (vs(v \<mapsto> mt\<lparr>cbFormat := n, pbFormat := Some p\<rparr>)) ext" "blocks m' p = Some bs"
  using mt_inv_format [OF assms(1,2)]
proof (cases rule: format_ok_cases)
  case 1
  then show ?thesis using that inv_gain [OF assms(1,2) _ p n] by simp
next
  case (2 q cs)
  have "q \<noteq> p" using 2 p by auto
  then have "(blocks m)(p \<mapsto> bs, q := None) = (blocks m)(q := None, p \<mapsto> bs)" by (auto simp: fun_eq_iff)
  moreover have "mt_inv (m\<lparr>blocks := (blocks m)(q := None, p \<mapsto> bs)\<rparr>) (vs(v \<mapsto> mt\<lparr>cbFormat := n, pbFormat := Some p\<rparr>)) ext"
    using inv_gain [OF inv_drop [OF assms(1,2) 2(2)], of v _ p bs n] p n by simp
  ultimately show ?thesis using that 2 \<open>q \<noteq> p\<close> by (simp add: CoTaskMemFree_def)
qed

lemma AllocFormatBuffer_inv:
  assumes "mt_inv m vs ext" and "vs v = Some mt" and "fresh a m" and "cb \<noteq> 0"
  obtains (same) "cbFormat mt = cb" "AllocFormatBuffer a cb mt m = Some (pbFormat mt, mt, m)"
  | (no_memory) "a = None" "cbFormat mt \<noteq> cb" "AllocFormatBuffer a cb mt m = Some (if cb \<le> cbFormat mt then pbFormat mt else None, mt, m)"
  | (new) p junk m' where "a = Some (p, junk)" "cbFormat mt \<noteq> cb" "AllocFormatBuffer a cb mt m = Some (Some p, mt\<lparr>cbFormat := cb, pbFormat := Some p\<rparr>, m')"
      "mt_inv m' (vs(v \<mapsto> mt\<lparr>cbFormat := cb, pbFormat := Some p\<rparr>)) ext" "blocks m' p = Some (map junk [0..<unat cb])"
proof (cases "cbFormat mt = cb")
  case True
  then show ?thesis using same by (simp add: AllocFormatBuffer_def)
next
  case cb: False
  show ?thesis
  proof (cases a)
    case None
    then show ?thesis using no_memory cb by (simp add: AllocFormatBuffer_def CoTaskMemAlloc_def)
  next
    case (Some pj)
    obtain p junk where a: "a = Some (p, junk)" using Some by (cases pj) auto
    then have p: "blocks m p = None" using assms(3) by (simp add: fresh_def)
    obtain m' where m': "(if cbFormat mt \<noteq> 0 then CoTaskMemFree (pbFormat mt) (m\<lparr>blocks := (blocks m)(p \<mapsto> map junk [0..<unat cb])\<rparr>)
        else Some (m\<lparr>blocks := (blocks m)(p \<mapsto> map junk [0..<unat cb])\<rparr>)) = Some m'"
      "mt_inv m' (vs(v \<mapsto> mt\<lparr>cbFormat := cb, pbFormat := Some p\<rparr>)) ext" "blocks m' p = Some (map junk [0..<unat cb])"
      using inv_replace [OF assms(1,2) p _ assms(4), of "map junk [0..<unat cb]"] by auto
    then have "AllocFormatBuffer a cb mt m = Some (Some p, mt\<lparr>cbFormat := cb, pbFormat := Some p\<rparr>, m')"
      using a cb by (simp add: AllocFormatBuffer_def CoTaskMemAlloc_def)
    then show ?thesis using new a cb m' by blast
  qed
qed

text \<open>\<open>kept\<close> is the part of the old format that the new block takes over.\<close>

lemma ReallocFormatBuffer_inv:
  assumes "mt_inv m vs ext" and "vs v = Some mt" and "fresh a m" and "cb \<noteq> 0"
  obtains (same) "cbFormat mt = cb" "ReallocFormatBuffer a cb mt m = Some (pbFormat mt, mt, m)"
  | (no_memory) "a = None" "cbFormat mt \<noteq> cb" "ReallocFormatBuffer a cb mt m = Some (if cb \<le> cbFormat mt then pbFormat mt else None, mt, m)"
  | (new) p junk m' where "a = Some (p, junk)" "cbFormat mt \<noteq> cb" "ReallocFormatBuffer a cb mt m = Some (Some p, mt\<lparr>cbFormat := cb, pbFormat := Some p\<rparr>, m')"
      "mt_inv m' (vs(v \<mapsto> mt\<lparr>cbFormat := cb, pbFormat := Some p\<rparr>)) ext"
      "blocks m' p = Some (take (unat cb) (format m mt) @ drop (unat (min cb (cbFormat mt))) (map junk [0..<unat cb]))"
proof (cases "cbFormat mt = cb")
  case True
  then show ?thesis using same by (simp add: ReallocFormatBuffer_def)
next
  case cb: False
  show ?thesis
  proof (cases a)
    case None
    then show ?thesis using no_memory cb by (simp add: ReallocFormatBuffer_def CoTaskMemAlloc_def)
  next
    case (Some pj)
    obtain p junk where a: "a = Some (p, junk)" using Some by (cases pj) auto
    then have p: "blocks m p = None" using assms(3) by (simp add: fresh_def)
    let ?bs = "take (unat cb) (format m mt) @ drop (unat (min cb (cbFormat mt))) (map junk [0..<unat cb])"
    have len: "length (format m mt) = unat (cbFormat mt)" using mt_inv_format [OF assms(1,2)] by (rule format_ok_length)
    have "unat (min cb (cbFormat mt)) = min (unat cb) (unat (cbFormat mt))" by (simp add: min_def word_le_nat_alt)
    then have bs: "length ?bs = unat cb" using len by simp
    obtain m' where m': "(if cbFormat mt \<noteq> 0 then CoTaskMemFree (pbFormat mt) (m\<lparr>blocks := (blocks m)(p \<mapsto> ?bs)\<rparr>)
        else Some (m\<lparr>blocks := (blocks m)(p \<mapsto> ?bs)\<rparr>)) = Some m'"
      "mt_inv m' (vs(v \<mapsto> mt\<lparr>cbFormat := cb, pbFormat := Some p\<rparr>)) ext" "blocks m' p = Some ?bs"
      using inv_replace [OF assms(1,2) p bs assms(4)] by blast
    have "ReallocFormatBuffer a cb mt m = Some (Some p, mt\<lparr>cbFormat := cb, pbFormat := Some p\<rparr>, m')"
      using mt_inv_format [OF assms(1,2)]
    proof (cases rule: format_ok_cases)
      case 1
      then show ?thesis using a cb m'(1) by (simp add: ReallocFormatBuffer_def CoTaskMemAlloc_def format_def)
    next
      case (2 q cs)
      have "q \<noteq> p" "format m mt = cs" using 2 p by (auto simp: format_def)
      moreover have "unat (min cb (cbFormat mt)) \<le> length cs" "unat (min cb (cbFormat mt)) \<le> unat cb"
        "take (unat cb) cs = take (unat (min cb (cbFormat mt))) cs"
        using 2(4) \<open>unat (min cb (cbFormat mt)) = _\<close> by (auto simp: min_def)
      ultimately show ?thesis using a cb m'(1) 2
        by (simp add: ReallocFormatBuffer_def CoTaskMemAlloc_def read_bytes_def CopyMemory_def min_absorb2)
    qed
    then show ?thesis using new a cb m' by blast
  qed
qed

lemma ResetFormatBuffer_inv:
  assumes "mt_inv m vs ext" and "vs v = Some mt"
  obtains m' where "ResetFormatBuffer mt m = Some (mt\<lparr>cbFormat := 0, pbFormat := None\<rparr>, m')"
    "mt_inv m' (vs(v \<mapsto> mt\<lparr>cbFormat := 0, pbFormat := None\<rparr>)) ext"
  using mt_inv_format [OF assms]
proof (cases rule: format_ok_cases)
  case 1
  then have "mt\<lparr>cbFormat := 0, pbFormat := None\<rparr> = mt" by (cases mt) simp
  then show ?thesis using that [of m] assms 1 by (simp add: ResetFormatBuffer_def fun_upd_idem)
next
  case (2 p bs)
  then show ?thesis using that inv_drop [OF assms 2(2)] by (simp add: ResetFormatBuffer_def CoTaskMemFree_def)
qed

lemma SetFormat_inv:
  assumes "mt_inv m vs ext" and "vs v = Some mt" and "fresh a m" and "bs \<noteq> []" and "length bs < 2 ^ 32"
  obtains b mt' m' where "SetFormat a bs mt m = Some (b, mt', m')" "mt_inv m' (vs(v \<mapsto> mt')) ext" "header mt' = header mt"
    "b \<longrightarrow> a \<noteq> None \<or> length bs = unat (cbFormat mt) \<longrightarrow> format m' mt' = bs"
    "\<not> b \<longrightarrow> a = None \<and> mt' = mt \<and> m' = m"
proof -
  let ?cb = "of_nat (length bs) :: u32"
  have u: "unat ?cb = length bs" using assms(5) by (rule unat_of_nat32)
  then have cb: "?cb \<noteq> 0" using assms(4) by (metis length_0_conv unat_0)
  note result = that
  have stored: ?thesis if w: "AllocFormatBuffer a ?cb mt m = Some (Some p, mt1, m1)" "pbFormat mt1 = Some p" "header mt1 = header mt"
    "mt_inv m1 (vs(v \<mapsto> mt1)) ext" "length bs \<le> unat (cbFormat mt1)" "a \<noteq> None \<or> length bs = unat (cbFormat mt) \<Longrightarrow> unat (cbFormat mt1) = length bs" for p mt1 m1
  proof -
    obtain cs where cs: "blocks m1 p = Some cs" "length cs = unat (cbFormat mt1)"
      using mt_inv_format [OF w(4) fun_upd_same] w(2) by (auto elim: format_ok_cases)
    have "SetFormat a bs mt m = Some (True, mt1, m1\<lparr>blocks := (blocks m1)(p \<mapsto> bs @ drop (length bs) cs)\<rparr>)"
      using w(1,2,5) cs by (simp add: SetFormat_def CopyMemory_def)
    moreover have "mt_inv (m1\<lparr>blocks := (blocks m1)(p \<mapsto> bs @ drop (length bs) cs)\<rparr>) (vs(v \<mapsto> mt1)) ext"
      using inv_write [OF w(4) cs(1)] cs w(5) by simp
    ultimately show ?thesis using w(2,3,6) cs
      by (intro result [of True mt1 "m1\<lparr>blocks := (blocks m1)(p \<mapsto> bs @ drop (length bs) cs)\<rparr>"]) (auto simp: format_def)
  qed
  show ?thesis using assms(1,2,3) cb
  proof (cases rule: AllocFormatBuffer_inv)
    case same
    then obtain p where "pbFormat mt = Some p" using mt_inv_format [OF assms(1,2)] cb by (auto elim: format_ok_cases)
    then show ?thesis using stored [of p mt m] same assms(1,2) u by (auto simp: fun_upd_idem)
  next
    case no_memory
    show ?thesis
    proof (cases "?cb \<le> cbFormat mt")
      case True
      then have "cbFormat mt \<noteq> 0" using cb by auto
      then obtain p where "pbFormat mt = Some p" using mt_inv_format [OF assms(1,2)] by (auto elim: format_ok_cases)
      then show ?thesis using stored [of p mt m] no_memory True assms(1,2) u by (auto simp: fun_upd_idem word_le_nat_alt)
    next
      case False
      then show ?thesis using that [of False mt m] no_memory assms(1,2) by (simp add: SetFormat_def fun_upd_idem)
    qed
  next
    case (new p junk m')
    then show ?thesis using stored [of p "mt\<lparr>cbFormat := ?cb, pbFormat := Some p\<rparr>" m'] u by (simp add: header_def)
  qed
qed

section \<open>Audio types\<close>

text \<open>The bytes the format block of an audio type gets.\<close>

definition wave_bytes :: "u8 list \<Rightarrow> u8 list" where
  "wave_bytes w = (if wFormatTag w = Some WAVE_FORMAT_PCM then take 16 w @ [0, 0] else take (18 + the (cbSize w)) w)"

definition wave_readable :: "u8 list \<Rightarrow> bool" where
  "wave_readable w \<longleftrightarrow> 18 \<le> length w \<and> (wFormatTag w = Some WAVE_FORMAT_EXTENSIBLE \<longrightarrow> 40 \<le> length w) \<and>
     (wFormatTag w \<noteq> Some WAVE_FORMAT_PCM \<longrightarrow> 18 + the (cbSize w) \<le> length w)"

lemma le_bytes_less: "le_bytes bs < 256 ^ length bs"
proof (induction bs)
  case (Cons b bs)
  have "unat b < 256" using unsigned_less [of b] by simp
  then have "unat b + 256 * le_bytes bs < 256 + 256 * (256 ^ length bs - 1)" using Cons.IH by (intro add_less_le_mono mult_le_mono2) auto
  also have "\<dots> = 256 ^ length (b # bs)" by (simp add: right_diff_distrib')
  finally show ?case by simp
qed simp

lemma field_less: "field i n w = Some x \<Longrightarrow> x < 256 ^ n"
  using le_bytes_less [of "take n (drop i w)"] by (auto simp: field_def split: if_splits)

lemma CreateAudioMediaType_outcome:
  assumes "wave_readable w" and "fresh a m" and "mt_inv m vs ext" and "vs v = Some mt" and "bare mt"
  obtains mt' m' where "CreateAudioMediaType a w mt True m = Some (if a = None then E_OUTOFMEMORY else S_OK, mt', m')"
    "majortype mt' = MEDIATYPE_Audio" "formattype mt' = FORMAT_WaveFormatEx"
    "wFormatTag w \<noteq> Some WAVE_FORMAT_EXTENSIBLE \<Longrightarrow> subtype mt' = FOURCCMap (of_nat (the (wFormatTag w)))"
    "wFormatTag w = Some WAVE_FORMAT_EXTENSIBLE \<Longrightarrow> subtype mt' = the (SubFormat w)"
    "GetSampleSize mt' = of_nat (the (nBlockAlign w))"
    "a \<noteq> None \<Longrightarrow> mt_inv m' (vs(v \<mapsto> mt')) ext \<and> format m' mt' = wave_bytes w"
proof -
  have l: "18 \<le> length w" using assms(1) by (simp add: wave_readable_def)
  obtain tag where tag: "wFormatTag w = Some tag" using l by (simp add: field_def)
  obtain align where align: "nBlockAlign w = Some align" using l by (simp add: field_def)
  obtain cs where cs: "cbSize w = Some cs" using l by (simp add: field_def)
  obtain sub where sub: "(if tag = WAVE_FORMAT_EXTENSIBLE then SubFormat w else Some (FOURCCMap (of_nat tag))) = Some sub"
  proof (cases "tag = WAVE_FORMAT_EXTENSIBLE")
    case True
    then have "40 \<le> length w" using assms(1) tag by (simp add: wave_readable_def)
    then show ?thesis using that True by (simp add: SubFormat_def field_def)
  qed (use that in simp)
  have sub': "tag \<noteq> WAVE_FORMAT_EXTENSIBLE \<Longrightarrow> sub = FOURCCMap (of_nat tag)" "tag = WAVE_FORMAT_EXTENSIBLE \<Longrightarrow> SubFormat w = Some sub"
    using sub by simp_all
  define extra where "extra = (if tag = WAVE_FORMAT_PCM then 0 else cs)"
  have ex: "(if tag = WAVE_FORMAT_PCM then Some 0 else cbSize w) = Some extra" by (simp add: extra_def cs)
  define n where "n = 18 + extra"
  define mt' where "mt' p = mt\<lparr>majortype := MEDIATYPE_Audio, subtype := sub, formattype := FORMAT_WaveFormatEx, bFixedSizeSamples := True,
       bTemporalCompression := False, lSampleSize := of_nat align, pUnk := None, cbFormat := of_nat n, pbFormat := p\<rparr>" for p
  have fields: "majortype (mt' p) = MEDIATYPE_Audio" "formattype (mt' p) = FORMAT_WaveFormatEx" "subtype (mt' p) = sub"
    "GetSampleSize (mt' p) = of_nat align" "pbFormat (mt' p) = p" for p by (simp_all add: mt'_def GetSampleSize_def)
  have n: "unat (of_nat n :: u32) = n" using field_less [OF cs] by (intro unat_of_nat32) (simp add: n_def extra_def)
  have n0: "(of_nat n :: u32) \<noteq> 0" using n n_def by (metis add_is_0 unat_0 zero_neq_numeral)
  have wb: "wave_bytes w = (if tag = WAVE_FORMAT_PCM then take 16 w @ [0, 0] else take n w)" using tag cs by (simp add: wave_bytes_def n_def extra_def)
  have nl: "n \<le> length w" using assms(1) tag cs l by (auto simp: wave_readable_def n_def extra_def)
  have len: "length (wave_bytes w) = n" using nl l by (auto simp: wb n_def extra_def)
  show ?thesis
  proof (cases a)
    case None
    have "CreateAudioMediaType a w mt True m = Some (E_OUTOFMEMORY, mt' None, m)"
      using None by (simp add: CreateAudioMediaType_def tag sub align ex CoTaskMemAlloc_def sizeof_WAVEFORMATEX_def mt'_def n_def)
    then show ?thesis using None tag sub' align fields by (intro that [of "mt' None" m]) simp_all
  next
    case (Some pj)
    obtain p junk where a: "a = Some (p, junk)" using Some by (cases pj) auto
    then have p: "blocks m p = None" using assms(2) by (simp add: fresh_def)
    let ?m = "m\<lparr>blocks := (blocks m)(p \<mapsto> wave_bytes w)\<rparr>"
    have alloc: "CoTaskMemAlloc a n m = (Some p, m\<lparr>blocks := (blocks m)(p \<mapsto> map junk [0..<n])\<rparr>)" using a by (simp add: CoTaskMemAlloc_def)
    have c: "CreateAudioMediaType a w mt True m = Some (S_OK, mt' (Some p), ?m)"
    proof (cases "tag = WAVE_FORMAT_PCM")
      case True
      then have "n = 18" by (simp add: n_def extra_def)
      moreover have "min (length w) 16 = 16" using l by simp
      ultimately show ?thesis using True l alloc unfolding CreateAudioMediaType_def tag align sub ex
        by (simp add: wb CopyMemory_def read_bytes_def sizeof_WAVEFORMATEX_def sizeof_PCMWAVEFORMAT_def mt'_def n_def tag sub' align
              WAVE_FORMAT_PCM_def WAVE_FORMAT_EXTENSIBLE_def)
    next
      case False
      then have "cbSize w = Some extra" using cs by (simp add: extra_def)
      then show ?thesis using False alloc nl
        by (simp add: CreateAudioMediaType_def tag sub align wb CopyMemory_def sizeof_WAVEFORMATEX_def mt'_def n_def)
    qed
    have "mt_inv ?m (vs(v \<mapsto> mt\<lparr>cbFormat := of_nat n, pbFormat := Some p\<rparr>)) ext"
      using inv_gain [OF assms(3,4) _ p, of "wave_bytes w" "of_nat n"] assms(5) len n n0 by (simp add: bare_def)
    then have "mt_inv ?m (vs(v \<mapsto> mt' (Some p))) ext"
      using inv_header [of ?m "vs(v \<mapsto> mt\<lparr>cbFormat := of_nat n, pbFormat := Some p\<rparr>)" ext v
          "mt\<lparr>cbFormat := of_nat n, pbFormat := Some p\<rparr>" "mt' (Some p)"] assms(5) by (simp add: bare_def mt'_def)
    moreover have "format ?m (mt' (Some p)) = wave_bytes w" by (simp add: format_def fields)
    ultimately show ?thesis using c a tag sub' align fields by (intro that [of "mt' (Some p)" ?m]) simp_all
  qed
qed

section \<open>Programs that use media types\<close>

record mt_world =
  mem :: task_memory
  vars :: "nat \<Rightarrow> AM_MEDIA_TYPE option"
  ext :: "nat \<Rightarrow> nat"

text \<open>Each operation names the object it works on, and the other one it reads; \<open>OpGive\<close> is the client that hands
  a reference it holds to a type, \<open>OpAddRef\<close> a client that obtains one.\<close>

datatype mt_op = OpConstruct nat | OpConstructOf nat GUID | OpCopyConstruct nat nat allocation | OpAssign nat nat allocation
  | OpDestroy nat | OpCreate nat nat bool allocation | OpDelete nat | OpSetType nat GUID | OpSetSubtype nat GUID
  | OpSetFormatType nat GUID | OpSetSampleSize nat u32 | OpSetVariableSize nat | OpSetTemporalCompression nat bool
  | OpAlloc nat allocation u32 | OpRealloc nat allocation u32 | OpSetFormat nat allocation "u8 list" | OpResetFormat nat
  | OpAudio nat allocation "u8 list" | OpGive nat nat | OpAddRef nat

definition with_type :: "nat \<Rightarrow> mt_world \<Rightarrow> (AM_MEDIA_TYPE \<Rightarrow> task_memory \<Rightarrow> (AM_MEDIA_TYPE \<times> task_memory) option) \<Rightarrow> mt_world option" where
  "with_type v w f = do { mt \<leftarrow> vars w v; (mt, m) \<leftarrow> f mt (mem w); Some (w\<lparr>mem := m, vars := (vars w)(v \<mapsto> mt)\<rparr>) }"

fun mt_exec :: "mt_op \<Rightarrow> mt_world \<Rightarrow> mt_world option" where
  "mt_exec (OpConstruct v) w = Some (w\<lparr>vars := (vars w)(v \<mapsto> InitMediaType)\<rparr>)"
| "mt_exec (OpConstructOf v g) w = Some (w\<lparr>vars := (vars w)(v \<mapsto> CMediaType_of_GUID g)\<rparr>)"
| "mt_exec (OpCopyConstruct v u a) w = do {
     src \<leftarrow> vars w u; (phr, mt, m) \<leftarrow> CMediaType_copy a src None (mem w); Some (w\<lparr>mem := m, vars := (vars w)(v \<mapsto> mt)\<rparr>) }"
| "mt_exec (OpAssign v u a) w = do {
     rt \<leftarrow> vars w u;
     with_type v w (\<lambda>mt m. do { (hr, mt, m) \<leftarrow> MediaType_Set a (if u = v then None else Some rt) mt m; Some (mt, m) }) }"
| "mt_exec (OpDestroy v) w = do { mt \<leftarrow> vars w v; (mt, m) \<leftarrow> FreeMediaType mt (mem w); Some (w\<lparr>mem := m, vars := (vars w)(v := None)\<rparr>) }"
| "mt_exec (OpCreate v u ok a) w = do {
     src \<leftarrow> vars w u; (pmt, m) \<leftarrow> CreateMediaType ok a src (mem w); Some (w\<lparr>mem := m, vars := (vars w)(v := pmt)\<rparr>) }"
| "mt_exec (OpDelete v) w = do { m \<leftarrow> DeleteMediaType (vars w v) (mem w); Some (w\<lparr>mem := m, vars := (vars w)(v := None)\<rparr>) }"
| "mt_exec (OpSetType v g) w = with_type v w (\<lambda>mt m. Some (SetType g mt, m))"
| "mt_exec (OpSetSubtype v g) w = with_type v w (\<lambda>mt m. Some (SetSubtype g mt, m))"
| "mt_exec (OpSetFormatType v g) w = with_type v w (\<lambda>mt m. Some (SetFormatType g mt, m))"
| "mt_exec (OpSetSampleSize v sz) w = with_type v w (\<lambda>mt m. Some (SetSampleSize sz mt, m))"
| "mt_exec (OpSetVariableSize v) w = with_type v w (\<lambda>mt m. Some (SetVariableSize mt, m))"
| "mt_exec (OpSetTemporalCompression v b) w = with_type v w (\<lambda>mt m. Some (SetTemporalCompression b mt, m))"
| "mt_exec (OpAlloc v a cb) w = with_type v w (\<lambda>mt m. do { (p, r) \<leftarrow> AllocFormatBuffer a cb mt m; Some r })"
| "mt_exec (OpRealloc v a cb) w = with_type v w (\<lambda>mt m. do { (p, r) \<leftarrow> ReallocFormatBuffer a cb mt m; Some r })"
| "mt_exec (OpSetFormat v a bs) w = with_type v w (\<lambda>mt m. do { (b, r) \<leftarrow> SetFormat a bs mt m; Some r })"
| "mt_exec (OpResetFormat v) w = with_type v w ResetFormatBuffer"
| "mt_exec (OpAudio v a pwfx) w = with_type v w (\<lambda>mt m. do { (hr, r) \<leftarrow> CreateAudioMediaType a pwfx mt True m; Some r })"
| "mt_exec (OpGive v u) w = do {
     w' \<leftarrow> with_type v w (\<lambda>mt m. Some (mt\<lparr>pUnk := Some u\<rparr>, m)); Some (w'\<lparr>ext := (ext w)(u := ext w u - 1)\<rparr>) }"
| "mt_exec (OpAddRef u) w = Some (w\<lparr>mem := IUnknown_AddRef u (mem w), ext := (ext w)(u := ext w u + 1)\<rparr>)"

text \<open>What the callers see to: objects exist or not, blocks of the allocator are new, lengths are not zero, a copy with
  an interface finds memory, an audio type is made in a bare structure.\<close>

fun mt_allowed :: "mt_op \<Rightarrow> mt_world \<Rightarrow> bool" where
  "mt_allowed (OpConstruct v) w = (vars w v = None)"
| "mt_allowed (OpConstructOf v g) w = (vars w v = None)"
| "mt_allowed (OpCopyConstruct v u a) w = (vars w v = None \<and> fresh a (mem w) \<and> (case vars w u of None \<Rightarrow> False | Some src \<Rightarrow> safe_copy a src))"
| "mt_allowed (OpAssign v u a) w = (vars w v \<noteq> None \<and> fresh a (mem w) \<and> (case vars w u of None \<Rightarrow> False | Some src \<Rightarrow> safe_copy a src))"
| "mt_allowed (OpCreate v u ok a) w = (vars w v = None \<and> vars w u \<noteq> None \<and> fresh a (mem w))"
| "mt_allowed (OpDelete v) w = True"
| "mt_allowed (OpAlloc v a cb) w = (vars w v \<noteq> None \<and> fresh a (mem w) \<and> cb \<noteq> 0)"
| "mt_allowed (OpRealloc v a cb) w = (vars w v \<noteq> None \<and> fresh a (mem w) \<and> cb \<noteq> 0)"
| "mt_allowed (OpSetFormat v a bs) w = (vars w v \<noteq> None \<and> fresh a (mem w) \<and> bs \<noteq> [] \<and> length bs < 2 ^ 32)"
| "mt_allowed (OpAudio v a pwfx) w = (fresh a (mem w) \<and> a \<noteq> None \<and> wave_readable pwfx \<and> (case vars w v of None \<Rightarrow> False | Some mt \<Rightarrow> bare mt))"
| "mt_allowed (OpGive v u) w = (0 < ext w u \<and> (case vars w v of None \<Rightarrow> False | Some mt \<Rightarrow> pUnk mt = None))"
| "mt_allowed (OpAddRef u) w = True"
| "mt_allowed (OpDestroy v) w = (vars w v \<noteq> None)"
| "mt_allowed (OpSetType v g) w = (vars w v \<noteq> None)"
| "mt_allowed (OpSetSubtype v g) w = (vars w v \<noteq> None)"
| "mt_allowed (OpSetFormatType v g) w = (vars w v \<noteq> None)"
| "mt_allowed (OpSetSampleSize v sz) w = (vars w v \<noteq> None)"
| "mt_allowed (OpSetVariableSize v) w = (vars w v \<noteq> None)"
| "mt_allowed (OpSetTemporalCompression v b) w = (vars w v \<noteq> None)"
| "mt_allowed (OpResetFormat v) w = (vars w v \<noteq> None)"

inductive mt_reachable :: "mt_world \<Rightarrow> bool" where
  start: "mt_reachable \<lparr>mem = \<lparr>blocks = Map.empty, com_refs = \<lambda>u. 0\<rparr>, vars = Map.empty, ext = \<lambda>u. 0\<rparr>"
| step: "mt_reachable w \<Longrightarrow> mt_allowed op w \<Longrightarrow> mt_exec op w = Some w' \<Longrightarrow> mt_reachable w'"

abbreviation world_inv :: "mt_world \<Rightarrow> bool" where
  "world_inv w \<equiv> mt_inv (mem w) (vars w) (ext w)"

lemma bare_init [simp]: "bare InitMediaType" "bare (CMediaType_of_GUID g)"
  by (simp_all add: bare_def InitMediaType_def CMediaType_of_GUID_def)

lemma with_type_header:
  assumes "world_inv w" and "vars w v \<noteq> None" and "\<And>mt. pUnk (f mt) = pUnk mt \<and> cbFormat (f mt) = cbFormat mt \<and> pbFormat (f mt) = pbFormat mt"
  shows "\<exists>w'. with_type v w (\<lambda>mt m. Some (f mt, m)) = Some w' \<and> world_inv w'"
  using assms(1,2) inv_header [OF assms(1)] assms(3) by (auto simp: with_type_def)

lemma inv_give:
  assumes "mt_inv m vs e" and "vs v = Some mt" and "pUnk mt = None" and "0 < e u"
  shows "mt_inv m (vs(v \<mapsto> mt\<lparr>pUnk := Some u\<rparr>)) (e(u := e u - 1))"
proof -
  have m: "v \<notin> users vs w" "finite (users vs w)" "com_refs m w = e w + card (users vs w)" for w
    using assms(1-3) by (auto simp: mt_inv_def users_finite)
  then have "com_refs m w = (e(u := e u - 1)) w + card (users (vs(v \<mapsto> mt\<lparr>pUnk := Some u\<rparr>)) w)" for w
    using assms(4) by auto
  then have "mt_inv (m\<lparr>com_refs := com_refs m\<rparr>) (vs(v \<mapsto> mt\<lparr>pUnk := Some u\<rparr>)) (e(u := e u - 1))"
    by (rule inv_refs [OF assms(1,2)])
  then show ?thesis by simp
qed

lemma inv_copy_construct:
  assumes "mt_inv m vs e" and "vs v = None" and "vs u = Some src" and "fresh a m" and "safe_copy a src"
  obtains hr mt m' where "CopyMediaType a src m = Some (hr, mt, m')" "mt_inv m' (vs(v \<mapsto> mt)) e"
    "hr = S_OK \<or> hr = E_OUTOFMEMORY \<and> bare mt"
proof -
  have "mt_inv m (vs(v \<mapsto> InitMediaType)) e" by (rule inv_new [OF assms(1,2)]) simp
  then show ?thesis
    by (rule CopyMediaType_inv [of m "vs(v \<mapsto> InitMediaType)" e v InitMediaType src a]) (use that mt_inv_format [OF assms(1,3)] assms(4,5) in auto)
qed

lemma CreateMediaType_inv:
  assumes "mt_inv m vs e" and "vs v = None" and "vs u = Some src" and "fresh a m"
  shows "\<exists>pmt m'. CreateMediaType ok a src m = Some (pmt, m') \<and> mt_inv m' (vs(v := pmt)) e"
proof (cases "ok \<and> safe_copy a src")
  case True
  then obtain hr mt m' where c: "CopyMediaType a src m = Some (hr, mt, m')" "mt_inv m' (vs(v \<mapsto> mt)) e" "hr = S_OK \<or> hr = E_OUTOFMEMORY \<and> bare mt"
    using inv_copy_construct [OF assms] by blast
  then have "hr = E_OUTOFMEMORY \<Longrightarrow> mt_inv m' (vs(v := None)) e" using inv_delete_upd [OF c(2)] by (auto simp: hr_defs)
  then show ?thesis using c True by (auto simp: CreateMediaType_def)
next
  case False
  have "ok \<Longrightarrow> CopyMediaType a src m = Some (E_OUTOFMEMORY, src\<lparr>pbFormat := None, cbFormat := 0\<rparr>, m)"
    using False by (auto simp: safe_copy_def CopyMediaType_def CoTaskMemAlloc_def)
  then show ?thesis using assms(1,2) by (auto simp: CreateMediaType_def fun_upd_idem)
qed

lemma DeleteMediaType_inv:
  assumes "mt_inv m vs e"
  shows "\<exists>m'. DeleteMediaType (vs v) m = Some m' \<and> mt_inv m' (vs(v := None)) e"
proof (cases "vs v")
  case None
  then show ?thesis using assms by (simp add: DeleteMediaType_def fun_upd_idem)
next
  case (Some mt)
  then obtain mt' m' where f: "FreeMediaType mt m = Some (mt', m')" "mt_inv m' (vs(v \<mapsto> mt')) e" "bare mt'"
    using FreeMediaType_inv [OF assms Some] by blast
  then have "mt_inv m' (vs(v := None)) e" using inv_delete_upd by blast
  then show ?thesis using Some f(1) by (simp add: DeleteMediaType_def)
qed

lemma mt_exec_inv:
  assumes "world_inv w" and "mt_allowed op w"
  shows "\<exists>w'. mt_exec op w = Some w' \<and> world_inv w'"
proof (cases op)
  case (OpConstruct v)
  then show ?thesis using inv_new [OF assms(1), of v InitMediaType] assms(2) by simp
next
  case (OpConstructOf v g)
  then show ?thesis using inv_new [OF assms(1), of v "CMediaType_of_GUID g"] assms(2) by simp
next
  case (OpCopyConstruct v u a)
  then obtain src where s: "vars w v = None" "vars w u = Some src" "fresh a (mem w)" "safe_copy a src" using assms(2) by (auto split: option.splits)
  show ?thesis by (rule inv_copy_construct [OF assms(1) s]) (use OpCopyConstruct s in \<open>auto simp: CMediaType_copy_def\<close>)
next
  case (OpAssign v u a)
  then obtain src mt where s: "vars w v = Some mt" "vars w u = Some src" "fresh a (mem w)" "safe_copy a src" using assms(2) by (auto split: option.splits)
  then have "case (if u = v then None else Some src) of None \<Rightarrow> True | Some src \<Rightarrow> \<exists>u. u \<noteq> v \<and> vars w u = Some src \<and> safe_copy a src" by auto
  from assms(1) s(1) this s(3) show ?thesis by (rule MediaType_Set_inv) (use OpAssign s in \<open>auto simp: with_type_def\<close>)
next
  case (OpDestroy v)
  then obtain mt where mt: "vars w v = Some mt" using assms(2) by auto
  then show ?thesis using DeleteMediaType_inv [OF assms(1), of v] OpDestroy by (auto simp: DeleteMediaType_def split: Option.bind_splits)
next
  case (OpCreate v u ok a)
  then obtain src where "vars w v = None" "vars w u = Some src" "fresh a (mem w)" using assms(2) by auto
  from CreateMediaType_inv [OF assms(1) this, of ok] show ?thesis using OpCreate \<open>vars w u = Some src\<close> by auto
next
  case (OpDelete v)
  then show ?thesis using DeleteMediaType_inv [OF assms(1), of v] by auto
next
  case (OpAlloc v a cb)
  then obtain mt where mt: "vars w v = Some mt" "fresh a (mem w)" "cb \<noteq> 0" using assms(2) by auto
  show ?thesis by (rule AllocFormatBuffer_inv [OF assms(1) mt]) (use OpAlloc mt assms(1) in \<open>auto simp: with_type_def fun_upd_idem\<close>)
next
  case (OpRealloc v a cb)
  then obtain mt where mt: "vars w v = Some mt" "fresh a (mem w)" "cb \<noteq> 0" using assms(2) by auto
  show ?thesis by (rule ReallocFormatBuffer_inv [OF assms(1) mt]) (use OpRealloc mt assms(1) in \<open>auto simp: with_type_def fun_upd_idem\<close>)
next
  case (OpSetFormat v a bs)
  then obtain mt where mt: "vars w v = Some mt" "fresh a (mem w)" "bs \<noteq> []" "length bs < 2 ^ 32" using assms(2) by auto
  show ?thesis by (rule SetFormat_inv [OF assms(1) mt]) (use OpSetFormat mt in \<open>auto simp: with_type_def\<close>)
next
  case (OpResetFormat v)
  then obtain mt where mt: "vars w v = Some mt" using assms(2) by auto
  show ?thesis by (rule ResetFormatBuffer_inv [OF assms(1) mt]) (use OpResetFormat mt in \<open>auto simp: with_type_def\<close>)
next
  case (OpAudio v a pwfx)
  then obtain mt where mt: "wave_readable pwfx" "fresh a (mem w)" "a \<noteq> None" "vars w v = Some mt" "bare mt"
    using assms(2) by (auto split: option.splits)
  show ?thesis by (rule CreateAudioMediaType_outcome [OF mt(1,2) assms(1) mt(4,5)]) (use OpAudio mt in \<open>auto simp: with_type_def\<close>)
next
  case (OpGive v u)
  then obtain mt where mt: "vars w v = Some mt" "pUnk mt = None" "0 < ext w u" using assms(2) by (auto split: option.splits)
  then show ?thesis using inv_give [OF assms(1) mt] OpGive by (simp add: with_type_def)
next
  case (OpAddRef u)
  have "world_inv (w\<lparr>mem := IUnknown_AddRef u (mem w), ext := (ext w)(u := ext w u + 1)\<rparr>)"
    using assms(1) format_ok_cong [of _ _ "IUnknown_AddRef u (mem w)" "mem w"] by (simp add: mt_inv_def IUnknown_AddRef_def)
  then show ?thesis using OpAddRef by simp
qed (use assms with_type_header [OF assms(1)] in \<open>auto simp: SetType_def SetSubtype_def SetFormatType_def SetSampleSize_def SetVariableSize_def
    SetTemporalCompression_def\<close>)

lemma mt_reachable_inv: "mt_reachable w \<Longrightarrow> world_inv w"
proof (induction rule: mt_reachable.induct)
  case start
  show ?case by (simp add: mt_inv_def owns_def users_def)
next
  case (step w op w')
  then show ?case using mt_exec_inv [of w op] by simp
qed

section \<open>Properties\<close>


definition wave_pcm :: "u8 list" where
  "wave_pcm = [1, 0, 2, 0, 0x44, 0xAC, 0, 0, 0x10, 0xB1, 2, 0, 4, 0, 16, 0, 0, 0]"

lemma wave_pcm_readable: "wave_readable wave_pcm"
proof -
  have "wFormatTag wave_pcm = Some WAVE_FORMAT_PCM" by (simp add: field_def wave_pcm_def WAVE_FORMAT_PCM_def numeral_2_eq_2)
  moreover have "length wave_pcm = 18" by (simp add: wave_pcm_def)
  ultimately show ?thesis unfolding wave_readable_def by (simp add: WAVE_FORMAT_PCM_def WAVE_FORMAT_EXTENSIBLE_def)
qed

definition two_types :: "mt_world option" where
  "two_types = do {
     w \<leftarrow> mt_exec (OpConstruct 0) \<lparr>mem = \<lparr>blocks = Map.empty, com_refs = \<lambda>u. 0\<rparr>, vars = Map.empty, ext = \<lambda>u. 0\<rparr>;
     mt_exec (OpCopyConstruct 1 0 None) w }"


text \<open>C40. On types whose format blocks are as long as they say, comparison is equality of the major, sub and
  format type and of the bytes of the format, and a partial type is matched by exactly the types that
  agree with it in all it specifies.\<close>

theorem mtype_comparison:
  assumes "format_ok m mt" and "format_ok m rt"
  shows "MediaType_eq mt rt m = Some (type_value m mt = type_value m rt) \<and>
    MediaType_neq mt rt m = Some (type_value m mt \<noteq> type_value m rt) \<and>
    MatchesPartial mt rt m = Some ((majortype rt \<noteq> GUID_NULL \<longrightarrow> majortype mt = majortype rt) \<and>
      (subtype rt \<noteq> GUID_NULL \<longrightarrow> subtype mt = subtype rt) \<and>
      (formattype rt \<noteq> GUID_NULL \<longrightarrow> formattype mt = formattype rt \<and> format m mt = format m rt))"
proof -
  have len: "format m mt = format m rt \<Longrightarrow> cbFormat mt = cbFormat rt"
    using assms [THEN format_ok_length] by (metis unsigned_word_eqI)
  have empty: "cbFormat mt = 0 \<Longrightarrow> cbFormat rt = 0 \<Longrightarrow> format m mt = format m rt" using assms [THEN format_empty] by metis
  have ptr: "cbFormat mt \<noteq> 0 \<Longrightarrow> pbFormat mt \<noteq> None" "cbFormat rt \<noteq> 0 \<Longrightarrow> pbFormat rt \<noteq> None"
    using assms by (auto elim: format_ok_cases)
  have read: "cbFormat mt \<noteq> 0 \<Longrightarrow> read_bytes (pbFormat mt) (unat (cbFormat mt)) m = Some (format m mt)"
    "cbFormat mt \<noteq> 0 \<Longrightarrow> cbFormat mt = cbFormat rt \<Longrightarrow> read_bytes (pbFormat rt) (unat (cbFormat mt)) m = Some (format m rt)"
    using assms by (simp_all add: format_ok_read)
  have eq: "MediaType_eq mt rt m = Some (type_value m mt = type_value m rt)"
  proof (cases "cbFormat mt = cbFormat rt \<and> cbFormat mt \<noteq> 0")
    case True
    then show ?thesis using ptr read by (auto simp: MediaType_eq_def type_value_def)
  next
    case False
    then show ?thesis using len empty by (auto simp: MediaType_eq_def type_value_def)
  qed
  have "MatchesPartial mt rt m = Some ((majortype rt \<noteq> GUID_NULL \<longrightarrow> majortype mt = majortype rt) \<and>
      (subtype rt \<noteq> GUID_NULL \<longrightarrow> subtype mt = subtype rt) \<and>
      (formattype rt \<noteq> GUID_NULL \<longrightarrow> formattype mt = formattype rt \<and> format m mt = format m rt))"
  proof (cases "cbFormat mt = cbFormat rt \<and> cbFormat mt \<noteq> 0")
    case True
    then show ?thesis using read by (auto simp: MatchesPartial_def)
  next
    case False
    then show ?thesis using len empty by (auto simp: MatchesPartial_def)
  qed
  then show ?thesis using eq by (simp add: MediaType_neq_def)
qed

theorem mtype_comparison_witness:
  "MediaType_eq InitMediaType (SetType GUID_NULL InitMediaType) \<lparr>blocks = Map.empty, com_refs = \<lambda>u. 0\<rparr> = Some True"
  using mtype_comparison [of "\<lparr>blocks = Map.empty, com_refs = \<lambda>u. 0\<rparr>" InitMediaType "SetType GUID_NULL InitMediaType"]
  by (simp add: format_ok_def InitMediaType_def SetType_def type_value_def format_def)

text \<open>Without memory two operations go wrong. \<open>SetFormat\<close> reuses a longer old block but keeps its length, and
  reports success: the format is the new bytes followed by the rest of the old ones. \<open>CopyMediaType\<close> leaves in the target
  the interface of the source without a reference of its own; once the target is freed the source, which
  held the only reference, cannot be freed.\<close>

theorem mtype_no_memory:
  assumes "format_ok m mt" and "bs \<noteq> []" and "length bs < unat (cbFormat mt)"
  shows "(\<exists>m'. SetFormat None bs mt m = Some (True, mt, m') \<and> format_ok m' mt \<and> format m' mt = bs @ drop (length bs) (format m mt)) \<and>
    (pUnk mt = Some u \<and> com_refs m u = 1 \<longrightarrow>
      (\<exists>t t' m'. CopyMediaType None mt m = Some (E_OUTOFMEMORY, t, m) \<and> FreeMediaType t m = Some (t', m') \<and> FreeMediaType mt m' = None))"
proof -
  have "length bs < 2 ^ 32" using assms(3) unsigned_less [of "cbFormat mt", where 'a = nat] by simp
  then have n: "unat (of_nat (length bs) :: u32) = length bs" by (rule unat_of_nat32)
  obtain p cs where p: "cbFormat mt \<noteq> 0" "pbFormat mt = Some p" "blocks m p = Some cs" "length cs = unat (cbFormat mt)"
    using assms(1,3) by (auto elim: format_ok_cases)
  have c: "cbFormat mt \<noteq> of_nat (length bs)" "of_nat (length bs) \<le> cbFormat mt" using n assms(3) by (auto simp: word_le_nat_alt)
  have "SetFormat None bs mt m = Some (True, mt, m\<lparr>blocks := (blocks m)(p \<mapsto> bs @ drop (length bs) cs)\<rparr>)"
    using p c assms(3) by (simp add: SetFormat_def AllocFormatBuffer_def CoTaskMemAlloc_def CopyMemory_def)
  moreover have "format_ok (m\<lparr>blocks := (blocks m)(p \<mapsto> bs @ drop (length bs) cs)\<rparr>) mt" using p assms(3) by (simp add: format_ok_def)
  ultimately have 1: "\<exists>m'. SetFormat None bs mt m = Some (True, mt, m') \<and> format_ok m' mt \<and> format m' mt = bs @ drop (length bs) (format m mt)"
    using p by (simp add: format_def)
  let ?t = "mt\<lparr>pbFormat := None, cbFormat := 0\<rparr>"
  have 2: "CopyMediaType None mt m = Some (E_OUTOFMEMORY, ?t, m)" using p by (simp add: CopyMediaType_def CoTaskMemAlloc_def)
  have 3: "FreeMediaType ?t m = Some (?t\<lparr>pUnk := None\<rparr>, m\<lparr>com_refs := (com_refs m)(u := 0)\<rparr>)"
    "FreeMediaType mt (m\<lparr>com_refs := (com_refs m)(u := 0)\<rparr>) = None" if "pUnk mt = Some u" "com_refs m u = 1"
    using that p by (simp_all add: FreeMediaType_def IUnknown_Release_def CoTaskMemFree_def)
  show ?thesis using 1 2 3 by blast
qed

theorem mtype_no_memory_witness:
  "\<exists>m'. SetFormat None [9] (InitMediaType\<lparr>cbFormat := 2, pbFormat := Some 5\<rparr>) \<lparr>blocks = [5 \<mapsto> [1, 2]], com_refs = \<lambda>u. 0\<rparr> =
      Some (True, InitMediaType\<lparr>cbFormat := 2, pbFormat := Some 5\<rparr>, m') \<and> format m' (InitMediaType\<lparr>cbFormat := 2, pbFormat := Some 5\<rparr>) = [9, 2]"
  using mtype_no_memory [of "\<lparr>blocks = [5 \<mapsto> [1, 2]], com_refs = \<lambda>u. 0\<rparr>" "InitMediaType\<lparr>cbFormat := 2, pbFormat := Some 5\<rparr>" "[9]" 0]
  by (auto simp: format_ok_def format_def)

text \<open>A copy and an assignment have the value of the original.\<close>

theorem mtype_assign_value:
  assumes "mt_reachable w" and "vars w v = Some mt" and "vars w u = Some src" and "u \<noteq> v" and "fresh a (mem w)" and "safe_copy a src"
  shows "\<exists>hr mt' m'. MediaType_Set a (Some src) mt (mem w) = Some (hr, mt', m') \<and>
    (hr = S_OK \<and> type_value m' mt' = type_value (mem w) src \<or> hr = E_OUTOFMEMORY \<and> a = None \<and> bare mt')"
  by (rule MediaType_Set_inv [OF mt_reachable_inv [OF assms(1)] assms(2), of a "Some src"]) (use assms in auto)

text \<open>The type of a wave format has its bytes as format, the sub type that the tag or the extension says, and the block
  alignment as sample size.\<close>

theorem mtype_audio:
  assumes "mt_reachable w" and "vars w v = Some mt" and "bare mt" and "fresh a (mem w)" and "a \<noteq> None" and "wave_readable pwfx"
  shows "\<exists>mt' m'. CreateAudioMediaType a pwfx mt True (mem w) = Some (S_OK, mt', m') \<and>
    type_value m' mt' = (MEDIATYPE_Audio, if wFormatTag pwfx = Some WAVE_FORMAT_EXTENSIBLE then the (SubFormat pwfx)
      else FOURCCMap (of_nat (the (wFormatTag pwfx))), FORMAT_WaveFormatEx, wave_bytes pwfx) \<and> GetSampleSize mt' = of_nat (the (nBlockAlign pwfx))"
  by (rule CreateAudioMediaType_outcome [OF assms(6,4) mt_reachable_inv [OF assms(1)] assms(2,3)])
    (use assms(5) in \<open>simp add: type_value_def\<close>)

end
