(* ===== verification/Enumerators.thy ===== *)
theory Enumerators
  imports AR_Prelude
begin

text \<open>
  Model of the enumerators \<open>CEnumPins\<close> and \<open>CEnumMediaTypes\<close> and of \<open>CBaseFilter::FindPin\<close>
  (\<open>src/baseclasses/amfilter.cpp\<close>, \<open>amfilter.h\<close>). What an enumerator asks of its filter or pin are
  arguments, so that they can change between the calls. Pins are numbers; the reference an enumerator holds on
  its owner is counted in the model of the destructor.
\<close>

definition VFW_E_ENUM_OUT_OF_SYNC :: HRESULT where [hr_defs]: "VFW_E_ENUM_OUT_OF_SYNC = 0x80040203"
definition VFW_E_NOT_FOUND :: HRESULT where [hr_defs]: "VFW_E_NOT_FOUND = 0x80040216"
definition E_NOINTERFACE :: HRESULT where [hr_defs]: "E_NOINTERFACE = 0x80004002"

section \<open>Pins of a filter\<close>

text \<open>The virtual functions of the filter.\<close>

record enum_filter =
  GetPinVersion :: i32
  GetPinCount :: i32
  GetPin :: "i32 \<Rightarrow> nat option"

record CEnumPins =
  m_Position :: i32
  m_PinCount :: i32
  m_Version :: i32
  m_cRef :: i32
  m_PinCache :: "nat list"

definition new_CEnumPins :: "enum_filter \<Rightarrow> CEnumPins" where
  "new_CEnumPins f = \<lparr>m_Position = 0, m_PinCount = GetPinCount f, m_Version = GetPinVersion f, m_cRef = 1, m_PinCache = []\<rparr>"

text \<open>The constructor that copies; \<open>ok\<close> says which pins the list finds memory for.\<close>

definition copy_CEnumPins :: "(nat \<Rightarrow> bool) \<Rightarrow> CEnumPins \<Rightarrow> CEnumPins" where
  "copy_CEnumPins ok e = \<lparr>m_Position = m_Position e, m_PinCount = m_PinCount e, m_Version = m_Version e, m_cRef = 1,
     m_PinCache = takeWhile ok (m_PinCache e)\<rparr>"

definition EnumPins :: "bool \<Rightarrow> enum_filter \<Rightarrow> HRESULT \<times> CEnumPins option" where
  "EnumPins ok f = (if ok then (NOERROR, Some (new_CEnumPins f)) else (E_OUTOFMEMORY, None))"

definition EnumPins_AreWeOutOfSync :: "enum_filter \<Rightarrow> CEnumPins \<Rightarrow> bool" where
  "EnumPins_AreWeOutOfSync f e \<longleftrightarrow> \<not> GetPinVersion f = m_Version e"

definition EnumPins_AddRef :: "CEnumPins \<Rightarrow> i32 \<times> CEnumPins" where
  "EnumPins_AddRef e = (m_cRef e + 1, e\<lparr>m_cRef := m_cRef e + 1\<rparr>)"

text \<open>\<open>None\<close> is the deleted object, whose destructor has released the filter; \<open>n\<close> is the count of the filter.\<close>

definition EnumPins_Release :: "nat \<Rightarrow> CEnumPins \<Rightarrow> i32 \<times> nat \<times> CEnumPins option" where
  "EnumPins_Release n e = (let c = m_cRef e - 1 in if c = 0 then (c, n - 1, None) else (c, n, Some (e\<lparr>m_cRef := c\<rparr>)))"

definition EnumPins_Clone :: "bool \<Rightarrow> (nat \<Rightarrow> bool) \<Rightarrow> enum_filter \<Rightarrow> CEnumPins \<Rightarrow> HRESULT \<times> CEnumPins option" where
  "EnumPins_Clone mem ok f e =
     (if EnumPins_AreWeOutOfSync f e then (VFW_E_ENUM_OUT_OF_SYNC, None)
      else if mem then (NOERROR, Some (copy_CEnumPins ok e)) else (E_OUTOFMEMORY, None))"

definition EnumPins_Refresh :: "enum_filter \<Rightarrow> CEnumPins \<Rightarrow> CEnumPins" where
  "EnumPins_Refresh f e = e\<lparr>m_Version := GetPinVersion f, m_PinCount := GetPinCount f, m_Position := 0\<rparr>"

definition EnumPins_Reset :: "enum_filter \<Rightarrow> CEnumPins \<Rightarrow> HRESULT \<times> CEnumPins" where
  "EnumPins_Reset f e = (S_OK, e\<lparr>m_Version := GetPinVersion f, m_PinCount := GetPinCount f, m_Position := 0, m_PinCache := []\<rparr>)"

lemma sint_plus_one:
  fixes x y :: i32
  assumes "sint x < sint y"
  shows "sint (x + 1) = sint x + 1"
proof -
  have "sint x + 1 < 2 ^ 31" "- (2 ^ 31) \<le> sint x + 1" using assms sint_range32 [of x] sint_range32 [of y] by linarith+
  then have "signed_take_bit 31 (sint x + 1) = sint x + 1" by (intro signed_take_bit_idem_range) auto
  then show ?thesis by (simp add: sint_word_ariths)
qed

text \<open>The loop of \<open>Next\<close>; \<open>n\<close> is \<open>cPins - cFetched\<close>, \<open>ok\<close> says for which pins the cache finds memory. The result
  tells whether the filter had each pin it was asked for, and the pins stored, each with a reference.\<close>

function enum_pins_loop :: "enum_filter \<Rightarrow> (nat \<Rightarrow> bool) \<Rightarrow> nat \<Rightarrow> CEnumPins \<Rightarrow> bool \<times> nat list \<times> CEnumPins" where
  "enum_pins_loop f ok n e =
     (if 0 < n \<and> sint (m_PinCount e) > sint (m_Position e) then
        (let e' = e\<lparr>m_Position := m_Position e + 1\<rparr>
         in case GetPin f (m_Position e) of
              None \<Rightarrow> (False, [], e')
            | Some p \<Rightarrow>
                if p \<notin> set (m_PinCache e) then
                  (let (b, ps, e'') = enum_pins_loop f ok (n - 1) (if ok p then e'\<lparr>m_PinCache := m_PinCache e' @ [p]\<rparr> else e')
                   in (b, p # ps, e''))
                else enum_pins_loop f ok n e')
      else (True, [], e))"
  by pat_completeness auto
termination
proof (relation "measure (\<lambda>(f, ok, n, e). nat (sint (m_PinCount e) - sint (m_Position e)))", goal_cases)
  case 1
  then show ?case by simp
next
  case (2 f ok n e e' p)
  then have "sint (m_Position e + 1) = sint (m_Position e) + 1" using sint_plus_one by blast
  then show ?case using 2 by simp
next
  case (3 f ok n e e' p)
  then have "sint (m_Position e + 1) = sint (m_Position e) + 1" using sint_plus_one by blast
  then show ?case using 3 by simp
qed

text \<open>\<open>counted\<close> says whether the caller asks for the number; the pins are those stored in its array.\<close>

definition EnumPins_Next :: "enum_filter \<Rightarrow> (nat \<Rightarrow> bool) \<Rightarrow> u32 \<Rightarrow> bool \<Rightarrow> CEnumPins \<Rightarrow> HRESULT \<times> nat list \<times> CEnumPins" where
  "EnumPins_Next f ok cPins counted e =
     (if \<not> counted \<and> cPins > 1 then (E_INVALIDARG, [], e)
      else
        (let e = (if EnumPins_AreWeOutOfSync f e then EnumPins_Refresh f e else e);
             (b, ps, e) = enum_pins_loop f ok (unat cPins) e
         in if b then (if length ps = unat cPins then NOERROR else S_FALSE, ps, e) else (VFW_E_ENUM_OUT_OF_SYNC, ps, e)))"

text \<open>\<open>PinsLeft\<close> is an \<open>ULONG\<close>.\<close>

definition EnumPins_Skip :: "enum_filter \<Rightarrow> u32 \<Rightarrow> CEnumPins \<Rightarrow> HRESULT \<times> CEnumPins" where
  "EnumPins_Skip f cPins e =
     (if EnumPins_AreWeOutOfSync f e then (VFW_E_ENUM_OUT_OF_SYNC, e)
      else (let PinsLeft = m_PinCount e - m_Position e
            in if cPins > PinsLeft then (S_FALSE, e) else (NOERROR, e\<lparr>m_Position := m_Position e + cPins\<rparr>)))"

text \<open>\<open>FindPin\<close>, with the names of the pins; the pin is returned with a reference.\<close>

function find_pin_loop :: "enum_filter \<Rightarrow> (nat \<Rightarrow> string) \<Rightarrow> string \<Rightarrow> i32 \<Rightarrow> HRESULT \<times> nat option" where
  "find_pin_loop f name ident i =
     (if sint i < sint (GetPinCount f) then
        (case GetPin f i of
           None \<Rightarrow> (VFW_E_NOT_FOUND, None)
         | Some p \<Rightarrow> if name p = ident then (S_OK, Some p) else find_pin_loop f name ident (i + 1))
      else (VFW_E_NOT_FOUND, None))"
  by pat_completeness auto
termination
proof (relation "measure (\<lambda>(f, name, ident, i). nat (sint (GetPinCount f) - sint i))", goal_cases)
  case 1
  then show ?case by simp
next
  case (2 f name ident i p)
  then have "sint (i + 1) = sint i + 1" using sint_plus_one by blast
  then show ?case using 2 by simp
qed

definition FindPin :: "enum_filter \<Rightarrow> (nat \<Rightarrow> string) \<Rightarrow> string \<Rightarrow> HRESULT \<times> nat option" where
  "FindPin f name ident = find_pin_loop f name ident 0"

section \<open>Media types of a pin\<close>

record 't enum_pin =
  GetMediaTypeVersion :: i32
  GetMediaType :: "i32 \<Rightarrow> HRESULT \<times> 't"

record CEnumMediaTypes =
  mt_Position :: i32
  mt_Version :: i32
  mt_cRef :: i32

definition new_CEnumMediaTypes :: "'t enum_pin \<Rightarrow> CEnumMediaTypes" where
  "new_CEnumMediaTypes p = \<lparr>mt_Position = 0, mt_Version = GetMediaTypeVersion p, mt_cRef = 1\<rparr>"

definition copy_CEnumMediaTypes :: "CEnumMediaTypes \<Rightarrow> CEnumMediaTypes" where
  "copy_CEnumMediaTypes e = \<lparr>mt_Position = mt_Position e, mt_Version = mt_Version e, mt_cRef = 1\<rparr>"

definition EnumMediaTypes :: "bool \<Rightarrow> 't enum_pin \<Rightarrow> HRESULT \<times> CEnumMediaTypes option" where
  "EnumMediaTypes ok p = (if ok then (NOERROR, Some (new_CEnumMediaTypes p)) else (E_OUTOFMEMORY, None))"

definition EnumTypes_AreWeOutOfSync :: "'t enum_pin \<Rightarrow> CEnumMediaTypes \<Rightarrow> bool" where
  "EnumTypes_AreWeOutOfSync p e \<longleftrightarrow> \<not> GetMediaTypeVersion p = mt_Version e"

definition EnumTypes_AddRef :: "CEnumMediaTypes \<Rightarrow> i32 \<times> CEnumMediaTypes" where
  "EnumTypes_AddRef e = (mt_cRef e + 1, e\<lparr>mt_cRef := mt_cRef e + 1\<rparr>)"

definition EnumTypes_Release :: "nat \<Rightarrow> CEnumMediaTypes \<Rightarrow> i32 \<times> nat \<times> CEnumMediaTypes option" where
  "EnumTypes_Release n e = (let c = mt_cRef e - 1 in if c = 0 then (c, n - 1, None) else (c, n, Some (e\<lparr>mt_cRef := c\<rparr>)))"

definition EnumTypes_Clone :: "bool \<Rightarrow> 't enum_pin \<Rightarrow> CEnumMediaTypes \<Rightarrow> HRESULT \<times> CEnumMediaTypes option" where
  "EnumTypes_Clone mem p e =
     (if EnumTypes_AreWeOutOfSync p e then (VFW_E_ENUM_OUT_OF_SYNC, None)
      else if mem then (NOERROR, Some (copy_CEnumMediaTypes e)) else (E_OUTOFMEMORY, None))"

text \<open>The loop of \<open>Next\<close> for \<open>cMediaTypes\<close> types; \<open>ok\<close> says at which positions there is memory for the structure.\<close>

primrec enum_types_loop :: "'t enum_pin \<Rightarrow> (i32 \<Rightarrow> bool) \<Rightarrow> nat \<Rightarrow> CEnumMediaTypes \<Rightarrow> 't list \<times> CEnumMediaTypes" where
  "enum_types_loop p ok 0 e = ([], e)"
| "enum_types_loop p ok (Suc n) e =
     (let (hr, t) = GetMediaType p (mt_Position e); e' = e\<lparr>mt_Position := mt_Position e + 1\<rparr>
      in if S_OK \<noteq> hr then ([], e')
         else if \<not> ok (mt_Position e) then ([], e')
         else (let (ts, e'') = enum_types_loop p ok n e' in (t # ts, e'')))"

definition EnumTypes_Next :: "'t enum_pin \<Rightarrow> (i32 \<Rightarrow> bool) \<Rightarrow> u32 \<Rightarrow> bool \<Rightarrow> CEnumMediaTypes \<Rightarrow> HRESULT \<times> 't list \<times> CEnumMediaTypes" where
  "EnumTypes_Next p ok cMediaTypes counted e =
     (if EnumTypes_AreWeOutOfSync p e then (VFW_E_ENUM_OUT_OF_SYNC, [], e)
      else if \<not> counted \<and> cMediaTypes > 1 then (E_INVALIDARG, [], e)
      else (let (ts, e) = enum_types_loop p ok (unat cMediaTypes) e
            in (if unat cMediaTypes - length ts = 0 then NOERROR else S_FALSE, ts, e)))"

definition EnumTypes_Skip :: "'t enum_pin \<Rightarrow> u32 \<Rightarrow> CEnumMediaTypes \<Rightarrow> HRESULT \<times> CEnumMediaTypes" where
  "EnumTypes_Skip p cMediaTypes e =
     (if cMediaTypes = 0 then (S_OK, e)
      else if EnumTypes_AreWeOutOfSync p e then (VFW_E_ENUM_OUT_OF_SYNC, e)
      else (let e = e\<lparr>mt_Position := mt_Position e + cMediaTypes\<rparr>
            in (if S_OK = fst (GetMediaType p (mt_Position e - 1)) then S_OK else S_FALSE, e)))"

definition EnumTypes_Reset :: "'t enum_pin \<Rightarrow> CEnumMediaTypes \<Rightarrow> HRESULT \<times> CEnumMediaTypes" where
  "EnumTypes_Reset p e = (NOERROR, e\<lparr>mt_Position := 0, mt_Version := GetMediaTypeVersion p\<rparr>)"

end
