(* ===== verification/Enumerators_Props.thy ===== *)
theory Enumerators_Props
  imports Enumerators
begin

text \<open>
  Enumerators walk through a list: the interface of an enumerator as a locale, with the client that fetches items one
  by one until there are no more, interpreted on both enumerators. A pin enumerator never returns a pin twice, whatever
  the filter does to its pins.
\<close>

section \<open>The interface of an enumerator\<close>

text \<open>Fetching one by one, at most \<open>k\<close> times.\<close>

fun collect :: "('s \<Rightarrow> HRESULT \<times> 'a list \<times> 's) \<Rightarrow> nat \<Rightarrow> 's \<Rightarrow> 'a list option" where
  "collect fetch 0 s = None"
| "collect fetch (Suc k) s = (case fetch s of (hr, xs, s') \<Rightarrow> if hr = S_OK then map_option ((@) xs) (collect fetch k s') else Some [])"

locale enumerator =
  fixes good :: "'s \<Rightarrow> bool" and rest :: "'s \<Rightarrow> 'a list" and fetch :: "u32 \<Rightarrow> 's \<Rightarrow> HRESULT \<times> 'a list \<times> 's"
  assumes fetch_result: "good s \<Longrightarrow> fst (fetch n s) = (if unat n \<le> length (rest s) then S_OK else S_FALSE)"
    and fetch_items: "good s \<Longrightarrow> fst (snd (fetch n s)) = take (unat n) (rest s)"
    and fetch_rest: "good s \<Longrightarrow> unat n \<le> length (rest s) \<Longrightarrow> good (snd (snd (fetch n s))) \<and> rest (snd (snd (fetch n s))) = drop (unat n) (rest s)"
begin

lemma collect_rest: "good s \<Longrightarrow> length (rest s) < k \<Longrightarrow> collect (fetch 1) k s = Some (rest s)"
proof (induction k arbitrary: s)
  case (Suc k)
  obtain hr xs s' where f: "fetch 1 s = (hr, xs, s')" by (cases "fetch 1 s") auto
  show ?case
  proof (cases "rest s")
    case Nil
    then show ?thesis using Suc.prems fetch_result [of s 1] f by (simp add: hr_defs)
  next
    case (Cons x xs')
    have "hr = S_OK" "xs = [x]" "good s'" "rest s' = xs'"
      using fetch_result [of s 1] fetch_items [of s 1] fetch_rest [of s 1] Suc.prems(1) f Cons by simp_all
    then show ?thesis using Suc.IH [of s'] Suc.prems(2) f Cons by simp
  qed
qed simp

lemma fetch_append:
  assumes "good s" and "unat m + unat n \<le> length (rest s)"
  shows "fst (snd (fetch m s)) @ fst (snd (fetch n (snd (snd (fetch m s))))) = take (unat m + unat n) (rest s)"
  using assms fetch_rest [of s m] by (simp add: fetch_items take_add)

end

section \<open>Pins\<close>

definition pins_between :: "enum_filter \<Rightarrow> int \<Rightarrow> int \<Rightarrow> nat list" where
  "pins_between f i j = map (\<lambda>k. the (GetPin f (word_of_int k))) [i..j - 1]"

text \<open>The filter has all the pins it says it has, each once.\<close>

definition filter_ok :: "enum_filter \<Rightarrow> bool" where
  "filter_ok f \<longleftrightarrow> 0 \<le> sint (GetPinCount f) \<and> (\<forall>k\<in>{0..<sint (GetPinCount f)}. GetPin f (word_of_int k) \<noteq> None) \<and>
     distinct (pins_between f 0 (sint (GetPinCount f)))"

definition pins_rest :: "enum_filter \<times> CEnumPins \<Rightarrow> nat list" where
  "pins_rest = (\<lambda>(f, e). filter (\<lambda>p. p \<notin> set (m_PinCache e)) (pins_between f (sint (m_Position e)) (sint (m_PinCount e))))"

definition pins_good :: "enum_filter \<times> CEnumPins \<Rightarrow> bool" where
  "pins_good = (\<lambda>(f, e). filter_ok f \<and> m_Version e = GetPinVersion f \<and> m_PinCount e = GetPinCount f \<and>
     0 \<le> sint (m_Position e) \<and> sint (m_Position e) \<le> sint (m_PinCount e))"

definition pins_fetch :: "u32 \<Rightarrow> enum_filter \<times> CEnumPins \<Rightarrow> HRESULT \<times> nat list \<times> enum_filter \<times> CEnumPins" where
  "pins_fetch n = (\<lambda>(f, e). case EnumPins_Next f (\<lambda>p. True) n True e of (hr, ps, e') \<Rightarrow> (hr, ps, f, e'))"

lemma pins_between_Cons: "i < j \<Longrightarrow> pins_between f i j = the (GetPin f (word_of_int i)) # pins_between f (i + 1) j"
  by (simp add: pins_between_def upto_rec1)

lemma pins_between_Nil: "j \<le> i \<Longrightarrow> pins_between f i j = []"
  by (simp add: pins_between_def)

lemma pins_between_split: "i \<le> j \<Longrightarrow> j \<le> k \<Longrightarrow> pins_between f i k = pins_between f i j @ pins_between f j k"
  using upto_split1 [of i j "k - 1"] by (cases "j = k") (simp_all add: pins_between_def flip: map_append)

lemma enum_pins_loop_cases:
  "\<not> (0 < n \<and> sint (m_Position e) < sint (m_PinCount e)) \<Longrightarrow> enum_pins_loop f ok n e = (True, [], e)"
  "0 < n \<Longrightarrow> sint (m_Position e) < sint (m_PinCount e) \<Longrightarrow> GetPin f (m_Position e) = None \<Longrightarrow>
     enum_pins_loop f ok n e = (False, [], e\<lparr>m_Position := m_Position e + 1\<rparr>)"
  "0 < n \<Longrightarrow> sint (m_Position e) < sint (m_PinCount e) \<Longrightarrow> GetPin f (m_Position e) = Some p \<Longrightarrow> p \<in> set (m_PinCache e) \<Longrightarrow>
     enum_pins_loop f ok n e = enum_pins_loop f ok n (e\<lparr>m_Position := m_Position e + 1\<rparr>)"
  "0 < n \<Longrightarrow> sint (m_Position e) < sint (m_PinCount e) \<Longrightarrow> GetPin f (m_Position e) = Some p \<Longrightarrow> p \<notin> set (m_PinCache e) \<Longrightarrow> ok p \<Longrightarrow>
     enum_pins_loop f ok n e = (let (b, ps, e') = enum_pins_loop f ok (n - 1) (e\<lparr>m_Position := m_Position e + 1, m_PinCache := m_PinCache e @ [p]\<rparr>)
       in (b, p # ps, e'))"
  by (subst enum_pins_loop.simps, auto simp del: enum_pins_loop.simps)+

declare enum_pins_loop.simps [simp del]

lemma enum_pins_loop_new:
  "enum_pins_loop f ok n e = (b, ps, e') \<Longrightarrow> ok = (\<lambda>p. True) \<Longrightarrow>
   m_PinCache e' = m_PinCache e @ ps \<and> distinct ps \<and> set ps \<inter> set (m_PinCache e) = {} \<and> length ps \<le> n"
proof (induction f ok n e arbitrary: b ps e' rule: enum_pins_loop.induct)
  case (1 f ok n e)
  show ?case
  proof (cases "0 < n \<and> sint (m_PinCount e) > sint (m_Position e)")
    case c: True
    show ?thesis
    proof (cases "GetPin f (m_Position e)")
      case None
      then show ?thesis using 1(3) c by (auto simp: enum_pins_loop_cases)
    next
      case (Some p)
      show ?thesis
      proof (cases "p \<in> set (m_PinCache e)")
        case True
        then show ?thesis using 1(2) [OF c refl Some, of b ps e'] 1(3,4) c Some by (simp add: enum_pins_loop_cases)
      next
        case False
        obtain b1 ps1 e1 where r: "enum_pins_loop f ok (n - 1) (e\<lparr>m_Position := m_Position e + 1, m_PinCache := m_PinCache e @ [p]\<rparr>) = (b1, ps1, e1)"
          by (metis prod_cases3)
        then have "ps = p # ps1" "e' = e1" using 1(3,4) c Some False by (simp_all add: enum_pins_loop_cases)
        then show ?thesis using 1(1) [OF c refl Some False, of b1 ps1 e1] 1(4) r c False by auto
      qed
    qed
  next
    case False
    then show ?thesis using 1(3) by (auto simp: enum_pins_loop_cases)
  qed
qed

lemma enum_pins_loop_rest:
  "enum_pins_loop f ok n e = (b, ps, e') \<Longrightarrow> ok = (\<lambda>p. True) \<Longrightarrow> 0 \<le> sint (m_Position e) \<Longrightarrow> sint (m_Position e) \<le> sint (m_PinCount e) \<Longrightarrow>
   \<forall>k\<in>{0..<sint (m_PinCount e)}. GetPin f (word_of_int k) \<noteq> None \<Longrightarrow>
   distinct (pins_between f (sint (m_Position e)) (sint (m_PinCount e))) \<Longrightarrow>
   b \<and> ps = take n (pins_rest (f, e)) \<and> pins_rest (f, e') = drop n (pins_rest (f, e)) \<and> m_PinCount e' = m_PinCount e \<and>
     m_Version e' = m_Version e \<and> 0 \<le> sint (m_Position e') \<and> sint (m_Position e') \<le> sint (m_PinCount e')"
proof (induction f ok n e arbitrary: b ps e' rule: enum_pins_loop.induct)
  case (1 f ok n e)
  let ?i = "sint (m_Position e)" and ?j = "sint (m_PinCount e)"
  show ?case
  proof (cases "0 < n \<and> ?i < ?j")
    case c: True
    have w: "word_of_int ?i = m_Position e" by simp
    have "GetPin f (m_Position e) \<noteq> None" using bspec [OF 1(7), of ?i] 1(5) c w by simp
    then obtain p where p: "GetPin f (m_Position e) = Some p" by blast
    have l: "pins_between f ?i ?j = p # pins_between f (?i + 1) ?j" using c p w by (simp add: pins_between_Cons)
    have i: "sint (m_Position e + 1) = ?i + 1" using c sint_plus_one by blast
    have d: "distinct (pins_between f (?i + 1) ?j)" "p \<notin> set (pins_between f (?i + 1) ?j)" using 1(8) l by simp_all
    show ?thesis
    proof (cases "p \<in> set (m_PinCache e)")
      case True
      then have "pins_rest (f, e\<lparr>m_Position := m_Position e + 1\<rparr>) = pins_rest (f, e)" using l i by (simp add: pins_rest_def)
      then show ?thesis using 1(2) [OF c refl p, of b ps e'] True 1(3-7) c p d i by (auto simp: enum_pins_loop_cases)
    next
      case False
      let ?e = "e\<lparr>m_Position := m_Position e + 1, m_PinCache := m_PinCache e @ [p]\<rparr>"
      obtain b1 ps1 e1 where r: "enum_pins_loop f ok (n - 1) ?e = (b1, ps1, e1)" by (metis prod_cases3)
      then have e1: "b = b1" "ps = p # ps1" "e' = e1" using 1(3,4) c p False by (simp_all add: enum_pins_loop_cases)
      have "filter (\<lambda>q. q \<noteq> p \<and> q \<notin> set (m_PinCache e)) (pins_between f (?i + 1) ?j) = filter (\<lambda>q. q \<notin> set (m_PinCache e)) (pins_between f (?i + 1) ?j)"
        using d(2) by (intro filter_cong) auto
      then have rest: "pins_rest (f, e) = p # pins_rest (f, ?e)" using l i False by (simp add: pins_rest_def)
      obtain m where n: "n = Suc m" using c by (cases n) auto
      show ?thesis using 1(1) [OF c refl p False, of b1 ps1 e1] r 1(4-7) c d(1) i e1 rest n by auto
    qed
  next
    case False
    then have "b" "ps = []" "e' = e" using 1(3) by (auto simp: enum_pins_loop_cases)
    moreover have "n = 0 \<or> pins_rest (f, e) = []" using False by (auto simp: pins_rest_def pins_between_Nil)
    ultimately show ?thesis using 1(5,6) by auto
  qed
qed

lemma pins_good_Next:
  assumes "pins_good (f, e)" and "EnumPins_Next f (\<lambda>p. True) n True e = (hr, ps, e')"
  shows "hr = (if unat n \<le> length (pins_rest (f, e)) then S_OK else S_FALSE)" and "ps = take (unat n) (pins_rest (f, e))"
    and "pins_good (f, e')" and "pins_rest (f, e') = drop (unat n) (pins_rest (f, e))"
proof -
  have g: "0 \<le> sint (GetPinCount f)" "\<forall>k\<in>{0..<sint (GetPinCount f)}. GetPin f (word_of_int k) \<noteq> None"
    "distinct (pins_between f 0 (sint (GetPinCount f)))" "m_Version e = GetPinVersion f" "m_PinCount e = GetPinCount f"
    "0 \<le> sint (m_Position e)" "sint (m_Position e) \<le> sint (m_PinCount e)" using assms(1) by (auto simp: pins_good_def filter_ok_def)
  obtain b qs e1 where l: "enum_pins_loop f (\<lambda>p. True) (unat n) e = (b, qs, e1)" by (metis prod_cases3)
  have "distinct (pins_between f (sint (m_Position e)) (sint (m_PinCount e)))"
    using g(3,5) pins_between_split [OF g(6,7), of f] by simp
  then have r: "b" "qs = take (unat n) (pins_rest (f, e))" "pins_rest (f, e1) = drop (unat n) (pins_rest (f, e))"
    "m_PinCount e1 = m_PinCount e" "m_Version e1 = m_Version e" "0 \<le> sint (m_Position e1)" "sint (m_Position e1) \<le> sint (m_PinCount e1)"
    using enum_pins_loop_rest [OF l] g by auto
  have "hr = (if length qs = unat n then S_OK else S_FALSE)" "ps = qs" "e' = e1"
    using assms(2) g l r(1) by (auto simp: EnumPins_Next_def EnumPins_AreWeOutOfSync_def)
  then show "hr = (if unat n \<le> length (pins_rest (f, e)) then S_OK else S_FALSE)" "ps = take (unat n) (pins_rest (f, e))"
    "pins_rest (f, e') = drop (unat n) (pins_rest (f, e))" "pins_good (f, e')"
    using r g assms(1) by (auto simp: pins_good_def)
qed

interpretation pins: enumerator pins_good pins_rest pins_fetch
proof (unfold_locales, goal_cases)
  case (1 s n)
  then show ?case by (cases s) (auto simp: pins_fetch_def split: prod.splits dest: pins_good_Next(1))
next
  case (2 s n)
  then show ?case by (cases s) (auto simp: pins_fetch_def split: prod.splits dest: pins_good_Next(2))
next
  case (3 s n)
  then show ?case by (cases s) (auto simp: pins_fetch_def split: prod.splits dest: pins_good_Next(3) pins_good_Next(4))
qed

section \<open>Media types\<close>

text \<open>The pin has the types \<open>ts\<close>: it answers \<open>S_OK\<close> for their positions and something else for the next.\<close>

definition pin_types :: "'t enum_pin \<Rightarrow> 't list \<Rightarrow> bool" where
  "pin_types p ts \<longleftrightarrow> length ts < 2 ^ 31 - 1 \<and> (\<forall>i<length ts. GetMediaType p (of_nat i) = (S_OK, ts ! i)) \<and>
     fst (GetMediaType p (of_nat (length ts))) \<noteq> S_OK"

definition types_rest :: "('t enum_pin \<times> 't list) \<times> CEnumMediaTypes \<Rightarrow> 't list" where
  "types_rest = (\<lambda>((p, ts), e). drop (unat (mt_Position e)) ts)"

definition types_good :: "('t enum_pin \<times> 't list) \<times> CEnumMediaTypes \<Rightarrow> bool" where
  "types_good = (\<lambda>((p, ts), e). pin_types p ts \<and> mt_Version e = GetMediaTypeVersion p \<and> unat (mt_Position e) \<le> length ts)"

definition types_fetch :: "u32 \<Rightarrow> ('t enum_pin \<times> 't list) \<times> CEnumMediaTypes \<Rightarrow> HRESULT \<times> 't list \<times> ('t enum_pin \<times> 't list) \<times> CEnumMediaTypes" where
  "types_fetch n = (\<lambda>((p, ts), e). case EnumTypes_Next p (\<lambda>i. True) n True e of (hr, xs, e') \<Rightarrow> (hr, xs, (p, ts), e'))"

lemma enum_types_loop_rest:
  "enum_types_loop p ok n e = (xs, e') \<Longrightarrow> ok = (\<lambda>i. True) \<Longrightarrow> pin_types p ts \<Longrightarrow> unat (mt_Position e) \<le> length ts \<Longrightarrow>
   xs = take n (drop (unat (mt_Position e)) ts) \<and> mt_Version e' = mt_Version e \<and>
   (n \<le> length ts - unat (mt_Position e) \<longrightarrow> unat (mt_Position e') = unat (mt_Position e) + n)"
proof (induction n arbitrary: e xs)
  case (Suc n)
  let ?k = "unat (mt_Position e)"
  have of_k: "of_nat ?k = mt_Position e" by simp
  show ?case
  proof (cases "?k < length ts")
    case True
    then have t: "GetMediaType p (mt_Position e) = (S_OK, ts ! ?k)" using Suc.prems(3) of_k by (metis pin_types_def)
    have "?k + 1 < 2 ^ 32" using True Suc.prems(3) by (simp add: pin_types_def)
    then have k: "unat (mt_Position e + 1) = ?k + 1" by (simp add: unat_word_ariths)
    obtain ys where ys: "enum_types_loop p ok n (e\<lparr>mt_Position := mt_Position e + 1\<rparr>) = (ys, e')" "xs = ts ! ?k # ys"
      using Suc.prems(1,2) t by (auto split: prod.splits)
    have "drop ?k ts = ts ! ?k # drop (?k + 1) ts" using True by (simp add: Cons_nth_drop_Suc)
    then show ?thesis using Suc.IH [OF ys(1)] Suc.prems(2,3) True k ys(2) by auto
  next
    case False
    then have "?k = length ts" using Suc.prems(4) by simp
    then have "fst (GetMediaType p (mt_Position e)) \<noteq> S_OK" using Suc.prems(3) of_k by (metis pin_types_def)
    then show ?thesis using Suc.prems(1) False by (auto split: prod.splits if_splits)
  qed
qed auto

lemma types_good_Next:
  assumes "types_good ((p, ts), e)" and "EnumTypes_Next p (\<lambda>i. True) n True e = (hr, xs, e')"
  shows "hr = (if unat n \<le> length (types_rest ((p, ts), e)) then S_OK else S_FALSE)" and "xs = take (unat n) (types_rest ((p, ts), e))"
    and "unat n \<le> length (types_rest ((p, ts), e)) \<Longrightarrow> types_good ((p, ts), e') \<and> types_rest ((p, ts), e') = drop (unat n) (types_rest ((p, ts), e))"
proof -
  have g: "pin_types p ts" "mt_Version e = GetMediaTypeVersion p" "unat (mt_Position e) \<le> length ts" using assms(1) by (auto simp: types_good_def)
  obtain ys e1 where l: "enum_types_loop p (\<lambda>i. True) (unat n) e = (ys, e1)" by fastforce
  note r = enum_types_loop_rest [OF l refl g(1,3)]
  have "hr = (if unat n \<le> length ys then S_OK else S_FALSE)" "xs = ys" "e' = e1"
    using assms(2) g l by (auto simp: EnumTypes_Next_def EnumTypes_AreWeOutOfSync_def)
  then show "hr = (if unat n \<le> length (types_rest ((p, ts), e)) then S_OK else S_FALSE)" "xs = take (unat n) (types_rest ((p, ts), e))"
    "unat n \<le> length (types_rest ((p, ts), e)) \<Longrightarrow> types_good ((p, ts), e') \<and> types_rest ((p, ts), e') = drop (unat n) (types_rest ((p, ts), e))"
    using r g by (auto simp: types_rest_def types_good_def ac_simps)
qed

interpretation types: enumerator types_good types_rest types_fetch
proof (unfold_locales, goal_cases)
  case (1 s n)
  then show ?case by (cases s) (auto simp: types_fetch_def split: prod.splits dest: types_good_Next(1))
next
  case (2 s n)
  then show ?case by (cases s) (auto simp: types_fetch_def split: prod.splits dest: types_good_Next(2))
next
  case (3 s n)
  then show ?case by (cases s) (auto simp: types_fetch_def split: prod.splits dest: types_good_Next(3))
qed

section \<open>Properties\<close>


definition two_pins :: enum_filter where
  "two_pins = \<lparr>GetPinVersion = 1, GetPinCount = 2, GetPin = (\<lambda>i. if i = 0 then Some 10 else if i = 1 then Some 11 else None)\<rparr>"

definition one_type :: "nat enum_pin" where
  "one_type = \<lparr>GetMediaTypeVersion = 1, GetMediaType = (\<lambda>i. if i = 0 then (S_OK, 7) else (S_FALSE, 0))\<rparr>"


text \<open>Calls on a pin enumerator, each with the filter as it is then, and the pins returned since the last \<open>Reset\<close>.\<close>

datatype enum_call = Call_Next enum_filter u32 bool | Call_Skip enum_filter u32 | Call_Reset enum_filter

fun call_enum :: "enum_call \<Rightarrow> nat list \<times> CEnumPins \<Rightarrow> nat list \<times> CEnumPins" where
  "call_enum (Call_Next f n b) (ps, e) = (case EnumPins_Next f (\<lambda>p. True) n b e of (hr, qs, e') \<Rightarrow> (ps @ qs, e'))"
| "call_enum (Call_Skip f n) (ps, e) = (ps, snd (EnumPins_Skip f n e))"
| "call_enum (Call_Reset f) (ps, e) = ([], snd (EnumPins_Reset f e))"

lemma EnumPins_Next_new:
  assumes "EnumPins_Next f (\<lambda>p. True) n b e = (hr, qs, e')"
  shows "m_PinCache e' = m_PinCache e @ qs \<and> distinct qs \<and> set qs \<inter> set (m_PinCache e) = {} \<and> length qs \<le> unat n"
proof (cases "\<not> b \<and> n > 1")
  case True
  then show ?thesis using assms by (simp add: EnumPins_Next_def)
next
  case False
  let ?e = "if EnumPins_AreWeOutOfSync f e then EnumPins_Refresh f e else e"
  obtain c ps e1 where l: "enum_pins_loop f (\<lambda>p. True) (unat n) ?e = (c, ps, e1)" by (metis prod_cases3)
  have "qs = ps" "e' = e1" using assms False l by (auto simp: EnumPins_Next_def split: if_splits)
  moreover have "m_PinCache ?e = m_PinCache e" by (simp add: EnumPins_Refresh_def)
  ultimately show ?thesis using enum_pins_loop_new [OF l refl] by simp
qed

text \<open>A pin enumerator returns no pin twice between two calls of \<open>Reset\<close>, and not more than it was asked for, even
  when the filter changes its pins between the calls.\<close>

theorem enum_pins_once:
  assumes "fold call_enum cs ([], new_CEnumPins f) = (ps, e)"
  shows "distinct ps \<and> m_PinCache e = ps \<and> (EnumPins_Next g (\<lambda>p. True) n b e = (hr, qs, e') \<longrightarrow> distinct (ps @ qs) \<and> length qs \<le> unat n)"
proof -
  have "distinct ps' \<and> m_PinCache e' = ps'" if "distinct ps0" "m_PinCache e0 = ps0" "fold call_enum cs (ps0, e0) = (ps', e')" for ps0 e0 ps' e' cs
    using that
  proof (induction cs arbitrary: ps0 e0)
    case (Cons c cs)
    obtain ps1 e1 where c: "call_enum c (ps0, e0) = (ps1, e1)" by fastforce
    have "distinct ps1 \<and> m_PinCache e1 = ps1"
      using Cons.prems(1,2) c EnumPins_Next_new by (cases c) (fastforce simp: EnumPins_Skip_def EnumPins_Reset_def Let_def split: prod.splits if_splits)+
    then show ?case using Cons.IH [of ps1 e1] Cons.prems(3) c by simp
  qed simp
  from this [of "[]" "new_CEnumPins f" cs ps e] have "distinct ps \<and> m_PinCache e = ps" using assms by (simp add: new_CEnumPins_def)
  then show ?thesis using EnumPins_Next_new [of g n b e hr qs e'] by auto
qed

theorem enum_pins_once_witness:
  "\<exists>e e'. fold call_enum [Call_Next two_pins 1 True] ([], new_CEnumPins two_pins) = ([10], e) \<and>
     EnumPins_Next (two_pins\<lparr>GetPinVersion := 2\<rparr>) (\<lambda>p. True) 2 True e = (S_FALSE, [11], e') \<and> distinct ([10] @ [11 :: nat])"
proof -
  have 1: "fold call_enum [Call_Next two_pins 1 True] ([], new_CEnumPins two_pins) =
      ([10], \<lparr>m_Position = 1, m_PinCount = 2, m_Version = 1, m_cRef = 1, m_PinCache = [10]\<rparr>)" by code_simp
  have 2: "EnumPins_Next (two_pins\<lparr>GetPinVersion := 2\<rparr>) (\<lambda>p. True) 2 True \<lparr>m_Position = 1, m_PinCount = 2, m_Version = 1, m_cRef = 1, m_PinCache = [10]\<rparr> =
      (S_FALSE, [11], \<lparr>m_Position = 2, m_PinCount = 2, m_Version = 2, m_cRef = 1, m_PinCache = [10, 11]\<rparr>)" by code_simp
  show ?thesis using 1 2 enum_pins_once [OF 1, of "two_pins\<lparr>GetPinVersion := 2\<rparr>" 2 True S_FALSE "[11]"] by blast
qed

end
