(* ===== verification/Media_Sample.thy ===== *)
theory Media_Sample
  imports AR_Prelude
begin

text \<open>
  Model of \<open>CMediaSample\<close> (\<open>src/baseclasses/amfilter.h\<close>, \<open>amfilter.cpp\<close>), the transport unit between
  filters: a buffer of the owning allocator with times, flags and perhaps a new media type. Here are
  the methods that concern the sample alone; what its last release does to the allocator is in
  \<open>Allocator\<close>. A buffer is an address (0 is NULL), a media type a number, and \<open>ok\<close> says whether
  \<open>CreateMediaType\<close> finds memory. \<open>ASSERT\<close> and \<open>ValidateReadPtr\<close> do nothing, as in a release build.
\<close>

section \<open>Result codes and flags\<close>

definition VFW_E_BUFFER_OVERFLOW :: HRESULT where [hr_defs]: "VFW_E_BUFFER_OVERFLOW = 0x8004020D"
definition VFW_E_SAMPLE_TIME_NOT_SET :: HRESULT where [hr_defs]: "VFW_E_SAMPLE_TIME_NOT_SET = 0x80040249"
definition VFW_E_MEDIA_TIME_NOT_SET :: HRESULT where [hr_defs]: "VFW_E_MEDIA_TIME_NOT_SET = 0x80040251"
definition VFW_S_NO_STOP_TIME :: HRESULT where [hr_defs]: "VFW_S_NO_STOP_TIME = 0x00040270"

definition Sample_SyncPoint :: u32 where "Sample_SyncPoint = 0x01"
definition Sample_Preroll :: u32 where "Sample_Preroll = 0x02"
definition Sample_Discontinuity :: u32 where "Sample_Discontinuity = 0x04"
definition Sample_TypeChanged :: u32 where "Sample_TypeChanged = 0x08"
definition Sample_TimeValid :: u32 where "Sample_TimeValid = 0x10"
definition Sample_MediaTimeValid :: u32 where "Sample_MediaTimeValid = 0x20"
definition Sample_StopValid :: u32 where "Sample_StopValid = 0x100"
definition Sample_ValidFlags :: u32 where "Sample_ValidFlags = 0x1FF"

abbreviation AM_SAMPLE_TIMEVALID :: u32 where "AM_SAMPLE_TIMEVALID \<equiv> Sample_TimeValid"
abbreviation AM_SAMPLE_TYPECHANGED :: u32 where "AM_SAMPLE_TYPECHANGED \<equiv> Sample_TypeChanged"

definition AM_STREAM_MEDIA :: u32 where "AM_STREAM_MEDIA = 0"

section \<open>The sample\<close>

record CMediaSample =
  m_dwFlags :: u32
  m_dwTypeSpecificFlags :: u32
  m_pBuffer :: nat
  m_lActual :: i32
  m_cbBuffer :: i32
  m_pNext :: "nat option"
  m_Start :: REFERENCE_TIME
  m_End :: REFERENCE_TIME
  m_MediaStart :: i64
  m_MediaEnd :: i32
  m_pMediaType :: "nat option"
  m_dwStreamId :: u32
  m_cRef :: i32

text \<open>The constructor on memory that holds \<open>garbage\<close>, with the error it may store.\<close>

definition new_CMediaSample :: "CMediaSample \<Rightarrow> nat \<Rightarrow> i32 \<Rightarrow> HRESULT \<Rightarrow> HRESULT \<times> CMediaSample" where
  "new_CMediaSample garbage pBuffer len phr =
     (let s = garbage\<lparr>m_pBuffer := pBuffer, m_cbBuffer := len, m_lActual := len, m_pMediaType := None, m_dwFlags := 0,
                m_cRef := 0, m_dwTypeSpecificFlags := 0, m_dwStreamId := AM_STREAM_MEDIA\<rparr>
      in if sint len < 0 then (VFW_E_BUFFER_OVERFLOW, s\<lparr>m_cbBuffer := 0\<rparr>) else (phr, s))"

definition CMediaSample_AddRef :: "CMediaSample \<Rightarrow> i32 \<times> CMediaSample" where
  "CMediaSample_AddRef s = (m_cRef s + 1, s\<lparr>m_cRef := m_cRef s + 1\<rparr>)"

definition CMediaSample_SetMediaType :: "bool \<Rightarrow> nat option \<Rightarrow> CMediaSample \<Rightarrow> HRESULT \<times> CMediaSample" where
  "CMediaSample_SetMediaType ok pMediaType s =
     (let s = s\<lparr>m_pMediaType := None\<rparr>
      in case pMediaType of
           None \<Rightarrow> (NOERROR, s\<lparr>m_dwFlags := m_dwFlags s AND NOT Sample_TypeChanged\<rparr>)
         | Some mt \<Rightarrow> (if \<not> ok then (E_OUTOFMEMORY, s\<lparr>m_dwFlags := m_dwFlags s AND NOT Sample_TypeChanged\<rparr>)
                       else (NOERROR, s\<lparr>m_pMediaType := Some mt, m_dwFlags := m_dwFlags s OR Sample_TypeChanged\<rparr>)))"

text \<open>\<open>Release\<close> up to the call of \<open>ReleaseBuffer\<close>, which is made when the count returned is 0.\<close>

definition CMediaSample_Release :: "CMediaSample \<Rightarrow> i32 \<times> CMediaSample" where
  "CMediaSample_Release s =
     (let (lRef, s) = (if m_cRef s = 1 then (0, s\<lparr>m_cRef := 0\<rparr>) else (m_cRef s - 1, s\<lparr>m_cRef := m_cRef s - 1\<rparr>))
      in if lRef = 0 then
           (let s = (if m_dwFlags s AND Sample_TypeChanged \<noteq> 0 then snd (CMediaSample_SetMediaType True None s) else s)
            in (lRef, s\<lparr>m_dwFlags := 0, m_dwTypeSpecificFlags := 0, m_dwStreamId := AM_STREAM_MEDIA\<rparr>))
         else (lRef, s))"

definition CMediaSample_SetPointer :: "nat \<Rightarrow> i32 \<Rightarrow> CMediaSample \<Rightarrow> HRESULT \<times> CMediaSample" where
  "CMediaSample_SetPointer ptr cBytes s =
     (if sint cBytes < 0 then (VFW_E_BUFFER_OVERFLOW, s)
      else (S_OK, s\<lparr>m_pBuffer := ptr, m_cbBuffer := cBytes, m_lActual := cBytes\<rparr>))"

definition CMediaSample_GetPointer :: "CMediaSample \<Rightarrow> nat" where
  "CMediaSample_GetPointer s = m_pBuffer s"

definition CMediaSample_GetSize :: "CMediaSample \<Rightarrow> i32" where
  "CMediaSample_GetSize s = m_cbBuffer s"

text \<open>The result code and what is stored through the two pointers, if anything.\<close>

definition CMediaSample_GetTime :: "CMediaSample \<Rightarrow> HRESULT \<times> (REFERENCE_TIME \<times> REFERENCE_TIME) option" where
  "CMediaSample_GetTime s =
     (if m_dwFlags s AND Sample_StopValid = 0 then
        (if m_dwFlags s AND Sample_TimeValid = 0 then (VFW_E_SAMPLE_TIME_NOT_SET, None)
         else (VFW_S_NO_STOP_TIME, Some (m_Start s, m_Start s + 1)))
      else (NOERROR, Some (m_Start s, m_End s)))"

definition CMediaSample_SetTime :: "REFERENCE_TIME option \<Rightarrow> REFERENCE_TIME option \<Rightarrow> CMediaSample \<Rightarrow> HRESULT \<times> CMediaSample" where
  "CMediaSample_SetTime pTimeStart pTimeEnd s = (NOERROR,
     (case pTimeStart of
        None \<Rightarrow> s\<lparr>m_dwFlags := m_dwFlags s AND NOT (Sample_TimeValid OR Sample_StopValid)\<rparr>
      | Some t \<Rightarrow> (case pTimeEnd of
            None \<Rightarrow> s\<lparr>m_Start := t, m_dwFlags := (m_dwFlags s OR Sample_TimeValid) AND NOT Sample_StopValid\<rparr>
          | Some e \<Rightarrow> s\<lparr>m_Start := t, m_End := e, m_dwFlags := m_dwFlags s OR (Sample_TimeValid OR Sample_StopValid)\<rparr>)))"

definition CMediaSample_GetMediaTime :: "CMediaSample \<Rightarrow> HRESULT \<times> (i64 \<times> i64) option" where
  "CMediaSample_GetMediaTime s =
     (if m_dwFlags s AND Sample_MediaTimeValid = 0 then (VFW_E_MEDIA_TIME_NOT_SET, None)
      else (NOERROR, Some (m_MediaStart s, m_MediaStart s + scast (m_MediaEnd s))))"

definition CMediaSample_SetMediaTime :: "i64 option \<Rightarrow> i64 option \<Rightarrow> CMediaSample \<Rightarrow> HRESULT \<times> CMediaSample" where
  "CMediaSample_SetMediaTime pTimeStart pTimeEnd s =
     (case pTimeStart of
        None \<Rightarrow> (NOERROR, s\<lparr>m_dwFlags := m_dwFlags s AND NOT Sample_MediaTimeValid\<rparr>)
      | Some t \<Rightarrow> (case pTimeEnd of
            None \<Rightarrow> (E_POINTER, s)
          | Some e \<Rightarrow> (NOERROR, s\<lparr>m_MediaStart := t, m_MediaEnd := ucast (e - t),
                                   m_dwFlags := m_dwFlags s OR Sample_MediaTimeValid\<rparr>)))"

definition CMediaSample_IsSyncPoint :: "CMediaSample \<Rightarrow> HRESULT" where
  "CMediaSample_IsSyncPoint s = (if m_dwFlags s AND Sample_SyncPoint \<noteq> 0 then S_OK else S_FALSE)"

definition CMediaSample_SetSyncPoint :: "bool \<Rightarrow> CMediaSample \<Rightarrow> HRESULT \<times> CMediaSample" where
  "CMediaSample_SetSyncPoint b s = (NOERROR,
     s\<lparr>m_dwFlags := (if b then m_dwFlags s OR Sample_SyncPoint else m_dwFlags s AND NOT Sample_SyncPoint)\<rparr>)"

definition CMediaSample_IsDiscontinuity :: "CMediaSample \<Rightarrow> HRESULT" where
  "CMediaSample_IsDiscontinuity s = (if m_dwFlags s AND Sample_Discontinuity \<noteq> 0 then S_OK else S_FALSE)"

definition CMediaSample_SetDiscontinuity :: "bool \<Rightarrow> CMediaSample \<Rightarrow> HRESULT \<times> CMediaSample" where
  "CMediaSample_SetDiscontinuity b s = (S_OK,
     s\<lparr>m_dwFlags := (if b then m_dwFlags s OR Sample_Discontinuity else m_dwFlags s AND NOT Sample_Discontinuity)\<rparr>)"

definition CMediaSample_IsPreroll :: "CMediaSample \<Rightarrow> HRESULT" where
  "CMediaSample_IsPreroll s = (if m_dwFlags s AND Sample_Preroll \<noteq> 0 then S_OK else S_FALSE)"

definition CMediaSample_SetPreroll :: "bool \<Rightarrow> CMediaSample \<Rightarrow> HRESULT \<times> CMediaSample" where
  "CMediaSample_SetPreroll b s = (NOERROR,
     s\<lparr>m_dwFlags := (if b then m_dwFlags s OR Sample_Preroll else m_dwFlags s AND NOT Sample_Preroll)\<rparr>)"

definition CMediaSample_GetActualDataLength :: "CMediaSample \<Rightarrow> i32" where
  "CMediaSample_GetActualDataLength s = m_lActual s"

definition CMediaSample_SetActualDataLength :: "i32 \<Rightarrow> CMediaSample \<Rightarrow> HRESULT \<times> CMediaSample" where
  "CMediaSample_SetActualDataLength lActual s =
     (if sint lActual > sint (m_cbBuffer s) \<or> sint lActual < 0 then (VFW_E_BUFFER_OVERFLOW, s)
      else (NOERROR, s\<lparr>m_lActual := lActual\<rparr>))"

definition CMediaSample_GetMediaType :: "bool \<Rightarrow> CMediaSample \<Rightarrow> HRESULT \<times> nat option" where
  "CMediaSample_GetMediaType ok s =
     (if m_dwFlags s AND Sample_TypeChanged = 0 then (S_FALSE, None)
      else case (if ok then m_pMediaType s else None) of None \<Rightarrow> (E_OUTOFMEMORY, None) | Some mt \<Rightarrow> (NOERROR, Some mt))"

section \<open>Properties as one structure\<close>

text \<open>\<open>AM_SAMPLE2_PROPERTIES\<close> and, for each field, the offset of its end in the 64 bit build.\<close>

record SAMPLE2_PROPERTIES =
  cbData :: u32
  dwTypeSpecificFlags :: u32
  dwSampleFlags :: u32
  lActual :: i32
  tStart :: REFERENCE_TIME
  tStop :: REFERENCE_TIME
  dwStreamId :: u32
  pMediaType :: "nat option"
  pbBuffer :: nat
  cbBuffer :: i32

datatype field = F_cbData | F_dwTypeSpecificFlags | F_dwSampleFlags | F_lActual | F_tStart | F_tStop
  | F_dwStreamId | F_pMediaType | F_pbBuffer | F_cbBuffer

fun field_end :: "field \<Rightarrow> u32" where
  "field_end F_cbData = 4"
| "field_end F_dwTypeSpecificFlags = 8"
| "field_end F_dwSampleFlags = 12"
| "field_end F_lActual = 16"
| "field_end F_tStart = 24"
| "field_end F_tStop = 32"
| "field_end F_dwStreamId = 36"
| "field_end F_pMediaType = 48"
| "field_end F_pbBuffer = 56"
| "field_end F_cbBuffer = 60"

definition sizeof_props :: u32 where
  "sizeof_props = 64"

definition CONTAINS_FIELD :: "field \<Rightarrow> u32 \<Rightarrow> bool" where
  "CONTAINS_FIELD f offset \<longleftrightarrow> field_end f \<le> offset"

text \<open>The structure, of which the first \<open>cbData\<close> bytes are stored through \<open>pbProperties\<close> unless
  \<open>cbProperties\<close> is 0.\<close>

definition CMediaSample_GetProperties :: "u32 \<Rightarrow> bool \<Rightarrow> CMediaSample \<Rightarrow> HRESULT \<times> SAMPLE2_PROPERTIES option" where
  "CMediaSample_GetProperties cbProperties pbProperties s =
     (if 0 \<noteq> cbProperties then
        (if \<not> pbProperties then (E_POINTER, None)
         else (S_OK, Some \<lparr>cbData = min cbProperties sizeof_props, dwTypeSpecificFlags = m_dwTypeSpecificFlags s,
                           dwSampleFlags = m_dwFlags s AND NOT Sample_MediaTimeValid,
                           lActual = m_lActual s, tStart = m_Start s, tStop = m_End s, dwStreamId = m_dwStreamId s,
                           pMediaType = (if m_dwFlags s AND AM_SAMPLE_TYPECHANGED \<noteq> 0 then m_pMediaType s else None),
                           pbBuffer = m_pBuffer s, cbBuffer = m_cbBuffer s\<rparr>))
      else (S_OK, None))"

text \<open>The checks of \<open>SetProperties\<close>, with \<open>cbProperties\<close> already cut to \<open>cbData\<close>: the error, or \<open>None\<close>.\<close>

definition check_properties :: "u32 \<Rightarrow> SAMPLE2_PROPERTIES \<Rightarrow> bool \<Rightarrow> CMediaSample \<Rightarrow> HRESULT option" where
  "check_properties cb p ok s =
     (if cb > sizeof_props \<or> cbData p > sizeof_props then Some E_INVALIDARG
      else if CONTAINS_FIELD F_dwSampleFlags cb \<and> dwSampleFlags p AND (NOT Sample_ValidFlags OR Sample_MediaTimeValid) \<noteq> 0
      then Some E_INVALIDARG
      else if CONTAINS_FIELD F_dwSampleFlags cb \<and> dwSampleFlags p AND AM_SAMPLE_TIMEVALID \<noteq> 0 \<and>
        m_dwFlags s AND AM_SAMPLE_TIMEVALID = 0 \<and> \<not> CONTAINS_FIELD F_tStop cb then Some E_INVALIDARG
      else if CONTAINS_FIELD F_pbBuffer cb \<and> pbBuffer p \<noteq> 0 \<and> pbBuffer p \<noteq> m_pBuffer s then Some E_INVALIDARG
      else if CONTAINS_FIELD F_cbBuffer cb \<and> cbBuffer p \<noteq> 0 \<and> cbBuffer p \<noteq> m_cbBuffer s then Some E_INVALIDARG
      else if CONTAINS_FIELD F_cbBuffer cb \<and> CONTAINS_FIELD F_lActual cb \<and> sint (cbBuffer p) < sint (lActual p)
      then Some E_INVALIDARG
      else if CONTAINS_FIELD F_pMediaType cb \<and> dwSampleFlags p AND AM_SAMPLE_TYPECHANGED \<noteq> 0 then
        (if pMediaType p = None then Some E_POINTER else if \<not> ok then Some E_OUTOFMEMORY else None)
      else None)"

definition assign_properties :: "u32 \<Rightarrow> SAMPLE2_PROPERTIES \<Rightarrow> CMediaSample \<Rightarrow> CMediaSample" where
  "assign_properties cb p s =
     (let s = (if CONTAINS_FIELD F_dwStreamId cb then s\<lparr>m_dwStreamId := dwStreamId p\<rparr> else s);
          s = (if CONTAINS_FIELD F_dwSampleFlags cb
               then s\<lparr>m_dwFlags := dwSampleFlags p OR (m_dwFlags s AND Sample_MediaTimeValid),
                      m_dwTypeSpecificFlags := dwTypeSpecificFlags p\<rparr>
               else if CONTAINS_FIELD F_dwTypeSpecificFlags cb
               then s\<lparr>m_dwTypeSpecificFlags := dwTypeSpecificFlags p\<rparr> else s);
          s = (if CONTAINS_FIELD F_lActual cb then s\<lparr>m_lActual := lActual p\<rparr> else s);
          s = (if CONTAINS_FIELD F_tStop cb then s\<lparr>m_End := tStop p\<rparr> else s);
          s = (if CONTAINS_FIELD F_tStart cb then s\<lparr>m_Start := tStart p\<rparr> else s);
          s = (if CONTAINS_FIELD F_pMediaType cb \<and> dwSampleFlags p AND AM_SAMPLE_TYPECHANGED \<noteq> 0
               then s\<lparr>m_pMediaType := pMediaType p\<rparr> else s)
      in if m_pMediaType s \<noteq> None then s\<lparr>m_dwFlags := m_dwFlags s OR Sample_TypeChanged\<rparr>
         else s\<lparr>m_dwFlags := m_dwFlags s AND NOT Sample_TypeChanged\<rparr>)"

definition CMediaSample_SetProperties :: "u32 \<Rightarrow> SAMPLE2_PROPERTIES option \<Rightarrow> bool \<Rightarrow> CMediaSample \<Rightarrow> HRESULT \<times> CMediaSample" where
  "CMediaSample_SetProperties cbProperties pbProperties ok s =
     (if CONTAINS_FIELD F_cbData cbProperties then
        (case pbProperties of
           None \<Rightarrow> (E_POINTER, s)
         | Some p \<Rightarrow>
             (let cb = (if cbData p < cbProperties then cbData p else cbProperties)
              in case check_properties cb p ok s of
                   Some hr \<Rightarrow> (hr, s)
                 | None \<Rightarrow> (S_OK, assign_properties cb p s)))
      else (S_OK, s))"

end
