(* ===== verification/Allocator.thy ===== *)
theory Allocator
  imports Media_Sample "HOL-Library.Monad_Syntax"
begin

text \<open>
  Model of \<open>CBaseAllocator\<close> and \<open>CMemAllocator\<close> (\<open>src/baseclasses/amfilter.h\<close>, \<open>amfilter.cpp\<close>): a pool of media
  samples of one size, those not in use chained into a free list through \<open>m_pNext\<close>, with a semaphore
  for threads that wait for a free sample and a decommit that is put off until the last sample comes
  back.

  Samples live in an explicit memory: \<open>samples\<close> are those that exist, \<open>fresh_samples\<close> what \<open>new\<close> can hand
  out. An operation is \<open>None\<close> when it dereferences NULL or a sample that does not exist. The methods hold
  the allocator's lock and are one step; \<open>GetBuffer\<close> is split where it leaves the lock to wait. The answer of
  \<open>VirtualAlloc\<close>, the allocation granularity and whether \<open>CreateMediaType\<close> succeeds are arguments.
\<close>

definition VFW_E_NOT_COMMITTED :: HRESULT where [hr_defs]: "VFW_E_NOT_COMMITTED = 0x80040211"
definition VFW_E_BUFFERS_OUTSTANDING :: HRESULT where [hr_defs]: "VFW_E_BUFFERS_OUTSTANDING = 0x80040210"
definition VFW_E_ALREADY_COMMITTED :: HRESULT where [hr_defs]: "VFW_E_ALREADY_COMMITTED = 0x8004020F"
definition VFW_E_BADALIGN :: HRESULT where [hr_defs]: "VFW_E_BADALIGN = 0x8004020E"
definition VFW_E_SIZENOTSET :: HRESULT where [hr_defs]: "VFW_E_SIZENOTSET = 0x80040212"
definition VFW_E_TIMEOUT :: HRESULT where [hr_defs]: "VFW_E_TIMEOUT = 0x8004022E"

record ALLOCATOR_PROPERTIES =
  cBuffers :: i32
  cbBuffer_req :: i32
  cbAlign :: i32
  cbPrefix :: i32

text \<open>\<open>m_pBlock\<close> is \<open>CMemAllocator::m_pBuffer\<close>, the memory of all buffers. The last three are outside the
  object: the count of its semaphore, the references it holds on itself and the calls of
  \<open>NotifyRelease\<close>.\<close>

record CMemAllocator =
  samples :: "nat \<Rightarrow> CMediaSample option"
  fresh_samples :: "(nat \<times> CMediaSample) list"
  m_List :: "nat option"
  m_nOnList :: i32
  m_lWaiting :: i32
  m_lCount :: i32
  m_lAllocated :: i32
  m_lSize :: i32
  m_lAlignment :: i32
  m_lPrefix :: i32
  m_bChanged :: bool
  m_bCommitted :: bool
  m_bDecommitInProgress :: bool
  m_pNotify :: "nat option"
  m_pBlock :: "nat option"
  m_hSem :: nat
  self_refs :: int
  callbacks :: "nat list"

definition new_CMemAllocator :: "(nat \<times> CMediaSample) list \<Rightarrow> CMemAllocator" where
  "new_CMemAllocator memory = \<lparr>samples = (\<lambda>_. None), fresh_samples = memory, m_List = None, m_nOnList = 0,
     m_lWaiting = 0, m_lCount = 0, m_lAllocated = 0, m_lSize = 0, m_lAlignment = 0, m_lPrefix = 0,
     m_bChanged = False, m_bCommitted = False, m_bDecommitInProgress = False, m_pNotify = None, m_pBlock = None,
     m_hSem = 0, self_refs = 0, callbacks = []\<rparr>"

section \<open>The free list\<close>

definition set_sample :: "nat \<Rightarrow> CMediaSample \<Rightarrow> CMemAllocator \<Rightarrow> CMemAllocator" where
  "set_sample p s a = a\<lparr>samples := (samples a)(p \<mapsto> s)\<rparr>"

definition CSampleList_GetCount :: "CMemAllocator \<Rightarrow> i32" where
  "CSampleList_GetCount a = m_nOnList a"

definition CSampleList_Add :: "nat \<Rightarrow> CMemAllocator \<Rightarrow> CMemAllocator option" where
  "CSampleList_Add p a = do {
     s \<leftarrow> samples a p;
     Some ((set_sample p (s\<lparr>m_pNext := m_List a\<rparr>) a)\<lparr>m_List := Some p, m_nOnList := m_nOnList a + 1\<rparr>) }"

definition CSampleList_RemoveHead :: "CMemAllocator \<Rightarrow> (nat option \<times> CMemAllocator) option" where
  "CSampleList_RemoveHead a =
     (case m_List a of
        None \<Rightarrow> Some (None, a)
      | Some p \<Rightarrow> do { s \<leftarrow> samples a p; Some (Some p, a\<lparr>m_List := m_pNext s, m_nOnList := m_nOnList a - 1\<rparr>) })"

text \<open>\<open>Remove\<close> walks along the links; \<open>prev\<close> is the sample whose link \<open>pSearch\<close> points to, \<open>None\<close> for
  \<open>m_List\<close>. A sample that is not found stops a debug build only.\<close>

partial_function (option) remove_sample_loop :: "nat \<Rightarrow> nat option \<Rightarrow> nat option \<Rightarrow> CMemAllocator \<Rightarrow> CMemAllocator option" where
  "remove_sample_loop p prev cur a =
     (case cur of
        None \<Rightarrow> Some a
      | Some q \<Rightarrow> do {
          s \<leftarrow> samples a q;
          if q = p then do {
            a \<leftarrow> (case prev of
                     None \<Rightarrow> Some (a\<lparr>m_List := m_pNext s\<rparr>)
                   | Some r \<Rightarrow> do { t \<leftarrow> samples a r; Some (set_sample r (t\<lparr>m_pNext := m_pNext s\<rparr>) a) });
            Some ((set_sample p (s\<lparr>m_pNext := None\<rparr>) a)\<lparr>m_nOnList := m_nOnList a - 1\<rparr>) }
          else remove_sample_loop p (Some q) (m_pNext s) a })"

definition CSampleList_Remove :: "nat \<Rightarrow> CMemAllocator \<Rightarrow> CMemAllocator option" where
  "CSampleList_Remove p a = remove_sample_loop p None (m_List a) a"

section \<open>Waiting\<close>

text \<open>\<open>ReleaseSemaphore\<close> fails, and changes nothing, for a count that is not positive or exceeds the maximum
  the semaphore was created with.\<close>

definition ReleaseSemaphore_hSem :: "i32 \<Rightarrow> CMemAllocator \<Rightarrow> CMemAllocator" where
  "ReleaseSemaphore_hSem n a =
     (if 0 < sint n \<and> int (m_hSem a) + sint n \<le> 0x7FFFFFFF then a\<lparr>m_hSem := m_hSem a + nat (sint n)\<rparr> else a)"

definition NotifySample :: "CMemAllocator \<Rightarrow> CMemAllocator" where
  "NotifySample a = (if m_lWaiting a \<noteq> 0 then (ReleaseSemaphore_hSem (m_lWaiting a) a)\<lparr>m_lWaiting := 0\<rparr> else a)"

definition SetWaiting :: "CMemAllocator \<Rightarrow> CMemAllocator" where
  "SetWaiting a = a\<lparr>m_lWaiting := m_lWaiting a + 1\<rparr>"

text \<open>One round of the loop of \<open>GetBuffer\<close>: it returns an error or a sample, or the thread waits on the
  semaphore. \<open>nowait\<close> is the flag \<open>AM_GBF_NOWAIT\<close>.\<close>

datatype get_result = GB_Fails HRESULT | GB_Gets nat | GB_Waits

definition GetBuffer_round :: "bool \<Rightarrow> CMemAllocator \<Rightarrow> (get_result \<times> CMemAllocator) option" where
  "GetBuffer_round nowait a =
     (if \<not> m_bCommitted a then Some (GB_Fails VFW_E_NOT_COMMITTED, a)
      else do {
        (pSample, a) \<leftarrow> CSampleList_RemoveHead a;
        (case pSample of
           Some p \<Rightarrow> do { s \<leftarrow> samples a p; Some (GB_Gets p, set_sample p (s\<lparr>m_cRef := 1\<rparr>) a) }
         | None \<Rightarrow> Some (if nowait then GB_Fails VFW_E_TIMEOUT else GB_Waits, SetWaiting a)) })"

section \<open>Allocating and freeing\<close>

definition CBaseAllocator_Alloc :: "CMemAllocator \<Rightarrow> HRESULT" where
  "CBaseAllocator_Alloc a =
     (if sint (m_lCount a) \<le> 0 \<or> sint (m_lSize a) \<le> 0 \<or> sint (m_lAlignment a) \<le> 0 then VFW_E_SIZENOTSET
      else if \<not> m_bChanged a then S_FALSE else NOERROR)"

definition CMemAllocator_Free :: "CMemAllocator \<Rightarrow> CMemAllocator" where
  "CMemAllocator_Free a = a"

definition delete_sample :: "nat \<Rightarrow> CMemAllocator \<Rightarrow> CMemAllocator option" where
  "delete_sample p a = do { s \<leftarrow> samples a p;
     Some (a\<lparr>samples := (samples a)(p := None), fresh_samples := (p, s) # fresh_samples a\<rparr>) }"

partial_function (option) free_loop :: "CMemAllocator \<Rightarrow> CMemAllocator option" where
  "free_loop a = do {
     (pSample, a) \<leftarrow> CSampleList_RemoveHead a;
     (case pSample of None \<Rightarrow> Some a | Some p \<Rightarrow> do { a \<leftarrow> delete_sample p a; free_loop a }) }"

definition ReallyFree :: "CMemAllocator \<Rightarrow> CMemAllocator option" where
  "ReallyFree a = do { a \<leftarrow> free_loop a; Some (a\<lparr>m_lAllocated := 0, m_pBlock := None\<rparr>) }"

definition MAXLONG :: int where "MAXLONG = 0x7FFFFFFF"

text \<open>The signed remainder of C++, whose sign is that of the dividend.\<close>

definition trem :: "i32 \<Rightarrow> i32 \<Rightarrow> i32" where
  "trem x y = word_of_int (sint x - tdiv (sint x) (sint y) * sint y)"

text \<open>The size of a sample with its prefix rounded up to the alignment, or \<open>None\<close> when it overflows.\<close>

definition aligned_size :: "CMemAllocator \<Rightarrow> i32 option" where
  "aligned_size a =
     (let lAlignedSize = m_lSize a + m_lPrefix a
      in if sint lAlignedSize < sint (m_lSize a) then None
         else if sint (m_lAlignment a) > 1 \<and> trem lAlignedSize (m_lAlignment a) \<noteq> 0 then
           (let lNewSize = lAlignedSize + m_lAlignment a - trem lAlignedSize (m_lAlignment a)
            in if sint lNewSize < sint lAlignedSize then None else Some lNewSize)
         else Some lAlignedSize)"

partial_function (option) alloc_loop :: "i32 \<Rightarrow> nat \<Rightarrow> CMemAllocator \<Rightarrow> (HRESULT \<times> CMemAllocator) option" where
  "alloc_loop lAlignedSize pNext a =
     (if sint (m_lAllocated a) < sint (m_lCount a) then
        (case fresh_samples a of
           [] \<Rightarrow> Some (E_OUTOFMEMORY, a)
         | (p, garbage) # rest \<Rightarrow> do {
             a \<leftarrow> Some (a\<lparr>fresh_samples := rest,
                  samples := (samples a)(p \<mapsto> snd (new_CMediaSample garbage (pNext + nat (sint (m_lPrefix a))) (m_lSize a) S_OK))\<rparr>);
             a \<leftarrow> CSampleList_Add p a;
             alloc_loop lAlignedSize (pNext + nat (sint lAlignedSize)) (a\<lparr>m_lAllocated := m_lAllocated a + 1\<rparr>) })
      else Some (NOERROR, a\<lparr>m_bChanged := False\<rparr>))"

definition CMemAllocator_Alloc :: "(int \<Rightarrow> nat option) \<Rightarrow> CMemAllocator \<Rightarrow> (HRESULT \<times> CMemAllocator) option" where
  "CMemAllocator_Alloc VirtualAlloc a =
     (let hr = CBaseAllocator_Alloc a
      in if FAILED hr then Some (hr, a)
         else if hr = S_FALSE then Some (NOERROR, a)
         else do {
           a \<leftarrow> (if m_pBlock a \<noteq> None then ReallyFree a else Some a);
           if sint (m_lSize a) < 0 \<or> sint (m_lPrefix a) < 0 \<or> sint (m_lCount a) < 0 then Some (E_OUTOFMEMORY, a)
           else (case aligned_size a of
               None \<Rightarrow> Some (E_OUTOFMEMORY, a)
             | Some lAlignedSize \<Rightarrow>
                 (let lToAllocate = sint (m_lCount a) * sint lAlignedSize
                  in if lToAllocate > MAXLONG then Some (E_OUTOFMEMORY, a)
                     else (case VirtualAlloc lToAllocate of
                         None \<Rightarrow> Some (E_OUTOFMEMORY, a\<lparr>m_pBlock := None\<rparr>)
                       | Some pNext \<Rightarrow> alloc_loop lAlignedSize pNext (a\<lparr>m_pBlock := Some pNext\<rparr>)))) })"

section \<open>Interface\<close>

definition CBaseAllocator_SetProperties :: "ALLOCATOR_PROPERTIES \<Rightarrow> CMemAllocator \<Rightarrow> HRESULT \<times> CMemAllocator" where
  "CBaseAllocator_SetProperties pRequest a =
     (if cbAlign pRequest \<noteq> 1 then (VFW_E_BADALIGN, a)
      else if m_bCommitted a then (VFW_E_ALREADY_COMMITTED, a)
      else if m_lAllocated a \<noteq> CSampleList_GetCount a then (VFW_E_BUFFERS_OUTSTANDING, a)
      else (NOERROR, a\<lparr>m_lSize := cbBuffer_req pRequest, m_lCount := cBuffers pRequest, m_lAlignment := cbAlign pRequest,
              m_lPrefix := cbPrefix pRequest, m_bChanged := True\<rparr>))"

definition GetProperties :: "CMemAllocator \<Rightarrow> ALLOCATOR_PROPERTIES" where
  "GetProperties a = \<lparr>cBuffers = m_lCount a, cbBuffer_req = m_lSize a, cbAlign = m_lAlignment a, cbPrefix = m_lPrefix a\<rparr>"

definition CMemAllocator_SetProperties :: "u32 \<Rightarrow> ALLOCATOR_PROPERTIES \<Rightarrow> CMemAllocator \<Rightarrow> HRESULT \<times> CMemAllocator" where
  "CMemAllocator_SetProperties granularity pRequest a =
     (if cbAlign pRequest = 0 \<or> granularity AND (cbAlign pRequest - 1) \<noteq> 0 then (VFW_E_BADALIGN, a)
      else if m_bCommitted a then (VFW_E_ALREADY_COMMITTED, a)
      else if sint (CSampleList_GetCount a) < sint (m_lAllocated a) then (VFW_E_BUFFERS_OUTSTANDING, a)
      else (let lSize = cbBuffer_req pRequest + cbPrefix pRequest;
                lRemainder = trem lSize (cbAlign pRequest);
                lSize = (if lRemainder \<noteq> 0 then lSize - lRemainder + cbAlign pRequest else lSize)
            in (NOERROR, a\<lparr>m_lSize := lSize - cbPrefix pRequest, m_lCount := cBuffers pRequest,
                 m_lAlignment := cbAlign pRequest, m_lPrefix := cbPrefix pRequest, m_bChanged := True\<rparr>)))"

definition SetNotify :: "nat option \<Rightarrow> CMemAllocator \<Rightarrow> CMemAllocator" where
  "SetNotify pNotify a = a\<lparr>m_pNotify := pNotify\<rparr>"

definition GetFreeCount :: "CMemAllocator \<Rightarrow> i32" where
  "GetFreeCount a = m_lCount a - m_lAllocated a + CSampleList_GetCount a"

definition CBaseAllocator_Commit :: "(int \<Rightarrow> nat option) \<Rightarrow> CMemAllocator \<Rightarrow> (HRESULT \<times> CMemAllocator) option" where
  "CBaseAllocator_Commit VirtualAlloc a =
     (if m_bCommitted a then Some (NOERROR, a)
      else if m_bDecommitInProgress a then Some (NOERROR, a\<lparr>m_bCommitted := True, m_bDecommitInProgress := False\<rparr>)
      else do {
        (hr, a) \<leftarrow> CMemAllocator_Alloc VirtualAlloc (a\<lparr>m_bCommitted := True\<rparr>);
        if FAILED hr then Some (hr, a\<lparr>m_bCommitted := False\<rparr>)
        else Some (NOERROR, a\<lparr>self_refs := self_refs a + 1\<rparr>) })"

definition CBaseAllocator_Decommit :: "CMemAllocator \<Rightarrow> CMemAllocator" where
  "CBaseAllocator_Decommit a =
     (if \<not> m_bCommitted a \<and> \<not> m_bDecommitInProgress a then a
      else (let a = a\<lparr>m_bCommitted := False\<rparr>;
                (bRelease, a) =
                  (if sint (CSampleList_GetCount a) < sint (m_lAllocated a) then (False, a\<lparr>m_bDecommitInProgress := True\<rparr>)
                   else (True, CMemAllocator_Free (a\<lparr>m_bDecommitInProgress := False\<rparr>)));
                a = NotifySample a
            in if bRelease then a\<lparr>self_refs := self_refs a - 1\<rparr> else a))"

definition ReleaseBuffer :: "nat \<Rightarrow> CMemAllocator \<Rightarrow> CMemAllocator option" where
  "ReleaseBuffer p a = do {
     a \<leftarrow> CSampleList_Add p a;
     a \<leftarrow> Some (if m_lWaiting a \<noteq> 0 then NotifySample a else a);
     (bRelease, a) \<leftarrow> Some (if m_bDecommitInProgress a \<and> CSampleList_GetCount a = m_lAllocated a
        then (True, (CMemAllocator_Free a)\<lparr>m_bDecommitInProgress := False\<rparr>) else (False, a));
     a \<leftarrow> Some (case m_pNotify a of None \<Rightarrow> a | Some n \<Rightarrow> a\<lparr>callbacks := callbacks a @ [n]\<rparr>);
     Some (if bRelease then a\<lparr>self_refs := self_refs a - 1\<rparr> else a) }"

definition sample_Release :: "nat \<Rightarrow> CMemAllocator \<Rightarrow> (i32 \<times> CMemAllocator) option" where
  "sample_Release p a = do {
     s \<leftarrow> samples a p;
     (lRef, s) \<leftarrow> Some (CMediaSample_Release s);
     a \<leftarrow> Some (set_sample p s a);
     a \<leftarrow> (if lRef = 0 then ReleaseBuffer p a else Some a);
     Some (lRef, a) }"

definition CMemAllocator_destructor :: "CMemAllocator \<Rightarrow> CMemAllocator option" where
  "CMemAllocator_destructor a = ReallyFree (CBaseAllocator_Decommit a)"

end
