(* ===== verification/Pin_Connect.thy ===== *)
theory Pin_Connect
  imports Media_Type Enumerators Allocator
begin

text \<open>
  Model of how two pins agree on a media type and an allocator and connect: \<open>CBasePin\<close>, \<open>CBaseOutputPin\<close> and the
  connection part of \<open>CBaseInputPin\<close> (\<open>src/baseclasses/amfilter.cpp\<close>, \<open>amfilter.h\<close>). Pins and allocators are numbers in
  a state with their reference counts; the pins of direction output are those of \<open>CBaseOutputPin\<close> and the others those of
  \<open>CBaseInputPin\<close>. What derived classes decide, and whether memory is found, is an environment. A media type is its
  value, which \<open>Media_Type_Props\<close> shows that copies keep and comparisons compare.

  An operation is \<open>None\<close> when it calls a method of a null pointer, releases an object without
  references, or does not end.
\<close>

definition VFW_E_NOT_CONNECTED :: HRESULT where [hr_defs]: "VFW_E_NOT_CONNECTED = 0x80040209"
definition VFW_E_NO_ACCEPTABLE_TYPES :: HRESULT where [hr_defs]: "VFW_E_NO_ACCEPTABLE_TYPES = 0x80040207"
definition VFW_E_NO_ALLOCATOR :: HRESULT where [hr_defs]: "VFW_E_NO_ALLOCATOR = 0x8004020A"

section \<open>Types as values\<close>

text \<open>Major type, sub type, format type and format block.\<close>

datatype mtype = MType GUID GUID GUID "u8 list"

fun partially_specified :: "mtype \<Rightarrow> bool" where
  "partially_specified (MType major sub fmt bs) \<longleftrightarrow> major = GUID_NULL \<or> fmt = GUID_NULL"

fun without_format :: "mtype \<Rightarrow> mtype" where
  "without_format (MType major sub fmt bs) = MType major sub fmt []"

fun matches_partial :: "mtype \<Rightarrow> mtype \<Rightarrow> bool" where
  "matches_partial (MType major sub fmt bs) (MType pmajor psub pfmt pbs) \<longleftrightarrow>
     (pmajor \<noteq> GUID_NULL \<longrightarrow> major = pmajor) \<and> (psub \<noteq> GUID_NULL \<longrightarrow> sub = psub) \<and> (pfmt \<noteq> GUID_NULL \<longrightarrow> fmt = pfmt \<and> bs = pbs)"

section \<open>State\<close>

datatype PIN_DIRECTION = PINDIR_INPUT | PINDIR_OUTPUT

text \<open>\<open>m_pAllocator\<close> is the member of \<open>CBaseInputPin\<close> or of \<open>CBaseOutputPin\<close>; \<open>filter_stopped\<close> is what \<open>IsStopped\<close> reads.\<close>

record CBasePin =
  m_Connected :: "nat option"
  m_dir :: PIN_DIRECTION
  m_bRunTimeError :: bool
  m_bCanReconnectWhenActive :: bool
  m_bTryMyTypesFirst :: bool
  m_pQSink :: "nat option"
  m_TypeVersion :: i32
  m_mt :: mtype
  m_tStart :: REFERENCE_TIME
  m_tStop :: REFERENCE_TIME
  m_dRate :: u64
  m_pAllocator :: "nat option"
  m_pInputPin :: "nat option"
  m_bReadOnly :: bool
  filter_stopped :: bool

record pin_sys =
  pins :: "nat \<Rightarrow> CBasePin"
  pin_refs :: "nat \<Rightarrow> nat"
  alloc_refs :: "nat \<Rightarrow> nat"
  next_alloc :: nat

text \<open>The virtual functions of the derived pins, and the world outside: whether there is memory for a copy of a type
  and for an enumerator, how the creation of the next allocator ends, what an allocator answers to \<open>Decommit\<close>.
  \<open>after_complete\<close> is the answer of a derived \<open>CompleteConnect\<close> once the one of the base class has succeeded.\<close>

record pin_env =
  CheckMediaType :: "nat \<Rightarrow> mtype \<Rightarrow> HRESULT"
  PinGetMediaType :: "nat \<Rightarrow> i32 \<Rightarrow> HRESULT \<times> mtype"
  DecideBufferSize :: "nat \<Rightarrow> nat \<Rightarrow> ALLOCATOR_PROPERTIES \<Rightarrow> HRESULT \<times> ALLOCATOR_PROPERTIES"
  GetAllocatorRequirements :: "nat \<Rightarrow> ALLOCATOR_PROPERTIES"
  after_complete :: "nat \<Rightarrow> HRESULT"
  type_memory :: "nat \<Rightarrow> mtype \<Rightarrow> bool"
  enum_memory :: "nat \<Rightarrow> bool"
  struct_memory :: "nat \<Rightarrow> i32 \<Rightarrow> bool"
  create_allocator :: "nat \<Rightarrow> HRESULT"
  decommit :: "nat \<Rightarrow> HRESULT"

definition null_type :: mtype where
  "null_type = MType GUID_NULL GUID_NULL GUID_NULL []"

definition MAX_TIME_pin :: REFERENCE_TIME where
  "MAX_TIME_pin = 0x7FFFFFFFFFFFFFFF"

definition new_CBasePin :: "PIN_DIRECTION \<Rightarrow> CBasePin" where
  "new_CBasePin dir = \<lparr>m_Connected = None, m_dir = dir, m_bRunTimeError = False, m_bCanReconnectWhenActive = False,
     m_bTryMyTypesFirst = False, m_pQSink = None, m_TypeVersion = 1, m_mt = null_type, m_tStart = 0, m_tStop = MAX_TIME_pin,
     m_dRate = 0x3FF0000000000000, m_pAllocator = None, m_pInputPin = None, m_bReadOnly = False, filter_stopped = True\<rparr>"

definition upd_pin :: "nat \<Rightarrow> (CBasePin \<Rightarrow> CBasePin) \<Rightarrow> pin_sys \<Rightarrow> pin_sys" where
  "upd_pin p f s = s\<lparr>pins := (pins s)(p := f (pins s p))\<rparr>"

definition Pin_AddRef :: "nat \<Rightarrow> pin_sys \<Rightarrow> pin_sys" where
  "Pin_AddRef p s = s\<lparr>pin_refs := (pin_refs s)(p := pin_refs s p + 1)\<rparr>"

definition Pin_Release :: "nat \<Rightarrow> pin_sys \<Rightarrow> pin_sys option" where
  "Pin_Release p s = (if pin_refs s p = 0 then None else Some (s\<lparr>pin_refs := (pin_refs s)(p := pin_refs s p - 1)\<rparr>))"

definition Alloc_AddRef :: "nat \<Rightarrow> pin_sys \<Rightarrow> pin_sys" where
  "Alloc_AddRef a s = s\<lparr>alloc_refs := (alloc_refs s)(a := alloc_refs s a + 1)\<rparr>"

definition Alloc_Release :: "nat \<Rightarrow> pin_sys \<Rightarrow> pin_sys option" where
  "Alloc_Release a s = (if alloc_refs s a = 0 then None else Some (s\<lparr>alloc_refs := (alloc_refs s)(a := alloc_refs s a - 1)\<rparr>))"

text \<open>The new allocator has one reference, that of the caller.\<close>

definition CreateMemoryAllocator :: "pin_env \<Rightarrow> pin_sys \<Rightarrow> HRESULT \<times> nat option \<times> pin_sys" where
  "CreateMemoryAllocator e s =
     (let hr = create_allocator e (next_alloc s); a = next_alloc s
      in if SUCCEEDED hr then (hr, Some a, s\<lparr>next_alloc := a + 1, alloc_refs := (alloc_refs s)(a := 1)\<rparr>)
         else (hr, None, s\<lparr>next_alloc := a + 1\<rparr>))"

section \<open>The allocator of a connection\<close>

definition InputPin_GetAllocator :: "pin_env \<Rightarrow> nat \<Rightarrow> pin_sys \<Rightarrow> HRESULT \<times> nat option \<times> pin_sys" where
  "InputPin_GetAllocator e q s =
     (case m_pAllocator (pins s q) of
        Some a \<Rightarrow> (NOERROR, Some a, Alloc_AddRef a s)
      | None \<Rightarrow> (case CreateMemoryAllocator e s of
            (hr, None, s) \<Rightarrow> (hr, None, s)
          | (hr, Some a, s) \<Rightarrow> (NOERROR, Some a, Alloc_AddRef a (upd_pin q (\<lambda>x. x\<lparr>m_pAllocator := Some a\<rparr>) s))))"

definition InputPin_NotifyAllocator :: "nat \<Rightarrow> nat \<Rightarrow> bool \<Rightarrow> pin_sys \<Rightarrow> (HRESULT \<times> pin_sys) option" where
  "InputPin_NotifyAllocator q a bReadOnly s =
     (let old = m_pAllocator (pins s q); s = upd_pin q (\<lambda>x. x\<lparr>m_pAllocator := Some a\<rparr>) (Alloc_AddRef a s)
      in do {
        s \<leftarrow> (case old of None \<Rightarrow> Some s | Some b \<Rightarrow> Alloc_Release b s);
        Some (NOERROR, upd_pin q (\<lambda>x. x\<lparr>m_bReadOnly := bReadOnly\<rparr>) s) })"

text \<open>One attempt of \<open>DecideAllocator\<close> with the allocator \<open>a\<close>: the result of \<open>DecideBufferSize\<close> and \<open>NotifyAllocator\<close>, the
  properties, and the state.\<close>

definition try_allocator :: "pin_env \<Rightarrow> nat \<Rightarrow> nat \<Rightarrow> nat \<Rightarrow> ALLOCATOR_PROPERTIES \<Rightarrow> pin_sys \<Rightarrow> (HRESULT \<times> ALLOCATOR_PROPERTIES \<times> pin_sys) option" where
  "try_allocator e p q a prop s =
     (let (hr, prop) = DecideBufferSize e p a prop
      in if SUCCEEDED hr then do { (hr, s) \<leftarrow> InputPin_NotifyAllocator q a False s; Some (hr, prop, s) } else Some (hr, prop, s))"

definition release_allocator :: "nat \<Rightarrow> pin_sys \<Rightarrow> pin_sys option" where
  "release_allocator p s = (case m_pAllocator (pins s p) of
     None \<Rightarrow> Some s
   | Some a \<Rightarrow> do { s \<leftarrow> Alloc_Release a s; Some (upd_pin p (\<lambda>x. x\<lparr>m_pAllocator := None\<rparr>) s) })"

text \<open>The requirements of the input pin, with an alignment of one for those that have none.\<close>

definition initial_props :: "pin_env \<Rightarrow> nat \<Rightarrow> ALLOCATOR_PROPERTIES" where
  "initial_props e q = (let prop = GetAllocatorRequirements e q in if cbAlign prop = 0 then prop\<lparr>cbAlign := 1\<rparr> else prop)"

text \<open>What \<open>DecideAllocator\<close> does with the answer of \<open>GetAllocator\<close> or \<open>InitAllocator\<close>; \<open>ppAlloc\<close> is the address of \<open>m_pAllocator\<close>.\<close>

definition decide_round :: "pin_env \<Rightarrow> nat \<Rightarrow> nat \<Rightarrow> ALLOCATOR_PROPERTIES \<Rightarrow> HRESULT \<times> nat option \<times> pin_sys \<Rightarrow>
    (HRESULT \<times> ALLOCATOR_PROPERTIES \<times> pin_sys) option" where
  "decide_round e p q prop r = (case r of
     (hr, None, s) \<Rightarrow> Some (hr, prop, s)
   | (hr, Some a, s) \<Rightarrow> try_allocator e p q a prop (upd_pin p (\<lambda>x. x\<lparr>m_pAllocator := Some a\<rparr>) s))"

definition DecideAllocator :: "pin_env \<Rightarrow> nat \<Rightarrow> pin_sys \<Rightarrow> (HRESULT \<times> pin_sys) option" where
  "DecideAllocator e p s = do {
     q \<leftarrow> m_pInputPin (pins s p);
     s \<leftarrow> Some (upd_pin p (\<lambda>x. x\<lparr>m_pAllocator := None\<rparr>) s);
     (hr, prop, s) \<leftarrow> decide_round e p q (initial_props e q) (InputPin_GetAllocator e q s);
     if SUCCEEDED hr then Some (NOERROR, s)
     else do {
       s \<leftarrow> release_allocator p s;
       (hr, prop, s) \<leftarrow> decide_round e p q prop (CreateMemoryAllocator e s);
       if SUCCEEDED hr then Some (NOERROR, s)
       else do { s \<leftarrow> release_allocator p s; Some (hr, s) } } }"

section \<open>The virtual functions of the base classes\<close>

definition CheckConnect :: "nat \<Rightarrow> nat \<Rightarrow> pin_sys \<Rightarrow> HRESULT \<times> pin_sys" where
  "CheckConnect p q s =
     (if m_dir (pins s q) = m_dir (pins s p) then (VFW_E_INVALID_DIRECTION, s)
      else case m_dir (pins s p) of
        PINDIR_INPUT \<Rightarrow> (NOERROR, s)
      | PINDIR_OUTPUT \<Rightarrow> (NOERROR, upd_pin p (\<lambda>x. x\<lparr>m_pInputPin := Some q\<rparr>) (Pin_AddRef q s)))"

text \<open>\<open>BreakConnect\<close> of both classes; an input pin has no \<open>m_pInputPin\<close>.\<close>

definition BreakConnect :: "pin_env \<Rightarrow> nat \<Rightarrow> pin_sys \<Rightarrow> (HRESULT \<times> pin_sys) option" where
  "BreakConnect e p s =
     (let rest = (\<lambda>s. case m_dir (pins s p) of
              PINDIR_INPUT \<Rightarrow> Some (S_OK, s)
            | PINDIR_OUTPUT \<Rightarrow> (case m_pInputPin (pins s p) of
                None \<Rightarrow> Some (NOERROR, s)
              | Some q \<Rightarrow> do { s \<leftarrow> Pin_Release q s; Some (NOERROR, upd_pin p (\<lambda>x. x\<lparr>m_pInputPin := None\<rparr>) s) }))
      in case m_pAllocator (pins s p) of
           None \<Rightarrow> rest s
         | Some a \<Rightarrow> if FAILED (decommit e a) then Some (decommit e a, s)
                    else do { s \<leftarrow> Alloc_Release a s; rest (upd_pin p (\<lambda>x. x\<lparr>m_pAllocator := None\<rparr>) s) })"

definition CompleteConnect :: "pin_env \<Rightarrow> nat \<Rightarrow> pin_sys \<Rightarrow> (HRESULT \<times> pin_sys) option" where
  "CompleteConnect e p s =
     (case m_dir (pins s p) of
        PINDIR_INPUT \<Rightarrow> Some (after_complete e p, s)
      | PINDIR_OUTPUT \<Rightarrow> do { (hr, s) \<leftarrow> DecideAllocator e p s; Some (if SUCCEEDED hr then after_complete e p else hr, s) })"

text \<open>Without memory \<open>CMediaType::Set\<close> leaves the type without a format.\<close>

definition Pin_SetMediaType :: "pin_env \<Rightarrow> nat \<Rightarrow> mtype \<Rightarrow> pin_sys \<Rightarrow> HRESULT \<times> pin_sys" where
  "Pin_SetMediaType e p mt s =
     (if type_memory e p mt then (NOERROR, upd_pin p (\<lambda>x. x\<lparr>m_mt := mt\<rparr>) s)
      else (E_OUTOFMEMORY, upd_pin p (\<lambda>x. x\<lparr>m_mt := without_format mt\<rparr>) s))"

section \<open>Connecting\<close>

definition release_connected :: "nat \<Rightarrow> pin_sys \<Rightarrow> pin_sys option" where
  "release_connected p s = (case m_Connected (pins s p) of
     None \<Rightarrow> Some s
   | Some q \<Rightarrow> do { s \<leftarrow> Pin_Release q s; Some (upd_pin p (\<lambda>x. x\<lparr>m_Connected := None\<rparr>) s) })"

definition type_error :: "HRESULT \<Rightarrow> HRESULT" where
  "type_error hr = (if SUCCEEDED hr \<or> hr = E_FAIL \<or> hr = E_INVALIDARG then VFW_E_TYPE_NOT_ACCEPTED else hr)"

definition Pin_ReceiveConnection :: "pin_env \<Rightarrow> nat \<Rightarrow> nat \<Rightarrow> mtype \<Rightarrow> pin_sys \<Rightarrow> (HRESULT \<times> pin_sys) option" where
  "Pin_ReceiveConnection e q p mt s =
     (if m_Connected (pins s q) \<noteq> None then Some (VFW_E_ALREADY_CONNECTED, s)
      else if \<not> filter_stopped (pins s q) \<and> \<not> m_bCanReconnectWhenActive (pins s q) then Some (VFW_E_NOT_STOPPED, s)
      else (let (hr, s) = CheckConnect q p s
        in if FAILED hr then do { (_, s) \<leftarrow> BreakConnect e q s; Some (hr, s) }
           else (let hr = CheckMediaType e q mt
             in if hr \<noteq> NOERROR then do { (_, s) \<leftarrow> BreakConnect e q s; Some (type_error hr, s) }
                else (let s = upd_pin q (\<lambda>x. x\<lparr>m_Connected := Some p\<rparr>) (Pin_AddRef p s);
                          (hr, s) = Pin_SetMediaType e q mt s
                  in do {
                    (hr, s) \<leftarrow> (if SUCCEEDED hr then CompleteConnect e q s else Some (hr, s));
                    if SUCCEEDED hr then Some (NOERROR, s)
                    else do {
                      s \<leftarrow> release_connected q s;
                      (_, s) \<leftarrow> BreakConnect e q s;
                      Some (hr, s) } }))))"

definition DisconnectInternal :: "pin_env \<Rightarrow> nat \<Rightarrow> pin_sys \<Rightarrow> (HRESULT \<times> pin_sys) option" where
  "DisconnectInternal e p s =
     (if m_Connected (pins s p) \<noteq> None then do {
        (hr, s) \<leftarrow> BreakConnect e p s;
        if FAILED hr then Some (hr, s) else do { s \<leftarrow> release_connected p s; Some (S_OK, s) } }
      else Some (S_FALSE, s))"

definition Pin_Disconnect :: "pin_env \<Rightarrow> nat \<Rightarrow> pin_sys \<Rightarrow> (HRESULT \<times> pin_sys) option" where
  "Pin_Disconnect e p s = (if \<not> filter_stopped (pins s p) then Some (VFW_E_NOT_STOPPED, s) else DisconnectInternal e p s)"

definition AttemptConnection :: "pin_env \<Rightarrow> nat \<Rightarrow> nat \<Rightarrow> mtype \<Rightarrow> pin_sys \<Rightarrow> (HRESULT \<times> pin_sys) option" where
  "AttemptConnection e p q mt s =
     (let (hr, s) = CheckConnect p q s;
          undo = (\<lambda>hr s. do { (_, s) \<leftarrow> BreakConnect e p s; s \<leftarrow> release_connected p s; Some (hr, s) })
      in if FAILED hr then do { (_, s) \<leftarrow> BreakConnect e p s; Some (hr, s) }
         else if CheckMediaType e p mt = NOERROR then
           (let s = upd_pin p (\<lambda>x. x\<lparr>m_Connected := Some q\<rparr>) (Pin_AddRef q s);
                (hr, s) = Pin_SetMediaType e p mt s
            in if SUCCEEDED hr then do {
                 (hr, s) \<leftarrow> Pin_ReceiveConnection e q p mt s;
                 if SUCCEEDED hr then do {
                   (hr, s) \<leftarrow> CompleteConnect e p s;
                   if SUCCEEDED hr then Some (hr, s)
                   else do { (_, s) \<leftarrow> Pin_Disconnect e q s; undo hr s } }
                 else undo hr s }
               else undo hr s)
         else undo (type_error (CheckMediaType e p mt)) s)"

definition specific_error :: "HRESULT \<Rightarrow> bool" where
  "specific_error hr \<longleftrightarrow> hr \<noteq> E_FAIL \<and> hr \<noteq> E_INVALIDARG \<and> hr \<noteq> VFW_E_TYPE_NOT_ACCEPTED"

definition pin_view :: "pin_env \<Rightarrow> nat \<Rightarrow> pin_sys \<Rightarrow> mtype enum_pin" where
  "pin_view e p s = \<lparr>GetMediaTypeVersion = m_TypeVersion (pins s p), GetMediaType = PinGetMediaType e p\<rparr>"

text \<open>The loop of \<open>TryMediaTypes\<close> over the types of the pin \<open>o\<close>.\<close>

partial_function (option) try_types_loop :: "pin_env \<Rightarrow> nat \<Rightarrow> nat \<Rightarrow> mtype option \<Rightarrow> nat \<Rightarrow> HRESULT \<Rightarrow> CEnumMediaTypes \<Rightarrow> pin_sys \<Rightarrow>
    (HRESULT \<times> pin_sys) option" where
  "try_types_loop e p q pmt w hrFailure en s =
     (case EnumTypes_Next (pin_view e w s) (struct_memory e w) 1 True en of (hr, ts, en) \<Rightarrow>
        if hr \<noteq> S_OK then Some (if S_OK = hrFailure then VFW_E_NO_ACCEPTABLE_TYPES else hrFailure, s)
        else if ts \<noteq> [] \<and> (case pmt of None \<Rightarrow> True | Some partial \<Rightarrow> matches_partial (hd ts) partial) then do {
          (hr, s) \<leftarrow> AttemptConnection e p q (hd ts) s;
          let hrFailure = (if FAILED hr \<and> SUCCEEDED hrFailure \<and> specific_error hr then hr else hrFailure);
          if S_OK = hr then Some (hr, s) else try_types_loop e p q pmt w hrFailure en s }
        else try_types_loop e p q pmt w hrFailure en s)"

definition TryMediaTypes :: "pin_env \<Rightarrow> nat \<Rightarrow> nat \<Rightarrow> mtype option \<Rightarrow> nat \<Rightarrow> CEnumMediaTypes \<Rightarrow> pin_sys \<Rightarrow> (HRESULT \<times> pin_sys) option" where
  "TryMediaTypes e p q pmt w en s =
     (let (hr, en) = EnumTypes_Reset (pin_view e w s) en
      in if FAILED hr then Some (hr, s) else try_types_loop e p q pmt w S_OK en s)"

text \<open>One round of the loop of \<open>AgreeMediaType\<close>, with the enumerator of the pin \<open>w\<close>, which holds a reference on it.\<close>

definition agree_round :: "pin_env \<Rightarrow> nat \<Rightarrow> nat \<Rightarrow> mtype option \<Rightarrow> nat \<Rightarrow> HRESULT \<Rightarrow> pin_sys \<Rightarrow> (bool \<times> HRESULT \<times> pin_sys) option" where
  "agree_round e p q pmt w hrFailure s =
     (case EnumMediaTypes (enum_memory e w) (pin_view e w s) of
        (hr, Some en) \<Rightarrow> do {
          (hr, s) \<leftarrow> TryMediaTypes e p q pmt w en (Pin_AddRef w s);
          s \<leftarrow> Pin_Release w s;
          Some (if SUCCEEDED hr then (True, NOERROR, s) else (False, if specific_error hr then hr else hrFailure, s)) }
      | (hr, None) \<Rightarrow> Some (False, hrFailure, s))"

definition AgreeMediaType :: "pin_env \<Rightarrow> nat \<Rightarrow> nat \<Rightarrow> mtype option \<Rightarrow> pin_sys \<Rightarrow> (HRESULT \<times> pin_sys) option" where
  "AgreeMediaType e p q pmt s =
     (if pmt \<noteq> None \<and> \<not> partially_specified (the pmt) then AttemptConnection e p q (the pmt) s
      else do {
        (done, hr, s) \<leftarrow> agree_round e p q pmt (if m_bTryMyTypesFirst (pins s p) then p else q) VFW_E_NO_ACCEPTABLE_TYPES s;
        if done then Some (NOERROR, s)
        else do {
          (done, hr, s) \<leftarrow> agree_round e p q pmt (if m_bTryMyTypesFirst (pins s p) then q else p) hr s;
          Some (if done then NOERROR else hr, s) } })"

definition Pin_Connect :: "pin_env \<Rightarrow> nat \<Rightarrow> nat \<Rightarrow> mtype option \<Rightarrow> pin_sys \<Rightarrow> (HRESULT \<times> pin_sys) option" where
  "Pin_Connect e p q pmt s =
     (if m_Connected (pins s p) \<noteq> None then Some (VFW_E_ALREADY_CONNECTED, s)
      else if \<not> filter_stopped (pins s p) \<and> \<not> m_bCanReconnectWhenActive (pins s p) then Some (VFW_E_NOT_STOPPED, s)
      else do {
        (hr, s) \<leftarrow> AgreeMediaType e p q pmt s;
        if FAILED hr then do { (_, s) \<leftarrow> BreakConnect e p s; Some (hr, s) } else Some (NOERROR, s) })"

section \<open>Queries and segments\<close>

definition ConnectedTo :: "nat \<Rightarrow> pin_sys \<Rightarrow> HRESULT \<times> nat option \<times> pin_sys" where
  "ConnectedTo p s = (case m_Connected (pins s p) of
     Some q \<Rightarrow> (S_OK, Some q, Pin_AddRef q s)
   | None \<Rightarrow> (VFW_E_NOT_CONNECTED, None, s))"

text \<open>\<open>ok\<close> is whether there is memory for the copy, whose failure is not reported.\<close>

definition ConnectionMediaType :: "bool \<Rightarrow> nat \<Rightarrow> pin_sys \<Rightarrow> HRESULT \<times> mtype" where
  "ConnectionMediaType ok p s =
     (if m_Connected (pins s p) \<noteq> None
      then (S_OK, if ok then m_mt (pins s p) else without_format (m_mt (pins s p)))
      else (VFW_E_NOT_CONNECTED, null_type))"

definition QueryDirection :: "nat \<Rightarrow> pin_sys \<Rightarrow> HRESULT \<times> PIN_DIRECTION" where
  "QueryDirection p s = (NOERROR, m_dir (pins s p))"

definition QueryAccept :: "pin_env \<Rightarrow> nat \<Rightarrow> mtype \<Rightarrow> HRESULT" where
  "QueryAccept e p mt = (let hr = CheckMediaType e p mt in if FAILED hr then S_FALSE else hr)"

definition IncrementTypeVersion :: "nat \<Rightarrow> pin_sys \<Rightarrow> pin_sys" where
  "IncrementTypeVersion p s = upd_pin p (\<lambda>x. x\<lparr>m_TypeVersion := m_TypeVersion x + 1\<rparr>) s"

definition SetSink :: "nat option \<Rightarrow> nat \<Rightarrow> pin_sys \<Rightarrow> HRESULT \<times> pin_sys" where
  "SetSink piqc p s = (NOERROR, upd_pin p (\<lambda>x. x\<lparr>m_pQSink := piqc\<rparr>) s)"

definition Pin_NewSegment :: "REFERENCE_TIME \<Rightarrow> REFERENCE_TIME \<Rightarrow> u64 \<Rightarrow> nat \<Rightarrow> pin_sys \<Rightarrow> HRESULT \<times> pin_sys" where
  "Pin_NewSegment start stop rate p s = (S_OK, upd_pin p (\<lambda>x. x\<lparr>m_tStart := start, m_tStop := stop, m_dRate := rate\<rparr>) s)"

section \<open>Delivery\<close>

text \<open>The methods that pass a call on: they refuse it, or call the pin or the allocator given, whose answer they return.\<close>

datatype forwarded = Refused HRESULT | Forwarded nat

definition GetDeliveryBuffer :: "nat \<Rightarrow> pin_sys \<Rightarrow> forwarded" where
  "GetDeliveryBuffer p s = (case m_pAllocator (pins s p) of Some a \<Rightarrow> Forwarded a | None \<Rightarrow> Refused E_NOINTERFACE)"

definition Deliver :: "nat \<Rightarrow> pin_sys \<Rightarrow> forwarded" where
  "Deliver p s = (case m_pInputPin (pins s p) of None \<Rightarrow> Refused VFW_E_NOT_CONNECTED | Some q \<Rightarrow> Forwarded q)"

text \<open>\<open>DeliverEndOfStream\<close>, \<open>DeliverBeginFlush\<close>, \<open>DeliverEndFlush\<close> and \<open>DeliverNewSegment\<close>.\<close>

definition DeliverControl :: "nat \<Rightarrow> pin_sys \<Rightarrow> forwarded" where
  "DeliverControl p s = (case m_Connected (pins s p) of None \<Rightarrow> Refused VFW_E_NOT_CONNECTED | Some q \<Rightarrow> Forwarded q)"

text \<open>\<open>Active\<close> commits the allocator, \<open>Inactive\<close> decommits it.\<close>

definition OutputPin_Active :: "nat \<Rightarrow> pin_sys \<Rightarrow> forwarded" where
  "OutputPin_Active p s = (case m_pAllocator (pins s p) of None \<Rightarrow> Refused VFW_E_NO_ALLOCATOR | Some a \<Rightarrow> Forwarded a)"

definition OutputPin_Inactive :: "nat \<Rightarrow> pin_sys \<Rightarrow> forwarded \<times> pin_sys" where
  "OutputPin_Inactive p s = (let s = upd_pin p (\<lambda>x. x\<lparr>m_bRunTimeError := False\<rparr>) s in
     (case m_pAllocator (pins s p) of None \<Rightarrow> Refused VFW_E_NO_ALLOCATOR | Some a \<Rightarrow> Forwarded a, s))"

end
