(* ===== verification/Pin_Connect_Props.thy ===== *)
theory Pin_Connect_Props
  imports Pin_Connect Media_Type_Props Enumerators_Props
begin

text \<open>
  Correctness of the connection of two pins (\<open>Pin_Connect\<close>): an output and an input pin end connected to each other with the
  same type and allocator, or both unconnected with every reference as before; the type is the first acceptable
  one; disconnecting gives every reference back. Each operation has a lemma with its possible ends
  (\<open>DecideAllocator_cases\<close>, \<open>ReceiveConnection_cases\<close>, \<open>AttemptConnection_cases\<close>); the loops over the types compose them
  as \<open>outcome\<close>, a predicate on the list of types tried. The last theorem shows what happens
  when the assumptions on derived classes do not hold.
\<close>

section \<open>Types as values\<close>

definition as_mtype :: "task_memory \<Rightarrow> AM_MEDIA_TYPE \<Rightarrow> mtype" where
  "as_mtype m mt = MType (majortype mt) (subtype mt) (formattype mt) (format m mt)"

lemma partial_as_values:
  assumes "format_ok m mt" and "format_ok m partial"
  shows "IsPartiallySpecified mt \<longleftrightarrow> partially_specified (as_mtype m mt)"
    and "MatchesPartial mt partial m = Some (matches_partial (as_mtype m mt) (as_mtype m partial))"
proof -
  show "IsPartiallySpecified mt \<longleftrightarrow> partially_specified (as_mtype m mt)" by (simp add: IsPartiallySpecified_def as_mtype_def)
  show "MatchesPartial mt partial m = Some (matches_partial (as_mtype m mt) (as_mtype m partial))"
  proof (cases "cbFormat mt = cbFormat partial")
    case True
    then show ?thesis using format_ok_read [OF assms(1) _ refl] format_ok_read [OF assms(2) _ refl] format_empty [OF assms(1)] format_empty [OF assms(2)]
      by (cases "cbFormat mt = 0") (auto simp: MatchesPartial_def as_mtype_def)
  next
    case False
    then have "format m mt \<noteq> format m partial" using format_ok_length [OF assms(1)] format_ok_length [OF assms(2)] by (metis word_unat_eq_iff)
    then show ?thesis using False by (simp add: MatchesPartial_def as_mtype_def)
  qed
qed

section \<open>The allocator of a connection\<close>

lemma sys_eqI: "pins s = pins t \<Longrightarrow> pin_refs s = pin_refs t \<Longrightarrow> alloc_refs s = alloc_refs t \<Longrightarrow> next_alloc s = next_alloc t \<Longrightarrow> s = t"
  for s t :: pin_sys
  by (cases s; cases t) simp

lemmas pin_prims = upd_pin_def Pin_AddRef_def Pin_Release_def Alloc_AddRef_def Alloc_Release_def

lemma CreateMemoryAllocator_eq:
  "SUCCEEDED (create_allocator e (next_alloc s)) \<Longrightarrow> CreateMemoryAllocator e s = (create_allocator e (next_alloc s), Some (next_alloc s),
     s\<lparr>alloc_refs := (alloc_refs s)(next_alloc s := 1), next_alloc := Suc (next_alloc s)\<rparr>)"
  "\<not> SUCCEEDED (create_allocator e (next_alloc s)) \<Longrightarrow> CreateMemoryAllocator e s = (create_allocator e (next_alloc s), None, s\<lparr>next_alloc := Suc (next_alloc s)\<rparr>)"
  by (simp_all add: CreateMemoryAllocator_def Let_def)

lemma GetAllocator_eq:
  assumes "m_pAllocator (pins s q) = None"
  shows "SUCCEEDED (create_allocator e (next_alloc s)) \<Longrightarrow> InputPin_GetAllocator e q s = (NOERROR, Some (next_alloc s),
      s\<lparr>pins := (pins s)(q := (pins s q)\<lparr>m_pAllocator := Some (next_alloc s)\<rparr>), alloc_refs := (alloc_refs s)(next_alloc s := 2), next_alloc := Suc (next_alloc s)\<rparr>)"
    and "\<not> SUCCEEDED (create_allocator e (next_alloc s)) \<Longrightarrow>
      InputPin_GetAllocator e q s = (create_allocator e (next_alloc s), None, s\<lparr>next_alloc := Suc (next_alloc s)\<rparr>)"
  using assms by (simp_all add: InputPin_GetAllocator_def CreateMemoryAllocator_eq pin_prims numeral_2_eq_2)

lemma NotifyAllocator_eq:
  "m_pAllocator (pins s q) = None \<Longrightarrow> InputPin_NotifyAllocator q a b s = Some (NOERROR,
     s\<lparr>pins := (pins s)(q := (pins s q)\<lparr>m_pAllocator := Some a, m_bReadOnly := b\<rparr>), alloc_refs := (alloc_refs s)(a := Suc (alloc_refs s a))\<rparr>)"
  "m_pAllocator (pins s q) = Some a \<Longrightarrow> InputPin_NotifyAllocator q a b s = Some (NOERROR,
     s\<lparr>pins := (pins s)(q := (pins s q)\<lparr>m_pAllocator := Some a, m_bReadOnly := b\<rparr>)\<rparr>)"
  "m_pAllocator (pins s q) = Some c \<Longrightarrow> c \<noteq> a \<Longrightarrow> 0 < alloc_refs s c \<Longrightarrow> InputPin_NotifyAllocator q a b s = Some (NOERROR,
     s\<lparr>pins := (pins s)(q := (pins s q)\<lparr>m_pAllocator := Some a, m_bReadOnly := b\<rparr>),
       alloc_refs := (alloc_refs s)(a := Suc (alloc_refs s a), c := alloc_refs s c - 1)\<rparr>)"
  by (simp_all add: InputPin_NotifyAllocator_def pin_prims)

lemma release_allocator_eq:
  "m_pAllocator (pins s p) = None \<Longrightarrow> release_allocator p s = Some s"
  "m_pAllocator (pins s p) = Some a \<Longrightarrow> 0 < alloc_refs s a \<Longrightarrow> release_allocator p s =
     Some (s\<lparr>pins := (pins s)(p := (pins s p)\<lparr>m_pAllocator := None\<rparr>), alloc_refs := (alloc_refs s)(a := alloc_refs s a - 1)\<rparr>)"
  by (simp_all add: release_allocator_def pin_prims)

lemma DecideAllocator_cases:
  assumes pq: "p \<noteq> q" and i: "m_pInputPin (pins s p) = Some q" and a: "m_pAllocator (pins s q) = None"
    and fresh: "\<forall>b\<ge>next_alloc s. alloc_refs s b = 0"
  obtains (agreed) a n where "DecideAllocator e p s = Some (S_OK, s\<lparr>pins := (pins s)(p := (pins s p)\<lparr>m_pAllocator := Some a\<rparr>,
        q := (pins s q)\<lparr>m_pAllocator := Some a, m_bReadOnly := False\<rparr>), alloc_refs := (alloc_refs s)(a := 2), next_alloc := n\<rparr>)"
      "next_alloc s \<le> a" "a < n"
  | (failed) hr n where "DecideAllocator e p s = Some (hr, s\<lparr>pins := (pins s)(p := (pins s p)\<lparr>m_pAllocator := None\<rparr>), next_alloc := n\<rparr>)"
      "\<not> SUCCEEDED hr" "next_alloc s \<le> n"
  | (kept) hr a n where "DecideAllocator e p s = Some (hr, s\<lparr>pins := (pins s)(p := (pins s p)\<lparr>m_pAllocator := None\<rparr>,
        q := (pins s q)\<lparr>m_pAllocator := Some a\<rparr>), alloc_refs := (alloc_refs s)(a := 1), next_alloc := n\<rparr>)"
      "\<not> SUCCEEDED hr" "next_alloc s \<le> a" "a < n"
proof -
  let ?n = "next_alloc s"
  have f: "alloc_refs s ?n = 0" "alloc_refs s (Suc ?n) = 0" using fresh by simp_all
  have up: "(alloc_refs s)(?n := 0) = alloc_refs s" "(alloc_refs s)(Suc ?n := 0) = alloc_refs s" using f by (simp_all add: fun_upd_idem)
  obtain h1 prop1 where b1: "DecideBufferSize e p ?n (initial_props e q) = (h1, prop1)" by fastforce
  define prop2 where "prop2 = (if SUCCEEDED (create_allocator e ?n) then prop1 else initial_props e q)"
  obtain h2 prop3 where b2: "DecideBufferSize e p (Suc ?n) prop2 = (h2, prop3)" by fastforce
  note eqs = DecideAllocator_def decide_round_def try_allocator_def CreateMemoryAllocator_eq GetAllocator_eq NotifyAllocator_eq release_allocator_eq
    upd_pin_def
  show ?thesis
  proof (cases "SUCCEEDED (create_allocator e ?n)")
    case c1: True
    then have p2: "prop2 = prop1" by (simp add: prop2_def)
    show ?thesis
    proof (cases "SUCCEEDED h1")
      case True
      have "DecideAllocator e p s = Some (S_OK, s\<lparr>pins := (pins s)(p := (pins s p)\<lparr>m_pAllocator := Some ?n\<rparr>,
        q := (pins s q)\<lparr>m_pAllocator := Some ?n, m_bReadOnly := False\<rparr>), alloc_refs := (alloc_refs s)(?n := 2), next_alloc := Suc ?n\<rparr>)"
        using pq i a c1 True b1 by (simp add: eqs fun_upd_twist)
      then show ?thesis using agreed by simp
    next
      case h1: False
      show ?thesis
      proof (cases "SUCCEEDED (create_allocator e (Suc ?n)) \<and> SUCCEEDED h2")
        case True
        have "DecideAllocator e p s = Some (S_OK, s\<lparr>pins := (pins s)(p := (pins s p)\<lparr>m_pAllocator := Some (Suc ?n)\<rparr>,
          q := (pins s q)\<lparr>m_pAllocator := Some (Suc ?n), m_bReadOnly := False\<rparr>), alloc_refs := (alloc_refs s)(Suc ?n := 2), next_alloc := Suc (Suc ?n)\<rparr>)"
          using pq i a c1 h1 True b1 b2 p2 f up by (simp add: eqs fun_upd_twist numeral_2_eq_2)
        then show ?thesis using agreed by simp
      next
        case False
        have "DecideAllocator e p s = Some (if SUCCEEDED (create_allocator e (Suc ?n)) then h2 else create_allocator e (Suc ?n), s\<lparr>pins := (pins s)(p := (pins s p)\<lparr>m_pAllocator := None\<rparr>,
        q := (pins s q)\<lparr>m_pAllocator := Some ?n\<rparr>), alloc_refs := (alloc_refs s)(?n := 1), next_alloc := Suc (Suc ?n)\<rparr>)"
          using pq i a c1 h1 False b1 b2 p2 f by (simp add: eqs fun_upd_twist fun_upd_idem)
        then show ?thesis using kept False by simp
      qed
    qed
  next
    case c1: False
    then have p2: "prop2 = initial_props e q" by (simp add: prop2_def)
    show ?thesis
    proof (cases "SUCCEEDED (create_allocator e (Suc ?n)) \<and> SUCCEEDED h2")
      case True
      have "DecideAllocator e p s = Some (S_OK, s\<lparr>pins := (pins s)(p := (pins s p)\<lparr>m_pAllocator := Some (Suc ?n)\<rparr>,
        q := (pins s q)\<lparr>m_pAllocator := Some (Suc ?n), m_bReadOnly := False\<rparr>), alloc_refs := (alloc_refs s)(Suc ?n := 2), next_alloc := Suc (Suc ?n)\<rparr>)"
        using pq i a c1 True b2 p2 f up by (simp add: eqs fun_upd_twist numeral_2_eq_2)
      then show ?thesis using agreed by simp
    next
      case False
      have "DecideAllocator e p s = Some (if SUCCEEDED (create_allocator e (Suc ?n)) then h2 else create_allocator e (Suc ?n),
          s\<lparr>pins := (pins s)(p := (pins s p)\<lparr>m_pAllocator := None\<rparr>), next_alloc := Suc (Suc ?n)\<rparr>)"
        using pq i a c1 False b2 p2 f up by (simp add: eqs fun_upd_twist)
      then show ?thesis using failed False by simp
    qed
  qed
qed

section \<open>Pins before and after\<close>

text \<open>Before: an output and an input pin, unconnected and without allocators, the filter of the input pin stopped. \<open>pin_env_ok\<close>:
  allocators can be decommitted, and a derived \<open>CompleteConnect\<close> has no success code but \<open>S_OK\<close>.\<close>

definition idle :: "nat \<Rightarrow> nat \<Rightarrow> pin_sys \<Rightarrow> bool" where
  "idle p q s \<longleftrightarrow> p \<noteq> q \<and> m_dir (pins s p) = PINDIR_OUTPUT \<and> m_dir (pins s q) = PINDIR_INPUT \<and>
     m_Connected (pins s p) = None \<and> m_Connected (pins s q) = None \<and> m_pAllocator (pins s p) = None \<and> m_pAllocator (pins s q) = None \<and>
     m_pInputPin (pins s p) = None \<and> filter_stopped (pins s q) \<and> (\<forall>b\<ge>next_alloc s. alloc_refs s b = 0)"

definition pin_env_ok :: "pin_env \<Rightarrow> bool" where
  "pin_env_ok e \<longleftrightarrow> (\<forall>a. SUCCEEDED (decommit e a)) \<and> (\<forall>r. SUCCEEDED (after_complete e r) \<longrightarrow> after_complete e r = S_OK)"

definition pins_unconnected :: "nat \<Rightarrow> nat \<Rightarrow> pin_sys \<Rightarrow> pin_sys \<Rightarrow> bool" where
  "pins_unconnected p q s s' \<longleftrightarrow> (\<exists>x y z n. s' = s\<lparr>pins := (pins s)(p := (pins s p)\<lparr>m_mt := x\<rparr>, q := (pins s q)\<lparr>m_mt := y, m_bReadOnly := z\<rparr>), next_alloc := n\<rparr> \<and>
     next_alloc s \<le> n)"

definition pins_connected :: "nat \<Rightarrow> nat \<Rightarrow> mtype \<Rightarrow> pin_sys \<Rightarrow> pin_sys \<Rightarrow> bool" where
  "pins_connected p q mt s s' \<longleftrightarrow> (\<exists>a n. s' = s\<lparr>pins := (pins s)(p := (pins s p)\<lparr>m_pInputPin := Some q, m_Connected := Some q, m_mt := mt, m_pAllocator := Some a\<rparr>,
       q := (pins s q)\<lparr>m_Connected := Some p, m_mt := mt, m_pAllocator := Some a, m_bReadOnly := False\<rparr>),
     pin_refs := (pin_refs s)(p := pin_refs s p + 1, q := pin_refs s q + 2), alloc_refs := (alloc_refs s)(a := 2), next_alloc := n\<rparr> \<and>
     next_alloc s \<le> a \<and> a < n)"

lemma pins_unconnectedI:
  "s' = s\<lparr>pins := (pins s)(p := (pins s p)\<lparr>m_mt := x\<rparr>, q := (pins s q)\<lparr>m_mt := y, m_bReadOnly := z\<rparr>), next_alloc := n\<rparr> \<Longrightarrow> next_alloc s \<le> n \<Longrightarrow>
   pins_unconnected p q s s'"
  unfolding pins_unconnected_def by blast

lemma pins_connectedI:
  "s' = s\<lparr>pins := (pins s)(p := (pins s p)\<lparr>m_pInputPin := Some q, m_Connected := Some q, m_mt := mt, m_pAllocator := Some a\<rparr>,
       q := (pins s q)\<lparr>m_Connected := Some p, m_mt := mt, m_pAllocator := Some a, m_bReadOnly := False\<rparr>),
     pin_refs := (pin_refs s)(p := pin_refs s p + 1, q := pin_refs s q + 2), alloc_refs := (alloc_refs s)(a := 2), next_alloc := n\<rparr> \<Longrightarrow>
   next_alloc s \<le> a \<Longrightarrow> a < n \<Longrightarrow> pins_connected p q mt s s'"
  unfolding pins_connected_def by blast

lemma type_error_failed [simp]: "hr \<noteq> NOERROR \<Longrightarrow> \<not> SUCCEEDED (type_error hr)"
  by (auto simp: type_error_def hr_defs SUCCEEDED_def)

lemma pin_trivial_upd: "(pins s)(p := (pins s p)\<lparr>m_mt := m_mt (pins s p)\<rparr>) = pins s" "(pins s)(p := (pins s p)\<lparr>m_bReadOnly := m_bReadOnly (pins s p)\<rparr>) = pins s"
  by (auto simp: fun_eq_iff)

lemma pin_same:
  "m_Connected x = v \<Longrightarrow> x\<lparr>m_Connected := v\<rparr> = x" "m_pAllocator x = v \<Longrightarrow> x\<lparr>m_pAllocator := v\<rparr> = x" "m_pInputPin x = w \<Longrightarrow> x\<lparr>m_pInputPin := w\<rparr> = x"
  "m_bReadOnly x = b \<Longrightarrow> x\<lparr>m_bReadOnly := b\<rparr> = x" "m_mt x = t \<Longrightarrow> x\<lparr>m_mt := t\<rparr> = x"
  by (cases x; simp)+

lemma CheckConnect_idle: "idle p q s \<Longrightarrow> CheckConnect p q s = (NOERROR, s\<lparr>pins := (pins s)(p := (pins s p)\<lparr>m_pInputPin := Some q\<rparr>), pin_refs := (pin_refs s)(q := Suc (pin_refs s q))\<rparr>)"
  by (simp add: CheckConnect_def idle_def pin_prims)

lemma CheckConnect_input: "m_dir (pins s q) = PINDIR_INPUT \<Longrightarrow> m_dir (pins s p) = PINDIR_OUTPUT \<Longrightarrow> CheckConnect q p s = (NOERROR, s)"
  by (simp add: CheckConnect_def)

lemma BreakConnect_input:
  "m_dir (pins s q) = PINDIR_INPUT \<Longrightarrow> m_pAllocator (pins s q) = None \<Longrightarrow> BreakConnect e q s = Some (S_OK, s)"
  "m_dir (pins s q) = PINDIR_INPUT \<Longrightarrow> m_pAllocator (pins s q) = Some a \<Longrightarrow> SUCCEEDED (decommit e a) \<Longrightarrow> 0 < alloc_refs s a \<Longrightarrow>
    BreakConnect e q s = Some (S_OK, s\<lparr>pins := (pins s)(q := (pins s q)\<lparr>m_pAllocator := None\<rparr>), alloc_refs := (alloc_refs s)(a := alloc_refs s a - 1)\<rparr>)"
  by (simp_all add: BreakConnect_def pin_prims)

lemma BreakConnect_output:
  "m_dir (pins s p) = PINDIR_OUTPUT \<Longrightarrow> m_pAllocator (pins s p) = None \<Longrightarrow> m_pInputPin (pins s p) = None \<Longrightarrow> BreakConnect e p s = Some (S_OK, s)"
  "m_dir (pins s p) = PINDIR_OUTPUT \<Longrightarrow> m_pAllocator (pins s p) = None \<Longrightarrow> m_pInputPin (pins s p) = Some q \<Longrightarrow> 0 < pin_refs s q \<Longrightarrow>
    BreakConnect e p s = Some (S_OK, s\<lparr>pins := (pins s)(p := (pins s p)\<lparr>m_pInputPin := None\<rparr>), pin_refs := (pin_refs s)(q := pin_refs s q - 1)\<rparr>)"
  "m_dir (pins s p) = PINDIR_OUTPUT \<Longrightarrow> m_pAllocator (pins s p) = Some a \<Longrightarrow> SUCCEEDED (decommit e a) \<Longrightarrow> 0 < alloc_refs s a \<Longrightarrow>
    m_pInputPin (pins s p) = Some q \<Longrightarrow> 0 < pin_refs s q \<Longrightarrow>
    BreakConnect e p s = Some (S_OK, s\<lparr>pins := (pins s)(p := (pins s p)\<lparr>m_pAllocator := None, m_pInputPin := None\<rparr>),
      alloc_refs := (alloc_refs s)(a := alloc_refs s a - 1), pin_refs := (pin_refs s)(q := pin_refs s q - 1)\<rparr>)"
  by (simp_all add: BreakConnect_def pin_prims)

lemma release_connected_eq:
  "m_Connected (pins s p) = None \<Longrightarrow> release_connected p s = Some s"
  "m_Connected (pins s p) = Some q \<Longrightarrow> 0 < pin_refs s q \<Longrightarrow> release_connected p s =
     Some (s\<lparr>pins := (pins s)(p := (pins s p)\<lparr>m_Connected := None\<rparr>), pin_refs := (pin_refs s)(q := pin_refs s q - 1)\<rparr>)"
  by (simp_all add: release_connected_def pin_prims)

section \<open>One attempt\<close>

text \<open>The other pin answers.\<close>

lemma ReceiveConnection_cases:
  assumes "p \<noteq> q" and "m_dir (pins s p) = PINDIR_OUTPUT" and "m_dir (pins s q) = PINDIR_INPUT" and "m_Connected (pins s q) = None"
    and "m_pAllocator (pins s q) = None" and "filter_stopped (pins s q)"
  obtains (accepted) "Pin_ReceiveConnection e q p mt s = Some (S_OK, s\<lparr>pins := (pins s)(q := (pins s q)\<lparr>m_Connected := Some p, m_mt := mt\<rparr>),
      pin_refs := (pin_refs s)(p := Suc (pin_refs s p))\<rparr>)" "CheckMediaType e q mt = S_OK"
  | (refused) hr y where "Pin_ReceiveConnection e q p mt s = Some (hr, s\<lparr>pins := (pins s)(q := (pins s q)\<lparr>m_mt := y\<rparr>)\<rparr>)" "\<not> SUCCEEDED hr"
proof (cases "CheckMediaType e q mt = NOERROR")
  case c: True
  show ?thesis
  proof (cases "type_memory e q mt \<and> SUCCEEDED (after_complete e q)")
    case True
    then have "Pin_ReceiveConnection e q p mt s = Some (S_OK, s\<lparr>pins := (pins s)(q := (pins s q)\<lparr>m_Connected := Some p, m_mt := mt\<rparr>),
      pin_refs := (pin_refs s)(p := Suc (pin_refs s p))\<rparr>)"
      using assms c by (simp add: Pin_ReceiveConnection_def CheckConnect_input Pin_SetMediaType_def CompleteConnect_def pin_prims)
    then show ?thesis using accepted c by simp
  next
    case False
    let ?y = "if type_memory e q mt then mt else without_format mt"
    have "Pin_ReceiveConnection e q p mt s = Some (if type_memory e q mt then after_complete e q else E_OUTOFMEMORY, s\<lparr>pins := (pins s)(q := (pins s q)\<lparr>m_mt := ?y\<rparr>)\<rparr>)"
      using assms c False by (auto simp: Pin_ReceiveConnection_def CheckConnect_input Pin_SetMediaType_def CompleteConnect_def pin_prims
          release_connected_eq BreakConnect_input pin_same)
    then show ?thesis using refused [of _ ?y] False by auto
  qed
next
  case False
  have "Pin_ReceiveConnection e q p mt s = Some (type_error (CheckMediaType e q mt), s\<lparr>pins := (pins s)(q := (pins s q)\<lparr>m_mt := m_mt (pins s q)\<rparr>)\<rparr>)"
    using assms False by (simp add: Pin_ReceiveConnection_def CheckConnect_input BreakConnect_input pin_trivial_upd)
  then show ?thesis using refused [of "type_error (CheckMediaType e q mt)" "m_mt (pins s q)"] False by simp
qed

text \<open>Undoing a connection of which the completion failed; \<open>oa\<close> is the allocator the output pin has kept.\<close>

lemma undo_connection:
  assumes "p \<noteq> q" and "m_dir (pins t p) = PINDIR_OUTPUT" and "m_dir (pins t q) = PINDIR_INPUT" and "m_Connected (pins t q) = Some p" and "filter_stopped (pins t q)"
    and "m_Connected (pins t p) = Some q" and "m_pInputPin (pins t p) = Some q" and "pin_refs t p = Suc n" and "pin_refs t q = Suc (Suc m)"
    and "\<And>a. SUCCEEDED (decommit e a)"
    and "m_pAllocator (pins t p) = None \<and> m_pAllocator (pins t q) = None \<and> al = alloc_refs t \<or>
      m_pAllocator (pins t p) = None \<and> m_pAllocator (pins t q) = Some a \<and> alloc_refs t a = 1 \<and> al = (alloc_refs t)(a := 0) \<or>
      m_pAllocator (pins t p) = Some a \<and> m_pAllocator (pins t q) = Some a \<and> alloc_refs t a = 2 \<and> al = (alloc_refs t)(a := 0)"
  shows "\<exists>t'. do { (_, s) \<leftarrow> Pin_Disconnect e q t; (_, s) \<leftarrow> BreakConnect e p s; s \<leftarrow> release_connected p s; Some (hr, s) } = Some (hr, t') \<and>
    pins t' = (pins t)(p := (pins t p)\<lparr>m_pAllocator := None, m_pInputPin := None, m_Connected := None\<rparr>, q := (pins t q)\<lparr>m_pAllocator := None, m_Connected := None\<rparr>) \<and>
    pin_refs t' = (pin_refs t)(p := n, q := m) \<and> alloc_refs t' = al \<and> next_alloc t' = next_alloc t"
proof -
  note eqs = Pin_Disconnect_def DisconnectInternal_def BreakConnect_input BreakConnect_output release_connected_eq pin_same
  from assms(11) show ?thesis
  proof (elim disjE conjE, goal_cases)
    case 1
    then show ?case using assms(1-10) by (simp add: eqs fun_upd_twist)
  next
    case 2
    then show ?case using assms(1-10) by (simp add: eqs fun_upd_twist)
  next
    case 3
    then show ?case using assms(1-10) by (simp add: eqs fun_upd_twist)
  qed
qed

lemma undo_unconnected:
  assumes "idle p q s" and "\<And>a. SUCCEEDED (decommit e a)"
    and t: "pins t = (pins s)(p := (pins s p)\<lparr>m_pInputPin := Some q, m_Connected := Some q, m_mt := mt, m_pAllocator := oa\<rparr>,
        q := (pins s q)\<lparr>m_Connected := Some p, m_mt := mt, m_pAllocator := ob, m_bReadOnly := z\<rparr>)"
      "pin_refs t = (pin_refs s)(p := Suc (pin_refs s p), q := Suc (Suc (pin_refs s q)))" "next_alloc s \<le> next_alloc t"
    and al: "oa = None \<and> ob = None \<and> alloc_refs t = alloc_refs s \<or> oa = None \<and> ob = Some a \<and> next_alloc s \<le> a \<and> alloc_refs t = (alloc_refs s)(a := 1) \<or>
      oa = Some a \<and> ob = Some a \<and> next_alloc s \<le> a \<and> alloc_refs t = (alloc_refs s)(a := 2)"
  shows "\<exists>t'. do { (_, s) \<leftarrow> Pin_Disconnect e q t; (_, s) \<leftarrow> BreakConnect e p s; s \<leftarrow> release_connected p s; Some (hr, s) } = Some (hr, t') \<and> pins_unconnected p q s t'"
proof -
  have pq: "p \<noteq> q" and d: "m_dir (pins s p) = PINDIR_OUTPUT" "m_dir (pins s q) = PINDIR_INPUT"
    and i: "m_Connected (pins s p) = None" "m_Connected (pins s q) = None" "m_pAllocator (pins s p) = None" "m_pAllocator (pins s q) = None"
      "m_pInputPin (pins s p) = None" "filter_stopped (pins s q)" and fresh: "\<And>b. next_alloc s \<le> b \<Longrightarrow> alloc_refs s b = 0"
    using assms(1) by (auto simp: idle_def)
  have "(alloc_refs s)(a := 0) = alloc_refs s" if "next_alloc s \<le> a" using fresh [OF that] by (simp add: fun_upd_idem)
  then have al': "m_pAllocator (pins t p) = None \<and> m_pAllocator (pins t q) = None \<and> alloc_refs s = alloc_refs t \<or>
      m_pAllocator (pins t p) = None \<and> m_pAllocator (pins t q) = Some a \<and> alloc_refs t a = 1 \<and> alloc_refs s = (alloc_refs t)(a := 0) \<or>
      m_pAllocator (pins t p) = Some a \<and> m_pAllocator (pins t q) = Some a \<and> alloc_refs t a = 2 \<and> alloc_refs s = (alloc_refs t)(a := 0)"
    using al pq by (elim disjE conjE) (simp_all add: t)
  obtain t' where 1: "do { (_, s) \<leftarrow> Pin_Disconnect e q t; (_, s) \<leftarrow> BreakConnect e p s; s \<leftarrow> release_connected p s; Some (hr, s) } = Some (hr, t')"
    and 2: "pins t' = (pins t)(p := (pins t p)\<lparr>m_pAllocator := None, m_pInputPin := None, m_Connected := None\<rparr>, q := (pins t q)\<lparr>m_pAllocator := None, m_Connected := None\<rparr>)"
      "pin_refs t' = (pin_refs t)(p := pin_refs s p, q := pin_refs s q)" "alloc_refs t' = alloc_refs s" "next_alloc t' = next_alloc t"
    using undo_connection [OF pq _ _ _ _ _ _ _ _ assms(2) al', of "pin_refs s p" "pin_refs s q" hr] pq d i by (auto simp: t)
  have "t' = s\<lparr>pins := (pins s)(p := (pins s p)\<lparr>m_mt := mt\<rparr>, q := (pins s q)\<lparr>m_mt := mt, m_bReadOnly := z\<rparr>), next_alloc := next_alloc t\<rparr>"
    using 2 pq i by (intro sys_eqI) (auto simp: t fun_eq_iff pin_same)
  then show ?thesis using 1 pins_unconnectedI [OF _ t(3)] by blast
qed

lemma AttemptConnection_cases:
  assumes "idle p q s" and "pin_env_ok e"
  obtains (agreed) s' where "AttemptConnection e p q mt s = Some (S_OK, s')" "pins_connected p q mt s s'" "CheckMediaType e p mt = S_OK" "CheckMediaType e q mt = S_OK"
  | (failed) hr s' where "AttemptConnection e p q mt s = Some (hr, s')" "\<not> SUCCEEDED hr" "pins_unconnected p q s s'"
proof -
  note success = agreed and failure = failed
  have pq: "p \<noteq> q" and d: "m_dir (pins s p) = PINDIR_OUTPUT" "m_dir (pins s q) = PINDIR_INPUT"
    and i: "m_Connected (pins s p) = None" "m_Connected (pins s q) = None" "m_pAllocator (pins s p) = None" "m_pAllocator (pins s q) = None"
      "m_pInputPin (pins s p) = None" "filter_stopped (pins s q)" and fresh: "\<And>b. next_alloc s \<le> b \<Longrightarrow> alloc_refs s b = 0"
    using assms(1) by (auto simp: idle_def)
  have dec: "SUCCEEDED (decommit e a)" for a using assms(2) by (simp add: pin_env_ok_def)
  have ac: "SUCCEEDED (after_complete e p) \<Longrightarrow> after_complete e p = S_OK" using assms(2) by (simp add: pin_env_ok_def)
  note base = AttemptConnection_def CheckConnect_idle [OF assms(1)]
  note undo = BreakConnect_output release_connected_eq pin_same
  show ?thesis
  proof (cases "CheckMediaType e p mt = NOERROR")
    case False
    have "AttemptConnection e p q mt s = Some (type_error (CheckMediaType e p mt), s\<lparr>pins := (pins s)(p := (pins s p)\<lparr>m_mt := m_mt (pins s p)\<rparr>,
        q := (pins s q)\<lparr>m_mt := m_mt (pins s q), m_bReadOnly := m_bReadOnly (pins s q)\<rparr>), next_alloc := next_alloc s\<rparr>)"
      using False pq d i by (simp add: base undo)
    then show ?thesis by (rule failure) (use False in simp, rule pins_unconnectedI [OF refl], simp)
  next
    case cp: True
    show ?thesis
    proof (cases "type_memory e p mt")
      case False
      let ?x = "without_format mt"
      have "AttemptConnection e p q mt s = Some (E_OUTOFMEMORY, s\<lparr>pins := (pins s)(p := (pins s p)\<lparr>m_mt := ?x\<rparr>,
          q := (pins s q)\<lparr>m_mt := m_mt (pins s q), m_bReadOnly := m_bReadOnly (pins s q)\<rparr>), next_alloc := next_alloc s\<rparr>)"
        using False cp pq d i by (simp add: base undo Pin_SetMediaType_def pin_prims fun_upd_idem)
      then show ?thesis by (rule failure) (simp, rule pins_unconnectedI [OF refl], simp)
    next
      case tm: True
      define s1 where "s1 = s\<lparr>pin_refs := (pin_refs s)(q := Suc (Suc (pin_refs s q))),
          pins := (pins s)(p := (pins s p)\<lparr>m_pInputPin := Some q, m_Connected := Some q, m_mt := mt\<rparr>)\<rparr>"
      have a1: "AttemptConnection e p q mt s = do {
           (hr, s) \<leftarrow> Pin_ReceiveConnection e q p mt s1;
           if SUCCEEDED hr then do {
             (hr, s) \<leftarrow> CompleteConnect e p s;
             if SUCCEEDED hr then Some (hr, s)
             else do { (_, s) \<leftarrow> Pin_Disconnect e q s; (_, s) \<leftarrow> BreakConnect e p s; s \<leftarrow> release_connected p s; Some (hr, s) } }
           else do { (_, s) \<leftarrow> BreakConnect e p s; s \<leftarrow> release_connected p s; Some (hr, s) } }"
        using cp tm pq by (simp add: base Pin_SetMediaType_def pin_prims s1_def)
      have r: "p \<noteq> q" "m_dir (pins s1 p) = PINDIR_OUTPUT" "m_dir (pins s1 q) = PINDIR_INPUT" "m_Connected (pins s1 q) = None"
        "m_pAllocator (pins s1 q) = None" "filter_stopped (pins s1 q)" using pq d i by (simp_all add: s1_def)
      show ?thesis using r
      proof (cases rule: ReceiveConnection_cases [where e = e and mt = mt])
        case (refused hr y)
        have "AttemptConnection e p q mt s = Some (hr, s\<lparr>pins := (pins s)(p := (pins s p)\<lparr>m_mt := mt\<rparr>,
            q := (pins s q)\<lparr>m_mt := y, m_bReadOnly := m_bReadOnly (pins s q)\<rparr>), next_alloc := next_alloc s\<rparr>)"
          using refused pq d i by (simp add: a1 s1_def undo fun_upd_twist)
        then show ?thesis by (rule failure) (use refused(2) in simp, rule pins_unconnectedI [OF refl], simp)
      next
        case accepted
        define s2 where "s2 = s1\<lparr>pins := (pins s1)(q := (pins s1 q)\<lparr>m_Connected := Some p, m_mt := mt\<rparr>), pin_refs := (pin_refs s1)(p := Suc (pin_refs s1 p))\<rparr>"
        have a2: "AttemptConnection e p q mt s = do {
             (hr, s) \<leftarrow> DecideAllocator e p s2;
             (hr, s) \<leftarrow> Some (if SUCCEEDED hr then after_complete e p else hr, s);
             if SUCCEEDED hr then Some (hr, s)
             else do { (_, s) \<leftarrow> Pin_Disconnect e q s; (_, s) \<leftarrow> BreakConnect e p s; s \<leftarrow> release_connected p s; Some (hr, s) } }"
          using accepted(1) pq d by (simp add: a1 s2_def s1_def CompleteConnect_def split: prod.splits Option.bind_splits)
        have s2: "m_pInputPin (pins s2 p) = Some q" "m_pAllocator (pins s2 q) = None" "\<forall>b\<ge>next_alloc s2. alloc_refs s2 b = 0"
          "next_alloc s2 = next_alloc s"
          using pq i fresh by (simp_all add: s2_def s1_def)
        note s2s1 = s2_def s1_def
        note disc = Pin_Disconnect_def DisconnectInternal_def BreakConnect_input
        have c2: "pins s2 = (pins s)(p := (pins s p)\<lparr>m_pInputPin := Some q, m_Connected := Some q, m_mt := mt\<rparr>, q := (pins s q)\<lparr>m_Connected := Some p, m_mt := mt\<rparr>)"
          "pin_refs s2 = (pin_refs s)(p := Suc (pin_refs s p), q := Suc (Suc (pin_refs s q)))" "alloc_refs s2 = alloc_refs s"
          using pq by (simp_all add: s2s1 fun_upd_twist)
        let ?t = "snd (the (DecideAllocator e p s2))"
        show ?thesis using pq s2(1) s2(2) s2(3)
        proof (cases rule: DecideAllocator_cases [where e = e])
          case (agreed a n)
          show ?thesis
          proof (cases "SUCCEEDED (after_complete e p)")
            case True
            have "AttemptConnection e p q mt s = Some (S_OK, s\<lparr>pins := (pins s)(p := (pins s p)\<lparr>m_pInputPin := Some q, m_Connected := Some q, m_mt := mt, m_pAllocator := Some a\<rparr>,
       q := (pins s q)\<lparr>m_Connected := Some p, m_mt := mt, m_pAllocator := Some a, m_bReadOnly := False\<rparr>),
     pin_refs := (pin_refs s)(p := pin_refs s p + 1, q := pin_refs s q + 2), alloc_refs := (alloc_refs s)(a := 2), next_alloc := n\<rparr>)"
              using True ac agreed(1) pq by (simp add: a2 s2s1 fun_upd_twist)
            then show ?thesis by (rule success) (rule pins_connectedI [OF refl], use agreed(2,3) s2(4) cp accepted(2) in simp_all)
          next
            case False
            have "\<exists>t'. do { (_, s) \<leftarrow> Pin_Disconnect e q ?t; (_, s) \<leftarrow> BreakConnect e p s; s \<leftarrow> release_connected p s; Some (after_complete e p, s) } = Some (after_complete e p, t') \<and> pins_unconnected p q s t'"
              by (rule undo_unconnected [OF assms(1) dec, where mt = mt and oa = "Some a" and ob = "Some a" and a = a and z = False])
                (use pq agreed s2(4) in \<open>simp_all add: c2 fun_upd_twist\<close>)
            then show ?thesis using failure False agreed(1) by (auto simp: a2)
          qed
        next
          case (failed hr n)
          have "\<exists>t'. do { (_, s) \<leftarrow> Pin_Disconnect e q ?t; (_, s) \<leftarrow> BreakConnect e p s; s \<leftarrow> release_connected p s; Some (hr, s) } = Some (hr, t') \<and> pins_unconnected p q s t'"
            by (rule undo_unconnected [OF assms(1) dec, where mt = mt and oa = None and ob = None and z = "m_bReadOnly (pins s q)"])
              (use pq i failed s2(4) in \<open>simp_all add: c2 fun_upd_twist pin_same\<close>)
          then show ?thesis using failure failed(1,2) by (auto simp: a2)
        next
          case (kept hr a n)
          have "\<exists>t'. do { (_, s) \<leftarrow> Pin_Disconnect e q ?t; (_, s) \<leftarrow> BreakConnect e p s; s \<leftarrow> release_connected p s; Some (hr, s) } = Some (hr, t') \<and> pins_unconnected p q s t'"
            by (rule undo_unconnected [OF assms(1) dec, where mt = mt and oa = None and ob = "Some a" and a = a and z = "m_bReadOnly (pins s q)"])
              (use pq i kept s2(4) in \<open>simp_all add: c2 fun_upd_twist pin_same\<close>)
          then show ?thesis using failure kept(1,2) by (auto simp: a2)
        qed
      qed
    qed
  qed
qed

section \<open>Trying the types\<close>

lemma unconnected_refl: "pins_unconnected p q s s"
  by (rule pins_unconnectedI [where n = "next_alloc s" and x = "m_mt (pins s p)" and y = "m_mt (pins s q)" and z = "m_bReadOnly (pins s q)"]) simp_all

lemma unconnected_idle: "pins_unconnected p q s s' \<Longrightarrow> idle p q s \<Longrightarrow> idle p q s'"
  by (auto simp: pins_unconnected_def idle_def)

lemma unconnected_trans:
  assumes "pins_unconnected p q s s'" and "pins_unconnected p q s' s''" and "p \<noteq> q"
  shows "pins_unconnected p q s s''"
proof -
  obtain x y z n where 1: "s' = s\<lparr>pins := (pins s)(p := (pins s p)\<lparr>m_mt := x\<rparr>, q := (pins s q)\<lparr>m_mt := y, m_bReadOnly := z\<rparr>), next_alloc := n\<rparr>" "next_alloc s \<le> n"
    using assms(1) by (auto simp: pins_unconnected_def)
  obtain x' y' z' n' where 2: "s'' = s'\<lparr>pins := (pins s')(p := (pins s' p)\<lparr>m_mt := x'\<rparr>, q := (pins s' q)\<lparr>m_mt := y', m_bReadOnly := z'\<rparr>), next_alloc := n'\<rparr>" "next_alloc s' \<le> n'"
    using assms(2) by (auto simp: pins_unconnected_def)
  have "s'' = s\<lparr>pins := (pins s)(p := (pins s p)\<lparr>m_mt := x'\<rparr>, q := (pins s q)\<lparr>m_mt := y', m_bReadOnly := z'\<rparr>), next_alloc := n'\<rparr>"
    using 1 2 assms(3) by (simp add: fun_upd_twist)
  then show ?thesis by (rule pins_unconnectedI) (use 1 2 in simp)
qed

lemma unconnected_connected:
  assumes "pins_unconnected p q s s'" and "pins_connected p q mt s' s''" and "p \<noteq> q"
  shows "pins_connected p q mt s s''"
proof -
  obtain x y z n where 1: "s' = s\<lparr>pins := (pins s)(p := (pins s p)\<lparr>m_mt := x\<rparr>, q := (pins s q)\<lparr>m_mt := y, m_bReadOnly := z\<rparr>), next_alloc := n\<rparr>" "next_alloc s \<le> n"
    using assms(1) by (auto simp: pins_unconnected_def)
  obtain a n' where 2: "s'' = s'\<lparr>pins := (pins s')(p := (pins s' p)\<lparr>m_pInputPin := Some q, m_Connected := Some q, m_mt := mt, m_pAllocator := Some a\<rparr>,
       q := (pins s' q)\<lparr>m_Connected := Some p, m_mt := mt, m_pAllocator := Some a, m_bReadOnly := False\<rparr>),
     pin_refs := (pin_refs s')(p := pin_refs s' p + 1, q := pin_refs s' q + 2), alloc_refs := (alloc_refs s')(a := 2), next_alloc := n'\<rparr>"
     "next_alloc s' \<le> a" "a < n'"
    using assms(2) by (auto simp: pins_connected_def)
  have "s'' = s\<lparr>pins := (pins s)(p := (pins s p)\<lparr>m_pInputPin := Some q, m_Connected := Some q, m_mt := mt, m_pAllocator := Some a\<rparr>,
       q := (pins s q)\<lparr>m_Connected := Some p, m_mt := mt, m_pAllocator := Some a, m_bReadOnly := False\<rparr>),
     pin_refs := (pin_refs s)(p := pin_refs s p + 1, q := pin_refs s q + 2), alloc_refs := (alloc_refs s)(a := 2), next_alloc := n'\<rparr>"
    using 1 2 assms(3) by (simp add: fun_upd_twist)
  then show ?thesis by (rule pins_connectedI) (use 1 2 in simp_all)
qed

definition accepted_by :: "pin_env \<Rightarrow> nat \<Rightarrow> nat \<Rightarrow> mtype \<Rightarrow> bool" where
  "accepted_by e p q mt \<longleftrightarrow> CheckMediaType e p mt = S_OK \<and> CheckMediaType e q mt = S_OK"

definition matches :: "mtype option \<Rightarrow> mtype \<Rightarrow> bool" where
  "matches pmt mt \<longleftrightarrow> (case pmt of None \<Rightarrow> True | Some partial \<Rightarrow> matches_partial mt partial)"

text \<open>Neither memory nor allocators nor derived classes fail.\<close>

definition all_well :: "pin_env \<Rightarrow> bool" where
  "all_well e \<longleftrightarrow> (\<forall>a. SUCCEEDED (decommit e a) \<and> SUCCEEDED (create_allocator e a)) \<and> (\<forall>r. after_complete e r = S_OK) \<and>
     (\<forall>r mt. type_memory e r mt) \<and> (\<forall>r. enum_memory e r) \<and> (\<forall>r i. struct_memory e r i) \<and> (\<forall>r a pr. SUCCEEDED (fst (DecideBufferSize e r a pr)))"

lemma all_well_pin_env_ok: "all_well e \<Longrightarrow> pin_env_ok e"
  by (simp add: all_well_def pin_env_ok_def)

lemma all_well_attempt:
  assumes "idle p q s" and "all_well e" and "accepted_by e p q mt" and "AttemptConnection e p q mt s = Some (hr, s')"
  shows "SUCCEEDED hr"
proof -
  have i: "p \<noteq> q" "m_dir (pins s p) = PINDIR_OUTPUT" "m_dir (pins s q) = PINDIR_INPUT" "m_Connected (pins s p) = None" "m_Connected (pins s q) = None" "m_pAllocator (pins s p) = None" "m_pAllocator (pins s q) = None"
      "m_pInputPin (pins s p) = None" "filter_stopped (pins s q)" using assms(1) by (auto simp: idle_def)
  have w: "SUCCEEDED (create_allocator e a)" "after_complete e r = S_OK" "type_memory e r t" "SUCCEEDED (fst (DecideBufferSize e r a pr))" for a r t pr
    using assms(2) unfolding all_well_def by blast+
  obtain h pr where b: "DecideBufferSize e p (next_alloc s) (initial_props e q) = (h, pr)" by fastforce
  then have "SUCCEEDED h" using w(4) by (metis fst_conv)
  then have "fst (the (AttemptConnection e p q mt s)) = S_OK"
    using i w(1-3) b assms(3) by (simp add: AttemptConnection_def CheckConnect_idle [OF assms(1)] accepted_by_def Pin_SetMediaType_def
        Pin_ReceiveConnection_def CheckConnect_input CompleteConnect_def DecideAllocator_def decide_round_def try_allocator_def GetAllocator_eq
        NotifyAllocator_eq pin_prims)
  then show ?thesis using assms(4) by simp
qed

definition outcome :: "pin_env \<Rightarrow> nat \<Rightarrow> nat \<Rightarrow> mtype option \<Rightarrow> mtype list \<Rightarrow> pin_sys \<Rightarrow> HRESULT \<Rightarrow> pin_sys \<Rightarrow> bool" where
  "outcome e p q pmt ts s hr s' \<longleftrightarrow>
     (hr = S_OK \<and> (\<exists>mt. pins_connected p q mt s s' \<and> accepted_by e p q mt \<and> matches pmt mt \<and> mt \<in> set ts \<and>
        (all_well e \<longrightarrow> find (\<lambda>t. matches pmt t \<and> accepted_by e p q t) ts = Some mt)) \<or>
      \<not> SUCCEEDED hr \<and> pins_unconnected p q s s' \<and> (all_well e \<longrightarrow> (\<forall>t\<in>set ts. \<not> (matches pmt t \<and> accepted_by e p q t))))"

lemma outcome_success:
  "pins_connected p q mt s s' \<Longrightarrow> accepted_by e p q mt \<Longrightarrow> matches pmt mt \<Longrightarrow> mt \<in> set ts \<Longrightarrow>
   (all_well e \<Longrightarrow> find (\<lambda>t. matches pmt t \<and> accepted_by e p q t) ts = Some mt) \<Longrightarrow> outcome e p q pmt ts s S_OK s'"
  unfolding outcome_def by blast

lemma outcome_failure:
  "\<not> SUCCEEDED hr \<Longrightarrow> pins_unconnected p q s s' \<Longrightarrow> (all_well e \<Longrightarrow> \<forall>t\<in>set ts. \<not> (matches pmt t \<and> accepted_by e p q t)) \<Longrightarrow> outcome e p q pmt ts s hr s'"
  unfolding outcome_def by blast

lemma outcome_cases:
  assumes "outcome e p q pmt ts s hr s'"
  obtains (success) mt where "hr = S_OK" "pins_connected p q mt s s'" "accepted_by e p q mt" "matches pmt mt" "mt \<in> set ts"
      "all_well e \<longrightarrow> find (\<lambda>t. matches pmt t \<and> accepted_by e p q t) ts = Some mt"
  | (failure) "\<not> SUCCEEDED hr" "pins_unconnected p q s s'" "all_well e \<longrightarrow> (\<forall>t\<in>set ts. \<not> (matches pmt t \<and> accepted_by e p q t))"
  using assms unfolding outcome_def by blast

lemma EnumTypes_Next_one:
  assumes "pin_types v ts" and "mt_Version en = GetMediaTypeVersion v" and "unat (mt_Position en) \<le> length ts"
  obtains (type) "unat (mt_Position en) < length ts" "ok (mt_Position en)"
      "EnumTypes_Next v ok 1 True en = (S_OK, [ts ! unat (mt_Position en)], en\<lparr>mt_Position := mt_Position en + 1\<rparr>)"
      "unat (mt_Position en + 1) = Suc (unat (mt_Position en))"
  | (no_memory) "\<not> ok (mt_Position en)" "EnumTypes_Next v ok 1 True en = (S_FALSE, [], en\<lparr>mt_Position := mt_Position en + 1\<rparr>)"
  | (no_more) "unat (mt_Position en) = length ts" "EnumTypes_Next v ok 1 True en = (S_FALSE, [], en\<lparr>mt_Position := mt_Position en + 1\<rparr>)"
proof -
  let ?k = "unat (mt_Position en)"
  have of_k: "of_nat ?k = mt_Position en" by simp
  show ?thesis
  proof (cases "?k < length ts")
    case True
    then have t: "GetMediaType v (mt_Position en) = (S_OK, ts ! ?k)" using assms(1) of_k by (metis pin_types_def)
    have "?k + 1 < 2 ^ 32" using True assms(1) by (simp add: pin_types_def)
    then have "unat (mt_Position en + 1) = Suc ?k" by (simp add: unat_word_ariths)
    then show ?thesis using type no_memory True t assms(2) by (cases "ok (mt_Position en)") (simp_all add: EnumTypes_Next_def EnumTypes_AreWeOutOfSync_def)
  next
    case False
    then have k: "?k = length ts" using assms(3) by simp
    obtain hr t where g: "GetMediaType v (mt_Position en) = (hr, t)" by fastforce
    then have "hr \<noteq> S_OK" using assms(1) of_k k by (metis pin_types_def fst_conv)
    then show ?thesis using no_more k assms(2) g by (simp add: EnumTypes_Next_def EnumTypes_AreWeOutOfSync_def)
  qed
qed

lemma outcome_skip:
  assumes "outcome e p q pmt ts s1 hr s'" and "pins_unconnected p q s s1" and "p \<noteq> q" and "all_well e \<Longrightarrow> \<not> (matches pmt t \<and> accepted_by e p q t)"
  shows "outcome e p q pmt (t # ts) s hr s'"
  using assms unconnected_trans [OF assms(2) _ assms(3)] unconnected_connected [OF assms(2) _ assms(3)]
  unfolding outcome_def by auto

lemma outcome_append:
  assumes "outcome e p q pmt ts1 s hr1 s1" and "\<not> SUCCEEDED hr1" and "outcome e p q pmt ts2 s1 hr s'" and "p \<noteq> q"
  shows "outcome e p q pmt (ts1 @ ts2) s hr s'"
proof -
  have 1: "pins_unconnected p q s s1" "all_well e \<Longrightarrow> \<forall>t\<in>set ts1. \<not> (matches pmt t \<and> accepted_by e p q t)"
    using assms(1,2) by (auto simp: outcome_def)
  have "find (\<lambda>t. matches pmt t \<and> accepted_by e p q t) (ts1 @ ts2) = find (\<lambda>t. matches pmt t \<and> accepted_by e p q t) ts2" if "all_well e"
    using 1(2) [OF that] by (induction ts1) auto
  note find_append = this
  show ?thesis using assms(3)
  proof (cases rule: outcome_cases)
    case (success mt)
    then show ?thesis using outcome_success [OF unconnected_connected [OF 1(1) success(2) assms(4)], of e pmt "ts1 @ ts2"] find_append by simp
  next
    case failure
    then show ?thesis using outcome_failure [OF failure(1) unconnected_trans [OF 1(1) failure(2) assms(4)], of e "ts1 @ ts2" pmt] 1(2) by auto
  qed
qed

lemma unconnected_view: "pins_unconnected p q s s' \<Longrightarrow> pin_view e w s' = pin_view e w s"
  by (auto simp: pins_unconnected_def pin_view_def)

lemma try_types_loop_outcome:
  assumes "idle p q s" and "pin_env_ok e" and "pin_types (pin_view e w s) ts" and "mt_Version en = m_TypeVersion (pins s w)"
    and "unat (mt_Position en) \<le> length ts" and "hrF = S_OK \<or> \<not> SUCCEEDED hrF"
  shows "\<exists>hr s'. try_types_loop e p q pmt w hrF en s = Some (hr, s') \<and> outcome e p q pmt (drop (unat (mt_Position en)) ts) s hr s'"
  using assms
proof (induction "length ts - unat (mt_Position en)" arbitrary: en s hrF rule: less_induct)
  case less
  let ?k = "unat (mt_Position en)" and ?v = "pin_view e w s"
  have pq: "p \<noteq> q" using less.prems(1) by (simp add: idle_def)
  have ver: "mt_Version en = GetMediaTypeVersion ?v" using less.prems(4) by (simp add: pin_view_def)
  have stop: "try_types_loop e p q pmt w hrF en s = Some (if S_OK = hrF then VFW_E_NO_ACCEPTABLE_TYPES else hrF, s)"
    if "EnumTypes_Next ?v (struct_memory e w) 1 True en = (S_FALSE, [], en')" for en'
    using that by (subst try_types_loop.simps) (simp add: hr_defs)
  have failing: "\<not> SUCCEEDED (if S_OK = hrF then VFW_E_NO_ACCEPTABLE_TYPES else hrF)" using less.prems(6) by (auto simp: hr_defs SUCCEEDED_def)
  show ?case using less.prems(3) ver less.prems(5)
  proof (cases rule: EnumTypes_Next_one [where ok = "struct_memory e w"])
    case no_memory
    then show ?thesis using stop failing unconnected_refl by (auto simp: outcome_def all_well_def)
  next
    case no_more
    then show ?thesis using stop failing unconnected_refl by (auto simp: outcome_def)
  next
    case type
    let ?t = "ts ! ?k" and ?en = "en\<lparr>mt_Position := mt_Position en + 1\<rparr>"
    have d: "drop ?k ts = ?t # drop (Suc ?k) ts" using type(1) by (simp add: Cons_nth_drop_Suc)
    have IH: "\<exists>hr s'. try_types_loop e p q pmt w hrF' ?en s1 = Some (hr, s') \<and> outcome e p q pmt (drop (Suc ?k) ts) s1 hr s'"
      if "pins_unconnected p q s s1" "hrF' = S_OK \<or> \<not> SUCCEEDED hrF'" for s1 hrF'
    proof -
      have "m_TypeVersion (pins s1 w) = m_TypeVersion (pins s w)" using that(1) by (auto simp: pins_unconnected_def)
      then show ?thesis using less.hyps [of ?en s1 hrF'] type(1,4) less.prems that unconnected_idle [OF that(1)] unconnected_view [OF that(1)] by simp
    qed
    show ?thesis
    proof (cases "matches pmt ?t")
      case False
      have "try_types_loop e p q pmt w hrF en s = try_types_loop e p q pmt w hrF ?en s"
        using False type(3) by (subst try_types_loop.simps) (auto simp: matches_def split: option.splits)
      moreover obtain hr s' where "try_types_loop e p q pmt w hrF ?en s = Some (hr, s')" "outcome e p q pmt (drop (Suc ?k) ts) s hr s'"
        using IH [OF unconnected_refl less.prems(6)] by blast
      ultimately show ?thesis using outcome_skip [OF _ unconnected_refl pq] False d by auto
    next
      case m: True
      note step = try_types_loop.simps [of e p q pmt w hrF en s]
      show ?thesis using less.prems(1,2)
      proof (cases rule: AttemptConnection_cases [where mt = ?t])
        case (agreed s')
        have "try_types_loop e p q pmt w hrF en s = Some (S_OK, s')"
          using m type(3) agreed(1) by (subst step) (auto simp: matches_def split: option.splits)
        then show ?thesis using agreed m d by (auto simp: outcome_def accepted_by_def)
      next
        case (failed hr s1)
        let ?f = "if \<not> SUCCEEDED hr \<and> SUCCEEDED hrF \<and> specific_error hr then hr else hrF"
        have f: "?f = S_OK \<or> \<not> SUCCEEDED ?f" using failed(2) less.prems(6) by auto
        have "hr \<noteq> S_OK" using failed(2) by auto
        then have "try_types_loop e p q pmt w hrF en s = try_types_loop e p q pmt w ?f ?en s1"
          using m type(3) failed(1) by (subst step) (auto simp: matches_def Let_def split: option.splits)
        moreover obtain hr' s' where "try_types_loop e p q pmt w ?f ?en s1 = Some (hr', s')" "outcome e p q pmt (drop (Suc ?k) ts) s1 hr' s'"
          using IH [OF failed(3) f] by blast
        moreover have "all_well e \<Longrightarrow> \<not> (matches pmt ?t \<and> accepted_by e p q ?t)"
          using all_well_attempt [OF less.prems(1) _ _ failed(1)] failed(2) by blast
        ultimately show ?thesis using outcome_skip [OF _ failed(3) pq] d by auto
      qed
    qed
  qed
qed

lemma idle_AddRef: "idle p q s \<Longrightarrow> idle p q (Pin_AddRef w s)"
  by (simp add: idle_def Pin_AddRef_def)

lemma connected_Release:
  assumes "pins_connected p q mt (Pin_AddRef w s) s'" and "w = p \<or> w = q" and "p \<noteq> q"
  shows "\<exists>s''. Pin_Release w s' = Some s'' \<and> pins_connected p q mt s s''"
proof -
  obtain a n where s': "s' = (Pin_AddRef w s)\<lparr>pins := (pins s)(p := (pins s p)\<lparr>m_pInputPin := Some q, m_Connected := Some q, m_mt := mt, m_pAllocator := Some a\<rparr>,
       q := (pins s q)\<lparr>m_Connected := Some p, m_mt := mt, m_pAllocator := Some a, m_bReadOnly := False\<rparr>),
     pin_refs := (pin_refs (Pin_AddRef w s))(p := pin_refs (Pin_AddRef w s) p + 1, q := pin_refs (Pin_AddRef w s) q + 2), alloc_refs := (alloc_refs s)(a := 2), next_alloc := n\<rparr>"
     "next_alloc s \<le> a" "a < n"
    using assms(1) by (auto simp: pins_connected_def Pin_AddRef_def)
  let ?s = "s\<lparr>pins := (pins s)(p := (pins s p)\<lparr>m_pInputPin := Some q, m_Connected := Some q, m_mt := mt, m_pAllocator := Some a\<rparr>,
       q := (pins s q)\<lparr>m_Connected := Some p, m_mt := mt, m_pAllocator := Some a, m_bReadOnly := False\<rparr>),
     pin_refs := (pin_refs s)(p := pin_refs s p + 1, q := pin_refs s q + 2), alloc_refs := (alloc_refs s)(a := 2), next_alloc := n\<rparr>"
  have "Pin_Release w s' = Some ?s" using assms(2,3) by (auto simp: s'(1) Pin_Release_def Pin_AddRef_def fun_eq_iff intro!: sys_eqI)
  then show ?thesis using pins_connectedI [OF refl s'(2,3)] by blast
qed

lemma unconnected_Release:
  assumes "pins_unconnected p q (Pin_AddRef w s) s'"
  shows "\<exists>s''. Pin_Release w s' = Some s'' \<and> pins_unconnected p q s s''"
proof -
  obtain x y z n where s': "s' = (Pin_AddRef w s)\<lparr>pins := (pins s)(p := (pins s p)\<lparr>m_mt := x\<rparr>, q := (pins s q)\<lparr>m_mt := y, m_bReadOnly := z\<rparr>), next_alloc := n\<rparr>" "next_alloc s \<le> n"
    using assms by (auto simp: pins_unconnected_def Pin_AddRef_def)
  then have "Pin_Release w s' = Some (s\<lparr>pins := (pins s)(p := (pins s p)\<lparr>m_mt := x\<rparr>, q := (pins s q)\<lparr>m_mt := y, m_bReadOnly := z\<rparr>), next_alloc := n\<rparr>)"
    by (simp add: Pin_Release_def Pin_AddRef_def)
  then show ?thesis using pins_unconnectedI [OF refl s'(2)] by blast
qed

lemma agree_round_outcome:
  assumes "idle p q s" and "pin_env_ok e" and "pin_types (pin_view e w s) ts" and "w = p \<or> w = q" and "\<not> SUCCEEDED hrF"
  shows "\<exists>b hr s'. agree_round e p q pmt w hrF s = Some (b, hr, s') \<and> outcome e p q pmt ts s hr s' \<and> (b \<longleftrightarrow> SUCCEEDED hr)"
proof (cases "enum_memory e w")
  case False
  then have "\<not> all_well e" by (auto simp: all_well_def)
  then show ?thesis using False assms(5) outcome_failure [OF assms(5) unconnected_refl, of e ts pmt p q s]
    by (intro exI [of _ False]) (simp add: agree_round_def EnumMediaTypes_def)
next
  case True
  let ?s = "Pin_AddRef w s" and ?en = "snd (EnumTypes_Reset (pin_view e w (Pin_AddRef w s)) (new_CEnumMediaTypes (pin_view e w s)))"
  have pq: "p \<noteq> q" using assms(1) by (simp add: idle_def)
  have v: "pin_view e w ?s = pin_view e w s" by (simp add: pin_view_def Pin_AddRef_def)
  have "mt_Version ?en = m_TypeVersion (pins ?s w)" "mt_Position ?en = 0" by (simp_all add: EnumTypes_Reset_def pin_view_def Pin_AddRef_def)
  then obtain hr s' where l: "try_types_loop e p q pmt w S_OK ?en ?s = Some (hr, s')" "outcome e p q pmt ts ?s hr s'"
    using try_types_loop_outcome [OF idle_AddRef [OF assms(1)] assms(2), of w w ts ?en S_OK pmt] assms(3) v by auto
  have t: "TryMediaTypes e p q pmt w (new_CEnumMediaTypes (pin_view e w s)) ?s = Some (hr, s')"
    using l(1) by (simp add: TryMediaTypes_def EnumTypes_Reset_def)
  obtain s'' where r: "Pin_Release w s' = Some s''" "outcome e p q pmt ts s hr s''"
    using l(2)
  proof (cases rule: outcome_cases)
    case (success mt)
    then show ?thesis using that connected_Release [OF success(2) assms(4) pq] outcome_success [of p q mt s _ e pmt ts] by auto
  next
    case failure
    then show ?thesis using that unconnected_Release [OF failure(2)] outcome_failure [of hr p q s _ e ts pmt] by auto
  qed
  have "outcome e p q pmt ts s (if SUCCEEDED hr then S_OK else if specific_error hr then hr else hrF) s''"
    using r(2) assms(5) by (cases rule: outcome_cases) (auto simp: outcome_def)
  then show ?thesis using True t r(1) assms(5) by (auto simp: agree_round_def EnumMediaTypes_def)
qed

lemma find_append_Some: "find P xs = Some x \<Longrightarrow> find P (xs @ ys) = Some x"
  by (induction xs) (auto split: if_splits)

lemma matches_partial_refl: "matches_partial mt mt"
  by (cases mt) simp

definition candidates :: "mtype option \<Rightarrow> bool \<Rightarrow> mtype list \<Rightarrow> mtype list \<Rightarrow> mtype list" where
  "candidates pmt mine_first mine others =
     (if pmt \<noteq> None \<and> \<not> partially_specified (the pmt) then [the pmt] else if mine_first then mine @ others else others @ mine)"

lemma AgreeMediaType_outcome:
  assumes "idle p q s" and "pin_env_ok e" and "pin_types (pin_view e p s) tp" and "pin_types (pin_view e q s) tq"
  shows "\<exists>hr s'. AgreeMediaType e p q pmt s = Some (hr, s') \<and> outcome e p q pmt (candidates pmt (m_bTryMyTypesFirst (pins s p)) tp tq) s hr s'"
proof (cases "pmt \<noteq> None \<and> \<not> partially_specified (the pmt)")
  case True
  then obtain mt where mt: "pmt = Some mt" "candidates pmt (m_bTryMyTypesFirst (pins s p)) tp tq = [mt]" "AgreeMediaType e p q pmt s = AttemptConnection e p q mt s"
    by (auto simp: candidates_def AgreeMediaType_def)
  have m: "matches pmt mt" using mt(1) by (simp add: matches_def matches_partial_refl)
  show ?thesis using assms(1,2)
  proof (cases rule: AttemptConnection_cases [where mt = mt])
    case (agreed s')
    then show ?thesis using outcome_success [OF agreed(2), of e pmt "[mt]"] m mt by (simp add: accepted_by_def)
  next
    case (failed hr s')
    then show ?thesis using outcome_failure [OF failed(2,3), of e "[mt]" pmt] all_well_attempt [OF assms(1) _ _ failed(1)] mt by auto
  qed
next
  case False
  let ?f = "m_bTryMyTypesFirst (pins s p)"
  let ?w = "if ?f then p else q" and ?w' = "if ?f then q else p" and ?t = "if ?f then tp else tq" and ?t' = "if ?f then tq else tp"
  have pq: "p \<noteq> q" using assms(1) by (simp add: idle_def)
  have agree: "AgreeMediaType e p q pmt s = do {
      (done, hr, s) \<leftarrow> agree_round e p q pmt (if m_bTryMyTypesFirst (pins s p) then p else q) VFW_E_NO_ACCEPTABLE_TYPES s;
      if done then Some (NOERROR, s)
      else do { (done, hr, s) \<leftarrow> agree_round e p q pmt (if m_bTryMyTypesFirst (pins s p) then q else p) hr s; Some (if done then NOERROR else hr, s) } }"
    unfolding AgreeMediaType_def using False by (rule if_not_P)
  have c: "candidates pmt ?f tp tq = ?t @ ?t'" using False by (auto simp: candidates_def)
  have n: "\<not> SUCCEEDED VFW_E_NO_ACCEPTABLE_TYPES" by (simp add: hr_defs SUCCEEDED_def)
  have "pin_types (pin_view e ?w s) ?t" "?w = p \<or> ?w = q" using assms(3,4) by simp_all
  then obtain b hr s1 where 1: "agree_round e p q pmt ?w VFW_E_NO_ACCEPTABLE_TYPES s = Some (b, hr, s1)" "outcome e p q pmt ?t s hr s1" "b \<longleftrightarrow> SUCCEEDED hr"
    using agree_round_outcome [OF assms(1,2) _ _ n] by blast
  show ?thesis
  proof (cases "SUCCEEDED hr")
    case True
    then have a: "AgreeMediaType e p q pmt s = Some (S_OK, s1)" using 1(1,3) by (simp add: agree)
    from 1(2) True obtain mt where mt: "pins_connected p q mt s s1" "accepted_by e p q mt" "matches pmt mt" "mt \<in> set ?t"
      "all_well e \<longrightarrow> find (\<lambda>t. matches pmt t \<and> accepted_by e p q t) ?t = Some mt" by (auto elim: outcome_cases)
    have "outcome e p q pmt (?t @ ?t') s S_OK s1"
    proof (rule outcome_success [OF mt(1-3)])
      show "mt \<in> set (?t @ ?t')" using mt(4) by simp
      show "find (\<lambda>t. matches pmt t \<and> accepted_by e p q t) (?t @ ?t') = Some mt" if "all_well e" using mt(5) that by (intro find_append_Some) simp
    qed
    then show ?thesis using a c by simp
  next
    case f: False
    then have u: "pins_unconnected p q s s1" using 1(2) by (auto elim: outcome_cases)
    have i: "idle p q s1" using unconnected_idle [OF u assms(1)] .
    have "m_bTryMyTypesFirst (pins s1 p) = ?f" using u pq by (auto simp: pins_unconnected_def)
    moreover have "pin_types (pin_view e ?w' s1) ?t'" "?w' = p \<or> ?w' = q" using assms(3,4) unconnected_view [OF u] by simp_all
    then obtain b' hr' s2 where 2: "agree_round e p q pmt ?w' hr s1 = Some (b', hr', s2)" "outcome e p q pmt ?t' s1 hr' s2" "b' \<longleftrightarrow> SUCCEEDED hr'"
      using agree_round_outcome [OF i assms(2) _ _ f] by blast
    ultimately have "AgreeMediaType e p q pmt s = Some (if b' then S_OK else hr', s2)" using 1(1,3) f by (simp add: agree)
    moreover have "outcome e p q pmt (?t @ ?t') s hr' s2" by (rule outcome_append [OF 1(2) f 2(2) pq])
    moreover have "(if b' then S_OK else hr') = hr'" using 2(2,3) by (auto elim: outcome_cases)
    ultimately show ?thesis using c by auto
  qed
qed

lemma unconnected_break:
  assumes "idle p q s" and "pins_unconnected p q s s'"
  shows "BreakConnect e p s' = Some (S_OK, s')"
  using unconnected_idle [OF assms(2,1)] by (simp add: BreakConnect_output idle_def)

lemma Pin_Connect_outcome:
  assumes "idle p q s" and "pin_env_ok e" and "pin_types (pin_view e p s) tp" and "pin_types (pin_view e q s) tq"
    and "filter_stopped (pins s p) \<or> m_bCanReconnectWhenActive (pins s p)"
  shows "\<exists>hr s'. Pin_Connect e p q pmt s = Some (hr, s') \<and> outcome e p q pmt (candidates pmt (m_bTryMyTypesFirst (pins s p)) tp tq) s hr s'"
proof -
  obtain hr s' where a: "AgreeMediaType e p q pmt s = Some (hr, s')" "outcome e p q pmt (candidates pmt (m_bTryMyTypesFirst (pins s p)) tp tq) s hr s'"
    using AgreeMediaType_outcome [OF assms(1-4)] by blast
  have i: "m_Connected (pins s p) = None" using assms(1) by (simp add: idle_def)
  show ?thesis using a(2)
  proof (cases rule: outcome_cases)
    case (success mt)
    then have "Pin_Connect e p q pmt s = Some (hr, s')" using a(1) i assms(5) by (auto simp: Pin_Connect_def)
    then show ?thesis using a(2) by blast
  next
    case failure
    then have "Pin_Connect e p q pmt s = Some (hr, s')" using a(1) i assms(5) unconnected_break [OF assms(1) failure(2)] by (auto simp: Pin_Connect_def)
    then show ?thesis using a(2) by blast
  qed
qed

lemma connected_disconnect:
  assumes "idle p q s" and "pins_connected p q mt s s'" and "\<And>a. SUCCEEDED (decommit e a)" and "filter_stopped (pins s p)"
  shows "\<exists>s1 s2. Pin_Disconnect e q s' = Some (S_OK, s1) \<and> Pin_Disconnect e p s1 = Some (S_OK, s2) \<and> pins_unconnected p q s s2"
    and "\<exists>s1 s2. Pin_Disconnect e p s' = Some (S_OK, s1) \<and> Pin_Disconnect e q s1 = Some (S_OK, s2) \<and> pins_unconnected p q s s2"
proof -
  have pq: "p \<noteq> q" and d: "m_dir (pins s p) = PINDIR_OUTPUT" "m_dir (pins s q) = PINDIR_INPUT"
    and i: "m_Connected (pins s p) = None" "m_Connected (pins s q) = None" "m_pAllocator (pins s p) = None" "m_pAllocator (pins s q) = None"
      "m_pInputPin (pins s p) = None" "filter_stopped (pins s q)" and fresh: "\<And>b. next_alloc s \<le> b \<Longrightarrow> alloc_refs s b = 0"
    using assms(1) by (auto simp: idle_def)
  obtain a n where s': "s' = s\<lparr>pins := (pins s)(p := (pins s p)\<lparr>m_pInputPin := Some q, m_Connected := Some q, m_mt := mt, m_pAllocator := Some a\<rparr>,
       q := (pins s q)\<lparr>m_Connected := Some p, m_mt := mt, m_pAllocator := Some a, m_bReadOnly := False\<rparr>),
     pin_refs := (pin_refs s)(p := pin_refs s p + 1, q := pin_refs s q + 2), alloc_refs := (alloc_refs s)(a := 2), next_alloc := n\<rparr>"
     "next_alloc s \<le> a" "a < n" using assms(2) by (auto simp: pins_connected_def)
  let ?u = "s\<lparr>pins := (pins s)(p := (pins s p)\<lparr>m_mt := mt\<rparr>, q := (pins s q)\<lparr>m_mt := mt, m_bReadOnly := False\<rparr>), next_alloc := n\<rparr>"
  have u: "pins_unconnected p q s ?u" using pins_unconnectedI [OF refl, of s n] s'(2,3) by simp
  note eqs = Pin_Disconnect_def DisconnectInternal_def BreakConnect_input BreakConnect_output release_connected_eq
  let ?q = "s'\<lparr>pins := (pins s')(q := (pins s q)\<lparr>m_mt := mt, m_bReadOnly := False\<rparr>), pin_refs := (pin_refs s)(q := pin_refs s q + 2), alloc_refs := (alloc_refs s)(a := 1)\<rparr>"
  have "Pin_Disconnect e q s' = Some (S_OK, ?q)"
    using pq d i assms(3,4) by (simp add: s'(1) eqs pin_same fun_upd_twist)
  moreover have "Pin_Disconnect e p ?q = Some (S_OK, ?u)"
    using pq d i assms(3,4) fresh [OF s'(2)] by (simp add: s'(1) eqs) (rule sys_eqI, auto simp: fun_eq_iff pin_same)
  ultimately show "\<exists>s1 s2. Pin_Disconnect e q s' = Some (S_OK, s1) \<and> Pin_Disconnect e p s1 = Some (S_OK, s2) \<and> pins_unconnected p q s s2"
    using u by blast
  let ?p = "s'\<lparr>pins := (pins s')(p := (pins s p)\<lparr>m_mt := mt\<rparr>), pin_refs := (pin_refs s)(p := pin_refs s p + 1), alloc_refs := (alloc_refs s)(a := 1)\<rparr>"
  have "Pin_Disconnect e p s' = Some (S_OK, ?p)"
    using pq d i assms(3,4) by (simp add: s'(1) eqs) (rule sys_eqI, auto simp: fun_eq_iff pin_same)
  moreover have "Pin_Disconnect e q ?p = Some (S_OK, ?u)"
    using pq d i assms(3,4) fresh [OF s'(2)] by (simp add: s'(1) eqs) (rule sys_eqI, auto simp: fun_eq_iff pin_same)
  ultimately show "\<exists>s1 s2. Pin_Disconnect e p s' = Some (S_OK, s1) \<and> Pin_Disconnect e q s1 = Some (S_OK, s2) \<and> pins_unconnected p q s s2"
    using u by blast
qed

section \<open>Properties\<close>

text \<open>C6. Connecting an output pin to an input pin always ends, with both pins connected to each other or with neither. If it
  succeeds both have the same type, which both accept, which matches the type asked for and which is that
  type or one of those they enumerate, and both hold the same allocator; the references are one on
  the output pin, two on the input pin and two on the allocator. If it fails all references are as before.\<close>

theorem pin_connect_both_or_none:
  assumes "idle p q s" and "pin_env_ok e" and "pin_types (pin_view e p s) tp" and "pin_types (pin_view e q s) tq"
    and "filter_stopped (pins s p) \<or> m_bCanReconnectWhenActive (pins s p)"
  shows "\<exists>hr s'. Pin_Connect e p q pmt s = Some (hr, s') \<and>
    (hr = S_OK \<and> (\<exists>mt. pins_connected p q mt s s' \<and> accepted_by e p q mt \<and> matches pmt mt \<and>
        mt \<in> set (candidates pmt (m_bTryMyTypesFirst (pins s p)) tp tq)) \<or>
     \<not> SUCCEEDED hr \<and> pins_unconnected p q s s')"
  using Pin_Connect_outcome [OF assms, of pmt] by (fastforce elim: outcome_cases)

text \<open>C14. When neither memory nor allocators fail, pins connect exactly when some candidate matches the type asked for
  and is accepted by both, and then with the first such: the types of the input pin come first unless the output pin
  wants its own tried first.\<close>

theorem pin_connect_first_type:
  assumes "idle p q s" and "all_well e" and "pin_types (pin_view e p s) tp" and "pin_types (pin_view e q s) tq"
    and "filter_stopped (pins s p) \<or> m_bCanReconnectWhenActive (pins s p)"
  shows "\<exists>hr s'. Pin_Connect e p q pmt s = Some (hr, s') \<and>
    (case find (\<lambda>t. matches pmt t \<and> accepted_by e p q t) (candidates pmt (m_bTryMyTypesFirst (pins s p)) tp tq) of
       Some mt \<Rightarrow> hr = S_OK \<and> pins_connected p q mt s s'
     | None \<Rightarrow> \<not> SUCCEEDED hr \<and> pins_unconnected p q s s')"
proof -
  let ?c = "candidates pmt (m_bTryMyTypesFirst (pins s p)) tp tq"
  obtain hr s' where c: "Pin_Connect e p q pmt s = Some (hr, s')" "outcome e p q pmt ?c s hr s'"
    using Pin_Connect_outcome [OF assms(1) all_well_pin_env_ok [OF assms(2)] assms(3-5), of pmt] by blast
  show ?thesis using c(2)
  proof (cases rule: outcome_cases)
    case (success mt)
    then show ?thesis using c(1) assms(2) by auto
  next
    case failure
    then have "find (\<lambda>t. matches pmt t \<and> accepted_by e p q t) ?c = None" using assms(2) by (auto simp: find_None_iff)
    then show ?thesis using c(1) failure by auto
  qed
qed

text \<open>C32. Disconnecting both pins of a connection, in either order, gives back every reference.\<close>

theorem pin_connect_disconnect:
  assumes "idle p q s" and "pin_env_ok e" and "pin_types (pin_view e p s) tp" and "pin_types (pin_view e q s) tq" and "filter_stopped (pins s p)"
    and "Pin_Connect e p q pmt s = Some (S_OK, s')"
  shows "(\<exists>s1 s2. Pin_Disconnect e q s' = Some (S_OK, s1) \<and> Pin_Disconnect e p s1 = Some (S_OK, s2) \<and> pins_unconnected p q s s2) \<and>
    (\<exists>s1 s2. Pin_Disconnect e p s' = Some (S_OK, s1) \<and> Pin_Disconnect e q s1 = Some (S_OK, s2) \<and> pins_unconnected p q s s2)"
proof -
  obtain mt where "pins_connected p q mt s s'"
    using Pin_Connect_outcome [OF assms(1-4), of pmt] assms(5,6) by (auto elim: outcome_cases)
  then show ?thesis using connected_disconnect [OF assms(1)] assms(2,5) by (auto simp: pin_env_ok_def)
qed

definition pcm_type :: "nat \<Rightarrow> mtype" where
  "pcm_type n = MType MEDIATYPE_Audio (FOURCCMap 1) FORMAT_WaveFormatEx [of_nat n]"

text \<open>An output pin 0 without types and an input pin 1 with two, which accept everything.\<close>

definition demo_env :: pin_env where
  "demo_env = \<lparr>CheckMediaType = (\<lambda>r mt. S_OK), PinGetMediaType = (\<lambda>r i. if r = 1 \<and> i = 0 then (S_OK, pcm_type 0) else if r = 1 \<and> i = 1 then (S_OK, pcm_type 1) else (S_FALSE, null_type)),
     DecideBufferSize = (\<lambda>r a pr. (S_OK, pr)), GetAllocatorRequirements = (\<lambda>r. \<lparr>cBuffers = 0, cbBuffer_req = 0, cbAlign = 0, cbPrefix = 0\<rparr>),
     after_complete = (\<lambda>r. S_OK), type_memory = (\<lambda>r mt. True), enum_memory = (\<lambda>r. True), struct_memory = (\<lambda>r i. True),
     create_allocator = (\<lambda>a. S_OK), decommit = (\<lambda>a. S_OK)\<rparr>"

definition demo_sys :: pin_sys where
  "demo_sys = \<lparr>pins = (\<lambda>r. new_CBasePin (if r = 0 then PINDIR_OUTPUT else PINDIR_INPUT)), pin_refs = (\<lambda>r. 0), alloc_refs = (\<lambda>a. 0), next_alloc = 0\<rparr>"

text \<open>The input pin belongs to a filter that runs and lets its pins reconnect.\<close>

definition running_sys :: pin_sys where
  "running_sys = upd_pin 1 (\<lambda>x. x\<lparr>filter_stopped := False, m_bCanReconnectWhenActive := True\<rparr>) demo_sys"

lemma specified_formats: "MEDIATYPE_Audio \<noteq> GUID_NULL" "FORMAT_WaveFormatEx \<noteq> GUID_NULL" "\<not> SUCCEEDED E_FAIL"
  by (simp_all add: MEDIATYPE_Audio_def FORMAT_WaveFormatEx_def GUID_NULL_def FOURCCMap_def InitGUID_def SetFOURCC_def hr_defs SUCCEEDED_def)

lemma demo_idle: "idle 0 1 demo_sys"
  by (simp add: idle_def demo_sys_def new_CBasePin_def)

lemma demo_well: "all_well demo_env"
  by (simp add: all_well_def demo_env_def)

lemma demo_types: "pin_types (pin_view demo_env 0 demo_sys) []" "pin_types (pin_view demo_env 1 demo_sys) [pcm_type 0, pcm_type 1]"
proof -
  have f: "S_FALSE \<noteq> S_OK" by (simp add: hr_defs)
  then show "pin_types (pin_view demo_env 0 demo_sys) []" by (simp add: pin_types_def pin_view_def demo_env_def)
  have "(word_of_nat k :: 32 word) \<noteq> 0 \<and> (word_of_nat k :: 32 word) \<noteq> 1" if "2 \<le> k" "k < 2 ^ 31" for k :: nat
  proof -
    have "unat (word_of_nat k :: 32 word) = k" using that by (simp add: unat_of_nat)
    then show ?thesis using that by auto
  qed
  then show "pin_types (pin_view demo_env 1 demo_sys) [pcm_type 0, pcm_type 1]"
    using f by (auto simp: pin_types_def pin_view_def demo_env_def less_Suc_eq)
qed

lemma demo_ready: "filter_stopped (pins demo_sys 0) \<or> m_bCanReconnectWhenActive (pins demo_sys 0)"
  by (simp add: demo_sys_def new_CBasePin_def)

theorem pin_connect_both_or_none_witness:
  "\<exists>hr s'. Pin_Connect demo_env 0 1 None demo_sys = Some (hr, s') \<and>
    (hr = S_OK \<and> (\<exists>mt. pins_connected 0 1 mt demo_sys s') \<or> \<not> SUCCEEDED hr \<and> pins_unconnected 0 1 demo_sys s')"
  using pin_connect_both_or_none [OF demo_idle all_well_pin_env_ok [OF demo_well] demo_types demo_ready, of None] by blast

theorem pin_connect_first_type_witness:
  "\<exists>s'. Pin_Connect demo_env 0 1 None demo_sys = Some (S_OK, s') \<and> pins_connected 0 1 (pcm_type 0) demo_sys s'"
  using pin_connect_first_type [OF demo_idle demo_well demo_types demo_ready, of None]
  by (simp add: candidates_def demo_sys_def new_CBasePin_def matches_def accepted_by_def demo_env_def)

theorem pin_connect_disconnect_witness:
  "\<exists>s' s1 s2. Pin_Connect demo_env 0 1 None demo_sys = Some (S_OK, s') \<and> Pin_Disconnect demo_env 1 s' = Some (S_OK, s1) \<and>
     Pin_Disconnect demo_env 0 s1 = Some (S_OK, s2) \<and> pins_unconnected 0 1 demo_sys s2"
proof -
  obtain s' where "Pin_Connect demo_env 0 1 None demo_sys = Some (S_OK, s')"
    using Pin_Connect_outcome [OF demo_idle all_well_pin_env_ok [OF demo_well] demo_types demo_ready, of None] demo_well
    by (auto elim!: outcome_cases simp: candidates_def demo_sys_def new_CBasePin_def matches_def accepted_by_def demo_env_def)
  then show ?thesis using pin_connect_disconnect [OF demo_idle all_well_pin_env_ok [OF demo_well] demo_types, of None s']
    by (auto simp: demo_sys_def new_CBasePin_def)
qed

text \<open>The same pins when \<open>CompleteConnect\<close> of the output pin answers with the success \<open>S_FALSE\<close>.\<close>

definition lukewarm_env :: pin_env where
  "lukewarm_env = demo_env\<lparr>after_complete := (\<lambda>r. if r = 0 then S_FALSE else S_OK)\<rparr>"

definition pin_obs :: "pin_sys \<Rightarrow> nat option \<times> nat option \<times> nat \<times> nat \<times> i32 \<times> i32" where
  "pin_obs s = (m_Connected (pins s 0), m_Connected (pins s 1), pin_refs s 1, alloc_refs s 0, m_TypeVersion (pins s 0), m_TypeVersion (pins s 1))"

lemma already_connected_failed [simp]: "\<not> SUCCEEDED VFW_E_ALREADY_CONNECTED"
  by (simp add: hr_defs SUCCEEDED_def)

lemma lukewarm_attempts:
  "\<exists>s1 s2. AttemptConnection lukewarm_env 0 1 (pcm_type 0) (Pin_AddRef 1 demo_sys) = Some (S_FALSE, s1) \<and> pin_obs s1 = (Some 1, Some 0, 3, 2, 1, 1) \<and>
     AttemptConnection lukewarm_env 0 1 (pcm_type 1) s1 = Some (VFW_E_ALREADY_CONNECTED, s2) \<and> pin_obs s2 = (None, Some 0, 3, 1, 1, 1) \<and>
     pins s2 0 = (new_CBasePin PINDIR_OUTPUT)\<lparr>m_mt := pcm_type 1\<rparr>"
  by (simp add: AttemptConnection_def CheckConnect_def Pin_SetMediaType_def Pin_ReceiveConnection_def CompleteConnect_def DecideAllocator_def decide_round_def
      try_allocator_def initial_props_def
      InputPin_GetAllocator_def CreateMemoryAllocator_def InputPin_NotifyAllocator_def BreakConnect_def release_connected_def pin_prims
      lukewarm_env_def demo_env_def demo_sys_def new_CBasePin_def pin_obs_def)

lemma lukewarm_next:
  assumes "m_TypeVersion (pins s 0) = 1" and "m_TypeVersion (pins s 1) = 1"
  shows "EnumTypes_Next (pin_view lukewarm_env 0 s) (struct_memory lukewarm_env 0) 1 True \<lparr>mt_Position = 0, mt_Version = 1, mt_cRef = 1\<rparr> =
      (S_FALSE, [], \<lparr>mt_Position = 1, mt_Version = 1, mt_cRef = 1\<rparr>)"
    and "EnumTypes_Next (pin_view lukewarm_env 1 s) (struct_memory lukewarm_env 1) 1 True \<lparr>mt_Position = 0, mt_Version = 1, mt_cRef = 1\<rparr> =
      (S_OK, [pcm_type 0], \<lparr>mt_Position = 1, mt_Version = 1, mt_cRef = 1\<rparr>)"
    and "EnumTypes_Next (pin_view lukewarm_env 1 s) (struct_memory lukewarm_env 1) 1 True \<lparr>mt_Position = 1, mt_Version = 1, mt_cRef = 1\<rparr> =
      (S_OK, [pcm_type 1], \<lparr>mt_Position = 2, mt_Version = 1, mt_cRef = 1\<rparr>)"
    and "EnumTypes_Next (pin_view lukewarm_env 1 s) (struct_memory lukewarm_env 1) 1 True \<lparr>mt_Position = 2, mt_Version = 1, mt_cRef = 1\<rparr> =
      (S_FALSE, [], \<lparr>mt_Position = 3, mt_Version = 1, mt_cRef = 1\<rparr>)"
  using assms by (simp_all add: EnumTypes_Next_def EnumTypes_AreWeOutOfSync_def pin_view_def lukewarm_env_def demo_env_def hr_defs)

lemma lukewarm_run:
  "\<exists>s. Pin_Connect lukewarm_env 0 1 None demo_sys = Some (VFW_E_NO_ACCEPTABLE_TYPES, s) \<and>
     m_Connected (pins s 0) = None \<and> m_Connected (pins s 1) = Some 0 \<and> pin_refs s 1 = 2 \<and> alloc_refs s 0 = 1"
proof -
  obtain s1 s2 where s1: "AttemptConnection lukewarm_env 0 1 (pcm_type 0) (Pin_AddRef 1 demo_sys) = Some (S_FALSE, s1)" "pin_obs s1 = (Some 1, Some 0, 3, 2, 1, 1)"
    and s2: "AttemptConnection lukewarm_env 0 1 (pcm_type 1) s1 = Some (VFW_E_ALREADY_CONNECTED, s2)" "pin_obs s2 = (None, Some 0, 3, 1, 1, 1)"
      "pins s2 0 = (new_CBasePin PINDIR_OUTPUT)\<lparr>m_mt := pcm_type 1\<rparr>"
    using lukewarm_attempts by blast
  have v: "m_TypeVersion (pins s1 0) = 1" "m_TypeVersion (pins s1 1) = 1" "m_TypeVersion (pins s2 0) = 1" "m_TypeVersion (pins s2 1) = 1"
    using s1(2) s2(2) by (simp_all add: pin_obs_def)
  have d: "m_TypeVersion (pins (Pin_AddRef 1 demo_sys) 0) = 1" "m_TypeVersion (pins (Pin_AddRef 1 demo_sys) 1) = 1"
    by (simp_all add: demo_sys_def new_CBasePin_def Pin_AddRef_def)
  have h: "S_FALSE \<noteq> S_OK" "VFW_E_ALREADY_CONNECTED \<noteq> S_OK" "FAILED VFW_E_ALREADY_CONNECTED" "SUCCEEDED S_OK" "SUCCEEDED S_FALSE" "specific_error VFW_E_ALREADY_CONNECTED"
    by (simp_all add: hr_defs SUCCEEDED_def FAILED_def specific_error_def)
  have "try_types_loop lukewarm_env 0 1 None 1 S_OK \<lparr>mt_Position = 0, mt_Version = 1, mt_cRef = 1\<rparr> (Pin_AddRef 1 demo_sys) = 
    try_types_loop lukewarm_env 0 1 None 1 S_OK \<lparr>mt_Position = 1, mt_Version = 1, mt_cRef = 1\<rparr> s1"
    using h s1(1) by (subst try_types_loop.simps) (simp add: lukewarm_next [OF d] del: One_nat_def)
  also have "\<dots> = try_types_loop lukewarm_env 0 1 None 1 VFW_E_ALREADY_CONNECTED \<lparr>mt_Position = 2, mt_Version = 1, mt_cRef = 1\<rparr> s2"
    using h s2(1) by (subst try_types_loop.simps) (simp add: lukewarm_next [OF v(1,2)] del: One_nat_def)
  also have "\<dots> = Some (VFW_E_ALREADY_CONNECTED, s2)"
    using h by (subst try_types_loop.simps) (simp add: lukewarm_next [OF v(3,4)] del: One_nat_def)
  finally have t: "TryMediaTypes lukewarm_env 0 1 None 1 \<lparr>mt_Position = 0, mt_Version = 1, mt_cRef = 1\<rparr> (Pin_AddRef 1 demo_sys) = Some (VFW_E_ALREADY_CONNECTED, s2)"
    using h by (simp add: TryMediaTypes_def EnumTypes_Reset_def pin_view_def demo_sys_def Pin_AddRef_def new_CBasePin_def)
  define s3 where "s3 = s2\<lparr>pin_refs := (pin_refs s2)(1 := 2)\<rparr>"
  have r1: "agree_round lukewarm_env 0 1 None 1 VFW_E_NO_ACCEPTABLE_TYPES demo_sys = Some (False, VFW_E_ALREADY_CONNECTED, s3)"
    using t h s2(2) by (simp add: agree_round_def EnumMediaTypes_def new_CEnumMediaTypes_def pin_view_def demo_sys_def new_CBasePin_def
        lukewarm_env_def demo_env_def pin_obs_def Pin_Release_def s3_def)
  have p3: "pins s3 = pins s2" by (simp add: s3_def)
  have v3: "m_TypeVersion (pins (Pin_AddRef 0 s3) 0) = 1" "m_TypeVersion (pins (Pin_AddRef 0 s3) 1) = 1" using v by (simp_all add: p3 Pin_AddRef_def)
  have "try_types_loop lukewarm_env 0 1 None 0 S_OK \<lparr>mt_Position = 0, mt_Version = 1, mt_cRef = 1\<rparr> (Pin_AddRef 0 s3) =
      Some (VFW_E_NO_ACCEPTABLE_TYPES, Pin_AddRef 0 s3)"
    using h by (subst try_types_loop.simps) (simp add: lukewarm_next [OF v3] del: One_nat_def)
  then have r2: "agree_round lukewarm_env 0 1 None 0 VFW_E_ALREADY_CONNECTED s3 = Some (False, VFW_E_NO_ACCEPTABLE_TYPES, s3)"
    using h v3 by (simp add: agree_round_def TryMediaTypes_def EnumTypes_Reset_def EnumMediaTypes_def new_CEnumMediaTypes_def pin_view_def 
        lukewarm_env_def demo_env_def Pin_Release_def Pin_AddRef_def specific_error_def hr_defs SUCCEEDED_def FAILED_def)
  have "AgreeMediaType lukewarm_env 0 1 None demo_sys = Some (VFW_E_NO_ACCEPTABLE_TYPES, s3)"
    using r1 r2 s2(3) by (simp add: AgreeMediaType_def demo_sys_def new_CBasePin_def p3)
  then have "Pin_Connect lukewarm_env 0 1 None demo_sys = Some (VFW_E_NO_ACCEPTABLE_TYPES, s3)"
    using s2(3) by (simp add: Pin_Connect_def demo_sys_def new_CBasePin_def p3 BreakConnect_output hr_defs FAILED_def SUCCEEDED_def)
  then show ?thesis using s2(2) by (simp add: s3_def pin_obs_def)
qed

text \<open>Where the assumptions fail a connection can end on one side only. When a derived \<open>CompleteConnect\<close> of the output
  pin succeeds with \<open>S_FALSE\<close> the loop over types, which stops at \<open>S_OK\<close> only, goes on to try the next type, which undoes the
  connection of the output pin: \<open>Connect\<close> fails while the input pin is connected. When the filter of the input
  pin runs and lets its pins reconnect, a failing \<open>CompleteConnect\<close> of the output pin leaves the input pin connected, since
  the call of \<open>Disconnect\<close> that should undo it is refused.\<close>

theorem pin_connect_one_sided:
  "(\<exists>s. Pin_Connect lukewarm_env 0 1 None demo_sys = Some (VFW_E_NO_ACCEPTABLE_TYPES, s) \<and>
      m_Connected (pins s 0) = None \<and> m_Connected (pins s 1) = Some 0 \<and> pin_refs s 1 = 2 \<and> alloc_refs s 0 = 1) \<and>
   (\<exists>s. Pin_Connect (demo_env\<lparr>after_complete := (\<lambda>r. if r = 0 then E_FAIL else S_OK)\<rparr>) 0 1 (Some (pcm_type 0)) running_sys = Some (E_FAIL, s) \<and>
      m_Connected (pins s 0) = None \<and> m_Connected (pins s 1) = Some 0 \<and> pin_refs s 0 = 1 \<and> alloc_refs s 0 = 1)"
  using lukewarm_run by (simp add: Pin_Connect_def AgreeMediaType_def  AttemptConnection_def CheckConnect_def Pin_SetMediaType_def Pin_ReceiveConnection_def CompleteConnect_def DecideAllocator_def decide_round_def
      try_allocator_def initial_props_def Pin_Disconnect_def
      InputPin_GetAllocator_def CreateMemoryAllocator_def InputPin_NotifyAllocator_def BreakConnect_def release_connected_def pin_prims
      demo_env_def running_sys_def demo_sys_def new_CBasePin_def pcm_type_def specified_formats)

end
