(* ===== verification/Dynamic_Pin.thy ===== *)
theory Dynamic_Pin
  imports Pin_Connect "HOL-Library.Multiset"
begin

text \<open>
  Model of \<open>CDynamicOutputPin\<close> (\<open>src/baseclasses/amfilter.cpp\<close>, \<open>amfilter.h\<close>): the application blocks and unblocks the pin
  while the streaming thread uses it, and the streaming thread changes the media type of a running connection.
  The members that the block state lock guards are a record with the kernel's events; a locked section is one function. What
  the operating system answers, and what the other pin and the graph answer, are arguments.
\<close>

definition VFW_E_PIN_ALREADY_BLOCKED :: HRESULT where [hr_defs]: "VFW_E_PIN_ALREADY_BLOCKED = 0x80040293"
definition VFW_E_PIN_ALREADY_BLOCKED_ON_THIS_THREAD :: HRESULT where [hr_defs]: "VFW_E_PIN_ALREADY_BLOCKED_ON_THIS_THREAD = 0x80040294"

text \<open>The macro of the system, and the function of \<open>wxutil.cpp\<close> on the last error of the thread.\<close>

definition HRESULT_FROM_WIN32 :: "u32 \<Rightarrow> HRESULT" where
  "HRESULT_FROM_WIN32 x = (if sint x \<le> 0 then x else (x AND 0xFFFF) OR push_bit 16 7 OR 0x80000000)"

definition AmGetLastErrorToHResult :: "u32 \<Rightarrow> HRESULT" where
  "AmGetLastErrorToHResult dwLastError = (if dwLastError \<noteq> 0 then HRESULT_FROM_WIN32 dwLastError else E_FAIL)"

section \<open>State\<close>

datatype BLOCK_STATE = NOT_BLOCKED | PENDING | BLOCKED

text \<open>The pin's own event, the stop event of its filter, events of clients and those that synchronous blocks create. A
  handle is the event it stands for; \<open>open_handles\<close> counts the handles of each.\<close>

datatype event = UnblockEvent | StopEvent | ClientEvent nat | PrivateEvent nat

record CDynamicOutputPin =
  m_hStopEvent :: "event option"
  m_pGraphConfig :: bool
  m_bPinUsesReadOnlyAllocator :: bool
  m_BlockState :: BLOCK_STATE
  m_hUnblockOutputPinEvent :: "event option"
  m_hNotifyCallerPinBlockedEvent :: "event option"
  m_dwBlockCallerThreadID :: u32
  m_dwNumOutstandingOutputPinUsers :: u32
  signaled :: "event \<Rightarrow> bool"
  open_handles :: "event \<Rightarrow> nat"

definition SetEvent :: "event \<Rightarrow> CDynamicOutputPin \<Rightarrow> CDynamicOutputPin" where
  "SetEvent ev d = d\<lparr>signaled := (signaled d)(ev := True)\<rparr>"

definition ResetEvent :: "event \<Rightarrow> CDynamicOutputPin \<Rightarrow> CDynamicOutputPin" where
  "ResetEvent ev d = d\<lparr>signaled := (signaled d)(ev := False)\<rparr>"

definition OpenHandle :: "event \<Rightarrow> CDynamicOutputPin \<Rightarrow> CDynamicOutputPin" where
  "OpenHandle ev d = d\<lparr>open_handles := (open_handles d)(ev := open_handles d ev + 1)\<rparr>"

definition CloseHandle :: "event \<Rightarrow> CDynamicOutputPin \<Rightarrow> CDynamicOutputPin" where
  "CloseHandle ev d = d\<lparr>open_handles := (open_handles d)(ev := open_handles d ev - 1)\<rparr>"

text \<open>The members after the initialiser list of the constructor; then \<open>Initialize\<close>, where \<open>created\<close> is the answer of \<open>CreateEvent\<close>.\<close>

definition dynamic_members :: CDynamicOutputPin where
  "dynamic_members = \<lparr>m_hStopEvent = None, m_pGraphConfig = False, m_bPinUsesReadOnlyAllocator = False, m_BlockState = NOT_BLOCKED,
     m_hUnblockOutputPinEvent = None, m_hNotifyCallerPinBlockedEvent = None, m_dwBlockCallerThreadID = 0,
     m_dwNumOutstandingOutputPinUsers = 0, signaled = (\<lambda>ev. False), open_handles = (\<lambda>ev. 0)\<rparr>"

definition Initialize :: "u32 option \<Rightarrow> CDynamicOutputPin \<Rightarrow> CBasePin \<Rightarrow> HRESULT \<times> CDynamicOutputPin \<times> CBasePin" where
  "Initialize failure d x = (case failure of
     Some dwLastError \<Rightarrow> (AmGetLastErrorToHResult dwLastError, d, x)
   | None \<Rightarrow> (S_OK, OpenHandle UnblockEvent (SetEvent UnblockEvent (d\<lparr>m_hUnblockOutputPinEvent := Some UnblockEvent\<rparr>)),
       x\<lparr>m_bCanReconnectWhenActive := True\<rparr>))"

definition new_CDynamicOutputPin :: "u32 option \<Rightarrow> HRESULT \<Rightarrow> HRESULT \<times> CDynamicOutputPin \<times> CBasePin" where
  "new_CDynamicOutputPin failure phr =
     (let (hr, d, x) = Initialize failure dynamic_members (new_CBasePin PINDIR_OUTPUT) in (if FAILED hr then hr else phr, d, x))"

definition close_opt :: "event option \<Rightarrow> CDynamicOutputPin \<Rightarrow> CDynamicOutputPin" where
  "close_opt h d = (case h of None \<Rightarrow> d | Some ev \<Rightarrow> CloseHandle ev d)"

definition CDynamicOutputPin_destructor :: "CDynamicOutputPin \<Rightarrow> CDynamicOutputPin" where
  "CDynamicOutputPin_destructor d = close_opt (m_hNotifyCallerPinBlockedEvent d) (close_opt (m_hUnblockOutputPinEvent d) d)"

definition SetConfigInfo :: "bool \<Rightarrow> event option \<Rightarrow> CDynamicOutputPin \<Rightarrow> CDynamicOutputPin" where
  "SetConfigInfo pGraphConfig hStopEvent d = d\<lparr>m_pGraphConfig := pGraphConfig, m_hStopEvent := hStopEvent\<rparr>"

section \<open>Blocking and unblocking\<close>

definition StreamingThreadUsingOutputPin :: "CDynamicOutputPin \<Rightarrow> bool" where
  "StreamingThreadUsingOutputPin d \<longleftrightarrow> m_dwNumOutstandingOutputPinUsers d > 0"

definition set_opt :: "event option \<Rightarrow> CDynamicOutputPin \<Rightarrow> CDynamicOutputPin" where
  "set_opt h d = (case h of None \<Rightarrow> d | Some ev \<Rightarrow> SetEvent ev d)"

definition reset_opt :: "event option \<Rightarrow> CDynamicOutputPin \<Rightarrow> CDynamicOutputPin" where
  "reset_opt h d = (case h of None \<Rightarrow> d | Some ev \<Rightarrow> ResetEvent ev d)"

definition BlockOutputPin :: "CDynamicOutputPin \<Rightarrow> CDynamicOutputPin" where
  "BlockOutputPin d =
     (let d = reset_opt (m_hUnblockOutputPinEvent d) d;
          d = set_opt (m_hNotifyCallerPinBlockedEvent d) d;
          d = close_opt (m_hNotifyCallerPinBlockedEvent d) d
      in d\<lparr>m_BlockState := BLOCKED, m_hNotifyCallerPinBlockedEvent := None\<rparr>)"

text \<open>\<open>dup\<close> is the last error when \<open>DuplicateHandle\<close> fails.\<close>

definition AsynchronousBlockOutputPin :: "u32 option \<Rightarrow> u32 \<Rightarrow> event \<Rightarrow> CDynamicOutputPin \<Rightarrow> HRESULT \<times> CDynamicOutputPin" where
  "AsynchronousBlockOutputPin dup thread ev d =
     (if m_BlockState d \<noteq> NOT_BLOCKED
      then (if m_dwBlockCallerThreadID d = thread then VFW_E_PIN_ALREADY_BLOCKED_ON_THIS_THREAD else VFW_E_PIN_ALREADY_BLOCKED, d)
      else case dup of
        Some dwLastError \<Rightarrow> (AmGetLastErrorToHResult dwLastError, d)
      | None \<Rightarrow>
          (let d = (OpenHandle ev d)\<lparr>m_hNotifyCallerPinBlockedEvent := Some ev, m_BlockState := PENDING, m_dwBlockCallerThreadID := thread\<rparr>
           in (S_OK, if \<not> StreamingThreadUsingOutputPin d then BlockOutputPin d else d)))"

definition UnblockOutputPin :: "CDynamicOutputPin \<Rightarrow> HRESULT \<times> CDynamicOutputPin" where
  "UnblockOutputPin d =
     (if m_BlockState d = NOT_BLOCKED then (S_FALSE, d)
      else (let d = set_opt (m_hUnblockOutputPinEvent d) d;
                d = close_opt (m_hNotifyCallerPinBlockedEvent d) (set_opt (m_hNotifyCallerPinBlockedEvent d) d)
            in (S_OK, d\<lparr>m_BlockState := NOT_BLOCKED, m_dwBlockCallerThreadID := 0, m_hNotifyCallerPinBlockedEvent := None\<rparr>)))"

text \<open>What the system answers to a call of \<open>Block\<close>: the error of \<open>ResetEvent\<close>, the new event or the error of \<open>CreateEvent\<close>, and the
  error of \<open>DuplicateHandle\<close>. A call returns, or waits for an event it has created.\<close>

record block_answers =
  reset_error :: "u32 option"
  created :: "u32 + nat"
  dup_error :: "u32 option"

datatype block_result = Block_Returns HRESULT | Block_Waits event

definition SynchronousBlock_begin :: "block_answers \<Rightarrow> u32 \<Rightarrow> CDynamicOutputPin \<Rightarrow> block_result \<times> CDynamicOutputPin" where
  "SynchronousBlock_begin ans thread d = (case created ans of
     Inl dwLastError \<Rightarrow> (Block_Returns (AmGetLastErrorToHResult dwLastError), d)
   | Inr n \<Rightarrow>
       (let ev = PrivateEvent n; d = ResetEvent ev (OpenHandle ev d);
            (hr, d) = AsynchronousBlockOutputPin (dup_error ans) thread ev d
        in if FAILED hr then (Block_Returns hr, CloseHandle ev d) else (Block_Waits ev, d)))"

datatype wait_answer = WaitSignaled nat | WaitFailed u32 | WaitOther

definition WaitEvent :: "wait_answer \<Rightarrow> HRESULT" where
  "WaitEvent r = (case r of
     WaitSignaled n \<Rightarrow> if n = 0 then S_OK else E_UNEXPECTED
   | WaitFailed dwLastError \<Rightarrow> AmGetLastErrorToHResult dwLastError
   | WaitOther \<Rightarrow> E_UNEXPECTED)"

text \<open>After the wait, which has reset the event: it resets itself.\<close>

definition SynchronousBlock_end :: "event \<Rightarrow> wait_answer \<Rightarrow> CDynamicOutputPin \<Rightarrow> HRESULT \<times> CDynamicOutputPin" where
  "SynchronousBlock_end ev r d = (if FAILED (WaitEvent r) then WaitEvent r else S_OK, CloseHandle ev d)"

definition AM_PIN_FLOW_CONTROL_BLOCK :: u32 where "AM_PIN_FLOW_CONTROL_BLOCK = 1"

definition Block :: "block_answers \<Rightarrow> u32 \<Rightarrow> event option \<Rightarrow> u32 \<Rightarrow> CDynamicOutputPin \<Rightarrow> block_result \<times> CDynamicOutputPin" where
  "Block ans dwBlockFlags hEvent thread d =
     (let blocks = dwBlockFlags AND AM_PIN_FLOW_CONTROL_BLOCK \<noteq> 0; answer = (\<lambda>hr. Block_Returns (if FAILED hr then hr else S_OK))
      in if dwBlockFlags AND NOT AM_PIN_FLOW_CONTROL_BLOCK \<noteq> 0 then (Block_Returns E_INVALIDARG, d)
         else if blocks \<and> hEvent \<noteq> None \<and> reset_error ans \<noteq> None
           then (Block_Returns (AmGetLastErrorToHResult (the (reset_error ans))), d)
         else (let d = (if blocks then reset_opt hEvent d else d)
           in if dwBlockFlags = 0 \<and> hEvent \<noteq> None then (Block_Returns E_INVALIDARG, d)
              else if blocks then
                (case hEvent of
                   None \<Rightarrow> SynchronousBlock_begin ans thread d
                 | Some ev \<Rightarrow> (let (hr, d) = AsynchronousBlockOutputPin (dup_error ans) thread ev d in (answer hr, d)))
              else (let (hr, d) = UnblockOutputPin d in (answer hr, d))))"

section \<open>Use by the streaming thread\<close>

text \<open>\<open>None\<close> is a thread that has to wait for the unblock event or the stop event.\<close>

definition StartUsing_check :: "CDynamicOutputPin \<Rightarrow> HRESULT option \<times> CDynamicOutputPin" where
  "StartUsing_check d =
     (if m_BlockState d = BLOCKED then (None, d)
      else (Some S_OK, d\<lparr>m_dwNumOutstandingOutputPinUsers := m_dwNumOutstandingOutputPinUsers d + 1\<rparr>))"

definition StartUsing_woken :: "wait_answer \<Rightarrow> CDynamicOutputPin \<Rightarrow> HRESULT option \<times> CDynamicOutputPin" where
  "StartUsing_woken r d = (case r of
     WaitSignaled n \<Rightarrow> if n = 0 then StartUsing_check d else if n = 1 then (Some VFW_E_STATE_CHANGED, d) else (Some E_UNEXPECTED, d)
   | WaitFailed dwLastError \<Rightarrow> (Some (AmGetLastErrorToHResult dwLastError), d)
   | WaitOther \<Rightarrow> (Some E_UNEXPECTED, d))"

definition StopUsingOutputPin :: "CDynamicOutputPin \<Rightarrow> CDynamicOutputPin" where
  "StopUsingOutputPin d =
     (let d = d\<lparr>m_dwNumOutstandingOutputPinUsers := m_dwNumOutstandingOutputPinUsers d - 1\<rparr>
      in if m_dwNumOutstandingOutputPinUsers d = 0 \<and> m_BlockState d \<noteq> NOT_BLOCKED then BlockOutputPin d else d)"

text \<open>What the debug build asserts between the operations.\<close>

definition AssertValid :: "CDynamicOutputPin \<Rightarrow> bool" where
  "AssertValid d \<longleftrightarrow> m_hUnblockOutputPinEvent d \<noteq> None \<and> m_hStopEvent d \<noteq> None \<and> m_pGraphConfig d \<and>
     (m_hNotifyCallerPinBlockedEvent d = None \<and> m_BlockState d \<noteq> PENDING \<or> m_hNotifyCallerPinBlockedEvent d \<noteq> None \<and> m_BlockState d = PENDING) \<and>
     (m_dwBlockCallerThreadID d = 0 \<or> m_BlockState d \<noteq> NOT_BLOCKED) \<and>
     (m_dwNumOutstandingOutputPinUsers d \<noteq> 0 \<and> m_BlockState d \<noteq> BLOCKED \<or> m_dwNumOutstandingOutputPinUsers d = 0 \<and> m_BlockState d \<noteq> NOT_BLOCKED \<or>
      m_dwNumOutstandingOutputPinUsers d = 0 \<and> m_BlockState d = NOT_BLOCKED)"

section \<open>Activity and flushing\<close>

definition Dynamic_Active :: "nat \<Rightarrow> pin_sys \<Rightarrow> CDynamicOutputPin \<Rightarrow> forwarded \<times> CDynamicOutputPin" where
  "Dynamic_Active p s d =
     (if m_hStopEvent d = None \<or> \<not> m_pGraphConfig d then (Refused E_FAIL, d)
      else (OutputPin_Active p s, reset_opt (m_hStopEvent d) d))"

definition Dynamic_Inactive :: "nat \<Rightarrow> pin_sys \<Rightarrow> CDynamicOutputPin \<Rightarrow> (forwarded \<times> pin_sys) \<times> CDynamicOutputPin" where
  "Dynamic_Inactive p s d = (OutputPin_Inactive p s, set_opt (m_hStopEvent d) d)"

definition Dynamic_DeliverBeginFlush :: "nat \<Rightarrow> pin_sys \<Rightarrow> CDynamicOutputPin \<Rightarrow> forwarded \<times> CDynamicOutputPin" where
  "Dynamic_DeliverBeginFlush p s d = (DeliverControl p s, set_opt (m_hStopEvent d) d)"

definition Dynamic_DeliverEndFlush :: "nat \<Rightarrow> pin_sys \<Rightarrow> CDynamicOutputPin \<Rightarrow> forwarded \<times> CDynamicOutputPin" where
  "Dynamic_DeliverEndFlush p s d = (DeliverControl p s, reset_opt (m_hStopEvent d) d)"

text \<open>Without the test of \<open>IsStopped\<close> that \<open>CBasePin\<close> has.\<close>

definition Dynamic_Disconnect :: "pin_env \<Rightarrow> nat \<Rightarrow> pin_sys \<Rightarrow> (HRESULT \<times> pin_sys) option" where
  "Dynamic_Disconnect e p s = DisconnectInternal e p s"

section \<open>Changing the type of a running connection\<close>

text \<open>Answers of the connected pin (which may not have \<open>IPinConnection\<close>), of the allocator and of the graph; the calls that change
  something are recorded.\<close>

record dyn_env =
  peer_receives :: "mtype \<Rightarrow> HRESULT"
  DynamicQueryAccept :: "(mtype \<Rightarrow> HRESULT) option"
  commit :: "nat \<Rightarrow> HRESULT"
  peer_notify :: "nat \<Rightarrow> bool \<Rightarrow> HRESULT"
  Reconnect :: "mtype \<Rightarrow> HRESULT"
  peer_segment :: HRESULT

datatype dyn_call = Call_ReceiveConnection mtype | Call_Decommit nat | Call_DecideBufferSize nat ALLOCATOR_PROPERTIES | Call_Commit nat
  | Call_NotifyAllocator nat bool | Call_Reconnect mtype | Call_NewSegment REFERENCE_TIME REFERENCE_TIME u64

text \<open>The calls on the allocator in order; each is made when all before it succeeded.\<close>

fun call_all :: "(dyn_call \<times> HRESULT) list \<Rightarrow> HRESULT \<times> dyn_call list" where
  "call_all [] = (S_OK, [])"
| "call_all ((c, hr) # cs) = (if FAILED hr then (hr, [c]) else (let (hr, cs) = call_all cs in (hr, c # cs)))"

definition ChangeMediaTypeHelper :: "pin_env \<Rightarrow> dyn_env \<Rightarrow> bool \<Rightarrow> nat \<Rightarrow> mtype \<Rightarrow> pin_sys \<Rightarrow> (HRESULT \<times> dyn_call list \<times> pin_sys) option" where
  "ChangeMediaTypeHelper e x readonly p mt s =
     (if m_Connected (pins s p) = None then None
      else if FAILED (peer_receives x mt) then Some (peer_receives x mt, [Call_ReceiveConnection mt], s)
      else (let (hr, s) = Pin_SetMediaType e p mt s
        in if FAILED hr then Some (hr, [Call_ReceiveConnection mt], s)
           else case m_pInputPin (pins s p) of
             None \<Rightarrow> Some (S_OK, [Call_ReceiveConnection mt], s)
           | Some q \<Rightarrow> do {
               a \<leftarrow> m_pAllocator (pins s p);
               let prop = initial_props e q;
               let (hr, cs) = call_all [(Call_Decommit a, decommit e a), (Call_DecideBufferSize a prop, fst (DecideBufferSize e p a prop)),
                                 (Call_Commit a, commit x a), (Call_NotifyAllocator a readonly, peer_notify x a readonly)];
               Some (hr, Call_ReceiveConnection mt # cs, s) }))"

definition DynamicReconnect :: "dyn_env \<Rightarrow> mtype \<Rightarrow> CDynamicOutputPin \<Rightarrow> HRESULT \<times> dyn_call list" where
  "DynamicReconnect x mt d = (if \<not> m_pGraphConfig d \<or> m_hStopEvent d = None then (E_FAIL, []) else (Reconnect x mt, [Call_Reconnect mt]))"

definition ChangeMediaType :: "pin_env \<Rightarrow> dyn_env \<Rightarrow> nat \<Rightarrow> mtype \<Rightarrow> CDynamicOutputPin \<Rightarrow> pin_sys \<Rightarrow> (HRESULT \<times> dyn_call list \<times> pin_sys) option" where
  "ChangeMediaType e x p mt d s =
     (if m_Connected (pins s p) = None then Some (VFW_E_NOT_CONNECTED, [], s)
      else case DynamicQueryAccept x of
        Some accepts \<Rightarrow>
          if accepts mt = S_OK then do {
            (hr, cs, s) \<leftarrow> ChangeMediaTypeHelper e x (m_bPinUsesReadOnlyAllocator d) p mt s;
            Some (if FAILED hr then hr else S_OK, cs, s) }
          else (let (hr, cs) = DynamicReconnect x mt d in Some (hr, cs, s))
      | None \<Rightarrow> (let (hr, cs) = DynamicReconnect x mt d in Some (hr, cs, s)))"

text \<open>\<open>copied\<close> is the copy of the type the function makes, which has no format when there is no memory.\<close>

definition ChangeOutputFormat :: "pin_env \<Rightarrow> dyn_env \<Rightarrow> nat \<Rightarrow> mtype \<Rightarrow> REFERENCE_TIME \<Rightarrow> REFERENCE_TIME \<Rightarrow> u64 \<Rightarrow> bool \<Rightarrow> CDynamicOutputPin \<Rightarrow> pin_sys \<Rightarrow>
    (HRESULT \<times> dyn_call list \<times> pin_sys) option" where
  "ChangeOutputFormat e x p mt start stop rate copied d s = do {
     (hr, cs, s) \<leftarrow> ChangeMediaType e x p (if copied then mt else without_format mt) d s;
     if FAILED hr then Some (hr, cs, s)
     else case DeliverControl p s of
       Refused hr \<Rightarrow> Some (hr, cs, s)
     | Forwarded q \<Rightarrow> Some (if FAILED (peer_segment x) then peer_segment x else S_OK, cs @ [Call_NewSegment start stop rate], s) }"

definition Dynamic_CompleteConnect :: "pin_env \<Rightarrow> dyn_env \<Rightarrow> nat \<Rightarrow> pin_sys \<Rightarrow> (HRESULT \<times> dyn_call list \<times> pin_sys) option" where
  "Dynamic_CompleteConnect e x p s = do {
     (hr, s) \<leftarrow> CompleteConnect e p s;
     case m_pAllocator (pins s p) of
       Some a \<Rightarrow> if SUCCEEDED hr \<and> \<not> filter_stopped (pins s p) then Some (commit x a, [Call_Commit a], s) else Some (hr, [], s)
     | None \<Rightarrow> Some (hr, [], s) }"

end
