(* ===== verification/Dynamic_Pin_Props.thy ===== *)
theory Dynamic_Pin_Props
  imports Dynamic_Pin
begin

text \<open>
  \<open>CDynamicOutputPin\<close> under every interleaving of threads that block and unblock the pin, of threads that use it to
  stream, and of a filter that stops and flushes. What the debug build asserts holds in every reachable state; a
  successful block excludes the streaming threads until it is taken back; no wake-up is lost. Then the order of calls when the type of
  a running connection changes.
\<close>

section \<open>Threads around the pin\<close>

text \<open>A streaming thread is outside of \<open>StartUsingOutputPin\<close>, waits in it, or its wait is over with an answer; \<open>holders\<close> has a thread as
  often as it uses the pin; \<open>blockers\<close> tells for which event a thread waits in a synchronous block.\<close>

datatype place = Outside | Waiting | Woken wait_answer

record dyn_world =
  dpin :: CDynamicOutputPin
  place_of :: "u32 \<Rightarrow> place"
  holders :: "u32 multiset"
  blockers :: "u32 \<Rightarrow> event option"

fun of_client :: "event option \<Rightarrow> bool" where
  "of_client None = True"
| "of_client (Some ev) = (\<exists>n. ev = ClientEvent n)"

definition fresh_event :: "block_answers \<Rightarrow> CDynamicOutputPin \<Rightarrow> bool" where
  "fresh_event ans d \<longleftrightarrow> (\<forall>n. created ans = Inr n \<longrightarrow> open_handles d (PrivateEvent n) = 0)"

text \<open>What the wait of \<open>StartUsingOutputPin\<close> returns: the lowest index of an event that is signaled.\<close>

definition wake_answer :: "CDynamicOutputPin \<Rightarrow> wait_answer option" where
  "wake_answer d = (if signaled d UnblockEvent then Some (WaitSignaled 0) else if signaled d StopEvent then Some (WaitSignaled 1) else None)"

definition started :: "u32 \<Rightarrow> HRESULT option \<times> CDynamicOutputPin \<Rightarrow> dyn_world \<Rightarrow> dyn_world" where
  "started t r w = (case r of
     (None, d) \<Rightarrow> w\<lparr>dpin := d, place_of := (place_of w)(t := Waiting)\<rparr>
   | (Some hr, d) \<Rightarrow> w\<lparr>dpin := d, place_of := (place_of w)(t := Outside), holders := (if SUCCEEDED hr then add_mset t (holders w) else holders w)\<rparr>)"

datatype dyn_label = Unblocks | Otherwise

inductive dyn_step :: "dyn_label \<Rightarrow> dyn_world \<Rightarrow> dyn_world \<Rightarrow> bool" where
  block_returns: "t \<noteq> 0 \<Longrightarrow> blockers w t = None \<Longrightarrow> place_of w t = Outside \<Longrightarrow> of_client h \<Longrightarrow> fresh_event ans (dpin w) \<Longrightarrow>
    Block ans flags h t (dpin w) = (Block_Returns hr, d) \<Longrightarrow> dyn_step (if flags = 0 then Unblocks else Otherwise) w (w\<lparr>dpin := d\<rparr>)"
| block_waits: "t \<noteq> 0 \<Longrightarrow> blockers w t = None \<Longrightarrow> place_of w t = Outside \<Longrightarrow> of_client h \<Longrightarrow> fresh_event ans (dpin w) \<Longrightarrow>
    Block ans flags h t (dpin w) = (Block_Waits ev, d) \<Longrightarrow> dyn_step Otherwise w (w\<lparr>dpin := d, blockers := (blockers w)(t \<mapsto> ev)\<rparr>)"
| block_done: "blockers w t = Some ev \<Longrightarrow> signaled (dpin w) ev \<Longrightarrow>
    SynchronousBlock_end ev (WaitSignaled 0) (ResetEvent ev (dpin w)) = (hr, d) \<Longrightarrow> dyn_step Otherwise w (w\<lparr>dpin := d, blockers := (blockers w)(t := None)\<rparr>)"
| client: "dyn_step Otherwise w (w\<lparr>dpin := (if b then SetEvent (ClientEvent n) (dpin w) else ResetEvent (ClientEvent n) (dpin w))\<rparr>)"
| stop_event: "dyn_step Otherwise w (w\<lparr>dpin := (if b then SetEvent StopEvent (dpin w) else ResetEvent StopEvent (dpin w))\<rparr>)"
| start: "blockers w t = None \<Longrightarrow> place_of w t = Outside \<Longrightarrow> m_dwNumOutstandingOutputPinUsers (dpin w) \<noteq> - 1 \<Longrightarrow>
    dyn_step Otherwise w (started t (StartUsing_check (dpin w)) w)"
| wake: "place_of w t = Waiting \<Longrightarrow> wake_answer (dpin w) = Some r \<Longrightarrow> dyn_step Otherwise w (w\<lparr>place_of := (place_of w)(t := Woken r)\<rparr>)"
| woken: "place_of w t = Woken r \<Longrightarrow> m_dwNumOutstandingOutputPinUsers (dpin w) \<noteq> - 1 \<Longrightarrow>
    dyn_step Otherwise w (started t (StartUsing_woken r (dpin w)) w)"
| stop_using: "blockers w t = None \<Longrightarrow> place_of w t = Outside \<Longrightarrow> t \<in># holders w \<Longrightarrow>
    dyn_step Otherwise w (w\<lparr>dpin := StopUsingOutputPin (dpin w), holders := holders w - {#t#}\<rparr>)"

definition dyn_initial :: "dyn_world \<Rightarrow> bool" where
  "dyn_initial w \<longleftrightarrow> (\<exists>hr d x. new_CDynamicOutputPin None S_OK = (hr, d, x) \<and> dpin w = SetConfigInfo True (Some StopEvent) d) \<and>
     place_of w = (\<lambda>t. Outside) \<and> holders w = {#} \<and> blockers w = (\<lambda>t. None)"

inductive dyn_reachable :: "dyn_world \<Rightarrow> bool" where
  init: "dyn_initial w \<Longrightarrow> dyn_reachable w"
| step: "dyn_reachable w \<Longrightarrow> dyn_step l w w' \<Longrightarrow> dyn_reachable w'"

section \<open>The invariant\<close>

definition pin_inv :: "CDynamicOutputPin \<Rightarrow> nat \<Rightarrow> bool" where
  "pin_inv d n \<longleftrightarrow> AssertValid d \<and> m_hUnblockOutputPinEvent d = Some UnblockEvent \<and> m_hStopEvent d = Some StopEvent \<and>
     (signaled d UnblockEvent \<longleftrightarrow> m_BlockState d \<noteq> BLOCKED) \<and> (m_BlockState d = PENDING \<longrightarrow> 0 < n) \<and>
     unat (m_dwNumOutstandingOutputPinUsers d) = n \<and> (m_BlockState d \<noteq> NOT_BLOCKED \<longrightarrow> m_dwBlockCallerThreadID d \<noteq> 0) \<and>
     (\<forall>ev. m_hNotifyCallerPinBlockedEvent d = Some ev \<longrightarrow> ev \<noteq> UnblockEvent \<and> ev \<noteq> StopEvent) \<and> open_handles d UnblockEvent = 1"

definition wait_inv :: "CDynamicOutputPin \<Rightarrow> (u32 \<Rightarrow> event option) \<Rightarrow> bool" where
  "wait_inv d bs \<longleftrightarrow>
     (\<forall>t ev. bs t = Some ev \<longrightarrow> (\<exists>n. ev = PrivateEvent n) \<and> (signaled d ev \<longleftrightarrow> m_hNotifyCallerPinBlockedEvent d \<noteq> Some ev)) \<and>
     (\<forall>t t' ev. bs t = Some ev \<longrightarrow> bs t' = Some ev \<longrightarrow> t = t') \<and>
     (\<forall>n. m_hNotifyCallerPinBlockedEvent d = Some (PrivateEvent n) \<longrightarrow> (\<exists>t. bs t = Some (PrivateEvent n))) \<and>
     (\<forall>ev. ev \<noteq> UnblockEvent \<longrightarrow> open_handles d ev = of_bool (\<exists>t. bs t = Some ev) + of_bool (m_hNotifyCallerPinBlockedEvent d = Some ev))"

definition dyn_inv :: "dyn_world \<Rightarrow> bool" where
  "dyn_inv w \<longleftrightarrow> pin_inv (dpin w) (size (holders w)) \<and> wait_inv (dpin w) (blockers w)"

lemmas dyn_prims = SetEvent_def ResetEvent_def OpenHandle_def CloseHandle_def set_opt_def reset_opt_def close_opt_def

lemma pin_inv_cases:
  assumes "pin_inv d n"
  obtains (free) "m_BlockState d = NOT_BLOCKED" "m_hNotifyCallerPinBlockedEvent d = None" "m_dwBlockCallerThreadID d = 0" "signaled d UnblockEvent"
  | (pending) ev where "m_BlockState d = PENDING" "m_hNotifyCallerPinBlockedEvent d = Some ev" "ev \<noteq> UnblockEvent" "ev \<noteq> StopEvent"
      "m_dwBlockCallerThreadID d \<noteq> 0" "signaled d UnblockEvent" "0 < n"
  | (blocked) "m_BlockState d = BLOCKED" "m_hNotifyCallerPinBlockedEvent d = None" "m_dwBlockCallerThreadID d \<noteq> 0" "\<not> signaled d UnblockEvent" "n = 0"
  using assms by (cases "m_BlockState d") (auto simp: pin_inv_def AssertValid_def)

lemma pin_inv_events: "pin_inv d n \<Longrightarrow> ev \<noteq> UnblockEvent \<Longrightarrow> pin_inv (SetEvent ev d) n \<and> pin_inv (ResetEvent ev d) n"
  by (simp add: pin_inv_def dyn_prims AssertValid_def)

lemma wait_inv_events: "wait_inv d bs \<Longrightarrow> (\<And>n. ev \<noteq> PrivateEvent n) \<Longrightarrow> wait_inv (SetEvent ev d) bs \<and> wait_inv (ResetEvent ev d) bs"
  by (auto simp: wait_inv_def dyn_prims)

lemma users_positive: "pin_inv d n \<Longrightarrow> StreamingThreadUsingOutputPin d \<longleftrightarrow> 0 < n"
  by (auto simp: pin_inv_def StreamingThreadUsingOutputPin_def word_less_nat_alt)

lemma last_error_failed [simp]: "\<not> SUCCEEDED (AmGetLastErrorToHResult x)"
proof (cases "sint x \<le> 0")
  case True
  then have "x \<noteq> 0 \<Longrightarrow> sint x < 0" by (metis order_le_less signed_eq_0_iff)
  then show ?thesis using True bit_last_iff [of x] by (auto simp: AmGetLastErrorToHResult_def HRESULT_FROM_WIN32_def SUCCEEDED_def hr_defs)
next
  case False
  have "bit (x AND 0xFFFF OR (2147942400 :: u32)) 31" by (simp add: bit_simps)
  then show ?thesis using False by (auto simp: AmGetLastErrorToHResult_def HRESULT_FROM_WIN32_def SUCCEEDED_def hr_defs)
qed

lemma already_blocked_failed [simp]: "\<not> SUCCEEDED VFW_E_PIN_ALREADY_BLOCKED" "\<not> SUCCEEDED VFW_E_PIN_ALREADY_BLOCKED_ON_THIS_THREAD" "\<not> SUCCEEDED VFW_E_STATE_CHANGED"
  "\<not> SUCCEEDED E_UNEXPECTED" "\<not> SUCCEEDED E_INVALIDARG"
  by (simp_all add: hr_defs SUCCEEDED_def)

lemma AsynchronousBlock_cases:
  assumes "pin_inv d n" and "AsynchronousBlockOutputPin dup thread ev d = (hr, d')" and "ev \<noteq> UnblockEvent"
  obtains (refused) "d' = d" "\<not> SUCCEEDED hr"
  | (at_once) "m_BlockState d = NOT_BLOCKED" "n = 0" "hr = S_OK" "d' = d\<lparr>signaled := (signaled d)(UnblockEvent := False, ev := True), m_BlockState := BLOCKED,
      m_hNotifyCallerPinBlockedEvent := None, m_dwBlockCallerThreadID := thread\<rparr>"
  | (later) "m_BlockState d = NOT_BLOCKED" "0 < n" "hr = S_OK" "d' = d\<lparr>open_handles := (open_handles d)(ev := open_handles d ev + 1), m_BlockState := PENDING,
      m_hNotifyCallerPinBlockedEvent := Some ev, m_dwBlockCallerThreadID := thread\<rparr>"
proof -
  have u: "m_dwNumOutstandingOutputPinUsers d > 0 \<longleftrightarrow> 0 < n"
    using users_positive [OF assms(1)] by (simp add: StreamingThreadUsingOutputPin_def)
  have ub: "m_hUnblockOutputPinEvent d = Some UnblockEvent" using assms(1) by (simp add: pin_inv_def)
  show ?thesis
  proof (cases "m_BlockState d = NOT_BLOCKED \<and> dup = None")
    case True
    then have "(hr, d') = (S_OK, if 0 < n then d\<lparr>open_handles := (open_handles d)(ev := open_handles d ev + 1), m_BlockState := PENDING,
      m_hNotifyCallerPinBlockedEvent := Some ev, m_dwBlockCallerThreadID := thread\<rparr> else d\<lparr>signaled := (signaled d)(UnblockEvent := False, ev := True), m_BlockState := BLOCKED,
      m_hNotifyCallerPinBlockedEvent := None, m_dwBlockCallerThreadID := thread\<rparr>)"
      using assms(2) u ub by (cases d) (auto simp: AsynchronousBlockOutputPin_def BlockOutputPin_def StreamingThreadUsingOutputPin_def dyn_prims Let_def)
    then show ?thesis using True at_once later by (cases "0 < n") auto
  next
    case False
    then show ?thesis using assms(2) refused by (auto simp: AsynchronousBlockOutputPin_def split: if_splits option.splits)
  qed
qed

lemma UnblockOutputPin_cases:
  assumes "pin_inv d n" and "UnblockOutputPin d = (hr, d')"
  obtains (free) "m_BlockState d = NOT_BLOCKED" "d' = d" "hr = S_FALSE"
  | (cancelled) ev where "m_BlockState d = PENDING" "m_hNotifyCallerPinBlockedEvent d = Some ev" "hr = S_OK" "d' = d\<lparr>signaled := (signaled d)(ev := True),
      open_handles := (open_handles d)(ev := open_handles d ev - 1), m_BlockState := NOT_BLOCKED, m_dwBlockCallerThreadID := 0, m_hNotifyCallerPinBlockedEvent := None\<rparr>"
  | (unblocked) "m_BlockState d = BLOCKED" "m_hNotifyCallerPinBlockedEvent d = None" "hr = S_OK" "d' = d\<lparr>signaled := (signaled d)(UnblockEvent := True),
      m_BlockState := NOT_BLOCKED, m_dwBlockCallerThreadID := 0\<rparr>"
proof -
  have ub: "m_hUnblockOutputPinEvent d = Some UnblockEvent" using assms(1) by (simp add: pin_inv_def)
  show ?thesis using assms(1)
  proof (cases rule: pin_inv_cases)
    case free
    then have "(hr, d') = (S_FALSE, d)" using assms(2) by (simp add: UnblockOutputPin_def)
    then show ?thesis using that(1) free(1) by simp
  next
    case (pending ev)
    then have "(signaled d)(UnblockEvent := True) = signaled d" by (simp add: fun_upd_idem)
    then have "(hr, d') = (S_OK, d\<lparr>signaled := (signaled d)(ev := True),
      open_handles := (open_handles d)(ev := open_handles d ev - 1), m_BlockState := NOT_BLOCKED, m_dwBlockCallerThreadID := 0, m_hNotifyCallerPinBlockedEvent := None\<rparr>)"
      using assms(2) pending(1,2) ub by (cases d) (simp add: UnblockOutputPin_def dyn_prims)
    then show ?thesis using that(2) pending(1,2) by simp
  next
    case blocked
    then have "(hr, d') = (S_OK, d\<lparr>signaled := (signaled d)(UnblockEvent := True), m_BlockState := NOT_BLOCKED, m_dwBlockCallerThreadID := 0\<rparr>)"
      using assms(2) ub by (cases d) (simp add: UnblockOutputPin_def dyn_prims)
    then show ?thesis using that(3) blocked by simp
  qed
qed

lemma StopUsing_cases:
  assumes "pin_inv d n" and "0 < n"
  obtains (free) "m_BlockState d = NOT_BLOCKED" "StopUsingOutputPin d = d\<lparr>m_dwNumOutstandingOutputPinUsers := m_dwNumOutstandingOutputPinUsers d - 1\<rparr>"
  | (pending) "m_BlockState d = PENDING" "1 < n" "StopUsingOutputPin d = d\<lparr>m_dwNumOutstandingOutputPinUsers := m_dwNumOutstandingOutputPinUsers d - 1\<rparr>"
  | (blocks) ev where "m_BlockState d = PENDING" "m_hNotifyCallerPinBlockedEvent d = Some ev" "n = 1"
     "StopUsingOutputPin d = d\<lparr>m_dwNumOutstandingOutputPinUsers := 0, signaled := (signaled d)(UnblockEvent := False, ev := True),
        open_handles := (open_handles d)(ev := open_handles d ev - 1), m_BlockState := BLOCKED, m_hNotifyCallerPinBlockedEvent := None\<rparr>"
proof -
  have ub: "m_hUnblockOutputPinEvent d = Some UnblockEvent" using assms(1) by (simp add: pin_inv_def)
  have u: "m_dwNumOutstandingOutputPinUsers d - 1 = 0 \<longleftrightarrow> n = 1"
    using assms unfolding pin_inv_def by (metis diff_add_cancel diff_self unat_1 add_0 word_unat_eq_iff)
  show ?thesis using assms(1)
  proof (cases rule: pin_inv_cases)
    case free
    then show ?thesis using that(1) by (simp add: StopUsingOutputPin_def Let_def)
  next
    case (pending ev)
    show ?thesis
    proof (cases "n = 1")
      case True
      then have "StopUsingOutputPin d = d\<lparr>m_dwNumOutstandingOutputPinUsers := 0, signaled := (signaled d)(UnblockEvent := False, ev := True),
        open_handles := (open_handles d)(ev := open_handles d ev - 1), m_BlockState := BLOCKED, m_hNotifyCallerPinBlockedEvent := None\<rparr>"
        using pending(1,2) ub u by (cases d) (simp add: StopUsingOutputPin_def Let_def BlockOutputPin_def dyn_prims)
      then show ?thesis using that(3) pending(1,2) True by simp
    next
      case False
      then show ?thesis using that(2) pending u assms(2) by (simp add: StopUsingOutputPin_def Let_def)
    qed
  next
    case blocked
    then show ?thesis using assms(2) by simp
  qed
qed


section \<open>The operations keep the invariant\<close>

lemma AsynchronousBlock_pin_inv:
  assumes "pin_inv d n" and "AsynchronousBlockOutputPin dup thread ev d = (hr, d')" and "ev \<noteq> UnblockEvent" and "ev \<noteq> StopEvent" and "thread \<noteq> 0"
  shows "pin_inv d' n"
  using assms(1-3)
proof (cases rule: AsynchronousBlock_cases)
  case refused
  then show ?thesis using assms(1) by simp
next
  case at_once
  then show ?thesis using assms(1,3-5) by (auto simp: pin_inv_def AssertValid_def unat_eq_zero)
next
  case later
  then show ?thesis using assms(1,3-5) by (auto simp: pin_inv_def AssertValid_def)
qed

lemma AsynchronousBlock_wait_inv:
  assumes "pin_inv d n" and "wait_inv d bs" and "AsynchronousBlockOutputPin dup thread (ClientEvent m) d = (hr, d')"
  shows "wait_inv d' bs"
  using assms(1,3) event.distinct(4)
proof (cases rule: AsynchronousBlock_cases)
  case refused
  then show ?thesis using assms(2) by simp
next
  case at_once
  then have "m_hNotifyCallerPinBlockedEvent d = None" using assms(1) by (auto simp: pin_inv_def AssertValid_def)
  then show ?thesis using at_once assms(2) by (auto simp: wait_inv_def)
next
  case later
  then have "m_hNotifyCallerPinBlockedEvent d = None" using assms(1) by (auto simp: pin_inv_def AssertValid_def)
  then show ?thesis using later assms(2) by (fastforce simp: wait_inv_def)
qed

lemma SynchronousBlock_inv:
  assumes "pin_inv d n" and "wait_inv d bs" and "bs t = None" and "t \<noteq> 0" and "fresh_event ans d" and "SynchronousBlock_begin ans t d = (r, d')"
  shows "pin_inv d' n \<and> (case r of Block_Returns hr \<Rightarrow> wait_inv d' bs | Block_Waits ev \<Rightarrow> wait_inv d' (bs(t \<mapsto> ev)))"
proof (cases "created ans")
  case (Inl x)
  then show ?thesis using assms by (auto simp: SynchronousBlock_begin_def)
next
  case (Inr k)
  let ?ev = "PrivateEvent k"
  let ?d = "ResetEvent ?ev (OpenHandle ?ev d)"
  have fr: "open_handles d ?ev = 0" using assms(5) Inr by (simp add: fresh_event_def)
  moreover have "open_handles d ?ev = of_bool (\<exists>t. bs t = Some ?ev) + of_bool (m_hNotifyCallerPinBlockedEvent d = Some ?ev)"
    using assms(2) by (simp add: wait_inv_def)
  ultimately have new: "bs t' \<noteq> Some ?ev" "m_hNotifyCallerPinBlockedEvent d \<noteq> Some ?ev" for t' by (auto split: if_splits)
  have inv1: "pin_inv ?d n" using assms(1) by (auto simp: pin_inv_def AssertValid_def dyn_prims)
  obtain hr d2 where a: "AsynchronousBlockOutputPin (dup_error ans) t ?ev ?d = (hr, d2)" by fastforce
  have inv2: "pin_inv d2 n" using AsynchronousBlock_pin_inv [OF inv1 a _ _ assms(4)] by simp
  have r: "(r, d') = (if \<not> SUCCEEDED hr then (Block_Returns hr, CloseHandle ?ev d2) else (Block_Waits ?ev, d2))"
    using assms(6) Inr a by (simp add: SynchronousBlock_begin_def Let_def)
  show ?thesis using inv1 a event.distinct(6)
  proof (cases rule: AsynchronousBlock_cases)
    case refused
    then have "pin_inv (CloseHandle ?ev d2) n" using inv2 by (auto simp: pin_inv_def AssertValid_def dyn_prims)
    moreover have "wait_inv (CloseHandle ?ev d2) bs" using refused new fr assms(2) by (auto simp: wait_inv_def dyn_prims)
    ultimately show ?thesis using refused r by simp
  next
    case at_once
    then have "m_hNotifyCallerPinBlockedEvent d = None" using assms(1) by (auto simp: pin_inv_def AssertValid_def dyn_prims)
    then have "wait_inv d2 (bs(t \<mapsto> ?ev))" using at_once new fr assms(2,3) by (auto simp: wait_inv_def dyn_prims) (metis option.distinct(1))?
    then show ?thesis using at_once r inv2 by simp
  next
    case later
    then have "m_hNotifyCallerPinBlockedEvent d = None" using assms(1) by (auto simp: pin_inv_def AssertValid_def dyn_prims)
    then have "wait_inv d2 (bs(t \<mapsto> ?ev))" using later new fr assms(2,3) by (auto simp: wait_inv_def dyn_prims) (metis option.distinct(1))?
    then show ?thesis using later r inv2 by simp
  qed
qed

lemma UnblockOutputPin_inv:
  assumes "pin_inv d n" and "wait_inv d bs" and "UnblockOutputPin d = (hr, d')"
  shows "pin_inv d' n \<and> wait_inv d' bs"
  using assms(1,3)
proof (cases rule: UnblockOutputPin_cases)
  case free
  then show ?thesis using assms(1,2) by simp
next
  case (cancelled ev)
  then show ?thesis using assms(1,2) by (auto simp: pin_inv_def AssertValid_def wait_inv_def)
next
  case unblocked
  then show ?thesis using assms(1,2) by (auto simp: pin_inv_def AssertValid_def wait_inv_def)
qed

lemma StopUsing_inv:
  assumes "pin_inv d (Suc n)" and "wait_inv d bs"
  shows "pin_inv (StopUsingOutputPin d) n \<and> wait_inv (StopUsingOutputPin d) bs"
proof -
  have u: "unat (m_dwNumOutstandingOutputPinUsers d) = Suc n" using assms(1) by (simp add: pin_inv_def)
  then have u': "unat (m_dwNumOutstandingOutputPinUsers d - 1) = n" by (metis diff_Suc_1 unat_minus_one unat_eq_zero nat.distinct(1))
  show ?thesis using assms(1) zero_less_Suc
  proof (cases rule: StopUsing_cases)
    case free
    then show ?thesis using assms(1,2) u u' by (auto simp: pin_inv_def AssertValid_def wait_inv_def)
  next
    case pending
    then show ?thesis using assms(1,2) u u' by (auto simp: pin_inv_def AssertValid_def wait_inv_def)
  next
    case (blocks ev)
    then show ?thesis using assms(1,2) u u' by (auto simp: pin_inv_def AssertValid_def wait_inv_def)
  qed
qed

lemma StartUsing_inv:
  assumes "pin_inv d n" and "wait_inv d bs" and "m_dwNumOutstandingOutputPinUsers d \<noteq> - 1" and "StartUsing_check d = (r, d')"
  shows "case r of None \<Rightarrow> d' = d \<and> m_BlockState d = BLOCKED | Some hr \<Rightarrow> hr = S_OK \<and> pin_inv d' (Suc n) \<and> wait_inv d' bs"
proof -
  have "unat (m_dwNumOutstandingOutputPinUsers d + 1) = Suc (unat (m_dwNumOutstandingOutputPinUsers d))"
    using unatSuc [of "m_dwNumOutstandingOutputPinUsers d"] assms(3) by (metis add.commute add_eq_0_iff)
  then show ?thesis using assms by (auto simp: StartUsing_check_def pin_inv_def AssertValid_def wait_inv_def split: if_splits)
qed


lemma Block_inv:
  assumes "pin_inv d n" and "wait_inv d bs" and "bs t = None" and "t \<noteq> 0" and "fresh_event ans d" and "of_client h" and "Block ans flags h t d = (r, d')"
  shows "pin_inv d' n \<and> (case r of Block_Returns hr \<Rightarrow> wait_inv d' bs | Block_Waits ev \<Rightarrow> wait_inv d' (bs(t \<mapsto> ev)))"
proof (cases h)
  case None
  show ?thesis
  proof (cases "flags AND AM_PIN_FLOW_CONTROL_BLOCK \<noteq> 0 \<and> flags AND NOT AM_PIN_FLOW_CONTROL_BLOCK = 0")
    case True
    then have "SynchronousBlock_begin ans t d = (r, d')" using assms(7) None by (auto simp: Block_def Let_def reset_opt_def split: if_splits)
    then show ?thesis using SynchronousBlock_inv [OF assms(1-5)] by simp
  next
    case False
    obtain hr d2 where u: "UnblockOutputPin d = (hr, d2)" by fastforce
    then show ?thesis using UnblockOutputPin_inv [OF assms(1,2) u] assms(1,2,7) None False by (auto simp: Block_def Let_def split: if_splits)
  qed
next
  case (Some ev)
  then obtain m where m: "ev = ClientEvent m" using assms(6) by auto
  let ?d = "ResetEvent ev d"
  have i: "pin_inv ?d n" "wait_inv ?d bs" using pin_inv_events [OF assms(1)] wait_inv_events [OF assms(2)] m by auto
  obtain hr d2 where a: "AsynchronousBlockOutputPin (dup_error ans) t ev ?d = (hr, d2)" by fastforce
  obtain hr3 d3 where u: "UnblockOutputPin d = (hr3, d3)" by fastforce
  have "pin_inv d2 n" "wait_inv d2 bs"
    using AsynchronousBlock_pin_inv [OF i(1) a _ _ assms(4)] AsynchronousBlock_wait_inv [OF i] a m by auto
  then show ?thesis using assms(1,2,7) Some a u UnblockOutputPin_inv [OF assms(1,2) u] by (auto simp: Block_def Let_def reset_opt_def split: if_splits)
qed

lemma block_end_inv:
  assumes "pin_inv d n" and "wait_inv d bs" and "bs t = Some ev" and "signaled d ev" and "SynchronousBlock_end ev (WaitSignaled 0) (ResetEvent ev d) = (hr, d')"
  shows "pin_inv d' n \<and> wait_inv d' (bs(t := None)) \<and> hr = S_OK"
proof -
  obtain k where k: "ev = PrivateEvent k" "m_hNotifyCallerPinBlockedEvent d \<noteq> Some ev" using assms(2-4) by (auto simp: wait_inv_def)
  have d': "d' = CloseHandle ev (ResetEvent ev d)" "hr = S_OK" using assms(5) by (auto simp: SynchronousBlock_end_def WaitEvent_def)
  have "open_handles d ev = 1" using assms(2,3) k by (auto simp: wait_inv_def)
  moreover have "\<forall>t'. bs t' = Some ev \<longrightarrow> t' = t" using assms(2,3) by (auto simp: wait_inv_def)
  ultimately have "wait_inv d' (bs(t := None))" using assms(2,3) k d' by (auto simp: wait_inv_def dyn_prims) (metis event.inject(2) option.inject)+
  moreover have "pin_inv d' n" using assms(1) k d' by (auto simp: pin_inv_def AssertValid_def dyn_prims)
  ultimately show ?thesis using d' by simp
qed

lemma started_inv:
  assumes "dyn_inv w" and "m_dwNumOutstandingOutputPinUsers (dpin w) \<noteq> - 1"
  shows "dyn_inv (started t (StartUsing_check (dpin w)) w)" and "dyn_inv (started t (StartUsing_woken r (dpin w)) w)"
proof -
  obtain a d where c: "StartUsing_check (dpin w) = (a, d)" by fastforce
  have "dyn_inv (started t (a, d) w)"
    using StartUsing_inv [OF _ _ assms(2) c, of "size (holders w)" "blockers w"] assms(1)
    by (cases a) (auto simp: started_def dyn_inv_def)
  then show s: "dyn_inv (started t (StartUsing_check (dpin w)) w)" using c by simp
  show "dyn_inv (started t (StartUsing_woken r (dpin w)) w)"
    using s assms(1) by (cases r) (auto simp: StartUsing_woken_def started_def dyn_inv_def)
qed

lemma dyn_step_inv:
  assumes "dyn_step l w w'" and "dyn_inv w"
  shows "dyn_inv w'"
  using assms
proof (induction rule: dyn_step.induct)
  case (block_returns t w h ans flags hr d)
  then show ?case using Block_inv [where d = "dpin w" and bs = "blockers w" and n = "size (holders w)", OF _ _ block_returns(2,1,5,4,6)] by (auto simp: dyn_inv_def)
next
  case (block_waits t w h ans flags ev d)
  then show ?case using Block_inv [where d = "dpin w" and bs = "blockers w" and n = "size (holders w)", OF _ _ block_waits(2,1,5,4,6)] by (auto simp: dyn_inv_def)
next
  case (block_done w t ev hr d)
  then show ?case using block_end_inv [where d = "dpin w" and bs = "blockers w" and n = "size (holders w)", OF _ _ block_done(1-3)] by (auto simp: dyn_inv_def)
next
  case (client w b n)
  then show ?case using pin_inv_events [of "dpin w" _ "ClientEvent n"] wait_inv_events [of "dpin w" _ "ClientEvent n"] by (auto simp: dyn_inv_def)
next
  case (stop_event w b)
  then show ?case using pin_inv_events [of "dpin w" _ StopEvent] wait_inv_events [of "dpin w" _ StopEvent] by (auto simp: dyn_inv_def)
next
  case (start w t)
  then show ?case using started_inv(1) by blast
next
  case (wake w t r)
  then show ?case by (simp add: dyn_inv_def)
next
  case (woken w t r)
  then show ?case using started_inv(2) by blast
next
  case (stop_using w t)
  then have "size (holders w) = Suc (size (holders w - {#t#}))" by (metis size_Suc_Diff1)
  then show ?case using stop_using StopUsing_inv [of "dpin w" "size (holders w - {#t#})" "blockers w"] by (simp add: dyn_inv_def)
qed

lemma dyn_initial_inv: "dyn_initial w \<Longrightarrow> dyn_inv w"
  by (auto simp: dyn_initial_def dyn_inv_def pin_inv_def wait_inv_def AssertValid_def new_CDynamicOutputPin_def Initialize_def dynamic_members_def SetConfigInfo_def dyn_prims)

lemma dyn_reachable_inv: "dyn_reachable w \<Longrightarrow> dyn_inv w"
  by (induction rule: dyn_reachable.induct) (auto intro: dyn_initial_inv dyn_step_inv)


section \<open>Properties\<close>

text \<open>C12. In every reachable state what the debug build asserts holds; the unblock event is signaled exactly when the pin is not
  blocked; a block is pending only while a thread uses the pin, and no thread uses a blocked pin; each event that a
  block created or duplicated has exactly the handles of the thread that waits for it and of the pin.\<close>

theorem dyn_pin_state:
  assumes "dyn_reachable w"
  shows "AssertValid (dpin w) \<and> (signaled (dpin w) UnblockEvent \<longleftrightarrow> m_BlockState (dpin w) \<noteq> BLOCKED) \<and>
    (m_BlockState (dpin w) = PENDING \<longrightarrow> holders w \<noteq> {#}) \<and> (m_BlockState (dpin w) = BLOCKED \<longrightarrow> holders w = {#}) \<and>
    unat (m_dwNumOutstandingOutputPinUsers (dpin w)) = size (holders w) \<and>
    (\<forall>ev. ev \<noteq> UnblockEvent \<longrightarrow> open_handles (dpin w) ev =
       of_bool (\<exists>t. blockers w t = Some ev) + of_bool (m_hNotifyCallerPinBlockedEvent (dpin w) = Some ev))"
proof -
  have i: "pin_inv (dpin w) (size (holders w))" "wait_inv (dpin w) (blockers w)" using dyn_reachable_inv [OF assms] by (simp_all add: dyn_inv_def)
  show ?thesis using i(1) by (rule pin_inv_cases) (use i in \<open>auto simp: pin_inv_def wait_inv_def\<close>)
qed

definition held_for :: "event \<Rightarrow> CDynamicOutputPin \<Rightarrow> bool" where
  "held_for ev d \<longleftrightarrow> m_BlockState d = PENDING \<and> m_hNotifyCallerPinBlockedEvent d = Some ev \<or> m_BlockState d = BLOCKED"

lemma Block_refused:
  assumes "m_BlockState d \<noteq> NOT_BLOCKED" and "flags \<noteq> 0" and "Block ans flags h t d = (r, d')"
  shows "m_BlockState d' = m_BlockState d \<and> m_hNotifyCallerPinBlockedEvent d' = m_hNotifyCallerPinBlockedEvent d"
proof (cases "flags AND AM_PIN_FLOW_CONTROL_BLOCK = 0")
  case True
  have "\<not> (bit flags n \<and> bit AM_PIN_FLOW_CONTROL_BLOCK n)" for n using True by (metis bit_and_iff bit_0_eq bot_apply bot_bool_def)
  then have "flags AND NOT AM_PIN_FLOW_CONTROL_BLOCK = flags" by (auto intro!: bit_word_eqI simp: bit_simps)
  then show ?thesis using assms(2,3) by (simp add: Block_def)
next
  case False
  then show ?thesis using assms(1,3)
    by (auto simp: Block_def SynchronousBlock_begin_def AsynchronousBlockOutputPin_def dyn_prims Let_def split: if_splits option.splits sum.splits)
qed

lemma held_for_step:
  assumes "dyn_step l w w'" and "l = Otherwise" and "dyn_inv w" and "held_for ev (dpin w)"
  shows "held_for ev (dpin w')"
  using assms
proof (induction rule: dyn_step.induct)
  case (block_returns t w h ans flags hr d)
  then show ?case using Block_refused [OF _ _ block_returns(6)] by (auto simp: held_for_def split: if_splits)
next
  case (block_waits t w h ans flags ev' d)
  have "flags \<noteq> 0" using block_waits(6) by (auto simp: Block_def Let_def split: prod.splits if_splits)
  then show ?case using block_waits Block_refused [OF _ _ block_waits(6)] by (auto simp: held_for_def)
next
  case (start w t)
  then show ?case by (auto simp: held_for_def started_def StartUsing_check_def)
next
  case (woken w t r)
  then show ?case by (auto simp: held_for_def started_def StartUsing_check_def StartUsing_woken_def split: wait_answer.splits)
next
  case (stop_using w t)
  then have "0 < size (holders w)" by (metis multi_member_split size_eq_0_iff_empty neq0_conv add_mset_not_empty)
  with stop_using(5) show ?case unfolding dyn_inv_def
  proof (elim conjE, goal_cases)
    case 1
    from 1(2,1) show ?case by (rule StopUsing_cases) (use stop_using(6) in \<open>auto simp: held_for_def\<close>)
  qed
qed (auto simp: held_for_def dyn_prims SynchronousBlock_end_def)

lemma held_for_steps:
  assumes "(dyn_step Otherwise)\<^sup>*\<^sup>* w w'" and "dyn_reachable w" and "held_for ev (dpin w)"
  shows "dyn_reachable w' \<and> held_for ev (dpin w')"
  using assms
  by (induction rule: rtranclp_induct) (auto intro: dyn_reachable.step held_for_step dyn_reachable_inv)

lemma blocker_holds:
  assumes "dyn_step l w w'" and "blockers w t = None" and "blockers w' t = Some ev"
  shows "held_for ev (dpin w')"
  using assms
proof (induction rule: dyn_step.induct)
  case (block_waits t' w h ans flags ev' d)
  then have "ev' = ev" by (auto split: if_splits)
  moreover have "held_for ev' d" using block_waits(6)
    by (auto simp: Block_def SynchronousBlock_begin_def AsynchronousBlockOutputPin_def BlockOutputPin_def held_for_def UnblockOutputPin_def Let_def
        split: if_splits option.splits sum.splits prod.splits)
  ultimately show ?case by simp
qed (auto simp: started_def split: prod.splits option.splits if_splits)

text \<open>C7. A synchronous block keeps its promise. From the moment the wait of its caller can end, and as long as nobody
  unblocks the pin, the pin is blocked and no streaming thread uses it, whatever the threads do.\<close>

theorem dyn_pin_excluded:
  assumes "dyn_reachable w" and "dyn_step Otherwise w w1" and "blockers w t = None" and "blockers w1 t = Some ev"
    and "(dyn_step Otherwise)\<^sup>*\<^sup>* w1 w2" and "blockers w2 t = Some ev" and "signaled (dpin w2) ev" and "(dyn_step Otherwise)\<^sup>*\<^sup>* w2 w3"
  shows "m_BlockState (dpin w3) = BLOCKED \<and> holders w3 = {#}"
proof -
  have "dyn_reachable w1" using dyn_reachable.step [OF assms(1,2)] .
  then have 2: "dyn_reachable w2" "held_for ev (dpin w2)" using held_for_steps [OF assms(5)] blocker_holds [OF assms(2-4)] by simp_all
  have "m_hNotifyCallerPinBlockedEvent (dpin w2) \<noteq> Some ev" using dyn_reachable_inv [OF 2(1)] assms(6,7) by (auto simp: dyn_inv_def wait_inv_def)
  then have b: "m_BlockState (dpin w2) = BLOCKED" using 2(2) by (simp add: held_for_def)
  then have h: "held_for UnblockEvent (dpin w2)" by (simp add: held_for_def)
  have 3: "dyn_reachable w3" "held_for UnblockEvent (dpin w3)" using held_for_steps [OF assms(8) 2(1) h] by simp_all
  then have "m_BlockState (dpin w3) = BLOCKED" using dyn_reachable_inv [OF 3(1)] by (auto simp: held_for_def dyn_inv_def pin_inv_def)
  then show ?thesis using dyn_reachable_inv [OF 3(1)] by (auto simp: dyn_inv_def elim: pin_inv_cases)
qed

text \<open>C13. No wake-up is lost. A thread that waits in a synchronous block can go on, or a thread uses the pin and
  the last one to stop will signal it, as would a call that unblocks the pin. A thread that waits to use the pin can go on, or the
  pin is blocked and both unblocking it and stopping the filter let the thread go on.\<close>

theorem dyn_pin_no_lost_wakeup:
  assumes "dyn_reachable w"
  shows "(\<forall>t ev. blockers w t = Some ev \<longrightarrow> signaled (dpin w) ev \<or> m_BlockState (dpin w) = PENDING \<and> holders w \<noteq> {#} \<and>
      (\<forall>u. holders w = {#u#} \<longrightarrow> signaled (StopUsingOutputPin (dpin w)) ev) \<and> signaled (snd (UnblockOutputPin (dpin w))) ev) \<and>
    (\<forall>t. place_of w t = Waiting \<longrightarrow> wake_answer (dpin w) \<noteq> None \<or> m_BlockState (dpin w) = BLOCKED \<and>
      wake_answer (snd (UnblockOutputPin (dpin w))) = Some (WaitSignaled 0) \<and> wake_answer (SetEvent StopEvent (dpin w)) \<noteq> None)"
proof -
  let ?d = "dpin w"
  have i: "pin_inv ?d (size (holders w))" "wait_inv ?d (blockers w)" using dyn_reachable_inv [OF assms] by (simp_all add: dyn_inv_def)
  obtain hr d' where u: "UnblockOutputPin ?d = (hr, d')" by fastforce
  have "signaled ?d ev \<or> m_BlockState ?d = PENDING \<and> holders w \<noteq> {#} \<and>
      (\<forall>u. holders w = {#u#} \<longrightarrow> signaled (StopUsingOutputPin ?d) ev) \<and> signaled d' ev" if "blockers w t = Some ev" for t ev
  proof (cases "signaled ?d ev")
    case False
    then have n: "m_hNotifyCallerPinBlockedEvent ?d = Some ev" using i(2) that by (auto simp: wait_inv_def)
    then have p: "m_BlockState ?d = PENDING" "holders w \<noteq> {#}" using i(1) by (auto elim: pin_inv_cases)
    have "signaled d' ev" using i(1) u by (rule UnblockOutputPin_cases) (use n p in auto)
    moreover have "signaled (StopUsingOutputPin ?d) ev" if "holders w = {#x#}" for x
      by (rule StopUsing_cases [OF i(1)]) (use n p that in auto)
    ultimately show ?thesis using p by auto
  qed simp
  moreover have "wake_answer ?d \<noteq> None \<or> m_BlockState ?d = BLOCKED \<and> wake_answer d' = Some (WaitSignaled 0) \<and> wake_answer (SetEvent StopEvent ?d) \<noteq> None"
    using i(1) by (rule pin_inv_cases) (use i(1) u in \<open>auto simp: wake_answer_def UnblockOutputPin_def dyn_prims pin_inv_def\<close>)
  ultimately show ?thesis using u by auto
qed


text \<open>What the answers of a block do not tell. A synchronous block that was taken back while it was pending returns success although the
  pin is not blocked. A refused asynchronous block has reset the event given to it, which may be the one that
  told of the block in place.\<close>

theorem dyn_pin_misleading:
  assumes "dyn_reachable w" and "m_BlockState (dpin w) \<noteq> NOT_BLOCKED"
  shows "(\<forall>t ev hr d. blockers w t = Some ev \<longrightarrow> m_BlockState (dpin w) = PENDING \<longrightarrow> UnblockOutputPin (dpin w) = (hr, d) \<longrightarrow>
      signaled d ev \<and> fst (SynchronousBlock_end ev (WaitSignaled 0) (ResetEvent ev d)) = S_OK \<and> m_BlockState d = NOT_BLOCKED \<and>
      StreamingThreadUsingOutputPin d) \<and>
    (\<forall>ans ev t. reset_error ans = None \<longrightarrow>
      (\<exists>hr. Block ans AM_PIN_FLOW_CONTROL_BLOCK (Some ev) t (dpin w) = (Block_Returns hr, ResetEvent ev (dpin w)) \<and> \<not> SUCCEEDED hr))"
proof -
  let ?d = "dpin w"
  have i: "pin_inv ?d (size (holders w))" "wait_inv ?d (blockers w)" using dyn_reachable_inv [OF assms(1)] by (simp_all add: dyn_inv_def)
  have "signaled d ev \<and> fst (SynchronousBlock_end ev (WaitSignaled 0) (ResetEvent ev d)) = S_OK \<and> m_BlockState d = NOT_BLOCKED \<and> StreamingThreadUsingOutputPin d"
    if b: "blockers w t = Some ev" "m_BlockState ?d = PENDING" and u: "UnblockOutputPin ?d = (hr, d)" for t ev hr d
  proof -
    have "StreamingThreadUsingOutputPin ?d" using i(1) b(2) users_positive [OF i(1)] by (simp add: pin_inv_def)
    moreover have "signaled ?d ev \<or> m_hNotifyCallerPinBlockedEvent ?d = Some ev" using i(2) b(1) by (auto simp: wait_inv_def)
    ultimately show ?thesis using \<open>StreamingThreadUsingOutputPin ?d\<close>
      by (rule_tac UnblockOutputPin_cases [OF i(1) u]) (auto simp: b SynchronousBlock_end_def WaitEvent_def StreamingThreadUsingOutputPin_def)
  qed
  moreover have "\<exists>hr. Block ans AM_PIN_FLOW_CONTROL_BLOCK (Some ev) t ?d = (Block_Returns hr, ResetEvent ev ?d) \<and> \<not> SUCCEEDED hr"
    if "reset_error ans = None" for ans ev t
    using assms(2) that by (simp add: Block_def AsynchronousBlockOutputPin_def AM_PIN_FLOW_CONTROL_BLOCK_def dyn_prims Let_def)
  ultimately show ?thesis by blast
qed

lemma call_all_prefix:
  "call_all hs = (hr, cs) \<Longrightarrow> \<exists>n. cs = take n (map fst hs) \<and> (SUCCEEDED hr \<longrightarrow> n = length hs) \<and> (SUCCEEDED hr \<longleftrightarrow> (\<forall>h\<in>set hs. SUCCEEDED (snd h)))"
proof (induction hs arbitrary: hr cs rule: call_all.induct)
  case 1
  then show ?case by simp
next
  case (2 c h hs)
  show ?case
  proof (cases "SUCCEEDED h")
    case True
    obtain hr' cs' where r: "call_all hs = (hr', cs')" by fastforce
    then have e: "cs = c # cs'" "hr = hr'" using 2(2) True by simp_all
    obtain n where "cs' = take n (map fst hs)" "SUCCEEDED hr' \<longrightarrow> n = length hs" "SUCCEEDED hr' \<longleftrightarrow> (\<forall>h\<in>set hs. SUCCEEDED (snd h))"
      using 2(1) [OF _ r] True by auto
    then show ?thesis using e True by (intro exI [of _ "Suc n"]) auto
  next
    case False
    then show ?thesis using 2(2) by (intro exI [of _ 1]) auto
  qed
qed

text \<open>When the connected pin accepts the new type dynamically, the type of a connection with an allocator changes by five
  calls in this order: the other pin receives the type, the allocator is decommitted, sized, committed and told to the other pin. The
  change succeeds exactly when all of them do and there is memory for the type. A failure stops the calls and undoes
  nothing: once the allocator was touched the pin has the new type.\<close>

theorem dyn_change_type:
  assumes "m_Connected (pins s p) = Some r" and "m_pInputPin (pins s p) = Some q" and "m_pAllocator (pins s p) = Some a"
    and "DynamicQueryAccept x = Some accepts" and "accepts mt = S_OK" and "prop = initial_props e q" and "b = m_bPinUsesReadOnlyAllocator d"
    and "plan = [Call_ReceiveConnection mt, Call_Decommit a, Call_DecideBufferSize a prop, Call_Commit a, Call_NotifyAllocator a b]"
  shows "\<exists>hr n s'. ChangeMediaType e x p mt d s = Some (hr, take n plan, s') \<and> 1 \<le> n \<and>
    (SUCCEEDED hr \<longleftrightarrow> SUCCEEDED (peer_receives x mt) \<and> type_memory e p mt \<and> SUCCEEDED (decommit e a) \<and>
       SUCCEEDED (fst (DecideBufferSize e p a prop)) \<and> SUCCEEDED (commit x a) \<and> SUCCEEDED (peer_notify x a b)) \<and>
    (SUCCEEDED hr \<longrightarrow> hr = S_OK \<and> n = 5) \<and> (1 < n \<longrightarrow> s' = upd_pin p (\<lambda>y. y\<lparr>m_mt := mt\<rparr>) s)"
proof -
  note eqs = ChangeMediaType_def ChangeMediaTypeHelper_def Pin_SetMediaType_def
  let ?s = "upd_pin p (\<lambda>y. y\<lparr>m_mt := mt\<rparr>) s"
  have p: "m_pInputPin (pins ?s p) = Some q" "m_pAllocator (pins ?s p) = Some a" using assms(2,3) by (simp_all add: upd_pin_def)
  have E: "\<not> SUCCEEDED E_OUTOFMEMORY" by (simp add: hr_defs SUCCEEDED_def)
  show ?thesis
  proof (cases "SUCCEEDED (peer_receives x mt) \<and> type_memory e p mt")
    case False
    have "ChangeMediaType e x p mt d s = Some (if SUCCEEDED (peer_receives x mt) then E_OUTOFMEMORY else peer_receives x mt, take 1 plan,
        if SUCCEEDED (peer_receives x mt) then upd_pin p (\<lambda>y. y\<lparr>m_mt := without_format mt\<rparr>) s else s)"
      using False assms E by (cases "SUCCEEDED (peer_receives x mt)") (simp_all add: eqs)
    then show ?thesis using False E by (simp del: take_Suc_Cons split del: if_split) (rule exI [where x = 1], auto)
  next
    case True
    define hs where "hs = [(Call_Decommit a, decommit e a), (Call_DecideBufferSize a prop, fst (DecideBufferSize e p a prop)),
        (Call_Commit a, commit x a), (Call_NotifyAllocator a b, peer_notify x a b)]"
    obtain hr cs where c: "call_all hs = (hr, cs)" by fastforce
    have m: "ChangeMediaType e x p mt d s = Some (if FAILED hr then hr else S_OK, Call_ReceiveConnection mt # cs, ?s)"
      using True assms(1,4-7) p c by (simp add: eqs hs_def)
    obtain n where n: "cs = take n (map fst hs)" "SUCCEEDED hr \<longrightarrow> n = 4" "SUCCEEDED hr \<longleftrightarrow> (\<forall>h\<in>set hs. SUCCEEDED (snd h))"
      using call_all_prefix [OF c] by (auto simp: hs_def)
    have "Call_ReceiveConnection mt # cs = take (Suc n) plan" using n(1) by (simp add: hs_def assms(8))
    then show ?thesis using m n(2,3) True by (intro exI [of _ "if FAILED hr then hr else S_OK"] exI [of _ "Suc n"] exI [of _ ?s]) (auto simp: hs_def)
  qed
qed

section \<open>Witnesses\<close>

text \<open>A thread uses the pin, another blocks it and waits, and then the first stops to use it.\<close>

definition dyn0 :: dyn_world where
  "dyn0 = \<lparr>dpin = SetConfigInfo True (Some StopEvent) (fst (snd (new_CDynamicOutputPin None S_OK))), place_of = (\<lambda>t. Outside), holders = {#},
     blockers = (\<lambda>t. None)\<rparr>"

definition dyn_used :: dyn_world where
  "dyn_used = started 5 (StartUsing_check (dpin dyn0)) dyn0"

definition dyn_answers :: block_answers where
  "dyn_answers = \<lparr>reset_error = None, created = Inr 0, dup_error = None\<rparr>"

definition dyn_pending :: dyn_world where
  "dyn_pending = dyn_used\<lparr>dpin := snd (Block dyn_answers 1 None 7 (dpin dyn_used)), blockers := (blockers dyn_used)(7 \<mapsto> PrivateEvent 0)\<rparr>"

definition dyn_blocked :: dyn_world where
  "dyn_blocked = dyn_pending\<lparr>dpin := StopUsingOutputPin (dpin dyn_pending), holders := holders dyn_pending - {#5#}\<rparr>"

lemmas dyn_eval = dyn0_def dyn_used_def dyn_pending_def dyn_blocked_def dyn_answers_def started_def StartUsing_check_def StopUsingOutputPin_def new_CDynamicOutputPin_def
  Initialize_def dynamic_members_def SetConfigInfo_def Block_def SynchronousBlock_begin_def AsynchronousBlockOutputPin_def BlockOutputPin_def
  StreamingThreadUsingOutputPin_def AM_PIN_FLOW_CONTROL_BLOCK_def dyn_prims Let_def

lemma dyn_pending_state:
  "m_BlockState (dpin dyn_pending) = PENDING" "blockers dyn_pending 7 = Some (PrivateEvent 0)" "blockers dyn_used 7 = None"
  "m_BlockState (dpin dyn_blocked) = BLOCKED" "signaled (dpin dyn_blocked) (PrivateEvent 0)" "blockers dyn_blocked 7 = Some (PrivateEvent 0)"
  by (simp_all add: dyn_eval)

lemma dyn_run: "dyn_reachable dyn_used" "dyn_step Otherwise dyn_used dyn_pending" "dyn_step Otherwise dyn_pending dyn_blocked"
proof -
  have "dyn_initial dyn0" by (cases "new_CDynamicOutputPin None S_OK") (auto simp: dyn_initial_def dyn0_def)
  then have 0: "dyn_reachable dyn0" by (rule dyn_reachable.init)
  have "dyn_step Otherwise dyn0 dyn_used" unfolding dyn_used_def by (rule dyn_step.start) (simp_all add: dyn_eval)
  with 0 show "dyn_reachable dyn_used" by (rule dyn_reachable.step)
  have "Block dyn_answers 1 None 7 (dpin dyn_used) = (Block_Waits (PrivateEvent 0), snd (Block dyn_answers 1 None 7 (dpin dyn_used)))"
    by (simp add: dyn_eval)
  then show "dyn_step Otherwise dyn_used dyn_pending" unfolding dyn_pending_def
    by (rule dyn_step.block_waits [rotated -1]) (simp_all add: dyn_eval fresh_event_def)
  show "dyn_step Otherwise dyn_pending dyn_blocked" unfolding dyn_blocked_def by (rule dyn_step.stop_using) (simp_all add: dyn_eval)
qed

lemma dyn_pending_reachable: "dyn_reachable dyn_pending"
  using dyn_reachable.step [OF dyn_run(1,2)] .

theorem dyn_pin_state_witness: "AssertValid (dpin dyn_pending) \<and> holders dyn_pending \<noteq> {#}"
  using dyn_pin_state [OF dyn_pending_reachable] dyn_pending_state(1) by simp

theorem dyn_pin_excluded_witness: "m_BlockState (dpin dyn_blocked) = BLOCKED \<and> holders dyn_blocked = {#}"
  by (rule dyn_pin_excluded [OF dyn_run(1,2) dyn_pending_state(3,2) r_into_rtranclp [where r = "dyn_step Otherwise", OF dyn_run(3)] dyn_pending_state(6,5) rtranclp.rtrancl_refl])

theorem dyn_pin_no_lost_wakeup_witness: "signaled (StopUsingOutputPin (dpin dyn_pending)) (PrivateEvent 0)"
proof -
  have "\<not> signaled (dpin dyn_pending) (PrivateEvent 0)" "holders dyn_pending = {#5#}" by (simp_all add: dyn_eval)
  then show ?thesis using dyn_pin_no_lost_wakeup [OF dyn_pending_reachable] dyn_pending_state(2) by blast
qed

theorem dyn_pin_misleading_witness:
  "signaled (snd (UnblockOutputPin (dpin dyn_pending))) (PrivateEvent 0) \<and> StreamingThreadUsingOutputPin (snd (UnblockOutputPin (dpin dyn_pending)))"
proof -
  obtain hr d where "UnblockOutputPin (dpin dyn_pending) = (hr, d)" by fastforce
  then show ?thesis using dyn_pin_misleading [OF dyn_pending_reachable] dyn_pending_state(1,2) by simp
qed

theorem dyn_change_type_witness:
  "\<exists>s'. ChangeMediaType \<lparr>CheckMediaType = (\<lambda>r mt. S_OK), PinGetMediaType = (\<lambda>r i. (S_FALSE, null_type)), DecideBufferSize = (\<lambda>r a pr. (S_OK, pr)),
      GetAllocatorRequirements = (\<lambda>r. \<lparr>cBuffers = 0, cbBuffer_req = 0, cbAlign = 0, cbPrefix = 0\<rparr>), after_complete = (\<lambda>r. S_OK), type_memory = (\<lambda>r mt. True),
      enum_memory = (\<lambda>r. True), struct_memory = (\<lambda>r i. True), create_allocator = (\<lambda>a. S_OK), decommit = (\<lambda>a. S_OK)\<rparr>
    \<lparr>peer_receives = (\<lambda>mt. S_OK), DynamicQueryAccept = Some (\<lambda>mt. S_OK), commit = (\<lambda>a. S_OK), peer_notify = (\<lambda>a b. S_OK), Reconnect = (\<lambda>mt. E_FAIL),
      peer_segment = S_OK\<rparr> 0 null_type dynamic_members
    \<lparr>pins = (\<lambda>r. (new_CBasePin PINDIR_OUTPUT)\<lparr>m_Connected := Some 1, m_pInputPin := Some 1, m_pAllocator := Some 2\<rparr>), pin_refs = (\<lambda>r. 2), alloc_refs = (\<lambda>a. 2), next_alloc = 3\<rparr> =
    Some (S_OK, [Call_ReceiveConnection null_type, Call_Decommit 2, Call_DecideBufferSize 2 \<lparr>cBuffers = 0, cbBuffer_req = 0, cbAlign = 1, cbPrefix = 0\<rparr>,
      Call_Commit 2, Call_NotifyAllocator 2 False], s')" (is "\<exists>s'. ChangeMediaType ?e ?x 0 null_type _ ?s = _")
proof -
  have 1: "m_Connected (pins ?s 0) = Some 1" "m_pInputPin (pins ?s 0) = Some 1" "m_pAllocator (pins ?s 0) = Some 2"
    "DynamicQueryAccept ?x = Some (\<lambda>mt. S_OK)" "(\<lambda>mt::mtype. S_OK) null_type = S_OK" by simp_all
  obtain hr n s' where "ChangeMediaType ?e ?x 0 null_type dynamic_members ?s = Some (hr, take n [Call_ReceiveConnection null_type, Call_Decommit 2,
      Call_DecideBufferSize 2 (initial_props ?e 1), Call_Commit 2, Call_NotifyAllocator 2 (m_bPinUsesReadOnlyAllocator dynamic_members)], s')" "hr = S_OK" "n = 5"
    using dyn_change_type [where e = ?e and d = dynamic_members and mt = null_type, OF 1 refl refl refl] by auto
  then show ?thesis by (auto simp: initial_props_def dynamic_members_def)
qed

end
