(* ===== verification/Ieee.thy ===== *)
theory Ieee
  imports AR_Prelude
begin

text \<open>
  The part of C++ floating point arithmetic that \<open>pcm.h\<close> uses: the types \<open>float\<close> and
  \<open>double\<close> as IEEE 754 binary32 and binary64, conversion from integers, addition,
  multiplication and division rounded to nearest (ties to even), and the conversion to
  \<open>int32_t\<close>, which truncates and is undefined out of range. An operation computes the
  exact rational result and rounds it once. The two zeros are not told apart: no operation
  the sources use can observe the sign of a zero.
\<close>

section \<open>Formats and values\<close>

text \<open>
  A format has a precision and the least and greatest exponent of a unit in the last place:
  a finite value is \<open>m * 2 powi e\<close> with \<open>\<bar>m\<bar> < 2 ^ prec\<close> and \<open>qmin \<le> e \<le> qmax\<close>.
\<close>

record fmt =
  prec :: nat
  qmin :: int
  qmax :: int

definition binary32 :: fmt where
  "binary32 = \<lparr>prec = 24, qmin = -149, qmax = 104\<rparr>"

definition binary64 :: fmt where
  "binary64 = \<lparr>prec = 53, qmin = -1074, qmax = 971\<rparr>"

datatype ieee = Fin rat | Inf bool | NaN

definition representable :: "fmt \<Rightarrow> rat \<Rightarrow> bool" where
  "representable F x \<longleftrightarrow>
     (\<exists>m e. x = of_int m * 2 powi e \<and> \<bar>m\<bar> < 2 ^ prec F \<and> qmin F \<le> e \<and> e \<le> qmax F)"

section \<open>Rounding to nearest, ties to even\<close>

definition round_half_even :: "rat \<Rightarrow> int" where
  "round_half_even y =
     (let f = \<lfloor>y\<rfloor>; r = y - of_int f
      in if r < 1 / 2 then f else if 1 / 2 < r then f + 1
         else if even f then f else f + 1)"

text \<open>The exponent of the unit in the last place: the least one at which the magnitude fits.\<close>

fun ulp_exp :: "nat \<Rightarrow> nat \<Rightarrow> int \<Rightarrow> rat \<Rightarrow> int option" where
  "ulp_exp p 0 q x = None"
| "ulp_exp p (Suc n) q x = (if \<bar>x\<bar> < 2 ^ p * 2 powi q then Some q else ulp_exp p n (q + 1) x)"

definition fround :: "fmt \<Rightarrow> rat \<Rightarrow> ieee" where
  "fround F x =
     (case ulp_exp (prec F) (nat (qmax F - qmin F + 1)) (qmin F) x of
        None \<Rightarrow> Inf (x < 0)
      | Some q \<Rightarrow>
          (let n = round_half_even (x / 2 powi q)
           in if q = qmax F \<and> \<bar>n\<bar> = 2 ^ prec F then Inf (n < 0)
              else Fin (of_int n * 2 powi q)))"

section \<open>Operations\<close>

definition f_of_int :: "fmt \<Rightarrow> int \<Rightarrow> ieee" where
  "f_of_int F i = fround F (of_int i)"

fun fadd :: "fmt \<Rightarrow> ieee \<Rightarrow> ieee \<Rightarrow> ieee" where
  "fadd F NaN b = NaN"
| "fadd F a NaN = NaN"
| "fadd F (Inf s) (Inf t) = (if s = t then Inf s else NaN)"
| "fadd F (Inf s) (Fin y) = Inf s"
| "fadd F (Fin x) (Inf t) = Inf t"
| "fadd F (Fin x) (Fin y) = fround F (x + y)"

fun fmul :: "fmt \<Rightarrow> ieee \<Rightarrow> ieee \<Rightarrow> ieee" where
  "fmul F NaN b = NaN"
| "fmul F a NaN = NaN"
| "fmul F (Inf s) (Inf t) = Inf (s \<noteq> t)"
| "fmul F (Inf s) (Fin y) = (if y = 0 then NaN else Inf (s \<noteq> (y < 0)))"
| "fmul F (Fin x) (Inf t) = (if x = 0 then NaN else Inf ((x < 0) \<noteq> t))"
| "fmul F (Fin x) (Fin y) = fround F (x * y)"

text \<open>Every divisor of the sources is a positive constant, so a zero divisor is \<open>+0\<close>.\<close>

fun fdiv :: "fmt \<Rightarrow> ieee \<Rightarrow> ieee \<Rightarrow> ieee" where
  "fdiv F NaN b = NaN"
| "fdiv F a NaN = NaN"
| "fdiv F (Inf s) (Inf t) = NaN"
| "fdiv F (Inf s) (Fin y) = Inf (s \<noteq> (y < 0))"
| "fdiv F (Fin x) (Inf t) = Fin 0"
| "fdiv F (Fin x) (Fin y) =
     (if y = 0 then (if x = 0 then NaN else Inf (x < 0)) else fround F (x / y))"

definition trunc :: "rat \<Rightarrow> int" where
  "trunc x = (if 0 \<le> x then \<lfloor>x\<rfloor> else \<lceil>x\<rceil>)"

text \<open>The cast to \<open>int32_t\<close>; \<open>None\<close> is the undefined behaviour of a value out of range.\<close>

fun f_to_i32 :: "ieee \<Rightarrow> i32 option" where
  "f_to_i32 (Fin x) =
     (let t = trunc x in if - (2 ^ 31) \<le> t \<and> t < 2 ^ 31 then Some (word_of_int t) else None)"
| "f_to_i32 (Inf s) = None"
| "f_to_i32 NaN = None"

section \<open>Exact results\<close>

lemma round_half_even_of_int [simp]: "round_half_even (of_int n) = n"
  by (simp add: round_half_even_def)

lemma ulp_exp_SomeD:
  "ulp_exp p n q x = Some r \<Longrightarrow> q \<le> r \<and> r < q + int n \<and> \<bar>x\<bar> < 2 ^ p * 2 powi r"
  by (induction n arbitrary: q) (fastforce split: if_splits)+

lemma ulp_exp_least:
  "\<bar>x\<bar> < 2 ^ p * 2 powi e \<Longrightarrow> q \<le> e \<Longrightarrow> e < q + int n \<Longrightarrow>
   \<exists>r. ulp_exp p n q x = Some r \<and> r \<le> e"
proof (induction n arbitrary: q)
  case (Suc n)
  show ?case
  proof (cases "\<bar>x\<bar> < 2 ^ p * 2 powi q")
    case False
    with Suc.prems have "q \<noteq> e" by auto
    with Suc.prems have "q + 1 \<le> e" "e < (q + 1) + int n" by auto
    from Suc.IH [OF Suc.prems(1) this] False show ?thesis by simp
  qed (use Suc.prems in simp)
qed simp

lemma powi_split: "r \<le> e \<Longrightarrow> (2::rat) powi e = 2 ^ nat (e - r) * 2 powi r"
  using power_int_add [of "2::rat" "e - r" r] by (simp add: power_int_def)

lemma of_int_abs_less_pow2: "\<bar>of_int m :: rat\<bar> < 2 ^ p \<longleftrightarrow> \<bar>m\<bar> < 2 ^ p"
proof -
  have "\<bar>of_int m :: rat\<bar> < 2 ^ p \<longleftrightarrow> (of_int \<bar>m\<bar> :: rat) < of_int (2 ^ p)" by simp
  also have "\<dots> \<longleftrightarrow> \<bar>m\<bar> < 2 ^ p" by (simp only: of_int_less_iff)
  finally show ?thesis .
qed

text \<open>A representable value is the result of rounding itself: no error is introduced.\<close>

lemma fround_representable:
  assumes "representable F x"
  shows "fround F x = Fin x"
proof -
  obtain m e where x: "x = of_int m * 2 powi e" and m: "\<bar>m\<bar> < 2 ^ prec F"
    and e: "qmin F \<le> e" "e \<le> qmax F"
    using assms unfolding representable_def by auto
  have "\<bar>x\<bar> < 2 ^ prec F * 2 powi e"
    using m by (simp add: x abs_mult of_int_abs_less_pow2)
  then obtain r where r: "ulp_exp (prec F) (nat (qmax F - qmin F + 1)) (qmin F) x = Some r"
    and re: "r \<le> e"
    using ulp_exp_least [of x "prec F" e "qmin F" "nat (qmax F - qmin F + 1)"] e by auto
  have lt: "\<bar>x\<bar> < 2 ^ prec F * 2 powi r" using ulp_exp_SomeD [OF r] by simp
  define n where "n = m * 2 ^ nat (e - r)"
  have xn: "x = of_int n * 2 powi r" by (simp add: x n_def powi_split [OF re])
  have div: "x / 2 powi r = of_int n" by (simp add: xn)
  have "\<bar>n\<bar> < 2 ^ prec F" using lt by (simp add: xn abs_mult of_int_abs_less_pow2)
  then show ?thesis by (simp add: fround_def r div xn [symmetric])
qed

lemma representable_int_scaled:
  "\<bar>i\<bar> < 2 ^ prec F \<Longrightarrow> qmin F \<le> - int k \<Longrightarrow> - int k \<le> qmax F \<Longrightarrow>
   representable F (of_int i / 2 ^ k)"
  unfolding representable_def
  by (rule exI [of _ i], rule exI [of _ "- int k"]) (simp add: power_int_minus divide_inverse)

lemma representable_pow2:
  "0 < prec F \<Longrightarrow> qmin F \<le> int k \<Longrightarrow> int k \<le> qmax F \<Longrightarrow> representable F (2 ^ k)"
  unfolding representable_def
  by (rule exI [of _ 1], rule exI [of _ "int k"]) simp

lemma representable_int:
  "\<bar>i\<bar> < 2 ^ prec F \<Longrightarrow> qmin F \<le> 0 \<Longrightarrow> 0 \<le> qmax F \<Longrightarrow> representable F (of_int i)"
  using representable_int_scaled [of i F 0] by simp

text \<open>Scaling by a power of two is exact while the exponent stays in range.\<close>

lemma representable_scale:
  assumes "representable F x" and "\<bar>x\<bar> \<le> 1" and "0 \<le> qmax F - int k"
  shows "representable F (x * 2 ^ k)"
proof -
  obtain m e where x: "x = of_int m * 2 powi e" and m: "\<bar>m\<bar> < 2 ^ prec F"
    and e: "qmin F \<le> e" "e \<le> qmax F"
    using assms(1) unfolding representable_def by auto
  have scaled: "x * 2 ^ k = of_int m * 2 powi (e + int k)"
    by (simp add: x power_int_add)
  show ?thesis
  proof (cases "e + int k \<le> qmax F")
    case True
    then show ?thesis unfolding representable_def
      using m e scaled by (intro exI [of _ m] exI [of _ "e + int k"]) auto
  next
    case False
    then have "1 \<le> e" using assms(3) by simp
    have big: "1 < (2::rat) powi e"
      using \<open>1 \<le> e\<close> by (simp add: power_int_def one_less_power)
    have "m = 0"
    proof (rule ccontr)
      assume "m \<noteq> 0"
      then have "1 \<le> \<bar>of_int m :: rat\<bar>" by (simp add: of_int_abs [symmetric] del: of_int_abs)
      then have "1 * 1 < \<bar>of_int m\<bar> * (2::rat) powi e"
        using big by (intro mult_le_less_imp_less) auto
      then show False using assms(2) by (simp add: x abs_mult)
    qed
    then show ?thesis unfolding representable_def
      using e by (intro exI [of _ 0] exI [of _ e]) (simp add: x)
  qed
qed

lemma trunc_of_int [simp]: "trunc (of_int i) = i"
  by (simp add: trunc_def)

lemma trunc_error: "\<bar>x - of_int (trunc x)\<bar> < 1"
  unfolding trunc_def by (auto simp: abs_if) linarith+

lemma trunc_bounds: "of_int a \<le> x \<Longrightarrow> x < of_int b \<Longrightarrow> a \<le> trunc x \<and> trunc x < b + (if x < 0 then 1 else 0)"
  unfolding trunc_def by (auto simp: le_floor_iff floor_less_iff) linarith+

lemma f_to_i32_of_int:
  "- (2 ^ 31) \<le> i \<Longrightarrow> i < 2 ^ 31 \<Longrightarrow> f_to_i32 (Fin (of_int i)) = Some (word_of_int i)"
  by (simp add: Let_def)

end
