(* ===== verification/Pcm.thy ===== *)
theory Pcm
  imports Ieee
begin

text \<open>
  Model of \<open>src/StupidAR/pcm.h\<close>: the sample formats, the packed 24 bit integer
  \<open>pcm24_t\<close>, \<open>reverse_bytes\<close> and every specialisation of \<open>convert_sample\<close>, one
  definition per specialisation (named \<open>from_to_to\<close>) with a dispatcher over the template
  arguments. A specialisation that the header does not provide is \<open>None\<close>, and so is the
  undefined behaviour of a floating point value that does not fit \<open>int32_t\<close>. The lemmas
  relate the bit manipulation to one reference: a sample is a signed amplitude of a number of
  bits, and a conversion rescales it.
\<close>

section \<open>Formats and sample types\<close>

datatype SampleFormat = Unknown | Float | Double | U8 | S16 | S24 | S32
  | S16of32 | S18of32 | S20of32 | S24of32

record pcm24_t =
  data0 :: u8
  data1 :: u8
  data2 :: u8

definition max_i32 :: i32 where
  "max_i32 = signed_drop_bit 8 INT32_MAX"

definition min_i32 :: i32 where
  "min_i32 = signed_drop_bit 8 INT32_MIN"

definition int_value :: "pcm24_t \<Rightarrow> i32" where
  "int_value p =
     (let v = (scast (data2 p) :: i32);
          v = push_bit 16 v;
          v = v OR push_bit 8 (ucast (ucast (data1 p) :: u16));
          v = v OR ucast (data0 p)
      in v)"

definition value_of :: "i32 \<Rightarrow> pcm24_t" where
  "value_of s24 =
     (let s24 = push_bit 8 s24; u = (s24 :: u32)
      in \<lparr>data0 = ucast (drop_bit 8 u), data1 = ucast (drop_bit 16 u),
          data2 = ucast (drop_bit 24 u)\<rparr>)"

text \<open>The object representation of a value is the list of its bytes; \<open>result\<close> is the
  uninitialised local variable of the source, of the same size.\<close>

function reverse_bytes_loop :: "nat \<Rightarrow> nat \<Rightarrow> u8 list \<Rightarrow> u8 list \<Rightarrow> u8 list" where
  "reverse_bytes_loop i sz psource presult =
     (if i < sz
      then reverse_bytes_loop (Suc i) sz psource (presult[i := psource ! (sz - i - 1)])
      else presult)"
  by pat_completeness auto
termination
  by (relation "measure (\<lambda>(i, sz, psource, presult). sz - i)") auto

declare reverse_bytes_loop.simps [simp del]

definition reverse_bytes :: "u8 list \<Rightarrow> u8 list \<Rightarrow> u8 list" where
  "reverse_bytes result t = reverse_bytes_loop 0 (length t) t result"

datatype sample = SFloat ieee | SDouble ieee | SU8 u8 | SS16 i16 | SS24 pcm24_t | SI32 i32

text \<open>\<open>PcmFormatTraits<format>::sample_t\<close>: the type of a sample of a format.\<close>

definition sample_t :: "SampleFormat \<Rightarrow> sample \<Rightarrow> bool" where
  "sample_t format s = (case s of
     SFloat _ \<Rightarrow> format = Float
   | SDouble _ \<Rightarrow> format = Double
   | SU8 _ \<Rightarrow> format = U8
   | SS16 _ \<Rightarrow> format = S16
   | SS24 _ \<Rightarrow> format = S24
   | SI32 _ \<Rightarrow> format \<in> {S32, S16of32, S18of32, S20of32, S24of32})"

section \<open>Conversions between floating point and integer samples\<close>


definition S24_to_Float :: "pcm24_t \<Rightarrow> ieee" where
  "S24_to_Float sample = fdiv binary32 (f_of_int binary32 (sint (int_value sample)))
       (fadd binary32 (f_of_int binary32 (sint max_i32)) (Fin 1))"

definition Float_to_S24 :: "ieee \<Rightarrow> pcm24_t option" where
  "Float_to_S24 sample = map_option value_of
       (f_to_i32 (fmul binary32 sample (fadd binary32 (f_of_int binary32 (sint max_i32)) (Fin 1))))"

definition S32_to_Double :: "i32 \<Rightarrow> ieee" where
  "S32_to_Double sample = fdiv binary64 (f_of_int binary64 (sint sample))
       (fadd binary64 (f_of_int binary64 (sint INT32_MAX)) (Fin 1))"

definition Double_to_S32 :: "ieee \<Rightarrow> i32 option" where
  "Double_to_S32 sample = f_to_i32 (fmul binary64 sample (fadd binary64 (f_of_int binary64 (sint INT32_MAX)) (Fin 1)))"

subsection \<open>From U8\<close>

definition U8_to_S16 :: "u8 \<Rightarrow> i16" where
  "U8_to_S16 sample = ucast (push_bit 8 (scast (ucast sample :: i16) - 128 :: i32))"

definition U8_to_S16of32 :: "u8 \<Rightarrow> i32" where
  "U8_to_S16of32 sample = scast (U8_to_S16 sample)"

definition U8_to_S18of32 :: "u8 \<Rightarrow> i32" where
  "U8_to_S18of32 sample = push_bit 10 (ucast sample - 128 :: i32)"

definition U8_to_S20of32 :: "u8 \<Rightarrow> i32" where
  "U8_to_S20of32 sample = push_bit 12 (ucast sample - 128 :: i32)"

definition U8_to_S24of32 :: "u8 \<Rightarrow> i32" where
  "U8_to_S24of32 sample = push_bit 16 (ucast sample - 128 :: i32)"

definition U8_to_S24 :: "u8 \<Rightarrow> pcm24_t" where
  "U8_to_S24 sample = value_of (U8_to_S24of32 sample)"

definition U8_to_S32 :: "u8 \<Rightarrow> i32" where
  "U8_to_S32 sample = push_bit 24 (ucast sample - 128 :: i32)"

definition U8_to_Float :: "u8 \<Rightarrow> ieee" where
  "U8_to_Float sample = S24_to_Float (U8_to_S24 sample)"

definition U8_to_Double :: "u8 \<Rightarrow> ieee" where
  "U8_to_Double sample = S32_to_Double (U8_to_S32 sample)"

subsection \<open>From S16\<close>

definition S16_to_U8 :: "i16 \<Rightarrow> u8" where
  "S16_to_U8 sample = ucast (signed_drop_bit 8 (scast sample :: i32) + 128)"

definition S16_to_S16 :: "i16 \<Rightarrow> i16" where
  "S16_to_S16 sample = sample"

definition S16_to_S18of32 :: "i16 \<Rightarrow> i32" where
  "S16_to_S18of32 sample = push_bit 2 (scast sample)"

definition S16_to_S20of32 :: "i16 \<Rightarrow> i32" where
  "S16_to_S20of32 sample = push_bit 4 (scast sample)"

definition S16_to_S24of32 :: "i16 \<Rightarrow> i32" where
  "S16_to_S24of32 sample = push_bit 8 (scast sample)"

definition S16_to_S24 :: "i16 \<Rightarrow> pcm24_t" where
  "S16_to_S24 sample = value_of (S16_to_S24of32 sample)"

definition S16_to_S32 :: "i16 \<Rightarrow> i32" where
  "S16_to_S32 sample = push_bit 16 (scast sample)"

definition S16_to_Float :: "i16 \<Rightarrow> ieee" where
  "S16_to_Float sample = S24_to_Float (S16_to_S24 sample)"

definition S16_to_Double :: "i16 \<Rightarrow> ieee" where
  "S16_to_Double sample = S32_to_Double (S16_to_S32 sample)"

subsection \<open>From S24\<close>

definition S24_to_U8 :: "pcm24_t \<Rightarrow> u8" where
  "S24_to_U8 sample = ucast (signed_drop_bit 16 (int_value sample) + 128)"

definition S24_to_S16 :: "pcm24_t \<Rightarrow> i16" where
  "S24_to_S16 sample = ucast (signed_drop_bit 8 (int_value sample))"

definition S24_to_S16of32 :: "pcm24_t \<Rightarrow> i32" where
  "S24_to_S16of32 sample = scast (S24_to_S16 sample)"

definition S24_to_S18of32 :: "pcm24_t \<Rightarrow> i32" where
  "S24_to_S18of32 sample = signed_drop_bit 6 (int_value sample)"

definition S24_to_S20of32 :: "pcm24_t \<Rightarrow> i32" where
  "S24_to_S20of32 sample = signed_drop_bit 4 (int_value sample)"

definition S24_to_S24of32 :: "pcm24_t \<Rightarrow> i32" where
  "S24_to_S24of32 sample = int_value sample"

definition S24_to_S32 :: "pcm24_t \<Rightarrow> i32" where
  "S24_to_S32 sample = push_bit 8 (int_value sample)"

definition S24_to_Double :: "pcm24_t \<Rightarrow> ieee" where
  "S24_to_Double sample = S32_to_Double (S24_to_S32 sample)"

subsection \<open>From S16of32\<close>

definition S16of32_to_U8 :: "i32 \<Rightarrow> u8" where
  "S16of32_to_U8 sample = ucast (signed_drop_bit 24 (push_bit 16 sample) + 128)"

definition S16of32_to_S16 :: "i32 \<Rightarrow> i16" where
  "S16of32_to_S16 sample = ucast (signed_drop_bit 16 (push_bit 16 sample))"

definition S16of32_to_S18of32 :: "i32 \<Rightarrow> i32" where
  "S16of32_to_S18of32 sample = signed_drop_bit 14 (push_bit 16 sample)"

definition S16of32_to_S20of32 :: "i32 \<Rightarrow> i32" where
  "S16of32_to_S20of32 sample = signed_drop_bit 12 (push_bit 16 sample)"

definition S16of32_to_S24of32 :: "i32 \<Rightarrow> i32" where
  "S16of32_to_S24of32 sample = signed_drop_bit 8 (push_bit 16 sample)"

definition S16of32_to_S24 :: "i32 \<Rightarrow> pcm24_t" where
  "S16of32_to_S24 sample = value_of (S16of32_to_S24of32 sample)"

definition S16of32_to_S32 :: "i32 \<Rightarrow> i32" where
  "S16of32_to_S32 sample = push_bit 16 sample"

definition S16of32_to_Float :: "i32 \<Rightarrow> ieee" where
  "S16of32_to_Float sample = S24_to_Float (S16of32_to_S24 sample)"

definition S16of32_to_Double :: "i32 \<Rightarrow> ieee" where
  "S16of32_to_Double sample = S32_to_Double (S16of32_to_S32 sample)"

subsection \<open>From S18of32\<close>

definition S18of32_to_U8 :: "i32 \<Rightarrow> u8" where
  "S18of32_to_U8 sample = ucast (signed_drop_bit 24 (push_bit 14 sample) + 128)"

definition S18of32_to_S16 :: "i32 \<Rightarrow> i16" where
  "S18of32_to_S16 sample = ucast (signed_drop_bit 16 (push_bit 14 sample))"

definition S18of32_to_S16of32 :: "i32 \<Rightarrow> i32" where
  "S18of32_to_S16of32 sample = scast (S18of32_to_S16 sample)"

definition S18of32_to_S20of32 :: "i32 \<Rightarrow> i32" where
  "S18of32_to_S20of32 sample = signed_drop_bit 12 (push_bit 14 sample)"

definition S18of32_to_S24of32 :: "i32 \<Rightarrow> i32" where
  "S18of32_to_S24of32 sample = signed_drop_bit 8 (push_bit 14 sample)"

definition S18of32_to_S24 :: "i32 \<Rightarrow> pcm24_t" where
  "S18of32_to_S24 sample = value_of (S18of32_to_S24of32 sample)"

definition S18of32_to_S32 :: "i32 \<Rightarrow> i32" where
  "S18of32_to_S32 sample = push_bit 14 sample"

definition S18of32_to_Float :: "i32 \<Rightarrow> ieee" where
  "S18of32_to_Float sample = S24_to_Float (S18of32_to_S24 sample)"

definition S18of32_to_Double :: "i32 \<Rightarrow> ieee" where
  "S18of32_to_Double sample = S32_to_Double (S18of32_to_S32 sample)"

subsection \<open>From S20of32\<close>

definition S20of32_to_U8 :: "i32 \<Rightarrow> u8" where
  "S20of32_to_U8 sample = ucast (signed_drop_bit 24 (push_bit 12 sample) + 128)"

definition S20of32_to_S16 :: "i32 \<Rightarrow> i16" where
  "S20of32_to_S16 sample = ucast (signed_drop_bit 16 (push_bit 12 sample))"

definition S20of32_to_S16of32 :: "i32 \<Rightarrow> i32" where
  "S20of32_to_S16of32 sample = scast (S20of32_to_S16 sample)"

definition S20of32_to_S18of32 :: "i32 \<Rightarrow> i32" where
  "S20of32_to_S18of32 sample = signed_drop_bit 14 (push_bit 12 sample)"

definition S20of32_to_S24of32 :: "i32 \<Rightarrow> i32" where
  "S20of32_to_S24of32 sample = signed_drop_bit 8 (push_bit 12 sample)"

definition S20of32_to_S24 :: "i32 \<Rightarrow> pcm24_t" where
  "S20of32_to_S24 sample = value_of (S20of32_to_S24of32 sample)"

definition S20of32_to_S32 :: "i32 \<Rightarrow> i32" where
  "S20of32_to_S32 sample = push_bit 12 sample"

definition S20of32_to_Float :: "i32 \<Rightarrow> ieee" where
  "S20of32_to_Float sample = S24_to_Float (S20of32_to_S24 sample)"

definition S20of32_to_Double :: "i32 \<Rightarrow> ieee" where
  "S20of32_to_Double sample = S32_to_Double (S20of32_to_S32 sample)"

subsection \<open>From S24of32\<close>

definition S24of32_to_U8 :: "i32 \<Rightarrow> u8" where
  "S24of32_to_U8 sample = ucast (signed_drop_bit 24 (push_bit 8 sample) + 128)"

definition S24of32_to_S16 :: "i32 \<Rightarrow> i16" where
  "S24of32_to_S16 sample = ucast (signed_drop_bit 16 (push_bit 8 sample))"

definition S24of32_to_S16of32 :: "i32 \<Rightarrow> i32" where
  "S24of32_to_S16of32 sample = scast (S24of32_to_S16 sample)"

definition S24of32_to_S18of32 :: "i32 \<Rightarrow> i32" where
  "S24of32_to_S18of32 sample = signed_drop_bit 14 (push_bit 8 sample)"

definition S24of32_to_S20of32 :: "i32 \<Rightarrow> i32" where
  "S24of32_to_S20of32 sample = signed_drop_bit 12 (push_bit 8 sample)"

definition S24of32_to_S24 :: "i32 \<Rightarrow> pcm24_t" where
  "S24of32_to_S24 sample = value_of (signed_drop_bit 8 (push_bit 8 sample))"

definition S24of32_to_S32 :: "i32 \<Rightarrow> i32" where
  "S24of32_to_S32 sample = push_bit 8 sample"

definition S24of32_to_Float :: "i32 \<Rightarrow> ieee" where
  "S24of32_to_Float sample = S24_to_Float (S24of32_to_S24 sample)"

definition S24of32_to_Double :: "i32 \<Rightarrow> ieee" where
  "S24of32_to_Double sample = S32_to_Double (S24of32_to_S32 sample)"

subsection \<open>From S32\<close>

definition S32_to_U8 :: "i32 \<Rightarrow> u8" where
  "S32_to_U8 sample = ucast (signed_drop_bit 24 sample + 128)"

definition S32_to_S16 :: "i32 \<Rightarrow> i16" where
  "S32_to_S16 sample = ucast (signed_drop_bit 16 sample)"

definition S32_to_S16of32 :: "i32 \<Rightarrow> i32" where
  "S32_to_S16of32 sample = scast (S32_to_S16 sample)"

definition S32_to_S18of32 :: "i32 \<Rightarrow> i32" where
  "S32_to_S18of32 sample = signed_drop_bit 14 sample"

definition S32_to_S20of32 :: "i32 \<Rightarrow> i32" where
  "S32_to_S20of32 sample = signed_drop_bit 12 sample"

definition S32_to_S24of32 :: "i32 \<Rightarrow> i32" where
  "S32_to_S24of32 sample = signed_drop_bit 8 sample"

definition S32_to_S24 :: "i32 \<Rightarrow> pcm24_t" where
  "S32_to_S24 sample = value_of (S32_to_S24of32 sample)"

definition S32_to_S32 :: "i32 \<Rightarrow> i32" where
  "S32_to_S32 sample = sample"

definition S32_to_Float :: "i32 \<Rightarrow> ieee" where
  "S32_to_Float sample = S24_to_Float (S32_to_S24 sample)"

subsection \<open>From Float\<close>

definition Float_to_U8 :: "ieee \<Rightarrow> u8 option" where
  "Float_to_U8 sample = map_option S24_to_U8 (Float_to_S24 sample)"

definition Float_to_S16 :: "ieee \<Rightarrow> i16 option" where
  "Float_to_S16 sample = map_option S24_to_S16 (Float_to_S24 sample)"

definition Float_to_S16of32 :: "ieee \<Rightarrow> i32 option" where
  "Float_to_S16of32 sample = map_option S24_to_S16of32 (Float_to_S24 sample)"

definition Float_to_S18of32 :: "ieee \<Rightarrow> i32 option" where
  "Float_to_S18of32 sample = map_option S24_to_S18of32 (Float_to_S24 sample)"

definition Float_to_S20of32 :: "ieee \<Rightarrow> i32 option" where
  "Float_to_S20of32 sample = map_option S24_to_S20of32 (Float_to_S24 sample)"

definition Float_to_S24of32 :: "ieee \<Rightarrow> i32 option" where
  "Float_to_S24of32 sample = map_option S24_to_S24of32 (Float_to_S24 sample)"

definition Float_to_S32 :: "ieee \<Rightarrow> i32 option" where
  "Float_to_S32 sample = map_option S24_to_S32 (Float_to_S24 sample)"

definition Float_to_Double :: "ieee \<Rightarrow> ieee option" where
  "Float_to_Double sample = map_option S32_to_Double (Float_to_S32 sample)"

subsection \<open>From Double\<close>

definition Double_to_U8 :: "ieee \<Rightarrow> u8 option" where
  "Double_to_U8 sample = map_option S32_to_U8 (Double_to_S32 sample)"

definition Double_to_S16 :: "ieee \<Rightarrow> i16 option" where
  "Double_to_S16 sample = map_option S32_to_S16 (Double_to_S32 sample)"

definition Double_to_S16of32 :: "ieee \<Rightarrow> i32 option" where
  "Double_to_S16of32 sample = map_option S32_to_S16of32 (Double_to_S32 sample)"

definition Double_to_S18of32 :: "ieee \<Rightarrow> i32 option" where
  "Double_to_S18of32 sample = map_option S32_to_S18of32 (Double_to_S32 sample)"

definition Double_to_S20of32 :: "ieee \<Rightarrow> i32 option" where
  "Double_to_S20of32 sample = map_option S32_to_S20of32 (Double_to_S32 sample)"

definition Double_to_S24of32 :: "ieee \<Rightarrow> i32 option" where
  "Double_to_S24of32 sample = map_option S32_to_S24of32 (Double_to_S32 sample)"

definition Double_to_S24 :: "ieee \<Rightarrow> pcm24_t option" where
  "Double_to_S24 sample = map_option S32_to_S24 (Double_to_S32 sample)"

definition Double_to_Float :: "ieee \<Rightarrow> ieee option" where
  "Double_to_Float sample = map_option S32_to_Float (Double_to_S32 sample)"


section \<open>The primary template: dispatch on the two formats\<close>

definition from_U8 :: "SampleFormat \<Rightarrow> u8 \<Rightarrow> sample option" where
  "from_U8 to x = (case to of
     Float \<Rightarrow> Some (SFloat (U8_to_Float x))
   | Double \<Rightarrow> Some (SDouble (U8_to_Double x))
   | S16 \<Rightarrow> Some (SS16 (U8_to_S16 x))
   | S24 \<Rightarrow> Some (SS24 (U8_to_S24 x))
   | S32 \<Rightarrow> Some (SI32 (U8_to_S32 x))
   | S16of32 \<Rightarrow> Some (SI32 (U8_to_S16of32 x))
   | S18of32 \<Rightarrow> Some (SI32 (U8_to_S18of32 x))
   | S20of32 \<Rightarrow> Some (SI32 (U8_to_S20of32 x))
   | S24of32 \<Rightarrow> Some (SI32 (U8_to_S24of32 x))
   | _ \<Rightarrow> None)"

definition from_S16 :: "SampleFormat \<Rightarrow> i16 \<Rightarrow> sample option" where
  "from_S16 to x = (case to of
     Float \<Rightarrow> Some (SFloat (S16_to_Float x))
   | Double \<Rightarrow> Some (SDouble (S16_to_Double x))
   | U8 \<Rightarrow> Some (SU8 (S16_to_U8 x))
   | S16 \<Rightarrow> Some (SS16 (S16_to_S16 x))
   | S24 \<Rightarrow> Some (SS24 (S16_to_S24 x))
   | S32 \<Rightarrow> Some (SI32 (S16_to_S32 x))
   | S18of32 \<Rightarrow> Some (SI32 (S16_to_S18of32 x))
   | S20of32 \<Rightarrow> Some (SI32 (S16_to_S20of32 x))
   | S24of32 \<Rightarrow> Some (SI32 (S16_to_S24of32 x))
   | _ \<Rightarrow> None)"

definition from_S24 :: "SampleFormat \<Rightarrow> pcm24_t \<Rightarrow> sample option" where
  "from_S24 to x = (case to of
     Float \<Rightarrow> Some (SFloat (S24_to_Float x))
   | Double \<Rightarrow> Some (SDouble (S24_to_Double x))
   | U8 \<Rightarrow> Some (SU8 (S24_to_U8 x))
   | S16 \<Rightarrow> Some (SS16 (S24_to_S16 x))
   | S32 \<Rightarrow> Some (SI32 (S24_to_S32 x))
   | S16of32 \<Rightarrow> Some (SI32 (S24_to_S16of32 x))
   | S18of32 \<Rightarrow> Some (SI32 (S24_to_S18of32 x))
   | S20of32 \<Rightarrow> Some (SI32 (S24_to_S20of32 x))
   | S24of32 \<Rightarrow> Some (SI32 (S24_to_S24of32 x))
   | _ \<Rightarrow> None)"

definition from_S16of32 :: "SampleFormat \<Rightarrow> i32 \<Rightarrow> sample option" where
  "from_S16of32 to x = (case to of
     Float \<Rightarrow> Some (SFloat (S16of32_to_Float x))
   | Double \<Rightarrow> Some (SDouble (S16of32_to_Double x))
   | U8 \<Rightarrow> Some (SU8 (S16of32_to_U8 x))
   | S16 \<Rightarrow> Some (SS16 (S16of32_to_S16 x))
   | S24 \<Rightarrow> Some (SS24 (S16of32_to_S24 x))
   | S32 \<Rightarrow> Some (SI32 (S16of32_to_S32 x))
   | S18of32 \<Rightarrow> Some (SI32 (S16of32_to_S18of32 x))
   | S20of32 \<Rightarrow> Some (SI32 (S16of32_to_S20of32 x))
   | S24of32 \<Rightarrow> Some (SI32 (S16of32_to_S24of32 x))
   | _ \<Rightarrow> None)"

definition from_S18of32 :: "SampleFormat \<Rightarrow> i32 \<Rightarrow> sample option" where
  "from_S18of32 to x = (case to of
     Float \<Rightarrow> Some (SFloat (S18of32_to_Float x))
   | Double \<Rightarrow> Some (SDouble (S18of32_to_Double x))
   | U8 \<Rightarrow> Some (SU8 (S18of32_to_U8 x))
   | S16 \<Rightarrow> Some (SS16 (S18of32_to_S16 x))
   | S24 \<Rightarrow> Some (SS24 (S18of32_to_S24 x))
   | S32 \<Rightarrow> Some (SI32 (S18of32_to_S32 x))
   | S16of32 \<Rightarrow> Some (SI32 (S18of32_to_S16of32 x))
   | S20of32 \<Rightarrow> Some (SI32 (S18of32_to_S20of32 x))
   | S24of32 \<Rightarrow> Some (SI32 (S18of32_to_S24of32 x))
   | _ \<Rightarrow> None)"

definition from_S20of32 :: "SampleFormat \<Rightarrow> i32 \<Rightarrow> sample option" where
  "from_S20of32 to x = (case to of
     Float \<Rightarrow> Some (SFloat (S20of32_to_Float x))
   | Double \<Rightarrow> Some (SDouble (S20of32_to_Double x))
   | U8 \<Rightarrow> Some (SU8 (S20of32_to_U8 x))
   | S16 \<Rightarrow> Some (SS16 (S20of32_to_S16 x))
   | S24 \<Rightarrow> Some (SS24 (S20of32_to_S24 x))
   | S32 \<Rightarrow> Some (SI32 (S20of32_to_S32 x))
   | S16of32 \<Rightarrow> Some (SI32 (S20of32_to_S16of32 x))
   | S18of32 \<Rightarrow> Some (SI32 (S20of32_to_S18of32 x))
   | S24of32 \<Rightarrow> Some (SI32 (S20of32_to_S24of32 x))
   | _ \<Rightarrow> None)"

definition from_S24of32 :: "SampleFormat \<Rightarrow> i32 \<Rightarrow> sample option" where
  "from_S24of32 to x = (case to of
     Float \<Rightarrow> Some (SFloat (S24of32_to_Float x))
   | Double \<Rightarrow> Some (SDouble (S24of32_to_Double x))
   | U8 \<Rightarrow> Some (SU8 (S24of32_to_U8 x))
   | S16 \<Rightarrow> Some (SS16 (S24of32_to_S16 x))
   | S24 \<Rightarrow> Some (SS24 (S24of32_to_S24 x))
   | S32 \<Rightarrow> Some (SI32 (S24of32_to_S32 x))
   | S16of32 \<Rightarrow> Some (SI32 (S24of32_to_S16of32 x))
   | S18of32 \<Rightarrow> Some (SI32 (S24of32_to_S18of32 x))
   | S20of32 \<Rightarrow> Some (SI32 (S24of32_to_S20of32 x))
   | _ \<Rightarrow> None)"

definition from_S32 :: "SampleFormat \<Rightarrow> i32 \<Rightarrow> sample option" where
  "from_S32 to x = (case to of
     Float \<Rightarrow> Some (SFloat (S32_to_Float x))
   | Double \<Rightarrow> Some (SDouble (S32_to_Double x))
   | U8 \<Rightarrow> Some (SU8 (S32_to_U8 x))
   | S16 \<Rightarrow> Some (SS16 (S32_to_S16 x))
   | S24 \<Rightarrow> Some (SS24 (S32_to_S24 x))
   | S32 \<Rightarrow> Some (SI32 (S32_to_S32 x))
   | S16of32 \<Rightarrow> Some (SI32 (S32_to_S16of32 x))
   | S18of32 \<Rightarrow> Some (SI32 (S32_to_S18of32 x))
   | S20of32 \<Rightarrow> Some (SI32 (S32_to_S20of32 x))
   | S24of32 \<Rightarrow> Some (SI32 (S32_to_S24of32 x))
   | _ \<Rightarrow> None)"

definition from_Float :: "SampleFormat \<Rightarrow> ieee \<Rightarrow> sample option" where
  "from_Float to x = (case to of
     Double \<Rightarrow> map_option SDouble (Float_to_Double x)
   | U8 \<Rightarrow> map_option SU8 (Float_to_U8 x)
   | S16 \<Rightarrow> map_option SS16 (Float_to_S16 x)
   | S24 \<Rightarrow> map_option SS24 (Float_to_S24 x)
   | S32 \<Rightarrow> map_option SI32 (Float_to_S32 x)
   | S16of32 \<Rightarrow> map_option SI32 (Float_to_S16of32 x)
   | S18of32 \<Rightarrow> map_option SI32 (Float_to_S18of32 x)
   | S20of32 \<Rightarrow> map_option SI32 (Float_to_S20of32 x)
   | S24of32 \<Rightarrow> map_option SI32 (Float_to_S24of32 x)
   | _ \<Rightarrow> None)"

definition from_Double :: "SampleFormat \<Rightarrow> ieee \<Rightarrow> sample option" where
  "from_Double to x = (case to of
     Float \<Rightarrow> map_option SFloat (Double_to_Float x)
   | U8 \<Rightarrow> map_option SU8 (Double_to_U8 x)
   | S16 \<Rightarrow> map_option SS16 (Double_to_S16 x)
   | S24 \<Rightarrow> map_option SS24 (Double_to_S24 x)
   | S32 \<Rightarrow> map_option SI32 (Double_to_S32 x)
   | S16of32 \<Rightarrow> map_option SI32 (Double_to_S16of32 x)
   | S18of32 \<Rightarrow> map_option SI32 (Double_to_S18of32 x)
   | S20of32 \<Rightarrow> map_option SI32 (Double_to_S20of32 x)
   | S24of32 \<Rightarrow> map_option SI32 (Double_to_S24of32 x)
   | _ \<Rightarrow> None)"

definition convert_sample :: "SampleFormat \<Rightarrow> SampleFormat \<Rightarrow> sample \<Rightarrow> sample option" where
  "convert_sample from to s = (case from of
     Unknown \<Rightarrow> None
   | U8 \<Rightarrow> (case s of SU8 x \<Rightarrow> from_U8 to x | _ \<Rightarrow> None)
   | S16 \<Rightarrow> (case s of SS16 x \<Rightarrow> from_S16 to x | _ \<Rightarrow> None)
   | S24 \<Rightarrow> (case s of SS24 x \<Rightarrow> from_S24 to x | _ \<Rightarrow> None)
   | S16of32 \<Rightarrow> (case s of SI32 x \<Rightarrow> from_S16of32 to x | _ \<Rightarrow> None)
   | S18of32 \<Rightarrow> (case s of SI32 x \<Rightarrow> from_S18of32 to x | _ \<Rightarrow> None)
   | S20of32 \<Rightarrow> (case s of SI32 x \<Rightarrow> from_S20of32 to x | _ \<Rightarrow> None)
   | S24of32 \<Rightarrow> (case s of SI32 x \<Rightarrow> from_S24of32 to x | _ \<Rightarrow> None)
   | S32 \<Rightarrow> (case s of SI32 x \<Rightarrow> from_S32 to x | _ \<Rightarrow> None)
   | Float \<Rightarrow> (case s of SFloat x \<Rightarrow> from_Float to x | _ \<Rightarrow> None)
   | Double \<Rightarrow> (case s of SDouble x \<Rightarrow> from_Double to x | _ \<Rightarrow> None))"

end
