(* ===== verification/Pcm_Props.thy ===== *)
theory Pcm_Props
  imports Pcm
begin

text \<open>
  Correctness of the sample conversions of \<open>pcm.h\<close>. The reference is a fixed point
  reading of the integer formats: a sample of a format of \<open>b\<close> bits is a signed amplitude
  in \<open>[-2^(b-1), 2^(b-1))\<close> and a conversion from \<open>b\<close> to \<open>b'\<close> bits rescales it by
  \<open>2^(b'-b)\<close>, rounding down. Every specialisation is shown to implement that reference,
  the packed 24 bit integer to be a bijection with its range, and the floating point
  conversions to be exact on integer samples and accurate to one step on the others.
\<close>

section \<open>The packed 24 bit integer\<close>

lemma max_i32_eq: "max_i32 = 0x7FFFFF" and min_i32_eq: "min_i32 = - 0x800000"
  by (simp_all add: max_i32_def min_i32_def INT32_MAX_def INT32_MIN_def)

lemma int_value_value_of: "int_value (value_of x) = signed_take_bit 23 x"
proof (rule bit_word_eqI)
  fix n assume n: "n < LENGTH(32)"
  consider "n < 8" | "8 \<le> n" "n < 16" | "16 \<le> n" by linarith
  then show "bit (int_value (value_of x)) n = bit (signed_take_bit 23 x) n"
    by cases (use n in \<open>auto simp: int_value_def value_of_def Let_def bit_simps min_def
      dest: bit_imp_le_length\<close>)
qed

lemma value_of_int_value [simp]: "value_of (int_value p) = p"
proof -
  have "data0 (value_of (int_value p)) = data0 p"
    by (rule bit_word_eqI) (auto simp: int_value_def value_of_def Let_def bit_simps dest: bit_imp_le_length)
  moreover have "data1 (value_of (int_value p)) = data1 p"
    by (rule bit_word_eqI) (auto simp: int_value_def value_of_def Let_def bit_simps dest: bit_imp_le_length)
  moreover have "data2 (value_of (int_value p)) = data2 p"
    by (rule bit_word_eqI) (auto simp: int_value_def value_of_def Let_def bit_simps dest: bit_imp_le_length)
  ultimately show ?thesis by simp
qed

lemma sint_signed_take_bit_word:
  "sint (signed_take_bit n w) = signed_take_bit n (sint w)" if "n < 31" for w :: i32
  using that by (intro bit_eqI) (auto simp: bit_simps min_def)

lemma sint_value_of [shift_simps]: "sint (int_value (value_of x)) = signed_take_bit 23 (sint x)"
  by (simp add: int_value_value_of sint_signed_take_bit_word)

lemma sint_int_value_range: "- (2 ^ 23) \<le> sint (int_value p) \<and> sint (int_value p) < 2 ^ 23"
  using sint_value_of [of "int_value p"] signed_take_bit_range [of 23 "sint (int_value p)"] by simp

section \<open>The reference: amplitudes and rescaling\<close>

fun bits :: "SampleFormat \<Rightarrow> nat" where
  "bits U8 = 8"
| "bits S16 = 16"
| "bits S24 = 24"
| "bits S32 = 32"
| "bits S16of32 = 16"
| "bits S18of32 = 18"
| "bits S20of32 = 20"
| "bits S24of32 = 24"
| "bits _ = 0"

definition int_format :: "SampleFormat \<Rightarrow> bool" where
  "int_format f \<longleftrightarrow> f \<notin> {Unknown, Float, Double}"

text \<open>The amplitude of a sample; the upper bits of a container of 32 bits are ignored.\<close>

fun amplitude :: "SampleFormat \<Rightarrow> sample \<Rightarrow> int" where
  "amplitude f (SU8 x) = uint x - 128"
| "amplitude f (SS16 x) = sint x"
| "amplitude f (SS24 p) = sint (int_value p)"
| "amplitude f (SI32 x) = signed_take_bit (bits f - 1) (sint x)"
| "amplitude f _ = 0"

definition rescale :: "nat \<Rightarrow> nat \<Rightarrow> int \<Rightarrow> int" where
  "rescale b b' v = (if b \<le> b' then v * 2 ^ (b' - b) else v div 2 ^ (b - b'))"

text \<open>A container of 32 bits that holds a sign-extended value of the format.\<close>

fun canonical :: "SampleFormat \<Rightarrow> sample \<Rightarrow> bool" where
  "canonical f (SI32 x) = (- (2 ^ (bits f - 1)) \<le> sint x \<and> sint x < 2 ^ (bits f - 1))"
| "canonical f _ = True"

text \<open>The pairs of integer formats the header provides.\<close>

definition provided :: "SampleFormat \<Rightarrow> SampleFormat \<Rightarrow> bool" where
  "provided f t \<longleftrightarrow> int_format f \<and> int_format t \<and>
     (f \<noteq> t \<or> f \<in> {S16, S32}) \<and> (f, t) \<noteq> (S16, S16of32)"

section \<open>Words read as amplitudes\<close>

lemma sint_u8_centred [shift_simps]: "sint (ucast x - 128 :: i32) = uint x - 128" for x :: u8
proof -
  have "ucast x - 128 = (word_of_int (uint x - 128) :: i32)"
    by (simp add: word_of_int_minus [symmetric] of_int_diff)
  moreover have "sint (word_of_int (uint x - 128) :: i32) = uint x - 128"
    unfolding sint_eq_signed_take_bit
    by (rule signed_take_bit_idem_range) (use uint_lt2p [of x] uint_ge_0 [of x] in simp_all)
  ultimately show ?thesis by simp
qed

lemma scast_u8_i16 [shift_simps]: "scast (ucast x :: i16) = (ucast x :: i32)" for x :: u8
  by (rule bit_word_eqI) (auto simp: bit_simps min_def dest: bit_imp_le_length)

lemma sint_i16_of_i32 [shift_simps]: "sint (ucast w :: i16) = signed_take_bit 15 (sint w)"
  for w :: i32
  by (rule bit_eqI) (auto simp: bit_simps min_def)

lemma u8_centred:
  fixes w :: i32
  assumes "- 128 \<le> sint w" and "sint w < 128"
  shows "uint (ucast (w + 128) :: u8) - 128 = sint w"
proof -
  have w: "w + 128 = word_of_int (sint w + 128)" by simp
  have "uint (ucast (word_of_int k :: i32) :: u8) = k" if "0 \<le> k" "k < 256" for k
    using that by (simp add: unsigned_ucast_eq take_bit_word_eq_self take_bit_int_eq_self
        uint_word_of_int_eq)
  from this [of "sint w + 128"] show ?thesis unfolding w using assms by simp
qed

lemma sint_u8_range: "- 128 \<le> uint (x :: u8) - 128 \<and> uint x - 128 < 128"
  using uint_lt2p [of x] uint_ge_0 [of x] by simp

definition fits :: "nat \<Rightarrow> int \<Rightarrow> bool" where
  "fits b v \<longleftrightarrow> - (2 ^ (b - 1)) \<le> v \<and> v < 2 ^ (b - 1)"

lemma fits_signed_take_bit [simp]: "fits b (signed_take_bit (b - 1) k)"
  by (simp add: fits_def signed_take_bit_range)

lemma signed_take_bit_fits: "fits b v \<Longrightarrow> signed_take_bit (b - 1) v = v"
  by (simp add: fits_def signed_take_bit_idem_range)

lemma fits_rescale:
  assumes "fits b v" and "0 < b" and "0 < b'"
  shows "fits b' (rescale b b' v)"
proof (cases "b \<le> b'")
  case True
  then have e: "(2::int) ^ (b' - 1) = 2 ^ (b - 1) * 2 ^ (b' - b)"
    using assms(2) by (simp flip: power_add)
  have pos: "(0::int) < 2 ^ (b' - b)" by simp
  have "- (2 ^ (b - 1)) * 2 ^ (b' - b) \<le> v * 2 ^ (b' - b)"
    using assms(1) pos by (intro mult_right_mono) (simp_all add: fits_def)
  moreover have "v * 2 ^ (b' - b) < 2 ^ (b - 1) * 2 ^ (b' - b)"
    using assms(1) pos by (intro mult_strict_right_mono) (simp_all only: fits_def)
  ultimately show ?thesis using True unfolding fits_def rescale_def e by auto
next
  case False
  then have e: "(2::int) ^ (b - 1) = 2 ^ (b' - 1) * 2 ^ (b - b')"
    using assms(3) by (simp flip: power_add)
  have "\<not> v div 2 ^ (b - b') < - (2 ^ (b' - 1))" and "v div 2 ^ (b - b') < 2 ^ (b' - 1)"
    using assms(1) unfolding fits_def e by (auto simp: zdiv_less_iff)
  then show ?thesis using False unfolding fits_def rescale_def by auto
qed

lemma sint_shl_sar:
  "n \<le> 31 \<Longrightarrow> m \<le> 31 \<Longrightarrow>
   sint (signed_drop_bit m (push_bit n w)) = rescale (32 - n) (32 - m) (signed_take_bit (31 - n) (sint w))"
  for w :: i32
proof -
  assume n: "n \<le> 31" and m: "m \<le> 31"
  have "v * 2 ^ n div 2 ^ m = rescale (32 - n) (32 - m) v" for v :: int
  proof (cases "m \<le> n")
    case True
    then have "(2::int) ^ n = 2 ^ (n - m) * 2 ^ m" by (simp flip: power_add)
    then show ?thesis using True n m by (simp add: rescale_def flip: mult.assoc)
  next
    case False
    then have "(2::int) ^ m = 2 ^ n * 2 ^ (m - n)" by (simp flip: power_add)
    then show ?thesis using False n m by (simp add: rescale_def mult.commute)
  qed
  then show ?thesis using n by (simp add: sint_sar sint_shl32)
qed

lemma signed_take_bit_fits_le: "fits b v \<Longrightarrow> 0 < b \<Longrightarrow> b \<le> Suc n \<Longrightarrow> signed_take_bit n v = v"
proof -
  assume v: "fits b v" and b: "0 < b" "b \<le> Suc n"
  have "(2::int) ^ (b - 1) \<le> 2 ^ n" by (rule power_increasing) (use b in auto)
  moreover have "- (2 ^ (b - 1)) \<le> v" "v < 2 ^ (b - 1)" using v by (simp_all only: fits_def)
  ultimately show ?thesis by (intro signed_take_bit_idem_range) linarith+
qed

lemma fits_u8: "fits 8 (uint (x :: u8) - 128)"
  using sint_u8_range [of x] by (simp add: fits_def)

lemma fits_i16: "fits 16 (sint (x :: i16))"
  using sint_range16 [of x] by (simp add: fits_def)

lemma fits_i32: "fits 32 (sint (x :: i32))"
  using sint_range32 [of x] by (simp add: fits_def)

lemma fits_pcm24: "fits 24 (sint (int_value p))"
  using sint_int_value_range [of p] by (simp add: fits_def)

lemmas source_fits = fits_u8 fits_i16 fits_i32 fits_pcm24 fits_signed_take_bit

lemma wide_enough [shift_simps]:
  "7 \<le> n \<Longrightarrow> signed_take_bit n (uint (x :: u8) - 128) = uint x - 128"
  "15 \<le> n \<Longrightarrow> signed_take_bit n (sint (y :: i16)) = sint y"
  "23 \<le> n \<Longrightarrow> signed_take_bit n (sint (int_value p)) = sint (int_value p)"
  "31 \<le> n \<Longrightarrow> signed_take_bit n (sint (z :: i32)) = sint z"
  using signed_take_bit_fits_le [OF fits_u8, of n x] signed_take_bit_fits_le [OF fits_i16, of n y]
    signed_take_bit_fits_le [OF fits_pcm24, of n p] signed_take_bit_fits_le [OF fits_i32, of n z]
  by simp_all

section \<open>Every integer conversion rescales the amplitude\<close>

definition converts :: "SampleFormat \<Rightarrow> int \<Rightarrow> SampleFormat \<Rightarrow> sample option \<Rightarrow> bool" where
  "converts f v t r \<longleftrightarrow>
     (\<exists>s. r = Some s \<and> sample_t t s \<and> canonical t s \<and> amplitude t s = rescale (bits f) (bits t) v)"

lemma bits_pos: "int_format f \<Longrightarrow> 0 < bits f"
  by (cases f) (auto simp: int_format_def)

lemma fits_target:
  "int_format f \<Longrightarrow> fits (bits f) v \<Longrightarrow> 0 < b' \<Longrightarrow> x = rescale (bits f) b' v \<Longrightarrow> fits b' x"
  by (simp add: fits_rescale bits_pos)

lemma converts_U8I:
  fixes w :: i32
  assumes "int_format f" "fits (bits f) v" "sint w = rescale (bits f) 8 v"
  shows "converts f v U8 (Some (SU8 (ucast (w + 128))))"
  using fits_target [of f v 8 "sint w"] assms
  by (simp add: converts_def sample_t_def u8_centred fits_def)

lemma converts_S16I:
  fixes w :: i32
  assumes "int_format f" "fits (bits f) v" "sint w = rescale (bits f) 16 v"
  shows "converts f v S16 (Some (SS16 (ucast w)))"
  using fits_target [of f v 16 "sint w"] assms
  by (simp add: converts_def sample_t_def sint_i16_of_i32 signed_take_bit_fits_le [of 16])

lemma converts_S24I:
  fixes w :: i32
  assumes "int_format f" "fits (bits f) v" "sint w = rescale (bits f) 24 v"
  shows "converts f v S24 (Some (SS24 (value_of w)))"
  using fits_target [of f v 24 "sint w"] assms
  by (simp add: converts_def sample_t_def sint_value_of signed_take_bit_fits_le [of 24])

lemma converts_S16of32I:
  fixes w :: i32
  assumes "int_format f" "fits (bits f) v" "sint w = rescale (bits f) 16 v"
  shows "converts f v S16of32 (Some (SI32 (scast (ucast w :: i16))))"
  using fits_target [of f v 16 "sint w"] assms
  by (simp add: converts_def sample_t_def sint_up32_16 sint_i16_of_i32
      signed_take_bit_fits_le [of 16] fits_def [of 16 "rescale _ _ _"])

lemma converts_SI32I:
  fixes w :: i32
  assumes "int_format f" "fits (bits f) v" "sint w = rescale (bits f) (bits t) v"
    and "t \<in> {S32, S16of32, S18of32, S20of32, S24of32}"
  shows "converts f v t (Some (SI32 w))"
proof -
  have "fits (bits t) (sint w)"
    using fits_target [of f v "bits t" "sint w"] assms by (auto simp: int_format_def)
  then show ?thesis
    using assms signed_take_bit_fits [of "bits t" "sint w"]
    by (auto simp: converts_def sample_t_def fits_def)
qed

lemma converts_S16_id: "converts S16 (sint x) S16 (Some (SS16 x))"
  by (simp add: converts_def sample_t_def rescale_def)

lemmas convertsI = converts_S16_id converts_U8I converts_S16I converts_S24I converts_S16of32I converts_SI32I

lemmas U8_conversions =
    U8_to_S16_def U8_to_S16of32_def U8_to_S18of32_def U8_to_S20of32_def U8_to_S24of32_def
    U8_to_S24_def U8_to_S32_def

lemma from_U8_converts:
  "provided U8 t \<Longrightarrow> converts U8 (uint x - 128) t (from_U8 t x)"
  by (cases t) (auto simp: provided_def int_format_def from_U8_def U8_conversions source_fits
      sint_shl_sar shift_simps rescale_def intro!: convertsI)

lemmas S16_conversions =
    S16_to_U8_def S16_to_S16_def S16_to_S18of32_def S16_to_S20of32_def S16_to_S24of32_def
    S16_to_S24_def S16_to_S32_def

lemma from_S16_converts:
  "provided S16 t \<Longrightarrow> converts S16 (sint x) t (from_S16 t x)"
  by (cases t) (auto simp: provided_def int_format_def from_S16_def S16_conversions source_fits
      sint_shl_sar shift_simps rescale_def intro!: convertsI)

lemmas S24_conversions =
    S24_to_U8_def S24_to_S16_def S24_to_S16of32_def S24_to_S18of32_def S24_to_S20of32_def
    S24_to_S24of32_def S24_to_S32_def

lemma from_S24_converts:
  "provided S24 t \<Longrightarrow> converts S24 (sint (int_value x)) t (from_S24 t x)"
  by (cases t) (auto simp: provided_def int_format_def from_S24_def S24_conversions source_fits
      sint_shl_sar shift_simps rescale_def intro!: convertsI)

lemmas S16of32_conversions =
    S16of32_to_U8_def S16of32_to_S16_def S16of32_to_S18of32_def S16of32_to_S20of32_def
    S16of32_to_S24of32_def S16of32_to_S24_def S16of32_to_S32_def

lemma from_S16of32_converts:
  "provided S16of32 t \<Longrightarrow> converts S16of32 (signed_take_bit 15 (sint x)) t (from_S16of32 t x)"
  using fits_signed_take_bit [of 16 "sint x"]
  by (cases t) (auto simp: provided_def int_format_def from_S16of32_def S16of32_conversions source_fits
      sint_shl_sar shift_simps rescale_def intro!: convertsI)

lemmas S18of32_conversions =
    S18of32_to_U8_def S18of32_to_S16_def S18of32_to_S16of32_def S18of32_to_S20of32_def
    S18of32_to_S24of32_def S18of32_to_S24_def S18of32_to_S32_def

lemma from_S18of32_converts:
  "provided S18of32 t \<Longrightarrow> converts S18of32 (signed_take_bit 17 (sint x)) t (from_S18of32 t x)"
  using fits_signed_take_bit [of 18 "sint x"]
  by (cases t) (auto simp: provided_def int_format_def from_S18of32_def S18of32_conversions source_fits
      sint_shl_sar shift_simps rescale_def intro!: convertsI)

lemmas S20of32_conversions =
    S20of32_to_U8_def S20of32_to_S16_def S20of32_to_S16of32_def S20of32_to_S18of32_def
    S20of32_to_S24of32_def S20of32_to_S24_def S20of32_to_S32_def

lemma from_S20of32_converts:
  "provided S20of32 t \<Longrightarrow> converts S20of32 (signed_take_bit 19 (sint x)) t (from_S20of32 t x)"
  using fits_signed_take_bit [of 20 "sint x"]
  by (cases t) (auto simp: provided_def int_format_def from_S20of32_def S20of32_conversions source_fits
      sint_shl_sar shift_simps rescale_def intro!: convertsI)

lemmas S24of32_conversions =
    S24of32_to_U8_def S24of32_to_S16_def S24of32_to_S16of32_def S24of32_to_S18of32_def
    S24of32_to_S20of32_def S24of32_to_S24_def S24of32_to_S32_def

lemma from_S24of32_converts:
  "provided S24of32 t \<Longrightarrow> converts S24of32 (signed_take_bit 23 (sint x)) t (from_S24of32 t x)"
  using fits_signed_take_bit [of 24 "sint x"]
  by (cases t) (auto simp: provided_def int_format_def from_S24of32_def S24of32_conversions source_fits
      sint_shl_sar shift_simps rescale_def intro!: convertsI)

lemmas S32_conversions =
    S32_to_U8_def S32_to_S16_def S32_to_S16of32_def S32_to_S18of32_def S32_to_S20of32_def
    S32_to_S24of32_def S32_to_S24_def S32_to_S32_def

lemma from_S32_converts:
  "provided S32 t \<Longrightarrow> converts S32 (sint x) t (from_S32 t x)"
  by (cases t) (auto simp: provided_def int_format_def from_S32_def S32_conversions source_fits
      sint_shl_sar shift_simps rescale_def intro!: convertsI)

lemmas from_converts = from_U8_converts from_S16_converts from_S24_converts from_S32_converts
  from_S16of32_converts from_S18of32_converts from_S20of32_converts from_S24of32_converts

lemma convert_sample_converts:
  "provided f t \<Longrightarrow> sample_t f s \<Longrightarrow> converts f (amplitude f s) t (convert_sample f t s)"
  using from_converts
  by (cases f; cases s) (simp_all add: convert_sample_def sample_t_def provided_def
      int_format_def wide_enough)

lemma amplitude_inject:
  assumes "int_format f" "sample_t f s" "sample_t f s'" "canonical f s" "canonical f s'"
    and "amplitude f s = amplitude f s'"
  shows "s = s'"
proof -
  have p: "p = q" if "sint (int_value p) = sint (int_value q)" for p q
    using that value_of_int_value [of p] value_of_int_value [of q]
    by (metis signed_word_eqI)
  have i: "x = y" if "canonical f (SI32 x)" "canonical f (SI32 y)"
    "amplitude f (SI32 x) = amplitude f (SI32 y)" for x y
    using that by (intro signed_word_eqI) (simp add: signed_take_bit_idem_range)
  show ?thesis
    using assms p i
    by (cases s; cases s') (auto simp: sample_t_def int_format_def intro: signed_word_eqI
        unsigned_word_eqI simp del: canonical.simps(1) amplitude.simps(4))
qed

lemma rescale_back: "b \<le> b' \<Longrightarrow> rescale b' b (rescale b b' v) = v"
  by (simp add: rescale_def)

section \<open>Floating point samples\<close>

lemma scale32: "fadd binary32 (f_of_int binary32 (sint max_i32)) (Fin 1) = Fin (2 ^ 23)"
proof -
  have "f_of_int binary32 (sint max_i32) = Fin (of_int 8388607)"
    using fround_representable [OF representable_int [of 8388607 binary32]]
    by (simp add: f_of_int_def max_i32_eq binary32_def)
  moreover have "fround binary32 (of_int 8388607 + 1) = Fin (2 ^ 23)"
    using fround_representable [OF representable_pow2 [of binary32 23]]
    by (simp add: binary32_def)
  ultimately show ?thesis by simp
qed

lemma scale64: "fadd binary64 (f_of_int binary64 (sint INT32_MAX)) (Fin 1) = Fin (2 ^ 31)"
proof -
  have "f_of_int binary64 (sint INT32_MAX) = Fin (of_int 2147483647)"
    using fround_representable [OF representable_int [of 2147483647 binary64]]
    by (simp add: f_of_int_def INT32_MAX_def binary64_def)
  moreover have "fround binary64 (of_int 2147483647 + 1) = Fin (2 ^ 31)"
    using fround_representable [OF representable_pow2 [of binary64 31]]
    by (simp add: binary64_def)
  ultimately show ?thesis by simp
qed

lemma S24_to_Float_exact: "S24_to_Float p = Fin (of_int (sint (int_value p)) / 2 ^ 23)"
proof -
  let ?i = "sint (int_value p)"
  have i: "\<bar>?i\<bar> < 2 ^ prec binary32"
    using sint_int_value_range [of p] by (auto simp: binary32_def)
  have f: "f_of_int binary32 ?i = Fin (of_int ?i)"
    unfolding f_of_int_def
    by (rule fround_representable, rule representable_int) (use i in \<open>simp_all add: binary32_def\<close>)
  have "fround binary32 (of_int ?i / 2 ^ 23) = Fin (of_int ?i / 2 ^ 23)"
    by (rule fround_representable, rule representable_int_scaled)
      (use i in \<open>simp_all add: binary32_def\<close>)
  then show ?thesis unfolding S24_to_Float_def scale32 f by simp
qed

lemma S32_to_Double_exact: "S32_to_Double x = Fin (of_int (sint x) / 2 ^ 31)"
proof -
  let ?i = "sint x"
  have i: "\<bar>?i\<bar> < 2 ^ prec binary64"
    using sint_range32 [of x] by (auto simp: binary64_def)
  have f: "f_of_int binary64 ?i = Fin (of_int ?i)"
    unfolding f_of_int_def
    by (rule fround_representable, rule representable_int) (use i in \<open>simp_all add: binary64_def\<close>)
  have "fround binary64 (of_int ?i / 2 ^ 31) = Fin (of_int ?i / 2 ^ 31)"
    by (rule fround_representable, rule representable_int_scaled)
      (use i in \<open>simp_all add: binary64_def\<close>)
  then show ?thesis unfolding S32_to_Double_def scale64 f by simp
qed

lemma Float_to_S24_eq:
  assumes "representable binary32 x" and "\<bar>x\<bar> \<le> 1"
  shows "Float_to_S24 (Fin x) = Some (value_of (word_of_int (trunc (x * 2 ^ 23))))"
proof -
  have r: "fround binary32 (x * 2 ^ 23) = Fin (x * 2 ^ 23)"
    by (rule fround_representable, rule representable_scale) (use assms in \<open>simp_all add: binary32_def\<close>)
  have "- (2 ^ 23) \<le> x * 2 ^ 23" "x * 2 ^ 23 \<le> 2 ^ 23" using assms(2) by (auto simp: abs_le_iff)
  then have "- (2 ^ 31) \<le> trunc (x * 2 ^ 23) \<and> trunc (x * 2 ^ 23) < 2 ^ 31"
    unfolding trunc_def by (auto simp: le_floor_iff floor_less_iff le_ceiling_iff ceiling_less_iff) 
  then show ?thesis using r by (simp add: Float_to_S24_def scale32 Let_def)
qed

lemma Double_to_S32_eq:
  assumes "representable binary64 x" and "- 1 \<le> x" and "x < 1"
  shows "Double_to_S32 (Fin x) = Some (word_of_int (trunc (x * 2 ^ 31))) \<and>
    - (2 ^ 31) \<le> trunc (x * 2 ^ 31) \<and> trunc (x * 2 ^ 31) < 2 ^ 31"
proof -
  have r: "fround binary64 (x * 2 ^ 31) = Fin (x * 2 ^ 31)"
    by (rule fround_representable, rule representable_scale) (use assms in \<open>simp_all add: binary64_def\<close>)
  have "- (2 ^ 31) \<le> x * 2 ^ 31" "x * 2 ^ 31 < 2 ^ 31" using assms(2,3) by auto
  then have "- (2 ^ 31) \<le> trunc (x * 2 ^ 31) \<and> trunc (x * 2 ^ 31) < 2 ^ 31"
    unfolding trunc_def by (auto simp: le_floor_iff floor_less_iff le_ceiling_iff ceiling_less_iff)
  then show ?thesis using r by (simp add: Double_to_S32_def scale64 Let_def)
qed

lemma Float_roundtrip_S24: "Float_to_S24 (S24_to_Float p) = Some p"
proof -
  let ?x = "of_int (sint (int_value p)) / 2 ^ 23 :: rat"
  have i: "- (2 ^ 23) \<le> sint (int_value p)" "sint (int_value p) < 2 ^ 23"
    using sint_int_value_range [of p] by auto
  have b: "\<bar>?x\<bar> \<le> 1"
  proof -
    have "\<bar>of_int (sint (int_value p)) :: rat\<bar> \<le> of_int (2 ^ 23)"
      using i unfolding of_int_abs [symmetric] of_int_le_iff by auto
    then show ?thesis by (simp del: of_int_sint)
  qed
  have "representable binary32 ?x"
    by (rule representable_int_scaled) (use i in \<open>auto simp: binary32_def\<close>)
  moreover have "word_of_int (sint (int_value p)) = int_value p" by simp
  ultimately show ?thesis
    using Float_to_S24_eq [OF _ b] unfolding S24_to_Float_exact by (simp del: of_int_sint)
qed

lemma Double_roundtrip_S32: "Double_to_S32 (S32_to_Double x) = Some x"
proof -
  let ?x = "of_int (sint x) / 2 ^ 31 :: rat"
  have i: "- (2 ^ 31) \<le> sint x" "sint x < 2 ^ 31" using sint_range32 [of x] by auto
  have "(of_int (- (2 ^ 31)) :: rat) \<le> of_int (sint x)" "(of_int (sint x) :: rat) < of_int (2 ^ 31)"
    using i unfolding of_int_le_iff of_int_less_iff by auto
  then have b: "- 1 \<le> ?x" "?x < 1" by (simp_all del: of_int_sint)
  have "representable binary64 ?x"
    by (rule representable_int_scaled) (use i in \<open>auto simp: binary64_def\<close>)
  moreover have "word_of_int (sint x) = x" by simp
  ultimately show ?thesis
    using Double_to_S32_eq [OF _ b] unfolding S32_to_Double_exact by (simp del: of_int_sint)
qed

text \<open>All other conversions with a floating point side go through the packed 24 bit integer
  (\<open>float\<close>) or the 32 bit integer (\<open>double\<close>).\<close>

lemma to_Float_via_S24:
  "int_format f \<Longrightarrow> f \<noteq> S24 \<Longrightarrow> sample_t f s \<Longrightarrow>
   \<exists>p. convert_sample f S24 s = Some (SS24 p) \<and> convert_sample f Float s = Some (SFloat (S24_to_Float p))"
  by (cases f; cases s)
    (auto simp: int_format_def sample_t_def convert_sample_def from_U8_def from_S16_def from_S32_def
      from_S16of32_def from_S18of32_def from_S20of32_def from_S24of32_def U8_to_Float_def
      S16_to_Float_def S32_to_Float_def S16of32_to_Float_def S18of32_to_Float_def
      S20of32_to_Float_def S24of32_to_Float_def)

lemma from_Float_via_S24:
  "int_format t \<Longrightarrow> t \<noteq> S24 \<Longrightarrow> Float_to_S24 x = Some p \<Longrightarrow>
   convert_sample Float t (SFloat x) = convert_sample S24 t (SS24 p)"
  by (cases t)
    (simp_all add: int_format_def convert_sample_def from_Float_def from_S24_def Float_to_U8_def
      Float_to_S16_def Float_to_S32_def Float_to_S16of32_def Float_to_S18of32_def
      Float_to_S20of32_def Float_to_S24of32_def)

lemma to_Double_via_S32:
  "int_format f \<Longrightarrow> f \<noteq> S32 \<Longrightarrow> sample_t f s \<Longrightarrow>
   \<exists>x. convert_sample f S32 s = Some (SI32 x) \<and> convert_sample f Double s = Some (SDouble (S32_to_Double x))"
  by (cases f; cases s)
    (auto simp: int_format_def sample_t_def convert_sample_def from_U8_def from_S16_def from_S24_def
      from_S16of32_def from_S18of32_def from_S20of32_def from_S24of32_def U8_to_Double_def
      S16_to_Double_def S24_to_Double_def S16of32_to_Double_def S18of32_to_Double_def
      S20of32_to_Double_def S24of32_to_Double_def)

lemma from_Double_via_S32:
  "int_format t \<Longrightarrow> t \<noteq> S32 \<Longrightarrow> Double_to_S32 x = Some y \<Longrightarrow>
   convert_sample Double t (SDouble x) = convert_sample S32 t (SI32 y)"
  by (cases t)
    (simp_all add: int_format_def convert_sample_def from_Double_def from_S32_def Double_to_U8_def
      Double_to_S16_def Double_to_S24_def Double_to_S16of32_def Double_to_S18of32_def
      Double_to_S20of32_def Double_to_S24of32_def)

text \<open>Widening and then narrowing gives the sample back.\<close>

lemma widen_narrow:
  assumes "provided f t" "provided t f" "bits f \<le> bits t" "sample_t f s" "canonical f s"
    and r: "convert_sample f t s = Some r"
  shows "convert_sample t f r = Some s"
proof -
  have r': "sample_t t r" "amplitude t r = rescale (bits f) (bits t) (amplitude f s)"
    using convert_sample_converts [OF assms(1,4)] r by (simp_all add: converts_def)
  obtain s' where s': "convert_sample t f r = Some s'" "sample_t f s'" "canonical f s'"
    "amplitude f s' = amplitude f s"
    using convert_sample_converts [OF assms(2) r'(1)] r'(2) rescale_back [OF assms(3)]
    by (auto simp: converts_def)
  have "s' = s"
    using assms(1,4,5) s' by (intro amplitude_inject [of f]) (auto simp: provided_def)
  with s' show ?thesis by simp
qed

lemma scaled_fraction:
  "0 < b \<Longrightarrow> b \<le> B \<Longrightarrow> of_int (rescale b B v) / 2 ^ (B - 1) = (of_int v :: rat) / 2 ^ (b - 1)"
proof -
  assume "0 < b" "b \<le> B"
  then have "(2::rat) ^ (B - 1) = 2 ^ (b - 1) * 2 ^ (B - b)" by (simp flip: power_add)
  with \<open>b \<le> B\<close> show ?thesis by (simp add: rescale_def)
qed

lemma abs_scaled_error:
  "\<bar>y * K - t\<bar> < 1 \<Longrightarrow> 0 < K \<Longrightarrow> \<bar>y - t / K\<bar> < 1 / K" for y t K :: rat
proof -
  assume "\<bar>y * K - t\<bar> < 1" "0 < K"
  then have "\<bar>(y * K - t) / K\<bar> < 1 / K" by (simp add: abs_divide divide_strict_right_mono)
  then show ?thesis using \<open>0 < K\<close> by (simp add: diff_divide_distrib)
qed

lemma trunc_magnitude: "\<bar>of_int (trunc x)\<bar> \<le> \<bar>x\<bar>"
proof (cases "0 \<le> x")
  case True
  then show ?thesis by (simp add: trunc_def)
next
  case False
  then have "\<lceil>x\<rceil> \<le> 0" by (simp add: ceiling_le_iff)
  with False show ?thesis by (simp add: trunc_def)
qed

lemma reverse_bytes_loop_nth:
  "length presult = length psource \<Longrightarrow> i \<le> length psource \<Longrightarrow>
   reverse_bytes_loop i (length psource) psource presult = take i presult @ rev (take (length psource - i) psource)"
proof (induction i "length psource" psource presult rule: reverse_bytes_loop.induct)
  case (1 i psource presult)
  show ?case
  proof (cases "i < length psource")
    case True
    let ?k = "length psource - Suc i"
    have t: "take (length psource - i) psource = take ?k psource @ [psource ! ?k]"
      using True take_Suc_conv_app_nth [of ?k psource] by (simp add: Suc_diff_Suc)
    have "reverse_bytes_loop i (length psource) psource presult =
        take (Suc i) (presult[i := psource ! ?k]) @ rev (take ?k psource)"
      using "1.hyps" "1.prems" True by (subst reverse_bytes_loop.simps) simp
    also have "take (Suc i) (presult[i := psource ! ?k]) = take i presult @ [psource ! ?k]"
      using True "1.prems" by (simp add: take_Suc_conv_app_nth)
    finally show ?thesis by (simp add: t)
  next
    case False
    with "1.prems" show ?thesis by (subst reverse_bytes_loop.simps) simp
  qed
qed

section \<open>Properties\<close>

text \<open>
  C1. Every integer conversion that the header provides is the rescaling of the amplitude: for
  any well-typed sample the conversion is defined, yields a sample of the target type whose
  container is sign-extended, and the amplitude of the result is the amplitude of the input
  times \<open>2^(b'-b)\<close>, rounded down when bits are dropped. Bits of a 32 bit container above
  the format's width do not influence the result.
\<close>

theorem convert_sample_rescales:
  assumes "provided f t" and "sample_t f s"
  shows "\<exists>r. convert_sample f t s = Some r \<and> sample_t t r \<and> canonical t r \<and>
    amplitude t r = rescale (bits f) (bits t) (amplitude f s)"
  using convert_sample_converts [OF assms] by (simp add: converts_def)

theorem convert_sample_rescales_witness:
  "\<exists>r. convert_sample S20of32 U8 (SI32 0xFFF12345) = Some r \<and> sample_t U8 r \<and>
     canonical U8 r \<and> amplitude U8 r = 0x12"
proof -
  have "provided S20of32 U8" "sample_t S20of32 (SI32 0xFFF12345)"
    by (simp_all add: provided_def int_format_def sample_t_def)
  from convert_sample_rescales [OF this] show ?thesis by (simp add: rescale_def)
qed

text \<open>
  The packed integer loses nothing: reading back a packed value and packing it again is the
  identity on \<open>pcm24_t\<close>, and packing an \<open>int32_t\<close> and reading it gives the same number
  exactly when it lies between \<open>min_i32\<close> and \<open>max_i32\<close> (outside, the low 24 bits are
  read with their sign).
\<close>

theorem pcm24_roundtrip:
  "value_of (int_value p) = p \<and>
   (int_value (value_of x) = x \<longleftrightarrow> sint min_i32 \<le> sint x \<and> sint x \<le> sint max_i32) \<and>
   sint (int_value (value_of x)) = signed_take_bit 23 (sint x)"
proof -
  have "int_value (value_of x) = x \<longleftrightarrow> signed_take_bit 23 (sint x) = sint x"
    unfolding sint_value_of [symmetric] by (auto intro: signed_word_eqI)
  then show ?thesis
    by (auto simp: signed_take_bit_int_eq_self_iff min_i32_eq max_i32_eq sint_value_of)
qed

text \<open>
  Converting an integer sample to a format with at least as many bits and back gives the
  sample itself, for every pair of formats the header provides in both directions.
\<close>

theorem widen_narrow_roundtrip:
  assumes "provided f t" "provided t f" "bits f \<le> bits t" "sample_t f s" "canonical f s"
  shows "\<exists>r. convert_sample f t s = Some r \<and> convert_sample t f r = Some s"
  using convert_sample_converts [OF assms(1,4)] widen_narrow [OF assms]
  by (auto simp: converts_def)

theorem widen_narrow_roundtrip_witness:
  "\<exists>r. convert_sample U8 S24 (SU8 200) = Some r \<and> convert_sample S24 U8 r = Some (SU8 200)"
  by (rule widen_narrow_roundtrip) (simp_all add: provided_def int_format_def sample_t_def)

text \<open>
  C38. Integer samples of at most 24 bits survive \<open>float\<close>: the conversion to \<open>float\<close> is
  exactly the amplitude divided by \<open>2^(b-1)\<close> with no rounding, and converting back gives
  the sample.
\<close>

theorem float_samples_exact:
  assumes "int_format f" "bits f \<le> 24" "sample_t f s" "canonical f s"
  shows "\<exists>x. convert_sample f Float s = Some (SFloat x) \<and>
    x = Fin (of_int (amplitude f s) / 2 ^ (bits f - 1)) \<and>
    convert_sample Float f (SFloat x) = Some s"
proof (cases "f = S24")
  case True
  then obtain p where "s = SS24 p" using assms(3) by (cases s) (auto simp: sample_t_def)
  with True show ?thesis
    by (simp add: convert_sample_def from_S24_def from_Float_def Float_roundtrip_S24)
      (simp add: S24_to_Float_exact)
next
  case False
  have pr: "provided f S24" "provided S24 f"
    using assms(1) False by (auto simp: provided_def int_format_def)
  obtain p where p: "convert_sample f S24 s = Some (SS24 p)"
    and tof: "convert_sample f Float s = Some (SFloat (S24_to_Float p))"
    using to_Float_via_S24 [OF assms(1) False assms(3)] by blast
  have "convert_sample S24 f (SS24 p) = Some s"
    using widen_narrow [OF pr _ assms(3,4) p] assms(2) by simp
  then have bck: "convert_sample Float f (SFloat (S24_to_Float p)) = Some s"
    using from_Float_via_S24 [OF assms(1) False Float_roundtrip_S24, of p] by simp
  have "sint (int_value p) = rescale (bits f) 24 (amplitude f s)"
    using convert_sample_converts [OF pr(1) assms(3)] p by (simp add: converts_def)
  then have "S24_to_Float p = Fin (of_int (amplitude f s) / 2 ^ (bits f - 1))"
    using scaled_fraction [OF bits_pos [OF assms(1)] assms(2)] by (simp add: S24_to_Float_exact del: of_int_sint)
  with tof bck show ?thesis by simp
qed

theorem float_samples_exact_witness:
  "\<exists>x. convert_sample S16 Float (SS16 0x8001) = Some (SFloat x) \<and>
     x = Fin (- 32767 / 32768) \<and> convert_sample Float S16 (SFloat x) = Some (SS16 0x8001)"
  using float_samples_exact [of S16 "SS16 0x8001"] by (simp add: int_format_def sample_t_def)

text \<open>
  Integer samples of every width survive \<open>double\<close>: the conversion is exactly the
  amplitude divided by \<open>2^(b-1)\<close>, and converting back gives the sample.
\<close>

theorem double_samples_exact:
  assumes "int_format f" "sample_t f s" "canonical f s"
  shows "\<exists>x. convert_sample f Double s = Some (SDouble x) \<and>
    x = Fin (of_int (amplitude f s) / 2 ^ (bits f - 1)) \<and>
    convert_sample Double f (SDouble x) = Some s"
proof (cases "f = S32")
  case True
  then obtain x where "s = SI32 x" using assms(2) by (cases s) (auto simp: sample_t_def)
  with True show ?thesis
    by (simp add: convert_sample_def from_S32_def from_Double_def Double_roundtrip_S32 wide_enough)
      (simp add: S32_to_Double_exact)
next
  case False
  have pr: "provided f S32" "provided S32 f" and b: "bits f \<le> 32"
    using assms(1) False by (cases f; simp add: provided_def int_format_def)+
  obtain x where x: "convert_sample f S32 s = Some (SI32 x)"
    and tod: "convert_sample f Double s = Some (SDouble (S32_to_Double x))"
    using to_Double_via_S32 [OF assms(1) False assms(2)] by blast
  have "convert_sample S32 f (SI32 x) = Some s"
    using widen_narrow [OF pr _ assms(2,3) x] b by simp
  then have bck: "convert_sample Double f (SDouble (S32_to_Double x)) = Some s"
    using from_Double_via_S32 [OF assms(1) False Double_roundtrip_S32, of x] by simp
  have "sint x = rescale (bits f) 32 (amplitude f s)"
    using convert_sample_converts [OF pr(1) assms(2)] x by (simp add: converts_def wide_enough)
  then have "S32_to_Double x = Fin (of_int (amplitude f s) / 2 ^ (bits f - 1))"
    using scaled_fraction [OF bits_pos [OF assms(1)] b] by (simp add: S32_to_Double_exact del: of_int_sint)
  with tod bck show ?thesis by simp
qed

theorem double_samples_exact_witness:
  "\<exists>x. convert_sample S32 Double (SI32 0x80000001) = Some (SDouble x) \<and>
     x = Fin (- 2147483647 / 2147483648) \<and> convert_sample Double S32 (SDouble x) = Some (SI32 0x80000001)"
  using double_samples_exact [of S32 "SI32 0x80000001"] by (simp add: int_format_def sample_t_def)

text \<open>
  A \<open>float\<close> in \<open>[-1, 1)\<close> is quantised to 24 bits with an error of less than one step:
  the conversion is defined, the result differs from the input by less than \<open>2^-23\<close> and is
  not larger in magnitude.
\<close>

theorem Float_to_S24_accuracy:
  assumes "representable binary32 x" "- 1 \<le> x" "x < 1"
  shows "\<exists>p. Float_to_S24 (Fin x) = Some p \<and>
    \<bar>x - of_int (sint (int_value p)) / 2 ^ 23\<bar> < 1 / 2 ^ 23 \<and>
    \<bar>of_int (sint (int_value p)) / 2 ^ 23\<bar> \<le> \<bar>x\<bar>"
proof -
  let ?t = "trunc (x * 2 ^ 23)"
  have "- (2 ^ 23) \<le> x * 2 ^ 23" "x * 2 ^ 23 < 2 ^ 23" using assms by auto
  then have r: "- (2 ^ 23) \<le> ?t \<and> ?t < 2 ^ 23"
    unfolding trunc_def by (auto simp: le_floor_iff floor_less_iff le_ceiling_iff ceiling_less_iff)
  then have "sint (word_of_int ?t :: i32) = ?t"
    unfolding sint_eq_signed_take_bit by (intro signed_take_bit_idem_range) auto
  then have v: "sint (int_value (value_of (word_of_int ?t))) = ?t"
    using r by (simp add: sint_value_of signed_take_bit_idem_range)
  have "\<bar>x\<bar> \<le> 1" using assms by (simp add: abs_le_iff)
  from Float_to_S24_eq [OF assms(1) this]
  have f: "Float_to_S24 (Fin x) = Some (value_of (word_of_int ?t))" .
  have a: "\<bar>x - of_int ?t / 2 ^ 23\<bar> < 1 / 2 ^ 23"
    by (rule abs_scaled_error) (simp_all only: trunc_error, simp)
  have b: "\<bar>of_int ?t / 2 ^ 23\<bar> \<le> \<bar>x\<bar>"
    using trunc_magnitude [of "x * 2 ^ 23"] by (simp add: abs_mult divide_le_eq)
  show ?thesis by (intro exI conjI, rule f) (simp_all only: v a b)
qed

theorem Float_to_S24_accuracy_witness:
  "\<exists>p. Float_to_S24 (Fin (1 / 4)) = Some p \<and>
     \<bar>1 / 4 - of_int (sint (int_value p)) / 2 ^ 23 :: rat\<bar> < 1 / 2 ^ 23 \<and>
     \<bar>of_int (sint (int_value p)) / 2 ^ 23 :: rat\<bar> \<le> \<bar>1 / 4\<bar>"
  by (rule Float_to_S24_accuracy)
    (use representable_int_scaled [of 1 binary32 2] in \<open>simp_all add: binary32_def\<close>)

text \<open>
  A \<open>double\<close> in \<open>[-1, 1)\<close> is quantised to 32 bits with an error of less than one step.
\<close>

theorem Double_to_S32_accuracy:
  assumes "representable binary64 x" "- 1 \<le> x" "x < 1"
  shows "\<exists>y. Double_to_S32 (Fin x) = Some y \<and> \<bar>x - of_int (sint y) / 2 ^ 31\<bar> < 1 / 2 ^ 31"
proof -
  let ?t = "trunc (x * 2 ^ 31)"
  note eq = Double_to_S32_eq [OF assms]
  then have v: "sint (word_of_int ?t :: i32) = ?t"
    unfolding sint_eq_signed_take_bit by (intro signed_take_bit_idem_range) auto
  have a: "\<bar>x - of_int ?t / 2 ^ 31\<bar> < 1 / 2 ^ 31"
    by (rule abs_scaled_error) (simp_all only: trunc_error, simp)
  show ?thesis by (intro exI conjI, rule eq [THEN conjunct1]) (simp only: v a)
qed

theorem Double_to_S32_accuracy_witness:
  "\<exists>y. Double_to_S32 (Fin (- 3 / 8)) = Some y \<and>
     \<bar>- 3 / 8 - of_int (sint y) / 2 ^ 31 :: rat\<bar> < 1 / 2 ^ 31"
  by (rule Double_to_S32_accuracy)
    (use representable_int_scaled [of "- 3" binary64 3] in \<open>simp_all add: binary64_def\<close>)

text \<open>
  Positive full scale is not clipped: the \<open>float\<close> \<open>1.0\<close> becomes the most negative
  24 bit sample, and the \<open>double\<close> \<open>1.0\<close> is out of range for the cast to \<open>int32_t\<close>,
  whose behaviour is then undefined.
\<close>

theorem full_scale_not_clipped:
  "Float_to_S24 (Fin 1) = Some (value_of min_i32) \<and> sint (int_value (value_of min_i32)) = - (2 ^ 23) \<and>
   Double_to_S32 (Fin 1) = None"
proof -
  have "representable binary32 1" using representable_pow2 [of binary32 0] by (simp add: binary32_def)
  moreover have "trunc (1 * 2 ^ 23) = 2 ^ 23" using trunc_of_int [of "2 ^ 23"] by simp
  moreover have "value_of (0x800000) = value_of min_i32" by (simp add: value_of_def min_i32_eq Let_def)
  ultimately have f: "Float_to_S24 (Fin 1) = Some (value_of min_i32)"
    using Float_to_S24_eq [of 1] by simp
  have "fround binary64 (2 ^ 31) = Fin (2 ^ 31)"
    using fround_representable [OF representable_pow2 [of binary64 31]] by (simp add: binary64_def)
  moreover have "trunc (2 ^ 31) = 2 ^ 31" using trunc_of_int [of "2 ^ 31"] by simp
  ultimately have "Double_to_S32 (Fin 1) = None" by (simp add: Double_to_S32_def scale64 Let_def)
  with f show ?thesis by (simp add: sint_value_of min_i32_eq signed_take_bit_idem_range)
qed

text \<open>
  \<open>reverse_bytes\<close> reverses the object representation, whatever the uninitialised result
  held, and is its own inverse.
\<close>

theorem reverse_bytes_rev:
  assumes "length junk = length t" and "length junk' = length t"
  shows "reverse_bytes junk t = rev t \<and> reverse_bytes junk' (reverse_bytes junk t) = t"
  using assms reverse_bytes_loop_nth [of junk t 0] reverse_bytes_loop_nth [of junk' "rev t" 0]
  by (simp add: reverse_bytes_def)

theorem reverse_bytes_rev_witness:
  "reverse_bytes [0, 0, 0] [0, 0, 0x80] = rev [0, 0, 0x80] \<and>
   reverse_bytes [7, 7, 7] (reverse_bytes [0, 0, 0] [0, 0, 0x80]) = [0, 0, 0x80]"
  by (rule reverse_bytes_rev) simp_all

end
