(* ===== verification/Fifo_Spec.thy ===== *)
theory Fifo_Spec
  imports Main
begin

text \<open>
  The contract of a first-in first-out container: what a client of a queue may rely on. The
  laws speak about an abstraction \<open>content\<close> (front first) and an invariant. Two components
  provide it: the blocking queue through its non-blocking operations and the pointer list
  through insertion at the tail and removal at the head.
\<close>

fun enq_list :: "('a \<Rightarrow> 'q \<Rightarrow> 'q option) \<Rightarrow> 'a list \<Rightarrow> 'q \<Rightarrow> 'q option" where
  "enq_list enq [] q = Some q"
| "enq_list enq (x # xs) q = (case enq x q of None \<Rightarrow> None | Some q' \<Rightarrow> enq_list enq xs q')"

fun deq_list :: "('q \<Rightarrow> ('a \<times> 'q) option) \<Rightarrow> nat \<Rightarrow> 'q \<Rightarrow> ('a list \<times> 'q) option" where
  "deq_list deq 0 q = Some ([], q)"
| "deq_list deq (Suc n) q =
     (case deq q of None \<Rightarrow> None
      | Some (x, q') \<Rightarrow> map_option (\<lambda>(xs, q''). (x # xs, q'')) (deq_list deq n q'))"

locale fifo =
  fixes content :: "'q \<Rightarrow> 'a list"
    and invar :: "'q \<Rightarrow> bool"
    and enq :: "'a \<Rightarrow> 'q \<Rightarrow> 'q option"
    and deq :: "'q \<Rightarrow> ('a \<times> 'q) option"
  assumes enq_Some: "invar q \<Longrightarrow> enq x q = Some q' \<Longrightarrow> content q' = content q @ [x] \<and> invar q'"
    and deq_None: "invar q \<Longrightarrow> deq q = None \<longleftrightarrow> content q = []"
    and deq_Some: "invar q \<Longrightarrow> deq q = Some (x, q') \<Longrightarrow> content q = x # content q' \<and> invar q'"
begin

lemma enq_list_content:
  "invar q \<Longrightarrow> enq_list enq xs q = Some q' \<Longrightarrow> content q' = content q @ xs \<and> invar q'"
proof (induction xs arbitrary: q)
  case (Cons x xs)
  then obtain q1 where "enq x q = Some q1" and r: "enq_list enq xs q1 = Some q'"
    by (auto split: option.splits)
  with Cons.prems enq_Some have "content q1 = content q @ [x]" "invar q1" by blast+
  with Cons.IH [OF _ r] show ?case by simp
qed simp

lemma deq_list_content:
  "invar q \<Longrightarrow> n \<le> length (content q) \<Longrightarrow>
   \<exists>q'. deq_list deq n q = Some (take n (content q), q') \<and> content q' = drop n (content q) \<and> invar q'"
proof (induction n arbitrary: q)
  case (Suc n)
  then have "content q \<noteq> []" by auto
  with Suc.prems deq_None obtain x q1 where q1: "deq q = Some (x, q1)" by fastforce
  with Suc.prems deq_Some have c: "content q = x # content q1" "invar q1" by blast+
  with Suc.prems Suc.IH [of q1] show ?case by (auto simp: q1)
qed simp

lemma produce_consume:
  assumes "invar q" and "content q = []" and "enq_list enq xs q = Some q'"
  shows "\<exists>q''. deq_list deq (length xs) q' = Some (xs, q'') \<and> content q'' = [] \<and> invar q''"
proof -
  have "content q' = xs" "invar q'" using enq_list_content [OF assms(1,3)] assms(2) by simp_all
  with deq_list_content [of q' "length xs"] show ?thesis by simp
qed

end

text \<open>A queue of bounded capacity says when an insertion is accepted.\<close>

locale bounded_fifo = fifo +
  fixes capacity :: "'q \<Rightarrow> nat" and accepting :: "'q \<Rightarrow> bool"
  assumes enq_iff: "invar q \<Longrightarrow> enq x q \<noteq> None \<longleftrightarrow> accepting q \<and> length (content q) < capacity q"
    and enq_frame: "invar q \<Longrightarrow> enq x q = Some q' \<Longrightarrow> capacity q' = capacity q \<and> accepting q' = accepting q"
begin

lemma enq_list_accepts:
  "invar q \<Longrightarrow> accepting q \<Longrightarrow> length (content q) + length xs \<le> capacity q \<Longrightarrow>
   \<exists>q'. enq_list enq xs q = Some q'"
proof (induction xs arbitrary: q)
  case (Cons x xs)
  then obtain q1 where q1: "enq x q = Some q1" using enq_iff [of q x] by auto
  with Cons.prems have "content q1 = content q @ [x]" "invar q1" "capacity q1 = capacity q" "accepting q1"
    using enq_Some enq_frame by blast+
  with Cons.prems Cons.IH [of q1] show ?case by (simp add: q1)
qed simp

lemma transfer_batch:
  assumes "invar q" and "content q = []" and "accepting q" and "length xs \<le> capacity q"
  shows "\<exists>q' q''. enq_list enq xs q = Some q' \<and> deq_list deq (length xs) q' = Some (xs, q'') \<and>
    content q'' = []"
  using enq_list_accepts [of q xs] produce_consume [of q xs] assms by fastforce

end

end
