(* ===== verification/Blocking_Queue.thy ===== *)
theory Blocking_Queue
  imports Fifo_Spec AR_Prelude
begin

text \<open>
  Model of \<open>src/StupidAR/BlockingQueue.h\<close>: a monitor of a mutex and two condition
  variables. A critical section runs atomically; a call that waits releases the mutex and
  leaves the thread asleep on a condition variable until a notification (or a spurious
  wake-up) moves it to the woken threads, which re-enter the section and test their condition
  again. Which sleeping thread \<open>notify_one\<close> wakes is chosen by the environment (the
  argument \<open>k\<close>).
\<close>

section \<open>Condition variables\<close>

record 'w condvar =
  asleep :: "'w list"
  woken :: "'w list"

definition cv_init :: "'w condvar" where
  "cv_init = \<lparr>asleep = [], woken = []\<rparr>"

definition cv_wait :: "'w \<Rightarrow> 'w condvar \<Rightarrow> 'w condvar" where
  "cv_wait t c = c\<lparr>asleep := asleep c @ [t]\<rparr>"

definition remove_nth :: "nat \<Rightarrow> 'a list \<Rightarrow> 'a list" where
  "remove_nth i xs = take i xs @ drop (Suc i) xs"

definition wake_nth :: "nat \<Rightarrow> 'w condvar \<Rightarrow> 'w condvar" where
  "wake_nth i c =
     (if i < length (asleep c)
      then \<lparr>asleep = remove_nth i (asleep c), woken = woken c @ [asleep c ! i]\<rparr> else c)"

definition notify_one :: "nat \<Rightarrow> 'w condvar \<Rightarrow> 'w condvar" where
  "notify_one k c = (if asleep c = [] then c else wake_nth (k mod length (asleep c)) c)"

definition notify_all :: "'w condvar \<Rightarrow> 'w condvar" where
  "notify_all c = \<lparr>asleep = [], woken = woken c @ asleep c\<rparr>"

section \<open>The queue\<close>

text \<open>A thread asleep in \<open>put\<close> keeps the element it wants to add.\<close>

record ('t, 'a) bq =
  m_flushing :: bool
  m_size :: nat
  m_items :: "'a list"
  m_not_full :: "('t \<times> 'a) condvar"
  m_not_empty :: "'t condvar"

datatype 'r outcome = Returned 'r | Blocked

definition BlockingQueue :: "nat \<Rightarrow> ('t, 'a) bq" where
  "BlockingQueue size0 = \<lparr>m_flushing = False, m_size = size0, m_items = [],
     m_not_full = cv_init, m_not_empty = cv_init\<rparr>"

text \<open>\<open>put\<close> from the acquisition of the mutex to the return or the wait; a woken thread runs
  it again.\<close>

definition put :: "nat \<Rightarrow> 't \<Rightarrow> 'a \<Rightarrow> ('t, 'a) bq \<Rightarrow> bool outcome \<times> ('t, 'a) bq" where
  "put k t e q =
     (if \<not> (length (m_items q) \<noteq> m_size q \<or> m_flushing q)
      then (Blocked, q\<lparr>m_not_full := cv_wait (t, e) (m_not_full q)\<rparr>)
      else if m_flushing q then (Returned False, q)
      else (Returned True, q\<lparr>m_items := m_items q @ [e], m_not_empty := notify_one k (m_not_empty q)\<rparr>))"

definition offer :: "nat \<Rightarrow> 'a \<Rightarrow> ('t, 'a) bq \<Rightarrow> bool \<times> ('t, 'a) bq" where
  "offer k e q =
     (if length (m_items q) = m_size q \<or> m_flushing q then (False, q)
      else (True, q\<lparr>m_items := m_items q @ [e], m_not_empty := notify_one k (m_not_empty q)\<rparr>))"

text \<open>\<open>take\<close> returns \<open>false\<close> (\<open>None\<close>) or stores the front in \<open>out\<close> (\<open>Some\<close>).\<close>

definition take_item :: "nat \<Rightarrow> 't \<Rightarrow> ('t, 'a) bq \<Rightarrow> 'a option outcome \<times> ('t, 'a) bq" where
  "take_item k t q =
     (if \<not> (length (m_items q) \<noteq> 0 \<or> m_flushing q)
      then (Blocked, q\<lparr>m_not_empty := cv_wait t (m_not_empty q)\<rparr>)
      else if m_flushing q then (Returned None, q)
      else (case m_items q of
              [] \<Rightarrow> (Returned None, q)
            | x # xs \<Rightarrow> (Returned (Some x),
                q\<lparr>m_items := xs, m_not_full := notify_one k (m_not_full q)\<rparr>)))"

definition poll :: "nat \<Rightarrow> ('t, 'a) bq \<Rightarrow> 'a option \<times> ('t, 'a) bq" where
  "poll k q =
     (case m_items q of
        [] \<Rightarrow> (None, q)
      | x # xs \<Rightarrow> (Some x, q\<lparr>m_items := xs, m_not_full := notify_one k (m_not_full q)\<rparr>))"

definition begin_flush :: "('t, 'a) bq \<Rightarrow> ('t, 'a) bq" where
  "begin_flush q =
     (if m_flushing q then q
      else q\<lparr>m_flushing := True, m_items := [],
        m_not_full := notify_all (m_not_full q), m_not_empty := notify_all (m_not_empty q)\<rparr>)"

definition end_flush :: "('t, 'a) bq \<Rightarrow> ('t, 'a) bq" where
  "end_flush q = q\<lparr>m_flushing := False\<rparr>"

section \<open>The monitor as a transition system\<close>

text \<open>
  An event is a call, the re-entry of the \<open>i\<close>-th woken thread, or a spurious wake-up. The
  history records what the calls report to their callers.
\<close>

datatype ('t, 'a) bq_event =
    Put nat 't 'a | Offer nat 'a | Take nat 't | Poll nat | BeginFlush | EndFlush
  | ResumePut nat nat | ResumeTake nat nat | SpuriousPut nat | SpuriousTake nat

datatype 'a report = Accepted 'a | Delivered 'a | Flushed | Failed

type_synonym ('t, 'a) monitor = "('t, 'a) bq \<times> 'a report list"

definition report_put :: "'a \<Rightarrow> bool outcome \<times> ('t, 'a) bq \<Rightarrow> 'a report list \<Rightarrow> ('t, 'a) monitor" where
  "report_put e r h = (case r of
     (Blocked, q) \<Rightarrow> (q, h)
   | (Returned b, q) \<Rightarrow> (q, h @ [if b then Accepted e else Failed]))"

definition report_take :: "'a option outcome \<times> ('t, 'a) bq \<Rightarrow> 'a report list \<Rightarrow> ('t, 'a) monitor" where
  "report_take r h = (case r of
     (Blocked, q) \<Rightarrow> (q, h)
   | (Returned None, q) \<Rightarrow> (q, h @ [Failed])
   | (Returned (Some x), q) \<Rightarrow> (q, h @ [Delivered x]))"

fun exec :: "('t, 'a) bq_event \<Rightarrow> ('t, 'a) monitor \<Rightarrow> ('t, 'a) monitor" where
  "exec (Put k t e) (q, h) = report_put e (put k t e q) h"
| "exec (Offer k e) (q, h) = (case offer k e q of (b, q') \<Rightarrow> report_put e (Returned b, q') h)"
| "exec (Take k t) (q, h) = report_take (take_item k t q) h"
| "exec (Poll k) (q, h) = (case poll k q of (r, q') \<Rightarrow> report_take (Returned r, q') h)"
| "exec BeginFlush (q, h) = (begin_flush q, h @ [Flushed])"
| "exec EndFlush (q, h) = (end_flush q, h)"
| "exec (ResumePut k i) (q, h) =
     (let c = m_not_full q
      in if i < length (woken c)
         then report_put (snd (woken c ! i)) (put k (fst (woken c ! i)) (snd (woken c ! i))
                (q\<lparr>m_not_full := c\<lparr>woken := remove_nth i (woken c)\<rparr>\<rparr>)) h
         else (q, h))"
| "exec (ResumeTake k i) (q, h) =
     (let c = m_not_empty q
      in if i < length (woken c)
         then report_take (take_item k (woken c ! i)
                (q\<lparr>m_not_empty := c\<lparr>woken := remove_nth i (woken c)\<rparr>\<rparr>)) h
         else (q, h))"
| "exec (SpuriousPut i) (q, h) = (q\<lparr>m_not_full := wake_nth i (m_not_full q)\<rparr>, h)"
| "exec (SpuriousTake i) (q, h) = (q\<lparr>m_not_empty := wake_nth i (m_not_empty q)\<rparr>, h)"

inductive reachable :: "nat \<Rightarrow> ('t, 'a) monitor \<Rightarrow> bool" for n where
  start: "reachable n (BlockingQueue n, [])"
| step: "reachable n s \<Longrightarrow> reachable n (exec ev s)"

end
