(* ===== verification/Blocking_Queue_Props.thy ===== *)
theory Blocking_Queue_Props
  imports Blocking_Queue
begin

text \<open>
  Correctness of the blocking queue: bounds, first-in first-out order against an abstract
  queue, absence of lost wake-ups, flushing, and the contract of \<open>Fifo_Spec\<close> for the
  non-blocking operations.
\<close>

named_theorems bq_defs "definitions of the queue operations"
declare put_def [bq_defs] offer_def [bq_defs] take_item_def [bq_defs] poll_def [bq_defs]
  begin_flush_def [bq_defs] end_flush_def [bq_defs] cv_wait_def [bq_defs] notify_all_def [bq_defs]

section \<open>Waking threads\<close>

lemma length_remove_nth [simp]: "i < length xs \<Longrightarrow> length (remove_nth i xs) = length xs - 1"
  by (simp add: remove_nth_def)

lemma wake_nth_lengths:
  "i < length (asleep c) \<Longrightarrow>
   length (asleep (wake_nth i c)) = length (asleep c) - 1 \<and>
   length (woken (wake_nth i c)) = Suc (length (woken c))"
  by (simp add: wake_nth_def)

lemma wake_nth_out: "\<not> i < length (asleep c) \<Longrightarrow> wake_nth i c = c"
  by (simp add: wake_nth_def)

lemma notify_one_empty [simp]: "asleep c = [] \<Longrightarrow> notify_one k c = c"
  by (simp add: notify_one_def)

lemma notify_one_lengths:
  assumes "asleep c \<noteq> []"
  shows "length (asleep (notify_one k c)) = length (asleep c) - 1 \<and>
    length (woken (notify_one k c)) = Suc (length (woken c))"
  using assms by (simp add: notify_one_def wake_nth_lengths)

text \<open>A notification keeps "somebody sleeps only if enough threads are awake" when the demand
  grows by one.\<close>

lemma notify_one_covers:
  "(asleep c \<noteq> [] \<longrightarrow> n \<le> length (woken c)) \<Longrightarrow>
   (asleep (notify_one k c) \<noteq> [] \<longrightarrow> Suc n \<le> length (woken (notify_one k c)))"
  by (cases "asleep c = []") (auto dest: notify_one_lengths [of c k])

lemma wake_nth_covers:
  "(asleep c \<noteq> [] \<longrightarrow> n \<le> length (woken c)) \<Longrightarrow>
   (asleep (wake_nth i c) \<noteq> [] \<longrightarrow> n \<le> length (woken (wake_nth i c)))"
  by (cases "i < length (asleep c)")
    (use wake_nth_lengths [of i c] wake_nth_out [of i c] in auto)

section \<open>The monitor invariant\<close>

text \<open>
  \<open>winv a b\<close> allows the threads waiting for room to lack \<open>a\<close> wake-ups and those waiting for
  an item to lack \<open>b\<close>; a woken thread that has left the condition variable and not yet
  finished its section accounts for one.
\<close>

definition winv :: "nat \<Rightarrow> nat \<Rightarrow> ('t, 'a) bq \<Rightarrow> bool" where
  "winv a b q \<longleftrightarrow>
     length (m_items q) \<le> m_size q \<and>
     (m_flushing q \<longrightarrow> m_items q = [] \<and> asleep (m_not_full q) = [] \<and> asleep (m_not_empty q) = []) \<and>
     (asleep (m_not_empty q) \<noteq> [] \<longrightarrow> length (m_items q) \<le> length (woken (m_not_empty q)) + b) \<and>
     (asleep (m_not_full q) \<noteq> [] \<longrightarrow> m_size q - length (m_items q) \<le> length (woken (m_not_full q)) + a)"

abbreviation bq_inv :: "('t, 'a) bq \<Rightarrow> bool" where
  "bq_inv \<equiv> winv 0 0"

lemma winv_mono: "winv a b q \<Longrightarrow> a \<le> a' \<Longrightarrow> b \<le> b' \<Longrightarrow> winv a' b' q"
  by (auto simp: winv_def)

lemma bq_inv_init: "bq_inv (BlockingQueue n)"
  by (simp add: winv_def BlockingQueue_def cv_init_def)

lemma add_item_inv:
  assumes "winv 1 0 q" "length (m_items q) \<noteq> m_size q" "\<not> m_flushing q"
  shows "bq_inv (q\<lparr>m_items := m_items q @ [e], m_not_empty := notify_one k (m_not_empty q)\<rparr>)"
  using assms notify_one_covers [of "m_not_empty q" "length (m_items q)" k] by (auto simp: winv_def)

lemma remove_item_inv:
  assumes "winv 0 1 q" "m_items q = x # xs" "\<not> m_flushing q"
  shows "bq_inv (q\<lparr>m_items := xs, m_not_full := notify_one k (m_not_full q)\<rparr>)"
  using assms notify_one_covers [of "m_not_full q" "m_size q - length (m_items q)" k]
  by (auto simp: winv_def)

lemma put_inv: "winv 1 0 q \<Longrightarrow> bq_inv (snd (put k t e q))"
  by (auto simp: put_def add_item_inv) (auto simp: winv_def cv_wait_def)

lemma offer_inv: "bq_inv q \<Longrightarrow> bq_inv (snd (offer k e q))"
  using winv_mono [of 0 0 q 1 0] by (simp add: offer_def add_item_inv)

lemma take_inv: "winv 0 1 q \<Longrightarrow> bq_inv (snd (take_item k t q))"
  by (cases "m_items q") (auto simp: take_item_def remove_item_inv, auto simp: winv_def cv_wait_def)

lemma poll_inv: "bq_inv q \<Longrightarrow> bq_inv (snd (poll k q))"
proof (cases "m_items q")
  case (Cons x xs)
  moreover assume "bq_inv q"
  moreover from this Cons have "\<not> m_flushing q" by (simp add: winv_def)
  ultimately show ?thesis
    using winv_mono [of 0 0 q 0 1] by (simp add: poll_def remove_item_inv)
qed (simp add: poll_def)

lemma flush_inv: "bq_inv q \<Longrightarrow> bq_inv (begin_flush q)" "bq_inv q \<Longrightarrow> bq_inv (end_flush q)"
  by (auto simp: winv_def bq_defs)

lemma snd_bq_report [simp]:
  "fst (report_put e r h) = snd r" "fst (report_take r' h) = snd r'"
  by (auto simp: report_put_def report_take_def split: prod.splits outcome.splits option.splits)

lemma resume_winv:
  "bq_inv q \<Longrightarrow> i < length (woken (m_not_full q)) \<Longrightarrow>
   winv 1 0 (q\<lparr>m_not_full := (m_not_full q)\<lparr>woken := remove_nth i (woken (m_not_full q))\<rparr>\<rparr>)"
  "bq_inv q \<Longrightarrow> j < length (woken (m_not_empty q)) \<Longrightarrow>
   winv 0 1 (q\<lparr>m_not_empty := (m_not_empty q)\<lparr>woken := remove_nth j (woken (m_not_empty q))\<rparr>\<rparr>)"
  by (auto simp: winv_def)

lemma spurious_inv:
  assumes "bq_inv q"
  shows "bq_inv (q\<lparr>m_not_full := wake_nth i (m_not_full q)\<rparr>)"
    and "bq_inv (q\<lparr>m_not_empty := wake_nth i (m_not_empty q)\<rparr>)"
  using assms wake_nth_covers [of "m_not_full q" "m_size q - length (m_items q)" i]
    wake_nth_covers [of "m_not_empty q" "length (m_items q)" i]
  by (auto simp: winv_def wake_nth_out)

lemma exec_inv: "bq_inv (fst s) \<Longrightarrow> bq_inv (fst (exec ev s))"
proof (cases s)
  fix q h assume s: "s = (q, h)" and "bq_inv (fst s)"
  then have q: "bq_inv q" and w: "winv 1 0 q" "winv 0 1 q" using winv_mono [of 0 0 q] by auto
  show ?thesis
    using put_inv [OF w(1)] offer_inv [OF q] take_inv [OF w(2)] poll_inv [OF q] flush_inv [OF q]
      put_inv [OF resume_winv(1) [OF q]] take_inv [OF resume_winv(2) [OF q]] spurious_inv [OF q] q
    by (cases ev) (auto simp: s Let_def case_prod_beta)
qed

lemma reachable_inv: "reachable n s \<Longrightarrow> bq_inv (fst s)"
  by (induction rule: reachable.induct) (simp_all add: bq_inv_init exec_inv)

section \<open>The abstract queue\<close>

text \<open>The abstract first-in first-out queue replays what the calls reported: it accepts every
  report that a sequential queue could produce and yields its content.\<close>

fun replay :: "'a report list \<Rightarrow> 'a list \<Rightarrow> 'a list option" where
  "replay [] xs = Some xs"
| "replay (Accepted e # h) xs = replay h (xs @ [e])"
| "replay (Delivered x # h) xs = (case xs of [] \<Rightarrow> None | y # ys \<Rightarrow> if x = y then replay h ys else None)"
| "replay (Flushed # h) xs = replay h []"
| "replay (Failed # h) xs = replay h xs"

lemma replay_append:
  "replay (h @ h') xs = (case replay h xs of None \<Rightarrow> None | Some ys \<Rightarrow> replay h' ys)"
  by (induction h xs rule: replay.induct) (auto split: list.splits)

lemma replay_report_put:
  assumes "replay h [] = Some (m_items q)"
  shows "replay (snd (report_put e (put k t e q) h)) [] = Some (m_items (snd (put k t e q)))"
  using assms by (simp add: put_def report_put_def replay_append)

lemma replay_report_take:
  assumes "replay h [] = Some (m_items q)"
  shows "replay (snd (report_take (take_item k t q) h)) [] = Some (m_items (snd (take_item k t q)))"
  using assms by (simp add: take_item_def report_take_def replay_append split: list.splits)

lemma replay_report_offer:
  assumes "replay h [] = Some (m_items q)"
  shows "replay (snd (report_put e (Returned (fst (offer k e q)), snd (offer k e q)) h)) [] =
    Some (m_items (snd (offer k e q)))"
  using assms by (simp add: offer_def report_put_def replay_append)

lemma replay_report_poll:
  assumes "replay h [] = Some (m_items q)"
  shows "replay (snd (report_take (Returned (fst (poll k q)), snd (poll k q)) h)) [] =
    Some (m_items (snd (poll k q)))"
  using assms by (simp add: poll_def report_take_def replay_append split: list.splits)

lemmas replay_reports = replay_report_put replay_report_take replay_report_offer replay_report_poll

lemma exec_replay:
  assumes "bq_inv (fst s)" "replay (snd s) [] = Some (m_items (fst s))"
  shows "replay (snd (exec ev s)) [] = Some (m_items (fst (exec ev s)))"
proof (cases s)
  fix q h assume s: "s = (q, h)"
  then have h: "replay h [] = Some (m_items q)" and fl: "m_flushing q \<Longrightarrow> m_items q = []"
    using assms by (auto simp: winv_def)
  show ?thesis
    using h fl
    by (cases ev) (auto simp: s Let_def begin_flush_def end_flush_def replay_reports
        replay_append case_prod_beta)
qed

lemma reachable_replay: "reachable n s \<Longrightarrow> replay (snd s) [] = Some (m_items (fst s))"
  by (induction rule: reachable.induct)
    (auto simp: BlockingQueue_def intro: exec_replay dest: reachable_inv)

lemma reachable_size: "reachable n s \<Longrightarrow> m_size (fst s) = n"
proof (induction rule: reachable.induct)
  case (step s ev)
  then show ?case
    by (cases s; cases ev) (auto simp: BlockingQueue_def bq_defs Let_def case_prod_beta split: list.splits)
qed (simp add: BlockingQueue_def)

section \<open>The queue contract\<close>

definition offer_opt :: "nat \<Rightarrow> 'a \<Rightarrow> ('t, 'a) bq \<Rightarrow> ('t, 'a) bq option" where
  "offer_opt k x q = (case offer k x q of (b, q') \<Rightarrow> if b then Some q' else None)"

definition poll_opt :: "nat \<Rightarrow> ('t, 'a) bq \<Rightarrow> ('a \<times> ('t, 'a) bq) option" where
  "poll_opt k q = (case poll k q of (r, q') \<Rightarrow> map_option (\<lambda>x. (x, q')) r)"

interpretation bqf: bounded_fifo m_items bq_inv "offer_opt k" "poll_opt k" m_size "\<lambda>q. \<not> m_flushing q"
  for k
proof (unfold_locales, goal_cases)
  case (1 q x q')
  then show ?case
    using offer_inv [of q k x] by (auto simp: offer_opt_def offer_def split: if_splits)
next
  case (2 q)
  then show ?case by (simp add: poll_opt_def poll_def split: list.splits)
next
  case (3 q x q')
  then show ?case
    using poll_inv [of q k] by (auto simp: poll_opt_def poll_def split: list.splits)
next
  case (4 q x)
  then show ?case by (auto simp: offer_opt_def offer_def winv_def)
next
  case (5 x q q')
  then show ?case by (auto simp: offer_opt_def offer_def split: if_splits)
qed

section \<open>Properties\<close>

lemma resume_take_delivers:
  assumes "m_items q \<noteq> []" "\<not> m_flushing q" "i < length (woken (m_not_empty q))"
  shows "snd (exec (ResumeTake k i) (q, h)) = h @ [Delivered (hd (m_items q))]"
  using assms by (cases "m_items q") (simp_all add: Let_def take_item_def report_take_def)

lemma resume_put_accepts:
  assumes "length (m_items q) \<noteq> m_size q" "\<not> m_flushing q" "i < length (woken (m_not_full q))"
  shows "snd (exec (ResumePut k i) (q, h)) = h @ [Accepted (snd (woken (m_not_full q) ! i))]"
  using assms by (simp add: Let_def put_def report_put_def)

text \<open>
  C2. In every reachable state of the monitor, under every interleaving of calls, wake-ups and
  spurious wake-ups, the queue holds at most its size, is empty while flushing, and the values
  reported to the callers are those of a sequential first-in first-out queue whose content is
  the content of the deque.
\<close>

theorem bq_linear_fifo:
  assumes "reachable n s"
  shows "replay (snd s) [] = Some (m_items (fst s)) \<and> length (m_items (fst s)) \<le> n \<and>
    (m_flushing (fst s) \<longrightarrow> m_items (fst s) = [])"
  using reachable_replay [OF assms] reachable_inv [OF assms] reachable_size [OF assms]
  by (auto simp: winv_def)

theorem bq_linear_fifo_witness:
  "let s = exec (ResumeTake 0 0) (exec (Put 0 (2::nat) (5::nat)) (exec (Take 0 1) (BlockingQueue 1, [])))
   in snd s = [Accepted (5::nat), Delivered (5::nat)] \<and> replay (snd s) [] = Some (m_items (fst s)) \<and>
      length (m_items (fst s)) \<le> 1"
proof -
  let ?s = "exec (ResumeTake 0 0) (exec (Put 0 (2::nat) (5::nat)) (exec (Take 0 1) (BlockingQueue 1, [])))"
  have "reachable 1 ?s" by (intro reachable.intros)
  from bq_linear_fifo [OF this] have "replay (snd ?s) [] = Some (m_items (fst ?s))"
    "length (m_items (fst ?s)) \<le> 1" by auto
  moreover have "snd ?s = [Accepted (5::nat), Delivered (5::nat)]"
    by (simp add: BlockingQueue_def cv_init_def take_item_def put_def cv_wait_def notify_one_def
        wake_nth_def remove_nth_def report_take_def report_put_def Let_def)
  ultimately show ?thesis by (simp add: Let_def)
qed

text \<open>
  C3. No wake-up is lost. Whenever a thread sleeps in \<open>take\<close> while the queue holds an item, a
  woken thread exists and the next one to re-enter takes the front; whenever a thread sleeps in
  \<open>put\<close> while the queue has room, a woken thread exists and re-entering it adds its element.
\<close>

theorem bq_no_lost_wakeup:
  assumes "reachable n (q, h)"
  shows "(asleep (m_not_empty q) \<noteq> [] \<and> m_items q \<noteq> [] \<longrightarrow>
      woken (m_not_empty q) \<noteq> [] \<and>
      (\<forall>k i. i < length (woken (m_not_empty q)) \<longrightarrow>
         snd (exec (ResumeTake k i) (q, h)) = h @ [Delivered (hd (m_items q))])) \<and>
    (asleep (m_not_full q) \<noteq> [] \<and> length (m_items q) < n \<longrightarrow>
      woken (m_not_full q) \<noteq> [] \<and>
      (\<forall>k i. i < length (woken (m_not_full q)) \<longrightarrow>
         snd (exec (ResumePut k i) (q, h)) = h @ [Accepted (snd (woken (m_not_full q) ! i))]))"
proof -
  have inv: "bq_inv q" and n: "m_size q = n"
    using reachable_inv [OF assms] reachable_size [OF assms] by simp_all
  have fl: "\<not> m_flushing q" if "asleep (m_not_empty q) \<noteq> [] \<or> asleep (m_not_full q) \<noteq> []"
    using that inv by (auto simp: winv_def)
  have "woken (m_not_empty q) \<noteq> []" if "asleep (m_not_empty q) \<noteq> []" "m_items q \<noteq> []"
    using that inv by (auto simp: winv_def)
  moreover have "woken (m_not_full q) \<noteq> []" if "asleep (m_not_full q) \<noteq> []" "length (m_items q) < n"
    using that inv n by (auto simp: winv_def)
  ultimately show ?thesis
    using fl resume_take_delivers [of q] resume_put_accepts [of q] n by auto
qed

definition two_sleepers :: "(nat, nat) monitor" where
  "two_sleepers = exec (Offer 0 7) (exec (Take 0 2) (exec (Take 0 1) (BlockingQueue 4, [])))"

lemma two_sleepers_eq:
  "two_sleepers =
     (\<lparr>m_flushing = False, m_size = 4, m_items = [7], m_not_full = cv_init,
       m_not_empty = \<lparr>asleep = [2], woken = [1]\<rparr>\<rparr>, [Accepted 7])"
  by (simp add: two_sleepers_def BlockingQueue_def cv_init_def take_item_def offer_def cv_wait_def
      notify_one_def wake_nth_def remove_nth_def report_take_def report_put_def)

lemma two_sleepers_reachable: "reachable 4 (fst two_sleepers, snd two_sleepers)"
  unfolding prod.collapse unfolding two_sleepers_def by (intro reachable.intros)

theorem bq_no_lost_wakeup_witness:
  "asleep (m_not_empty (fst two_sleepers)) = [2] \<and> woken (m_not_empty (fst two_sleepers)) \<noteq> [] \<and>
   snd (exec (ResumeTake 0 0) two_sleepers) = [Accepted 7, Delivered 7]"
  using bq_no_lost_wakeup [OF two_sleepers_reachable] by (simp add: two_sleepers_eq)

text \<open>
  \<open>begin_flush\<close> empties the queue, leaves no thread asleep, and until \<open>end_flush\<close> every
  call and every re-entering thread returns \<open>false\<close> without changing the content.
\<close>

theorem bq_flush_closes:
  assumes "reachable n (q, h)"
  shows "let q' = begin_flush q
    in m_items q' = [] \<and> asleep (m_not_full q') = [] \<and> asleep (m_not_empty q') = [] \<and>
       (\<forall>k t e. put k t e q' = (Returned False, q') \<and> offer k e q' = (False, q') \<and>
          take_item k t q' = (Returned None, q') \<and> poll k q' = (None, q')) \<and>
       (\<forall>k i. i < length (woken (m_not_empty q')) \<longrightarrow> snd (exec (ResumeTake k i) (q', h)) = h @ [Failed]) \<and>
       (\<forall>k i. i < length (woken (m_not_full q')) \<longrightarrow> snd (exec (ResumePut k i) (q', h)) = h @ [Failed])"
proof -
  have "bq_inv q" using reachable_inv [OF assms] by simp
  then show ?thesis
    by (auto simp: winv_def bq_defs report_take_def report_put_def Let_def)
qed

theorem bq_flush_closes_witness:
  "m_items (begin_flush (fst two_sleepers)) = [] \<and>
   asleep (m_not_empty (begin_flush (fst two_sleepers))) = [] \<and>
   poll 0 (begin_flush (fst two_sleepers)) = (None, begin_flush (fst two_sleepers))"
  using bq_flush_closes [OF two_sleepers_reachable] by (auto simp: Let_def)

text \<open>
  \<open>begin_flush\<close> followed by \<open>end_flush\<close> does not release a thread blocked in \<open>take\<close>: the
  thread is woken, but if it re-enters after the queue was reopened it finds its condition
  false and sleeps again, without returning.
\<close>

theorem bq_flush_may_not_release:
  assumes "reachable n (q, h)" and "t \<in> set (asleep (m_not_empty q))"
  shows "let q' = end_flush (begin_flush q)
    in \<exists>i < length (woken (m_not_empty q')). woken (m_not_empty q') ! i = t \<and>
         (\<forall>k. t \<in> set (asleep (m_not_empty (fst (exec (ResumeTake k i) (q', h))))) \<and>
              snd (exec (ResumeTake k i) (q', h)) = h)"
proof -
  have "bq_inv q" using reachable_inv [OF assms(1)] by simp
  with assms(2) have fl: "\<not> m_flushing q" by (auto simp: winv_def)
  let ?q = "end_flush (begin_flush q)"
  have "t \<in> set (woken (m_not_empty ?q))" using assms(2) fl by (simp add: bq_defs)
  then obtain i where i: "i < length (woken (m_not_empty ?q))" "woken (m_not_empty ?q) ! i = t"
    by (auto simp: in_set_conv_nth)
  have "m_items ?q = []" "\<not> m_flushing ?q" using fl by (simp_all add: bq_defs)
  then have "exec (ResumeTake k i) (?q, h) =
      (?q\<lparr>m_not_empty := cv_wait t ((m_not_empty ?q)\<lparr>woken := remove_nth i (woken (m_not_empty ?q))\<rparr>)\<rparr>, h)"
    for k using i by (simp add: take_item_def report_take_def Let_def)
  then show ?thesis using i by (auto simp: Let_def cv_wait_def simp del: exec.simps)
qed

theorem bq_flush_may_not_release_witness:
  "let q' = end_flush (begin_flush (fst two_sleepers))
   in \<exists>i < length (woken (m_not_empty q')). woken (m_not_empty q') ! i = 2 \<and>
        (\<forall>k. 2 \<in> set (asleep (m_not_empty (fst (exec (ResumeTake k i) (q', snd two_sleepers))))) \<and>
             snd (exec (ResumeTake k i) (q', snd two_sleepers)) = snd two_sleepers)"
  by (rule bq_flush_may_not_release [OF two_sleepers_reachable]) (simp add: two_sleepers_eq)

text \<open>
  The blocking calls are the non-blocking ones plus waiting: \<open>put\<close> blocks exactly when the
  queue is full and open and otherwise does what \<open>offer\<close> does; \<open>take\<close> blocks exactly when
  it is empty and open and otherwise does what \<open>poll\<close> does, although \<open>poll\<close> never tests the
  flushing flag.
\<close>

theorem bq_blocking_is_waiting:
  assumes "reachable n (q, h)"
  shows "(fst (put k t e q) = Blocked \<longleftrightarrow> length (m_items q) = n \<and> \<not> m_flushing q) \<and>
    (\<forall>b. fst (put k t e q) = Returned b \<longrightarrow> offer k e q = (b, snd (put k t e q))) \<and>
    (fst (take_item k t q) = Blocked \<longleftrightarrow> m_items q = [] \<and> \<not> m_flushing q) \<and>
    (\<forall>r. fst (take_item k t q) = Returned r \<longrightarrow> poll k q = (r, snd (take_item k t q)))"
proof -
  have "bq_inv q" "m_size q = n" using reachable_inv [OF assms] reachable_size [OF assms] by simp_all
  then show ?thesis by (auto simp: winv_def bq_defs split: list.splits)
qed

theorem bq_blocking_is_waiting_witness:
  "fst (take_item 0 3 (fst two_sleepers)) \<noteq> Blocked \<and>
   poll 0 (fst two_sleepers) = (Some 7, snd (take_item 0 3 (fst two_sleepers)))"
  using bq_blocking_is_waiting [OF two_sleepers_reachable, of 0 3 0]
  by (simp add: two_sleepers_eq take_item_def)

text \<open>
  A batch that fits is transferred whole and in order: offering the elements one by one to
  a fresh queue succeeds and polling them gives the same list, whichever threads the
  notifications wake.
\<close>

theorem bq_batch_transfer:
  assumes "length xs \<le> n"
  shows "\<exists>q' q''. enq_list (offer_opt k) xs (BlockingQueue n :: ('t, 'a) bq) = Some q' \<and>
    deq_list (poll_opt k) (length xs) q' = Some (xs, q'') \<and> m_items q'' = []"
  by (rule bqf.transfer_batch) (use assms in \<open>simp_all add: bq_inv_init, simp_all add: BlockingQueue_def\<close>)

theorem bq_batch_transfer_witness:
  "\<exists>q' q''. enq_list (offer_opt 0) [1, 2, 3 :: nat] (BlockingQueue 3 :: (nat, nat) bq) = Some q' \<and>
     deq_list (poll_opt 0) (length [1, 2, 3 :: nat]) q' = Some ([1, 2, 3], q'') \<and> m_items q'' = []"
  by (rule bq_batch_transfer) simp

end
