(* ===== verification/Base_List.thy ===== *)
theory Base_List
  imports AR_Prelude "HOL-Library.Monad_Syntax"
begin

text \<open>
  Model of the pointer list \<open>CBaseList\<close> (\<open>src/baseclasses/wxlist.h\<close> and
  \<open>src/baseclasses/wxlist.cpp\<close>): a doubly linked, NULL terminated chain of nodes with
  a first and a last pointer, a count and a cache of unused nodes.

  Nodes live in an explicit memory. \<open>cells\<close> maps the address of an allocated node to its
  contents; \<open>avail\<close> is the memory that \<open>new\<close> can hand out, with the garbage it holds (the
  constructor of \<open>CNode\<close> initialises nothing); when it is exhausted \<open>new\<close> yields NULL, the case
  the code tests. An operation is a function of the memory and of the list object that returns
  \<open>None\<close> when it dereferences NULL or a node that is not allocated, or when a loop does not end.
\<close>

section \<open>Memory\<close>

type_synonym addr = nat

text \<open>NULL is \<open>None\<close>, for a position as for an object.\<close>

type_synonym POSITION = "addr option"

record 'o CNode =
  m_pPrev :: POSITION
  m_pNext :: POSITION
  m_pObject :: "'o option"

record 'o heap =
  cells :: "addr \<Rightarrow> 'o CNode option"
  avail :: "(addr \<times> 'o CNode) list"

definition new_CNode :: "'o heap \<Rightarrow> POSITION \<times> 'o heap" where
  "new_CNode h = (case avail h of [] \<Rightarrow> (None, h)
     | (a, nd) # rest \<Rightarrow> (Some a, h\<lparr>cells := (cells h)(a \<mapsto> nd), avail := rest\<rparr>))"

definition node_at :: "'o heap \<Rightarrow> POSITION \<Rightarrow> 'o CNode option" where
  "node_at h p = Option.bind p (cells h)"

definition write_node :: "POSITION \<Rightarrow> ('o CNode \<Rightarrow> 'o CNode) \<Rightarrow> 'o heap \<Rightarrow> 'o heap option" where
  "write_node p f h = do { a \<leftarrow> p; nd \<leftarrow> cells h a; Some (h\<lparr>cells := (cells h)(a \<mapsto> f nd)\<rparr>) }"

definition delete_CNode :: "POSITION \<Rightarrow> 'o heap \<Rightarrow> 'o heap option" where
  "delete_CNode p h = do { a \<leftarrow> p; nd \<leftarrow> cells h a;
     Some (h\<lparr>cells := (cells h)(a := None), avail := (a, nd) # avail h\<rparr>) }"

section \<open>CNode\<close>

definition node_Prev :: "'o heap \<Rightarrow> POSITION \<Rightarrow> POSITION option" where
  "node_Prev h p = map_option m_pPrev (node_at h p)"

definition node_Next :: "'o heap \<Rightarrow> POSITION \<Rightarrow> POSITION option" where
  "node_Next h p = map_option m_pNext (node_at h p)"

definition GetData :: "'o heap \<Rightarrow> POSITION \<Rightarrow> 'o option option" where
  "GetData h p = map_option m_pObject (node_at h p)"

definition SetPrev :: "POSITION \<Rightarrow> POSITION \<Rightarrow> 'o heap \<Rightarrow> 'o heap option" where
  "SetPrev p q = write_node p (\<lambda>nd. nd\<lparr>m_pPrev := q\<rparr>)"

definition SetNext :: "POSITION \<Rightarrow> POSITION \<Rightarrow> 'o heap \<Rightarrow> 'o heap option" where
  "SetNext p q = write_node p (\<lambda>nd. nd\<lparr>m_pNext := q\<rparr>)"

definition SetData :: "POSITION \<Rightarrow> 'o option \<Rightarrow> 'o heap \<Rightarrow> 'o heap option" where
  "SetData p x = write_node p (\<lambda>nd. nd\<lparr>m_pObject := x\<rparr>)"

section \<open>CNodeCache\<close>

record CNodeCache =
  m_iCacheSize :: int
  m_iUsed :: int
  m_pHead :: POSITION

definition new_CNodeCache :: "int \<Rightarrow> CNodeCache" where
  "new_CNodeCache iCacheSize = \<lparr>m_iCacheSize = iCacheSize, m_iUsed = 0, m_pHead = None\<rparr>"

definition AddToCache :: "POSITION \<Rightarrow> 'o heap \<Rightarrow> CNodeCache \<Rightarrow> ('o heap \<times> CNodeCache) option" where
  "AddToCache pNode h c =
     (if m_iUsed c < m_iCacheSize c
      then do { h \<leftarrow> SetNext pNode (m_pHead c) h;
                Some (h, c\<lparr>m_pHead := pNode, m_iUsed := m_iUsed c + 1\<rparr>) }
      else do { h \<leftarrow> delete_CNode pNode h; Some (h, c) })"

definition RemoveFromCache :: "'o heap \<Rightarrow> CNodeCache \<Rightarrow> (POSITION \<times> CNodeCache) option" where
  "RemoveFromCache h c =
     (if m_pHead c \<noteq> None
      then do { n \<leftarrow> node_Next h (m_pHead c);
                Some (m_pHead c, c\<lparr>m_pHead := n, m_iUsed := m_iUsed c - 1\<rparr>) }
      else Some (None, c))"

text \<open>The loop that both destructors run.\<close>

partial_function (option) delete_chain :: "POSITION \<Rightarrow> 'o heap \<Rightarrow> 'o heap option" where
  "delete_chain pn h =
     (if pn = None then Some h
      else do { n \<leftarrow> node_Next h pn; h \<leftarrow> delete_CNode pn h; delete_chain n h })"

definition CNodeCache_destructor :: "CNodeCache \<Rightarrow> 'o heap \<Rightarrow> 'o heap option" where
  "CNodeCache_destructor c h = delete_chain (m_pHead c) h"

section \<open>CBaseList\<close>

record CBaseList =
  m_pFirst :: POSITION
  m_pLast :: POSITION
  m_Count :: i32
  m_Cache :: CNodeCache

definition DEFAULTCACHE :: int where
  "DEFAULTCACHE = 10"

definition new_CBaseList :: "int \<Rightarrow> CBaseList" where
  "new_CBaseList iItems = \<lparr>m_pFirst = None, m_pLast = None, m_Count = 0, m_Cache = new_CNodeCache iItems\<rparr>"

definition RemoveAll :: "'o heap \<Rightarrow> CBaseList \<Rightarrow> ('o heap \<times> CBaseList) option" where
  "RemoveAll h l = do { h \<leftarrow> delete_chain (m_pFirst l) h;
     Some (h, l\<lparr>m_Count := 0, m_pFirst := None, m_pLast := None\<rparr>) }"

text \<open>The destructor of the list runs \<open>RemoveAll\<close>, then that of its cache.\<close>

definition CBaseList_destructor :: "'o heap \<Rightarrow> CBaseList \<Rightarrow> 'o heap option" where
  "CBaseList_destructor h l = do { (h, l) \<leftarrow> RemoveAll h l; CNodeCache_destructor (m_Cache l) h }"

definition GetHeadPositionI :: "CBaseList \<Rightarrow> POSITION" where
  "GetHeadPositionI l = m_pFirst l"

definition GetTailPositionI :: "CBaseList \<Rightarrow> POSITION" where
  "GetTailPositionI l = m_pLast l"

definition GetCountI :: "CBaseList \<Rightarrow> i32" where
  "GetCountI l = m_Count l"

text \<open>The object and the advanced position.\<close>

definition GetNextI :: "'o heap \<Rightarrow> POSITION \<Rightarrow> ('o option \<times> POSITION) option" where
  "GetNextI h rp =
     (if rp = None then Some (None, rp)
      else do { n \<leftarrow> node_Next h rp; x \<leftarrow> GetData h rp; Some (x, n) })"

definition GetI :: "'o heap \<Rightarrow> POSITION \<Rightarrow> 'o option option" where
  "GetI h p = (if p = None then Some None else GetData h p)"

definition GetValidI :: "'o heap \<Rightarrow> POSITION \<Rightarrow> 'o option option" where
  "GetValidI h p = GetData h p"

definition Next :: "'o heap \<Rightarrow> CBaseList \<Rightarrow> POSITION \<Rightarrow> POSITION option" where
  "Next h l pos = (if pos = None then Some (m_pFirst l) else node_Next h pos)"

definition Prev :: "'o heap \<Rightarrow> CBaseList \<Rightarrow> POSITION \<Rightarrow> POSITION option" where
  "Prev h l pos = (if pos = None then Some (m_pLast l) else node_Prev h pos)"

partial_function (option) find_loop :: "'o heap \<Rightarrow> CBaseList \<Rightarrow> 'o option \<Rightarrow> POSITION \<Rightarrow> POSITION option" where
  "find_loop h l pObj pn =
     (if pn = None then Some None
      else do { x \<leftarrow> GetI h pn;
                if x = pObj then Some pn else do { n \<leftarrow> Next h l pn; find_loop h l pObj n } })"

definition FindI :: "'o heap \<Rightarrow> CBaseList \<Rightarrow> 'o option \<Rightarrow> POSITION option" where
  "FindI h l pObj = find_loop h l pObj (GetHeadPositionI l)"

definition RemoveI :: "POSITION \<Rightarrow> 'o heap \<Rightarrow> CBaseList \<Rightarrow> ('o option \<times> 'o heap \<times> CBaseList) option" where
  "RemoveI pCurrent h l =
     (if pCurrent = None then Some (None, h, l)
      else do {
        pNode \<leftarrow> node_Prev h pCurrent;
        n \<leftarrow> node_Next h pCurrent;
        (h, l) \<leftarrow> (if pNode = None then Some (h, l\<lparr>m_pFirst := n\<rparr>)
                   else do { h \<leftarrow> SetNext pNode n h; Some (h, l) });
        pNode \<leftarrow> node_Next h pCurrent;
        p \<leftarrow> node_Prev h pCurrent;
        (h, l) \<leftarrow> (if pNode = None then Some (h, l\<lparr>m_pLast := p\<rparr>)
                   else do { h \<leftarrow> SetPrev pNode p h; Some (h, l) });
        pObject \<leftarrow> GetData h pCurrent;
        (h, c) \<leftarrow> AddToCache pCurrent h (m_Cache l);
        Some (pObject, h, l\<lparr>m_Cache := c, m_Count := m_Count l - 1\<rparr>) })"

definition RemoveHeadI :: "'o heap \<Rightarrow> CBaseList \<Rightarrow> ('o option \<times> 'o heap \<times> CBaseList) option" where
  "RemoveHeadI h l = RemoveI (m_pFirst l) h l"

definition RemoveTailI :: "'o heap \<Rightarrow> CBaseList \<Rightarrow> ('o option \<times> 'o heap \<times> CBaseList) option" where
  "RemoveTailI h l = RemoveI (m_pLast l) h l"

text \<open>A node from the cache or else a new one, as the four insertions obtain it.\<close>

definition obtain_node :: "'o heap \<Rightarrow> CBaseList \<Rightarrow> (POSITION \<times> 'o heap \<times> CBaseList) option" where
  "obtain_node h l = do {
     (pNode, c) \<leftarrow> RemoveFromCache h (m_Cache l);
     let l = l\<lparr>m_Cache := c\<rparr>;
     if pNode = None then (let (p, h) = new_CNode h in Some (p, h, l)) else Some (pNode, h, l) }"

definition AddTailI :: "'o option \<Rightarrow> 'o heap \<Rightarrow> CBaseList \<Rightarrow> (POSITION \<times> 'o heap \<times> CBaseList) option" where
  "AddTailI pObject h l = do {
     (pNode, h, l) \<leftarrow> obtain_node h l;
     if pNode = None then Some (None, h, l)
     else do {
       h \<leftarrow> SetData pNode pObject h;
       h \<leftarrow> SetNext pNode None h;
       h \<leftarrow> SetPrev pNode (m_pLast l) h;
       (h, l) \<leftarrow> (if m_pLast l = None then Some (h, l\<lparr>m_pFirst := pNode\<rparr>)
                  else do { h \<leftarrow> SetNext (m_pLast l) pNode h; Some (h, l) });
       Some (pNode, h, l\<lparr>m_pLast := pNode, m_Count := m_Count l + 1\<rparr>) } }"

definition AddHeadI :: "'o option \<Rightarrow> 'o heap \<Rightarrow> CBaseList \<Rightarrow> (POSITION \<times> 'o heap \<times> CBaseList) option" where
  "AddHeadI pObject h l = do {
     (pNode, h, l) \<leftarrow> obtain_node h l;
     if pNode = None then Some (None, h, l)
     else do {
       h \<leftarrow> SetData pNode pObject h;
       h \<leftarrow> SetPrev pNode None h;
       h \<leftarrow> SetNext pNode (m_pFirst l) h;
       (h, l) \<leftarrow> (if m_pFirst l = None then Some (h, l\<lparr>m_pLast := pNode\<rparr>)
                  else do { h \<leftarrow> SetPrev (m_pFirst l) pNode h; Some (h, l) });
       Some (pNode, h, l\<lparr>m_pFirst := pNode, m_Count := m_Count l + 1\<rparr>) } }"

text \<open>The two loops that copy another list, whose object \<open>pList\<close> they only read.\<close>

partial_function (option) add_tail_loop ::
  "POSITION \<Rightarrow> 'o heap \<Rightarrow> CBaseList \<Rightarrow> (bool \<times> 'o heap \<times> CBaseList) option" where
  "add_tail_loop pos h l =
     (if pos = None then Some (True, h, l)
      else do { (x, pos) \<leftarrow> GetNextI h pos;
                (r, h, l) \<leftarrow> AddTailI x h l;
                if r = None then Some (False, h, l) else add_tail_loop pos h l })"

definition AddTail :: "CBaseList \<Rightarrow> 'o heap \<Rightarrow> CBaseList \<Rightarrow> (bool \<times> 'o heap \<times> CBaseList) option" where
  "AddTail pList h l = add_tail_loop (GetHeadPositionI pList) h l"

partial_function (option) add_head_loop ::
  "CBaseList \<Rightarrow> POSITION \<Rightarrow> 'o heap \<Rightarrow> CBaseList \<Rightarrow> (bool \<times> 'o heap \<times> CBaseList) option" where
  "add_head_loop pList pos h l =
     (if pos = None then Some (True, h, l)
      else do { x \<leftarrow> GetValidI h pos;
                (r, h, l) \<leftarrow> AddHeadI x h l;
                if r = None then Some (False, h, l)
                else do { n \<leftarrow> Prev h pList pos; add_head_loop pList n h l } })"

definition AddHead :: "CBaseList \<Rightarrow> 'o heap \<Rightarrow> CBaseList \<Rightarrow> (bool \<times> 'o heap \<times> CBaseList) option" where
  "AddHead pList h l = add_head_loop pList (GetTailPositionI pList) h l"

text \<open>The four stores that chain a node between two others.\<close>

definition chain_between :: "POSITION \<Rightarrow> POSITION \<Rightarrow> POSITION \<Rightarrow> 'o heap \<Rightarrow> 'o heap option" where
  "chain_between pNode pAfter pBefore h = do {
     h \<leftarrow> SetPrev pNode pAfter h;
     h \<leftarrow> SetNext pNode pBefore h;
     h \<leftarrow> SetPrev pBefore pNode h;
     SetNext pAfter pNode h }"

definition AddAfterI :: "POSITION \<Rightarrow> 'o option \<Rightarrow> 'o heap \<Rightarrow> CBaseList \<Rightarrow> (POSITION \<times> 'o heap \<times> CBaseList) option" where
  "AddAfterI pos pObj h l =
     (if pos = None then AddHeadI pObj h l
      else if pos = m_pLast l then AddTailI pObj h l
      else do {
        (pNode, h, l) \<leftarrow> obtain_node h l;
        if pNode = None then Some (None, h, l)
        else do {
          h \<leftarrow> SetData pNode pObj h;
          pBefore \<leftarrow> node_Next h pos;
          h \<leftarrow> chain_between pNode pos pBefore h;
          Some (pNode, h, l\<lparr>m_Count := m_Count l + 1\<rparr>) } })"

definition AddBeforeI :: "POSITION \<Rightarrow> 'o option \<Rightarrow> 'o heap \<Rightarrow> CBaseList \<Rightarrow> (POSITION \<times> 'o heap \<times> CBaseList) option" where
  "AddBeforeI pos pObj h l =
     (if pos = None then AddTailI pObj h l
      else if pos = m_pFirst l then AddHeadI pObj h l
      else do {
        (pNode, h, l) \<leftarrow> obtain_node h l;
        if pNode = None then Some (None, h, l)
        else do {
          h \<leftarrow> SetData pNode pObj h;
          pAfter \<leftarrow> node_Prev h pos;
          h \<leftarrow> chain_between pNode pAfter pos h;
          Some (pNode, h, l\<lparr>m_Count := m_Count l + 1\<rparr>) } })"

partial_function (option) add_after_loop ::
  "CBaseList \<Rightarrow> POSITION \<Rightarrow> POSITION \<Rightarrow> 'o heap \<Rightarrow> CBaseList \<Rightarrow> (bool \<times> 'o heap \<times> CBaseList) option" where
  "add_after_loop pList p pos h l =
     (if pos = None then Some (True, h, l)
      else do { x \<leftarrow> GetValidI h pos;
                (p, h, l) \<leftarrow> AddAfterI p x h l;
                if p = None then Some (False, h, l)
                else do { n \<leftarrow> Next h pList pos; add_after_loop pList p n h l } })"

definition AddAfter :: "POSITION \<Rightarrow> CBaseList \<Rightarrow> 'o heap \<Rightarrow> CBaseList \<Rightarrow> (bool \<times> 'o heap \<times> CBaseList) option" where
  "AddAfter p pList h l = add_after_loop pList p (GetHeadPositionI pList) h l"

partial_function (option) add_before_loop ::
  "CBaseList \<Rightarrow> POSITION \<Rightarrow> POSITION \<Rightarrow> 'o heap \<Rightarrow> CBaseList \<Rightarrow> (bool \<times> 'o heap \<times> CBaseList) option" where
  "add_before_loop pList p pos h l =
     (if pos = None then Some (True, h, l)
      else do { x \<leftarrow> GetValidI h pos;
                (p, h, l) \<leftarrow> AddBeforeI p x h l;
                if p = None then Some (False, h, l)
                else do { n \<leftarrow> Prev h pList pos; add_before_loop pList p n h l } })"

definition AddBefore :: "POSITION \<Rightarrow> CBaseList \<Rightarrow> 'o heap \<Rightarrow> CBaseList \<Rightarrow> (bool \<times> 'o heap \<times> CBaseList) option" where
  "AddBefore p pList h l = add_before_loop pList p (GetTailPositionI pList) h l"

section \<open>Moving and reversing\<close>

partial_function (option) count_back :: "'o heap \<Rightarrow> POSITION \<Rightarrow> i32 \<Rightarrow> i32 option" where
  "count_back h p cMove =
     (if p = None then Some cMove else do { q \<leftarrow> node_Prev h p; count_back h q (cMove + 1) })"

partial_function (option) count_on :: "'o heap \<Rightarrow> POSITION \<Rightarrow> i32 \<Rightarrow> i32 option" where
  "count_on h p cMove =
     (if p = None then Some cMove else do { q \<leftarrow> node_Next h p; count_on h q (cMove + 1) })"

text \<open>The results are the memory, \<open>*this\<close> and \<open>*pList\<close>; the source returns TRUE always.\<close>

definition MoveToTail :: "POSITION \<Rightarrow> 'o heap \<Rightarrow> CBaseList \<Rightarrow> CBaseList \<Rightarrow> ('o heap \<times> CBaseList \<times> CBaseList) option" where
  "MoveToTail pos h l pList =
     (if pos = None then Some (h, l, pList)
      else do {
        cMove \<leftarrow> count_back h pos 0;
        h \<leftarrow> (if m_pLast pList \<noteq> None then SetNext (m_pLast pList) (m_pFirst l) h else Some h);
        h \<leftarrow> (if m_pFirst l \<noteq> None then SetPrev (m_pFirst l) (m_pLast pList) h else Some h);
        let pList = (if m_pFirst pList = None then pList\<lparr>m_pFirst := m_pFirst l\<rparr> else pList);
        n \<leftarrow> node_Next h pos;
        let l = l\<lparr>m_pFirst := n\<rparr>;
        let l = (if m_pFirst l = None then l\<lparr>m_pLast := None\<rparr> else l);
        let pList = pList\<lparr>m_pLast := pos\<rparr>;
        h \<leftarrow> (if m_pFirst l \<noteq> None then SetPrev (m_pFirst l) None h else Some h);
        h \<leftarrow> SetNext pos None h;
        Some (h, l\<lparr>m_Count := m_Count l - cMove\<rparr>, pList\<lparr>m_Count := m_Count pList + cMove\<rparr>) })"

definition MoveToHead :: "POSITION \<Rightarrow> 'o heap \<Rightarrow> CBaseList \<Rightarrow> CBaseList \<Rightarrow> ('o heap \<times> CBaseList \<times> CBaseList) option" where
  "MoveToHead pos h l pList =
     (if pos = None then Some (h, l, pList)
      else do {
        cMove \<leftarrow> count_on h pos 0;
        h \<leftarrow> (if m_pFirst pList \<noteq> None then SetPrev (m_pFirst pList) (m_pLast l) h else Some h);
        h \<leftarrow> (if m_pLast l \<noteq> None then SetNext (m_pLast l) (m_pFirst pList) h else Some h);
        let pList = (if m_pLast pList = None then pList\<lparr>m_pLast := m_pLast l\<rparr> else pList);
        p \<leftarrow> node_Prev h pos;
        let l = l\<lparr>m_pLast := p\<rparr>;
        let l = (if m_pLast l = None then l\<lparr>m_pFirst := None\<rparr> else l);
        let pList = pList\<lparr>m_pFirst := pos\<rparr>;
        h \<leftarrow> (if m_pLast l \<noteq> None then SetNext (m_pLast l) None h else Some h);
        h \<leftarrow> SetPrev pos None h;
        Some (h, l\<lparr>m_Count := m_Count l - cMove\<rparr>, pList\<lparr>m_Count := m_Count pList + cMove\<rparr>) })"

partial_function (option) reverse_loop :: "POSITION \<Rightarrow> 'o heap \<Rightarrow> 'o heap option" where
  "reverse_loop p h =
     (if p = None then Some h
      else do {
        q \<leftarrow> node_Next h p;
        r \<leftarrow> node_Prev h p;
        h \<leftarrow> SetNext p r h;
        h \<leftarrow> SetPrev p q h;
        reverse_loop q h })"

definition Reverse :: "'o heap \<Rightarrow> CBaseList \<Rightarrow> ('o heap \<times> CBaseList) option" where
  "Reverse h l = do {
     h \<leftarrow> reverse_loop (m_pFirst l) h;
     Some (h, l\<lparr>m_pFirst := m_pLast l, m_pLast := m_pFirst l\<rparr>) }"

end
