(* ===== verification/Base_List_Props.thy ===== *)
theory Base_List_Props
  imports Base_List Fifo_Spec
begin

text \<open>
  The pointer list refines a plain list of (position, object) pairs. The abstraction relates
  memory and list object to that list and to the addresses of the cached nodes; every operation
  is shown to run without a bad dereference, to end, to have the effect of the corresponding
  list function, and to leave the rest of the memory alone without losing a node.
\<close>

type_synonym 'o cellmap = "addr \<Rightarrow> 'o CNode option"

section \<open>Doubly linked segments\<close>

definition first_pos :: "(addr \<times> 'o option) list \<Rightarrow> POSITION \<Rightarrow> POSITION" where
  "first_pos ps n = (case ps of [] \<Rightarrow> n | p # _ \<Rightarrow> Some (fst p))"

definition last_pos :: "POSITION \<Rightarrow> (addr \<times> 'o option) list \<Rightarrow> POSITION" where
  "last_pos p ps = (if ps = [] then p else Some (fst (last ps)))"

fun dll :: "'o cellmap \<Rightarrow> POSITION \<Rightarrow> (addr \<times> 'o option) list \<Rightarrow> POSITION \<Rightarrow> bool" where
  "dll c p [] n = True"
| "dll c p ((a, x) # ps) n =
     (c a = Some \<lparr>m_pPrev = p, m_pNext = first_pos ps n, m_pObject = x\<rparr> \<and> dll c (Some a) ps n)"

definition addrs :: "(addr \<times> 'o option) list \<Rightarrow> addr set" where
  "addrs ps = fst ` set ps"

definition apart :: "(addr \<times> 'o option) list \<Rightarrow> bool" where
  "apart ps = distinct (map fst ps)"

lemma addrs_simps [simp]:
  "addrs [] = {}" "addrs ((a, x) # ps) = insert a (addrs ps)" "addrs (ps @ qs) = addrs ps \<union> addrs qs"
  "addrs (rev ps) = addrs ps"
  by (auto simp: addrs_def)

lemma finite_addrs [simp]: "finite (addrs ps)"
  by (simp add: addrs_def)

lemma addrs_empty [simp]: "addrs ps = {} \<longleftrightarrow> ps = []"
  by (simp add: addrs_def)

lemma apart_simps [simp]:
  "apart []" "apart ((a, x) # ps) \<longleftrightarrow> a \<notin> addrs ps \<and> apart ps"
  "apart (ps @ qs) \<longleftrightarrow> apart ps \<and> apart qs \<and> addrs ps \<inter> addrs qs = {}" "apart (rev ps) = apart ps"
  by (auto simp: addrs_def apart_def rev_map [symmetric])

lemma pos_simps [simp]:
  "first_pos [] n = n" "first_pos ((a, x) # ps) n = Some a" "last_pos p [] = p"
  "last_pos p (ps @ [(a, x)]) = Some a" "last_pos p [(a, x)] = Some a"
  by (simp_all add: first_pos_def last_pos_def)

lemma first_pos_append [simp]: "first_pos (ps @ qs) n = first_pos ps (first_pos qs n)"
  by (cases ps) (auto simp: first_pos_def)

lemma last_pos_append [simp]: "last_pos p (ps @ qs) = last_pos (last_pos p ps) qs"
  by (simp add: last_pos_def)

lemma last_pos_Cons [simp]: "last_pos p ((a, x) # ps) = last_pos (Some a) ps"
  by (simp add: last_pos_def)

lemma pos_None_iff [simp]:
  "first_pos ps None = None \<longleftrightarrow> ps = []" "last_pos None ps = None \<longleftrightarrow> ps = []"
  by (cases ps) (auto simp: first_pos_def last_pos_def)

lemma dll_append [simp]:
  "dll c p (ps @ qs) n \<longleftrightarrow> dll c p ps (first_pos qs n) \<and> dll c (last_pos p ps) qs n"
  by (induction ps arbitrary: p) auto

lemma dll_cong: "dll c p ps n \<Longrightarrow> (\<And>a. a \<in> addrs ps \<Longrightarrow> c' a = c a) \<Longrightarrow> dll c' p ps n"
  by (induction ps arbitrary: p) auto

lemma dll_dom: "dll c p ps n \<Longrightarrow> addrs ps \<subseteq> dom c"
  by (induction ps arbitrary: p) (auto, blast)

lemma dll_upd [simp]: "a \<notin> addrs ps \<Longrightarrow> dll (c(a := v)) p ps n = dll c p ps n"
  by (rule iffI) (erule dll_cong, simp, blast)+

section \<open>Stores\<close>

definition upd_node :: "POSITION \<Rightarrow> ('o CNode \<Rightarrow> 'o CNode) \<Rightarrow> 'o cellmap \<Rightarrow> 'o cellmap" where
  "upd_node p f c = (case p of None \<Rightarrow> c | Some a \<Rightarrow> c(a := map_option f (c a)))"

abbreviation upd_prev :: "POSITION \<Rightarrow> POSITION \<Rightarrow> 'o cellmap \<Rightarrow> 'o cellmap" where
  "upd_prev p q \<equiv> upd_node p (\<lambda>nd. nd\<lparr>m_pPrev := q\<rparr>)"

abbreviation upd_next :: "POSITION \<Rightarrow> POSITION \<Rightarrow> 'o cellmap \<Rightarrow> 'o cellmap" where
  "upd_next p q \<equiv> upd_node p (\<lambda>nd. nd\<lparr>m_pNext := q\<rparr>)"

abbreviation upd_data :: "POSITION \<Rightarrow> 'o option \<Rightarrow> 'o cellmap \<Rightarrow> 'o cellmap" where
  "upd_data p x \<equiv> upd_node p (\<lambda>nd. nd\<lparr>m_pObject := x\<rparr>)"

lemma dom_upd_node [simp]: "dom (upd_node p f c) = dom c"
  by (auto simp: upd_node_def split: option.splits if_splits)

lemma upd_node_other [simp]: "p \<noteq> Some a \<Longrightarrow> upd_node p f c a = c a"
  by (auto simp: upd_node_def split: option.splits)

lemma upd_node_same [simp]: "upd_node (Some a) f c a = map_option f (c a)"
  by (simp add: upd_node_def)

lemma upd_node_None [simp]: "upd_node None f c = c"
  by (simp add: upd_node_def)

definition valid :: "'o cellmap \<Rightarrow> POSITION \<Rightarrow> bool" where
  "valid c p = (\<exists>a \<in> dom c. p = Some a)"

lemma valid_upd [simp]: "valid (upd_node q f c) p = valid c p"
  by (simp add: valid_def)

lemma Set_eq:
  "valid (cells h) p \<Longrightarrow> SetPrev p q h = Some (h\<lparr>cells := upd_prev p q (cells h)\<rparr>)"
  "valid (cells h) p \<Longrightarrow> SetNext p q h = Some (h\<lparr>cells := upd_next p q (cells h)\<rparr>)"
  "valid (cells h) p \<Longrightarrow> SetData p x h = Some (h\<lparr>cells := upd_data p x (cells h)\<rparr>)"
  by (auto simp: valid_def SetPrev_def SetNext_def SetData_def write_node_def upd_node_def)

lemma Get_eq:
  "cells h a = Some nd \<Longrightarrow> node_Prev h (Some a) = Some (m_pPrev nd)"
  "cells h a = Some nd \<Longrightarrow> node_Next h (Some a) = Some (m_pNext nd)"
  "cells h a = Some nd \<Longrightarrow> GetData h (Some a) = Some (m_pObject nd)"
  by (auto simp: node_Prev_def node_Next_def GetData_def node_at_def)

lemma valid_Some [simp]: "valid c (Some a) \<longleftrightarrow> a \<in> dom c"
  by (auto simp: valid_def)

lemma pos_Some:
  "ps \<noteq> [] \<Longrightarrow> \<exists>a \<in> addrs ps. first_pos ps n = Some a" "ps \<noteq> [] \<Longrightarrow> \<exists>a \<in> addrs ps. last_pos p ps = Some a"
  by (cases ps; force simp: addrs_def first_pos_def last_pos_def)+

lemma valid_pos:
  assumes "dll c p ps n" and "ps \<noteq> []"
  shows "valid c (first_pos ps m)" and "valid c (last_pos m ps)"
  using dll_dom [OF assms(1)] pos_Some [OF assms(2)] by (metis subsetD valid_Some)+

lemma dll_upd_node [simp]: "q \<notin> Some ` addrs ps \<Longrightarrow> dll (upd_node q f c) p ps n = dll c p ps n"
  by (cases q) (simp_all add: upd_node_def inj_image_mem_iff)

lemma dll_upd_node_Some [simp]: "a \<notin> addrs ps \<Longrightarrow> dll (upd_node (Some a) f c) p ps n = dll c p ps n"
  by (rule dll_upd_node) blast

lemma pos_in_addrs:
  "first_pos ps None \<in> Some ` addrs qs \<Longrightarrow> addrs ps \<inter> addrs qs \<noteq> {}"
  "last_pos None ps \<in> Some ` addrs qs \<Longrightarrow> addrs ps \<inter> addrs qs \<noteq> {}"
  using pos_Some [of ps None] pos_Some(2) [of ps None] by (cases "ps = []"; force)+

lemma dll_upd_next_last:
  assumes "dll c p ps n" and "apart ps"
  shows "dll (upd_next (last_pos None ps) n' c) p ps n'"
proof (cases ps rule: rev_cases)
  case (snoc qs y)
  obtain a x where y: "y = (a, x)" by (cases y)
  show ?thesis using assms unfolding snoc y by simp
qed simp

lemma dll_upd_prev_first:
  assumes "dll c p ps n" and "apart ps"
  shows "dll (upd_prev (first_pos ps None) p' c) p' ps n"
  using assms by (cases ps) auto

section \<open>Abstraction\<close>

fun sll :: "'o cellmap \<Rightarrow> POSITION \<Rightarrow> addr list \<Rightarrow> bool" where
  "sll c p [] \<longleftrightarrow> p = None"
| "sll c p (b # bs) \<longleftrightarrow> p = Some b \<and> (\<exists>nd. c b = Some nd \<and> sll c (m_pNext nd) bs)"

definition list_at :: "'o cellmap \<Rightarrow> CBaseList \<Rightarrow> (addr \<times> 'o option) list \<Rightarrow> bool" where
  "list_at c l ps \<longleftrightarrow> dll c None ps None \<and> apart ps \<and> m_pFirst l = first_pos ps None \<and>
     m_pLast l = last_pos None ps \<and> m_Count l = of_nat (length ps)"

definition cache_at :: "'o cellmap \<Rightarrow> CNodeCache \<Rightarrow> addr list \<Rightarrow> bool" where
  "cache_at c k bs \<longleftrightarrow> sll c (m_pHead k) bs \<and> distinct bs \<and> m_iUsed k = int (length bs) \<and>
     int (length bs) \<le> max 0 (m_iCacheSize k)"

definition heap_ok :: "'o heap \<Rightarrow> bool" where
  "heap_ok h \<longleftrightarrow> distinct (map fst (avail h)) \<and> dom (cells h) \<inter> fst ` set (avail h) = {}"

definition foot :: "(addr \<times> 'o option) list \<Rightarrow> addr list \<Rightarrow> addr set" where
  "foot ps bs = addrs ps \<union> set bs"

definition rep :: "'o heap \<Rightarrow> CBaseList \<Rightarrow> (addr \<times> 'o option) list \<Rightarrow> addr list \<Rightarrow> bool" where
  "rep h l ps bs \<longleftrightarrow> heap_ok h \<and> list_at (cells h) l ps \<and> cache_at (cells h) (m_Cache l) bs \<and>
     addrs ps \<inter> set bs = {}"

text \<open>All of memory: the nodes in use and those that \<open>new\<close> can hand out. An operation that owns
  the nodes \<open>F\<close> leaves every other allocated node alone; afterwards it owns \<open>F'\<close>. Because
  the rest of the allocated nodes is exactly what it was, no node is lost.\<close>

definition universe :: "'o heap \<Rightarrow> addr set" where
  "universe h = dom (cells h) \<union> fst ` set (avail h)"

definition frame :: "'o heap \<Rightarrow> addr set \<Rightarrow> 'o heap \<Rightarrow> addr set \<Rightarrow> bool" where
  "frame h F h' F' \<longleftrightarrow> heap_ok h' \<and> F' \<subseteq> dom (cells h') \<and> dom (cells h') - F' = dom (cells h) - F \<and>
     (\<forall>a \<in> dom (cells h) - F. cells h' a = cells h a) \<and> universe h' = universe h"

lemma frame_refl: "heap_ok h \<Longrightarrow> F \<subseteq> dom (cells h) \<Longrightarrow> frame h F h F"
  by (simp add: frame_def)

lemma frame_trans: "frame h F h1 F1 \<Longrightarrow> frame h1 F1 h2 F2 \<Longrightarrow> frame h F h2 F2"
  by (simp add: frame_def)

lemma frame_write:
  assumes "heap_ok h" "F \<subseteq> dom (cells h)" "dom c = dom (cells h)" "\<And>a. a \<notin> F \<Longrightarrow> c a = cells h a"
  shows "frame h F (h\<lparr>cells := c\<rparr>) F"
  using assms by (auto simp: frame_def heap_ok_def universe_def)

lemma sll_dom: "sll c p bs \<Longrightarrow> set bs \<subseteq> dom c"
proof (induction bs arbitrary: p)
  case (Cons b bs)
  then show ?case by fastforce
qed simp

lemma sll_cong: "sll c p bs \<Longrightarrow> (\<And>b. b \<in> set bs \<Longrightarrow> c' b = c b) \<Longrightarrow> sll c' p bs"
  by (induction bs arbitrary: p) auto

lemma rep_dom: "rep h l ps bs \<Longrightarrow> foot ps bs \<subseteq> dom (cells h)"
  by (auto simp: rep_def list_at_def cache_at_def foot_def dest: dll_dom sll_dom)

text \<open>What another list keeps.\<close>

lemma rep_frame:
  assumes "rep h l ps bs" and "frame h F h' F'" and "foot ps bs \<inter> F = {}"
  shows "rep h' l ps bs" and "foot ps bs \<inter> F' = {}"
proof -
  have same: "cells h' a = cells h a" if "a \<in> foot ps bs" for a
    using that assms rep_dom [OF assms(1)] unfolding frame_def by blast
  have "dll (cells h') None ps None" "sll (cells h') (m_pHead (m_Cache l)) bs"
    using assms(1) same by (auto simp: rep_def list_at_def cache_at_def foot_def intro: dll_cong sll_cong)
  then show "rep h' l ps bs"
    using assms(1,2) by (auto simp: rep_def list_at_def cache_at_def frame_def)
  show "foot ps bs \<inter> F' = {}"
    using rep_dom [OF assms(1)] assms(2,3) unfolding frame_def by blast
qed

section \<open>Obtaining a node\<close>

lemma obtain_node_spec:
  assumes "rep h l ps bs"
  shows "(bs = [] \<and> avail h = [] \<and> obtain_node h l = Some (None, h, l)) \<or>
    (\<exists>a h' k bs'. obtain_node h l = Some (Some a, h', l\<lparr>m_Cache := k\<rparr>) \<and> rep h' (l\<lparr>m_Cache := k\<rparr>) ps bs' \<and>
       a \<notin> foot ps bs' \<and> frame h (foot ps bs) h' (insert a (foot ps bs')) \<and>
       length (avail h') + length bs' + 1 = length (avail h) + length bs)"
proof (cases bs)
  case (Cons b bs')
  then obtain nd where nd: "m_pHead (m_Cache l) = Some b" "cells h b = Some nd" "sll (cells h) (m_pNext nd) bs'"
    using assms by (auto simp: rep_def cache_at_def)
  define k where "k = (m_Cache l)\<lparr>m_pHead := m_pNext nd, m_iUsed := m_iUsed (m_Cache l) - 1\<rparr>"
  have "obtain_node h l = Some (Some b, h, l\<lparr>m_Cache := k\<rparr>)"
    using nd by (simp add: obtain_node_def RemoveFromCache_def Get_eq k_def)
  moreover have "rep h (l\<lparr>m_Cache := k\<rparr>) ps bs'"
    using assms nd Cons by (auto simp: rep_def list_at_def cache_at_def k_def)
  moreover have "b \<notin> foot ps bs'" "insert b (foot ps bs') = foot ps bs"
    using assms Cons by (auto simp: rep_def cache_at_def foot_def)
  moreover have "frame h (foot ps bs) h (foot ps bs)"
    using assms rep_dom [OF assms] by (intro frame_refl) (simp_all add: rep_def)
  ultimately show ?thesis using Cons
    by (intro disjI2 exI [of _ b] exI [of _ h] exI [of _ k] exI [of _ bs']) simp
next
  case Nil
  then have hd: "m_pHead (m_Cache l) = None" using assms by (auto simp: rep_def cache_at_def)
  show ?thesis
  proof (cases "avail h")
    case av: Nil
    then show ?thesis using hd Nil by (simp add: obtain_node_def RemoveFromCache_def new_CNode_def)
  next
    case (Cons m ms)
    obtain a nd where m: "m = (a, nd)" by (cases m)
    define h' where "h' = h\<lparr>cells := (cells h)(a \<mapsto> nd), avail := ms\<rparr>"
    have ok: "heap_ok h" "heap_ok h'" "a \<notin> dom (cells h)"
      using assms Cons m by (auto simp: rep_def heap_ok_def h'_def)
    have "foot ps [] \<subseteq> dom (cells h)" using rep_dom [OF assms] Nil by simp
    then have a: "a \<notin> foot ps []" using ok by blast
    have "obtain_node h l = Some (Some a, h', l\<lparr>m_Cache := m_Cache l\<rparr>)"
      using hd Cons m by (simp add: obtain_node_def RemoveFromCache_def new_CNode_def h'_def)
    moreover have "rep h' (l\<lparr>m_Cache := m_Cache l\<rparr>) ps []"
      using assms Nil ok a by (auto simp: rep_def list_at_def cache_at_def h'_def foot_def)
    moreover have "frame h (foot ps []) h' (insert a (foot ps []))"
      using ok a \<open>foot ps [] \<subseteq> dom (cells h)\<close> Cons m
      by (auto simp: frame_def universe_def h'_def)
    ultimately show ?thesis using a Nil Cons
      by (intro disjI2 exI [of _ a] exI [of _ h'] exI [of _ "m_Cache l"] exI [of _ "[]"]) (simp add: h'_def)
  qed
qed

section \<open>Insertion\<close>

text \<open>The memory after a node \<open>a\<close> for \<open>x\<close> has been chained between the segments \<open>ps\<close> and
  \<open>qs\<close>.\<close>

definition linked :: "'o cellmap \<Rightarrow> (addr \<times> 'o option) list \<Rightarrow> addr \<Rightarrow> 'o option \<Rightarrow> (addr \<times> 'o option) list \<Rightarrow> 'o cellmap" where
  "linked c ps a x qs = upd_next (last_pos None ps) (Some a) (upd_prev (first_pos qs None) (Some a)
     (c(a \<mapsto> \<lparr>m_pPrev = last_pos None ps, m_pNext = first_pos qs None, m_pObject = x\<rparr>)))"

lemma dll_linked:
  assumes "dll c None (ps @ qs) None" and "apart (ps @ qs)" and "a \<notin> addrs (ps @ qs)"
  shows "dll (linked c ps a x qs) None (ps @ (a, x) # qs) None"
proof -
  let ?c1 = "c(a \<mapsto> \<lparr>m_pPrev = last_pos None ps, m_pNext = first_pos qs None, m_pObject = x\<rparr>)"
  let ?c2 = "upd_prev (first_pos qs None) (Some a) ?c1"
  have q: "first_pos qs None \<notin> Some ` addrs ps" "first_pos qs None \<noteq> Some a"
    using assms(2,3) pos_in_addrs(1) [of qs ps] pos_Some(1) [of qs None] by (cases "qs = []"; auto)+
  have p: "last_pos None ps \<notin> Some ` addrs qs" "last_pos None ps \<noteq> Some a"
    using assms(2,3) pos_in_addrs(2) [of ps qs] pos_Some(2) [of ps None] by (cases "ps = []"; auto)+
  have "dll ?c1 None ps (first_pos qs None)" "dll ?c1 (last_pos None ps) qs None"
    using assms by simp_all
  then have "dll ?c2 None ps (first_pos qs None)" "dll ?c2 (Some a) qs None"
    using q assms(2) by (simp_all add: dll_upd_prev_first)
  then have "dll (linked c ps a x qs) None ps (Some a)" "dll (linked c ps a x qs) (Some a) qs None"
    using p assms(2) unfolding linked_def by (simp_all add: dll_upd_next_last)
  moreover have "linked c ps a x qs a = Some \<lparr>m_pPrev = last_pos None ps, m_pNext = first_pos qs None, m_pObject = x\<rparr>"
    using p q by (simp add: linked_def)
  ultimately show ?thesis by simp
qed

lemma linked_other: "b \<notin> insert a (addrs (ps @ qs)) \<Longrightarrow> linked c ps a x qs b = c b"
  using pos_Some(1) [of qs None] pos_Some(2) [of ps None]
  unfolding linked_def by (cases "ps = []"; cases "qs = []"; auto simp: upd_node_def split: option.splits)

lemma dom_linked: "a \<in> dom c \<Longrightarrow> dom (linked c ps a x qs) = dom c"
  by (auto simp: linked_def)

lemma linked_rep:
  assumes "rep h l (ps @ qs) bs" and "a \<notin> foot (ps @ qs) bs" and "a \<in> dom (cells h)"
    and "m_pFirst l' = first_pos (ps @ (a, x) # qs) None" "m_pLast l' = last_pos None (ps @ (a, x) # qs)"
    and "m_Count l' = m_Count l + 1" "m_Cache l' = m_Cache l"
  shows "rep (h\<lparr>cells := linked (cells h) ps a x qs\<rparr>) l' (ps @ (a, x) # qs) bs"
    and "frame h (insert a (foot (ps @ qs) bs)) (h\<lparr>cells := linked (cells h) ps a x qs\<rparr>) (foot (ps @ (a, x) # qs) bs)"
proof -
  have l: "dll (linked (cells h) ps a x qs) None (ps @ (a, x) # qs) None"
    by (rule dll_linked) (use assms in \<open>auto simp: rep_def list_at_def foot_def\<close>)
  have o: "linked (cells h) ps a x qs b = cells h b" if "b \<in> set bs" for b
    by (rule linked_other) (use assms that in \<open>auto simp: rep_def foot_def\<close>)
  have "sll (linked (cells h) ps a x qs) (m_pHead (m_Cache l)) bs"
    using assms(1) o by (auto simp: rep_def cache_at_def intro: sll_cong)
  then show "rep (h\<lparr>cells := linked (cells h) ps a x qs\<rparr>) l' (ps @ (a, x) # qs) bs"
    using assms l dom_linked [OF assms(3)]
    by (auto simp: rep_def list_at_def cache_at_def heap_ok_def foot_def)
  have "foot (ps @ (a, x) # qs) bs = insert a (foot (ps @ qs) bs)" by (auto simp: foot_def)
  moreover have "frame h (insert a (foot (ps @ qs) bs)) (h\<lparr>cells := linked (cells h) ps a x qs\<rparr>) (insert a (foot (ps @ qs) bs))"
  proof (rule frame_write)
    show "insert a (foot (ps @ qs) bs) \<subseteq> dom (cells h)" using assms(3) rep_dom [OF assms(1)] by simp
    show "dom (linked (cells h) ps a x qs) = dom (cells h)" by (rule dom_linked) fact
    show "linked (cells h) ps a x qs b = cells h b" if "b \<notin> insert a (foot (ps @ qs) bs)" for b
      by (rule linked_other) (use that in \<open>auto simp: foot_def\<close>)
  qed (use assms in \<open>simp add: rep_def\<close>)
  ultimately show "frame h (insert a (foot (ps @ qs) bs)) (h\<lparr>cells := linked (cells h) ps a x qs\<rparr>) (foot (ps @ (a, x) # qs) bs)"
    by simp
qed

text \<open>The outcome of an insertion of \<open>x\<close> between \<open>ps\<close> and \<open>qs\<close>: it fails, changing nothing, exactly
  when there is neither a cached node nor memory for a new one.\<close>

definition inserts :: "'o heap \<Rightarrow> CBaseList \<Rightarrow> (addr \<times> 'o option) list \<Rightarrow> (addr \<times> 'o option) list \<Rightarrow> addr list \<Rightarrow>
    'o option \<Rightarrow> (POSITION \<times> 'o heap \<times> CBaseList) option \<Rightarrow> bool" where
  "inserts h l ps qs bs x r \<longleftrightarrow>
     (if bs = [] \<and> avail h = [] then r = Some (None, h, l)
      else \<exists>a h' l' bs'. r = Some (Some a, h', l') \<and> rep h' l' (ps @ (a, x) # qs) bs' \<and>
        frame h (foot (ps @ qs) bs) h' (foot (ps @ (a, x) # qs) bs') \<and>
        length (avail h') + length bs' + 1 = length (avail h) + length bs)"

lemma fresh_writes:
  assumes "a \<in> dom c"
  shows "upd_prev (Some a) p (upd_next (Some a) n (upd_data (Some a) x c)) =
      c(a \<mapsto> \<lparr>m_pPrev = p, m_pNext = n, m_pObject = x\<rparr>)"
    and "upd_next (Some a) n (upd_prev (Some a) p (upd_data (Some a) x c)) =
      c(a \<mapsto> \<lparr>m_pPrev = p, m_pNext = n, m_pObject = x\<rparr>)"
  using assms by (auto simp: upd_node_def fun_eq_iff)

lemma inserts_by_linking:
  assumes "rep h l (ps @ qs) bs"
    and link: "\<And>a h1 k. a \<in> dom (cells h1) \<Longrightarrow> a \<notin> addrs (ps @ qs) \<Longrightarrow> list_at (cells h1) l (ps @ qs) \<Longrightarrow>
      obtain_node h l = Some (Some a, h1, l\<lparr>m_Cache := k\<rparr>) \<Longrightarrow>
      r = Some (Some a, h1\<lparr>cells := linked (cells h1) ps a x qs\<rparr>,
        l\<lparr>m_Cache := k, m_pFirst := first_pos (ps @ (a, x) # qs) None, m_pLast := last_pos None (ps @ (a, x) # qs),
          m_Count := m_Count l + 1\<rparr>)"
    and none: "obtain_node h l = Some (None, h, l) \<Longrightarrow> r = Some (None, h, l)"
  shows "inserts h l ps qs bs x r"
proof (cases "bs = [] \<and> avail h = []")
  case True
  then have "obtain_node h l = Some (None, h, l)" using obtain_node_spec [OF assms(1)] by auto
  then show ?thesis using True none by (simp add: inserts_def)
next
  case False
  then obtain a h1 k bs' where o: "obtain_node h l = Some (Some a, h1, l\<lparr>m_Cache := k\<rparr>)"
    "rep h1 (l\<lparr>m_Cache := k\<rparr>) (ps @ qs) bs'" "a \<notin> foot (ps @ qs) bs'"
    and f: "frame h (foot (ps @ qs) bs) h1 (insert a (foot (ps @ qs) bs'))"
    and n: "length (avail h1) + length bs' + 1 = length (avail h) + length bs"
    using obtain_node_spec [OF assms(1)] by blast
  have a: "a \<in> dom (cells h1)" using f by (simp add: frame_def)
  define l' where "l' = l\<lparr>m_Cache := k, m_pFirst := first_pos (ps @ (a, x) # qs) None,
      m_pLast := last_pos None (ps @ (a, x) # qs), m_Count := m_Count l + 1\<rparr>"
  let ?h' = "h1\<lparr>cells := linked (cells h1) ps a x qs\<rparr>"
  have r: "r = Some (Some a, ?h', l')"
    unfolding l'_def by (rule link) (use o a in \<open>auto simp: foot_def rep_def list_at_def\<close>)
  note L = linked_rep [OF o(2,3) a, of l' x]
  have "rep ?h' l' (ps @ (a, x) # qs) bs'" by (rule L) (simp_all add: l'_def)
  moreover have "frame h1 (insert a (foot (ps @ qs) bs')) ?h' (foot (ps @ (a, x) # qs) bs')"
    by (rule L) (simp_all add: l'_def)
  ultimately show ?thesis using False r n frame_trans [OF f] unfolding inserts_def by (auto simp: n)
qed

lemma valid_after: "list_at c l ps \<Longrightarrow> ps \<noteq> [] \<Longrightarrow> valid c (first_pos ps None)"
  "list_at c l ps \<Longrightarrow> ps \<noteq> [] \<Longrightarrow> valid c (last_pos None ps)"
  by (auto simp: list_at_def intro: valid_pos)

lemma valid_upd_map [simp]: "valid (c(a \<mapsto> nd)) p \<longleftrightarrow> valid c p \<or> p = Some a"
  by (auto simp: valid_def)

lemma AddTailI_inserts:
  assumes "rep h l ps bs"
  shows "inserts h l ps [] bs x (AddTailI x h l)"
proof (rule inserts_by_linking)
  show "AddTailI x h l = Some (None, h, l)" if "obtain_node h l = Some (None, h, l)"
    using that by (simp add: AddTailI_def)
  fix a h1 k
  assume a: "a \<in> dom (cells h1)" "a \<notin> addrs (ps @ [])" and l: "list_at (cells h1) l (ps @ [])"
    and o: "obtain_node h l = Some (Some a, h1, l\<lparr>m_Cache := k\<rparr>)"
  show "AddTailI x h l = Some (Some a, h1\<lparr>cells := linked (cells h1) ps a x []\<rparr>,
        l\<lparr>m_Cache := k, m_pFirst := first_pos (ps @ [(a, x)]) None, m_pLast := last_pos None (ps @ [(a, x)]),
          m_Count := m_Count l + 1\<rparr>)"
  proof (cases "ps = []")
    case True
    then show ?thesis using a l o
      by (simp add: AddTailI_def list_at_def Set_eq fresh_writes linked_def)
  next
    case False
    then show ?thesis using a l o valid_after [of "cells h1" l ps] pos_Some(1) [of ps None]
      by (cases l) (auto simp: AddTailI_def list_at_def Set_eq fresh_writes linked_def first_pos_def split: list.splits)
  qed
qed (use assms in simp)

lemma AddHeadI_inserts:
  assumes "rep h l qs bs"
  shows "inserts h l [] qs bs x (AddHeadI x h l)"
proof (rule inserts_by_linking)
  show "AddHeadI x h l = Some (None, h, l)" if "obtain_node h l = Some (None, h, l)"
    using that by (simp add: AddHeadI_def)
  fix a h1 k
  assume a: "a \<in> dom (cells h1)" "a \<notin> addrs ([] @ qs)" and l: "list_at (cells h1) l ([] @ qs)"
    and o: "obtain_node h l = Some (Some a, h1, l\<lparr>m_Cache := k\<rparr>)"
  show "AddHeadI x h l = Some (Some a, h1\<lparr>cells := linked (cells h1) [] a x qs\<rparr>,
        l\<lparr>m_Cache := k, m_pFirst := first_pos ([] @ (a, x) # qs) None, m_pLast := last_pos None ([] @ (a, x) # qs),
          m_Count := m_Count l + 1\<rparr>)"
  proof (cases "qs = []")
    case True
    then show ?thesis using a l o
      by (simp add: AddHeadI_def list_at_def Set_eq fresh_writes linked_def)
  next
    case False
    then show ?thesis using a l o valid_after [of "cells h1" l qs] pos_Some(2) [of qs]
      by (auto simp: AddHeadI_def list_at_def Set_eq fresh_writes linked_def last_pos_def)
  qed
qed (use assms in simp)

text \<open>Insertion in the middle: with a segment on either side, \<open>AddAfter\<close> of the last position on the
  left and \<open>AddBefore\<close> of the first position on the right do the same.\<close>

lemma chain_between_linked:
  assumes "a \<in> dom (cells h)" "valid (cells h) p" "valid (cells h) q" "p \<noteq> Some a" "q \<noteq> Some a"
  shows "(do { h \<leftarrow> SetData (Some a) x h; chain_between (Some a) p q h }) =
    Some (h\<lparr>cells := upd_next p (Some a) (upd_prev q (Some a)
      ((cells h)(a \<mapsto> \<lparr>m_pPrev = p, m_pNext = q, m_pObject = x\<rparr>)))\<rparr>)"
  using assms by (auto simp: chain_between_def Set_eq fresh_writes)

lemma split_neighbours:
  assumes "list_at c l (ps @ qs)" "ps \<noteq> []" "qs \<noteq> []" "last_pos None ps = Some b" "first_pos qs None = Some d"
  shows "map_option m_pNext (c b) = Some (Some d)" "map_option m_pPrev (c d) = Some (Some b)"
    "m_pFirst l \<noteq> Some d" "m_pLast l \<noteq> Some b" "b \<in> addrs ps" "d \<in> addrs qs"
proof -
  obtain ps' y where ps: "ps = ps' @ [(b, y)]"
    using assms(2,4) by (cases ps rule: rev_cases) auto
  obtain qs' z where qs: "qs = (d, z) # qs'" using assms(3,5) by (cases qs) auto
  show "map_option m_pNext (c b) = Some (Some d)" "map_option m_pPrev (c d) = Some (Some b)"
    using assms(1) by (auto simp: list_at_def ps qs)
  show "m_pFirst l \<noteq> Some d" using assms(1) by (cases ps') (auto simp: list_at_def ps qs)
  show "m_pLast l \<noteq> Some b"
    using assms(1) by (cases qs' rule: rev_cases) (auto simp: list_at_def ps qs)
  show "b \<in> addrs ps" "d \<in> addrs qs" by (simp_all add: ps qs)
qed

lemma same_ends:
  "list_at c l (ps @ qs) \<Longrightarrow> ps \<noteq> [] \<Longrightarrow> qs \<noteq> [] \<Longrightarrow>
   first_pos (ps @ r # qs) None = m_pFirst l \<and> last_pos None (ps @ r # qs) = m_pLast l"
  by (cases ps) (auto simp: list_at_def last_pos_def)

lemma middle_inserts:
  assumes "rep h l (ps @ qs) bs" and ne: "ps \<noteq> []" "qs \<noteq> []"
    and b: "last_pos None ps = Some b" and d: "first_pos qs None = Some d"
  shows "inserts h l ps qs bs x (AddAfterI (Some b) x h l)"
    and "AddBeforeI (Some d) x h l = AddAfterI (Some b) x h l"
proof -
  have L: "list_at (cells h) l (ps @ qs)" using assms(1) by (simp add: rep_def)
  note sp = split_neighbours [OF L ne b d]
  have A: "AddAfterI (Some b) x h l = Some (Some a, h1\<lparr>cells := linked (cells h1) ps a x qs\<rparr>,
        l\<lparr>m_Cache := k, m_Count := m_Count l + 1\<rparr>) \<and> AddBeforeI (Some d) x h l = AddAfterI (Some b) x h l"
    if a: "a \<in> dom (cells h1)" "a \<notin> addrs (ps @ qs)" and l: "list_at (cells h1) l (ps @ qs)"
      and o: "obtain_node h l = Some (Some a, h1, l\<lparr>m_Cache := k\<rparr>)" for a h1 k
  proof -
    note s1 = split_neighbours [OF l ne b d]
    have bd: "b \<noteq> a" "d \<noteq> a" using a s1 by auto
    have "node_Next (h1\<lparr>cells := upd_data (Some a) x (cells h1)\<rparr>) (Some b) = Some (Some d)"
      "node_Prev (h1\<lparr>cells := upd_data (Some a) x (cells h1)\<rparr>) (Some d) = Some (Some b)"
      using s1 bd by (simp_all add: node_Next_def node_Prev_def node_at_def)
    moreover have "valid (cells h1) (Some b)" "valid (cells h1) (Some d)" using s1 by auto
    ultimately show ?thesis
      using chain_between_linked [of a h1 "Some b" "Some d" x] a o sp bd b d
      by (simp add: AddAfterI_def AddBeforeI_def Set_eq linked_def)
  qed
  show "inserts h l ps qs bs x (AddAfterI (Some b) x h l)"
  proof (rule inserts_by_linking [OF assms(1)])
    show "AddAfterI (Some b) x h l = Some (None, h, l)" if "obtain_node h l = Some (None, h, l)"
      using that sp by (simp add: AddAfterI_def)
    fix a h1 k
    assume "a \<in> dom (cells h1)" "a \<notin> addrs (ps @ qs)" "list_at (cells h1) l (ps @ qs)"
      "obtain_node h l = Some (Some a, h1, l\<lparr>m_Cache := k\<rparr>)"
    from A [OF this] show "AddAfterI (Some b) x h l = Some (Some a, h1\<lparr>cells := linked (cells h1) ps a x qs\<rparr>,
        l\<lparr>m_Cache := k, m_pFirst := first_pos (ps @ (a, x) # qs) None, m_pLast := last_pos None (ps @ (a, x) # qs),
          m_Count := m_Count l + 1\<rparr>)"
      unfolding same_ends [OF L ne, THEN conjunct1] same_ends [OF L ne, THEN conjunct2] by simp
  qed
  show "AddBeforeI (Some d) x h l = AddAfterI (Some b) x h l"
  proof (cases "bs = [] \<and> avail h = []")
    case True
    then show ?thesis using obtain_node_spec [OF assms(1)] sp by (auto simp: AddAfterI_def AddBeforeI_def)
  next
    case False
    then obtain a h1 k bs' where o: "obtain_node h l = Some (Some a, h1, l\<lparr>m_Cache := k\<rparr>)"
      "rep h1 (l\<lparr>m_Cache := k\<rparr>) (ps @ qs) bs'" "a \<notin> foot (ps @ qs) bs'"
      "frame h (foot (ps @ qs) bs) h1 (insert a (foot (ps @ qs) bs'))"
      using obtain_node_spec [OF assms(1)] by blast
    then show ?thesis using A [of a h1 k] by (auto simp: frame_def rep_def list_at_def foot_def)
  qed
qed

lemma AddTailI_AddHeadI_empty: "rep h l [] bs \<Longrightarrow> AddTailI x h l = AddHeadI x h l"
  using obtain_node_spec [of h l "[]" bs]
  by (cases l) (auto simp: AddTailI_def AddHeadI_def rep_def list_at_def frame_def Set_eq fresh_writes domIff)

lemma AddAfterI_inserts:
  assumes "rep h l (ps @ qs) bs"
  shows "inserts h l ps qs bs x (AddAfterI (last_pos None ps) x h l)"
proof -
  consider "ps = []" | "ps \<noteq> []" "qs = []" | b d where "ps \<noteq> []" "qs \<noteq> []" "last_pos None ps = Some b" "first_pos qs None = Some d"
    using pos_Some by blast
  then show ?thesis
  proof cases
    case 1
    then show ?thesis using AddHeadI_inserts assms by (simp add: AddAfterI_def)
  next
    case 2
    moreover from this have "m_pLast l = last_pos None ps" using assms by (simp add: rep_def list_at_def)
    ultimately show ?thesis using AddTailI_inserts [of h l ps] assms by (auto simp: AddAfterI_def)
  next
    case 3
    then show ?thesis using middle_inserts(1) [OF assms] by simp
  qed
qed

lemma AddBeforeI_AddAfterI:
  assumes "rep h l (ps @ qs) bs"
  shows "AddBeforeI (first_pos qs None) x h l = AddAfterI (last_pos None ps) x h l"
proof -
  consider "ps = []" "qs = []" | "ps = []" "qs \<noteq> []" | "ps \<noteq> []" "qs = []"
    | b d where "ps \<noteq> []" "qs \<noteq> []" "last_pos None ps = Some b" "first_pos qs None = Some d"
    using pos_Some by blast
  then show ?thesis
  proof cases
    case 1
    then show ?thesis using AddTailI_AddHeadI_empty assms by (simp add: AddAfterI_def AddBeforeI_def)
  next
    case 2
    then show ?thesis using assms by (simp add: AddAfterI_def AddBeforeI_def rep_def list_at_def)
  next
    case 3
    then show ?thesis using assms by (simp add: AddAfterI_def AddBeforeI_def rep_def list_at_def)
  next
    case 4
    then show ?thesis using middle_inserts(2) [OF assms] by simp
  qed
qed

section \<open>Removal\<close>

definition unlinked :: "'o cellmap \<Rightarrow> (addr \<times> 'o option) list \<Rightarrow> (addr \<times> 'o option) list \<Rightarrow> 'o cellmap" where
  "unlinked c ps qs = upd_prev (first_pos qs None) (last_pos None ps) (upd_next (last_pos None ps) (first_pos qs None) c)"

lemma ends_not_mid:
  assumes "apart (ps @ (a, x) # qs)"
  shows "last_pos None ps \<noteq> Some a" "first_pos qs None \<noteq> Some a"
    "last_pos None ps \<notin> Some ` addrs qs" "first_pos qs None \<notin> Some ` addrs ps"
proof -
  show "last_pos None ps \<noteq> Some a" using assms pos_Some(2) [of ps None] by (cases "ps = []") auto
  show "first_pos qs None \<noteq> Some a" using assms pos_Some(1) [of qs None] by (cases "qs = []") auto
  show "last_pos None ps \<notin> Some ` addrs qs" using assms pos_in_addrs(2) [of ps qs] by auto
  show "first_pos qs None \<notin> Some ` addrs ps" using assms pos_in_addrs(1) [of qs ps] by auto
qed

lemma dll_unlinked:
  assumes "dll c None (ps @ (a, x) # qs) None" and "apart (ps @ (a, x) # qs)"
  shows "dll (unlinked c ps qs) None (ps @ qs) None"
proof -
  let ?p = "last_pos None ps" and ?q = "first_pos qs None"
  note e = ends_not_mid [OF assms(2)]
  have "dll (upd_next ?p ?q c) None ps ?q" "dll (upd_next ?p ?q c) (Some a) qs None"
    using assms e by (auto intro: dll_upd_next_last)
  then have "dll (unlinked c ps qs) None ps ?q" "dll (unlinked c ps qs) ?p qs None"
    using assms e unfolding unlinked_def by (auto intro: dll_upd_prev_first)
  then show ?thesis by simp
qed

lemma RemoveI_eq:
  assumes "list_at (cells h) l (ps @ (a, x) # qs)"
  shows "RemoveI (Some a) h l = do {
      (h', k) \<leftarrow> AddToCache (Some a) (h\<lparr>cells := unlinked (cells h) ps qs\<rparr>) (m_Cache l);
      Some (x, h', l\<lparr>m_pFirst := first_pos (ps @ qs) None, m_pLast := last_pos None (ps @ qs),
        m_Cache := k, m_Count := m_Count l - 1\<rparr>) }"
proof -
  have ap: "apart (ps @ (a, x) # qs)" using assms by (simp add: list_at_def)
  note e = ends_not_mid [OF ap]
  have a: "cells h a = Some \<lparr>m_pPrev = last_pos None ps, m_pNext = first_pos qs None, m_pObject = x\<rparr>"
    and d: "dll (cells h) None ps (Some a)" "dll (cells h) (Some a) qs None"
    and ends: "m_pFirst l = first_pos ps (Some a)" "m_pLast l = last_pos (Some a) qs"
    using assms by (simp_all add: list_at_def)
  let ?h1 = "h\<lparr>cells := upd_next (last_pos None ps) (first_pos qs None) (cells h)\<rparr>"
  let ?h2 = "h\<lparr>cells := unlinked (cells h) ps qs\<rparr>"
  have a1: "cells ?h1 a = cells h a" and a2: "cells ?h2 a = cells h a"
    using e by (simp_all add: unlinked_def)
  have s1: "(if last_pos None ps = None then Some (h, l\<lparr>m_pFirst := first_pos qs None\<rparr>)
      else do { h \<leftarrow> SetNext (last_pos None ps) (first_pos qs None) h; Some (h, l) }) =
      Some (?h1, l\<lparr>m_pFirst := first_pos (ps @ qs) None\<rparr>)"
    using valid_pos [OF d(1)] ends by (cases ps; cases l) (auto simp: Set_eq)
  have s2: "(if first_pos qs None = None then Some (?h1, l'\<lparr>m_pLast := last_pos None ps\<rparr>)
      else do { h \<leftarrow> SetPrev (first_pos qs None) (last_pos None ps) ?h1; Some (h, l') }) =
      Some (?h2, l'\<lparr>m_pLast := last_pos None (ps @ qs)\<rparr>)" if "m_pLast l' = m_pLast l" for l'
    using valid_pos [OF d(2)] ends that
    by (cases qs; cases l') (auto simp: Set_eq unlinked_def last_pos_def)
  have "m_pLast (l\<lparr>m_pFirst := first_pos (ps @ qs) None\<rparr>) = m_pLast l" by simp
  note s2' = s2 [OF this]
  note get = Get_eq [OF a] Get_eq [OF trans [OF a1 a]] Get_eq [OF trans [OF a2 a]]
  show ?thesis
    unfolding RemoveI_def
    by (simp only: get CNode.simps option.distinct if_False bind.bind_lunit prod.case s1 s2') simp
qed

lemma sll_upd_node: "b \<notin> set bs \<Longrightarrow> sll c p bs \<Longrightarrow> sll (upd_node (Some b) f c) p bs"
  by (erule sll_cong) (auto simp: upd_node_def)

lemma sll_upd: "b \<notin> set bs \<Longrightarrow> sll c p bs \<Longrightarrow> sll (c(b := v)) p bs"
  by (erule sll_cong) auto

lemma cache_or_delete:
  assumes "heap_ok h" "cache_at (cells h) k bs" "a \<in> dom (cells h)" "a \<notin> set bs"
  shows "\<exists>h' k' bs'. AddToCache (Some a) h k = Some (h', k') \<and> cache_at (cells h') k' bs' \<and> heap_ok h' \<and>
    bs' = (if int (length bs) < m_iCacheSize k then a # bs else bs) \<and> universe h' = universe h \<and>
    dom (cells h') = (if int (length bs) < m_iCacheSize k then dom (cells h) else dom (cells h) - {a}) \<and>
    (\<forall>b. b \<noteq> a \<longrightarrow> cells h' b = cells h b)"
proof -
  obtain nd where nd: "cells h a = Some nd" using assms(3) by blast
  show ?thesis
  proof (cases "m_iUsed k < m_iCacheSize k")
    case True
    let ?h' = "h\<lparr>cells := upd_next (Some a) (m_pHead k) (cells h)\<rparr>"
      and ?k' = "k\<lparr>m_pHead := Some a, m_iUsed := m_iUsed k + 1\<rparr>"
    have "AddToCache (Some a) h k = Some (?h', ?k')"
      using True assms by (simp add: AddToCache_def Set_eq)
    moreover have "cache_at (cells ?h') ?k' (a # bs)"
      using True assms(2,4) nd by (auto simp: cache_at_def intro: sll_upd_node)
    ultimately show ?thesis using True assms by (auto simp: cache_at_def heap_ok_def universe_def)
  next
    case False
    let ?h' = "h\<lparr>cells := (cells h)(a := None), avail := (a, nd) # avail h\<rparr>"
    have "AddToCache (Some a) h k = Some (?h', k)"
      using False nd by (simp add: AddToCache_def delete_CNode_def)
    moreover have "cache_at (cells ?h') k bs" using assms(2,4) by (auto simp: cache_at_def intro: sll_upd)
    moreover have "heap_ok ?h'" using assms(1,3) by (auto simp: heap_ok_def)
    ultimately show ?thesis using False assms by (auto simp: cache_at_def universe_def)
  qed
qed

lemma RemoveI_spec:
  assumes r: "rep h l (ps @ (a, x) # qs) bs"
    and bs': "bs' = (if int (length bs) < m_iCacheSize (m_Cache l) then a # bs else bs)"
  shows "\<exists>h' l'. RemoveI (Some a) h l = Some (x, h', l') \<and> rep h' l' (ps @ qs) bs' \<and>
    frame h (foot (ps @ (a, x) # qs) bs) h' (foot (ps @ qs) bs')"
proof -
  let ?c = "unlinked (cells h) ps qs" and ?h1 = "h\<lparr>cells := unlinked (cells h) ps qs\<rparr>"
  have L: "list_at (cells h) l (ps @ (a, x) # qs)" and ap: "apart (ps @ (a, x) # qs)"
    and dl: "dll (cells h) None (ps @ (a, x) # qs) None" and dj: "addrs (ps @ (a, x) # qs) \<inter> set bs = {}"
    using r by (auto simp: rep_def list_at_def)
  have oth: "?c b = cells h b" if "b \<notin> addrs (ps @ qs)" for b
    using that pos_Some(1) [of qs None] pos_Some(2) [of ps None]
    by (cases "ps = []"; cases "qs = []") (auto simp: unlinked_def upd_node_def)
  have dom: "dom ?c = dom (cells h)" by (simp add: unlinked_def)
  have sub: "foot (ps @ (a, x) # qs) bs \<subseteq> dom (cells h)" by (rule rep_dom) fact
  have ok: "heap_ok h" "heap_ok ?h1" using r dom by (simp_all add: rep_def heap_ok_def)
  have ca: "cache_at (cells ?h1) (m_Cache l) bs"
    using r oth dj by (auto simp: rep_def cache_at_def intro: sll_cong)
  have ad: "a \<in> dom (cells ?h1)" "a \<notin> set bs" using dom sub dj by (auto simp: foot_def)
  obtain h' k where h': "AddToCache (Some a) ?h1 (m_Cache l) = Some (h', k)" "cache_at (cells h') k bs'"
      "heap_ok h'" "universe h' = universe ?h1"
      "dom (cells h') = (if int (length bs) < m_iCacheSize (m_Cache l) then dom ?c else dom ?c - {a})"
      "\<And>b. b \<noteq> a \<Longrightarrow> cells h' b = ?c b"
    using cache_or_delete [OF ok(2) ca ad] bs' by auto
  define l' where "l' = l\<lparr>m_pFirst := first_pos (ps @ qs) None, m_pLast := last_pos None (ps @ qs),
      m_Cache := k, m_Count := m_Count l - 1\<rparr>"
  have "RemoveI (Some a) h l = Some (x, h', l')" by (simp add: RemoveI_eq [OF L] h' l'_def)
  moreover have "dll (cells h') None (ps @ qs) None"
    by (rule dll_cong [OF dll_unlinked [OF dl ap]]) (use ap in \<open>auto intro!: h'(6)\<close>)
  then have "rep h' l' (ps @ qs) bs'"
    using h' L dj ap bs' by (auto simp: rep_def list_at_def l'_def)
  moreover have "frame h (foot (ps @ (a, x) # qs) bs) h' (foot (ps @ qs) bs')"
    unfolding frame_def
  proof (intro conjI ballI)
    show "heap_ok h'" by fact
    show "foot (ps @ qs) bs' \<subseteq> dom (cells h')" using \<open>rep h' l' (ps @ qs) bs'\<close> by (rule rep_dom)
    show "dom (cells h') - foot (ps @ qs) bs' = dom (cells h) - foot (ps @ (a, x) # qs) bs"
      unfolding h'(5) dom bs' by (auto simp: foot_def)
    show "cells h' b = cells h b" if "b \<in> dom (cells h) - foot (ps @ (a, x) # qs) bs" for b
      using that h'(6) oth by (auto simp: foot_def)
    show "universe h' = universe h" using h'(4) dom by (simp add: universe_def)
  qed
  ultimately show ?thesis by blast
qed

section \<open>Enumeration\<close>

text \<open>The positions and objects that repeated \<open>GetNext\<close> yields from a position on.\<close>

partial_function (option) enum_list :: "'o heap \<Rightarrow> POSITION \<Rightarrow> (addr \<times> 'o option) list option" where
  "enum_list h rp = (case rp of None \<Rightarrow> Some []
     | Some a \<Rightarrow> do { (x, rp') \<leftarrow> GetNextI h rp; rest \<leftarrow> enum_list h rp'; Some ((a, x) # rest) })"

lemma GetNextI_eq: "cells h a = Some nd \<Longrightarrow> GetNextI h (Some a) = Some (m_pObject nd, m_pNext nd)"
  by (simp add: GetNextI_def Get_eq)

lemma enum_list_dll: "dll (cells h) p ps None \<Longrightarrow> enum_list h (first_pos ps None) = Some ps"
proof (induction ps arbitrary: p)
  case Nil
  then show ?case by (subst enum_list.simps) simp
next
  case (Cons q ps)
  obtain a x where q: "q = (a, x)" by (cases q)
  show ?case using Cons unfolding q by (subst enum_list.simps) (auto simp: GetNextI_eq)
qed

lemma find_loop_dll:
  "dll (cells h) p ps None \<Longrightarrow> find_loop h l x (first_pos ps None) =
   Some (first_pos (dropWhile (\<lambda>q. snd q \<noteq> x) ps) None)"
proof (induction ps arbitrary: p)
  case Nil
  then show ?case by (subst find_loop.simps) simp
next
  case (Cons q ps)
  obtain a y where q: "q = (a, y)" by (cases q)
  show ?case using Cons unfolding q by (subst find_loop.simps) (auto simp: GetI_def Next_def Get_eq)
qed

lemma node_neighbours:
  assumes "list_at (cells h) l (ps @ qs)"
  shows "Next h l (last_pos None ps) = Some (first_pos qs None)"
    and "Prev h l (first_pos qs None) = Some (last_pos None ps)"
proof -
  show "Next h l (last_pos None ps) = Some (first_pos qs None)"
  proof (cases ps rule: rev_cases)
    case (snoc ps' y)
    then show ?thesis using assms by (cases y) (auto simp: Next_def list_at_def Get_eq)
  qed (use assms in \<open>simp add: Next_def list_at_def\<close>)
  show "Prev h l (first_pos qs None) = Some (last_pos None ps)"
  proof (cases qs)
    case (Cons y qs')
    then show ?thesis using assms by (cases y) (auto simp: Prev_def list_at_def Get_eq)
  qed (use assms in \<open>simp add: Prev_def list_at_def\<close>)
qed

section \<open>Copying another list in\<close>

text \<open>The room for further nodes: cached ones and memory for new ones.\<close>

abbreviation room :: "'o heap \<Rightarrow> addr list \<Rightarrow> nat" where
  "room h bs \<equiv> length (avail h) + length bs"

text \<open>The outcome of inserting the objects \<open>xs\<close>, in this order, between \<open>ps\<close> and \<open>qs\<close>: with enough
  room all of them; otherwise FALSE, and as many as there was room for (those at the front of
  \<open>xs\<close> or those at its end, as the operation goes).\<close>

definition inserts_all :: "bool \<Rightarrow> 'o heap \<Rightarrow> (addr \<times> 'o option) list \<Rightarrow> (addr \<times> 'o option) list \<Rightarrow> addr list \<Rightarrow>
    'o option list \<Rightarrow> (bool \<times> 'o heap \<times> CBaseList) option \<Rightarrow> bool" where
  "inserts_all front h ps qs bs xs r \<longleftrightarrow> (\<exists>h' l' ms bs'.
     r = Some (length xs \<le> room h bs, h', l') \<and> rep h' l' (ps @ ms @ qs) bs' \<and>
     map snd ms = (if front then take (room h bs) xs else drop (length xs - room h bs) xs) \<and>
     frame h (foot (ps @ qs) bs) h' (foot (ps @ ms @ qs) bs'))"

lemma inserts_all_Nil:
  assumes "rep h l (ps @ qs) bs"
  shows "inserts_all front h ps qs bs [] (Some (True, h, l))"
proof -
  have "frame h (foot (ps @ qs) bs) h (foot (ps @ qs) bs)"
    by (rule frame_refl) (use assms rep_dom [OF assms] in \<open>simp_all add: rep_def\<close>)
  then show ?thesis using assms unfolding inserts_all_def
    by (intro exI [of _ h] exI [of _ l] exI [of _ "[]"] exI [of _ bs]) simp
qed

lemma inserts_all_full:
  assumes "rep h l (ps @ qs) bs" and "bs = []" "avail h = []" "xs \<noteq> []"
  shows "inserts_all front h ps qs bs xs (Some (False, h, l))"
proof -
  have "frame h (foot (ps @ qs) bs) h (foot (ps @ qs) bs)"
    by (rule frame_refl) (use assms rep_dom [OF assms(1)] in \<open>simp_all add: rep_def\<close>)
  then show ?thesis using assms unfolding inserts_all_def
    by (intro exI [of _ h] exI [of _ l] exI [of _ "[]"] exI [of _ bs]) simp
qed

text \<open>Front to back, each new element goes to the right of those before it.\<close>

lemma inserts_all_Cons:
  assumes "frame h (foot (ps @ qs) bs) h1 (foot (ps @ (a, x) # qs) bs1)"
    and "room h1 bs1 + 1 = room h bs"
    and "inserts_all True h1 (ps @ [(a, x)]) qs bs1 xs r"
  shows "inserts_all True h ps qs bs (x # xs) r"
proof -
  obtain h' l' ms bs' where r: "r = Some (length xs \<le> room h1 bs1, h', l')"
    "rep h' l' ((ps @ [(a, x)]) @ ms @ qs) bs'" "map snd ms = take (room h1 bs1) xs"
    "frame h1 (foot ((ps @ [(a, x)]) @ qs) bs1) h' (foot ((ps @ [(a, x)]) @ ms @ qs) bs')"
    using assms(3) unfolding inserts_all_def by auto
  have n: "room h bs = Suc (room h1 bs1)" using assms(2) by simp
  show ?thesis unfolding inserts_all_def n
    using r frame_trans [OF assms(1), of h'] by (intro exI [of _ h'] exI [of _ l'] exI [of _ "(a, x) # ms"] exI [of _ bs']) simp
qed

text \<open>Back to front, each new element goes to the left of those before it.\<close>

lemma inserts_all_snoc:
  assumes "frame h (foot (ps @ qs) bs) h1 (foot (ps @ (a, x) # qs) bs1)"
    and "room h1 bs1 + 1 = room h bs"
    and "inserts_all False h1 ps ((a, x) # qs) bs1 xs r"
  shows "inserts_all False h ps qs bs (xs @ [x]) r"
proof -
  obtain h' l' ms bs' where r: "r = Some (length xs \<le> room h1 bs1, h', l')"
    "rep h' l' (ps @ ms @ (a, x) # qs) bs'" "map snd ms = drop (length xs - room h1 bs1) xs"
    "frame h1 (foot (ps @ (a, x) # qs) bs1) h' (foot (ps @ ms @ (a, x) # qs) bs')"
    using assms(3) unfolding inserts_all_def by auto
  have n: "room h bs = Suc (room h1 bs1)" using assms(2) by simp
  show ?thesis unfolding inserts_all_def n
    using r frame_trans [OF assms(1), of h']
    by (intro exI [of _ h'] exI [of _ l'] exI [of _ "ms @ [(a, x)]"] exI [of _ bs']) simp
qed

definition source_kept :: "CBaseList \<Rightarrow> (addr \<times> 'o option) list \<Rightarrow> addr list \<Rightarrow> (bool \<times> 'o heap \<times> CBaseList) option \<Rightarrow> bool" where
  "source_kept pl zs ds r \<longleftrightarrow> (case r of None \<Rightarrow> False | Some (_, h', _) \<Rightarrow> rep h' pl zs ds)"

lemma source_kept:
  assumes "inserts_all front h ps qs bs xs r" and "rep h pl zs ds" and "foot (ps @ qs) bs \<inter> foot zs ds = {}"
  shows "source_kept pl zs ds r"
proof -
  have "foot zs ds \<inter> foot (ps @ qs) bs = {}" using assms(3) by blast
  then show ?thesis using assms(1) rep_frame(1) [OF assms(2)] by (auto simp: inserts_all_def source_kept_def)
qed

lemma insert_step [consumes 3, case_names full added]:
  assumes "inserts h l ps qs bs x r" and "rep h pl zs ds" and "foot (ps @ qs) bs \<inter> foot zs ds = {}"
  obtains (full) "r = Some (None, h, l)" "bs = []" "avail h = []"
    | (added) b h1 l1 bs1 where "r = Some (Some b, h1, l1)" "rep h1 l1 (ps @ (b, x) # qs) bs1"
        "frame h (foot (ps @ qs) bs) h1 (foot (ps @ (b, x) # qs) bs1)" "room h1 bs1 + 1 = room h bs"
        "rep h1 pl zs ds" "foot (ps @ (b, x) # qs) bs1 \<inter> foot zs ds = {}"
proof (cases "bs = [] \<and> avail h = []")
  case True
  then show ?thesis using assms(1) full by (simp add: inserts_def)
next
  case False
  then obtain b h1 l1 bs1 where r: "r = Some (Some b, h1, l1)" "rep h1 l1 (ps @ (b, x) # qs) bs1"
      "frame h (foot (ps @ qs) bs) h1 (foot (ps @ (b, x) # qs) bs1)" "room h1 bs1 + 1 = room h bs"
    using assms(1) by (auto simp: inserts_def)
  have "foot zs ds \<inter> foot (ps @ qs) bs = {}" using assms(3) by blast
  note k = rep_frame [OF assms(2) r(3) this]
  have "foot (ps @ (b, x) # qs) bs1 \<inter> foot zs ds = {}" using k(2) by blast
  then show ?thesis using added [OF r k(1)] by blast
qed

lemma source_node:
  "rep h pl (dn @ (a, x) # td) ds \<Longrightarrow>
   cells h a = Some \<lparr>m_pPrev = last_pos None dn, m_pNext = first_pos td None, m_pObject = x\<rparr>"
  by (simp add: rep_def list_at_def)

lemma source_next: "rep h pl (dn @ (a, x) # td) ds \<Longrightarrow> Next h pl (Some a) = Some (first_pos td None)"
  using source_node [of h pl dn a x td ds] by (simp add: Next_def Get_eq)

lemma source_prev: "rep h pl (dn @ (a, x) # td) ds \<Longrightarrow> Prev h pl (Some a) = Some (last_pos None dn)"
  using source_node [of h pl dn a x td ds] by (simp add: Prev_def Get_eq)

lemma source_data: "rep h pl (dn @ (a, x) # td) ds \<Longrightarrow> GetValidI h (Some a) = Some x"
  using source_node [of h pl dn a x td ds] by (simp add: GetValidI_def Get_eq)

lemma add_tail_loop_spec:
  "rep h l ps bs \<Longrightarrow> rep h pl (dn @ td) ds \<Longrightarrow> foot ps bs \<inter> foot (dn @ td) ds = {} \<Longrightarrow>
   inserts_all True h ps [] bs (map snd td) (add_tail_loop (first_pos td None) h l)"
proof (induction td arbitrary: dn h l ps bs)
  case Nil
  then show ?case by (subst add_tail_loop.simps) (simp add: inserts_all_Nil)
next
  case (Cons z td)
  obtain a x where z: "z = (a, x)" by (cases z)
  have src: "rep h pl (dn @ (a, x) # td) ds" using Cons.prems z by simp
  have g: "GetNextI h (Some a) = Some (x, first_pos td None)" using source_node [OF src] by (simp add: GetNextI_eq)
  have ins: "inserts h l ps [] bs x (AddTailI x h l)" by (rule AddTailI_inserts) fact
  have d: "foot (ps @ []) bs \<inter> foot (dn @ (a, x) # td) ds = {}" using Cons.prems z by simp
  from ins src d show ?case
  proof (cases rule: insert_step)
    case full
    then show ?thesis using Cons.prems(1) g z inserts_all_full [of h l ps "[]"]
      by (subst add_tail_loop.simps) simp
  next
    case (added b h1 l1 bs1)
    then have "inserts_all True h1 (ps @ [(b, x)]) [] bs1 (map snd td) (add_tail_loop (first_pos td None) h1 l1)"
      using Cons.IH [of h1 l1 "ps @ [(b, x)]" bs1 "dn @ [(a, x)]"] by simp
    from inserts_all_Cons [OF added(3,4) this] show ?thesis
      using added(1) g z by (subst add_tail_loop.simps) simp
  qed
qed

lemma add_head_loop_spec:
  "rep h l qs bs \<Longrightarrow> rep h pl (td @ dn) ds \<Longrightarrow> foot qs bs \<inter> foot (td @ dn) ds = {} \<Longrightarrow>
   inserts_all False h [] qs bs (map snd td) (add_head_loop pl (last_pos None td) h l)"
proof (induction td arbitrary: dn h l qs bs rule: rev_induct)
  case Nil
  then show ?case by (subst add_head_loop.simps) (simp add: inserts_all_Nil)
next
  case (snoc z td)
  obtain a x where z: "z = (a, x)" by (cases z)
  have src: "rep h pl (td @ (a, x) # dn) ds" using snoc.prems z by simp
  have ins: "inserts h l [] qs bs x (AddHeadI x h l)" by (rule AddHeadI_inserts) fact
  have d: "foot ([] @ qs) bs \<inter> foot (td @ (a, x) # dn) ds = {}" using snoc.prems z by simp
  from ins src d show ?case
  proof (cases rule: insert_step)
    case full
    then show ?thesis using snoc.prems(1) z source_data [OF src] inserts_all_full [of h l "[]" qs]
      by (subst add_head_loop.simps) simp
  next
    case (added b h1 l1 bs1)
    then have "inserts_all False h1 [] ((b, x) # qs) bs1 (map snd td) (add_head_loop pl (last_pos None td) h1 l1)"
      using snoc.IH [of h1 l1 "(b, x) # qs" bs1 "(a, x) # dn"] by simp
    from inserts_all_snoc [OF added(3,4) this] show ?thesis
      using added(1) z source_data [OF src] source_prev [OF added(5)] by (subst add_head_loop.simps) simp
  qed
qed

lemma add_after_loop_spec:
  "rep h l (ps @ qs) bs \<Longrightarrow> rep h pl (dn @ td) ds \<Longrightarrow> foot (ps @ qs) bs \<inter> foot (dn @ td) ds = {} \<Longrightarrow>
   inserts_all True h ps qs bs (map snd td) (add_after_loop pl (last_pos None ps) (first_pos td None) h l)"
proof (induction td arbitrary: dn h l ps bs)
  case Nil
  then show ?case by (subst add_after_loop.simps) (simp add: inserts_all_Nil)
next
  case (Cons z td)
  obtain a x where z: "z = (a, x)" by (cases z)
  have src: "rep h pl (dn @ (a, x) # td) ds" using Cons.prems z by simp
  have ins: "inserts h l ps qs bs x (AddAfterI (last_pos None ps) x h l)" by (rule AddAfterI_inserts) fact
  have d: "foot (ps @ qs) bs \<inter> foot (dn @ (a, x) # td) ds = {}" using Cons.prems z by simp
  from ins src d show ?case
  proof (cases rule: insert_step)
    case full
    then show ?thesis using Cons.prems(1) z source_data [OF src] inserts_all_full [of h l ps qs]
      by (subst add_after_loop.simps) simp
  next
    case (added b h1 l1 bs1)
    then have "inserts_all True h1 (ps @ [(b, x)]) qs bs1 (map snd td)
        (add_after_loop pl (last_pos None (ps @ [(b, x)])) (first_pos td None) h1 l1)"
      by (intro Cons.IH [of h1 l1 "ps @ [(b, x)]" bs1 "dn @ [(a, x)]"]) simp_all
    from inserts_all_Cons [OF added(3,4) this] show ?thesis
      using added(1) z source_data [OF src] source_next [OF added(5)] by (subst add_after_loop.simps) simp
  qed
qed

lemma add_before_loop_spec:
  "rep h l (ps @ qs) bs \<Longrightarrow> rep h pl (td @ dn) ds \<Longrightarrow> foot (ps @ qs) bs \<inter> foot (td @ dn) ds = {} \<Longrightarrow>
   inserts_all False h ps qs bs (map snd td) (add_before_loop pl (first_pos qs None) (last_pos None td) h l)"
proof (induction td arbitrary: dn h l qs bs rule: rev_induct)
  case Nil
  then show ?case by (subst add_before_loop.simps) (simp add: inserts_all_Nil)
next
  case (snoc z td)
  obtain a x where z: "z = (a, x)" by (cases z)
  have src: "rep h pl (td @ (a, x) # dn) ds" using snoc.prems z by simp
  have ins: "inserts h l ps qs bs x (AddBeforeI (first_pos qs None) x h l)"
    unfolding AddBeforeI_AddAfterI [OF snoc.prems(1)] by (rule AddAfterI_inserts) fact
  have d: "foot (ps @ qs) bs \<inter> foot (td @ (a, x) # dn) ds = {}" using snoc.prems z by simp
  from ins src d show ?case
  proof (cases rule: insert_step)
    case full
    then show ?thesis using snoc.prems(1) z source_data [OF src] inserts_all_full [of h l ps qs]
      by (subst add_before_loop.simps) simp
  next
    case (added b h1 l1 bs1)
    then have "inserts_all False h1 ps ((b, x) # qs) bs1 (map snd td)
        (add_before_loop pl (first_pos ((b, x) # qs) None) (last_pos None td) h1 l1)"
      by (intro snoc.IH [of h1 l1 "(b, x) # qs" bs1 "(a, x) # dn"]) simp_all
    from inserts_all_snoc [OF added(3,4) this] show ?thesis
      using added(1) z source_data [OF src] source_prev [OF added(5)] by (subst add_before_loop.simps) simp
  qed
qed

section \<open>Moving a segment to another list\<close>

lemma count_back_dll:
  "dll (cells h) None ps n \<Longrightarrow> count_back h (last_pos None ps) k = Some (k + of_nat (length ps))"
proof (induction ps arbitrary: k n rule: rev_induct)
  case Nil
  then show ?case by (subst count_back.simps) simp
next
  case (snoc z ps)
  obtain a x where z: "z = (a, x)" by (cases z)
  have "cells h a = Some \<lparr>m_pPrev = last_pos None ps, m_pNext = n, m_pObject = x\<rparr>" "dll (cells h) None ps (Some a)"
    using snoc.prems z by simp_all
  then show ?case using snoc.IH z by (subst count_back.simps) (simp add: Get_eq)
qed

lemma count_on_dll:
  "dll (cells h) p ps None \<Longrightarrow> count_on h (first_pos ps None) k = Some (k + of_nat (length ps))"
proof (induction ps arbitrary: k p)
  case Nil
  then show ?case by (subst count_on.simps) simp
next
  case (Cons z ps)
  obtain a x where z: "z = (a, x)" by (cases z)
  have "cells h a = Some \<lparr>m_pPrev = p, m_pNext = first_pos ps None, m_pObject = x\<rparr>" "dll (cells h) (Some a) ps None"
    using Cons.prems z by simp_all
  then show ?case using Cons.IH z by (subst count_on.simps) (simp add: Get_eq)
qed

lemma guarded_set:
  "p = None \<or> valid (cells h) p \<Longrightarrow>
   (if p \<noteq> None then SetNext p q h else Some h) = Some (h\<lparr>cells := upd_next p q (cells h)\<rparr>)"
  "p = None \<or> valid (cells h) p \<Longrightarrow>
   (if p \<noteq> None then SetPrev p q h else Some h) = Some (h\<lparr>cells := upd_prev p q (cells h)\<rparr>)"
  by (auto simp: Set_eq)

lemma pos_valid: "dll c p ps n \<Longrightarrow> first_pos ps None = None \<or> valid c (first_pos ps None)"
  "dll c p ps n \<Longrightarrow> last_pos None ps = None \<or> valid c (last_pos None ps)"
  using valid_pos [of c p ps n] by (cases "ps = []"; simp)+

text \<open>The four stores of a move, on segments: the chain \<open>ms\<close> is cut off \<open>qs\<close> and hung behind
  \<open>zs\<close> (in the mirror image cut off \<open>ps\<close> and hung before \<open>zs\<close>).\<close>

definition moved_tail :: "'o cellmap \<Rightarrow> (addr \<times> 'o option) list \<Rightarrow> (addr \<times> 'o option) list \<Rightarrow> (addr \<times> 'o option) list \<Rightarrow> 'o cellmap" where
  "moved_tail c zs ms qs = upd_next (last_pos None ms) None (upd_prev (first_pos qs None) None
     (upd_prev (first_pos ms None) (last_pos None zs) (upd_next (last_pos None zs) (first_pos ms None) c)))"

definition moved_head :: "'o cellmap \<Rightarrow> (addr \<times> 'o option) list \<Rightarrow> (addr \<times> 'o option) list \<Rightarrow> (addr \<times> 'o option) list \<Rightarrow> 'o cellmap" where
  "moved_head c ps ms zs = upd_prev (first_pos ms None) None (upd_next (last_pos None ps) None
     (upd_next (last_pos None ms) (first_pos zs None) (upd_prev (first_pos zs None) (last_pos None ms) c)))"

lemma pos_apart:
  "addrs ps \<inter> addrs qs = {} \<Longrightarrow> first_pos ps None \<notin> Some ` addrs qs"
  "addrs ps \<inter> addrs qs = {} \<Longrightarrow> last_pos None ps \<notin> Some ` addrs qs"
  using pos_in_addrs [of ps qs] by blast+

lemma dll_moved_tail:
  assumes "dll c None zs None" "dll c None ms (first_pos qs None)" "dll c (last_pos None ms) qs None"
    and "apart zs" "apart ms" "apart qs"
    and "addrs zs \<inter> addrs ms = {}" "addrs zs \<inter> addrs qs = {}" "addrs ms \<inter> addrs qs = {}" and "ms \<noteq> []"
  shows "dll (moved_tail c zs ms qs) None (zs @ ms) None" "dll (moved_tail c zs ms qs) None qs None"
proof -
  let ?c1 = "upd_next (last_pos None zs) (first_pos ms None) c"
  let ?c2 = "upd_prev (first_pos ms None) (last_pos None zs) ?c1"
  let ?c3 = "upd_prev (first_pos qs None) None ?c2"
  have na: "first_pos ms None \<notin> Some ` addrs zs" "first_pos ms None \<notin> Some ` addrs qs"
    "last_pos None zs \<notin> Some ` addrs ms" "last_pos None zs \<notin> Some ` addrs qs"
    "first_pos qs None \<notin> Some ` addrs zs" "first_pos qs None \<notin> Some ` addrs ms"
    "last_pos None ms \<notin> Some ` addrs zs" "last_pos None ms \<notin> Some ` addrs qs"
    by (rule pos_apart; use assms in blast)+
  have "dll ?c1 None zs (first_pos ms None)" "dll ?c1 None ms (first_pos qs None)" "dll ?c1 (last_pos None ms) qs None"
    using assms na by (simp_all add: dll_upd_next_last)
  then have "dll ?c2 None zs (first_pos ms None)" "dll ?c2 (last_pos None zs) ms (first_pos qs None)"
    "dll ?c2 (last_pos None ms) qs None"
    using assms na by (auto intro: dll_upd_prev_first)
  then have "dll ?c3 None zs (first_pos ms None)" "dll ?c3 (last_pos None zs) ms (first_pos qs None)" "dll ?c3 None qs None"
    using assms na by (auto intro: dll_upd_prev_first)
  then have "dll (moved_tail c zs ms qs) None zs (first_pos ms None)" "dll (moved_tail c zs ms qs) (last_pos None zs) ms None"
    "dll (moved_tail c zs ms qs) None qs None"
    unfolding moved_tail_def using assms na by (auto intro: dll_upd_next_last)
  then show "dll (moved_tail c zs ms qs) None (zs @ ms) None" "dll (moved_tail c zs ms qs) None qs None"
    by simp_all
qed

lemma dll_moved_head:
  assumes "dll c None zs None" "dll c None ps (first_pos ms None)" "dll c (last_pos None ps) ms None"
    and "apart zs" "apart ms" "apart ps"
    and "addrs zs \<inter> addrs ms = {}" "addrs zs \<inter> addrs ps = {}" "addrs ms \<inter> addrs ps = {}" and "ms \<noteq> []"
  shows "dll (moved_head c ps ms zs) None (ms @ zs) None" "dll (moved_head c ps ms zs) None ps None"
proof -
  let ?c1 = "upd_prev (first_pos zs None) (last_pos None ms) c"
  let ?c2 = "upd_next (last_pos None ms) (first_pos zs None) ?c1"
  let ?c3 = "upd_next (last_pos None ps) None ?c2"
  have na: "first_pos ms None \<notin> Some ` addrs zs" "first_pos ms None \<notin> Some ` addrs ps"
    "first_pos zs None \<notin> Some ` addrs ms" "first_pos zs None \<notin> Some ` addrs ps"
    "last_pos None ps \<notin> Some ` addrs zs" "last_pos None ps \<notin> Some ` addrs ms"
    "last_pos None ms \<notin> Some ` addrs zs" "last_pos None ms \<notin> Some ` addrs ps"
    by (rule pos_apart; use assms in blast)+
  have "dll ?c1 (last_pos None ms) zs None" "dll ?c1 (last_pos None ps) ms None" "dll ?c1 None ps (first_pos ms None)"
    using assms na by (auto intro: dll_upd_prev_first)
  then have "dll ?c2 (last_pos None ms) zs None" "dll ?c2 (last_pos None ps) ms (first_pos zs None)"
    "dll ?c2 None ps (first_pos ms None)"
    using assms na by (auto intro: dll_upd_next_last)
  then have "dll ?c3 (last_pos None ms) zs None" "dll ?c3 (last_pos None ps) ms (first_pos zs None)" "dll ?c3 None ps None"
    using assms na by (auto intro: dll_upd_next_last)
  then have "dll (moved_head c ps ms zs) (last_pos None ms) zs None" "dll (moved_head c ps ms zs) None ms (first_pos zs None)"
    "dll (moved_head c ps ms zs) None ps None"
    unfolding moved_head_def using assms na by (auto intro: dll_upd_prev_first)
  then show "dll (moved_head c ps ms zs) None (ms @ zs) None" "dll (moved_head c ps ms zs) None ps None"
    by simp_all
qed

lemma upd_pos_other:
  "b \<notin> addrs ps \<Longrightarrow> upd_node (first_pos ps None) f c b = c b"
  "b \<notin> addrs ps \<Longrightarrow> upd_node (last_pos None ps) f c b = c b"
proof -
  assume b: "b \<notin> addrs ps"
  have "first_pos ps None \<noteq> Some b" using b pos_Some(1) [of ps None] by (cases "ps = []") auto
  then show "upd_node (first_pos ps None) f c b = c b" by simp
next
  assume b: "b \<notin> addrs ps"
  have "last_pos None ps \<noteq> Some b" using b pos_Some(2) [of ps None] by (cases "ps = []") auto
  then show "upd_node (last_pos None ps) f c b = c b" by simp
qed

lemma moved_other:
  "b \<notin> addrs zs \<union> addrs ms \<union> addrs qs \<Longrightarrow> moved_tail c zs ms qs b = c b"
  "b \<notin> addrs zs \<union> addrs ms \<union> addrs ps \<Longrightarrow> moved_head c ps ms zs b = c b"
  by (simp_all add: moved_tail_def moved_head_def upd_pos_other)

lemma dom_moved [simp]: "dom (moved_tail c zs ms qs) = dom c" "dom (moved_head c ps ms zs) = dom c"
  by (simp_all add: moved_tail_def moved_head_def)

lemma MoveToTail_eq:
  assumes l: "list_at (cells h) l (ms @ qs)" and pl: "list_at (cells h) pl zs" and ms: "ms = ps @ [(a, x)]"
    and dj: "addrs (ms @ qs) \<inter> addrs zs = {}"
  shows "MoveToTail (Some a) h l pl = Some (h\<lparr>cells := moved_tail (cells h) zs ms qs\<rparr>,
    l\<lparr>m_pFirst := first_pos qs None, m_pLast := last_pos None qs, m_Count := m_Count l - of_nat (length ms)\<rparr>,
    pl\<lparr>m_pFirst := first_pos (zs @ ms) None, m_pLast := Some a, m_Count := m_Count pl + of_nat (length ms)\<rparr>)"
proof -
  have a: "last_pos None ms = Some a" and ne: "ms \<noteq> []" by (simp_all add: ms)
  have d: "dll (cells h) None ms (first_pos qs None)" "dll (cells h) (Some a) qs None" "dll (cells h) None zs None"
    and e: "m_pFirst l = first_pos ms None" "m_pLast l = last_pos (Some a) qs" "m_pFirst pl = first_pos zs None" "m_pLast pl = last_pos None zs"
    using l pl a by (simp_all add: list_at_def ms)
  have ap: "apart ms" "addrs ms \<inter> addrs qs = {}" "addrs ms \<inter> addrs zs = {}" using l dj by (auto simp: list_at_def)
  let ?h1 = "h\<lparr>cells := upd_next (last_pos None zs) (first_pos ms None) (cells h)\<rparr>"
  let ?h2 = "h\<lparr>cells := upd_prev (first_pos ms None) (last_pos None zs) (cells ?h1)\<rparr>"
  let ?h3 = "h\<lparr>cells := upd_prev (first_pos qs None) None (cells ?h2)\<rparr>"
  have cnt: "count_back h (Some a) 0 = Some (of_nat (length ms))"
    using count_back_dll [OF d(1), of 0] a by simp
  have s1: "(if last_pos None zs \<noteq> None then SetNext (last_pos None zs) (first_pos ms None) h else Some h) = Some ?h1"
    by (rule guarded_set) (rule pos_valid [OF d(3)])
  have s2: "(if first_pos ms None \<noteq> None then SetPrev (first_pos ms None) (last_pos None zs) ?h1 else Some ?h1) = Some ?h2"
    using guarded_set(2) [of "first_pos ms None" ?h1] pos_valid(1) [OF d(1)] by simp
  have "dll (cells ?h2) (last_pos None zs) ms (first_pos qs None)"
  proof -
    have "last_pos None zs \<notin> Some ` addrs ms" by (rule pos_apart) (use ap in blast)
    then have "dll (cells ?h1) None ms (first_pos qs None)" using d(1) by simp
    then show ?thesis using ap by (simp add: dll_upd_prev_first)
  qed
  then have n: "node_Next ?h2 (Some a) = Some (first_pos qs None)"
    unfolding ms dll_append by (auto simp: node_Next_def node_at_def)
  have s3: "(if first_pos qs None \<noteq> None then SetPrev (first_pos qs None) None ?h2 else Some ?h2) = Some ?h3"
    using guarded_set(2) [of "first_pos qs None" ?h2] pos_valid(1) [OF d(2)] by simp
  have "valid (cells h) (Some a)" using valid_pos(2) [OF d(1) ne, of None] a by simp
  then have s4: "SetNext (Some a) None ?h3 = Some (h\<lparr>cells := moved_tail (cells h) zs ms qs\<rparr>)"
    using Set_eq(2) [of ?h3 "Some a" None] a by (simp add: moved_tail_def)
  have q: "qs \<noteq> [] \<Longrightarrow> m_pLast l = last_pos None qs" using e(2) by (simp add: last_pos_def)
  have z: "zs \<noteq> [] \<Longrightarrow> first_pos (zs @ ms) None = first_pos zs None" by (simp add: first_pos_def split: list.splits)
  show ?thesis
    unfolding MoveToTail_def Let_def e(1,3,4) cnt
    by (simp only: option.distinct if_False bind.bind_lunit s1 s2 n CBaseList.simps e)
      (use s3 s4 q z e ne in \<open>cases l; cases pl; cases "qs = []"; cases "zs = []"; simp\<close>)
qed

lemma MoveToHead_eq:
  assumes l: "list_at (cells h) l (ps @ ms)" and pl: "list_at (cells h) pl zs" and ms: "ms = (a, x) # qs"
    and dj: "addrs (ps @ ms) \<inter> addrs zs = {}"
  shows "MoveToHead (Some a) h l pl = Some (h\<lparr>cells := moved_head (cells h) ps ms zs\<rparr>,
    l\<lparr>m_pFirst := first_pos ps None, m_pLast := last_pos None ps, m_Count := m_Count l - of_nat (length ms)\<rparr>,
    pl\<lparr>m_pFirst := Some a, m_pLast := last_pos None (ms @ zs), m_Count := m_Count pl + of_nat (length ms)\<rparr>)"
proof -
  have a: "first_pos ms None = Some a" and ne: "ms \<noteq> []" by (simp_all add: ms)
  have d: "dll (cells h) None ps (Some a)" "dll (cells h) (last_pos None ps) ms None" "dll (cells h) None zs None"
    and e: "m_pFirst l = first_pos ps (Some a)" "m_pLast l = last_pos None ms" "m_pFirst pl = first_pos zs None" "m_pLast pl = last_pos None zs"
    using l pl a by (simp_all add: list_at_def ms)
  have ap: "apart ms" "addrs ms \<inter> addrs ps = {}" "addrs ms \<inter> addrs zs = {}" using l dj by (auto simp: list_at_def)
  let ?h1 = "h\<lparr>cells := upd_prev (first_pos zs None) (last_pos None ms) (cells h)\<rparr>"
  let ?h2 = "h\<lparr>cells := upd_next (last_pos None ms) (first_pos zs None) (cells ?h1)\<rparr>"
  let ?h3 = "h\<lparr>cells := upd_next (last_pos None ps) None (cells ?h2)\<rparr>"
  have cnt: "count_on h (Some a) 0 = Some (of_nat (length ms))"
    using count_on_dll [OF d(2), of 0] a by simp
  have s1: "(if first_pos zs None \<noteq> None then SetPrev (first_pos zs None) (last_pos None ms) h else Some h) = Some ?h1"
    by (rule guarded_set) (rule pos_valid [OF d(3)])
  have s2: "(if last_pos None ms \<noteq> None then SetNext (last_pos None ms) (first_pos zs None) ?h1 else Some ?h1) = Some ?h2"
    using guarded_set(1) [of "last_pos None ms" ?h1] pos_valid(2) [OF d(2)] by simp
  have "dll (cells ?h2) (last_pos None ps) ms (first_pos zs None)"
  proof -
    have "first_pos zs None \<notin> Some ` addrs ms" by (rule pos_apart) (use ap in blast)
    then have "dll (cells ?h1) (last_pos None ps) ms None" using d(2) by simp
    then show ?thesis using ap by (simp add: dll_upd_next_last)
  qed
  then have n: "node_Prev ?h2 (Some a) = Some (last_pos None ps)"
    unfolding ms by (auto simp: node_Prev_def node_at_def)
  have s3: "(if last_pos None ps \<noteq> None then SetNext (last_pos None ps) None ?h2 else Some ?h2) = Some ?h3"
    using guarded_set(1) [of "last_pos None ps" ?h2] pos_valid(2) [OF d(1)] by simp
  have "valid (cells h) (Some a)" using valid_pos(1) [OF d(2) ne, of None] a by simp
  then have s4: "SetPrev (Some a) None ?h3 = Some (h\<lparr>cells := moved_head (cells h) ps ms zs\<rparr>)"
    using Set_eq(1) [of ?h3 "Some a" None] a by (simp add: moved_head_def)
  have q: "ps \<noteq> [] \<Longrightarrow> m_pFirst l = first_pos ps None" using e(1) by (simp add: first_pos_def split: list.splits)
  have z: "zs \<noteq> [] \<Longrightarrow> last_pos None (ms @ zs) = last_pos None zs" by (simp add: last_pos_def)
  show ?thesis
    unfolding MoveToHead_def Let_def e(2,3,4) cnt
    by (simp only: option.distinct if_False bind.bind_lunit s1 s2 n CBaseList.simps e)
      (use s3 s4 q z e ne in \<open>cases l; cases pl; cases "ps = []"; cases "zs = []"; simp\<close>)
qed

text \<open>Both lists after a move.\<close>

lemma moved_rep:
  assumes "rep h l ps bs" "rep h pl zs ds" "foot ps bs \<inter> foot zs ds = {}"
    and "dom c = dom (cells h)" "\<And>b. b \<notin> addrs ps \<union> addrs zs \<Longrightarrow> c b = cells h b"
    and "dll c None ps' None" "dll c None zs' None" "apart ps'" "apart zs'"
    and "addrs ps' \<union> addrs zs' = addrs ps \<union> addrs zs" "addrs ps' \<inter> addrs zs' = {}"
    and "m_pFirst l' = first_pos ps' None" "m_pLast l' = last_pos None ps'" "m_Count l' = of_nat (length ps')" "m_Cache l' = m_Cache l"
    and "m_pFirst pl' = first_pos zs' None" "m_pLast pl' = last_pos None zs'" "m_Count pl' = of_nat (length zs')" "m_Cache pl' = m_Cache pl"
  shows "rep (h\<lparr>cells := c\<rparr>) l' ps' bs" "rep (h\<lparr>cells := c\<rparr>) pl' zs' ds" "foot ps' bs \<inter> foot zs' ds = {}"
    "frame h (foot ps bs \<union> foot zs ds) (h\<lparr>cells := c\<rparr>) (foot ps' bs \<union> foot zs' ds)"
proof -
  have dj: "set bs \<inter> (addrs ps \<union> addrs zs) = {}" "set ds \<inter> (addrs ps \<union> addrs zs) = {}" "set bs \<inter> set ds = {}"
    using assms(1-3) by (auto simp: rep_def foot_def)
  have ca: "cache_at c (m_Cache l) bs" "cache_at c (m_Cache pl) ds"
    using assms(1,2,5) dj by (auto simp: rep_def cache_at_def intro: sll_cong)
  have hp: "heap_ok (h\<lparr>cells := c\<rparr>)" "heap_ok h" using assms(1,4) by (simp_all add: rep_def heap_ok_def)
  show "rep (h\<lparr>cells := c\<rparr>) l' ps' bs" "rep (h\<lparr>cells := c\<rparr>) pl' zs' ds"
    using assms ca hp dj by (auto simp: rep_def list_at_def)
  show "foot ps' bs \<inter> foot zs' ds = {}" using assms(10,11) dj by (auto simp: foot_def)
  have "foot ps' bs \<union> foot zs' ds = foot ps bs \<union> foot zs ds" using assms(10) by (auto simp: foot_def)
  moreover have "frame h (foot ps bs \<union> foot zs ds) (h\<lparr>cells := c\<rparr>) (foot ps bs \<union> foot zs ds)"
    by (rule frame_write) (use assms(4,5) hp rep_dom [OF assms(1)] rep_dom [OF assms(2)] in \<open>auto simp: foot_def\<close>)
  ultimately show "frame h (foot ps bs \<union> foot zs ds) (h\<lparr>cells := c\<rparr>) (foot ps' bs \<union> foot zs' ds)" by simp
qed

section \<open>Reversal and destruction\<close>

lemma last_pos_rev [simp]: "last_pos None (rev ps) = first_pos ps None" "first_pos (rev ps) None = last_pos None ps"
  by (cases ps; simp add: last_pos_def first_pos_def hd_rev last_rev split: list.splits)
    (cases ps rule: rev_cases; simp add: last_pos_def first_pos_def)

lemma reverse_loop_dll:
  "dll (cells h) p ps None \<Longrightarrow> apart ps \<Longrightarrow>
   \<exists>c'. reverse_loop (first_pos ps None) h = Some (h\<lparr>cells := c'\<rparr>) \<and> dll c' None (rev ps) p \<and>
     dom c' = dom (cells h) \<and> (\<forall>b. b \<notin> addrs ps \<longrightarrow> c' b = cells h b)"
proof (induction ps arbitrary: p h)
  case Nil
  then show ?case by (subst reverse_loop.simps) (auto intro: exI [of _ "cells h"])
next
  case (Cons z ps)
  obtain a x where z: "z = (a, x)" by (cases z)
  have a: "cells h a = Some \<lparr>m_pPrev = p, m_pNext = first_pos ps None, m_pObject = x\<rparr>"
    and d: "dll (cells h) (Some a) ps None" and ap: "a \<notin> addrs ps" "apart ps"
    using Cons.prems z by simp_all
  define h1 where "h1 = h\<lparr>cells := (cells h)(a \<mapsto> \<lparr>m_pPrev = first_pos ps None, m_pNext = p, m_pObject = x\<rparr>)\<rparr>"
  have "valid (cells h) (Some a)" using a by auto
  then have step: "reverse_loop (Some a) h = reverse_loop (first_pos ps None) h1"
    using a by (subst reverse_loop.simps) (simp add: Get_eq Set_eq h1_def upd_node_def)
  have "dll (cells h1) (Some a) ps None" using d ap by (simp add: h1_def)
  from Cons.IH [OF this ap(2)] obtain c' where c': "reverse_loop (first_pos ps None) h1 = Some (h1\<lparr>cells := c'\<rparr>)"
    "dll c' None (rev ps) (Some a)" "dom c' = dom (cells h1)" "\<And>b. b \<notin> addrs ps \<Longrightarrow> c' b = cells h1 b" by blast
  have "h1\<lparr>cells := c'\<rparr> = h\<lparr>cells := c'\<rparr>" by (simp add: h1_def)
  moreover have "c' a = Some \<lparr>m_pPrev = first_pos ps None, m_pNext = p, m_pObject = x\<rparr>"
    using c'(4) ap by (simp add: h1_def)
  moreover have "dom c' = dom (cells h)" using c'(3) a by (auto simp: h1_def)
  ultimately show ?case using step c' z by (intro exI [of _ c']) (auto simp: h1_def)
qed

lemma dll_sll: "dll c p ps None \<Longrightarrow> sll c (first_pos ps None) (map fst ps)"
  by (induction ps arbitrary: p) (auto simp: first_pos_def split: list.splits)

lemma delete_chain_sll:
  "sll (cells h) p bs \<Longrightarrow> distinct bs \<Longrightarrow> heap_ok h \<Longrightarrow>
   \<exists>h'. delete_chain p h = Some h' \<and> heap_ok h' \<and> universe h' = universe h \<and> cells h' = (cells h) |` (- set bs)"
proof (induction bs arbitrary: p h)
  case Nil
  then show ?case by (subst delete_chain.simps) (simp add: restrict_map_def)
next
  case (Cons b bs)
  then obtain nd where b: "p = Some b" "cells h b = Some nd" "sll (cells h) (m_pNext nd) bs" by auto
  define h1 where "h1 = h\<lparr>cells := (cells h)(b := None), avail := (b, nd) # avail h\<rparr>"
  have step: "delete_chain p h = delete_chain (m_pNext nd) h1"
    using b by (subst delete_chain.simps) (simp add: Get_eq delete_CNode_def h1_def)
  have "sll (cells h1) (m_pNext nd) bs" using b Cons.prems by (simp add: h1_def sll_upd)
  moreover have "heap_ok h1" "universe h1 = universe h"
    using Cons.prems b by (auto simp: heap_ok_def h1_def universe_def)
  ultimately obtain h' where h': "delete_chain (m_pNext nd) h1 = Some h'" "heap_ok h'" "universe h' = universe h"
    "cells h' = (cells h1) |` (- set bs)"
    using Cons.IH [of h1 "m_pNext nd"] Cons.prems by auto
  have "cells h' = (cells h) |` (- set (b # bs))"
    unfolding h'(4) by (auto simp: h1_def restrict_map_def fun_eq_iff)
  then show ?case using step h' by auto
qed

lemma addrs_map: "addrs ps = set (map fst ps)"
  by (simp add: addrs_def)

lemma RemoveAll_spec:
  assumes "rep h l ps bs"
  shows "\<exists>h' l'. RemoveAll h l = Some (h', l') \<and> rep h' l' [] bs \<and> frame h (foot ps bs) h' (foot [] bs) \<and>
    m_Cache l' = m_Cache l"
proof -
  have L: "sll (cells h) (m_pFirst l) (map fst ps)" "distinct (map fst ps)" "heap_ok h"
    using assms by (auto simp: rep_def list_at_def apart_def intro: dll_sll)
  obtain h' where h': "delete_chain (m_pFirst l) h = Some h'" "heap_ok h'" "universe h' = universe h"
    "cells h' = (cells h) |` (- set (map fst ps))" using delete_chain_sll [OF L] by blast
  let ?l' = "l\<lparr>m_Count := 0, m_pFirst := None, m_pLast := None\<rparr>"
  have c: "cells h' b = cells h b" if "b \<notin> addrs ps" for b
    using that unfolding h'(4) addrs_map by simp
  have "sll (cells h') (m_pHead (m_Cache l)) bs"
    using assms by (auto simp: rep_def cache_at_def intro!: c elim!: sll_cong)
  then have "rep h' ?l' [] bs" using assms h'(2) by (simp add: rep_def list_at_def cache_at_def)
  moreover have "frame h (foot ps bs) h' (foot [] bs)"
  proof -
    have "dom (cells h') = dom (cells h) - addrs ps" unfolding h'(4) addrs_map by auto
    then show ?thesis using h' c rep_dom [OF \<open>rep h' ?l' [] bs\<close>] assms
      unfolding frame_def by (auto simp: foot_def rep_def)
  qed
  ultimately show ?thesis by (simp add: RemoveAll_def h'(1))
qed

lemma destructor_spec:
  assumes "rep h l ps bs"
  shows "\<exists>h'. CBaseList_destructor h l = Some h' \<and> frame h (foot ps bs) h' {}"
proof -
  obtain h1 l1 where 1: "RemoveAll h l = Some (h1, l1)" "rep h1 l1 [] bs" "frame h (foot ps bs) h1 (foot [] bs)"
    using RemoveAll_spec [OF assms] by blast
  have s: "sll (cells h1) (m_pHead (m_Cache l1)) bs" "distinct bs" "heap_ok h1"
    using 1(2) by (auto simp: rep_def cache_at_def)
  obtain h2 where h2: "delete_chain (m_pHead (m_Cache l1)) h1 = Some h2" "heap_ok h2" "universe h2 = universe h1"
    "cells h2 = (cells h1) |` (- set bs)" using delete_chain_sll [OF s] by blast
  have "frame h1 (foot [] bs) h2 {}" unfolding frame_def h2(4) using h2 by (auto simp: foot_def)
  then show ?thesis using 1(1) h2(1) frame_trans [OF 1(3)]
    by (simp add: CBaseList_destructor_def CNodeCache_destructor_def)
qed

section \<open>The list as a queue\<close>

text \<open>Insertion at the tail and removal at the head make the list a queue whose capacity is what
  it holds plus the cached nodes plus the memory for new ones.\<close>

definition queue_content :: "'o heap \<times> CBaseList \<Rightarrow> 'o option list" where
  "queue_content q = (case enum_list (fst q) (m_pFirst (snd q)) of None \<Rightarrow> [] | Some ps \<Rightarrow> map snd ps)"

definition queue_invar :: "'o heap \<times> CBaseList \<Rightarrow> bool" where
  "queue_invar q \<longleftrightarrow> (\<exists>ps bs. rep (fst q) (snd q) ps bs)"

definition queue_add :: "'o option \<Rightarrow> 'o heap \<times> CBaseList \<Rightarrow> ('o heap \<times> CBaseList) option" where
  "queue_add x q = (case AddTailI x (fst q) (snd q) of Some (Some a, h', l') \<Rightarrow> Some (h', l') | _ \<Rightarrow> None)"

definition queue_remove :: "'o heap \<times> CBaseList \<Rightarrow> ('o option \<times> 'o heap \<times> CBaseList) option" where
  "queue_remove q = (if GetHeadPositionI (snd q) = None then None else RemoveHeadI (fst q) (snd q))"

definition queue_capacity :: "'o heap \<times> CBaseList \<Rightarrow> nat" where
  "queue_capacity q = length (queue_content q) + length (avail (fst q)) + nat (m_iUsed (m_Cache (snd q)))"

lemma rep_content: "rep h l ps bs \<Longrightarrow> queue_content (h, l) = map snd ps"
  using enum_list_dll [of h None ps] by (simp add: queue_content_def rep_def list_at_def)

lemma rep_capacity: "rep h l ps bs \<Longrightarrow> queue_capacity (h, l) = length ps + room h bs"
  using rep_content [of h l ps bs] by (simp add: queue_capacity_def rep_def cache_at_def)

lemma queue_add_spec:
  assumes "rep h l ps bs"
  shows "(room h bs = 0 \<and> queue_add x (h, l) = None) \<or>
    (\<exists>a h' l' bs'. queue_add x (h, l) = Some (h', l') \<and> rep h' l' (ps @ [(a, x)]) bs' \<and> room h' bs' + 1 = room h bs)"
proof (cases "bs = [] \<and> avail h = []")
  case True
  then show ?thesis using AddTailI_inserts [OF assms, of x] by (simp add: inserts_def queue_add_def)
next
  case False
  then show ?thesis using AddTailI_inserts [OF assms, of x] by (auto simp: inserts_def queue_add_def)
qed

lemma queue_remove_spec:
  assumes "rep h l ((a, x) # ps) bs"
  shows "\<exists>h' l' bs'. queue_remove (h, l) = Some (x, h', l') \<and> rep h' l' ps bs'"
proof -
  have "m_pFirst l = Some a" using assms by (simp add: rep_def list_at_def)
  then show ?thesis using RemoveI_spec [of h l "[]" a x ps bs, OF _ refl] assms
    by (auto simp: queue_remove_def GetHeadPositionI_def RemoveHeadI_def)
qed

lemma queue_remove_None: "rep h l [] bs \<Longrightarrow> queue_remove (h, l) = None"
  by (simp add: queue_remove_def GetHeadPositionI_def rep_def list_at_def)

interpretation blq: bounded_fifo queue_content queue_invar queue_add queue_remove queue_capacity "\<lambda>_. True"
proof unfold_locales
  fix q q' :: "'o heap \<times> CBaseList" and x
  assume inv: "queue_invar q"
  obtain h l ps bs where q: "q = (h, l)" "rep h l ps bs" using inv by (cases q) (auto simp: queue_invar_def)
  note c = rep_content [OF q(2)] rep_capacity [OF q(2)]
  show "queue_content q' = queue_content q @ [x] \<and> queue_invar q'" if "queue_add x q = Some q'"
    using that queue_add_spec [OF q(2), of x] c unfolding q(1) queue_invar_def by (auto simp: rep_content) blast
  show "queue_remove q = None \<longleftrightarrow> queue_content q = []"
    using queue_remove_None [of h l bs] queue_remove_spec [of h l _ _ _ bs] q c by (cases ps) force+
  show "queue_content q = x # queue_content q' \<and> queue_invar q'" if "queue_remove q = Some (x, q')"
    using that queue_remove_None [of h l bs] queue_remove_spec [of h l _ _ _ bs] q c
    by (cases ps) (force simp: rep_content queue_invar_def)+
  show "queue_add x q \<noteq> None \<longleftrightarrow> True \<and> length (queue_content q) < queue_capacity q"
    using queue_add_spec [OF q(2), of x] c unfolding q(1) by auto
  show "queue_capacity q' = queue_capacity q \<and> True = True" if "queue_add x q = Some q'"
    using that queue_add_spec [OF q(2), of x] c unfolding q(1) by (auto simp: rep_capacity)
qed

section \<open>The properties\<close>

text \<open>A memory and a list for the concrete instances: nodes 1, 2 and 3 hold the objects 10, 20
  and NULL, node 4 is cached, and \<open>new\<close> can hand out node 5, then nothing.\<close>

definition sample_heap :: "nat heap" where
  "sample_heap = \<lparr>cells = [1 \<mapsto> \<lparr>m_pPrev = None, m_pNext = Some 2, m_pObject = Some 10\<rparr>,
     2 \<mapsto> \<lparr>m_pPrev = Some 1, m_pNext = Some 3, m_pObject = Some 20\<rparr>,
     3 \<mapsto> \<lparr>m_pPrev = Some 2, m_pNext = None, m_pObject = None\<rparr>,
     4 \<mapsto> \<lparr>m_pPrev = Some 9, m_pNext = None, m_pObject = Some 99\<rparr>,
     6 \<mapsto> \<lparr>m_pPrev = None, m_pNext = None, m_pObject = Some 60\<rparr>],
     avail = [(5, \<lparr>m_pPrev = Some 7, m_pNext = Some 8, m_pObject = None\<rparr>)]\<rparr>"

definition sample_list :: CBaseList where
  "sample_list = \<lparr>m_pFirst = Some 1, m_pLast = Some 3, m_Count = 3,
     m_Cache = \<lparr>m_iCacheSize = 10, m_iUsed = 1, m_pHead = Some 4\<rparr>\<rparr>"

definition other_list :: CBaseList where
  "other_list = \<lparr>m_pFirst = Some 6, m_pLast = Some 6, m_Count = 1, m_Cache = new_CNodeCache 10\<rparr>"

abbreviation sample_view :: "(addr \<times> nat option) list" where
  "sample_view \<equiv> [(1, Some 10), (2, Some 20), (3, None)]"

lemma sample_rep: "rep sample_heap sample_list sample_view [4]" "rep sample_heap other_list [(6, Some 60)] []"
  by (auto simp: rep_def heap_ok_def list_at_def cache_at_def sample_heap_def sample_list_def other_list_def
      new_CNodeCache_def split: if_splits)

lemma sample_apart: "foot sample_view [4] \<inter> foot [(6, Some (60 :: nat))] [] = {}"
  by (simp add: foot_def)

text \<open>C29. Each of the four insertions puts the object between the two parts of the list it is
  asked to split (at the tail, at the head, after the last position of the left part, before the
  first position of the right part), on a node from the cache or a new one; it fails, returning
  NULL and changing nothing, exactly when there is neither; the count, both end pointers, both
  chains and the cache stay consistent, no other allocated node is touched and none is lost.\<close>

theorem base_list_insert:
  assumes "rep h l (ps @ qs) bs"
  shows "inserts h l (ps @ qs) [] bs x (AddTailI x h l) \<and> inserts h l [] (ps @ qs) bs x (AddHeadI x h l) \<and>
    inserts h l ps qs bs x (AddAfterI (last_pos None ps) x h l) \<and>
    inserts h l ps qs bs x (AddBeforeI (first_pos qs None) x h l)"
  using AddTailI_inserts [OF assms] AddHeadI_inserts [OF assms] AddAfterI_inserts [OF assms]
    AddBeforeI_AddAfterI [OF assms] by simp

theorem base_list_insert_witness:
  "inserts sample_heap sample_list [(1, Some 10)] [(2, Some 20), (3, None)] [4] (Some 15)
     (AddBeforeI (Some 2) (Some 15) sample_heap sample_list)"
  using base_list_insert [of sample_heap sample_list "[(1, Some 10)]" "[(2, Some 20), (3, None)]" "[4]" "Some 15"]
    sample_rep by simp

text \<open>C11. \<open>Remove\<close> of a position takes exactly that element out and returns its object, \<open>RemoveHead\<close>
  and \<open>RemoveTail\<close> do so with the first and the last, and on NULL or an empty list they return NULL
  and change nothing; the node goes to the cache while that has room and is deleted otherwise, so
  that no node is lost and no other allocated node is touched.\<close>

theorem base_list_remove:
  assumes "rep h l (ps @ (a, x) # qs) bs"
    and "bs' = (if int (length bs) < m_iCacheSize (m_Cache l) then a # bs else bs)"
  shows "(\<exists>h' l'. RemoveI (Some a) h l = Some (x, h', l') \<and> rep h' l' (ps @ qs) bs' \<and>
      frame h (foot (ps @ (a, x) # qs) bs) h' (foot (ps @ qs) bs')) \<and>
    (ps = [] \<longrightarrow> RemoveHeadI h l = RemoveI (Some a) h l) \<and> (qs = [] \<longrightarrow> RemoveTailI h l = RemoveI (Some a) h l) \<and>
    RemoveI None h l = Some (None, h, l)"
  using RemoveI_spec [OF assms] assms(1)
  by (auto simp: RemoveHeadI_def RemoveTailI_def RemoveI_def [of None] rep_def list_at_def)

theorem base_list_remove_witness:
  "\<exists>h' l'. RemoveI (Some 2) sample_heap sample_list = Some (Some 20, h', l') \<and> rep h' l' [(1, Some 10), (3, None)] [2, 4] \<and>
    frame sample_heap (foot sample_view [4]) h' (foot [(1, Some (10 :: nat)), (3, None)] [2, 4])"
  using base_list_remove [of sample_heap sample_list "[(1, Some 10)]" 2 "Some 20" "[(3, None)]" "[4]", OF _ refl] sample_rep
  by (simp add: sample_list_def)

text \<open>The four operations that copy another list in insert its objects in their order at the
  requested place and return TRUE when cache and memory have room for all of them; otherwise they
  return FALSE, having inserted as many as there was room for. The other list is unchanged.\<close>

theorem base_list_add_list:
  assumes "rep h l (ps @ qs) bs" and "rep h pl zs ds" and "foot (ps @ qs) bs \<inter> foot zs ds = {}"
  shows "inserts_all True h (ps @ qs) [] bs (map snd zs) (AddTail pl h l) \<and>
    inserts_all False h [] (ps @ qs) bs (map snd zs) (AddHead pl h l) \<and>
    inserts_all True h ps qs bs (map snd zs) (AddAfter (last_pos None ps) pl h l) \<and>
    inserts_all False h ps qs bs (map snd zs) (AddBefore (first_pos qs None) pl h l) \<and>
    (\<forall>r \<in> {AddTail pl h l, AddHead pl h l, AddAfter (last_pos None ps) pl h l, AddBefore (first_pos qs None) pl h l}.
       source_kept pl zs ds r)"
proof -
  note kept = source_kept [OF _ assms(2)] source_kept [OF _ assms(2), where ps = "[]", simplified]
    source_kept [OF _ assms(2), where qs = "[]", simplified]
  have e: "m_pFirst pl = first_pos zs None" "m_pLast pl = last_pos None zs" using assms(2) by (simp_all add: rep_def list_at_def)
  show ?thesis
    using add_tail_loop_spec [of h l "ps @ qs" bs pl "[]" zs ds] add_head_loop_spec [of h l "ps @ qs" bs pl zs "[]" ds]
      add_after_loop_spec [of h l ps qs bs pl "[]" zs ds] add_before_loop_spec [of h l ps qs bs pl zs "[]" ds] assms e
    unfolding AddTail_def AddHead_def AddAfter_def AddBefore_def GetHeadPositionI_def GetTailPositionI_def
    by (auto intro: kept)
qed

theorem base_list_add_list_witness:
  "inserts_all True sample_heap [(1, Some 10)] [(2, Some 20), (3, None)] [4] [Some 60]
     (AddAfter (Some 1) other_list sample_heap sample_list)"
  using base_list_add_list [of sample_heap sample_list "[(1, Some 10)]" "[(2, Some 20), (3, None)]" "[4]"
      other_list "[(6, Some 60)]" "[]"] sample_rep sample_apart
  by simp

text \<open>\<open>MoveToTail\<close> hands the elements up to and including the position, in order and on the same
  nodes, to the tail of the other list; \<open>MoveToHead\<close> those from the position on to its head; both
  lists, their counts and their caches are consistent afterwards and no other node is touched.\<close>

theorem base_list_move:
  assumes "rep h l (ps @ (a, x) # qs) bs" and "rep h pl zs ds" and "foot (ps @ (a, x) # qs) bs \<inter> foot zs ds = {}"
  shows "(\<exists>h' l' pl'. MoveToTail (Some a) h l pl = Some (h', l', pl') \<and>
      rep h' l' qs bs \<and> rep h' pl' (zs @ ps @ [(a, x)]) ds \<and> foot qs bs \<inter> foot (zs @ ps @ [(a, x)]) ds = {} \<and>
      frame h (foot (ps @ (a, x) # qs) bs \<union> foot zs ds) h' (foot qs bs \<union> foot (zs @ ps @ [(a, x)]) ds)) \<and>
    (\<exists>h' l' pl'. MoveToHead (Some a) h l pl = Some (h', l', pl') \<and>
      rep h' l' ps bs \<and> rep h' pl' ((a, x) # qs @ zs) ds \<and> foot ps bs \<inter> foot ((a, x) # qs @ zs) ds = {} \<and>
      frame h (foot (ps @ (a, x) # qs) bs \<union> foot zs ds) h' (foot ps bs \<union> foot ((a, x) # qs @ zs) ds))"
proof -
  have L: "list_at (cells h) l (ps @ (a, x) # qs)" "list_at (cells h) pl zs" using assms by (simp_all add: rep_def)
  have dj: "addrs (ps @ (a, x) # qs) \<inter> addrs zs = {}" using assms(3) by (auto simp: foot_def)
  let ?t = "moved_tail (cells h) zs (ps @ [(a, x)]) qs" and ?u = "moved_head (cells h) ps ((a, x) # qs) zs"
  have t: "dll ?t None (zs @ ps @ [(a, x)]) None" "dll ?t None qs None"
    by (rule dll_moved_tail; use L dj in \<open>auto simp: list_at_def\<close>)+
  have u: "dll ?u None (((a, x) # qs) @ zs) None" "dll ?u None ps None"
    by (rule dll_moved_head; use L dj in \<open>auto simp: list_at_def\<close>)+
  note T = MoveToTail_eq [of h l "ps @ [(a, x)]" qs pl zs ps a x]
  note U = MoveToHead_eq [of h l ps "(a, x) # qs" pl zs a x qs]
  let ?l1 = "l\<lparr>m_pFirst := first_pos qs None, m_pLast := last_pos None qs, m_Count := m_Count l - of_nat (length (ps @ [(a, x)]))\<rparr>"
    and ?p1 = "pl\<lparr>m_pFirst := first_pos (zs @ ps @ [(a, x)]) None, m_pLast := Some a, m_Count := m_Count pl + of_nat (length (ps @ [(a, x)]))\<rparr>"
    and ?l2 = "l\<lparr>m_pFirst := first_pos ps None, m_pLast := last_pos None ps, m_Count := m_Count l - of_nat (length ((a, x) # qs))\<rparr>"
    and ?p2 = "pl\<lparr>m_pFirst := Some a, m_pLast := last_pos None (((a, x) # qs) @ zs), m_Count := m_Count pl + of_nat (length ((a, x) # qs))\<rparr>"
  have o: "?t b = cells h b" "?u b = cells h b" if "b \<notin> addrs (ps @ (a, x) # qs) \<union> addrs zs" for b
    using that by (auto intro!: moved_other)
  note M1 = moved_rep [OF assms, of ?t qs "zs @ ps @ [(a, x)]" ?l1 ?p1]
  note M2 = moved_rep [OF assms, of ?u ps "((a, x) # qs) @ zs" ?l2 ?p2]
  have "MoveToTail (Some a) h l pl = Some (h\<lparr>cells := ?t\<rparr>, ?l1, ?p1)" using T L dj by simp
  moreover have "rep (h\<lparr>cells := ?t\<rparr>) ?l1 qs bs" "rep (h\<lparr>cells := ?t\<rparr>) ?p1 (zs @ ps @ [(a, x)]) ds"
    "foot qs bs \<inter> foot (zs @ ps @ [(a, x)]) ds = {}"
    "frame h (foot (ps @ (a, x) # qs) bs \<union> foot zs ds) (h\<lparr>cells := ?t\<rparr>) (foot qs bs \<union> foot (zs @ ps @ [(a, x)]) ds)"
    by (rule M1; use L dj t o(1) in \<open>auto simp: list_at_def\<close>)+
  moreover have "MoveToHead (Some a) h l pl = Some (h\<lparr>cells := ?u\<rparr>, ?l2, ?p2)" using U L dj by simp
  moreover have "rep (h\<lparr>cells := ?u\<rparr>) ?l2 ps bs" "rep (h\<lparr>cells := ?u\<rparr>) ?p2 (((a, x) # qs) @ zs) ds"
    "foot ps bs \<inter> foot (((a, x) # qs) @ zs) ds = {}"
    "frame h (foot (ps @ (a, x) # qs) bs \<union> foot zs ds) (h\<lparr>cells := ?u\<rparr>) (foot ps bs \<union> foot (((a, x) # qs) @ zs) ds)"
    by (rule M2; use L dj u o(2) in \<open>auto simp: list_at_def\<close>)+
  ultimately show ?thesis by simp
qed

theorem base_list_move_witness:
  "\<exists>h' l' pl'. MoveToTail (Some 2) sample_heap sample_list other_list = Some (h', l', pl') \<and>
     rep h' l' [(3, None)] [4] \<and> rep h' pl' [(6, Some 60), (1, Some 10), (2, Some 20)] []"
  using base_list_move [of sample_heap sample_list "[(1, Some 10)]" 2 "Some 20" "[(3, None)]" "[4]" other_list "[(6, Some 60)]" "[]"]
    sample_rep sample_apart by auto

text \<open>\<open>Reverse\<close> reverses the list in place: the same nodes in the opposite order, the same
  cache, nothing else touched; reversing twice gives back the original order.\<close>

theorem base_list_reverse:
  assumes "rep h l ps bs"
  shows "\<exists>h' l'. Reverse h l = Some (h', l') \<and> rep h' l' (rev ps) bs \<and> frame h (foot ps bs) h' (foot (rev ps) bs) \<and>
    (\<exists>h'' l''. Reverse h' l' = Some (h'', l'') \<and> rep h'' l'' ps bs)"
proof -
  have once: "\<exists>h' l'. Reverse h l = Some (h', l') \<and> rep h' l' (rev ps) bs \<and> frame h (foot ps bs) h' (foot (rev ps) bs)"
    if r: "rep h l ps bs" for h :: "'o heap" and l ps
  proof -
    have L: "dll (cells h) None ps None" "apart ps" "m_pFirst l = first_pos ps None" "m_pLast l = last_pos None ps"
      using r by (simp_all add: rep_def list_at_def)
    obtain c where c: "reverse_loop (m_pFirst l) h = Some (h\<lparr>cells := c\<rparr>)" "dll c None (rev ps) None"
        "dom c = dom (cells h)" "\<And>b. b \<notin> addrs ps \<Longrightarrow> c b = cells h b"
      using reverse_loop_dll [OF L(1,2)] L(3) by auto
    have "sll c (m_pHead (m_Cache l)) bs" using r c(4) by (auto simp: rep_def cache_at_def intro: sll_cong)
    then have "rep (h\<lparr>cells := c\<rparr>) (l\<lparr>m_pFirst := m_pLast l, m_pLast := m_pFirst l\<rparr>) (rev ps) bs"
      using r c(2,3) L by (auto simp: rep_def list_at_def cache_at_def heap_ok_def)
    moreover have "frame h (foot ps bs) (h\<lparr>cells := c\<rparr>) (foot ps bs)"
      by (rule frame_write) (use r rep_dom [OF r] c in \<open>auto simp: rep_def foot_def\<close>)
    ultimately show ?thesis using c(1) by (simp add: Reverse_def foot_def)
  qed
  from once [OF assms] obtain h' l' where 1: "Reverse h l = Some (h', l')" "rep h' l' (rev ps) bs"
    "frame h (foot ps bs) h' (foot (rev ps) bs)" by blast
  from once [OF 1(2)] 1 show ?thesis by auto
qed

theorem base_list_reverse_witness:
  "\<exists>h' l'. Reverse sample_heap sample_list = Some (h', l') \<and> rep h' l' [(3, None), (2, Some 20), (1, Some 10)] [4]"
  using base_list_reverse [OF sample_rep(1)] by auto

text \<open>The positions form a cycle through NULL: \<open>Next\<close> of the last position on the left of a split
  is the first on its right and \<open>Prev\<close> goes back, for every split of the list; and, as the header
  promises, \<open>AddBefore(p, x)\<close> is identical to \<open>AddAfter(Prev(p), x)\<close> in all cases, down to the
  memory it leaves.\<close>

theorem base_list_position_algebra:
  assumes "rep h l (ps @ qs) bs"
  shows "Next h l (last_pos None ps) = Some (first_pos qs None) \<and> Prev h l (first_pos qs None) = Some (last_pos None ps) \<and>
    AddBeforeI (first_pos qs None) x h l = do { p \<leftarrow> Prev h l (first_pos qs None); AddAfterI p x h l }"
proof -
  have "list_at (cells h) l (ps @ qs)" using assms by (simp add: rep_def)
  note n = node_neighbours [OF this]
  show ?thesis using n AddBeforeI_AddAfterI [OF assms] by simp
qed

theorem base_list_position_algebra_witness:
  "Next sample_heap sample_list (Some 3) = Some None \<and> Prev sample_heap sample_list None = Some (Some 3)"
  using base_list_position_algebra [of sample_heap sample_list sample_view "[]" "[4]"] sample_rep by simp

text \<open>Reading the list: repeated \<open>GetNext\<close> from the head position yields every element once, in
  order, and ends; \<open>Find\<close> ends and returns the position of the first element that holds the object,
  NULL if there is none; the count is the number of elements modulo \<open>2 ^ 32\<close>.\<close>

theorem base_list_read:
  assumes "rep h l ps bs"
  shows "enum_list h (GetHeadPositionI l) = Some ps \<and>
    FindI h l x = Some (first_pos (dropWhile (\<lambda>q. snd q \<noteq> x) ps) None) \<and>
    GetCountI l = of_nat (length ps) \<and> GetTailPositionI l = last_pos None ps"
proof -
  have L: "dll (cells h) None ps None" "m_pFirst l = first_pos ps None" using assms by (simp_all add: rep_def list_at_def)
  show ?thesis using enum_list_dll [OF L(1)] find_loop_dll [OF L(1), of l x] L(2) assms
    by (simp add: FindI_def GetHeadPositionI_def GetTailPositionI_def GetCountI_def rep_def list_at_def)
qed

theorem base_list_read_witness:
  "enum_list sample_heap (GetHeadPositionI sample_list) = Some sample_view \<and>
   FindI sample_heap sample_list (Some 20) = Some (Some 2) \<and> FindI sample_heap sample_list (Some 21) = Some None"
  using base_list_read [OF sample_rep(1), of "Some 20"] base_list_read [OF sample_rep(1), of "Some 21"] by simp

text \<open>Destruction frees exactly the nodes of the list: \<open>RemoveAll\<close> empties it and keeps its cache,
  the destructor frees the cached nodes too; nothing else is touched, nothing freed twice, and all
  the memory is available again.\<close>

theorem base_list_destroy:
  assumes "rep h l ps bs"
  shows "(\<exists>h' l'. RemoveAll h l = Some (h', l') \<and> rep h' l' [] bs \<and> frame h (foot ps bs) h' (foot [] bs)) \<and>
    (\<exists>h'. CBaseList_destructor h l = Some h' \<and> frame h (foot ps bs) h' {})"
  using RemoveAll_spec [OF assms] destructor_spec [OF assms] by blast

theorem base_list_destroy_witness:
  "\<exists>h'. CBaseList_destructor sample_heap sample_list = Some h' \<and> frame sample_heap (foot sample_view [4]) h' {}"
  using base_list_destroy [OF sample_rep(1)] by blast

text \<open>Used as a queue (add at the tail, remove at the head), an empty list with cached nodes and
  memory for at least as many objects as a batch has takes the whole batch and gives it back in
  the order it was added.\<close>

theorem base_list_queue:
  assumes "rep h l [] bs" and "length xs \<le> length (avail h) + length bs"
  shows "\<exists>q' q''. enq_list queue_add xs (h, l) = Some q' \<and> deq_list queue_remove (length xs) q' = Some (xs, q'') \<and>
    queue_content q'' = []"
  by (rule blq.transfer_batch) (use assms rep_content [OF assms(1)] rep_capacity [OF assms(1)] in
    \<open>auto simp: queue_invar_def\<close>)

theorem base_list_queue_witness:
  "\<exists>q' q''. enq_list queue_add [Some 7, None] (\<lparr>cells = Map.empty, avail = avail sample_heap @ [(8, \<lparr>m_pPrev = None, m_pNext = None, m_pObject = None\<rparr>)]\<rparr>, new_CBaseList DEFAULTCACHE) = Some q' \<and>
     deq_list queue_remove 2 q' = Some ([Some 7, None], q'')"
proof -
  have "rep \<lparr>cells = Map.empty, avail = avail sample_heap @ [(8, \<lparr>m_pPrev = None, m_pNext = None, m_pObject = None\<rparr>)]\<rparr>
      (new_CBaseList DEFAULTCACHE) [] []"
    by (auto simp: rep_def heap_ok_def list_at_def cache_at_def new_CBaseList_def new_CNodeCache_def sample_heap_def)
  from base_list_queue [OF this, of "[Some 7, None]"] show ?thesis by (auto simp: sample_heap_def numeral_2_eq_2)
qed

end
