(* ===== verification/Renderer.thy ===== *)
theory Renderer
  imports AR_Prelude
begin

text \<open>
  Model of the audio renderer filter: \<open>CBaseRenderer\<close> and \<open>CRendererInputPin\<close>
  (\<open>src/baseclasses/renbase.cpp\<close>, \<open>renbase.h\<close>), the parts of \<open>CBaseFilter\<close>, \<open>CBasePin\<close> and
  \<open>CBaseInputPin\<close> they rest on (\<open>src/baseclasses/amfilter.cpp\<close>) and the overrides of
  \<open>MyRenderer\<close> (\<open>src/StupidAR/MyRenderer.cpp\<close>). The input pin exists (\<open>GetPin\<close> has created it).
  \<open>ASSERT\<close> is the release build's, which does nothing; the virtual hooks that the classes leave
  empty are left out.

  What the filter calls outside itself is an argument: the answers of the reference clock, of the
  multimedia timer and of the event sink (\<open>env\<close>), the media sample handed in
  (\<open>IMediaSample\<close>) and the derived class (\<open>derived\<close>).
\<close>

section \<open>Data\<close>

datatype FILTER_STATE = State_Stopped | State_Paused | State_Running

definition VFW_E_INVALIDMEDIATYPE :: HRESULT where [hr_defs]: "VFW_E_INVALIDMEDIATYPE = 0x80040200"
definition VFW_E_RUNTIME_ERROR :: HRESULT where [hr_defs]: "VFW_E_RUNTIME_ERROR = 0x8004020B"
definition VFW_E_WRONG_STATE :: HRESULT where [hr_defs]: "VFW_E_WRONG_STATE = 0x80040227"
definition VFW_E_START_TIME_AFTER_END :: HRESULT where [hr_defs]: "VFW_E_START_TIME_AFTER_END = 0x80040228"
definition VFW_E_SAMPLE_REJECTED :: HRESULT where [hr_defs]: "VFW_E_SAMPLE_REJECTED = 0x8004022B"
definition VFW_S_STATE_INTERMEDIATE :: HRESULT where [hr_defs]: "VFW_S_STATE_INTERMEDIATE = 0x00040237"

text \<open>Media types are compared by nobody here; a number stands for one.\<close>

type_synonym mtype = nat

record AM_SAMPLE2_PROPERTIES =
  dwTypeSpecificFlags :: u32
  dwSampleFlags :: u32
  lActual :: i32
  tStart :: REFERENCE_TIME
  tStop :: REFERENCE_TIME
  dwStreamId :: u32
  pMediaType :: "mtype option"
  pbBuffer :: nat
  cbBuffer :: i32

text \<open>A media sample: its identity and what its methods answer; \<open>sample2\<close> is the answer of
  \<open>GetProperties\<close> of \<open>IMediaSample2\<close> when it has that interface.\<close>

record IMediaSample =
  sid :: nat
  sample2 :: "(HRESULT \<times> AM_SAMPLE2_PROPERTIES) option"
  IsDiscontinuity :: HRESULT
  IsPreroll :: HRESULT
  IsSyncPoint :: HRESULT
  GetTime :: "HRESULT \<times> REFERENCE_TIME \<times> REFERENCE_TIME"
  GetMediaType :: "HRESULT \<times> mtype option"
  GetPointer :: nat
  GetActualDataLength :: i32
  GetSize :: i32

record env =
  clock_time :: REFERENCE_TIME
  advise_answer :: "HRESULT \<times> nat"
  timer_answer :: nat
  notify_answer :: HRESULT
  store_type_answer :: HRESULT
  decommit_answer :: HRESULT

text \<open>The pure virtuals a derived class supplies (\<open>DoRenderSample\<close> has no effect on the state here;
  that it is called is recorded).\<close>

record derived =
  CheckMediaType :: "mtype option \<Rightarrow> HRESULT"
  SetMediaType_derived :: "mtype option \<Rightarrow> HRESULT"

definition MyRenderer :: derived where
  "MyRenderer = \<lparr>CheckMediaType = (\<lambda>_. S_OK), SetMediaType_derived = (\<lambda>_. S_OK)\<rparr>"

record pin =
  m_Connected :: bool
  m_bFlushing :: bool
  m_bRunTimeError :: bool
  m_bCanReconnectWhenActive :: bool
  m_pAllocator :: bool
  m_mt :: "mtype option"
  m_SampleProps :: AM_SAMPLE2_PROPERTIES

datatype filter_event = EC_COMPLETE | EC_REPAINT | EC_ERRORABORT HRESULT | EC_DISPLAY_CHANGED

text \<open>What has happened, for the statements about it: events sent, samples accepted and drawn,
  starts and stops of streaming, resets of the end of stream, connections.\<close>

datatype happening = Sent filter_event | Accepted nat | Drawn nat | Started | Halted | Eos_reset | Joined

record renderer =
  m_State :: FILTER_STATE
  m_pClock :: bool
  m_tStart :: REFERENCE_TIME
  m_pSink :: bool
  m_pPosition :: bool
  m_RenderEvent :: bool
  m_ThreadSignal :: bool
  m_evComplete :: bool
  m_bAbort :: bool
  m_bStreaming :: bool
  m_dwAdvise :: nat
  m_pMediaSample :: "IMediaSample option"
  m_bEOS :: bool
  m_bEOSDelivered :: bool
  m_pQSink :: bool
  m_bRepaintStatus :: bool
  m_bInReceive :: bool
  m_SignalTime :: REFERENCE_TIME
  m_EndOfStreamTimer :: nat
  m_pInputPin :: pin
  committed :: bool
  clock_pending :: bool
  refs :: "nat \<Rightarrow> int"
  history :: "happening list"

text \<open>The last four are outside the object: whether the connection's allocator is committed,
  whether the clock still holds an advise request, the references held on each sample, and the
  history, latest first.\<close>

definition IsConnected :: "renderer \<Rightarrow> bool" where
  "IsConnected r = m_Connected (m_pInputPin r)"

definition IsFlushing :: "renderer \<Rightarrow> bool" where
  "IsFlushing r = m_bFlushing (m_pInputPin r)"

definition IsStopped :: "renderer \<Rightarrow> bool" where
  "IsStopped r = (m_State r = State_Stopped)"

definition set_pin :: "(pin \<Rightarrow> pin) \<Rightarrow> renderer \<Rightarrow> renderer" where
  "set_pin f r = r\<lparr>m_pInputPin := f (m_pInputPin r)\<rparr>"

definition happened :: "happening \<Rightarrow> renderer \<Rightarrow> renderer" where
  "happened x r = r\<lparr>history := x # history r\<rparr>"

definition AddRef :: "IMediaSample \<Rightarrow> renderer \<Rightarrow> renderer" where
  "AddRef s r = r\<lparr>refs := (refs r)(sid s := refs r (sid s) + 1)\<rparr>"

definition Release :: "IMediaSample \<Rightarrow> renderer \<Rightarrow> renderer" where
  "Release s r = r\<lparr>refs := (refs r)(sid s := refs r (sid s) - 1)\<rparr>"

definition Commit :: "renderer \<Rightarrow> renderer" where
  "Commit r = (if m_pAllocator (m_pInputPin r) then r\<lparr>committed := True\<rparr> else r)"

definition Decommit :: "renderer \<Rightarrow> renderer" where
  "Decommit r = (if m_pAllocator (m_pInputPin r) then r\<lparr>committed := False\<rparr> else r)"

section \<open>CBaseRenderer: small operations\<close>

definition NotifyEvent :: "env \<Rightarrow> filter_event \<Rightarrow> renderer \<Rightarrow> HRESULT \<times> renderer" where
  "NotifyEvent e ev r = (if m_pSink r then (notify_answer e, happened (Sent ev) r) else (E_NOTIMPL, r))"

definition Ready :: "renderer \<Rightarrow> renderer" where
  "Ready r = r\<lparr>m_evComplete := True\<rparr>"

definition NotReady :: "renderer \<Rightarrow> renderer" where
  "NotReady r = r\<lparr>m_evComplete := False\<rparr>"

definition SourceThreadCanWait :: "bool \<Rightarrow> renderer \<Rightarrow> renderer" where
  "SourceThreadCanWait bCanWait r = r\<lparr>m_ThreadSignal := \<not> bCanWait\<rparr>"

text \<open>\<open>GetState\<close> with the time-out expired: the state and whether it is complete.\<close>

definition GetState :: "renderer \<Rightarrow> HRESULT \<times> FILTER_STATE" where
  "GetState r = (if \<not> m_evComplete r then (VFW_S_STATE_INTERMEDIATE, m_State r) else (NOERROR, m_State r))"

definition CompleteStateChange :: "FILTER_STATE \<Rightarrow> renderer \<Rightarrow> HRESULT \<times> renderer" where
  "CompleteStateChange OldState r =
     (if \<not> IsConnected r then (S_OK, Ready r)
      else if m_bEOS r then (S_OK, Ready r)
      else if m_pMediaSample r \<noteq> None \<and> OldState \<noteq> State_Stopped then (S_OK, Ready r)
      else (S_FALSE, NotReady r))"

definition SetRepaintStatus :: "bool \<Rightarrow> renderer \<Rightarrow> renderer" where
  "SetRepaintStatus b r = r\<lparr>m_bRepaintStatus := b\<rparr>"

definition SignalTimerFired :: "renderer \<Rightarrow> renderer" where
  "SignalTimerFired r = r\<lparr>m_dwAdvise := 0\<rparr>"

definition CancelNotification :: "renderer \<Rightarrow> HRESULT \<times> renderer" where
  "CancelNotification r =
     (let dwAdvise = m_dwAdvise r;
          r = (if m_dwAdvise r \<noteq> 0 then SignalTimerFired (r\<lparr>clock_pending := False\<rparr>) else r)
      in (if dwAdvise \<noteq> 0 then S_OK else S_FALSE, r\<lparr>m_RenderEvent := False\<rparr>))"

definition ClearPendingSample :: "renderer \<Rightarrow> renderer" where
  "ClearPendingSample r = (case m_pMediaSample r of None \<Rightarrow> r
     | Some s \<Rightarrow> (Release s r)\<lparr>m_pMediaSample := None\<rparr>)"

section \<open>End of stream\<close>

definition NotifyEndOfStream :: "env \<Rightarrow> renderer \<Rightarrow> HRESULT \<times> renderer" where
  "NotifyEndOfStream e r =
     (if \<not> m_bStreaming r then (NOERROR, r)
      else NotifyEvent e EC_COMPLETE (r\<lparr>m_EndOfStreamTimer := 0, m_bEOSDelivered := True\<rparr>))"

text \<open>\<open>LONG((Signal - CurrentTime) / 10000)\<close>: a 64 bit signed division, cut to 32 bits.\<close>

definition eos_delay :: "env \<Rightarrow> renderer \<Rightarrow> i32" where
  "eos_delay e r = word_of_int (tdiv (sint (m_tStart r + m_SignalTime r - clock_time e)) 10000)"

definition TIMEOUT_DELIVERYWAIT :: int where
  "TIMEOUT_DELIVERYWAIT = 50"

definition SendEndOfStream :: "env \<Rightarrow> renderer \<Rightarrow> HRESULT \<times> renderer" where
  "SendEndOfStream e r =
     (if \<not> m_bEOS r \<or> m_bEOSDelivered r \<or> m_EndOfStreamTimer r \<noteq> 0 then (NOERROR, r)
      else if \<not> m_pClock r then NotifyEndOfStream e r
      else if sint (eos_delay e r) < TIMEOUT_DELIVERYWAIT then NotifyEndOfStream e r
      else let r = r\<lparr>m_EndOfStreamTimer := timer_answer e\<rparr>
           in if m_EndOfStreamTimer r = 0 then NotifyEndOfStream e r else (NOERROR, r))"

definition TimerCallback :: "env \<Rightarrow> renderer \<Rightarrow> renderer" where
  "TimerCallback e r = (if m_EndOfStreamTimer r \<noteq> 0
     then snd (SendEndOfStream e (r\<lparr>m_EndOfStreamTimer := 0\<rparr>)) else r)"

definition ResetEndOfStreamTimer :: "renderer \<Rightarrow> renderer" where
  "ResetEndOfStreamTimer r = (if m_EndOfStreamTimer r \<noteq> 0 then r\<lparr>m_EndOfStreamTimer := 0\<rparr> else r)"

definition ResetEndOfStream :: "renderer \<Rightarrow> renderer" where
  "ResetEndOfStream r = happened Eos_reset
     ((ResetEndOfStreamTimer r)\<lparr>m_bEOS := False, m_bEOSDelivered := False, m_SignalTime := 0\<rparr>)"

section \<open>Scheduling and streaming\<close>

text \<open>The result code and the start time.\<close>

definition GetSampleTimes :: "IMediaSample \<Rightarrow> renderer \<Rightarrow> HRESULT \<times> REFERENCE_TIME" where
  "GetSampleTimes s r = (let (hr, tS, tE) = GetTime s in
     if SUCCEEDED hr then
       (if sint tE < sint tS then (VFW_E_START_TIME_AFTER_END, tS)
        else if \<not> m_pClock r then (S_OK, tS) else (S_FALSE, tS))
     else (S_OK, tS))"

definition ScheduleSample :: "env \<Rightarrow> IMediaSample option \<Rightarrow> renderer \<Rightarrow> bool \<times> renderer" where
  "ScheduleSample e ps r = (case ps of None \<Rightarrow> (False, r)
     | Some s \<Rightarrow> (let (hr, StartSample) = GetSampleTimes s r in
         if FAILED hr then (False, r)
         else if hr = S_OK then (True, r\<lparr>m_RenderEvent := True\<rparr>)
         else let (hr, cookie) = advise_answer e in
           if SUCCEEDED hr then (True, r\<lparr>m_dwAdvise := cookie, clock_pending := True\<rparr>) else (False, r)))"

definition StartStreaming :: "env \<Rightarrow> renderer \<Rightarrow> HRESULT \<times> renderer" where
  "StartStreaming e r =
     (if m_bStreaming r then (NOERROR, r)
      else let r = happened Started (r\<lparr>m_bStreaming := True\<rparr>) in
        if m_pMediaSample r = None then SendEndOfStream e r
        else let (ok, r) = ScheduleSample e (m_pMediaSample r) r in
          (NOERROR, if \<not> ok then r\<lparr>m_RenderEvent := True\<rparr> else r))"

definition StopStreaming :: "renderer \<Rightarrow> renderer" where
  "StopStreaming r = (let r = r\<lparr>m_bEOSDelivered := False\<rparr>
     in happened Halted (if m_bStreaming r then r\<lparr>m_bStreaming := False\<rparr> else r))"

definition Render :: "IMediaSample option \<Rightarrow> renderer \<Rightarrow> HRESULT \<times> renderer" where
  "Render ps r = (case ps of None \<Rightarrow> (S_FALSE, r)
     | Some s \<Rightarrow> if \<not> m_bStreaming r then (S_FALSE, r) else (NOERROR, happened (Drawn (sid s)) r))"

section \<open>State changes of the filter\<close>

definition Inactive :: "renderer \<Rightarrow> renderer" where
  "Inactive r = ClearPendingSample r"

definition CRendererInputPin_Inactive :: "renderer \<Rightarrow> renderer" where
  "CRendererInputPin_Inactive r = Inactive (set_pin (\<lambda>p. p\<lparr>m_bRunTimeError := False\<rparr>) r)"

definition CBaseFilter_Stop :: "renderer \<Rightarrow> HRESULT \<times> renderer" where
  "CBaseFilter_Stop r =
     (let r = (if m_State r \<noteq> State_Stopped \<and> IsConnected r then CRendererInputPin_Inactive r else r)
      in (NOERROR, r\<lparr>m_State := State_Stopped\<rparr>))"

text \<open>Activating the pin (\<open>CRendererInputPin::Active\<close>, \<open>CBasePin::Run\<close>) does nothing and succeeds.\<close>

definition CBaseFilter_Pause :: "renderer \<Rightarrow> HRESULT \<times> renderer" where
  "CBaseFilter_Pause r = (S_OK, r\<lparr>m_State := State_Paused\<rparr>)"

text \<open>\<open>Stop\<close> up to the point where it waits for \<open>Receive\<close> to leave; the flag says whether it
  comes to that.\<close>

definition Stop_enter :: "renderer \<Rightarrow> bool \<times> renderer" where
  "Stop_enter r =
     (if m_State r = State_Stopped then (False, r)
      else if \<not> IsConnected r then (False, r\<lparr>m_State := State_Stopped\<rparr>)
      else let r = snd (CBaseFilter_Stop r);
               r = Decommit r;
               r = SetRepaintStatus True r;
               r = StopStreaming r;
               r = SourceThreadCanWait False r;
               r = ResetEndOfStream r;
               r = snd (CancelNotification r)
           in (True, Ready r))"

definition Stop_leave :: "renderer \<Rightarrow> renderer" where
  "Stop_leave r = r\<lparr>m_bAbort := False\<rparr>"

definition CBaseRenderer_Pause :: "renderer \<Rightarrow> HRESULT \<times> renderer" where
  "CBaseRenderer_Pause r =
     (let OldState = m_State r in
      if m_State r = State_Paused then CompleteStateChange State_Paused r
      else if \<not> IsConnected r then CompleteStateChange State_Paused (r\<lparr>m_State := State_Paused\<rparr>)
      else let (hr, r) = CBaseFilter_Pause r in
        if FAILED hr then (hr, r)
        else let r = SetRepaintStatus True r;
                 r = StopStreaming r;
                 r = SourceThreadCanWait True r;
                 r = snd (CancelNotification r);
                 r = ResetEndOfStreamTimer r;
                 r = Commit r;
                 r = (if OldState = State_Stopped then ClearPendingSample (r\<lparr>m_bAbort := False\<rparr>) else r)
             in CompleteStateChange OldState r)"

text \<open>The call of \<open>Pause\<close> in \<open>CBaseFilter::Run\<close> is virtual: it reaches \<open>CBaseRenderer::Pause\<close>.\<close>

definition CBaseFilter_Run :: "REFERENCE_TIME \<Rightarrow> renderer \<Rightarrow> HRESULT \<times> renderer" where
  "CBaseFilter_Run t r =
     (let r = r\<lparr>m_tStart := t\<rparr>;
          (hr, r) = (if m_State r = State_Stopped then CBaseRenderer_Pause r else (S_OK, r))
      in if FAILED hr then (hr, r) else (S_OK, r\<lparr>m_State := State_Running\<rparr>))"

definition CBaseRenderer_Run :: "env \<Rightarrow> REFERENCE_TIME \<Rightarrow> renderer \<Rightarrow> HRESULT \<times> renderer" where
  "CBaseRenderer_Run e t r =
     (let OldState = m_State r in
      if m_State r = State_Running then (NOERROR, r)
      else if \<not> IsConnected r
      then (NOERROR, (snd (NotifyEvent e EC_COMPLETE r))\<lparr>m_State := State_Running\<rparr>)
      else let (hr, r) = CBaseFilter_Run t (Ready r) in
        if FAILED hr then (hr, r)
        else let r = SourceThreadCanWait True r;
                 r = SetRepaintStatus False r;
                 r = Commit r;
                 r = (if OldState = State_Stopped then ClearPendingSample (r\<lparr>m_bAbort := False\<rparr>) else r)
             in StartStreaming e r)"

definition SetSyncSource :: "bool \<Rightarrow> renderer \<Rightarrow> renderer" where
  "SetSyncSource pClock r = r\<lparr>m_pClock := pClock\<rparr>"

section \<open>The base input pin\<close>

definition CheckStreaming :: "renderer \<Rightarrow> HRESULT" where
  "CheckStreaming r =
     (if IsStopped r then VFW_E_WRONG_STATE
      else if IsFlushing r then S_FALSE
      else if m_bRunTimeError (m_pInputPin r) then VFW_E_RUNTIME_ERROR
      else S_OK)"

definition CBaseInputPin_BeginFlush :: "renderer \<Rightarrow> renderer" where
  "CBaseInputPin_BeginFlush r = set_pin (\<lambda>p. p\<lparr>m_bFlushing := True\<rparr>) r"

definition CBaseInputPin_EndFlush :: "renderer \<Rightarrow> HRESULT \<times> renderer" where
  "CBaseInputPin_EndFlush r = (S_OK, set_pin (\<lambda>p. p\<lparr>m_bFlushing := False, m_bRunTimeError := False\<rparr>) r)"

section \<open>End of stream on the pin\<close>

definition EndOfStream :: "env \<Rightarrow> renderer \<Rightarrow> HRESULT \<times> renderer" where
  "EndOfStream e r =
     (if m_State r = State_Stopped then (NOERROR, r)
      else let r = r\<lparr>m_bEOS := True\<rparr> in
        if m_pMediaSample r \<noteq> None then (NOERROR, r)
        else let r = Ready r in
          (NOERROR, if m_bStreaming r then snd (SendEndOfStream e r) else r))"

definition CRendererInputPin_EndOfStream :: "env \<Rightarrow> renderer \<Rightarrow> HRESULT \<times> renderer" where
  "CRendererInputPin_EndOfStream e r =
     (let hr = CheckStreaming r in
      if hr \<noteq> NOERROR then (hr, r)
      else let (hr, r) = EndOfStream e r in if SUCCEEDED hr then (S_OK, r) else (hr, r))"

section \<open>Receiving a sample\<close>

definition AM_SAMPLE_SPLICEPOINT :: u32 where "AM_SAMPLE_SPLICEPOINT = 1"
definition AM_SAMPLE_PREROLL :: u32 where "AM_SAMPLE_PREROLL = 2"
definition AM_SAMPLE_DATADISCONTINUITY :: u32 where "AM_SAMPLE_DATADISCONTINUITY = 4"
definition AM_SAMPLE_TYPECHANGED :: u32 where "AM_SAMPLE_TYPECHANGED = 8"
definition AM_SAMPLE_TIMEVALID :: u32 where "AM_SAMPLE_TIMEVALID = 0x10"
definition AM_SAMPLE_STOPVALID :: u32 where "AM_SAMPLE_STOPVALID = 0x100"

text \<open>The properties read one by one, for a sample without \<open>IMediaSample2\<close>. A time that the sample
  does not have leaves the previous sample's in place.\<close>

definition props_the_hard_way :: "IMediaSample \<Rightarrow> AM_SAMPLE2_PROPERTIES \<Rightarrow> AM_SAMPLE2_PROPERTIES" where
  "props_the_hard_way s p =
     (let p = p\<lparr>dwTypeSpecificFlags := 0, dwStreamId := 0, dwSampleFlags := 0\<rparr>;
          p = (if IsDiscontinuity s = S_OK then p\<lparr>dwSampleFlags := dwSampleFlags p OR AM_SAMPLE_DATADISCONTINUITY\<rparr> else p);
          p = (if IsPreroll s = S_OK then p\<lparr>dwSampleFlags := dwSampleFlags p OR AM_SAMPLE_PREROLL\<rparr> else p);
          p = (if IsSyncPoint s = S_OK then p\<lparr>dwSampleFlags := dwSampleFlags p OR AM_SAMPLE_SPLICEPOINT\<rparr> else p);
          p = (case GetTime s of (hr, tS, tE) \<Rightarrow> if SUCCEEDED hr
                 then p\<lparr>tStart := tS, tStop := tE,
                        dwSampleFlags := dwSampleFlags p OR AM_SAMPLE_TIMEVALID OR AM_SAMPLE_STOPVALID\<rparr> else p);
          p = (case GetMediaType s of (hr, mt) \<Rightarrow> let p = p\<lparr>pMediaType := mt\<rparr> in
                 if hr = S_OK then p\<lparr>dwSampleFlags := dwSampleFlags p OR AM_SAMPLE_TYPECHANGED\<rparr> else p)
      in p\<lparr>pbBuffer := GetPointer s, lActual := GetActualDataLength s, cbBuffer := GetSize s\<rparr>)"

definition CBaseInputPin_Receive :: "derived \<Rightarrow> env \<Rightarrow> IMediaSample \<Rightarrow> renderer \<Rightarrow> HRESULT \<times> renderer" where
  "CBaseInputPin_Receive d e s r =
     (let hr = CheckStreaming r in
      if hr \<noteq> S_OK then (hr, r)
      else let (hr, r) = (case sample2 s of
              Some (hr, p) \<Rightarrow> (hr, if SUCCEEDED hr then set_pin (\<lambda>q. q\<lparr>m_SampleProps := p\<rparr>) r else r)
            | None \<Rightarrow> (S_OK, set_pin (\<lambda>q. q\<lparr>m_SampleProps := props_the_hard_way s (m_SampleProps q)\<rparr>) r)) in
        if FAILED hr then (hr, r)
        else let p = m_SampleProps (m_pInputPin r) in
          if dwSampleFlags p AND AM_SAMPLE_TYPECHANGED = 0 then (NOERROR, r)
          else if CheckMediaType d (pMediaType p) = NOERROR then (NOERROR, r)
          else let r = set_pin (\<lambda>q. q\<lparr>m_bRunTimeError := True\<rparr>) r;
                   r = snd (CRendererInputPin_EndOfStream e r);
                   r = snd (NotifyEvent e (EC_ERRORABORT VFW_E_TYPE_NOT_ACCEPTED) r)
               in (VFW_E_INVALIDMEDIATYPE, r))"

definition CRendererInputPin_SetMediaType :: "derived \<Rightarrow> env \<Rightarrow> mtype option \<Rightarrow> renderer \<Rightarrow> HRESULT \<times> renderer" where
  "CRendererInputPin_SetMediaType d e mt r =
     (if FAILED (store_type_answer e) then (store_type_answer e, r)
      else (SetMediaType_derived d mt, set_pin (\<lambda>p. p\<lparr>m_mt := mt\<rparr>) r))"

text \<open>The change of format that a sample brings.\<close>

definition change_type :: "derived \<Rightarrow> env \<Rightarrow> renderer \<Rightarrow> HRESULT \<times> renderer" where
  "change_type d e r =
     (let mt = pMediaType (m_SampleProps (m_pInputPin r))
      in if mt \<noteq> None then CRendererInputPin_SetMediaType d e mt r else (NOERROR, r))"

text \<open>The part of \<open>PrepareReceive\<close> under the renderer lock.\<close>

definition accept_sample :: "env \<Rightarrow> IMediaSample \<Rightarrow> renderer \<Rightarrow> HRESULT \<times> renderer" where
  "accept_sample e s r =
     (if m_pMediaSample r \<noteq> None \<or> m_bEOS r \<or> m_bAbort r
      then (E_UNEXPECTED, (Ready r)\<lparr>m_bInReceive := False\<rparr>)
      else let (ok, r) = (if m_bStreaming r then ScheduleSample e (Some s) r else (True, r)) in
        if \<not> ok then (VFW_E_SAMPLE_REJECTED, r\<lparr>m_bInReceive := False\<rparr>)
        else let r = r\<lparr>m_SignalTime := tStop (m_SampleProps (m_pInputPin r))\<rparr>;
                 r = happened (Accepted (sid s)) (AddRef s (r\<lparr>m_pMediaSample := Some s\<rparr>));
                 r = (if \<not> m_bStreaming r then SetRepaintStatus True r else r)
             in (NOERROR, r))"

definition PrepareReceive :: "derived \<Rightarrow> env \<Rightarrow> IMediaSample \<Rightarrow> renderer \<Rightarrow> HRESULT \<times> renderer" where
  "PrepareReceive d e s r =
     (let r = r\<lparr>m_bInReceive := True\<rparr>;
          (hr, r) = CBaseInputPin_Receive d e s r in
      if hr \<noteq> NOERROR then (E_FAIL, r\<lparr>m_bInReceive := False\<rparr>)
      else let (hr, r) = change_type d e r in
        if FAILED hr then (hr, r\<lparr>m_bInReceive := False\<rparr>) else accept_sample e s r)"

text \<open>The last, locked section of \<open>Receive\<close>.\<close>

definition Receive_render :: "env \<Rightarrow> renderer \<Rightarrow> renderer" where
  "Receive_render e r =
     (if m_State r = State_Stopped then r
      else let r = snd (Render (m_pMediaSample r) r);
               r = ClearPendingSample r;
               r = snd (SendEndOfStream e r)
           in snd (CancelNotification r))"

text \<open>What \<open>CRendererInputPin::Receive\<close> does when \<open>Receive\<close> has failed.\<close>

definition Receive_failed :: "env \<Rightarrow> HRESULT \<Rightarrow> renderer \<Rightarrow> renderer" where
  "Receive_failed e hr r =
     (if \<not> IsStopped r \<and> \<not> IsFlushing r \<and> \<not> m_bAbort r \<and> \<not> m_bRunTimeError (m_pInputPin r)
      then let r = snd (NotifyEvent e (EC_ERRORABORT hr) r);
               r = (if m_bStreaming r \<and> \<not> m_bEOSDelivered r then snd (NotifyEndOfStream e r) else r)
           in set_pin (\<lambda>p. p\<lparr>m_bRunTimeError := True\<rparr>) r
      else r)"

section \<open>Flushing\<close>

text \<open>\<open>BeginFlush\<close> of the pin up to the point where the renderer's waits for \<open>Receive\<close> to leave, and
  the rest.\<close>

definition BeginFlush_enter :: "renderer \<Rightarrow> renderer" where
  "BeginFlush_enter r =
     (let r = CBaseInputPin_BeginFlush r;
          r = (if m_State r = State_Paused then NotReady r else r);
          r = SourceThreadCanWait False r;
          r = snd (CancelNotification r)
      in ClearPendingSample r)"

definition BeginFlush_leave :: "renderer \<Rightarrow> renderer" where
  "BeginFlush_leave r = ResetEndOfStream r"

definition CRendererInputPin_EndFlush :: "renderer \<Rightarrow> HRESULT \<times> renderer" where
  "CRendererInputPin_EndFlush r = CBaseInputPin_EndFlush (SourceThreadCanWait True r)"

section \<open>Connecting\<close>

definition CBaseRenderer_BreakConnect :: "renderer \<Rightarrow> HRESULT \<times> renderer" where
  "CBaseRenderer_BreakConnect r =
     (let r = r\<lparr>m_pQSink := False\<rparr> in
      if \<not> IsConnected r then (S_FALSE, r)
      else if m_State r \<noteq> State_Stopped \<and> \<not> m_bCanReconnectWhenActive (m_pInputPin r) then (VFW_E_NOT_STOPPED, r)
      else let r = SetRepaintStatus False r;
               r = ResetEndOfStream r;
               r = ClearPendingSample r;
               r = r\<lparr>m_bAbort := False\<rparr>
           in (NOERROR, if m_State r = State_Running then StopStreaming r else r))"

definition CBaseInputPin_BreakConnect :: "env \<Rightarrow> renderer \<Rightarrow> HRESULT \<times> renderer" where
  "CBaseInputPin_BreakConnect e r =
     (if m_pAllocator (m_pInputPin r)
      then let r = Decommit r in
        if FAILED (decommit_answer e) then (decommit_answer e, r)
        else (S_OK, set_pin (\<lambda>p. p\<lparr>m_pAllocator := False\<rparr>) r)
      else (S_OK, r))"

definition CRendererInputPin_BreakConnect :: "env \<Rightarrow> renderer \<Rightarrow> HRESULT \<times> renderer" where
  "CRendererInputPin_BreakConnect e r =
     (let (hr, r) = CBaseRenderer_BreakConnect r in
      if FAILED hr then (hr, r) else CBaseInputPin_BreakConnect e r)"

definition CBaseRenderer_CompleteConnect :: "env \<Rightarrow> renderer \<Rightarrow> HRESULT \<times> renderer" where
  "CBaseRenderer_CompleteConnect e r =
     (let r = r\<lparr>m_bAbort := False\<rparr> in
      if m_State r = State_Running
      then let (hr, r) = StartStreaming e r in
        if FAILED hr then (hr, r) else (NOERROR, SetRepaintStatus False r)
      else (NOERROR, SetRepaintStatus True r))"

text \<open>\<open>opposite\<close> is whether the other pin's direction differs from ours.\<close>

definition ReceiveConnection :: "derived \<Rightarrow> env \<Rightarrow> bool \<Rightarrow> mtype \<Rightarrow> renderer \<Rightarrow> HRESULT \<times> renderer" where
  "ReceiveConnection d e opposite mt r =
     (if IsConnected r then (VFW_E_ALREADY_CONNECTED, r)
      else if \<not> IsStopped r \<and> \<not> m_bCanReconnectWhenActive (m_pInputPin r) then (VFW_E_NOT_STOPPED, r)
      else if \<not> opposite then (VFW_E_INVALID_DIRECTION, snd (CRendererInputPin_BreakConnect e r))
      else let hr = CheckMediaType d (Some mt) in
        if hr \<noteq> NOERROR
        then (if SUCCEEDED hr \<or> hr = E_FAIL \<or> hr = E_INVALIDARG then VFW_E_TYPE_NOT_ACCEPTED else hr,
              snd (CRendererInputPin_BreakConnect e r))
        else let r = happened Joined (set_pin (\<lambda>p. p\<lparr>m_Connected := True\<rparr>) r);
                 (hr, r) = CRendererInputPin_SetMediaType d e (Some mt) r;
                 (hr, r) = (if SUCCEEDED hr then CBaseRenderer_CompleteConnect e r else (hr, r)) in
          if SUCCEEDED hr then (NOERROR, r)
          else (hr, snd (CRendererInputPin_BreakConnect e (set_pin (\<lambda>p. p\<lparr>m_Connected := False\<rparr>) r))))"

definition NotifyAllocator :: "renderer \<Rightarrow> renderer" where
  "NotifyAllocator r = set_pin (\<lambda>p. p\<lparr>m_pAllocator := True\<rparr>) r"

definition Disconnect :: "env \<Rightarrow> renderer \<Rightarrow> HRESULT \<times> renderer" where
  "Disconnect e r =
     (if \<not> IsStopped r then (VFW_E_NOT_STOPPED, r)
      else if IsConnected r
      then let (hr, r) = CRendererInputPin_BreakConnect e r in
        if FAILED hr then (hr, r) else (S_OK, set_pin (\<lambda>p. p\<lparr>m_Connected := False\<rparr>) r)
      else (S_FALSE, r))"

section \<open>Repaint requests\<close>

definition SendRepaint :: "env \<Rightarrow> renderer \<Rightarrow> renderer" where
  "SendRepaint e r =
     (if \<not> m_bAbort r \<and> IsConnected r \<and> \<not> IsFlushing r \<and> \<not> m_bEOS r \<and> m_bRepaintStatus r
      then SetRepaintStatus False (snd (NotifyEvent e EC_REPAINT r)) else r)"

definition OnDisplayChange :: "env \<Rightarrow> renderer \<Rightarrow> bool \<times> renderer" where
  "OnDisplayChange e r =
     (if \<not> IsConnected r then (False, r)
      else (True, ClearPendingSample ((snd (NotifyEvent e EC_DISPLAY_CHANGED r))\<lparr>m_bAbort := True\<rparr>)))"

section \<open>Threads\<close>

text \<open>
  The source's streaming thread is in \<open>Receive\<close> at one of its points between locked sections; the
  thread that changes the state may be in \<open>WaitForReceiveToComplete\<close>, holding the interface lock
  (and, in \<open>BeginFlush\<close>, the renderer lock too).

  \<^item> \<open>R_Prepared\<close>: \<open>PrepareReceive\<close> has accepted the sample, the state is not yet read;
  \<^item> \<open>R_Paused\<close>: the state was read as paused and \<open>m_bInReceive\<close> lowered, the locks not yet taken;
  \<^item> \<open>R_First\<close>: past that section, \<open>Ready\<close> not yet called;
  \<^item> \<open>R_Waiting\<close>: in \<open>WaitForRenderTime\<close>;
  \<^item> \<open>R_Due\<close>: woken by the render event, the locks for rendering not yet taken;
  \<^item> \<open>R_Failed hr\<close>: \<open>Receive\<close> has returned the error \<open>hr\<close> to the pin.
\<close>

datatype receiver = R_Idle | R_Prepared | R_Paused | R_First | R_Waiting | R_Due | R_Failed HRESULT

datatype control = C_Free | C_Stopping | C_Flushing

record sys =
  rend :: renderer
  recv :: receiver
  ctrl :: control

text \<open>The beginning of \<open>Receive\<close>: a rejected sample is not an error.\<close>

definition Receive_enter :: "derived \<Rightarrow> env \<Rightarrow> IMediaSample \<Rightarrow> renderer \<Rightarrow> receiver \<times> renderer" where
  "Receive_enter d e s r =
     (let (hr, r) = PrepareReceive d e s r in
      if FAILED hr then (if hr = VFW_E_SAMPLE_REJECTED then R_Idle else R_Failed hr, r)
      else (R_Prepared, r))"

text \<open>\<open>WaitForRenderTime\<close> returns when one of its two events is signalled (\<open>None\<close> until then): the
  thread signal, which is manual reset, is preferred; the render event is reset by the wait.\<close>

definition WaitForRenderTime :: "renderer \<Rightarrow> (HRESULT \<times> renderer) option" where
  "WaitForRenderTime r =
     (if m_ThreadSignal r then Some (VFW_E_STATE_CHANGED, r)
      else if m_RenderEvent r then Some (NOERROR, SignalTimerFired (r\<lparr>m_RenderEvent := False\<rparr>))
      else None)"

text \<open>\<open>WaitForReceiveToComplete\<close> polls; the state in which it returns.\<close>

definition WaitForReceiveToComplete :: "renderer \<Rightarrow> bool" where
  "WaitForReceiveToComplete r \<longleftrightarrow> \<not> m_bInReceive r"

text \<open>One turn of the streaming thread inside \<open>Receive\<close>; \<open>None\<close> when it must wait for a lock or for an
  event.\<close>

definition Receive_turn :: "env \<Rightarrow> control \<Rightarrow> receiver \<Rightarrow> renderer \<Rightarrow> (receiver \<times> renderer) option" where
  "Receive_turn e c p r =
     (case p of
        R_Idle \<Rightarrow> None
      | R_Prepared \<Rightarrow> Some (if m_State r = State_Paused then (R_Paused, r\<lparr>m_bInReceive := False\<rparr>) else (R_Waiting, r))
      | R_Paused \<Rightarrow> (if c \<noteq> C_Free then None
          else if m_State r = State_Stopped then Some (R_Idle, r) else Some (R_First, r\<lparr>m_bInReceive := True\<rparr>))
      | R_First \<Rightarrow> Some (R_Waiting, Ready r)
      | R_Waiting \<Rightarrow> map_option (\<lambda>(hr, r). (if FAILED hr then R_Idle else R_Due, r\<lparr>m_bInReceive := False\<rparr>))
          (WaitForRenderTime r)
      | R_Due \<Rightarrow> (if c \<noteq> C_Free then None else Some (R_Idle, Receive_render e r))
      | R_Failed hr \<Rightarrow> (if c \<noteq> C_Free then None else Some (R_Idle, Receive_failed e hr r)))"

text \<open>What is documented of the clock: a successful \<open>AdviseTime\<close> returns a nonzero cookie.\<close>

definition env_ok :: "env \<Rightarrow> bool" where
  "env_ok e \<longleftrightarrow> (SUCCEEDED (fst (advise_answer e)) \<longrightarrow> snd (advise_answer e) \<noteq> 0)"

text \<open>The steps of the whole. Calls of the control thread need the interface lock, those that only
  take the renderer lock are shut out by a flush alone. The clock may fire a pending advise, and the
  timer routine may run, at any time. As the comments of \<open>CBaseInputPin\<close> demand, \<open>EndFlush\<close> comes when no
  thread is pushing data; only a connected pin is sent samples; and as the filter graph does, the
  clock is changed only when stopped.\<close>

inductive step :: "derived \<Rightarrow> sys \<Rightarrow> sys \<Rightarrow> bool" for d where
  stop: "ctrl s = C_Free \<Longrightarrow> Stop_enter (rend s) = (w, r) \<Longrightarrow>
    step d s (s\<lparr>rend := r, ctrl := (if w then C_Stopping else C_Free)\<rparr>)"
| stopped: "ctrl s = C_Stopping \<Longrightarrow> WaitForReceiveToComplete (rend s) \<Longrightarrow>
    step d s (s\<lparr>rend := Stop_leave (rend s), ctrl := C_Free\<rparr>)"
| pause: "ctrl s = C_Free \<Longrightarrow> step d s (s\<lparr>rend := snd (CBaseRenderer_Pause (rend s))\<rparr>)"
| run: "ctrl s = C_Free \<Longrightarrow> env_ok e \<Longrightarrow> step d s (s\<lparr>rend := snd (CBaseRenderer_Run e t (rend s))\<rparr>)"
| set_clock: "ctrl s = C_Free \<Longrightarrow> IsStopped (rend s) \<Longrightarrow> step d s (s\<lparr>rend := SetSyncSource b (rend s)\<rparr>)"
| begin_flush: "ctrl s = C_Free \<Longrightarrow> step d s (s\<lparr>rend := BeginFlush_enter (rend s), ctrl := C_Flushing\<rparr>)"
| flushed: "ctrl s = C_Flushing \<Longrightarrow> WaitForReceiveToComplete (rend s) \<Longrightarrow>
    step d s (s\<lparr>rend := BeginFlush_leave (rend s), ctrl := C_Free\<rparr>)"
| end_flush: "ctrl s = C_Free \<Longrightarrow> recv s = R_Idle \<Longrightarrow> step d s (s\<lparr>rend := snd (CRendererInputPin_EndFlush (rend s))\<rparr>)"
| end_of_stream: "ctrl s = C_Free \<Longrightarrow> step d s (s\<lparr>rend := snd (CRendererInputPin_EndOfStream e (rend s))\<rparr>)"
| connect: "ctrl s = C_Free \<Longrightarrow> env_ok e \<Longrightarrow> step d s (s\<lparr>rend := snd (ReceiveConnection d e opp mt (rend s))\<rparr>)"
| allocator: "ctrl s = C_Free \<Longrightarrow> step d s (s\<lparr>rend := NotifyAllocator (rend s)\<rparr>)"
| disconnect: "ctrl s = C_Free \<Longrightarrow> step d s (s\<lparr>rend := snd (Disconnect e (rend s))\<rparr>)"
| timer: "ctrl s \<noteq> C_Flushing \<Longrightarrow> step d s (s\<lparr>rend := TimerCallback e (rend s)\<rparr>)"
| repaint: "ctrl s \<noteq> C_Flushing \<Longrightarrow> step d s (s\<lparr>rend := SendRepaint e (rend s)\<rparr>)"
| display: "ctrl s \<noteq> C_Flushing \<Longrightarrow> step d s (s\<lparr>rend := snd (OnDisplayChange e (rend s))\<rparr>)"
| clock: "clock_pending (rend s) \<Longrightarrow>
    step d s (s\<lparr>rend := (rend s)\<lparr>clock_pending := False, m_RenderEvent := True\<rparr>\<rparr>)"
| receive: "ctrl s = C_Free \<Longrightarrow> recv s = R_Idle \<Longrightarrow> IsConnected (rend s) \<Longrightarrow> env_ok e \<Longrightarrow> Receive_enter d e x (rend s) = (p, r) \<Longrightarrow>
    step d s (s\<lparr>rend := r, recv := p\<rparr>)"
| turn: "Receive_turn e (ctrl s) (recv s) (rend s) = Some (p, r) \<Longrightarrow> step d s (s\<lparr>rend := r, recv := p\<rparr>)"

text \<open>The constructors' state: stopped, not connected, ready.\<close>

definition zero_props :: AM_SAMPLE2_PROPERTIES where
  "zero_props = \<lparr>dwTypeSpecificFlags = 0, dwSampleFlags = 0, lActual = 0, tStart = 0, tStop = 0,
     dwStreamId = 0, pMediaType = None, pbBuffer = 0, cbBuffer = 0\<rparr>"

definition CRendererInputPin :: pin where
  "CRendererInputPin = \<lparr>m_Connected = False, m_bFlushing = False, m_bRunTimeError = False,
     m_bCanReconnectWhenActive = False, m_pAllocator = False, m_mt = None, m_SampleProps = zero_props\<rparr>"

definition CBaseRenderer :: "bool \<Rightarrow> renderer" where
  "CBaseRenderer sink = \<lparr>m_State = State_Stopped, m_pClock = False, m_tStart = 0, m_pSink = sink,
     m_pPosition = False, m_RenderEvent = False, m_ThreadSignal = False, m_evComplete = True,
     m_bAbort = False, m_bStreaming = False, m_dwAdvise = 0, m_pMediaSample = None, m_bEOS = False,
     m_bEOSDelivered = False, m_pQSink = False, m_bRepaintStatus = True, m_bInReceive = False,
     m_SignalTime = 0, m_EndOfStreamTimer = 0, m_pInputPin = CRendererInputPin, committed = False,
     clock_pending = False, refs = (\<lambda>_. 0), history = []\<rparr>"

inductive rend_reachable :: "derived \<Rightarrow> sys \<Rightarrow> bool" for d where
  init: "rend_reachable d \<lparr>rend = CBaseRenderer sink, recv = R_Idle, ctrl = C_Free\<rparr>"
| step: "rend_reachable d s \<Longrightarrow> step d s s' \<Longrightarrow> rend_reachable d s'"

end
