(* ===== verification/Worker_Thread.thy ===== *)
theory Worker_Thread
  imports AR_Prelude
begin

text \<open>
  Model of \<open>CAMThread\<close> (\<open>src/baseclasses/wxutil.h\<close>, \<open>wxutil.cpp\<close>): a worker thread that takes one command at a time from its clients. A client sets the event
  \<open>m_EventSend\<close> and waits for \<open>m_EventComplete\<close>; the worker reads the command, carries it out and replies. The parts of \<open>CallWorker\<close> and
  \<open>Reply\<close> between which the other thread may run are separate steps. \<open>worker_thread\<close> is the contract between a worker and its clients.
\<close>

section \<open>State\<close>

text \<open>\<open>m_hThread\<close> is whether there is a handle. \<open>m_EventSend\<close> stays set until it is reset, \<open>m_EventComplete\<close> is reset by the wait that it ends.\<close>

record CAMThread =
  m_EventSend :: bool
  m_EventComplete :: bool
  m_dwParam :: u32
  m_dwReturnVal :: u32
  m_hThread :: bool

text \<open>The parameter and the return value are not initialised.\<close>

definition new_CAMThread :: "CAMThread \<Rightarrow> CAMThread" where
  "new_CAMThread t = t\<lparr>m_EventSend := False, m_EventComplete := False, m_hThread := False\<rparr>"

definition ThreadExists :: "CAMThread \<Rightarrow> bool" where
  "ThreadExists t = m_hThread t"

text \<open>\<open>ok\<close> is whether the system creates the thread.\<close>

definition Create :: "bool \<Rightarrow> CAMThread \<Rightarrow> bool \<times> CAMThread" where
  "Create ok t =
     (if ThreadExists t then (False, t)
      else (let t = t\<lparr>m_hThread := ok\<rparr> in if \<not> m_hThread t then (False, t) else (True, t)))"

text \<open>\<open>Close\<close> takes the handle and, when there was one, waits for the end of the thread.\<close>

definition Close_take :: "CAMThread \<Rightarrow> bool \<times> CAMThread" where
  "Close_take t = (m_hThread t, t\<lparr>m_hThread := False\<rparr>)"

section \<open>A client calls the worker\<close>

datatype call_at = Call_enter u32 | Call_send | Call_wait

datatype call_result = Call_goes_on call_at | Call_returns u32

text \<open>\<open>None\<close>: the client waits. The lock \<open>m_AccessLock\<close> keeps other clients out.\<close>

fun CallWorker :: "call_at \<Rightarrow> CAMThread \<Rightarrow> (call_result \<times> CAMThread) option" where
  "CallWorker (Call_enter dwParam) t =
     (if \<not> ThreadExists t then Some (Call_returns E_FAIL, t) else Some (Call_goes_on Call_send, t\<lparr>m_dwParam := dwParam\<rparr>))"
| "CallWorker Call_send t = Some (Call_goes_on Call_wait, t\<lparr>m_EventSend := True\<rparr>)"
| "CallWorker Call_wait t = (if m_EventComplete t then Some (Call_returns (m_dwReturnVal t), t\<lparr>m_EventComplete := False\<rparr>) else None)"

section \<open>The worker\<close>

definition GetRequest :: "CAMThread \<Rightarrow> u32 option" where
  "GetRequest t = (if m_EventSend t then Some (m_dwParam t) else None)"

definition CheckRequest :: "CAMThread \<Rightarrow> u32 option" where
  "CheckRequest t = (if \<not> m_EventSend t then None else Some (m_dwParam t))"

datatype reply_at = Reply_value u32 | Reply_reset | Reply_set

fun Reply :: "reply_at \<Rightarrow> CAMThread \<Rightarrow> reply_at option \<times> CAMThread" where
  "Reply (Reply_value dw) t = (Some Reply_reset, t\<lparr>m_dwReturnVal := dw\<rparr>)"
| "Reply Reply_reset t = (Some Reply_set, t\<lparr>m_EventSend := False\<rparr>)"
| "Reply Reply_set t = (None, t\<lparr>m_EventComplete := True\<rparr>)"

section \<open>The contract\<close>

text \<open>What the worker owes to the client that calls it: nothing, an answer to a command it has taken, or the signal after it has reset the request.\<close>

datatype debt = Free | Owes | Signals

text \<open>A client waits: either the request is set, or it is reset and the worker has yet to signal.\<close>

definition pending :: "debt \<Rightarrow> CAMThread \<Rightarrow> bool" where
  "pending d t \<longleftrightarrow> m_EventSend t \<noteq> (d = Signals)"

text \<open>\<open>wstep\<close> is the worker's, on its own state and the thread object; its first argument is what the calls of the step answer, and \<open>None\<close> a blocked step.
  \<open>valid\<close> are the states of the worker that occur. \<open>able\<close> says that it is alive and that no call it makes blocks; \<open>rank\<close> bounds the steps until it answers one of the
  \<open>commands\<close>.\<close>

locale worker_thread =
  fixes wstep :: "'a \<Rightarrow> 'w \<Rightarrow> CAMThread \<Rightarrow> ('w \<times> CAMThread) option"
    and valid :: "'w \<Rightarrow> bool"
    and debt_of :: "'w \<Rightarrow> debt"
    and rank :: "'w \<Rightarrow> nat"
    and able :: "'w \<Rightarrow> bool"
    and commands :: "u32 set"
  assumes keeps_valid: "wstep a w t = Some (w', t') \<Longrightarrow> valid w \<Longrightarrow> valid w'"
    and free: "wstep a w t = Some (w', t') \<Longrightarrow> valid w \<Longrightarrow> debt_of w = Free \<Longrightarrow> t' = t \<and> (debt_of w' = Free \<or> debt_of w' = Owes \<and> m_EventSend t)"
    and owes: "wstep a w t = Some (w', t') \<Longrightarrow> valid w \<Longrightarrow> debt_of w = Owes \<Longrightarrow>
      debt_of w' = Owes \<and> (\<exists>dw. t' = t\<lparr>m_dwReturnVal := dw\<rparr>) \<or> debt_of w' = Signals \<and> t' = t\<lparr>m_EventSend := False\<rparr>"
    and signals: "wstep a w t = Some (w', t') \<Longrightarrow> valid w \<Longrightarrow> debt_of w = Signals \<Longrightarrow> debt_of w' = Free \<and> t' = t\<lparr>m_EventComplete := True\<rparr>"
    and moves: "valid w \<Longrightarrow> able w \<Longrightarrow> pending (debt_of w) t \<Longrightarrow> wstep a w t \<noteq> None"
    and nearer: "wstep a w t = Some (w', t') \<Longrightarrow> valid w \<Longrightarrow> pending (debt_of w) t \<Longrightarrow> pending (debt_of w') t' \<Longrightarrow> able w \<Longrightarrow> m_dwParam t \<in> commands \<Longrightarrow>
      rank w' < rank w"
    and stays_able: "wstep a w t = Some (w', t') \<Longrightarrow> valid w \<Longrightarrow> pending (debt_of w) t \<Longrightarrow> pending (debt_of w') t' \<Longrightarrow> able w \<Longrightarrow> able w'"
begin

text \<open>The state of both sides, for a client that is in \<open>CallWorker\<close> or not.\<close>

definition handshake :: "call_at option \<Rightarrow> 'w \<Rightarrow> CAMThread \<Rightarrow> bool" where
  "handshake c w t \<longleftrightarrow>
     (if c = Some Call_wait then
        m_EventSend t \<and> \<not> m_EventComplete t \<and> debt_of w \<noteq> Signals \<or> \<not> m_EventSend t \<and> \<not> m_EventComplete t \<and> debt_of w = Signals \<or>
        \<not> m_EventSend t \<and> m_EventComplete t \<and> debt_of w = Free
      else \<not> m_EventSend t \<and> \<not> m_EventComplete t \<and> debt_of w = Free)"

lemma handshake_worker: "handshake c w t \<Longrightarrow> valid w \<Longrightarrow> wstep a w t = Some (w', t') \<Longrightarrow> handshake c w' t'"
  using free [of a w t w' t'] owes [of a w t w' t'] signals [of a w t w' t'] by (cases "debt_of w") (auto simp: handshake_def split: if_splits)

lemma handshake_client: "handshake (Some c) w t \<Longrightarrow> CallWorker c t = Some (r, t') \<Longrightarrow>
    handshake (case r of Call_goes_on c' \<Rightarrow> Some c' | Call_returns dw \<Rightarrow> None) w t'"
  by (cases c) (auto simp: handshake_def split: if_splits)

text \<open>The client is blocked only while the worker has its request.\<close>

lemma handshake_blocked: "handshake (Some c) w t \<Longrightarrow> CallWorker c t = None \<longleftrightarrow> c = Call_wait \<and> pending (debt_of w) t"
  by (cases c) (auto simp: handshake_def pending_def split: if_splits)

lemma worker_keeps: "wstep a w t = Some (w', t') \<Longrightarrow> valid w \<Longrightarrow> m_dwParam t' = m_dwParam t \<and> m_hThread t' = m_hThread t"
  using free [of a w t w' t'] owes [of a w t w' t'] signals [of a w t w' t'] by (cases "debt_of w") auto

text \<open>A request is answered within as many steps of the worker as its rank says, whatever its calls answer.\<close>

inductive answers_within :: "nat \<Rightarrow> 'w \<Rightarrow> CAMThread \<Rightarrow> bool" where
  answered: "\<not> pending (debt_of w) t \<Longrightarrow> answers_within n w t"
| moves_on: "(\<And>a. \<exists>w' t'. wstep a w t = Some (w', t') \<and> answers_within n w' t') \<Longrightarrow> answers_within (Suc n) w t"

lemma request_answered: "valid w \<Longrightarrow> able w \<Longrightarrow> m_dwParam t \<in> commands \<Longrightarrow> rank w \<le> n \<Longrightarrow> answers_within (Suc n) w t"
proof (induction n arbitrary: w t)
  case (0 w t)
  then show ?case
  proof (cases "pending (debt_of w) t")
    case True
    have "\<exists>w' t'. wstep a w t = Some (w', t') \<and> answers_within 0 w' t'" for a
      using moves [OF 0(1,2) True, of a] nearer [OF _ 0(1) True _ 0(2,3), of a] 0(4) answered by fastforce
    then show ?thesis by (rule moves_on)
  qed (rule answered)
next
  case (Suc n w t)
  show ?case
  proof (cases "pending (debt_of w) t")
    case True
    have "\<exists>w' t'. wstep a w t = Some (w', t') \<and> answers_within (Suc n) w' t'" for a
    proof -
      obtain w' t' where s: "wstep a w t = Some (w', t')" using moves [OF Suc.prems(1,2) True, of a] by auto
      have "answers_within (Suc n) w' t'"
      proof (cases "pending (debt_of w') t'")
        case p: True
        have "rank w' \<le> n" using nearer [OF s Suc.prems(1) True p Suc.prems(2,3)] Suc.prems(4) by simp
        with Suc.IH stays_able [OF s Suc.prems(1) True p Suc.prems(2)] keeps_valid [OF s Suc.prems(1)] worker_keeps [OF s Suc.prems(1)] Suc.prems(3) show ?thesis by simp
      qed (rule answered)
      with s show ?thesis by blast
    qed
    then show ?thesis by (rule moves_on)
  qed (rule answered)
qed

end

section \<open>Fair runs\<close>

text \<open>A measure that no step increases, and that drops again and again until the goal, reaches the goal.\<close>

lemma goal_reached:
  fixes f :: "nat \<Rightarrow> nat"
  assumes "\<And>n. \<not> goal n \<Longrightarrow> f (Suc n) \<le> f n" and "\<And>n. \<not> goal n \<Longrightarrow> \<exists>m\<ge>n. goal m \<or> f (Suc m) < f m"
  shows "\<exists>n. goal n"
proof (rule ccontr)
  assume n: "\<nexists>n. goal n"
  have drop: "f (Suc n) \<le> f n" for n using assms(1) n by blast
  have "\<exists>m\<ge>n. f m + k \<le> f n" for n k
  proof (induction k)
    case 0
    show ?case by auto
  next
    case (Suc k)
    then obtain m where m: "m \<ge> n" "f m + k \<le> f n" by auto
    obtain l where l: "l \<ge> m" "f (Suc l) < f l" using assms(2) [of m] n by blast
    have "f l \<le> f m" by (rule lift_Suc_antimono_le [of f, OF drop l(1)])
    then show ?case using m l by (intro exI [of _ "Suc l"]) auto
  qed
  from this [of 0 "Suc (f 0)"] show False by auto
qed

end
