(* ===== verification/Source_Stream.thy ===== *)
theory Source_Stream
  imports Renderer Worker_Thread
begin

text \<open>
  Model of \<open>CSource\<close> and \<open>CSourceStream\<close> (\<open>src/baseclasses/source.cpp\<close>, \<open>source.h\<close>): a source filter with its array of output pins, and a pin whose worker
  thread fills buffers and delivers them. The worker and the client that starts and stops it are functions that make one step; a step relation interleaves them.
  The derived class, the allocator and the filter downstream are arguments. The filter here has one pin to activate.
\<close>

definition VFW_E_NOT_FOUND :: HRESULT where [hr_defs]: "VFW_E_NOT_FOUND = 0x80040216"
definition VFW_E_NO_ALLOCATOR :: HRESULT where [hr_defs]: "VFW_E_NO_ALLOCATOR = 0x8004020A"
definition VFW_E_NOT_CONNECTED :: HRESULT where [hr_defs]: "VFW_E_NOT_CONNECTED = 0x80040209"

section \<open>The pins of the filter\<close>

text \<open>Pins are numbered. The array may be longer than \<open>m_iPins\<close>; \<open>None\<close> is the null pointer.\<close>

record CSource =
  m_iPins :: nat
  m_paStreams :: "nat list option"

definition new_CSource :: CSource where
  "new_CSource = \<lparr>m_iPins = 0, m_paStreams = None\<rparr>"

text \<open>\<open>fresh\<close> is the new array, if memory is found: it has room for one pin more.\<close>

definition AddPin :: "nat list option \<Rightarrow> nat \<Rightarrow> CSource \<Rightarrow> HRESULT \<times> CSource" where
  "AddPin fresh pStream f =
     (case fresh of None \<Rightarrow> (E_OUTOFMEMORY, f)
      | Some paStreams \<Rightarrow>
          (let paStreams = (case m_paStreams f of None \<Rightarrow> paStreams
             | Some old \<Rightarrow> (take (m_iPins f) old @ drop (m_iPins f) paStreams)[m_iPins f := pStream])
           in (S_OK, f\<lparr>m_paStreams := Some (paStreams[m_iPins f := pStream]), m_iPins := m_iPins f + 1\<rparr>)))"

text \<open>The inner loop, from the element after the one that goes.\<close>

fun shift_down :: "nat \<Rightarrow> nat \<Rightarrow> nat list \<Rightarrow> nat list" where
  "shift_down 0 i a = a"
| "shift_down (Suc k) i a = shift_down k (i + 1) (a[i - 1 := a ! i])"

text \<open>\<open>k\<close> is how many elements are left to look at.\<close>

fun RemovePin_from :: "nat \<Rightarrow> nat \<Rightarrow> nat list \<Rightarrow> CSource \<Rightarrow> HRESULT \<times> CSource" where
  "RemovePin_from 0 pStream a f = (S_FALSE, f)"
| "RemovePin_from (Suc k) pStream a f =
     (let i = m_iPins f - Suc k
      in if a ! i = pStream then
           (S_OK, (if m_iPins f = 1 then f\<lparr>m_paStreams := None\<rparr> else f\<lparr>m_paStreams := Some (shift_down (m_iPins f - (i + 1)) (i + 1) a)\<rparr>)\<lparr>m_iPins := m_iPins f - 1\<rparr>)
         else RemovePin_from k pStream a f)"

text \<open>The loops end at once when there are no pins, so the null pointer is not followed.\<close>

definition RemovePin :: "nat \<Rightarrow> CSource \<Rightarrow> HRESULT \<times> CSource" where
  "RemovePin pStream f = (case m_paStreams f of None \<Rightarrow> (S_FALSE, f) | Some a \<Rightarrow> RemovePin_from (m_iPins f) pStream a f)"

fun FindPinNumber_from :: "nat \<Rightarrow> nat \<Rightarrow> nat \<Rightarrow> nat list \<Rightarrow> int" where
  "FindPinNumber_from 0 i iPin a = - 1"
| "FindPinNumber_from (Suc k) i iPin a = (if a ! i = iPin then int i else FindPinNumber_from k (i + 1) iPin a)"

definition FindPinNumber :: "nat \<Rightarrow> CSource \<Rightarrow> int" where
  "FindPinNumber iPin f = (case m_paStreams f of None \<Rightarrow> - 1 | Some a \<Rightarrow> FindPinNumber_from (m_iPins f) 0 iPin a)"

definition GetPinCount :: "CSource \<Rightarrow> nat" where
  "GetPinCount f = m_iPins f"

definition Source_GetPin :: "int \<Rightarrow> CSource \<Rightarrow> nat option" where
  "Source_GetPin n f = (if 0 \<le> n \<and> n < int (m_iPins f) then map_option (\<lambda>a. a ! nat n) (m_paStreams f) else None)"

text \<open>\<open>IntToWstr\<close> prints with the format \<open>%d\<close>, here for what is not negative. \<open>WstrToInt\<close> is \<open>_wtoi\<close> of the library: leading blanks, a sign, digits up to
  the first other character, and the nearest \<open>int\<close> when it is too large.\<close>

fun IntToWstr :: "nat \<Rightarrow> string" where
  "IntToWstr n = (if n < 10 then [char_of (48 + n)] else IntToWstr (n div 10) @ [char_of (48 + n mod 10)])"

declare IntToWstr.simps [simp del]

definition digit :: "char \<Rightarrow> bool" where
  "digit c \<longleftrightarrow> (48 :: nat) \<le> of_char c \<and> (of_char c :: nat) \<le> 57"

fun digits_value :: "nat \<Rightarrow> string \<Rightarrow> nat" where
  "digits_value n [] = n"
| "digits_value n (c # s) = (if digit c then digits_value (10 * n + (of_char c - 48)) s else n)"

fun WstrToInt :: "string \<Rightarrow> int" where
  "WstrToInt [] = 0"
| "WstrToInt (c # s) =
     (if c = CHR '' '' \<or> (9 :: nat) \<le> of_char c \<and> (of_char c :: nat) \<le> 13 then WstrToInt s
      else if c = CHR ''-'' then max (- (2 ^ 31)) (- int (digits_value 0 s))
      else min (2 ^ 31 - 1) (int (digits_value 0 (if c = CHR ''+'' then s else c # s))))"

definition Source_FindPin :: "bool \<Rightarrow> string \<Rightarrow> CSource \<Rightarrow> HRESULT \<times> nat option" where
  "Source_FindPin has_pointer pin_id f =
     (if \<not> has_pointer then (E_POINTER, None)
      else (case Source_GetPin (sint (word_of_int (WstrToInt pin_id - 1) :: i32)) f of Some p \<Rightarrow> (NOERROR, Some p) | None \<Rightarrow> (VFW_E_NOT_FOUND, None)))"

definition Source_QueryId :: "bool \<Rightarrow> bool \<Rightarrow> nat \<Rightarrow> CSource \<Rightarrow> HRESULT \<times> string option" where
  "Source_QueryId has_pointer ok pin f =
     (if \<not> has_pointer then (E_POINTER, None)
      else (let i = 1 + FindPinNumber pin f
            in if i < 1 then (VFW_E_NOT_FOUND, None) else if \<not> ok then (E_OUTOFMEMORY, None) else (NOERROR, Some (IntToWstr (nat i)))))"

text \<open>The types of a pin: \<open>own\<close> is the answer of the derived class.\<close>

definition VFW_S_NO_MORE_ITEMS :: HRESULT where [hr_defs]: "VFW_S_NO_MORE_ITEMS = 0x00040103"

definition Source_CheckMediaType :: "('t \<Rightarrow> 't \<Rightarrow> bool) \<Rightarrow> 't \<Rightarrow> 't \<Rightarrow> HRESULT" where
  "Source_CheckMediaType same own pmt = (if same own pmt then NOERROR else E_FAIL)"

definition Source_GetMediaType :: "HRESULT \<times> 't option \<Rightarrow> int \<Rightarrow> HRESULT \<times> 't option" where
  "Source_GetMediaType own iPosition = (if iPosition < 0 then (E_INVALIDARG, None) else if 0 < iPosition then (VFW_S_NO_MORE_ITEMS, None) else own)"

section \<open>The worker of a pin\<close>

definition CMD_INIT :: u32 where [hr_defs]: "CMD_INIT = 0"
definition CMD_PAUSE :: u32 where [hr_defs]: "CMD_PAUSE = 1"
definition CMD_RUN :: u32 where [hr_defs]: "CMD_RUN = 2"
definition CMD_STOP :: u32 where [hr_defs]: "CMD_STOP = 3"
definition CMD_EXIT :: u32 where [hr_defs]: "CMD_EXIT = 4"

text \<open>Where the worker is. \<open>S_Reply\<close> and \<open>S_Release\<close> say where it goes on.\<close>

datatype source_pc = S_Gone | S_GetInit | S_OnCreate | S_CreateFailed HRESULT | S_GetCommand | S_StartPlay | S_Check | S_GetBuffer | S_Fill nat | S_Deliver nat
  | S_Release nat source_pc | S_EndOfStream "HRESULT option" | S_Notify HRESULT | S_OnDestroy | S_Reply reply_at source_pc

datatype source_event = Thread_created | Play_started | Got nat | Delivered nat HRESULT | Released nat | Stream_ended | Aborted HRESULT | Thread_destroyed

text \<open>\<open>active\<close> is whether the allocator is committed; \<open>refs\<close> are the references held on each buffer and \<open>kept\<close> those of the filters downstream; \<open>happened\<close> is
  what the worker has done, the latest first.\<close>

record source_worker =
  now_at :: source_pc
  m_pAllocator :: bool
  m_Connected :: bool
  active :: bool
  refs :: "nat \<Rightarrow> int"
  kept :: "nat \<Rightarrow> nat"
  happened :: "source_event list"

text \<open>What the calls of one step answer. \<open>Blocks\<close>: no buffer is free.\<close>

datatype buffer_answer = Gives nat | Refuses | Blocks

record source_answers =
  OnThreadCreate :: HRESULT
  GetBuffer_answer :: buffer_answer
  FillBuffer :: HRESULT
  Receive_answer :: HRESULT
  Receive_keeps :: bool

definition did :: "source_event \<Rightarrow> source_pc \<Rightarrow> source_worker \<Rightarrow> source_worker" where
  "did e p w = w\<lparr>now_at := p, happened := e # happened w\<rparr>"

definition ThreadProc_init :: "u32 \<Rightarrow> source_pc" where
  "ThreadProc_init com = (if com \<noteq> CMD_INIT then S_Reply (Reply_value E_UNEXPECTED) S_GetInit else S_OnCreate)"

definition ThreadProc_created :: "HRESULT \<Rightarrow> source_pc" where
  "ThreadProc_created hr = (if FAILED hr then S_CreateFailed hr else S_Reply (Reply_value NOERROR) S_GetCommand)"

definition ThreadProc_command :: "u32 \<Rightarrow> source_pc" where
  "ThreadProc_command cmd =
     (if cmd = CMD_EXIT then S_Reply (Reply_value NOERROR) S_OnDestroy
      else if cmd = CMD_RUN \<or> cmd = CMD_PAUSE then S_Reply (Reply_value NOERROR) S_StartPlay
      else if cmd = CMD_STOP then S_Reply (Reply_value NOERROR) S_GetCommand
      else S_Reply (Reply_value E_NOTIMPL) S_GetCommand)"

text \<open>\<open>DoBufferProcessingLoop\<close>; a stop is left for the outer loop to answer.\<close>

definition DoBuffer_command :: "u32 \<Rightarrow> source_pc" where
  "DoBuffer_command com =
     (if com = CMD_RUN \<or> com = CMD_PAUSE then S_Reply (Reply_value NOERROR) S_Check
      else if com \<noteq> CMD_STOP then S_Reply (Reply_value E_UNEXPECTED) S_Check
      else S_GetCommand)"

definition DoBuffer_filled :: "HRESULT \<Rightarrow> nat \<Rightarrow> source_pc" where
  "DoBuffer_filled hr b =
     (if hr = S_OK then S_Deliver b else if hr = S_FALSE then S_Release b (S_EndOfStream None) else S_Release b (S_EndOfStream (Some hr)))"

definition DoBuffer_delivered :: "HRESULT \<Rightarrow> nat \<Rightarrow> source_pc" where
  "DoBuffer_delivered hr b = S_Release b (if hr \<noteq> S_OK then S_GetCommand else S_Check)"

text \<open>\<open>Some\<close> buffer, none but go on, or \<open>None\<close>: blocked. The allocator gives out a buffer that nobody holds.\<close>

definition GetDeliveryBuffer :: "buffer_answer \<Rightarrow> source_worker \<Rightarrow> nat option option" where
  "GetDeliveryBuffer a w =
     (if \<not> m_pAllocator w \<or> \<not> active w then Some None
      else (case a of Gives b \<Rightarrow> if refs w b = 0 then Some (Some b) else None | Refuses \<Rightarrow> Some None | Blocks \<Rightarrow> None))"

definition Source_Deliver :: "HRESULT \<Rightarrow> bool \<Rightarrow> nat \<Rightarrow> source_worker \<Rightarrow> HRESULT \<times> source_worker" where
  "Source_Deliver answer keeps b w =
     (if \<not> m_Connected w then (VFW_E_NOT_CONNECTED, w)
      else (answer, (if keeps then w\<lparr>refs := (refs w)(b := refs w b + 1), kept := (kept w)(b := kept w b + 1)\<rparr> else w)\<lparr>happened := Delivered b answer # happened w\<rparr>))"

definition source_worker_step :: "source_answers \<Rightarrow> source_worker \<Rightarrow> CAMThread \<Rightarrow> (source_worker \<times> CAMThread) option" where
  "source_worker_step a w t =
     (case now_at w of
        S_Gone \<Rightarrow> None
      | S_GetInit \<Rightarrow> map_option (\<lambda>com. (w\<lparr>now_at := ThreadProc_init com\<rparr>, t)) (GetRequest t)
      | S_OnCreate \<Rightarrow> Some (did Thread_created (ThreadProc_created (OnThreadCreate a)) w, t)
      | S_CreateFailed hr \<Rightarrow> Some (did Thread_destroyed (S_Reply (Reply_value hr) S_Gone) w, t)
      | S_GetCommand \<Rightarrow> map_option (\<lambda>cmd. (w\<lparr>now_at := ThreadProc_command cmd\<rparr>, t)) (GetRequest t)
      | S_StartPlay \<Rightarrow> Some (did Play_started S_Check w, t)
      | S_Check \<Rightarrow> Some (case CheckRequest t of None \<Rightarrow> w\<lparr>now_at := S_GetBuffer\<rparr> | Some com \<Rightarrow> w\<lparr>now_at := DoBuffer_command com\<rparr>, t)
      | S_GetBuffer \<Rightarrow> (case GetDeliveryBuffer (GetBuffer_answer a) w of
            None \<Rightarrow> None
          | Some None \<Rightarrow> Some (w\<lparr>now_at := S_Check\<rparr>, t)
          | Some (Some b) \<Rightarrow> Some (did (Got b) (S_Fill b) (w\<lparr>refs := (refs w)(b := refs w b + 1)\<rparr>), t))
      | S_Fill b \<Rightarrow> Some (w\<lparr>now_at := DoBuffer_filled (FillBuffer a) b\<rparr>, t)
      | S_Deliver b \<Rightarrow> (let (hr, w) = Source_Deliver (Receive_answer a) (Receive_keeps a) b w in Some (w\<lparr>now_at := DoBuffer_delivered hr b\<rparr>, t))
      | S_Release b p \<Rightarrow> Some (did (Released b) p (w\<lparr>refs := (refs w)(b := refs w b - 1)\<rparr>), t)
      | S_EndOfStream r \<Rightarrow>
          (let w = w\<lparr>now_at := case r of None \<Rightarrow> S_GetCommand | Some hr \<Rightarrow> S_Notify hr\<rparr>
           in Some (if m_Connected w then w\<lparr>happened := Stream_ended # happened w\<rparr> else w, t))
      | S_Notify hr \<Rightarrow> Some (did (Aborted hr) S_GetCommand w, t)
      | S_OnDestroy \<Rightarrow> Some (did Thread_destroyed S_Gone w, t)
      | S_Reply r p \<Rightarrow> (let (r', t) = Reply r t in Some (w\<lparr>now_at := case r' of None \<Rightarrow> p | Some r' \<Rightarrow> S_Reply r' p\<rparr>, t)))"

section \<open>The client\<close>

text \<open>What it carries out: activating or stopping the pin, or a command of the application.\<close>

datatype source_op = Op_Active | Op_Inactive | Op_Command

datatype source_client = Cl_Idle | Cl_Calling source_op u32 call_at | Cl_Close | Cl_Closing | Cl_Done source_op HRESULT

record source_world =
  wk :: source_worker
  thr :: CAMThread
  client :: source_client
  m_State :: FILTER_STATE

definition IsActive :: "source_world \<Rightarrow> bool" where
  "IsActive x \<longleftrightarrow> m_State x = State_Paused \<or> m_State x = State_Running"

definition output_Active :: "HRESULT \<Rightarrow> source_worker \<Rightarrow> HRESULT \<times> source_worker" where
  "output_Active commit w = (if \<not> m_pAllocator w then (VFW_E_NO_ALLOCATOR, w) else (commit, w\<lparr>active := active w \<or> SUCCEEDED commit\<rparr>))"

definition output_Inactive :: "HRESULT \<Rightarrow> source_worker \<Rightarrow> HRESULT \<times> source_worker" where
  "output_Inactive decommit w = (if \<not> m_pAllocator w then (VFW_E_NO_ALLOCATOR, w) else (decommit, w\<lparr>active := active w \<and> FAILED decommit\<rparr>))"

abbreviation calling :: "source_op \<Rightarrow> u32 \<Rightarrow> source_client" where
  "calling op com \<equiv> Cl_Calling op com (Call_enter com)"

definition Source_Active :: "bool \<Rightarrow> HRESULT \<Rightarrow> source_world \<Rightarrow> source_world" where
  "Source_Active ok commit x =
     (if IsActive x then x\<lparr>client := Cl_Done Op_Active S_FALSE\<rparr>
      else if \<not> m_Connected (wk x) then x\<lparr>client := Cl_Done Op_Active NOERROR\<rparr>
      else (let (hr, w) = output_Active commit (wk x); x = x\<lparr>wk := w\<rparr>
            in if FAILED hr then x\<lparr>client := Cl_Done Op_Active hr\<rparr>
               else (let (created, t) = Create ok (thr x); x = x\<lparr>thr := t\<rparr>
                     in if \<not> created then x\<lparr>client := Cl_Done Op_Active E_FAIL\<rparr>
                        else x\<lparr>wk := w\<lparr>now_at := S_GetInit\<rparr>, client := calling Op_Active CMD_INIT\<rparr>)))"

definition Source_Inactive :: "HRESULT \<Rightarrow> source_world \<Rightarrow> source_world" where
  "Source_Inactive decommit x =
     (if \<not> m_Connected (wk x) then x\<lparr>client := Cl_Done Op_Inactive NOERROR\<rparr>
      else (let (hr, w) = output_Inactive decommit (wk x); x = x\<lparr>wk := w\<rparr>
            in if FAILED hr then x\<lparr>client := Cl_Done Op_Inactive hr\<rparr>
               else if ThreadExists (thr x) then x\<lparr>client := calling Op_Inactive CMD_STOP\<rparr>
               else x\<lparr>client := Cl_Done Op_Inactive NOERROR\<rparr>))"

text \<open>What follows the answer to a command.\<close>

definition after_call :: "source_op \<Rightarrow> u32 \<Rightarrow> HRESULT \<Rightarrow> source_client" where
  "after_call op com hr =
     (case op of
        Op_Active \<Rightarrow> if com = CMD_INIT then (if FAILED hr then Cl_Done Op_Active hr else calling Op_Active CMD_PAUSE) else Cl_Done Op_Active hr
      | Op_Inactive \<Rightarrow> if FAILED hr then Cl_Done Op_Inactive hr else if com = CMD_STOP then calling Op_Inactive CMD_EXIT else Cl_Close
      | Op_Command \<Rightarrow> Cl_Done Op_Command hr)"

text \<open>\<open>Cl_Done\<close>: \<open>CBaseFilter::Pause\<close> and \<open>Stop\<close> take the answer of the pin.\<close>

definition source_client_step :: "source_world \<Rightarrow> source_world option" where
  "source_client_step x =
     (case client x of
        Cl_Idle \<Rightarrow> None
      | Cl_Calling op com c \<Rightarrow> (case CallWorker c (thr x) of
            None \<Rightarrow> None
          | Some (Call_goes_on c', t) \<Rightarrow> Some (x\<lparr>thr := t, client := Cl_Calling op com c'\<rparr>)
          | Some (Call_returns hr, t) \<Rightarrow> Some (x\<lparr>thr := t, client := after_call op com hr\<rparr>))
      | Cl_Close \<Rightarrow> (let (b, t) = Close_take (thr x) in Some (x\<lparr>thr := t, client := if b then Cl_Closing else Cl_Done Op_Inactive NOERROR\<rparr>))
      | Cl_Closing \<Rightarrow> if now_at (wk x) = S_Gone then Some (x\<lparr>client := Cl_Done Op_Inactive NOERROR\<rparr>) else None
      | Cl_Done op hr \<Rightarrow> Some (x\<lparr>client := Cl_Idle,
            m_State := (case op of Op_Active \<Rightarrow> if FAILED hr then m_State x else State_Paused | Op_Inactive \<Rightarrow> State_Stopped | Op_Command \<Rightarrow> m_State x)\<rparr>))"

text \<open>The filter: unconnected pins are left alone.\<close>

definition Source_Pause :: "bool \<Rightarrow> HRESULT \<Rightarrow> source_world \<Rightarrow> source_world" where
  "Source_Pause ok commit x =
     (if m_State x = State_Stopped \<and> m_Connected (wk x) then Source_Active ok commit x else x\<lparr>m_State := State_Paused\<rparr>)"

definition Source_Stop :: "HRESULT \<Rightarrow> source_world \<Rightarrow> source_world" where
  "Source_Stop decommit x =
     (if m_State x \<noteq> State_Stopped \<and> m_Connected (wk x) then Source_Inactive decommit x else x\<lparr>m_State := State_Stopped\<rparr>)"

section \<open>Interleaving\<close>

definition worker_moves :: "source_world \<Rightarrow> source_world \<Rightarrow> bool" where
  "worker_moves x y \<longleftrightarrow> (\<exists>a w t. source_worker_step a (wk x) (thr x) = Some (w, t) \<and> y = x\<lparr>wk := w, thr := t\<rparr>)"

definition client_moves :: "source_world \<Rightarrow> source_world \<Rightarrow> bool" where
  "client_moves x y \<longleftrightarrow> source_client_step x = Some y"

text \<open>The application gives commands to run, pause or stop only, when no other call is in progress (the lock of the filter); \<open>Source_Run\<close> of a stopped filter is
  \<open>Source_Pause\<close> and then this. Pins are connected and disconnected while the filter is stopped.\<close>

inductive source_step :: "source_world \<Rightarrow> source_world \<Rightarrow> bool" where
  worker: "worker_moves x y \<Longrightarrow> source_step x y"
| client: "client_moves x y \<Longrightarrow> source_step x y"
| pause: "client x = Cl_Idle \<Longrightarrow> source_step x (Source_Pause ok commit x)"
| stop: "client x = Cl_Idle \<Longrightarrow> source_step x (Source_Stop decommit x)"
| run: "client x = Cl_Idle \<Longrightarrow> m_State x \<noteq> State_Stopped \<Longrightarrow> source_step x (x\<lparr>m_State := State_Running\<rparr>)"
| command: "client x = Cl_Idle \<Longrightarrow> com \<in> {CMD_RUN, CMD_PAUSE, CMD_STOP} \<Longrightarrow> source_step x (x\<lparr>client := calling Op_Command com\<rparr>)"
| connection: "client x = Cl_Idle \<Longrightarrow> m_State x = State_Stopped \<Longrightarrow> source_step x (x\<lparr>wk := (wk x)\<lparr>m_Connected := c, m_pAllocator := c\<rparr>\<rparr>)"
| downstream: "0 < kept (wk x) b \<Longrightarrow>
    source_step x (x\<lparr>wk := (wk x)\<lparr>refs := (refs (wk x))(b := refs (wk x) b - 1), kept := (kept (wk x))(b := kept (wk x) b - 1)\<rparr>\<rparr>)"

definition source_start :: "CAMThread \<Rightarrow> source_world" where
  "source_start t = \<lparr>wk = \<lparr>now_at = S_Gone, m_pAllocator = False, m_Connected = False, active = False, refs = (\<lambda>b. 0), kept = (\<lambda>b. 0), happened = []\<rparr>,
     thr = new_CAMThread t, client = Cl_Idle, m_State = State_Stopped\<rparr>"

inductive source_reachable :: "source_world \<Rightarrow> bool" where
  init: "source_reachable (source_start t)"
| step: "source_reachable x \<Longrightarrow> source_step x y \<Longrightarrow> source_reachable y"

end
