(* ===== verification/Source_Stream_Props.thy ===== *)
theory Source_Stream_Props
  imports Source_Stream
begin

text \<open>
  Facts about source filters: the array of pins is a list and pins are found by their identifiers; each command is answered, \<open>Inactive\<close> ends, each buffer
  is released once; and a thread that fails to initialise leaves the pin unusable.
\<close>

section \<open>The worker answers\<close>

fun source_debt :: "source_pc \<Rightarrow> debt" where
  "source_debt S_OnCreate = Owes"
| "source_debt (S_CreateFailed hr) = Owes"
| "source_debt (S_Reply r p) = (if r = Reply_set then Signals else Owes)"
| "source_debt p = Free"

text \<open>Where the worker may go on after a reply, and after it has released a buffer.\<close>

fun source_valid :: "source_pc \<Rightarrow> bool" where
  "source_valid (S_Reply r p) \<longleftrightarrow> p \<in> {S_Gone, S_GetInit, S_GetCommand, S_StartPlay, S_Check, S_OnDestroy}"
| "source_valid (S_Release b p) \<longleftrightarrow> p \<in> {S_Check, S_GetCommand} \<union> range S_EndOfStream"
| "source_valid p \<longleftrightarrow> True"

fun source_rank :: "source_pc \<Rightarrow> nat" where
  "source_rank S_Gone = 0"
| "source_rank S_OnDestroy = 1"
| "source_rank (S_Reply r p) = (case r of Reply_value dw \<Rightarrow> 3 | Reply_reset \<Rightarrow> 2 | Reply_set \<Rightarrow> 1)"
| "source_rank S_GetCommand = 4"
| "source_rank (S_CreateFailed hr) = 4"
| "source_rank S_OnCreate = 5"
| "source_rank S_GetInit = 6"
| "source_rank S_Check = 5"
| "source_rank S_StartPlay = 6"
| "source_rank (S_Notify hr) = 5"
| "source_rank (S_EndOfStream r) = 6"
| "source_rank (S_Release b p) = Suc (source_rank p)"
| "source_rank (S_Deliver b) = 7"
| "source_rank (S_Fill b) = 8"
| "source_rank S_GetBuffer = 9"

definition source_able :: "source_worker \<Rightarrow> bool" where
  "source_able w \<longleftrightarrow> now_at w \<noteq> S_Gone \<and> now_at w \<noteq> S_OnDestroy \<and> \<not> (m_pAllocator w \<and> active w)"

lemmas source_moves_simps = source_worker_step_def did_def Let_def GetRequest_def CheckRequest_def ThreadProc_init_def ThreadProc_created_def ThreadProc_command_def
  DoBuffer_command_def DoBuffer_filled_def DoBuffer_delivered_def GetDeliveryBuffer_def Source_Deliver_def

lemma Reply_cases: "Reply r t = (r', t') \<Longrightarrow>
    (\<exists>dw. r = Reply_value dw \<and> r' = Some Reply_reset \<and> t' = t\<lparr>m_dwReturnVal := dw\<rparr>) \<or>
    r = Reply_reset \<and> r' = Some Reply_set \<and> t' = t\<lparr>m_EventSend := False\<rparr> \<or> r = Reply_set \<and> r' = None \<and> t' = t\<lparr>m_EventComplete := True\<rparr>"
  by (cases r) auto

lemmas source_splits = option.splits if_splits buffer_answer.splits prod.splits

lemma source_step_valid: "source_worker_step a w t = Some (w', t') \<Longrightarrow> source_valid (now_at w) \<Longrightarrow> source_valid (now_at w')"
  by (cases "now_at w") (auto simp: source_moves_simps split: source_splits dest: Reply_cases)

lemma source_step_free:
  "source_worker_step a w t = Some (w', t') \<Longrightarrow> source_valid (now_at w) \<Longrightarrow> source_debt (now_at w) = Free \<Longrightarrow>
    t' = t \<and> (source_debt (now_at w') = Free \<or> source_debt (now_at w') = Owes \<and> m_EventSend t)"
  by (cases "now_at w") (auto simp: source_moves_simps split: source_splits)

lemma source_step_owes:
  "source_worker_step a w t = Some (w', t') \<Longrightarrow> source_valid (now_at w) \<Longrightarrow> source_debt (now_at w) = Owes \<Longrightarrow>
    source_debt (now_at w') = Owes \<and> (\<exists>dw. t' = t\<lparr>m_dwReturnVal := dw\<rparr>) \<or> source_debt (now_at w') = Signals \<and> t' = t\<lparr>m_EventSend := False\<rparr>"
  by (cases "now_at w") (auto simp: source_moves_simps intro: exI [of _ "m_dwReturnVal t"] split: source_splits dest!: Reply_cases)

lemma source_step_signals:
  "source_worker_step a w t = Some (w', t') \<Longrightarrow> source_valid (now_at w) \<Longrightarrow> source_debt (now_at w) = Signals \<Longrightarrow>
    source_debt (now_at w') = Free \<and> t' = t\<lparr>m_EventComplete := True\<rparr>"
  by (cases "now_at w") (auto simp: source_moves_simps split: source_splits dest!: Reply_cases)

lemma source_step_moves:
  "source_able w \<Longrightarrow> pending (source_debt (now_at w)) t \<Longrightarrow> source_worker_step a w t \<noteq> None"
  by (cases "now_at w") (auto simp: source_moves_simps source_able_def pending_def split: source_splits)

lemma source_step_nearer:
  "source_worker_step a w t = Some (w', t') \<Longrightarrow> source_valid (now_at w) \<Longrightarrow> pending (source_debt (now_at w)) t \<Longrightarrow>
    pending (source_debt (now_at w')) t' \<Longrightarrow> source_rank (now_at w') < source_rank (now_at w)"
  by (cases "now_at w") (auto simp: source_moves_simps pending_def split: source_splits dest!: Reply_cases)

lemma source_step_able:
  "source_worker_step a w t = Some (w', t') \<Longrightarrow> source_valid (now_at w) \<Longrightarrow> pending (source_debt (now_at w)) t \<Longrightarrow>
    pending (source_debt (now_at w')) t' \<Longrightarrow> source_able w \<Longrightarrow> source_able w'"
  by (cases "now_at w") (auto simp: source_moves_simps pending_def source_able_def split: source_splits dest!: Reply_cases)

interpretation sw: worker_thread source_worker_step "\<lambda>w. source_valid (now_at w)" "\<lambda>w. source_debt (now_at w)" "\<lambda>w. source_rank (now_at w)" source_able UNIV
  by unfold_locales (rule source_step_valid source_step_free source_step_owes source_step_signals source_step_nearer source_step_able source_step_moves; assumption)+

section \<open>Worker and client\<close>

text \<open>The worker is initialised and has not been told to end.\<close>

fun source_up :: "source_pc \<Rightarrow> bool" where
  "source_up (S_Reply r p) = source_up p"
| "source_up (S_Release b p) = source_up p"
| "source_up p \<longleftrightarrow> p \<notin> {S_Gone, S_GetInit, S_OnCreate, S_OnDestroy} \<union> range S_CreateFailed"

definition op_commands :: "source_op \<Rightarrow> u32 set" where
  "op_commands op = (case op of Op_Active \<Rightarrow> {CMD_INIT, CMD_PAUSE} | Op_Inactive \<Rightarrow> {CMD_STOP, CMD_EXIT} | Op_Command \<Rightarrow> {CMD_RUN, CMD_PAUSE, CMD_STOP})"

text \<open>Where the worker may be before it replies to a command, and where it goes on with which reply.\<close>

definition before_reply :: "source_op \<Rightarrow> u32 \<Rightarrow> source_pc \<Rightarrow> bool" where
  "before_reply op com p \<longleftrightarrow>
     (case op of
        Op_Active \<Rightarrow> if com = CMD_INIT then p = S_GetInit \<or> p = S_OnCreate \<or> (\<exists>hr. p = S_CreateFailed hr \<and> FAILED hr) else source_up p
      | Op_Inactive \<Rightarrow> if com = CMD_STOP then source_up p \<or> p = S_Gone else p = S_GetCommand
      | Op_Command \<Rightarrow> source_up p \<or> p = S_Gone)"

definition after_reply :: "source_op \<Rightarrow> u32 \<Rightarrow> source_pc \<Rightarrow> u32 \<Rightarrow> bool" where
  "after_reply op com p dw \<longleftrightarrow>
     (case op of
        Op_Active \<Rightarrow> if com = CMD_INIT \<and> FAILED dw then p = S_Gone else source_up p
      | Op_Inactive \<Rightarrow> dw = NOERROR \<and> (if com = CMD_STOP then p = S_GetCommand else p = S_OnDestroy \<or> p = S_Gone)
      | Op_Command \<Rightarrow> source_up p)"

definition reply_inv :: "source_op \<Rightarrow> u32 \<Rightarrow> source_pc \<Rightarrow> CAMThread \<Rightarrow> bool" where
  "reply_inv op com p t \<longleftrightarrow>
     (case p of
        S_Reply r q \<Rightarrow> after_reply op com q (case r of Reply_value dw \<Rightarrow> dw | _ \<Rightarrow> m_dwReturnVal t)
      | _ \<Rightarrow> if m_EventComplete t then after_reply op com p (m_dwReturnVal t) else before_reply op com p)"

fun client_inv :: "source_client \<Rightarrow> source_pc \<Rightarrow> CAMThread \<Rightarrow> bool" where
  "client_inv (Cl_Calling op com c) p t \<longleftrightarrow> com \<in> op_commands op \<and> (c = Call_enter com \<or> m_dwParam t = com \<and> (c = Call_send \<or> c = Call_wait)) \<and>
     (m_hThread t \<or> op = Op_Command \<and> c = Call_enter com \<and> p = S_Gone) \<and> reply_inv op com p t"
| "client_inv Cl_Close p t \<longleftrightarrow> m_hThread t \<and> (p = S_OnDestroy \<or> p = S_Gone)"
| "client_inv Cl_Closing p t \<longleftrightarrow> \<not> m_hThread t \<and> (p = S_OnDestroy \<or> p = S_Gone)"
| "client_inv cl p t \<longleftrightarrow> p = S_Gone \<or> m_hThread t \<and> source_up p"

fun call_of :: "source_client \<Rightarrow> call_at option" where
  "call_of (Cl_Calling op com c) = Some c"
| "call_of cl = None"

definition source_inv :: "source_world \<Rightarrow> bool" where
  "source_inv x \<longleftrightarrow> source_valid (now_at (wk x)) \<and> sw.handshake (call_of (client x)) (wk x) (thr x) \<and> client_inv (client x) (now_at (wk x)) (thr x)"

lemma reply_inv_cong: "reply_inv op com p (t\<lparr>m_dwParam := d\<rparr>) = reply_inv op com p t" "reply_inv op com p (t\<lparr>m_EventSend := e\<rparr>) = reply_inv op com p t"
  by (cases p; simp add: reply_inv_def split: reply_at.split)+

lemma cmd_distinct [simp]: "CMD_INIT \<noteq> CMD_PAUSE" "CMD_INIT \<noteq> CMD_RUN" "CMD_INIT \<noteq> CMD_STOP" "CMD_INIT \<noteq> CMD_EXIT" "CMD_PAUSE \<noteq> CMD_INIT" "CMD_PAUSE \<noteq> CMD_RUN"
  "CMD_PAUSE \<noteq> CMD_STOP" "CMD_PAUSE \<noteq> CMD_EXIT" "CMD_RUN \<noteq> CMD_INIT" "CMD_RUN \<noteq> CMD_PAUSE" "CMD_RUN \<noteq> CMD_STOP" "CMD_RUN \<noteq> CMD_EXIT" "CMD_STOP \<noteq> CMD_INIT"
  "CMD_STOP \<noteq> CMD_PAUSE" "CMD_STOP \<noteq> CMD_RUN" "CMD_STOP \<noteq> CMD_EXIT" "CMD_EXIT \<noteq> CMD_INIT" "CMD_EXIT \<noteq> CMD_PAUSE" "CMD_EXIT \<noteq> CMD_RUN" "CMD_EXIT \<noteq> CMD_STOP"
  by (simp_all add: hr_defs)

lemma reply_inv_worker:
  assumes "source_worker_step a w t = Some (w', t')" and "source_valid (now_at w)" and "sw.handshake (Some c) w t" and "com \<in> op_commands op"
    and "c = Call_enter com \<or> m_dwParam t = com" and "reply_inv op com (now_at w) t"
  shows "reply_inv op com (now_at w') t'"
proof (cases op)
  case Op_Active
  with assms show ?thesis
    by (cases "now_at w") (auto simp: source_moves_simps sw.handshake_def reply_inv_def op_commands_def before_reply_def after_reply_def split: source_splits dest!: Reply_cases)
next
  case Op_Inactive
  with assms show ?thesis
    by (cases "now_at w") (auto simp: source_moves_simps sw.handshake_def reply_inv_def op_commands_def before_reply_def after_reply_def split: source_splits dest!: Reply_cases)
next
  case Op_Command
  with assms show ?thesis
    by (cases "now_at w") (auto simp: source_moves_simps sw.handshake_def reply_inv_def op_commands_def before_reply_def after_reply_def split: source_splits dest!: Reply_cases)
qed

lemma quiet_worker:
  assumes "source_worker_step a w t = Some (w', t')" and "source_valid (now_at w)" and "\<not> m_EventSend t" and "source_debt (now_at w) = Free"
  shows "source_up (now_at w) \<longrightarrow> source_up (now_at w')" and "now_at w \<noteq> S_Gone" and "now_at w = S_OnDestroy \<longrightarrow> now_at w' = S_Gone"
  using assms by (cases "now_at w"; auto simp: source_moves_simps split: source_splits)+

lemma source_inv_worker: "source_inv x \<Longrightarrow> worker_moves x y \<Longrightarrow> source_inv y"
proof -
  assume i: "source_inv x" and "worker_moves x y"
  then obtain a w t where s: "source_worker_step a (wk x) (thr x) = Some (w, t)" and y: "y = x\<lparr>wk := w, thr := t\<rparr>" by (auto simp: worker_moves_def)
  have v: "source_valid (now_at (wk x))" and h: "sw.handshake (call_of (client x)) (wk x) (thr x)" and c: "client_inv (client x) (now_at (wk x)) (thr x)"
    using i by (auto simp: source_inv_def)
  have k: "m_hThread t = m_hThread (thr x)" "m_dwParam t = m_dwParam (thr x)" using sw.worker_keeps [OF s v] by auto
  have "client_inv (client x) (now_at w) t"
  proof (cases "client x")
    case (Cl_Calling op com c')
    moreover have "now_at (wk x) \<noteq> S_Gone" using s by (auto simp: source_worker_step_def)
    ultimately show ?thesis using c h reply_inv_worker [OF s v, of c' com op] k by auto
  qed (use c h quiet_worker [OF s v] k in \<open>auto simp: sw.handshake_def\<close>)
  then show ?thesis using source_step_valid [OF s v] sw.handshake_worker [OF h v s] by (simp add: source_inv_def y)
qed

lemma source_inv_client: "source_inv x \<Longrightarrow> client_moves x y \<Longrightarrow> source_inv y"
proof -
  assume i: "source_inv x" and "client_moves x y"
  then have s: "source_client_step x = Some y" by (simp add: client_moves_def)
  have v: "source_valid (now_at (wk x))" and h: "sw.handshake (call_of (client x)) (wk x) (thr x)" and c: "client_inv (client x) (now_at (wk x)) (thr x)"
    using i by (auto simp: source_inv_def)
  show ?thesis
  proof (cases "client x")
    case (Cl_Calling op com c')
    then obtain r t where r: "CallWorker c' (thr x) = Some (r, t)" using s by (auto simp: source_client_step_def split: option.splits)
    have h': "sw.handshake (case r of Call_goes_on c' \<Rightarrow> Some c' | Call_returns dw \<Rightarrow> None) (wk x) t" using sw.handshake_client [OF _ r] h Cl_Calling by auto
    show ?thesis
    proof (cases r)
      case (Call_goes_on c2)
      then have y: "y = x\<lparr>thr := t, client := Cl_Calling op com c2\<rparr>" using s r Cl_Calling by (auto simp: source_client_step_def)
      have "client_inv (Cl_Calling op com c2) (now_at (wk x)) t"
        using r Call_goes_on c Cl_Calling by (cases c') (auto simp: ThreadExists_def reply_inv_cong split: if_splits)
      then show ?thesis using v h' Call_goes_on by (simp add: source_inv_def y)
    next
      case (Call_returns dw)
      then have y: "y = x\<lparr>thr := t, client := after_call op com dw\<rparr>" using s r Cl_Calling by (auto simp: source_client_step_def)
      have q: "\<not> m_EventComplete t" "source_debt (now_at (wk x)) = Free" using h' Call_returns by (auto simp: sw.handshake_def)
      consider "c' = Call_enter com" "t = thr x" "now_at (wk x) = S_Gone" "op = Op_Command" | "c' = Call_wait" "after_reply op com (now_at (wk x)) dw" "m_hThread t" "com \<in> op_commands op"
        using r Call_returns c Cl_Calling q(2) by (cases c') (auto simp: ThreadExists_def reply_inv_def split: if_splits source_pc.splits)
      then have "client_inv (after_call op com dw) (now_at (wk x)) t \<and> sw.handshake (call_of (after_call op com dw)) (wk x) t"
      proof cases
        case 1
        then show ?thesis using h' Call_returns by (auto simp: after_call_def sw.handshake_def)
      next
        case 2
        then show ?thesis using h' Call_returns
          by (cases op) (auto simp: after_call_def sw.handshake_def reply_inv_def op_commands_def before_reply_def after_reply_def split: source_pc.splits)
      qed
      then show ?thesis using v by (simp add: source_inv_def y)
    qed
  qed (use s v h c in \<open>auto simp: source_client_step_def source_inv_def Close_take_def sw.handshake_def split: if_splits\<close>)
qed

lemma source_inv_step: "source_inv x \<Longrightarrow> source_step x y \<Longrightarrow> source_inv y"
proof (erule source_step.cases, goal_cases)
  case (1 x' y')
  then show ?case using source_inv_worker by simp
next
  case (2 x' y')
  then show ?case using source_inv_client by simp
next
  case (3 x' ok commit)
  then show ?case
    by (auto simp: source_inv_def Source_Pause_def Source_Active_def IsActive_def output_Active_def Create_def ThreadExists_def Let_def sw.handshake_def
      op_commands_def reply_inv_def before_reply_def split: if_splits)
next
  case (4 x' decommit)
  then show ?case
    by (auto simp: source_inv_def Source_Stop_def Source_Inactive_def output_Inactive_def ThreadExists_def Let_def sw.handshake_def
      op_commands_def reply_inv_def before_reply_def split: if_splits source_pc.splits)
next
  case (6 x' com)
  then show ?case
    by (auto simp: source_inv_def sw.handshake_def op_commands_def reply_inv_def before_reply_def split: if_splits source_pc.splits)
qed (auto simp: source_inv_def sw.handshake_def)

lemma source_inv_reachable: "source_reachable x \<Longrightarrow> source_inv x"
proof (induction rule: source_reachable.induct)
  case (init t)
  then show ?case by (simp add: source_inv_def source_start_def new_CAMThread_def sw.handshake_def)
qed (rule source_inv_step)

section \<open>Buffers and what is done with them\<close>

fun in_hand :: "source_pc \<Rightarrow> nat option" where
  "in_hand (S_Fill b) = Some b"
| "in_hand (S_Deliver b) = Some b"
| "in_hand (S_Release b p) = Some b"
| "in_hand p = None"

text \<open>The order in which a worker may do things. \<open>Ph_ready\<close>: it has a thread and does not play.\<close>

datatype source_phase = Ph_off | Ph_ready | Ph_playing | Ph_has nat | Ph_gave nat HRESULT | Ph_ending | Ph_ended

fun next_phase :: "source_phase \<Rightarrow> source_event \<Rightarrow> source_phase option" where
  "next_phase Ph_off Thread_created = Some Ph_ready"
| "next_phase Ph_playing (Got b) = Some (Ph_has b)"
| "next_phase (Ph_has b) (Delivered b' hr) = (if b' = b then Some (Ph_gave b hr) else None)"
| "next_phase (Ph_has b) (Released b') = (if b' = b then Some Ph_ending else None)"
| "next_phase (Ph_gave b hr) (Released b') = (if b' = b then Some (if hr = S_OK then Ph_playing else Ph_ready) else None)"
| "next_phase Ph_ending Stream_ended = Some Ph_ended"
| "next_phase Ph_ending (Aborted hr) = Some Ph_ready"
| "next_phase Ph_ended (Aborted hr) = Some Ph_ready"
| "next_phase ph Play_started = (if ph \<in> {Ph_ready, Ph_playing, Ph_ending, Ph_ended} then Some Ph_playing else None)"
| "next_phase ph Thread_destroyed = (if ph \<in> {Ph_ready, Ph_playing, Ph_ending, Ph_ended} then Some Ph_off else None)"
| "next_phase ph e = None"

text \<open>The phase after events, the latest first.\<close>

fun phase_after :: "source_event list \<Rightarrow> source_phase option" where
  "phase_after [] = Some Ph_off"
| "phase_after (e # es) = (case phase_after es of None \<Rightarrow> None | Some ph \<Rightarrow> next_phase ph e)"

fun phases_at :: "source_pc \<Rightarrow> source_phase set" where
  "phases_at (S_Fill b) = {Ph_has b}"
| "phases_at (S_Deliver b) = {Ph_has b}"
| "phases_at (S_Release b p) = (if p = S_Check then {Ph_gave b S_OK} else if p = S_GetCommand then {Ph_has b} \<union> Ph_gave b ` (- {S_OK}) else {Ph_has b})"
| "phases_at (S_EndOfStream r) = {Ph_ending}"
| "phases_at (S_Notify hr) = {Ph_ending, Ph_ended}"
| "phases_at (S_CreateFailed hr) = {Ph_ready}"
| "phases_at (S_Reply r p) = phases_at p"
| "phases_at p = (if p = S_Check \<or> p = S_GetBuffer then {Ph_playing} else if p \<in> {S_GetCommand, S_StartPlay, S_OnDestroy} then {Ph_ready, Ph_playing, Ph_ending, Ph_ended}
    else {Ph_off})"

definition buffers_inv :: "source_worker \<Rightarrow> bool" where
  "buffers_inv w \<longleftrightarrow> (\<forall>b. refs w b = int (kept w b) + (if in_hand (now_at w) = Some b then 1 else 0))"

definition phase_inv :: "source_worker \<Rightarrow> bool" where
  "phase_inv w \<longleftrightarrow> (\<exists>ph. phase_after (happened w) = Some ph \<and> ph \<in> phases_at (now_at w))"

lemma buffers_inv_worker: "source_worker_step a w t = Some (w', t') \<Longrightarrow> source_valid (now_at w) \<Longrightarrow> buffers_inv w \<Longrightarrow> buffers_inv w'"
  by (cases "now_at w"; auto simp: source_moves_simps buffers_inv_def split: source_splits dest!: Reply_cases; metis)

lemma phase_inv_worker: "source_worker_step a w t = Some (w', t') \<Longrightarrow> source_valid (now_at w) \<Longrightarrow> phase_inv w \<Longrightarrow> phase_inv w'"
  by (cases "now_at w") (auto simp: source_moves_simps phase_inv_def hr_defs split: source_splits dest!: Reply_cases)

definition stream_inv :: "source_world \<Rightarrow> bool" where
  "stream_inv x \<longleftrightarrow> source_inv x \<and> buffers_inv (wk x) \<and> phase_inv (wk x)"

lemma source_invD: "source_inv x \<Longrightarrow> source_valid (now_at (wk x))" "source_inv x \<Longrightarrow> sw.handshake (call_of (client x)) (wk x) (thr x)"
  "source_inv x \<Longrightarrow> client_inv (client x) (now_at (wk x)) (thr x)"
  by (simp_all add: source_inv_def)

lemma client_keeps_worker: "client_moves x y \<Longrightarrow> wk y = wk x"
  by (auto simp: client_moves_def source_client_step_def Let_def split: source_client.splits option.splits prod.splits call_result.splits if_splits)

lemma stream_inv_step: "stream_inv x \<Longrightarrow> source_step x y \<Longrightarrow> stream_inv y"
proof -
  assume i: "stream_inv x" and s: "source_step x y"
  from s i have "buffers_inv (wk y) \<and> phase_inv (wk y)"
  proof (cases rule: source_step.cases)
    case worker
    then obtain a w t where "source_worker_step a (wk x) (thr x) = Some (w, t)" "wk y = w" by (auto simp: worker_moves_def)
    then show ?thesis using i buffers_inv_worker phase_inv_worker by (auto simp: stream_inv_def source_invD(1))
  next
    case client
    then show ?thesis using i client_keeps_worker by (auto simp: stream_inv_def)
  next
    case (pause ok commit)
    then have "now_at (wk x) = S_Gone \<or> m_hThread (thr x)" using i by (auto simp: stream_inv_def source_inv_def)
    then show ?thesis using i pause
      by (auto simp: stream_inv_def buffers_inv_def phase_inv_def Source_Pause_def Source_Active_def output_Active_def Create_def ThreadExists_def Let_def split: if_splits)
  next
    case (stop decommit)
    then show ?thesis using i
      by (auto simp: stream_inv_def buffers_inv_def phase_inv_def Source_Stop_def Source_Inactive_def output_Inactive_def Let_def split: if_splits)
  next
    case (downstream b)
    then show ?thesis using i by (auto simp: stream_inv_def buffers_inv_def phase_inv_def of_nat_diff)
  qed (auto simp: stream_inv_def buffers_inv_def phase_inv_def)
  then show ?thesis using i source_inv_step [OF _ s] by (simp add: stream_inv_def)
qed

lemma stream_inv_reachable: "source_reachable x \<Longrightarrow> stream_inv x"
proof (induction rule: source_reachable.induct)
  case (init t)
  then show ?case using source_inv_reachable [OF source_reachable.init] by (simp add: stream_inv_def buffers_inv_def phase_inv_def source_start_def)
qed (rule stream_inv_step)

text \<open>In every interleaving, each buffer has the references of the filters downstream and one more while the worker has it in hand, so each is released exactly
  once; what the worker does is ordered: it fills only while it plays, gives each buffer downstream at most once and before it releases it, does not go on after
  the filter downstream has answered otherwise than \<open>S_OK\<close> or the stream has ended, until it is told to play. When there is no thread it is at its end.\<close>

theorem source_stream_order:
  assumes "source_reachable x"
  shows "(\<forall>b. refs (wk x) b = int (kept (wk x) b) + (if in_hand (now_at (wk x)) = Some b then 1 else 0)) \<and>
    (\<exists>ph. phase_after (happened (wk x)) = Some ph \<and> ph \<in> phases_at (now_at (wk x))) \<and>
    (client x = Cl_Idle \<and> \<not> m_hThread (thr x) \<longrightarrow> (\<forall>b. refs (wk x) b = int (kept (wk x) b)) \<and> (\<nexists>y. worker_moves x y))"
proof -
  have i: "stream_inv x" using stream_inv_reachable assms by blast
  then have "now_at (wk x) = S_Gone" if "client x = Cl_Idle" "\<not> m_hThread (thr x)" using that by (auto simp: stream_inv_def source_inv_def)
  then show ?thesis using i by (auto simp: stream_inv_def buffers_inv_def phase_inv_def worker_moves_def source_worker_step_def)
qed

section \<open>Stopping ends\<close>

text \<open>How far the client is in \<open>Inactive\<close>, and what is left of it, with the worker's part.\<close>

fun stop_stage :: "source_client \<Rightarrow> nat" where
  "stop_stage (Cl_Calling op com c) =
     (if op = Op_Inactive then (if com = CMD_STOP then 6 else 3) + (case c of Call_enter p \<Rightarrow> 2 | Call_send \<Rightarrow> 1 | Call_wait \<Rightarrow> 0) else 0)"
| "stop_stage Cl_Close = 2"
| "stop_stage Cl_Closing = 1"
| "stop_stage cl = 0"

definition stop_left :: "source_world \<Rightarrow> nat" where
  "stop_left x = 10 * stop_stage (client x) +
     (if pending (source_debt (now_at (wk x))) (thr x) \<or> client x = Cl_Closing then source_rank (now_at (wk x)) else 0)"

definition stopping :: "source_world \<Rightarrow> bool" where
  "stopping x \<longleftrightarrow> source_inv x \<and> 0 < stop_stage (client x) \<and> \<not> (m_pAllocator (wk x) \<and> active (wk x)) \<and>
     (\<forall>c. client x = Cl_Calling Op_Inactive CMD_STOP c \<longrightarrow> now_at (wk x) \<noteq> S_Gone)"

definition stopped :: "source_world \<Rightarrow> bool" where
  "stopped x \<longleftrightarrow> client x = Cl_Done Op_Inactive NOERROR \<and> \<not> m_hThread (thr x) \<and> now_at (wk x) = S_Gone"

lemma source_rank_bound: "source_valid p \<Longrightarrow> source_rank p < 10"
  by (cases p) (auto split: reply_at.split)

lemma stopping_worker:
  assumes s: "stopping x" and w: "worker_moves x y"
  shows "stopping y" and "stop_left y \<le> stop_left x" and "source_client_step x = None \<Longrightarrow> stop_left y < stop_left x"
    and "source_client_step x \<noteq> None \<Longrightarrow> source_client_step y \<noteq> None"
proof -
  have i: "source_inv x" using s by (simp add: stopping_def)
  obtain a w' t' where st: "source_worker_step a (wk x) (thr x) = Some (w', t')" and y: "y = x\<lparr>wk := w', thr := t'\<rparr>" using w by (auto simp: worker_moves_def)
  note v = source_invD(1) [OF i] and h = source_invD(2) [OF i] and c = source_invD(3) [OF i]
  have iy: "source_inv y" using source_inv_worker [OF i w] .
  have alloc: "m_pAllocator w' = m_pAllocator (wk x) \<and> active w' = active (wk x)"
    using st by (cases "now_at (wk x)") (auto simp: source_moves_simps split: source_splits)
  have "now_at w' \<noteq> S_Gone" if cl: "client x = Cl_Calling Op_Inactive CMD_STOP k" for k
  proof
    assume g: "now_at w' = S_Gone"
    have "client_inv (client x) (now_at w') t'" using source_invD(3) [OF iy] y by simp
    moreover have "now_at (wk x) \<in> {S_OnDestroy, S_Reply Reply_set S_Gone}"
      using st v g by (cases "now_at (wk x)") (auto simp: source_moves_simps split: source_splits dest!: Reply_cases)
    ultimately show False using c cl by (auto simp: reply_inv_def before_reply_def after_reply_def split: if_splits)
  qed
  then show "stopping y" using s iy alloc y by (auto simp: stopping_def)
  have drop: "pending (source_debt (now_at (wk x))) (thr x) \<Longrightarrow> stop_left y < stop_left x \<and> client x \<noteq> Cl_Closing"
  proof -
    assume p: "pending (source_debt (now_at (wk x))) (thr x)"
    have n: "client x \<noteq> Cl_Closing" using p h by (auto simp: sw.handshake_def pending_def)
    moreover have "0 < source_rank (now_at (wk x))" using p st by (cases "now_at (wk x)") (auto simp: source_worker_step_def split: reply_at.split)
    ultimately show "stop_left y < stop_left x \<and> client x \<noteq> Cl_Closing"
      using source_step_nearer [OF st v p] p by (auto simp: stop_left_def y)
  qed
  have quiet: "stop_left y \<le> stop_left x \<and> (client x = Cl_Closing \<longrightarrow> stop_left y < stop_left x)"
    if p: "\<not> pending (source_debt (now_at (wk x))) (thr x)"
  proof -
    have q: "\<not> m_EventSend (thr x)" "source_debt (now_at (wk x)) = Free" using p h by (auto simp: sw.handshake_def pending_def split: if_splits)
    then have "t' = thr x" "source_debt (now_at w') = Free" using sw.free [OF st v] by auto
    then have np: "\<not> pending (source_debt (now_at w')) t'" using q by (simp add: pending_def)
    show ?thesis
    proof (cases "client x = Cl_Closing")
      case True
      then have "now_at (wk x) = S_OnDestroy" using c quiet_worker(2) [OF st v q] by auto
      then show ?thesis using quiet_worker(3) [OF st v q] True by (auto simp: stop_left_def y pending_def)
    qed (use p np in \<open>simp add: stop_left_def y\<close>)
  qed
  show "stop_left y \<le> stop_left x" using drop quiet by fastforce
  show "stop_left y < stop_left x" if b: "source_client_step x = None"
  proof (cases "client x")
    case (Cl_Calling op com k)
    then have "CallWorker k (thr x) = None" using b by (auto simp: source_client_step_def split: option.splits call_result.splits)
    then show ?thesis using drop sw.handshake_blocked [of k "wk x" "thr x"] h Cl_Calling by auto
  qed (use b s quiet drop in \<open>auto simp: source_client_step_def stopping_def Close_take_def split: if_splits\<close>)
  show "source_client_step y \<noteq> None" if b: "source_client_step x \<noteq> None"
  proof (cases "client x")
    case (Cl_Calling op com k)
    then have "CallWorker k (thr x) \<noteq> None" using b by (auto simp: source_client_step_def split: option.splits call_result.splits)
    then have "CallWorker k t' \<noteq> None"
      using h Cl_Calling sw.free [OF st v] by (cases k) (auto simp: sw.handshake_def ThreadExists_def split: if_splits)
    then show ?thesis using Cl_Calling by (auto simp: source_client_step_def y split: option.splits call_result.splits)
  next
    case Cl_Closing
    then show ?thesis using b st by (auto simp: source_client_step_def source_worker_step_def split: if_splits)
  qed (use b in \<open>auto simp: source_client_step_def y Close_take_def split: if_splits\<close>)
qed

lemma stopping_client:
  assumes s: "stopping x" and w: "client_moves x y"
  shows "stop_left y < stop_left x" and "stopped y \<or> stopping y"
proof -
  have i: "source_inv x" using s by (simp add: stopping_def)
  note v = source_invD(1) [OF i] and h = source_invD(2) [OF i] and c = source_invD(3) [OF i]
  have iy: "source_inv y" using source_inv_client [OF i w] .
  have wk: "wk y = wk x" using client_keeps_worker [OF w] .
  have st: "source_client_step x = Some y" using w by (simp add: client_moves_def)
  have "stopped y \<or> 0 < stop_stage (client y) \<and> stop_stage (client y) < stop_stage (client x) \<and>
      (\<forall>c. client y = Cl_Calling Op_Inactive CMD_STOP c \<longrightarrow> (\<exists>c. client x = Cl_Calling Op_Inactive CMD_STOP c))"
  proof (cases "client x")
    case (Cl_Calling op com k)
    then have op: "op = Op_Inactive" "com = CMD_STOP \<or> com = CMD_EXIT" using s c by (auto simp: stopping_def op_commands_def split: if_splits)
    have hT: "m_hThread (thr x)" using c Cl_Calling op by auto
    show ?thesis
    proof (cases k)
      case Call_wait
      then have e: "m_EventComplete (thr x)" using st Cl_Calling by (auto simp: source_client_step_def split: if_splits)
      then have "source_debt (now_at (wk x)) = Free" using h Cl_Calling Call_wait by (auto simp: sw.handshake_def split: if_splits)
      then have "m_dwReturnVal (thr x) = NOERROR"
        using c e Cl_Calling op by (cases "now_at (wk x)") (auto simp: reply_inv_def after_reply_def split: if_splits)
      then show ?thesis using st Cl_Calling Call_wait op e by (auto simp: source_client_step_def after_call_def)
    qed (use st Cl_Calling op hT in \<open>auto simp: source_client_step_def ThreadExists_def\<close>)
  next
    case Cl_Close
    then show ?thesis using st c by (auto simp: source_client_step_def Close_take_def)
  next
    case Cl_Closing
    then show ?thesis using st c by (auto simp: source_client_step_def stopped_def split: if_splits)
  qed (use s in \<open>auto simp: stopping_def\<close>)
  then consider "stopped y" | "0 < stop_stage (client y)" "stop_stage (client y) < stop_stage (client x)"
      "\<forall>c. client y = Cl_Calling Op_Inactive CMD_STOP c \<longrightarrow> (\<exists>c. client x = Cl_Calling Op_Inactive CMD_STOP c)" by auto
  then have both: "(stopped y \<or> stopping y) \<and> stop_left y < stop_left x"
  proof cases
    case 1
    then show ?thesis using s by (auto simp: stopped_def stop_left_def stopping_def)
  next
    case 2
    have "source_rank (now_at (wk x)) < 10" using source_rank_bound v .
    moreover have "stopping y" using s iy wk 2 by (fastforce simp: stopping_def)
    ultimately show ?thesis using 2(2) by (auto simp: stop_left_def wk)
  qed
  then show "stop_left y < stop_left x" "stopped y \<or> stopping y" by auto
qed

lemma stopping_step:
  assumes s: "stopping x" and w: "source_step x y"
  shows "stopped y \<or> stopping y" and "stop_left y \<le> stop_left x" and "client_moves x y \<or> (source_client_step x \<noteq> None \<longrightarrow> source_client_step y \<noteq> None)"
proof -
  have n: "client x \<noteq> Cl_Idle" using s by (auto simp: stopping_def)
  have i: "source_inv x" using s by (simp add: stopping_def)
  from w show "stopped y \<or> stopping y"
  proof (cases rule: source_step.cases)
    case (downstream b)
    then show ?thesis using s source_inv_step [OF i w] by (simp add: stopping_def)
  qed (use n s stopping_worker(1) stopping_client(2) in auto)
  from w show "stop_left y \<le> stop_left x"
  proof (cases rule: source_step.cases)
    case (downstream b)
    then show ?thesis by (simp add: stop_left_def)
  qed (use n s stopping_worker(2) stopping_client(1) in \<open>auto simp: less_imp_le\<close>)
  from w show "client_moves x y \<or> (source_client_step x \<noteq> None \<longrightarrow> source_client_step y \<noteq> None)"
  proof (cases rule: source_step.cases)
    case (downstream b)
    then show ?thesis by (auto simp: source_client_step_def Let_def split: source_client.splits option.splits prod.splits call_result.splits)
  qed (use n s stopping_worker(4) in auto)
qed

text \<open>While the client waits the worker is not blocked.\<close>

lemma stopping_unblocked:
  assumes s: "stopping x" and b: "source_client_step x = None"
  shows "source_worker_step a (wk x) (thr x) \<noteq> None"
proof -
  have i: "source_inv x" using s by (simp add: stopping_def)
  note v = source_invD(1) [OF i] and h = source_invD(2) [OF i] and c = source_invD(3) [OF i]
  show ?thesis
  proof (cases "client x")
    case (Cl_Calling op com k)
    then have "CallWorker k (thr x) = None" using b by (auto simp: source_client_step_def split: option.splits call_result.splits)
    then have k: "k = Call_wait" and p: "pending (source_debt (now_at (wk x))) (thr x)" using sw.handshake_blocked [of k "wk x" "thr x"] h Cl_Calling by auto
    have op: "op = Op_Inactive" "com = CMD_STOP \<or> com = CMD_EXIT" using s c Cl_Calling by (auto simp: stopping_def op_commands_def split: if_splits)
    have "\<not> (m_EventComplete (thr x))" using b Cl_Calling k by (auto simp: source_client_step_def)
    then have "now_at (wk x) \<noteq> S_OnDestroy \<and> now_at (wk x) \<noteq> S_Gone"
      using c s Cl_Calling op by (auto simp: stopping_def reply_inv_def before_reply_def split: if_splits)
    then have "source_able (wk x)" using s by (simp add: stopping_def source_able_def)
    then show ?thesis using p by (rule source_step_moves)
  next
    case Cl_Closing
    then show ?thesis using b c by (auto simp: source_client_step_def source_worker_step_def)
  qed (use b s in \<open>auto simp: source_client_step_def stopping_def Close_take_def split: if_splits\<close>)
qed

text \<open>A run in which no thread is left out for ever while it can move. A worker can move when it can for every answer of the functions it calls.\<close>

definition fair_run :: "(nat \<Rightarrow> source_world) \<Rightarrow> bool" where
  "fair_run xs \<longleftrightarrow> (\<forall>n. source_step (xs n) (xs (Suc n))) \<and>
     (\<forall>n. \<exists>m\<ge>n. client_moves (xs m) (xs (Suc m)) \<or> source_client_step (xs m) = None) \<and>
     (\<forall>n. \<exists>m\<ge>n. worker_moves (xs m) (xs (Suc m)) \<or> (\<exists>a. source_worker_step a (wk (xs m)) (thr (xs m)) = None))"

lemma fair_run_stops:
  assumes f: "fair_run xs" and s: "stopping (xs 0)"
  shows "\<exists>n. stopped (xs n)"
proof (rule ccontr)
  assume "\<nexists>n. stopped (xs n)"
  then have n: "\<not> stopped (xs n)" for n by blast
  have st: "source_step (xs n) (xs (Suc n))" for n using f by (simp add: fair_run_def)
  have all: "stopping (xs n)" for n
  proof (induction n)
    case (Suc n)
    then show ?case using stopping_step(1) [OF _ st [of n]] n by blast
  qed (rule s)
  have "\<exists>n :: nat. False"
  proof (rule goal_reached [of "\<lambda>n. False" "\<lambda>n. stop_left (xs n)"])
    fix n
    show "stop_left (xs (Suc n)) \<le> stop_left (xs n)" using stopping_step(2) [OF all st] .
    show "\<exists>m\<ge>n. False \<or> stop_left (xs (Suc m)) < stop_left (xs m)"
    proof (rule ccontr)
      assume no: "\<nexists>m. n \<le> m \<and> (False \<or> stop_left (xs (Suc m)) < stop_left (xs m))"
      have nc: "\<not> client_moves (xs m) (xs (Suc m))" if "n \<le> m" for m using no that stopping_client(1) [OF all] by blast
      have blocked: "source_client_step (xs m) = None" if "n \<le> m" for m
      proof (rule ccontr)
        assume able: "source_client_step (xs m) \<noteq> None"
        have "source_client_step (xs k) \<noteq> None" if k: "m \<le> k" for k
          using k
        proof (induction k rule: dec_induct)
          case (step k)
          then show ?case using stopping_step(3) [OF all st, of k] nc [of k] \<open>n \<le> m\<close> by auto
        qed (rule able)
        then show False using f nc that unfolding fair_run_def by (metis le_trans)
      qed
      obtain m where m: "n \<le> m" "worker_moves (xs m) (xs (Suc m)) \<or> (\<exists>a. source_worker_step a (wk (xs m)) (thr (xs m)) = None)"
        using f unfolding fair_run_def by blast
      then have "worker_moves (xs m) (xs (Suc m))" using stopping_unblocked [OF all blocked [OF m(1)]] by blast
      then show False using stopping_worker(3) [OF all _ blocked [OF m(1)]] no m(1) by blast
    qed
  qed
  then show False by blast
qed

text \<open>Stopping the filter ends. When the pin is connected and its thread alive, every run in which both threads keep being scheduled
  comes to where \<open>Inactive\<close> has returned without error; then the handle is closed, the thread has ended and all buffers are given back. The thread may have
  been anywhere in its loop, and the derived class and the filter downstream may have answered anything.\<close>

theorem source_inactive_ends:
  assumes "source_reachable x" and "client x = Cl_Idle" and "m_State x \<noteq> State_Stopped" and "m_Connected (wk x)" and "m_pAllocator (wk x)"
    and "m_hThread (thr x)" and "now_at (wk x) \<noteq> S_Gone" and "SUCCEEDED decommit" and "fair_run xs" and "xs 0 = Source_Stop decommit x"
  shows "\<exists>n. client (xs n) = Cl_Done Op_Inactive NOERROR \<and> \<not> m_hThread (thr (xs n)) \<and> now_at (wk (xs n)) = S_Gone \<and>
    (\<forall>b. refs (wk (xs n)) b = int (kept (wk (xs n)) b))"
proof -
  have r0: "source_reachable (xs 0)" using source_reachable.step [OF assms(1) source_step.stop [OF assms(2)]] assms(10) by simp
  have reach: "source_reachable (xs n)" for n
    by (induction n) (use r0 assms(9) source_reachable.step in \<open>auto simp: fair_run_def\<close>)
  have "stopping (xs 0)"
    using assms source_inv_reachable [OF r0]
    by (auto simp: stopping_def Source_Stop_def Source_Inactive_def output_Inactive_def ThreadExists_def Let_def split: if_splits)
  then obtain n where n: "stopped (xs n)" using fair_run_stops assms(9) by blast
  moreover have "buffers_inv (wk (xs n))" using stream_inv_reachable [OF reach] by (simp add: stream_inv_def)
  ultimately show ?thesis by (intro exI [of _ n]) (simp add: stopped_def buffers_inv_def)
qed

text \<open>A schedule for examples: the client moves when it can, else the worker, else the application stops the filter.\<close>

definition source_turn :: "source_answers \<Rightarrow> source_world \<Rightarrow> source_world" where
  "source_turn a x =
     (case source_client_step x of Some y \<Rightarrow> y
      | None \<Rightarrow> (case source_worker_step a (wk x) (thr x) of Some (w, t) \<Rightarrow> x\<lparr>wk := w, thr := t\<rparr> | None \<Rightarrow> Source_Stop S_OK x))"

definition at_rest :: "source_world \<Rightarrow> bool" where
  "at_rest x \<longleftrightarrow> client x = Cl_Idle \<and> now_at (wk x) = S_Gone \<and> m_State x = State_Stopped"

lemma source_turn_stopping:
  assumes "stopping x"
  shows "source_step x (source_turn a x)" and "stopped (source_turn a x) \<or> stopping (source_turn a x)" and "stop_left (source_turn a x) < stop_left x"
proof -
  have "client_moves x (source_turn a x) \<or> source_client_step x = None \<and> worker_moves x (source_turn a x)"
  proof (cases "source_client_step x")
    case None
    obtain w t where s: "source_worker_step a (wk x) (thr x) = Some (w, t)" using stopping_unblocked [OF assms None, of a] by auto
    then have "worker_moves x (x\<lparr>wk := w, thr := t\<rparr>)" unfolding worker_moves_def by blast
    then show ?thesis using None s by (simp add: source_turn_def)
  qed (simp add: source_turn_def client_moves_def)
  then show "source_step x (source_turn a x)" "stopped (source_turn a x) \<or> stopping (source_turn a x)" "stop_left (source_turn a x) < stop_left x"
    using source_step.worker source_step.client stopping_client [OF assms] stopping_worker(1,3) [OF assms] by blast+
qed

lemma source_turn_rest: "stopped x \<Longrightarrow> at_rest (source_turn a x) \<and> client_moves x (source_turn a x)"
  "at_rest x \<Longrightarrow> source_turn a x = x \<and> source_step x x"
proof -
  show "stopped x \<Longrightarrow> at_rest (source_turn a x) \<and> client_moves x (source_turn a x)"
    by (simp add: stopped_def at_rest_def source_turn_def client_moves_def source_client_step_def)
  assume r: "at_rest x"
  have "Source_Stop S_OK x = x" using r by (cases x) (simp add: at_rest_def Source_Stop_def)
  then show "source_turn a x = x \<and> source_step x x"
    using r source_step.stop [of x S_OK] by (simp add: at_rest_def source_turn_def source_client_step_def source_worker_step_def)
qed

lemma source_turns_fair:
  assumes "stopping x"
  shows "fair_run (\<lambda>n. (source_turn a ^^ n) x)"
proof -
  let ?xs = "\<lambda>n. (source_turn a ^^ n) x"
  have inv: "stopping (?xs n) \<or> stopped (?xs n) \<or> at_rest (?xs n)" for n
    by (induction n) (use assms source_turn_stopping(2) source_turn_rest in auto)
  have st: "source_step (?xs n) (?xs (Suc n))" for n
    using inv [of n] source_turn_stopping(1) source_turn_rest source_step.client by fastforce
  have cl: "client_moves (?xs n) (?xs (Suc n)) \<or> source_client_step (?xs n) = None" for n
    by (auto simp: client_moves_def source_turn_def split: option.splits)
  have "\<exists>n. \<not> stopping (?xs n)"
    by (rule goal_reached [of _ "\<lambda>n. stop_left (?xs n)"]) (use source_turn_stopping(3) in \<open>auto intro: less_imp_le\<close>)
  then obtain n where "\<not> stopping (?xs n)" by blast
  then have "stopped (?xs n) \<or> at_rest (?xs n)" using inv by blast
  then have "at_rest (?xs (Suc n))" using source_turn_rest by fastforce
  then have rest: "at_rest (?xs (Suc n + k))" for k
    by (induction k) (use source_turn_rest in auto)
  have "\<exists>m\<ge>k. source_worker_step a (wk (?xs m)) (thr (?xs m)) = None" for k
    using rest [of k] by (intro exI [of _ "Suc n + k"]) (simp add: at_rest_def source_worker_step_def)
  then show ?thesis using st cl unfolding fair_run_def by blast
qed

section \<open>An example\<close>

text \<open>A pin is connected and paused: its thread initialises and plays.\<close>

definition answers0 :: source_answers where
  "answers0 = \<lparr>OnThreadCreate = S_OK, GetBuffer_answer = Refuses, FillBuffer = S_OK, Receive_answer = S_OK, Receive_keeps = False\<rparr>"

definition source0 :: source_world where
  "source0 = (let x = source_start undefined in Source_Pause True S_OK (x\<lparr>wk := (wk x)\<lparr>m_Connected := True, m_pAllocator := True\<rparr>\<rparr>))"

lemma source_turn_step: "source_client_step x = None \<longrightarrow> source_worker_step a (wk x) (thr x) \<noteq> None \<or> client x = Cl_Idle \<Longrightarrow> source_step x (source_turn a x)"
proof (cases "source_client_step x")
  case None
  assume c: "source_client_step x = None \<longrightarrow> source_worker_step a (wk x) (thr x) \<noteq> None \<or> client x = Cl_Idle"
  show ?thesis
  proof (cases "source_worker_step a (wk x) (thr x)")
    case (Some q)
    then have "worker_moves x (x\<lparr>wk := fst q, thr := snd q\<rparr>)" unfolding worker_moves_def by (metis prod.collapse)
    then show ?thesis using None Some source_step.worker by (simp add: source_turn_def split_beta)
  next
    case n: None
    then show ?thesis using None c source_step.stop by (simp add: source_turn_def)
  qed
next
  case (Some y)
  then show ?thesis using source_step.client [of x y] by (simp add: source_turn_def client_moves_def)
qed

lemma source0_reachable: "source_reachable source0"
proof -
  have "source_reachable ((source_start undefined)\<lparr>wk := (wk (source_start undefined))\<lparr>m_Connected := True, m_pAllocator := True\<rparr>\<rparr>)"
    by (rule source_reachable.step [OF source_reachable.init source_step.connection]) (simp_all add: source_start_def)
  then show ?thesis unfolding source0_def Let_def by (rule source_reachable.step [OF _ source_step.pause]) (simp add: source_start_def)
qed

definition playing0 :: source_world where
  "playing0 = (source_turn answers0 ^^ 16) source0"

lemmas source_eval = source_turn_def source_client_step_def source_moves_simps after_call_def ThreadExists_def answers0_def

lemma source0_value: "source0 = \<lparr>wk = \<lparr>now_at = S_GetInit, m_pAllocator = True, m_Connected = True, active = True, refs = (\<lambda>b. 0), kept = (\<lambda>b. 0), happened = []\<rparr>,
    thr = (undefined :: CAMThread)\<lparr>m_EventSend := False, m_EventComplete := False, m_hThread := True\<rparr>, client = calling Op_Active CMD_INIT, m_State = State_Stopped\<rparr>"
  by (simp add: source0_def source_start_def new_CAMThread_def Source_Pause_def Source_Active_def IsActive_def output_Active_def Create_def ThreadExists_def Let_def)

lemma playing0_eval: "client playing0 = Cl_Idle \<and> m_State playing0 = State_Paused \<and> m_Connected (wk playing0) \<and> m_pAllocator (wk playing0) \<and> m_hThread (thr playing0) \<and>
    now_at (wk playing0) = S_StartPlay"
  by (simp add: playing0_def source0_value source_eval eval_nat_numeral)

lemma source0_turns:
  assumes "n < 16"
  shows "source_client_step ((source_turn answers0 ^^ n) source0) = None \<longrightarrow>
    source_worker_step answers0 (wk ((source_turn answers0 ^^ n) source0)) (thr ((source_turn answers0 ^^ n) source0)) \<noteq> None"
proof -
  have "n \<in> {0, 1, 2, 3, 4, 5, 6, 7, 8, 9, 10, 11, 12, 13, 14, 15}" using assms by (simp; presburger)
  then show ?thesis unfolding source0_value by (elim insertE emptyE; simp add: source_eval eval_nat_numeral)
qed

lemma playing0: "source_reachable playing0"
proof -
  have "n \<le> 16 \<longrightarrow> source_reachable ((source_turn answers0 ^^ n) source0)" for n
  proof (induction n)
    case (Suc n)
    then show ?case using source_reachable.step [OF _ source_turn_step] source0_turns [of n] by simp
  qed (simp add: source0_reachable)
  then show ?thesis by (simp add: playing0_def)
qed

theorem source_inactive_ends_witness:
  "\<exists>xs n. fair_run xs \<and> xs 0 = Source_Stop S_OK playing0 \<and> client (xs n) = Cl_Done Op_Inactive NOERROR \<and> now_at (wk (xs n)) = S_Gone"
proof -
  let ?y = "Source_Stop S_OK playing0" and ?xs = "\<lambda>n. (source_turn answers0 ^^ n) (Source_Stop S_OK playing0)"
  have "source_reachable ?y" using source_reachable.step [OF playing0 source_step.stop] playing0_eval by simp
  then have "stopping ?y" using playing0_eval source_inv_reachable
    by (auto simp: stopping_def Source_Stop_def Source_Inactive_def output_Inactive_def ThreadExists_def Let_def)
  then have f: "fair_run ?xs" by (rule source_turns_fair)
  then show ?thesis using source_inactive_ends [of playing0 S_OK ?xs] playing0 playing0_eval by auto
qed

theorem source_stream_order_witness:
  "\<exists>x. source_reachable x \<and> now_at (wk x) = S_StartPlay \<and> refs (wk x) 0 = 0 \<and> phase_after (happened (wk x)) \<noteq> None"
  using source_stream_order [OF playing0] playing0 playing0_eval
  by (intro exI [of _ playing0]) (auto simp: playing0_def source0_value source_eval eval_nat_numeral)

section \<open>A thread that fails to initialise\<close>

definition dead_thread :: "source_world \<Rightarrow> bool" where
  "dead_thread x \<longleftrightarrow> source_inv x \<and> m_hThread (thr x) \<and> now_at (wk x) = S_Gone \<and> \<not> m_EventComplete (thr x) \<and> stop_stage (client x) \<noteq> 1 \<and>
     (case client x of Cl_Calling op com c \<Rightarrow> op = Op_Command \<or> op = Op_Inactive \<and> com = CMD_STOP | Cl_Close \<Rightarrow> False | _ \<Rightarrow> True)"

lemma dead_thread_step: "dead_thread x \<Longrightarrow> source_step x y \<Longrightarrow> dead_thread y"
proof -
  assume d: "dead_thread x" and s: "source_step x y"
  have iy: "source_inv y" using d source_inv_step [OF _ s] by (simp add: dead_thread_def)
  from s show ?thesis
  proof (cases rule: source_step.cases)
    case worker
    then show ?thesis using d by (simp add: worker_moves_def dead_thread_def source_worker_step_def)
  next
    case client
    then have st: "source_client_step x = Some y" by (simp add: client_moves_def)
    show ?thesis
    proof (cases "client x")
      case (Cl_Calling op com c)
      then show ?thesis using st d iy by (cases c) (auto simp: source_client_step_def dead_thread_def ThreadExists_def split: if_splits)
    qed (use st d iy in \<open>auto simp: source_client_step_def dead_thread_def split: if_splits\<close>)
  next
    case (pause ok commit)
    then show ?thesis using d iy
      by (auto simp: dead_thread_def Source_Pause_def Source_Active_def output_Active_def Create_def ThreadExists_def Let_def split: if_splits)
  next
    case (stop decommit)
    then show ?thesis using d iy by (auto simp: dead_thread_def Source_Stop_def Source_Inactive_def output_Inactive_def Let_def split: if_splits)
  qed (use d iy in \<open>auto simp: dead_thread_def\<close>)
qed

text \<open>When \<open>OnThreadCreate\<close> fails, the thread ends after its reply but its handle stays: \<open>Active\<close> returns the error without \<open>Close\<close>. From then on, whatever
  happens, there is a handle and no thread, so activating the connected pin always fails, also when \<open>OnThreadCreate\<close> would succeed now; and a command is waited for
  without end, as nobody is left to answer it.\<close>

theorem source_create_failure:
  assumes "source_reachable x" and "client x = Cl_Calling Op_Active CMD_INIT Call_wait" and "client_moves x y" and "FAILED (m_dwReturnVal (thr x))"
    and "source_step\<^sup>*\<^sup>* y z"
  shows "client y = Cl_Done Op_Active (m_dwReturnVal (thr x)) \<and> m_hThread (thr z) \<and> now_at (wk z) = S_Gone \<and>
    (m_Connected (wk z) \<and> \<not> IsActive z \<longrightarrow> (\<exists>hr. FAILED hr \<and> client (Source_Active ok commit z) = Cl_Done Op_Active hr)) \<and>
    (\<forall>op com. client z = Cl_Calling op com Call_wait \<longrightarrow> source_client_step z = None)"
proof -
  have i: "source_inv x" using assms(1) by (rule source_inv_reachable)
  have e: "m_EventComplete (thr x)" and y: "client y = Cl_Done Op_Active (m_dwReturnVal (thr x))" "thr y = (thr x)\<lparr>m_EventComplete := False\<rparr>" "wk y = wk x"
    using assms(2-4) by (auto simp: client_moves_def source_client_step_def after_call_def split: if_splits)
  have "source_debt (now_at (wk x)) = Free" using source_invD(2) [OF i] assms(2) e by (auto simp: sw.handshake_def)
  then have "now_at (wk x) = S_Gone" "m_hThread (thr x)"
    using source_invD(3) [OF i] assms(2,4) e by (cases "now_at (wk x)"; auto simp: reply_inv_def after_reply_def split: if_splits)+
  then have "dead_thread y" using y source_inv_client [OF i assms(3)] by (simp add: dead_thread_def)
  with assms(5) have d: "dead_thread z" by (induction rule: rtranclp_induct) (auto intro: dead_thread_step)
  then have h: "m_hThread (thr z)" "now_at (wk z) = S_Gone" "\<not> m_EventComplete (thr z)" by (auto simp: dead_thread_def)
  have no_allocator: "\<not> SUCCEEDED VFW_E_NO_ALLOCATOR" by (simp add: hr_defs SUCCEEDED_def)
  have "\<exists>hr. FAILED hr \<and> client (Source_Active ok commit z) = Cl_Done Op_Active hr" if "m_Connected (wk z)" "\<not> IsActive z"
    using that h no_allocator by (auto simp: Source_Active_def output_Active_def Create_def ThreadExists_def Let_def)
  then show ?thesis using y h by (auto simp: source_client_step_def)
qed

text \<open>A pin whose \<open>OnThreadCreate\<close> runs out of memory.\<close>

definition failing0 :: source_world where
  "failing0 = (source_turn (answers0\<lparr>OnThreadCreate := E_OUTOFMEMORY\<rparr>) ^^ 8) source0"

lemma failing0_eval: "client failing0 = Cl_Calling Op_Active CMD_INIT Call_wait \<and> m_EventComplete (thr failing0) \<and> m_dwReturnVal (thr failing0) = E_OUTOFMEMORY"
  by (simp add: failing0_def source0_value source_eval eval_nat_numeral)

lemma failing0: "source_reachable failing0"
proof -
  let ?a = "answers0\<lparr>OnThreadCreate := E_OUTOFMEMORY\<rparr>"
  have turns: "source_client_step ((source_turn ?a ^^ n) source0) = None \<longrightarrow>
    source_worker_step ?a (wk ((source_turn ?a ^^ n) source0)) (thr ((source_turn ?a ^^ n) source0)) \<noteq> None" if "n < 8" for n
  proof -
    have "n \<in> {0, 1, 2, 3, 4, 5, 6, 7}" using that by (simp; presburger)
    then show ?thesis unfolding source0_value by (elim insertE emptyE; simp add: source_eval eval_nat_numeral)
  qed
  have "n \<le> 8 \<longrightarrow> source_reachable ((source_turn ?a ^^ n) source0)" for n
  proof (induction n)
    case (Suc n)
    then show ?case using source_reachable.step [OF _ source_turn_step] turns [of n] by simp
  qed (simp add: source0_reachable)
  then show ?thesis by (simp add: failing0_def)
qed

theorem source_create_failure_witness:
  "\<exists>y :: source_world. client y = Cl_Done Op_Active E_OUTOFMEMORY \<and> m_hThread (thr y) \<and> now_at (wk y) = S_Gone"
proof -
  obtain y where y: "client_moves failing0 y" using failing0_eval by (auto simp: client_moves_def source_client_step_def)
  show ?thesis using source_create_failure [OF failing0 _ y _ rtranclp.rtrancl_refl] failing0_eval by (intro exI [of _ y]) simp
qed

section \<open>The pins\<close>

text \<open>The filter holds a list of pins in an array that may be longer.\<close>

definition holds_pins :: "CSource \<Rightarrow> nat list \<Rightarrow> bool" where
  "holds_pins f ps \<longleftrightarrow> m_iPins f = length ps \<and> (case m_paStreams f of None \<Rightarrow> ps = [] | Some a \<Rightarrow> length ps \<le> length a \<and> take (length ps) a = ps)"

lemma shift_down_value:
  "0 < i \<Longrightarrow> i + k \<le> length a \<Longrightarrow> shift_down k i a = take (i - 1) a @ take k (drop i a) @ drop (i - 1 + k) a"
proof (induction k arbitrary: i a)
  case (Suc k)
  let ?a = "a[i - 1 := a ! i]"
  have i: "i < length a" using Suc.prems by simp
  have "shift_down (Suc k) i a = take i ?a @ take k (drop (i + 1) ?a) @ drop (i + k) ?a" using Suc.IH [of "i + 1" ?a] Suc.prems by simp
  moreover have "take i ?a = take (i - 1) a @ [a ! i]"
    using Suc.prems i by (cases i) (auto simp: take_Suc_conv_app_nth nth_list_update)
  moreover have "drop (i + 1) ?a = drop (i + 1) a" "drop (i + k) ?a = drop (i + k) a" using Suc.prems by (simp_all add: drop_update_cancel)
  moreover have "take (Suc k) (drop i a) = a ! i # take k (drop (i + 1) a)" using i by (simp add: Cons_nth_drop_Suc [symmetric])
  ultimately show ?case using Suc.prems by simp
qed simp

lemma RemovePin_from_value:
  assumes "length ps \<le> length a" and "take (length ps) a = ps" and "m_iPins f = length ps" and "k \<le> length ps" and "p \<notin> set (take (length ps - k) ps)"
  shows "RemovePin_from k p a f =
    (if p \<in> set ps then (S_OK, f\<lparr>m_iPins := length ps - 1, m_paStreams := (if length ps = 1 then None else Some (remove1 p ps @ drop (length ps - 1) a))\<rparr>) else (S_FALSE, f))"
  using assms
proof (induction k)
  case 0
  then show ?case by simp
next
  case (Suc k)
  let ?i = "length ps - Suc k"
  have i: "?i < length ps" using Suc.prems by simp
  have n: "a ! ?i = ps ! ?i" using Suc.prems(1,2) i by (metis nth_take)
  show ?case
  proof (cases "ps ! ?i = p")
    case True
    have ps: "ps = take ?i ps @ p # drop (Suc ?i) ps" using i True id_take_nth_drop by blast
    have r: "remove1 p ps = take ?i ps @ drop (Suc ?i) ps" using Suc.prems(5) by (subst (1) ps) (simp add: remove1_append)
    have "shift_down k (Suc ?i) a = take ?i a @ take k (drop (Suc ?i) a) @ drop (?i + k) a" using shift_down_value [of "Suc ?i" k a] Suc.prems i by simp
    moreover have "take ?i a = take ?i ps" using Suc.prems(2) i by (metis min.strict_order_iff take_take)
    moreover have "take k (drop (Suc ?i) a) = drop (Suc ?i) ps"
      using Suc.prems i by (metis (no_types, lifting) Suc_diff_Suc add_diff_cancel_right' diff_diff_cancel drop_take Suc_le_eq less_imp_le_nat)
    moreover have "?i + k = length ps - 1" "length ps - Suc ?i = k" using i Suc.prems(4) by simp_all
    ultimately have "shift_down (length ps - Suc ?i) (Suc ?i) a = remove1 p ps @ drop (length ps - 1) a" by (simp add: r)
    moreover have "p \<in> set ps" using i True by (metis nth_mem)
    ultimately show ?thesis using True n Suc.prems(3) by (simp add: Let_def)
  next
    case False
    have "take (length ps - k) ps = take ?i ps @ [ps ! ?i]" using i Suc.prems(4) by (metis Suc_diff_Suc Suc_le_eq take_Suc_conv_app_nth)
    then show ?thesis using Suc.IH Suc.prems False n by (simp add: Let_def)
  qed
qed

lemma AddPin_holds:
  assumes "holds_pins f ps" and "length a = length ps + 1"
  shows "fst (AddPin (Some a) p f) = S_OK \<and> holds_pins (snd (AddPin (Some a) p f)) (ps @ [p])"
proof -
  have last: "length l = 1 \<Longrightarrow> l[0 := p] = [p]" for l by (cases l) auto
  show ?thesis using assms last by (cases "m_paStreams f") (auto simp: holds_pins_def AddPin_def Let_def list_update_append)
qed

lemma RemovePin_holds: "holds_pins f ps \<Longrightarrow>
    fst (RemovePin p f) = (if p \<in> set ps then S_OK else S_FALSE) \<and> holds_pins (snd (RemovePin p f)) (remove1 p ps)"
proof (cases "m_paStreams f")
  case (Some a)
  assume h: "holds_pins f ps"
  then have "RemovePin p f =
    (if p \<in> set ps then (S_OK, f\<lparr>m_iPins := length ps - 1, m_paStreams := (if length ps = 1 then None else Some (remove1 p ps @ drop (length ps - 1) a))\<rparr>) else (S_FALSE, f))"
    using Some RemovePin_from_value [of ps a f "length ps" p] by (simp add: RemovePin_def holds_pins_def)
  moreover have "length ps = 1 \<Longrightarrow> p \<in> set ps \<Longrightarrow> remove1 p ps = []" by (cases ps) auto
  ultimately show ?thesis using h Some by (auto simp: holds_pins_def length_remove1 remove1_idem)
qed (auto simp: RemovePin_def holds_pins_def)

lemma FindPinNumber_from_value:
  "i + k \<le> length a \<Longrightarrow> FindPinNumber_from k i p a =
    (if p \<in> set (take k (drop i a)) then int (i + length (takeWhile (\<lambda>q. q \<noteq> p) (take k (drop i a)))) else - 1)"
proof (induction k arbitrary: i)
  case (Suc k)
  then have "take (Suc k) (drop i a) = a ! i # take k (drop (i + 1) a)" by (simp add: Cons_nth_drop_Suc [symmetric])
  then show ?case using Suc by simp
qed simp

lemma FindPinNumber_holds: "holds_pins f ps \<Longrightarrow>
    FindPinNumber p f = (if p \<in> set ps then int (length (takeWhile (\<lambda>q. q \<noteq> p) ps)) else - 1)"
  by (auto simp: holds_pins_def FindPinNumber_def FindPinNumber_from_value split: option.splits)

lemma GetPin_holds: "holds_pins f ps \<Longrightarrow> Source_GetPin n f = (if 0 \<le> n \<and> n < int (length ps) then Some (ps ! nat n) else None)"
  by (auto simp: holds_pins_def Source_GetPin_def split: option.splits) (metis nat_less_iff nth_take)

text \<open>The array of pins behaves as a list: pins are added at its end, the first occurrence of a pin is removed and the others move up, and the functions that look
  pins up see this list, whatever the array holds beyond its end.\<close>

theorem source_pins_list:
  assumes "holds_pins f ps"
  shows "(length a = length ps + 1 \<longrightarrow> fst (AddPin (Some a) p f) = S_OK \<and> holds_pins (snd (AddPin (Some a) p f)) (ps @ [p])) \<and>
    AddPin None p f = (E_OUTOFMEMORY, f) \<and>
    fst (RemovePin p f) = (if p \<in> set ps then S_OK else S_FALSE) \<and> holds_pins (snd (RemovePin p f)) (remove1 p ps) \<and>
    GetPinCount f = length ps \<and> Source_GetPin n f = (if 0 \<le> n \<and> n < int (length ps) then Some (ps ! nat n) else None) \<and>
    FindPinNumber p f = (if p \<in> set ps then int (length (takeWhile (\<lambda>q. q \<noteq> p) ps)) else - 1)"
  using assms AddPin_holds RemovePin_holds GetPin_holds FindPinNumber_holds by (simp add: AddPin_def GetPinCount_def holds_pins_def)

theorem source_pins_list_witness:
  "holds_pins \<lparr>m_iPins = 2, m_paStreams = Some [7, 8, 9]\<rparr> [7, 8] \<and> holds_pins (snd (RemovePin 7 \<lparr>m_iPins = 2, m_paStreams = Some [7, 8, 9]\<rparr>)) [8]"
  using source_pins_list [of "\<lparr>m_iPins = 2, m_paStreams = Some [7, 8, 9]\<rparr>" "[7, 8]" "[0, 0, 0]" 7 0] by (simp add: holds_pins_def)

lemma digit_char: "k < 10 \<Longrightarrow> digit (char_of (48 + k)) \<and> of_char (char_of (48 + k :: nat) :: char) = 48 + k"
  by (simp add: digit_def of_char_of)

lemma digits_value_snoc: "list_all digit s \<Longrightarrow> digit c \<Longrightarrow> digits_value n (s @ [c]) = 10 * digits_value n s + (of_char c - 48)"
  by (induction n s rule: digits_value.induct) auto

lemma IntToWstr_digits: "list_all digit (IntToWstr n) \<and> IntToWstr n \<noteq> [] \<and> digits_value 0 (IntToWstr n) = n"
proof (induction n rule: IntToWstr.induct)
  case (1 n)
  show ?case
  proof (cases "n < 10")
    case True
    then show ?thesis using digit_char [of n] by (subst (1 2 3) IntToWstr.simps) simp
  next
    case False
    let ?c = "char_of (48 + n mod 10)"
    have c: "digit ?c" "of_char ?c = 48 + n mod 10" using digit_char [of "n mod 10"] by simp_all
    have i: "IntToWstr n = IntToWstr (n div 10) @ [?c]" using False by (subst IntToWstr.simps) simp
    show ?thesis using 1 [OF False] c by (simp add: i digits_value_snoc)
  qed
qed

lemma WstrToInt_IntToWstr: "n < 2 ^ 31 \<Longrightarrow> WstrToInt (IntToWstr n) = int n"
proof -
  assume n: "n < 2 ^ 31"
  obtain c s where cs: "IntToWstr n = c # s" using IntToWstr_digits [of n] by (cases "IntToWstr n") auto
  then have d: "digit c" and v: "digits_value 0 (c # s) = n" using IntToWstr_digits [of n] by auto
  have "c \<noteq> CHR '' ''" "\<not> (of_char c :: nat) \<le> 13" "c \<noteq> CHR ''-''" "c \<noteq> CHR ''+''" using d by (auto simp: digit_def)
  then show ?thesis using v n by (simp add: cs)
qed

text \<open>Each pin of a filter has an identifier of its own, which leads back to it; what is no number between 1 and the number of pins leads to none.\<close>

theorem source_pin_ids:
  assumes "holds_pins f ps" and "distinct ps" and "length ps < 2 ^ 31" and "p \<in> set ps"
  shows "\<exists>s. Source_QueryId True True p f = (NOERROR, Some s) \<and> Source_FindPin True s f = (NOERROR, Some p) \<and>
    (\<forall>q\<in>set ps. Source_QueryId True True q f = (NOERROR, Some s) \<longrightarrow> q = p) \<and>
    (\<forall>t. WstrToInt t \<le> 0 \<or> int (length ps) < WstrToInt t \<longrightarrow> Source_FindPin True t f = (VFW_E_NOT_FOUND, None))"
proof -
  let ?k = "\<lambda>q. length (takeWhile (\<lambda>r. r \<noteq> q) ps)"
  have k: "?k q < length ps \<and> ps ! ?k q = q" if "q \<in> set ps" for q
    using that by (induction ps) auto
  have id: "Source_QueryId True True q f = (NOERROR, Some (IntToWstr (Suc (?k q))))" if "q \<in> set ps" for q
    using that assms(1) by (simp add: Source_QueryId_def FindPinNumber_holds nat_add_distrib)
  have w: "sint (word_of_int j :: i32) = j" if "- (2 ^ 31) \<le> j" "j < 2 ^ 31" for j
    using that by (simp add: sint_eq_signed_take_bit signed_take_bit_idem_range)
  have wn: "sint (word_of_nat m :: i32) = int m" if "m < 2 ^ 31" for m using w [of "int m"] that by simp
  have find: "Source_FindPin True (IntToWstr (Suc (?k q))) f = (NOERROR, Some q)" if "q \<in> set ps" for q
    using k [OF that] assms(1,3) by (simp add: Source_FindPin_def WstrToInt_IntToWstr wn GetPin_holds)
  have one: "q = p" if "q \<in> set ps" "Source_QueryId True True q f = (NOERROR, Some (IntToWstr (Suc (?k p))))" for q
  proof -
    have "IntToWstr (Suc (?k p)) = IntToWstr (Suc (?k q))" using that(2) unfolding id [OF that(1)] by simp
    then show ?thesis using find [OF that(1)] find [OF assms(4)] by (metis option.inject prod.inject)
  qed
  have range: "- (2 ^ 31) \<le> WstrToInt t \<and> WstrToInt t < 2 ^ 31" for t
    by (induction t rule: WstrToInt.induct) auto
  have none: "Source_FindPin True t f = (VFW_E_NOT_FOUND, None)" if "WstrToInt t \<le> 0 \<or> int (length ps) < WstrToInt t" for t
  proof (cases "WstrToInt t = - (2 ^ 31)")
    case True
    then show ?thesis using assms(1,3) by (simp add: Source_FindPin_def GetPin_holds)
  next
    case False
    then show ?thesis using that range [of t] w [of "WstrToInt t - 1"] assms(1) by (auto simp: Source_FindPin_def GetPin_holds)
  qed
  show ?thesis using id [OF assms(4)] find [OF assms(4)] one none by blast
qed

theorem source_pin_ids_witness:
  "\<exists>s. Source_QueryId True True 8 \<lparr>m_iPins = 2, m_paStreams = Some [7, 8]\<rparr> = (NOERROR, Some s) \<and>
    Source_FindPin True s \<lparr>m_iPins = 2, m_paStreams = Some [7, 8]\<rparr> = (NOERROR, Some 8)"
  using source_pin_ids [of "\<lparr>m_iPins = 2, m_paStreams = Some [7, 8]\<rparr>" "[7, 8]" 8] by (auto simp: holds_pins_def)

end
