(* ===== verification/Transform.thy ===== *)
theory Transform
  imports Renderer Media_Sample
begin

text \<open>
  Model of \<open>CTransformFilter\<close> with its pins (\<open>src/baseclasses/transfrm.cpp\<close>, \<open>transfrm.h\<close>): a filter that receives samples, has a derived class
  transform them into buffers of the next connection and delivers these. The streaming thread holds the lock \<open>m_csReceive\<close>, the thread that stops, pauses and flushes
  the lock \<open>m_csFilter\<close>; both are a step relation below. The answers of the derived class, of the filters on both sides and of the allocators are arguments. The
  two pins exist together; connection and disconnection of the base class are in \<open>Pin_Connect\<close>.
\<close>

section \<open>State\<close>

text \<open>The pins: \<open>m_pAllocator\<close> is whether there is an allocator and \<open>active\<close> whether it is committed.\<close>

record transform_pin =
  m_Connected :: bool
  m_pAllocator :: bool
  active :: bool
  m_bFlushing :: bool
  m_bRunTimeError :: bool
  m_SampleProps :: AM_SAMPLE2_PROPERTIES

datatype transform_event = Delivered nat | DeliveredOther nat | EndOfStreamDelivered | BeginFlushDelivered | EndFlushDelivered | NewSegmentDelivered
  | QualityChange | ErrorAbort

text \<open>\<open>m_pins\<close> is whether the pins have been created; \<open>buffers\<close> are the references held on the buffers of the output allocator; \<open>happened\<close> is what others
  have seen, the latest first.\<close>

record CTransformFilter =
  m_State :: FILTER_STATE
  m_bEOSDelivered :: bool
  m_bSampleSkipped :: bool
  m_bQualityChanged :: bool
  m_pins :: bool
  m_pInput :: transform_pin
  m_pOutput :: transform_pin
  buffers :: "nat \<Rightarrow> int"
  happened :: "transform_event list"

text \<open>The derived class and the filter downstream. A buffer is a number; \<open>Transform_answer\<close> is given the sample and the buffer.\<close>

record transform_env =
  CheckInputType :: "mtype option \<Rightarrow> HRESULT"
  CheckTransform :: "mtype option \<Rightarrow> mtype option \<Rightarrow> HRESULT"
  Transform_answer :: "nat \<Rightarrow> nat \<Rightarrow> HRESULT"
  StartStreaming_answer :: HRESULT
  StopStreaming_answer :: HRESULT
  output_type :: "mtype option"
  down_Receive :: "nat \<Rightarrow> HRESULT"
  down_EndOfStream :: HRESULT
  down_BeginFlush :: HRESULT
  down_EndFlush :: HRESULT
  down_NewSegment :: HRESULT
  Decommit_answer :: HRESULT
  Commit_answer :: HRESULT

definition event :: "transform_event \<Rightarrow> CTransformFilter \<Rightarrow> CTransformFilter" where
  "event x f = f\<lparr>happened := x # happened f\<rparr>"

definition VFW_E_NOT_CONNECTED :: HRESULT where [hr_defs]: "VFW_E_NOT_CONNECTED = 0x80040209"
definition VFW_E_NO_ALLOCATOR :: HRESULT where [hr_defs]: "VFW_E_NO_ALLOCATOR = 0x8004020A"
definition VFW_E_NOT_FOUND :: HRESULT where [hr_defs]: "VFW_E_NOT_FOUND = 0x80040216"

definition new_CTransformFilter :: "CTransformFilter \<Rightarrow> CTransformFilter" where
  "new_CTransformFilter f =
     f\<lparr>m_State := State_Stopped, m_pins := False, m_bEOSDelivered := False, m_bQualityChanged := False, m_bSampleSkipped := False\<rparr>"

definition new_transform_pin :: "AM_SAMPLE2_PROPERTIES \<Rightarrow> transform_pin" where
  "new_transform_pin zero = \<lparr>m_Connected = False, m_pAllocator = False, active = False, m_bFlushing = False, m_bRunTimeError = False, m_SampleProps = zero\<rparr>"

text \<open>\<open>ok\<close> says whether memory is found for the input pin and for the output pin. The result is which pin, if any.\<close>

definition GetPin :: "AM_SAMPLE2_PROPERTIES \<Rightarrow> bool \<times> bool \<Rightarrow> nat \<Rightarrow> CTransformFilter \<Rightarrow> nat option \<times> CTransformFilter" where
  "GetPin zero ok n f =
     (if \<not> m_pins f \<and> \<not> fst ok then (None, f)
      else (let f = (if \<not> m_pins f \<and> snd ok then f\<lparr>m_pins := True, m_pInput := new_transform_pin zero, m_pOutput := new_transform_pin zero\<rparr> else f)
            in (if m_pins f \<and> (n = 0 \<or> n = 1) then Some n else None, f)))"

definition Transform_FindPin :: "AM_SAMPLE2_PROPERTIES \<Rightarrow> bool \<times> bool \<Rightarrow> string \<Rightarrow> CTransformFilter \<Rightarrow> HRESULT \<times> nat option \<times> CTransformFilter" where
  "Transform_FindPin zero ok ident f =
     (if ident = ''In'' \<or> ident = ''Out'' then
        (let (p, f) = GetPin zero ok (if ident = ''In'' then 0 else 1) f in (if p = None then E_OUTOFMEMORY else NOERROR, p, f))
      else (VFW_E_NOT_FOUND, None, f))"

section \<open>Delivering\<close>

definition DeliverEndOfStream :: "transform_env \<Rightarrow> CTransformFilter \<Rightarrow> HRESULT \<times> CTransformFilter" where
  "DeliverEndOfStream e f = (if \<not> m_Connected (m_pOutput f) then (VFW_E_NOT_CONNECTED, f) else (down_EndOfStream e, event EndOfStreamDelivered f))"

definition DeliverBeginFlush :: "transform_env \<Rightarrow> CTransformFilter \<Rightarrow> HRESULT \<times> CTransformFilter" where
  "DeliverBeginFlush e f = (if \<not> m_Connected (m_pOutput f) then (VFW_E_NOT_CONNECTED, f) else (down_BeginFlush e, event BeginFlushDelivered f))"

definition DeliverEndFlush :: "transform_env \<Rightarrow> CTransformFilter \<Rightarrow> HRESULT \<times> CTransformFilter" where
  "DeliverEndFlush e f = (if \<not> m_Connected (m_pOutput f) then (VFW_E_NOT_CONNECTED, f) else (down_EndFlush e, event EndFlushDelivered f))"

definition Transform_EndOfStream :: "transform_env \<Rightarrow> CTransformFilter \<Rightarrow> HRESULT \<times> CTransformFilter" where
  "Transform_EndOfStream e f = (if m_pins f then DeliverEndOfStream e f else (NOERROR, f))"

definition Transform_BeginFlush :: "transform_env \<Rightarrow> CTransformFilter \<Rightarrow> HRESULT \<times> CTransformFilter" where
  "Transform_BeginFlush e f = (if m_pins f then DeliverBeginFlush e f else (NOERROR, f))"

definition Transform_EndFlush :: "transform_env \<Rightarrow> CTransformFilter \<Rightarrow> HRESULT \<times> CTransformFilter" where
  "Transform_EndFlush e f = DeliverEndFlush e f"

definition Transform_NewSegment :: "transform_env \<Rightarrow> CTransformFilter \<Rightarrow> HRESULT \<times> CTransformFilter" where
  "Transform_NewSegment e f =
     (if m_pins f then if \<not> m_Connected (m_pOutput f) then (VFW_E_NOT_CONNECTED, f) else (down_NewSegment e, event NewSegmentDelivered f) else (S_OK, f))"

section \<open>The input pin\<close>

definition set_input :: "(transform_pin \<Rightarrow> transform_pin) \<Rightarrow> CTransformFilter \<Rightarrow> CTransformFilter" where
  "set_input g f = f\<lparr>m_pInput := g (m_pInput f)\<rparr>"

definition set_output :: "(transform_pin \<Rightarrow> transform_pin) \<Rightarrow> CTransformFilter \<Rightarrow> CTransformFilter" where
  "set_output g f = f\<lparr>m_pOutput := g (m_pOutput f)\<rparr>"

definition Transform_CheckStreaming :: "CTransformFilter \<Rightarrow> HRESULT" where
  "Transform_CheckStreaming f =
     (if \<not> m_Connected (m_pOutput f) then VFW_E_NOT_CONNECTED
      else if m_bFlushing (m_pInput f) then S_FALSE
      else if m_State f = State_Stopped then VFW_E_WRONG_STATE
      else if m_bRunTimeError (m_pInput f) then VFW_E_RUNTIME_ERROR
      else S_OK)"

definition TransformIn_CheckMediaType :: "transform_env \<Rightarrow> mtype option \<Rightarrow> CTransformFilter \<Rightarrow> HRESULT" where
  "TransformIn_CheckMediaType e mt f =
     (let hr = CheckInputType e mt
      in if S_OK \<noteq> hr then hr
         else if m_pins f \<and> m_Connected (m_pOutput f) then CheckTransform e mt (output_type e) else hr)"

definition TransformIn_EndOfStream :: "transform_env \<Rightarrow> CTransformFilter \<Rightarrow> HRESULT \<times> CTransformFilter" where
  "TransformIn_EndOfStream e f = (let hr = Transform_CheckStreaming f in if S_OK = hr then Transform_EndOfStream e f else (hr, f))"

definition TransformIn_BeginFlush :: "transform_env \<Rightarrow> CTransformFilter \<Rightarrow> HRESULT \<times> CTransformFilter" where
  "TransformIn_BeginFlush e f =
     (if \<not> m_Connected (m_pInput f) \<or> \<not> m_Connected (m_pOutput f) then (VFW_E_NOT_CONNECTED, f)
      else Transform_BeginFlush e (set_input (\<lambda>p. p\<lparr>m_bFlushing := True\<rparr>) f))"

definition TransformIn_EndFlush :: "transform_env \<Rightarrow> CTransformFilter \<Rightarrow> HRESULT \<times> CTransformFilter" where
  "TransformIn_EndFlush e f =
     (if \<not> m_Connected (m_pInput f) \<or> \<not> m_Connected (m_pOutput f) then (VFW_E_NOT_CONNECTED, f)
      else (let (hr, f) = Transform_EndFlush e f
            in if FAILED hr then (hr, f) else (S_OK, set_input (\<lambda>p. p\<lparr>m_bFlushing := False, m_bRunTimeError := False\<rparr>) f)))"

text \<open>\<open>CBaseInputPin::Receive\<close> with the virtual functions of this class.\<close>

definition base_Receive :: "transform_env \<Rightarrow> IMediaSample \<Rightarrow> CTransformFilter \<Rightarrow> HRESULT \<times> CTransformFilter" where
  "base_Receive e s f =
     (let hr = Transform_CheckStreaming f
      in if hr \<noteq> S_OK then (hr, f)
         else (let (hr, f) = (case sample2 s of
                 Some (hr, p) \<Rightarrow> (hr, if SUCCEEDED hr then set_input (\<lambda>q. q\<lparr>m_SampleProps := p\<rparr>) f else f)
               | None \<Rightarrow> (S_OK, set_input (\<lambda>q. q\<lparr>m_SampleProps := props_the_hard_way s (m_SampleProps q)\<rparr>) f))
               in if FAILED hr then (hr, f)
                  else (let p = m_SampleProps (m_pInput f)
                        in if AM_SAMPLE2_PROPERTIES.dwSampleFlags p AND Renderer.AM_SAMPLE_TYPECHANGED = 0 then (NOERROR, f)
                           else if TransformIn_CheckMediaType e (AM_SAMPLE2_PROPERTIES.pMediaType p) f = NOERROR then (NOERROR, f)
                           else (let f = set_input (\<lambda>q. q\<lparr>m_bRunTimeError := True\<rparr>) f;
                                     f = snd (TransformIn_EndOfStream e f)
                                 in (VFW_E_INVALIDMEDIATYPE, event ErrorAbort f)))))"

section \<open>The output sample\<close>

text \<open>Flags of \<open>GetBuffer\<close>, as documented.\<close>

definition AM_GBF_PREVFRAMESKIPPED :: u32 where "AM_GBF_PREVFRAMESKIPPED = 1"
definition AM_GBF_NOTASYNCPOINT :: u32 where "AM_GBF_NOTASYNCPOINT = 2"

text \<open>The times and the flags asked for.\<close>

definition buffer_request :: "CTransformFilter \<Rightarrow> REFERENCE_TIME option \<times> REFERENCE_TIME option \<times> u32" where
  "buffer_request f =
     (let p = m_SampleProps (m_pInput f); flags = AM_SAMPLE2_PROPERTIES.dwSampleFlags p;
          dwFlags = (if m_bSampleSkipped f then AM_GBF_PREVFRAMESKIPPED else 0);
          dwFlags = (if flags AND AM_SAMPLE_SPLICEPOINT = 0 then dwFlags OR AM_GBF_NOTASYNCPOINT else dwFlags)
      in (if flags AND Renderer.AM_SAMPLE_TIMEVALID \<noteq> 0 then Some (AM_SAMPLE2_PROPERTIES.tStart p) else None,
          if flags AND AM_SAMPLE_STOPVALID \<noteq> 0 then Some (AM_SAMPLE2_PROPERTIES.tStop p) else None, dwFlags))"

text \<open>The properties written to an output sample with \<open>IMediaSample2\<close>; \<open>junk\<close> is what the structure held.\<close>

definition OutProps :: "SAMPLE2_PROPERTIES \<Rightarrow> AM_SAMPLE2_PROPERTIES \<Rightarrow> CMediaSample \<Rightarrow> SAMPLE2_PROPERTIES" where
  "OutProps junk p out =
     (case CMediaSample_GetProperties 16 True out of
        (hr, Some q) \<Rightarrow> junk\<lparr>lActual := lActual q, dwTypeSpecificFlags := AM_SAMPLE2_PROPERTIES.dwTypeSpecificFlags p,
          dwSampleFlags := (dwSampleFlags q AND Sample_TypeChanged) OR (AM_SAMPLE2_PROPERTIES.dwSampleFlags p AND NOT Sample_TypeChanged),
          tStart := AM_SAMPLE2_PROPERTIES.tStart p, tStop := AM_SAMPLE2_PROPERTIES.tStop p, cbData := 32\<rparr>
      | (hr, None) \<Rightarrow> junk)"

text \<open>\<open>media_time\<close> is what \<open>GetMediaTime\<close> of the input sample answers, \<open>two\<close> whether the output sample has \<open>IMediaSample2\<close>.\<close>

definition set_output_sample :: "SAMPLE2_PROPERTIES \<Rightarrow> AM_SAMPLE2_PROPERTIES \<Rightarrow> (i64 \<times> i64) option \<Rightarrow> bool \<Rightarrow> CMediaSample \<Rightarrow> CMediaSample" where
  "set_output_sample junk p media_time two out =
     (let flags = AM_SAMPLE2_PROPERTIES.dwSampleFlags p
      in if two then snd (CMediaSample_SetProperties 32 (Some (OutProps junk p out)) True out)
         else (let out = (if flags AND Renderer.AM_SAMPLE_TIMEVALID \<noteq> 0
                 then snd (CMediaSample_SetTime (Some (AM_SAMPLE2_PROPERTIES.tStart p)) (Some (AM_SAMPLE2_PROPERTIES.tStop p)) out) else out);
               out = (if flags AND AM_SAMPLE_SPLICEPOINT \<noteq> 0 then snd (CMediaSample_SetSyncPoint True out) else out);
               out = (if flags AND AM_SAMPLE_DATADISCONTINUITY \<noteq> 0 then snd (CMediaSample_SetDiscontinuity True out) else out)
               in case media_time of Some (a, b) \<Rightarrow> snd (CMediaSample_SetMediaTime (Some a) (Some b) out) | None \<Rightarrow> out))"

text \<open>What \<open>InitializeOutputSample\<close> does to the filter, with the answer of \<open>GetBuffer\<close> and the number of the buffer.\<close>

definition InitializeOutputSample :: "HRESULT \<Rightarrow> nat \<Rightarrow> CTransformFilter \<Rightarrow> HRESULT \<times> CTransformFilter" where
  "InitializeOutputSample got b f =
     (if FAILED got then (got, f)
      else (let f = f\<lparr>buffers := (buffers f)(b := buffers f b + 1)\<rparr>
            in (S_OK, if AM_SAMPLE2_PROPERTIES.dwSampleFlags (m_SampleProps (m_pInput f)) AND AM_SAMPLE_DATADISCONTINUITY \<noteq> 0
                      then f\<lparr>m_bSampleSkipped := False\<rparr> else f)))"

definition release_buffer :: "nat \<Rightarrow> CTransformFilter \<Rightarrow> CTransformFilter" where
  "release_buffer b f = f\<lparr>buffers := (buffers f)(b := buffers f b - 1)\<rparr>"

text \<open>\<open>CTransformFilter::Receive\<close> from the call of \<open>Transform\<close> to the point where the buffer is released, which the flag says has been done.\<close>

definition transform_deliver :: "transform_env \<Rightarrow> nat \<Rightarrow> nat \<Rightarrow> CTransformFilter \<Rightarrow> HRESULT \<times> bool \<times> CTransformFilter" where
  "transform_deliver e s b f =
     (let hr = Transform_answer e s b
      in if FAILED hr then (hr, False, f)
         else if hr = NOERROR then (down_Receive e b, False, (event (Delivered b) f)\<lparr>m_bSampleSkipped := False\<rparr>)
         else if hr = S_FALSE then
           (let f = (release_buffer b f)\<lparr>m_bSampleSkipped := True\<rparr>
            in (NOERROR, True, if \<not> m_bQualityChanged f then (event QualityChange f)\<lparr>m_bQualityChanged := True\<rparr> else f))
         else (hr, False, f))"

section \<open>State changes\<close>

text \<open>\<open>CBaseInputPin::Inactive\<close> and \<open>CBaseOutputPin::Inactive\<close>.\<close>

definition input_Inactive :: "CTransformFilter \<Rightarrow> CTransformFilter" where
  "input_Inactive f = set_input (\<lambda>p. (if m_pAllocator p then p\<lparr>m_bFlushing := False, active := False\<rparr> else p)\<lparr>m_bRunTimeError := False\<rparr>) f"

definition output_Inactive :: "CTransformFilter \<Rightarrow> CTransformFilter" where
  "output_Inactive f = set_output (\<lambda>p. (if m_pAllocator p then p\<lparr>active := False\<rparr> else p)\<lparr>m_bRunTimeError := False\<rparr>) f"

text \<open>\<open>Stop\<close> up to the lock \<open>m_csReceive\<close>; the flag says whether it comes to that.\<close>

definition Transform_Stop_enter :: "CTransformFilter \<Rightarrow> bool \<times> CTransformFilter" where
  "Transform_Stop_enter f =
     (if m_State f = State_Stopped then (False, f)
      else if \<not> m_pins f \<or> \<not> m_Connected (m_pInput f) \<or> \<not> m_Connected (m_pOutput f)
      then (False, f\<lparr>m_State := State_Stopped, m_bEOSDelivered := False\<rparr>)
      else (True, input_Inactive f))"

definition Transform_Stop_leave :: "transform_env \<Rightarrow> CTransformFilter \<Rightarrow> HRESULT \<times> CTransformFilter" where
  "Transform_Stop_leave e f =
     (let f = output_Inactive f; hr = StopStreaming_answer e
      in (hr, if SUCCEEDED hr then f\<lparr>m_State := State_Stopped, m_bEOSDelivered := False\<rparr> else f))"

text \<open>\<open>CBaseFilter::Pause\<close>: from the stopped state the connected pins are activated.\<close>

definition base_Pause :: "transform_env \<Rightarrow> CTransformFilter \<Rightarrow> HRESULT \<times> CTransformFilter" where
  "base_Pause e f =
     (if m_State f = State_Stopped \<and> m_Connected (m_pOutput f) then
        (if \<not> m_pAllocator (m_pOutput f) then (VFW_E_NO_ALLOCATOR, f)
         else if FAILED (Commit_answer e) then (Commit_answer e, f)
         else (S_OK, (set_output (\<lambda>p. p\<lparr>active := True\<rparr>) f)\<lparr>m_State := State_Paused\<rparr>))
      else (S_OK, f\<lparr>m_State := State_Paused\<rparr>))"

definition Transform_Pause :: "transform_env \<Rightarrow> CTransformFilter \<Rightarrow> HRESULT \<times> CTransformFilter" where
  "Transform_Pause e f =
     (let (hr, f) =
        (if m_State f = State_Paused then (NOERROR, f)
         else if \<not> m_pins f \<or> \<not> m_Connected (m_pInput f) then
           (let f = (if m_pins f \<and> \<not> m_bEOSDelivered f then (snd (DeliverEndOfStream e f))\<lparr>m_bEOSDelivered := True\<rparr> else f) in (NOERROR, f\<lparr>m_State := State_Paused\<rparr>))
         else if \<not> m_Connected (m_pOutput f) then (NOERROR, f\<lparr>m_State := State_Paused\<rparr>)
         else (let hr = (if m_State f = State_Stopped then StartStreaming_answer e else NOERROR) in if SUCCEEDED hr then base_Pause e f else (hr, f)))
      in (hr, f\<lparr>m_bSampleSkipped := False, m_bQualityChanged := False\<rparr>))"

text \<open>\<open>CBaseFilter::Run\<close>.\<close>

definition Transform_Run :: "transform_env \<Rightarrow> CTransformFilter \<Rightarrow> HRESULT \<times> CTransformFilter" where
  "Transform_Run e f =
     (let (hr, f) = (if m_State f = State_Stopped then Transform_Pause e f else (S_OK, f))
      in if FAILED hr then (hr, f) else (S_OK, f\<lparr>m_State := State_Running\<rparr>))"

section \<open>Pins: connection and quality\<close>

text \<open>The calls of the derived class come first; \<open>base\<close> is the answer of the base class of the pin.\<close>

definition TransformIn_CheckConnect :: "HRESULT \<Rightarrow> HRESULT \<Rightarrow> HRESULT" where
  "TransformIn_CheckConnect derived base = (if FAILED derived then derived else base)"

definition TransformIn_CompleteConnect :: "HRESULT \<Rightarrow> HRESULT \<Rightarrow> HRESULT" where
  "TransformIn_CompleteConnect derived base = (if FAILED derived then derived else base)"

definition TransformIn_SetMediaType :: "HRESULT \<Rightarrow> HRESULT \<Rightarrow> HRESULT" where
  "TransformIn_SetMediaType base derived = (if FAILED base then base else derived)"

definition TransformOut_CheckConnect :: "HRESULT \<Rightarrow> HRESULT \<Rightarrow> CTransformFilter \<Rightarrow> HRESULT" where
  "TransformOut_CheckConnect derived base f = (if \<not> m_Connected (m_pInput f) then E_UNEXPECTED else if FAILED derived then derived else base)"

definition TransformOut_CompleteConnect :: "HRESULT \<Rightarrow> HRESULT \<Rightarrow> HRESULT" where
  "TransformOut_CompleteConnect derived base = (if FAILED derived then derived else base)"

definition TransformOut_CheckMediaType :: "transform_env \<Rightarrow> mtype option \<Rightarrow> mtype option \<Rightarrow> CTransformFilter \<Rightarrow> HRESULT" where
  "TransformOut_CheckMediaType e input_type mt f = (if \<not> m_Connected (m_pInput f) then E_INVALIDARG else CheckTransform e input_type mt)"

definition TransformOut_SetMediaType :: "HRESULT \<Rightarrow> HRESULT \<Rightarrow> HRESULT" where
  "TransformOut_SetMediaType base derived = (if FAILED base then base else derived)"

definition VFW_S_NO_MORE_ITEMS :: HRESULT where [hr_defs]: "VFW_S_NO_MORE_ITEMS = 0x00040103"

definition TransformOut_GetMediaType :: "HRESULT \<Rightarrow> CTransformFilter \<Rightarrow> HRESULT" where
  "TransformOut_GetMediaType derived f = (if m_Connected (m_pInput f) then derived else VFW_S_NO_MORE_ITEMS)"

text \<open>\<open>pass\<close> is the answer of \<open>PassNotify\<close> of the input pin; the flag says whether it is called.\<close>

definition TransformOut_Notify :: "HRESULT \<Rightarrow> HRESULT \<Rightarrow> HRESULT \<times> bool" where
  "TransformOut_Notify AlterQuality pass = (if AlterQuality \<noteq> S_FALSE then (AlterQuality, False) else (pass, True))"

section \<open>The two threads\<close>

text \<open>Where the streaming thread is in \<open>CTransformInputPin::Receive\<close>: it holds \<open>m_csReceive\<close> from \<open>TS_Receive\<close> on. \<open>EndOfStream\<close> holds it too, and is one step.
  The control thread holds \<open>m_csFilter\<close>; in \<open>TC_Stopping\<close> it waits for \<open>m_csReceive\<close>.\<close>

datatype transform_stream = TS_Idle | TS_Receive IMediaSample | TS_Initialize IMediaSample | TS_Buffer IMediaSample nat | TS_Release nat HRESULT | TS_Return HRESULT

datatype transform_control = TC_Idle | TC_Stopping

record transform_world =
  tf :: CTransformFilter
  ts :: transform_stream
  tc :: transform_control

text \<open>With both pins connected \<open>Pause\<close> takes \<open>m_csReceive\<close> when it leaves the stopped state. Samples come to a connected pin, as the sources assert.\<close>

definition both_connected :: "CTransformFilter \<Rightarrow> bool" where
  "both_connected f \<longleftrightarrow> m_pins f \<and> m_Connected (m_pInput f) \<and> m_Connected (m_pOutput f)"

inductive transform_step :: "transform_world \<Rightarrow> transform_world \<Rightarrow> bool" where
  receive: "ts x = TS_Idle \<Longrightarrow> m_pins (tf x) \<Longrightarrow> transform_step x (x\<lparr>ts := TS_Receive s\<rparr>)"
| check: "ts x = TS_Receive s \<Longrightarrow> m_Connected (m_pInput (tf x)) \<Longrightarrow> base_Receive e s (tf x) = (hr, f) \<Longrightarrow>
    transform_step x (x\<lparr>tf := f, ts := (if hr \<noteq> S_OK then TS_Return hr else TS_Initialize s)\<rparr>)"
| other_stream: "ts x = TS_Initialize s \<Longrightarrow> AM_SAMPLE2_PROPERTIES.dwStreamId (m_SampleProps (m_pInput (tf x))) \<noteq> AM_STREAM_MEDIA \<Longrightarrow>
    transform_step x (x\<lparr>tf := event (DeliveredOther (sid s)) (tf x), ts := TS_Return (down_Receive (e :: transform_env) (sid s))\<rparr>)"
| initialize: "ts x = TS_Initialize s \<Longrightarrow> AM_SAMPLE2_PROPERTIES.dwStreamId (m_SampleProps (m_pInput (tf x))) = AM_STREAM_MEDIA \<Longrightarrow>
    InitializeOutputSample got b (tf x) = (hr, f) \<Longrightarrow> transform_step x (x\<lparr>tf := f, ts := (if FAILED hr then TS_Return hr else TS_Buffer s b)\<rparr>)"
| deliver: "ts x = TS_Buffer s b \<Longrightarrow> transform_deliver e (sid s) b (tf x) = (hr, released, f) \<Longrightarrow>
    transform_step x (x\<lparr>tf := f, ts := (if released then TS_Return hr else TS_Release b hr)\<rparr>)"
| release: "ts x = TS_Release b hr \<Longrightarrow> transform_step x (x\<lparr>tf := release_buffer b (tf x), ts := TS_Return hr\<rparr>)"
| return: "ts x = TS_Return hr \<Longrightarrow> transform_step x (x\<lparr>ts := TS_Idle\<rparr>)"
| end_of_stream: "ts x = TS_Idle \<Longrightarrow> m_pins (tf x) \<Longrightarrow> transform_step x (x\<lparr>tf := snd (TransformIn_EndOfStream e (tf x))\<rparr>)"
| new_segment: "ts x = TS_Idle \<Longrightarrow> m_pins (tf x) \<Longrightarrow> transform_step x (x\<lparr>tf := snd (Transform_NewSegment e (tf x))\<rparr>)"
| stop: "tc x = TC_Idle \<Longrightarrow> Transform_Stop_enter (tf x) = (wait, f) \<Longrightarrow> transform_step x (x\<lparr>tf := f, tc := (if wait then TC_Stopping else TC_Idle)\<rparr>)"
| stopped: "tc x = TC_Stopping \<Longrightarrow> ts x = TS_Idle \<Longrightarrow> transform_step x (x\<lparr>tf := snd (Transform_Stop_leave e (tf x)), tc := TC_Idle\<rparr>)"
| pause: "tc x = TC_Idle \<Longrightarrow> m_State (tf x) = State_Stopped \<and> both_connected (tf x) \<longrightarrow> ts x = TS_Idle \<Longrightarrow> transform_step x (x\<lparr>tf := snd (Transform_Pause e (tf x))\<rparr>)"
| run: "tc x = TC_Idle \<Longrightarrow> m_State (tf x) = State_Stopped \<and> both_connected (tf x) \<longrightarrow> ts x = TS_Idle \<Longrightarrow> transform_step x (x\<lparr>tf := snd (Transform_Run e (tf x))\<rparr>)"
| begin_flush: "tc x = TC_Idle \<Longrightarrow> m_pins (tf x) \<Longrightarrow> transform_step x (x\<lparr>tf := snd (TransformIn_BeginFlush e (tf x))\<rparr>)"
| end_flush: "tc x = TC_Idle \<Longrightarrow> m_pins (tf x) \<Longrightarrow> transform_step x (x\<lparr>tf := snd (TransformIn_EndFlush e (tf x))\<rparr>)"
| get_pin: "tc x = TC_Idle \<Longrightarrow> transform_step x (x\<lparr>tf := snd (GetPin zero ok n (tf x))\<rparr>)"
| connect: "tc x = TC_Idle \<Longrightarrow> m_State (tf x) = State_Stopped \<Longrightarrow> m_pins (tf x) \<Longrightarrow>
    transform_step x (x\<lparr>tf := set_input (\<lambda>p. p\<lparr>m_Connected := c, m_pAllocator := a\<rparr>) (set_output (\<lambda>p. p\<lparr>m_Connected := d, m_pAllocator := b\<rparr>) (tf x))\<rparr>)"

inductive transform_reachable :: "transform_world \<Rightarrow> bool" where
  init: "(\<forall>b. buffers f b = 0) \<Longrightarrow> happened f = [] \<Longrightarrow> transform_reachable \<lparr>tf = new_CTransformFilter f, ts = TS_Idle, tc = TC_Idle\<rparr>"
| step: "transform_reachable x \<Longrightarrow> transform_step x y \<Longrightarrow> transform_reachable y"

end
