(* ===== verification/Media_Sample_Props.thy ===== *)
theory Media_Sample_Props
  imports Media_Sample
begin

text \<open>
  Properties of media samples: what every sequence of calls keeps, that getters return what setters
  stored, the transfer of all properties in one structure, and the length check that this
  transfer leaves out.
\<close>

section \<open>Flags as bits\<close>

lemma flags_exp:
  "Sample_SyncPoint = 2 ^ 0" "Sample_Preroll = 2 ^ 1" "Sample_Discontinuity = 2 ^ 2" "Sample_TypeChanged = 2 ^ 3"
  "Sample_TimeValid = 2 ^ 4" "Sample_MediaTimeValid = 2 ^ 5" "Sample_StopValid = 2 ^ 8"
  by (simp_all add: Sample_SyncPoint_def Sample_Preroll_def Sample_Discontinuity_def Sample_TypeChanged_def
      Sample_TimeValid_def Sample_MediaTimeValid_def Sample_StopValid_def)

lemma flag_test: "w AND 2 ^ n = 0 \<longleftrightarrow> \<not> bit w n" for w :: u32
  by (simp add: and_exp_eq_0_iff_not_bit)

lemma flag_tests [simp]:
  "(w AND Sample_SyncPoint = 0) = (\<not> bit w 0)" "(w AND Sample_Preroll = 0) = (\<not> bit w 1)"
  "(w AND Sample_Discontinuity = 0) = (\<not> bit w 2)" "(w AND Sample_TypeChanged = 0) = (\<not> bit w 3)"
  "(w AND Sample_TimeValid = 0) = (\<not> bit w 4)" "(w AND Sample_MediaTimeValid = 0) = (\<not> bit w 5)"
  "(w AND Sample_StopValid = 0) = (\<not> bit w 8)"
  unfolding flags_exp by (simp_all only: flag_test)

lemma flag_bits [simp]:
  "bit Sample_SyncPoint n = (n = 0)" "bit Sample_Preroll n = (n = 1)" "bit Sample_Discontinuity n = (n = 2)"
  "bit Sample_TypeChanged n = (n = 3)" "bit Sample_TimeValid n = (n = 4)" "bit Sample_MediaTimeValid n = (n = 5)"
  "bit Sample_StopValid n = (n = 8)"
  unfolding flags_exp bit_exp_iff by auto

lemma valid_flags_bit [simp]: "bit Sample_ValidFlags n = (n < 9)"
proof -
  have e: "Sample_ValidFlags = mask 9" by (simp add: Sample_ValidFlags_def mask_eq_exp_minus_1)
  show ?thesis unfolding e bit_mask_iff by auto
qed

lemma flag_nonzero [simp]: "Sample_MediaTimeValid \<noteq> 0" "Sample_StopValid \<noteq> 0"
  by (simp_all add: Sample_MediaTimeValid_def Sample_StopValid_def)

lemmas word_bits = bit_and_iff bit_or_iff bit_not_iff

section \<open>What every sequence of calls keeps\<close>

text \<open>Only defined flags are set, and the flag for a new type says whether there is one; the length of
  the data is within the buffer.\<close>

definition wf_sample :: "CMediaSample \<Rightarrow> bool" where
  "wf_sample s \<longleftrightarrow> (\<forall>n \<ge> 9. \<not> bit (m_dwFlags s) n) \<and> (bit (m_dwFlags s) 3 \<longleftrightarrow> m_pMediaType s \<noteq> None)"

definition sized :: "CMediaSample \<Rightarrow> bool" where
  "sized s \<longleftrightarrow> 0 \<le> sint (m_lActual s) \<and> sint (m_lActual s) \<le> sint (m_cbBuffer s)"

text \<open>Sequences of calls; \<open>props\<close> says whether \<open>SetProperties\<close> is among them.\<close>

inductive sample_reachable :: "bool \<Rightarrow> CMediaSample \<Rightarrow> bool" for props where
  new: "new_CMediaSample g p len S_OK = (S_OK, s) \<Longrightarrow> sample_reachable props s"
| add_ref: "sample_reachable props s \<Longrightarrow> sample_reachable props (snd (CMediaSample_AddRef s))"
| release: "sample_reachable props s \<Longrightarrow> sample_reachable props (snd (CMediaSample_Release s))"
| set_pointer: "sample_reachable props s \<Longrightarrow> sample_reachable props (snd (CMediaSample_SetPointer p n s))"
| set_time: "sample_reachable props s \<Longrightarrow> sample_reachable props (snd (CMediaSample_SetTime a b s))"
| set_media_time: "sample_reachable props s \<Longrightarrow> sample_reachable props (snd (CMediaSample_SetMediaTime c d s))"
| set_sync_point: "sample_reachable props s \<Longrightarrow> sample_reachable props (snd (CMediaSample_SetSyncPoint f s))"
| set_discontinuity: "sample_reachable props s \<Longrightarrow> sample_reachable props (snd (CMediaSample_SetDiscontinuity f s))"
| set_preroll: "sample_reachable props s \<Longrightarrow> sample_reachable props (snd (CMediaSample_SetPreroll f s))"
| set_length: "sample_reachable props s \<Longrightarrow> sample_reachable props (snd (CMediaSample_SetActualDataLength n s))"
| set_type: "sample_reachable props s \<Longrightarrow> sample_reachable props (snd (CMediaSample_SetMediaType ok mt s))"
| set_properties: "sample_reachable props s \<Longrightarrow> props \<Longrightarrow> sample_reachable props (snd (CMediaSample_SetProperties n q ok s))"

lemmas sample_ops = new_CMediaSample_def CMediaSample_AddRef_def CMediaSample_Release_def CMediaSample_SetPointer_def
  CMediaSample_SetTime_def CMediaSample_SetMediaTime_def CMediaSample_SetSyncPoint_def CMediaSample_SetDiscontinuity_def
  CMediaSample_SetPreroll_def CMediaSample_SetActualDataLength_def CMediaSample_SetMediaType_def

lemma wf_flags:
  "wf_sample s \<Longrightarrow> w AND (NOT Sample_ValidFlags OR Sample_MediaTimeValid) = 0 \<Longrightarrow> n \<ge> 9 \<Longrightarrow> \<not> bit (w OR (m_dwFlags s AND Sample_MediaTimeValid)) n"
proof
  assume a: "wf_sample s" "w AND (NOT Sample_ValidFlags OR Sample_MediaTimeValid) = 0" "n \<ge> 9"
    "bit (w OR (m_dwFlags s AND Sample_MediaTimeValid)) n"
  then have b: "bit w n" by (simp add: word_bits)
  then have "n < 32" using bit_imp_le_length by fastforce
  then have "bit (w AND (NOT Sample_ValidFlags OR Sample_MediaTimeValid)) n" using a(3) b by (simp add: word_bits)
  then show False using a(2) by simp
qed

lemma wf_assign:
  assumes "wf_sample s" and "check_properties cb p ok s = None"
  shows "wf_sample (assign_properties cb p s)"
proof -
  have v: "CONTAINS_FIELD F_dwSampleFlags cb \<Longrightarrow> dwSampleFlags p AND (NOT Sample_ValidFlags OR Sample_MediaTimeValid) = 0"
    using assms(2) by (auto simp: check_properties_def split: if_splits)
  show ?thesis using assms(1) wf_flags [OF assms(1) v]
    by (auto simp: wf_sample_def assign_properties_def Let_def word_bits)
qed

lemma wf_reachable: "sample_reachable props s \<Longrightarrow> wf_sample s"
proof (induction rule: sample_reachable.induct)
  case (set_properties s n q ok)
  then show ?case using wf_assign
    by (auto simp: CMediaSample_SetProperties_def Let_def split: option.splits)
qed (auto simp: sample_ops wf_sample_def word_bits Let_def VFW_E_BUFFER_OVERFLOW_def S_OK_def split: if_splits option.splits)

lemma sized_reachable: "sample_reachable False s \<Longrightarrow> sized s"
  by (induction rule: sample_reachable.induct)
    (auto simp: sample_ops sized_def Let_def VFW_E_BUFFER_OVERFLOW_def S_OK_def split: if_splits option.splits)

section \<open>Properties\<close>

text \<open>C37. Whatever is done to a sample after its construction, only defined flags are set and the flag
  that announces a new media type is set exactly when there is one. As long as \<open>SetProperties\<close> is not used, the
  length of the data is between 0 and the size of the buffer.\<close>

theorem sample_invariant:
  assumes "sample_reachable props s"
  shows "wf_sample s \<and> (\<not> props \<longrightarrow> sized s)"
  using wf_reachable [OF assms] sized_reachable [of s] assms by (cases props) auto

definition msample0 :: CMediaSample where
  "msample0 = \<lparr>m_dwFlags = 0, m_dwTypeSpecificFlags = 0, m_pBuffer = 4096, m_lActual = 100, m_cbBuffer = 100, m_pNext = None,
     m_Start = 0, m_End = 0, m_MediaStart = 0, m_MediaEnd = 0, m_pMediaType = None, m_dwStreamId = 0, m_cRef = 0\<rparr>"

lemma msample0_reachable: "sample_reachable props msample0"
  by (rule sample_reachable.new [of msample0 4096 100])
    (simp add: msample0_def new_CMediaSample_def Let_def AM_STREAM_MEDIA_def)

theorem sample_invariant_witness:
  "wf_sample (snd (CMediaSample_SetMediaType True (Some 5) msample0)) \<and> sized (snd (CMediaSample_SetMediaType True (Some 5) msample0)) \<and>
   m_pMediaType (snd (CMediaSample_SetMediaType True (Some 5) msample0)) = Some 5"
  using sample_invariant [OF sample_reachable.set_type [OF msample0_reachable [of False]], of True "Some 5"]
  by (simp add: CMediaSample_SetMediaType_def)

text \<open>A getter returns what the last setter stored, and the flag setters do not disturb each other or
  the times. A start time without a stop time is reported with a stop time one unit later. The media
  times are kept as a start and a 32 bit difference: the end comes back exactly when the difference fits.\<close>

theorem sample_roundtrips:
  "CMediaSample_GetTime (snd (CMediaSample_SetTime (Some a) (Some b) s)) = (NOERROR, Some (a, b)) \<and>
   CMediaSample_GetTime (snd (CMediaSample_SetTime (Some a) None s)) = (VFW_S_NO_STOP_TIME, Some (a, a + 1)) \<and>
   CMediaSample_GetTime (snd (CMediaSample_SetTime None None s)) = (VFW_E_SAMPLE_TIME_NOT_SET, None) \<and>
   (\<exists>e. CMediaSample_GetMediaTime (snd (CMediaSample_SetMediaTime (Some a) (Some b) s)) = (NOERROR, Some (a, e)) \<and>
      (e = b \<longleftrightarrow> - (2 ^ 31) \<le> sint (b - a) \<and> sint (b - a) < 2 ^ 31)) \<and>
   CMediaSample_GetMediaTime (snd (CMediaSample_SetMediaTime None None s)) = (VFW_E_MEDIA_TIME_NOT_SET, None) \<and>
   CMediaSample_IsSyncPoint (snd (CMediaSample_SetSyncPoint f s)) = (if f then S_OK else S_FALSE) \<and>
   CMediaSample_IsDiscontinuity (snd (CMediaSample_SetDiscontinuity f s)) = (if f then S_OK else S_FALSE) \<and>
   CMediaSample_IsPreroll (snd (CMediaSample_SetPreroll f s)) = (if f then S_OK else S_FALSE) \<and>
   list_all (\<lambda>g. CMediaSample_GetTime (snd (g s)) = CMediaSample_GetTime s \<and>
       CMediaSample_GetMediaTime (snd (g s)) = CMediaSample_GetMediaTime s \<and>
       CMediaSample_GetMediaType ok (snd (g s)) = CMediaSample_GetMediaType ok s)
     [CMediaSample_SetSyncPoint f, CMediaSample_SetDiscontinuity f, CMediaSample_SetPreroll f] \<and>
   CMediaSample_IsSyncPoint (snd (CMediaSample_SetPreroll f (snd (CMediaSample_SetDiscontinuity f s)))) = CMediaSample_IsSyncPoint s"
proof -
  let ?d = "ucast (b - a) :: i32"
  have "a + scast ?d = b \<longleftrightarrow> scast ?d = b - a" by (metis add_diff_cancel_left' diff_add_cancel add.commute)
  also have "\<dots> \<longleftrightarrow> sint ?d = sint (b - a)"
  proof -
    have "sint (scast ?d :: i64) = sint ?d" by (rule sint_up_scast) (simp add: is_up)
    then show ?thesis by (metis signed_word_eqI)
  qed
  also have "sint ?d = signed_take_bit 31 (sint (b - a))"
  proof -
    have "?d = word_of_int (sint (b - a))" by (rule bit_word_eqI) (simp add: bit_simps)
    then show ?thesis by (simp only: sint_eq_signed_take_bit) simp
  qed
  also have "(signed_take_bit 31 (sint (b - a)) = sint (b - a)) \<longleftrightarrow> - (2 ^ 31) \<le> sint (b - a) \<and> sint (b - a) < 2 ^ 31"
    by (metis signed_take_bit_idem_range signed_take_bit_range)
  finally have e: "a + scast ?d = b \<longleftrightarrow> - (2 ^ 31) \<le> sint (b - a) \<and> sint (b - a) < 2 ^ 31" .
  show ?thesis
    by (intro conjI) (simp_all add: sample_ops CMediaSample_GetTime_def CMediaSample_GetMediaTime_def CMediaSample_IsSyncPoint_def
        CMediaSample_IsDiscontinuity_def CMediaSample_IsPreroll_def CMediaSample_GetMediaType_def word_bits e [simplified])
qed


text \<open>The properties read from a sample with \<open>GetProperties\<close> are accepted by \<open>SetProperties\<close> on any sample
  with the same buffer, which then reports the same properties, times and type; only the media
  times, which the structure does not carry, stay those of the target. (A target keeps its own new
  type if the source has none.)\<close>

theorem sample_properties_transfer:
  assumes "wf_sample s" and "wf_sample t" and "sized s" and "m_pBuffer t = m_pBuffer s" and "m_cbBuffer t = m_cbBuffer s"
    and "m_pMediaType s = None \<longrightarrow> m_pMediaType t = None"
  shows "\<exists>p t'. CMediaSample_GetProperties 64 True s = (S_OK, Some p) \<and>
    CMediaSample_SetProperties 64 (Some p) True t = (S_OK, t') \<and>
    CMediaSample_GetProperties 64 True t' = (S_OK, Some p) \<and>
    CMediaSample_GetTime t' = CMediaSample_GetTime s \<and> CMediaSample_GetMediaType ok t' = CMediaSample_GetMediaType ok s \<and>
    CMediaSample_GetMediaTime t' = CMediaSample_GetMediaTime t"
proof -
  define p where "p = the (snd (CMediaSample_GetProperties 64 True s))"
  have p: "CMediaSample_GetProperties 64 True s = (S_OK, Some p)" "cbData p = 64"
    "dwSampleFlags p = m_dwFlags s AND NOT Sample_MediaTimeValid" "lActual p = m_lActual s" "tStart p = m_Start s" "tStop p = m_End s"
    "dwStreamId p = m_dwStreamId s" "pbBuffer p = m_pBuffer s" "cbBuffer p = m_cbBuffer s"
    "dwTypeSpecificFlags p = m_dwTypeSpecificFlags s" "pMediaType p = (if bit (m_dwFlags s) 3 then m_pMediaType s else None)"
    unfolding p_def by (simp_all add: CMediaSample_GetProperties_def sizeof_props_def)
  have valid: "dwSampleFlags p AND (NOT Sample_ValidFlags OR Sample_MediaTimeValid) = 0"
    by (rule bit_word_eqI) (use assms(1) in \<open>auto simp: p(3) word_bits wf_sample_def not_less [symmetric]\<close>)
  have c: "check_properties 64 p True t = None"
    using valid assms p by (simp add: check_properties_def sizeof_props_def CONTAINS_FIELD_def sized_def wf_sample_def word_bits)
  let ?t = "assign_properties 64 p t"
  have f: "m_dwFlags ?t = (m_dwFlags s AND NOT Sample_MediaTimeValid) OR (m_dwFlags t AND Sample_MediaTimeValid)"
    by (rule bit_word_eqI) (use assms p in \<open>auto simp: assign_properties_def Let_def CONTAINS_FIELD_def word_bits wf_sample_def\<close>)
  have r: "m_pMediaType ?t = m_pMediaType s" "m_Start ?t = m_Start s" "m_End ?t = m_End s" "m_lActual ?t = m_lActual s"
    "m_dwStreamId ?t = m_dwStreamId s" "m_dwTypeSpecificFlags ?t = m_dwTypeSpecificFlags s"
    "m_pBuffer ?t = m_pBuffer s" "m_cbBuffer ?t = m_cbBuffer s" "m_MediaStart ?t = m_MediaStart t" "m_MediaEnd ?t = m_MediaEnd t"
    using assms p by (auto simp: assign_properties_def Let_def CONTAINS_FIELD_def word_bits wf_sample_def)
  have "m_dwFlags ?t AND NOT Sample_MediaTimeValid = m_dwFlags s AND NOT Sample_MediaTimeValid"
    unfolding f by (rule bit_word_eqI) (auto simp: word_bits)
  then have "CMediaSample_GetProperties 64 True ?t = CMediaSample_GetProperties 64 True s"
    using r f by (simp add: CMediaSample_GetProperties_def word_bits)
  moreover have "CMediaSample_GetTime ?t = CMediaSample_GetTime s" "CMediaSample_GetMediaType ok ?t = CMediaSample_GetMediaType ok s"
    "CMediaSample_GetMediaTime ?t = CMediaSample_GetMediaTime t"
    using r f by (simp_all add: CMediaSample_GetTime_def CMediaSample_GetMediaType_def CMediaSample_GetMediaTime_def word_bits)
  moreover have "CMediaSample_SetProperties 64 (Some p) True t = (S_OK, ?t)"
    using c p(2) by (simp add: CMediaSample_SetProperties_def CONTAINS_FIELD_def)
  ultimately show ?thesis using p(1) by auto
qed

theorem sample_properties_transfer_witness:
  "\<exists>p t'. CMediaSample_GetProperties 64 True (snd (CMediaSample_SetTime (Some 5) (Some 9) msample0)) = (S_OK, Some p) \<and>
     CMediaSample_SetProperties 64 (Some p) True msample0 = (S_OK, t') \<and> CMediaSample_GetTime t' = (NOERROR, Some (5, 9))"
proof -
  let ?s = "snd (CMediaSample_SetTime (Some 5) (Some 9) msample0)"
  have w: "wf_sample ?s" "wf_sample msample0" "sized ?s"
    using wf_reachable [OF sample_reachable.set_time [OF msample0_reachable]] wf_reachable [OF msample0_reachable]
      sized_reachable [OF sample_reachable.set_time [OF msample0_reachable]] by blast+
  have e: "m_pBuffer msample0 = m_pBuffer ?s" "m_cbBuffer msample0 = m_cbBuffer ?s"
    "m_pMediaType ?s = None \<longrightarrow> m_pMediaType msample0 = None" "CMediaSample_GetTime ?s = (NOERROR, Some (5, 9))"
    by (simp_all add: CMediaSample_SetTime_def CMediaSample_GetTime_def word_bits msample0_def)
  from sample_properties_transfer [OF w e(1-3), of True] e(4) show ?thesis by force
qed

text \<open>\<open>SetActualDataLength\<close> refuses a length outside the buffer, but \<open>SetProperties\<close> with a structure that ends
  before the buffer size stores any length, larger than the buffer or negative, and reports success.\<close>

theorem sample_length_unchecked:
  assumes "cbData p = 16" and "dwSampleFlags p = 0" and "sint (lActual p) < 0 \<or> sint (m_cbBuffer s) < sint (lActual p)"
  shows "CMediaSample_SetActualDataLength (lActual p) s = (VFW_E_BUFFER_OVERFLOW, s) \<and>
    (\<exists>t. CMediaSample_SetProperties 16 (Some p) ok s = (S_OK, t) \<and> m_lActual t = lActual p \<and> m_cbBuffer t = m_cbBuffer s \<and> \<not> sized t)"
proof -
  have "check_properties 16 p ok s = None" using assms(1,2) by (simp add: check_properties_def CONTAINS_FIELD_def sizeof_props_def)
  then have "CMediaSample_SetProperties 16 (Some p) ok s = (S_OK, assign_properties 16 p s)"
    using assms(1) by (simp add: CMediaSample_SetProperties_def CONTAINS_FIELD_def)
  moreover have "m_lActual (assign_properties 16 p s) = lActual p" "m_cbBuffer (assign_properties 16 p s) = m_cbBuffer s"
    by (simp_all add: assign_properties_def Let_def CONTAINS_FIELD_def)
  ultimately show ?thesis using assms(3) by (auto simp: CMediaSample_SetActualDataLength_def sized_def)
qed

definition props0 :: SAMPLE2_PROPERTIES where
  "props0 = \<lparr>cbData = 16, dwTypeSpecificFlags = 0, dwSampleFlags = 0, lActual = 1000, tStart = 0, tStop = 0, dwStreamId = 0,
     pMediaType = None, pbBuffer = 0, cbBuffer = 0\<rparr>"

theorem sample_length_unchecked_witness:
  "\<exists>t. CMediaSample_SetProperties 16 (Some props0) True msample0 = (S_OK, t) \<and> m_lActual t = 1000 \<and> m_cbBuffer t = 100"
  using sample_length_unchecked [of props0 msample0 True] by (auto simp: props0_def msample0_def)

end
