(* ===== verification/Transform_Props.thy ===== *)
theory Transform_Props
  imports Transform Media_Sample_Props
begin

text \<open>
  Facts about transform filters: stopping against a running \<open>Receive\<close>, the buffers of the output, runtime errors, and what the output sample takes from
  the input sample.
\<close>

section \<open>Locks and buffers\<close>

text \<open>While the streaming thread has a sample in hand the filter is not stopped and both pins stay connected; the buffers held are those in its hands.\<close>

definition in_hand :: "transform_stream \<Rightarrow> bool" where
  "in_hand p \<longleftrightarrow> (case p of TS_Initialize s \<Rightarrow> True | TS_Buffer s b \<Rightarrow> True | TS_Release b hr \<Rightarrow> True | _ \<Rightarrow> False)"

definition holds :: "transform_stream \<Rightarrow> nat \<Rightarrow> int" where
  "holds p b = (case p of TS_Buffer s c \<Rightarrow> if b = c then 1 else 0 | TS_Release c hr \<Rightarrow> if b = c then 1 else 0 | _ \<Rightarrow> 0)"

definition transform_inv :: "transform_world \<Rightarrow> bool" where
  "transform_inv x \<longleftrightarrow> (in_hand (ts x) \<longrightarrow> m_State (tf x) \<noteq> State_Stopped \<and> both_connected (tf x)) \<and>
     (\<forall>b. buffers (tf x) b = holds (ts x) b) \<and> (ts x \<noteq> TS_Idle \<longrightarrow> m_pins (tf x)) \<and> (tc x = TC_Stopping \<longrightarrow> m_State (tf x) \<noteq> State_Stopped \<and> both_connected (tf x))"

lemmas pin_ops = set_input_def set_output_def event_def both_connected_def

lemma keeps_deliver [simp]:
  "m_State (snd (DeliverEndOfStream e f)) = m_State f" "buffers (snd (DeliverEndOfStream e f)) = buffers f" "both_connected (snd (DeliverEndOfStream e f)) = both_connected f"
  "m_State (snd (Transform_EndOfStream e f)) = m_State f" "buffers (snd (Transform_EndOfStream e f)) = buffers f" "both_connected (snd (Transform_EndOfStream e f)) = both_connected f"
  "m_State (snd (TransformIn_EndOfStream e f)) = m_State f" "buffers (snd (TransformIn_EndOfStream e f)) = buffers f" "both_connected (snd (TransformIn_EndOfStream e f)) = both_connected f"
  "m_State (snd (Transform_NewSegment e f)) = m_State f" "buffers (snd (Transform_NewSegment e f)) = buffers f" "both_connected (snd (Transform_NewSegment e f)) = both_connected f"
  "m_State (snd (TransformIn_BeginFlush e f)) = m_State f" "buffers (snd (TransformIn_BeginFlush e f)) = buffers f" "both_connected (snd (TransformIn_BeginFlush e f)) = both_connected f"
  "m_State (snd (TransformIn_EndFlush e f)) = m_State f" "buffers (snd (TransformIn_EndFlush e f)) = buffers f" "both_connected (snd (TransformIn_EndFlush e f)) = both_connected f"
  by (simp_all add: DeliverEndOfStream_def Transform_EndOfStream_def TransformIn_EndOfStream_def Transform_NewSegment_def TransformIn_BeginFlush_def Transform_BeginFlush_def
      DeliverBeginFlush_def TransformIn_EndFlush_def Transform_EndFlush_def DeliverEndFlush_def pin_ops Let_def split: prod.split)

lemma base_Receive_keeps:
  assumes "base_Receive e s f = (hr, f')"
  shows "m_State f' = m_State f \<and> buffers f' = buffers f \<and> both_connected f' = both_connected f \<and> m_pins f' = m_pins f \<and>
    m_Connected (m_pInput f') = m_Connected (m_pInput f) \<and> (hr = S_OK \<longrightarrow> m_State f \<noteq> State_Stopped \<and> m_Connected (m_pOutput f))"
  using assms
  by (auto simp: base_Receive_def Let_def Transform_CheckStreaming_def TransformIn_EndOfStream_def Transform_EndOfStream_def DeliverEndOfStream_def pin_ops hr_defs
      split: if_splits option.splits prod.splits)

lemma Transform_Pause_keeps:
  "buffers (snd (Transform_Pause e f)) = buffers f \<and> both_connected (snd (Transform_Pause e f)) = both_connected f \<and>
   (m_State f \<noteq> State_Stopped \<longrightarrow> m_State (snd (Transform_Pause e f)) \<noteq> State_Stopped)"
  by (auto simp: Transform_Pause_def base_Pause_def DeliverEndOfStream_def pin_ops Let_def split: if_splits prod.splits)

lemma Transform_Run_keeps:
  "buffers (snd (Transform_Run e f)) = buffers f \<and> both_connected (snd (Transform_Run e f)) = both_connected f \<and>
   (m_State f \<noteq> State_Stopped \<longrightarrow> m_State (snd (Transform_Run e f)) \<noteq> State_Stopped)"
  using Transform_Pause_keeps [of e f] by (auto simp: Transform_Run_def both_connected_def split: prod.split)


lemma both_connected_pins: "both_connected f \<Longrightarrow> m_pins f"
  by (simp add: both_connected_def)

lemma pins_deliver [simp]:
  "m_pins (snd (TransformIn_EndOfStream e f)) = m_pins f" "m_pins (snd (Transform_NewSegment e f)) = m_pins f" "m_pins (snd (TransformIn_BeginFlush e f)) = m_pins f"
  "m_pins (snd (TransformIn_EndFlush e f)) = m_pins f" "m_pins (snd (Transform_Pause e f)) = m_pins f" "m_pins (snd (Transform_Run e f)) = m_pins f"
  by (simp_all add: DeliverEndOfStream_def Transform_EndOfStream_def TransformIn_EndOfStream_def Transform_NewSegment_def TransformIn_BeginFlush_def Transform_BeginFlush_def
      DeliverBeginFlush_def TransformIn_EndFlush_def Transform_EndFlush_def DeliverEndFlush_def Transform_Run_def Transform_Pause_def base_Pause_def pin_ops Let_def split: prod.split)

lemma transform_inv_kept:
  assumes "transform_inv x" and "ts y = ts x" and "tc y = tc x" and "buffers (tf y) = buffers (tf x)" and "both_connected (tf y) = both_connected (tf x)"
    and "m_pins (tf y) = m_pins (tf x)" and "m_State (tf x) \<noteq> State_Stopped \<longrightarrow> m_State (tf y) \<noteq> State_Stopped"
  shows "transform_inv y"
  using assms(1,7) unfolding transform_inv_def assms(2-6) by blast

lemma transform_step_inv:
  assumes "transform_step x y" and "transform_inv x"
  shows "transform_inv y"
  using assms
proof (cases rule: transform_step.cases)
  case (check s e hr f)
  then show ?thesis using base_Receive_keeps [OF check(4)] assms(2) by (auto simp: transform_inv_def in_hand_def holds_def both_connected_def)
next
  case (initialize s got b hr f)
  then show ?thesis using assms(2)
    by (auto simp: transform_inv_def in_hand_def holds_def InitializeOutputSample_def both_connected_def Let_def split: if_splits)
next
  case (deliver s b e hr r f)
  then show ?thesis using assms(2)
    by (auto simp: transform_inv_def in_hand_def holds_def transform_deliver_def release_buffer_def pin_ops Let_def split: if_splits)
next
  case (release b hr)
  then show ?thesis using assms(2) by (auto simp: transform_inv_def in_hand_def holds_def release_buffer_def both_connected_def)
next
  case (stop w f)
  then show ?thesis using assms(2)
    by (auto simp: transform_inv_def Transform_Stop_enter_def input_Inactive_def pin_ops split: if_splits)
next
  case (stopped e)
  then show ?thesis using assms(2)
    by (auto simp: transform_inv_def in_hand_def holds_def Transform_Stop_leave_def output_Inactive_def pin_ops Let_def)
next
  case (pause e)
  then show ?thesis using Transform_Pause_keeps [of e "tf x"] by (intro transform_inv_kept [OF assms(2)]) simp_all
next
  case (run e)
  then show ?thesis using Transform_Run_keeps [of e "tf x"] by (intro transform_inv_kept [OF assms(2)]) simp_all
next
  case (end_of_stream e)
  then show ?thesis by (intro transform_inv_kept [OF assms(2)]) simp_all
next
  case (new_segment e)
  then show ?thesis by (intro transform_inv_kept [OF assms(2)]) simp_all
next
  case (begin_flush e)
  then show ?thesis by (intro transform_inv_kept [OF assms(2)]) simp_all
next
  case (end_flush e)
  then show ?thesis by (intro transform_inv_kept [OF assms(2)]) simp_all
next
  case (get_pin zero ok n)
  then show ?thesis using assms(2) by (auto simp: transform_inv_def GetPin_def both_connected_def Let_def)
qed (auto simp: transform_inv_def in_hand_def holds_def pin_ops both_connected_pins split: transform_stream.splits)

lemma transform_reachable_inv: "transform_reachable x \<Longrightarrow> transform_inv x"
proof (induction rule: transform_reachable.induct)
  case (init f)
  then show ?case by (simp add: transform_inv_def in_hand_def holds_def new_CTransformFilter_def)
qed (rule transform_step_inv)


definition delivered :: "CTransformFilter \<Rightarrow> transform_event list" where
  "delivered f = filter (\<lambda>ev. \<exists>b. ev = Delivered b) (happened f)"

lemma deliver_keeps [simp]:
  "delivered (snd (TransformIn_EndOfStream e f)) = delivered f" "delivered (snd (Transform_NewSegment e f)) = delivered f" "delivered (snd (TransformIn_BeginFlush e f)) = delivered f"
  "delivered (snd (TransformIn_EndFlush e f)) = delivered f" "delivered (snd (Transform_Pause e f)) = delivered f" "delivered (snd (Transform_Run e f)) = delivered f"
  by (simp_all add: delivered_def DeliverEndOfStream_def Transform_EndOfStream_def TransformIn_EndOfStream_def Transform_NewSegment_def TransformIn_BeginFlush_def Transform_BeginFlush_def
      DeliverBeginFlush_def TransformIn_EndFlush_def Transform_EndFlush_def DeliverEndFlush_def Transform_Run_def Transform_Pause_def base_Pause_def pin_ops Let_def split: prod.split)

lemma delivered_updates [simp]:
  "delivered (f\<lparr>m_State := a\<rparr>) = delivered f" "delivered (f\<lparr>m_bEOSDelivered := b\<rparr>) = delivered f" "delivered (f\<lparr>m_pins := c\<rparr>) = delivered f"
  "delivered (f\<lparr>m_pInput := d\<rparr>) = delivered f" "delivered (f\<lparr>m_pOutput := g\<rparr>) = delivered f"
  by (simp_all add: delivered_def)

lemma base_Receive_delivers: "base_Receive e s f = (hr, f') \<Longrightarrow> delivered f' = delivered f"
  by (auto simp: delivered_def base_Receive_def Let_def TransformIn_EndOfStream_def Transform_EndOfStream_def DeliverEndOfStream_def pin_ops split: if_splits option.splits prod.splits)

lemma only_in_hand_delivers:
  assumes "transform_step x y" and "\<not> in_hand (ts x)"
  shows "delivered (tf y) = delivered (tf x)"
  using assms
proof (cases rule: transform_step.cases)
  case (check s e hr f)
  then show ?thesis using base_Receive_delivers by auto
qed (auto simp: in_hand_def Transform_Stop_enter_def Transform_Stop_leave_def output_Inactive_def input_Inactive_def GetPin_def Let_def set_input_def set_output_def split: if_splits)

text \<open>How far the streaming thread is from leaving \<open>Receive\<close>.\<close>

fun steps_left :: "transform_stream \<Rightarrow> nat" where
  "steps_left TS_Idle = 0"
| "steps_left (TS_Return hr) = 1"
| "steps_left (TS_Release b hr) = 2"
| "steps_left (TS_Buffer s b) = 3"
| "steps_left (TS_Initialize s) = 4"
| "steps_left (TS_Receive s) = 5"

lemma stream_progress:
  assumes "ts x \<noteq> TS_Idle" and "m_Connected (m_pInput (tf x))"
  shows "\<exists>y. transform_step x y \<and> tc y = tc x \<and> steps_left (ts y) < steps_left (ts x)"
proof (cases "ts x")
  case (TS_Receive s)
  obtain hr f where "base_Receive (undefined :: transform_env) s (tf x) = (hr, f)" by fastforce
  from transform_step.check [OF TS_Receive assms(2) this] show ?thesis
    using TS_Receive by (intro exI [of _ "x\<lparr>tf := f, ts := (if hr \<noteq> S_OK then TS_Return hr else TS_Initialize s)\<rparr>"]) simp
next
  case (TS_Initialize s)
  obtain hr f where i: "InitializeOutputSample 0 0 (tf x) = (hr, f)" by fastforce
  show ?thesis
  proof (cases "AM_SAMPLE2_PROPERTIES.dwStreamId (m_SampleProps (m_pInput (tf x))) = AM_STREAM_MEDIA")
    case True
    from transform_step.initialize [OF TS_Initialize True i] show ?thesis using TS_Initialize
      by (intro exI [of _ "x\<lparr>tf := f, ts := (if FAILED hr then TS_Return hr else TS_Buffer s 0)\<rparr>"]) simp
  next
    case False
    from transform_step.other_stream [OF TS_Initialize False] show ?thesis using TS_Initialize
      by (intro exI [of _ "x\<lparr>tf := event (DeliveredOther (sid s)) (tf x), ts := TS_Return (down_Receive undefined (sid s))\<rparr>"]) simp
  qed
next
  case (TS_Buffer s b)
  obtain hr r f where "transform_deliver (undefined :: transform_env) (sid s) b (tf x) = (hr, r, f)" by (metis prod_cases3)
  from transform_step.deliver [OF TS_Buffer this] show ?thesis using TS_Buffer
    by (intro exI [of _ "x\<lparr>tf := f, ts := (if r then TS_Return hr else TS_Release b hr)\<rparr>"]) simp
next
  case (TS_Release b hr)
  from transform_step.release [OF this] show ?thesis using TS_Release by (intro exI [of _ "x\<lparr>tf := release_buffer b (tf x), ts := TS_Return hr\<rparr>"]) simp
next
  case (TS_Return hr)
  from transform_step.return [OF this] show ?thesis using TS_Return by (intro exI [of _ "x\<lparr>ts := TS_Idle\<rparr>"]) simp
qed (use assms in simp)

text \<open>C8. Stopping is safe whatever the streaming thread does: each buffer obtained for the output is released exactly once, so that none is held when the thread
  is outside \<open>Receive\<close>; while the filter is stopped none is held and no step delivers a sample; and a thread that stops the filter does so at once
  when the streaming thread is outside, and otherwise the streaming thread has a step that brings it closer to leaving.\<close>

theorem transform_stop_safe:
  assumes "transform_reachable x"
  shows "(ts x = TS_Idle \<longrightarrow> (\<forall>b. buffers (tf x) b = 0)) \<and> (\<forall>b. buffers (tf x) b \<in> {0, 1}) \<and>
    (m_State (tf x) = State_Stopped \<longrightarrow> (\<forall>b. buffers (tf x) b = 0) \<and> (\<forall>y. transform_step x y \<longrightarrow> delivered (tf y) = delivered (tf x))) \<and>
    (tc x = TC_Stopping \<longrightarrow> (if ts x = TS_Idle
      then transform_step x (x\<lparr>tf := snd (Transform_Stop_leave e (tf x)), tc := TC_Idle\<rparr>) \<and> (SUCCEEDED (StopStreaming_answer e) \<longrightarrow> m_State (snd (Transform_Stop_leave e (tf x))) = State_Stopped)
      else \<exists>y. transform_step x y \<and> tc y = TC_Stopping \<and> steps_left (ts y) < steps_left (ts x)))"
proof -
  have inv: "in_hand (ts x) \<longrightarrow> m_State (tf x) \<noteq> State_Stopped" "\<forall>b. buffers (tf x) b = holds (ts x) b" "tc x = TC_Stopping \<longrightarrow> m_Connected (m_pInput (tf x))"
    using transform_reachable_inv [OF assms] by (auto simp: transform_inv_def both_connected_def)
  have h: "holds (ts x) b \<in> {0, 1}" "\<not> in_hand (ts x) \<longrightarrow> holds (ts x) b = 0" for b by (auto simp: holds_def in_hand_def split: transform_stream.splits)
  have i: "\<not> in_hand TS_Idle" by (simp add: in_hand_def)
  have s: "SUCCEEDED (StopStreaming_answer e) \<longrightarrow> m_State (snd (Transform_Stop_leave e (tf x))) = State_Stopped" by (simp add: Transform_Stop_leave_def Let_def)
  show ?thesis
  proof (intro conjI impI)
    show "ts x = TS_Idle \<Longrightarrow> \<forall>b. buffers (tf x) b = 0" using inv(2) h i by metis
    show "\<forall>b. buffers (tf x) b \<in> {0, 1}" using inv(2) h by metis
    assume "m_State (tf x) = State_Stopped"
    then have n: "\<not> in_hand (ts x)" using inv(1) by blast
    then show "\<forall>b. buffers (tf x) b = 0" using inv(2) h by metis
    show "\<forall>y. transform_step x y \<longrightarrow> delivered (tf y) = delivered (tf x)" using only_in_hand_delivers n by blast
  next
    assume c: "tc x = TC_Stopping"
    show "if ts x = TS_Idle then transform_step x (x\<lparr>tf := snd (Transform_Stop_leave e (tf x)), tc := TC_Idle\<rparr>) \<and> (SUCCEEDED (StopStreaming_answer e) \<longrightarrow> m_State (snd (Transform_Stop_leave e (tf x))) = State_Stopped)
      else \<exists>y. transform_step x y \<and> tc y = TC_Stopping \<and> steps_left (ts y) < steps_left (ts x)"
      using transform_step.stopped [OF c] s stream_progress [of x] inv(3) c by auto
  qed
qed

section \<open>Runtime errors\<close>

text \<open>C21. A sample with a media type that the filter refuses raises a runtime error: no sample is accepted any more, until the end of a flush. The end of the stream, which
  the base class means to deliver downstream at this point, is refused by the input pin itself, as the error has already been recorded; downstream never hears of it.\<close>

theorem transform_runtime_error:
  assumes "Transform_CheckStreaming f = S_OK" and "sample2 s = Some (S_OK, p)" and "AM_SAMPLE2_PROPERTIES.dwSampleFlags p AND Renderer.AM_SAMPLE_TYPECHANGED \<noteq> 0"
    and "TransformIn_CheckMediaType e (AM_SAMPLE2_PROPERTIES.pMediaType p) f \<noteq> S_OK" and "base_Receive e s f = (hr, f')"
  shows "hr = VFW_E_INVALIDMEDIATYPE \<and> happened f' = ErrorAbort # happened f \<and> TransformIn_EndOfStream e' f' = (VFW_E_RUNTIME_ERROR, f') \<and>
    base_Receive e' s' f' = (VFW_E_RUNTIME_ERROR, f') \<and>
    (m_Connected (m_pInput f) \<and> SUCCEEDED (down_EndFlush e') \<longrightarrow> Transform_CheckStreaming (snd (TransformIn_EndFlush e' f')) = S_OK)"
proof -
  have c: "m_Connected (m_pOutput f)" "\<not> m_bFlushing (m_pInput f)" "m_State f \<noteq> State_Stopped"
    using assms(1) by (auto simp: Transform_CheckStreaming_def hr_defs split: if_splits)
  let ?f = "f\<lparr>m_pInput := (m_pInput f)\<lparr>m_SampleProps := p, m_bRunTimeError := True\<rparr>\<rparr>"
  have cs: "Transform_CheckStreaming ?f = VFW_E_RUNTIME_ERROR" using c by (simp add: Transform_CheckStreaming_def)
  have ne: "VFW_E_RUNTIME_ERROR \<noteq> S_OK" by (simp add: hr_defs)
  have "TransformIn_CheckMediaType e mt (f\<lparr>m_pInput := g\<rparr>) = TransformIn_CheckMediaType e mt f" for mt g by (simp add: TransformIn_CheckMediaType_def Let_def)
  moreover have eos: "TransformIn_EndOfStream e0 ?f = (VFW_E_RUNTIME_ERROR, ?f)" for e0 using cs ne by (simp add: TransformIn_EndOfStream_def)
  ultimately have r: "hr = VFW_E_INVALIDMEDIATYPE" "f' = event ErrorAbort ?f"
    using assms by (simp_all add: base_Receive_def set_input_def)
  have cs': "Transform_CheckStreaming f' = VFW_E_RUNTIME_ERROR" using c by (simp add: r event_def Transform_CheckStreaming_def)
  then have "TransformIn_EndOfStream e' f' = (VFW_E_RUNTIME_ERROR, f')" "base_Receive e' s' f' = (VFW_E_RUNTIME_ERROR, f')"
    using ne by (simp_all add: TransformIn_EndOfStream_def base_Receive_def)
  moreover have "m_Connected (m_pInput f) \<and> SUCCEEDED (down_EndFlush e') \<longrightarrow> Transform_CheckStreaming (snd (TransformIn_EndFlush e' f')) = S_OK"
    using c by (simp add: r event_def TransformIn_EndFlush_def Transform_EndFlush_def DeliverEndFlush_def set_input_def Transform_CheckStreaming_def)
  ultimately show ?thesis using r by (simp add: event_def)
qed

definition sample0 :: "AM_SAMPLE2_PROPERTIES \<Rightarrow> IMediaSample" where
  "sample0 p = \<lparr>sid = 0, sample2 = Some (S_OK, p), IsDiscontinuity = S_FALSE, IsPreroll = S_FALSE, IsSyncPoint = S_FALSE, GetTime = (E_FAIL, 0, 0),
     GetMediaType = (S_FALSE, None), GetPointer = 0, GetActualDataLength = 0, GetSize = 0\<rparr>"

definition props0 :: "u32 \<Rightarrow> AM_SAMPLE2_PROPERTIES" where
  "props0 flags = \<lparr>AM_SAMPLE2_PROPERTIES.dwTypeSpecificFlags = 0, dwSampleFlags = flags, lActual = 0, tStart = 100, tStop = 200, dwStreamId = 0, pMediaType = Some 7,
     pbBuffer = 0, cbBuffer = 0\<rparr>"

definition pin0 :: transform_pin where
  "pin0 = \<lparr>m_Connected = True, m_pAllocator = True, active = False, m_bFlushing = False, m_bRunTimeError = False, m_SampleProps = props0 0\<rparr>"

definition filter0 :: "FILTER_STATE \<Rightarrow> CTransformFilter" where
  "filter0 s = \<lparr>m_State = s, m_bEOSDelivered = False, m_bSampleSkipped = False, m_bQualityChanged = False, m_pins = True, m_pInput = pin0, m_pOutput = pin0,
     buffers = (\<lambda>b. 0), happened = []\<rparr>"

definition env0 :: "HRESULT \<Rightarrow> transform_env" where
  "env0 hr = \<lparr>CheckInputType = (\<lambda>mt. hr), CheckTransform = (\<lambda>a b. S_OK), Transform_answer = (\<lambda>s b. S_OK), StartStreaming_answer = S_OK, StopStreaming_answer = S_OK,
     output_type = None, down_Receive = (\<lambda>b. S_OK), down_EndOfStream = S_OK, down_BeginFlush = S_OK, down_EndFlush = S_OK, down_NewSegment = S_OK,
     Decommit_answer = S_OK, Commit_answer = S_OK\<rparr>"

theorem transform_runtime_error_witness:
  "\<exists>hr f'. base_Receive (env0 E_FAIL) (sample0 (props0 8)) (filter0 State_Running) = (hr, f') \<and> happened f' = [ErrorAbort]"
proof -
  obtain hr f' where r: "base_Receive (env0 E_FAIL) (sample0 (props0 8)) (filter0 State_Running) = (hr, f')" by fastforce
  have "Transform_CheckStreaming (filter0 State_Running) = S_OK" by (simp add: Transform_CheckStreaming_def filter0_def pin0_def)
  moreover have "sample2 (sample0 (props0 8)) = Some (S_OK, props0 8)" "AM_SAMPLE2_PROPERTIES.dwSampleFlags (props0 8) AND Renderer.AM_SAMPLE_TYPECHANGED \<noteq> 0"
    "TransformIn_CheckMediaType (env0 E_FAIL) (AM_SAMPLE2_PROPERTIES.pMediaType (props0 8)) (filter0 State_Running) \<noteq> S_OK"
    by (simp_all add: sample0_def props0_def Renderer.AM_SAMPLE_TYPECHANGED_def TransformIn_CheckMediaType_def env0_def hr_defs)
  ultimately show ?thesis using transform_runtime_error [OF _ _ _ _ r] r by (auto simp: filter0_def)
qed

text \<open>The renderer's input pin does the same.\<close>

lemma renderer_refuses_eos:
  assumes "pin.m_bRunTimeError (m_pInputPin r)"
  shows "\<exists>hr. CRendererInputPin_EndOfStream e r = (hr, r)"
  using assms by (auto simp: CRendererInputPin_EndOfStream_def CheckStreaming_def Let_def hr_defs)

section \<open>The output sample\<close>

lemma renderer_flags:
  "AM_SAMPLE_SPLICEPOINT = Sample_SyncPoint" "AM_SAMPLE_DATADISCONTINUITY = Sample_Discontinuity" "Renderer.AM_SAMPLE_TIMEVALID = Sample_TimeValid"
  "AM_SAMPLE_STOPVALID = Sample_StopValid"
  by (simp_all add: AM_SAMPLE_SPLICEPOINT_def Sample_SyncPoint_def AM_SAMPLE_DATADISCONTINUITY_def Sample_Discontinuity_def Renderer.AM_SAMPLE_TIMEVALID_def
      Sample_TimeValid_def AM_SAMPLE_STOPVALID_def Sample_StopValid_def)

text \<open>C33. The output sample, fresh from the allocator, takes the times, the sync point and the discontinuity of the input sample, by whichever interface it is
  written. The two ways differ in the rest: through \<open>IMediaSample2\<close> the preroll flag is copied but the media times are lost; through \<open>IMediaSample\<close>
  the media times are copied but the preroll flag is lost. A media type the allocator attached stays.\<close>

theorem transform_output_sample:
  assumes "m_dwFlags s AND NOT Sample_TypeChanged = 0" and "wf_sample s" and "flags = AM_SAMPLE2_PROPERTIES.dwSampleFlags p"
    and "flags AND (NOT Sample_ValidFlags OR Sample_MediaTimeValid) = 0" and "bit flags 4" and "bit flags 8" and "s' = set_output_sample junk p media_time two s"
  shows "CMediaSample_GetTime s' = (NOERROR, Some (AM_SAMPLE2_PROPERTIES.tStart p, AM_SAMPLE2_PROPERTIES.tStop p)) \<and>
    CMediaSample_IsSyncPoint s' = (if bit flags 0 then S_OK else S_FALSE) \<and> CMediaSample_IsDiscontinuity s' = (if bit flags 2 then S_OK else S_FALSE) \<and>
    m_pMediaType s' = m_pMediaType s \<and> wf_sample s' \<and>
    CMediaSample_IsPreroll s' = (if two \<and> bit flags 1 then S_OK else S_FALSE) \<and>
    fst (CMediaSample_GetMediaTime s') = (if \<not> two \<and> media_time \<noteq> None then NOERROR else VFW_E_MEDIA_TIME_NOT_SET)"
proof -
  have clean: "bit (m_dwFlags s) n \<longleftrightarrow> n = 3 \<and> bit (m_dwFlags s) 3" for n
    using arg_cong [OF assms(1), of "\<lambda>w. bit w n"] by (cases "n < 32") (auto simp: word_bits dest: bit_imp_le_length)
  have t: "bit (m_dwFlags s) 3 \<longleftrightarrow> m_pMediaType s \<noteq> None" using assms(2) by (simp add: wf_sample_def)
  have f: "bit flags n \<Longrightarrow> n < 9 \<and> n \<noteq> 5" for n
    using arg_cong [OF assms(4), of "\<lambda>w. bit w n"] by (cases "n < 32") (auto simp: word_bits dest: bit_imp_le_length)
  have f5: "\<not> bit flags 5" using f [of 5] by blast
  have f9: "9 \<le> n \<Longrightarrow> \<not> bit flags n" for n using f [of n] by auto
  show ?thesis
  proof (cases two)
    case True
    define q where "q = OutProps junk p s"
    have q: "cbData q = 32" "tStart q = AM_SAMPLE2_PROPERTIES.tStart p" "tStop q = AM_SAMPLE2_PROPERTIES.tStop p"
      "dwSampleFlags q = ((m_dwFlags s AND NOT Sample_MediaTimeValid) AND Sample_TypeChanged) OR (flags AND NOT Sample_TypeChanged)"
      by (simp_all add: q_def OutProps_def CMediaSample_GetProperties_def assms(3))
    have qb: "bit (dwSampleFlags q) n \<longleftrightarrow> (if n = 3 then m_pMediaType s \<noteq> None else bit flags n)" for n
      using clean t f by (auto simp: q(4) word_bits dest: bit_imp_le_length)
    have "dwSampleFlags q AND (NOT Sample_ValidFlags OR Sample_MediaTimeValid) = 0"
      by (rule bit_word_eqI) (use qb f in \<open>auto simp: word_bits split: if_splits\<close>)
    then have c: "check_properties 32 q True s = None" by (simp add: check_properties_def sizeof_props_def CONTAINS_FIELD_def q(1))
    have s': "s' = assign_properties 32 q s" by (simp add: assms(7) set_output_sample_def True CMediaSample_SetProperties_def CONTAINS_FIELD_def c q(1) flip: q_def)
    have fl: "bit (m_dwFlags s') n \<longleftrightarrow> (if n = 3 then m_pMediaType s \<noteq> None else bit flags n)" for n
      using qb [of n] clean t f by (auto simp: s' assign_properties_def CONTAINS_FIELD_def Let_def word_bits dest: bit_imp_le_length)
    have o: "m_pMediaType s' = m_pMediaType s" "m_Start s' = AM_SAMPLE2_PROPERTIES.tStart p" "m_End s' = AM_SAMPLE2_PROPERTIES.tStop p"
      by (simp_all add: s' assign_properties_def CONTAINS_FIELD_def Let_def q)
    show ?thesis using True o fl assms(5,6) f9 f5
      by (auto simp: CMediaSample_GetTime_def CMediaSample_IsSyncPoint_def CMediaSample_IsDiscontinuity_def CMediaSample_IsPreroll_def CMediaSample_GetMediaTime_def wf_sample_def)
  next
    case False
    note sets = CMediaSample_SetTime_def CMediaSample_SetSyncPoint_def CMediaSample_SetDiscontinuity_def CMediaSample_SetMediaTime_def
    define w0 where "w0 = m_dwFlags s OR (Sample_TimeValid OR Sample_StopValid)"
    define w1 where "w1 = (if bit flags 0 then w0 OR Sample_SyncPoint else w0)"
    define w2 where "w2 = (if bit flags 2 then w1 OR Sample_Discontinuity else w1)"
    define w3 where "w3 = (if media_time = None then w2 else w2 OR Sample_MediaTimeValid)"
    have o: "m_dwFlags s' = w3" "m_pMediaType s' = m_pMediaType s" "m_Start s' = AM_SAMPLE2_PROPERTIES.tStart p" "m_End s' = AM_SAMPLE2_PROPERTIES.tStop p"
      using False assms(5) by (cases media_time; simp add: sets assms(3,7) set_output_sample_def renderer_flags Let_def w0_def w1_def w2_def w3_def split: prod.split)+
    have "bit w0 n \<longleftrightarrow> n = 3 \<and> m_pMediaType s \<noteq> None \<or> n = 4 \<or> n = 8" for n using clean [of n] t by (auto simp: w0_def word_bits)
    then have "bit w1 n \<longleftrightarrow> n = 3 \<and> m_pMediaType s \<noteq> None \<or> n = 4 \<or> n = 8 \<or> n = 0 \<and> bit flags 0" for n by (auto simp add: w1_def word_bits)
    then have "bit w2 n \<longleftrightarrow> n = 3 \<and> m_pMediaType s \<noteq> None \<or> n = 4 \<or> n = 8 \<or> n = 0 \<and> bit flags 0 \<or> n = 2 \<and> bit flags 2" for n by (auto simp add: w2_def word_bits)
    then have "bit w3 n \<longleftrightarrow> n = 3 \<and> m_pMediaType s \<noteq> None \<or> n = 4 \<or> n = 8 \<or> n = 0 \<and> bit flags 0 \<or> n = 2 \<and> bit flags 2 \<or> n = 5 \<and> media_time \<noteq> None" for n
      by (auto simp: w3_def word_bits)
    then show ?thesis using False o
      by (simp add: CMediaSample_GetTime_def CMediaSample_IsSyncPoint_def CMediaSample_IsDiscontinuity_def CMediaSample_IsPreroll_def CMediaSample_GetMediaTime_def wf_sample_def)
  qed
qed

theorem transform_output_sample_witness:
  "fst (CMediaSample_GetMediaTime (set_output_sample undefined (props0 0x111) (Some (5, 6)) True msample0)) = VFW_E_MEDIA_TIME_NOT_SET"
proof -
  have "m_dwFlags msample0 AND NOT Sample_TypeChanged = 0" "wf_sample msample0" by (simp_all add: msample0_def wf_sample_def)
  moreover have "AM_SAMPLE2_PROPERTIES.dwSampleFlags (props0 0x111) = 0x111" by (simp add: props0_def)
  moreover have "(0x111 :: u32) AND (NOT Sample_ValidFlags OR Sample_MediaTimeValid) = 0" "bit (0x111 :: u32) 4" "bit (0x111 :: u32) 8"
    by (simp_all add: Sample_ValidFlags_def Sample_MediaTimeValid_def)
  ultimately show ?thesis using transform_output_sample [of msample0 "0x111" "props0 0x111" _ undefined "Some (5, 6)" True] by simp
qed

text \<open>A run: pins are created, connected, the filter is paused, a sample comes and a buffer is obtained; then the filter is stopped.\<close>

theorem transform_stop_safe_witness:
  "\<exists>x. transform_reachable x \<and> tc x = TC_Stopping \<and> ts x = TS_Buffer (sample0 (props0 0)) 3 \<and> buffers (tf x) 3 = 1 \<and>
     (\<exists>y. transform_step x y \<and> steps_left (ts y) < 3)"
proof -
  let ?w = "\<lambda>f p. \<lparr>tf = f, ts = p, tc = TC_Idle\<rparr>" and ?s = "sample0 (props0 0)"
  have go: "transform_reachable x \<Longrightarrow> transform_step x y \<Longrightarrow> transform_reachable y" for x y by (rule transform_reachable.step)
  define f0 where "f0 = new_CTransformFilter (filter0 State_Stopped)"
  define f1 where "f1 = snd (GetPin (props0 0) (True, True) 0 f0)"
  define f2 where "f2 = set_input (\<lambda>p. p\<lparr>m_Connected := True, m_pAllocator := True\<rparr>) (set_output (\<lambda>p. p\<lparr>m_Connected := True, m_pAllocator := True\<rparr>) f1)"
  define f3 where "f3 = snd (Transform_Pause (env0 S_OK) f2)"
  define f4 where "f4 = snd (base_Receive (env0 S_OK) ?s f3)"
  define f5 where "f5 = snd (InitializeOutputSample S_OK 3 f4)"
  note d = f0_def f1_def f2_def f3_def f4_def f5_def new_CTransformFilter_def filter0_def GetPin_def new_transform_pin_def pin_ops Transform_Pause_def base_Pause_def
    base_Receive_def Transform_CheckStreaming_def InitializeOutputSample_def env0_def sample0_def props0_def Let_def
  have f: "m_pins f1" "m_State f1 = State_Stopped" "m_pins f3" "m_Connected (m_pInput f3)" "base_Receive (env0 S_OK) ?s f3 = (S_OK, f4)"
    "AM_SAMPLE2_PROPERTIES.dwStreamId (m_SampleProps (m_pInput f4)) = AM_STREAM_MEDIA" "InitializeOutputSample S_OK 3 f4 = (S_OK, f5)" "m_State f5 = State_Paused"
    "both_connected f5" by (simp_all add: d AM_STREAM_MEDIA_def)
  have 0: "transform_reachable (?w f0 TS_Idle)" unfolding f0_def by (rule transform_reachable.init) (simp_all add: filter0_def)
  have 1: "transform_reachable (?w f1 TS_Idle)" using go [OF 0 transform_step.get_pin [of _ "props0 0" "(True, True)" 0]] by (simp add: f1_def)
  have 2: "transform_reachable (?w f2 TS_Idle)" using go [OF 1 transform_step.connect [of _ True True True True]] f by (simp add: f2_def)
  have 3: "transform_reachable (?w f3 TS_Idle)" using go [OF 2 transform_step.pause [of _ "env0 S_OK"]] by (simp add: f3_def)
  have 4: "transform_reachable (?w f3 (TS_Receive ?s))" using go [OF 3 transform_step.receive [of _ ?s]] f by simp
  have 5: "transform_reachable (?w f4 (TS_Initialize ?s))" using go [OF 4 transform_step.check [of _ ?s "env0 S_OK" S_OK f4]] f by simp
  have 6: "transform_reachable (?w f5 (TS_Buffer ?s 3))" using go [OF 5 transform_step.initialize [of _ ?s S_OK 3 S_OK f5]] f by simp
  have st: "Transform_Stop_enter f5 = (True, input_Inactive f5)" using f by (simp add: Transform_Stop_enter_def both_connected_def)
  let ?x = "\<lparr>tf = input_Inactive f5, ts = TS_Buffer ?s 3, tc = TC_Stopping\<rparr>"
  have 7: "transform_reachable ?x" using go [OF 6 transform_step.stop [of _ True "input_Inactive f5"]] st by simp
  have b: "buffers (tf ?x) 3 = 1" by (simp add: d input_Inactive_def)
  show ?thesis using transform_stop_safe [OF 7, of "env0 S_OK"] 7 b by (intro exI [of _ ?x]) auto
qed

end
