(* ===== verification/Renderer_Props.thy ===== *)
theory Renderer_Props
  imports Renderer
begin

text \<open>
  Properties of the renderer filter: an invariant of every state that the control thread, the
  streaming thread, the clock and the timer can bring about, and what follows from it.
\<close>

section \<open>Operations as record updates\<close>

lemma ClearPendingSample_eq:
  "ClearPendingSample r = r\<lparr>refs := (case m_pMediaSample r of None \<Rightarrow> refs r
     | Some s \<Rightarrow> (refs r)(sid s := refs r (sid s) - 1)), m_pMediaSample := None\<rparr>"
  by (cases r) (auto simp: ClearPendingSample_def Release_def split: option.splits)

lemma CancelNotification_eq:
  "snd (CancelNotification r) = r\<lparr>clock_pending := clock_pending r \<and> m_dwAdvise r = 0, m_dwAdvise := 0, m_RenderEvent := False\<rparr>"
  by (cases r) (auto simp: CancelNotification_def SignalTimerFired_def Let_def)

lemma ResetEndOfStream_eq:
  "ResetEndOfStream r = r\<lparr>m_EndOfStreamTimer := 0, m_bEOS := False, m_bEOSDelivered := False, m_SignalTime := 0,
     history := Eos_reset # history r\<rparr>"
  by (cases r) (auto simp: ResetEndOfStream_def ResetEndOfStreamTimer_def happened_def)

lemma ResetEndOfStreamTimer_eq: "ResetEndOfStreamTimer r = r\<lparr>m_EndOfStreamTimer := 0\<rparr>"
  by (cases r) (auto simp: ResetEndOfStreamTimer_def)

lemma StopStreaming_eq:
  "StopStreaming r = r\<lparr>m_bEOSDelivered := False, m_bStreaming := False, history := Halted # history r\<rparr>"
  by (cases r) (auto simp: StopStreaming_def happened_def Let_def)

lemma Commit_eq: "Commit r = r\<lparr>committed := committed r \<or> m_pAllocator (m_pInputPin r)\<rparr>"
  by (cases r) (auto simp: Commit_def)

lemma Decommit_eq: "Decommit r = r\<lparr>committed := committed r \<and> \<not> m_pAllocator (m_pInputPin r)\<rparr>"
  by (cases r) (auto simp: Decommit_def)

lemmas small_defs = Ready_def NotReady_def SourceThreadCanWait_def SetRepaintStatus_def SignalTimerFired_def
  set_pin_def happened_def AddRef_def IsConnected_def IsFlushing_def IsStopped_def

lemmas update_eqs = ClearPendingSample_eq CancelNotification_eq ResetEndOfStream_eq ResetEndOfStreamTimer_eq
  StopStreaming_eq Commit_eq Decommit_eq

section \<open>The invariant\<close>

fun is_mark :: "happening \<Rightarrow> bool" where
  "is_mark Started = True" | "is_mark Halted = True" | "is_mark Eos_reset = True" | "is_mark Joined = True"
| "is_mark _ = False"

text \<open>The completions sent since streaming was last started or stopped, the end of stream reset or the
  pin connected.\<close>

fun completes :: "happening list \<Rightarrow> nat" where
  "completes [] = 0"
| "completes (x # xs) = (if is_mark x then 0 else completes xs + (if x = Sent EC_COMPLETE then 1 else 0))"

text \<open>The samples accepted and drawn, latest first: every sample drawn is the last one accepted, and it
  is drawn once.\<close>

fun last_accepted :: "happening list \<Rightarrow> nat option" where
  "last_accepted [] = None"
| "last_accepted (Accepted x # xs) = Some x"
| "last_accepted (Drawn x # xs) = None"
| "last_accepted (_ # xs) = last_accepted xs"

fun drawn_ok :: "happening list \<Rightarrow> bool" where
  "drawn_ok [] = True"
| "drawn_ok (Drawn x # xs) = (last_accepted xs = Some x \<and> drawn_ok xs)"
| "drawn_ok (_ # xs) = drawn_ok xs"

definition held :: "IMediaSample option \<Rightarrow> nat \<Rightarrow> int" where
  "held ps x = (case ps of None \<Rightarrow> 0 | Some s \<Rightarrow> if sid s = x then 1 else 0)"

definition rinv :: "renderer \<Rightarrow> bool" where
  "rinv r \<longleftrightarrow>
     (m_bStreaming r \<longrightarrow> m_State r = State_Running \<and> IsConnected r) \<and>
     (m_dwAdvise r \<noteq> 0 \<longrightarrow> m_bStreaming r \<and> m_pClock r) \<and>
     (m_RenderEvent r \<longrightarrow> m_bStreaming r) \<and>
     (clock_pending r \<longrightarrow> m_dwAdvise r \<noteq> 0 \<and> \<not> m_RenderEvent r) \<and>
     (m_bEOSDelivered r \<longrightarrow> m_bStreaming r) \<and>
     (m_State r = State_Stopped \<or> \<not> IsConnected r \<longrightarrow> m_pMediaSample r = None) \<and>
     (m_ThreadSignal r \<longrightarrow> IsStopped r \<or> IsFlushing r \<or> \<not> IsConnected r) \<and>
     (m_ThreadSignal r \<longrightarrow> m_dwAdvise r = 0 \<and> \<not> m_RenderEvent r \<and> m_pMediaSample r = None) \<and>
     \<not> m_bCanReconnectWhenActive (m_pInputPin r) \<and>
     refs r = held (m_pMediaSample r)"

definition hinv :: "renderer \<Rightarrow> bool" where
  "hinv r \<longleftrightarrow>
     (IsConnected r \<longrightarrow> completes (history r) = (if m_bEOSDelivered r \<and> m_pSink r then 1 else 0)) \<and>
     drawn_ok (history r) \<and>
     (\<forall>s. m_pMediaSample r = Some s \<longrightarrow> last_accepted (history r) = Some (sid s))"

text \<open>The streaming thread: it announces itself exactly while it is on its way to the wait or in it, and
  outside \<open>Receive\<close> there is neither a sample nor an advise nor a signalled render event.\<close>

definition tinv :: "receiver \<Rightarrow> control \<Rightarrow> renderer \<Rightarrow> bool" where
  "tinv p c r \<longleftrightarrow>
     (m_bInReceive r \<longleftrightarrow> p \<in> {R_Prepared, R_First, R_Waiting}) \<and>
     (p \<in> {R_Prepared, R_Paused, R_First, R_Waiting, R_Due} \<or>
        m_pMediaSample r = None \<and> m_dwAdvise r = 0 \<and> \<not> m_RenderEvent r) \<and>
     (c \<noteq> C_Free \<longrightarrow> m_ThreadSignal r) \<and>
     (c = C_Stopping \<longrightarrow> IsStopped r)"

lemma refs_clear [simp]:
  "rf = held ps \<Longrightarrow> (case ps of None \<Rightarrow> rf | Some s \<Rightarrow> rf(sid s := rf (sid s) - 1)) = held None"
  by (auto simp: held_def fun_eq_iff split: option.splits)

lemma hr_facts [simp]:
  "S_FALSE \<noteq> S_OK" "S_OK \<noteq> S_FALSE" "\<not> SUCCEEDED VFW_E_START_TIME_AFTER_END" "\<not> SUCCEEDED VFW_E_SAMPLE_REJECTED"
  "\<not> SUCCEEDED VFW_E_INVALIDMEDIATYPE" "\<not> SUCCEEDED VFW_E_NOT_STOPPED" "\<not> SUCCEEDED VFW_E_RUNTIME_ERROR"
  "\<not> SUCCEEDED VFW_E_WRONG_STATE" "\<not> SUCCEEDED VFW_E_STATE_CHANGED" "VFW_E_INVALIDMEDIATYPE \<noteq> S_OK" "VFW_E_RUNTIME_ERROR \<noteq> S_OK" "VFW_E_WRONG_STATE \<noteq> S_OK"
  "E_FAIL \<noteq> VFW_E_SAMPLE_REJECTED" "E_UNEXPECTED \<noteq> VFW_E_SAMPLE_REJECTED"
  by (simp_all add: SUCCEEDED_def hr_defs)

lemma rinv_frame [simp]:
  "rinv (r\<lparr>m_evComplete := b\<rparr>) = rinv r" "rinv (r\<lparr>m_bRepaintStatus := b\<rparr>) = rinv r" "rinv (r\<lparr>m_bAbort := b\<rparr>) = rinv r"
  "rinv (r\<lparr>committed := b\<rparr>) = rinv r" "rinv (r\<lparr>m_SignalTime := x\<rparr>) = rinv r" "rinv (r\<lparr>m_EndOfStreamTimer := n\<rparr>) = rinv r"
  "rinv (r\<lparr>m_bEOS := b\<rparr>) = rinv r" "rinv (r\<lparr>history := hs\<rparr>) = rinv r" "rinv (r\<lparr>m_tStart := x\<rparr>) = rinv r"
  "rinv (r\<lparr>m_bInReceive := b\<rparr>) = rinv r" "rinv (r\<lparr>m_pQSink := b\<rparr>) = rinv r"
  by (simp_all add: rinv_def small_defs)

lemma rinv_complete [simp]: "rinv (snd (CompleteStateChange st r)) = rinv r"
  by (simp add: CompleteStateChange_def Ready_def NotReady_def)

lemma rinv_pause:
  assumes "rinv r"
  shows "rinv (snd (CBaseRenderer_Pause r))"
proof (cases "m_State r = State_Paused \<or> \<not> IsConnected r")
  case True
  then show ?thesis using assms
    by (auto simp: CBaseRenderer_Pause_def Let_def) (auto simp: rinv_def small_defs)
next
  case False
  then show ?thesis using assms
    by (simp add: CBaseRenderer_Pause_def CBaseFilter_Pause_def Let_def update_eqs SetRepaintStatus_def SourceThreadCanWait_def)
      (auto simp: rinv_def small_defs)
qed

lemma rinv_notify_event [simp]: "rinv (snd (NotifyEvent e ev r)) = rinv r"
  by (simp add: NotifyEvent_def happened_def)

lemma rinv_notify_eos: "rinv r \<Longrightarrow> rinv (snd (NotifyEndOfStream e r))"
  by (simp add: NotifyEndOfStream_def) (auto simp: rinv_def small_defs)

lemma rinv_send_eos: "rinv r \<Longrightarrow> rinv (snd (SendEndOfStream e r))"
  by (simp add: SendEndOfStream_def Let_def rinv_notify_eos)

lemma schedule_eq:
  "ScheduleSample e (Some s) r = (let hr = fst (GetSampleTimes s r) in
     if FAILED hr then (False, r) else if hr = S_OK then (True, r\<lparr>m_RenderEvent := True\<rparr>)
     else if SUCCEEDED (fst (advise_answer e)) then (True, r\<lparr>m_dwAdvise := snd (advise_answer e), clock_pending := True\<rparr>)
     else (False, r))"
  by (simp add: ScheduleSample_def split_def Let_def)

lemma schedule_clock: "SUCCEEDED (fst (GetSampleTimes s r)) \<Longrightarrow> fst (GetSampleTimes s r) \<noteq> S_OK \<Longrightarrow> m_pClock r"
  by (auto simp: GetSampleTimes_def split_def Let_def split: if_splits)

lemma rinv_schedule:
  assumes "rinv r" "env_ok e" "m_bStreaming r" "m_dwAdvise r = 0" "\<not> m_RenderEvent r" "\<not> m_ThreadSignal r"
  shows "rinv (snd (ScheduleSample e (Some s) r))"
  using assms schedule_clock [of s r]
  by (auto simp: schedule_eq Let_def env_ok_def) (auto simp: rinv_def small_defs)

lemma rinv_start:
  assumes "rinv r" "env_ok e" "m_State r = State_Running" "IsConnected r" "\<not> m_ThreadSignal r"
  shows "rinv (snd (StartStreaming e r))"
proof (cases "m_bStreaming r")
  case True
  then show ?thesis using assms by (simp add: StartStreaming_def)
next
  case False
  define r1 where "r1 = happened Started (r\<lparr>m_bStreaming := True\<rparr>)"
  have r1: "rinv r1" "m_bStreaming r1" "m_dwAdvise r1 = 0" "\<not> m_RenderEvent r1" "\<not> m_ThreadSignal r1" "m_pMediaSample r1 = m_pMediaSample r"
    using assms False by (auto simp: r1_def happened_def) (auto simp: rinv_def small_defs)
  show ?thesis
  proof (cases "m_pMediaSample r")
    case None
    then show ?thesis using False r1 rinv_send_eos [of r1 e] by (simp add: StartStreaming_def r1_def [symmetric] Let_def)
  next
    case (Some s)
    have "rinv (snd (ScheduleSample e (Some s) r1))" using r1 assms(2) by (intro rinv_schedule) simp_all
    moreover have "rinv (r1\<lparr>m_RenderEvent := True\<rparr>)" using r1 by (auto simp: rinv_def small_defs)
    ultimately show ?thesis using False r1 Some
      by (auto simp: StartStreaming_def r1_def [symmetric] Let_def schedule_eq split: if_splits)
  qed
qed

lemma pause_effect:
  assumes "rinv r" "m_State r = State_Stopped" "IsConnected r"
  shows "m_State (snd (CBaseRenderer_Pause r)) = State_Paused" "IsConnected (snd (CBaseRenderer_Pause r))"
    "m_pMediaSample (snd (CBaseRenderer_Pause r)) = None" "SUCCEEDED (fst (CBaseRenderer_Pause r))"
    "m_bStreaming (snd (CBaseRenderer_Pause r)) = False" "m_evComplete (snd (CBaseRenderer_Pause r)) = m_bEOS r"
    "m_bEOS (snd (CBaseRenderer_Pause r)) = m_bEOS r"
  using assms
  by (simp_all add: CBaseRenderer_Pause_def CBaseFilter_Pause_def CompleteStateChange_def Let_def update_eqs small_defs)

lemma rinv_run:
  assumes "rinv r" "env_ok e"
  shows "rinv (snd (CBaseRenderer_Run e t r))"
proof (cases "m_State r = State_Running \<or> \<not> IsConnected r")
  case True
  then show ?thesis using assms(1)
    by (auto simp: CBaseRenderer_Run_def NotifyEvent_def happened_def) (auto simp: rinv_def small_defs)
next
  case False
  define r1 where "r1 = (if m_State r = State_Stopped then snd (CBaseRenderer_Pause (Ready r\<lparr>m_tStart := t\<rparr>)) else Ready r\<lparr>m_tStart := t\<rparr>)"
  have R: "rinv (Ready r\<lparr>m_tStart := t\<rparr>)" "IsConnected (Ready r\<lparr>m_tStart := t\<rparr>)" "m_State (Ready r\<lparr>m_tStart := t\<rparr>) = m_State r"
    using assms False by (simp_all add: Ready_def IsConnected_def)
  have r1: "rinv r1" "IsConnected r1" "m_State r1 = State_Paused" "\<not> m_bStreaming r1"
    "m_State r = State_Stopped \<Longrightarrow> m_pMediaSample r1 = None"
  proof -
    show "rinv r1" using R rinv_pause [OF R(1)] by (simp add: r1_def)
    show "IsConnected r1" "m_State r1 = State_Paused" "\<not> m_bStreaming r1"
      using R pause_effect [OF R(1)] False assms(1) by (cases "m_State r"; auto simp: r1_def rinv_def small_defs)+
    show "m_State r = State_Stopped \<Longrightarrow> m_pMediaSample r1 = None" using R pause_effect [OF R(1)] by (simp add: r1_def)
  qed
  define r2 where "r2 = Commit (SetRepaintStatus False (SourceThreadCanWait True (r1\<lparr>m_State := State_Running\<rparr>)))"
  have "fst (CBaseFilter_Run t (Ready r)) = S_OK" "snd (CBaseFilter_Run t (Ready r)) = r1\<lparr>m_State := State_Running\<rparr>"
    using pause_effect [OF R(1)] R by (auto simp: CBaseFilter_Run_def r1_def Let_def split_def)
  then have eq: "CBaseRenderer_Run e t r = StartStreaming e
      (if m_State r = State_Stopped then ClearPendingSample (r2\<lparr>m_bAbort := False\<rparr>) else r2)"
    using False by (auto simp: CBaseRenderer_Run_def r2_def Let_def split_def)
  have r2: "rinv r2" "m_State r2 = State_Running" "IsConnected r2" "\<not> m_ThreadSignal r2"
    using r1 unfolding r2_def by (auto simp: update_eqs SetRepaintStatus_def SourceThreadCanWait_def IsConnected_def)
      (auto simp: rinv_def small_defs)
  have "rinv (ClearPendingSample (r2\<lparr>m_bAbort := False\<rparr>))"
    using r2 by (simp add: update_eqs) (auto simp: rinv_def small_defs)
  then show ?thesis unfolding eq using r2 assms(2)
    by (auto intro!: rinv_start simp: update_eqs IsConnected_def)
qed

lemma rinv_clear: "rinv r \<Longrightarrow> rinv (ClearPendingSample r)"
  by (simp add: update_eqs) (auto simp: rinv_def small_defs)

lemma rinv_stop: "rinv r \<Longrightarrow> rinv (snd (Stop_enter r))"
  by (simp add: Stop_enter_def CBaseFilter_Stop_def CRendererInputPin_Inactive_def Inactive_def Let_def update_eqs
      SetRepaintStatus_def SourceThreadCanWait_def set_pin_def Ready_def)
    (auto simp: rinv_def small_defs)

lemma rinv_begin_flush: "rinv r \<Longrightarrow> rinv (BeginFlush_enter r)"
  by (simp add: BeginFlush_enter_def CBaseInputPin_BeginFlush_def Let_def update_eqs NotReady_def SourceThreadCanWait_def set_pin_def)
    (auto simp: rinv_def small_defs)

lemma rinv_end_flush: "rinv r \<Longrightarrow> rinv (snd (CRendererInputPin_EndFlush r))"
  by (simp add: CRendererInputPin_EndFlush_def CBaseInputPin_EndFlush_def SourceThreadCanWait_def set_pin_def)
    (auto simp: rinv_def small_defs)

lemma rinv_reset: "rinv r \<Longrightarrow> rinv (ResetEndOfStream r)"
  by (simp add: update_eqs) (auto simp: rinv_def small_defs)

lemma rinv_end_of_stream: "rinv r \<Longrightarrow> rinv (snd (CRendererInputPin_EndOfStream e r))"
  by (simp add: CRendererInputPin_EndOfStream_def EndOfStream_def Let_def Ready_def rinv_send_eos split_def)

lemma rinv_timer: "rinv r \<Longrightarrow> rinv (TimerCallback e r)"
  by (simp add: TimerCallback_def rinv_send_eos)

lemma rinv_repaint: "rinv r \<Longrightarrow> rinv (SendRepaint e r)"
  by (simp add: SendRepaint_def SetRepaintStatus_def)

lemma rinv_display: "rinv r \<Longrightarrow> rinv (snd (OnDisplayChange e r))"
  by (simp add: OnDisplayChange_def rinv_clear)

text \<open>The invariant reads three flags of the pin.\<close>

definition same_pin :: "pin \<Rightarrow> pin \<Rightarrow> bool" where
  "same_pin p q \<longleftrightarrow> m_Connected p = m_Connected q \<and> m_bFlushing p = m_bFlushing q \<and>
     m_bCanReconnectWhenActive p = m_bCanReconnectWhenActive q"

lemma rinv_pin: "same_pin q (m_pInputPin r) \<Longrightarrow> rinv (r\<lparr>m_pInputPin := q\<rparr>) = rinv r"
  by (simp add: rinv_def small_defs same_pin_def)

lemma rinv_break:
  assumes "rinv r" "IsStopped r"
  shows "rinv (snd (CRendererInputPin_BreakConnect e r))" "IsStopped (snd (CRendererInputPin_BreakConnect e r))"
    "IsConnected (snd (CRendererInputPin_BreakConnect e r)) = IsConnected r"
    "m_pMediaSample (snd (CRendererInputPin_BreakConnect e r)) = None"
  using assms
  by (simp_all add: CRendererInputPin_BreakConnect_def CBaseRenderer_BreakConnect_def CBaseInputPin_BreakConnect_def
      Let_def update_eqs SetRepaintStatus_def split_def set_pin_def IsConnected_def IsStopped_def)
    (auto simp: rinv_def small_defs)

lemma rinv_unconnect:
  assumes "rinv r" "IsStopped r"
  shows "rinv (set_pin (\<lambda>p. p\<lparr>m_Connected := False\<rparr>) r)" "IsStopped (set_pin (\<lambda>p. p\<lparr>m_Connected := False\<rparr>) r)"
  using assms by (auto simp: rinv_def small_defs)

lemma rinv_disconnect: "rinv r \<Longrightarrow> rinv (snd (Disconnect e r))"
  using rinv_break [of r e] rinv_unconnect [of "snd (CRendererInputPin_BreakConnect e r)"]
  by (simp add: Disconnect_def split_def Let_def)

lemma rinv_connect:
  assumes "rinv r" "env_ok e"
  shows "rinv (snd (ReceiveConnection d e opp mt r))"
proof (cases "IsConnected r \<or> \<not> IsStopped r")
  case True
  then show ?thesis using assms(1) by (auto simp: ReceiveConnection_def) (simp_all add: rinv_def)
next
  case False
  note b = rinv_break [of r e, OF assms(1)]
  define r1 where "r1 = snd (CRendererInputPin_SetMediaType d e (Some mt) (happened Joined (set_pin (\<lambda>p. p\<lparr>m_Connected := True\<rparr>) r)))"
  have r1: "rinv r1" "IsStopped r1"
    using False assms(1) by (simp_all add: r1_def CRendererInputPin_SetMediaType_def set_pin_def happened_def small_defs)
      (auto simp: rinv_def small_defs)
  define r2 where "r2 = snd (CBaseRenderer_CompleteConnect e r1)"
  have r2: "rinv r2" "IsStopped r2"
    using r1 by (simp_all add: r2_def CBaseRenderer_CompleteConnect_def SetRepaintStatus_def IsStopped_def Let_def)
  note un = rinv_unconnect [OF r1] rinv_unconnect [OF r2]
  show ?thesis
    using False b r1 r2 un rinv_break(1) [OF un(1,2)] rinv_break(1) [OF un(3,4)]
    by (simp add: ReceiveConnection_def Let_def split_def r1_def [symmetric] r2_def [symmetric])
qed

section \<open>Receiving\<close>

lemma end_of_stream_after_error:
  "CheckStreaming r \<noteq> S_OK \<Longrightarrow> snd (CRendererInputPin_EndOfStream e r) = r"
  by (simp add: CRendererInputPin_EndOfStream_def)

lemma base_receive:
  "\<exists>q hs. snd (CBaseInputPin_Receive d e s r) = r\<lparr>m_pInputPin := q, history := hs @ history r\<rparr> \<and> same_pin q (m_pInputPin r) \<and>
     hs \<in> {[], [Sent (EC_ERRORABORT VFW_E_TYPE_NOT_ACCEPTED)]} \<and>
     (fst (CBaseInputPin_Receive d e s r) = S_OK \<longrightarrow> CheckStreaming r = S_OK)"
proof (cases "CheckStreaming r = S_OK")
  case False
  then show ?thesis
    by (intro exI [of _ "m_pInputPin r"] exI [of _ "[]"]) (simp add: CBaseInputPin_Receive_def Let_def same_pin_def)
next
  case True
  obtain q hr where q: "(case sample2 s of
              Some (hr, p) \<Rightarrow> (hr, if SUCCEEDED hr then set_pin (\<lambda>q. q\<lparr>m_SampleProps := p\<rparr>) r else r)
            | None \<Rightarrow> (S_OK, set_pin (\<lambda>q. q\<lparr>m_SampleProps := props_the_hard_way s (m_SampleProps q)\<rparr>) r)) =
          (hr, r\<lparr>m_pInputPin := q\<rparr>)" "same_pin q (m_pInputPin r)"
  proof (cases "sample2 s")
    case None
    then show ?thesis
      by (intro that [of S_OK "(m_pInputPin r)\<lparr>m_SampleProps := props_the_hard_way s (m_SampleProps (m_pInputPin r))\<rparr>"])
        (auto simp: set_pin_def same_pin_def)
  next
    case (Some x)
    obtain hr p where x: "x = (hr, p)" by (cases x)
    show ?thesis
      by (rule that [of hr "if SUCCEEDED hr then (m_pInputPin r)\<lparr>m_SampleProps := p\<rparr> else m_pInputPin r"])
        (auto simp: Some x set_pin_def same_pin_def)
  qed
  define r1 where "r1 = r\<lparr>m_pInputPin := q\<lparr>m_bRunTimeError := True\<rparr>\<rparr>"
  have "CheckStreaming r1 \<noteq> S_OK" by (simp add: r1_def CheckStreaming_def small_defs)
  note eos = end_of_stream_after_error [OF this, of e]
  show ?thesis
  proof (cases "snd (CBaseInputPin_Receive d e s r) = r\<lparr>m_pInputPin := q\<rparr>")
    case True
    with q \<open>CheckStreaming r = S_OK\<close> show ?thesis by (intro exI [of _ q] exI [of _ "[]"]) simp
  next
    case False
    then have "snd (CBaseInputPin_Receive d e s r) = snd (NotifyEvent e (EC_ERRORABORT VFW_E_TYPE_NOT_ACCEPTED) r1)"
      using True q eos unfolding CBaseInputPin_Receive_def by (simp add: Let_def set_pin_def r1_def split: if_splits)
    moreover have "same_pin (q\<lparr>m_bRunTimeError := True\<rparr>) (m_pInputPin r)" using q(2) by (simp add: same_pin_def)
    ultimately show ?thesis using True
      by (cases "m_pSink r") (force simp: NotifyEvent_def r1_def happened_def)+
  qed
qed

lemma change_type_frame:
  "\<exists>q. snd (change_type d e r) = r\<lparr>m_pInputPin := q\<rparr> \<and> same_pin q (m_pInputPin r)"
proof -
  have "snd (change_type d e r) = r \<or> (\<exists>mt. snd (change_type d e r) = set_pin (\<lambda>p. p\<lparr>m_mt := mt\<rparr>) r)"
    by (auto simp: change_type_def CRendererInputPin_SetMediaType_def Let_def)
  then show ?thesis
  proof (elim disjE exE)
    assume "snd (change_type d e r) = r"
    then show ?thesis by (intro exI [of _ "m_pInputPin r"]) (simp add: same_pin_def)
  qed (auto simp: set_pin_def same_pin_def)
qed

lemma accept_eq:
  assumes "m_pMediaSample r = None"
  shows "accept_sample e s r =
    (if m_bEOS r \<or> m_bAbort r then (E_UNEXPECTED, r\<lparr>m_evComplete := True, m_bInReceive := False\<rparr>)
     else let sc = (if m_bStreaming r then ScheduleSample e (Some s) r else (True, r)) in
       if \<not> fst sc then (VFW_E_SAMPLE_REJECTED, (snd sc)\<lparr>m_bInReceive := False\<rparr>)
       else (S_OK, (snd sc)\<lparr>m_SignalTime := tStop (m_SampleProps (m_pInputPin (snd sc))), m_pMediaSample := Some s,
         refs := (refs (snd sc))(sid s := refs (snd sc) (sid s) + 1), history := Accepted (sid s) # history (snd sc),
         m_bRepaintStatus := m_bRepaintStatus (snd sc) \<or> \<not> m_bStreaming (snd sc)\<rparr>))"
proof -
  have *: "(if \<not> m_bStreaming x then SetRepaintStatus True x else x) = x\<lparr>m_bRepaintStatus := m_bRepaintStatus x \<or> \<not> m_bStreaming x\<rparr>" for x
    by (cases x) (simp add: SetRepaintStatus_def)
  show ?thesis using assms unfolding accept_sample_def split_def Let_def *
    by (simp add: Ready_def happened_def AddRef_def)
qed

text \<open>What \<open>PrepareReceive\<close> leaves: the pin's record of the sample and perhaps an error event in any
  case; then only flags, or what accepting the sample does.\<close>

lemma PrepareReceive_cases:
  obtains (failed) q hs where "FAILED (fst (PrepareReceive d e s r))" "same_pin q (m_pInputPin r)" "hs \<in> {[], [Sent (EC_ERRORABORT VFW_E_TYPE_NOT_ACCEPTED)]}"
      "snd (PrepareReceive d e s r) = r\<lparr>m_pInputPin := q, history := hs @ history r, m_bInReceive := False\<rparr>"
  | (checked) q hs where "same_pin q (m_pInputPin r)" "CheckStreaming r = S_OK"
      "hs \<in> {[], [Sent (EC_ERRORABORT VFW_E_TYPE_NOT_ACCEPTED)]}"
      "PrepareReceive d e s r = accept_sample e s (r\<lparr>m_pInputPin := q, history := hs @ history r, m_bInReceive := True\<rparr>)"
proof -
  define r0 where "r0 = r\<lparr>m_bInReceive := True\<rparr>"
  define B where "B = CBaseInputPin_Receive d e s r0"
  obtain q1 hs where b: "snd B = r0\<lparr>m_pInputPin := q1, history := hs @ history r0\<rparr>"
    and q1: "same_pin q1 (m_pInputPin r0)" and hs: "hs \<in> {[], [Sent (EC_ERRORABORT VFW_E_TYPE_NOT_ACCEPTED)]}"
    and cs: "fst B = S_OK \<longrightarrow> CheckStreaming r0 = S_OK"
    using base_receive [of d e s r0] unfolding B_def by blast
  define T where "T = change_type d e (snd B)"
  obtain q where t: "snd T = (snd B)\<lparr>m_pInputPin := q\<rparr>" "same_pin q (m_pInputPin (snd B))"
    using change_type_frame [of d e "snd B"] unfolding T_def by blast
  have q: "same_pin q (m_pInputPin r)" "same_pin q1 (m_pInputPin r)" using t q1 b by (simp_all add: same_pin_def r0_def)
  have eq: "PrepareReceive d e s r = (if fst B \<noteq> NOERROR then (E_FAIL, (snd B)\<lparr>m_bInReceive := False\<rparr>)
      else if FAILED (fst T) then (fst T, (snd T)\<lparr>m_bInReceive := False\<rparr>) else accept_sample e s (snd T))"
    unfolding PrepareReceive_def r0_def [symmetric] B_def [symmetric] T_def by (simp add: Let_def split_def B_def r0_def)
  have cs': "CheckStreaming r0 = CheckStreaming r" by (simp add: r0_def CheckStreaming_def small_defs)
  consider "fst B \<noteq> S_OK" | "fst B = S_OK" "FAILED (fst T)" | "fst B = S_OK" "SUCCEEDED (fst T)" by (cases "SUCCEEDED (fst T)") auto
  then show thesis
  proof cases
    case 1
    then show thesis using failed [OF _ q(2) hs] by (simp add: eq b r0_def)
  next
    case 2
    then show thesis using failed [OF _ q(1) hs] by (simp add: eq b t r0_def)
  next
    case 3
    have "snd T = r\<lparr>m_pInputPin := q, history := hs @ history r, m_bInReceive := True\<rparr>"
      by (cases r) (simp add: t b r0_def)
    then show thesis using checked [OF q(1) _ hs] cs cs' 3 by (simp add: eq)
  qed
qed

lemma refs_add: "rf = held None \<Longrightarrow> rf(sid s := rf (sid s) + 1) = held (Some s)"
  by (auto simp: held_def fun_eq_iff)

lemma rinv_schedule':
  assumes "rinv r" "env_ok e" "m_bStreaming r" "m_dwAdvise r = 0" "\<not> m_RenderEvent r" "\<not> m_ThreadSignal r" "m_pMediaSample r = None"
  shows "m_pMediaSample (snd (ScheduleSample e (Some s) r)) = None" "m_ThreadSignal (snd (ScheduleSample e (Some s) r)) = False"
    "m_State (snd (ScheduleSample e (Some s) r)) = m_State r" "m_pInputPin (snd (ScheduleSample e (Some s) r)) = m_pInputPin r"
    "history (snd (ScheduleSample e (Some s) r)) = history r" "m_bInReceive (snd (ScheduleSample e (Some s) r)) = m_bInReceive r"
    "m_bEOSDelivered (snd (ScheduleSample e (Some s) r)) = m_bEOSDelivered r" "m_pSink (snd (ScheduleSample e (Some s) r)) = m_pSink r"
    "m_bStreaming (snd (ScheduleSample e (Some s) r))"
    "\<not> fst (ScheduleSample e (Some s) r) \<Longrightarrow> snd (ScheduleSample e (Some s) r) = r"
  using assms by (auto simp: schedule_eq Let_def)

lemma rinv_take:
  assumes "rinv r" "m_pMediaSample r = None" "m_State r \<noteq> State_Stopped" "IsConnected r" "\<not> m_ThreadSignal r"
  shows "rinv (r\<lparr>m_pMediaSample := Some s, refs := (refs r)(sid s := refs r (sid s) + 1)\<rparr>)"
  using assms refs_add [of "refs r" s] by (auto simp: rinv_def small_defs)

definition tinv_idle :: "renderer \<Rightarrow> bool" where
  "tinv_idle r \<longleftrightarrow> m_pMediaSample r = None \<and> m_dwAdvise r = 0 \<and> \<not> m_RenderEvent r"

lemma hinv_errorabort:
  assumes "hinv r" "hs \<in> {[], [Sent (EC_ERRORABORT hr)]}" "same_pin q (m_pInputPin r)"
  shows "hinv (r\<lparr>m_pInputPin := q, history := hs @ history r\<rparr>)"
  using assms by (auto simp: hinv_def small_defs same_pin_def)

lemma hinv_frame [simp]:
  "hinv (r\<lparr>m_evComplete := b\<rparr>) = hinv r" "hinv (r\<lparr>m_bRepaintStatus := b\<rparr>) = hinv r" "hinv (r\<lparr>m_bAbort := b\<rparr>) = hinv r"
  "hinv (r\<lparr>committed := b\<rparr>) = hinv r" "hinv (r\<lparr>m_SignalTime := x\<rparr>) = hinv r" "hinv (r\<lparr>m_EndOfStreamTimer := n\<rparr>) = hinv r"
  "hinv (r\<lparr>m_bEOS := b\<rparr>) = hinv r" "hinv (r\<lparr>m_tStart := x\<rparr>) = hinv r" "hinv (r\<lparr>m_State := st\<rparr>) = hinv r"
  "hinv (r\<lparr>m_bInReceive := b\<rparr>) = hinv r" "hinv (r\<lparr>m_pQSink := b\<rparr>) = hinv r" "hinv (r\<lparr>refs := rf\<rparr>) = hinv r"
  "hinv (r\<lparr>m_dwAdvise := n\<rparr>) = hinv r" "hinv (r\<lparr>clock_pending := b\<rparr>) = hinv r" "hinv (r\<lparr>m_RenderEvent := b\<rparr>) = hinv r"
  "hinv (r\<lparr>m_ThreadSignal := b\<rparr>) = hinv r" "hinv (r\<lparr>m_bStreaming := b\<rparr>) = hinv r" "hinv (r\<lparr>m_pClock := b\<rparr>) = hinv r"
  by (simp_all add: hinv_def small_defs)

lemma hinv_take: "hinv r \<Longrightarrow> hinv (r\<lparr>m_pMediaSample := Some s, history := Accepted (sid s) # history r\<rparr>)"
  by (auto simp: hinv_def small_defs)

lemma Receive_enter_inv:
  assumes r: "rinv r" and h: "hinv r" and idle: "tinv_idle r" and e: "env_ok e" and c: "IsConnected r"
    and R: "Receive_enter d e s r = (p, r')"
  shows "rinv r' \<and> hinv r' \<and> tinv p C_Free r'"
proof -
  define R where "R = PrepareReceive d e s r"
  have pr: "r' = snd R" "p = (if FAILED (fst R) then if fst R = VFW_E_SAMPLE_REJECTED then R_Idle else R_Failed (fst R) else R_Prepared)"
    using assms(6) by (auto simp: Receive_enter_def R_def [symmetric] Let_def split_def split: if_splits)
  show ?thesis
  proof (cases rule: PrepareReceive_cases [of d e s r])
    case (failed q hs)
    have "rinv r'" using r failed pr rinv_pin [of q r] by (simp add: R_def)
    moreover have "hinv r'" using hinv_errorabort [OF h failed(3,2)] failed pr by (simp add: R_def)
    moreover have "tinv p C_Free r'" using failed pr idle by (auto simp: R_def tinv_def tinv_idle_def)
    ultimately show ?thesis by simp
  next
    case (checked q hs)
    define r3 where "r3 = r\<lparr>m_pInputPin := q, history := hs @ history r, m_bInReceive := True\<rparr>"
    have st: "m_State r \<noteq> State_Stopped" "\<not> IsFlushing r" using checked(2) by (auto simp: CheckStreaming_def small_defs split: if_splits)
    then have ts: "\<not> m_ThreadSignal r" using r c by (auto simp: rinv_def IsStopped_def)
    have r3: "rinv r3" "hinv r3" "m_pMediaSample r3 = None" "m_dwAdvise r3 = 0" "\<not> m_RenderEvent r3" "\<not> m_ThreadSignal r3"
      "m_State r3 = m_State r" "IsConnected r3" "m_bInReceive r3"
      using r rinv_pin [OF checked(1)] hinv_errorabort [OF h checked(3,1)] idle ts c checked(1)
      by (simp_all add: r3_def tinv_idle_def IsConnected_def same_pin_def)
    define sc where "sc = (if m_bStreaming r3 then ScheduleSample e (Some s) r3 else (True, r3))"
    have sc: "rinv (snd sc)" "hinv (snd sc)" "m_pMediaSample (snd sc) = None" "\<not> m_ThreadSignal (snd sc)" "m_State (snd sc) = m_State r"
      "IsConnected (snd sc)" "\<not> fst sc \<Longrightarrow> snd sc = r3" "m_bInReceive (snd sc)"
    proof -
      note S = rinv_schedule' [OF r3(1) e _ r3(4-6,3), of s]
      show "rinv (snd sc)" using rinv_schedule [OF r3(1) e _ r3(4-6)] r3 by (simp add: sc_def)
      show "hinv (snd sc)" using r3(2) S by (simp add: sc_def hinv_def r3(3) IsConnected_def)
      show "m_pMediaSample (snd sc) = None" "\<not> m_ThreadSignal (snd sc)" "m_State (snd sc) = m_State r"
        "IsConnected (snd sc)" "\<not> fst sc \<Longrightarrow> snd sc = r3" "m_bInReceive (snd sc)"
        using S r3 by (auto simp: sc_def IsConnected_def)
    qed
    have R: "R = (if m_bEOS r3 \<or> m_bAbort r3 then (E_UNEXPECTED, r3\<lparr>m_evComplete := True, m_bInReceive := False\<rparr>)
       else if \<not> fst sc then (VFW_E_SAMPLE_REJECTED, (snd sc)\<lparr>m_bInReceive := False\<rparr>)
       else (S_OK, (snd sc)\<lparr>m_SignalTime := tStop (m_SampleProps (m_pInputPin (snd sc))), m_pMediaSample := Some s,
         refs := (refs (snd sc))(sid s := refs (snd sc) (sid s) + 1), history := Accepted (sid s) # history (snd sc),
         m_bRepaintStatus := m_bRepaintStatus (snd sc) \<or> \<not> m_bStreaming (snd sc)\<rparr>))"
      unfolding R_def checked(4) r3_def [symmetric] by (subst accept_eq) (simp_all add: r3 Let_def sc_def [symmetric])
    show ?thesis
    proof (cases "m_bEOS r3 \<or> m_bAbort r3 \<or> \<not> fst sc")
      case True
      then show ?thesis using pr R r3 sc(7) by (auto simp: tinv_def)
    next
      case False
      have "rinv ((snd sc)\<lparr>m_pMediaSample := Some s, refs := (refs (snd sc))(sid s := refs (snd sc) (sid s) + 1)\<rparr>)"
        by (rule rinv_take) (use sc st in simp_all)
      then have "rinv r'" using pr R False by simp (simp add: rinv_def small_defs)
      moreover have "hinv r'" using hinv_take [OF sc(2), of s] pr R False by simp (simp add: hinv_def small_defs)
      moreover have "tinv p C_Free r'" using pr R False sc by (auto simp: tinv_def)
      ultimately show ?thesis by simp
    qed
  qed
qed

section \<open>What has happened\<close>

lemma hinv_sent: "ev \<noteq> EC_COMPLETE \<Longrightarrow> hinv r \<Longrightarrow> hinv (snd (NotifyEvent e ev r))"
  by (auto simp: NotifyEvent_def happened_def hinv_def small_defs)

lemma hinv_notify_eos: "hinv r \<Longrightarrow> \<not> m_bEOSDelivered r \<Longrightarrow> hinv (snd (NotifyEndOfStream e r))"
  by (auto simp: NotifyEndOfStream_def NotifyEvent_def happened_def hinv_def small_defs)

lemma hinv_send_eos: "hinv r \<Longrightarrow> hinv (snd (SendEndOfStream e r))"
  using hinv_notify_eos [of r e] hinv_notify_eos [of "r\<lparr>m_EndOfStreamTimer := timer_answer e\<rparr>" e]
  by (auto simp: SendEndOfStream_def Let_def)

lemma hinv_clear: "hinv r \<Longrightarrow> hinv (ClearPendingSample r)"
  by (simp add: update_eqs) (simp add: hinv_def small_defs)

lemma hinv_mark:
  "hinv r \<Longrightarrow> \<not> m_bEOSDelivered r \<Longrightarrow> is_mark x \<Longrightarrow> hinv (r\<lparr>history := x # history r\<rparr>)"
  by (cases x) (auto simp: hinv_def small_defs)

lemma hinv_undelivered:
  "hinv r \<Longrightarrow> is_mark x \<Longrightarrow> hinv (r\<lparr>m_bEOSDelivered := False, history := x # history r\<rparr>)"
  by (cases x) (auto simp: hinv_def small_defs)

lemma hinv_reset: "hinv r \<Longrightarrow> hinv (ResetEndOfStream r)"
  using hinv_undelivered [of r Eos_reset] by (simp add: update_eqs) (simp add: hinv_def small_defs)

lemma hinv_halt: "hinv r \<Longrightarrow> hinv (StopStreaming r)"
  using hinv_undelivered [of r Halted] by (simp add: update_eqs) (simp add: hinv_def small_defs)

lemma hinv_small [simp]:
  "hinv (Ready r) = hinv r" "hinv (NotReady r) = hinv r" "hinv (SourceThreadCanWait b r) = hinv r" "hinv (SetRepaintStatus b r) = hinv r"
  "hinv (snd (CancelNotification r)) = hinv r" "hinv (Commit r) = hinv r" "hinv (Decommit r) = hinv r" "hinv (ResetEndOfStreamTimer r) = hinv r"
  by (simp_all add: Ready_def NotReady_def SourceThreadCanWait_def SetRepaintStatus_def update_eqs)

lemma hinv_pin: "m_Connected q = m_Connected (m_pInputPin r) \<Longrightarrow> hinv (r\<lparr>m_pInputPin := q\<rparr>) = hinv r"
  by (simp add: hinv_def small_defs)

lemma hinv_complete [simp]: "hinv (snd (CompleteStateChange st r)) = hinv r"
  by (simp add: CompleteStateChange_def)

lemma hinv_pause: "hinv r \<Longrightarrow> hinv (snd (CBaseRenderer_Pause r))"
  by (simp add: CBaseRenderer_Pause_def CBaseFilter_Pause_def Let_def hinv_halt hinv_clear)

lemma hinv_stop: "hinv r \<Longrightarrow> hinv (snd (Stop_enter r))"
  by (simp add: Stop_enter_def CBaseFilter_Stop_def CRendererInputPin_Inactive_def Inactive_def set_pin_def Let_def
      hinv_halt hinv_clear hinv_reset hinv_pin)

lemma hinv_start: "hinv r \<Longrightarrow> (m_bEOSDelivered r \<longrightarrow> m_bStreaming r) \<Longrightarrow> hinv (snd (StartStreaming e r))"
proof (cases "m_bStreaming r")
  case False
  assume h: "hinv r" and "m_bEOSDelivered r \<longrightarrow> m_bStreaming r"
  with False have "\<not> m_bEOSDelivered r" by simp
  define r1 where "r1 = happened Started (r\<lparr>m_bStreaming := True\<rparr>)"
  have r1: "hinv r1" "m_pMediaSample r1 = m_pMediaSample r"
    using hinv_mark [OF h \<open>\<not> m_bEOSDelivered r\<close>, of Started] by (simp_all add: r1_def happened_def) (simp add: hinv_def small_defs)
  have "hinv (snd (ScheduleSample e (Some s) r1))" for s using r1 by (simp add: schedule_eq Let_def)
  then show ?thesis using False r1 hinv_send_eos [OF r1(1)]
    by (auto simp: StartStreaming_def r1_def [symmetric] Let_def split_def)
qed (simp add: StartStreaming_def)

lemma hinv_run: "hinv r \<Longrightarrow> rinv r \<Longrightarrow> env_ok e \<Longrightarrow> hinv (snd (CBaseRenderer_Run e t r))"
proof (cases "m_State r = State_Running \<or> \<not> IsConnected r")
  case True
  assume "hinv r"
  then show ?thesis using True
    by (auto simp: CBaseRenderer_Run_def NotifyEvent_def happened_def) (auto simp: hinv_def small_defs)
next
  case False
  assume h: "hinv r" and r: "rinv r"
  let ?x = "Ready r\<lparr>m_tStart := t\<rparr>"
  define r1 where "r1 = snd (CBaseFilter_Run t (Ready r))"
  have x: "hinv ?x" "rinv ?x" "IsConnected ?x" "m_State ?x = m_State r" using h r False by (simp_all add: Ready_def IsConnected_def)
  have ok: "SUCCEEDED (fst (CBaseFilter_Run t (Ready r)))"
    using pause_effect(4) [OF x(2)] x by (auto simp: CBaseFilter_Run_def Let_def split_def)
  have r1: "hinv r1" "m_bStreaming r1 = False"
    using hinv_pause [OF x(1)] x pause_effect [OF x(2)] r False
    by (auto simp: r1_def CBaseFilter_Run_def Let_def split_def rinv_def)
  define r2 where "r2 = (let y = Commit (SetRepaintStatus False (SourceThreadCanWait True r1))
    in if m_State r = State_Stopped then ClearPendingSample (y\<lparr>m_bAbort := False\<rparr>) else y)"
  have eq: "CBaseRenderer_Run e t r = StartStreaming e r2"
    using False ok by (simp add: CBaseRenderer_Run_def Let_def split_def r2_def r1_def)
  have "hinv r2" "m_bStreaming r2 = False" "m_bEOSDelivered r2 = m_bEOSDelivered r1"
    using r1 by (simp_all add: r2_def Let_def hinv_clear) (simp_all add: update_eqs SetRepaintStatus_def SourceThreadCanWait_def)
  moreover have "m_bEOSDelivered r1 = False"
    using r False x by (auto simp: r1_def CBaseFilter_Run_def CBaseRenderer_Pause_def CBaseFilter_Pause_def CompleteStateChange_def
        Let_def split_def update_eqs small_defs rinv_def)
  ultimately have "hinv (snd (StartStreaming e r2))" by (intro hinv_start) simp_all
  then show ?thesis unfolding eq .
qed

lemma hinv_begin_flush: "hinv r \<Longrightarrow> hinv (BeginFlush_enter r)"
  by (simp add: BeginFlush_enter_def CBaseInputPin_BeginFlush_def set_pin_def Let_def hinv_clear hinv_pin)

lemma hinv_end_flush: "hinv r \<Longrightarrow> hinv (snd (CRendererInputPin_EndFlush r))"
  by (simp add: CRendererInputPin_EndFlush_def CBaseInputPin_EndFlush_def set_pin_def hinv_pin)

lemma hinv_end_of_stream: "hinv r \<Longrightarrow> hinv (snd (CRendererInputPin_EndOfStream e r))"
  by (simp add: CRendererInputPin_EndOfStream_def EndOfStream_def Let_def hinv_send_eos split_def)

lemma hinv_timer: "hinv r \<Longrightarrow> hinv (TimerCallback e r)"
  by (simp add: TimerCallback_def hinv_send_eos)

lemma hinv_repaint: "hinv r \<Longrightarrow> hinv (SendRepaint e r)"
  by (simp add: SendRepaint_def hinv_sent)

lemma hinv_display: "hinv r \<Longrightarrow> hinv (snd (OnDisplayChange e r))"
  by (simp add: OnDisplayChange_def hinv_clear hinv_sent)

lemma hinv_break: "hinv r \<Longrightarrow> hinv (snd (CRendererInputPin_BreakConnect e r))"
proof -
  assume h: "hinv r"
  have p: "hinv (set_pin (\<lambda>p. p\<lparr>m_pAllocator := False\<rparr>) x) = hinv x" for x by (simp add: set_pin_def hinv_pin)
  have "hinv (snd (CBaseRenderer_BreakConnect r))"
    using h by (simp add: CBaseRenderer_BreakConnect_def Let_def hinv_clear hinv_reset hinv_halt)
  then show ?thesis
    by (simp add: CRendererInputPin_BreakConnect_def CBaseInputPin_BreakConnect_def Let_def split_def p)
qed

lemma hinv_unconnect: "hinv r \<Longrightarrow> hinv (set_pin (\<lambda>p. p\<lparr>m_Connected := False\<rparr>) r)"
  by (simp add: hinv_def small_defs)

lemma hinv_disconnect: "hinv r \<Longrightarrow> hinv (snd (Disconnect e r))"
  by (simp add: Disconnect_def split_def Let_def hinv_break hinv_unconnect)

lemma hinv_connect:
  assumes h: "hinv r" and r: "rinv r"
  shows "hinv (snd (ReceiveConnection d e opp mt r))"
proof (cases "IsConnected r \<or> \<not> IsStopped r")
  case True
  then show ?thesis using h r by (auto simp: ReceiveConnection_def) (simp_all add: rinv_def)
next
  case False
  have nd: "\<not> m_bEOSDelivered r" using r False by (auto simp: rinv_def)
  define r0 where "r0 = happened Joined (set_pin (\<lambda>p. p\<lparr>m_Connected := True\<rparr>) r)"
  have r0: "hinv r0" "IsStopped r0" using h nd False by (auto simp: r0_def hinv_def small_defs)
  define r1 where "r1 = snd (CRendererInputPin_SetMediaType d e (Some mt) r0)"
  have r1: "hinv r1" "IsStopped r1"
    using r0 by (simp_all add: r1_def CRendererInputPin_SetMediaType_def set_pin_def hinv_pin IsStopped_def)
  define r2 where "r2 = snd (CBaseRenderer_CompleteConnect e r1)"
  have r2: "hinv r2" using r1 by (simp add: r2_def CBaseRenderer_CompleteConnect_def IsStopped_def Let_def)
  show ?thesis
    using False h r1 r2 hinv_break
    by (simp add: ReceiveConnection_def Let_def split_def r0_def [symmetric] r1_def [symmetric] r2_def [symmetric] hinv_unconnect)
qed

lemma Receive_render_inv:
  assumes "rinv r" "hinv r"
  shows "rinv (Receive_render e r)" "hinv (Receive_render e r)" "tinv_idle (Receive_render e r)"
proof -
  define r1 where "r1 = snd (Render (m_pMediaSample r) r)"
  have r1: "rinv r1" using assms(1) by (auto simp: r1_def Render_def happened_def split: option.splits)
  have h1: "hinv (ClearPendingSample r1)"
    using assms(2) by (auto simp: r1_def Render_def happened_def update_eqs hinv_def small_defs split: option.splits)
  define r2 where "r2 = snd (SendEndOfStream e (ClearPendingSample r1))"
  have r2: "rinv r2" "hinv r2" using r1 h1 by (simp_all add: r2_def rinv_send_eos rinv_clear hinv_send_eos)
  have s: "m_pMediaSample r2 = None"
    by (simp add: r2_def SendEndOfStream_def NotifyEndOfStream_def NotifyEvent_def happened_def Let_def update_eqs)
  have c: "rinv (snd (CancelNotification r2))" using r2(1) by (simp add: update_eqs) (auto simp: rinv_def small_defs)
  have eq: "Receive_render e r = (if m_State r = State_Stopped then r else snd (CancelNotification r2))"
    by (simp add: Receive_render_def Let_def r1_def [symmetric] r2_def [symmetric])
  show "rinv (Receive_render e r)" using eq c assms(1) by simp
  show "hinv (Receive_render e r)" using eq r2(2) assms(2) by simp
  show "tinv_idle (Receive_render e r)"
  proof (cases "m_State r = State_Stopped")
    case True
    then show ?thesis using assms(1) by (auto simp: eq tinv_idle_def rinv_def)
  next
    case False
    then show ?thesis using s by (simp add: eq tinv_idle_def update_eqs)
  qed
qed

lemma Receive_failed_inv:
  assumes "rinv r" "hinv r"
  shows "rinv (Receive_failed e hr r)" "hinv (Receive_failed e hr r)"
proof -
  define r1 where "r1 = snd (NotifyEvent e (EC_ERRORABORT hr) r)"
  have r1: "rinv r1" "hinv r1" using assms by (simp_all add: r1_def hinv_sent)
  define r2 where "r2 = (if m_bStreaming r1 \<and> \<not> m_bEOSDelivered r1 then snd (NotifyEndOfStream e r1) else r1)"
  have r2: "rinv r2" "hinv r2" using r1 by (simp_all add: r2_def rinv_notify_eos hinv_notify_eos)
  have p: "rinv (set_pin (\<lambda>p. p\<lparr>m_bRunTimeError := True\<rparr>) r2)" "hinv (set_pin (\<lambda>p. p\<lparr>m_bRunTimeError := True\<rparr>) r2)"
    using r2 by (simp_all add: set_pin_def hinv_pin rinv_pin same_pin_def)
  show "rinv (Receive_failed e hr r)" "hinv (Receive_failed e hr r)"
    using p assms by (simp_all add: Receive_failed_def Let_def r1_def [symmetric] r2_def [symmetric])
qed

section \<open>The threads\<close>

lemma send_eos_fields [simp]:
  "m_bInReceive (snd (SendEndOfStream e r)) = m_bInReceive r" "tinv_idle (snd (SendEndOfStream e r)) = tinv_idle r"
  "m_ThreadSignal (snd (SendEndOfStream e r)) = m_ThreadSignal r" "m_State (snd (SendEndOfStream e r)) = m_State r"
  by (simp_all add: SendEndOfStream_def NotifyEndOfStream_def NotifyEvent_def happened_def Let_def tinv_idle_def)

lemma notify_fields [simp]:
  "m_bInReceive (snd (NotifyEvent e ev r)) = m_bInReceive r" "tinv_idle (snd (NotifyEvent e ev r)) = tinv_idle r"
  "m_ThreadSignal (snd (NotifyEvent e ev r)) = m_ThreadSignal r" "m_State (snd (NotifyEvent e ev r)) = m_State r"
  "tinv_idle (snd (NotifyEndOfStream e r)) = tinv_idle r" "m_bInReceive (snd (NotifyEndOfStream e r)) = m_bInReceive r"
  by (simp_all add: NotifyEndOfStream_def NotifyEvent_def happened_def tinv_idle_def)

lemma set_pin_fields [simp]: "tinv_idle (set_pin f r) = tinv_idle r" "m_bInReceive (set_pin f r) = m_bInReceive r"
  by (simp_all add: set_pin_def tinv_idle_def)

text \<open>An operation that keeps the streaming thread's flag, and the idleness of the renderer, keeps the
  thread invariant while no other control call is under way.\<close>

definition keeps_idle :: "renderer \<Rightarrow> renderer \<Rightarrow> bool" where
  "keeps_idle r r' \<longleftrightarrow> m_bInReceive r' = m_bInReceive r \<and> (tinv_idle r \<longrightarrow> tinv_idle r')"

lemma tinv_keep: "tinv p C_Free r \<Longrightarrow> keeps_idle r r' \<Longrightarrow> tinv p C_Free r'"
  by (auto simp: tinv_def tinv_idle_def keeps_idle_def)

lemma tinv_keep':
  "tinv p c r \<Longrightarrow> keeps_idle r r' \<Longrightarrow> m_ThreadSignal r' = m_ThreadSignal r \<Longrightarrow> m_State r' = m_State r \<Longrightarrow> tinv p c r'"
  by (auto simp: tinv_def tinv_idle_def keeps_idle_def IsStopped_def)

lemma keeps_idle_refl [simp]: "keeps_idle r r" by (simp add: keeps_idle_def)

lemma keeps_idle_trans: "keeps_idle r r1 \<Longrightarrow> keeps_idle r1 r2 \<Longrightarrow> keeps_idle r r2"
  by (simp add: keeps_idle_def)

lemmas idle_defs = keeps_idle_def tinv_idle_def

lemma keeps_pause: "keeps_idle r (snd (CBaseRenderer_Pause r))"
  by (simp add: CBaseRenderer_Pause_def CBaseFilter_Pause_def CompleteStateChange_def Let_def update_eqs small_defs idle_defs)

lemma schedule_in_receive [simp]: "m_bInReceive (snd (ScheduleSample e (Some s) r)) = m_bInReceive r"
  by (simp add: schedule_eq Let_def)

lemma keeps_start: "keeps_idle r (snd (StartStreaming e r))"
proof (cases "m_bStreaming r \<or> m_pMediaSample r = None")
  case True
  then show ?thesis by (auto simp: StartStreaming_def Let_def keeps_idle_def happened_def) (simp_all add: tinv_idle_def)
next
  case False
  then show ?thesis
    by (auto simp: StartStreaming_def Let_def happened_def idle_defs split_def split: if_splits)
qed

lemma keeps_run: "keeps_idle r (snd (CBaseRenderer_Run e t r))"
proof -
  define r1 where "r1 = snd (CBaseFilter_Run t (Ready r))"
  have r1: "keeps_idle r r1"
    using keeps_pause [of "Ready r\<lparr>m_tStart := t\<rparr>"]
    by (auto simp: r1_def CBaseFilter_Run_def Let_def split_def idle_defs Ready_def)
  define r2 where "r2 = (let y = Commit (SetRepaintStatus False (SourceThreadCanWait True r1))
    in if m_State r = State_Stopped then ClearPendingSample (y\<lparr>m_bAbort := False\<rparr>) else y)"
  have "keeps_idle r1 r2" by (simp add: r2_def Let_def update_eqs small_defs idle_defs)
  then have r2: "keeps_idle r (snd (StartStreaming e r2))" using keeps_idle_trans [OF r1] keeps_idle_trans keeps_start by blast
  have "snd (CBaseRenderer_Run e t r) \<in> {r, (snd (NotifyEvent e EC_COMPLETE r))\<lparr>m_State := State_Running\<rparr>, r1, snd (StartStreaming e r2)}"
    by (simp add: CBaseRenderer_Run_def Let_def split_def r2_def r1_def)
  moreover have "keeps_idle r ((snd (NotifyEvent e EC_COMPLETE r))\<lparr>m_State := State_Running\<rparr>)"
    by (simp add: NotifyEvent_def happened_def idle_defs)
  ultimately show ?thesis using r1 r2 by auto
qed

lemma keeps_others:
  "keeps_idle r (snd (CRendererInputPin_EndFlush r))" "keeps_idle r (snd (CRendererInputPin_EndOfStream e r))"
  "keeps_idle r (NotifyAllocator r)" "keeps_idle r (SetSyncSource b r)" "keeps_idle r (TimerCallback e r)"
  "keeps_idle r (SendRepaint e r)" "keeps_idle r (snd (OnDisplayChange e r))"
      apply (simp add: CRendererInputPin_EndFlush_def CBaseInputPin_EndFlush_def SourceThreadCanWait_def set_pin_def idle_defs)
     apply (simp add: CRendererInputPin_EndOfStream_def EndOfStream_def Let_def Ready_def split_def keeps_idle_def)
     apply (simp add: tinv_idle_def)
    apply (simp add: NotifyAllocator_def set_pin_def idle_defs)
   apply (simp add: SetSyncSource_def idle_defs)
  apply (simp add: TimerCallback_def keeps_idle_def)
  apply (simp add: tinv_idle_def)
  apply (simp add: SendRepaint_def SetRepaintStatus_def NotifyEvent_def happened_def idle_defs)
  apply (simp add: OnDisplayChange_def update_eqs NotifyEvent_def happened_def idle_defs)
  done

lemma keeps_break: "keeps_idle r (snd (CRendererInputPin_BreakConnect e r))"
  by (simp add: CRendererInputPin_BreakConnect_def CBaseRenderer_BreakConnect_def CBaseInputPin_BreakConnect_def
      Let_def update_eqs SetRepaintStatus_def split_def set_pin_def idle_defs)

lemma keeps_set_pin [simp]: "keeps_idle r (set_pin f r)"
  by (simp add: set_pin_def idle_defs)

lemma keeps_disconnect: "keeps_idle r (snd (Disconnect e r))"
  using keeps_break [of r e] keeps_idle_trans [OF keeps_break keeps_set_pin]
  by (simp add: Disconnect_def split_def Let_def)

lemma keeps_complete: "keeps_idle r (snd (CBaseRenderer_CompleteConnect e r))"
proof -
  have "keeps_idle r (snd (StartStreaming e (r\<lparr>m_bAbort := False\<rparr>)))"
    using keeps_start [of "r\<lparr>m_bAbort := False\<rparr>" e] by (simp add: idle_defs)
  then show ?thesis by (simp add: CBaseRenderer_CompleteConnect_def Let_def split_def SetRepaintStatus_def idle_defs)
qed

lemma keeps_connect: "keeps_idle r (snd (ReceiveConnection d e opp mt r))"
proof -
  define r0 where "r0 = happened Joined (set_pin (\<lambda>p. p\<lparr>m_Connected := True\<rparr>) r)"
  define r1 where "r1 = snd (CRendererInputPin_SetMediaType d e (Some mt) r0)"
  define r2 where "r2 = snd (CBaseRenderer_CompleteConnect e r1)"
  have r1: "keeps_idle r r1"
    by (simp add: r1_def r0_def CRendererInputPin_SetMediaType_def set_pin_def happened_def idle_defs)
  have r2: "keeps_idle r r2" unfolding r2_def by (rule keeps_idle_trans [OF r1 keeps_complete])
  have "snd (ReceiveConnection d e opp mt r) \<in> {r, snd (CRendererInputPin_BreakConnect e r), r1, r2,
      snd (CRendererInputPin_BreakConnect e (set_pin (\<lambda>p. p\<lparr>m_Connected := False\<rparr>) r1)),
      snd (CRendererInputPin_BreakConnect e (set_pin (\<lambda>p. p\<lparr>m_Connected := False\<rparr>) r2))}"
    by (simp add: ReceiveConnection_def Let_def split_def r0_def [symmetric] r1_def [symmetric] r2_def [symmetric])
  moreover have "keeps_idle r (snd (CRendererInputPin_BreakConnect e (set_pin (\<lambda>p. p\<lparr>m_Connected := False\<rparr>) r1)))"
    by (rule keeps_idle_trans [OF keeps_idle_trans [OF r1 keeps_set_pin] keeps_break])
  moreover have "keeps_idle r (snd (CRendererInputPin_BreakConnect e (set_pin (\<lambda>p. p\<lparr>m_Connected := False\<rparr>) r2)))"
    by (rule keeps_idle_trans [OF keeps_idle_trans [OF r2 keeps_set_pin] keeps_break])
  ultimately show ?thesis using r1 r2 keeps_break by auto
qed

lemma Stop_enter_fields:
  "Stop_enter r = (w, r') \<Longrightarrow> m_bInReceive r' = m_bInReceive r \<and> (w \<longrightarrow> m_ThreadSignal r' \<and> IsStopped r') \<and> (tinv_idle r \<longrightarrow> tinv_idle r')"
  by (auto simp: Stop_enter_def CBaseFilter_Stop_def CRendererInputPin_Inactive_def Inactive_def Let_def update_eqs small_defs tinv_idle_def
      split: if_splits)

lemma BeginFlush_fields:
  "m_bInReceive (BeginFlush_enter r) = m_bInReceive r" "m_ThreadSignal (BeginFlush_enter r)" "tinv_idle (BeginFlush_enter r)"
  by (simp_all add: BeginFlush_enter_def CBaseInputPin_BeginFlush_def Let_def update_eqs small_defs tinv_idle_def)

definition inv :: "sys \<Rightarrow> bool" where
  "inv s \<longleftrightarrow> rinv (rend s) \<and> hinv (rend s) \<and> tinv (recv s) (ctrl s) (rend s)"

lemma turn_inv:
  assumes "rinv r" "hinv r" "tinv p c r" and "Receive_turn e c p r = Some (p', r')"
  shows "rinv r' \<and> hinv r' \<and> tinv p' c r'"
proof (cases p)
  case R_Prepared
  then show ?thesis using assms by (auto simp: Receive_turn_def split: if_splits) (auto simp: tinv_def IsStopped_def)
next
  case R_Paused
  then show ?thesis using assms
    by (auto simp: Receive_turn_def split: if_splits) (auto simp: tinv_def IsStopped_def rinv_def)
next
  case R_First
  then show ?thesis using assms by (auto simp: Receive_turn_def Ready_def) (auto simp: tinv_def IsStopped_def)
next
  case R_Waiting
  then show ?thesis using assms
    by (auto simp: Receive_turn_def WaitForRenderTime_def SignalTimerFired_def split: if_splits) (auto simp: tinv_def IsStopped_def rinv_def small_defs)
next
  case R_Due
  then have c: "c = C_Free" "p' = R_Idle" "r' = Receive_render e r" using assms(4) by (auto simp: Receive_turn_def split: if_splits)
  have "m_bInReceive r' = m_bInReceive r"
    unfolding c by (simp add: Receive_render_def Render_def Let_def update_eqs happened_def split: option.splits)
  then show ?thesis using c R_Due assms Receive_render_inv [OF assms(1,2), of e] by (auto simp: tinv_def tinv_idle_def)
next
  case (R_Failed hr)
  then have c: "c = C_Free" "p' = R_Idle" "r' = Receive_failed e hr r" using assms(4) by (auto simp: Receive_turn_def split: if_splits)
  have "keeps_idle r r'" unfolding c by (simp add: Receive_failed_def Let_def keeps_idle_def)
  then show ?thesis using c R_Failed assms Receive_failed_inv [OF assms(1,2), of e hr]
    by (auto simp: tinv_def idle_defs)
qed (use assms in \<open>auto simp: Receive_turn_def\<close>)

lemma control_inv:
  assumes "inv s" "ctrl s = C_Free" "rinv r" "hinv r" "keeps_idle (rend s) r"
  shows "inv (s\<lparr>rend := r\<rparr>)"
  using assms tinv_keep [of "recv s" "rend s" r] by (simp add: inv_def)

lemma background_inv:
  assumes "inv s" "rinv r" "hinv r" "keeps_idle (rend s) r" "m_ThreadSignal r = m_ThreadSignal (rend s)" "m_State r = m_State (rend s)"
  shows "inv (s\<lparr>rend := r\<rparr>)"
  using assms tinv_keep' [of "recv s" "ctrl s" "rend s" r] by (simp add: inv_def)

lemma background_fields:
  "m_ThreadSignal (TimerCallback e r) = m_ThreadSignal r" "m_State (TimerCallback e r) = m_State r"
  "m_ThreadSignal (SendRepaint e r) = m_ThreadSignal r" "m_State (SendRepaint e r) = m_State r"
  "m_ThreadSignal (snd (OnDisplayChange e r)) = m_ThreadSignal r" "m_State (snd (OnDisplayChange e r)) = m_State r"
  by (simp_all add: TimerCallback_def SendRepaint_def SetRepaintStatus_def OnDisplayChange_def update_eqs)

lemma step_inv:
  assumes "step d s s'" and i: "inv s"
  shows "inv s'"
proof -
  have r: "rinv (rend s)" and h: "hinv (rend s)" and t: "tinv (recv s) (ctrl s) (rend s)" using i by (simp_all add: inv_def)
  from assms(1) show ?thesis
  proof cases
    case (stop w r')
    have "rinv r'" "hinv r'" using rinv_stop [OF r] hinv_stop [OF h] stop(3) by simp_all
    then show ?thesis using stop t Stop_enter_fields [OF stop(3)] by (auto simp: inv_def tinv_def tinv_idle_def)
  next
    case stopped
    then show ?thesis using r h t by (auto simp: inv_def Stop_leave_def tinv_def WaitForReceiveToComplete_def)
  next
    case pause
    then show ?thesis using control_inv [OF i] rinv_pause [OF r] hinv_pause [OF h] keeps_pause by simp
  next
    case (run e t')
    then show ?thesis using control_inv [OF i] rinv_run [OF r] hinv_run [OF h r] keeps_run by simp
  next
    case (set_clock b)
    have "rinv (SetSyncSource b (rend s))" using r set_clock(3) by (auto simp: SetSyncSource_def rinv_def small_defs)
    moreover have "hinv (SetSyncSource b (rend s))" using h by (simp add: SetSyncSource_def)
    ultimately show ?thesis using control_inv [OF i set_clock(2)] set_clock(1) keeps_others(4) by simp
  next
    case begin_flush
    then show ?thesis using rinv_begin_flush [OF r] hinv_begin_flush [OF h] BeginFlush_fields [of "rend s"] t
      by (auto simp: inv_def tinv_def tinv_idle_def)
  next
    case flushed
    then show ?thesis using rinv_reset [OF r] hinv_reset [OF h] t
      by (simp add: inv_def BeginFlush_leave_def) (auto simp: tinv_def update_eqs)
  next
    case end_flush
    then show ?thesis using control_inv [OF i] rinv_end_flush [OF r] hinv_end_flush [OF h] keeps_others(1) by simp
  next
    case (end_of_stream e)
    then show ?thesis using control_inv [OF i] rinv_end_of_stream [OF r] hinv_end_of_stream [OF h] keeps_others(2) by simp
  next
    case (connect e opp mt)
    then show ?thesis using control_inv [OF i] rinv_connect [OF r] hinv_connect [OF h r] keeps_connect by simp
  next
    case allocator
    have "rinv (NotifyAllocator (rend s))" "hinv (NotifyAllocator (rend s))"
      using r h by (simp_all add: NotifyAllocator_def set_pin_def rinv_pin hinv_pin same_pin_def)
    then show ?thesis using control_inv [OF i] allocator keeps_others(3) by simp
  next
    case (disconnect e)
    then show ?thesis using control_inv [OF i] rinv_disconnect [OF r] hinv_disconnect [OF h] keeps_disconnect by simp
  next
    case (timer e)
    then show ?thesis using background_inv [OF i rinv_timer [OF r] hinv_timer [OF h] keeps_others(5)] by (simp add: background_fields)
  next
    case (repaint e)
    then show ?thesis using background_inv [OF i rinv_repaint [OF r] hinv_repaint [OF h] keeps_others(6)] by (simp add: background_fields)
  next
    case (display e)
    then show ?thesis using background_inv [OF i rinv_display [OF r] hinv_display [OF h] keeps_others(7)] by (simp add: background_fields)
  next
    case clock
    have "rinv ((rend s)\<lparr>clock_pending := False, m_RenderEvent := True\<rparr>)" using r clock(2) by (auto simp: rinv_def small_defs)
    moreover have "tinv (recv s) (ctrl s) ((rend s)\<lparr>clock_pending := False, m_RenderEvent := True\<rparr>)"
      using t r clock(2) by (auto simp: tinv_def rinv_def IsStopped_def)
    ultimately show ?thesis using h clock(1) by (simp add: inv_def)
  next
    case (receive e x p r')
    then show ?thesis using Receive_enter_inv [OF r h _ receive(5,4,6)] t by (auto simp: inv_def tinv_def tinv_idle_def)
  next
    case (turn e p r')
    then show ?thesis using turn_inv [OF r h t turn(2)] by (simp add: inv_def)
  qed
qed

lemma renderer_inv: "rend_reachable d s \<Longrightarrow> inv s"
proof (induction rule: rend_reachable.induct)
  case (init sink)
  show ?case
    by (simp add: inv_def rinv_def hinv_def tinv_def CBaseRenderer_def CRendererInputPin_def IsConnected_def IsStopped_def held_def fun_eq_iff)
next
  case (step s s')
  then show ?case using step_inv by blast
qed

section \<open>The properties\<close>

text \<open>A history for the concrete instances: the pin is connected, an allocator agreed, a clock set, the
  filter paused, a sample received and the streaming thread on its way to the wait, the filter run; and
  the same with \<open>Stop\<close> called while the thread waits.\<close>

definition env0 :: env where
  "env0 = \<lparr>clock_time = 0, advise_answer = (S_OK, 5), timer_answer = 3, notify_answer = S_OK,
     store_type_answer = S_OK, decommit_answer = S_OK\<rparr>"

definition sample0 :: IMediaSample where
  "sample0 = \<lparr>sid = 42, sample2 = None, IsDiscontinuity = S_FALSE, IsPreroll = S_FALSE, IsSyncPoint = S_OK,
     GetTime = (S_OK, 1000000, 2000000), GetMediaType = (S_FALSE, None), GetPointer = 4096,
     GetActualDataLength = 1764, GetSize = 1764\<rparr>"

definition rend0 :: renderer where
  "rend0 = snd (CBaseRenderer_Pause (SetSyncSource True (NotifyAllocator
     (snd (ReceiveConnection MyRenderer env0 True 7 (CBaseRenderer True))))))"

definition rend1 :: renderer where
  "rend1 = snd (Receive_enter MyRenderer env0 sample0 rend0)"

definition rend2 :: renderer where
  "rend2 = Ready (rend1\<lparr>m_bInReceive := True\<rparr>)"

definition rend3 :: renderer where
  "rend3 = snd (CBaseRenderer_Run env0 500 rend2)"

lemmas sample_defs = rend0_def rend1_def rend2_def rend3_def env0_def sample0_def CBaseRenderer_def CRendererInputPin_def zero_props_def
  MyRenderer_def

lemmas op_defs = ReceiveConnection_def CRendererInputPin_SetMediaType_def CBaseRenderer_CompleteConnect_def NotifyAllocator_def
  SetSyncSource_def CBaseRenderer_Pause_def CBaseFilter_Pause_def CompleteStateChange_def Receive_enter_def PrepareReceive_def
  CBaseInputPin_Receive_def change_type_def accept_sample_def CheckStreaming_def props_the_hard_way_def update_eqs small_defs

lemma rend0_eval: "m_State rend0 = State_Paused" "IsConnected rend0" "m_pMediaSample rend0 = None" "\<not> m_bStreaming rend0"
  "m_pClock rend0" "CheckStreaming rend0 = S_OK" "\<not> m_bEOS rend0" "\<not> m_bAbort rend0"
  by (simp_all add: sample_defs op_defs Let_def)

lemma env0_ok: "env_ok env0"
  by (simp add: env_ok_def env0_def)

lemma reach0: "rend_reachable MyRenderer \<lparr>rend = rend0, recv = R_Idle, ctrl = C_Free\<rparr>"
proof -
  let ?s = "\<lambda>r. \<lparr>rend = r, recv = R_Idle, ctrl = C_Free\<rparr>" and ?r0 = "CBaseRenderer True"
  let ?r1 = "snd (ReceiveConnection MyRenderer env0 True 7 ?r0)"
  have "rend_reachable MyRenderer (?s ?r0)" by (rule rend_reachable.init)
  then have "rend_reachable MyRenderer (?s ?r1)"
    using rend_reachable.step [OF _ step.connect [of "?s ?r0" env0 MyRenderer True 7]] env0_ok by simp
  then have "rend_reachable MyRenderer (?s (NotifyAllocator ?r1))"
    using rend_reachable.step [OF _ step.allocator [of "?s ?r1"]] by simp
  moreover have "IsStopped (NotifyAllocator ?r1)" by (simp add: sample_defs op_defs Let_def)
  ultimately have "rend_reachable MyRenderer (?s (SetSyncSource True (NotifyAllocator ?r1)))"
    using rend_reachable.step [OF _ step.set_clock [of "?s (NotifyAllocator ?r1)" MyRenderer True]] by simp
  then show ?thesis
    using rend_reachable.step [OF _ step.pause [of "?s (SetSyncSource True (NotifyAllocator ?r1))"]] by (simp add: rend0_def)
qed

lemma rend1_eval: "Receive_enter MyRenderer env0 sample0 rend0 = (R_Prepared, rend1)" "m_State rend1 = State_Paused"
  "m_pMediaSample rend1 = Some sample0" "history rend1 = Accepted 42 # history rend0" "m_bInReceive rend1" "IsConnected rend1"
  "\<not> m_bStreaming rend1" "m_pClock rend1"
  by (simp_all add: sample_defs op_defs Let_def)

lemma reach2: "rend_reachable MyRenderer \<lparr>rend = rend2, recv = R_Waiting, ctrl = C_Free\<rparr>"
proof -
  let ?s = "\<lambda>p r. \<lparr>rend = r, recv = p, ctrl = C_Free\<rparr>"
  let ?f = "rend1\<lparr>m_bInReceive := False\<rparr>"
  have turn: "rend_reachable MyRenderer (?s p r) \<Longrightarrow> Receive_turn env0 C_Free p r = Some (p', r') \<Longrightarrow> rend_reachable MyRenderer (?s p' r')"
    for p r p' r' using rend_reachable.step [OF _ step.turn [of env0 "?s p r" p' r']] by simp
  have "rend_reachable MyRenderer (?s R_Prepared rend1)"
    using rend_reachable.step [OF reach0 step.receive [of _ env0 MyRenderer sample0 R_Prepared rend1]] rend1_eval rend0_eval env0_ok by simp
  then have "rend_reachable MyRenderer (?s R_Paused ?f)" by (rule turn) (simp add: Receive_turn_def rend1_eval)
  then have "rend_reachable MyRenderer (?s R_First (rend1\<lparr>m_bInReceive := True\<rparr>))" by (rule turn) (simp add: Receive_turn_def rend1_eval)
  then show ?thesis by (rule turn) (simp add: Receive_turn_def rend2_def)
qed

lemma reach3: "rend_reachable MyRenderer \<lparr>rend = rend3, recv = R_Waiting, ctrl = C_Free\<rparr>"
  using rend_reachable.step [OF reach2 step.run [of _ env0 MyRenderer 500]] env0_ok by (simp add: rend3_def)

lemma rend2_eval: "m_State rend2 = State_Paused" "m_Connected (m_pInputPin rend2)" "\<not> m_bStreaming rend2" "m_pMediaSample rend2 = Some sample0"
  "m_pClock rend2" "\<not> m_bEOS rend2" "m_bInReceive rend2"
  by (simp_all add: sample_defs op_defs Let_def)

lemma sample0_times: "GetSampleTimes sample0 r = (if m_pClock r then (S_FALSE, 1000000) else (S_OK, 1000000))"
  by (simp add: GetSampleTimes_def sample0_def)

lemma rend3_eval: "m_State rend3 = State_Running" "IsConnected rend3" "m_bStreaming rend3" "m_pMediaSample rend3 = Some sample0" "m_dwAdvise rend3 = 5"
  "m_bInReceive rend3" "\<not> m_bEOS rend3"
  by (simp_all add: rend3_def CBaseRenderer_Run_def CBaseFilter_Run_def StartStreaming_def schedule_eq sample0_times Let_def
      update_eqs small_defs rend2_eval env0_def)



text \<open>C26. The filter graph is told of the end of the stream at most once between a start of streaming,
  a stop, a reset of the end of stream (flush) or a new connection: while the pin is connected, the
  number of EC\_COMPLETE events since the last of these is one if the delivery flag is up and there is
  an event sink, and zero otherwise; and the flag is up only while streaming.\<close>

theorem renderer_complete_once:
  assumes "rend_reachable d s" and "IsConnected (rend s)"
  shows "completes (history (rend s)) = (if m_bEOSDelivered (rend s) \<and> m_pSink (rend s) then 1 else 0) \<and>
    (m_bEOSDelivered (rend s) \<longrightarrow> m_bStreaming (rend s))"
  using renderer_inv [OF assms(1)] assms(2) by (simp add: inv_def hinv_def rinv_def)

theorem renderer_complete_once_witness: "completes (history rend3) \<le> 1 \<and> IsConnected rend3"
  using renderer_complete_once [OF reach3] rend3_eval by simp

text \<open>Every sample drawn is the one accepted last, it is drawn at most once, and a sample that the
  renderer holds has not been drawn yet.\<close>

theorem renderer_draws_once:
  assumes "rend_reachable d s"
  shows "drawn_ok (history (rend s)) \<and>
    (\<forall>x. m_pMediaSample (rend s) = Some x \<longrightarrow> last_accepted (history (rend s)) = Some (sid x))"
  using renderer_inv [OF assms] by (simp add: inv_def hinv_def)

theorem renderer_draws_once_witness: "drawn_ok (history rend3) \<and> last_accepted (history rend3) = Some 42"
  using renderer_draws_once [OF reach3] rend3_eval by (simp add: sample0_def)

text \<open>How far the streaming thread still is from leaving \<open>Receive\<close> or giving up its announcement.\<close>

fun stage :: "receiver \<Rightarrow> nat" where
  "stage R_Prepared = 2" | "stage R_First = 2" | "stage R_Waiting = 1" | "stage _ = 0"

lemma turn_stage:
  "Receive_turn e c p r = Some (p', r') \<Longrightarrow> c \<noteq> C_Free \<Longrightarrow> p' = p \<or> stage p' < stage p"
  by (cases p) (auto simp: Receive_turn_def WaitForRenderTime_def split: if_splits)

text \<open>C25. Neither \<open>Stop\<close> nor \<open>BeginFlush\<close> can hang in \<open>WaitForReceiveToComplete\<close> while it holds the
  locks: as long as the streaming thread announces itself it can take a turn without any lock or
  event, every turn brings it strictly nearer to the end, no other step takes it back, and once it
  is gone the call can finish.\<close>

theorem renderer_wait_ends:
  assumes "rend_reachable d s" and "ctrl s \<noteq> C_Free"
  shows "(m_bInReceive (rend s) \<longleftrightarrow> 0 < stage (recv s)) \<and>
    (0 < stage (recv s) \<longrightarrow> (\<forall>e. Receive_turn e (ctrl s) (recv s) (rend s) \<noteq> None)) \<and>
    (stage (recv s) = 0 \<longrightarrow> (\<exists>s'. step d s s' \<and> ctrl s' = C_Free)) \<and>
    (\<forall>s'. step d s s' \<longrightarrow> ctrl s' = C_Free \<or> ctrl s' = ctrl s \<and> (recv s' = recv s \<or> stage (recv s') < stage (recv s)))"
proof -
  have t: "tinv (recv s) (ctrl s) (rend s)" using renderer_inv [OF assms(1)] by (simp add: inv_def)
  have sig: "m_ThreadSignal (rend s)" using t assms(2) by (simp add: tinv_def)
  have in_recv: "m_bInReceive (rend s) \<longleftrightarrow> 0 < stage (recv s)" using t by (cases "recv s") (auto simp: tinv_def)
  moreover have "Receive_turn e (ctrl s) (recv s) (rend s) \<noteq> None" if "0 < stage (recv s)" for e
    using that sig by (cases "recv s") (auto simp: Receive_turn_def WaitForRenderTime_def)
  moreover have "\<exists>s'. step d s s' \<and> ctrl s' = C_Free" if "stage (recv s) = 0"
  proof (cases "ctrl s")
    case C_Stopping
    then show ?thesis using step.stopped [of s d] in_recv that
      by (intro exI [of _ "s\<lparr>rend := Stop_leave (rend s), ctrl := C_Free\<rparr>"]) (simp add: WaitForReceiveToComplete_def)
  next
    case C_Flushing
    then show ?thesis using step.flushed [of s d] in_recv that
      by (intro exI [of _ "s\<lparr>rend := BeginFlush_leave (rend s), ctrl := C_Free\<rparr>"]) (simp add: WaitForReceiveToComplete_def)
  qed (use assms in simp)
  moreover have "ctrl s' = C_Free \<or> ctrl s' = ctrl s \<and> (recv s' = recv s \<or> stage (recv s') < stage (recv s))" if "step d s s'" for s'
    using that
  proof cases
    case (turn e p r)
    then show ?thesis using turn_stage [OF turn(2) assms(2)] by auto
  qed (use assms in auto)
  ultimately show ?thesis by blast
qed

theorem renderer_wait_ends_witness:
  "\<exists>s. rend_reachable MyRenderer s \<and> ctrl s = C_Stopping \<and> recv s = R_Waiting \<and>
     (\<forall>e. Receive_turn e C_Stopping R_Waiting (rend s) \<noteq> None)"
proof -
  obtain w r where r: "Stop_enter rend3 = (w, r)" by (cases "Stop_enter rend3")
  have "w" using r rend3_eval by (auto simp: Stop_enter_def Let_def split: if_splits)
  then have "rend_reachable MyRenderer \<lparr>rend = r, recv = R_Waiting, ctrl = C_Stopping\<rparr>"
    using rend_reachable.step [OF reach3 step.stop [of _ w r]] r by simp
  from renderer_wait_ends [OF this] this show ?thesis by (intro exI conjI) (assumption, simp_all)
qed

lemma stop_effect:
  assumes "m_State r \<noteq> State_Stopped" "IsConnected r"
  shows "fst (Stop_enter r)" "m_State (snd (Stop_enter r)) = State_Stopped" "\<not> m_bStreaming (snd (Stop_enter r))"
    "m_pMediaSample (snd (Stop_enter r)) = None" "m_dwAdvise (snd (Stop_enter r)) = 0" "\<not> m_RenderEvent (snd (Stop_enter r))"
    "m_EndOfStreamTimer (snd (Stop_enter r)) = 0" "\<not> m_bEOS (snd (Stop_enter r))" "m_evComplete (snd (Stop_enter r))"
    "m_pAllocator (m_pInputPin r) \<longrightarrow> \<not> committed (snd (Stop_enter r))"
  using assms by (simp_all add: Stop_enter_def CBaseFilter_Stop_def CRendererInputPin_Inactive_def Inactive_def Let_def update_eqs small_defs)

lemma pause_running_effect:
  assumes "m_State r = State_Running" "IsConnected r"
  shows "m_State (snd (CBaseRenderer_Pause r)) = State_Paused" "\<not> m_bStreaming (snd (CBaseRenderer_Pause r))"
    "m_dwAdvise (snd (CBaseRenderer_Pause r)) = 0" "\<not> m_RenderEvent (snd (CBaseRenderer_Pause r))"
    "m_EndOfStreamTimer (snd (CBaseRenderer_Pause r)) = 0" "m_pMediaSample (snd (CBaseRenderer_Pause r)) = m_pMediaSample r"
    "m_evComplete (snd (CBaseRenderer_Pause r)) \<longleftrightarrow> m_bEOS r \<or> m_pMediaSample r \<noteq> None"
    "fst (CBaseRenderer_Pause r) = (if m_bEOS r \<or> m_pMediaSample r \<noteq> None then S_OK else S_FALSE)"
    "\<not> m_ThreadSignal (snd (CBaseRenderer_Pause r))" "history (snd (CBaseRenderer_Pause r)) = Halted # history r"
  using assms by (simp_all add: CBaseRenderer_Pause_def CBaseFilter_Pause_def CompleteStateChange_def Let_def update_eqs small_defs)

text \<open>Stopping a connected, active renderer leaves it stopped and complete, with no sample, no advise
  link, no signalled render event, no end of stream timer or flag, and its allocator decommitted.
  Pausing a running one cancels the schedule but keeps the sample, and completes at once exactly when
  there is a sample or the stream has ended; otherwise it returns S\_FALSE and \<open>GetState\<close> reports the
  transition as intermediate.\<close>

theorem renderer_stop_pause:
  assumes "IsConnected r"
  shows "(m_State r \<noteq> State_Stopped \<longrightarrow> (let r' = snd (Stop_enter r) in
       GetState r' = (S_OK, State_Stopped) \<and> \<not> m_bStreaming r' \<and> m_pMediaSample r' = None \<and> m_dwAdvise r' = 0 \<and>
       \<not> m_RenderEvent r' \<and> m_EndOfStreamTimer r' = 0 \<and> \<not> m_bEOS r' \<and> (m_pAllocator (m_pInputPin r) \<longrightarrow> \<not> committed r'))) \<and>
    (m_State r = State_Running \<longrightarrow> (let (hr, r') = CBaseRenderer_Pause r; ok = (m_bEOS r \<or> m_pMediaSample r \<noteq> None) in
       \<not> m_bStreaming r' \<and> m_dwAdvise r' = 0 \<and> \<not> m_RenderEvent r' \<and> m_EndOfStreamTimer r' = 0 \<and>
       m_pMediaSample r' = m_pMediaSample r \<and> hr = (if ok then S_OK else S_FALSE) \<and>
       GetState r' = (if ok then S_OK else VFW_S_STATE_INTERMEDIATE, State_Paused)))"
  using stop_effect [OF _ assms] pause_running_effect [OF _ assms]
  by (auto simp: Let_def split_def GetState_def)

theorem renderer_stop_pause_witness:
  "GetState (snd (Stop_enter rend3)) = (S_OK, State_Stopped) \<and> GetState (snd (CBaseRenderer_Pause rend3)) = (S_OK, State_Paused) \<and>
   m_pMediaSample (snd (CBaseRenderer_Pause rend3)) = Some sample0"
  using renderer_stop_pause [of rend3] rend3_eval by (simp add: Let_def split_def)

text \<open>Running a stopped, connected renderer directly leaves the transition reported as intermediate:
  \<open>CBaseFilter::Run\<close> calls the virtual \<open>Pause\<close>, which resets the completion event that \<open>Run\<close> had set before,
  and nothing sets it again; while the filter runs, rendering a sample does not set it either.\<close>

theorem renderer_run_from_stopped_intermediate:
  assumes "rinv r" and "m_State r = State_Stopped" and "IsConnected r" and "\<not> m_bEOS r"
  shows "GetState (snd (CBaseRenderer_Run e t r)) = (VFW_S_STATE_INTERMEDIATE, State_Running) \<and>
    GetState (Receive_render e' (snd (CBaseRenderer_Run e t r))) = (VFW_S_STATE_INTERMEDIATE, State_Running)"
proof -
  let ?x = "Ready r\<lparr>m_tStart := t\<rparr>"
  have x: "rinv ?x" "m_State ?x = State_Stopped" "IsConnected ?x" "\<not> m_bEOS ?x" using assms by (simp_all add: Ready_def IsConnected_def)
  note p = pause_effect [OF x(1-3)]
  define y where "y = (Commit (SetRepaintStatus False (SourceThreadCanWait True ((snd (CBaseRenderer_Pause ?x))\<lparr>m_State := State_Running\<rparr>))))\<lparr>m_bAbort := False\<rparr>"
  have "CBaseRenderer_Run e t r = StartStreaming e (ClearPendingSample y)"
    using assms p by (simp add: CBaseRenderer_Run_def CBaseFilter_Run_def Let_def split_def y_def x)
  moreover have "m_State (ClearPendingSample y) = State_Running" "\<not> m_evComplete (ClearPendingSample y)" "\<not> m_bEOS (ClearPendingSample y)"
    "m_pMediaSample (ClearPendingSample y) = None"
    using p x(4) by (simp_all add: y_def update_eqs SetRepaintStatus_def SourceThreadCanWait_def Ready_def)
  ultimately have r: "m_State (snd (CBaseRenderer_Run e t r)) = State_Running" "\<not> m_evComplete (snd (CBaseRenderer_Run e t r))"
    by (simp_all add: StartStreaming_def SendEndOfStream_def happened_def Let_def)
  have k: "m_evComplete (Receive_render e' z) = m_evComplete z" "m_State (Receive_render e' z) = m_State z" for z
    by (simp_all add: Receive_render_def Render_def SendEndOfStream_def NotifyEndOfStream_def NotifyEvent_def happened_def Let_def update_eqs
        split: option.splits)
  show ?thesis using r by (simp add: GetState_def k)
qed

theorem renderer_run_from_stopped_intermediate_witness:
  "GetState (snd (CBaseRenderer_Run env0 0 (snd (ReceiveConnection MyRenderer env0 True 7 (CBaseRenderer True))))) =
     (VFW_S_STATE_INTERMEDIATE, State_Running)"
proof -
  let ?r = "snd (ReceiveConnection MyRenderer env0 True 7 (CBaseRenderer True))"
  have i: "rinv (CBaseRenderer True)"
    by (simp add: rinv_def CBaseRenderer_def CRendererInputPin_def IsConnected_def held_def fun_eq_iff)
  have "rinv ?r" by (rule rinv_connect [OF i env0_ok])
  moreover have "m_State ?r = State_Stopped" "IsConnected ?r" "\<not> m_bEOS ?r" by (simp_all add: sample_defs op_defs Let_def)
  ultimately show ?thesis using renderer_run_from_stopped_intermediate by blast
qed

text \<open>A pause that comes between the moment the render event wakes the streaming thread and the
  moment that thread takes the lock loses the sample: the pause completes because the sample is
  there, then the thread, no longer streaming, does not draw it and releases it.\<close>

theorem renderer_pause_drops_due_sample:
  assumes "m_State r = State_Running" and "IsConnected r" and "m_pMediaSample r = Some x" and "\<not> m_bEOS r"
  shows "fst (CBaseRenderer_Pause r) = S_OK \<and>
    (let r' = Receive_render e (snd (CBaseRenderer_Pause r)) in
     m_pMediaSample r' = None \<and> history r' = Halted # history r \<and> GetState r' = (S_OK, State_Paused))"
proof -
  note p = pause_running_effect [OF assms(1,2)]
  have b: "\<not> m_bEOS (snd (CBaseRenderer_Pause r))"
    using assms by (simp add: CBaseRenderer_Pause_def CBaseFilter_Pause_def CompleteStateChange_def Let_def update_eqs small_defs)
  show ?thesis using assms p b
    by (simp add: Receive_render_def Render_def SendEndOfStream_def Let_def update_eqs GetState_def)
qed

theorem renderer_pause_drops_due_sample_witness:
  "fst (CBaseRenderer_Pause rend3) = S_OK \<and> m_pMediaSample (Receive_render env0 (snd (CBaseRenderer_Pause rend3))) = None"
  using renderer_pause_drops_due_sample [OF rend3_eval(1,2,4,7), of env0] by (simp add: Let_def)

lemma eos_delay_small:
  "\<bar>tdiv (sint (m_tStart r + m_SignalTime r - clock_time e)) 10000\<bar> < 2 ^ 31 \<Longrightarrow>
   sint (eos_delay e r) = tdiv (sint (m_tStart r + m_SignalTime r - clock_time e)) 10000"
  by (simp add: eos_delay_def int_word_sint)

text \<open>At the end of the stream, with a clock: when the end of the last sample lies less than 50
  milliseconds ahead (or behind) the event is sent at once, when it lies at least that far ahead a
  timer is started and nothing is sent; this as long as the delay in milliseconds fits 31 bits. A delay
  of \<open>2 ^ 31\<close> milliseconds wraps to a negative number and the event is sent about 25 days early.\<close>

theorem renderer_eos_timing:
  assumes "m_bStreaming r" "m_bEOS r" "\<not> m_bEOSDelivered r" "m_EndOfStreamTimer r = 0" "m_pClock r" "m_pSink r"
    and "D = tdiv (sint (m_tStart r + m_SignalTime r - clock_time e)) 10000" and "r' = snd (SendEndOfStream e r)"
  shows "(\<bar>D\<bar> < 2 ^ 31 \<and> D < 50 \<longrightarrow> m_bEOSDelivered r' \<and> history r' = Sent EC_COMPLETE # history r) \<and>
    (\<bar>D\<bar> < 2 ^ 31 \<and> 50 \<le> D \<and> timer_answer e \<noteq> 0 \<longrightarrow>
       \<not> m_bEOSDelivered r' \<and> history r' = history r \<and> m_EndOfStreamTimer r' = timer_answer e) \<and>
    (D = 2 ^ 31 \<longrightarrow> m_bEOSDelivered r' \<and> history r' = Sent EC_COMPLETE # history r)"
proof -
  have small: "sint (eos_delay e r) = D" if "\<bar>D\<bar> < 2 ^ 31" using eos_delay_small [of r e] that assms(7) by simp
  have big: "sint (eos_delay e r) = - (2 ^ 31)" if "D = 2 ^ 31"
    using that assms(7) by (simp add: eos_delay_def)
  show ?thesis unfolding assms(8) using assms(1-6) small big
    by (auto simp: SendEndOfStream_def NotifyEndOfStream_def NotifyEvent_def happened_def TIMEOUT_DELIVERYWAIT_def Let_def)
qed

definition eos_rend :: renderer where
  "eos_rend = (CBaseRenderer True)\<lparr>m_State := State_Running, m_bStreaming := True, m_bEOS := True, m_pClock := True, m_SignalTime := 600000\<rparr>"

theorem renderer_eos_timing_witness:
  "m_EndOfStreamTimer (snd (SendEndOfStream env0 eos_rend)) = 3 \<and>
   m_bEOSDelivered (snd (SendEndOfStream (env0\<lparr>clock_time := 200000\<rparr>) eos_rend)) \<and>
   m_bEOSDelivered (snd (SendEndOfStream env0 (eos_rend\<lparr>m_SignalTime := 21474836480000\<rparr>)))"
proof -
  have d: "tdiv 600000 10000 = 60" "tdiv 400000 10000 = 40" "tdiv 21474836480000 10000 = 2 ^ 31" by (simp_all add: tdiv_def)
  note c = eos_rend_def CBaseRenderer_def env0_def
  show ?thesis
    using renderer_eos_timing [of eos_rend 60 env0, OF _ _ _ _ _ _ _ refl]
      renderer_eos_timing [of eos_rend 40 "env0\<lparr>clock_time := 200000\<rparr>", OF _ _ _ _ _ _ _ refl]
      renderer_eos_timing [of "eos_rend\<lparr>m_SignalTime := 21474836480000\<rparr>" "2 ^ 31" env0, OF _ _ _ _ _ _ _ refl] d
    by (simp add: c)
qed

end
