(* ===== verification/Agenda_Spec.thy ===== *)
theory Agenda_Spec
  imports AR_Prelude "HOL-Library.Multiset"
begin

text \<open>
  The contract of the agenda of a reference clock: advises ordered by time, to which one can be
  added, from which one can be cancelled by its cookie, and which sends the signals that have fallen
  due. The functions on lists of advises are the specification; the locale states what a provider
  promises in terms of them and derives what a client of the agenda relies on. The schedule of the
  base classes provides it.
\<close>

section \<open>Advises\<close>

text \<open>What a client is told: an event set or a semaphore released.\<close>

datatype signal = SetEvent nat | ReleaseSemaphore nat

record advise =
  cookie :: u64
  due :: int
  period :: int
  notify :: nat
  periodic :: bool

definition new_advise :: "u64 \<Rightarrow> REFERENCE_TIME \<Rightarrow> REFERENCE_TIME \<Rightarrow> nat \<Rightarrow> bool \<Rightarrow> advise" where
  "new_advise c t p h b = \<lparr>cookie = c, due = sint t, period = sint p, notify = h, periodic = b\<rparr>"

text \<open>A new advise comes before those of its time, a shunted one after them.\<close>

definition insert_new :: "advise \<Rightarrow> advise list \<Rightarrow> advise list" where
  "insert_new a as = takeWhile (\<lambda>b. due b < due a) as @ a # dropWhile (\<lambda>b. due b < due a) as"

definition insert_again :: "advise \<Rightarrow> advise list \<Rightarrow> advise list" where
  "insert_again a as = takeWhile (\<lambda>b. due b \<le> due a) as @ a # dropWhile (\<lambda>b. due b \<le> due a) as"

definition max_time :: int where
  "max_time = 2 ^ 63 - 1"

text \<open>The contents: ordered by time, with cookies that are in use once.\<close>

definition agenda :: "u64 \<Rightarrow> advise list \<Rightarrow> bool" where
  "agenda next as \<longleftrightarrow> sorted (map due as) \<and> (\<forall>a \<in> set as. due a < max_time) \<and> distinct (map cookie as) \<and>
     (\<forall>a \<in> set as. 0 < cookie a \<and> cookie a \<le> next)"

section \<open>Insertion into an ordered agenda\<close>

lemma sorted_insert_new: "sorted (map due as) \<Longrightarrow> sorted (map due (insert_new a as))"
  unfolding insert_new_def by (induction as) (auto dest: set_takeWhileD set_dropWhileD)

lemma sorted_insert_again: "sorted (map due as) \<Longrightarrow> sorted (map due (insert_again a as))"
  unfolding insert_again_def by (induction as) (auto dest: set_takeWhileD set_dropWhileD)

lemma mset_insert_new [simp]: "mset (insert_new a as) = add_mset a (mset as)"
  unfolding insert_new_def by (induction as) auto

lemma mset_insert_again [simp]: "mset (insert_again a as) = add_mset a (mset as)"
  unfolding insert_again_def by (induction as) auto

lemma set_insert_new [simp]: "set (insert_new a as) = insert a (set as)"
  by (metis mset_insert_new set_mset_add_mset_insert set_mset_mset)

lemma set_insert_again [simp]: "set (insert_again a as) = insert a (set as)"
  by (metis mset_insert_again set_mset_add_mset_insert set_mset_mset)

lemma filter_insert_new:
  assumes "\<forall>b \<in> set as. P b" and "\<not> P a"
  shows "filter P (insert_new a as) = as"
proof -
  have "filter P (takeWhile (\<lambda>b. due b < due a) as) = takeWhile (\<lambda>b. due b < due a) as"
    "filter P (dropWhile (\<lambda>b. due b < due a) as) = dropWhile (\<lambda>b. due b < due a) as"
    using assms(1) by (auto simp: filter_id_conv dest: set_takeWhileD set_dropWhileD)
  then show ?thesis using assms(2) by (simp add: insert_new_def)
qed

lemma distinct_by_mset:
  "mset as = mset bs \<Longrightarrow> distinct (map f as) = distinct (map f bs)"
  by (metis mset_eq_imp_distinct_iff mset_map)

lemma length_by_mset: "mset as = add_mset b (mset bs) \<Longrightarrow> length as = Suc (length bs)"
  by (metis mset.simps(2) size_mset length_Cons)

lemma length_insert_new [simp]: "length (insert_new a as) = Suc (length as)"
  by (rule length_by_mset) simp

lemma length_insert_again [simp]: "length (insert_again a as) = Suc (length as)"
  by (rule length_by_mset) simp

lemma agenda_insert_new:
  assumes "agenda n as" and "due a < max_time" and "cookie a = n + 1" and "n \<noteq> - 1"
  shows "agenda (n + 1) (insert_new a as)"
proof -
  have "1 + n \<noteq> 0" using assms(4) by (metis add.commute eq_neg_iff_add_eq_0)
  then have n: "n < n + 1" using unatSuc [of n] by (simp add: word_less_nat_alt add.commute)
  then have le: "\<forall>b \<in> set as. cookie b < cookie a" using assms by (auto simp: agenda_def)
  have "distinct (map cookie (a # as))" using assms(1) le by (auto simp: agenda_def)
  then have "distinct (map cookie (insert_new a as))" by (subst distinct_by_mset [of _ "a # as"]) simp_all
  moreover have "0 < n + 1" using n by (metis word_gt_0 word_not_simps(1))
  ultimately show ?thesis using assms n le sorted_insert_new by (auto simp: agenda_def intro: less_imp_le)
qed

lemma agenda_filter: "agenda n as \<Longrightarrow> agenda n (filter P as)"
  by (auto simp: agenda_def sorted_filter distinct_map_filter)

lemma agenda_tl: "agenda n (a # as) \<Longrightarrow> agenda n as"
  by (simp add: agenda_def)

lemma agenda_again:
  assumes "agenda n (a # as)" and "due b < max_time" and "cookie b = cookie a"
  shows "agenda n (insert_again b as)"
proof -
  have "distinct (map cookie (b # as))" using assms by (simp add: agenda_def)
  then have "distinct (map cookie (insert_again b as))" by (subst distinct_by_mset [of _ "b # as"]) simp_all
  then show ?thesis using assms by (auto simp: agenda_def intro: sorted_insert_again)
qed

lemma insert_new_first: "takeWhile (\<lambda>b. due b < due a) as = [] \<longleftrightarrow> as = [] \<or> due a \<le> due (hd as)"
  by (cases as) auto

lemma filter_one:
  assumes "distinct (map f (us @ q # vs))"
  shows "filter (\<lambda>x. f x \<noteq> f q) (us @ q # vs) = us @ vs"
proof -
  have "filter (\<lambda>x. f x \<noteq> f q) us = us" "filter (\<lambda>x. f x \<noteq> f q) vs = vs"
    using assms by (auto simp: filter_id_conv intro: rev_image_eqI)
  then show ?thesis by simp
qed

section \<open>Falling due\<close>

definition signal_of :: "advise \<Rightarrow> signal" where
  "signal_of a = (if periodic a then ReleaseSemaphore (notify a) else SetEvent (notify a))"

text \<open>How often an advise falls due up to time \<open>t\<close>, when, and what is left of it.\<close>

definition times_due :: "int \<Rightarrow> advise \<Rightarrow> nat" where
  "times_due t a = (if t < due a then 0 else if periodic a then Suc (nat ((t - due a) div period a)) else 1)"

definition firings :: "int \<Rightarrow> advise \<Rightarrow> (int \<times> signal) list" where
  "firings t a = map (\<lambda>i. (due a + int i * period a, signal_of a)) [0..<times_due t a]"

definition remaining :: "int \<Rightarrow> advise list \<Rightarrow> advise list" where
  "remaining t as = map (\<lambda>a. a\<lparr>due := due a + int (times_due t a) * period a\<rparr>)
     (filter (\<lambda>a. periodic a \<or> t < due a) as)"

text \<open>Periods for which the next time after \<open>t\<close> is still a time.\<close>

definition periods_ok :: "int \<Rightarrow> advise list \<Rightarrow> bool" where
  "periods_ok t as \<longleftrightarrow> (\<forall>a \<in> set as. periodic a \<longrightarrow> 0 < period a \<and> t + period a < max_time)"

definition again :: "advise \<Rightarrow> advise" where
  "again a = a\<lparr>due := due a + period a\<rparr>"

lemma again_simps [simp]:
  "cookie (again a) = cookie a" "due (again a) = due a + period a" "period (again a) = period a"
  "notify (again a) = notify a" "periodic (again a) = periodic a" "signal_of (again a) = signal_of a"
  by (simp_all add: again_def signal_of_def)

lemma times_due_again:
  assumes "periodic a" "0 < period a" "due a \<le> t"
  shows "times_due t a = Suc (times_due t (again a))"
proof (cases "t < due a + period a")
  case True
  then have "(t - due a) div period a = 0" using assms by (intro div_pos_pos_trivial) auto
  then show ?thesis using assms True by (simp add: times_due_def)
next
  case False
  have "(t - due a) div period a = (t - due a - period a) div period a + 1"
    using assms div_add_self2 [of "period a" "t - due a - period a"] by simp
  moreover have "0 \<le> (t - due a - period a) div period a" using False assms by (simp add: pos_imp_zdiv_nonneg_iff)
  ultimately show ?thesis using assms False by (simp add: times_due_def diff_diff_eq nat_add_distrib)
qed

lemma firings_again:
  assumes "periodic a" "0 < period a" "due a \<le> t"
  shows "firings t a = (due a, signal_of a) # firings t (again a)"
  unfolding firings_def times_due_again [OF assms] map_upt_Suc by (simp add: algebra_simps)

lemma firings_once: "\<not> periodic a \<Longrightarrow> due a \<le> t \<Longrightarrow> firings t a = [(due a, signal_of a)]"
  by (simp add: firings_def times_due_def)

lemma remaining_again:
  assumes "periodic a" "0 < period a" "due a \<le> t"
  shows "mset (remaining t (a # as)) = mset (remaining t (again a # as))"
  using assms by (simp add: remaining_def times_due_again [OF assms]) (simp add: again_def algebra_simps)

lemma remaining_mset: "mset as = mset bs \<Longrightarrow> mset (remaining t as) = mset (remaining t bs)"
  by (simp add: remaining_def)

lemma concat_mset: "mset as = mset bs \<Longrightarrow> mset (concat (map f as)) = mset (concat (map f bs))"
proof -
  have *: "mset (concat (map f as)) = (\<Sum>a \<in># mset as. mset (f a))" for as by (induction as) auto
  show "mset as = mset bs \<Longrightarrow> mset (concat (map f as)) = mset (concat (map f bs))" by (simp add: *)
qed

lemma none_due:
  assumes "\<forall>a \<in> set as. t < due a"
  shows "concat (map (firings t) as) = []" "remaining t as = as"
  using assms by (induction as) (auto simp: firings_def times_due_def remaining_def)

lemma firings_after: "(d, x) \<in> set (firings t a) \<Longrightarrow> periodic a \<longrightarrow> 0 < period a \<Longrightarrow> due a \<le> d"
  by (auto simp: firings_def times_due_def split: if_splits)

text \<open>What an advise leaves behind when it is signalled.\<close>

definition advises_after :: "advise \<Rightarrow> advise list \<Rightarrow> advise list" where
  "advises_after a as = (if periodic a then insert_again (again a) as else as)"

lemma after_firings:
  assumes "agenda n (a # as)" and "due a \<le> t" and "periods_ok t (a # as)"
  shows "mset (concat (map (firings t) (a # as))) = add_mset (due a, signal_of a) (mset (concat (map (firings t) (advises_after a as))))"
    and "mset (remaining t (a # as)) = mset (remaining t (advises_after a as))"
    and "periods_ok t (advises_after a as)"
    and "\<forall>b \<in> set (advises_after a as). due a \<le> due b"
proof -
  have p: "periodic a \<Longrightarrow> 0 < period a" using assms(3) by (simp add: periods_ok_def)
  show "mset (concat (map (firings t) (a # as))) = add_mset (due a, signal_of a) (mset (concat (map (firings t) (advises_after a as))))"
  proof (cases "periodic a")
    case True
    have "mset (concat (map (firings t) (insert_again (again a) as))) = mset (concat (map (firings t) (again a # as)))"
      by (rule concat_mset) simp
    then show ?thesis using firings_again [OF True p [OF True] assms(2)] True by (simp add: advises_after_def)
  qed (use firings_once assms(2) in \<open>simp add: advises_after_def\<close>)
  show "mset (remaining t (a # as)) = mset (remaining t (advises_after a as))"
  proof (cases "periodic a")
    case True
    have "mset (remaining t (insert_again (again a) as)) = mset (remaining t (again a # as))"
      by (rule remaining_mset) simp
    then show ?thesis using remaining_again [OF True p [OF True] assms(2)] True by (simp add: advises_after_def)
  qed (use assms(2) in \<open>simp add: advises_after_def remaining_def\<close>)
  show "periods_ok t (advises_after a as)" using assms(3) by (auto simp: periods_ok_def advises_after_def)
  show "\<forall>b \<in> set (advises_after a as). due a \<le> due b"
    using assms(1) p by (auto simp: agenda_def advises_after_def)
qed

lemma concat_firings_after:
  assumes "\<forall>b \<in> set as. d \<le> due b" and "periods_ok t as" and "mset fs = mset (concat (map (firings t) as))" and "x \<in> set fs"
  shows "d \<le> fst x"
proof -
  have "x \<in> set (concat (map (firings t) as))" using assms(3,4) by (metis set_mset_mset)
  then obtain b where "b \<in> set as" "x \<in> set (firings t b)" by auto
  then show ?thesis using assms(1,2) firings_after [of "fst x" "snd x" t b] by (fastforce simp: periods_ok_def)
qed

section \<open>The interface\<close>

locale agenda_service =
  fixes rep :: "'s \<Rightarrow> advise list \<Rightarrow> bool"
    and next_cookie :: "'s \<Rightarrow> u64"
    and has_room :: "'s \<Rightarrow> bool"
    and sent :: "'s \<Rightarrow> signal list"
    and add :: "REFERENCE_TIME \<Rightarrow> REFERENCE_TIME \<Rightarrow> nat \<Rightarrow> bool \<Rightarrow> 's \<Rightarrow> (u64 \<times> 's) option"
    and cancel :: "u64 \<Rightarrow> 's \<Rightarrow> (HRESULT \<times> 's) option"
    and dispatch :: "REFERENCE_TIME \<Rightarrow> 's \<Rightarrow> (REFERENCE_TIME \<times> 's) option"
  assumes rep_agenda: "rep s as \<Longrightarrow> agenda (next_cookie s) as"
    and add_ok: "rep s as \<Longrightarrow> has_room s \<Longrightarrow> sint t < max_time \<Longrightarrow> next_cookie s \<noteq> - 1 \<Longrightarrow>
      \<exists>s'. add t p h b s = Some (next_cookie s + 1, s') \<and> rep s' (insert_new (new_advise (next_cookie s + 1) t p h b) as) \<and>
        sent s' = sent s"
    and cancel_ok: "rep s as \<Longrightarrow>
      \<exists>s'. cancel c s = Some (if c \<in> cookie ` set as then S_OK else S_FALSE, s') \<and>
        rep s' (filter (\<lambda>a. cookie a \<noteq> c) as) \<and> sent s' = sent s"
    and dispatch_ok: "rep s as \<Longrightarrow> periods_ok (sint t) as \<Longrightarrow>
      \<exists>nx s' as' fs. dispatch t s = Some (nx, s') \<and> rep s' as' \<and> mset as' = mset (remaining (sint t) as) \<and>
        sint nx = (if as' = [] then max_time else due (hd as')) \<and>
        sent s' = sent s @ map snd fs \<and> mset fs = mset (concat (map (firings (sint t)) as))"
begin

text \<open>Cancelling what was just added restores the agenda.\<close>

lemma add_cancel:
  assumes "rep s as" "has_room s" "sint t < max_time" "next_cookie s \<noteq> - 1"
  shows "\<exists>c s' s''. add t p h b s = Some (c, s') \<and> c \<noteq> 0 \<and> cancel c s' = Some (S_OK, s'') \<and> rep s'' as \<and> sent s'' = sent s"
proof -
  let ?a = "new_advise (next_cookie s + 1) t p h b"
  obtain s' where s': "add t p h b s = Some (next_cookie s + 1, s')" "rep s' (insert_new ?a as)" "sent s' = sent s"
    using add_ok [OF assms] by blast
  have "agenda (next_cookie s + 1) (insert_new ?a as)"
    using agenda_insert_new [OF rep_agenda [OF assms(1)] _ _ assms(4)] assms(3) by (simp add: new_advise_def)
  then have d: "distinct (map cookie (insert_new ?a as))" and nz: "next_cookie s + 1 \<noteq> 0"
    by (auto simp: agenda_def new_advise_def)
  have "filter (\<lambda>a. cookie a \<noteq> next_cookie s + 1) (insert_new ?a as) = as"
    using filter_one [OF d [unfolded insert_new_def]] by (simp add: insert_new_def new_advise_def)
  moreover have "next_cookie s + 1 \<in> cookie ` set (insert_new ?a as)" by (simp add: new_advise_def)
  ultimately obtain s'' where "cancel (next_cookie s + 1) s' = Some (S_OK, s'')" "rep s'' as" "sent s'' = sent s'"
    using cancel_ok [OF s'(2), of "next_cookie s + 1"] by auto
  then show ?thesis using s' nz by auto
qed

text \<open>A one shot advise stays until it is due, is then signalled once, and cannot be cancelled any more.\<close>

lemma one_shot:
  assumes "rep s as" "periods_ok (sint t) as" "a \<in> set as" "\<not> periodic a"
  shows "\<exists>nx s' as' ss. dispatch t s = Some (nx, s') \<and> rep s' as' \<and> sent s' = sent s @ ss \<and>
    (if due a \<le> sint t then signal_of a \<in> set ss \<and> cookie a \<notin> cookie ` set as' \<and>
       (\<exists>s''. cancel (cookie a) s' = Some (S_FALSE, s'') \<and> rep s'' as')
     else a \<in> set as' \<and> sint nx \<le> due a)"
proof -
  obtain nx s' as' fs where d: "dispatch t s = Some (nx, s')" "rep s' as'" "mset as' = mset (remaining (sint t) as)"
    "sint nx = (if as' = [] then max_time else due (hd as'))"
    "sent s' = sent s @ map snd fs" "mset fs = mset (concat (map (firings (sint t)) as))"
    using dispatch_ok [OF assms(1,2)] by blast
  have set': "set as' = set (remaining (sint t) as)" using d(3) by (metis set_mset_mset)
  show ?thesis
  proof (cases "due a \<le> sint t")
    case True
    have "(due a, signal_of a) \<in> set (concat (map (firings (sint t)) as))"
      using firings_once [OF assms(4) True] assms(3) by (auto intro!: bexI [of _ a])
    then have "(due a, signal_of a) \<in> set fs" using d(6) by (metis set_mset_mset)
    then have "signal_of a \<in> set (map snd fs)" by force
    moreover have gone: "cookie a \<notin> cookie ` set as'"
    proof
      assume "cookie a \<in> cookie ` set as'"
      then obtain b where b: "b \<in> set as" "periodic b \<or> sint t < due b" "cookie b = cookie a"
        by (auto simp: set' remaining_def)
      then have "b = a" using rep_agenda [OF assms(1)] assms(3) by (auto simp: agenda_def distinct_map dest: inj_onD)
      with b True assms(4) show False by simp
    qed
    moreover have "filter (\<lambda>b. cookie b \<noteq> cookie a) as' = as'" using gone by (auto simp: filter_id_conv intro: rev_image_eqI)
    then have "\<exists>s''. cancel (cookie a) s' = Some (S_FALSE, s'') \<and> rep s'' as'"
      using cancel_ok [OF d(2), of "cookie a"] gone by auto
    ultimately show ?thesis using d True by (intro exI [of _ nx] exI [of _ s'] exI [of _ as'] exI [of _ "map snd fs"]) simp
  next
    case False
    then have "a \<in> set as'" using assms(3,4) by (force simp: set' remaining_def times_due_def)
    moreover from this have "sint nx \<le> due a"
      using d(4) rep_agenda [OF d(2)] by (cases as') (auto simp: agenda_def)
    ultimately show ?thesis using d False by (intro exI [of _ nx] exI [of _ s'] exI [of _ as'] exI [of _ "map snd fs"]) simp
  qed
qed

end

end
