(* ===== verification/Schedule.thy ===== *)
theory Schedule
  imports Agenda_Spec "HOL-Library.Monad_Syntax"
begin

text \<open>
  Model of \<open>CAMSchedule\<close> (\<open>src/baseclasses/schedule.h\<close>, \<open>schedule.cpp\<close>), the agenda of a reference
  clock: a singly linked list of advise packets between the member nodes \<open>head\<close> and \<open>z\<close>, ordered by
  time, with a cache of at most five unused packets.

  Packets live in an explicit memory \<open>packets\<close>; \<open>free_packets\<close> is what \<open>new\<close> can hand out, with the
  garbage it holds. An operation returns \<open>None\<close> when it dereferences NULL or a packet that does not
  exist, or when a loop does not end. Every public method holds the lock \<open>m_Serialize\<close> while it runs and is one
  step. Cookies have the width of the 64 bit build.
\<close>

section \<open>Packets\<close>

datatype packet_ref = Head | Z | Pkt nat

text \<open>A pointer to a packet; \<open>None\<close> is NULL.\<close>

type_synonym packet_ptr = "packet_ref option"

record CAdvisePacket =
  m_next :: packet_ptr
  m_dwAdviseCookie :: u64
  m_rtEventTime :: REFERENCE_TIME
  m_rtPeriod :: REFERENCE_TIME
  m_hNotify :: nat
  m_bPeriodic :: bool

record CAMSchedule =
  packets :: "packet_ref \<Rightarrow> CAdvisePacket option"
  free_packets :: "(packet_ref \<times> CAdvisePacket) list"
  m_dwNextCookie :: u64
  m_dwAdviseCount :: u32
  m_pAdviseCache :: packet_ptr
  m_dwCacheCount :: u32
  m_ev :: bool
  signals :: "signal list"

definition MAX_TIME :: REFERENCE_TIME where
  "MAX_TIME = 0x7FFFFFFFFFFFFFFF"

definition dwCacheMax :: u32 where
  "dwCacheMax = 5"

definition packet_at :: "CAMSchedule \<Rightarrow> packet_ptr \<Rightarrow> CAdvisePacket option" where
  "packet_at s p = Option.bind p (packets s)"

definition write_packet :: "packet_ptr \<Rightarrow> (CAdvisePacket \<Rightarrow> CAdvisePacket) \<Rightarrow> CAMSchedule \<Rightarrow> CAMSchedule option" where
  "write_packet p f s = do { a \<leftarrow> p; k \<leftarrow> packets s a; Some (s\<lparr>packets := (packets s)(a \<mapsto> f k)\<rparr>) }"

definition new_packet :: "CAMSchedule \<Rightarrow> packet_ptr \<times> CAMSchedule" where
  "new_packet s = (case free_packets s of [] \<Rightarrow> (None, s)
     | (a, k) # rest \<Rightarrow> (Some a, s\<lparr>packets := (packets s)(a \<mapsto> k), free_packets := rest\<rparr>))"

definition delete_packet :: "packet_ptr \<Rightarrow> CAMSchedule \<Rightarrow> CAMSchedule option" where
  "delete_packet p s = do { a \<leftarrow> p; k \<leftarrow> packets s a;
     Some (s\<lparr>packets := (packets s)(a := None), free_packets := (a, k) # free_packets s\<rparr>) }"

definition set_next :: "packet_ptr \<Rightarrow> packet_ptr \<Rightarrow> CAMSchedule \<Rightarrow> CAMSchedule option" where
  "set_next p q = write_packet p (\<lambda>k. k\<lparr>m_next := q\<rparr>)"

definition next_of :: "CAMSchedule \<Rightarrow> packet_ptr \<Rightarrow> packet_ptr option" where
  "next_of s p = map_option m_next (packet_at s p)"

definition InsertAfter :: "packet_ptr \<Rightarrow> packet_ptr \<Rightarrow> CAMSchedule \<Rightarrow> CAMSchedule option" where
  "InsertAfter this p s = do { n \<leftarrow> next_of s this; s \<leftarrow> set_next p n s; set_next this p s }"

definition IsZ :: "CAMSchedule \<Rightarrow> packet_ptr \<Rightarrow> bool option" where
  "IsZ s this = map_option (\<lambda>n. n = None) (next_of s this)"

definition RemoveNext :: "packet_ptr \<Rightarrow> CAMSchedule \<Rightarrow> (packet_ptr \<times> CAMSchedule) option" where
  "RemoveNext this s = do { nx \<leftarrow> next_of s this; new_next \<leftarrow> next_of s nx; s \<leftarrow> set_next this new_next s; Some (nx, s) }"

definition DeleteNext :: "packet_ptr \<Rightarrow> CAMSchedule \<Rightarrow> CAMSchedule option" where
  "DeleteNext this s = do { (p, s) \<leftarrow> RemoveNext this s; delete_packet p s }"

definition packet_Next :: "CAMSchedule \<Rightarrow> packet_ptr \<Rightarrow> packet_ptr option" where
  "packet_Next s this = do { result \<leftarrow> next_of s this; z \<leftarrow> IsZ s result; Some (if z then None else result) }"

section \<open>Construction and destruction\<close>

definition new_CAMSchedule :: "(packet_ref \<times> CAdvisePacket) list \<Rightarrow> CAdvisePacket \<Rightarrow> CAMSchedule" where
  "new_CAMSchedule memory garbage = \<lparr>
     packets = [Head \<mapsto> garbage\<lparr>m_next := Some Z, m_rtEventTime := 0, m_dwAdviseCookie := 0\<rparr>,
                Z \<mapsto> garbage\<lparr>m_next := None, m_rtEventTime := MAX_TIME, m_dwAdviseCookie := 0\<rparr>],
     free_packets = memory, m_dwNextCookie = 0, m_dwAdviseCount = 0,
     m_pAdviseCache = None, m_dwCacheCount = 0, m_ev = False, signals = []\<rparr>"

partial_function (option) delete_cache_loop :: "packet_ptr \<Rightarrow> CAMSchedule \<Rightarrow> CAMSchedule option" where
  "delete_cache_loop p s =
     (if p = None then Some s
      else do { p_next \<leftarrow> next_of s p; s \<leftarrow> delete_packet p s; delete_cache_loop p_next s })"

partial_function (option) delete_advises_loop :: "CAMSchedule \<Rightarrow> CAMSchedule option" where
  "delete_advises_loop s = do {
     n \<leftarrow> next_of s (Some Head); z \<leftarrow> IsZ s n;
     if z then Some s
     else do { s \<leftarrow> DeleteNext (Some Head) s; delete_advises_loop (s\<lparr>m_dwAdviseCount := m_dwAdviseCount s - 1\<rparr>) } }"

definition CAMSchedule_destructor :: "CAMSchedule \<Rightarrow> CAMSchedule option" where
  "CAMSchedule_destructor s = do {
     s \<leftarrow> delete_cache_loop (m_pAdviseCache s) s;
     if 0 < m_dwAdviseCount s then delete_advises_loop s else Some s }"

section \<open>Operations\<close>

definition GetAdviseCount :: "CAMSchedule \<Rightarrow> u32" where
  "GetAdviseCount s = m_dwAdviseCount s"

definition GetNextAdviseTime :: "CAMSchedule \<Rightarrow> REFERENCE_TIME option" where
  "GetNextAdviseTime s = do { n \<leftarrow> next_of s (Some Head); k \<leftarrow> packet_at s n; Some (m_rtEventTime k) }"

text \<open>The private \<open>AddAdvisePacket\<close>; its loop yields \<open>p_prev\<close>.\<close>

partial_function (option) add_loop :: "CAMSchedule \<Rightarrow> REFERENCE_TIME \<Rightarrow> packet_ptr \<Rightarrow> packet_ptr option" where
  "add_loop s t p_prev = do {
     p_n \<leftarrow> next_of s p_prev; n \<leftarrow> packet_at s p_n;
     if sint (m_rtEventTime n) \<ge> sint t then Some p_prev else add_loop s t p_n }"

definition add_packet :: "packet_ptr \<Rightarrow> CAMSchedule \<Rightarrow> (u64 \<times> CAMSchedule) option" where
  "add_packet pPacket s = do {
     s \<leftarrow> Some (s\<lparr>m_dwNextCookie := m_dwNextCookie s + 1\<rparr>);
     s \<leftarrow> write_packet pPacket (\<lambda>k. k\<lparr>m_dwAdviseCookie := m_dwNextCookie s\<rparr>) s;
     k \<leftarrow> packet_at s pPacket;
     p_prev \<leftarrow> add_loop s (m_rtEventTime k) (Some Head);
     s \<leftarrow> InsertAfter p_prev pPacket s;
     s \<leftarrow> Some (s\<lparr>m_dwAdviseCount := m_dwAdviseCount s + 1\<rparr>);
     Some (m_dwAdviseCookie k, if p_prev = Some Head then s\<lparr>m_ev := True\<rparr> else s) }"

text \<open>A packet from the cache, or else a new one.\<close>

definition get_packet :: "CAMSchedule \<Rightarrow> (packet_ptr \<times> CAMSchedule) option" where
  "get_packet s =
     (if m_pAdviseCache s \<noteq> None
      then do { n \<leftarrow> next_of s (m_pAdviseCache s);
                Some (m_pAdviseCache s, s\<lparr>m_pAdviseCache := n, m_dwCacheCount := m_dwCacheCount s - 1\<rparr>) }
      else Some (new_packet s))"

definition AddAdvisePacket :: "REFERENCE_TIME \<Rightarrow> REFERENCE_TIME \<Rightarrow> nat \<Rightarrow> bool \<Rightarrow> CAMSchedule \<Rightarrow> (u64 \<times> CAMSchedule) option" where
  "AddAdvisePacket time1 time2 h bPeriodic s = do {
     (p, s) \<leftarrow> get_packet s;
     if p \<noteq> None
     then do { s \<leftarrow> write_packet p (\<lambda>k. k\<lparr>m_rtEventTime := time1, m_rtPeriod := time2,
                 m_hNotify := h, m_bPeriodic := bPeriodic\<rparr>) s;
               add_packet p s }
     else Some (0, s) }"

definition Delete :: "packet_ptr \<Rightarrow> CAMSchedule \<Rightarrow> CAMSchedule option" where
  "Delete pPacket s =
     (if m_dwCacheCount s \<ge> dwCacheMax then delete_packet pPacket s
      else do { s \<leftarrow> set_next pPacket (m_pAdviseCache s) s;
                Some (s\<lparr>m_pAdviseCache := pPacket, m_dwCacheCount := m_dwCacheCount s + 1\<rparr>) })"

partial_function (option) unadvise_loop :: "u64 \<Rightarrow> packet_ptr \<Rightarrow> CAMSchedule \<Rightarrow> (HRESULT \<times> CAMSchedule) option" where
  "unadvise_loop dwAdviseCookie p_prev s = do {
     p_n \<leftarrow> packet_Next s p_prev;
     if p_n = None then Some (S_FALSE, s)
     else do { k \<leftarrow> packet_at s p_n;
       if m_dwAdviseCookie k = dwAdviseCookie
       then do { (p, s) \<leftarrow> RemoveNext p_prev s; s \<leftarrow> Delete p s;
                 Some (S_OK, s\<lparr>m_dwAdviseCount := m_dwAdviseCount s - 1\<rparr>) }
       else unadvise_loop dwAdviseCookie p_n s } }"

definition Unadvise :: "u64 \<Rightarrow> CAMSchedule \<Rightarrow> (HRESULT \<times> CAMSchedule) option" where
  "Unadvise dwAdviseCookie s = unadvise_loop dwAdviseCookie (Some Head) s"

text \<open>The loop of \<open>ShuntHead\<close> yields \<open>p_prev\<close> and \<open>p_n\<close>.\<close>

partial_function (option) shunt_loop :: "CAMSchedule \<Rightarrow> REFERENCE_TIME \<Rightarrow> packet_ptr \<Rightarrow> (packet_ptr \<times> packet_ptr) option" where
  "shunt_loop s t p_prev = do {
     p_n \<leftarrow> next_of s p_prev; n \<leftarrow> packet_at s p_n;
     if sint (m_rtEventTime n) > sint t then Some (p_prev, p_n) else shunt_loop s t p_n }"

definition ShuntHead :: "CAMSchedule \<Rightarrow> CAMSchedule option" where
  "ShuntHead s = do {
     pPacket \<leftarrow> next_of s (Some Head);
     k \<leftarrow> packet_at s pPacket;
     (p_prev, p_n) \<leftarrow> shunt_loop s (m_rtEventTime k) (Some Head);
     if p_prev \<noteq> pPacket
     then do { n \<leftarrow> next_of s pPacket;
               s \<leftarrow> set_next (Some Head) n s;
               s \<leftarrow> set_next p_prev pPacket s;
               set_next pPacket p_n s }
     else Some s }"

text \<open>One turn of the loop of \<open>Advise\<close> for the packet \<open>k\<close> at the head.\<close>

definition dispatch_head :: "CAdvisePacket \<Rightarrow> packet_ptr \<Rightarrow> CAMSchedule \<Rightarrow> CAMSchedule option" where
  "dispatch_head k pAdvise s =
     (if m_bPeriodic k
      then do { s \<leftarrow> Some (s\<lparr>signals := signals s @ [ReleaseSemaphore (m_hNotify k)]\<rparr>);
                s \<leftarrow> write_packet pAdvise (\<lambda>k. k\<lparr>m_rtEventTime := m_rtEventTime k + m_rtPeriod k\<rparr>) s;
                ShuntHead s }
      else do { s \<leftarrow> Some (s\<lparr>signals := signals s @ [SetEvent (m_hNotify k)],
                            m_dwAdviseCount := m_dwAdviseCount s - 1\<rparr>);
                (p, s) \<leftarrow> RemoveNext (Some Head) s;
                Delete p s })"

partial_function (option) Advise :: "REFERENCE_TIME \<Rightarrow> CAMSchedule \<Rightarrow> (REFERENCE_TIME \<times> CAMSchedule) option" where
  "Advise rtTime s = do {
     pAdvise \<leftarrow> next_of s (Some Head);
     k \<leftarrow> packet_at s pAdvise;
     if sint rtTime \<ge> sint (m_rtEventTime k) \<and> m_next k \<noteq> None
     then do { s \<leftarrow> dispatch_head k pAdvise s; Advise rtTime s }
     else Some (m_rtEventTime k, s) }"

end
