(* ===== verification/Stream_Control.thy ===== *)
theory Stream_Control
  imports Renderer Schedule
begin

text \<open>
  Model of \<open>CBaseStreamControl\<close> (\<open>src/baseclasses/strmctl.cpp\<close>, \<open>strmctl.h\<close>): a pin that uses it is told by the application to start or
  stop its stream at a given time, and asks it what to do with each sample. \<open>None\<close> is a call through a null pointer. The loop of
  \<open>CheckStreamState\<close> is a step relation, as other threads change the state while it waits. Interface pointers are present or not, but the
  references on the clock are counted.
\<close>

section \<open>State\<close>

datatype StreamControlState = STREAM_FLOWING | STREAM_DISCARDING

text \<open>What the sink is notified of, with the cookie.\<close>

datatype sc_notice = EC_STREAM_CONTROL_STOPPED u32 | EC_STREAM_CONTROL_STARTED u32

text \<open>\<open>m_StreamEvent\<close> is whether the event is set, \<open>m_pRefClock\<close> the clock, \<open>sc_refs\<close> the references held on each clock, \<open>notices\<close> what the sink got.\<close>

record CBaseStreamControl =
  m_StreamState :: StreamControlState
  m_StreamStateOnStop :: StreamControlState
  m_tStartTime :: REFERENCE_TIME
  m_tStopTime :: REFERENCE_TIME
  m_dwStartCookie :: u32
  m_dwStopCookie :: u32
  m_bIsFlushing :: bool
  m_bStopSendExtra :: bool
  m_bStopExtraSent :: bool
  m_StreamEvent :: bool
  m_pRefClock :: "nat option"
  m_pSink :: bool
  m_FilterState :: FILTER_STATE
  m_tRunStart :: REFERENCE_TIME
  sc_refs :: "nat \<Rightarrow> int"
  notices :: "sc_notice list"

text \<open>\<open>c\<close> is what the memory held; the sink, the run start and \<open>m_bStopExtraSent\<close> are not initialised.\<close>

definition new_CBaseStreamControl :: "CBaseStreamControl \<Rightarrow> CBaseStreamControl" where
  "new_CBaseStreamControl c =
     c\<lparr>m_StreamState := STREAM_FLOWING, m_StreamStateOnStop := STREAM_FLOWING, m_tStartTime := MAX_TIME, m_tStopTime := MAX_TIME, m_StreamEvent := False,
       m_dwStartCookie := 0, m_dwStopCookie := 0, m_pRefClock := None, m_FilterState := State_Stopped, m_bIsFlushing := False, m_bStopSendExtra := False\<rparr>"

definition Stream_SetSyncSource :: "nat option \<Rightarrow> CBaseStreamControl \<Rightarrow> CBaseStreamControl" where
  "Stream_SetSyncSource k c =
     (let c = (case m_pRefClock c of None \<Rightarrow> c | Some j \<Rightarrow> c\<lparr>sc_refs := (sc_refs c)(j := sc_refs c j - 1)\<rparr>);
          c = c\<lparr>m_pRefClock := k\<rparr>
      in case k of None \<Rightarrow> c | Some j \<Rightarrow> c\<lparr>sc_refs := (sc_refs c)(j := sc_refs c j + 1)\<rparr>)"

definition CBaseStreamControl_destructor :: "CBaseStreamControl \<Rightarrow> CBaseStreamControl" where
  "CBaseStreamControl_destructor c = Stream_SetSyncSource None c"

definition SetFilterGraph :: "bool \<Rightarrow> CBaseStreamControl \<Rightarrow> CBaseStreamControl" where
  "SetFilterGraph sink c = c\<lparr>m_pSink := sink\<rparr>"

section \<open>Commands\<close>

definition CancelStop :: "CBaseStreamControl \<Rightarrow> CBaseStreamControl" where
  "CancelStop c = c\<lparr>m_tStopTime := MAX_TIME, m_dwStopCookie := 0, m_StreamStateOnStop := STREAM_FLOWING\<rparr>"

definition CancelStart :: "CBaseStreamControl \<Rightarrow> CBaseStreamControl" where
  "CancelStart c = c\<lparr>m_tStartTime := MAX_TIME, m_dwStartCookie := 0\<rparr>"

definition ExecuteStop :: "CBaseStreamControl \<Rightarrow> CBaseStreamControl" where
  "ExecuteStop c =
     (let c = c\<lparr>m_StreamState := m_StreamStateOnStop c\<rparr>;
          c = (if m_dwStopCookie c \<noteq> 0 \<and> m_pSink c then c\<lparr>notices := notices c @ [EC_STREAM_CONTROL_STOPPED (m_dwStopCookie c)]\<rparr> else c)
      in CancelStop c)"

definition ExecuteStart :: "CBaseStreamControl \<Rightarrow> CBaseStreamControl option" where
  "ExecuteStart c =
     (let c = c\<lparr>m_StreamState := STREAM_FLOWING\<rparr>
      in if m_dwStartCookie c \<noteq> 0 then
           if m_pSink c then Some (CancelStart (c\<lparr>notices := notices c @ [EC_STREAM_CONTROL_STARTED (m_dwStartCookie c)]\<rparr>)) else None
         else Some (CancelStart c))"

definition StopAt :: "REFERENCE_TIME option \<Rightarrow> bool \<Rightarrow> u32 \<Rightarrow> CBaseStreamControl \<Rightarrow> HRESULT \<times> CBaseStreamControl" where
  "StopAt ptStop bSendExtra dwCookie c =
     (let c = c\<lparr>m_bStopSendExtra := False, m_bStopExtraSent := False\<rparr>
      in case ptStop of
           Some t \<Rightarrow>
             (if t = MAX_TIME then
                (let c = CancelStop c
                 in (NOERROR, if m_FilterState c = State_Stopped \<and> m_tStartTime c <s MAX_TIME then c\<lparr>m_StreamState := STREAM_DISCARDING\<rparr> else c))
              else
                (let c = (if m_FilterState c = State_Stopped \<and> t <s m_tStartTime c then c\<lparr>m_StreamState := STREAM_FLOWING\<rparr> else c);
                     c = c\<lparr>m_bStopSendExtra := bSendExtra, m_tStopTime := t, m_dwStopCookie := dwCookie, m_StreamStateOnStop := STREAM_DISCARDING\<rparr>
                 in (NOERROR, c\<lparr>m_StreamEvent := True\<rparr>)))
         | None \<Rightarrow>
             (NOERROR, c\<lparr>m_bStopSendExtra := False, m_tStopTime := MAX_TIME, m_dwStopCookie := 0, m_StreamState := STREAM_DISCARDING,
                m_StreamStateOnStop := STREAM_FLOWING, m_StreamEvent := True\<rparr>))"

definition StartAt :: "REFERENCE_TIME option \<Rightarrow> u32 \<Rightarrow> CBaseStreamControl \<Rightarrow> HRESULT \<times> CBaseStreamControl" where
  "StartAt ptStart dwCookie c =
     (case ptStart of
        Some t \<Rightarrow>
          (if t = MAX_TIME then
             (let c = CancelStart c
              in (NOERROR, if m_FilterState c = State_Stopped \<and> m_tStopTime c <s MAX_TIME then c\<lparr>m_StreamState := STREAM_FLOWING\<rparr> else c))
           else
             (let c = (if m_FilterState c = State_Stopped \<and> t \<le>s m_tStopTime c then c\<lparr>m_StreamState := STREAM_DISCARDING\<rparr> else c)
              in (NOERROR, c\<lparr>m_tStartTime := t, m_dwStartCookie := dwCookie, m_StreamEvent := True\<rparr>)))
      | None \<Rightarrow> (NOERROR, c\<lparr>m_tStartTime := MAX_TIME, m_dwStartCookie := 0, m_StreamState := STREAM_FLOWING, m_StreamEvent := True\<rparr>))"

text \<open>The flags are named as in the source; combining them with \<open>|=\<close> is the union.\<close>

datatype stream_info_flag = AM_STREAM_INFO_STOP_SEND_EXTRA | AM_STREAM_INFO_START_DEFINED | AM_STREAM_INFO_STOP_DEFINED | AM_STREAM_INFO_DISCARDING

record AM_STREAM_INFO =
  info_tStart :: REFERENCE_TIME
  info_tStop :: REFERENCE_TIME
  info_dwStartCookie :: u32
  info_dwStopCookie :: u32
  info_dwFlags :: "stream_info_flag set"

definition GetInfo :: "bool \<Rightarrow> CBaseStreamControl \<Rightarrow> HRESULT \<times> AM_STREAM_INFO option" where
  "GetInfo has_pointer c =
     (if \<not> has_pointer then (E_POINTER, None)
      else (S_OK, Some \<lparr>info_tStart = m_tStartTime c, info_tStop = m_tStopTime c, info_dwStartCookie = m_dwStartCookie c, info_dwStopCookie = m_dwStopCookie c,
        info_dwFlags = (if m_bStopSendExtra c then {AM_STREAM_INFO_STOP_SEND_EXTRA} else {}) \<union>
          (if m_tStartTime c = MAX_TIME then {} else {AM_STREAM_INFO_START_DEFINED}) \<union> (if m_tStopTime c = MAX_TIME then {} else {AM_STREAM_INFO_STOP_DEFINED}) \<union>
          (case m_StreamState c of STREAM_FLOWING \<Rightarrow> {} | STREAM_DISCARDING \<Rightarrow> {AM_STREAM_INFO_DISCARDING})\<rparr>))"

definition NotifyFilterState :: "FILTER_STATE \<Rightarrow> REFERENCE_TIME \<Rightarrow> CBaseStreamControl \<Rightarrow> CBaseStreamControl option" where
  "NotifyFilterState new_state t c =
     (if m_FilterState c = new_state then Some c
      else do {
        c \<leftarrow> (case new_state of
            State_Stopped \<Rightarrow> do {
              c \<leftarrow> (if m_tStartTime c \<noteq> MAX_TIME \<and> m_tStopTime c = MAX_TIME then ExecuteStart c
                   else if m_tStopTime c \<noteq> MAX_TIME \<and> m_tStartTime c = MAX_TIME then Some (ExecuteStop c)
                   else if m_tStopTime c \<noteq> MAX_TIME \<and> m_tStartTime c \<noteq> MAX_TIME then
                     if m_tStartTime c \<le>s m_tStopTime c then do { c \<leftarrow> ExecuteStart c; Some (ExecuteStop c) } else ExecuteStart (ExecuteStop c)
                   else Some c);
              Some (c\<lparr>m_StreamState := STREAM_FLOWING, m_FilterState := new_state\<rparr>) }
          | State_Running \<Rightarrow> Some (c\<lparr>m_tRunStart := t, m_FilterState := new_state\<rparr>)
          | State_Paused \<Rightarrow> Some (c\<lparr>m_FilterState := new_state\<rparr>));
        Some (c\<lparr>m_StreamEvent := True\<rparr>) })"

definition Stream_Flushing :: "bool \<Rightarrow> CBaseStreamControl \<Rightarrow> CBaseStreamControl" where
  "Stream_Flushing bInProgress c = c\<lparr>m_bIsFlushing := bInProgress, m_StreamEvent := True\<rparr>"

section \<open>Samples\<close>

definition CheckSampleTimes :: "REFERENCE_TIME \<Rightarrow> REFERENCE_TIME \<Rightarrow> CBaseStreamControl \<Rightarrow> (StreamControlState \<times> CBaseStreamControl) option" where
  "CheckSampleTimes a b c =
     (if a \<le>s m_tStopTime c then
        if b \<le>s m_tStartTime c then Some (m_StreamState c, c)
        else do {
          c \<leftarrow> ExecuteStart (if m_tStopTime c <s m_tStartTime c then ExecuteStop c else c);
          Some (m_StreamState c, c) }
      else if b \<le>s m_tStartTime c then (let c = ExecuteStop c in Some (m_StreamState c, c))
      else if m_tStartTime c \<le>s m_tStopTime c then do { c \<leftarrow> ExecuteStart c; let c = ExecuteStop c; Some (m_StreamState c, c) }
      else do { c \<leftarrow> ExecuteStart (ExecuteStop c); Some (m_StreamState c, c) })"

text \<open>The parts of a round of the loop of \<open>CheckStreamState\<close>; \<open>Some\<close> state leaves the loop with it. \<open>INFINITE\<close> is \<open>- 1\<close>.\<close>

definition CheckStreamState_top :: "CBaseStreamControl \<Rightarrow> StreamControlState option" where
  "CheckStreamState_top c = (if m_bIsFlushing c \<or> m_FilterState c = State_Stopped then Some STREAM_DISCARDING else None)"

definition CheckStreamState_times :: "(REFERENCE_TIME \<times> REFERENCE_TIME) option \<Rightarrow> CBaseStreamControl \<Rightarrow> (StreamControlState option \<times> CBaseStreamControl) option" where
  "CheckStreamState_times ts c =
     (case ts of None \<Rightarrow> Some (Some (m_StreamState c), c)
      | Some (a, b) \<Rightarrow> do { (st, c) \<leftarrow> CheckSampleTimes a b c; Some (if st = STREAM_FLOWING then Some STREAM_FLOWING else None, c) })"

definition CheckStreamState_extra :: "CBaseStreamControl \<Rightarrow> StreamControlState option \<times> CBaseStreamControl" where
  "CheckStreamState_extra c =
     (if m_bStopSendExtra c \<and> \<not> m_bStopExtraSent c \<and> m_tStopTime c = MAX_TIME \<and> m_FilterState c \<noteq> State_Stopped
      then (Some STREAM_FLOWING, c\<lparr>m_bStopExtraSent := True\<rparr>) else (None, c))"

definition CheckStreamState_wait :: "REFERENCE_TIME \<Rightarrow> REFERENCE_TIME \<Rightarrow> CBaseStreamControl \<Rightarrow> StreamControlState option \<times> i32" where
  "CheckStreamState_wait now a c =
     (if m_pRefClock c = None then (Some STREAM_DISCARDING, 0)
      else if m_FilterState c = State_Paused then (None, - 1)
      else (let lWait = word_of_int (tdiv (sint (a - (now - m_tRunStart c))) 10000) in if lWait <s 10 then (Some STREAM_DISCARDING, lWait) else (None, lWait)))"

section \<open>A streaming thread and the threads that control it\<close>

text \<open>Where the streaming thread is in \<open>CheckStreamState\<close>, with the times of its sample.\<close>

datatype sc_pc = SC_Idle | SC_Top "(REFERENCE_TIME \<times> REFERENCE_TIME) option" | SC_Times "(REFERENCE_TIME \<times> REFERENCE_TIME) option"
  | SC_Extra "REFERENCE_TIME \<times> REFERENCE_TIME" | SC_Clock "REFERENCE_TIME \<times> REFERENCE_TIME" | SC_Waiting "REFERENCE_TIME \<times> REFERENCE_TIME" i32
  | SC_Done StreamControlState

record stream_world =
  sc :: CBaseStreamControl
  sc_at :: sc_pc

definition sc_continue :: "StreamControlState option \<Rightarrow> sc_pc \<Rightarrow> sc_pc" where
  "sc_continue r p = (case r of Some st \<Rightarrow> SC_Done st | None \<Rightarrow> p)"

inductive sc_step :: "stream_world \<Rightarrow> stream_world \<Rightarrow> bool" where
  enter: "sc_at x = SC_Idle \<Longrightarrow> sc_step x (x\<lparr>sc_at := SC_Top ts\<rparr>)"
| top: "sc_at x = SC_Top ts \<Longrightarrow> sc_step x (x\<lparr>sc_at := sc_continue (CheckStreamState_top (sc x)) (SC_Times ts)\<rparr>)"
| times: "sc_at x = SC_Times ts \<Longrightarrow> CheckStreamState_times ts (sc x) = Some (r, c) \<Longrightarrow>
    p = (case ts of Some t \<Rightarrow> SC_Extra t | None \<Rightarrow> SC_Idle) \<Longrightarrow> sc_step x (x\<lparr>sc := c, sc_at := sc_continue r p\<rparr>)"
| extra: "sc_at x = SC_Extra t \<Longrightarrow> CheckStreamState_extra (sc x) = (r, c) \<Longrightarrow> sc_step x (x\<lparr>sc := c, sc_at := sc_continue r (SC_Clock t)\<rparr>)"
| clock: "sc_at x = SC_Clock (a, b) \<Longrightarrow> CheckStreamState_wait now a (sc x) = (r, l) \<Longrightarrow> sc_step x (x\<lparr>sc_at := sc_continue r (SC_Waiting (a, b) l)\<rparr>)"
| wake: "sc_at x = SC_Waiting t l \<Longrightarrow> m_StreamEvent (sc x) \<Longrightarrow> sc_step x (x\<lparr>sc := (sc x)\<lparr>m_StreamEvent := False\<rparr>, sc_at := SC_Top (Some t)\<rparr>)"
| expire: "sc_at x = SC_Waiting t l \<Longrightarrow> l \<noteq> - 1 \<Longrightarrow> sc_step x (x\<lparr>sc_at := SC_Done STREAM_DISCARDING\<rparr>)"
| leave: "sc_at x = SC_Done st \<Longrightarrow> sc_step x (x\<lparr>sc_at := SC_Idle\<rparr>)"
| stop_at: "sc_step x (x\<lparr>sc := snd (StopAt s extra k (sc x))\<rparr>)"
| start_at: "sc_step x (x\<lparr>sc := snd (StartAt s k (sc x))\<rparr>)"
| filter_state: "NotifyFilterState f t (sc x) = Some c \<Longrightarrow> sc_step x (x\<lparr>sc := c\<rparr>)"
| flushing: "sc_step x (x\<lparr>sc := Stream_Flushing fl (sc x)\<rparr>)"
| clock_set: "m_FilterState (sc x) = State_Stopped \<Longrightarrow> sc_step x (x\<lparr>sc := Stream_SetSyncSource k (sc x)\<rparr>)"
| graph: "sc_step x (x\<lparr>sc := SetFilterGraph sink (sc x)\<rparr>)"

inductive sc_reachable :: "stream_world \<Rightarrow> bool" where
  init: "sc_reachable \<lparr>sc = new_CBaseStreamControl c, sc_at = SC_Idle\<rparr>"
| step: "sc_reachable x \<Longrightarrow> sc_step x y \<Longrightarrow> sc_reachable y"

end
