(* ===== verification/Stream_Control_Props.thy ===== *)
theory Stream_Control_Props
  imports Stream_Control
begin

text \<open>
  Facts about stream control: the commands form a schedule that samples obey, no wake-up of the streaming thread is lost, the commands given while stopped
  commute, and stopping carries out what is pending.
\<close>

section \<open>Pending commands\<close>

abbreviation never :: int where "never \<equiv> 2 ^ 63 - 1"

lemma MAX_TIME_value [simp]: "sint MAX_TIME = never"
  by (simp add: MAX_TIME_def)

lemma time_le_never: "sint (t :: i64) \<le> never" and time_less_never: "sint t < never \<longleftrightarrow> t \<noteq> MAX_TIME"
proof -
  show "sint t \<le> never" using sint_range64 [of t] by simp
  moreover have "sint t = never \<longleftrightarrow> t = MAX_TIME" using signed_word_eqI [of t MAX_TIME] MAX_TIME_value by metis
  ultimately show "sint t < never \<longleftrightarrow> t \<noteq> MAX_TIME" by linarith
qed

lemma not_MAX_TIME: "sint t < sint u \<Longrightarrow> t \<noteq> MAX_TIME" for t u :: i64
  using time_le_never [of u] time_less_never [of t] by linarith

text \<open>A command that is not pending has no cookie, and a pending stop will discard.\<close>

definition sc_ok :: "CBaseStreamControl \<Rightarrow> bool" where
  "sc_ok c \<longleftrightarrow> (m_tStartTime c = MAX_TIME \<longrightarrow> m_dwStartCookie c = 0) \<and> (m_tStopTime c = MAX_TIME \<longrightarrow> m_dwStopCookie c = 0) \<and>
     m_StreamStateOnStop c = (if m_tStopTime c = MAX_TIME then STREAM_FLOWING else STREAM_DISCARDING)"

definition start_notice :: "CBaseStreamControl \<Rightarrow> sc_notice list" where
  "start_notice c = (if m_dwStartCookie c = 0 then [] else [EC_STREAM_CONTROL_STARTED (m_dwStartCookie c)])"

definition stop_notice :: "CBaseStreamControl \<Rightarrow> sc_notice list" where
  "stop_notice c = (if m_dwStopCookie c = 0 then [] else [EC_STREAM_CONTROL_STOPPED (m_dwStopCookie c)])"

lemma ExecuteStop_value:
  "m_pSink c \<Longrightarrow> ExecuteStop c = c\<lparr>m_StreamState := m_StreamStateOnStop c, m_tStopTime := MAX_TIME, m_dwStopCookie := 0, m_StreamStateOnStop := STREAM_FLOWING,
     notices := notices c @ stop_notice c\<rparr>"
  by (cases c) (simp add: ExecuteStop_def CancelStop_def stop_notice_def)

lemma ExecuteStart_value:
  "m_pSink c \<Longrightarrow> ExecuteStart c = Some (c\<lparr>m_StreamState := STREAM_FLOWING, m_tStartTime := MAX_TIME, m_dwStartCookie := 0, notices := notices c @ start_notice c\<rparr>)"
  by (cases c) (simp add: ExecuteStart_def CancelStart_def start_notice_def)

section \<open>Samples against the schedule\<close>

text \<open>The state just before time \<open>t\<close>, by the last command due before it; of two at the same time the start comes first. A sample is sent when the
  stream flows at its start or a start falls into it.\<close>

definition flows_before :: "int \<Rightarrow> CBaseStreamControl \<Rightarrow> bool" where
  "flows_before t c \<longleftrightarrow>
     (let s = sint (m_tStartTime c); e = sint (m_tStopTime c)
      in if s < t \<and> (t \<le> e \<or> e < s) then True else if e < t then False else m_StreamState c = STREAM_FLOWING)"

definition sent :: "CBaseStreamControl \<Rightarrow> REFERENCE_TIME \<times> REFERENCE_TIME \<Rightarrow> bool" where
  "sent c = (\<lambda>(a, b). flows_before (sint a) c \<or> sint a \<le> sint (m_tStartTime c) \<and> sint (m_tStartTime c) < sint b)"

abbreviation verdict :: "bool \<Rightarrow> StreamControlState" where
  "verdict p \<equiv> if p then STREAM_FLOWING else STREAM_DISCARDING"

text \<open>Which commands a sample makes due.\<close>

definition start_due :: "REFERENCE_TIME \<times> REFERENCE_TIME \<Rightarrow> CBaseStreamControl \<Rightarrow> bool" where
  "start_due = (\<lambda>(a, b) c. sint (m_tStartTime c) < sint b)"

definition stop_due :: "REFERENCE_TIME \<times> REFERENCE_TIME \<Rightarrow> CBaseStreamControl \<Rightarrow> bool" where
  "stop_due = (\<lambda>(a, b) c. sint (m_tStopTime c) < sint a \<or> sint (m_tStopTime c) < sint (m_tStartTime c) \<and> sint (m_tStartTime c) < sint b)"

definition due_notices :: "REFERENCE_TIME \<times> REFERENCE_TIME \<Rightarrow> CBaseStreamControl \<Rightarrow> sc_notice list" where
  "due_notices t c =
     (let s = (if start_due t c then start_notice c else []); e = (if stop_due t c then stop_notice c else [])
      in if sint (m_tStartTime c) \<le> sint (m_tStopTime c) then s @ e else e @ s)"

definition obeyed :: "REFERENCE_TIME \<times> REFERENCE_TIME \<Rightarrow> CBaseStreamControl \<Rightarrow> CBaseStreamControl" where
  "obeyed t c =
     (let c' = c\<lparr>m_StreamState := (if start_due t c \<or> stop_due t c then verdict (sent c t) else m_StreamState c), notices := notices c @ due_notices t c\<rparr>;
          c' = (if start_due t c then c'\<lparr>m_tStartTime := MAX_TIME, m_dwStartCookie := 0\<rparr> else c')
      in if stop_due t c then c'\<lparr>m_tStopTime := MAX_TIME, m_dwStopCookie := 0, m_StreamStateOnStop := STREAM_FLOWING\<rparr> else c')"

lemma verdict_cases [simp]: "verdict (st = STREAM_FLOWING) = st"
  by (cases st) auto

lemma CheckSampleTimes_value:
  assumes "sc_ok c" and "m_pSink c" and "sint a \<le> sint b"
  shows "CheckSampleTimes a b c = Some (verdict (sent c (a, b)), obeyed (a, b) c)"
proof -
  let ?s = "sint (m_tStartTime c)" and ?e = "sint (m_tStopTime c)"
  have dis: "m_tStopTime c \<noteq> MAX_TIME \<Longrightarrow> m_StreamStateOnStop c = STREAM_DISCARDING" using assms(1) by (simp add: sc_ok_def)
  have pending: "?e < sint a \<Longrightarrow> m_tStopTime c \<noteq> MAX_TIME" "?e < ?s \<Longrightarrow> m_tStopTime c \<noteq> MAX_TIME" by (auto dest: not_MAX_TIME)
  note defs = CheckSampleTimes_def obeyed_def due_notices_def start_due_def stop_due_def sent_def flows_before_def word_sle_eq word_sless_alt Let_def
    ExecuteStart_value ExecuteStop_value start_notice_def stop_notice_def
  obtain st os s e k1 k2 fl se es ev rc sk fs rs rf ns mm where c: "c = \<lparr>m_StreamState = st, m_StreamStateOnStop = os, m_tStartTime = s, m_tStopTime = e, m_dwStartCookie = k1,
    m_dwStopCookie = k2, m_bIsFlushing = fl, m_bStopSendExtra = se, m_bStopExtraSent = es, m_StreamEvent = ev, m_pRefClock = rc, m_pSink = sk, m_FilterState = fs,
    m_tRunStart = rs, sc_refs = rf, notices = ns, \<dots> = mm\<rparr>" by (cases c)
  show ?thesis
  proof (cases "sint a \<le> ?e")
    case True
    then show ?thesis
    proof (cases "sint b \<le> ?s")
      case T2: True
      show ?thesis using True T2 assms(2,3) unfolding c by (simp add: defs)
    next
      case False
      then show ?thesis using True assms(2,3) dis pending unfolding c by (cases "sint e < sint s") (simp_all add: defs)
    qed
  next
    case False
    then have n: "m_StreamStateOnStop c = STREAM_DISCARDING" using dis pending by auto
    then show ?thesis using False assms(2,3) unfolding c by (cases "sint b \<le> sint s"; cases "sint s \<le> sint e") (simp_all add: defs)
  qed
qed


text \<open>A sample leaves the schedule as it is for what comes later: the later samples are judged as if nothing had been carried out.\<close>

lemma obeyed_ok: "sc_ok c \<Longrightarrow> sc_ok (obeyed t c)" and obeyed_sink [simp]: "m_pSink (obeyed t c) = m_pSink c"
  by (auto simp: sc_ok_def obeyed_def Let_def)

lemma obeyed_sent:
  assumes "sint a \<le> sint b" and "sint b \<le> sint a'" and "sint a' \<le> sint b'"
  shows "sent (obeyed (a, b) c) (a', b') = sent c (a', b')"
proof -
  have r: "sint a \<le> never" "sint b \<le> never" "sint a' \<le> never" "sint b' \<le> never" "sint (m_tStartTime c) \<le> never" "sint (m_tStopTime c) \<le> never" by (rule time_le_never)+
  have f: "(verdict p = STREAM_FLOWING) = p" for p by simp
  show ?thesis
  proof (cases "start_due (a, b) c")
    case s: True
    show ?thesis
    proof (cases "stop_due (a, b) c")
      case True
      then show ?thesis using s assms r unfolding sent_def flows_before_def obeyed_def start_due_def stop_due_def Let_def by ((simp add: f; fail) | (simp add: f; linarith))
    next
      case False
      then show ?thesis using s assms r unfolding sent_def flows_before_def obeyed_def start_due_def stop_due_def Let_def by ((simp add: f; fail) | (simp add: f; linarith))
    qed
  next
    case s: False
    show ?thesis
    proof (cases "stop_due (a, b) c")
      case True
      then show ?thesis using s assms r unfolding sent_def flows_before_def obeyed_def start_due_def stop_due_def Let_def by ((simp add: f; fail) | (simp add: f; linarith))
    next
      case False
      then show ?thesis using s by (simp add: obeyed_def sent_def flows_before_def due_notices_def)
    qed
  qed
qed


lemma obeyed_obeyed:
  assumes "sint a \<le> sint b" and "sint b \<le> sint a'" and "sint a' \<le> sint b'"
  shows "obeyed (a', b') (obeyed (a, b) c) = obeyed (a', b') c"
proof -
  have r: "sint a \<le> never" "sint b \<le> never" "sint a' \<le> never" "sint b' \<le> never" "sint (m_tStartTime c) \<le> never" "sint (m_tStopTime c) \<le> never" by (rule time_le_never)+
  obtain st os s e k1 k2 fl se es ev rc sk fs rs rf ns mm where c: "c = \<lparr>m_StreamState = st, m_StreamStateOnStop = os, m_tStartTime = s, m_tStopTime = e, m_dwStartCookie = k1,
    m_dwStopCookie = k2, m_bIsFlushing = fl, m_bStopSendExtra = se, m_bStopExtraSent = es, m_StreamEvent = ev, m_pRefClock = rc, m_pSink = sk, m_FilterState = fs,
    m_tRunStart = rs, sc_refs = rf, notices = ns, \<dots> = mm\<rparr>" by (cases c)
  note d = obeyed_def start_due_def stop_due_def sent_def flows_before_def due_notices_def start_notice_def stop_notice_def Let_def c
  have r': "sint a' \<le> 9223372036854775807" "sint b' \<le> 9223372036854775807" using r by simp_all
  consider (nothing) "\<not> start_due (a, b) c" "\<not> stop_due (a, b) c" | (start) "start_due (a, b) c" "\<not> stop_due (a, b) c"
    | (stop) "\<not> start_due (a, b) c" "stop_due (a, b) c" | (both) "start_due (a, b) c" "stop_due (a, b) c" by blast
  then show ?thesis
  proof cases
    case nothing
    then show ?thesis by (simp add: obeyed_def due_notices_def Let_def)
  next
    case start
    then show ?thesis using assms r' by (cases "sint e < sint a'"; cases "sint s \<le> sint e"; simp add: d)
  next
    case stop
    then show ?thesis using assms r' by (cases "sint s < sint b'"; cases "sint s \<le> sint e"; simp add: d)
  next
    case both
    then show ?thesis using assms r' by (cases "sint s \<le> sint e"; simp add: d)
  qed
qed


definition run_samples :: "(REFERENCE_TIME \<times> REFERENCE_TIME) list \<Rightarrow> CBaseStreamControl \<Rightarrow> (StreamControlState list \<times> CBaseStreamControl) option" where
  "run_samples ts c = foldl (\<lambda>r (a, b). do { (sts, c) \<leftarrow> r; (st, c) \<leftarrow> CheckSampleTimes a b c; Some (sts @ [st], c) }) (Some ([], c)) ts"

definition in_order :: "(REFERENCE_TIME \<times> REFERENCE_TIME) list \<Rightarrow> bool" where
  "in_order ts \<longleftrightarrow> (\<forall>(a, b)\<in>set ts. sint a \<le> sint b) \<and> sorted_wrt (\<lambda>(a, b) (a', b'). sint b \<le> sint a') ts"

lemma run_samples_value:
  assumes "sc_ok c" and "m_pSink c" and "in_order ts"
  shows "run_samples ts c = Some (map (\<lambda>t. verdict (sent c t)) ts, if ts = [] then c else obeyed (last ts) c)"
  using assms(3)
proof (induction ts rule: rev_induct)
  case Nil
  then show ?case by (simp add: run_samples_def)
next
  case (snoc t ts)
  obtain a b where t: "t = (a, b)" by fastforce
  have ab: "sint a \<le> sint b" and o: "in_order ts" and l: "\<forall>(x, y)\<in>set ts. sint x \<le> sint y \<and> sint y \<le> sint a"
    using snoc(2) by (auto simp: in_order_def sorted_wrt_append t)
  let ?c = "if ts = [] then c else obeyed (last ts) c"
  have ok: "sc_ok ?c" "m_pSink ?c" using assms(1,2) by (simp_all add: obeyed_ok)
  have run: "run_samples (ts @ [t]) c = Some (map (\<lambda>t. verdict (sent c t)) ts @ [verdict (sent ?c (a, b))], obeyed (a, b) ?c)"
    using snoc(1) [OF o] CheckSampleTimes_value [OF ok ab] unfolding run_samples_def by (simp add: t)
  have "sent ?c (a, b) = sent c (a, b) \<and> obeyed (a, b) ?c = obeyed (a, b) c"
  proof (cases "ts = []")
    case False
    obtain x y where xy: "last ts = (x, y)" by fastforce
    then have "(x, y) \<in> set ts" using False last_in_set by metis
    then have "sint x \<le> sint y" "sint y \<le> sint a" using l by auto
    then show ?thesis using False xy ab by (simp add: obeyed_sent obeyed_obeyed)
  qed simp
  then show ?case using run by (simp add: t)
qed

lemma obeyed_fields:
  "notices (obeyed t c) = notices c @ due_notices t c" "m_tStartTime (obeyed t c) = (if start_due t c then MAX_TIME else m_tStartTime c)"
  "m_tStopTime (obeyed t c) = (if stop_due t c then MAX_TIME else m_tStopTime c)"
  by (simp_all add: obeyed_def Let_def)

text \<open>C18. Commands with times act as a schedule. Whatever samples follow each other, each is sent exactly when the schedule as it was before the first of
  them says so: the last command due before the start of the sample, starts before stops at the same time, lets the stream flow, or a start falls into the sample.
  The nineteen cases of the source, and any sequence of them, are this one rule. Each command with a cookie that has become due is notified once, in the order of the times.\<close>

theorem sc_schedule:
  assumes "sc_ok c" and "m_pSink c" and "in_order ts" and "ts \<noteq> []" and "last ts = (a, b)"
  shows "\<exists>c'. run_samples ts c = Some (map (\<lambda>t. verdict (sent c t)) ts, c') \<and> sc_ok c' \<and> notices c' = notices c @ due_notices (a, b) c \<and>
    m_tStartTime c' = (if sint (m_tStartTime c) < sint b then MAX_TIME else m_tStartTime c) \<and>
    m_tStopTime c' = (if sint (m_tStopTime c) < sint a \<or> sint (m_tStopTime c) < sint (m_tStartTime c) \<and> sint (m_tStartTime c) < sint b
      then MAX_TIME else m_tStopTime c)"
  using run_samples_value [OF assms(1-3)] obeyed_ok [OF assms(1), of "(a, b)"] assms(4,5) obeyed_fields [of "(a, b)" c]
  by (simp add: start_due_def stop_due_def)

theorem sc_schedule_witness:
  "\<exists>c'. run_samples [(0, 10), (10, 20), (20, 30), (30, 40)]
      ((snd (StopAt (Some 25) False 7 (snd (StartAt (Some 15) 6 (new_CBaseStreamControl undefined)))))\<lparr>m_pSink := True, notices := []\<rparr>) =
    Some ([STREAM_DISCARDING, STREAM_FLOWING, STREAM_FLOWING, STREAM_DISCARDING], c') \<and>
    notices c' = [EC_STREAM_CONTROL_STARTED 6, EC_STREAM_CONTROL_STOPPED 7]"
proof -
  let ?c = "(snd (StopAt (Some 25) False 7 (snd (StartAt (Some 15) 6 (new_CBaseStreamControl undefined)))))\<lparr>m_pSink := True, notices := []\<rparr>"
  have f: "m_tStartTime ?c = 15" "m_tStopTime ?c = 25" "m_dwStartCookie ?c = 6" "m_dwStopCookie ?c = 7" "m_StreamState ?c = STREAM_DISCARDING"
      "m_StreamStateOnStop ?c = STREAM_DISCARDING"
    by (simp_all add: StopAt_def StartAt_def new_CBaseStreamControl_def MAX_TIME_def word_sless_alt word_sle_eq)
  have ok: "sc_ok ?c" unfolding sc_ok_def f by (simp add: MAX_TIME_def)
  have o: "in_order [(0, 10), (10, 20), (20, 30), (30, 40)]" by (simp add: in_order_def)
  have s: "sent ?c t = (flows_before (sint (fst t)) ?c \<or> sint (fst t) \<le> 15 \<and> 15 < sint (snd t))" for t by (simp add: sent_def f split: prod.split)
  have fb: "flows_before t ?c = (15 < t \<and> t \<le> 25)" for t by (simp add: flows_before_def f)
  have n: "due_notices (30, 40) ?c = [EC_STREAM_CONTROL_STARTED 6, EC_STREAM_CONTROL_STOPPED 7]"
    by (simp add: due_notices_def start_due_def stop_due_def start_notice_def stop_notice_def f)
  show ?thesis using sc_schedule [OF ok _ o, of 30 40] n unfolding s fb by auto
qed


section \<open>Waking the streaming thread\<close>

text \<open>What the thread has found out about its sample when nobody has set the event since.\<close>

definition held :: "REFERENCE_TIME \<times> REFERENCE_TIME \<Rightarrow> CBaseStreamControl \<Rightarrow> bool" where
  "held = (\<lambda>(a, b) c. m_StreamState c = STREAM_DISCARDING \<and> a \<le>s m_tStopTime c \<and> b \<le>s m_tStartTime c)"

definition extra_due :: "CBaseStreamControl \<Rightarrow> bool" where
  "extra_due c \<longleftrightarrow> m_bStopSendExtra c \<and> \<not> m_bStopExtraSent c \<and> m_tStopTime c = MAX_TIME \<and> m_FilterState c \<noteq> State_Stopped"

definition active :: "CBaseStreamControl \<Rightarrow> bool" where
  "active c \<longleftrightarrow> \<not> m_bIsFlushing c \<and> m_FilterState c \<noteq> State_Stopped"

definition known :: "sc_pc \<Rightarrow> CBaseStreamControl \<Rightarrow> bool" where
  "known p c = (case p of SC_Times ts \<Rightarrow> active c | SC_Extra t \<Rightarrow> active c \<and> held t c | SC_Clock t \<Rightarrow> active c \<and> held t c \<and> \<not> extra_due c
     | SC_Waiting t l \<Rightarrow> active c \<and> held t c \<and> \<not> extra_due c \<and> m_pRefClock c \<noteq> None \<and> (l = - 1 \<longrightarrow> m_FilterState c = State_Paused) | _ \<Rightarrow> True)"

definition sc_inv :: "stream_world \<Rightarrow> bool" where
  "sc_inv x \<longleftrightarrow> sc_ok (sc x) \<and> (m_StreamEvent (sc x) \<or> known (sc_at x) (sc x))"

lemma never_le [simp]: "t \<le>s MAX_TIME" for t :: i64
  using time_le_never [of t] by (simp add: word_sle_eq)

lemma Execute_ok: "sc_ok c \<Longrightarrow> sc_ok (ExecuteStop c)" "sc_ok c \<Longrightarrow> ExecuteStart c = Some c' \<Longrightarrow> sc_ok c'"
  by (auto simp: sc_ok_def ExecuteStop_def ExecuteStart_def CancelStop_def CancelStart_def Let_def split: if_splits)

lemma Execute_keeps:
  "m_StreamEvent (ExecuteStop c) = m_StreamEvent c" "active (ExecuteStop c) = active c" "m_tStopTime (ExecuteStop c) = MAX_TIME" "m_tStartTime (ExecuteStop c) = m_tStartTime c"
  "ExecuteStart c = Some c' \<Longrightarrow> m_StreamEvent c' = m_StreamEvent c" "ExecuteStart c = Some c' \<Longrightarrow> active c' = active c"
  "ExecuteStart c = Some c' \<Longrightarrow> m_tStopTime c' = m_tStopTime c" "ExecuteStart c = Some c' \<Longrightarrow> m_tStartTime c' = MAX_TIME"
  "ExecuteStart c = Some c' \<Longrightarrow> m_StreamState c' = STREAM_FLOWING"
  by (auto simp: ExecuteStop_def ExecuteStart_def CancelStop_def CancelStart_def Let_def active_def split: if_splits)

lemma CheckSampleTimes_held:
  assumes "CheckSampleTimes a b c = Some (st, c')" and "sc_ok c"
  shows "sc_ok c' \<and> m_StreamEvent c' = m_StreamEvent c \<and> active c' = active c \<and> (st = STREAM_DISCARDING \<longrightarrow> held (a, b) c')"
  using assms
  by (auto simp: CheckSampleTimes_def Let_def held_def Execute_keeps split: if_splits Option.bind_splits intro: Execute_ok)

lemma held_check: "held (a, b) c \<Longrightarrow> CheckSampleTimes a b c = Some (STREAM_DISCARDING, c)"
  by (simp add: held_def CheckSampleTimes_def)

lemma NotifyFilterState_ok:
  assumes "NotifyFilterState f t c = Some c'" and "sc_ok c"
  shows "sc_ok c' \<and> (c' = c \<or> m_StreamEvent c')"
proof -
  show ?thesis
  proof (cases "m_FilterState c = f")
    case True
    then show ?thesis using assms by (simp add: NotifyFilterState_def)
  next
    case False
    show ?thesis
    proof (cases f)
      case State_Stopped
      then obtain c1 where "(if m_tStartTime c \<noteq> MAX_TIME \<and> m_tStopTime c = MAX_TIME then ExecuteStart c
          else if m_tStopTime c \<noteq> MAX_TIME \<and> m_tStartTime c = MAX_TIME then Some (ExecuteStop c)
          else if m_tStopTime c \<noteq> MAX_TIME \<and> m_tStartTime c \<noteq> MAX_TIME then
            if m_tStartTime c \<le>s m_tStopTime c then do { c \<leftarrow> ExecuteStart c; Some (ExecuteStop c) } else ExecuteStart (ExecuteStop c)
          else Some c) = Some c1"
        and c': "c' = c1\<lparr>m_StreamState := STREAM_FLOWING, m_FilterState := State_Stopped, m_StreamEvent := True\<rparr>"
        using assms(1) False by (auto simp: NotifyFilterState_def bind_eq_Some_conv)
      then have "sc_ok c1" using Execute_ok [of c] Execute_ok(2) [of "ExecuteStop c"] assms(2)
        by (auto simp: bind_eq_Some_conv Execute_ok(1) split: if_splits)
      then show ?thesis by (simp add: c' sc_ok_def)
    qed (use assms False in \<open>auto simp: NotifyFilterState_def sc_ok_def\<close>)
  qed
qed

lemma command_ok:
  assumes "sc_ok c"
  shows "sc_ok (snd (StopAt s extra k c))" "sc_ok (snd (StartAt s k c))"
    "known p c \<or> m_StreamEvent c \<Longrightarrow> known p (snd (StopAt s extra k c)) \<or> m_StreamEvent (snd (StopAt s extra k c))"
    "known p c \<or> m_StreamEvent c \<Longrightarrow> known p (snd (StartAt s k c)) \<or> m_StreamEvent (snd (StartAt s k c))"
  using assms
  by (auto simp: StopAt_def StartAt_def CancelStop_def CancelStart_def Let_def sc_ok_def known_def active_def held_def extra_due_def split: option.split sc_pc.splits)

lemma sc_step_inv:
  assumes "sc_step x y" and "sc_inv x"
  shows "sc_inv y"
  using assms
proof (cases rule: sc_step.cases)
  case (times ts r c p)
  show ?thesis
  proof (cases ts)
    case None
    then show ?thesis using times assms(2) by (auto simp: CheckStreamState_times_def sc_inv_def sc_continue_def known_def)
  next
    case (Some t)
    obtain a b where t: "t = (a, b)" by fastforce
    obtain st where st: "CheckSampleTimes a b (sc x) = Some (st, c)" "r = (if st = STREAM_FLOWING then Some STREAM_FLOWING else None)"
      using times(3) by (auto simp: CheckStreamState_times_def Some t split: Option.bind_splits)
    have k: "m_StreamEvent (sc x) \<or> active (sc x)" "sc_ok (sc x)" using assms(2) times(2) by (auto simp: sc_inv_def known_def)
    then show ?thesis using CheckSampleTimes_held [OF st(1) k(2)] st(2) times(1,4) Some t
      by (cases st) (auto simp: sc_inv_def sc_continue_def known_def)
  qed
next
  case (filter_state f t c)
  then show ?thesis using NotifyFilterState_ok [OF filter_state(2)] assms(2) by (auto simp: sc_inv_def)
next
  case (stop_at s extra k)
  then show ?thesis using assms(2) command_ok(1) [of "sc x" s extra k] command_ok(3) [of "sc x" "sc_at x" s extra k] by (auto simp: sc_inv_def)
next
  case (start_at s k)
  then show ?thesis using assms(2) command_ok(2) [of "sc x" s k] command_ok(4) [of "sc x" "sc_at x" s k] by (auto simp: sc_inv_def)
next
  case (clock_set k)
  have "sc_ok (Stream_SetSyncSource k c) = sc_ok c" "m_StreamEvent (Stream_SetSyncSource k c) = m_StreamEvent c" for c
    by (auto simp: Stream_SetSyncSource_def sc_ok_def Let_def split: option.split)
  moreover have "known (sc_at x) (Stream_SetSyncSource k (sc x))" if "known (sc_at x) (sc x)"
    using that clock_set(2) by (auto simp: known_def active_def split: sc_pc.splits)
  ultimately show ?thesis using assms(2) clock_set by (auto simp: sc_inv_def)
next
  case (clock a b now r l)
  then show ?thesis using assms(2)
    by (auto simp: sc_inv_def CheckStreamState_wait_def Let_def known_def sc_continue_def word_sless_alt split: if_splits)
qed (auto simp: sc_inv_def sc_continue_def known_def CheckStreamState_top_def CheckStreamState_extra_def active_def extra_due_def Stream_Flushing_def SetFilterGraph_def
    sc_ok_def held_def split: if_splits sc_pc.splits)

lemma sc_reachable_inv: "sc_reachable x \<Longrightarrow> sc_inv x"
proof (induction rule: sc_reachable.induct)
  case (init c)
  then show ?case by (simp add: sc_inv_def sc_ok_def new_CBaseStreamControl_def known_def)
qed (rule sc_step_inv)




section \<open>Commands while stopped, and stopping\<close>

text \<open>While the filter is stopped and nothing is pending, a start and a stop may be given in either order with the same result, and the stream begins with
  what the earlier of them ends: it discards up to a start that is not after the stop, and flows otherwise. Cancelling one of the two leaves the other's choice.\<close>

theorem sc_commands:
  assumes "m_FilterState c = State_Stopped" and "m_tStartTime c = MAX_TIME" and "m_tStopTime c = MAX_TIME" and "s \<noteq> MAX_TIME" and "e \<noteq> MAX_TIME"
    and "c' = snd (StopAt (Some e) extra k2 (snd (StartAt (Some s) k1 c)))"
  shows "c' = snd (StartAt (Some s) k1 (snd (StopAt (Some e) extra k2 c))) \<and> m_tStartTime c' = s \<and> m_tStopTime c' = e \<and> m_StreamEvent c' \<and>
    m_StreamState c' = (if sint s \<le> sint e then STREAM_DISCARDING else STREAM_FLOWING) \<and>
    m_StreamState (snd (StopAt (Some MAX_TIME) extra k2 c')) = STREAM_DISCARDING \<and> m_StreamState (snd (StartAt (Some MAX_TIME) k1 c')) = STREAM_FLOWING"
proof -
  obtain st os s0 e0 j1 j2 fl se es ev rc sk fs rs rf ns mm where c: "c = \<lparr>m_StreamState = st, m_StreamStateOnStop = os, m_tStartTime = s0, m_tStopTime = e0, m_dwStartCookie = j1,
    m_dwStopCookie = j2, m_bIsFlushing = fl, m_bStopSendExtra = se, m_bStopExtraSent = es, m_StreamEvent = ev, m_pRefClock = rc, m_pSink = sk, m_FilterState = fs,
    m_tRunStart = rs, sc_refs = rf, notices = ns, \<dots> = mm\<rparr>" by (cases c)
  have n: "sint s < never" "sint e < never" using assms(4,5) by (simp_all only: time_less_never not_False_eq_True)
  have l: "sint s < 9223372036854775807" "sint e < 9223372036854775807" "sint s \<le> 9223372036854775807" using n by simp_all
  show ?thesis
  proof (cases "sint s \<le> sint e")
    case True
    then show ?thesis using assms(1-5) l unfolding assms(6) c
      by (simp add: StopAt_def StartAt_def CancelStop_def CancelStart_def word_sless_alt word_sle_eq)
  next
    case False
    then show ?thesis using assms(1-5) l unfolding assms(6) c
      by (simp add: StopAt_def StartAt_def CancelStop_def CancelStart_def word_sless_alt word_sle_eq)
  qed
qed

theorem sc_commands_witness:
  "m_StreamState (snd (StopAt (Some 5) False 0 (snd (StartAt (Some 9) 0 (new_CBaseStreamControl undefined))))) = STREAM_FLOWING"
proof -
  have "m_FilterState (new_CBaseStreamControl undefined) = State_Stopped" "m_tStartTime (new_CBaseStreamControl undefined) = MAX_TIME"
    "m_tStopTime (new_CBaseStreamControl undefined) = MAX_TIME" by (simp_all add: new_CBaseStreamControl_def)
  moreover have "(9 :: i64) \<noteq> MAX_TIME" "(5 :: i64) \<noteq> MAX_TIME" by (simp_all add: MAX_TIME_def)
  ultimately have "m_StreamState (snd (StopAt (Some 5) False 0 (snd (StartAt (Some 9) 0 (new_CBaseStreamControl undefined))))) =
    (if sint (9 :: i64) \<le> sint (5 :: i64) then STREAM_DISCARDING else STREAM_FLOWING)" using sc_commands by blast
  then show ?thesis by simp
qed

text \<open>C34. When the filter stops, the pending commands are carried out and notified in the order of their times, and the next run begins flowing with nothing pending.
  A pending start that has a cookie needs a sink: a missing one is a call through a null pointer, which a pending stop avoids.\<close>

theorem sc_filter_stops:
  assumes "sc_ok c" and "m_FilterState c \<noteq> State_Stopped"
  shows "(m_pSink c \<longrightarrow> (\<exists>c'. NotifyFilterState State_Stopped t c = Some c' \<and> m_tStartTime c' = MAX_TIME \<and> m_tStopTime c' = MAX_TIME \<and> sc_ok c' \<and>
      m_StreamState c' = STREAM_FLOWING \<and> m_FilterState c' = State_Stopped \<and> m_StreamEvent c' \<and>
      notices c' = notices c @ (if sint (m_tStartTime c) \<le> sint (m_tStopTime c) then start_notice c @ stop_notice c else stop_notice c @ start_notice c))) \<and>
    (\<not> m_pSink c \<longrightarrow> (NotifyFilterState State_Stopped t c = None \<longleftrightarrow> m_dwStartCookie c \<noteq> 0))"
proof -
  obtain st os s e k1 k2 fl se es ev rc sk fs rs rf ns mm where c: "c = \<lparr>m_StreamState = st, m_StreamStateOnStop = os, m_tStartTime = s, m_tStopTime = e, m_dwStartCookie = k1,
    m_dwStopCookie = k2, m_bIsFlushing = fl, m_bStopSendExtra = se, m_bStopExtraSent = es, m_StreamEvent = ev, m_pRefClock = rc, m_pSink = sk, m_FilterState = fs,
    m_tRunStart = rs, sc_refs = rf, notices = ns, \<dots> = mm\<rparr>" by (cases c)
  have le: "sint s \<le> 9223372036854775807" "sint e \<le> 9223372036854775807" using time_le_never [of s] time_le_never [of e] by simp_all
  have "sk \<Longrightarrow> ?thesis" using assms le unfolding c
    by (cases "s = MAX_TIME"; cases "e = MAX_TIME"; cases "sint s \<le> sint e")
      (simp_all add: NotifyFilterState_def ExecuteStart_value ExecuteStop_value start_notice_def stop_notice_def sc_ok_def word_sle_eq)
  moreover have "\<not> sk \<Longrightarrow> ?thesis" using assms le unfolding c
    by (cases "s = MAX_TIME"; cases "e = MAX_TIME"; cases "sint s \<le> sint e")
      (simp_all add: NotifyFilterState_def ExecuteStart_def ExecuteStop_def CancelStart_def CancelStop_def Let_def sc_ok_def word_sle_eq)
  ultimately show ?thesis by blast
qed

theorem sc_filter_stops_witness:
  "NotifyFilterState State_Stopped 0 (snd (StartAt (Some 9) 3 (new_CBaseStreamControl undefined))\<lparr>m_FilterState := State_Running, m_pSink := False\<rparr>) = None"
proof -
  let ?c = "snd (StartAt (Some 9) 3 (new_CBaseStreamControl undefined))\<lparr>m_FilterState := State_Running, m_pSink := False\<rparr>"
  have "sc_ok ?c" "m_FilterState ?c = State_Running" "\<not> m_pSink ?c" "m_dwStartCookie ?c = 3"
    by (simp_all add: sc_ok_def StartAt_def new_CBaseStreamControl_def MAX_TIME_def word_sle_eq)
  then show ?thesis using sc_filter_stops [of ?c 0] by simp
qed

end
