(* ===== verification/Ref_Clock.thy ===== *)
theory Ref_Clock
  imports Schedule
begin

text \<open>
  Model of \<open>CBaseReferenceClock\<close> (\<open>src/baseclasses/refclock.h\<close>, \<open>refclock.cpp\<close>) and of \<open>CSystemClock\<close>
  (\<open>sysclock.cpp\<close>): a clock that reads the 32 bit millisecond counter of the system, never lets the time it
  reports go back, and runs a thread that sends the advises of its schedule.

  The answers of the system are arguments: \<open>now\<close> is what \<open>timeGetTime\<close> returns, \<open>tc\<close> the shortest timer
  period when \<open>timeGetDevCaps\<close> succeeds. The calls of \<open>timeBeginPeriod\<close> and \<open>timeEndPeriod\<close> are recorded. An
  operation is \<open>None\<close> when it dereferences NULL.
\<close>

datatype timer_call = timeBeginPeriod u32 | timeEndPeriod u32

record CBaseReferenceClock =
  m_pSchedule :: "CAMSchedule option"
  m_rtPrivateTime :: REFERENCE_TIME
  m_dwPrevSystemTime :: u32
  m_rtLastGotTime :: REFERENCE_TIME
  m_rtNextAdvise :: REFERENCE_TIME
  m_TimerResolution :: u32
  m_bAbort :: bool
  m_hThread :: bool
  timer_calls :: "timer_call list"

definition UNITS :: i64 where "UNITS = 10000000"
definition MILLISECONDS :: i64 where "MILLISECONDS = 1000"

text \<open>The product of two signed 32 bit integers.\<close>

definition Int32x32To64 :: "i32 \<Rightarrow> i32 \<Rightarrow> i64" where
  "Int32x32To64 a b = scast a * scast b"

definition ConvertToMilliseconds :: "REFERENCE_TIME \<Rightarrow> i64" where
  "ConvertToMilliseconds RT = word_of_int (tdiv (sint RT) (tdiv (sint UNITS) (sint MILLISECONDS)))"

definition UINT_MAX :: u32 where "UINT_MAX = 0xFFFFFFFF"
definition INFINITE :: u32 where "INFINITE = 0xFFFFFFFF"

section \<open>Construction\<close>

definition timer_period :: "u32 option \<Rightarrow> u32" where
  "timer_period tc = (case tc of Some wPeriodMin \<Rightarrow> wPeriodMin | None \<Rightarrow> 1)"

text \<open>\<open>pShed\<close> is a schedule of the caller, \<open>new_sched\<close> what \<open>new CAMSchedule\<close> gives; \<open>thread\<close> says whether a thread
  can be created, \<open>garbage\<close> is what \<open>m_rtNextAdvise\<close> holds.\<close>

definition new_CBaseReferenceClock ::
  "CAMSchedule option \<Rightarrow> CAMSchedule option \<Rightarrow> u32 option \<Rightarrow> u32 \<Rightarrow> bool \<Rightarrow> REFERENCE_TIME \<Rightarrow> HRESULT \<Rightarrow> HRESULT \<times> CBaseReferenceClock" where
  "new_CBaseReferenceClock pShed new_sched tc now thread garbage phr =
     (let c = \<lparr>m_pSchedule = (if pShed \<noteq> None then pShed else new_sched), m_rtPrivateTime = garbage,
                m_dwPrevSystemTime = 0, m_rtLastGotTime = 0, m_rtNextAdvise = garbage, m_TimerResolution = 0,
                m_bAbort = False, m_hThread = False, timer_calls = []\<rparr>
      in if m_pSchedule c = None then (E_OUTOFMEMORY, c)
         else (let c = c\<lparr>m_TimerResolution := timer_period tc, timer_calls := [timeBeginPeriod (timer_period tc)],
                         m_dwPrevSystemTime := now,
                         m_rtPrivateTime := word_of_int (tdiv (sint UNITS) (sint MILLISECONDS)) * ucast now\<rparr>
               in if pShed \<noteq> None then (phr, c)
                  else if thread then (phr, c\<lparr>m_hThread := True\<rparr>)
                  else (E_FAIL, c\<lparr>m_pSchedule := None\<rparr>)))"

section \<open>Telling the time\<close>

definition GetPrivateTime :: "u32 \<Rightarrow> CBaseReferenceClock \<Rightarrow> REFERENCE_TIME \<times> CBaseReferenceClock" where
  "GetPrivateTime now c =
     (let c = c\<lparr>m_rtPrivateTime := m_rtPrivateTime c +
                  Int32x32To64 (word_of_int (tdiv (sint UNITS) (sint MILLISECONDS))) (now - m_dwPrevSystemTime c),
                m_dwPrevSystemTime := now\<rparr>
      in (m_rtPrivateTime c, c))"

definition Restart :: "REFERENCE_TIME \<Rightarrow> CBaseReferenceClock \<Rightarrow> CBaseReferenceClock" where
  "Restart rtMinTime c = c\<lparr>m_rtLastGotTime := rtMinTime\<rparr>"

text \<open>The result code, what is stored through \<open>pTime\<close> unless it is NULL, and the clock.\<close>

definition GetTime :: "u32 \<Rightarrow> bool \<Rightarrow> CBaseReferenceClock \<Rightarrow> HRESULT \<times> REFERENCE_TIME option \<times> CBaseReferenceClock" where
  "GetTime now pTime c =
     (if pTime then
        (let (rtNow, c) = GetPrivateTime now c;
             (hr, c) = (if sint rtNow > sint (m_rtLastGotTime c) then (S_OK, c\<lparr>m_rtLastGotTime := rtNow\<rparr>) else (S_FALSE, c))
         in (hr, Some (m_rtLastGotTime c), c))
      else (E_POINTER, None, c))"

definition TriggerThread :: "CBaseReferenceClock \<Rightarrow> CBaseReferenceClock option" where
  "TriggerThread c = do { s \<leftarrow> m_pSchedule c; Some (c\<lparr>m_pSchedule := Some (s\<lparr>m_ev := True\<rparr>)\<rparr>) }"

definition SetTimeDelta :: "REFERENCE_TIME \<Rightarrow> CBaseReferenceClock \<Rightarrow> (HRESULT \<times> CBaseReferenceClock) option" where
  "SetTimeDelta TimeDelta c =
     (let c = c\<lparr>m_rtPrivateTime := m_rtPrivateTime c + TimeDelta\<rparr>
      in if sint TimeDelta > 5000 then do {
           s \<leftarrow> m_pSchedule c;
           c \<leftarrow> (if GetAdviseCount s > 0 then TriggerThread c else Some c);
           Some (NOERROR, c) }
         else Some (NOERROR, c))"

section \<open>Advises\<close>

definition AdviseTime :: "REFERENCE_TIME \<Rightarrow> REFERENCE_TIME \<Rightarrow> nat \<Rightarrow> bool \<Rightarrow> CBaseReferenceClock \<Rightarrow> (HRESULT \<times> u64 \<times> CBaseReferenceClock) option" where
  "AdviseTime baseTime streamTime hEvent pdwAdviseCookie c =
     (if \<not> pdwAdviseCookie then Some (E_POINTER, 0, c)
      else (let lRefTime = baseTime + streamTime
            in if sint lRefTime \<le> 0 \<or> lRefTime = MAX_TIME then Some (E_INVALIDARG, 0, c)
               else do {
                 s \<leftarrow> m_pSchedule c;
                 (cookie, s) \<leftarrow> AddAdvisePacket lRefTime 0 hEvent False s;
                 Some (if cookie \<noteq> 0 then NOERROR else E_OUTOFMEMORY, cookie, c\<lparr>m_pSchedule := Some s\<rparr>) }))"

definition AdvisePeriodic :: "REFERENCE_TIME \<Rightarrow> REFERENCE_TIME \<Rightarrow> nat \<Rightarrow> bool \<Rightarrow> CBaseReferenceClock \<Rightarrow> (HRESULT \<times> u64 \<times> CBaseReferenceClock) option" where
  "AdvisePeriodic StartTime PeriodTime hSemaphore pdwAdviseCookie c =
     (if \<not> pdwAdviseCookie then Some (E_POINTER, 0, c)
      else if 0 < sint StartTime \<and> 0 < sint PeriodTime \<and> StartTime \<noteq> MAX_TIME
      then do {
        s \<leftarrow> m_pSchedule c;
        (cookie, s) \<leftarrow> AddAdvisePacket StartTime PeriodTime hSemaphore True s;
        Some (if cookie \<noteq> 0 then NOERROR else E_OUTOFMEMORY, cookie, c\<lparr>m_pSchedule := Some s\<rparr>) }
      else Some (E_INVALIDARG, 0, c))"

definition clock_Unadvise :: "u64 \<Rightarrow> CBaseReferenceClock \<Rightarrow> (HRESULT \<times> CBaseReferenceClock) option" where
  "clock_Unadvise dwAdviseCookie c = do {
     s \<leftarrow> m_pSchedule c; (hr, s) \<leftarrow> Unadvise dwAdviseCookie s; Some (hr, c\<lparr>m_pSchedule := Some s\<rparr>) }"

section \<open>The advise thread\<close>

text \<open>One turn of the loop of \<open>AdviseThread\<close>, from the return of \<open>WaitForSingleObject\<close> (which has reset the
  auto-reset event if it was signalled) to the next wait: the timeout of that wait, or \<open>None\<close> when the
  loop is left.\<close>

definition AdviseThread_turn :: "u32 \<Rightarrow> CBaseReferenceClock \<Rightarrow> (u32 option \<times> CBaseReferenceClock) option" where
  "AdviseThread_turn now c = do {
     s \<leftarrow> m_pSchedule c;
     c \<leftarrow> Some (c\<lparr>m_pSchedule := Some (s\<lparr>m_ev := False\<rparr>)\<rparr>);
     if m_bAbort c then Some (None, c)
     else do {
       (rtNow, c) \<leftarrow> Some (GetPrivateTime now c);
       (rtNext, s) \<leftarrow> Advise (10000 + rtNow) (s\<lparr>m_ev := False\<rparr>);
       c \<leftarrow> Some (c\<lparr>m_pSchedule := Some s, m_rtNextAdvise := rtNext\<rparr>);
       llWait \<leftarrow> Some (m_rtNextAdvise c - rtNow);
       llWait \<leftarrow> Some (ConvertToMilliseconds llWait);
       Some (Some (if sint llWait > uint UINT_MAX then UINT_MAX else ucast llWait), c) } }"

section \<open>Timer resolution\<close>

definition SetDefaultTimerResolution :: "u32 option \<Rightarrow> REFERENCE_TIME \<Rightarrow> CBaseReferenceClock \<Rightarrow> HRESULT \<times> CBaseReferenceClock" where
  "SetDefaultTimerResolution tc timerResolution c =
     (if timerResolution = 0 then
        (S_OK, if m_TimerResolution c \<noteq> 0
               then c\<lparr>timer_calls := timer_calls c @ [timeEndPeriod (m_TimerResolution c)], m_TimerResolution := 0\<rparr> else c)
      else (let dwResolution = max (timer_period tc) (word_of_int (tdiv (sint timerResolution) 10000))
            in (S_OK, if dwResolution \<noteq> m_TimerResolution c
                      then c\<lparr>timer_calls := timer_calls c @ [timeEndPeriod (m_TimerResolution c), timeBeginPeriod dwResolution],
                             m_TimerResolution := dwResolution\<rparr> else c)))"

definition GetDefaultTimerResolution :: "bool \<Rightarrow> CBaseReferenceClock \<Rightarrow> HRESULT \<times> REFERENCE_TIME option" where
  "GetDefaultTimerResolution pTimerResolution c =
     (if \<not> pTimerResolution then (E_POINTER, None) else (S_OK, Some (ucast (m_TimerResolution c * 10000))))"

text \<open>The destructor, which waits for the thread to leave its loop before it deletes the schedule. It
  gives the clock back for its record of timer calls.\<close>

definition CBaseReferenceClock_destructor :: "CBaseReferenceClock \<Rightarrow> CBaseReferenceClock option" where
  "CBaseReferenceClock_destructor c = do {
     c \<leftarrow> Some (if m_TimerResolution c \<noteq> 0
                 then c\<lparr>timer_calls := timer_calls c @ [timeEndPeriod (m_TimerResolution c)]\<rparr> else c);
     if m_hThread c then do {
       c \<leftarrow> TriggerThread (c\<lparr>m_bAbort := True\<rparr>);
       s \<leftarrow> m_pSchedule c;
       s \<leftarrow> CAMSchedule_destructor s;
       Some (c\<lparr>m_hThread := False, m_pSchedule := Some s\<rparr>) }
     else Some c }"

definition SetClockDelta :: "REFERENCE_TIME \<Rightarrow> CBaseReferenceClock \<Rightarrow> (HRESULT \<times> CBaseReferenceClock) option" where
  "SetClockDelta rtDelta c = SetTimeDelta rtDelta c"

end
