(* ===== verification/Schedule_Props.thy ===== *)
theory Schedule_Props
  imports Schedule
begin

text \<open>
  The linked list of \<open>CAMSchedule\<close> refines a list of advises ordered by time. The abstraction relates
  the memory to the packets between \<open>head\<close> and \<open>z\<close> and to those in the cache; each method is shown to run
  without a bad dereference, to end, and to have the effect of the corresponding function on lists.
\<close>

section \<open>Singly linked segments\<close>

type_synonym seg = "(packet_ref \<times> CAdvisePacket) list"
type_synonym packet_map = "packet_ref \<Rightarrow> CAdvisePacket option"

fun pfirst :: "seg \<Rightarrow> packet_ptr \<Rightarrow> packet_ptr" where
  "pfirst [] e = e"
| "pfirst ((a, k) # ps) e = Some a"

text \<open>The link stored with an element of a segment is that of the memory, not of the list.\<close>

fun chain :: "packet_map \<Rightarrow> seg \<Rightarrow> packet_ptr \<Rightarrow> bool" where
  "chain c [] e = True"
| "chain c ((a, k) # ps) e = (c a = Some (k\<lparr>m_next := pfirst ps e\<rparr>) \<and> chain c ps e)"

abbreviation refs_of :: "seg \<Rightarrow> packet_ref set" where
  "refs_of ps \<equiv> fst ` set ps"

lemma pfirst_append [simp]: "pfirst (ps @ qs) e = pfirst ps (pfirst qs e)"
  by (cases ps) auto

lemma chain_append [simp]: "chain c (ps @ qs) e \<longleftrightarrow> chain c ps (pfirst qs e) \<and> chain c qs e"
  by (induction ps) auto

lemma chain_frame [simp]: "a \<notin> refs_of ps \<Longrightarrow> chain (c(a := v)) ps e = chain c ps e"
  by (induction ps) auto

lemma m_next_update_idem [simp]: "k\<lparr>m_next := p, m_next := q\<rparr> = k\<lparr>m_next := q\<rparr>"
  by (cases k) simp

text \<open>A nonempty segment ends with an element, and the memory tells where it points.\<close>

lemma chain_last:
  "chain c (xs @ [(a, k)]) e \<Longrightarrow> a \<notin> refs_of xs \<Longrightarrow> chain (c(a \<mapsto> k\<lparr>m_next := n\<rparr>)) (xs @ [(a, k)]) n"
  by simp

lemmas packet_ops = packet_at_def write_packet_def set_next_def next_of_def IsZ_def RemoveNext_def
  InsertAfter_def DeleteNext_def packet_Next_def delete_packet_def

lemma InsertAfter_chain:
  assumes "chain (packets s) (xs @ (a, k) # ys) e" and "packets s b = Some kb" and "a \<noteq> b"
  shows "InsertAfter (Some a) (Some b) s =
    Some (s\<lparr>packets := (packets s)(b \<mapsto> kb\<lparr>m_next := pfirst ys e\<rparr>, a \<mapsto> k\<lparr>m_next := Some b\<rparr>)\<rparr>)"
  using assms by (auto simp: packet_ops)

lemma RemoveNext_chain:
  assumes "chain (packets s) (xs @ (a, k) # (b, kb) # ys) e"
  shows "RemoveNext (Some a) s = Some (Some b, s\<lparr>packets := (packets s)(a \<mapsto> k\<lparr>m_next := pfirst ys e\<rparr>)\<rparr>)"
  using assms by (auto simp: packet_ops)

section \<open>Advises\<close>

definition view :: "CAdvisePacket \<Rightarrow> advise" where
  "view k = \<lparr>cookie = m_dwAdviseCookie k, due = sint (m_rtEventTime k), period = sint (m_rtPeriod k),
     notify = m_hNotify k, periodic = m_bPeriodic k\<rparr>"

lemma view_simps [simp]:
  "cookie (view k) = m_dwAdviseCookie k" "due (view k) = sint (m_rtEventTime k)"
  "period (view k) = sint (m_rtPeriod k)" "notify (view k) = m_hNotify k" "periodic (view k) = m_bPeriodic k"
  "view (k\<lparr>m_next := n\<rparr>) = view k"
  by (simp_all add: view_def)

section \<open>The invariant\<close>

text \<open>The memory holds the list \<open>L\<close> from \<open>head\<close> to \<open>z\<close>, the cached packets \<open>cs\<close> and the packets \<open>ls\<close> that
  an operation has in hand, and nothing else.\<close>

definition layout :: "CAMSchedule \<Rightarrow> seg \<Rightarrow> seg \<Rightarrow> packet_ref list \<Rightarrow> bool" where
  "layout s L cs ls \<longleftrightarrow>
     chain (packets s) L (Some Z) \<and> pfirst L None = Some Head \<and> chain (packets s) cs None \<and>
     (\<exists>zk. packets s Z = Some zk \<and> m_next zk = None \<and> m_rtEventTime zk = MAX_TIME) \<and>
     m_pAdviseCache s = pfirst cs None \<and>
     distinct (Z # map fst L @ map fst cs @ ls @ map fst (free_packets s)) \<and>
     dom (packets s) = {Z} \<union> refs_of L \<union> refs_of cs \<union> set ls \<and>
     m_dwCacheCount s = of_nat (length cs) \<and> length cs \<le> 5"

definition represents :: "CAMSchedule \<Rightarrow> advise list \<Rightarrow> bool" where
  "represents s as \<longleftrightarrow>
     (\<exists>hk ps cs. layout s ((Head, hk) # ps) cs [] \<and> as = map (view \<circ> snd) ps) \<and>
     m_dwAdviseCount s = of_nat (length as) \<and> agenda (m_dwNextCookie s) as"

lemma representsI:
  "layout s ((Head, hk) # ps) cs [] \<Longrightarrow> as = map (view \<circ> snd) ps \<Longrightarrow> m_dwAdviseCount s = of_nat (length as) \<Longrightarrow>
   agenda (m_dwNextCookie s) as \<Longrightarrow> represents s as"
  unfolding represents_def by blast

text \<open>The memory determines the advises.\<close>

lemma chain_unique:
  "chain c ps (Some z) \<Longrightarrow> chain c qs (Some z) \<Longrightarrow> pfirst ps (Some z) = pfirst qs (Some z) \<Longrightarrow>
   z \<notin> refs_of ps \<Longrightarrow> z \<notin> refs_of qs \<Longrightarrow> map (view \<circ> snd) ps = map (view \<circ> snd) qs"
proof (induction ps arbitrary: qs)
  case Nil
  then show ?case by (cases qs) auto
next
  case (Cons p ps)
  obtain a k where p: "p = (a, k)" by force
  obtain k' qs' where qs: "qs = (a, k') # qs'" using Cons.prems p by (cases qs) auto
  have e: "k\<lparr>m_next := pfirst ps (Some z)\<rparr> = k'\<lparr>m_next := pfirst qs' (Some z)\<rparr>" using Cons.prems p qs by simp
  then have "view k = view k'" by (metis view_simps(6))
  moreover have "pfirst ps (Some z) = pfirst qs' (Some z)" using arg_cong [OF e, of m_next] by simp
  ultimately show ?case using Cons.IH [of qs'] Cons.prems p qs by simp
qed

lemma represents_unique:
  assumes "represents s as" and "represents s bs"
  shows "as = bs"
proof -
  have read: "\<exists>hk ps. as = map (view \<circ> snd) ps \<and> chain (packets s) ((Head, hk) # ps) (Some Z) \<and> Z \<notin> refs_of ((Head, hk) # ps)"
    if "represents s as" for as
    using that by (auto simp: represents_def layout_def)
  obtain hk ps where p: "as = map (view \<circ> snd) ps" "chain (packets s) ((Head, hk) # ps) (Some Z)" "Z \<notin> refs_of ((Head, hk) # ps)"
    using read [OF assms(1)] by blast
  obtain hk' qs where q: "bs = map (view \<circ> snd) qs" "chain (packets s) ((Head, hk') # qs) (Some Z)" "Z \<notin> refs_of ((Head, hk') # qs)"
    using read [OF assms(2)] by blast
  show ?thesis using chain_unique [OF p(2) q(2) _ p(3) q(3)] p(1) q(1) by simp
qed

text \<open>The packets the schedule owns or can allocate.\<close>

definition pool :: "CAMSchedule \<Rightarrow> packet_ref set" where
  "pool s = dom (packets s) \<union> refs_of (free_packets s)"

definition room :: "CAMSchedule \<Rightarrow> bool" where
  "room s \<longleftrightarrow> m_pAdviseCache s \<noteq> None \<or> free_packets s \<noteq> []"

lemma sint_MAX_TIME [simp]: "sint MAX_TIME = max_time"
  by (simp add: MAX_TIME_def max_time_def)

lemma le_max_time [simp]: "sint (t :: i64) \<le> max_time"
  using sint_range64 [of t] by (simp add: max_time_def)


text \<open>What the operations on the memory leave alone.\<close>

definition same_rest :: "CAMSchedule \<Rightarrow> CAMSchedule \<Rightarrow> bool" where
  "same_rest s s' \<longleftrightarrow> m_dwNextCookie s' = m_dwNextCookie s \<and> m_dwAdviseCount s' = m_dwAdviseCount s \<and>
     m_ev s' = m_ev s \<and> signals s' = signals s \<and> pool s' = pool s"

lemma layout_rest [simp]:
  "layout (s\<lparr>m_dwAdviseCount := n\<rparr>) L cs ls = layout s L cs ls"
  "layout (s\<lparr>m_ev := e\<rparr>) L cs ls = layout s L cs ls"
  "layout (s\<lparr>m_dwNextCookie := c\<rparr>) L cs ls = layout s L cs ls"
  "layout (s\<lparr>signals := ss\<rparr>) L cs ls = layout s L cs ls"
  by (simp_all add: layout_def)

lemma pool_rest [simp]:
  "pool (s\<lparr>m_dwAdviseCount := n\<rparr>) = pool s" "pool (s\<lparr>m_ev := e\<rparr>) = pool s"
  "pool (s\<lparr>m_dwNextCookie := c\<rparr>) = pool s" "pool (s\<lparr>signals := ss\<rparr>) = pool s"
  by (simp_all add: pool_def)

section \<open>Operations on the memory\<close>

lemma layout_get:
  assumes "layout s L cs []"
  shows "if room s then \<exists>b cs' s'. get_packet s = Some (Some b, s') \<and> layout s' L cs' [b] \<and> same_rest s s'
    else get_packet s = Some (None, s)"
proof (cases cs)
  case Nil
  show ?thesis
  proof (cases "free_packets s")
    case Nil
    then show ?thesis using assms \<open>cs = []\<close> by (simp add: layout_def room_def get_packet_def new_packet_def)
  next
    case (Cons f fs)
    obtain b kb where f: "f = (b, kb)" by (cases f)
    let ?s = "s\<lparr>packets := (packets s)(b \<mapsto> kb), free_packets := fs\<rparr>"
    have "get_packet s = Some (Some b, ?s)" "room s"
      using assms Cons \<open>cs = []\<close> f by (simp_all add: layout_def room_def get_packet_def new_packet_def)
    moreover have "layout ?s L [] [b]" "same_rest s ?s"
      using assms Cons \<open>cs = []\<close> f by (simp_all add: layout_def same_rest_def pool_def)
    ultimately show ?thesis by auto
  qed
next
  case (Cons c cs')
  obtain b kb where c: "c = (b, kb)" by (cases c)
  let ?s = "s\<lparr>m_pAdviseCache := pfirst cs' None, m_dwCacheCount := m_dwCacheCount s - 1\<rparr>"
  have "get_packet s = Some (Some b, ?s)" "room s"
    using assms Cons c by (auto simp: layout_def get_packet_def room_def packet_ops)
  moreover have "layout ?s L cs' [b]" "same_rest s ?s"
    using assms Cons c by (auto simp: layout_def same_rest_def pool_def)
  ultimately show ?thesis by auto
qed

lemma layout_write:
  assumes "layout s L cs [b]"
  shows "\<exists>k. packets s b = Some k \<and> write_packet (Some b) f s = Some (s\<lparr>packets := (packets s)(b \<mapsto> f k)\<rparr>) \<and>
    layout (s\<lparr>packets := (packets s)(b \<mapsto> f k)\<rparr>) L cs [b] \<and> same_rest s (s\<lparr>packets := (packets s)(b \<mapsto> f k)\<rparr>)"
proof -
  from assms have "b \<in> dom (packets s)" by (auto simp: layout_def)
  then obtain k where "packets s b = Some k" by auto
  then show ?thesis using assms by (auto simp: layout_def packet_ops same_rest_def pool_def)
qed

lemma layout_link:
  assumes "layout s (xs @ (a, k) # ys) cs [b]" and "packets s b = Some kb"
  shows "\<exists>s'. InsertAfter (Some a) (Some b) s = Some s' \<and> layout s' (xs @ (a, k) # (b, kb) # ys) cs [] \<and> same_rest s s'"
proof -
  have "a \<noteq> b" "chain (packets s) (xs @ (a, k) # ys) (Some Z)" using assms by (auto simp: layout_def)
  from InsertAfter_chain [OF this(2) assms(2) this(1)] show ?thesis
    using assms by (auto simp: layout_def same_rest_def pool_def)
qed

lemma layout_unlink:
  assumes "layout s (xs @ (a, k) # (b, kb) # ys) cs []"
  shows "\<exists>s'. RemoveNext (Some a) s = Some (Some b, s') \<and> layout s' (xs @ (a, k) # ys) cs [b] \<and> same_rest s s'"
proof -
  have "chain (packets s) (xs @ (a, k) # (b, kb) # ys) (Some Z)" using assms by (auto simp: layout_def)
  from RemoveNext_chain [OF this] show ?thesis
    using assms by (auto simp: layout_def same_rest_def pool_def)
qed

lemma layout_Delete:
  assumes "layout s L cs [b]"
  shows "\<exists>s' cs'. Delete (Some b) s = Some s' \<and> layout s' L cs' [] \<and> same_rest s s'"
proof -
  from assms have "b \<in> dom (packets s)" by (auto simp: layout_def)
  then obtain kb where b: "packets s b = Some kb" by auto
  show ?thesis
  proof (cases "length cs = 5")
    case True
    let ?s = "s\<lparr>packets := (packets s)(b := None), free_packets := (b, kb) # free_packets s\<rparr>"
    have "Delete (Some b) s = Some ?s" using assms True b by (simp add: Delete_def layout_def packet_ops dwCacheMax_def)
    moreover have "layout ?s L cs []" "same_rest s ?s" using assms b by (auto simp: layout_def same_rest_def pool_def)
    ultimately show ?thesis by blast
  next
    case False
    let ?s = "s\<lparr>packets := (packets s)(b \<mapsto> kb\<lparr>m_next := pfirst cs None\<rparr>), m_pAdviseCache := Some b,
      m_dwCacheCount := m_dwCacheCount s + 1\<rparr>"
    have l: "length cs < 5" using False assms by (simp add: layout_def)
    then have "m_dwCacheCount s < dwCacheMax"
      using assms by (simp add: layout_def dwCacheMax_def word_less_nat_alt unat_of_nat)
    then have "Delete (Some b) s = Some ?s" using assms b by (simp add: Delete_def layout_def packet_ops)
    moreover have "layout ?s L ((b, kb) # cs) []" "same_rest s ?s"
      using assms b l by (auto simp: layout_def same_rest_def pool_def)
    ultimately show ?thesis by blast
  qed
qed

section \<open>Walking the list\<close>

abbreviation time_of :: "packet_ref \<times> CAdvisePacket \<Rightarrow> int" where
  "time_of q \<equiv> sint (m_rtEventTime (snd q))"

lemma add_loop_walk:
  assumes "packets s Z = Some zk" "m_rtEventTime zk = MAX_TIME"
  shows "chain (packets s) ((p, k) # ys) (Some Z) \<Longrightarrow>
    add_loop s t (Some p) = Some (Some (fst (last ((p, k) # takeWhile (\<lambda>q. time_of q < sint t) ys))))"
proof (induction ys arbitrary: p k)
  case Nil
  then show ?case using assms by (subst add_loop.simps) (simp add: packet_ops)
next
  case (Cons y ys)
  obtain a ka where y: "y = (a, ka)" by (cases y)
  from Cons.prems y have "chain (packets s) ((a, ka) # ys) (Some Z)" by simp
  from Cons.IH [OF this] Cons.prems y show ?case by (subst add_loop.simps) (auto simp: packet_ops)
qed

lemma shunt_loop_walk:
  assumes "packets s Z = Some zk" "m_rtEventTime zk = MAX_TIME" "sint t < max_time"
  shows "chain (packets s) ((p, k) # ys) (Some Z) \<Longrightarrow>
    shunt_loop s t (Some p) = Some (Some (fst (last ((p, k) # takeWhile (\<lambda>q. time_of q \<le> sint t) ys))),
      pfirst (dropWhile (\<lambda>q. time_of q \<le> sint t) ys) (Some Z))"
proof (induction ys arbitrary: p k)
  case Nil
  then show ?case using assms by (subst shunt_loop.simps) (simp add: packet_ops)
next
  case (Cons y ys)
  obtain a ka where y: "y = (a, ka)" by (cases y)
  from Cons.prems y have "chain (packets s) ((a, ka) # ys) (Some Z)" by simp
  from Cons.IH [OF this] Cons.prems y show ?case by (subst shunt_loop.simps) (auto simp: packet_ops)
qed

text \<open>The list with its head, split behind the element where a walk has stopped.\<close>

lemma split_walk:
  "\<exists>xs a k. (p, hk) # ps = xs @ (a, k) # dropWhile P ps \<and> (a, k) = last ((p, hk) # takeWhile P ps) \<and>
     (p, hk) # takeWhile P ps = xs @ [(a, k)]"
proof -
  let ?w = "(p, hk) # takeWhile P ps"
  obtain a k where "last ?w = (a, k)" by (cases "last ?w")
  then have "?w = butlast ?w @ [(a, k)]" by (metis append_butlast_last_id list.distinct(1))
  moreover have "(p, hk) # ps = ?w @ dropWhile P ps" by simp
  ultimately have "(p, hk) # ps = butlast ?w @ (a, k) # dropWhile P ps"
    by (metis append.assoc append_Cons append_Nil)
  then show ?thesis using \<open>last ?w = (a, k)\<close> \<open>?w = butlast ?w @ [(a, k)]\<close> by metis
qed

lemma layout_Z:
  "layout s L cs ls \<Longrightarrow> \<exists>zk. packets s Z = Some zk \<and> m_next zk = None \<and> m_rtEventTime zk = MAX_TIME"
  by (simp add: layout_def)

lemma layout_rewrite:
  assumes "layout s (xs @ (a, k) # ys) cs []" and "\<And>n k. f (k\<lparr>m_next := n\<rparr>) = f k\<lparr>m_next := n\<rparr>"
  shows "\<exists>s'. write_packet (Some a) f s = Some s' \<and> layout s' (xs @ (a, f k) # ys) cs [] \<and> same_rest s s'"
proof -
  let ?s = "s\<lparr>packets := (packets s)(a \<mapsto> f k\<lparr>m_next := pfirst ys (Some Z)\<rparr>)\<rparr>"
  have "write_packet (Some a) f s = Some ?s" using assms by (simp add: layout_def packet_ops)
  moreover have "layout ?s (xs @ (a, f k) # ys) cs []" "same_rest s ?s"
    using assms by (auto simp: layout_def same_rest_def pool_def)
  ultimately show ?thesis by blast
qed

lemma layout_shunt:
  assumes l: "layout s ((Head, hk) # (b, kb) # ps) cs []" and t: "sint (m_rtEventTime kb) < max_time"
  shows "\<exists>s'. ShuntHead s = Some s' \<and> same_rest s s' \<and>
    layout s' ((Head, hk) # takeWhile (\<lambda>q. time_of q \<le> sint (m_rtEventTime kb)) ps @ (b, kb) #
      dropWhile (\<lambda>q. time_of q \<le> sint (m_rtEventTime kb)) ps) cs []"
proof -
  let ?P = "\<lambda>q. time_of q \<le> sint (m_rtEventTime kb)" and ?t = "m_rtEventTime kb"
  let ?tw = "takeWhile ?P ps" and ?dw = "dropWhile ?P ps"
  obtain zk where z: "packets s Z = Some zk" "m_rtEventTime zk = MAX_TIME" using layout_Z [OF l] by auto
  have c: "chain (packets s) ((Head, hk) # (b, kb) # ps) (Some Z)" using l by (simp add: layout_def)
  have w: "shunt_loop s ?t (Some Head) = Some (Some (fst (last ((b, kb) # ?tw))), pfirst ?dw (Some Z))"
    using shunt_loop_walk [OF z _ c, of ?t] t by simp
  have n: "next_of s (Some Head) = Some (Some b)" "next_of s (Some b) = Some (pfirst ps (Some Z))"
    "packet_at s (Some b) = Some (kb\<lparr>m_next := pfirst ps (Some Z)\<rparr>)" using c by (simp_all add: packet_ops)
  show ?thesis
  proof (cases "?tw = []")
    case True
    then have "?dw = ps" by (metis append_Nil takeWhile_dropWhile_id)
    with True show ?thesis using l w n by (auto simp: ShuntHead_def same_rest_def)
  next
    case False
    then obtain xs a k where tw: "?tw = xs @ [(a, k)]" by (metis rev_exhaust surj_pair)
    then have ps: "ps = xs @ (a, k) # ?dw" by (metis append.assoc append_Cons append_Nil takeWhile_dropWhile_id)
    define dw where "dw = ?dw"
    have l': "layout s ((Head, hk) # (b, kb) # xs @ (a, k) # dw) cs []" using l ps dw_def by simp
    let ?s = "s\<lparr>packets := (packets s)(Head \<mapsto> hk\<lparr>m_next := pfirst ps (Some Z)\<rparr>,
      a \<mapsto> k\<lparr>m_next := Some b\<rparr>, b \<mapsto> kb\<lparr>m_next := pfirst dw (Some Z)\<rparr>)\<rparr>"
    have "Head \<noteq> b" "a \<noteq> b" "a \<noteq> Head" using l' by (auto simp: layout_def)
    moreover have "packets s a = Some (k\<lparr>m_next := pfirst dw (Some Z)\<rparr>)" using l' by (simp add: layout_def)
    moreover have "shunt_loop s ?t (Some Head) = Some (Some a, pfirst dw (Some Z))" using w tw by (simp add: dw_def)
    ultimately have "ShuntHead s = Some ?s" using n c by (simp add: ShuntHead_def) (simp add: packet_ops)
    moreover have "layout ?s ((Head, hk) # (xs @ [(a, k)]) @ (b, kb) # dw) cs []" "same_rest s ?s"
      using l' ps by (auto simp: layout_def same_rest_def pool_def dw_def [symmetric])
    ultimately show ?thesis by (auto simp: tw dw_def)
  qed
qed

section \<open>Adding and cancelling\<close>

lemma view_takeWhile:
  "map (view \<circ> snd) (takeWhile (\<lambda>q. time_of q < t) ps) = takeWhile (\<lambda>b. due b < t) (map (view \<circ> snd) ps)"
  "map (view \<circ> snd) (dropWhile (\<lambda>q. time_of q < t) ps) = dropWhile (\<lambda>b. due b < t) (map (view \<circ> snd) ps)"
  "map (view \<circ> snd) (takeWhile (\<lambda>q. time_of q \<le> t) ps) = takeWhile (\<lambda>b. due b \<le> t) (map (view \<circ> snd) ps)"
  "map (view \<circ> snd) (dropWhile (\<lambda>q. time_of q \<le> t) ps) = dropWhile (\<lambda>b. due b \<le> t) (map (view \<circ> snd) ps)"
  by (simp_all add: takeWhile_map dropWhile_map comp_def)

lemma layout_add:
  assumes l: "layout s ((Head, hk) # ps) cs [b]" and b: "packets s b = Some k"
  defines "k' \<equiv> k\<lparr>m_dwAdviseCookie := m_dwNextCookie s + 1\<rparr>"
  shows "\<exists>s'. add_packet (Some b) s = Some (m_dwNextCookie s + 1, s') \<and>
    layout s' ((Head, hk) # takeWhile (\<lambda>q. time_of q < time_of (b, k)) ps @ (b, k') #
      dropWhile (\<lambda>q. time_of q < time_of (b, k)) ps) cs [] \<and>
    m_dwNextCookie s' = m_dwNextCookie s + 1 \<and> m_dwAdviseCount s' = m_dwAdviseCount s + 1 \<and>
    signals s' = signals s \<and> pool s' = pool s \<and>
    m_ev s' = (m_ev s \<or> takeWhile (\<lambda>q. time_of q < time_of (b, k)) ps = [])"
proof -
  let ?P = "\<lambda>q. time_of q < sint (m_rtEventTime k)"
  let ?s0 = "s\<lparr>m_dwNextCookie := m_dwNextCookie s + 1\<rparr>"
  let ?s1 = "?s0\<lparr>packets := (packets s)(b \<mapsto> k')\<rparr>"
  have l1: "layout ?s1 ((Head, hk) # ps) cs [b]" using l by (auto simp: layout_def)
  obtain xs a ka where split: "(Head, hk) # ps = xs @ (a, ka) # dropWhile ?P ps"
    "(a, ka) = last ((Head, hk) # takeWhile ?P ps)" "(Head, hk) # takeWhile ?P ps = xs @ [(a, ka)]"
    using split_walk [of Head hk ps ?P] by blast
  obtain zk where z: "packets ?s1 Z = Some zk" "m_rtEventTime zk = MAX_TIME" using layout_Z [OF l1] by auto
  have "chain (packets ?s1) ((Head, hk) # ps) (Some Z)" using l1 unfolding layout_def by blast
  from add_loop_walk [OF z this, of "m_rtEventTime k"] split(2)
  have w: "add_loop ?s1 (m_rtEventTime k) (Some Head) = Some (Some a)" by (metis fst_conv)
  obtain s2 where s2: "InsertAfter (Some a) (Some b) ?s1 = Some s2"
    "layout s2 (xs @ (a, ka) # (b, k') # dropWhile ?P ps) cs []" "same_rest ?s1 s2"
    using layout_link [of ?s1 xs a ka "dropWhile ?P ps" cs b k'] l1 split(1) by auto
  have "a = Head \<longleftrightarrow> takeWhile ?P ps = []"
    using split(2) l by (auto simp: layout_def split: if_splits dest!: last_in_set set_takeWhileD)
      (metis fst_conv image_eqI last_in_set set_takeWhileD)
  moreover have "(Head, hk) # takeWhile ?P ps @ (b, k') # dropWhile ?P ps = xs @ (a, ka) # (b, k') # dropWhile ?P ps"
    using split(3) by (metis append.assoc append_Cons append_Nil)
  then have "layout s2 ((Head, hk) # takeWhile ?P ps @ (b, k') # dropWhile ?P ps) cs []" by (simp only: s2(2))
  moreover have "pool ?s1 = pool s" using b by (auto simp: pool_def)
  moreover have "add_packet (Some b) s = Some (m_dwNextCookie s + 1,
      (if a = Head then s2\<lparr>m_dwAdviseCount := m_dwAdviseCount s2 + 1, m_ev := True\<rparr>
       else s2\<lparr>m_dwAdviseCount := m_dwAdviseCount s2 + 1\<rparr>))"
    using w s2(1) b by (simp add: add_packet_def k'_def write_packet_def packet_at_def)
  ultimately show ?thesis using s2(3) by (auto simp: same_rest_def)
qed

lemma AddAdvisePacket_refines:
  assumes r: "represents s as" and t: "sint t < max_time" and n: "m_dwNextCookie s \<noteq> - 1"
    and a_def: "a = new_advise (m_dwNextCookie s + 1) t p h b"
  shows "if room s then
      (\<exists>s'. AddAdvisePacket t p h b s = Some (m_dwNextCookie s + 1, s') \<and> represents s' (insert_new a as) \<and>
         m_dwNextCookie s' = m_dwNextCookie s + 1 \<and> signals s' = signals s \<and> pool s' = pool s \<and>
         m_ev s' = (m_ev s \<or> as = [] \<or> due a \<le> due (hd as)))
    else AddAdvisePacket t p h b s = Some (0, s)"
proof -
  from r obtain hk ps cs where l: "layout s ((Head, hk) # ps) cs []" and as: "as = map (view \<circ> snd) ps"
    and ag: "agenda (m_dwNextCookie s) as" and cnt: "m_dwAdviseCount s = of_nat (length as)"
    by (auto simp: represents_def)
  show ?thesis
  proof (cases "room s")
    case False
    then show ?thesis using layout_get [OF l] by (simp add: AddAdvisePacket_def)
  next
    case True
    let ?f = "\<lambda>k. k\<lparr>m_rtEventTime := t, m_rtPeriod := p, m_hNotify := h, m_bPeriodic := b\<rparr>"
    obtain x cs1 s1 where 1: "get_packet s = Some (Some x, s1)" "layout s1 ((Head, hk) # ps) cs1 [x]" "same_rest s s1"
      using layout_get [OF l] True by auto
    obtain k where k: "write_packet (Some x) ?f s1 = Some (s1\<lparr>packets := (packets s1)(x \<mapsto> ?f k)\<rparr>)"
      and l2: "layout (s1\<lparr>packets := (packets s1)(x \<mapsto> ?f k)\<rparr>) ((Head, hk) # ps) cs1 [x]"
      and f2: "same_rest s1 (s1\<lparr>packets := (packets s1)(x \<mapsto> ?f k)\<rparr>)" using layout_write [OF 1(2), of ?f] by blast
    obtain s' where s': "add_packet (Some x) (s1\<lparr>packets := (packets s1)(x \<mapsto> ?f k)\<rparr>) = Some (m_dwNextCookie s + 1, s')"
      "layout s' ((Head, hk) # takeWhile (\<lambda>q. time_of q < sint t) ps @ (x, ?f k\<lparr>m_dwAdviseCookie := m_dwNextCookie s + 1\<rparr>) #
        dropWhile (\<lambda>q. time_of q < sint t) ps) cs1 []"
      "m_dwNextCookie s' = m_dwNextCookie s + 1" "m_dwAdviseCount s' = m_dwAdviseCount s + 1"
      "signals s' = signals s" "pool s' = pool s" "m_ev s' = (m_ev s \<or> takeWhile (\<lambda>q. time_of q < sint t) ps = [])"
      using layout_add [OF l2, of "?f k"] 1(3) f2 by (auto simp: same_rest_def)
    have v: "view (?f k\<lparr>m_dwAdviseCookie := m_dwNextCookie s + 1\<rparr>) = a" and d: "due a = sint t"
      by (simp_all add: view_def a_def new_advise_def)
    have "takeWhile (\<lambda>q. time_of q < sint t) ps = [] \<longleftrightarrow> takeWhile (\<lambda>c. due c < due a) as = []"
      by (simp add: as d view_takeWhile(1) [symmetric])
    then have e: "m_ev s' = (m_ev s \<or> as = [] \<or> due a \<le> due (hd as))" using s'(7) by (simp add: insert_new_first)
    have "insert_new a as = map (view \<circ> snd) (takeWhile (\<lambda>q. time_of q < sint t) ps @
        (x, ?f k\<lparr>m_dwAdviseCookie := m_dwNextCookie s + 1\<rparr>) # dropWhile (\<lambda>q. time_of q < sint t) ps)"
      using v by (simp add: insert_new_def as d view_takeWhile)
    moreover have "agenda (m_dwNextCookie s + 1) (insert_new a as)"
      using agenda_insert_new [OF ag _ _ n] t by (simp add: a_def new_advise_def)
    moreover have "m_dwAdviseCount s' = of_nat (length (insert_new a as))" using s'(4) cnt by simp
    ultimately have "represents s' (insert_new a as)" using representsI [OF s'(2)] s'(3) by metis
    then show ?thesis using True 1(1) k s' e by (simp add: AddAdvisePacket_def)
  qed
qed

text \<open>The walk of \<open>Unadvise\<close>: it stops behind the first packet with the cookie.\<close>

lemma unadvise_walk:
  assumes "layout s (xs @ (p, k) # ys) cs []"
  shows "if \<exists>q \<in> set ys. m_dwAdviseCookie (snd q) = c then
      (\<exists>s' cs' us q vs. ys = us @ q # vs \<and> m_dwAdviseCookie (snd q) = c \<and> (\<forall>u \<in> set us. m_dwAdviseCookie (snd u) \<noteq> c) \<and>
         unadvise_loop c (Some p) s = Some (S_OK, s'\<lparr>m_dwAdviseCount := m_dwAdviseCount s - 1\<rparr>) \<and>
         layout s' (xs @ (p, k) # us @ vs) cs' [] \<and> same_rest s s')
    else unadvise_loop c (Some p) s = Some (S_FALSE, s)"
  using assms
proof (induction ys arbitrary: xs p k)
  case Nil
  then show ?case using layout_Z [OF Nil] by (subst unadvise_loop.simps) (auto simp: layout_def packet_ops)
next
  case (Cons y ys)
  obtain b kb where y: "y = (b, kb)" by (cases y)
  have "chain (packets s) (xs @ (p, k) # (b, kb) # ys) (Some Z)" using Cons.prems y by (simp add: layout_def)
  then have n: "packet_Next s (Some p) = Some (Some b)" "packet_at s (Some b) = Some (kb\<lparr>m_next := pfirst ys (Some Z)\<rparr>)"
    by (cases ys; auto simp: packet_ops)+
  show ?case
  proof (cases "m_dwAdviseCookie kb = c")
    case True
    obtain s1 where 1: "RemoveNext (Some p) s = Some (Some b, s1)" "layout s1 (xs @ (p, k) # ys) cs [b]" "same_rest s s1"
      using layout_unlink [of s xs p k b kb ys cs] Cons.prems y by auto
    obtain s2 cs2 where 2: "Delete (Some b) s1 = Some s2" "layout s2 (xs @ (p, k) # ys) cs2 []" "same_rest s1 s2"
      using layout_Delete [OF 1(2)] by blast
    have u: "unadvise_loop c (Some p) s = Some (S_OK, s2\<lparr>m_dwAdviseCount := m_dwAdviseCount s - 1\<rparr>)"
      using n True 1 2 by (subst unadvise_loop.simps) (simp add: same_rest_def)
    have "same_rest s s2" using 1(3) 2(3) by (simp add: same_rest_def)
    then show ?thesis using u 2(2) True y
      by (intro iffD2 [OF if_P]) (force, intro exI [of _ s2] exI [of _ cs2] exI [of _ "[]"] exI [of _ y] exI [of _ ys], simp)
  next
    case False
    have u: "unadvise_loop c (Some p) s = unadvise_loop c (Some b) s"
      using n False by (subst unadvise_loop.simps) simp
    have "layout s ((xs @ [(p, k)]) @ (b, kb) # ys) cs []" using Cons.prems y by simp
    note IH = Cons.IH [OF this]
    show ?thesis
    proof (cases "\<exists>q \<in> set ys. m_dwAdviseCookie (snd q) = c")
      case True
      then obtain s' cs' us q vs where "ys = us @ q # vs" "m_dwAdviseCookie (snd q) = c"
        "\<forall>u \<in> set us. m_dwAdviseCookie (snd u) \<noteq> c"
        "unadvise_loop c (Some b) s = Some (S_OK, s'\<lparr>m_dwAdviseCount := m_dwAdviseCount s - 1\<rparr>)"
        "layout s' (xs @ (p, k) # y # us @ vs) cs' []" "same_rest s s'" using IH y by auto
      then have "y # ys = (y # us) @ q # vs \<and> m_dwAdviseCookie (snd q) = c \<and>
        (\<forall>u \<in> set (y # us). m_dwAdviseCookie (snd u) \<noteq> c) \<and>
        unadvise_loop c (Some p) s = Some (S_OK, s'\<lparr>m_dwAdviseCount := m_dwAdviseCount s - 1\<rparr>) \<and>
        layout s' (xs @ (p, k) # (y # us) @ vs) cs' [] \<and> same_rest s s'" using u y False by simp
      moreover have "\<exists>q \<in> set (y # ys). m_dwAdviseCookie (snd q) = c" using True by simp
      ultimately show ?thesis by (simp only: if_True) blast
    qed (use IH u y False in auto)
  qed
qed

lemma Unadvise_refines:
  assumes r: "represents s as"
  shows "\<exists>s'. Unadvise c s = Some (if c \<in> cookie ` set as then S_OK else S_FALSE, s') \<and>
    represents s' (filter (\<lambda>a. cookie a \<noteq> c) as) \<and> m_dwNextCookie s' = m_dwNextCookie s \<and> m_ev s' = m_ev s \<and>
    signals s' = signals s \<and> pool s' = pool s"
proof -
  from r obtain hk ps cs where l: "layout s ((Head, hk) # ps) cs []" and as: "as = map (view \<circ> snd) ps"
    and ag: "agenda (m_dwNextCookie s) as" and cnt: "m_dwAdviseCount s = of_nat (length as)"
    by (auto simp: represents_def)
  have ex: "(\<exists>q \<in> set ps. m_dwAdviseCookie (snd q) = c) \<longleftrightarrow> c \<in> cookie ` set as" by (force simp: as)
  show ?thesis
  proof (cases "c \<in> cookie ` set as")
    case False
    moreover from this have "filter (\<lambda>a. cookie a \<noteq> c) as = as" by (auto intro: filter_True)
    ultimately show ?thesis using r ex unadvise_walk [of s "[]" Head hk ps cs c] l by (simp add: Unadvise_def)
  next
    case True
    then obtain s' cs' us q vs where u: "ps = us @ q # vs" "m_dwAdviseCookie (snd q) = c"
      "unadvise_loop c (Some Head) s = Some (S_OK, s'\<lparr>m_dwAdviseCount := m_dwAdviseCount s - 1\<rparr>)"
      "layout s' ((Head, hk) # us @ vs) cs' []" "same_rest s s'"
      using ex unadvise_walk [of s "[]" Head hk ps cs c] l by auto
    have "filter (\<lambda>a. cookie a \<noteq> c) as = map (view \<circ> snd) (us @ vs)"
      using filter_one [of cookie "map (view \<circ> snd) us" "view (snd q)" "map (view \<circ> snd) vs"] ag u(1,2)
      by (simp add: as agenda_def)
    moreover from this have "length as = Suc (length (filter (\<lambda>a. cookie a \<noteq> c) as))" by (simp add: as u(1))
    then have "m_dwAdviseCount s - 1 = of_nat (length (filter (\<lambda>a. cookie a \<noteq> c) as))" using cnt by simp
    ultimately have "represents (s'\<lparr>m_dwAdviseCount := m_dwAdviseCount s - 1\<rparr>) (filter (\<lambda>a. cookie a \<noteq> c) as)"
      using u(4,5) agenda_filter [OF ag, of "\<lambda>a. cookie a \<noteq> c"] by (intro representsI [of _ hk "us @ vs" cs']) (simp_all add: same_rest_def)
    then show ?thesis using u(3,5) True by (auto simp: Unadvise_def same_rest_def)
  qed
qed

section \<open>Dispatching\<close>

text \<open>One turn of the loop of \<open>Advise\<close>.\<close>

lemma represents_head:
  assumes "represents s as"
  shows "\<exists>p k. next_of s (Some Head) = Some p \<and> packet_at s p = Some k \<and>
    (case as of [] \<Rightarrow> m_next k = None \<and> m_rtEventTime k = MAX_TIME | a # _ \<Rightarrow> m_next k \<noteq> None \<and> view k = a)"
proof -
  from assms obtain hk ps cs where l: "layout s ((Head, hk) # ps) cs []" and as: "as = map (view \<circ> snd) ps"
    by (auto simp: represents_def)
  show ?thesis
  proof (cases ps)
    case Nil
    then show ?thesis using l as layout_Z [OF l] by (auto simp: layout_def packet_ops)
  next
    case (Cons q qs)
    obtain b kb where "q = (b, kb)" by (cases q)
    then show ?thesis using l as Cons by (cases qs) (auto simp: layout_def packet_ops)
  qed
qed

lemma dispatch_head_refines:
  assumes r: "represents s (a # as)" and h: "next_of s (Some Head) = Some p" "packet_at s p = Some k"
    and ok: "periodic a \<longrightarrow> 0 < period a \<and> due a + period a < max_time"
  shows "\<exists>s'. dispatch_head k p s = Some s' \<and> represents s' (advises_after a as) \<and>
    signals s' = signals s @ [signal_of a] \<and> m_dwNextCookie s' = m_dwNextCookie s \<and> m_ev s' = m_ev s \<and> pool s' = pool s"
proof -
  from r obtain hk b kb ps cs where l: "layout s ((Head, hk) # (b, kb) # ps) cs []"
    and as: "a = view kb" "as = map (view \<circ> snd) ps" and ag: "agenda (m_dwNextCookie s) (a # as)"
    and cnt: "m_dwAdviseCount s = of_nat (length (a # as))"
    by (auto simp: represents_def Cons_eq_map_conv)
  have p: "p = Some b" and k: "k = kb\<lparr>m_next := pfirst ps (Some Z)\<rparr>" using h l by (auto simp: layout_def packet_ops)
  show ?thesis
  proof (cases "periodic a")
    case True
    let ?f = "\<lambda>k. k\<lparr>m_rtEventTime := m_rtEventTime k + m_rtPeriod k\<rparr>"
    let ?s = "s\<lparr>signals := signals s @ [ReleaseSemaphore (m_hNotify kb)]\<rparr>"
    have "layout ?s ([(Head, hk)] @ (b, kb) # ps) cs []" using l by simp
    from layout_rewrite [OF this, of ?f] obtain s1 where 1: "write_packet (Some b) ?f ?s = Some s1"
      "layout s1 ((Head, hk) # (b, ?f kb) # ps) cs []" "same_rest ?s s1" by auto
    have sum: "sint (m_rtEventTime kb + m_rtPeriod kb) = due a + period a"
      using ok True sint_range64 [of "m_rtEventTime kb"] unfolding as
      by (simp add: sint_word_ariths signed_take_bit_int_eq_self max_time_def)
    obtain s2 where 2: "ShuntHead s1 = Some s2" "same_rest s1 s2"
      "layout s2 ((Head, hk) # takeWhile (\<lambda>q. time_of q \<le> due a + period a) ps @ (b, ?f kb) #
        dropWhile (\<lambda>q. time_of q \<le> due a + period a) ps) cs []"
      using layout_shunt [OF 1(2)] sum ok True by auto
    have v: "view (?f kb) = again a" using sum by (simp add: view_def again_def as)
    have "insert_again (again a) as = map (view \<circ> snd) (takeWhile (\<lambda>q. time_of q \<le> due a + period a) ps @
        (b, ?f kb) # dropWhile (\<lambda>q. time_of q \<le> due a + period a) ps)"
      using v by (simp add: insert_again_def as view_takeWhile)
    moreover have "agenda (m_dwNextCookie s) (insert_again (again a) as)" using agenda_again [OF ag] ok True by simp
    moreover have "m_dwAdviseCount s2 = of_nat (length (insert_again (again a) as))"
      using 1(3) 2(2) cnt by (simp add: same_rest_def)
    moreover have "m_dwNextCookie s2 = m_dwNextCookie s" using 1(3) 2(2) by (simp add: same_rest_def)
    ultimately have "represents s2 (insert_again (again a) as)" using representsI [OF 2(3)] by metis
    moreover have "signal_of a = ReleaseSemaphore (m_hNotify kb)" using True by (simp add: signal_of_def as)
    ultimately show ?thesis using True 1 2 p k as by (simp add: dispatch_head_def advises_after_def same_rest_def)
  next
    case False
    let ?s = "s\<lparr>signals := signals s @ [SetEvent (m_hNotify kb)], m_dwAdviseCount := m_dwAdviseCount s - 1\<rparr>"
    have "layout ?s ([] @ (Head, hk) # (b, kb) # ps) cs []" using l by simp
    from layout_unlink [OF this] obtain s1 where 1: "RemoveNext (Some Head) ?s = Some (Some b, s1)"
      "layout s1 ((Head, hk) # ps) cs [b]" "same_rest ?s s1" by auto
    obtain s2 cs2 where 2: "Delete (Some b) s1 = Some s2" "layout s2 ((Head, hk) # ps) cs2 []" "same_rest s1 s2"
      using layout_Delete [OF 1(2)] by blast
    have "represents s2 as" using 1(3) 2 as agenda_tl [OF ag] cnt
      by (intro representsI [OF 2(2)]) (simp_all add: same_rest_def)
    moreover have "signal_of a = SetEvent (m_hNotify kb)" using False by (simp add: signal_of_def as)
    ultimately show ?thesis using False 1 2 p k as by (simp add: dispatch_head_def advises_after_def same_rest_def)
  qed
qed

text \<open>The whole of \<open>Advise\<close>, by induction on the number of firings still to come.\<close>

lemma Advise_refines:
  assumes "represents s as" and "periods_ok (sint t) as"
  shows "\<exists>nx s' as' fs. Advise t s = Some (nx, s') \<and> represents s' as' \<and>
    mset as' = mset (remaining (sint t) as) \<and> (\<forall>a \<in> set as'. sint t < due a) \<and>
    sint nx = (if as' = [] then max_time else due (hd as')) \<and>
    signals s' = signals s @ map snd fs \<and> sorted (map fst fs) \<and>
    mset fs = mset (concat (map (firings (sint t)) as)) \<and>
    m_dwNextCookie s' = m_dwNextCookie s \<and> m_ev s' = m_ev s \<and> pool s' = pool s"
  using assms
proof (induction "length (concat (map (firings (sint t)) as))" arbitrary: s as)
  case 0
  then have none: "\<forall>a \<in> set as. sint t < due a" by (auto simp: firings_def times_due_def split: if_splits)
  obtain p k where h: "next_of s (Some Head) = Some p" "packet_at s p = Some k"
    and c: "case as of [] \<Rightarrow> m_next k = None \<and> m_rtEventTime k = MAX_TIME | a # _ \<Rightarrow> m_next k \<noteq> None \<and> view k = a"
    using represents_head [OF 0(2)] by blast
  have "sint (m_rtEventTime k) = (if as = [] then max_time else due (hd as))" using c by (cases as) auto
  moreover have "Advise t s = Some (m_rtEventTime k, s)"
    using h c none by (subst Advise.simps) (cases as; auto)
  ultimately show ?case using 0 none none_due [OF none] by (intro exI [of _ "m_rtEventTime k"] exI [of _ s] exI [of _ as] exI [of _ "[]"]) simp
next
  case (Suc n)
  obtain p k where h: "next_of s (Some Head) = Some p" "packet_at s p = Some k"
    and c: "case as of [] \<Rightarrow> m_next k = None \<and> m_rtEventTime k = MAX_TIME | a # _ \<Rightarrow> m_next k \<noteq> None \<and> view k = a"
    using represents_head [OF Suc(3)] by blast
  have ag: "agenda (m_dwNextCookie s) as" using Suc(3) by (simp add: represents_def)
  obtain a bs where as: "as = a # bs" using Suc(2) by (cases as) auto
  have d: "due a \<le> sint t"
  proof (rule ccontr)
    assume "\<not> due a \<le> sint t"
    then have "\<forall>b \<in> set as. sint t < due b" using ag as by (auto simp: agenda_def)
    then show False using none_due(1) Suc(2) by fastforce
  qed
  note af = after_firings [OF ag [unfolded as] d Suc(4) [unfolded as]]
  obtain s1 where s1: "dispatch_head k p s = Some s1" "represents s1 (advises_after a bs)"
    "signals s1 = signals s @ [signal_of a]" "m_dwNextCookie s1 = m_dwNextCookie s" "m_ev s1 = m_ev s" "pool s1 = pool s"
    using dispatch_head_refines [OF Suc(3) [unfolded as] h] Suc(4) d as by (auto simp: periods_ok_def)
  have u: "Advise t s = Advise t s1" using h c as d s1(1) by (subst Advise.simps) auto
  have "n = length (concat (map (firings (sint t)) (advises_after a bs)))"
    using Suc(2) af(1) as by (metis length_by_mset diff_Suc_1)
  from Suc(1) [OF this s1(2) af(3)] obtain nx s' as' fs where IH: "Advise t s1 = Some (nx, s')" "represents s' as'"
    "mset as' = mset (remaining (sint t) (advises_after a bs))" "\<forall>a \<in> set as'. sint t < due a"
    "sint nx = (if as' = [] then max_time else due (hd as'))"
    "signals s' = signals s1 @ map snd fs" "sorted (map fst fs)"
    "mset fs = mset (concat (map (firings (sint t)) (advises_after a bs)))"
    "m_dwNextCookie s' = m_dwNextCookie s1" "m_ev s' = m_ev s1" "pool s' = pool s1" by blast
  have "sorted (map fst ((due a, signal_of a) # fs))"
    using IH(7) concat_firings_after [OF af(4) af(3) IH(8)] by auto
  moreover have "mset ((due a, signal_of a) # fs) = mset (concat (map (firings (sint t)) as))" using af(1) IH(8) as by simp
  moreover have "signals s' = signals s @ map snd ((due a, signal_of a) # fs)" using IH(6) s1(3) by simp
  moreover have "mset as' = mset (remaining (sint t) as)" using IH(3) af(2) as by simp
  ultimately show ?case using u IH s1 by metis
qed

interpretation schedule: agenda_service represents m_dwNextCookie room signals AddAdvisePacket Unadvise Advise
proof unfold_locales
  show "represents s as \<Longrightarrow> agenda (m_dwNextCookie s) as" for s as
    by (simp add: represents_def)
  show "represents s as \<Longrightarrow> room s \<Longrightarrow> sint t < max_time \<Longrightarrow> m_dwNextCookie s \<noteq> - 1 \<Longrightarrow>
      \<exists>s'. AddAdvisePacket t p h b s = Some (m_dwNextCookie s + 1, s') \<and>
        represents s' (insert_new (new_advise (m_dwNextCookie s + 1) t p h b) as) \<and> signals s' = signals s" for s as t p h b
    using AddAdvisePacket_refines [of s as t _ p h b] by auto
  show "represents s as \<Longrightarrow> \<exists>s'. Unadvise c s = Some (if c \<in> cookie ` set as then S_OK else S_FALSE, s') \<and>
      represents s' (filter (\<lambda>a. cookie a \<noteq> c) as) \<and> signals s' = signals s" for s as c
    using Unadvise_refines [of s as c] by blast
  show "represents s as \<Longrightarrow> periods_ok (sint t) as \<Longrightarrow>
      \<exists>nx s' as' fs. Advise t s = Some (nx, s') \<and> represents s' as' \<and> mset as' = mset (remaining (sint t) as) \<and>
        sint nx = (if as' = [] then max_time else due (hd as')) \<and>
        signals s' = signals s @ map snd fs \<and> mset fs = mset (concat (map (firings (sint t)) as))" for s as t
    using Advise_refines [of s as t] by blast
qed

section \<open>Construction and destruction\<close>

definition memory_ok :: "seg \<Rightarrow> bool" where
  "memory_ok m \<longleftrightarrow> distinct (map fst m) \<and> Head \<notin> refs_of m \<and> Z \<notin> refs_of m"

lemma new_represents: "memory_ok m \<Longrightarrow> represents (new_CAMSchedule m g) []"
  by (rule representsI [of _ "g\<lparr>m_rtEventTime := 0, m_dwAdviseCookie := 0\<rparr>" "[]" "[]"])
    (auto simp: layout_def new_CAMSchedule_def memory_ok_def agenda_def)

lemma delete_cache_all:
  "chain (packets s) cs None \<Longrightarrow> distinct (map fst cs) \<Longrightarrow>
   \<exists>s'. delete_cache_loop (pfirst cs None) s = Some s' \<and>
     packets s' = (\<lambda>a. if a \<in> refs_of cs then None else packets s a) \<and> pool s' = pool s \<and>
     m_dwAdviseCount s' = m_dwAdviseCount s"
proof (induction cs arbitrary: s)
  case Nil
  then show ?case by (subst delete_cache_loop.simps) simp
next
  case (Cons q cs)
  obtain b kb where q: "q = (b, kb)" by (cases q)
  let ?s = "s\<lparr>packets := (packets s)(b := None), free_packets := (b, kb\<lparr>m_next := pfirst cs None\<rparr>) # free_packets s\<rparr>"
  have "chain (packets ?s) cs None" "distinct (map fst cs)" using Cons.prems q by auto
  from Cons.IH [OF this] obtain s' where s': "delete_cache_loop (pfirst cs None) ?s = Some s'"
    "packets s' = (\<lambda>a. if a \<in> refs_of cs then None else packets ?s a)" "pool s' = pool ?s"
    "m_dwAdviseCount s' = m_dwAdviseCount ?s" by blast
  have "delete_cache_loop (pfirst (q # cs) None) s = Some s'"
    using Cons.prems q s'(1) by (subst delete_cache_loop.simps) (simp add: packet_ops)
  moreover have "pool ?s = pool s" using Cons.prems q by (auto simp: pool_def)
  ultimately show ?case using s' q by (auto simp: fun_eq_iff)
qed

lemma delete_advises_all:
  "chain (packets s) ((Head, hk) # ps) (Some Z) \<Longrightarrow> packets s Z = Some zk \<Longrightarrow> m_next zk = None \<Longrightarrow>
   distinct (Head # Z # map fst ps) \<Longrightarrow>
   \<exists>s'. delete_advises_loop s = Some s' \<and> dom (packets s') = dom (packets s) - refs_of ps \<and> pool s' = pool s"
proof (induction ps arbitrary: s)
  case Nil
  then show ?case by (subst delete_advises_loop.simps) (simp add: packet_ops)
next
  case (Cons q ps)
  obtain b kb where q: "q = (b, kb)" by (cases q)
  let ?c = "(packets s)(Head \<mapsto> hk\<lparr>m_next := pfirst ps (Some Z)\<rparr>, b := None)"
  let ?s = "s\<lparr>packets := ?c, free_packets := (b, kb\<lparr>m_next := pfirst ps (Some Z)\<rparr>) # free_packets s,
    m_dwAdviseCount := m_dwAdviseCount s - 1\<rparr>"
  have "chain (packets ?s) ((Head, hk) # ps) (Some Z)" "packets ?s Z = Some zk" "distinct (Head # Z # map fst ps)"
    using Cons.prems q by auto
  from Cons.IH [OF this(1,2) Cons.prems(3) this(3)] obtain s' where s': "delete_advises_loop ?s = Some s'"
    "dom (packets s') = dom (packets ?s) - refs_of ps" "pool s' = pool ?s" by blast
  have "delete_advises_loop s = Some s'"
    using Cons.prems q s'(1) by (subst delete_advises_loop.simps) (cases ps; auto simp: packet_ops)
  moreover have "pool ?s = pool s" "dom (packets ?s) - refs_of ps = dom (packets s) - refs_of (q # ps)"
    using Cons.prems q by (auto simp: pool_def split: if_splits)
  ultimately show ?case using s' by auto
qed

lemma chain_without: "refs_of L \<inter> A = {} \<Longrightarrow> chain (\<lambda>a. if a \<in> A then None else c a) L e = chain c L e"
  by (induction L) auto

lemma destructor_frees_all:
  assumes "represents s as" and "length as < 2 ^ 32"
  shows "\<exists>s'. CAMSchedule_destructor s = Some s' \<and> dom (packets s') = {Head, Z} \<and> pool s' = pool s"
proof -
  from assms obtain hk ps cs where l: "layout s ((Head, hk) # ps) cs []" and as: "length as = length ps"
    and cnt: "m_dwAdviseCount s = of_nat (length as)" by (auto simp: represents_def)
  have "chain (packets s) cs None" "distinct (map fst cs)" and pc: "m_pAdviseCache s = pfirst cs None" using l by (auto simp: layout_def)
  from delete_cache_all [OF this(1,2)] obtain s1 where 1: "delete_cache_loop (m_pAdviseCache s) s = Some s1"
    "packets s1 = (\<lambda>a. if a \<in> refs_of cs then None else packets s a)" "pool s1 = pool s"
    "m_dwAdviseCount s1 = m_dwAdviseCount s" unfolding pc by blast
  have eq: "0 < m_dwAdviseCount s1 \<longleftrightarrow> ps \<noteq> []"
    using 1(4) cnt assms(2) as by (simp add: word_less_nat_alt unat_of_nat)
  have dj: "refs_of ((Head, hk) # ps) \<inter> refs_of cs = {}" "Z \<notin> refs_of cs" using l by (auto simp: layout_def)
  have "dom (packets s1) = dom (packets s) - refs_of cs" unfolding 1(2) by (auto simp: dom_def simp del: image_iff)
  also have "\<dots> = {Head, Z} \<union> refs_of ps" using l dj by (auto simp: layout_def intro: rev_image_eqI)
  finally have d: "dom (packets s1) = {Head, Z} \<union> refs_of ps" .
  obtain zk where z: "packets s1 Z = Some zk" "m_next zk = None" using layout_Z [OF l] dj(2) 1(2) by auto
  have "chain (packets s1) ((Head, hk) # ps) (Some Z)" using l chain_without [OF dj(1)] unfolding 1(2) layout_def by blast
  moreover have dd: "distinct (Head # Z # map fst ps)" using l by (auto simp: layout_def)
  ultimately obtain s2 where "delete_advises_loop s1 = Some s2" "dom (packets s2) = dom (packets s1) - refs_of ps" "pool s2 = pool s1"
    using delete_advises_all z by blast
  moreover have "dom (packets s1) - refs_of ps = {Head, Z}" unfolding d using dd by auto
  ultimately show ?thesis using 1 eq d by (cases "ps = []") (simp_all add: CAMSchedule_destructor_def)
qed

section \<open>The end of time\<close>

text \<open>\<open>ShuntHead\<close> looks for a packet that is strictly later than the one it moves. When that one has
  reached \<open>MAX_TIME\<close> there is none, and the walk runs over \<open>z\<close> into NULL.\<close>

lemma shunt_loop_runs_off:
  assumes "packets s Z = Some zk" "m_next zk = None" "m_rtEventTime zk = MAX_TIME" "sint t = max_time"
  shows "chain (packets s) ((p, k) # ys) (Some Z) \<Longrightarrow> shunt_loop s t (Some p) = None"
proof (induction ys arbitrary: p k)
  case Nil
  have "shunt_loop s t (Some Z) = None" using assms by (subst shunt_loop.simps) (simp add: packet_ops)
  then show ?case using assms Nil by (subst shunt_loop.simps) (simp add: packet_ops)
next
  case (Cons y ys)
  obtain a ka where y: "y = (a, ka)" by (cases y)
  from Cons.prems y have "chain (packets s) ((a, ka) # ys) (Some Z)" by simp
  from Cons.IH [OF this] Cons.prems y assms(4) le_max_time show ?case
    by (subst shunt_loop.simps) (auto simp: packet_ops not_less)
qed

lemma dispatch_head_off:
  assumes r: "represents s (a # as)" and h: "next_of s (Some Head) = Some p" "packet_at s p = Some k"
    and p: "periodic a" "due a + period a = max_time"
  shows "dispatch_head k p s = None"
proof -
  let ?f = "\<lambda>k. k\<lparr>m_rtEventTime := m_rtEventTime k + m_rtPeriod k\<rparr>"
  from r obtain hk b kb ps cs where l: "layout s ([(Head, hk)] @ (b, kb) # ps) cs []" and as: "a = view kb"
    by (auto simp: represents_def Cons_eq_map_conv)
  have pb: "p = Some b" and k: "k = kb\<lparr>m_next := pfirst ps (Some Z)\<rparr>" using h l by (auto simp: layout_def packet_ops)
  let ?s = "s\<lparr>signals := signals s @ [ReleaseSemaphore (m_hNotify kb)]\<rparr>"
  from l have "layout ?s ([(Head, hk)] @ (b, kb) # ps) cs []" by simp
  from layout_rewrite [OF this, of ?f] obtain s1 where 1: "write_packet (Some b) ?f ?s = Some s1"
    "layout s1 ((Head, hk) # (b, ?f kb) # ps) cs []" by auto
  have t: "sint (m_rtEventTime (?f kb)) = max_time"
    using p by (simp add: as sint_word_ariths max_time_def signed_take_bit_int_eq_self)
  obtain zk where z: "packets s1 Z = Some zk" "m_next zk = None" "m_rtEventTime zk = MAX_TIME" using layout_Z [OF 1(2)] by auto
  have c: "chain (packets s1) ((Head, hk) # (b, ?f kb) # ps) (Some Z)" using 1(2) unfolding layout_def by blast
  have "ShuntHead s1 = None" using shunt_loop_runs_off [OF z t c] c by (simp add: ShuntHead_def packet_ops)
  then show ?thesis using 1(1) p(1) as pb k by (simp add: dispatch_head_def)
qed

section \<open>Properties\<close>

definition packet0 :: CAdvisePacket where
  "packet0 = \<lparr>m_next = None, m_dwAdviseCookie = 0, m_rtEventTime = 0, m_rtPeriod = 0, m_hNotify = 0, m_bPeriodic = False\<rparr>"

definition schedule0 :: CAMSchedule where
  "schedule0 = new_CAMSchedule [(Pkt 0, packet0), (Pkt 1, packet0)] packet0"

lemma schedule0: "represents schedule0 []" "room schedule0" "m_dwNextCookie schedule0 = 0" "signals schedule0 = []"
  unfolding schedule0_def by (rule new_represents) (simp_all add: memory_ok_def room_def new_CAMSchedule_def)

lemma room_if_packets:
  assumes "represents s as" and "length as + 2 < card (pool s)"
  shows "room s"
proof (rule ccontr)
  assume n: "\<not> room s"
  from assms(1) obtain hk ps cs where l: "layout s ((Head, hk) # ps) cs []" and as: "length as = length ps"
    by (auto simp: represents_def)
  have "cs = []" using n l by (cases cs) (auto simp: layout_def room_def)
  then have "pool s = {Z, Head} \<union> refs_of ps" "distinct (map fst ps)" "Head \<notin> refs_of ps" "Z \<notin> refs_of ps"
    using n l by (auto simp: layout_def room_def pool_def)
  then have "card (pool s) = length as + 2" using distinct_card [of "map fst ps"] by (simp add: as)
  then show False using assms(2) by simp
qed

lemma schedule1:
  assumes "sint t < max_time"
  shows "\<exists>s. AddAdvisePacket t p h b schedule0 = Some (1, s) \<and> represents s [new_advise 1 t p h b] \<and> signals s = [] \<and>
    m_dwNextCookie s = 1 \<and> room s"
proof -
  obtain s where s: "AddAdvisePacket t p h b schedule0 = Some (1, s)" "represents s [new_advise 1 t p h b]" "signals s = []"
    "m_dwNextCookie s = 1" "pool s = pool schedule0"
    using AddAdvisePacket_refines [OF schedule0(1) assms, of _ p h b] schedule0 by (auto simp: insert_new_def)
  have "pool schedule0 = {Head, Z, Pkt 0, Pkt 1}" by (auto simp: pool_def schedule0_def new_CAMSchedule_def split: if_splits)
  then show ?thesis using s room_if_packets [OF s(2)] by simp
qed

text \<open>C36. \<open>AddAdvisePacket\<close> takes a packet from the cache or from memory, gives it the next cookie and puts
  it before the first advise that is not earlier; it wakes the clock thread exactly when the packet
  has come first, and returns the cookie 0 and changes nothing when there is no packet to be had.
  \<open>Unadvise\<close> removes the advise with the cookie and returns \<open>S_OK\<close>, or returns \<open>S_FALSE\<close> and changes
  nothing when there is none. Neither dereferences a bad pointer or loses a packet.\<close>

theorem schedule_add_cancel:
  assumes "represents s as" and "sint t < max_time" and "m_dwNextCookie s \<noteq> - 1"
    and "a = new_advise (m_dwNextCookie s + 1) t p h b"
  shows "(if room s then
       (\<exists>s'. AddAdvisePacket t p h b s = Some (m_dwNextCookie s + 1, s') \<and> represents s' (insert_new a as) \<and>
          m_dwNextCookie s' = m_dwNextCookie s + 1 \<and> signals s' = signals s \<and> pool s' = pool s \<and>
          m_ev s' = (m_ev s \<or> as = [] \<or> due a \<le> due (hd as)))
     else AddAdvisePacket t p h b s = Some (0, s)) \<and>
    (\<exists>s'. Unadvise c s = Some (if c \<in> cookie ` set as then S_OK else S_FALSE, s') \<and>
       represents s' (filter (\<lambda>a. cookie a \<noteq> c) as) \<and> m_dwNextCookie s' = m_dwNextCookie s \<and> m_ev s' = m_ev s \<and>
       signals s' = signals s \<and> pool s' = pool s)"
  using AddAdvisePacket_refines [OF assms] Unadvise_refines [OF assms(1)] by blast

theorem schedule_add_cancel_witness:
  "\<exists>s. AddAdvisePacket 500 0 7 False schedule0 = Some (1, s) \<and> represents s [new_advise 1 500 0 7 False] \<and> m_ev s"
  using schedule_add_cancel [OF schedule0(1) _ _ refl, of 500 0 7 False 0] schedule0
  by (auto simp: insert_new_def max_time_def)

text \<open>C16. \<open>Advise\<close> ends without a bad dereference when every period is positive and the time after the next
  period is still a time. It sends each one shot advise that is due its event once, and releases
  the semaphore of each periodic advise once for every time it has fallen due, in the order of the
  times; what remains are the advises that are not due and the periodic ones, moved to their first time
  after the given one; and it returns the earliest of these times, or \<open>MAX_TIME\<close>.\<close>

theorem schedule_dispatch:
  assumes "represents s as" and "periods_ok (sint t) as"
  shows "\<exists>nx s' as' fs. Advise t s = Some (nx, s') \<and> represents s' as' \<and>
    mset as' = mset (remaining (sint t) as) \<and> (\<forall>a \<in> set as'. sint t < due a) \<and>
    sint nx = (if as' = [] then max_time else due (hd as')) \<and>
    signals s' = signals s @ map snd fs \<and> sorted (map fst fs) \<and>
    mset fs = mset (concat (map (firings (sint t)) as)) \<and>
    m_dwNextCookie s' = m_dwNextCookie s \<and> m_ev s' = m_ev s \<and> pool s' = pool s"
  by (rule Advise_refines [OF assms])

theorem schedule_dispatch_witness:
  "\<exists>s nx s'. AddAdvisePacket 5 3 7 True schedule0 = Some (1, s) \<and> Advise 11 s = Some (nx, s') \<and> sint nx = 14 \<and>
     mset (signals s') = replicate_mset 3 (ReleaseSemaphore 7)"
proof -
  let ?a = "new_advise 1 5 3 7 True"
  obtain s where s: "AddAdvisePacket 5 3 7 True schedule0 = Some (1, s)" "represents s [?a]" "signals s = []"
    using schedule1 [of 5 3 7 True] by (auto simp: max_time_def)
  have f: "firings 11 ?a = [(5, ReleaseSemaphore 7), (8, ReleaseSemaphore 7), (11, ReleaseSemaphore 7)]"
    by (simp add: firings_def times_due_def new_advise_def signal_of_def upt_rec)
  have r: "remaining 11 [?a] = [?a\<lparr>due := 14\<rparr>]" by (simp add: remaining_def times_due_def new_advise_def)
  have "periods_ok (sint (11 :: i64)) [?a]" by (simp add: periods_ok_def new_advise_def max_time_def)
  from schedule_dispatch [OF s(2) this] obtain nx s' as' fs where d: "Advise 11 s = Some (nx, s')"
    "mset as' = mset (remaining (sint (11 :: i64)) [?a])" "sint nx = (if as' = [] then max_time else due (hd as'))"
    "signals s' = signals s @ map snd fs" "mset fs = mset (concat (map (firings (sint (11 :: i64))) [?a]))" by blast
  have "as' = [?a\<lparr>due := 14\<rparr>]" using d(2) r by simp
  moreover have "mset (map snd fs) = replicate_mset 3 (ReleaseSemaphore 7)"
    using d(5) f by (simp add: numeral_3_eq_3)
  ultimately show ?thesis using s d by simp
qed

text \<open>The life of an advise: the constructor makes an empty agenda; cancelling what was just
  added restores the agenda; a one shot advise stays in the agenda, and bounds the time \<open>Advise\<close> returns,
  until it is due, is then signalled and gone, and cancelling it later finds nothing; and the destructor
  frees every packet in the list and in the cache.\<close>

theorem schedule_lifecycle:
  assumes "memory_ok m" and "represents s as" and "sint t < max_time" and "m_dwNextCookie s \<noteq> - 1" and "room s"
    and "periods_ok (sint u) as" and "length as < 2 ^ 32"
  shows "represents (new_CAMSchedule m g) [] \<and>
    (\<exists>c s' s''. AddAdvisePacket t p h b s = Some (c, s') \<and> c \<noteq> 0 \<and> Unadvise c s' = Some (S_OK, s'') \<and>
       represents s'' as \<and> signals s'' = signals s) \<and>
    (\<forall>a \<in> set as. \<not> periodic a \<longrightarrow> (\<exists>nx s' as' ss. Advise u s = Some (nx, s') \<and> represents s' as' \<and> signals s' = signals s @ ss \<and>
       (if due a \<le> sint u then signal_of a \<in> set ss \<and> cookie a \<notin> cookie ` set as' \<and>
          (\<exists>s''. Unadvise (cookie a) s' = Some (S_FALSE, s'') \<and> represents s'' as')
        else a \<in> set as' \<and> sint nx \<le> due a))) \<and>
    (\<exists>s'. CAMSchedule_destructor s = Some s' \<and> dom (packets s') = {Head, Z} \<and> pool s' = pool s)"
  using new_represents [OF assms(1)] schedule.add_cancel [OF assms(2,5,3,4)] schedule.one_shot [OF assms(2,6)]
    destructor_frees_all [OF assms(2,7)] by blast

theorem schedule_lifecycle_witness:
  "\<exists>s s' ss. AddAdvisePacket 500 0 7 False schedule0 = Some (1, s) \<and> Advise 600 s = Some s' \<and>
     signals (snd s') = signals s @ ss \<and> SetEvent 7 \<in> set ss"
proof -
  let ?a = "new_advise 1 500 0 7 False"
  obtain s where s: "AddAdvisePacket 500 0 7 False schedule0 = Some (1, s)" "represents s [?a]"
    and n: "m_dwNextCookie s = 1" "room s" using schedule1 [of 500 0 7 False] by (auto simp: max_time_def)
  have o: "memory_ok []" "periods_ok (sint (600 :: i64)) [?a]" "sint (0 :: i64) < max_time" "\<not> periodic ?a"
    "due ?a \<le> sint (600 :: i64)" "signal_of ?a = SetEvent 7"
    by (simp_all add: memory_ok_def periods_ok_def new_advise_def max_time_def signal_of_def)
  from schedule_lifecycle [OF o(1) s(2) o(3) _ n(2) o(2), of packet0 0 0 False] n(1) o s show ?thesis by fastforce
qed

end
