(* ===== verification/Ref_Clock_Props.thy ===== *)
theory Ref_Clock_Props
  imports Ref_Clock Schedule_Props
begin

text \<open>
  Properties of the reference clock: what \<open>GetTime\<close> reports, how long the advise thread waits, and an
  invariant of all interleavings of clients, thread and system timer from which it follows that the thread is ready to
  run whenever an advise is overdue.
\<close>

section \<open>Arithmetic\<close>

lemma ms_units [simp]: "tdiv (sint UNITS) (sint MILLISECONDS) = 10000"
  by (simp add: UNITS_def MILLISECONDS_def tdiv_def)

lemma sint_in_range64: "- (2 ^ 63) \<le> k \<Longrightarrow> k < 2 ^ 63 \<Longrightarrow> sint (word_of_int k :: i64) = k"
  by (simp add: sint_eq_signed_take_bit signed_take_bit_int_eq_self)

lemma sint_plus64: "- (2 ^ 63) \<le> sint a + sint b \<Longrightarrow> sint a + sint b < 2 ^ 63 \<Longrightarrow> sint (a + b :: i64) = sint a + sint b"
  by (simp add: sint_word_ariths signed_take_bit_int_eq_self)

lemma sint_minus64: "- (2 ^ 63) \<le> sint a - sint b \<Longrightarrow> sint a - sint b < 2 ^ 63 \<Longrightarrow> sint (a - b :: i64) = sint a - sint b"
  by (simp add: sint_word_ariths signed_take_bit_int_eq_self)

lemma sint_up64_32: "sint (scast w :: i64) = sint w" for w :: i32
  by (rule sint_up_scast) (simp add: is_up)

lemma sint_Int32x32To64: "sint (Int32x32To64 a b) = sint a * sint b"
proof -
  have "\<bar>sint a\<bar> \<le> 2 ^ 31" "\<bar>sint b\<bar> \<le> 2 ^ 31" using sint_range32 [of a] sint_range32 [of b] by auto
  then have "\<bar>sint a * sint b\<bar> \<le> 2 ^ 31 * 2 ^ 31" unfolding abs_mult by (intro mult_mono) auto
  then show ?thesis by (simp add: Int32x32To64_def sint_word_ariths sint_up64_32 signed_take_bit_int_eq_self)
qed

text \<open>The difference of two readings, as the multiplication takes it.\<close>

lemma reading_gap:
  assumes "m \<le> n" and "n - m < 2 ^ 31"
  shows "sint (of_nat n - of_nat m :: u32) = int n - int m"
proof -
  have e: "(of_nat n - of_nat m :: u32) = word_of_int (int (n - m))" using assms by (simp add: of_nat_diff)
  show ?thesis unfolding e sint_eq_signed_take_bit using assms by (simp add: signed_take_bit_int_eq_self of_nat_diff)
qed

lemma private_time:
  assumes "m_dwPrevSystemTime c = of_nat m" and "m \<le> n" and "n - m < 2 ^ 31"
    and "0 \<le> sint (m_rtPrivateTime c)" and "sint (m_rtPrivateTime c) + 10000 * (int n - int m) < 2 ^ 63"
  shows "sint (fst (GetPrivateTime (of_nat n) c)) = sint (m_rtPrivateTime c) + 10000 * (int n - int m)"
  using assms reading_gap [OF assms(2,3)]
  by (simp add: GetPrivateTime_def Let_def sint_plus64 sint_Int32x32To64)

lemma ms_div: "0 \<le> sint t \<Longrightarrow> sint (ConvertToMilliseconds t) = sint t div 10000"
proof -
  assume t: "0 \<le> sint t"
  have "sint t div 10000 < 2 ^ 63" using sint_range64 [of t] t by (simp add: zdiv_less_iff)
  moreover have "0 \<le> sint t div 10000" using t by (simp add: pos_imp_zdiv_nonneg_iff)
  moreover have "tdiv (sint t) 10000 = sint t div 10000" using t by (cases "sint t = 0") (auto simp: tdiv_def sgn_if)
  ultimately show ?thesis by (simp add: ConvertToMilliseconds_def sint_in_range64)
qed

lemma uint_down32: "uint (ucast w :: u32) = take_bit 32 (sint w)" for w :: i64
proof -
  have "uint (ucast w :: u32) = take_bit 32 (uint w)" by (simp add: unsigned_ucast_eq)
  also have "uint w = take_bit 64 (sint w)" by (simp add: uint_sint)
  finally show ?thesis by simp
qed

section \<open>The wait of the advise thread\<close>

text \<open>The timeout for an earliest advise at \<open>nx\<close>.\<close>

definition wait_for :: "REFERENCE_TIME \<Rightarrow> REFERENCE_TIME \<Rightarrow> u32" where
  "wait_for rtNow nx =
     (let llWait = ConvertToMilliseconds (nx - rtNow) in if sint llWait > uint UINT_MAX then UINT_MAX else ucast llWait)"

lemma wait_for_value:
  assumes "0 \<le> sint rtNow" and "sint rtNow + 10000 < sint nx"
  shows "uint (wait_for rtNow nx) = min ((sint nx - sint rtNow) div 10000) (2 ^ 32 - 1)"
    and "0 < uint (wait_for rtNow nx)"
proof -
  have d: "sint (nx - rtNow) = sint nx - sint rtNow" using assms sint_range64 [of nx] by (intro sint_minus64) auto
  let ?m = "(sint nx - sint rtNow) div 10000"
  have m: "sint (ConvertToMilliseconds (nx - rtNow)) = ?m" using ms_div [of "nx - rtNow"] d assms by simp
  have p: "0 < ?m" using assms by (simp add: pos_imp_zdiv_pos_iff)
  have "uint (ucast (ConvertToMilliseconds (nx - rtNow)) :: u32) = ?m" if "?m < 2 ^ 32"
  proof -
    have "uint (ucast (ConvertToMilliseconds (nx - rtNow)) :: u32) = take_bit 32 (sint (ConvertToMilliseconds (nx - rtNow)))"
      by (rule uint_down32)
    then show ?thesis using that p m by (simp add: take_bit_int_eq_self)
  qed
  then show v: "uint (wait_for rtNow nx) = min ?m (2 ^ 32 - 1)"
    using m p by (auto simp: wait_for_def Let_def UINT_MAX_def min_def)
  show "0 < uint (wait_for rtNow nx)" using v p by simp
qed

lemma turn_result:
  assumes "m_pSchedule c = Some s" and "\<not> m_bAbort c" and r: "represents (s\<lparr>m_ev := False\<rparr>) as"
    and now: "GetPrivateTime now c = (rtNow, c1)" "0 \<le> sint rtNow" "sint rtNow < 2 ^ 61"
    and ok: "periods_ok (sint rtNow + 10000) as"
  shows "\<exists>nx s' as' fs. AdviseThread_turn now c =
      Some (Some (wait_for rtNow nx), c1\<lparr>m_pSchedule := Some s', m_rtNextAdvise := nx\<rparr>) \<and>
    represents s' as' \<and> mset as' = mset (remaining (sint rtNow + 10000) as) \<and>
    (\<forall>a \<in> set as'. sint rtNow + 10000 < due a) \<and> sint nx = (if as' = [] then max_time else due (hd as')) \<and>
    sint rtNow + 10000 < sint nx \<and>
    signals s' = signals s @ map snd fs \<and> mset fs = mset (concat (map (firings (sint rtNow + 10000)) as)) \<and>
    m_dwNextCookie s' = m_dwNextCookie s \<and> \<not> m_ev s' \<and> pool s' = pool s"
proof -
  have t: "sint (10000 + rtNow) = sint rtNow + 10000" using now sint_plus64 [of 10000 rtNow] by simp
  obtain nx s' as' fs where A: "Advise (10000 + rtNow) (s\<lparr>m_ev := False\<rparr>) = Some (nx, s')" "represents s' as'"
    "mset as' = mset (remaining (sint rtNow + 10000) as)" "\<forall>a \<in> set as'. sint rtNow + 10000 < due a"
    "sint nx = (if as' = [] then max_time else due (hd as'))"
    "signals s' = signals s @ map snd fs" "mset fs = mset (concat (map (firings (sint rtNow + 10000)) as))"
    "m_dwNextCookie s' = m_dwNextCookie s" "\<not> m_ev s'" "pool s' = pool s"
    using Advise_refines [OF r, of "10000 + rtNow"] ok unfolding t by auto
  have "sint rtNow + 10000 < sint nx" using A(4,5) now(3) by (cases as') (auto simp: max_time_def)
  moreover have "GetPrivateTime now (c\<lparr>m_pSchedule := Some (s\<lparr>m_ev := False\<rparr>)\<rparr>) =
      (rtNow, c1\<lparr>m_pSchedule := Some (s\<lparr>m_ev := False\<rparr>)\<rparr>)"
    using now(1) by (auto simp: GetPrivateTime_def Let_def)
  ultimately show ?thesis using assms(1,2) A
    by (intro exI [of _ nx] exI [of _ s'] exI [of _ as'] exI [of _ fs]) (simp add: AdviseThread_turn_def wait_for_def Let_def)
qed

section \<open>Clients, thread and system timer\<close>

text \<open>The clock with the system's milliseconds since some origin, the reading that \<open>GetPrivateTime\<close> took
  last, the moment at which the thread began its present wait and that at which the wait times out
  (\<open>None\<close> for \<open>INFINITE\<close>), and the times reported to clients.\<close>

record clock_sys =
  clk :: CBaseReferenceClock
  ms :: nat
  read_at :: nat
  slept_at :: nat
  wake_at :: "nat option"
  told :: "int list"

definition private_at :: "clock_sys \<Rightarrow> nat \<Rightarrow> int" where
  "private_at y n = sint (m_rtPrivateTime (clk y)) + 10000 * (int n - int (read_at y))"

text \<open>Steps: time passes, a client reads the clock, adds or cancels an advise or adjusts the clock, the thread
  wakes up when its event is set or its wait has timed out. It is assumed that the clock is read at
  least every 24 days, that the private time stays between 0 and \<open>2 ^ 61\<close> (7000 years), that cookies do
  not run out, that periods are below \<open>2 ^ 62\<close>, and that the clock is not put forward by less than half a millisecond,
  an adjustment that the code deliberately does not tell the thread.\<close>

inductive clock_step :: "clock_sys \<Rightarrow> clock_sys \<Rightarrow> bool" where
  tick: "Suc (ms y) - read_at y < 2 ^ 31 \<Longrightarrow> private_at y (Suc (ms y)) < 2 ^ 61 \<Longrightarrow>
    clock_step y (y\<lparr>ms := Suc (ms y)\<rparr>)"
| get_time: "GetTime (of_nat (ms y)) True (clk y) = (hr, Some t, c) \<Longrightarrow>
    clock_step y (y\<lparr>clk := c, read_at := ms y, told := told y @ [sint t]\<rparr>)"
| advise_time: "m_pSchedule (clk y) = Some s \<Longrightarrow> m_dwNextCookie s \<noteq> - 1 \<Longrightarrow> AdviseTime b t h p (clk y) = Some (hr, k, c) \<Longrightarrow>
    clock_step y (y\<lparr>clk := c\<rparr>)"
| advise_periodic: "m_pSchedule (clk y) = Some s \<Longrightarrow> m_dwNextCookie s \<noteq> - 1 \<Longrightarrow> sint d < 2 ^ 62 \<Longrightarrow>
    AdvisePeriodic t d h p (clk y) = Some (hr, k, c) \<Longrightarrow> clock_step y (y\<lparr>clk := c\<rparr>)"
| unadvise: "clock_Unadvise k (clk y) = Some (hr, c) \<Longrightarrow> clock_step y (y\<lparr>clk := c\<rparr>)"
| adjust: "sint d \<le> 0 \<or> 5000 < sint d \<Longrightarrow> 0 \<le> sint (m_rtPrivateTime (clk y)) + sint d \<Longrightarrow>
    private_at y (ms y) + sint d < 2 ^ 61 \<Longrightarrow> SetTimeDelta d (clk y) = Some (hr, c) \<Longrightarrow> clock_step y (y\<lparr>clk := c\<rparr>)"
| thread: "m_pSchedule (clk y) = Some s \<Longrightarrow> m_ev s \<or> (\<exists>w \<le> ms y. wake_at y = Some w) \<Longrightarrow>
    AdviseThread_turn (of_nat (ms y)) (clk y) = Some (Some dw, c) \<Longrightarrow>
    clock_step y (y\<lparr>clk := c, read_at := ms y, slept_at := ms y,
      wake_at := (if dw = INFINITE then None else Some (ms y + unat dw))\<rparr>)"

definition clock_init :: "seg \<Rightarrow> CAdvisePacket \<Rightarrow> u32 option \<Rightarrow> nat \<Rightarrow> REFERENCE_TIME \<Rightarrow> clock_sys" where
  "clock_init memory g tc n garbage = \<lparr>
     clk = snd (new_CBaseReferenceClock None (Some (new_CAMSchedule memory g)) tc (of_nat n) True garbage S_OK),
     ms = n, read_at = n, slept_at = n, wake_at = None, told = []\<rparr>"

inductive clock_reachable :: "clock_sys \<Rightarrow> bool" where
  init: "memory_ok m \<Longrightarrow> length m + 2 < 2 ^ 32 \<Longrightarrow> clock_reachable (clock_init m g tc n garbage)"
| step: "clock_reachable y \<Longrightarrow> clock_step y y' \<Longrightarrow> clock_reachable y'"

section \<open>The invariant\<close>

text \<open>The private time before which, with its event not set, the thread may go on sleeping.\<close>

definition horizon :: "clock_sys \<Rightarrow> int" where
  "horizon y = (case wake_at y of Some w \<Rightarrow> private_at y w
     | None \<Rightarrow> private_at y (slept_at y) + 10000 * (2 ^ 32 - 1))"

definition time_inv :: "clock_sys \<Rightarrow> bool" where
  "time_inv y \<longleftrightarrow> \<not> m_bAbort (clk y) \<and> m_dwPrevSystemTime (clk y) = of_nat (read_at y) \<and> read_at y \<le> ms y \<and>
     ms y - read_at y < 2 ^ 31 \<and> 0 \<le> sint (m_rtPrivateTime (clk y)) \<and> private_at y (ms y) < 2 ^ 61 \<and>
     sorted (told y) \<and> (\<forall>t \<in> set (told y). t \<le> sint (m_rtLastGotTime (clk y)))"

definition agenda_inv :: "clock_sys \<Rightarrow> CAMSchedule \<Rightarrow> advise list \<Rightarrow> bool" where
  "agenda_inv y s as \<longleftrightarrow> m_pSchedule (clk y) = Some s \<and> represents s as \<and> finite (pool s) \<and> card (pool s) < 2 ^ 32 \<and>
     (\<forall>a \<in> set as. periodic a \<longrightarrow> 0 < period a \<and> period a < 2 ^ 62) \<and>
     (\<not> m_ev s \<longrightarrow> (\<forall>a \<in> set as. horizon y \<le> due a))"

definition clock_inv :: "clock_sys \<Rightarrow> bool" where
  "clock_inv y \<longleftrightarrow> time_inv y \<and> (\<exists>s as. agenda_inv y s as)"

lemma represents_ev [simp]: "represents (s\<lparr>m_ev := e\<rparr>) as = represents s as"
  by (simp add: represents_def)

lemma length_pool:
  assumes "represents s as" and "finite (pool s)"
  shows "length as + 2 \<le> card (pool s)"
proof -
  from assms obtain hk ps cs where l: "layout s ((Head, hk) # ps) cs []" and as: "length as = length ps"
    by (auto simp: represents_def)
  then have "set (Z # Head # map fst ps) \<subseteq> pool s" "distinct (Z # Head # map fst ps)"
    by (auto simp: layout_def pool_def)
  from card_mono [OF assms(2) this(1)] distinct_card [OF this(2)] show ?thesis by (simp add: as)
qed

lemma read_clock:
  assumes "time_inv y" and "GetPrivateTime (of_nat (ms y)) (clk y) = (t, c)"
  shows "sint t = private_at y (ms y)" "m_rtPrivateTime c = t" "m_dwPrevSystemTime c = of_nat (ms y)"
    "m_pSchedule c = m_pSchedule (clk y)" "m_bAbort c = m_bAbort (clk y)" "m_rtLastGotTime c = m_rtLastGotTime (clk y)"
    "0 \<le> sint t" "sint t < 2 ^ 61"
proof -
  show t: "sint t = private_at y (ms y)"
    using private_time [of "clk y" "read_at y" "ms y"] assms by (simp add: time_inv_def private_at_def)
  then show "0 \<le> sint t" "sint t < 2 ^ 61" using assms(1) by (auto simp: time_inv_def private_at_def)
qed (use assms(2) in \<open>auto simp: GetPrivateTime_def Let_def\<close>)

lemma time_inv_same:
  assumes "time_inv y" and "m_bAbort c = m_bAbort (clk y)" "m_dwPrevSystemTime c = m_dwPrevSystemTime (clk y)"
    "m_rtPrivateTime c = m_rtPrivateTime (clk y)" "m_rtLastGotTime c = m_rtLastGotTime (clk y)"
  shows "time_inv (y\<lparr>clk := c\<rparr>)" "horizon (y\<lparr>clk := c\<rparr>) = horizon y"
  using assms by (simp_all add: time_inv_def private_at_def horizon_def split: option.splits)

lemma inv_init: "memory_ok m \<Longrightarrow> length m + 2 < 2 ^ 32 \<Longrightarrow> clock_inv (clock_init m g tc n garbage)"
proof -
  assume m: "memory_ok m" "length m + 2 < 2 ^ 32"
  have u: "uint (of_nat n :: u32) < 2 ^ 32" using uint_lt2p [of "of_nat n :: u32"] by simp
  have "sint (word_of_int 10000 * ucast (of_nat n :: u32) :: i64) = 10000 * uint (of_nat n :: u32)"
  proof -
    have l: "- (2 ^ 63) \<le> uint (of_nat n :: u32)" "- (2 ^ 63) \<le> 10000 * uint (of_nat n :: u32)"
      by (rule order_trans [where y = 0]; simp)+
    have "sint (ucast (of_nat n :: u32) :: i64) = uint (of_nat n :: u32)"
      using u l by (simp add: sint_uint unsigned_ucast_eq signed_take_bit_int_eq_self take_bit_int_eq_self)
    then show ?thesis using u l by (simp add: sint_word_ariths signed_take_bit_int_eq_self)
  qed
  then have "time_inv (clock_init m g tc n garbage)"
    using u by (simp add: time_inv_def private_at_def clock_init_def new_CBaseReferenceClock_def Let_def)
  moreover have "pool (new_CAMSchedule m g) = {Head, Z} \<union> set (map fst m)"
    by (auto simp: pool_def new_CAMSchedule_def split: if_splits)
  then have "finite (pool (new_CAMSchedule m g))" "card (pool (new_CAMSchedule m g)) < 2 ^ 32"
    using m card_Un_le [of "{Head, Z}" "set (map fst m)"] card_length [of "map fst m"] by auto
  then have "agenda_inv (clock_init m g tc n garbage) (new_CAMSchedule m g) []"
    using new_represents [OF m(1)] by (simp add: agenda_inv_def clock_init_def new_CBaseReferenceClock_def Let_def)
  ultimately show ?thesis by (auto simp: clock_inv_def)
qed

text \<open>A step of a client or of the clock that leaves the schedule alone.\<close>

lemma agenda_inv_same:
  assumes "agenda_inv y s as" and "m_pSchedule (clk y') = m_pSchedule (clk y)" and "horizon y' \<le> horizon y"
  shows "agenda_inv y' s as"
  using assms by (auto simp: agenda_inv_def intro: order_trans)

lemma inv_tick: "clock_inv y \<Longrightarrow> Suc (ms y) - read_at y < 2 ^ 31 \<Longrightarrow> private_at y (Suc (ms y)) < 2 ^ 61 \<Longrightarrow>
    clock_inv (y\<lparr>ms := Suc (ms y)\<rparr>)"
proof -
  assume a: "clock_inv y" "Suc (ms y) - read_at y < 2 ^ 31" "private_at y (Suc (ms y)) < 2 ^ 61"
  let ?y = "y\<lparr>ms := Suc (ms y)\<rparr>"
  have pa: "private_at ?y n = private_at y n" for n by (simp add: private_at_def)
  have "time_inv ?y" using a by (auto simp: clock_inv_def time_inv_def pa)
  moreover have "horizon ?y = horizon y" by (simp add: horizon_def pa split: option.splits)
  ultimately show ?thesis using a(1) agenda_inv_same [of y _ _ ?y] by (auto simp: clock_inv_def)
qed

lemma private_at_read:
  assumes "time_inv y" and "GetPrivateTime (of_nat (ms y)) (clk y) = (t, c0)" and "m_rtPrivateTime c = m_rtPrivateTime c0"
  shows "private_at (y\<lparr>clk := c, read_at := ms y, slept_at := sl, wake_at := w, told := ts\<rparr>) n = private_at y n"
  using read_clock(1,2) [OF assms(1,2)] assms(3) by (simp add: private_at_def)

lemma inv_get_time:
  assumes "clock_inv y" and "GetTime (of_nat (ms y)) True (clk y) = (hr, Some t, c)"
  shows "clock_inv (y\<lparr>clk := c, read_at := ms y, told := told y @ [sint t]\<rparr>)"
proof -
  obtain p c0 where g: "GetPrivateTime (of_nat (ms y)) (clk y) = (p, c0)" by fastforce
  have ti: "time_inv y" using assms(1) by (simp add: clock_inv_def)
  note rc = read_clock [OF ti g]
  have c: "t = m_rtLastGotTime c" "m_rtPrivateTime c = m_rtPrivateTime c0" "m_dwPrevSystemTime c = m_dwPrevSystemTime c0"
    "m_pSchedule c = m_pSchedule c0" "m_bAbort c = m_bAbort c0" "sint (m_rtLastGotTime (clk y)) \<le> sint t"
    using assms(2) g rc(6) by (auto simp: GetTime_def Let_def split: if_splits)
  let ?y = "y\<lparr>clk := c, read_at := ms y, told := told y @ [sint t]\<rparr>"
  have pa: "private_at ?y n = private_at y n" for n
    using private_at_read [OF ti g c(2), where sl = "slept_at y" and w = "wake_at y" and ts = "told y @ [sint t]" and n = n] by simp
  have "time_inv ?y" using ti rc c pa [of "ms y"] by (auto simp: time_inv_def sorted_append intro: order_trans)
  moreover have "horizon ?y = horizon y" by (simp add: horizon_def pa split: option.splits)
  ultimately show ?thesis using assms(1) c rc agenda_inv_same [of y _ _ ?y] by (auto simp: clock_inv_def)
qed

lemma inv_set_schedule:
  assumes ti: "time_inv y" and ai: "agenda_inv y s as" and r: "represents s' as'" and p: "pool s' = pool s"
    and per: "\<forall>a \<in> set as'. periodic a \<longrightarrow> 0 < period a \<and> period a < 2 ^ 62"
    and h: "\<not> m_ev s' \<longrightarrow> (\<forall>a \<in> set as'. horizon y \<le> due a)"
  shows "clock_inv (y\<lparr>clk := (clk y)\<lparr>m_pSchedule := Some s'\<rparr>\<rparr>)"
proof -
  let ?y = "y\<lparr>clk := (clk y)\<lparr>m_pSchedule := Some s'\<rparr>\<rparr>"
  have "time_inv ?y" "horizon ?y = horizon y" using time_inv_same [OF ti] by simp_all
  moreover have "agenda_inv ?y s' as'" using ai r p per h calculation(2) by (simp add: agenda_inv_def)
  ultimately show ?thesis by (auto simp: clock_inv_def)
qed

lemma inv_add:
  assumes ti: "time_inv y" and ai: "agenda_inv y s as" and n: "m_dwNextCookie s \<noteq> - 1" and t: "sint t < max_time"
    and d: "b \<longrightarrow> 0 < sint d \<and> sint d < 2 ^ 62" and add: "AddAdvisePacket t d h b s = Some (k, s')"
  shows "clock_inv (y\<lparr>clk := (clk y)\<lparr>m_pSchedule := Some s'\<rparr>\<rparr>)"
proof (cases "room s")
  case False
  then have "s' = s" using AddAdvisePacket_refines [of s as t _ d h b] ai t n add by (auto simp: agenda_inv_def)
  then show ?thesis using inv_set_schedule [OF ti ai, of s as] ai by (simp add: agenda_inv_def)
next
  case True
  let ?a = "new_advise (m_dwNextCookie s + 1) t d h b"
  have r: "represents s' (insert_new ?a as)" "pool s' = pool s" "m_ev s' = (m_ev s \<or> as = [] \<or> due ?a \<le> due (hd as))"
    using AddAdvisePacket_refines [of s as t _ d h b] ai t n add True by (auto simp: agenda_inv_def)
  have "\<not> m_ev s' \<longrightarrow> (\<forall>a \<in> set (insert_new ?a as). horizon y \<le> due a)"
    using ai r(3) by (cases as) (auto simp: agenda_inv_def intro: order_trans)
  then show ?thesis using inv_set_schedule [OF ti ai r(1,2)] ai d by (auto simp: agenda_inv_def new_advise_def)
qed

lemma inv_unadvise:
  assumes "clock_inv y" and "clock_Unadvise k (clk y) = Some (hr, c)"
  shows "clock_inv (y\<lparr>clk := c\<rparr>)"
proof -
  from assms(1) obtain s as where ti: "time_inv y" and ai: "agenda_inv y s as" by (auto simp: clock_inv_def)
  then have r: "represents s as" and s: "m_pSchedule (clk y) = Some s" by (simp_all add: agenda_inv_def)
  from Unadvise_refines [OF r, of k] obtain s' where s': "Unadvise k s = Some (if k \<in> cookie ` set as then S_OK else S_FALSE, s')"
    "represents s' (filter (\<lambda>a. cookie a \<noteq> k) as)" "m_ev s' = m_ev s" "pool s' = pool s" by blast
  have "c = (clk y)\<lparr>m_pSchedule := Some s'\<rparr>" using assms(2) s s'(1) by (simp add: clock_Unadvise_def)
  then show ?thesis using inv_set_schedule [OF ti ai s'(2,4)] ai s'(3) by (auto simp: agenda_inv_def)
qed

lemma less_max_time: "t \<noteq> MAX_TIME \<Longrightarrow> sint t < max_time"
  using le_max_time [of t] by (metis order.not_eq_order_implies_strict signed_word_eqI sint_MAX_TIME)

lemma inv_advise_time:
  assumes "clock_inv y" and "m_pSchedule (clk y) = Some s" "m_dwNextCookie s \<noteq> - 1"
    and "AdviseTime b t h p (clk y) = Some (hr, k, c)"
  shows "clock_inv (y\<lparr>clk := c\<rparr>)"
proof -
  from assms(1,2) obtain as where ti: "time_inv y" and ai: "agenda_inv y s as" by (auto simp: clock_inv_def agenda_inv_def)
  from assms(2,4) consider "c = clk y"
    | s' where "AddAdvisePacket (b + t) 0 h False s = Some (k, s')" "c = (clk y)\<lparr>m_pSchedule := Some s'\<rparr>" "b + t \<noteq> MAX_TIME"
    by (auto simp: AdviseTime_def Let_def split: if_splits bind_splits prod.splits)
  then show ?thesis
  proof cases
    case 1
    then show ?thesis using assms(1) by simp
  next
    case 2
    then show ?thesis using inv_add [OF ti ai assms(3) less_max_time [OF 2(3)] _ 2(1)] by simp
  qed
qed

lemma inv_advise_periodic:
  assumes "clock_inv y" and "m_pSchedule (clk y) = Some s" "m_dwNextCookie s \<noteq> - 1" "sint d < 2 ^ 62"
    and "AdvisePeriodic t d h p (clk y) = Some (hr, k, c)"
  shows "clock_inv (y\<lparr>clk := c\<rparr>)"
proof -
  from assms(1,2) obtain as where ti: "time_inv y" and ai: "agenda_inv y s as" by (auto simp: clock_inv_def agenda_inv_def)
  from assms(2,5) consider "c = clk y"
    | s' where "AddAdvisePacket t d h True s = Some (k, s')" "c = (clk y)\<lparr>m_pSchedule := Some s'\<rparr>" "t \<noteq> MAX_TIME" "0 < sint d"
    by (auto simp: AdvisePeriodic_def Let_def split: if_splits bind_splits prod.splits)
  then show ?thesis
  proof cases
    case 1
    then show ?thesis using assms(1) by simp
  next
    case 2
    then show ?thesis using inv_add [OF ti ai assms(3) less_max_time [OF 2(3)] _ 2(1)] assms(4) by simp
  qed
qed

lemma inv_adjust:
  assumes "clock_inv y" and d: "sint d \<le> 0 \<or> 5000 < sint d" "0 \<le> sint (m_rtPrivateTime (clk y)) + sint d"
    "private_at y (ms y) + sint d < 2 ^ 61" and c: "SetTimeDelta d (clk y) = Some (hr, c)"
  shows "clock_inv (y\<lparr>clk := c\<rparr>)"
proof -
  from assms(1) obtain s as where ti: "time_inv y" and ai: "agenda_inv y s as" by (auto simp: clock_inv_def)
  then have r: "represents s as" and s: "m_pSchedule (clk y) = Some s" by (simp_all add: agenda_inv_def)
  let ?c = "(clk y)\<lparr>m_rtPrivateTime := m_rtPrivateTime (clk y) + d\<rparr>" and ?y = "y\<lparr>clk := c\<rparr>"
  have "0 < m_dwAdviseCount s \<longleftrightarrow> as \<noteq> []"
  proof -
    have "length as < 2 ^ 32" using length_pool [OF r] ai by (simp add: agenda_inv_def)
    then show ?thesis using r by (simp add: represents_def word_less_nat_alt unat_of_nat)
  qed
  then have cc: "c = (if 5000 < sint d \<and> as \<noteq> [] then ?c\<lparr>m_pSchedule := Some (s\<lparr>m_ev := True\<rparr>)\<rparr> else ?c)"
    using c s by (auto simp: SetTimeDelta_def TriggerThread_def GetAdviseCount_def Let_def split: if_splits)
  have "private_at y (ms y) = sint (m_rtPrivateTime (clk y)) + 10000 * (int (ms y) - int (read_at y))" "read_at y \<le> ms y"
    using ti by (simp_all add: private_at_def time_inv_def)
  then have sum: "sint (m_rtPrivateTime (clk y) + d) = sint (m_rtPrivateTime (clk y)) + sint d"
    using d by (intro sint_plus64) auto
  have pa: "private_at ?y n = private_at y n + sint d" for n using cc sum by (simp add: private_at_def)
  have "time_inv ?y" using ti cc sum d pa [of "ms y"] by (simp add: time_inv_def)
  moreover have h: "horizon ?y = horizon y + sint d" by (simp add: horizon_def pa split: option.splits)
  moreover have "agenda_inv ?y (if 5000 < sint d \<and> as \<noteq> [] then s\<lparr>m_ev := True\<rparr> else s) as"
    using ai cc h d(1) s by (auto simp: agenda_inv_def)
  ultimately show ?thesis by (auto simp: clock_inv_def)
qed

lemma inv_thread:
  assumes "clock_inv y" and "AdviseThread_turn (of_nat (ms y)) (clk y) = Some (Some dw, c)"
  shows "clock_inv (y\<lparr>clk := c, read_at := ms y, slept_at := ms y,
      wake_at := (if dw = INFINITE then None else Some (ms y + unat dw))\<rparr>)" (is "clock_inv ?y")
proof -
  from assms(1) obtain s as where ti: "time_inv y" and ai: "agenda_inv y s as" by (auto simp: clock_inv_def)
  obtain rtNow c1 where g: "GetPrivateTime (of_nat (ms y)) (clk y) = (rtNow, c1)" by fastforce
  note rc = read_clock [OF ti g]
  have ok: "periods_ok (sint rtNow + 10000) as" using ai rc(8) by (auto simp: agenda_inv_def periods_ok_def max_time_def)
  have pre: "m_pSchedule (clk y) = Some s" "\<not> m_bAbort (clk y)" "represents (s\<lparr>m_ev := False\<rparr>) as"
    using ai ti by (simp_all add: agenda_inv_def time_inv_def)
  from turn_result [OF pre g rc(7,8) ok] assms(2) obtain nx s' as' where dw: "dw = wait_for rtNow nx"
    and c: "c = c1\<lparr>m_pSchedule := Some s', m_rtNextAdvise := nx\<rparr>" and r: "represents s' as'"
    and m: "mset as' = mset (remaining (sint rtNow + 10000) as)"
    and nx: "sint nx = (if as' = [] then max_time else due (hd as'))" "sint rtNow + 10000 < sint nx"
    and p: "\<not> m_ev s'" "pool s' = pool s" by auto
  have pa: "private_at ?y n = private_at y n" for n
    using private_at_read [OF ti g, of c] c by (simp add: private_at_def)
  have "time_inv ?y" using ti rc c pa [of "ms y"] by (simp add: time_inv_def)
  moreover have "horizon ?y \<le> sint nx"
  proof -
    have v: "uint dw = min ((sint nx - sint rtNow) div 10000) (2 ^ 32 - 1)" using wait_for_value(1) [OF rc(7) nx(2)] dw by simp
    have "10000 * ((sint nx - sint rtNow) div 10000) \<le> sint nx - sint rtNow" by simp
    then have le: "sint rtNow + 10000 * uint dw \<le> sint nx" using v by linarith
    have pm: "private_at y (ms y + k) = sint rtNow + 10000 * int k" for k
      using rc(1) by (simp add: private_at_def algebra_simps)
    have "horizon ?y = sint rtNow + 10000 * uint dw"
    proof (cases "dw = INFINITE")
      case True
      then have "horizon ?y = private_at y (ms y) + 10000 * (2 ^ 32 - 1)" by (simp add: horizon_def pa [unfolded True, simplified])
      then show ?thesis using rc(1) True by (simp add: INFINITE_def)
    next
      case False
      then have "horizon ?y = private_at ?y (ms y + unat dw)" by (simp add: horizon_def)
      also have "\<dots> = sint rtNow + 10000 * int (unat dw)" by (simp only: pa pm)
      finally show ?thesis by simp
    qed
    then show ?thesis using le by simp
  qed
  moreover have "sint nx \<le> due a" if "a \<in> set as'" for a
    using nx(1) that r by (cases as') (auto simp: represents_def agenda_def)
  moreover have "\<forall>a \<in> set as'. periodic a \<longrightarrow> 0 < period a \<and> period a < 2 ^ 62"
  proof -
    have "set as' = set (remaining (sint rtNow + 10000) as)" using m by (metis set_mset_mset)
    then show ?thesis using ai by (auto simp: agenda_inv_def remaining_def)
  qed
  ultimately have "time_inv ?y" "agenda_inv ?y s' as'" using ai r c p by (auto simp: agenda_inv_def intro: order_trans)
  then show ?thesis unfolding clock_inv_def by blast
qed

lemma clock_reachable_inv: "clock_reachable y \<Longrightarrow> clock_inv y"
proof (induction rule: clock_reachable.induct)
  case (step y y')
  from step(2) show ?case
  proof cases
    case tick
    then show ?thesis using inv_tick [OF step(3)] by simp
  next
    case (get_time hr t c)
    then show ?thesis using inv_get_time [OF step(3)] by simp
  next
    case (advise_time s b t h p hr k c)
    then show ?thesis using inv_advise_time [OF step(3)] by simp
  next
    case (advise_periodic s d t h p hr k c)
    then show ?thesis using inv_advise_periodic [OF step(3)] by simp
  next
    case (unadvise k hr c)
    then show ?thesis using inv_unadvise [OF step(3)] by simp
  next
    case (adjust d hr c)
    then show ?thesis using inv_adjust [OF step(3)] by simp
  next
    case (thread s dw c)
    then show ?thesis using inv_thread [OF step(3), of dw c] by simp
  qed
qed (rule inv_init)

section \<open>Timer resolution\<close>

text \<open>The requests for a timer resolution that have not been taken back.\<close>

fun outstanding :: "timer_call list \<Rightarrow> u32 \<Rightarrow> int" where
  "outstanding [] p = 0"
| "outstanding (timeBeginPeriod q # cs) p = (if q = p then 1 else 0) + outstanding cs p"
| "outstanding (timeEndPeriod q # cs) p = (if q = p then - 1 else 0) + outstanding cs p"

lemma outstanding_append [simp]: "outstanding (xs @ ys) p = outstanding xs p + outstanding ys p"
  by (induction xs p rule: outstanding.induct) auto

definition resolutions :: "(u32 option \<times> REFERENCE_TIME) list \<Rightarrow> CBaseReferenceClock \<Rightarrow> CBaseReferenceClock" where
  "resolutions rs c = foldl (\<lambda>c (tc, r). snd (SetDefaultTimerResolution tc r c)) c rs"

lemma outstanding_resolutions:
  assumes "p \<noteq> 0" and "outstanding (timer_calls c) p = (if p = m_TimerResolution c then 1 else 0)"
  shows "outstanding (timer_calls (resolutions rs c)) p = (if p = m_TimerResolution (resolutions rs c) then 1 else 0)"
  using assms
proof (induction rs arbitrary: c)
  case (Cons x rs)
  obtain tc r where x: "x = (tc, r)" by (cases x)
  have "outstanding (timer_calls (snd (SetDefaultTimerResolution tc r c))) p =
      (if p = m_TimerResolution (snd (SetDefaultTimerResolution tc r c)) then 1 else 0)"
    using Cons.prems by (auto simp: SetDefaultTimerResolution_def Let_def)
  from Cons.IH [OF Cons.prems(1) this] show ?case by (simp add: resolutions_def x)
qed (simp add: resolutions_def)

text \<open>Whatever resolutions are set, the request in force is the one outstanding, and the destructor takes it
  back. The requests are not paired exactly, though: setting a resolution after it had been switched off first
  takes back a request for the period 0 that was never made.\<close>

lemma timer_requests_returned:
  assumes "p \<noteq> 0" and "new_CBaseReferenceClock None (Some s) tc now False garbage S_OK = (hr, c)"
    and "CBaseReferenceClock_destructor (resolutions rs c) = Some c'"
  shows "outstanding (timer_calls c') p = 0"
proof -
  have "outstanding (timer_calls c) p = (if p = m_TimerResolution c then 1 else 0)" "\<not> m_hThread c"
    using assms(1,2) by (auto simp: new_CBaseReferenceClock_def Let_def split: if_splits)
  moreover have "m_hThread (resolutions rs c) = m_hThread c"
    unfolding resolutions_def
    by (induction rs arbitrary: c) (auto simp: SetDefaultTimerResolution_def Let_def split: prod.splits)
  ultimately show ?thesis
    using outstanding_resolutions [OF assms(1), of c rs] assms(1,3)
    by (auto simp: CBaseReferenceClock_destructor_def split: if_splits)
qed

lemma timer_request_unpaired:
  "m_TimerResolution c \<noteq> 0 \<Longrightarrow> timer_calls (resolutions [(Some 1, 0), (Some 1, 50000)] c) =
     timer_calls c @ [timeEndPeriod (m_TimerResolution c), timeEndPeriod 0, timeBeginPeriod 5]"
  by (simp add: resolutions_def SetDefaultTimerResolution_def Let_def tdiv_def timer_period_def max_def)

section \<open>Properties\<close>

lemma firings_due: "due a \<le> t \<Longrightarrow> (due a, signal_of a) \<in> set (firings t a)"
  by (force simp: firings_def times_due_def)

lemma fired_set:
  assumes "mset fs = mset (concat (map (firings t) as))" and "a \<in> set as" and "due a \<le> t"
  shows "signal_of a \<in> set (map snd fs)"
proof -
  have "(due a, signal_of a) \<in> set (concat (map (firings t) as))" using firings_due [OF assms(3)] assms(2) by auto
  then have "(due a, signal_of a) \<in> set fs" using assms(1) by (metis set_mset_mset)
  then show ?thesis by force
qed

text \<open>A turn of the thread signals what is due and leaves nothing due behind.\<close>

lemma turn_signals_due:
  assumes ti: "time_inv y" and ai: "agenda_inv y s as"
  shows "\<exists>dw c s' as' ss. AdviseThread_turn (of_nat (ms y)) (clk y) = Some (Some dw, c) \<and> 0 < dw \<and>
    m_pSchedule c = Some s' \<and> represents s' as' \<and> signals s' = signals s @ ss \<and>
    (\<forall>a \<in> set as. due a \<le> private_at y (ms y) \<longrightarrow> signal_of a \<in> set ss) \<and> (\<forall>a \<in> set as'. private_at y (ms y) < due a)"
proof -
  obtain rtNow c1 where g: "GetPrivateTime (of_nat (ms y)) (clk y) = (rtNow, c1)" by fastforce
  note rc = read_clock [OF ti g]
  have ok: "periods_ok (sint rtNow + 10000) as" using ai rc(8) by (auto simp: agenda_inv_def periods_ok_def max_time_def)
  have pre: "m_pSchedule (clk y) = Some s" "\<not> m_bAbort (clk y)" "represents (s\<lparr>m_ev := False\<rparr>) as"
    using ai ti by (simp_all add: agenda_inv_def time_inv_def)
  obtain nx s' as' fs where t: "AdviseThread_turn (of_nat (ms y)) (clk y) =
      Some (Some (wait_for rtNow nx), c1\<lparr>m_pSchedule := Some s', m_rtNextAdvise := nx\<rparr>)"
    "represents s' as'" "\<forall>a \<in> set as'. sint rtNow + 10000 < due a" "sint rtNow + 10000 < sint nx"
    "signals s' = signals s @ map snd fs" "mset fs = mset (concat (map (firings (sint rtNow + 10000)) as))"
    using turn_result [OF pre g rc(7,8) ok] by blast
  have "0 < wait_for rtNow nx" using wait_for_value(2) [OF rc(7) t(4)] by (simp add: word_less_def)
  moreover have "\<forall>a \<in> set as. due a \<le> private_at y (ms y) \<longrightarrow> signal_of a \<in> set (map snd fs)"
    using fired_set [OF t(6)] rc(1) by force
  moreover have "\<forall>a \<in> set as'. private_at y (ms y) < due a" using t(3) rc(1) by auto
  ultimately show ?thesis
    using t(1,2,5) by (intro exI [of _ "wait_for rtNow nx"] exI [of _ "c1\<lparr>m_pSchedule := Some s', m_rtNextAdvise := nx\<rparr>"]
      exI [of _ s'] exI [of _ as'] exI [of _ "map snd fs"]) simp
qed

text \<open>C17. Whatever clients do and however late the advise thread is scheduled, the times reported never
  decrease, and whenever an advise is overdue the thread is ready to run: if its event is not set and its wait has not
  timed out, every advise lies in the future. (A wait without timeout is entered only when every
  advise is \<open>2 ^ 32 - 1\<close> milliseconds or more ahead.) When the thread runs, its turn ends without a
  fault, every advise that is due has been signalled, none that is due is left, and the next timeout is
  positive, so that the thread does not spin.\<close>

theorem clock_punctual:
  assumes "clock_reachable y"
  shows "\<exists>s as. m_pSchedule (clk y) = Some s \<and> represents s as \<and> sorted (told y) \<and>
    (if m_ev s \<or> (\<exists>w \<le> ms y. wake_at y = Some w) then
       (\<exists>dw c s' as' ss. AdviseThread_turn (of_nat (ms y)) (clk y) = Some (Some dw, c) \<and> 0 < dw \<and>
          m_pSchedule c = Some s' \<and> represents s' as' \<and> signals s' = signals s @ ss \<and>
          (\<forall>a \<in> set as. due a \<le> private_at y (ms y) \<longrightarrow> signal_of a \<in> set ss) \<and>
          (\<forall>a \<in> set as'. private_at y (ms y) < due a))
     else (case wake_at y of Some w \<Rightarrow> (\<forall>a \<in> set as. private_at y (ms y) < due a)
           | None \<Rightarrow> (\<forall>a \<in> set as. private_at y (slept_at y) + 10000 * (2 ^ 32 - 1) \<le> due a)))"
proof -
  from clock_reachable_inv [OF assms] obtain s as where ti: "time_inv y" and ai: "agenda_inv y s as" by (auto simp: clock_inv_def)
  note run = turn_signals_due [OF ti ai]
  have pre: "m_pSchedule (clk y) = Some s" using ai by (simp add: agenda_inv_def)
  have rest: "case wake_at y of Some w \<Rightarrow> (\<forall>a \<in> set as. private_at y (ms y) < due a)
      | None \<Rightarrow> (\<forall>a \<in> set as. private_at y (slept_at y) + 10000 * (2 ^ 32 - 1) \<le> due a)"
    if "\<not> (m_ev s \<or> (\<exists>w \<le> ms y. wake_at y = Some w))"
  proof (cases "wake_at y")
    case None
    then show ?thesis using ai that by (simp add: agenda_inv_def horizon_def)
  next
    case (Some w)
    then have "private_at y (ms y) < private_at y w" using that by (auto simp: private_at_def not_le)
    moreover have "\<forall>a \<in> set as. private_at y w \<le> due a" using ai that Some by (simp add: agenda_inv_def horizon_def)
    ultimately show ?thesis using Some by auto
  qed
  have "represents s as" "sorted (told y)" using ai ti by (simp_all add: agenda_inv_def time_inv_def)
  then show ?thesis using pre run rest
    by (intro exI [of _ s] exI [of _ as] conjI)
      (assumption | cases "m_ev s \<or> (\<exists>w \<le> ms y. wake_at y = Some w)"; simp only: if_True if_False)+
qed


text \<open>Reachability of a running clock for the instances below.\<close>

definition clock0 :: clock_sys where
  "clock0 = clock_init [(Pkt 0, packet0), (Pkt 1, packet0)] packet0 (Some 1) 1000 0"

lemma clock0: "clock_reachable clock0"
  unfolding clock0_def by (rule clock_reachable.init) (simp_all add: memory_ok_def)

lemma clock0_eval:
  "m_pSchedule (clk clock0) = Some schedule0" "ms clock0 = 1000" "read_at clock0 = 1000" "wake_at clock0 = None"
  "m_rtPrivateTime (clk clock0) = 10000000" "m_dwPrevSystemTime (clk clock0) = 1000" "\<not> m_bAbort (clk clock0)"
  "m_rtLastGotTime (clk clock0) = 0"
  by (simp_all add: clock0_def clock_init_def new_CBaseReferenceClock_def Let_def schedule0_def)

text \<open>An advise 50 ms ahead sets the event of the thread, which is ready to run.\<close>

lemma clock1:
  "\<exists>y s. clock_reachable y \<and> m_pSchedule (clk y) = Some s \<and> represents s [new_advise 1 10500000 0 7 False] \<and> m_ev s \<and>
     ms y = 1000 \<and> private_at y 1000 = 10000000"
proof -
  obtain s where s: "AddAdvisePacket 10500000 0 7 False schedule0 = Some (1, s)" "represents s [new_advise 1 10500000 0 7 False]" "m_ev s"
    using AddAdvisePacket_refines [OF schedule0(1) _ _ refl, of 10500000 0 7 False] schedule0
    by (auto simp: insert_new_def max_time_def)
  let ?c = "(clk clock0)\<lparr>m_pSchedule := Some s\<rparr>"
  have "AdviseTime 10000000 500000 7 True (clk clock0) = Some (NOERROR, 1, ?c)"
    using s(1) clock0_eval by (simp add: AdviseTime_def MAX_TIME_def Let_def)
  then have "clock_step clock0 (clock0\<lparr>clk := ?c\<rparr>)"
    using clock_step.advise_time [OF clock0_eval(1)] schedule0(3) by simp
  then have "clock_reachable (clock0\<lparr>clk := ?c\<rparr>)" using clock_reachable.step [OF clock0] by blast
  then show ?thesis using s clock0_eval
    by (intro exI [of _ "clock0\<lparr>clk := ?c\<rparr>"] exI [of _ s]) (simp add: private_at_def)
qed

theorem clock_punctual_witness:
  "\<exists>y s dw c. clock_reachable y \<and> m_pSchedule (clk y) = Some s \<and> m_ev s \<and>
     AdviseThread_turn (of_nat (ms y)) (clk y) = Some (Some dw, c) \<and> 0 < dw"
proof -
  obtain y s where y: "clock_reachable y" "m_pSchedule (clk y) = Some s" "m_ev s" using clock1 by blast
  from clock_punctual [OF y(1)] y show ?thesis by (fastforce split: if_splits)
qed

text \<open>C39. \<open>GetTime\<close> reports the later of the private time and the last time reported, with \<open>S_FALSE\<close> when the
  clock had to be held. The private time advances by 10000 units for each millisecond, also
  when the 32 bit counter of the system wraps around, provided that two readings are less than
  \<open>2 ^ 31\<close> milliseconds apart: for a longer pause, because the difference is multiplied as a signed
  number, the private time falls back by the \<open>2 ^ 32\<close> milliseconds of a full turn.\<close>

theorem clock_tells_time:
  assumes "m_dwPrevSystemTime c = of_nat m" and "m \<le> n" and "n - m < 2 ^ 32"
    and "10000 * 2 ^ 32 \<le> sint (m_rtPrivateTime c)" and "sint (m_rtPrivateTime c) < 2 ^ 62"
    and "p = sint (m_rtPrivateTime c) + 10000 * (int n - int m - (if n - m < 2 ^ 31 then 0 else 2 ^ 32))"
  shows "sint (fst (GetPrivateTime (of_nat n) c)) = p \<and>
    (\<exists>hr t c'. GetTime (of_nat n) True c = (hr, Some t, c') \<and> sint t = max p (sint (m_rtLastGotTime c)) \<and>
       m_rtLastGotTime c' = t \<and> sint (m_rtPrivateTime c') = p \<and> m_dwPrevSystemTime c' = of_nat n \<and>
       hr = (if sint (m_rtLastGotTime c) < p then S_OK else S_FALSE)) \<and>
    GetTime (of_nat n) False c = (E_POINTER, None, c)"
proof -
  let ?d = "of_nat n - of_nat m :: u32"
  have "sint ?d = int n - int m - (if n - m < 2 ^ 31 then 0 else 2 ^ 32)"
  proof (cases "n - m < 2 ^ 31")
    case False
    have e: "?d = word_of_int (int (n - m) - 2 ^ 32)" using assms(2) by (simp add: of_nat_diff)
    show ?thesis unfolding e sint_eq_signed_take_bit using assms(2,3) False
      by (simp add: signed_take_bit_int_eq_self of_nat_diff)
  qed (use reading_gap assms(2) in simp)
  then have "sint (fst (GetPrivateTime (of_nat n) c)) = p"
    using assms by (simp add: GetPrivateTime_def Let_def sint_plus64 sint_Int32x32To64 split: if_splits)
  then show ?thesis by (auto simp: GetTime_def GetPrivateTime_def Let_def max_def)
qed

theorem clock_tells_time_witness:
  "sint (fst (GetPrivateTime 500 ((clk clock0)\<lparr>m_dwPrevSystemTime := 4294967000, m_rtPrivateTime := 100000000000000\<rparr>))) = 100000007960000"
proof -
  let ?c = "(clk clock0)\<lparr>m_dwPrevSystemTime := 4294967000, m_rtPrivateTime := 100000000000000\<rparr>"
  have "sint (fst (GetPrivateTime (of_nat (2 ^ 32 + 500)) ?c)) = 100000007960000"
    using clock_tells_time [of ?c 4294967000 "2 ^ 32 + 500" _, OF _ _ _ _ _ refl] by simp
  moreover have "(of_nat (2 ^ 32 + 500) :: u32) = 500" by simp
  ultimately show ?thesis by (simp only:)
qed

text \<open>\<open>AdvisePeriodic\<close> accepts a period that carries the first time exactly to \<open>MAX_TIME\<close>; when the
  advise falls due, \<open>ShuntHead\<close> searches for a later packet than the one moved to \<open>MAX_TIME\<close>, runs over the
  sentinel and dereferences NULL.\<close>

theorem clock_periodic_crash:
  assumes "m_pSchedule c = Some s" and "represents s []" and "room s" and "m_dwNextCookie s \<noteq> - 1"
    and "0 < sint t" "0 < sint d" "sint t + sint d = max_time" "t \<noteq> MAX_TIME"
  shows "\<exists>k s'. AdvisePeriodic t d h True c = Some (NOERROR, k, c\<lparr>m_pSchedule := Some s'\<rparr>) \<and>
    (\<forall>u. sint t \<le> sint u \<longrightarrow> Advise u s' = None)"
proof -
  let ?a = "new_advise (m_dwNextCookie s + 1) t d h True"
  obtain s' where s': "AddAdvisePacket t d h True s = Some (m_dwNextCookie s + 1, s')" "represents s' [?a]"
    using AddAdvisePacket_refines [OF assms(2) less_max_time [OF assms(8)] assms(4) refl, of d h True] assms(3)
    by (auto simp: insert_new_def)
  have "m_dwNextCookie s + 1 \<noteq> 0" using assms(4) by (metis eq_neg_iff_add_eq_0)
  then have "AdvisePeriodic t d h True c = Some (NOERROR, m_dwNextCookie s + 1, c\<lparr>m_pSchedule := Some s'\<rparr>)"
    using assms s'(1) by (simp add: AdvisePeriodic_def)
  moreover have "Advise u s' = None" if u: "sint t \<le> sint u" for u
  proof -
    obtain p k where h: "next_of s' (Some Head) = Some p" "packet_at s' p = Some k" and k: "m_next k \<noteq> None" "view k = ?a"
      using represents_head [OF s'(2)] by auto
    have "sint (m_rtEventTime k) = sint t" using k(2) view_simps(2) [of k] by (simp add: new_advise_def)
    moreover have "dispatch_head k p s' = None"
      using dispatch_head_off [OF s'(2) h] assms(7) by (simp add: new_advise_def)
    ultimately show ?thesis using h k(1) u by (subst Advise.simps) simp
  qed
  ultimately show ?thesis by blast
qed

theorem clock_periodic_crash_witness:
  "\<exists>k s'. AdvisePeriodic 1 0x7FFFFFFFFFFFFFFE 7 True (clk clock0) = Some (NOERROR, k, (clk clock0)\<lparr>m_pSchedule := Some s'\<rparr>) \<and>
     Advise 1 s' = None"
  using clock_periodic_crash [OF clock0_eval(1) schedule0(1,2), of 1 "0x7FFFFFFFFFFFFFFE" 7] schedule0(3)
  by (fastforce simp: max_time_def MAX_TIME_def)

end
