(* ===== verification/Allocator_Props.thy ===== *)
theory Allocator_Props
  imports Allocator
begin

text \<open>
  The allocator under any number of threads. The free list refines a list of samples, every sample is
  either on it or held by a client, and the counts the allocator keeps are those of the pool. The
  invariant covers the protocol of the semaphore and of the postponed decommit; from it follow that a
  waiting thread is never left behind and that buffers never overlap.
\<close>

section \<open>The free list\<close>

type_synonym sample_map = "nat \<Rightarrow> CMediaSample option"

fun free_chain :: "sample_map \<Rightarrow> nat option \<Rightarrow> nat list \<Rightarrow> bool" where
  "free_chain m h [] \<longleftrightarrow> h = None"
| "free_chain m h (p # ps) \<longleftrightarrow> h = Some p \<and> (\<exists>s. m p = Some s \<and> m_cRef s = 0 \<and> free_chain m (m_pNext s) ps)"

lemma free_chain_frame [simp]: "p \<notin> set ps \<Longrightarrow> free_chain (m(p := x)) h ps = free_chain m h ps"
  by (induction ps arbitrary: h) auto

lemma free_chain_dom: "free_chain m h ps \<Longrightarrow> set ps \<subseteq> dom m"
  by (induction ps arbitrary: h) auto

lemma free_chain_head: "free_chain m h ps \<Longrightarrow> h = (case ps of [] \<Rightarrow> None | p # _ \<Rightarrow> Some p)"
  by (cases ps) auto

lemma free_chain_idle: "free_chain m h ps \<Longrightarrow> p \<in> set ps \<Longrightarrow> \<exists>s. m p = Some s \<and> m_cRef s = 0"
  by (induction ps arbitrary: h) auto

text \<open>The pool of existing samples and the memory for new ones, the samples held by clients, and the
  number of samples that the allocator believes to exist.\<close>

definition pool :: "nat list \<Rightarrow> CMemAllocator \<Rightarrow> bool" where
  "pool fl a \<longleftrightarrow> free_chain (samples a) (m_List a) fl \<and> distinct fl \<and> finite (dom (samples a)) \<and>
     distinct (map fst (fresh_samples a)) \<and> dom (samples a) \<inter> fst ` set (fresh_samples a) = {} \<and>
     m_nOnList a = of_nat (length fl)"

definition lent :: "nat list \<Rightarrow> CMemAllocator \<Rightarrow> bool" where
  "lent fl a \<longleftrightarrow> (\<forall>p s. samples a p = Some s \<longrightarrow> p \<notin> set fl \<longrightarrow> m_cRef s \<noteq> 0)"

definition counted :: "CMemAllocator \<Rightarrow> bool" where
  "counted a \<longleftrightarrow> m_lAllocated a = of_nat (card (dom (samples a))) \<and> card (dom (samples a)) < 2 ^ 31"

lemma pool_length: "pool fl a \<Longrightarrow> length fl \<le> card (dom (samples a))"
  by (metis pool_def free_chain_dom card_mono distinct_card)

lemma pool_all_free: "pool fl a \<Longrightarrow> length fl = card (dom (samples a)) \<longleftrightarrow> set fl = dom (samples a)"
  by (metis pool_def free_chain_dom card_subset_eq distinct_card)

lemma sint_of_nat32 [simp]: "n < 2 ^ 31 \<Longrightarrow> sint (of_nat n :: i32) = int n"
  by (simp add: signed_of_nat signed_take_bit_int_eq_self)

lemma counts_read:
  "pool fl a \<Longrightarrow> counted a \<Longrightarrow> sint (CSampleList_GetCount a) = int (length fl) \<and> sint (m_lAllocated a) = int (card (dom (samples a)))"
  using pool_length [of fl a] by (simp add: CSampleList_GetCount_def pool_def counted_def del: power_numeral)

lemma counts_equal:
  assumes "pool fl a" and "counted a"
  shows "CSampleList_GetCount a = m_lAllocated a \<longleftrightarrow> length fl = card (dom (samples a))"
  using counts_read [OF assms] by (metis of_nat_eq_iff signed_word_eqI)

lemma Add_pool:
  assumes "pool fl a" and "samples a p = Some s" and "m_cRef s = 0" and "p \<notin> set fl"
  shows "\<exists>b. CSampleList_Add p a = Some b \<and> pool (p # fl) b \<and>
    b = (set_sample p (s\<lparr>m_pNext := m_List a\<rparr>) a)\<lparr>m_List := Some p, m_nOnList := m_nOnList a + 1\<rparr>"
  using assms by (auto simp: pool_def CSampleList_Add_def set_sample_def insert_absorb add.commute)

lemma RemoveHead_pool:
  assumes "pool (p # fl) a"
  obtains s where "samples a p = Some s" "m_cRef s = 0" "p \<notin> set fl"
    "CSampleList_RemoveHead a = Some (Some p, a\<lparr>m_List := m_pNext s, m_nOnList := m_nOnList a - 1\<rparr>)"
    "pool fl (a\<lparr>m_List := m_pNext s, m_nOnList := m_nOnList a - 1\<rparr>)"
  using assms by (auto simp: pool_def CSampleList_RemoveHead_def)

lemma RemoveHead_empty: "pool [] a \<Longrightarrow> CSampleList_RemoveHead a = Some (None, a)"
  by (simp add: pool_def CSampleList_RemoveHead_def)

text \<open>\<open>Remove\<close> takes a sample out of the middle of the list and does nothing for one that is not there.\<close>

lemma remove_sample_loop_absent:
  "free_chain (samples a) cur fl \<Longrightarrow> p \<notin> set fl \<Longrightarrow> remove_sample_loop p prev cur a = Some a"
  by (induction fl arbitrary: prev cur) (auto simp: remove_sample_loop.simps)

lemma free_chain_split:
  "free_chain m h (xs @ p # ys) \<Longrightarrow> \<exists>s. m p = Some s \<and> m_cRef s = 0 \<and> free_chain m (m_pNext s) ys"
  by (induction xs arbitrary: h) auto

text \<open>Relinking the last sample before \<open>p\<close> around it.\<close>

lemma free_chain_relink:
  "free_chain m h (xs @ [r] @ p # ys) \<Longrightarrow> distinct (xs @ [r] @ p # ys) \<Longrightarrow> m r = Some t \<Longrightarrow> m p = Some s \<Longrightarrow>
   free_chain (m(r \<mapsto> t\<lparr>m_pNext := m_pNext s\<rparr>)) h (xs @ [r] @ ys)"
  by (induction xs arbitrary: h) auto

lemma remove_sample_loop_found:
  assumes "free_chain (samples a) cur (zs @ p # ys)" and "p \<notin> set zs" and "samples a p = Some s"
    and "zs = [] \<Longrightarrow> prev = r0"
  shows "remove_sample_loop p prev cur a =
    (case (if zs = [] then r0 else Some (last zs)) of
       None \<Rightarrow> Some ((set_sample p (s\<lparr>m_pNext := None\<rparr>) (a\<lparr>m_List := m_pNext s\<rparr>))\<lparr>m_nOnList := m_nOnList a - 1\<rparr>)
     | Some r \<Rightarrow> map_option (\<lambda>t. (set_sample p (s\<lparr>m_pNext := None\<rparr>)
         (set_sample r (t\<lparr>m_pNext := m_pNext s\<rparr>) a))\<lparr>m_nOnList := m_nOnList a - 1\<rparr>) (samples a r))"
  using assms
proof (induction zs arbitrary: prev cur r0)
  case Nil
  then show ?case
    by (auto simp: remove_sample_loop.simps [of _ _ "Some p"] set_sample_def map_conv_bind_option comp_def
        split: option.splits)
next
  case (Cons z zs)
  then obtain t where t: "samples a z = Some t" "free_chain (samples a) (m_pNext t) (zs @ p # ys)" "cur = Some z" by auto
  have "remove_sample_loop p prev cur a = remove_sample_loop p (Some z) (m_pNext t) a"
    using Cons.prems t by (subst remove_sample_loop.simps) auto
  also have "\<dots> = (case (if zs = [] then Some z else Some (last zs)) of
       None \<Rightarrow> Some ((set_sample p (s\<lparr>m_pNext := None\<rparr>) (a\<lparr>m_List := m_pNext s\<rparr>))\<lparr>m_nOnList := m_nOnList a - 1\<rparr>)
     | Some r \<Rightarrow> map_option (\<lambda>t. (set_sample p (s\<lparr>m_pNext := None\<rparr>)
         (set_sample r (t\<lparr>m_pNext := m_pNext s\<rparr>) a))\<lparr>m_nOnList := m_nOnList a - 1\<rparr>) (samples a r))"
    by (rule Cons.IH) (use Cons.prems t in auto)
  finally show ?case by simp
qed

lemma Remove_pool:
  assumes "pool fl a"
  shows "\<exists>b. CSampleList_Remove p a = Some b \<and> pool (remove1 p fl) b"
proof (cases "p \<in> set fl")
  case False
  then show ?thesis using assms remove_sample_loop_absent [of a "m_List a" fl p None]
    by (auto simp: CSampleList_Remove_def pool_def remove1_idem)
next
  case True
  then obtain xs ys where fl: "fl = xs @ p # ys" "p \<notin> set xs" by (meson split_list_first)
  have c: "free_chain (samples a) (m_List a) (xs @ p # ys)" and d: "distinct (xs @ p # ys)"
    using assms fl by (auto simp: pool_def)
  obtain s where s: "samples a p = Some s" "free_chain (samples a) (m_pNext s) ys"
    using free_chain_split [OF c] by auto
  have r1: "remove1 p fl = xs @ ys" using fl by (simp add: remove1_append)
  have "\<exists>b. CSampleList_Remove p a = Some b \<and> free_chain (samples b) (m_List b) (xs @ ys) \<and> dom (samples b) = dom (samples a) \<and>
      fresh_samples b = fresh_samples a \<and> m_nOnList b = m_nOnList a - 1"
  proof (cases xs rule: rev_cases)
    case Nil
    then show ?thesis using s c d remove_sample_loop_found [OF c fl(2) s(1), of None None]
      by (auto simp: CSampleList_Remove_def set_sample_def)
  next
    case (snoc zs r)
    then obtain t where t: "samples a r = Some t" using free_chain_dom [OF c] by auto
    have "free_chain ((samples a)(r \<mapsto> t\<lparr>m_pNext := m_pNext s\<rparr>)) (m_List a) (zs @ [r] @ ys)"
      by (rule free_chain_relink) (use snoc c d t s in auto)
    then show ?thesis using snoc t d s remove_sample_loop_found [OF c fl(2) s(1), of None None]
      by (auto simp: CSampleList_Remove_def set_sample_def)
  qed
  then show ?thesis using assms d unfolding r1 by (auto simp: pool_def fl)
qed

section \<open>Freeing and allocating\<close>

text \<open>What a loop over the samples leaves alone.\<close>

definition outside_pool :: "CMemAllocator \<Rightarrow> (i32 \<times> i32 \<times> i32 \<times> i32) \<times> (i32 \<times> nat \<times> bool \<times> bool) \<times> int \<times> nat option \<times> nat list" where
  "outside_pool a = ((m_lCount a, m_lSize a, m_lAlignment a, m_lPrefix a), (m_lWaiting a, m_hSem a, m_bCommitted a, m_bDecommitInProgress a),
     self_refs a, m_pNotify a, callbacks a)"

lemma free_loop_ends:
  "pool fl a \<Longrightarrow> set fl = dom (samples a) \<Longrightarrow>
   \<exists>b. free_loop a = Some b \<and> pool [] b \<and> samples b = Map.empty \<and> outside_pool b = outside_pool a \<and>
     m_bChanged b = m_bChanged a"
proof (induction fl arbitrary: a)
  case Nil
  then show ?case using RemoveHead_empty [OF Nil(1)] by (subst free_loop.simps) auto
next
  case (Cons p fl)
  obtain s where s: "samples a p = Some s" "p \<notin> set fl"
    "CSampleList_RemoveHead a = Some (Some p, a\<lparr>m_List := m_pNext s, m_nOnList := m_nOnList a - 1\<rparr>)"
    "pool fl (a\<lparr>m_List := m_pNext s, m_nOnList := m_nOnList a - 1\<rparr>)"
    by (rule RemoveHead_pool [OF Cons.prems(1)])
  let ?b = "a\<lparr>m_List := m_pNext s, m_nOnList := m_nOnList a - 1\<rparr>"
  let ?c = "?b\<lparr>samples := (samples a)(p := None), fresh_samples := (p, s) # fresh_samples a\<rparr>"
  have "pool fl ?c" using s by (auto simp: pool_def)
  moreover have "set fl = dom (samples ?c)" using Cons.prems(2) s(2) by auto
  ultimately obtain b where b: "free_loop ?c = Some b" "pool [] b" "samples b = Map.empty" "outside_pool b = outside_pool ?c"
      "m_bChanged b = m_bChanged ?c"
    using Cons.IH [of ?c] by blast
  have "free_loop a = free_loop ?c" by (subst free_loop.simps) (use s in \<open>simp add: delete_sample_def\<close>)
  then show ?case using b by (simp add: outside_pool_def)
qed

lemma ReallyFree_ends:
  assumes "pool fl a" and "set fl = dom (samples a)"
  shows "\<exists>b. ReallyFree a = Some b \<and> pool [] b \<and> samples b = Map.empty \<and> counted b \<and> m_pBlock b = None \<and>
    outside_pool b = outside_pool a \<and> m_bChanged b = m_bChanged a"
  using free_loop_ends [OF assms] by (auto simp: ReallyFree_def pool_def counted_def outside_pool_def)

text \<open>The buffers: sample number \<open>idx p\<close> has the \<open>idx p\<close>-th slot of \<open>stride\<close> bytes of the block, after the
  prefix.\<close>

definition slots :: "(nat \<Rightarrow> nat) \<Rightarrow> nat \<Rightarrow> nat \<Rightarrow> nat \<Rightarrow> i32 \<Rightarrow> nat \<Rightarrow> sample_map \<Rightarrow> bool" where
  "slots idx block stride pre sz n m \<longleftrightarrow> inj_on idx (dom m) \<and>
     (\<forall>p s. m p = Some s \<longrightarrow> idx p < n \<and> m_pBuffer s = block + idx p * stride + pre \<and> m_cbBuffer s = sz)"

lemma slots_update:
  assumes "slots idx block stride pre sz n m" and "m p = Some s" and "m_pBuffer t = m_pBuffer s" and "m_cbBuffer t = m_cbBuffer s"
  shows "slots idx block stride pre sz n (m(p \<mapsto> t))"
  using assms by (auto simp: slots_def insert_absorb domI)

lemma slots_new:
  assumes "slots idx block stride pre sz n m" and "m p = None"
    and "m_pBuffer t = block + n * stride + pre" and "m_cbBuffer t = sz"
  shows "slots (idx(p := n)) block stride pre sz (Suc n) (m(p \<mapsto> t))"
  using assms unfolding slots_def by (auto simp: inj_on_def dom_def less_Suc_eq)

lemma alloc_loop_ends:
  assumes "pool fl a" and "set fl = dom (samples a)" and "counted a" and "0 \<le> sint (m_lCount a)" and "0 \<le> sint (m_lSize a)"
    and "slots idx block stride (nat (sint (m_lPrefix a))) (m_lSize a) (card (dom (samples a))) (samples a)"
    and "card (dom (samples a)) \<le> nat (sint (m_lCount a))" and "nat (sint lAlignedSize) = stride"
  shows "\<exists>hr b fl' idx'. alloc_loop lAlignedSize (block + card (dom (samples a)) * stride) a = Some (hr, b) \<and> pool fl' b \<and>
    set fl' = dom (samples b) \<and> counted b \<and> outside_pool b = outside_pool a \<and> m_pBlock b = m_pBlock a \<and>
    (hr = NOERROR \<and> \<not> m_bChanged b \<and> m_lAllocated b = m_lCount b \<and>
       slots idx' block stride (nat (sint (m_lPrefix b))) (m_lSize b) (nat (sint (m_lCount b))) (samples b) \<or>
     hr = E_OUTOFMEMORY \<and> m_bChanged b = m_bChanged a)"
  using assms
proof (induction "nat (sint (m_lCount a)) - card (dom (samples a))" arbitrary: a fl idx)
  case 0
  then have n: "card (dom (samples a)) = nat (sint (m_lCount a))" by simp
  then have e: "m_lAllocated a = m_lCount a" using 0 by (intro signed_word_eqI) (simp add: counted_def del: power_numeral)
  have "pool fl (a\<lparr>m_bChanged := False\<rparr>)" "counted (a\<lparr>m_bChanged := False\<rparr>)" using 0 by (auto simp: pool_def counted_def)
  then show ?case using 0 n e by (subst alloc_loop.simps) (auto simp: outside_pool_def)
next
  case (Suc k)
  then have lt: "sint (m_lAllocated a) < sint (m_lCount a)" by (simp add: counted_def del: power_numeral)
  show ?case
  proof (cases "fresh_samples a")
    case Nil
    then show ?thesis using Suc.prems lt by (subst alloc_loop.simps) auto
  next
    case (Cons pg rest)
    obtain p g where pg: "pg = (p, g)" by force
    let ?n = "card (dom (samples a))"
    let ?t = "snd (new_CMediaSample g (block + ?n * stride + nat (sint (m_lPrefix a))) (m_lSize a) S_OK)"
    let ?b = "a\<lparr>fresh_samples := rest, samples := (samples a)(p \<mapsto> ?t)\<rparr>"
    have p: "samples a p = None" "p \<notin> set fl" using Suc.prems(1,2) Cons pg by (auto simp: pool_def)
    have t: "m_cRef ?t = 0" "m_pBuffer ?t = block + ?n * stride + nat (sint (m_lPrefix a))" "m_cbBuffer ?t = m_lSize a"
      using Suc.prems(5) by (simp_all add: new_CMediaSample_def Let_def not_less)
    have fin: "finite (dom (samples a))" using Suc.prems(1) by (simp add: pool_def)
    have "pool fl ?b" using Suc.prems(1) p Cons pg by (auto simp: pool_def)
    then obtain c where c: "CSampleList_Add p ?b = Some c" "pool (p # fl) c"
        "c = (set_sample p (?t\<lparr>m_pNext := m_List ?b\<rparr>) ?b)\<lparr>m_List := Some p, m_nOnList := m_nOnList ?b + 1\<rparr>"
      using Add_pool [of fl ?b p ?t] p t by auto
    let ?d = "c\<lparr>m_lAllocated := m_lAllocated c + 1\<rparr>"
    have dm: "dom (samples ?d) = insert p (dom (samples a))" using c(3) by (auto simp: set_sample_def)
    then have card: "card (dom (samples ?d)) = Suc ?n" using p(1) fin by (simp add: domIff)
    have cfg: "m_lCount ?d = m_lCount a" "m_lSize ?d = m_lSize a" "m_lPrefix ?d = m_lPrefix a" "m_pBlock ?d = m_pBlock a"
      "outside_pool ?d = outside_pool a" "m_bChanged ?d = m_bChanged a"
      using c(3) by (auto simp: set_sample_def outside_pool_def)
    have cnt: "counted ?d" using Suc.prems(3,7) card c(3) Suc.hyps(2) sint_range32 [of "m_lCount a"]
      by (simp add: counted_def set_sample_def) linarith
    have sl: "slots (idx(p := ?n)) block stride (nat (sint (m_lPrefix ?d))) (m_lSize ?d) (card (dom (samples ?d))) (samples ?d)"
      unfolding card cfg using slots_new [OF Suc.prems(6) p(1), of "?t\<lparr>m_pNext := m_List a\<rparr>"] t c(3)
      by (simp add: set_sample_def)
    have next_slot: "block + ?n * stride + nat (sint lAlignedSize) = block + card (dom (samples ?d)) * stride"
      using card Suc.prems(8) by simp
    have step: "alloc_loop lAlignedSize (block + ?n * stride) a = alloc_loop lAlignedSize (block + card (dom (samples ?d)) * stride) ?d"
      by (subst alloc_loop.simps) (use lt Cons pg c(1) in \<open>simp add: next_slot\<close>)
    have pd: "pool (p # fl) ?d" using c(2) by (simp add: pool_def)
    have k: "k = nat (sint (m_lCount ?d)) - card (dom (samples ?d))" "card (dom (samples ?d)) \<le> nat (sint (m_lCount ?d))"
      using Suc.hyps(2) card cfg(1) by simp_all
    have all: "set (p # fl) = dom (samples ?d)" using dm Suc.prems(2) by simp
    show ?thesis unfolding step
      using Suc.hyps(1) [OF k(1) pd all cnt _ _ sl k(2) Suc.prems(8)] Suc.prems(4,5) cfg by simp
  qed
qed

section \<open>Commitment and waiting\<close>

text \<open>The allocator with the threads that use it: \<open>waiters\<close> threads are about to wait or waiting in
  \<open>GetBuffer\<close>, and \<open>polls\<close> calls with \<open>AM_GBF_NOWAIT\<close> found no sample.\<close>

record alloc_sys =
  alc :: CMemAllocator
  waiters :: nat
  polls :: nat

definition gates :: "nat list \<Rightarrow> alloc_sys \<Rightarrow> bool" where
  "gates fl s \<longleftrightarrow> (let a = alc s in
     (fl \<noteq> [] \<longrightarrow> m_lWaiting a = 0) \<and> (\<not> m_bCommitted a \<longrightarrow> m_lWaiting a = 0) \<and> 0 \<le> sint (m_lWaiting a) \<and>
     sint (m_lWaiting a) + int (m_hSem a) = int (waiters s + polls s) \<and> waiters s + polls s < 2 ^ 31)"

definition modes :: "nat list \<Rightarrow> CMemAllocator \<Rightarrow> bool" where
  "modes fl a \<longleftrightarrow> \<not> (m_bCommitted a \<and> m_bDecommitInProgress a) \<and>
     (m_bDecommitInProgress a \<longrightarrow> length fl < card (dom (samples a))) \<and>
     (\<not> m_bCommitted a \<and> \<not> m_bDecommitInProgress a \<longrightarrow> length fl = card (dom (samples a))) \<and>
     self_refs a = (if m_bCommitted a \<or> m_bDecommitInProgress a then 1 else 0) \<and>
     (m_bCommitted a \<or> m_bDecommitInProgress a \<longrightarrow> \<not> m_bChanged a) \<and>
     (m_pBlock a = None \<longrightarrow> samples a = Map.empty)"

definition stride :: "CMemAllocator \<Rightarrow> nat" where
  "stride a = nat (sint (the (aligned_size a)))"

definition laid_out :: "CMemAllocator \<Rightarrow> bool" where
  "laid_out a \<longleftrightarrow> m_lAllocated a = m_lCount a \<and>
     (0 < sint (m_lCount a) \<longrightarrow> 0 < sint (m_lSize a) \<and> 0 < sint (m_lAlignment a) \<and> 0 \<le> sint (m_lPrefix a) \<and> aligned_size a \<noteq> None) \<and>
     (\<exists>idx. slots idx (the (m_pBlock a)) (stride a) (nat (sint (m_lPrefix a))) (m_lSize a) (nat (sint (m_lCount a))) (samples a))"

text \<open>The layout does not depend on the flags, the counts of the protocol and the free list.\<close>

lemma aligned_size_frame [simp]:
  "aligned_size (a\<lparr>m_lWaiting := x_m_lWaiting\<rparr>) = aligned_size a"
  "aligned_size (a\<lparr>m_hSem := x_m_hSem\<rparr>) = aligned_size a"
  "aligned_size (a\<lparr>m_bCommitted := x_m_bCommitted\<rparr>) = aligned_size a"
  "aligned_size (a\<lparr>m_bDecommitInProgress := x_m_bDecommitInProgress\<rparr>) = aligned_size a"
  "aligned_size (a\<lparr>self_refs := x_self_refs\<rparr>) = aligned_size a"
  "aligned_size (a\<lparr>m_List := x_m_List\<rparr>) = aligned_size a"
  "aligned_size (a\<lparr>m_nOnList := x_m_nOnList\<rparr>) = aligned_size a"
  "aligned_size (a\<lparr>callbacks := x_callbacks\<rparr>) = aligned_size a"
  "aligned_size (a\<lparr>m_pNotify := x_m_pNotify\<rparr>) = aligned_size a"
  "aligned_size (a\<lparr>samples := x_samples\<rparr>) = aligned_size a"
  "aligned_size (a\<lparr>m_lAllocated := x_m_lAllocated\<rparr>) = aligned_size a"
  "aligned_size (a\<lparr>m_lCount := x_m_lCount\<rparr>) = aligned_size a"
  "aligned_size (a\<lparr>m_bChanged := x_m_bChanged\<rparr>) = aligned_size a"
  "aligned_size (a\<lparr>m_pBlock := x_m_pBlock\<rparr>) = aligned_size a"
  "aligned_size (a\<lparr>fresh_samples := x_fresh_samples\<rparr>) = aligned_size a"
  by (simp_all add: aligned_size_def Let_def cong: if_cong)

lemma laid_out_frame [simp]:
  "laid_out (a\<lparr>m_lWaiting := x_m_lWaiting\<rparr>) = laid_out a"
  "laid_out (a\<lparr>m_hSem := x_m_hSem\<rparr>) = laid_out a"
  "laid_out (a\<lparr>m_bCommitted := x_m_bCommitted\<rparr>) = laid_out a"
  "laid_out (a\<lparr>m_bDecommitInProgress := x_m_bDecommitInProgress\<rparr>) = laid_out a"
  "laid_out (a\<lparr>self_refs := x_self_refs\<rparr>) = laid_out a"
  "laid_out (a\<lparr>m_List := x_m_List\<rparr>) = laid_out a"
  "laid_out (a\<lparr>m_nOnList := x_m_nOnList\<rparr>) = laid_out a"
  "laid_out (a\<lparr>callbacks := x_callbacks\<rparr>) = laid_out a"
  "laid_out (a\<lparr>m_pNotify := x_m_pNotify\<rparr>) = laid_out a"
  by (simp_all add: laid_out_def stride_def)

lemma laid_out_sample:
  assumes "laid_out a" and "samples a p = Some s" and "m_pBuffer t = m_pBuffer s" and "m_cbBuffer t = m_cbBuffer s"
  shows "laid_out (set_sample p t a)"
proof -
  have "slots idx block k pre sz n (samples a) \<Longrightarrow> slots idx block k pre sz n ((samples a)(p \<mapsto> t))" for idx block k pre sz n
    using slots_update assms(2-4) by blast
  moreover have "set_sample p t a = a\<lparr>samples := (samples a)(p \<mapsto> t)\<rparr>" "stride (set_sample p t a) = stride a"
    by (simp_all add: set_sample_def stride_def)
  ultimately show ?thesis using assms(1) unfolding laid_out_def by (simp only: aligned_size_frame) (simp, blast)
qed

definition alloc_inv :: "nat list \<Rightarrow> alloc_sys \<Rightarrow> bool" where
  "alloc_inv fl s \<longleftrightarrow> pool fl (alc s) \<and> lent fl (alc s) \<and> counted (alc s) \<and> modes fl (alc s) \<and>
     (\<not> m_bChanged (alc s) \<longrightarrow> laid_out (alc s)) \<and> gates fl s"

text \<open>The steps of the threads. A client changes only samples it holds, and of a sample neither the
  count nor the buffer except through \<open>AddRef\<close> and \<open>Release\<close>.\<close>

definition after_round :: "get_result \<Rightarrow> CMemAllocator \<Rightarrow> alloc_sys \<Rightarrow> alloc_sys" where
  "after_round r a s = s\<lparr>alc := a, waiters := waiters s + (if r = GB_Waits then 1 else 0),
     polls := polls s + (if r = GB_Fails VFW_E_TIMEOUT then 1 else 0)\<rparr>"

definition wake :: "alloc_sys \<Rightarrow> alloc_sys" where
  "wake s = s\<lparr>alc := (alc s)\<lparr>m_hSem := m_hSem (alc s) - 1\<rparr>, waiters := waiters s - 1\<rparr>"

inductive alloc_step :: "alloc_sys \<Rightarrow> alloc_sys \<Rightarrow> bool" where
  get: "waiters s + polls s + 1 < 2 ^ 31 \<Longrightarrow> GetBuffer_round nowait (alc s) = Some (r, a) \<Longrightarrow>
    alloc_step s (after_round r a s)"
| wakes: "0 < waiters s \<Longrightarrow> 0 < m_hSem (alc s) \<Longrightarrow> GetBuffer_round False (alc (wake s)) = Some (r, a) \<Longrightarrow>
    alloc_step s (after_round r a (wake s))"
| add_ref: "samples (alc s) p = Some t \<Longrightarrow> m_cRef t \<noteq> 0 \<Longrightarrow> m_cRef t + 1 \<noteq> 0 \<Longrightarrow>
    alloc_step s (s\<lparr>alc := set_sample p (snd (CMediaSample_AddRef t)) (alc s)\<rparr>)"
| edit: "samples (alc s) p = Some t \<Longrightarrow> m_cRef t \<noteq> 0 \<Longrightarrow> m_cRef t' = m_cRef t \<Longrightarrow> m_pBuffer t' = m_pBuffer t \<Longrightarrow>
    m_cbBuffer t' = m_cbBuffer t \<Longrightarrow> alloc_step s (s\<lparr>alc := set_sample p t' (alc s)\<rparr>)"
| release: "samples (alc s) p = Some t \<Longrightarrow> m_cRef t \<noteq> 0 \<Longrightarrow> sample_Release p (alc s) = Some (n, a) \<Longrightarrow>
    alloc_step s (s\<lparr>alc := a\<rparr>)"
| commit: "CBaseAllocator_Commit VirtualAlloc (alc s) = Some (hr, a) \<Longrightarrow> alloc_step s (s\<lparr>alc := a\<rparr>)"
| decommit: "alloc_step s (s\<lparr>alc := CBaseAllocator_Decommit (alc s)\<rparr>)"
| set_properties: "alloc_step s (s\<lparr>alc := snd (CMemAllocator_SetProperties granularity q (alc s))\<rparr>)"
| set_notify: "alloc_step s (s\<lparr>alc := SetNotify n (alc s)\<rparr>)"

inductive alloc_reachable :: "alloc_sys \<Rightarrow> bool" where
  start: "distinct (map fst memory) \<Longrightarrow> alloc_reachable \<lparr>alc = new_CMemAllocator memory, waiters = 0, polls = 0\<rparr>"
| step: "alloc_reachable s \<Longrightarrow> alloc_step s s' \<Longrightarrow> alloc_reachable s'"

lemmas alloc_parts = pool_def lent_def counted_def modes_def gates_def Let_def

lemma alloc_inv_start: "distinct (map fst memory) \<Longrightarrow> alloc_inv [] \<lparr>alc = new_CMemAllocator memory, waiters = 0, polls = 0\<rparr>"
  by (simp add: alloc_inv_def alloc_parts laid_out_def slots_def new_CMemAllocator_def)

text \<open>Changing a sample that a client holds, its buffer apart.\<close>

lemma alloc_inv_edit:
  assumes "alloc_inv fl s" and "samples (alc s) p = Some t" and "m_cRef t \<noteq> 0" and "m_cRef t' \<noteq> 0"
    and "m_pBuffer t' = m_pBuffer t" and "m_cbBuffer t' = m_cbBuffer t"
  shows "alloc_inv fl (s\<lparr>alc := set_sample p t' (alc s)\<rparr>)"
proof -
  let ?a = "alc s" and ?b = "set_sample p t' (alc s)"
  have inv: "pool fl ?a" "lent fl ?a" "counted ?a" "modes fl ?a" "\<not> m_bChanged ?a \<longrightarrow> laid_out ?a" "gates fl s"
    using assms(1) by (auto simp: alloc_inv_def)
  have np: "p \<notin> set fl" using free_chain_idle inv(1) assms(2,3) by (fastforce simp: pool_def)
  have d: "dom (samples ?b) = dom (samples ?a)" using assms(2) by (auto simp: set_sample_def)
  have "pool fl ?b" using inv(1) np d by (auto simp: pool_def set_sample_def)
  moreover have "lent fl ?b" using inv(2) assms(4) by (auto simp: lent_def set_sample_def)
  moreover have "counted ?b" using inv(3) d by (simp add: counted_def) (simp add: set_sample_def)
  moreover have "modes fl ?b" using inv(4) d assms(2) by (auto simp: modes_def set_sample_def)
  moreover have "laid_out ?a \<Longrightarrow> laid_out ?b"
    by (rule laid_out_sample [OF _ assms(2,5,6)])
  moreover have "gates fl (s\<lparr>alc := ?b\<rparr>)" using inv(6) by (simp add: gates_def set_sample_def Let_def)
  moreover have "m_bChanged ?b = m_bChanged ?a" by (simp add: set_sample_def)
  ultimately show ?thesis using inv(5) by (simp add: alloc_inv_def)
qed

lemma alloc_inv_wake: "alloc_inv fl s \<Longrightarrow> 0 < waiters s \<Longrightarrow> 0 < m_hSem (alc s) \<Longrightarrow> alloc_inv fl (wake s)"
  by (auto simp: alloc_inv_def alloc_parts wake_def Let_def)

lemma sint_inc: "sint w + 1 < 2 ^ 31 \<Longrightarrow> sint (w + 1) = sint w + 1" for w :: i32
  using sint_range32 [of w] by (simp add: sint_word_ariths signed_take_bit_int_eq_self)

lemma GetBuffer_round_inv:
  assumes "alloc_inv fl s" and "waiters s + polls s + 1 < 2 ^ 31"
  shows "\<exists>r a fl'. GetBuffer_round nowait (alc s) = Some (r, a) \<and> alloc_inv fl' (after_round r a s) \<and>
    r = (if \<not> m_bCommitted (alc s) then GB_Fails VFW_E_NOT_COMMITTED
         else case fl of p # ps \<Rightarrow> GB_Gets p | [] \<Rightarrow> if nowait then GB_Fails VFW_E_TIMEOUT else GB_Waits)"
proof -
  let ?a = "alc s"
  have inv: "pool fl ?a" "lent fl ?a" "counted ?a" "modes fl ?a" "\<not> m_bChanged ?a \<longrightarrow> laid_out ?a" "gates fl s"
    using assms(1) by (auto simp: alloc_inv_def)
  have codes: "VFW_E_NOT_COMMITTED \<noteq> VFW_E_TIMEOUT" by (simp add: hr_defs)
  show ?thesis
  proof (cases "m_bCommitted ?a")
    case False
    then show ?thesis using assms(1) codes by (auto simp: GetBuffer_round_def after_round_def)
  next
    case c: True
    show ?thesis
    proof (cases fl)
      case Nil
      let ?b = "SetWaiting ?a" and ?r = "if nowait then GB_Fails VFW_E_TIMEOUT else GB_Waits"
      have w: "sint (m_lWaiting ?a + 1) = sint (m_lWaiting ?a) + 1"
        by (rule sint_inc) (use inv(6) assms(2) in \<open>simp add: gates_def Let_def\<close>)
      have "alloc_inv [] (after_round ?r ?b s)"
        using inv Nil c w assms(2)
        by (auto simp: alloc_inv_def after_round_def SetWaiting_def alloc_parts Let_def)
      moreover have "GetBuffer_round nowait ?a = Some (?r, ?b)"
        using RemoveHead_empty inv(1) Nil c by (simp add: GetBuffer_round_def)
      ultimately show ?thesis using Nil c by auto
    next
      case (Cons p ps)
      then have pl: "pool (p # ps) ?a" using inv(1) by simp
      obtain t where t: "samples ?a p = Some t" "m_cRef t = 0" "p \<notin> set ps"
        "CSampleList_RemoveHead ?a = Some (Some p, ?a\<lparr>m_List := m_pNext t, m_nOnList := m_nOnList ?a - 1\<rparr>)"
        "pool ps (?a\<lparr>m_List := m_pNext t, m_nOnList := m_nOnList ?a - 1\<rparr>)"
        by (rule RemoveHead_pool [OF pl])
      let ?b = "set_sample p (t\<lparr>m_cRef := 1\<rparr>) (?a\<lparr>m_List := m_pNext t, m_nOnList := m_nOnList ?a - 1\<rparr>)"
      have d: "dom (samples ?b) = dom (samples ?a)" using t(1) by (auto simp: set_sample_def)
      have "pool ps ?b" using t(3,5) d by (auto simp: pool_def set_sample_def)
      moreover have "lent ps ?b" using inv(2) Cons by (auto simp: lent_def set_sample_def)
      moreover have "counted ?b" using inv(3) d by (simp add: counted_def) (simp add: set_sample_def)
      moreover have "modes ps ?b" using inv(4) c d t(1) by (auto simp: modes_def set_sample_def)
      moreover have "laid_out ?a \<Longrightarrow> laid_out ?b"
        by (rule laid_out_sample [of _ _ t]) (use t(1) in simp_all)
      moreover have "gates ps (after_round (GB_Gets p) ?b s)"
        using inv(6) Cons by (auto simp: gates_def after_round_def set_sample_def Let_def)
      ultimately have "alloc_inv ps (after_round (GB_Gets p) ?b s)"
        using inv(5) by (auto simp: alloc_inv_def after_round_def set_sample_def)
      moreover have "GetBuffer_round nowait ?a = Some (GB_Gets p, ?b)" using t c by (simp add: GetBuffer_round_def)
      ultimately show ?thesis using Cons c by auto
    qed
  qed
qed

lemma NotifySample_opens:
  assumes "0 \<le> sint (m_lWaiting a)" and "sint (m_lWaiting a) + int (m_hSem a) < 2 ^ 31"
  shows "NotifySample a = a\<lparr>m_lWaiting := 0, m_hSem := m_hSem a + nat (sint (m_lWaiting a))\<rparr>"
proof (cases "m_lWaiting a = 0")
  case True
  then show ?thesis by (cases a) (simp add: NotifySample_def)
next
  case False
  then have "0 < sint (m_lWaiting a)" using assms(1) by (metis order_le_less signed_0 signed_word_eqI)
  then show ?thesis using False assms(2) by (simp add: NotifySample_def ReleaseSemaphore_hSem_def)
qed

lemma alloc_inv_decommit:
  assumes "alloc_inv fl s"
  shows "alloc_inv fl (s\<lparr>alc := CBaseAllocator_Decommit (alc s)\<rparr>)"
proof -
  let ?a = "alc s"
  have inv: "pool fl ?a" "lent fl ?a" "counted ?a" "modes fl ?a" "\<not> m_bChanged ?a \<longrightarrow> laid_out ?a" "gates fl s"
    using assms(1) by (auto simp: alloc_inv_def)
  have g: "0 \<le> sint (m_lWaiting ?a)" "sint (m_lWaiting ?a) + int (m_hSem ?a) < 2 ^ 31"
    using inv(6) by (auto simp: gates_def Let_def)
  have n: "NotifySample (?a\<lparr>m_bCommitted := False, m_bDecommitInProgress := b\<rparr>) =
    ?a\<lparr>m_bCommitted := False, m_bDecommitInProgress := b, m_lWaiting := 0, m_hSem := m_hSem ?a + nat (sint (m_lWaiting ?a))\<rparr>" for b
    using NotifySample_opens [of "?a\<lparr>m_bCommitted := False, m_bDecommitInProgress := b\<rparr>"] g by simp
  have cnt: "sint (CSampleList_GetCount (?a\<lparr>m_bCommitted := False\<rparr>)) < sint (m_lAllocated ?a) \<longleftrightarrow> length fl < card (dom (samples ?a))"
    using counts_read [OF inv(1,3)] by (simp add: CSampleList_GetCount_def)
  have len: "length fl \<le> card (dom (samples ?a))" by (rule pool_length [OF inv(1)])
  show ?thesis
  proof (cases "\<not> m_bCommitted ?a \<and> \<not> m_bDecommitInProgress ?a")
    case True
    then show ?thesis using assms by (simp add: CBaseAllocator_Decommit_def)
  next
    case False
    then show ?thesis using inv cnt len
      by (auto simp: CBaseAllocator_Decommit_def Let_def CMemAllocator_Free_def n alloc_inv_def alloc_parts split: prod.splits)
  qed
qed

lemma alloc_inv_set_properties:
  assumes "alloc_inv fl s"
  shows "alloc_inv fl (s\<lparr>alc := snd (CMemAllocator_SetProperties granularity q (alc s))\<rparr>)"
proof -
  let ?a = "alc s"
  have inv: "pool fl ?a" "lent fl ?a" "counted ?a" "modes fl ?a" "\<not> m_bChanged ?a \<longrightarrow> laid_out ?a" "gates fl s"
    using assms(1) by (auto simp: alloc_inv_def)
  show ?thesis using assms inv counts_read [OF inv(1,3)]
    by (auto simp: CMemAllocator_SetProperties_def Let_def alloc_inv_def pool_def lent_def counted_def modes_def gates_def)
qed

section \<open>Releasing a sample\<close>

lemma ReleaseBuffer_inv:
  assumes "alloc_inv fl s" and "samples (alc s) p = Some t" and "m_cRef t \<noteq> 0" and "m_cRef t' = 0"
    and "m_pBuffer t' = m_pBuffer t" and "m_cbBuffer t' = m_cbBuffer t"
  shows "\<exists>b. ReleaseBuffer p (set_sample p t' (alc s)) = Some b \<and> alloc_inv (p # fl) (s\<lparr>alc := b\<rparr>)"
proof -
  let ?a = "alc s" and ?c = "set_sample p t' (alc s)"
  have inv: "pool fl ?a" "lent fl ?a" "counted ?a" "modes fl ?a" "\<not> m_bChanged ?a \<longrightarrow> laid_out ?a" "gates fl s"
    using assms(1) by (auto simp: alloc_inv_def)
  have np: "p \<notin> set fl" using free_chain_idle inv(1) assms(2,3) by (fastforce simp: pool_def)
  have c: "dom (samples ?c) = dom (samples ?a)" "samples ?c p = Some t'" using assms(2) by (auto simp: set_sample_def)
  have "pool fl ?c" using inv(1) np c(1) by (auto simp: pool_def set_sample_def)
  then obtain d where d: "CSampleList_Add p ?c = Some d" "pool (p # fl) d"
      "d = (set_sample p (t'\<lparr>m_pNext := m_List ?c\<rparr>) ?c)\<lparr>m_List := Some p, m_nOnList := m_nOnList ?c + 1\<rparr>"
    using Add_pool [OF _ c(2) assms(4) np] by auto
  have dd: "dom (samples d) = dom (samples ?a)" using d(3) c(1) assms(2) by (auto simp: set_sample_def)
  have dl: "laid_out ?a \<Longrightarrow> laid_out d"
    using laid_out_sample [OF laid_out_sample [OF _ assms(2,5,6)] c(2), of "t'\<lparr>m_pNext := m_List ?c\<rparr>"] by (simp add: d(3))
  have df: "m_lAllocated d = m_lAllocated ?a" "m_lWaiting d = m_lWaiting ?a" "m_hSem d = m_hSem ?a" "m_bChanged d = m_bChanged ?a"
    "m_bCommitted d = m_bCommitted ?a" "m_bDecommitInProgress d = m_bDecommitInProgress ?a" "self_refs d = self_refs ?a"
    "m_pBlock d = m_pBlock ?a" "m_pNotify d = m_pNotify ?a"
    using d(3) by (simp_all add: set_sample_def)
  have ld: "lent (p # fl) d" using inv(2) d(3) by (auto simp: lent_def set_sample_def)
  have cd: "counted d" using inv(3) dd df(1) by (simp add: counted_def)
  define e where "e = d\<lparr>m_lWaiting := 0, m_hSem := m_hSem d + nat (sint (m_lWaiting d))\<rparr>"
  have e: "(if m_lWaiting d \<noteq> 0 then NotifySample d else d) = e"
    using NotifySample_opens [of d] inv(6) df(2,3) unfolding e_def by (auto simp: gates_def Let_def)
  have full: "CSampleList_GetCount e = m_lAllocated e \<longleftrightarrow> length (p # fl) = card (dom (samples ?a))"
    using counts_equal [OF d(2) cd] dd by (simp add: e_def CSampleList_GetCount_def)
  have len: "length (p # fl) \<le> card (dom (samples ?a))" using pool_length [OF d(2)] dd by simp
  define f where "f = (if m_bDecommitInProgress e \<and> CSampleList_GetCount e = m_lAllocated e then (True, e\<lparr>m_bDecommitInProgress := False\<rparr>) else (False, e))"
  define b where "b = (let a = (case m_pNotify (snd f) of None \<Rightarrow> snd f | Some n \<Rightarrow> (snd f)\<lparr>callbacks := callbacks (snd f) @ [n]\<rparr>)
     in if fst f then a\<lparr>self_refs := self_refs a - 1\<rparr> else a)"
  have "ReleaseBuffer p ?c = Some b"
    unfolding ReleaseBuffer_def d(1) Option.bind_lunit e CMemAllocator_Free_def f_def [symmetric]
    by (cases f) (auto simp: b_def Let_def split: option.splits)
  moreover have "pool (p # fl) b" "lent (p # fl) b" "counted b" "laid_out ?a \<Longrightarrow> laid_out b" "m_bChanged b = m_bChanged ?a"
    using d(2) ld cd dl df by (auto simp: b_def f_def e_def pool_def lent_def counted_def Let_def split: option.splits)
  moreover have "modes (p # fl) b" using inv(4) df dd len full assms(2)
    by (auto simp: b_def f_def e_def modes_def Let_def split: option.splits)
  moreover have "gates (p # fl) (s\<lparr>alc := b\<rparr>)" using inv(6) df
    by (auto simp: b_def f_def e_def gates_def Let_def split: option.splits)
  ultimately show ?thesis using inv(5) by (auto simp: alloc_inv_def)
qed

lemma sample_Release_inv:
  assumes "alloc_inv fl s" and "samples (alc s) p = Some t" and "m_cRef t \<noteq> 0"
  shows "\<exists>b fl'. sample_Release p (alc s) = Some (m_cRef t - 1, b) \<and> alloc_inv fl' (s\<lparr>alc := b\<rparr>) \<and>
    fl' = (if m_cRef t = 1 then p # fl else fl)"
proof -
  obtain n u where r: "CMediaSample_Release t = (n, u)" by force
  have t: "m_pBuffer u = m_pBuffer t" "m_cbBuffer u = m_cbBuffer t" "m_cRef u = n" "n = m_cRef t - 1"
    using r by (auto simp: CMediaSample_Release_def CMediaSample_SetMediaType_def Let_def split: if_splits)
  show ?thesis
  proof (cases "m_cRef t = 1")
    case True
    then show ?thesis using ReleaseBuffer_inv [OF assms(1-3), of u] t assms(2) r by (auto simp: sample_Release_def)
  next
    case False
    then have "m_cRef u \<noteq> 0" using t(3,4) by simp
    then show ?thesis using alloc_inv_edit [OF assms(1-3), of u] t False assms(2) r by (auto simp: sample_Release_def)
  qed
qed

section \<open>Committing\<close>

lemma outside_pool_size: "outside_pool b = outside_pool a \<Longrightarrow> aligned_size b = aligned_size a"
  by (simp add: outside_pool_def aligned_size_def Let_def cong: if_cong)

definition all_free :: "nat list \<Rightarrow> CMemAllocator \<Rightarrow> bool" where
  "all_free fl a \<longleftrightarrow> pool fl a \<and> set fl = dom (samples a) \<and> counted a \<and> (m_pBlock a = None \<longrightarrow> samples a = Map.empty)"

text \<open>The end of \<open>Alloc\<close>, on a pool that is already empty.\<close>

lemma alloc_block:
  assumes "all_free [] a" and "m_bChanged a" and "0 < sint (m_lCount a)" and "0 < sint (m_lSize a)" and "0 < sint (m_lAlignment a)"
    and "0 \<le> sint (m_lPrefix a)" and "aligned_size a = Some n"
  shows "\<exists>hr b fl'. alloc_loop n blk (a\<lparr>m_pBlock := Some blk\<rparr>) = Some (hr, b) \<and> all_free fl' b \<and> outside_pool b = outside_pool a \<and>
    (\<not> m_bChanged b \<longrightarrow> laid_out b) \<and> (hr = NOERROR \<and> \<not> m_bChanged b \<or> hr = E_OUTOFMEMORY \<and> m_bChanged b)"
proof -
  let ?a = "a\<lparr>m_pBlock := Some blk\<rparr>"
  have emp: "samples ?a = Map.empty" "pool [] ?a" "counted ?a" using assms(1) by (auto simp: all_free_def pool_def counted_def)
  then have "slots (\<lambda>_. 0) blk (nat (sint n)) (nat (sint (m_lPrefix ?a))) (m_lSize ?a) (card (dom (samples ?a))) (samples ?a)"
    by (simp add: slots_def)
  note ends = alloc_loop_ends [OF emp(2) _ emp(3) _ _ this _ refl]
  obtain hr b fl' idx where b: "alloc_loop n blk ?a = Some (hr, b)" "pool fl' b" "set fl' = dom (samples b)" "counted b"
      "outside_pool b = outside_pool ?a" "m_pBlock b = Some blk"
      "hr = NOERROR \<and> \<not> m_bChanged b \<and> m_lAllocated b = m_lCount b \<and>
       slots idx blk (nat (sint n)) (nat (sint (m_lPrefix b))) (m_lSize b) (nat (sint (m_lCount b))) (samples b) \<or>
     hr = E_OUTOFMEMORY \<and> m_bChanged b"
    using ends assms emp(1) by auto
  have sz: "aligned_size b = Some n" using outside_pool_size [OF b(5)] assms(7) by simp
  have "\<not> m_bChanged b \<longrightarrow> laid_out b" using b sz assms by (auto simp: laid_out_def stride_def outside_pool_def)
  then show ?thesis using b assms(2) by (auto simp: all_free_def outside_pool_def)
qed

lemma SIZENOTSET_fails: "\<not> SUCCEEDED VFW_E_SIZENOTSET"
  by (simp add: SUCCEEDED_def hr_defs)

lemma base_Alloc_cases:
  "FAILED (CBaseAllocator_Alloc a) \<or> CBaseAllocator_Alloc a = S_FALSE \<and> \<not> m_bChanged a \<or>
   CBaseAllocator_Alloc a = NOERROR \<and> m_bChanged a \<and> 0 < sint (m_lCount a) \<and> 0 < sint (m_lSize a) \<and> 0 < sint (m_lAlignment a)"
  by (simp add: CBaseAllocator_Alloc_def SIZENOTSET_fails not_le)

lemma Alloc_inv:
  assumes "all_free fl a" and "\<not> m_bChanged a \<longrightarrow> laid_out a"
  shows "\<exists>hr b fl'. CMemAllocator_Alloc VirtualAlloc a = Some (hr, b) \<and> all_free fl' b \<and> outside_pool b = outside_pool a \<and>
    (\<not> m_bChanged b \<longrightarrow> laid_out b) \<and> (hr = NOERROR \<and> \<not> m_bChanged b \<or> FAILED hr)"
proof -
  let ?hr = "CBaseAllocator_Alloc a"
  consider "FAILED ?hr" | "?hr = S_FALSE" "\<not> m_bChanged a"
    | "?hr = NOERROR" "m_bChanged a" "0 < sint (m_lCount a)" "0 < sint (m_lSize a)" "0 < sint (m_lAlignment a)"
    using base_Alloc_cases [of a] by blast
  then show ?thesis
  proof cases
    case 1
    then show ?thesis using assms by (auto simp: CMemAllocator_Alloc_def)
  next
    case 2
    then show ?thesis using assms by (auto simp: CMemAllocator_Alloc_def)
  next
    case 3
    obtain c where c: "(if m_pBlock a \<noteq> None then ReallyFree a else Some a) = Some c" "all_free [] c" "outside_pool c = outside_pool a"
        "m_bChanged c"
      using ReallyFree_ends [of fl a] assms(1) 3(2) by (cases "m_pBlock a") (auto simp: all_free_def)
    have f: "m_lCount c = m_lCount a" "m_lSize c = m_lSize a" "m_lAlignment c = m_lAlignment a" "m_lPrefix c = m_lPrefix a"
      using c(3) by (auto simp: outside_pool_def)
    have stop: ?thesis if "CMemAllocator_Alloc VirtualAlloc a = Some (E_OUTOFMEMORY, c)
        \<or> CMemAllocator_Alloc VirtualAlloc a = Some (E_OUTOFMEMORY, c\<lparr>m_pBlock := None\<rparr>) \<and> samples c = Map.empty"
      using that c by (auto simp: all_free_def pool_def counted_def outside_pool_def)
    have codes: "S_OK \<noteq> S_FALSE" by (simp add: hr_defs)
    have run: "CMemAllocator_Alloc VirtualAlloc a = (if sint (m_lSize c) < 0 \<or> sint (m_lPrefix c) < 0 \<or> sint (m_lCount c) < 0
        then Some (E_OUTOFMEMORY, c) else case aligned_size c of None \<Rightarrow> Some (E_OUTOFMEMORY, c)
        | Some n \<Rightarrow> if sint (m_lCount c) * sint n > MAXLONG then Some (E_OUTOFMEMORY, c)
            else (case VirtualAlloc (sint (m_lCount c) * sint n) of None \<Rightarrow> Some (E_OUTOFMEMORY, c\<lparr>m_pBlock := None\<rparr>)
              | Some blk \<Rightarrow> alloc_loop n blk (c\<lparr>m_pBlock := Some blk\<rparr>)))"
      unfolding CMemAllocator_Alloc_def Let_def 3(1) c(1) using codes by simp
    have emp: "samples c = Map.empty" using c(2) by (auto simp: all_free_def)
    show ?thesis
    proof (cases "\<exists>n blk. 0 \<le> sint (m_lPrefix c) \<and> aligned_size c = Some n \<and> sint (m_lCount c) * sint n \<le> MAXLONG \<and>
        VirtualAlloc (sint (m_lCount c) * sint n) = Some blk")
      case True
      then obtain n blk where n: "0 \<le> sint (m_lPrefix c)" "aligned_size c = Some n" "sint (m_lCount c) * sint n \<le> MAXLONG"
        "VirtualAlloc (sint (m_lCount c) * sint n) = Some blk" by blast
      have "CMemAllocator_Alloc VirtualAlloc a = alloc_loop n blk (c\<lparr>m_pBlock := Some blk\<rparr>)"
        unfolding run using n 3 f by (simp add: not_less not_le)
      then show ?thesis using alloc_block [OF c(2,4) _ _ _ n(1,2), of blk] 3 f c(3) by auto
    next
      case False
      then show ?thesis using 3 f emp by (intro stop) (auto simp: run split: option.splits)
    qed
  qed
qed

lemma alloc_inv_commit:
  assumes "alloc_inv fl s"
  shows "\<exists>hr b fl'. CBaseAllocator_Commit VirtualAlloc (alc s) = Some (hr, b) \<and> alloc_inv fl' (s\<lparr>alc := b\<rparr>) \<and>
    (hr = NOERROR \<longleftrightarrow> m_bCommitted b) \<and> (hr = NOERROR \<or> FAILED hr)"
proof -
  let ?a = "alc s"
  have inv: "pool fl ?a" "lent fl ?a" "counted ?a" "modes fl ?a" "\<not> m_bChanged ?a \<longrightarrow> laid_out ?a" "gates fl s"
    using assms(1) by (auto simp: alloc_inv_def)
  consider "m_bCommitted ?a" | "\<not> m_bCommitted ?a" "m_bDecommitInProgress ?a" | "\<not> m_bCommitted ?a" "\<not> m_bDecommitInProgress ?a"
    by blast
  then show ?thesis
  proof cases
    case 1
    then show ?thesis using assms by (auto simp: CBaseAllocator_Commit_def)
  next
    case 2
    then show ?thesis using inv by (auto simp: CBaseAllocator_Commit_def alloc_inv_def alloc_parts)
  next
    case 3
    let ?c = "?a\<lparr>m_bCommitted := True\<rparr>"
    have "all_free fl ?c" using inv 3 pool_all_free [OF inv(1)] by (auto simp: all_free_def alloc_parts)
    then obtain hr b fl' where b: "CMemAllocator_Alloc VirtualAlloc ?c = Some (hr, b)" "all_free fl' b" "outside_pool b = outside_pool ?c"
        "\<not> m_bChanged b \<longrightarrow> laid_out b" "hr = NOERROR \<and> \<not> m_bChanged b \<or> FAILED hr"
      using Alloc_inv [of fl ?c VirtualAlloc] inv(5) by auto
    have len: "length fl' = card (dom (samples b))" using b(2) pool_all_free by (auto simp: all_free_def)
    have lent: "lent fl' b" using b(2) by (auto simp: all_free_def lent_def)
    show ?thesis using b 3 inv(4,6) len lent
      by (auto simp: CBaseAllocator_Commit_def alloc_inv_def alloc_parts all_free_def outside_pool_def)
  qed
qed

section \<open>Properties of the allocator\<close>

lemma alloc_step_inv: "alloc_step s s' \<Longrightarrow> alloc_inv fl s \<Longrightarrow> \<exists>fl'. alloc_inv fl' s'"
proof (induction rule: alloc_step.induct)
  case (get s nowait r a)
  then obtain r' a' fl' where "GetBuffer_round nowait (alc s) = Some (r', a')" "alloc_inv fl' (after_round r' a' s)"
    using GetBuffer_round_inv by blast
  then show ?case using get(2) by auto
next
  case (wakes s r a)
  then have "alloc_inv fl (wake s)" using alloc_inv_wake by blast
  moreover have "waiters (wake s) + polls (wake s) + 1 < 2 ^ 31"
    using wakes by (simp add: alloc_inv_def gates_def Let_def wake_def)
  ultimately obtain r' a' fl' where "GetBuffer_round False (alc (wake s)) = Some (r', a')" "alloc_inv fl' (after_round r' a' (wake s))"
    using GetBuffer_round_inv by blast
  then show ?case using wakes(3) by auto
next
  case (add_ref s p t)
  then show ?case using alloc_inv_edit [of fl s p t "snd (CMediaSample_AddRef t)"] by (auto simp: CMediaSample_AddRef_def)
next
  case (edit s p t t')
  then show ?case using alloc_inv_edit [of fl s p t t'] by auto
next
  case (release s p t n a)
  then show ?case using sample_Release_inv [of fl s p t] by auto
next
  case (commit VA s hr a)
  then show ?case using alloc_inv_commit [of fl s VA] by auto
next
  case (decommit s)
  then show ?case using alloc_inv_decommit by blast
next
  case (set_properties s g q)
  then show ?case using alloc_inv_set_properties by blast
next
  case (set_notify s n)
  then have "alloc_inv fl (s\<lparr>alc := SetNotify n (alc s)\<rparr>)"
    by (auto simp: alloc_inv_def alloc_parts SetNotify_def)
  then show ?case by blast
qed

lemma alloc_reachable_inv: "alloc_reachable s \<Longrightarrow> \<exists>fl. alloc_inv fl s"
  by (induction rule: alloc_reachable.induct) (blast intro: alloc_inv_start alloc_step_inv)+

text \<open>Rounding up to the alignment, and the overflow checks that make it safe.\<close>

lemma trem_nonneg: "0 \<le> sint x \<Longrightarrow> 0 < sint y \<Longrightarrow> sint (trem x y) = sint x mod sint y" for x y :: i32
proof -
  assume a: "0 \<le> sint x" "0 < sint y"
  then have "sint x - tdiv (sint x) (sint y) * sint y = sint x mod sint y"
    by (cases "sint x = 0") (simp_all add: tdiv_def minus_div_mult_eq_mod)
  moreover have "0 \<le> sint x mod sint y" "sint x mod sint y < sint y" using a by simp_all
  ultimately show ?thesis using sint_range32 [of y]
    by (simp add: trem_def sint_eq_signed_take_bit signed_take_bit_int_eq_self)
qed

lemma sint_add_checked:
  "0 \<le> sint x \<Longrightarrow> 0 \<le> sint y \<Longrightarrow> \<not> sint (x + y) < sint x \<Longrightarrow> sint (x + y) = sint x + sint y" for x y :: i32
  using sint_range32 [of x] sint_range32 [of y] signed_take_bit_int_less_eq [of 31 "sint x + sint y"]
  by (cases "2 ^ 31 \<le> sint x + sint y") (simp_all add: sint_word_ariths signed_take_bit_int_eq_self)

lemma aligned_size_ok:
  assumes "aligned_size a = Some n" and "0 < sint (m_lSize a)" and "0 \<le> sint (m_lPrefix a)" and "0 < sint (m_lAlignment a)"
  shows "sint (m_lSize a) + sint (m_lPrefix a) \<le> sint n \<and> sint (m_lAlignment a) dvd sint n"
proof -
  let ?l = "m_lSize a + m_lPrefix a" and ?al = "m_lAlignment a"
  have l: "sint ?l = sint (m_lSize a) + sint (m_lPrefix a)"
    by (rule sint_add_checked) (use assms in \<open>auto simp: aligned_size_def Let_def split: if_splits\<close>)
  have r: "sint (trem ?l ?al) = sint ?l mod sint ?al" by (rule trem_nonneg) (use l assms in simp_all)
  show ?thesis
  proof (cases "1 < sint ?al \<and> trem ?l ?al \<noteq> 0")
    case False
    then have n: "n = ?l" using assms(1) by (auto simp: aligned_size_def Let_def split: if_splits)
    have "sint ?al dvd sint ?l"
    proof (cases "1 < sint ?al")
      case True
      then have "trem ?l ?al = 0" using False by simp
      then show ?thesis using r by (simp add: dvd_eq_mod_eq_0)
    next
      case False
      then have "sint ?al = 1" using assms(4) by simp
      then show ?thesis by simp
    qed
    then show ?thesis using n l by simp
  next
    case True
    then have n: "n = ?l + (?al - trem ?l ?al)" and ov: "\<not> sint n < sint ?l"
      using assms(1) by (auto simp: aligned_size_def Let_def algebra_simps split: if_splits)
    have m: "0 \<le> sint ?l mod sint ?al" "sint ?l mod sint ?al < sint ?al" using assms(4) by simp_all
    have d: "sint (?al - trem ?l ?al) = sint ?al - sint ?l mod sint ?al"
      using m sint_range32 [of ?al] r by (simp add: sint_word_ariths signed_take_bit_int_eq_self)
    have "0 \<le> sint ?l" "0 \<le> sint (?al - trem ?l ?al)" using l d m assms by linarith+
    then have "sint n = sint ?l + sint (?al - trem ?l ?al)" unfolding n by (rule sint_add_checked) (use ov n in simp)
    then have "sint n = (sint ?l div sint ?al + 1) * sint ?al"
      using d by (simp add: distrib_right minus_mod_eq_div_mult [symmetric])
    then show ?thesis using ov l by simp
  qed
qed

text \<open>C5. In every state the threads can reach the free list is a chain without repetition that holds exactly
  the samples nobody refers to, and the two counts are its length and the number of samples. A free
  sample means that \<open>m_lWaiting\<close> is 0. \<open>m_lWaiting\<close> and the semaphore together count the threads that wait, plus
  one for every call with \<open>AM_GBF_NOWAIT\<close> that ever found nothing. A decommit is pending only while samples
  are out, samples are out only while committed or pending, and exactly then the allocator holds
  a reference on itself.\<close>

theorem allocator_ownership:
  assumes "alloc_reachable s"
  shows "\<exists>fl. free_chain (samples (alc s)) (m_List (alc s)) fl \<and> distinct fl \<and>
    (\<forall>p t. samples (alc s) p = Some t \<longrightarrow> (p \<in> set fl \<longleftrightarrow> m_cRef t = 0)) \<and>
    sint (CSampleList_GetCount (alc s)) = int (length fl) \<and> sint (m_lAllocated (alc s)) = int (card (dom (samples (alc s)))) \<and>
    (fl \<noteq> [] \<longrightarrow> m_lWaiting (alc s) = 0) \<and>
    sint (m_lWaiting (alc s)) + int (m_hSem (alc s)) = int (waiters s + polls s) \<and>
    \<not> (m_bCommitted (alc s) \<and> m_bDecommitInProgress (alc s)) \<and>
    (m_bDecommitInProgress (alc s) \<longrightarrow> set fl \<noteq> dom (samples (alc s))) \<and>
    (\<not> m_bCommitted (alc s) \<and> \<not> m_bDecommitInProgress (alc s) \<longrightarrow> set fl = dom (samples (alc s))) \<and>
    self_refs (alc s) = (if m_bCommitted (alc s) \<or> m_bDecommitInProgress (alc s) then 1 else 0)"
proof -
  obtain fl where i: "alloc_inv fl s" using alloc_reachable_inv [OF assms] by blast
  then have inv: "pool fl (alc s)" "lent fl (alc s)" "counted (alc s)" "modes fl (alc s)" "gates fl s"
    by (auto simp: alloc_inv_def)
  have "samples (alc s) p = Some t \<Longrightarrow> p \<in> set fl \<longleftrightarrow> m_cRef t = 0" for p t
    using inv(1,2) free_chain_idle by (fastforce simp: pool_def lent_def)
  then show ?thesis using inv counts_read [OF inv(1,3)] pool_all_free [OF inv(1)]
    by (intro exI [of _ fl]) (auto simp: pool_def modes_def gates_def Let_def)
qed

text \<open>An allocator with one buffer, committed.\<close>

definition one_buffer :: "alloc_sys" where
  "one_buffer = \<lparr>alc = snd (CMemAllocator_SetProperties 65536 \<lparr>cBuffers = 1, cbBuffer_req = 100, cbAlign = 64, cbPrefix = 8\<rparr>
     (new_CMemAllocator [(7, undefined)])), waiters = 0, polls = 0\<rparr>"

definition one_committed :: "alloc_sys" where
  "one_committed = one_buffer\<lparr>alc := snd (the (CBaseAllocator_Commit (\<lambda>_. Some 65536) (alc one_buffer)))\<rparr>"

lemma one_buffer_alc:
  "alc one_buffer = (new_CMemAllocator [(7, undefined)])\<lparr>m_lSize := 120, m_lCount := 1, m_lAlignment := 64, m_lPrefix := 8, m_bChanged := True\<rparr>"
  by (simp add: one_buffer_def CMemAllocator_SetProperties_def new_CMemAllocator_def CSampleList_GetCount_def trem_def tdiv_def Let_def)

lemma one_commit:
  "CBaseAllocator_Commit (\<lambda>_. Some 65536) (alc one_buffer) = Some (NOERROR, (alc one_buffer)\<lparr>m_bCommitted := True, m_pBlock := Some 65536,
     fresh_samples := [], samples := [7 \<mapsto> (snd (new_CMediaSample undefined 65544 120 S_OK))\<lparr>m_pNext := None\<rparr>], m_List := Some 7,
     m_nOnList := 1, m_lAllocated := 1, m_bChanged := False, self_refs := 1\<rparr>)"
  by (simp add: one_buffer_alc CBaseAllocator_Commit_def CMemAllocator_Alloc_def CBaseAllocator_Alloc_def new_CMemAllocator_def
      aligned_size_def trem_def tdiv_def MAXLONG_def alloc_loop.simps CSampleList_Add_def set_sample_def Let_def hr_defs SUCCEEDED_def)

lemma one_committed_alc:
  "alc one_committed = (alc one_buffer)\<lparr>m_bCommitted := True, m_pBlock := Some 65536,
     fresh_samples := [], samples := [7 \<mapsto> (snd (new_CMediaSample undefined 65544 120 S_OK))\<lparr>m_pNext := None\<rparr>], m_List := Some 7,
     m_nOnList := 1, m_lAllocated := 1, m_bChanged := False, self_refs := 1\<rparr>"
  "waiters one_committed = 0" "polls one_committed = 0"
  by (simp_all add: one_committed_def one_commit) (simp_all add: one_buffer_def)

lemma one_committed_reachable: "alloc_reachable one_committed"
proof -
  have "alloc_reachable one_buffer" unfolding one_buffer_def
    using alloc_reachable.step [OF alloc_reachable.start [of "[(7, undefined)]"] alloc_step.set_properties] by simp
  then show ?thesis using alloc_reachable.step [OF _ alloc_step.commit [OF one_commit]] one_commit
    by (simp add: one_committed_def)
qed

theorem allocator_ownership_witness:
  "\<exists>fl. free_chain (samples (alc one_committed)) (m_List (alc one_committed)) fl \<and> length fl = 1 \<and>
     sint (m_lAllocated (alc one_committed)) = 1 \<and> self_refs (alc one_committed) = 1"
proof -
  have "CSampleList_GetCount (alc one_committed) = 1" "m_bCommitted (alc one_committed)" "m_lAllocated (alc one_committed) = 1"
    by (simp_all add: one_committed_alc CSampleList_GetCount_def)
  then show ?thesis using allocator_ownership [OF one_committed_reachable] by auto
qed

text \<open>No operation of a reachable allocator reaches a NULL pointer or loops forever. A round of
  \<open>GetBuffer\<close> returns the first free sample with one reference, waits only when there is none, and fails exactly
  when not committed or, asked not to wait, when there is no sample. \<open>Release\<close> of a held sample returns the
  remaining references and makes it the first free sample when they are 0. \<open>Commit\<close> ends, with success
  exactly when the allocator is then committed. The destructor, which can run only when the allocator
  no longer holds itself, frees every sample and the block.\<close>

theorem allocator_operations:
  assumes "alloc_reachable s" and "waiters s + polls s + 1 < 2 ^ 31"
  shows "(\<exists>a. GetBuffer_round nowait (alc s) =
      Some (if \<not> m_bCommitted (alc s) then GB_Fails VFW_E_NOT_COMMITTED
            else case m_List (alc s) of Some p \<Rightarrow> GB_Gets p
              | None \<Rightarrow> if nowait then GB_Fails VFW_E_TIMEOUT else GB_Waits, a)) \<and>
    (\<forall>p t. samples (alc s) p = Some t \<longrightarrow> m_cRef t \<noteq> 0 \<longrightarrow>
      (\<exists>a. sample_Release p (alc s) = Some (m_cRef t - 1, a) \<and> (m_cRef t = 1 \<longrightarrow> m_List a = Some p))) \<and>
    (\<exists>hr a. CBaseAllocator_Commit VirtualAlloc (alc s) = Some (hr, a) \<and> (SUCCEEDED hr \<longleftrightarrow> m_bCommitted a)) \<and>
    (self_refs (alc s) = 0 \<longrightarrow>
      (\<exists>a. CMemAllocator_destructor (alc s) = Some a \<and> samples a = Map.empty \<and> m_pBlock a = None))"
proof (intro conjI allI impI)
  obtain fl where i: "alloc_inv fl s" using alloc_reachable_inv [OF assms(1)] by blast
  then have inv: "pool fl (alc s)" "modes fl (alc s)" by (auto simp: alloc_inv_def)
  have h: "m_List (alc s) = (case fl of [] \<Rightarrow> None | p # _ \<Rightarrow> Some p)" using inv(1) free_chain_head by (auto simp: pool_def)
  show "\<exists>a. GetBuffer_round nowait (alc s) = Some (if \<not> m_bCommitted (alc s) then GB_Fails VFW_E_NOT_COMMITTED
            else case m_List (alc s) of Some p \<Rightarrow> GB_Gets p
              | None \<Rightarrow> if nowait then GB_Fails VFW_E_TIMEOUT else GB_Waits, a)"
    using GetBuffer_round_inv [OF i assms(2), of nowait] h by (cases fl) auto
  show "\<exists>a. sample_Release p (alc s) = Some (m_cRef t - 1, a) \<and> (m_cRef t = 1 \<longrightarrow> m_List a = Some p)"
    if "samples (alc s) p = Some t" "m_cRef t \<noteq> 0" for p t
    using sample_Release_inv [OF i that] by (cases "m_cRef t = 1") (auto simp: alloc_inv_def pool_def)
  show "\<exists>hr a. CBaseAllocator_Commit VirtualAlloc (alc s) = Some (hr, a) \<and> (SUCCEEDED hr \<longleftrightarrow> m_bCommitted a)"
    using alloc_inv_commit [OF i, of VirtualAlloc] by auto
  assume "self_refs (alc s) = 0"
  then have d: "CBaseAllocator_Decommit (alc s) = alc s" "set fl = dom (samples (alc s))"
    using inv pool_all_free [OF inv(1)] by (auto simp: modes_def CBaseAllocator_Decommit_def split: if_splits)
  show "\<exists>a. CMemAllocator_destructor (alc s) = Some a \<and> samples a = Map.empty \<and> m_pBlock a = None"
    using ReallyFree_ends [OF inv(1) d(2)] d(1) by (auto simp: CMemAllocator_destructor_def)
qed

theorem allocator_operations_witness:
  "\<exists>a. GetBuffer_round True (alc one_committed) = Some (GB_Gets 7, a)"
proof -
  have "m_List (alc one_committed) = Some 7" "m_bCommitted (alc one_committed)" "waiters one_committed + polls one_committed + 1 < 2 ^ 31"
    by (simp_all add: one_committed_alc)
  then show ?thesis using allocator_operations [OF one_committed_reachable, of True] by auto
qed

text \<open>C24. No thread waits in vain: whenever a sample is free or the allocator is not committed, the
  semaphore admits every waiting thread, and the thread that wakes gets the first free sample, or is refused
  with \<open>VFW_E_NOT_COMMITTED\<close>.\<close>

theorem allocator_no_deadlock:
  assumes "alloc_reachable s" and "0 < waiters s" and "m_List (alc s) \<noteq> None \<or> \<not> m_bCommitted (alc s)"
  shows "waiters s \<le> m_hSem (alc s) \<and>
    (\<exists>a. GetBuffer_round False (alc (wake s)) =
      Some (if m_bCommitted (alc s) then GB_Gets (the (m_List (alc s))) else GB_Fails VFW_E_NOT_COMMITTED, a) \<and>
      alloc_step s (after_round (if m_bCommitted (alc s) then GB_Gets (the (m_List (alc s))) else GB_Fails VFW_E_NOT_COMMITTED) a (wake s)))"
proof -
  obtain fl where i: "alloc_inv fl s" using alloc_reachable_inv [OF assms(1)] by blast
  then have inv: "pool fl (alc s)" "gates fl s" by (auto simp: alloc_inv_def)
  have h: "m_List (alc s) = (case fl of [] \<Rightarrow> None | p # _ \<Rightarrow> Some p)" using inv(1) free_chain_head by (auto simp: pool_def)
  have w: "m_hSem (alc s) = waiters s + polls s" "waiters s + polls s < 2 ^ 31"
    using inv(2) h assms(3) by (auto simp: gates_def Let_def split: list.splits)
  have "alloc_inv fl (wake s)" by (rule alloc_inv_wake [OF i assms(2)]) (use w(1) assms(2) in simp)
  then obtain a where "GetBuffer_round False (alc (wake s)) =
      Some (if m_bCommitted (alc s) then GB_Gets (the (m_List (alc s))) else GB_Fails VFW_E_NOT_COMMITTED, a)"
    using GetBuffer_round_inv [of fl "wake s" False] w(2) assms(2,3) h by (cases fl) (auto simp: wake_def)
  then show ?thesis using alloc_step.wakes [OF assms(2)] w(1) assms(2) by auto
qed

text \<open>A thread takes the only buffer, another waits, and the first gives the buffer back.\<close>

definition handed_over :: "alloc_sys \<Rightarrow> alloc_sys" where
  "handed_over s = (let (r, a) = the (GetBuffer_round False (alc s)); s = after_round r a s;
     (r, a) = the (GetBuffer_round False (alc s)); s = after_round r a s
   in s\<lparr>alc := snd (the (sample_Release 7 (alc s)))\<rparr>)"

lemma handed_over_reachable:
  "alloc_reachable (handed_over one_committed) \<and> waiters (handed_over one_committed) = 1 \<and>
   m_List (alc (handed_over one_committed)) = Some 7 \<and> m_bCommitted (alc (handed_over one_committed))"
proof -
  let ?s = "one_committed"
  let ?t = "(snd (new_CMediaSample undefined 65544 120 S_OK))\<lparr>m_pNext := None, m_cRef := 1\<rparr>"
  let ?a = "(alc ?s)\<lparr>m_List := None, m_nOnList := 0, samples := [7 \<mapsto> ?t]\<rparr>"
  have 1: "GetBuffer_round False (alc ?s) = Some (GB_Gets 7, ?a)"
    by (simp add: one_committed_alc GetBuffer_round_def CSampleList_RemoveHead_def set_sample_def)
  let ?s1 = "after_round (GB_Gets 7) ?a ?s"
  have 2: "GetBuffer_round False (alc ?s1) = Some (GB_Waits, ?a\<lparr>m_lWaiting := 1\<rparr>)"
    by (simp add: after_round_def GetBuffer_round_def CSampleList_RemoveHead_def SetWaiting_def one_committed_alc
        one_buffer_alc new_CMemAllocator_def)
  let ?s2 = "after_round GB_Waits (?a\<lparr>m_lWaiting := 1\<rparr>) ?s1"
  have "alloc_reachable ?s1" by (rule alloc_reachable.step [OF one_committed_reachable alloc_step.get [OF _ 1]]) (simp add: one_committed_alc)
  then have r2: "alloc_reachable ?s2" by (rule alloc_reachable.step [OF _ alloc_step.get [OF _ 2]]) (simp add: one_committed_alc after_round_def)
  have t: "samples (alc ?s2) 7 = Some ?t" "m_cRef ?t = 1" by (simp_all add: after_round_def)
  obtain a where a: "sample_Release 7 (alc ?s2) = Some (0, a)" "m_List a = Some 7" "m_bCommitted a"
  proof -
    obtain fl where i: "alloc_inv fl ?s2" using alloc_reachable_inv [OF r2] by blast
    obtain b where b: "sample_Release 7 (alc ?s2) = Some (0, b)" "alloc_inv (7 # fl) (?s2\<lparr>alc := b\<rparr>)"
      using sample_Release_inv [OF i t(1)] t(2) by auto
    have "m_bCommitted (alc ?s2)" by (simp add: after_round_def one_committed_alc)
    then have "m_bCommitted b" using b(1)
      by (auto simp: sample_Release_def ReleaseBuffer_def CSampleList_Add_def NotifySample_def ReleaseSemaphore_hSem_def set_sample_def
          CMemAllocator_Free_def split: if_splits option.splits prod.splits bind_splits)
    then show ?thesis using that b by (auto simp: alloc_inv_def pool_def)
  qed
  have "handed_over ?s = ?s2\<lparr>alc := a\<rparr>" unfolding handed_over_def Let_def using 1 2 a(1) by simp
  moreover have "alloc_reachable (?s2\<lparr>alc := a\<rparr>)"
    using alloc_reachable.step [OF r2 alloc_step.release [OF t(1) _ a(1)]] t(2) by simp
  ultimately show ?thesis using a by (simp add: after_round_def one_committed_alc(2))
qed

theorem allocator_no_deadlock_witness:
  "1 \<le> m_hSem (alc (handed_over one_committed)) \<and>
   (\<exists>a. GetBuffer_round False (alc (wake (handed_over one_committed))) = Some (GB_Gets 7, a))"
  using allocator_no_deadlock [of "handed_over one_committed"] handed_over_reachable by auto

text \<open>C28. While the allocator is committed or a decommit is pending, all its samples have buffers of the
  agreed size inside the block, the prefixed buffers lie on multiples of the alignment from the start of
  the block, and no two of them overlap.\<close>

theorem allocator_buffers:
  assumes "alloc_reachable s" and "m_bCommitted (alc s) \<or> m_bDecommitInProgress (alc s)" and "samples (alc s) p = Some t"
  shows "\<exists>block k pre al n. m_pBlock (alc s) = Some block \<and> int pre = sint (m_lPrefix (alc s)) \<and>
    int al = sint (m_lAlignment (alc s)) \<and> 0 < al \<and> int n = sint (m_lSize (alc s)) \<and> 0 < n \<and>
    m_cbBuffer t = m_lSize (alc s) \<and> m_pBuffer t = block + k * al + pre \<and>
    m_pBuffer t + n \<le> block + nat (sint (m_lCount (alc s))) * stride (alc s) \<and>
    (\<forall>q u. samples (alc s) q = Some u \<longrightarrow> q \<noteq> p \<longrightarrow> m_pBuffer t + n + pre \<le> m_pBuffer u \<or> m_pBuffer u + n + pre \<le> m_pBuffer t)"
proof -
  let ?a = "alc s"
  obtain fl where i: "alloc_inv fl s" using alloc_reachable_inv [OF assms(1)] by blast
  then have inv: "pool fl ?a" "modes fl ?a" "counted ?a" "laid_out ?a" using assms(2) by (auto simp: alloc_inv_def modes_def)
  obtain block where b: "m_pBlock ?a = Some block" using inv(2) assms(3) by (cases "m_pBlock ?a") (auto simp: modes_def)
  have "card (dom (samples ?a)) \<noteq> 0" using inv(1) assms(3) by (auto simp: pool_def)
  then have "0 < sint (m_lCount ?a)" using counts_read [OF inv(1,3)] inv(4) by (auto simp: laid_out_def)
  then obtain w where w: "0 < sint (m_lSize ?a)" "0 < sint (m_lAlignment ?a)" "0 \<le> sint (m_lPrefix ?a)" "aligned_size ?a = Some w"
    using inv(4) by (auto simp: laid_out_def)
  define n pre al where "n = nat (sint (m_lSize ?a))" and "pre = nat (sint (m_lPrefix ?a))" and "al = nat (sint (m_lAlignment ?a))"
  have k: "n + pre \<le> stride ?a" "al dvd stride ?a"
    using aligned_size_ok [OF w(4) w(1,3,2)] w by (auto simp: stride_def n_def pre_def al_def nat_dvd_iff)
  obtain idx where ix: "slots idx block (stride ?a) pre (m_lSize ?a) (nat (sint (m_lCount ?a))) (samples ?a)"
    using inv(4) b by (auto simp: laid_out_def pre_def)
  have at: "m_pBuffer u = block + idx q * stride ?a + pre \<and> idx q < nat (sint (m_lCount ?a)) \<and> m_cbBuffer u = m_lSize ?a"
    if "samples ?a q = Some u" for q u
    using ix that by (auto simp: slots_def)
  have less: "x * stride ?a + stride ?a \<le> y * stride ?a" if "x < y" for x y
    using mult_le_mono1 [of "Suc x" y "stride ?a"] that by simp
  obtain c where c: "stride ?a = c * al" using k(2) by (metis dvd_def mult.commute)
  have "m_pBuffer t + n + pre \<le> m_pBuffer u \<or> m_pBuffer u + n + pre \<le> m_pBuffer t"
    if "samples ?a q = Some u" "q \<noteq> p" for q u
  proof -
    have "idx q \<noteq> idx p" using ix that assms(3) by (auto simp: slots_def inj_on_def)
    then consider "idx p < idx q" | "idx q < idx p" by linarith
    then show ?thesis using at [OF that(1)] at [OF assms(3)] less k(1) by cases (fastforce dest: less)+
  qed
  moreover have "m_pBuffer t + n \<le> block + nat (sint (m_lCount ?a)) * stride ?a"
    using at [OF assms(3)] less [of "idx p" "nat (sint (m_lCount ?a))"] k(1) by linarith
  moreover have "m_pBuffer t = block + idx p * c * al + pre" using at [OF assms(3)] c by (simp add: mult.assoc)
  moreover have "int pre = sint (m_lPrefix ?a)" "int al = sint (m_lAlignment ?a)" "0 < al" "int n = sint (m_lSize ?a)" "0 < n"
    using w by (simp_all add: n_def pre_def al_def)
  moreover have "m_cbBuffer t = m_lSize ?a" using at [OF assms(3)] by blast
  ultimately show ?thesis using b by blast
qed

theorem allocator_buffers_witness:
  "\<exists>t. samples (alc one_committed) 7 = Some t \<and> m_pBlock (alc one_committed) = Some 65536 \<and>
     (\<exists>k. m_pBuffer t = 65536 + k * 64 + 8) \<and> m_cbBuffer t = 120"
proof -
  obtain t where t: "samples (alc one_committed) 7 = Some t" "m_bCommitted (alc one_committed)" "m_lPrefix (alc one_committed) = 8"
      "m_lAlignment (alc one_committed) = 64" "m_pBlock (alc one_committed) = Some 65536" "m_lSize (alc one_committed) = 120"
    by (simp add: one_committed_alc one_buffer_alc new_CMemAllocator_def)
  show ?thesis using allocator_buffers [OF one_committed_reachable _ t(1)] t by force
qed

end
