(* ===== verification/Output_Queue.thy ===== *)
theory Output_Queue
  imports AR_Prelude "HOL-Library.Monad_Syntax"
begin

text \<open>
  Model of \<open>COutputQueue\<close> (\<open>src/baseclasses/outputq.h\<close>, \<open>outputq.cpp\<close>): samples for a downstream pin, sent in
  batches, either by the caller or through a list and a thread of its own. The list is a \<open>CBaseList\<close>,
  which \<open>Base_List_Props\<close> shows to be a queue; here it is a list of HOL, \<open>None\<close> when there is no thread.
  An operation is \<open>None\<close> when it writes beyond the batch, calls a method of a pointer that is not
  a sample, or does not end.

  A method is one step for each time it holds the lock; what it does between them is a step of its own.
  The answers of the downstream pin and whether memory is found are arguments. A sample is a number;
  a rate is the bit pattern of the \<open>double\<close>.
\<close>

type_synonym segment = "REFERENCE_TIME \<times> REFERENCE_TIME \<times> u64"

datatype queue_packet = Sample nat | SEND_PACKET | EOS_PACKET | RESET_PACKET | NEW_SEGMENT | SegmentPacket segment

text \<open>Calls made to the downstream pin.\<close>

datatype pin_call = D_ReceiveMultiple "nat list" | D_EndOfStream | D_NewSegment segment | D_BeginFlush | D_EndFlush

text \<open>\<open>m_ppSamples\<close> are the first \<open>m_nBatched\<close> entries of the array. The last three are outside the object: the
  event of the derived class, the calls to the pin and the samples released.\<close>

record COutputQueue =
  m_bBatchExact :: bool
  m_lBatchSize :: nat
  m_List :: "queue_packet list option"
  m_hSem :: nat
  m_evFlushComplete :: bool
  m_ppSamples :: "nat list"
  m_lWaiting :: nat
  m_bFlushing :: bool
  m_bFlushed :: bool
  m_bFlushingOpt :: bool
  m_bTerminate :: bool
  m_bSendAnyway :: bool
  m_hr :: HRESULT
  m_hEventPop :: bool
  pop_event :: bool
  calls :: "pin_call list"
  released :: "nat list"

abbreviation m_nBatched :: "COutputQueue \<Rightarrow> nat" where
  "m_nBatched q \<equiv> length (m_ppSamples q)"

text \<open>The answers are: that of \<open>QueryInterface\<close> for the input pin, of \<open>ReceiveCanBlock\<close>, and for the batch, the
  semaphore, the list and the thread the error if it cannot be created.\<close>

definition new_COutputQueue :: "HRESULT \<Rightarrow> HRESULT \<Rightarrow> HRESULT \<Rightarrow> HRESULT option \<Rightarrow> HRESULT option \<Rightarrow> HRESULT option \<Rightarrow> HRESULT option \<Rightarrow>
    bool \<Rightarrow> bool \<Rightarrow> nat \<Rightarrow> bool \<Rightarrow> bool \<Rightarrow> HRESULT \<times> COutputQueue" where
  "new_COutputQueue phr query can_block no_batch no_sem no_list no_thread bAuto bQueue lBatchSize bBatchExact bFlushingOpt =
     (let q = \<lparr>m_bBatchExact = (bBatchExact \<and> lBatchSize > 1), m_lBatchSize = lBatchSize, m_List = None, m_hSem = 0,
            m_evFlushComplete = False, m_ppSamples = [], m_lWaiting = 0, m_bFlushing = False, m_bFlushed = True,
            m_bFlushingOpt = bFlushingOpt, m_bTerminate = False, m_bSendAnyway = False, m_hr = S_OK, m_hEventPop = False,
            pop_event = False, calls = [], released = []\<rparr>;
          bQueue = (if bAuto \<and> SUCCEEDED can_block then can_block = S_OK else bQueue)
      in if FAILED phr then (phr, q)
         else if FAILED query then (query, q)
         else case no_batch of Some e \<Rightarrow> (e, q)
            | None \<Rightarrow> (if bQueue then (case no_sem of Some e \<Rightarrow> (e, q)
                | None \<Rightarrow> (case no_list of Some e \<Rightarrow> (e, q)
                    | None \<Rightarrow> (case no_thread of Some e \<Rightarrow> (e, q\<lparr>m_List := Some []\<rparr>) | None \<Rightarrow> (query, q\<lparr>m_List := Some []\<rparr>))))
              else (query, q)))"

definition IsQueued :: "COutputQueue \<Rightarrow> bool" where
  "IsQueued q \<longleftrightarrow> m_List q \<noteq> None"

section \<open>The list and the batch\<close>

text \<open>Releasing what the list holds as a sample.\<close>

fun Release_packet :: "queue_packet \<Rightarrow> COutputQueue \<Rightarrow> COutputQueue option" where
  "Release_packet (Sample x) q = Some (q\<lparr>released := released q @ [x]\<rparr>)"
| "Release_packet p q = None"

fun IsSpecialSample :: "queue_packet \<Rightarrow> bool" where
  "IsSpecialSample (Sample x) = False"
| "IsSpecialSample (SegmentPacket g) = False"
| "IsSpecialSample p = True"

text \<open>\<open>ok\<close> says whether \<open>AddTail\<close> finds memory for a node.\<close>

definition QueueSample :: "bool \<Rightarrow> queue_packet \<Rightarrow> COutputQueue \<Rightarrow> COutputQueue option" where
  "QueueSample ok p q = do {
     L \<leftarrow> m_List q;
     if ok then Some (q\<lparr>m_List := Some (L @ [p])\<rparr>)
     else if \<not> IsSpecialSample p then Release_packet p q else Some q }"

text \<open>\<open>RemoveHead\<close> and the event that tells the derived class.\<close>

definition take_packet :: "COutputQueue \<Rightarrow> (queue_packet option \<times> COutputQueue) option" where
  "take_packet q = do {
     L \<leftarrow> m_List q;
     q \<leftarrow> Some (if m_hEventPop q then q\<lparr>pop_event := True\<rparr> else q);
     Some (case L of [] \<Rightarrow> (None, q) | p # L \<Rightarrow> (Some p, q\<lparr>m_List := Some L\<rparr>)) }"

definition NotifyThread :: "COutputQueue \<Rightarrow> COutputQueue" where
  "NotifyThread q = (if m_lWaiting q \<noteq> 0 then q\<lparr>m_hSem := m_hSem q + m_lWaiting q, m_lWaiting := 0\<rparr> else q)"

definition batch_add :: "nat \<Rightarrow> COutputQueue \<Rightarrow> COutputQueue option" where
  "batch_add x q = (if m_nBatched q < m_lBatchSize q then Some (q\<lparr>m_ppSamples := m_ppSamples q @ [x]\<rparr>) else None)"

partial_function (option) free_samples_loop :: "COutputQueue \<Rightarrow> COutputQueue option" where
  "free_samples_loop q = do {
     (pSample, q) \<leftarrow> take_packet q;
     (case pSample of
        None \<Rightarrow> Some q
      | Some p \<Rightarrow>
          if \<not> IsSpecialSample p then do { q \<leftarrow> Release_packet p q; free_samples_loop q }
          else if p = NEW_SEGMENT then do {
            (ppacket, q) \<leftarrow> take_packet q;
            (case ppacket of
               None \<Rightarrow> free_samples_loop q
             | Some (SegmentPacket g) \<Rightarrow> free_samples_loop q
             | Some _ \<Rightarrow> None) }
          else free_samples_loop q) }"

definition FreeSamples :: "COutputQueue \<Rightarrow> COutputQueue option" where
  "FreeSamples q = do {
     q \<leftarrow> (if IsQueued q then free_samples_loop q else Some q);
     Some (q\<lparr>released := released q @ m_ppSamples q, m_ppSamples := []\<rparr>) }"

section \<open>The thread\<close>

text \<open>The locked part of \<open>ThreadProc\<close>: the thread ends, or waits, or leaves with a packet, the batch to send and
  the parameters of a segment.\<close>

datatype scan = Scan_Ended | Scan_Wait | Scan_Send "queue_packet option" "nat list" "segment option"

definition leave_scan :: "queue_packet option \<Rightarrow> segment option \<Rightarrow> COutputQueue \<Rightarrow> (scan \<times> COutputQueue) option" where
  "leave_scan p g q = Some (Scan_Send p (m_ppSamples q) g, q\<lparr>m_ppSamples := []\<rparr>)"

partial_function (option) thread_scan :: "COutputQueue \<Rightarrow> (scan \<times> COutputQueue) option" where
  "thread_scan q =
     (if m_bTerminate q then do { q \<leftarrow> FreeSamples q; Some (Scan_Ended, q) }
      else do {
        q \<leftarrow> (if m_bFlushing q then do { q \<leftarrow> FreeSamples q; Some (q\<lparr>m_evFlushComplete := True\<rparr>) } else Some q);
        (pSample, q) \<leftarrow> take_packet q;
        (case pSample of
           Some (Sample x) \<Rightarrow> do {
             q \<leftarrow> batch_add x q;
             if m_nBatched q = m_lBatchSize q then leave_scan pSample None q else thread_scan q }
         | Some (SegmentPacket g) \<Rightarrow> None
         | None \<Rightarrow> if m_bBatchExact q \<or> m_nBatched q = 0 then Some (Scan_Wait, q\<lparr>m_lWaiting := m_lWaiting q + 1\<rparr>)
                   else leave_scan None None q
         | Some SEND_PACKET \<Rightarrow> if m_nBatched q = 0 then thread_scan q else leave_scan pSample None q
         | Some NEW_SEGMENT \<Rightarrow> do {
             (ppacket, q) \<leftarrow> take_packet q;
             (case ppacket of Some (SegmentPacket g) \<Rightarrow> leave_scan pSample (Some g) q | _ \<Rightarrow> None) }
         | Some EOS_PACKET \<Rightarrow> leave_scan pSample None q
         | Some RESET_PACKET \<Rightarrow> leave_scan pSample None q) })"

text \<open>The rest of the loop, outside the lock: the call downstream begins, it returns with \<open>hr\<close> (both only
  for a nonempty batch), and the packet is dealt with. Samples are released from the end of the batch.\<close>

definition release_batch :: "nat list \<Rightarrow> COutputQueue \<Rightarrow> COutputQueue" where
  "release_batch b q = q\<lparr>released := released q @ rev b\<rparr>"

text \<open>Whether the pin is being called.\<close>

definition ThreadProc_send :: "nat list \<Rightarrow> COutputQueue \<Rightarrow> bool \<times> COutputQueue" where
  "ThreadProc_send b q =
     (if b = [] then (False, q)
      else if m_hr q = S_OK then (True, q\<lparr>calls := calls q @ [D_ReceiveMultiple b]\<rparr>)
      else (False, release_batch b q))"

definition ThreadProc_return :: "nat list \<Rightarrow> HRESULT \<Rightarrow> COutputQueue \<Rightarrow> COutputQueue" where
  "ThreadProc_return b hr q = release_batch b (if m_hr q = S_OK then q\<lparr>m_hr := hr\<rparr> else q)"

definition ThreadProc_packet :: "queue_packet option \<Rightarrow> segment option \<Rightarrow> COutputQueue \<Rightarrow> COutputQueue option" where
  "ThreadProc_packet p g q =
     (case p of
        Some EOS_PACKET \<Rightarrow> Some (if m_hr q = S_OK then q\<lparr>calls := calls q @ [D_EndOfStream]\<rparr> else q)
      | Some RESET_PACKET \<Rightarrow> Some (q\<lparr>m_hr := S_OK, m_evFlushComplete := True\<rparr>)
      | Some NEW_SEGMENT \<Rightarrow> do { g \<leftarrow> g; Some (q\<lparr>calls := calls q @ [D_NewSegment g]\<rparr>) }
      | _ \<Rightarrow> Some q)"

section \<open>The methods\<close>

text \<open>What the downstream pin answers to a batch: the result and how many samples it has processed. It may
  depend on the calls made before.\<close>

type_synonym receiver_pin = "pin_call list \<Rightarrow> nat list \<Rightarrow> HRESULT \<times> int"

definition send_batch :: "receiver_pin \<Rightarrow> COutputQueue \<Rightarrow> int \<times> COutputQueue" where
  "send_batch pin q =
     (let (hr, nDone, q) = (if m_hr q = S_OK
            then (let (hr, n) = pin (calls q) (m_ppSamples q) in (hr, n, q\<lparr>calls := calls q @ [D_ReceiveMultiple (m_ppSamples q)]\<rparr>))
            else (m_hr q, 0, q))
      in (int (m_nBatched q) - nDone,
          q\<lparr>m_hr := hr, released := released q @ m_ppSamples q, m_ppSamples := []\<rparr>))"

text \<open>The loop of \<open>ReceiveMultiple\<close> without a thread; \<open>xs\<close> are the samples from \<open>iDone\<close> on.\<close>

partial_function (option) receive_loop :: "receiver_pin \<Rightarrow> nat \<Rightarrow> nat list \<Rightarrow> int \<Rightarrow> COutputQueue \<Rightarrow> (int \<times> COutputQueue) option" where
  "receive_loop pin nSamples xs iLost q =
     (if xs \<noteq> [] \<or> m_nBatched q \<noteq> 0 \<and> m_bSendAnyway q then do {
        q \<leftarrow> (case xs of [] \<Rightarrow> Some q | x # _ \<Rightarrow> batch_add x q);
        if m_nBatched q = m_lBatchSize q \<or> nSamples = 0 \<and> (m_bSendAnyway q \<or> \<not> m_bBatchExact q)
        then (let (lost, q) = send_batch pin q in receive_loop pin nSamples (tl xs) (iLost + lost) q)
        else receive_loop pin nSamples (tl xs) iLost q }
      else Some (iLost, q))"

fun queue_all :: "(nat \<times> bool) list \<Rightarrow> COutputQueue \<Rightarrow> COutputQueue option" where
  "queue_all [] q = Some q"
| "queue_all ((x, ok) # xs) q = do { q \<leftarrow> QueueSample ok (Sample x) q; queue_all xs q }"

text \<open>The samples with, for each, whether the list finds memory; the result code and \<open>nSamplesProcessed\<close>. (A
  negative \<open>nSamples\<close>, which is refused with \<open>E_INVALIDARG\<close>, has no list of samples.)\<close>

definition ReceiveMultiple :: "receiver_pin \<Rightarrow> (nat \<times> bool) list \<Rightarrow> COutputQueue \<Rightarrow> (HRESULT \<times> int \<times> COutputQueue) option" where
  "ReceiveMultiple pin ps q =
     (let xs = map fst ps
      in if m_hr q \<noteq> S_OK then Some (m_hr q, 0, q\<lparr>released := released q @ xs\<rparr>)
         else if \<not> IsQueued q then do {
           (iLost, q) \<leftarrow> receive_loop pin (length xs) xs 0 (q\<lparr>m_bFlushed := False\<rparr>);
           Some (m_hr q, max 0 (int (length xs) - iLost), q) }
         else do {
           q \<leftarrow> queue_all ps (q\<lparr>m_bFlushed := False\<rparr>);
           L \<leftarrow> m_List q;
           Some (S_OK, int (length xs), if \<not> m_bBatchExact q \<or> m_nBatched q + length L \<ge> m_lBatchSize q then NotifyThread q else q) })"

definition OutputQueue_Receive :: "receiver_pin \<Rightarrow> nat \<Rightarrow> bool \<Rightarrow> COutputQueue \<Rightarrow> (HRESULT \<times> COutputQueue) option" where
  "OutputQueue_Receive pin x ok q = do { (hr, n, q) \<leftarrow> ReceiveMultiple pin [(x, ok)] q; Some (hr, q) }"

definition SendAnyway :: "receiver_pin \<Rightarrow> bool \<Rightarrow> COutputQueue \<Rightarrow> COutputQueue option" where
  "SendAnyway pin ok q =
     (if \<not> IsQueued q then do {
        (hr, n, q) \<leftarrow> ReceiveMultiple pin [] (q\<lparr>m_bSendAnyway := True\<rparr>);
        Some (q\<lparr>m_bSendAnyway := False\<rparr>) }
      else do { q \<leftarrow> QueueSample ok SEND_PACKET q; Some (NotifyThread q) })"

definition NewSegment_direct :: "receiver_pin \<Rightarrow> segment \<Rightarrow> COutputQueue \<Rightarrow> COutputQueue option" where
  "NewSegment_direct pin g q =
     (if m_hr q = S_OK then do {
        q \<leftarrow> (if m_bBatchExact q then SendAnyway pin True q else Some q);
        Some (q\<lparr>calls := calls q @ [D_NewSegment g]\<rparr>) }
      else Some q)"

text \<open>With a thread, \<open>NewSegment\<close> looks at \<open>m_hr\<close> and allocates the packet without the lock, then queues it.\<close>

definition NewSegment_begin :: "bool \<Rightarrow> segment \<Rightarrow> COutputQueue \<Rightarrow> segment option" where
  "NewSegment_begin ok g q = (if m_hr q = S_OK then (if ok then Some g else None) else None)"

definition NewSegment_queue :: "bool \<Rightarrow> bool \<Rightarrow> segment \<Rightarrow> COutputQueue \<Rightarrow> COutputQueue option" where
  "NewSegment_queue ok1 ok2 g q = do {
     q \<leftarrow> QueueSample ok1 NEW_SEGMENT q;
     q \<leftarrow> QueueSample ok2 (SegmentPacket g) q;
     Some (NotifyThread q) }"

definition EOS :: "receiver_pin \<Rightarrow> bool \<Rightarrow> COutputQueue \<Rightarrow> COutputQueue option" where
  "EOS pin ok q =
     (if \<not> IsQueued q then do {
        q \<leftarrow> (if m_bBatchExact q then SendAnyway pin True q else Some q);
        Some (if m_hr q = S_OK then q\<lparr>m_bFlushed := False, calls := calls q @ [D_EndOfStream]\<rparr> else q) }
      else if m_hr q = S_OK then do { q \<leftarrow> QueueSample ok EOS_PACKET (q\<lparr>m_bFlushed := False\<rparr>); Some (NotifyThread q) }
      else Some q)"

text \<open>\<open>BeginFlush\<close> and whether it went on to the downstream pin.\<close>

definition OutputQueue_BeginFlush :: "COutputQueue \<Rightarrow> bool \<times> COutputQueue" where
  "OutputQueue_BeginFlush q =
     (let flush = (\<lambda>q. let q = q\<lparr>m_bFlushing := True\<rparr> in if m_hr q = S_OK then q\<lparr>m_hr := S_FALSE\<rparr> else q)
      in if IsQueued q then
           (let q = flush q
            in if m_bFlushed q \<and> m_bFlushingOpt q then (False, q)
               else (let q = NotifyThread (q\<lparr>m_evFlushComplete := False\<rparr>) in (True, q\<lparr>calls := calls q @ [D_BeginFlush]\<rparr>)))
         else (True, flush (q\<lparr>calls := calls q @ [D_BeginFlush]\<rparr>)))"

text \<open>\<open>EndFlush\<close> up to the wait for \<open>m_evFlushComplete\<close> (which resets the event; without a thread there is none),
  and whether it goes on; from there to the call downstream; and from there to the end.\<close>

definition EndFlush_begin :: "COutputQueue \<Rightarrow> bool \<times> COutputQueue" where
  "EndFlush_begin q = (if m_bFlushingOpt q \<and> m_bFlushed q \<and> IsQueued q then (False, q\<lparr>m_bFlushing := False, m_hr := S_OK\<rparr>) else (True, q))"

definition EndFlush_flushed :: "COutputQueue \<Rightarrow> COutputQueue option" where
  "EndFlush_flushed q = do {
     q \<leftarrow> (if IsQueued q then Some q else FreeSamples q);
     Some (q\<lparr>m_bFlushing := False, m_bFlushed := True, calls := calls q @ [D_EndFlush]\<rparr>) }"

definition EndFlush_end :: "COutputQueue \<Rightarrow> COutputQueue" where
  "EndFlush_end q = q\<lparr>m_hr := S_OK\<rparr>"

text \<open>\<open>Reset\<close> up to its wait for \<open>m_evFlushComplete\<close>.\<close>

definition Reset :: "bool \<Rightarrow> COutputQueue \<Rightarrow> COutputQueue option" where
  "Reset ok q = (if \<not> IsQueued q then Some (q\<lparr>m_hr := S_OK\<rparr>)
     else do { q \<leftarrow> QueueSample ok RESET_PACKET q; Some (NotifyThread q) })"

definition IsIdle :: "COutputQueue \<Rightarrow> bool" where
  "IsIdle q \<longleftrightarrow> \<not> (IsQueued q \<and> m_lWaiting q = 0 \<or> m_nBatched q \<noteq> 0)"

definition SetPopEvent :: "bool \<Rightarrow> COutputQueue \<Rightarrow> COutputQueue" where
  "SetPopEvent hEvent q = q\<lparr>m_hEventPop := hEvent\<rparr>"

text \<open>The destructor up to its wait for the thread, for a queue that was constructed without an error.\<close>

definition COutputQueue_destructor :: "COutputQueue \<Rightarrow> COutputQueue option" where
  "COutputQueue_destructor q =
     (if IsQueued q then Some (NotifyThread (q\<lparr>m_bTerminate := True, m_hr := S_FALSE\<rparr>)) else FreeSamples q)"

end
