(* ===== verification/Output_Queue_Flow.thy ===== *)
theory Output_Queue_Flow
  imports Output_Queue "HOL-Library.Sublist" "HOL-Library.Multiset"
begin

text \<open>
  The output queue with its thread, under every interleaving of the thread, of threads that deliver
  samples and of a thread that flushes: what goes downstream is what was queued, in order; no sample is lost or
  released twice; the thread never sleeps while there is work. The steps, the invariant of the reachable states
  and what it says of the thread.
\<close>

section \<open>Contents\<close>

text \<open>Packets that carry something downstream, as opposed to the marks that steer the thread.\<close>

fun carries :: "queue_packet \<Rightarrow> bool" where
  "carries (Sample x) = True"
| "carries EOS_PACKET = True"
| "carries (SegmentPacket g) = True"
| "carries p = False"

abbreviation content :: "queue_packet list \<Rightarrow> queue_packet list" where
  "content L \<equiv> filter carries L"

fun samples_of :: "queue_packet list \<Rightarrow> nat list" where
  "samples_of [] = []"
| "samples_of (Sample x # L) = x # samples_of L"
| "samples_of (p # L) = samples_of L"

text \<open>The mark of a new segment and its packet are always together.\<close>

inductive well_packed :: "queue_packet list \<Rightarrow> bool" where
  nil: "well_packed []"
| segment: "well_packed L \<Longrightarrow> well_packed (NEW_SEGMENT # SegmentPacket g # L)"
| sample: "well_packed L \<Longrightarrow> well_packed (Sample x # L)"
| mark: "p \<in> {SEND_PACKET, EOS_PACKET, RESET_PACKET} \<Longrightarrow> well_packed L \<Longrightarrow> well_packed (p # L)"

lemma samples_of_append [simp]: "samples_of (L @ M) = samples_of L @ samples_of M"
  by (induction L rule: samples_of.induct) auto

lemma samples_of_map [simp]: "samples_of (map Sample xs) = xs"
  by (induction xs) auto

lemma well_packed_append: "well_packed L \<Longrightarrow> well_packed M \<Longrightarrow> well_packed (L @ M)"
  by (induction rule: well_packed.induct) (auto intro: well_packed.intros)

lemma well_packed_single [intro]:
  "well_packed (map Sample xs)" "p \<in> {SEND_PACKET, EOS_PACKET, RESET_PACKET} \<Longrightarrow> well_packed [p]"
  by (induction xs) (auto intro: well_packed.intros)

text \<open>What the packet the thread has in hand still has to send.\<close>

fun in_hand :: "queue_packet option \<Rightarrow> segment option \<Rightarrow> queue_packet list" where
  "in_hand (Some EOS_PACKET) g = [EOS_PACKET]"
| "in_hand (Some NEW_SEGMENT) (Some g) = [SegmentPacket g]"
| "in_hand p g = []"

text \<open>What has gone downstream.\<close>

fun sent :: "pin_call list \<Rightarrow> queue_packet list" where
  "sent [] = []"
| "sent (D_ReceiveMultiple xs # cs) = map Sample xs @ sent cs"
| "sent (D_EndOfStream # cs) = EOS_PACKET # sent cs"
| "sent (D_NewSegment g # cs) = SegmentPacket g # sent cs"
| "sent (c # cs) = sent cs"

lemma sent_append [simp]: "sent (cs @ ds) = sent cs @ sent ds"
  by (induction cs rule: sent.induct) auto

lemma samples_content: "samples_of (content L) = samples_of L"
  by (induction L rule: samples_of.induct) auto

lemma samples_in_hand [simp]: "samples_of (in_hand p g) = []"
  by (induction p g rule: in_hand.induct) auto

section \<open>Freeing and scanning\<close>

text \<open>What an operation of the thread leaves alone.\<close>

definition settings :: "COutputQueue \<Rightarrow> (bool \<times> nat \<times> bool \<times> bool) \<times> (bool \<times> bool \<times> HRESULT) \<times> (bool \<times> nat \<times> pin_call list)" where
  "settings q = ((m_bBatchExact q, m_lBatchSize q, m_bFlushingOpt q, m_bSendAnyway q), (m_bFlushing q, m_bFlushed q, m_hr q),
     (m_bTerminate q, m_hSem q, calls q))"

lemma take_packet_cons:
  "m_List q = Some (p # L) \<Longrightarrow> \<exists>e. take_packet q = Some (Some p, q\<lparr>m_List := Some L, pop_event := e\<rparr>)"
  by (cases q) (auto simp: take_packet_def)

lemma take_packet_nil:
  "m_List q = Some [] \<Longrightarrow> \<exists>e. take_packet q = Some (None, q\<lparr>pop_event := e\<rparr>)"
  by (cases q) (auto simp: take_packet_def)

lemma free_samples_loop_ends:
  "well_packed L \<Longrightarrow> m_List q = Some L \<Longrightarrow>
   \<exists>e. free_samples_loop q = Some (q\<lparr>m_List := Some [], pop_event := e, released := released q @ samples_of L\<rparr>)"
proof (induction arbitrary: q rule: well_packed.induct)
  case nil
  then obtain e where "take_packet q = Some (None, q\<lparr>pop_event := e\<rparr>)" using take_packet_nil by blast
  then have "free_samples_loop q = Some (q\<lparr>pop_event := e\<rparr>)" by (subst free_samples_loop.simps) simp
  then show ?case using nil by (intro exI [of _ e]) (cases q, simp)
next
  case (segment L g)
  obtain e where e: "take_packet q = Some (Some NEW_SEGMENT, q\<lparr>m_List := Some (SegmentPacket g # L), pop_event := e\<rparr>)"
    using take_packet_cons [OF segment(3)] by blast
  let ?q = "q\<lparr>m_List := Some (SegmentPacket g # L), pop_event := e\<rparr>"
  obtain f where f: "take_packet ?q = Some (Some (SegmentPacket g), ?q\<lparr>m_List := Some L, pop_event := f\<rparr>)"
    using take_packet_cons [of ?q "SegmentPacket g" L] by auto
  have "free_samples_loop q = free_samples_loop (?q\<lparr>m_List := Some L, pop_event := f\<rparr>)"
    using e f by (subst free_samples_loop.simps) simp
  then show ?case using segment(2) [of "?q\<lparr>m_List := Some L, pop_event := f\<rparr>"] by auto
next
  case (sample L x)
  obtain e where e: "take_packet q = Some (Some (Sample x), q\<lparr>m_List := Some L, pop_event := e\<rparr>)"
    using take_packet_cons [OF sample(3)] by blast
  let ?q = "q\<lparr>m_List := Some L, pop_event := e, released := released q @ [x]\<rparr>"
  have "free_samples_loop q = free_samples_loop ?q" using e by (subst free_samples_loop.simps) simp
  then show ?case using sample(2) [of ?q] by auto
next
  case (mark p L)
  obtain e where e: "take_packet q = Some (Some p, q\<lparr>m_List := Some L, pop_event := e\<rparr>)"
    using take_packet_cons [OF mark(4)] by blast
  have "free_samples_loop q = free_samples_loop (q\<lparr>m_List := Some L, pop_event := e\<rparr>)"
    using e mark(1) by (subst free_samples_loop.simps) auto
  moreover have "samples_of (p # L) = samples_of L" using mark(1) by auto
  ultimately show ?case using mark(3) [of "q\<lparr>m_List := Some L, pop_event := e\<rparr>"] by auto
qed

lemma FreeSamples_ends:
  assumes "well_packed L" and "m_List q = Some L"
  shows "\<exists>e. FreeSamples q = Some (q\<lparr>m_List := Some [], pop_event := e, released := released q @ samples_of L @ m_ppSamples q, m_ppSamples := []\<rparr>)"
  using free_samples_loop_ends [OF assms] assms(2) by (auto simp: FreeSamples_def IsQueued_def)

text \<open>Scanning the list when neither ending nor flushing. The content in the batch and in the list is kept in
  order; a packet that makes the thread leave is in hand.\<close>

definition scanned :: "COutputQueue \<Rightarrow> queue_packet list \<Rightarrow> scan \<Rightarrow> COutputQueue \<Rightarrow> bool" where
  "scanned q L r q' \<longleftrightarrow> settings q' = settings q \<and> released q' = released q \<and> m_evFlushComplete q' = m_evFlushComplete q \<and>
     (case r of
        Scan_Ended \<Rightarrow> False
      | Scan_Wait \<Rightarrow> m_List q' = Some [] \<and> m_nBatched q' < m_lBatchSize q \<and> (m_bBatchExact q \<or> m_nBatched q' = 0) \<and>
          m_lWaiting q' = m_lWaiting q + 1 \<and> map Sample (m_ppSamples q) @ content L = map Sample (m_ppSamples q') \<and> RESET_PACKET \<notin> set L
      | Scan_Send p b g \<Rightarrow> m_ppSamples q' = [] \<and> m_lWaiting q' = m_lWaiting q \<and> length b \<le> m_lBatchSize q \<and>
          (p = Some NEW_SEGMENT \<longrightarrow> g \<noteq> None) \<and> (b = [] \<longrightarrow> p \<in> {Some EOS_PACKET, Some RESET_PACKET, Some NEW_SEGMENT}) \<and>
          (\<exists>L'. m_List q' = Some L' \<and> well_packed L' \<and>
             map Sample (m_ppSamples q) @ content L = map Sample b @ in_hand p g @ content L' \<and>
             (RESET_PACKET \<in> set L \<longleftrightarrow> p = Some RESET_PACKET \<or> RESET_PACKET \<in> set L')))"

lemma thread_scan_ends:
  "well_packed L \<Longrightarrow> m_List q = Some L \<Longrightarrow> m_nBatched q < m_lBatchSize q \<Longrightarrow> \<not> m_bTerminate q \<Longrightarrow> \<not> m_bFlushing q \<Longrightarrow>
   \<exists>r q'. thread_scan q = Some (r, q') \<and> scanned q L r q'"
proof (induction arbitrary: q rule: well_packed.induct)
  case nil
  obtain e where e: "take_packet q = Some (None, q\<lparr>pop_event := e\<rparr>)" using take_packet_nil nil by blast
  show ?case
  proof (cases "m_bBatchExact q \<or> m_nBatched q = 0")
    case True
    then have "thread_scan q = Some (Scan_Wait, q\<lparr>pop_event := e, m_lWaiting := m_lWaiting q + 1\<rparr>)"
      using e nil by (subst thread_scan.simps) auto
    then show ?thesis using True nil by (auto simp: scanned_def settings_def)
  next
    case False
    then have "thread_scan q = Some (Scan_Send None (m_ppSamples q) None, q\<lparr>pop_event := e, m_ppSamples := []\<rparr>)"
      using e nil by (subst thread_scan.simps) (auto simp: leave_scan_def)
    then show ?thesis using False nil by (auto simp: scanned_def settings_def intro: well_packed.nil)
  qed
next
  case (segment L g)
  obtain e where e: "take_packet q = Some (Some NEW_SEGMENT, q\<lparr>m_List := Some (SegmentPacket g # L), pop_event := e\<rparr>)"
    using take_packet_cons [OF segment(3)] by blast
  let ?q = "q\<lparr>m_List := Some (SegmentPacket g # L), pop_event := e\<rparr>"
  obtain f where f: "take_packet ?q = Some (Some (SegmentPacket g), ?q\<lparr>m_List := Some L, pop_event := f\<rparr>)"
    using take_packet_cons [of ?q "SegmentPacket g" L] by auto
  have "thread_scan q = Some (Scan_Send (Some NEW_SEGMENT) (m_ppSamples q) (Some g), q\<lparr>m_List := Some L, pop_event := f, m_ppSamples := []\<rparr>)"
    using e f segment by (subst thread_scan.simps) (auto simp: leave_scan_def)
  then show ?case using segment by (cases g) (auto simp: scanned_def settings_def)
next
  case (sample L x)
  obtain e where e: "take_packet q = Some (Some (Sample x), q\<lparr>m_List := Some L, pop_event := e\<rparr>)"
    using take_packet_cons [OF sample(3)] by blast
  let ?q = "q\<lparr>m_List := Some L, pop_event := e, m_ppSamples := m_ppSamples q @ [x]\<rparr>"
  show ?case
  proof (cases "m_nBatched ?q = m_lBatchSize q")
    case True
    then have "thread_scan q = Some (Scan_Send (Some (Sample x)) (m_ppSamples q @ [x]) None, ?q\<lparr>m_ppSamples := []\<rparr>)"
      using e sample by (subst thread_scan.simps) (auto simp: leave_scan_def batch_add_def)
    then show ?thesis using True sample by (auto simp: scanned_def settings_def)
  next
    case False
    then have "thread_scan q = thread_scan ?q" using e sample by (subst thread_scan.simps) (auto simp: batch_add_def)
    moreover have "\<exists>r q'. thread_scan ?q = Some (r, q') \<and> scanned ?q L r q'"
      by (rule sample.IH) (use sample False in auto)
    then obtain r q' where "thread_scan ?q = Some (r, q')" "scanned ?q L r q'" by blast
    ultimately show ?thesis by (cases r) (auto simp: scanned_def settings_def)
  qed
next
  case (mark p L)
  obtain e where e: "take_packet q = Some (Some p, q\<lparr>m_List := Some L, pop_event := e\<rparr>)"
    using take_packet_cons [OF mark(4)] by blast
  show ?case
  proof (cases "p = SEND_PACKET \<and> m_nBatched q = 0")
    case True
    then have "thread_scan q = thread_scan (q\<lparr>m_List := Some L, pop_event := e\<rparr>)" using e mark by (subst thread_scan.simps) auto
    moreover have "\<exists>r q'. thread_scan (q\<lparr>m_List := Some L, pop_event := e\<rparr>) = Some (r, q') \<and>
        scanned (q\<lparr>m_List := Some L, pop_event := e\<rparr>) L r q'"
      by (rule mark.IH) (use mark in auto)
    then obtain r q' where "thread_scan (q\<lparr>m_List := Some L, pop_event := e\<rparr>) = Some (r, q')"
        "scanned (q\<lparr>m_List := Some L, pop_event := e\<rparr>) L r q'" by blast
    ultimately show ?thesis using True by (cases r) (auto simp: scanned_def settings_def)
  next
    case False
    then have "thread_scan q = Some (Scan_Send (Some p) (m_ppSamples q) None, q\<lparr>m_List := Some L, pop_event := e, m_ppSamples := []\<rparr>)"
      using e mark by (subst thread_scan.simps) (auto simp: leave_scan_def)
    then show ?thesis using False mark by (auto simp: scanned_def settings_def)
  qed
qed

lemma thread_scan_flushing:
  assumes "well_packed L" and "m_List q = Some L" and "\<not> m_bTerminate q" and "m_bFlushing q"
  shows "\<exists>e. thread_scan q = Some (Scan_Wait, q\<lparr>m_List := Some [], pop_event := e, released := released q @ samples_of L @ m_ppSamples q,
     m_ppSamples := [], m_evFlushComplete := True, m_lWaiting := m_lWaiting q + 1\<rparr>)"
proof -
  obtain e where e: "FreeSamples q = Some (q\<lparr>m_List := Some [], pop_event := e, released := released q @ samples_of L @ m_ppSamples q, m_ppSamples := []\<rparr>)"
    using FreeSamples_ends [OF assms(1,2)] by blast
  let ?q = "q\<lparr>m_List := Some [], pop_event := e, released := released q @ samples_of L @ m_ppSamples q, m_ppSamples := [], m_evFlushComplete := True\<rparr>"
  obtain f where f: "take_packet ?q = Some (None, ?q\<lparr>pop_event := f\<rparr>)" using take_packet_nil [of ?q] by auto
  show ?thesis using e f assms by (intro exI [of _ f], subst thread_scan.simps) (cases q, auto)
qed

lemma thread_scan_ended:
  assumes "well_packed L" and "m_List q = Some L" and "m_bTerminate q"
  shows "\<exists>e. thread_scan q = Some (Scan_Ended, q\<lparr>m_List := Some [], pop_event := e, released := released q @ samples_of L @ m_ppSamples q, m_ppSamples := []\<rparr>)"
  using FreeSamples_ends [OF assms(1,2)] assms(3) by (subst thread_scan.simps) auto

section \<open>The system\<close>

datatype queue_thread = T_Loop | T_Waiting | T_Sending "queue_packet option" "nat list" "segment option"
  | T_Delivering "queue_packet option" "nat list" "segment option" | T_Sent "queue_packet option" "segment option" | T_Ended

text \<open>The thread that flushes, resets or destroys the queue: \<open>Q_Flushing\<close> between \<open>BeginFlush\<close> and \<open>EndFlush\<close> (with
  whether the flush was passed on), then the stages of \<open>EndFlush\<close>.\<close>

datatype queue_control = Q_Free | Q_Flushing bool | Q_Ending | Q_Flushed | Q_Closing | Q_Resetting | Q_Destroying

text \<open>\<open>segs\<close> are the segments whose \<open>NewSegment\<close> has found \<open>m_hr\<close> to be \<open>S_OK\<close> and not yet taken the lock. The
  last three record the history: the samples given to the queue, the packets it accepted, and whether
  neither a flush, nor an error downstream, nor the destructor has come.\<close>

record oq_sys =
  oq :: COutputQueue
  thr :: queue_thread
  ctl :: queue_control
  segs :: "segment list"
  submitted :: "nat list"
  accepted :: "queue_packet list"
  clean :: bool

definition kept :: "(nat \<times> bool) list \<Rightarrow> nat list" where
  "kept ps = map fst (filter snd ps)"

fun after_scan :: "scan \<Rightarrow> queue_thread" where
  "after_scan Scan_Ended = T_Ended"
| "after_scan Scan_Wait = T_Waiting"
| "after_scan (Scan_Send p b g) = T_Sending p b g"

text \<open>No samples arrive while \<open>EndFlush\<close> or the destructor runs, as the comment in \<open>EndFlush\<close> demands. \<open>resets\<close> says
  whether \<open>Reset\<close> is used. Memory is found for the packets that are not samples.\<close>

abbreviation pushing :: "oq_sys \<Rightarrow> bool" where
  "pushing s \<equiv> ctl s \<notin> {Q_Ending, Q_Flushed, Q_Closing, Q_Destroying}"

inductive oq_step :: "bool \<Rightarrow> oq_sys \<Rightarrow> oq_sys \<Rightarrow> bool" for resets where
  scan: "thr s = T_Loop \<Longrightarrow> thread_scan (oq s) = Some (r, q) \<Longrightarrow> oq_step resets s (s\<lparr>oq := q, thr := after_scan r\<rparr>)"
| wake: "thr s = T_Waiting \<Longrightarrow> 0 < m_hSem (oq s) \<Longrightarrow>
    oq_step resets s (s\<lparr>oq := (oq s)\<lparr>m_hSem := m_hSem (oq s) - 1\<rparr>, thr := T_Loop\<rparr>)"
| send: "thr s = T_Sending p b g \<Longrightarrow> ThreadProc_send b (oq s) = (d, q) \<Longrightarrow>
    oq_step resets s (s\<lparr>oq := q, thr := (if d then T_Delivering p b g else T_Sent p g)\<rparr>)"
| return: "thr s = T_Delivering p b g \<Longrightarrow>
    oq_step resets s (s\<lparr>oq := ThreadProc_return b hr (oq s), thr := T_Sent p g, clean := clean s \<and> hr = S_OK\<rparr>)"
| packet: "thr s = T_Sent p g \<Longrightarrow> ThreadProc_packet p g (oq s) = Some q \<Longrightarrow> oq_step resets s (s\<lparr>oq := q, thr := T_Loop\<rparr>)"
| receive: "pushing s \<Longrightarrow> ReceiveMultiple pin ps (oq s) = Some (hr, n, q) \<Longrightarrow>
    oq_step resets s (s\<lparr>oq := q, submitted := submitted s @ map fst ps,
      accepted := accepted s @ (if m_hr (oq s) = S_OK then map Sample (kept ps) else [])\<rparr>)"
| send_anyway: "pushing s \<Longrightarrow> SendAnyway pin ok (oq s) = Some q \<Longrightarrow> oq_step resets s (s\<lparr>oq := q\<rparr>)"
| segment_check: "pushing s \<Longrightarrow> NewSegment_begin ok g (oq s) = Some g' \<Longrightarrow> oq_step resets s (s\<lparr>segs := g' # segs s\<rparr>)"
| segment_queue: "pushing s \<Longrightarrow> g \<in> set (segs s) \<Longrightarrow> NewSegment_queue True True g (oq s) = Some q \<Longrightarrow>
    oq_step resets s (s\<lparr>oq := q, segs := remove1 g (segs s), accepted := accepted s @ [SegmentPacket g]\<rparr>)"
| eos: "pushing s \<Longrightarrow> EOS pin True (oq s) = Some q \<Longrightarrow>
    oq_step resets s (s\<lparr>oq := q, accepted := accepted s @ (if m_hr (oq s) = S_OK then [EOS_PACKET] else [])\<rparr>)"
| begin_flush: "ctl s = Q_Free \<Longrightarrow> OutputQueue_BeginFlush (oq s) = (d, q) \<Longrightarrow>
    oq_step resets s (s\<lparr>oq := q, ctl := Q_Flushing d, clean := False\<rparr>)"
| end_flush: "ctl s = Q_Flushing d \<Longrightarrow> EndFlush_begin (oq s) = (e, q) \<Longrightarrow>
    oq_step resets s (s\<lparr>oq := q, ctl := (if e then Q_Ending else Q_Free)\<rparr>)"
| flush_waited: "ctl s = Q_Ending \<Longrightarrow> m_evFlushComplete (oq s) \<Longrightarrow>
    oq_step resets s (s\<lparr>oq := (oq s)\<lparr>m_evFlushComplete := False\<rparr>, ctl := Q_Flushed\<rparr>)"
| flushed: "ctl s = Q_Flushed \<Longrightarrow> EndFlush_flushed (oq s) = Some q \<Longrightarrow> oq_step resets s (s\<lparr>oq := q, ctl := Q_Closing\<rparr>)"
| closed: "ctl s = Q_Closing \<Longrightarrow> oq_step resets s (s\<lparr>oq := EndFlush_end (oq s), ctl := Q_Free\<rparr>)"
| reset: "resets \<Longrightarrow> ctl s = Q_Free \<Longrightarrow> Reset True (oq s) = Some q \<Longrightarrow> oq_step resets s (s\<lparr>oq := q, ctl := Q_Resetting\<rparr>)"
| reset_waited: "ctl s = Q_Resetting \<Longrightarrow> m_evFlushComplete (oq s) \<Longrightarrow>
    oq_step resets s (s\<lparr>oq := (oq s)\<lparr>m_evFlushComplete := False\<rparr>, ctl := Q_Free\<rparr>)"
| destroy: "ctl s = Q_Free \<Longrightarrow> COutputQueue_destructor (oq s) = Some q \<Longrightarrow>
    oq_step resets s (s\<lparr>oq := q, ctl := Q_Destroying, clean := False\<rparr>)"
| set_pop_event: "oq_step resets s (s\<lparr>oq := SetPopEvent h (oq s)\<rparr>)"

inductive oq_reachable :: "bool \<Rightarrow> oq_sys \<Rightarrow> bool" for resets where
  start: "0 < n \<Longrightarrow> new_COutputQueue S_OK S_OK block None None None None bAuto bQueue n bExact bOpt = (S_OK, q) \<Longrightarrow> IsQueued q \<Longrightarrow>
    oq_reachable resets \<lparr>oq = q, thr = T_Loop, ctl = Q_Free, segs = [], submitted = [], accepted = [], clean = True\<rparr>"
| step: "oq_reachable resets s \<Longrightarrow> oq_step resets s s' \<Longrightarrow> oq_reachable resets s'"

section \<open>The invariant\<close>

fun thread_samples :: "queue_thread \<Rightarrow> nat list" where
  "thread_samples (T_Sending p b g) = b"
| "thread_samples (T_Delivering p b g) = b"
| "thread_samples t = []"

fun thread_content :: "queue_thread \<Rightarrow> queue_packet list" where
  "thread_content (T_Sending p b g) = map Sample b @ in_hand p g"
| "thread_content (T_Delivering p b g) = in_hand p g"
| "thread_content (T_Sent p g) = in_hand p g"
| "thread_content t = []"

fun thread_packet :: "queue_thread \<Rightarrow> (queue_packet option \<times> segment option) option" where
  "thread_packet (T_Sending p b g) = Some (p, g)"
| "thread_packet (T_Delivering p b g) = Some (p, g)"
| "thread_packet (T_Sent p g) = Some (p, g)"
| "thread_packet t = None"

definition pipeline :: "oq_sys \<Rightarrow> queue_packet list" where
  "pipeline s = sent (calls (oq s)) @ thread_content (thr s) @ map Sample (m_ppSamples (oq s)) @ content (the (m_List (oq s)))"

definition in_order :: "oq_sys \<Rightarrow> bool" where
  "in_order s \<longleftrightarrow> subseq (pipeline s) (accepted s) \<and> (clean s \<longrightarrow> pipeline s = accepted s \<and> m_hr (oq s) = S_OK \<and>
     \<not> m_bFlushing (oq s) \<and> \<not> m_bTerminate (oq s))"

definition conserved :: "oq_sys \<Rightarrow> bool" where
  "conserved s \<longleftrightarrow> mset (submitted s) = mset (released (oq s)) + mset (thread_samples (thr s)) + mset (m_ppSamples (oq s)) +
     mset (samples_of (the (m_List (oq s))))"

fun in_flush :: "queue_control \<Rightarrow> bool" where
  "in_flush (Q_Flushing d) = True"
| "in_flush Q_Ending = True"
| "in_flush Q_Flushed = True"
| "in_flush c = False"

definition formed :: "oq_sys \<Rightarrow> bool" where
  "formed s \<longleftrightarrow> (\<exists>L. m_List (oq s) = Some L \<and> well_packed L) \<and> m_nBatched (oq s) < m_lBatchSize (oq s) \<and>
     (\<not> m_bBatchExact (oq s) \<longrightarrow> m_ppSamples (oq s) = []) \<and>
     (\<forall>p g. thread_packet (thr s) = Some (p, g) \<longrightarrow> p = Some NEW_SEGMENT \<longrightarrow> g \<noteq> None) \<and>
     (thr s = T_Waiting \<longrightarrow> m_lWaiting (oq s) + m_hSem (oq s) = 1) \<and>
     (thr s \<noteq> T_Waiting \<longrightarrow> m_lWaiting (oq s) = 0 \<and> m_hSem (oq s) = 0) \<and>
     m_bFlushing (oq s) = in_flush (ctl s) \<and>
     (m_bTerminate (oq s) \<longleftrightarrow> ctl s = Q_Destroying)"

text \<open>The thread is asleep and nobody has called it.\<close>

definition asleep :: "oq_sys \<Rightarrow> bool" where
  "asleep s \<longleftrightarrow> thr s = T_Waiting \<and> m_hSem (oq s) = 0"

definition rested :: "oq_sys \<Rightarrow> bool" where
  "rested s \<longleftrightarrow>
     (asleep s \<longrightarrow> \<not> m_bTerminate (oq s) \<and> (\<exists>xs. m_List (oq s) = Some (map Sample xs) \<and>
        m_nBatched (oq s) + length xs < m_lBatchSize (oq s) \<and> (\<not> m_bBatchExact (oq s) \<longrightarrow> xs = []))) \<and>
     (ctl s = Q_Resetting \<longrightarrow> m_evFlushComplete (oq s) \<or> RESET_PACKET \<in> set (the (m_List (oq s))) \<or>
        (\<exists>g. thread_packet (thr s) = Some (Some RESET_PACKET, g)))"

definition flush_ends :: "oq_sys \<Rightarrow> bool" where
  "flush_ends s \<longleftrightarrow> RESET_PACKET \<notin> set (the (m_List (oq s))) \<and> (\<forall>g. thread_packet (thr s) \<noteq> Some (Some RESET_PACKET, g)) \<and>
     (m_bFlushing (oq s) \<longrightarrow> m_hr (oq s) \<noteq> S_OK) \<and>
     (ctl s = Q_Flushing False \<longrightarrow> m_bFlushed (oq s) \<and> m_bFlushingOpt (oq s)) \<and>
     (ctl s \<in> {Q_Flushing True, Q_Ending} \<longrightarrow> \<not> (m_bFlushed (oq s) \<and> m_bFlushingOpt (oq s))) \<and>
     (asleep s \<longrightarrow> ctl s \<in> {Q_Flushing True, Q_Ending} \<longrightarrow> m_evFlushComplete (oq s))"

lemmas oq_parts = in_order_def conserved_def formed_def asleep_def rested_def flush_ends_def pipeline_def

text \<open>Effects of the methods on a queue with a thread.\<close>

lemma NotifyThread_eq: "NotifyThread q = q\<lparr>m_hSem := m_hSem q + m_lWaiting q, m_lWaiting := 0\<rparr>"
  by (cases q) (simp add: NotifyThread_def)

definition dropped :: "(nat \<times> bool) list \<Rightarrow> nat list" where
  "dropped ps = map fst (filter (Not \<circ> snd) ps)"

lemma kept_dropped: "mset (map fst ps) = mset (kept ps) + mset (dropped ps)"
  by (induction ps) (auto simp: kept_def dropped_def)

lemma queue_all_eq:
  "m_List q = Some L \<Longrightarrow>
   queue_all ps q = Some (q\<lparr>m_List := Some (L @ map Sample (kept ps)), released := released q @ dropped ps\<rparr>)"
proof (induction ps arbitrary: q L)
  case Nil
  then show ?case by (cases q) (simp add: kept_def dropped_def)
next
  case (Cons pk ps)
  then show ?case by (cases pk) (auto simp: QueueSample_def kept_def dropped_def)
qed

lemma ReceiveMultiple_queued:
  assumes "m_List q = Some L" and "ReceiveMultiple pin ps q = Some (hr, n, q')"
  shows "q' = (if m_hr q \<noteq> S_OK then q\<lparr>released := released q @ map fst ps\<rparr>
    else (let q' = q\<lparr>m_bFlushed := False, m_List := Some (L @ map Sample (kept ps)), released := released q @ dropped ps\<rparr>
          in if \<not> m_bBatchExact q \<or> m_lBatchSize q \<le> m_nBatched q + (length L + length (kept ps)) then NotifyThread q' else q'))"
proof -
  have "queue_all ps (q\<lparr>m_bFlushed := False\<rparr>) =
      Some (q\<lparr>m_bFlushed := False, m_List := Some (L @ map Sample (kept ps)), released := released q @ dropped ps\<rparr>)"
    using queue_all_eq [of "q\<lparr>m_bFlushed := False\<rparr>" L ps] assms(1) by simp
  then show ?thesis using assms by (auto simp: ReceiveMultiple_def IsQueued_def Let_def split: if_splits)
qed

lemma formed_list: "formed s \<Longrightarrow> \<exists>L. m_List (oq s) = Some L \<and> well_packed L"
  by (simp add: formed_def)

subsection \<open>The thread\<close>

lemma after_scan_formed:
  assumes f: "formed s" and t: "thr s = T_Loop" and r: "thread_scan (oq s) = Some (r, q)"
  shows "formed (s\<lparr>oq := q, thr := after_scan r\<rparr>)" (is "formed ?s")
proof -
  obtain L where L: "m_List (oq s) = Some L" "well_packed L" using formed_list [OF f] by blast
  show ?thesis
  proof (cases "m_bTerminate (oq s)")
    case True
    then show ?thesis using thread_scan_ended [OF L(2,1)] r f t by (auto simp: formed_def intro: well_packed.nil)
  next
    case nt: False
    show ?thesis
    proof (cases "m_bFlushing (oq s)")
      case True
      then show ?thesis using thread_scan_flushing [OF L(2,1) nt] r f t by (auto simp: formed_def intro: well_packed.nil)
    next
      case False
      have "m_nBatched (oq s) < m_lBatchSize (oq s)" using f by (simp add: formed_def)
      then have sc: "scanned (oq s) L r q" using thread_scan_ends [OF L(2,1) _ nt False] r by auto
      show ?thesis
      proof (cases r)
        case (Scan_Send p b g)
        then show ?thesis using sc f t unfolding scanned_def formed_def settings_def by clarsimp
      next
        case Scan_Wait
        then show ?thesis using sc f t by (simp add: scanned_def formed_def settings_def well_packed.nil disj_imp)
      qed (use sc in \<open>simp add: scanned_def\<close>)
    qed
  qed
qed

lemma subseq_drop_middle: "subseq (xs @ ys @ zs) ws \<Longrightarrow> subseq (xs @ zs) ws"
  by (meson list_emb_append_mono subseq_order.dual_order.trans subseq_order.order_refl subseq_append' suffix_imp_subseq suffixI)

lemma subseq_drop_end: "subseq (xs @ ys) ws \<Longrightarrow> subseq xs ws"
  by (meson prefix_imp_subseq prefixI subseq_order.dual_order.trans)

lemma after_scan_flow:
  assumes f: "formed s" and t: "thr s = T_Loop" and r: "thread_scan (oq s) = Some (r, q)" and o: "in_order s" and c: "conserved s"
  shows "in_order (s\<lparr>oq := q, thr := after_scan r\<rparr>) \<and> conserved (s\<lparr>oq := q, thr := after_scan r\<rparr>)"
proof -
  obtain L where L: "m_List (oq s) = Some L" "well_packed L" using formed_list [OF f] by blast
  have sub: "subseq (sent (calls (oq s))) (accepted s)"
    using o t subseq_drop_end by (fastforce simp: in_order_def pipeline_def)
  show ?thesis
  proof (cases "m_bTerminate (oq s)")
    case True
    then show ?thesis using thread_scan_ended [OF L(2,1)] r o c t L sub by (auto simp: oq_parts)
  next
    case nt: False
    show ?thesis
    proof (cases "m_bFlushing (oq s)")
      case True
      then show ?thesis using thread_scan_flushing [OF L(2,1) nt] r o c t L sub by (auto simp: oq_parts)
    next
      case False
      have "m_nBatched (oq s) < m_lBatchSize (oq s)" using f by (simp add: formed_def)
      then have sc: "scanned (oq s) L r q" using thread_scan_ends [OF L(2,1) _ nt False] r by auto
      show ?thesis
      proof (cases r)
        case Scan_Ended
        then show ?thesis using sc by (simp add: scanned_def)
      next
        case Scan_Wait
        then have e: "map Sample (m_ppSamples (oq s)) @ content L = map Sample (m_ppSamples q)" using sc by (simp add: scanned_def)
        have "samples_of (map Sample (m_ppSamples (oq s)) @ content L) = m_ppSamples q" by (simp only: e samples_of_map)
        then have "m_ppSamples (oq s) @ samples_of L = m_ppSamples q" by (simp add: samples_content)
        then have "mset (m_ppSamples (oq s)) + mset (samples_of L) = mset (m_ppSamples q)" by (metis mset_append)
        then show ?thesis using Scan_Wait sc o c t L e by (auto simp: scanned_def oq_parts settings_def)
      next
        case (Scan_Send p b g)
        then obtain L' where L': "m_List q = Some L'" "m_ppSamples q = []"
            "map Sample (m_ppSamples (oq s)) @ content L = map Sample b @ in_hand p g @ content L'"
          using sc by (auto simp: scanned_def)
        have "samples_of (map Sample (m_ppSamples (oq s)) @ content L) = samples_of (map Sample b @ in_hand p g @ content L')"
          by (simp only: L'(3))
        then have "m_ppSamples (oq s) @ samples_of L = b @ samples_of L'" by (simp add: samples_content)
        then have "mset (m_ppSamples (oq s)) + mset (samples_of L) = mset b + mset (samples_of L')" by (metis mset_append)
        then show ?thesis using Scan_Send sc o c t L L' by (auto simp: scanned_def oq_parts settings_def)
      qed
    qed
  qed
qed

lemma after_scan_rest:
  assumes f: "formed s" and t: "thr s = T_Loop" and r: "thread_scan (oq s) = Some (r, q)" and e: "rested s"
  shows "rested (s\<lparr>oq := q, thr := after_scan r\<rparr>)" (is "rested ?s")
    and "flush_ends s \<Longrightarrow> flush_ends (s\<lparr>oq := q, thr := after_scan r\<rparr>)"
proof -
  obtain L where L: "m_List (oq s) = Some L" "well_packed L" using formed_list [OF f] by blast
  consider (ended) "m_bTerminate (oq s)" | (flush) "\<not> m_bTerminate (oq s)" "m_bFlushing (oq s)"
    | (scan) "\<not> m_bTerminate (oq s)" "\<not> m_bFlushing (oq s)" "scanned (oq s) L r q"
    using thread_scan_ends [OF L(2,1)] f r by (fastforce simp: formed_def)
  then have "rested ?s \<and> (flush_ends s \<longrightarrow> flush_ends ?s)"
  proof cases
    case ended
    then have "ctl s = Q_Destroying" using f by (simp add: formed_def)
    then show ?thesis using thread_scan_ended [OF L(2,1) ended] r by (auto simp: rested_def flush_ends_def asleep_def)
  next
    case flush
    then have "ctl s \<noteq> Q_Resetting" using f by (auto simp: formed_def)
    moreover obtain e' where "r = Scan_Wait" "q = (oq s)\<lparr>m_List := Some [], pop_event := e', released := released (oq s) @ samples_of L @ m_ppSamples (oq s),
        m_ppSamples := [], m_evFlushComplete := True, m_lWaiting := m_lWaiting (oq s) + 1\<rparr>"
      using thread_scan_flushing [OF L(2,1) flush] r by auto
    moreover have "0 < m_lBatchSize (oq s)" using f by (auto simp: formed_def)
    ultimately show ?thesis using flush by (simp add: rested_def flush_ends_def asleep_def)
  next
    case scan
    then have c: "ctl s \<noteq> Q_Ending" "ctl s \<noteq> Q_Flushing d" for d using f by (auto simp: formed_def)
    show ?thesis
    proof (cases r)
      case Scan_Ended
      then show ?thesis using scan(3) by (simp add: scanned_def)
    next
      case Scan_Wait
      then have q: "m_List q = Some (map Sample [])" "m_nBatched q < m_lBatchSize q" "\<not> m_bTerminate q" "\<not> m_bFlushing q"
          "m_evFlushComplete q = m_evFlushComplete (oq s)" "RESET_PACKET \<notin> set L"
        using scan by (auto simp: scanned_def settings_def)
      have "rested ?s" using e q L t Scan_Wait unfolding rested_def asleep_def by auto
      moreover have "flush_ends ?s" if "flush_ends s" using q c Scan_Wait by (auto simp: flush_ends_def asleep_def)
      ultimately show ?thesis by blast
    next
      case (Scan_Send p b g)
      then obtain L' where q: "m_List q = Some L'" "\<not> m_bFlushing q" "m_evFlushComplete q = m_evFlushComplete (oq s)"
          "RESET_PACKET \<in> set L \<longrightarrow> p = Some RESET_PACKET \<or> RESET_PACKET \<in> set L'"
          "RESET_PACKET \<in> set L' \<or> p = Some RESET_PACKET \<longrightarrow> RESET_PACKET \<in> set L"
        using scan unfolding scanned_def settings_def by simp blast
      have "rested ?s" using e q L t Scan_Send unfolding rested_def asleep_def by auto
      moreover have "flush_ends ?s" if "flush_ends s" using that q c L Scan_Send unfolding flush_ends_def asleep_def by auto
      ultimately show ?thesis by blast
    qed
  qed
  then show "rested ?s" "flush_ends s \<Longrightarrow> flush_ends ?s" by auto
qed

text \<open>The remaining steps of the thread.\<close>

definition oq_inv :: "bool \<Rightarrow> oq_sys \<Rightarrow> bool" where
  "oq_inv resets s \<longleftrightarrow> formed s \<and> in_order s \<and> conserved s \<and> rested s \<and> (\<not> resets \<longrightarrow> flush_ends s)"

lemma oq_invI:
  "oq_inv resets s \<Longrightarrow> (formed s \<Longrightarrow> formed s') \<Longrightarrow> (formed s \<Longrightarrow> in_order s \<Longrightarrow> in_order s') \<Longrightarrow> (formed s \<Longrightarrow> conserved s \<Longrightarrow> conserved s') \<Longrightarrow>
   (formed s \<Longrightarrow> rested s \<Longrightarrow> rested s') \<Longrightarrow> (formed s \<Longrightarrow> \<not> resets \<Longrightarrow> flush_ends s \<Longrightarrow> flush_ends s') \<Longrightarrow> oq_inv resets s'"
  by (simp add: oq_inv_def)

lemma oq_inv_wake:
  assumes "oq_inv resets s" and "thr s = T_Waiting" and "0 < m_hSem (oq s)"
  shows "oq_inv resets (s\<lparr>oq := (oq s)\<lparr>m_hSem := m_hSem (oq s) - 1\<rparr>, thr := T_Loop\<rparr>)"
  by (rule oq_invI [OF assms(1)])
    (use assms(2,3) in \<open>simp_all add: formed_def in_order_def pipeline_def conserved_def rested_def flush_ends_def asleep_def\<close>)

lemma oq_inv_send:
  assumes "oq_inv resets s" and "thr s = T_Sending p b g" and "ThreadProc_send b (oq s) = (d, q)"
  shows "oq_inv resets (s\<lparr>oq := q, thr := (if d then T_Delivering p b g else T_Sent p g)\<rparr>)"
proof -
  consider "b = []" "d = False" "q = oq s" | "m_hr (oq s) = S_OK" "d = True" "q = (oq s)\<lparr>calls := calls (oq s) @ [D_ReceiveMultiple b]\<rparr>"
    | "m_hr (oq s) \<noteq> S_OK" "d = False" "q = (oq s)\<lparr>released := released (oq s) @ rev b\<rparr>"
    using assms(3) unfolding ThreadProc_send_def release_batch_def by (metis Pair_inject)
  then show ?thesis
  proof cases
    case 3
    then have "\<not> clean s" using assms(1) by (auto simp: oq_inv_def in_order_def)
    then show ?thesis using 3 assms(2)
      by (intro oq_invI [OF assms(1)]) (simp_all add: formed_def in_order_def pipeline_def conserved_def rested_def flush_ends_def
        asleep_def subseq_drop_middle [of "sent (calls (oq s))" "map Sample b"])
  qed (use assms(2) in \<open>(intro oq_invI [OF assms(1)]; simp add: formed_def in_order_def pipeline_def conserved_def rested_def flush_ends_def
        asleep_def)+\<close>)
qed

lemma oq_inv_return:
  assumes "oq_inv resets s" and "thr s = T_Delivering p b g"
  shows "oq_inv resets (s\<lparr>oq := ThreadProc_return b hr (oq s), thr := T_Sent p g, clean := clean s \<and> hr = S_OK\<rparr>)"
  by (rule oq_invI [OF assms(1)]; cases "m_hr (oq s) = S_OK";
    use assms(2) in \<open>simp add: formed_def in_order_def pipeline_def conserved_def rested_def flush_ends_def asleep_def
      ThreadProc_return_def release_batch_def\<close>)

lemma oq_inv_packet:
  assumes "oq_inv resets s" and "thr s = T_Sent p g" and "ThreadProc_packet p g (oq s) = Some q"
  shows "oq_inv resets (s\<lparr>oq := q, thr := T_Loop\<rparr>)"
proof -
  have g: "p = Some NEW_SEGMENT \<Longrightarrow> g \<noteq> None" using assms(1,2) by (simp add: oq_inv_def formed_def)
  have cl: "clean s \<Longrightarrow> m_hr (oq s) = S_OK" using assms(1) by (simp add: oq_inv_def in_order_def)
  have quiet: ?thesis if "in_hand p g = []" "p \<noteq> Some RESET_PACKET" "q = oq s"
    using that assms(2) by (intro oq_invI [OF assms(1)]; simp add: formed_def in_order_def pipeline_def conserved_def rested_def flush_ends_def asleep_def)
  show ?thesis
  proof (cases p)
    case None
    then show ?thesis using assms(3) by (intro quiet) (simp_all add: ThreadProc_packet_def)
  next
    case (Some k)
    show ?thesis
    proof (cases k)
      case EOS_PACKET
      show ?thesis
      proof (cases "m_hr (oq s) = S_OK")
        case True
        then have "q = (oq s)\<lparr>calls := calls (oq s) @ [D_EndOfStream]\<rparr>" using assms(3) Some EOS_PACKET by (simp add: ThreadProc_packet_def)
        then show ?thesis using assms(2) Some EOS_PACKET
          by (intro oq_invI [OF assms(1)]; simp add: formed_def in_order_def pipeline_def conserved_def rested_def flush_ends_def asleep_def)
      next
        case False
        then have q: "q = oq s" "\<not> clean s" using assms(3) Some EOS_PACKET cl by (auto simp: ThreadProc_packet_def)
        then show ?thesis using assms(2) Some EOS_PACKET subseq_drop_middle [of "sent (calls (oq s))" "[EOS_PACKET]"]
          by (intro oq_invI [OF assms(1)]) (simp_all add: formed_def in_order_def pipeline_def conserved_def rested_def flush_ends_def asleep_def)
      qed
    next
      case RESET_PACKET
      then have "q = (oq s)\<lparr>m_hr := S_OK, m_evFlushComplete := True\<rparr>" using assms(3) Some by (simp add: ThreadProc_packet_def)
      then show ?thesis using assms(2) Some RESET_PACKET
        by (intro oq_invI [OF assms(1)]; simp add: formed_def in_order_def pipeline_def conserved_def rested_def flush_ends_def asleep_def)
    next
      case NEW_SEGMENT
      then obtain g' where "g = Some g'" using g Some by blast
      moreover from this have "q = (oq s)\<lparr>calls := calls (oq s) @ [D_NewSegment g']\<rparr>"
        using assms(3) Some NEW_SEGMENT by (simp add: ThreadProc_packet_def)
      ultimately show ?thesis using assms(2) Some NEW_SEGMENT
        by (intro oq_invI [OF assms(1)]; simp add: formed_def in_order_def pipeline_def conserved_def rested_def flush_ends_def asleep_def)
    qed (use assms(3) Some in \<open>(intro quiet; simp add: ThreadProc_packet_def)+\<close>)
  qed
qed

text \<open>Adding to the end of the list, and calling the thread (or not, when it has no work).\<close>

lemma oq_inv_append:
  assumes i: "oq_inv resets s" and L: "m_List (oq s) = Some L" and w: "well_packed M" and r: "RESET_PACKET \<in> set M \<Longrightarrow> resets"
    and q: "q = (let q = (oq s)\<lparr>m_bFlushed := f, m_List := Some (L @ M), released := released (oq s) @ ds\<rparr> in if n then NotifyThread q else q)"
    and n: "\<not> n \<Longrightarrow> (\<exists>xs. M = map Sample xs) \<and> m_bBatchExact (oq s) \<and> m_nBatched (oq s) + (length L + length M) < m_lBatchSize (oq s)"
    and m: "mset us = mset (samples_of M) + mset ds" and b: "f \<noteq> m_bFlushed (oq s) \<Longrightarrow> \<not> f \<and> m_hr (oq s) = S_OK"
  shows "oq_inv resets (s\<lparr>oq := q, submitted := submitted s @ us, accepted := accepted s @ content M\<rparr>)" (is "oq_inv _ ?s")
proof (rule oq_invI [OF i])
  have wl: "well_packed L" using i L by (simp add: oq_inv_def formed_def)
  assume f: "formed s"
  then have lw: "thr s = T_Waiting \<Longrightarrow> m_lWaiting (oq s) + m_hSem (oq s) = 1" by (simp add: formed_def)
  have e: "m_List q = Some (L @ M)" "m_ppSamples q = m_ppSamples (oq s)" "calls q = calls (oq s)" "released q = released (oq s) @ ds"
    "m_bFlushed q = f" "m_hr q = m_hr (oq s)" "m_bFlushing q = m_bFlushing (oq s)" "m_bTerminate q = m_bTerminate (oq s)"
    "m_bFlushingOpt q = m_bFlushingOpt (oq s)" "m_evFlushComplete q = m_evFlushComplete (oq s)" "m_lBatchSize q = m_lBatchSize (oq s)"
    "m_bBatchExact q = m_bBatchExact (oq s)" "m_hSem q = (if n then m_hSem (oq s) + m_lWaiting (oq s) else m_hSem (oq s))"
    "m_lWaiting q = (if n then 0 else m_lWaiting (oq s))"
    by (simp_all add: q NotifyThread_eq Let_def)
  show "formed ?s" using f well_packed_append [OF wl w] by (cases n) (simp_all add: formed_def e add.commute)
  show "in_order ?s" if "in_order s"
  proof -
    have "pipeline ?s = pipeline s @ content M" using L by (simp add: pipeline_def e)
    then show ?thesis using that by (simp add: in_order_def e list_emb_append_mono)
  qed
  show "conserved s \<Longrightarrow> conserved ?s" using L m by (simp add: conserved_def e)
  have a: "asleep ?s \<Longrightarrow> \<not> n \<and> asleep s" using lw by (cases n) (auto simp: asleep_def e)
  show "rested ?s" if "rested s"
  proof -
    have "\<exists>xs. m_List q = Some (map Sample xs) \<and> m_nBatched q + length xs < m_lBatchSize q \<and> (\<not> m_bBatchExact q \<longrightarrow> xs = [])"
      if z: "asleep ?s"
    proof -
      obtain xs ys where "M = map Sample xs" "L = map Sample ys" using a [OF z] n \<open>rested s\<close> L by (auto simp: rested_def)
      then show ?thesis using n a [OF z] by (intro exI [of _ "ys @ xs"]) (simp add: e)
    qed
    moreover have "\<not> m_bTerminate q" if z: "asleep ?s" using a [OF z] \<open>rested s\<close> by (simp add: rested_def e)
    moreover have "m_evFlushComplete q \<or> RESET_PACKET \<in> set (the (m_List q)) \<or> (\<exists>g. thread_packet (thr s) = Some (Some RESET_PACKET, g))"
      if "ctl s = Q_Resetting"
      using \<open>rested s\<close> that L by (auto simp: rested_def e)
    ultimately show ?thesis by (simp add: rested_def)
  qed
  show "flush_ends ?s" if "\<not> resets" "flush_ends s"
  proof -
    have "ctl s = Q_Flushing False \<Longrightarrow> m_bFlushing (oq s)" using f by (simp add: formed_def)
    then show ?thesis using that a L r b unfolding flush_ends_def by (simp add: e) blast
  qed
qed

lemma oq_inv_release:
  assumes "oq_inv resets s"
  shows "oq_inv resets (s\<lparr>oq := (oq s)\<lparr>released := released (oq s) @ us\<rparr>, submitted := submitted s @ us\<rparr>)"
  by (rule oq_invI [OF assms]; simp add: formed_def in_order_def pipeline_def conserved_def rested_def flush_ends_def asleep_def)

lemma oq_inv_segs: "oq_inv resets (s\<lparr>segs := gs\<rparr>) = oq_inv resets s"
  by (simp add: oq_inv_def formed_def in_order_def pipeline_def conserved_def rested_def flush_ends_def asleep_def)

lemma oq_inv_list: "oq_inv resets s \<Longrightarrow> \<exists>L. m_List (oq s) = Some L"
  by (auto simp: oq_inv_def formed_def)

lemma content_samples [simp]: "content (map Sample xs) = map Sample xs"
  by (induction xs) auto

lemma oq_inv_receive:
  assumes i: "oq_inv resets s" and r: "ReceiveMultiple pin ps (oq s) = Some (hr, n, q)"
  shows "oq_inv resets (s\<lparr>oq := q, submitted := submitted s @ map fst ps,
      accepted := accepted s @ (if m_hr (oq s) = S_OK then map Sample (kept ps) else [])\<rparr>)"
proof -
  obtain L where L: "m_List (oq s) = Some L" using oq_inv_list [OF i] by blast
  note q = ReceiveMultiple_queued [OF L r]
  show ?thesis
  proof (cases "m_hr (oq s) = S_OK")
    case False
    then show ?thesis using oq_inv_release [OF i, of "map fst ps"] q by simp
  next
    case True
    let ?n = "\<not> m_bBatchExact (oq s) \<or> m_lBatchSize (oq s) \<le> m_nBatched (oq s) + (length L + length (kept ps))"
    have q': "q = (let q = (oq s)\<lparr>m_bFlushed := False, m_List := Some (L @ map Sample (kept ps)), released := released (oq s) @ dropped ps\<rparr>
        in if ?n then NotifyThread q else q)"
      using q True by (simp add: Let_def)
    have "oq_inv resets (s\<lparr>oq := q, submitted := submitted s @ map fst ps, accepted := accepted s @ content (map Sample (kept ps))\<rparr>)"
      by (rule oq_inv_append [OF i L _ _ q']) (use True kept_dropped in \<open>auto simp: well_packed_single\<close>)
    then show ?thesis using True by simp
  qed
qed

text \<open>The other clients.\<close>

lemma oq_inv_mark:
  assumes "oq_inv resets s" and "m_List (oq s) = Some L" and "well_packed M" and "samples_of M = []" and "RESET_PACKET \<in> set M \<Longrightarrow> resets"
    and "q = NotifyThread ((oq s)\<lparr>m_bFlushed := f, m_List := Some (L @ M)\<rparr>)" and "f \<noteq> m_bFlushed (oq s) \<Longrightarrow> \<not> f \<and> m_hr (oq s) = S_OK"
  shows "oq_inv resets (s\<lparr>oq := q, accepted := accepted s @ content M\<rparr>)"
proof -
  have "(oq s)\<lparr>m_bFlushed := f, m_List := Some (L @ M), released := released (oq s) @ []\<rparr> = (oq s)\<lparr>m_bFlushed := f, m_List := Some (L @ M)\<rparr>"
    by (cases "oq s") simp
  then have "q = (let q = (oq s)\<lparr>m_bFlushed := f, m_List := Some (L @ M), released := released (oq s) @ []\<rparr> in if True then NotifyThread q else q)"
    using assms(6) by (simp add: Let_def)
  from oq_inv_append [OF assms(1-3,5) this _ _ assms(7), of "[]"] assms(4) show ?thesis by simp
qed

lemma oq_inv_send_anyway:
  assumes "oq_inv resets s" and "SendAnyway pin ok (oq s) = Some q"
  shows "oq_inv resets (s\<lparr>oq := q\<rparr>)"
proof -
  obtain L where L: "m_List (oq s) = Some L" using oq_inv_list [OF assms(1)] by blast
  have e: "q = NotifyThread ((oq s)\<lparr>m_bFlushed := m_bFlushed (oq s), m_List := Some (L @ (if ok then [SEND_PACKET] else []))\<rparr>)"
    using L assms(2) by (cases "oq s") (auto simp: SendAnyway_def IsQueued_def QueueSample_def split: if_splits)
  have "oq_inv resets (s\<lparr>oq := q, accepted := accepted s @ content (if ok then [SEND_PACKET] else [])\<rparr>)"
    by (rule oq_inv_mark [OF assms(1) L _ _ _ e]) (auto intro: well_packed.nil)
  then show ?thesis by (cases ok) simp_all
qed

lemma oq_inv_segment:
  assumes "oq_inv resets s" and "NewSegment_queue True True g (oq s) = Some q"
  shows "oq_inv resets (s\<lparr>oq := q, segs := gs, accepted := accepted s @ [SegmentPacket g]\<rparr>)"
proof -
  obtain L where L: "m_List (oq s) = Some L" using oq_inv_list [OF assms(1)] by blast
  have e: "q = NotifyThread ((oq s)\<lparr>m_bFlushed := m_bFlushed (oq s), m_List := Some (L @ [NEW_SEGMENT, SegmentPacket g])\<rparr>)"
    using L assms(2) by (cases "oq s") (auto simp: NewSegment_queue_def QueueSample_def)
  have "oq_inv resets (s\<lparr>oq := q, accepted := accepted s @ content [NEW_SEGMENT, SegmentPacket g]\<rparr>)"
    by (rule oq_inv_mark [OF assms(1) L _ _ _ e]) (auto intro: well_packed.intros)
  then have "oq_inv resets (s\<lparr>oq := q, accepted := accepted s @ [SegmentPacket g], segs := gs\<rparr>)" by (simp add: oq_inv_segs)
  moreover have "s\<lparr>oq := q, accepted := accepted s @ [SegmentPacket g], segs := gs\<rparr> = s\<lparr>oq := q, segs := gs, accepted := accepted s @ [SegmentPacket g]\<rparr>"
    by simp
  ultimately show ?thesis by (simp only:)
qed

lemma oq_inv_eos:
  assumes "oq_inv resets s" and "EOS pin True (oq s) = Some q"
  shows "oq_inv resets (s\<lparr>oq := q, accepted := accepted s @ (if m_hr (oq s) = S_OK then [EOS_PACKET] else [])\<rparr>)"
proof -
  obtain L where L: "m_List (oq s) = Some L" using oq_inv_list [OF assms(1)] by blast
  show ?thesis
  proof (cases "m_hr (oq s) = S_OK")
    case True
    then have e: "q = NotifyThread ((oq s)\<lparr>m_bFlushed := False, m_List := Some (L @ [EOS_PACKET])\<rparr>)"
      using L assms(2) by (simp add: EOS_def IsQueued_def QueueSample_def)
    have "oq_inv resets (s\<lparr>oq := q, accepted := accepted s @ content [EOS_PACKET]\<rparr>)"
      by (rule oq_inv_mark [OF assms(1) L _ _ _ e]) (use True in auto)
    then show ?thesis using True by simp
  next
    case False
    then have "q = oq s" using assms(2) L by (simp add: EOS_def IsQueued_def)
    then show ?thesis using False assms(1) by (cases s) simp
  qed
qed

text \<open>Flushing, resetting and destroying.\<close>

lemma oq_inv_begin_flush:
  assumes "oq_inv resets s" and "ctl s = Q_Free" and "OutputQueue_BeginFlush (oq s) = (d, q)"
  shows "oq_inv resets (s\<lparr>oq := q, ctl := Q_Flushing d, clean := False\<rparr>)"
proof -
  obtain L where L: "m_List (oq s) = Some L" using oq_inv_list [OF assms(1)] by blast
  have e: "m_List q = Some L" "m_ppSamples q = m_ppSamples (oq s)" "sent (calls q) = sent (calls (oq s))" "released q = released (oq s)"
    "m_bFlushed q = m_bFlushed (oq s)" "m_hr q \<noteq> S_OK" "m_bFlushing q" "m_bTerminate q = m_bTerminate (oq s)"
    "m_bFlushingOpt q = m_bFlushingOpt (oq s)" "m_lBatchSize q = m_lBatchSize (oq s)" "m_bBatchExact q = m_bBatchExact (oq s)"
    "d = (\<not> (m_bFlushed (oq s) \<and> m_bFlushingOpt (oq s)))"
    "m_hSem q = (if d then m_hSem (oq s) + m_lWaiting (oq s) else m_hSem (oq s))" "m_lWaiting q = (if d then 0 else m_lWaiting (oq s))"
    using assms(3) L by (auto simp: OutputQueue_BeginFlush_def IsQueued_def Let_def NotifyThread_eq S_FALSE_def S_OK_def split: if_splits)
  show ?thesis
  proof (rule oq_invI [OF assms(1)])
    assume f: "formed s"
    let ?s = "s\<lparr>oq := q, ctl := Q_Flushing d, clean := False\<rparr>"
    show "formed ?s" using f L assms(2) by (cases d) (simp_all add: formed_def e add.commute)
    show "in_order s \<Longrightarrow> in_order ?s" using L by (simp add: in_order_def pipeline_def e)
    show "conserved s \<Longrightarrow> conserved ?s" using L by (simp add: conserved_def e)
    have a: "asleep ?s \<Longrightarrow> \<not> d \<and> asleep s" using f by (cases d) (auto simp: asleep_def e formed_def)
    show "rested s \<Longrightarrow> rested ?s" using a L by (auto simp: rested_def e)
    show "\<not> resets \<Longrightarrow> flush_ends s \<Longrightarrow> flush_ends ?s" using a L by (auto simp: flush_ends_def e)
  qed
qed

lemma oq_inv_end_flush:
  assumes "oq_inv resets s" and "ctl s = Q_Flushing d" and "EndFlush_begin (oq s) = (e, q)"
  shows "oq_inv resets (s\<lparr>oq := q, ctl := (if e then Q_Ending else Q_Free)\<rparr>)"
proof -
  obtain L where L: "m_List (oq s) = Some L" using oq_inv_list [OF assms(1)] by blast
  have f: "formed s" and nc: "\<not> clean s" using assms(1,2) by (auto simp: oq_inv_def formed_def in_order_def)
  show ?thesis
  proof (cases e)
    case True
    then have q: "q = oq s" "\<not> (m_bFlushingOpt (oq s) \<and> m_bFlushed (oq s))"
      using assms(3) L by (auto simp: EndFlush_begin_def IsQueued_def split: if_splits)
    have "\<not> resets \<Longrightarrow> d" using q(2) assms(1,2) by (cases d) (auto simp: oq_inv_def flush_ends_def)
    then show ?thesis using q assms(2) True
      by (intro oq_invI [OF assms(1)]) (simp_all add: formed_def in_order_def pipeline_def conserved_def rested_def flush_ends_def asleep_def)
  next
    case False
    then have q: "q = (oq s)\<lparr>m_bFlushing := False, m_hr := S_OK\<rparr>" using assms(3) by (auto simp: EndFlush_begin_def split: if_splits)
    then show ?thesis using assms(2) False nc
      by (intro oq_invI [OF assms(1)]) (simp_all add: formed_def in_order_def pipeline_def conserved_def rested_def flush_ends_def asleep_def)
  qed
qed

lemma oq_inv_flushed:
  assumes "oq_inv resets s" and "ctl s = Q_Flushed" and "EndFlush_flushed (oq s) = Some q"
  shows "oq_inv resets (s\<lparr>oq := q, ctl := Q_Closing\<rparr>)"
proof -
  obtain L where L: "m_List (oq s) = Some L" using oq_inv_list [OF assms(1)] by blast
  have nc: "\<not> clean s" using assms(1,2) by (auto simp: oq_inv_def formed_def in_order_def)
  have "q = (oq s)\<lparr>m_bFlushing := False, m_bFlushed := True, calls := calls (oq s) @ [D_EndFlush]\<rparr>"
    using assms(3) L by (simp add: EndFlush_flushed_def IsQueued_def)
  then show ?thesis using assms(2) nc
    by (intro oq_invI [OF assms(1)]) (simp_all add: formed_def in_order_def pipeline_def conserved_def rested_def flush_ends_def asleep_def)
qed

lemma oq_inv_destroy:
  assumes "oq_inv resets s" and "ctl s = Q_Free" and "COutputQueue_destructor (oq s) = Some q"
  shows "oq_inv resets (s\<lparr>oq := q, ctl := Q_Destroying, clean := False\<rparr>)"
proof -
  obtain L where L: "m_List (oq s) = Some L" using oq_inv_list [OF assms(1)] by blast
  have q: "q = (oq s)\<lparr>m_bTerminate := True, m_hr := S_FALSE, m_hSem := m_hSem (oq s) + m_lWaiting (oq s), m_lWaiting := 0\<rparr>"
    using assms(3) L by (simp add: COutputQueue_destructor_def IsQueued_def NotifyThread_eq)
  show ?thesis
  proof (rule oq_invI [OF assms(1)])
    assume f: "formed s"
    let ?s = "s\<lparr>oq := q, ctl := Q_Destroying, clean := False\<rparr>"
    show "formed ?s" using f assms(2) by (simp add: formed_def q add.commute)
    show "in_order s \<Longrightarrow> in_order ?s" by (simp add: in_order_def pipeline_def q)
    show "conserved s \<Longrightarrow> conserved ?s" by (simp add: conserved_def q)
    have a: "\<not> asleep ?s" using f by (auto simp: asleep_def q formed_def)
    show "rested s \<Longrightarrow> rested ?s" using a by (simp add: rested_def)
    show "\<not> resets \<Longrightarrow> flush_ends s \<Longrightarrow> flush_ends ?s" using a f assms(2) by (simp add: flush_ends_def q formed_def)
  qed
qed

lemma oq_inv_reset:
  assumes "oq_inv resets s" and "ctl s = Q_Free" and resets and "Reset True (oq s) = Some q"
  shows "oq_inv resets (s\<lparr>oq := q, ctl := Q_Resetting\<rparr>)"
proof -
  obtain L where L: "m_List (oq s) = Some L" using oq_inv_list [OF assms(1)] by blast
  have e: "q = NotifyThread ((oq s)\<lparr>m_bFlushed := m_bFlushed (oq s), m_List := Some (L @ [RESET_PACKET])\<rparr>)"
    using L assms(4) by (cases "oq s") (simp add: Reset_def IsQueued_def QueueSample_def)
  have "oq_inv resets (s\<lparr>oq := q, accepted := accepted s @ content [RESET_PACKET]\<rparr>)"
    by (rule oq_inv_mark [OF assms(1) L _ _ _ e]) (use assms(3) in auto)
  then have "oq_inv resets (s\<lparr>oq := q\<rparr>)" by simp
  moreover have "RESET_PACKET \<in> set (the (m_List q))" by (simp add: e NotifyThread_eq)
  ultimately show ?thesis using assms(2,3)
    by (simp add: oq_inv_def formed_def in_order_def pipeline_def conserved_def rested_def asleep_def)
qed

lemma oq_step_inv: "oq_step resets s s' \<Longrightarrow> oq_inv resets s \<Longrightarrow> oq_inv resets s'"
proof (induction rule: oq_step.induct)
  case (scan s r q)
  then show ?case using after_scan_formed [of s r q] after_scan_flow [of s r q] after_scan_rest [of s r q]
    by (simp add: oq_inv_def)
next
  case (segment_check s g)
  then show ?case by (simp add: oq_inv_segs)
next
  case (flush_waited s)
  then show ?case
    by (intro oq_invI [OF flush_waited(3)]) (simp_all add: formed_def in_order_def pipeline_def conserved_def rested_def flush_ends_def asleep_def)
next
  case (closed s)
  have "\<not> clean s \<or> m_hr (oq s) = S_OK" using closed by (auto simp: oq_inv_def in_order_def)
  then show ?case using closed(1)
    by (intro oq_invI [OF closed(2)]) (auto simp: formed_def in_order_def pipeline_def conserved_def rested_def flush_ends_def asleep_def EndFlush_end_def)
next
  case (reset_waited s)
  then show ?case
    by (intro oq_invI [OF reset_waited(3)]) (simp_all add: formed_def in_order_def pipeline_def conserved_def rested_def flush_ends_def asleep_def)
next
  case (set_pop_event s h)
  then show ?case
    by (intro oq_invI [OF set_pop_event]) (simp_all add: formed_def in_order_def pipeline_def conserved_def rested_def flush_ends_def asleep_def SetPopEvent_def)
qed (erule (2) oq_inv_wake oq_inv_send oq_inv_destroy oq_inv_begin_flush oq_inv_packet oq_inv_end_flush oq_inv_flushed
    | erule (1) oq_inv_return oq_inv_receive oq_inv_send_anyway oq_inv_segment oq_inv_eos | erule (3) oq_inv_reset)+

lemma oq_reachable_inv: "oq_reachable resets s \<Longrightarrow> oq_inv resets s"
proof (induction rule: oq_reachable.induct)
  case (start n block bAuto bQueue bExact bOpt q)
  have "q = \<lparr>m_bBatchExact = (bExact \<and> n > 1), m_lBatchSize = n, m_List = Some [], m_hSem = 0,
            m_evFlushComplete = False, m_ppSamples = [], m_lWaiting = 0, m_bFlushing = False, m_bFlushed = True,
            m_bFlushingOpt = bOpt, m_bTerminate = False, m_bSendAnyway = False, m_hr = S_OK, m_hEventPop = False,
            pop_event = False, calls = [], released = []\<rparr>"
    using start(2,3) by (auto simp: new_COutputQueue_def IsQueued_def Let_def split: if_splits)
  then show ?case using start(1)
    by (simp add: oq_inv_def formed_def in_order_def pipeline_def conserved_def rested_def flush_ends_def asleep_def well_packed.nil)
next
  case (step s s')
  then show ?case using oq_step_inv by blast
qed

end
