(* ===== verification/Output_Queue_Props.thy ===== *)
theory Output_Queue_Props
  imports Output_Queue_Flow
begin

text \<open>
  What the output queue promises, with a thread and without.
\<close>

section \<open>With a thread\<close>

text \<open>C9. What the downstream pin receives, batches taken apart and the ends of streams and the new segments among
  them, is a subsequence of what was queued: nothing is reordered, repeated or made up, whatever the
  interleaving and whatever flushes and errors come. As long as no flush, no error downstream and no
  destruction has come, nothing is missing either: what was sent, what the thread holds, the batch and the
  list together are exactly what was queued.\<close>

theorem outq_order:
  assumes "oq_reachable resets s"
  shows "subseq (sent (calls (oq s))) (accepted s) \<and>
    (clean s \<longrightarrow> sent (calls (oq s)) @ thread_content (thr s) @ map Sample (m_ppSamples (oq s)) @ content (the (m_List (oq s))) = accepted s)"
  using oq_reachable_inv [OF assms] unfolding oq_inv_def in_order_def pipeline_def by (blast intro: subseq_drop_end)

text \<open>A queue for batches of exactly two samples, whose thread waits, that is given one sample.\<close>

definition queue2 :: "bool \<Rightarrow> COutputQueue" where
  "queue2 exact = snd (new_COutputQueue S_OK S_OK S_OK None None None None True False 2 exact False)"

definition sys2 :: "bool \<Rightarrow> oq_sys" where
  "sys2 exact = \<lparr>oq = queue2 exact, thr = T_Loop, ctl = Q_Free, segs = [], submitted = [], accepted = [], clean = True\<rparr>"

lemma queue2_eval:
  "queue2 exact = \<lparr>m_bBatchExact = exact, m_lBatchSize = 2, m_List = Some [], m_hSem = 0,
     m_evFlushComplete = False, m_ppSamples = [], m_lWaiting = 0, m_bFlushing = False, m_bFlushed = True,
     m_bFlushingOpt = False, m_bTerminate = False, m_bSendAnyway = False, m_hr = S_OK, m_hEventPop = False,
     pop_event = False, calls = [], released = []\<rparr>"
  by (simp add: queue2_def new_COutputQueue_def Let_def)

lemma sys2_reachable: "oq_reachable resets (sys2 exact)"
  unfolding sys2_def
  by (rule oq_reachable.start [where block = S_OK and bAuto = True and bQueue = False and n = 2 and bExact = exact and bOpt = False]) (simp_all add: queue2_def new_COutputQueue_def IsQueued_def Let_def)

lemma sys2_waits: "oq_reachable resets ((sys2 exact)\<lparr>oq := (queue2 exact)\<lparr>m_lWaiting := 1\<rparr>, thr := T_Waiting\<rparr>)"
proof -
  have "thread_scan (oq (sys2 exact)) = Some (Scan_Wait, (queue2 exact)\<lparr>m_lWaiting := 1\<rparr>)"
    by (subst thread_scan.simps) (simp add: sys2_def queue2_eval take_packet_def)
  then show ?thesis using oq_reachable.step [OF sys2_reachable oq_step.scan] by (fastforce simp: sys2_def)
qed

definition sys2_one :: oq_sys where
  "sys2_one = (sys2 True)\<lparr>oq := (queue2 True)\<lparr>m_lWaiting := 1, m_bFlushed := False, m_List := Some [Sample 7]\<rparr>, thr := T_Waiting,
     submitted := [7], accepted := [Sample 7]\<rparr>"

lemma sys2_one_reachable: "oq_reachable resets sys2_one"
proof -
  let ?s = "(sys2 True)\<lparr>oq := (queue2 True)\<lparr>m_lWaiting := 1\<rparr>, thr := T_Waiting\<rparr>"
  have "ReceiveMultiple pin [(7, True)] (oq ?s) = Some (S_OK, 1, (queue2 True)\<lparr>m_lWaiting := 1, m_bFlushed := False, m_List := Some [Sample 7]\<rparr>)" for pin
    by (simp add: ReceiveMultiple_def IsQueued_def QueueSample_def queue2_eval)
  from oq_reachable.step [OF sys2_waits oq_step.receive [OF _ this]] show ?thesis
    by (simp add: sys2_one_def sys2_def queue2_eval kept_def)
qed

theorem outq_order_witness:
  "sent (calls (oq sys2_one)) @ thread_content (thr sys2_one) @ map Sample (m_ppSamples (oq sys2_one)) @
     content (the (m_List (oq sys2_one))) = [Sample 7]"
proof -
  have "clean sys2_one" "accepted sys2_one = [Sample 7]" by (simp_all add: sys2_one_def sys2_def)
  then show ?thesis using outq_order [OF sys2_one_reachable [of False]] by simp
qed

text \<open>The thread leaves nothing behind.\<close>

definition ended :: "oq_sys \<Rightarrow> bool" where
  "ended s \<longleftrightarrow> (thr s = T_Ended \<longrightarrow> ctl s = Q_Destroying \<and> m_List (oq s) = Some [] \<and> m_ppSamples (oq s) = [])"

lemma ended_step: "oq_step resets s s' \<Longrightarrow> oq_inv resets s \<Longrightarrow> ended s \<Longrightarrow> ended s'"
proof (induction rule: oq_step.induct)
  case (scan s r q)
  obtain L where L: "m_List (oq s) = Some L" "well_packed L" "m_bTerminate (oq s) = (ctl s = Q_Destroying)"
    "m_nBatched (oq s) < m_lBatchSize (oq s)"
    using scan(3) by (auto simp: oq_inv_def formed_def)
  show ?case
  proof (cases "m_bTerminate (oq s)")
    case True
    then show ?thesis using thread_scan_ended [OF L(2,1) True] scan(2) L(3) by (auto simp: ended_def)
  next
    case False
    have "r \<noteq> Scan_Ended"
      using thread_scan_flushing [OF L(2,1) False] thread_scan_ends [OF L(2,1,4) False] scan(2)
      by (cases "m_bFlushing (oq s)") (auto simp: scanned_def)
    then show ?thesis by (cases r) (auto simp: ended_def)
  qed
qed (auto simp: ended_def SetPopEvent_def)

lemma ended_reachable: "oq_reachable resets s \<Longrightarrow> ended s"
  by (induction rule: oq_reachable.induct) (auto simp: ended_def dest: ended_step oq_reachable_inv)

text \<open>C27. Every sample given to the queue is released exactly once: it has been, or it is with the thread, in the
  batch or in the list, and in one of these places only. When the thread has ended all have been
  released.\<close>

theorem outq_samples_released:
  assumes "oq_reachable resets s"
  shows "mset (submitted s) = mset (released (oq s)) + mset (thread_samples (thr s)) + mset (m_ppSamples (oq s)) +
      mset (samples_of (the (m_List (oq s)))) \<and>
    (thr s = T_Ended \<longrightarrow> mset (released (oq s)) = mset (submitted s))"
  using oq_reachable_inv [OF assms] ended_reachable [OF assms] by (auto simp: oq_inv_def conserved_def ended_def)

theorem outq_samples_released_witness:
  "mset (submitted sys2_one) = mset (released (oq sys2_one)) + {#7#}"
  using outq_samples_released [OF sys2_one_reachable [of False]] by (simp add: sys2_one_def sys2_def queue2_eval)

text \<open>C10. The thread sleeps only when there is nothing to do: no end was asked for and the list holds only
  samples that do not fill a batch, none at all unless batches have to be exact. Otherwise it can take
  a step, until it has ended. So the destructor's wait for the thread and \<open>Reset\<close>'s wait for its packet end, and, when
  \<open>Reset\<close> is not used, so does the wait of \<open>EndFlush\<close>: whenever the thread sleeps, the event waited for is set.\<close>

theorem outq_no_lost_wakeup:
  assumes "oq_reachable resets s"
  shows "(asleep s \<longrightarrow> ctl s \<noteq> Q_Destroying \<and> (\<exists>xs. m_List (oq s) = Some (map Sample xs) \<and>
      m_nBatched (oq s) + length xs < m_lBatchSize (oq s) \<and> (\<not> m_bBatchExact (oq s) \<longrightarrow> xs = [] \<and> m_nBatched (oq s) = 0))) \<and>
    (\<not> asleep s \<longrightarrow> thr s \<noteq> T_Ended \<longrightarrow> (\<exists>s'. oq_step resets s s' \<and> thr s' \<noteq> thr s)) \<and>
    (asleep s \<longrightarrow> ctl s = Q_Resetting \<or> ctl s = Q_Ending \<and> \<not> resets \<longrightarrow> m_evFlushComplete (oq s))"
proof -
  have i: "formed s" "rested s" "\<not> resets \<Longrightarrow> flush_ends s" using oq_reachable_inv [OF assms] by (auto simp: oq_inv_def)
  obtain L where L: "m_List (oq s) = Some L" "well_packed L" "m_nBatched (oq s) < m_lBatchSize (oq s)"
    using i(1) by (auto simp: formed_def)
  have step: "\<exists>s'. oq_step resets s s' \<and> thr s' \<noteq> thr s" if na: "\<not> asleep s" "thr s \<noteq> T_Ended"
  proof (cases "thr s")
    case T_Loop
    obtain r q where r: "thread_scan (oq s) = Some (r, q)"
      using thread_scan_ended [OF L(2,1)] thread_scan_flushing [OF L(2,1)] thread_scan_ends [OF L(2,1,3)] by blast
    show ?thesis using oq_step.scan [OF T_Loop r] T_Loop by (intro exI conjI) (assumption, cases r, simp_all)
  next
    case T_Waiting
    then have "0 < m_hSem (oq s)" using na by (auto simp: asleep_def)
    then show ?thesis using oq_step.wake [OF T_Waiting] T_Waiting by (intro exI conjI) (assumption, simp)
  next
    case (T_Sending p b g)
    obtain d q where "ThreadProc_send b (oq s) = (d, q)" by force
    then show ?thesis using oq_step.send [OF T_Sending] T_Sending by (intro exI conjI) (assumption, simp)
  next
    case (T_Delivering p b g)
    then show ?thesis using oq_step.return [OF T_Delivering] by (intro exI conjI) (assumption, simp)
  next
    case (T_Sent p g)
    have "p = Some NEW_SEGMENT \<Longrightarrow> g \<noteq> None" using i(1) T_Sent by (simp add: formed_def)
    then obtain q where "ThreadProc_packet p g (oq s) = Some q"
      by (cases p; cases "the p"; cases g) (auto simp: ThreadProc_packet_def)
    then show ?thesis using oq_step.packet [OF T_Sent] T_Sent by (intro exI conjI) (assumption, simp)
  qed (use na in simp)
  have sleep: "ctl s \<noteq> Q_Destroying \<and> (\<exists>xs. m_List (oq s) = Some (map Sample xs) \<and>
      m_nBatched (oq s) + length xs < m_lBatchSize (oq s) \<and> (\<not> m_bBatchExact (oq s) \<longrightarrow> xs = [] \<and> m_nBatched (oq s) = 0))"
    if "asleep s"
    using that i(1,2) unfolding rested_def formed_def by (metis length_0_conv)
  have "m_evFlushComplete (oq s)" if a: "asleep s" and c: "ctl s = Q_Resetting \<or> ctl s = Q_Ending \<and> \<not> resets"
  proof (cases "ctl s = Q_Resetting")
    case True
    obtain xs where "m_List (oq s) = Some (map Sample xs)" using sleep [OF a] by blast
    then show ?thesis using i(2) a True by (auto simp: rested_def asleep_def)
  next
    case False
    then show ?thesis using c i(3) a by (simp add: flush_ends_def)
  qed
  then show ?thesis using step sleep by blast
qed

theorem outq_no_lost_wakeup_witness:
  "\<exists>s'. oq_step False (sys2 True) s' \<and> thr s' \<noteq> thr (sys2 True)"
proof -
  have "\<not> asleep (sys2 True)" "thr (sys2 True) \<noteq> T_Ended" by (simp_all add: asleep_def sys2_def)
  then show ?thesis using outq_no_lost_wakeup [OF sys2_reachable [of False True]] by blast
qed

text \<open>\<open>IsIdle\<close> keeps its promise, that nothing is queued and everything has been sent, for batches that need not
  be exact. For exact batches it does not: a thread that sleeps is not called for samples that do not
  fill a batch, and \<open>IsIdle\<close> looks only at the thread and the batch, not at the list.\<close>

theorem outq_idle:
  "(\<forall>s. oq_reachable resets s \<longrightarrow> \<not> m_bBatchExact (oq s) \<longrightarrow> IsIdle (oq s) \<longrightarrow>
      m_List (oq s) = Some [] \<and> mset (released (oq s)) = mset (submitted s)) \<and>
   (\<exists>s. oq_reachable resets s \<and> m_bBatchExact (oq s) \<and> IsIdle (oq s) \<and> m_List (oq s) = Some [Sample 7] \<and> released (oq s) = [])"
proof (intro conjI allI impI)
  fix s assume a: "oq_reachable resets s" "\<not> m_bBatchExact (oq s)" "IsIdle (oq s)"
  have i: "formed s" "rested s" "conserved s" using oq_reachable_inv [OF a(1)] by (auto simp: oq_inv_def)
  have w: "m_lWaiting (oq s) \<noteq> 0" "m_nBatched (oq s) = 0" using a(3) i(1) by (auto simp: IsIdle_def IsQueued_def formed_def)
  then have z: "asleep s" using i(1) by (auto simp: formed_def asleep_def)
  then show "m_List (oq s) = Some []" using i(2) a(2) by (auto simp: rested_def)
  then show "mset (released (oq s)) = mset (submitted s)" using i(3) z w(2) by (simp add: conserved_def asleep_def)
next
  show "\<exists>s. oq_reachable resets s \<and> m_bBatchExact (oq s) \<and> IsIdle (oq s) \<and> m_List (oq s) = Some [Sample 7] \<and> released (oq s) = []"
    by (rule exI [of _ sys2_one]) (use sys2_one_reachable in \<open>auto simp: sys2_one_def sys2_def queue2_eval IsIdle_def\<close>)
qed

theorem outq_idle_witness:
  "IsIdle ((queue2 False)\<lparr>m_lWaiting := 1\<rparr>) \<and> mset (released ((queue2 False)\<lparr>m_lWaiting := 1\<rparr>)) = {#}"
proof -
  let ?s = "(sys2 False)\<lparr>oq := (queue2 False)\<lparr>m_lWaiting := 1\<rparr>, thr := T_Waiting\<rparr>"
  have i: "IsIdle (oq ?s)" "\<not> m_bBatchExact (oq ?s)" "submitted ?s = []" by (simp_all add: IsIdle_def queue2_eval sys2_def)
  then have "mset (released (oq ?s)) = mset (submitted ?s)"
    using outq_idle [of False] sys2_waits [of False False] by blast
  then show ?thesis using i by simp
qed

section \<open>Without a thread\<close>

definition willing :: "receiver_pin \<Rightarrow> bool" where
  "willing pin \<longleftrightarrow> (\<forall>c b. pin c b = (S_OK, int (length b)))"

lemma send_batch_willing:
  "willing pin \<Longrightarrow> m_hr q = S_OK \<Longrightarrow>
   send_batch pin q = (0, q\<lparr>m_hr := S_OK, calls := calls q @ [D_ReceiveMultiple (m_ppSamples q)], released := released q @ m_ppSamples q, m_ppSamples := []\<rparr>)"
  by (cases q) (simp add: send_batch_def willing_def)

definition direct :: "COutputQueue \<Rightarrow> bool" where
  "direct q \<longleftrightarrow> m_List q = None \<and> m_hr q = S_OK \<and> \<not> m_bSendAnyway q \<and> m_nBatched q < m_lBatchSize q"

lemma receive_loop_direct:
  "willing pin \<Longrightarrow> direct q \<Longrightarrow> xs \<noteq> [] \<longrightarrow> n \<noteq> 0 \<Longrightarrow>
   \<exists>q'. receive_loop pin n xs 0 q = Some (0, q') \<and> direct q' \<and> m_lBatchSize q' = m_lBatchSize q \<and> m_bBatchExact q' = m_bBatchExact q \<and>
     sent (calls q') @ map Sample (m_ppSamples q') = sent (calls q) @ map Sample (m_ppSamples q @ xs) \<and>
     released q' @ m_ppSamples q' = released q @ m_ppSamples q @ xs \<and>
     (m_nBatched q + length xs < m_lBatchSize q \<longrightarrow> calls q' = calls q)"
proof (induction xs arbitrary: q)
  case Nil
  then show ?case by (subst receive_loop.simps) (simp add: direct_def)
next
  case (Cons x xs)
  let ?b = "q\<lparr>m_ppSamples := m_ppSamples q @ [x]\<rparr>"
  have ba: "batch_add x q = Some ?b" using Cons.prems(2) by (simp add: batch_add_def direct_def)
  show ?case
  proof (cases "m_nBatched ?b = m_lBatchSize q")
    case True
    obtain c where sb: "send_batch pin ?b = (0, c)" and c: "direct c" "m_lBatchSize c = m_lBatchSize q" "m_bBatchExact c = m_bBatchExact q"
        "calls c = calls q @ [D_ReceiveMultiple (m_ppSamples q @ [x])]" "released c = released q @ m_ppSamples q @ [x]" "m_ppSamples c = []"
      using send_batch_willing [OF Cons.prems(1), of ?b] Cons.prems(2) by (auto simp: direct_def)
    have "receive_loop pin n (x # xs) 0 q = receive_loop pin n xs 0 c"
      using Cons.prems(2) ba True by (subst receive_loop.simps) (simp add: direct_def sb)
    then show ?thesis using Cons.IH [OF Cons.prems(1) c(1)] Cons.prems(3) c(2-) True by auto
  next
    case False
    have d: "direct ?b" using Cons.prems(2) False by (auto simp: direct_def)
    have "receive_loop pin n (x # xs) 0 q = receive_loop pin n xs 0 ?b"
      using Cons.prems(2,3) ba False by (subst receive_loop.simps) (simp add: direct_def)
    then show ?thesis using Cons.IH [OF Cons.prems(1) d] Cons.prems(3) by auto
  qed
qed

lemma SendAnyway_direct:
  assumes "willing pin" and "direct q"
  shows "\<exists>q'. SendAnyway pin ok q = Some q' \<and> direct q' \<and> m_ppSamples q' = [] \<and>
    sent (calls q') = sent (calls q) @ map Sample (m_ppSamples q) \<and> released q' = released q @ m_ppSamples q"
proof -
  let ?q = "q\<lparr>m_bSendAnyway := True, m_bFlushed := False\<rparr>"
  have run: "\<exists>q'. receive_loop pin 0 [] 0 ?q = Some (0, q') \<and> m_List q' = None \<and> m_hr q' = S_OK \<and> m_ppSamples q' = [] \<and> 0 < m_lBatchSize q' \<and>
      sent (calls q') = sent (calls q) @ map Sample (m_ppSamples q) \<and> released q' = released q @ m_ppSamples q"
  proof (cases "m_nBatched q = 0")
    case True
    then show ?thesis using assms(2) by (subst receive_loop.simps) (simp add: direct_def)
  next
    case False
    obtain c where sb: "send_batch pin ?q = (0, c)" and c: "m_List c = None" "m_hr c = S_OK" "m_lBatchSize c = m_lBatchSize q"
        "calls c = calls q @ [D_ReceiveMultiple (m_ppSamples q)]" "released c = released q @ m_ppSamples q" "m_ppSamples c = []"
      using send_batch_willing [OF assms(1), of ?q] assms(2) by (auto simp: direct_def)
    have "receive_loop pin 0 [] 0 ?q = receive_loop pin 0 [] 0 c" using False by (subst receive_loop.simps) (simp add: sb)
    also have "\<dots> = Some (0, c)" by (subst receive_loop.simps) (simp add: c(6))
    finally show ?thesis using c assms(2) by (auto simp: direct_def)
  qed
  then show ?thesis using assms(2) by (auto simp: SendAnyway_def ReceiveMultiple_def IsQueued_def direct_def)
qed

text \<open>Without a thread, and downstream of a pin that accepts everything, \<open>ReceiveMultiple\<close> reports all samples
  processed and has sent them, in order and each released once, except the last ones that do not fill
  a batch; \<open>SendAnyway\<close> sends those. \<open>EOS\<close> sends them before the end of the stream for exact batches; for
  batches that need not be exact it does not, so that the end of the stream overtakes them.\<close>

theorem outq_direct:
  assumes "willing pin" and "direct q"
  shows "(\<exists>q'. ReceiveMultiple pin ps q = Some (S_OK, int (length ps), q') \<and> direct q' \<and>
      sent (calls q') @ map Sample (m_ppSamples q') = sent (calls q) @ map Sample (m_ppSamples q @ map fst ps) \<and>
      released q' @ m_ppSamples q' = released q @ m_ppSamples q @ map fst ps \<and>
      (m_nBatched q + length ps < m_lBatchSize q \<longrightarrow> calls q' = calls q)) \<and>
    (\<exists>q'. SendAnyway pin ok q = Some q' \<and> direct q' \<and> m_ppSamples q' = [] \<and>
      sent (calls q') = sent (calls q) @ map Sample (m_ppSamples q) \<and> released q' = released q @ m_ppSamples q) \<and>
    (\<exists>q'. EOS pin ok q = Some q' \<and> direct q' \<and>
      (if m_bBatchExact q then sent (calls q') = sent (calls q) @ map Sample (m_ppSamples q) @ [EOS_PACKET] \<and> m_ppSamples q' = []
       else sent (calls q') = sent (calls q) @ [EOS_PACKET] \<and> m_ppSamples q' = m_ppSamples q))"
proof (intro conjI)
  have d: "direct (q\<lparr>m_bFlushed := False\<rparr>)" using assms(2) by (simp add: direct_def)
  show "\<exists>q'. ReceiveMultiple pin ps q = Some (S_OK, int (length ps), q') \<and> direct q' \<and>
      sent (calls q') @ map Sample (m_ppSamples q') = sent (calls q) @ map Sample (m_ppSamples q @ map fst ps) \<and>
      released q' @ m_ppSamples q' = released q @ m_ppSamples q @ map fst ps \<and>
      (m_nBatched q + length ps < m_lBatchSize q \<longrightarrow> calls q' = calls q)"
    using receive_loop_direct [OF assms(1) d, of "map fst ps" "length ps"] assms(2)
    by (auto simp: ReceiveMultiple_def IsQueued_def direct_def)
  show s: "\<exists>q'. SendAnyway pin ok q = Some q' \<and> direct q' \<and> m_ppSamples q' = [] \<and>
      sent (calls q') = sent (calls q) @ map Sample (m_ppSamples q) \<and> released q' = released q @ m_ppSamples q"
    by (rule SendAnyway_direct [OF assms])
  show "\<exists>q'. EOS pin ok q = Some q' \<and> direct q' \<and>
      (if m_bBatchExact q then sent (calls q') = sent (calls q) @ map Sample (m_ppSamples q) @ [EOS_PACKET] \<and> m_ppSamples q' = []
       else sent (calls q') = sent (calls q) @ [EOS_PACKET] \<and> m_ppSamples q' = m_ppSamples q)"
    using SendAnyway_direct [OF assms, of True] assms(2) by (auto simp: EOS_def IsQueued_def direct_def)
qed

definition direct2 :: COutputQueue where
  "direct2 = snd (new_COutputQueue S_OK S_OK S_FALSE None None None None True False 2 False False)"

lemma direct2: "direct direct2" "\<not> m_bBatchExact direct2" "m_lBatchSize direct2 = 2" "m_ppSamples direct2 = []" "calls direct2 = []"
  by (simp_all add: direct2_def direct_def new_COutputQueue_def Let_def S_FALSE_def S_OK_def SUCCEEDED_def)

theorem outq_direct_witness:
  "\<exists>q'. ReceiveMultiple (\<lambda>c b. (S_OK, int (length b))) [(7, True)] direct2 = Some (S_OK, 1, q') \<and> calls q' = [] \<and> m_ppSamples q' = [7]"
proof -
  have "willing (\<lambda>c b. (S_OK, int (length b)))" by (simp add: willing_def)
  from outq_direct [OF this direct2(1), of "[(7, True)]" True] show ?thesis by (auto simp: direct2 simp del: One_nat_def)
qed

text \<open>Without a thread, \<open>SendAnyway\<close> sets its flag before it takes the lock. When another thread is then inside
  \<open>ReceiveMultiple\<close> with samples of its own and is left with a batch that is not full, the loop there neither
  sends the batch nor ends: it runs forever, holding the lock that \<open>SendAnyway\<close> waits for.\<close>

theorem outq_send_anyway_livelock:
  assumes "0 < nSamples" and "m_bSendAnyway q" and "0 < m_nBatched q" and "m_nBatched q < m_lBatchSize q"
  shows "receive_loop pin nSamples [] iLost q = None"
proof (rule ccontr)
  assume "receive_loop pin nSamples [] iLost q \<noteq> None"
  then obtain r where "receive_loop pin nSamples [] iLost q = Some r" by blast
  from receive_loop.raw_induct [where P = "\<lambda>pin n xs i q r. \<not> (0 < n \<and> xs = [] \<and> m_bSendAnyway q \<and> 0 < m_nBatched q \<and> m_nBatched q < m_lBatchSize q)",
      OF _ this]
  show False using assms by (fastforce split: if_splits)
qed

theorem outq_send_anyway_livelock_witness:
  "receive_loop (\<lambda>c b. (S_OK, 0)) 1 [] 0 (direct2\<lparr>m_ppSamples := [7], m_bSendAnyway := True\<rparr>) = None"
  by (rule outq_send_anyway_livelock) (simp_all add: direct2)

end
