(* ===== verification/Spec2Isabelle.thy ===== *)
theory Spec2Isabelle
  imports Video_Quality_Props Media_Type_Props Enumerators_Props Pin_Connect_Props Dynamic_Pin_Props Pcm_Props Blocking_Queue_Props Arith_Util_Props Base_List_Props Source_Stream_Props Transform_Props Renderer_Props Stream_Control_Props Ref_Clock_Props
    Media_Sample_Props Allocator_Props Output_Queue_Props
begin

text \<open>
  Verification of the StupidAR audio renderer.

  \<^bold>\<open>The program.\<close> StupidAR is a DirectShow renderer filter. \<open>src/StupidAR\<close> holds its own code: the
  filter class \<open>MyRenderer\<close>, the sample conversions of \<open>pcm.h\<close> that an output agent applies to the
  received audio, and the \<open>BlockingQueue\<close> between the streaming thread and the output thread.
  \<open>src/baseclasses\<close> holds the DirectShow base classes the filter is built from: a renderer
  (\<open>renbase.cpp\<close>) on a filter with pins (\<open>amfilter.cpp\<close>, which also has the connection of pins, the media samples and the memory
  allocator they come from), the reference clock and its schedule (\<open>refclock.cpp\<close>, \<open>schedule.cpp\<close>), the
  pointer list \<open>CBaseList\<close> (\<open>wxlist.cpp\<close>) and 64 bit arithmetic (\<open>arithutil.cpp\<close>). An upstream filter hands samples to the input pin; the
  renderer waits on the reference clock until a sample is due, has the derived class draw it, and
  reports the end of the stream to the filter graph, while the graph's control thread starts, pauses,
  stops, flushes and disconnects it.

  \<^bold>\<open>Theories.\<close>

  \<^item> \<open>AR_Prelude\<close>: the machine integers (words of the source's width, signed where read by \<open>sint\<close>),
    \<open>HRESULT\<close>s, the collections and the generic lemmas on words.
  \<^item> \<open>Ieee\<close>, \<open>Pcm\<close>, \<open>Pcm_Props\<close>: \<open>src/StupidAR/pcm.h\<close>. \<open>Ieee\<close> is binary32 and binary64 arithmetic as the
    exact rational result rounded once to nearest; \<open>Pcm\<close> has one definition for each specialisation of
    \<open>convert_sample\<close>. Shown: every integer conversion is the rescaling of an amplitude, round trips
    between the formats, the error of the float conversions, and their overflow at full scale.
  \<^item> \<open>Fifo_Spec\<close>: the interface of a first-in first-out container as the locale \<open>fifo\<close>, extended by
    \<open>bounded_fifo\<close>; interpreted on the blocking queue and on the pointer list.
  \<^item> \<open>Blocking_Queue\<close>, \<open>Blocking_Queue_Props\<close>: \<open>src/StupidAR/BlockingQueue.h\<close> as a monitor whose critical
    sections are atomic events; every interleaving behaves as a sequential bounded queue, no wake-up is
    lost, a flush closes the queue.
  \<^item> \<open>Arith_Util\<close>, \<open>Arith_Util_Props\<close>: \<open>llMulDiv\<close> and \<open>Int64x32Div32\<close> of \<open>src/baseclasses/arithutil.cpp\<close>
    against their mathematical value, with wrap-around and saturation.
  \<^item> \<open>Base_List\<close>, \<open>Base_List_Props\<close>: \<open>CBaseList\<close> and its node cache on an explicit memory; every operation
    refines the function on plain lists, ends, and loses no node.
  \<^item> \<open>Renderer\<close>, \<open>Renderer_Props\<close>: \<open>CBaseRenderer\<close>, \<open>CRendererInputPin\<close> and what they use of \<open>CBaseFilter\<close>,
    \<open>CBasePin\<close> and \<open>CBaseInputPin\<close>, with \<open>MyRenderer\<close> as derived class; a step relation interleaves the
    control thread, the streaming thread, the clock and the timer, and an invariant holds in every
    reachable state.
  \<^item> \<open>Agenda_Spec\<close>: advises ordered by time, what falls due, and the contract of an agenda as the locale
    \<open>agenda_service\<close>, interpreted on the schedule.
  \<^item> \<open>Schedule\<close>, \<open>Schedule_Props\<close>: \<open>CAMSchedule\<close> on an explicit memory of packets; adding, cancelling and
    dispatching refine the functions on lists, and the dispatch of periodic advises ends.
  \<^item> \<open>Ref_Clock\<close>, \<open>Ref_Clock_Props\<close>: \<open>CBaseReferenceClock\<close> with its advise thread over a wrapping millisecond
    counter; in every interleaving of clients, thread and time the reported time never decreases and no
    advise is overdue while the thread sleeps.
  \<^item> \<open>Media_Sample\<close>, \<open>Media_Sample_Props\<close>: \<open>CMediaSample\<close>; invariant of its flags, round trips of its
    properties.
  \<^item> \<open>Allocator\<close>, \<open>Allocator_Props\<close>: \<open>CBaseAllocator\<close> and \<open>CMemAllocator\<close>; ownership of samples, the
    semaphore protocol, the postponed decommit and the layout of the buffers under any interleaving of
    clients.
  \<^item> \<open>Output_Queue\<close>, \<open>Output_Queue_Flow\<close>, \<open>Output_Queue_Props\<close>: \<open>COutputQueue\<close>. \<open>Output_Queue_Flow\<close> interleaves its thread
    with threads that deliver, flush, reset and destroy; what goes downstream is what was queued, in order,
    each sample is released once, no wake-up is lost; the queue without a thread in closed form.
  \<^item> \<open>Media_Type\<close>, \<open>Media_Type_Props\<close>: \<open>mtype.cpp\<close> and \<open>fourcc.h\<close> on a memory with the blocks of the task allocator and the
    counts of COM objects; in every run each format block has one owner and each reference is counted.
  \<^item> \<open>Enumerators\<close>, \<open>Enumerators_Props\<close>: \<open>CEnumPins\<close> and \<open>CEnumMediaTypes\<close>; both are cursors over a list, by one locale
    interpreted on each; no pin is enumerated twice.
  \<^item> \<open>Pin_Connect\<close>, \<open>Pin_Connect_Props\<close>: how \<open>CBasePin\<close>, \<open>CBaseOutputPin\<close> and \<open>CBaseInputPin\<close> agree on a media type and an
    allocator, connect and disconnect; both sides or none are connected, references are given back.
  \<^item> \<open>Dynamic_Pin\<close>, \<open>Dynamic_Pin_Props\<close>: \<open>CDynamicOutputPin\<close>; its threads block, use and unblock the pin in any
    interleaving; nobody uses a blocked pin and no wake-up is lost; the change of the type of a running connection.
  \<^item> \<open>Video_Quality\<close>, \<open>Video_Quality_Props\<close>: \<open>CBaseVideoRenderer\<close>; when a frame is drawn, delayed or dropped, what the
    supplier is told, throttling, and the statistics with their integer square root.
  \<^item> \<open>Stream_Control\<close>, \<open>Stream_Control_Props\<close>: \<open>CBaseStreamControl\<close>; samples obey the schedule of start and stop commands, and the
    thread that holds a sample is woken when the decision about it may change.
  \<^item> \<open>Transform\<close>, \<open>Transform_Props\<close>: \<open>CTransformFilter\<close> with its pins; stopping while a sample is in work, runtime errors, and what the output
    sample takes from the input sample.
  \<^item> this theory: a sample stamped by a source, scheduled by the renderer on the reference clock and
    signalled by the clock's thread.

  \<^bold>\<open>Loops, fuel and undefined behaviour.\<close> A loop over pointers is a \<open>partial_function\<close> in the option
  monad: \<open>None\<close> is a bad dereference or a loop that does not end, and the theorems show \<open>Some\<close>. The long
  division of \<open>llMulDiv\<close> runs exactly the 64 iterations of the source. A cast of a float that does not fit its
  integer type is \<open>None\<close>.

  \<^bold>\<open>Assumptions.\<close> A successful \<open>AdviseTime\<close> returns a nonzero cookie (shown of the modelled clock);
  \<open>EndFlush\<close> comes when no thread pushes data, samples are sent to a connected pin only, and the clock is
  changed only when stopped, as the comments of the sources demand. The clock is read at least every
  \<open>2 ^ 31\<close> milliseconds, its private time stays in \<open>[0, 2 ^ 61)\<close>, periods are below \<open>2 ^ 62\<close>, its 64 bit
  cookies do not wrap, and it is not set forward by half a millisecond or less (which does not wake the
  thread). Fewer than \<open>2 ^ 31\<close> threads wait for or poll an allocator, and a client changes only samples it
  holds. No samples arrive at an output queue while \<open>EndFlush\<close> or the destructor runs, and its list finds memory for
  the packets that are not samples. Pins that connect belong to stopped filters (or the output pin may reconnect when
  active), \<open>Decommit\<close> succeeds, and a derived \<open>CompleteConnect\<close> succeeds with \<open>S_OK\<close> only; \<open>pin_connect_one_sided\<close>
  shows what happens otherwise. A filter and a pin answer their enumerators with fewer than \<open>2 ^ 31\<close> pins and types. Pointers and cookies have the width of the 64 bit build; \<open>ASSERT\<close> is the release build's,
  which does nothing.

  \<^bold>\<open>Not modelled.\<close> Pull pins and source filters are not modelled yet; windows, property pages, video drawing, registration and debugging are calls
  to the operating system without logic of their own to verify.
\<close>

section \<open>From the stamp of a sample to its presentation\<close>

text \<open>A \<open>CMediaSample\<close> seen through the interface the renderer uses; \<open>undef\<close> is what the variables for the
  times hold before the call, \<open>ok\<close> whether memory for a copy of the media type is found.\<close>

definition sample_interface :: "nat \<Rightarrow> REFERENCE_TIME \<times> REFERENCE_TIME \<Rightarrow> bool \<Rightarrow> CMediaSample \<Rightarrow> IMediaSample" where
  "sample_interface n undef ok s =
     \<lparr>sid = n,
      sample2 = (case CMediaSample_GetProperties sizeof_props True s of
          (hr, Some q) \<Rightarrow> Some (hr, \<lparr>AM_SAMPLE2_PROPERTIES.dwTypeSpecificFlags = SAMPLE2_PROPERTIES.dwTypeSpecificFlags q,
             AM_SAMPLE2_PROPERTIES.dwSampleFlags = SAMPLE2_PROPERTIES.dwSampleFlags q,
             AM_SAMPLE2_PROPERTIES.lActual = SAMPLE2_PROPERTIES.lActual q, AM_SAMPLE2_PROPERTIES.tStart = SAMPLE2_PROPERTIES.tStart q,
             AM_SAMPLE2_PROPERTIES.tStop = SAMPLE2_PROPERTIES.tStop q, AM_SAMPLE2_PROPERTIES.dwStreamId = SAMPLE2_PROPERTIES.dwStreamId q,
             AM_SAMPLE2_PROPERTIES.pMediaType = SAMPLE2_PROPERTIES.pMediaType q,
             AM_SAMPLE2_PROPERTIES.pbBuffer = SAMPLE2_PROPERTIES.pbBuffer q, AM_SAMPLE2_PROPERTIES.cbBuffer = SAMPLE2_PROPERTIES.cbBuffer q\<rparr>)
        | (hr, None) \<Rightarrow> None),
      IsDiscontinuity = CMediaSample_IsDiscontinuity s, IsPreroll = CMediaSample_IsPreroll s, IsSyncPoint = CMediaSample_IsSyncPoint s,
      IMediaSample.GetTime = (let (hr, t) = CMediaSample_GetTime s in (hr, case t of None \<Rightarrow> undef | Some t \<Rightarrow> t)),
      GetMediaType = CMediaSample_GetMediaType ok s, GetPointer = CMediaSample_GetPointer s,
      GetActualDataLength = CMediaSample_GetActualDataLength s, GetSize = CMediaSample_GetSize s\<rparr>"

lemma stamped_sample_times:
  assumes "m_pClock r" and "sint a \<le> sint b"
  shows "GetSampleTimes (sample_interface n u ok (snd (CMediaSample_SetTime (Some a) (Some b) t))) r = (S_FALSE, a)"
  using assms by (simp add: GetSampleTimes_def sample_interface_def CMediaSample_SetTime_def CMediaSample_GetTime_def word_bits)

text \<open>C23. A sample that a source stamped with the stream time \<open>a\<close> is shown when the clock reaches the
  start of the stream plus \<open>a\<close>. The renderer schedules it with the answer of the reference clock, which
  satisfies what the renderer's invariant assumes of a clock and enters in its schedule one event at that time under
  the cookie the renderer keeps. Once that time is reached the turn of the clock's thread sets the event
  of the renderer, and cancelling with the kept cookie removes the entry.\<close>

theorem sample_presented_on_time:
  assumes "clock_reachable y" and "m_pSchedule (clk y) = Some s" and "represents s as" and "room s" and "m_dwNextCookie s \<noteq> - 1"
    and "m_pClock r" and "sint a \<le> sint b" and "0 < sint (m_tStart r + a)" and "m_tStart r + a \<noteq> MAX_TIME"
    and "AdviseTime (m_tStart r) a hRenderEvent True (clk y) = Some (hr, k, c)" and "advise_answer e = (hr, unat k)"
    and "x = sample_interface n u ok (snd (CMediaSample_SetTime (Some a) (Some b) t))"
  shows "env_ok e \<and> ScheduleSample e (Some x) r = (True, r\<lparr>m_dwAdvise := unat k, clock_pending := True\<rparr>) \<and>
    clock_reachable (y\<lparr>clk := c\<rparr>) \<and>
    (\<exists>s'. m_pSchedule c = Some s' \<and>
      represents s' (insert_new (new_advise k (m_tStart r + a) 0 hRenderEvent False) as) \<and>
      (\<forall>m. clock_reachable (y\<lparr>clk := c, ms := m\<rparr>) \<longrightarrow> sint (m_tStart r + a) \<le> private_at (y\<lparr>clk := c\<rparr>) m \<longrightarrow>
         (\<exists>dw c' s'' ss. AdviseThread_turn (of_nat m) c = Some (Some dw, c') \<and> m_pSchedule c' = Some s'' \<and>
            signals s'' = signals s' @ ss \<and> SetEvent hRenderEvent \<in> set ss)) \<and>
      (\<exists>c' s''. clock_Unadvise (of_nat (unat k)) c = Some (S_OK, c') \<and> m_pSchedule c' = Some s'' \<and> represents s'' as))"
proof -
  let ?t = "m_tStart r + a" and ?k = "m_dwNextCookie s + 1"
  let ?a = "new_advise ?k ?t 0 hRenderEvent False"
  have t: "sint ?t < max_time" using assms(9) less_max_time by blast
  have k0: "?k \<noteq> 0" using assms(5) by (metis eq_neg_iff_add_eq_0)
  obtain s' where s': "AddAdvisePacket ?t 0 hRenderEvent False s = Some (?k, s')" "represents s' (insert_new ?a as)"
    using AddAdvisePacket_refines [OF assms(3) t assms(5) refl, of 0 hRenderEvent False] assms(4) by auto
  have "AdviseTime (m_tStart r) a hRenderEvent True (clk y) = Some (NOERROR, ?k, (clk y)\<lparr>m_pSchedule := Some s'\<rparr>)"
    using assms(2,8,9) s'(1) k0 by (simp add: AdviseTime_def Let_def not_le)
  then have c: "hr = NOERROR" "k = ?k" "c = (clk y)\<lparr>m_pSchedule := Some s'\<rparr>" using assms(10) by auto
  have env: "env_ok e" using assms(11) c k0 by (simp add: env_ok_def unat_eq_zero)
  have sched: "ScheduleSample e (Some x) r = (True, r\<lparr>m_dwAdvise := unat k, clock_pending := True\<rparr>)"
    using stamped_sample_times [OF assms(6,7)] assms(11,12) c(1) by (simp add: ScheduleSample_def hr_defs SUCCEEDED_def)
  have reach: "clock_reachable (y\<lparr>clk := c\<rparr>)"
    using clock_reachable.step [OF assms(1) clock_step.advise_time [OF assms(2,5,10)]] .
  have turn: "\<exists>dw c' s'' ss. AdviseThread_turn (of_nat m) c = Some (Some dw, c') \<and> m_pSchedule c' = Some s'' \<and>
      signals s'' = signals s' @ ss \<and> SetEvent hRenderEvent \<in> set ss"
    if y2: "clock_reachable (y\<lparr>clk := c, ms := m\<rparr>)" and due: "sint ?t \<le> private_at (y\<lparr>clk := c\<rparr>) m" for m
  proof -
    let ?y = "y\<lparr>clk := c, ms := m\<rparr>"
    obtain as2 where i: "time_inv ?y" "agenda_inv ?y s' as2"
      using clock_reachable_inv [OF y2] c(3) by (auto simp: clock_inv_def agenda_inv_def)
    then have "as2 = insert_new ?a as" using represents_unique [OF _ s'(2)] by (simp add: agenda_inv_def)
    moreover have "signal_of ?a = SetEvent hRenderEvent" "due ?a \<le> private_at ?y (ms ?y)"
      using due by (simp_all add: new_advise_def private_at_def signal_of_def)
    ultimately show ?thesis using turn_signals_due [OF i] by fastforce
  qed
  have fresh: "cookie b \<noteq> ?k" if "b \<in> set as" for b
  proof -
    have "unat (cookie b) \<le> unat (m_dwNextCookie s)" using assms(3) that by (simp add: represents_def agenda_def word_le_nat_alt)
    moreover have "unat ?k = Suc (unat (m_dwNextCookie s))" using k0 unatSuc [of "m_dwNextCookie s"] by (simp add: add.commute)
    ultimately show ?thesis by auto
  qed
  have gone: "filter (\<lambda>b. cookie b \<noteq> ?k) (insert_new ?a as) = as"
    by (rule filter_insert_new) (use fresh in \<open>auto simp: new_advise_def\<close>)
  have cancel: "\<exists>c' s''. clock_Unadvise (of_nat (unat k)) c = Some (S_OK, c') \<and> m_pSchedule c' = Some s'' \<and> represents s'' as"
    using Unadvise_refines [OF s'(2), of ?k] gone c by (auto simp: clock_Unadvise_def new_advise_def)
  show ?thesis using env sched reach turn cancel s'(2) c by auto
qed

theorem sample_presented_on_time_witness:
  "\<exists>e c. env_ok e \<and> AdviseTime 10000000 500000 7 True (clk clock0) = Some (NOERROR, 1, c) \<and>
     ScheduleSample e (Some (sample_interface 0 (0, 0) True (snd (CMediaSample_SetTime (Some 500000) (Some 600000) msample0))))
       ((CBaseRenderer True)\<lparr>m_pClock := True, m_tStart := 10000000\<rparr>) =
       (True, (CBaseRenderer True)\<lparr>m_pClock := True, m_tStart := 10000000, m_dwAdvise := 1, clock_pending := True\<rparr>)"
proof -
  let ?r = "(CBaseRenderer True)\<lparr>m_pClock := True, m_tStart := 10000000\<rparr>" and ?e = "env0\<lparr>advise_answer := (NOERROR, unat (1 :: u64))\<rparr>"
  obtain s where s: "AddAdvisePacket 10500000 0 7 False schedule0 = Some (1, s)"
    using AddAdvisePacket_refines [OF schedule0(1) _ _ refl, of 10500000 0 7 False] schedule0 by (auto simp: max_time_def)
  have a: "AdviseTime (m_tStart ?r) 500000 7 True (clk clock0) = Some (NOERROR, 1, (clk clock0)\<lparr>m_pSchedule := Some s\<rparr>)"
    using s clock0_eval by (simp add: AdviseTime_def MAX_TIME_def Let_def)
  have "advise_answer ?e = (NOERROR, unat (1 :: u64))" by simp
  from sample_presented_on_time [OF clock0 clock0_eval(1) schedule0(1,2) _ _ _ _ _ a this refl, of 600000 0 "(0, 0)" True msample0]
  show ?thesis using a by (intro exI [of _ ?e]) (simp add: schedule0(3) MAX_TIME_def)
qed

end
